(* ===== verification/Prelude.thy ===== *)
theory Prelude
  imports Main "HOL-Library.Word" "HOL-Library.Monad_Syntax"
begin

text \<open>
  Shared vocabulary of the development: the machine types of include/tx/base.h, the error
  codes of include/tx/errordef.h, the result type, and the way a run of kernel code is
  represented.

  A run of kernel code that may stop the machine has type \<^typ>\<open>'a option\<close>. \<^term>\<open>None\<close> stands
  for every run that does not come back with a value: a failed \<open>assert\<close> or a \<open>crash\<close>
  (include/tx/assert.h prints a message and halts), and an access outside of an object, which
  C leaves undefined. Proving that a model function returns \<^term>\<open>Some\<close> is therefore a proof
  that no assertion fails and no access is out of bounds. The error returns of the code are
  not of this kind: they are values, \<^term>\<open>Inl e\<close> of a sum type whose right part is the
  value that is returned on success.

  A parameter that the code passes by pointer is passed by value and returned updated. Such a
  pointer is never NULL in the model, so a check of the parameter against NULL at the start of
  a function (\<open>assert(buf)\<close>, or \<open>if (!buf) return EINVAL\<close>) is always passed. Debug
  output (\<open>print_dbg\<close>) has no effect on the state and is left out.
\<close>

unbundle bit_operations_syntax

section \<open>Machine types\<close>

type_synonym u8 = "8 word"
type_synonym u16 = "16 word"
type_synonym u32 = "32 word"
type_synonym u64 = "64 word"
type_synonym byte = "8 word"

text \<open>
  The signed types \<open>sz\<close> and \<open>ptr\<close> are 64 bits wide. The sizes and offsets of the code stay
  far below \<open>2 ^ 63\<close>, so they are integers here; the few places where the code itself tests
  for overflow write the bound out with \<open>SZ_MAX\<close>.
\<close>

type_synonym sz = int

definition SZ_MAX :: int where
  "SZ_MAX = 2 ^ 63 - 1"

definition PAGE_SIZE :: int where
  "PAGE_SIZE = 4096"

definition ALIGN_UP :: "int \<Rightarrow> int \<Rightarrow> int" where
  "ALIGN_UP v a = (v + a - 1) AND NOT (a - 1)"

definition ALIGN_DOWN :: "int \<Rightarrow> int \<Rightarrow> int" where
  "ALIGN_DOWN v a = v AND NOT (a - 1)"

definition IS_ALIGNED :: "int \<Rightarrow> int \<Rightarrow> bool" where
  "IS_ALIGNED v a \<longleftrightarrow> ALIGN_DOWN v a = v"

definition IN_RANGE :: "int \<Rightarrow> int \<Rightarrow> int \<Rightarrow> bool" where
  "IN_RANGE a base len \<longleftrightarrow> a \<ge> base \<and> a < base + len"

section \<open>Runs that may halt\<close>

definition kassert :: "bool \<Rightarrow> unit option" where
  "kassert c = (if c then Some () else None)"

definition crash :: "'a option" where
  "crash = None"

text \<open>Reading and writing element \<open>i\<close> of an array; outside of the array the run has no value.\<close>

definition peek :: "'a list \<Rightarrow> int \<Rightarrow> 'a option" where
  "peek xs i = (if 0 \<le> i \<and> i < int (length xs) then Some (xs ! nat i) else None)"

definition poke :: "'a list \<Rightarrow> int \<Rightarrow> 'a \<Rightarrow> 'a list option" where
  "poke xs i v = (if 0 \<le> i \<and> i < int (length xs) then Some (xs[nat i := v]) else None)"

named_theorems kern "facts about runs that may halt"

lemma kassert_Some [simp, kern]: "kassert c = Some u \<longleftrightarrow> c"
  by (simp add: kassert_def)

lemma kassert_None [simp, kern]: "kassert c = None \<longleftrightarrow> \<not> c"
  by (simp add: kassert_def)

lemma kassert_True [simp]: "kassert True = Some ()"
  by (simp add: kassert_def)

lemma kassert_False [simp]: "kassert False = None"
  by (simp add: kassert_def)

lemma kassert_bind [kern]: "(kassert c \<bind> f) = (if c then f () else None)"
  by (simp add: kassert_def)

lemma peek_Some [kern]: "peek xs i = Some v \<longleftrightarrow> 0 \<le> i \<and> i < int (length xs) \<and> v = xs ! nat i"
  by (auto simp: peek_def)

lemma poke_Some [kern]:
  "poke xs i v = Some ys \<longleftrightarrow> 0 \<le> i \<and> i < int (length xs) \<and> ys = xs[nat i := v]"
  by (auto simp: poke_def)

lemma peek_nat [simp]: "n < length xs \<Longrightarrow> peek xs (int n) = Some (xs ! n)"
  by (simp add: peek_def)

lemma poke_nat [simp]: "n < length xs \<Longrightarrow> poke xs (int n) v = Some (xs[n := v])"
  by (simp add: poke_def)

section \<open>Results and error codes\<close>

datatype errno =
    ENOENT | EIO | EAGAIN | ENOMEM | EEXIST | ENODEV | ENOTDIR | EINVAL | ENAMETOOLONG
  | ENOBUFS | EHOSTUNREACH

type_synonym 'a res = "errno + 'a"

abbreviation ok :: "unit res" where
  "ok \<equiv> Inr ()"

definition is_error :: "'a res \<Rightarrow> bool" where
  "is_error r = (case r of Inl _ \<Rightarrow> True | Inr _ \<Rightarrow> False)"

lemma is_error_simps [simp]: "is_error (Inl e)" "\<not> is_error (Inr v)"
  by (simp_all add: is_error_def)

fun errno_code :: "errno \<Rightarrow> u16" where
  "errno_code ENOENT = 2"
| "errno_code EIO = 5"
| "errno_code EAGAIN = 11"
| "errno_code ENOMEM = 12"
| "errno_code EEXIST = 17"
| "errno_code ENODEV = 19"
| "errno_code ENOTDIR = 20"
| "errno_code EINVAL = 22"
| "errno_code ENAMETOOLONG = 36"
| "errno_code ENOBUFS = 105"
| "errno_code EHOSTUNREACH = 113"

text \<open>
  \<open>STR(s)\<close>: a string literal as its bytes, without the terminating zero. Strings and byte
  views are both lists of bytes, as the casts between them in string.h and byte.h change
  nothing but the C type.
\<close>

definition cstr :: "string \<Rightarrow> byte list" where
  "cstr s = map of_char s"

definition error_code_str :: "u16 \<Rightarrow> byte list" where
  "error_code_str code =
     (if code = 2 then cstr ''No such file or directory (ENOENT)''
      else if code = 5 then cstr ''Input/output error (EIO)''
      else if code = 11 then cstr ''Resource temporarily unavailable (EAGAIN)''
      else if code = 12 then cstr ''Cannot allocate memory (ENOMEM)''
      else if code = 17 then cstr ''File exists (EEXIST)''
      else if code = 19 then cstr ''No such device (ENODEV)''
      else if code = 20 then cstr ''Not a directory (ENOTDIR)''
      else if code = 22 then cstr ''Invalid argument (EINVAL)''
      else if code = 36 then cstr ''File name too long (ENAMETOOLONG)''
      else if code = 105 then cstr ''No buffer space available (ENOBUFS)''
      else if code = 113 then cstr ''No route to host (EHOSTUNREACH)''
      else cstr ''Unknown error'')"

text \<open>The error codes are pairwise different, so the datatype loses nothing against the numbers.\<close>

lemma errno_code_inj: "errno_code a = errno_code b \<longleftrightarrow> a = b"
  by (cases a; cases b) simp_all

section \<open>Generic lemmas\<close>

lemma nth_append_list_update:
  "(xs @ y # zs)[length xs := v] = xs @ v # zs"
  by (induction xs) simp_all

lemma unat_bound: "unat (x :: 'a::len word) < 2 ^ LENGTH('a)"
  by (rule unsigned_less)

lemma and_pow2_mod: "(x :: int) AND (2 ^ k - 1) = x mod 2 ^ k"
  by (metis mask_eq_exp_minus_1 take_bit_eq_mask take_bit_eq_mod)

lemma and_not_pow2: "(x :: int) AND NOT (2 ^ k - 1) = 2 ^ k * (x div 2 ^ k)"
proof -
  have "x AND NOT (mask k) = push_bit k (drop_bit k x)"
    by (rule bit_eqI) (auto simp: bit_simps)
  then show ?thesis
    by (simp add: push_bit_eq_mult drop_bit_eq_div mask_eq_exp_minus_1 mult.commute)
qed

lemma ALIGN_UP_pow2: "ALIGN_UP v (2 ^ k) = 2 ^ k * ((v + 2 ^ k - 1) div 2 ^ k)"
  by (simp add: ALIGN_UP_def and_not_pow2)

lemma ALIGN_UP_bounds: "v \<le> ALIGN_UP v (2 ^ k) \<and> ALIGN_UP v (2 ^ k) < v + 2 ^ k"
proof -
  have "2 ^ k * ((v + 2 ^ k - 1) div 2 ^ k) = v + 2 ^ k - 1 - (v + 2 ^ k - 1) mod 2 ^ k"
    by (simp add: minus_mod_eq_mult_div)
  moreover have "0 \<le> (v + 2 ^ k - 1) mod (2 ^ k :: int)" "(v + 2 ^ k - 1) mod (2 ^ k :: int) < 2 ^ k"
    by simp_all
  ultimately show ?thesis unfolding ALIGN_UP_pow2 by linarith
qed

lemma IS_ALIGNED_pow2: "IS_ALIGNED v (2 ^ k) \<longleftrightarrow> v mod 2 ^ k = 0"
  by (auto simp: IS_ALIGNED_def ALIGN_DOWN_def and_not_pow2 minus_mod_eq_mult_div [symmetric])

lemma mod_succ_less: "(0::int) < n \<Longrightarrow> 0 \<le> (i + 1) mod n \<and> (i + 1) mod n < n"
  by simp

end
