(* ===== verification/Dlist.thy ===== *)
theory Dlist
  imports Prelude
begin

text \<open>
  The intrusive doubly linked lists of include/tx/list.h. A node is an address of type
  \<^typ>\<open>'a\<close>; the memory maps an address to the two links that are stored there. An address
  outside of the domain is not a list node at all, and touching it has no value. A link that
  is NULL is \<^term>\<open>None\<close>. Each operation performs the reads and the writes of the C code
  one after the other, so aliasing between the nodes is part of the model.

  The predicate \<open>ring\<close> abstracts a well-formed circular list to the list of its members. The
  locale \<open>intrusive_list\<close> states what the users of the lists (the buddy allocator, the
  scheduler and TCP) rely on; it is interpreted on the operations at the end.
\<close>

section \<open>State and operations\<close>

record 'a dlist =
  dl_prev :: "'a option"
  dl_next :: "'a option"

type_synonym 'a heap = "'a \<Rightarrow> 'a dlist option"

definition set_next :: "'a heap \<Rightarrow> 'a \<Rightarrow> 'a option \<Rightarrow> 'a heap option" where
  "set_next h a v = (case h a of None \<Rightarrow> None | Some d \<Rightarrow> Some (h(a \<mapsto> d\<lparr>dl_next := v\<rparr>)))"

definition set_prev :: "'a heap \<Rightarrow> 'a \<Rightarrow> 'a option \<Rightarrow> 'a heap option" where
  "set_prev h a v = (case h a of None \<Rightarrow> None | Some d \<Rightarrow> Some (h(a \<mapsto> d\<lparr>dl_prev := v\<rparr>)))"

definition dlist_init_empty :: "'a heap \<Rightarrow> 'a \<Rightarrow> 'a heap option" where
  "dlist_init_empty h head = do {
     h \<leftarrow> set_next h head (Some head);
     set_prev h head (Some head)
   }"

text \<open>
  Binding the link \<open>head->next\<close> is the assertion that it is not NULL. The link is read again
  after the first write, as the code does.
\<close>

definition dlist_insert :: "'a heap \<Rightarrow> 'a \<Rightarrow> 'a \<Rightarrow> 'a heap option" where
  "dlist_insert h head new = do {
     d \<leftarrow> h head;
     n \<leftarrow> dl_next d;
     h \<leftarrow> set_prev h n (Some new);
     d \<leftarrow> h head;
     h \<leftarrow> set_next h new (dl_next d);
     h \<leftarrow> set_next h head (Some new);
     set_prev h new (Some head)
   }"

definition dlist_remove :: "'a heap \<Rightarrow> 'a \<Rightarrow> 'a heap option" where
  "dlist_remove h head = do {
     d \<leftarrow> h head;
     p \<leftarrow> dl_prev d;
     h \<leftarrow> set_next h p (dl_next d);
     d \<leftarrow> h head;
     n \<leftarrow> dl_next d;
     h \<leftarrow> set_prev h n (dl_prev d);
     dlist_init_empty h head
   }"

definition dlist_is_empty :: "'a heap \<Rightarrow> 'a \<Rightarrow> bool option" where
  "dlist_is_empty h head = do {
     d \<leftarrow> h head;
     if Some head = dl_next d \<and> Some head \<noteq> dl_prev d then crash
     else if Some head = dl_prev d \<and> Some head \<noteq> dl_next d then crash
     else Some (Some head = dl_next d)
   }"

section \<open>The abstraction to a list\<close>

definition nxt :: "'a heap \<Rightarrow> 'a \<Rightarrow> 'a option" where
  "nxt h a = (case h a of None \<Rightarrow> None | Some d \<Rightarrow> dl_next d)"

definition prv :: "'a heap \<Rightarrow> 'a \<Rightarrow> 'a option" where
  "prv h a = (case h a of None \<Rightarrow> None | Some d \<Rightarrow> dl_prev d)"

text \<open>\<open>seg h a xs b\<close>: the links lead from \<open>a\<close> through the nodes \<open>xs\<close> to \<open>b\<close>, and back.\<close>

fun seg :: "'a heap \<Rightarrow> 'a \<Rightarrow> 'a list \<Rightarrow> 'a \<Rightarrow> bool" where
  "seg h a [] b \<longleftrightarrow> nxt h a = Some b \<and> prv h b = Some a"
| "seg h a (x # xs) b \<longleftrightarrow> nxt h a = Some x \<and> prv h x = Some a \<and> seg h x xs b"

definition ring :: "'a heap \<Rightarrow> 'a \<Rightarrow> 'a list \<Rightarrow> bool" where
  "ring h head xs \<longleftrightarrow> seg h head xs head \<and> distinct (head # xs)"

lemma seg_append: "seg h a (xs @ y # ys) b \<longleftrightarrow> seg h a xs y \<and> seg h y ys b"
  by (induction xs arbitrary: a) auto

lemma seg_frame:
  assumes "seg h a xs b"
    and "\<And>y. y \<in> insert a (set xs) \<Longrightarrow> nxt h' y = nxt h y"
    and "\<And>y. y \<in> insert b (set xs) \<Longrightarrow> prv h' y = prv h y"
  shows "seg h' a xs b"
  using assms by (induction xs arbitrary: a) auto

lemma nxt_dom: "nxt h a = Some b \<Longrightarrow> h a \<noteq> None"
  by (auto simp: nxt_def split: option.splits)

lemma prv_dom: "prv h a = Some b \<Longrightarrow> h a \<noteq> None"
  by (auto simp: prv_def split: option.splits)

lemma seg_dom: "seg h a xs b \<Longrightarrow> y \<in> insert a (insert b (set xs)) \<Longrightarrow> h y \<noteq> None"
  by (induction xs arbitrary: a) (auto dest: nxt_dom prv_dom)

lemma ring_dom: "ring h head xs \<Longrightarrow> y \<in> set (head # xs) \<Longrightarrow> h y \<noteq> None"
  using seg_dom [of h head xs head y] by (auto simp: ring_def)

section \<open>What the operations do to the links\<close>

lemma set_next_links:
  assumes "h a \<noteq> None"
  shows "\<exists>h'. set_next h a v = Some h' \<and> nxt h' = (nxt h)(a := v) \<and> prv h' = prv h \<and> dom h' = dom h \<and>
    (\<forall>y. y \<noteq> a \<longrightarrow> h' y = h y)"
proof -
  from assms obtain d where "h a = Some d" by auto
  then show ?thesis
    by (intro exI [of _ "h(a \<mapsto> d\<lparr>dl_next := v\<rparr>)"])
      (auto simp: set_next_def nxt_def prv_def fun_eq_iff)
qed

lemma set_prev_links:
  assumes "h a \<noteq> None"
  shows "\<exists>h'. set_prev h a v = Some h' \<and> prv h' = (prv h)(a := v) \<and> nxt h' = nxt h \<and> dom h' = dom h \<and>
    (\<forall>y. y \<noteq> a \<longrightarrow> h' y = h y)"
proof -
  from assms obtain d where "h a = Some d" by auto
  then show ?thesis
    by (intro exI [of _ "h(a \<mapsto> d\<lparr>dl_prev := v\<rparr>)"])
      (auto simp: set_prev_def nxt_def prv_def fun_eq_iff)
qed

lemma dlist_init_empty_links:
  assumes "h a \<noteq> None"
  shows "\<exists>h'. dlist_init_empty h a = Some h' \<and> nxt h' = (nxt h)(a := Some a) \<and>
    prv h' = (prv h)(a := Some a) \<and> dom h' = dom h \<and> (\<forall>y. y \<noteq> a \<longrightarrow> h' y = h y)"
proof -
  obtain h1 where 1: "set_next h a (Some a) = Some h1" "nxt h1 = (nxt h)(a := Some a)"
    "prv h1 = prv h" "dom h1 = dom h" "\<forall>y. y \<noteq> a \<longrightarrow> h1 y = h y"
    using set_next_links [of h a "Some a", OF assms] by auto
  have "h1 a \<noteq> None" using 1(4) assms by (auto simp: dom_def set_eq_iff)
  from set_prev_links [of h1 a "Some a", OF this] 1 show ?thesis
    by (auto simp: dlist_init_empty_def)
qed

lemma dlist_insert_links:
  assumes "nxt h a = Some b" "h b \<noteq> None" "h new \<noteq> None" "new \<noteq> a"
  shows "\<exists>h'. dlist_insert h a new = Some h' \<and>
    nxt h' = (nxt h)(new := Some b, a := Some new) \<and>
    prv h' = (prv h)(b := Some new, new := Some a) \<and>
    dom h' = dom h \<and> (\<forall>y. y \<notin> {a, b, new} \<longrightarrow> h' y = h y)"
proof -
  from assms(1) obtain d where d: "h a = Some d" "dl_next d = Some b"
    by (auto simp: nxt_def split: option.splits)
  obtain h1 where 1: "set_prev h b (Some new) = Some h1" "prv h1 = (prv h)(b := Some new)"
    "nxt h1 = nxt h" "dom h1 = dom h" "\<forall>y. y \<noteq> b \<longrightarrow> h1 y = h y"
    using set_prev_links [of h b "Some new", OF assms(2)] by auto
  have "nxt h1 a = Some b" using 1(3) assms(1) by simp
  then obtain d' where d': "h1 a = Some d'" "dl_next d' = Some b"
    by (auto simp: nxt_def split: option.splits)
  have "h1 new \<noteq> None" using 1(4) assms(3) by (auto simp: dom_def set_eq_iff)
  then obtain h2 where 2: "set_next h1 new (Some b) = Some h2" "nxt h2 = (nxt h1)(new := Some b)"
    "prv h2 = prv h1" "dom h2 = dom h1" "\<forall>y. y \<noteq> new \<longrightarrow> h2 y = h1 y"
    using set_next_links [of h1 new "Some b"] by auto
  have "h2 a \<noteq> None" using 2(5) d' assms(4) by auto
  then obtain h3 where 3: "set_next h2 a (Some new) = Some h3" "nxt h3 = (nxt h2)(a := Some new)"
    "prv h3 = prv h2" "dom h3 = dom h2" "\<forall>y. y \<noteq> a \<longrightarrow> h3 y = h2 y"
    using set_next_links [of h2 a "Some new"] by auto
  have "dom h3 = dom h" using 3(4) 2(4) 1(4) by simp
  then have "h3 new \<noteq> None" using assms(3) by (auto simp: dom_def set_eq_iff)
  then obtain h4 where 4: "set_prev h3 new (Some a) = Some h4" "prv h4 = (prv h3)(new := Some a)"
    "nxt h4 = nxt h3" "dom h4 = dom h3" "\<forall>y. y \<noteq> new \<longrightarrow> h4 y = h3 y"
    using set_prev_links [of h3 new "Some a"] by auto
  have "dlist_insert h a new = Some h4"
    using d d' 1(1) 2(1) 3(1) 4(1) by (simp add: dlist_insert_def)
  then show ?thesis using 1 2 3 4 by simp
qed

lemma dlist_remove_links:
  assumes "prv h x = Some p" "nxt h x = Some n" "h p \<noteq> None" "h n \<noteq> None" "p \<noteq> x" "n \<noteq> x"
  shows "\<exists>h'. dlist_remove h x = Some h' \<and>
    nxt h' = (nxt h)(p := Some n, x := Some x) \<and>
    prv h' = (prv h)(n := Some p, x := Some x) \<and>
    dom h' = dom h \<and> (\<forall>y. y \<notin> {p, n, x} \<longrightarrow> h' y = h y)"
proof -
  from assms(1,2) obtain d where d: "h x = Some d" "dl_prev d = Some p" "dl_next d = Some n"
    by (auto simp: nxt_def prv_def split: option.splits)
  obtain h1 where 1: "set_next h p (Some n) = Some h1" "nxt h1 = (nxt h)(p := Some n)"
    "prv h1 = prv h" "dom h1 = dom h" "\<forall>y. y \<noteq> p \<longrightarrow> h1 y = h y"
    using set_next_links [of h p "Some n", OF assms(3)] by auto
  have x1: "h1 x = Some d" using 1(5) assms(5) d(1) by simp
  have "h1 n \<noteq> None" using 1(4) assms(4) by (auto simp: dom_def set_eq_iff)
  then obtain h2 where 2: "set_prev h1 n (Some p) = Some h2" "prv h2 = (prv h1)(n := Some p)"
    "nxt h2 = nxt h1" "dom h2 = dom h1" "\<forall>y. y \<noteq> n \<longrightarrow> h2 y = h1 y"
    using set_prev_links [of h1 n "Some p"] by auto
  have "h2 x \<noteq> None" using 2(5) x1 assms(6) by auto
  then obtain h3 where 3: "dlist_init_empty h2 x = Some h3" "nxt h3 = (nxt h2)(x := Some x)"
    "prv h3 = (prv h2)(x := Some x)" "dom h3 = dom h2" "\<forall>y. y \<noteq> x \<longrightarrow> h3 y = h2 y"
    using dlist_init_empty_links [of h2 x] by auto
  have "dlist_remove h x = Some h3"
    using d x1 1(1) 2(1) 3(1) by (simp add: dlist_remove_def)
  then show ?thesis using 1 2 3 by simp
qed

section \<open>The operations on well-formed lists\<close>

lemma dlist_init_empty_ring:
  assumes "h head \<noteq> None"
  shows "\<exists>h'. dlist_init_empty h head = Some h' \<and> ring h' head [] \<and> dom h' = dom h \<and>
    (\<forall>y. y \<noteq> head \<longrightarrow> h' y = h y)"
  using dlist_init_empty_links [of h head, OF assms] by (auto simp: ring_def)

text \<open>Inserting behind any member \<open>p\<close> of the list (the head included).\<close>

lemma dlist_insert_ring:
  assumes r: "ring h head (xs @ ys)" and new: "new \<notin> set (head # xs @ ys)" "h new \<noteq> None"
    and p: "p = last (head # xs)"
  shows "\<exists>h'. dlist_insert h p new = Some h' \<and> ring h' head (xs @ new # ys) \<and> dom h' = dom h \<and>
    (\<forall>y. y \<notin> set (head # xs @ new # ys) \<longrightarrow> h' y = h y)"
proof -
  define b where "b = hd (ys @ [head])"
  have sg: "seg h head (xs @ ys) head" using r by (simp add: ring_def)
  have pb: "seg h p [] b"
  proof (cases xs rule: rev_cases)
    case Nil
    then show ?thesis using sg by (cases ys) (simp_all add: p b_def)
  next
    case (snoc zs z)
    then show ?thesis using sg by (cases ys) (auto simp: p b_def seg_append)
  qed
  have pin: "p \<in> set (head # xs)" unfolding p by (rule last_in_set) simp
  have bin: "b \<in> set (head # ys)" by (cases ys) (auto simp: b_def)
  have ne: "new \<noteq> p" "new \<noteq> b" using new pin bin by auto
  obtain h' where h': "dlist_insert h p new = Some h'"
    "nxt h' = (nxt h)(new := Some b, p := Some new)"
    "prv h' = (prv h)(b := Some new, new := Some p)"
    "dom h' = dom h" "\<forall>y. y \<notin> {p, b, new} \<longrightarrow> h' y = h y"
    using dlist_insert_links [of h p b new] pb ne new(2) by (auto dest: prv_dom)
  have d: "distinct (head # xs @ ys)" using r by (simp add: ring_def)
  have left: "seg h' head xs new"
  proof (cases xs rule: rev_cases)
    case Nil
    then show ?thesis using h' ne by (simp add: p)
  next
    case (snoc zs z)
    then have z: "p = z" "seg h head zs z" using r by (auto simp: p ring_def seg_append)
    have "seg h' head zs z"
      using z(2) by (rule seg_frame) (use h' d snoc new bin z(1) in \<open>auto simp: b_def hd_append split: if_splits dest: hd_in_set\<close>)
    then show ?thesis using h' ne snoc z(1) by (simp add: seg_append)
  qed
  have right: "seg h' new ys head"
  proof (cases ys)
    case Nil
    then show ?thesis using h' ne by (simp add: b_def)
  next
    case (Cons z zs)
    then have z: "b = z" "seg h z zs head" using r by (auto simp: b_def ring_def seg_append)
    have "seg h' z zs head"
      using z(2) by (rule seg_frame) (use h' d Cons new pin z(1) in auto)
    then show ?thesis using h' ne Cons z(1) by simp
  qed
  have "ring h' head (xs @ new # ys)"
    using left right d new by (auto simp: ring_def seg_append)
  moreover have "\<forall>y. y \<notin> set (head # xs @ new # ys) \<longrightarrow> h' y = h y"
    using h'(5) pin bin by auto
  ultimately show ?thesis using h'(1,4) by blast
qed

text \<open>Removing a member.\<close>

lemma dlist_remove_ring:
  assumes r: "ring h head (xs @ x # ys)"
  shows "\<exists>h'. dlist_remove h x = Some h' \<and> ring h' head (xs @ ys) \<and> ring h' x [] \<and>
    dom h' = dom h \<and> (\<forall>y. y \<notin> set (head # xs @ x # ys) \<longrightarrow> h' y = h y)"
proof -
  define p where "p = last (head # xs)"
  define n where "n = hd (ys @ [head])"
  have s: "seg h head xs x" "seg h x ys head" and d: "distinct (head # xs @ x # ys)"
    using r by (auto simp: ring_def seg_append)
  have px: "prv h x = Some p" "nxt h p = Some x"
    using s(1) by (cases xs rule: rev_cases; auto simp: p_def seg_append)+
  have xn: "nxt h x = Some n" "prv h n = Some x"
    using s(2) by (cases ys; auto simp: n_def)+
  have pin: "p \<in> set (head # xs)" unfolding p_def by (rule last_in_set) simp
  have nin: "n \<in> set (head # ys)" by (cases ys) (auto simp: n_def)
  have ne: "p \<noteq> x" "n \<noteq> x" using pin nin d by auto
  obtain h' where h': "dlist_remove h x = Some h'"
    "nxt h' = (nxt h)(p := Some n, x := Some x)"
    "prv h' = (prv h)(n := Some p, x := Some x)"
    "dom h' = dom h" "\<forall>y. y \<notin> {p, n, x} \<longrightarrow> h' y = h y"
    using dlist_remove_links [OF px(1) xn(1) nxt_dom [OF px(2)] prv_dom [OF xn(2)] ne] by auto
  have left: "xs = zs @ [z] \<Longrightarrow> seg h' head zs p" for zs z
  proof -
    assume xs: "xs = zs @ [z]"
    then have "seg h head zs p" using s(1) by (simp add: seg_append p_def)
    then show ?thesis
      by (rule seg_frame) (use h' d xs nin in \<open>auto simp: p_def n_def hd_append split: if_splits dest: hd_in_set\<close>)
  qed
  have right: "ys = z # zs \<Longrightarrow> seg h' n zs head" for z zs
  proof -
    assume ys: "ys = z # zs"
    then have "seg h n zs head" using s(2) by (simp add: n_def)
    then show ?thesis
      by (rule seg_frame) (use h' d ys pin in \<open>auto simp: n_def\<close>)
  qed
  have mid: "nxt h' p = Some n" "prv h' n = Some p" using h' ne by auto
  have "seg h' head (xs @ ys) head"
  proof (cases xs rule: rev_cases)
    case Nil
    then show ?thesis using right mid by (cases ys) (auto simp: p_def n_def)
  next
    case (snoc zs z)
    then show ?thesis using left [OF snoc] right mid
      by (cases ys) (auto simp: p_def n_def seg_append)
  qed
  then have "ring h' head (xs @ ys)" using d by (simp add: ring_def)
  moreover have "ring h' x []" using h' by (simp add: ring_def)
  moreover have "\<forall>y. y \<notin> set (head # xs @ x # ys) \<longrightarrow> h' y = h y"
    using h'(5) pin nin by auto
  ultimately show ?thesis using h'(1,4) by blast
qed

lemma dlist_is_empty_ring:
  assumes "ring h head xs"
  shows "dlist_is_empty h head = Some (xs = [])"
proof -
  obtain d where d: "h head = Some d" using ring_dom [OF assms, of head] by auto
  show ?thesis
  proof (cases xs)
    case Nil
    then show ?thesis using assms d
      by (simp add: ring_def dlist_is_empty_def nxt_def prv_def)
  next
    case (Cons y ys)
    then obtain z where "prv h head = Some z" "z \<noteq> head"
      using assms by (cases ys rule: rev_cases) (auto simp: ring_def seg_append)
    then show ?thesis using assms d Cons
      by (auto simp: ring_def dlist_is_empty_def nxt_def prv_def)
  qed
qed

text \<open>A list over other nodes is not touched.\<close>

lemma ring_frame:
  "ring h head xs \<Longrightarrow> (\<And>y. y \<in> set (head # xs) \<Longrightarrow> h' y = h y) \<Longrightarrow> ring h' head xs"
  unfolding ring_def by (auto simp: nxt_def prv_def intro!: seg_frame [of h])

lemma ring_unique: "ring h head xs \<Longrightarrow> ring h head ys \<Longrightarrow> xs = ys"
proof -
  have "seg h a xs e \<Longrightarrow> seg h a ys e \<Longrightarrow> e \<notin> set xs \<Longrightarrow> e \<notin> set ys \<Longrightarrow> xs = ys" for a e
  proof (induction xs arbitrary: a ys)
    case Nil
    then show ?case by (cases ys) auto
  next
    case (Cons x xs)
    then show ?case by (cases ys) auto
  qed
  then show "ring h head xs \<Longrightarrow> ring h head ys \<Longrightarrow> xs = ys"
    by (auto simp: ring_def)
qed

section \<open>The interface of the lists\<close>

text \<open>
  What the buddy allocator, the scheduler and TCP use: \<open>members h l xs\<close> reads "the list with
  the head \<open>l\<close> holds the nodes \<open>xs\<close>", \<open>cell h a\<close> reads "there is memory for a node at \<open>a\<close>".
  Each law says what an operation does to the list and that it leaves every other list alone.
\<close>

locale intrusive_list =
  fixes ins :: "'h \<Rightarrow> 'a \<Rightarrow> 'a \<Rightarrow> 'h option"
    and del :: "'h \<Rightarrow> 'a \<Rightarrow> 'h option"
    and empty_test :: "'h \<Rightarrow> 'a \<Rightarrow> bool option"
    and members :: "'h \<Rightarrow> 'a \<Rightarrow> 'a list \<Rightarrow> bool"
    and cell :: "'h \<Rightarrow> 'a \<Rightarrow> bool"
  assumes ins_after: "members h l (xs @ ys) \<Longrightarrow> cell h n \<Longrightarrow> n \<notin> set (l # xs @ ys) \<Longrightarrow>
      \<exists>h'. ins h (last (l # xs)) n = Some h' \<and> members h' l (xs @ n # ys) \<and> cell h' = cell h \<and>
        (\<forall>m zs. members h m zs \<longrightarrow> set (m # zs) \<inter> set (l # xs @ n # ys) = {} \<longrightarrow> members h' m zs)"
    and del_member: "members h l (xs @ x # ys) \<Longrightarrow>
      \<exists>h'. del h x = Some h' \<and> members h' l (xs @ ys) \<and> members h' x [] \<and> cell h' = cell h \<and>
        (\<forall>m zs. members h m zs \<longrightarrow> set (m # zs) \<inter> set (l # xs @ x # ys) = {} \<longrightarrow> members h' m zs)"
    and empty_test: "members h l xs \<Longrightarrow> empty_test h l = Some (xs = [])"
    and members_unique: "members h l xs \<Longrightarrow> members h l ys \<Longrightarrow> xs = ys"
    and members_cell: "members h l xs \<Longrightarrow> x \<in> set (l # xs) \<Longrightarrow> cell h x"
    and members_distinct: "members h l xs \<Longrightarrow> distinct (l # xs)"

context intrusive_list
begin

lemma push:
  assumes "members h l xs" "cell h n" "n \<notin> set (l # xs)"
  shows "\<exists>h'. ins h l n = Some h' \<and> members h' l (n # xs) \<and> cell h' = cell h \<and>
    (\<forall>m zs. members h m zs \<longrightarrow> set (m # zs) \<inter> set (l # n # xs) = {} \<longrightarrow> members h' m zs)"
  using ins_after [of h l "[]" xs n] assms by simp

lemma push_back:
  assumes "members h l xs" "cell h n" "n \<notin> set (l # xs)"
  shows "\<exists>h'. ins h (last (l # xs)) n = Some h' \<and> members h' l (xs @ [n]) \<and> cell h' = cell h"
  using ins_after [of h l xs "[]" n] assms by auto

lemma del_any:
  assumes "members h l xs" "x \<in> set xs"
  shows "\<exists>h'. del h x = Some h' \<and> members h' l (remove1 x xs) \<and> members h' x [] \<and> cell h' = cell h \<and>
    (\<forall>m zs. members h m zs \<longrightarrow> set (m # zs) \<inter> set (l # xs) = {} \<longrightarrow> members h' m zs)"
proof -
  obtain ys zs where xs: "xs = ys @ x # zs" using split_list [OF assms(2)] by blast
  then have "x \<notin> set ys" using members_distinct [OF assms(1)] by auto
  then have "remove1 x xs = ys @ zs" using xs by (simp add: remove1_append)
  then show ?thesis using del_member [of h l ys x zs] assms(1) xs by auto
qed

lemma push_then_del:
  assumes "members h l xs" "cell h n" "n \<notin> set (l # xs)"
  shows "\<exists>h' h''. ins h l n = Some h' \<and> del h' n = Some h'' \<and> members h'' l xs"
proof -
  obtain h' where h': "ins h l n = Some h'" "members h' l (n # xs)" using push [OF assms] by auto
  then show ?thesis using del_member [of h' l "[]" n xs] by auto
qed

end

interpretation dl: intrusive_list dlist_insert dlist_remove dlist_is_empty ring "\<lambda>h a. h a \<noteq> None"
proof unfold_locales
  fix h :: "'a heap" and l n :: 'a and xs ys :: "'a list"
  assume a: "ring h l (xs @ ys)" "h n \<noteq> None" "n \<notin> set (l # xs @ ys)"
  obtain h' where h': "dlist_insert h (last (l # xs)) n = Some h'" "ring h' l (xs @ n # ys)"
    "dom h' = dom h" "\<forall>y. y \<notin> set (l # xs @ n # ys) \<longrightarrow> h' y = h y"
    using dlist_insert_ring [OF a(1,3,2) refl] by blast
  have "(\<lambda>a. h' a \<noteq> None) = (\<lambda>a. h a \<noteq> None)" using h'(3) by (auto simp: fun_eq_iff dom_def set_eq_iff)
  moreover have "ring h m zs \<Longrightarrow> set (m # zs) \<inter> set (l # xs @ n # ys) = {} \<Longrightarrow> ring h' m zs" for m zs
    by (erule ring_frame) (use h'(4) in blast)
  ultimately show "\<exists>h'. dlist_insert h (last (l # xs)) n = Some h' \<and> ring h' l (xs @ n # ys) \<and>
      (\<lambda>a. h' a \<noteq> None) = (\<lambda>a. h a \<noteq> None) \<and> (\<forall>m zs. ring h m zs \<longrightarrow>
        set (m # zs) \<inter> set (l # xs @ n # ys) = {} \<longrightarrow> ring h' m zs)"
    using h'(1,2) by blast
next
  fix h :: "'a heap" and l x :: 'a and xs ys :: "'a list"
  assume a: "ring h l (xs @ x # ys)"
  obtain h' where h': "dlist_remove h x = Some h'" "ring h' l (xs @ ys)" "ring h' x []"
    "dom h' = dom h" "\<forall>y. y \<notin> set (l # xs @ x # ys) \<longrightarrow> h' y = h y"
    using dlist_remove_ring [OF a] by blast
  have "(\<lambda>a. h' a \<noteq> None) = (\<lambda>a. h a \<noteq> None)" using h'(4) by (auto simp: fun_eq_iff dom_def set_eq_iff)
  moreover have "ring h m zs \<Longrightarrow> set (m # zs) \<inter> set (l # xs @ x # ys) = {} \<Longrightarrow> ring h' m zs" for m zs
    by (erule ring_frame) (use h'(5) in blast)
  ultimately show "\<exists>h'. dlist_remove h x = Some h' \<and> ring h' l (xs @ ys) \<and> ring h' x [] \<and>
      (\<lambda>a. h' a \<noteq> None) = (\<lambda>a. h a \<noteq> None) \<and> (\<forall>m zs. ring h m zs \<longrightarrow>
        set (m # zs) \<inter> set (l # xs @ x # ys) = {} \<longrightarrow> ring h' m zs)"
    using h'(1-3) by blast
qed (auto simp: dlist_is_empty_ring ring_unique ring_dom, auto simp: ring_def)

text \<open>Removing a node that is in no list is defined and changes nothing.\<close>

lemma dlist_remove_single: "ring h x [] \<Longrightarrow> dlist_remove h x = Some h"
  by (auto simp: ring_def nxt_def prv_def dlist_remove_def dlist_init_empty_def set_next_def
      set_prev_def fun_eq_iff split: option.splits)

end
