(* ===== verification/Time.thy ===== *)
theory Time
  imports Prelude
begin

text \<open>
  Time (src/time.c): the calibration of the time stamp counter against the timer chip (PIT), and
  the clock in milliseconds. The two hardware counters are streams of the values that the
  successive reads return: \<open>hw_tsc\<close> for \<open>rdtsc\<close>, \<open>hw_pit\<close> for the bytes read from the data port
  of the timer; \<open>hw_pit_writes\<close> are the bytes written to its ports, with their port, the last one
  first. What the hardware returns is not restricted, the properties that need a counter that counts
  say so.
\<close>

record clock =
  hw_tsc :: "nat \<Rightarrow> u64"
  hw_tsc_reads :: nat
  hw_pit :: "nat \<Rightarrow> u8"
  hw_pit_reads :: nat
  hw_pit_writes :: "(u16 \<times> u8) list"
  ck_tsc_base :: u64
  ck_tsc_freq_hz :: u64
  ck_initialized :: bool

type_synonym time_ms = u64

definition rdtsc :: "clock \<Rightarrow> u64 \<times> clock" where
  "rdtsc c = (hw_tsc c (hw_tsc_reads c), c\<lparr>hw_tsc_reads := Suc (hw_tsc_reads c)\<rparr>)"

definition pit_read :: "clock \<Rightarrow> u8 \<times> clock" where
  "pit_read c = (hw_pit c (hw_pit_reads c), c\<lparr>hw_pit_reads := Suc (hw_pit_reads c)\<rparr>)"

definition PIT_MAX_HZ :: u64 where "PIT_MAX_HZ = 1193182"
definition PIT_DIVISOR_HZ :: u64 where "PIT_DIVISOR_HZ = 100"

definition PIT_PORT_CHAN0 :: u16 where "PIT_PORT_CHAN0 = 0x40"
definition PIT_PORT_CMD :: u16 where "PIT_PORT_CMD = 0x43"
definition PIT_CMD_RATEGEN :: u8 where "PIT_CMD_RATEGEN = push_bit 2 1"
definition PIT_CMD_ACCESS_HILO :: u8 where "PIT_CMD_ACCESS_HILO = push_bit 4 1 OR push_bit 5 1"

definition pit_write :: "u16 \<Rightarrow> u8 \<Rightarrow> clock \<Rightarrow> clock" where
  "pit_write port v c = c\<lparr>hw_pit_writes := (port, v) # hw_pit_writes c\<rparr>"

definition pit_gettick :: "clock \<Rightarrow> u32 \<times> clock" where
  "pit_gettick c =
     (let c = pit_write PIT_PORT_CMD 0 c;
          (lo, c) = pit_read c;
          (hi, c) = pit_read c in
      (ucast (ucast lo OR push_bit 8 (ucast hi) :: u16), c))"

text \<open>The waiting loop ends only if the timer counts; the remaining ticks are a signed number.\<close>

partial_function (option) pit_wait :: "u64 \<Rightarrow> u64 \<Rightarrow> clock \<Rightarrow> clock option" where
  "pit_wait rem_ticks prev_tick c =
     (if \<not> sint rem_ticks > 1 then Some c
      else
        let (t, c) = pit_gettick c;
            cur_tick = ucast t;
            reload_value = PIT_MAX_HZ div PIT_DIVISOR_HZ;
            rem_ticks =
              (if cur_tick > prev_tick then rem_ticks - (reload_value - (cur_tick - prev_tick))
               else rem_ticks - (prev_tick - cur_tick)) in
        pit_wait rem_ticks cur_tick c)"

definition pit_delay_us :: "u64 \<Rightarrow> clock \<Rightarrow> clock option" where
  "pit_delay_us n c =
     (let rem_ticks = n * PIT_MAX_HZ div 1000000; (t, c) = pit_gettick c in
      pit_wait rem_ticks (ucast t) c)"

definition time_init :: "clock \<Rightarrow> clock option" where
  "time_init c = do {
     kassert (\<not> ck_initialized c);
     let c = pit_write PIT_PORT_CMD (PIT_CMD_RATEGEN OR PIT_CMD_ACCESS_HILO) c;
     let c = pit_write PIT_PORT_CHAN0 (ucast (PIT_MAX_HZ div PIT_DIVISOR_HZ AND 0xff)) c;
     let c = pit_write PIT_PORT_CHAN0 (ucast (drop_bit 8 (PIT_MAX_HZ div PIT_DIVISOR_HZ))) c;
     let (base, c) = rdtsc c;
     c \<leftarrow> pit_delay_us 100000 c;
     let (t, c) = rdtsc c;
     let freq_est = (t - base) * 10;
     Some (c\<lparr>ck_tsc_base := base, ck_tsc_freq_hz := freq_est, ck_initialized := True\<rparr>)
   }"

text \<open>The multiplication must not overflow, and dividing by the frequency 0 traps.\<close>

definition time_current_ms :: "clock \<Rightarrow> (time_ms \<times> clock) option" where
  "time_current_ms c = do {
     kassert (ck_initialized c);
     let (t, c) = rdtsc c;
     let elapsed_ticks = t - ck_tsc_base c;
     kassert (unat elapsed_ticks * 1000 < 2 ^ 64);
     kassert (ck_tsc_freq_hz c \<noteq> 0);
     Some ((elapsed_ticks * 1000) div ck_tsc_freq_hz c, c)
   }"

text \<open>
  What a reading of the clock needs: it is calibrated, and the counter has not run further from
  the base than the multiplication in the code allows. A counter that counts up never goes back.
\<close>

definition clock_ok :: "clock \<Rightarrow> bool" where
  "clock_ok c \<longleftrightarrow> ck_initialized c \<and> ck_tsc_freq_hz c \<noteq> 0 \<and>
     (\<forall>n. ck_tsc_base c \<le> hw_tsc c n \<and> (unat (hw_tsc c n) - unat (ck_tsc_base c)) * 1000 < 2 ^ 64) \<and>
     (\<forall>m n. m \<le> n \<longrightarrow> hw_tsc c m \<le> hw_tsc c n)"

definition clock_value :: "clock \<Rightarrow> nat \<Rightarrow> nat" where
  "clock_value c n = ((unat (hw_tsc c n) - unat (ck_tsc_base c)) * 1000) div unat (ck_tsc_freq_hz c)"

lemma time_current_ms_ok:
  assumes "clock_ok c"
  shows "\<exists>t. time_current_ms c = Some (t, c\<lparr>hw_tsc_reads := Suc (hw_tsc_reads c)\<rparr>) \<and>
    unat t = clock_value c (hw_tsc_reads c)"
proof -
  let ?t = "hw_tsc c (hw_tsc_reads c)" and ?b = "ck_tsc_base c"
  have b: "?b \<le> ?t" "(unat ?t - unat ?b) * 1000 < 2 ^ 64" using assms by (auto simp: clock_ok_def)
  have s: "unat (?t - ?b) = unat ?t - unat ?b" using b(1) by (simp add: unat_sub)
  have m: "unat ((?t - ?b) * 1000) = (unat ?t - unat ?b) * 1000"
    using b(2) s unat_mult_lem [of "?t - ?b" 1000] by (simp del: left_diff_distrib)
  have r: "time_current_ms c = Some ((?t - ?b) * 1000 div ck_tsc_freq_hz c, c\<lparr>hw_tsc_reads := Suc (hw_tsc_reads c)\<rparr>)"
    using assms b s by (simp add: time_current_ms_def rdtsc_def clock_ok_def)
  show ?thesis using r m by (simp add: clock_value_def unat_div)
qed

lemma clock_value_mono:
  assumes "clock_ok c" "m \<le> n"
  shows "clock_value c m \<le> clock_value c n"
proof -
  have "unat (hw_tsc c m) \<le> unat (hw_tsc c n)" using assms by (auto simp: clock_ok_def word_le_nat_alt)
  then show ?thesis unfolding clock_value_def by (intro div_le_mono mult_le_mono1 diff_le_mono)
qed

lemma clock_ok_read [simp]: "clock_ok (c\<lparr>hw_tsc_reads := n\<rparr>) = clock_ok c"
  by (simp add: clock_ok_def)

lemma clock_value_read [simp]: "clock_value (c\<lparr>hw_tsc_reads := k\<rparr>) n = clock_value c n"
  by (simp add: clock_value_def)

definition sample_clock :: clock where
  "sample_clock = \<lparr>hw_tsc = (\<lambda>n. of_nat (min n 1000000)), hw_tsc_reads = 0, hw_pit = (\<lambda>n. 0), hw_pit_reads = 0, hw_pit_writes = [],
     ck_tsc_base = 0, ck_tsc_freq_hz = 500, ck_initialized = True\<rparr>"

lemma sample_clock_ok: "clock_ok sample_clock"
  by (auto simp: clock_ok_def sample_clock_def word_le_nat_alt unat_of_nat)

text \<open>
  On a calibrated clock whose counter counts up and stays within the range that the
  multiplication allows, reading the time never fails, and later readings are never smaller.
\<close>

theorem time_current_ms_monotonic:
  assumes "clock_ok c"
  shows "\<exists>t c' t' c''. time_current_ms c = Some (t, c') \<and> time_current_ms c' = Some (t', c'') \<and>
    t \<le> t' \<and> clock_ok c''"
proof -
  let ?c = "c\<lparr>hw_tsc_reads := Suc (hw_tsc_reads c)\<rparr>"
  obtain t where t: "time_current_ms c = Some (t, ?c)" "unat t = clock_value c (hw_tsc_reads c)"
    using time_current_ms_ok [OF assms] by blast
  obtain t' where t': "time_current_ms ?c = Some (t', ?c\<lparr>hw_tsc_reads := Suc (hw_tsc_reads ?c)\<rparr>)"
    "unat t' = clock_value ?c (hw_tsc_reads ?c)"
    using time_current_ms_ok [of ?c] assms by auto
  have "unat t \<le> unat t'" using t(2) t'(2) clock_value_mono [OF assms, of "hw_tsc_reads c"] by simp
  then show ?thesis using t t' assms by (simp add: word_le_nat_alt)
qed

theorem time_current_ms_monotonic_witness:
  "\<exists>t c' t' c''. time_current_ms sample_clock = Some (t, c') \<and> time_current_ms c' = Some (t', c'') \<and>
    t \<le> t' \<and> clock_ok c''"
  by (rule time_current_ms_monotonic [OF sample_clock_ok])

end
