(* ===== verification/Bytes.thy ===== *)
theory Bytes
  imports Prelude
begin

text \<open>
  Byte views, arrays and buffers (include/tx/byte.h) and strings (include/tx/string.h and
  include/tx/stringdef.h). A view or a string is the list of the bytes it covers. A buffer
  (\<open>struct byte_buf\<close>, and \<open>struct str_buf\<close>, which has the same fields) is the memory behind
  its data pointer together with its length and its capacity; writing outside of that memory
  has no value.
\<close>

section \<open>Buffers\<close>

record byte_buf =
  bb_dat :: "byte list"
  bb_len :: sz
  bb_cap :: sz

type_synonym str_buf = byte_buf

definition byte_buf_new :: "byte list \<Rightarrow> sz \<Rightarrow> sz \<Rightarrow> byte_buf" where
  "byte_buf_new dat len cap = \<lparr>bb_dat = dat, bb_len = len, bb_cap = cap\<rparr>"

definition byte_buf_from_array :: "byte list \<Rightarrow> byte_buf" where
  "byte_buf_from_array ba = byte_buf_new ba 0 (int (length ba))"

definition byte_view_from_buf :: "byte_buf \<Rightarrow> byte list" where
  "byte_view_from_buf bb = take (nat (bb_len bb)) (bb_dat bb)"

definition str_buf_clear :: "str_buf \<Rightarrow> str_buf" where
  "str_buf_clear buf = buf\<lparr>bb_len := 0\<rparr>"

text \<open>A buffer that the constructors and the operations keep: its length fits its memory.\<close>

definition wf_buf :: "byte_buf \<Rightarrow> bool" where
  "wf_buf bb \<longleftrightarrow> 0 \<le> bb_len bb \<and> bb_len bb \<le> bb_cap bb \<and> bb_cap bb \<le> int (length (bb_dat bb))"

text \<open>The loop \<open>for (i = 0; i < n; i++) dat[pos + i] = src[i]\<close>.\<close>

fun write_at :: "byte list \<Rightarrow> int \<Rightarrow> byte list \<Rightarrow> byte list option" where
  "write_at dat pos [] = Some dat"
| "write_at dat pos (b # bs) = do { dat \<leftarrow> poke dat pos b; write_at dat (pos + 1) bs }"

definition byte_view_skip :: "byte list \<Rightarrow> sz \<Rightarrow> byte list option" where
  "byte_view_skip bv n = do {
     kassert (n \<le> int (length bv));
     if n < 0 then None else Some (drop (nat n) bv)
   }"

definition byte_buf_append :: "byte_buf \<Rightarrow> byte list \<Rightarrow> (sz \<times> byte_buf) option" where
  "byte_buf_append bb bv =
     (let n = min (bb_cap bb - bb_len bb) (int (length bv)) in do {
        dat \<leftarrow> write_at (bb_dat bb) (bb_len bb) (take (nat n) bv);
        Some (n, bb\<lparr>bb_dat := dat, bb_len := bb_len bb + n\<rparr>)
      })"

definition byte_buf_append_n :: "byte_buf \<Rightarrow> sz \<Rightarrow> byte \<Rightarrow> (sz \<times> byte_buf) option" where
  "byte_buf_append_n bb n value =
     (let n = min (bb_cap bb - bb_len bb) n in do {
        dat \<leftarrow> write_at (bb_dat bb) (bb_len bb) (replicate (nat n) value);
        Some (n, bb\<lparr>bb_dat := dat, bb_len := bb_len bb + n\<rparr>)
      })"

fun byte_array_set :: "byte list \<Rightarrow> byte \<Rightarrow> byte list" where
  "byte_array_set [] value = []"
| "byte_array_set (b # bs) value = value # byte_array_set bs value"

fun bytes_agree :: "byte list \<Rightarrow> byte list \<Rightarrow> bool" where
  "bytes_agree (a # as) (b # bs) = (if a \<noteq> b then False else bytes_agree as bs)"
| "bytes_agree _ _ = True"

definition byte_view_is_equal :: "byte list \<Rightarrow> byte list \<Rightarrow> bool" where
  "byte_view_is_equal bv1 bv2 =
     (if length bv1 \<noteq> length bv2 then False else bytes_agree bv1 bv2)"

lemma write_at_eq:
  "0 \<le> pos \<Longrightarrow> pos + int (length bs) \<le> int (length dat) \<Longrightarrow>
     write_at dat pos bs = Some (take (nat pos) dat @ bs @ drop (nat pos + length bs) dat)"
proof (induction bs arbitrary: dat pos)
  case Nil
  then show ?case by simp
next
  case (Cons b bs)
  let ?d = "dat[nat pos := b]"
  have "write_at ?d (pos + 1) bs =
      Some (take (nat (pos + 1)) ?d @ bs @ drop (nat (pos + 1) + length bs) ?d)"
    using Cons by simp
  moreover have "take (nat (pos + 1)) ?d = take (nat pos) dat @ [b]"
    using Cons.prems by (simp add: nat_add_distrib take_Suc_conv_app_nth)
  moreover have "drop (nat (pos + 1) + length bs) ?d = drop (nat pos + length (b # bs)) dat"
    using Cons.prems by (simp add: nat_add_distrib drop_update_cancel)
  ultimately show ?case using Cons.prems by (simp add: poke_def)
qed

lemma write_at_length: "write_at dat pos bs = Some dat' \<Longrightarrow> length dat' = length dat"
  by (induction dat pos bs rule: write_at.induct) (auto simp: bind_eq_Some_conv kern)

lemma byte_buf_from_array_wf [simp]: "wf_buf (byte_buf_from_array ba)"
  by (simp add: wf_buf_def byte_buf_from_array_def byte_buf_new_def)

lemma byte_buf_from_array_simps [simp]:
  "bb_len (byte_buf_from_array ba) = 0" "bb_cap (byte_buf_from_array ba) = int (length ba)"
  "bb_dat (byte_buf_from_array ba) = ba" "byte_view_from_buf (byte_buf_from_array ba) = []"
  by (simp_all add: byte_buf_from_array_def byte_buf_new_def byte_view_from_buf_def)

lemma byte_view_from_buf_length [simp]: "wf_buf bb \<Longrightarrow> length (byte_view_from_buf bb) = nat (bb_len bb)"
  by (auto simp: wf_buf_def byte_view_from_buf_def)

text \<open>
  Appending \<open>bs\<close> where there is room puts \<open>bs\<close> behind the content and changes nothing else.
\<close>

lemma append_fits:
  assumes "wf_buf bb" "int (length bs) \<le> bb_cap bb - bb_len bb"
  shows "\<exists>dat. write_at (bb_dat bb) (bb_len bb) bs = Some dat \<and> length dat = length (bb_dat bb) \<and>
    take (nat (bb_len bb + int (length bs))) dat = byte_view_from_buf bb @ bs"
proof -
  let ?dat = "take (nat (bb_len bb)) (bb_dat bb) @ bs @ drop (nat (bb_len bb) + length bs) (bb_dat bb)"
  have "write_at (bb_dat bb) (bb_len bb) bs = Some ?dat"
    using assms by (intro write_at_eq) (auto simp: wf_buf_def)
  moreover have "length (take (nat (bb_len bb)) (bb_dat bb)) = nat (bb_len bb)"
    using assms by (auto simp: wf_buf_def)
  ultimately show ?thesis using assms
    by (auto simp: wf_buf_def byte_view_from_buf_def nat_add_distrib write_at_length)
qed

lemma byte_buf_append_ok:
  assumes "wf_buf bb"
  shows "\<exists>bb'. byte_buf_append bb bv = Some (min (bb_cap bb - bb_len bb) (int (length bv)), bb') \<and>
    wf_buf bb' \<and> bb_cap bb' = bb_cap bb \<and>
    bb_len bb' = bb_len bb + min (bb_cap bb - bb_len bb) (int (length bv)) \<and>
    length (bb_dat bb') = length (bb_dat bb) \<and>
    byte_view_from_buf bb' = byte_view_from_buf bb @ take (nat (bb_cap bb - bb_len bb)) bv"
proof -
  let ?n = "min (bb_cap bb - bb_len bb) (int (length bv))"
  have n: "0 \<le> ?n" using assms by (auto simp: wf_buf_def)
  have t: "take (nat ?n) bv = take (nat (bb_cap bb - bb_len bb)) bv" by (simp add: min_def)
  have l: "int (length (take (nat ?n) bv)) = ?n" using n by auto
  obtain dat where "write_at (bb_dat bb) (bb_len bb) (take (nat ?n) bv) = Some dat"
    "length dat = length (bb_dat bb)"
    "take (nat (bb_len bb + ?n)) dat = byte_view_from_buf bb @ take (nat ?n) bv"
    using append_fits [OF assms, of "take (nat ?n) bv"] l by auto
  then show ?thesis using assms n t
    by (auto simp: byte_buf_append_def wf_buf_def byte_view_from_buf_def Let_def)
qed

lemma byte_buf_append_fits:
  assumes "wf_buf bb" "int (length bv) \<le> bb_cap bb - bb_len bb"
  shows "\<exists>bb'. byte_buf_append bb bv = Some (int (length bv), bb') \<and> wf_buf bb' \<and>
    bb_cap bb' = bb_cap bb \<and> bb_len bb' = bb_len bb + int (length bv) \<and>
    length (bb_dat bb') = length (bb_dat bb) \<and>
    byte_view_from_buf bb' = byte_view_from_buf bb @ bv"
  using byte_buf_append_ok [OF assms(1), of bv] assms(2) by (auto simp: min_def)

lemma byte_buf_append_n_eq: "0 \<le> n \<Longrightarrow> wf_buf bb \<Longrightarrow>
    byte_buf_append_n bb n v = byte_buf_append bb (replicate (nat n) v)"
  by (simp add: byte_buf_append_n_def byte_buf_append_def Let_def min_def)

lemma byte_array_set_eq [simp]: "byte_array_set bs v = replicate (length bs) v"
  by (induction bs) simp_all

lemma bytes_agree_iff: "length a = length b \<Longrightarrow> bytes_agree a b \<longleftrightarrow> a = b"
  by (induction a b rule: list_induct2) auto

lemma byte_view_is_equal_iff [simp]: "byte_view_is_equal a b \<longleftrightarrow> a = b"
  by (auto simp: byte_view_is_equal_def bytes_agree_iff)

lemma byte_view_skip_Some [kern]:
  "byte_view_skip bv n = Some r \<longleftrightarrow> 0 \<le> n \<and> n \<le> int (length bv) \<and> r = drop (nat n) bv"
  by (auto simp: byte_view_skip_def kassert_bind)

section \<open>Strings\<close>

fun str_differs :: "bool \<Rightarrow> byte list \<Rightarrow> byte list \<Rightarrow> bool" where
  "str_differs ne (a # as) (b # bs) = str_differs (ne \<or> a \<noteq> b) as bs"
| "str_differs ne _ _ = ne"

definition str_is_equal :: "byte list \<Rightarrow> byte list \<Rightarrow> bool" where
  "str_is_equal a b = (if length a \<noteq> length b then False else \<not> str_differs False a b)"

definition str_has_prefix :: "byte list \<Rightarrow> byte list \<Rightarrow> bool" where
  "str_has_prefix str prefix =
     (if length str < length prefix then False
      else str_is_equal (take (length prefix) str) prefix)"

definition str_consume_prefix :: "byte list \<Rightarrow> byte list \<Rightarrow> bool \<times> byte list" where
  "str_consume_prefix str prefix =
     (if \<not> str_has_prefix str prefix then (False, str)
      else (True, drop (length prefix) str))"

fun find_char_from :: "sz \<Rightarrow> byte list \<Rightarrow> byte \<Rightarrow> sz option" where
  "find_char_from l [] ch = None"
| "find_char_from l (c # s) ch =
     (if c = ch then Some (l - int (length (c # s))) else find_char_from l s ch)"

definition str_find_char :: "byte list \<Rightarrow> byte \<Rightarrow> sz option" where
  "str_find_char s ch = find_char_from (int (length s)) s ch"

fun find_char_down :: "byte list \<Rightarrow> nat \<Rightarrow> byte \<Rightarrow> sz option" where
  "find_char_down s 0 ch = None"
| "find_char_down s (Suc i) ch = (if s ! i = ch then Some (int i) else find_char_down s i ch)"

definition str_find_char_reverse :: "byte list \<Rightarrow> byte \<Rightarrow> sz option" where
  "str_find_char_reverse s ch = find_char_down s (length s) ch"

text \<open>
  The search loop of \<open>str_find_substring\<close>. The character search always finds a position inside
  of the string, which is the code's second assertion.
\<close>

function find_substring_from :: "byte list \<Rightarrow> byte list \<Rightarrow> sz \<Rightarrow> sz option option" where
  "find_substring_from search substr total_offset =
     (if length search < length substr then Some None
      else case str_find_char search (substr ! 0) of
        None \<Rightarrow> Some None
      | Some next \<Rightarrow>
         if \<not> next < int (length search) then None
         else
           let search = drop (nat next) search; total_offset = total_offset + next in
           if length search < length substr then Some None
           else if str_is_equal (take (length substr) search) substr then Some (Some total_offset)
           else if search = [] then None
           else find_substring_from (drop 1 search) substr (total_offset + 1))"
  by pat_completeness auto
termination
  by (relation "measure (\<lambda>(search, _, _). length search)") (auto simp: Let_def)

declare find_substring_from.simps [simp del]

definition str_find_substring :: "byte list \<Rightarrow> byte list \<Rightarrow> sz option option" where
  "str_find_substring search substr = do {
     kassert (length substr > 0);
     find_substring_from search substr 0
   }"

definition str_buf_append :: "str_buf \<Rightarrow> byte list \<Rightarrow> (unit res \<times> str_buf) option" where
  "str_buf_append buf s =
     (if bb_cap buf < bb_len buf + int (length s) then Some (Inl ENOMEM, buf)
      else do {
        dat \<leftarrow> write_at (bb_dat buf) (bb_len buf) s;
        Some (ok, buf\<lparr>bb_dat := dat, bb_len := bb_len buf + int (length s)\<rparr>)
      })"

definition str_buf_append_char :: "str_buf \<Rightarrow> byte \<Rightarrow> (unit res \<times> str_buf) option" where
  "str_buf_append_char buf ch =
     (if bb_cap buf = bb_len buf then Some (Inl ENOMEM, buf)
      else do {
        dat \<leftarrow> poke (bb_dat buf) (bb_len buf) ch;
        Some (ok, buf\<lparr>bb_dat := dat, bb_len := bb_len buf + 1\<rparr>)
      })"

definition str_buf_append_n :: "str_buf \<Rightarrow> sz \<Rightarrow> byte \<Rightarrow> (unit res \<times> str_buf) option" where
  "str_buf_append_n buf n ch =
     (if bb_cap buf < bb_len buf + n then Some (Inl ENOMEM, buf)
      else do {
        dat \<leftarrow> write_at (bb_dat buf) (bb_len buf) (replicate (nat n) ch);
        Some (ok, buf\<lparr>bb_dat := dat, bb_len := bb_len buf + n\<rparr>)
      })"

subsection \<open>Comparing and searching\<close>

lemma str_differs_iff: "length a = length b \<Longrightarrow> str_differs n a b \<longleftrightarrow> n \<or> a \<noteq> b"
  by (induction a b arbitrary: n rule: list_induct2) auto

lemma str_is_equal_iff [simp]: "str_is_equal a b \<longleftrightarrow> a = b"
  by (auto simp: str_is_equal_def str_differs_iff)

lemma str_has_prefix_iff: "str_has_prefix s p \<longleftrightarrow> (\<exists>r. s = p @ r)"
  by (auto simp: str_has_prefix_def) (metis append_take_drop_id)

lemma str_consume_prefix_eq:
  "str_consume_prefix s p = (if \<exists>r. s = p @ r then (True, drop (length p) s) else (False, s))"
  by (auto simp: str_consume_prefix_def str_has_prefix_iff)

lemma find_char_from_iff:
  "find_char_from l s ch = Some i \<longleftrightarrow>
     (\<exists>n < length s. s ! n = ch \<and> ch \<notin> set (take n s) \<and> i = l - int (length s) + int n)"
proof (induction s)
  case Nil
  then show ?case by simp
next
  case (Cons c s)
  show ?case
  proof (cases "c = ch")
    case True
    then show ?thesis by (auto simp: Ex_less_Suc2)
  next
    case False
    then show ?thesis using Cons.IH by (simp add: Ex_less_Suc2 algebra_simps)
  qed
qed

lemma str_find_char_Some:
  "str_find_char s ch = Some i \<longleftrightarrow>
     0 \<le> i \<and> i < int (length s) \<and> s ! nat i = ch \<and> ch \<notin> set (take (nat i) s)"
proof
  assume "str_find_char s ch = Some i"
  then show "0 \<le> i \<and> i < int (length s) \<and> s ! nat i = ch \<and> ch \<notin> set (take (nat i) s)"
    by (auto simp: str_find_char_def find_char_from_iff)
next
  assume "0 \<le> i \<and> i < int (length s) \<and> s ! nat i = ch \<and> ch \<notin> set (take (nat i) s)"
  then show "str_find_char s ch = Some i"
    unfolding str_find_char_def find_char_from_iff by (intro exI [of _ "nat i"]) auto
qed

lemma str_find_char_None: "str_find_char s ch = None \<longleftrightarrow> ch \<notin> set s"
proof -
  have "find_char_from l s ch = None \<longleftrightarrow> ch \<notin> set s" for l by (induction s) auto
  then show ?thesis by (simp add: str_find_char_def)
qed

lemma str_find_char_append:
  "ch \<notin> set a \<Longrightarrow> str_find_char (a @ ch # b) ch = Some (int (length a))"
  by (simp add: str_find_char_Some nth_append)

lemma find_char_down_Some:
  "n \<le> length s \<Longrightarrow> find_char_down s n ch = Some i \<longleftrightarrow>
     0 \<le> i \<and> i < int n \<and> s ! nat i = ch \<and> (\<forall>j. i < int j \<and> j < n \<longrightarrow> s ! j \<noteq> ch)"
proof (induction n)
  case 0
  then show ?case by simp
next
  case (Suc n)
  show ?case
  proof (cases "i = int n")
    case True
    then show ?thesis using Suc by auto
  next
    case False
    then have "i < int (Suc n) \<longleftrightarrow> i < int n" by auto
    then show ?thesis using Suc False by (auto simp: less_Suc_eq)
  qed
qed

lemma str_find_char_reverse_Some:
  "str_find_char_reverse s ch = Some i \<longleftrightarrow>
     0 \<le> i \<and> i < int (length s) \<and> s ! nat i = ch \<and> (\<forall>j. i < int j \<and> j < length s \<longrightarrow> s ! j \<noteq> ch)"
  by (simp add: str_find_char_reverse_def find_char_down_Some)

text \<open>The places where \<open>p\<close> occurs in \<open>s\<close>.\<close>

definition occurs_at :: "byte list \<Rightarrow> byte list \<Rightarrow> nat \<Rightarrow> bool" where
  "occurs_at s p n \<longleftrightarrow> n + length p \<le> length s \<and> take (length p) (drop n s) = p"

lemma occurs_at_drop: "k \<le> length s \<Longrightarrow> occurs_at (drop k s) p n \<longleftrightarrow> occurs_at s p (k + n)"
  by (auto simp: occurs_at_def add.commute)

lemma occurs_at_first: "occurs_at s (c # p) n \<Longrightarrow> n < length s \<and> s ! n = c"
  by (auto simp: occurs_at_def) (metis hd_drop_conv_nth le_eq_less_or_eq drop_eq_Nil
      list.sel(1) list.simps(3) not_less take_eq_Nil hd_take length_greater_0_conv zero_less_Suc)

lemma find_substring_from_spec:
  "substr \<noteq> [] \<Longrightarrow> \<exists>r. find_substring_from s substr off = Some r \<and>
     (case r of None \<Rightarrow> \<forall>n. \<not> occurs_at s substr n
      | Some i \<Rightarrow> off \<le> i \<and> occurs_at s substr (nat (i - off)) \<and>
          (\<forall>n < nat (i - off). \<not> occurs_at s substr n))"
proof (induction s substr off rule: find_substring_from.induct)
  case (1 s p off)
  obtain c q where p: "p = c # q" using "1.prems" by (cases p) auto
  show ?case
  proof (cases "length s < length p \<or> c \<notin> set s")
    case True
    have "\<not> occurs_at s p n" for n
    proof
      assume o: "occurs_at s p n"
      then have "c \<in> set s" using occurs_at_first [of s c q n] p by (metis nth_mem)
      moreover have "length p \<le> length s" using o by (simp add: occurs_at_def)
      ultimately show False using True by auto
    qed
    then show ?thesis
      using True p str_find_char_None [of s c] by (subst find_substring_from.simps) auto
  next
    case False
    then obtain k where k: "str_find_char s c = Some k" "0 \<le> k" "k < int (length s)"
      "s ! nat k = c" "c \<notin> set (take (nat k) s)"
      by (metis str_find_char_None str_find_char_Some option.exhaust)
    define s' where "s' = drop (nat k) s"
    have before: "\<not> occurs_at s p n" if "n < nat k" for n
    proof
      assume "occurs_at s p n"
      then have "n < length s" "s ! n = c" using occurs_at_first p by blast+
      then have "c \<in> set (take (nat k) s)" using that by (metis in_set_conv_nth length_take min_less_iff_conj nth_take)
      then show False using k(5) by blast
    qed
    have shift: "occurs_at s p (nat k + n) \<longleftrightarrow> occurs_at s' p n" for n
      using k by (auto simp: s'_def occurs_at_drop)
    consider "length s' < length p" | "take (length p) s' = p" "\<not> length s' < length p"
      | "take (length p) s' \<noteq> p" "\<not> length s' < length p" by blast
    then show ?thesis
    proof cases
      case 1
      then have "\<forall>n. \<not> occurs_at s' p n" by (auto simp: occurs_at_def)
      then have "\<forall>n. \<not> occurs_at s p n" using before shift by (metis le_Suc_ex not_less)
      then show ?thesis using False p k 1
        by (subst find_substring_from.simps) (auto simp: s'_def Let_def)
    next
      case 2
      then have "occurs_at s p (nat k)" using shift [of 0] by (simp add: occurs_at_def)
      then show ?thesis using False p k 2 before
        by (subst find_substring_from.simps) (auto simp: s'_def Let_def)
    next
      case 3
      define s'' where "s'' = drop 1 s'"
      have ne: "s' \<noteq> []" using k by (simp add: s'_def)
      have shift': "occurs_at s' p (Suc n) \<longleftrightarrow> occurs_at s'' p n" for n
        using ne by (auto simp: s''_def occurs_at_drop Suc_le_eq)
      have no0: "\<not> occurs_at s' p 0" using 3 by (simp add: occurs_at_def)
      have "\<exists>r. find_substring_from s'' p (off + k + 1) = Some r \<and>
        (case r of None \<Rightarrow> \<forall>n. \<not> occurs_at s'' p n
          | Some i \<Rightarrow> off + k + 1 \<le> i \<and> occurs_at s'' p (nat (i - (off + k + 1))) \<and>
              (\<forall>n < nat (i - (off + k + 1)). \<not> occurs_at s'' p n))"
        unfolding s''_def s'_def
        by (rule "1.IH" [of k]) (use False p k 3 ne "1.prems" in \<open>auto simp: s'_def\<close>)
      then obtain r where r: "find_substring_from s'' p (off + k + 1) = Some r"
        "case r of None \<Rightarrow> \<forall>n. \<not> occurs_at s'' p n
          | Some i \<Rightarrow> off + k + 1 \<le> i \<and> occurs_at s'' p (nat (i - (off + k + 1))) \<and>
              (\<forall>n < nat (i - (off + k + 1)). \<not> occurs_at s'' p n)" by blast
      have eq: "find_substring_from s p off = Some r"
        using r(1) False p k 3 ne
        by (subst find_substring_from.simps) (auto simp: s'_def s''_def Let_def)
      have all: "(\<forall>n. n < nat k + Suc m \<longrightarrow> \<not> occurs_at s p n) \<longleftrightarrow> (\<forall>n < m. \<not> occurs_at s'' p n)" for m
      proof -
        have "occurs_at s p n \<longleftrightarrow> (\<exists>j. n = nat k + Suc j \<and> occurs_at s'' p j)" for n
        proof (cases "n < nat k")
          case True
          then show ?thesis using before by auto
        next
          case False
          then obtain j where j: "n = nat k + j" by (metis le_Suc_ex not_less)
          show ?thesis using shift [of j] shift' no0 j by (cases j) auto
        qed
        then have "occurs_at s p (nat k + Suc j) \<longleftrightarrow> occurs_at s'' p j"
          "n < nat k + Suc m \<Longrightarrow> occurs_at s p n \<Longrightarrow> \<exists>j < m. occurs_at s'' p j" for j n by auto
        then show ?thesis by (metis add_Suc_right add_less_cancel_left Suc_less_eq)
      qed
      show ?thesis
      proof (cases r)
        case None
        then have "\<forall>m. \<forall>n. n < nat k + Suc m \<longrightarrow> \<not> occurs_at s p n" using r(2) all by auto
        then have "\<forall>n. \<not> occurs_at s p n" by (metis add_Suc_right lessI less_add_Suc2)
        then show ?thesis using eq None by simp
      next
        case (Some i)
        define m where "m = nat (i - (off + k + 1))"
        have "nat (i - off) = nat k + Suc m" using Some r(2) k by (auto simp: m_def)
        moreover have "occurs_at s p (nat k + Suc m)" using Some r(2) shift' [of m] shift [of "Suc m"] by (simp add: m_def)
        moreover have "\<forall>n. n < nat k + Suc m \<longrightarrow> \<not> occurs_at s p n"
          using all [of m] Some r(2) by (simp add: m_def)
        ultimately show ?thesis using eq Some r(2) k by auto
      qed
    qed
  qed
qed

text \<open>
  \<open>str_find_substring\<close> never fails its internal assertions or reads out of bounds for a
  non-empty pattern, and it returns the first position at which the pattern occurs, or nothing
  exactly when it does not occur.
\<close>

theorem str_find_substring_first:
  assumes "substr \<noteq> []"
  shows "\<exists>r. str_find_substring s substr = Some r \<and>
    (case r of None \<Rightarrow> \<forall>n. \<not> occurs_at s substr n
     | Some i \<Rightarrow> 0 \<le> i \<and> occurs_at s substr (nat i) \<and> (\<forall>n < nat i. \<not> occurs_at s substr n))"
  using find_substring_from_spec [OF assms, of s 0] assms
  by (simp add: str_find_substring_def cong: option.case_cong)

theorem str_find_substring_first_witness:
  "\<exists>r. str_find_substring (cstr ''GET /'') (cstr ''T '') = Some r \<and>
    (case r of None \<Rightarrow> \<forall>n. \<not> occurs_at (cstr ''GET /'') (cstr ''T '') n
     | Some i \<Rightarrow> 0 \<le> i \<and> occurs_at (cstr ''GET /'') (cstr ''T '') (nat i) \<and>
         (\<forall>n < nat i. \<not> occurs_at (cstr ''GET /'') (cstr ''T '') n))"
  by (rule str_find_substring_first) (simp add: cstr_def)

subsection \<open>Appending to string buffers\<close>

lemma str_buf_append_ok:
  assumes "wf_buf buf" "bb_len buf + int (length s) \<le> bb_cap buf"
  shows "\<exists>buf'. str_buf_append buf s = Some (ok, buf') \<and> wf_buf buf' \<and>
    bb_cap buf' = bb_cap buf \<and> bb_len buf' = bb_len buf + int (length s) \<and>
    byte_view_from_buf buf' = byte_view_from_buf buf @ s"
proof -
  obtain dat where "write_at (bb_dat buf) (bb_len buf) s = Some dat"
    "length dat = length (bb_dat buf)"
    "take (nat (bb_len buf + int (length s))) dat = byte_view_from_buf buf @ s"
    using append_fits [OF assms(1), of s] assms(2) by auto
  then show ?thesis using assms
    by (auto simp: str_buf_append_def wf_buf_def byte_view_from_buf_def)
qed

lemma str_buf_append_full:
  "bb_cap buf < bb_len buf + int (length s) \<Longrightarrow> str_buf_append buf s = Some (Inl ENOMEM, buf)"
  by (simp add: str_buf_append_def)

lemma str_buf_append_char_eq:
  "wf_buf buf \<Longrightarrow> str_buf_append_char buf ch = str_buf_append buf [ch]"
  by (auto simp: str_buf_append_char_def str_buf_append_def wf_buf_def)

lemma str_buf_append_n_eq:
  "0 \<le> n \<Longrightarrow> str_buf_append_n buf n ch = str_buf_append buf (replicate (nat n) ch)"
  by (simp add: str_buf_append_n_def str_buf_append_def)

end
