(* ===== verification/Arena.thy ===== *)
theory Arena
  imports Bytes
begin

text \<open>
  The arena allocator (include/tx/arena.h) and the pool allocator (include/tx/pool.h). Addresses
  are integers and NULL is 0. An arena is its two pointers; an allocation that does not fit
  halts the kernel. The free blocks of a pool are linked through their first word, so the pool
  operations read and write the memory, a partial map from addresses to the word stored there.
\<close>

type_synonym addr = int

section \<open>Arenas\<close>

record arena =
  ar_beg :: addr
  ar_end :: addr

definition arena_new :: "addr \<Rightarrow> sz \<Rightarrow> arena" where
  "arena_new dat len = \<lparr>ar_beg = dat, ar_end = dat + len\<rparr>"

definition arena_alloc_aligned :: "arena \<Rightarrow> sz \<Rightarrow> sz \<Rightarrow> (addr \<times> arena) option" where
  "arena_alloc_aligned arn n_bytes align =
     (let padding = (- ar_beg arn) AND (align - 1);
          available = ar_end arn - ar_beg arn - padding in
      if available < 0 \<or> n_bytes > available then crash
      else
        let p = ar_beg arn + padding in
        Some (p, arn\<lparr>ar_beg := ar_beg arn + padding + n_bytes\<rparr>))"

definition arena_alloc :: "arena \<Rightarrow> sz \<Rightarrow> (addr \<times> arena) option" where
  "arena_alloc arn n_bytes = arena_alloc_aligned arn n_bytes 8"

text \<open>The overflow check of the array allocation returns NULL, here \<^term>\<open>None\<close> inside of the run.\<close>

definition arena_alloc_aligned_array ::
  "arena \<Rightarrow> sz \<Rightarrow> sz \<Rightarrow> sz \<Rightarrow> (addr option \<times> arena) option" where
  "arena_alloc_aligned_array arn n esize align =
     (if (n > 4294967295 \<or> esize > 4294967295) \<and> SZ_MAX div n < esize then Some (None, arn)
      else do {
        (p, arn) \<leftarrow> arena_alloc_aligned arn (n * esize) align;
        Some (Some p, arn)
      })"

definition arena_alloc_array :: "arena \<Rightarrow> sz \<Rightarrow> sz \<Rightarrow> (addr option \<times> arena) option" where
  "arena_alloc_array arn n esize = arena_alloc_aligned_array arn n esize 8"

text \<open>
  Both buffer constructors hand out zeroed memory. A string buffer without memory (the NULL of
  the overflow check) keeps its capacity, so that a write to it has no value.
\<close>

definition str_buf_from_arena :: "arena \<Rightarrow> sz \<Rightarrow> (str_buf \<times> arena) option" where
  "str_buf_from_arena arn cap = do {
     (dat, arn) \<leftarrow> arena_alloc_array arn cap 1;
     Some (byte_buf_new (case dat of None \<Rightarrow> [] | Some _ \<Rightarrow> replicate (nat cap) 0) 0 cap, arn)
   }"

definition byte_array_from_arena :: "sz \<Rightarrow> arena \<Rightarrow> (byte list \<times> arena) option" where
  "byte_array_from_arena n arn = do {
     kassert (n > 0);
     (_, arn) \<leftarrow> arena_alloc arn n;
     Some (replicate (nat n) 0, arn)
   }"

lemma arena_alloc_aligned_Some:
  "arena_alloc_aligned arn n (2 ^ k) = Some (p, arn') \<longleftrightarrow>
     p = ar_beg arn + (- ar_beg arn) mod 2 ^ k \<and> arn' = arn\<lparr>ar_beg := p + n\<rparr> \<and>
     p \<le> ar_end arn \<and> p + n \<le> ar_end arn"
  by (auto simp: arena_alloc_aligned_def Let_def and_pow2_mod crash_def)

lemma arena_alloc_props:
  assumes "arena_alloc_aligned arn n (2 ^ k) = Some (p, arn')" "0 \<le> n"
  shows "2 ^ k dvd p" "ar_beg arn \<le> p" "p + n = ar_beg arn'" "ar_beg arn' \<le> ar_end arn"
    "ar_end arn' = ar_end arn"
proof -
  have "(ar_beg arn + (- ar_beg arn) mod 2 ^ k) mod 2 ^ k = 0" by (simp add: mod_add_right_eq)
  then show "2 ^ k dvd p" using assms by (auto simp: arena_alloc_aligned_Some dvd_eq_mod_eq_0)
  show "ar_beg arn \<le> p" "p + n = ar_beg arn'" "ar_beg arn' \<le> ar_end arn" "ar_end arn' = ar_end arn"
    using assms by (auto simp: arena_alloc_aligned_Some)
qed

text \<open>A client that allocates a list of requests (a size and the binary logarithm of an alignment).\<close>

fun arena_alloc_many :: "arena \<Rightarrow> (sz \<times> nat) list \<Rightarrow> ((addr \<times> sz) list \<times> arena) option" where
  "arena_alloc_many arn [] = Some ([], arn)"
| "arena_alloc_many arn ((n, k) # reqs) = do {
     (p, arn) \<leftarrow> arena_alloc_aligned arn n (2 ^ k);
     (bs, arn) \<leftarrow> arena_alloc_many arn reqs;
     Some ((p, n) # bs, arn)
   }"

definition block_of :: "addr \<times> sz \<Rightarrow> int set" where
  "block_of b = {fst b ..< fst b + snd b}"

lemma arena_alloc_many_blocks:
  "arena_alloc_many arn reqs = Some (bs, arn') \<Longrightarrow> (\<forall>(n, k) \<in> set reqs. 0 \<le> n) \<Longrightarrow>
     ar_beg arn \<le> ar_end arn \<Longrightarrow>
     map snd bs = map fst reqs \<and> (\<forall>b \<in> set bs. block_of b \<subseteq> {ar_beg arn ..< ar_end arn}) \<and>
     sorted_wrt (\<lambda>b c. block_of b \<inter> block_of c = {}) bs"
proof (induction reqs arbitrary: arn bs)
  case Nil
  then show ?case by simp
next
  case (Cons req reqs)
  obtain n k where req: "req = (n, k)" by fastforce
  obtain p arn1 bs1 where 1: "arena_alloc_aligned arn n (2 ^ k) = Some (p, arn1)"
    "arena_alloc_many arn1 reqs = Some (bs1, arn')" "bs = (p, n) # bs1"
    using Cons.prems(1) req by (auto simp: bind_eq_Some_conv)
  have n: "0 \<le> n" using Cons.prems(2) req by auto
  note p = arena_alloc_props [OF 1(1) n]
  have IH: "map snd bs1 = map fst reqs" "\<forall>b \<in> set bs1. block_of b \<subseteq> {ar_beg arn1 ..< ar_end arn1}"
    "sorted_wrt (\<lambda>b c. block_of b \<inter> block_of c = {}) bs1"
    using Cons.IH [OF 1(2)] Cons.prems(2) p by auto
  have first: "block_of (p, n) \<inter> block_of b = {}" if "b \<in> set bs1" for b
    using IH(2) that p by (fastforce simp: block_of_def)
  have "sorted_wrt (\<lambda>b c. block_of b \<inter> block_of c = {}) bs"
    using IH(3) first 1(3) by simp
  moreover have "\<forall>b \<in> set bs. block_of b \<subseteq> {ar_beg arn ..< ar_end arn}"
    using IH(2) p n unfolding 1(3) by (fastforce simp: block_of_def)
  ultimately show ?case using IH(1) req 1(3) by simp
qed

text \<open>
  The blocks that an arena hands out for a list of requests have the requested sizes, lie
  inside of the arena, and never overlap.
\<close>

theorem arena_blocks_disjoint:
  assumes "arena_alloc_many arn reqs = Some (bs, arn')" and "\<forall>(n, k) \<in> set reqs. 0 \<le> n"
    and "ar_beg arn \<le> ar_end arn"
  shows "map snd bs = map fst reqs \<and> (\<forall>b \<in> set bs. block_of b \<subseteq> {ar_beg arn ..< ar_end arn}) \<and>
    sorted_wrt (\<lambda>b c. block_of b \<inter> block_of c = {}) bs"
  by (rule arena_alloc_many_blocks [OF assms])

theorem arena_blocks_disjoint_witness:
  "block_of (4096, 10) \<inter> block_of (4112, 5) = {} \<and> block_of (4096, 10) \<subseteq> {4090 ..< 4190}"
  using arena_blocks_disjoint [of "arena_new 4090 100" "[(10, 3), (5, 4)]" "[(4096, 10), (4112, 5)]"
      "\<lparr>ar_beg = 4117, ar_end = 4190\<rparr>"]
  by (simp add: arena_new_def arena_alloc_aligned_def)

section \<open>Pools\<close>

type_synonym words = "addr \<Rightarrow> int option"

definition write_word :: "words \<Rightarrow> addr \<Rightarrow> int \<Rightarrow> words option" where
  "write_word m a v = (case m a of None \<Rightarrow> None | Some _ \<Rightarrow> Some (m(a \<mapsto> v)))"

text \<open>Zeroing a block: every word that begins inside of it reads 0 afterwards.\<close>

definition zero_range :: "words \<Rightarrow> addr \<Rightarrow> sz \<Rightarrow> words" where
  "zero_range m a n = (\<lambda>x. if a \<le> x \<and> x < a + n then map_option (\<lambda>_. 0) (m x) else m x)"

record pool =
  pl_head :: addr
  pl_size :: sz

text \<open>The linking loop of \<open>pool_new\<close>, over the numbers of the blocks.\<close>

fun pool_link :: "words \<Rightarrow> addr \<Rightarrow> sz \<Rightarrow> nat list \<Rightarrow> addr \<Rightarrow> (addr \<times> words) option" where
  "pool_link m dat block_size [] head = Some (head, m)"
| "pool_link m dat block_size (j # js) head = do {
     m \<leftarrow> write_word m (dat + int j * block_size) head;
     pool_link m dat block_size js (dat + int j * block_size)
   }"

definition pool_new :: "words \<Rightarrow> addr \<Rightarrow> sz \<Rightarrow> sz \<Rightarrow> (pool \<times> words) option" where
  "pool_new m dat len block_size = do {
     kassert (dat \<noteq> 0);
     kassert (len > 0);
     kassert (block_size > 0);
     let align = 8;
     kassert (align \<le> SZ_MAX - block_size);
     let block_size = (block_size + align - 1) AND NOT (align - 1);
     kassert (block_size > 0);
     let n_blocks = len div block_size;
     (head, m) \<leftarrow> pool_link m dat block_size [0 ..< nat n_blocks] 0;
     Some (\<lparr>pl_head = head, pl_size = block_size\<rparr>, m)
   }"

definition pool_alloc :: "words \<Rightarrow> pool \<Rightarrow> (addr \<times> words \<times> pool) option" where
  "pool_alloc m pool =
     (if pl_head pool = 0 then Some (0, m, pool)
      else do {
        let block = pl_head pool;
        next \<leftarrow> m block;
        Some (block, zero_range m block (pl_size pool), pool\<lparr>pl_head := next\<rparr>)
      })"

definition pool_free :: "words \<Rightarrow> pool \<Rightarrow> addr \<Rightarrow> (words \<times> pool) option" where
  "pool_free m pool block = do {
     kassert (block \<noteq> 0);
     m \<leftarrow> write_word m block (pl_head pool);
     Some (m, pool\<lparr>pl_head := block\<rparr>)
   }"

text \<open>The free blocks: the chain of words from the head of the pool to NULL.\<close>

fun chain :: "words \<Rightarrow> addr \<Rightarrow> addr list \<Rightarrow> bool" where
  "chain m a [] \<longleftrightarrow> a = 0"
| "chain m a (b # bs) \<longleftrightarrow> a = b \<and> b \<noteq> 0 \<and> (\<exists>c. m b = Some c \<and> chain m c bs)"

text \<open>The blocks are disjoint, so zeroing one does not disturb the links of the others.\<close>

definition free_blocks :: "words \<Rightarrow> pool \<Rightarrow> addr list \<Rightarrow> bool" where
  "free_blocks m pool bs \<longleftrightarrow> chain m (pl_head pool) bs \<and> 0 < pl_size pool \<and>
     sorted_wrt (\<lambda>a b. a + pl_size pool \<le> b \<or> b + pl_size pool \<le> a) bs"

lemma chain_frame: "chain m a bs \<Longrightarrow> (\<And>x. x \<in> set bs \<Longrightarrow> m' x = m x) \<Longrightarrow> chain m' a bs"
  by (induction bs arbitrary: a) auto

lemma pool_alloc_nil: "free_blocks m pool [] \<Longrightarrow> pool_alloc m pool = Some (0, m, pool)"
  by (simp add: free_blocks_def pool_alloc_def)

lemma pool_alloc_cons:
  assumes "free_blocks m pool (b # bs)"
  shows "\<exists>m' pool'. pool_alloc m pool = Some (b, m', pool') \<and> free_blocks m' pool' bs \<and>
    pl_size pool' = pl_size pool \<and> m' = zero_range m b (pl_size pool)"
proof -
  obtain c where c: "pl_head pool = b" "b \<noteq> 0" "m b = Some c" "chain m c bs"
    using assms by (auto simp: free_blocks_def)
  have apart: "\<forall>x \<in> set bs. b + pl_size pool \<le> x \<or> x + pl_size pool \<le> b"
    using assms by (simp add: free_blocks_def)
  have "zero_range m b (pl_size pool) x = m x" if "x \<in> set bs" for x
    using apart that assms by (fastforce simp: zero_range_def free_blocks_def)
  with c(4) have "chain (zero_range m b (pl_size pool)) c bs" by (rule chain_frame)
  then show ?thesis using c assms by (auto simp: pool_alloc_def free_blocks_def)
qed

lemma pool_free_cons:
  assumes "free_blocks m pool bs" "b \<noteq> 0" "m b \<noteq> None"
    "\<forall>x \<in> set bs. x + pl_size pool \<le> b \<or> b + pl_size pool \<le> x"
  shows "\<exists>m' pool'. pool_free m pool b = Some (m', pool') \<and> free_blocks m' pool' (b # bs) \<and>
    pl_size pool' = pl_size pool"
proof -
  have s: "0 < pl_size pool" using assms(1) by (simp add: free_blocks_def)
  have "b \<notin> set bs" using assms(4) s by fastforce
  then have "chain (m(b \<mapsto> pl_head pool)) (pl_head pool) bs"
    using assms(1) by (auto simp: free_blocks_def intro: chain_frame)
  then show ?thesis using assms
    by (auto simp: pool_free_def write_word_def free_blocks_def)
qed

text \<open>The size of the blocks, and the blocks that \<open>pool_new\<close> carves out of its memory.\<close>

definition pool_block_size :: "sz \<Rightarrow> sz" where
  "pool_block_size s = ALIGN_UP s 8"

definition pool_blocks :: "addr \<Rightarrow> sz \<Rightarrow> sz \<Rightarrow> addr list" where
  "pool_blocks dat len s =
     rev (map (\<lambda>j. dat + int j * pool_block_size s) [0 ..< nat (len div pool_block_size s)])"

lemma pool_link_chain:
  assumes "0 < dat" "0 < bsize"
  shows "chain m head bs \<Longrightarrow> sorted_wrt (<) js \<Longrightarrow> (\<forall>j \<in> set js. m (dat + int j * bsize) \<noteq> None) \<Longrightarrow>
    (\<forall>j \<in> set js. \<forall>b \<in> set bs. b < dat + int j * bsize) \<Longrightarrow>
    \<exists>h m'. pool_link m dat bsize js head = Some (h, m') \<and>
      chain m' h (rev (map (\<lambda>j. dat + int j * bsize) js) @ bs)"
proof (induction js arbitrary: m head bs)
  case Nil
  then show ?case by simp
next
  case (Cons j js)
  let ?b = "dat + int j * bsize"
  let ?m = "m(?b \<mapsto> head)"
  have "?b \<noteq> 0" using assms mult_nonneg_nonneg [of "int j" bsize] by linarith
  moreover have "chain ?m head bs"
    using Cons.prems(1,4) by (auto intro!: chain_frame [of m])
  ultimately have 1: "chain ?m ?b (?b # bs)" by simp
  have 2: "sorted_wrt (<) js" "\<forall>i \<in> set js. ?m (dat + int i * bsize) \<noteq> None"
    using Cons.prems(2,3) by auto
  have 3: "\<forall>i \<in> set js. \<forall>b \<in> set (?b # bs). b < dat + int i * bsize"
    using Cons.prems(2,4) assms(2) by auto
  obtain h m' where "pool_link ?m dat bsize js ?b = Some (h, m')"
    "chain m' h (rev (map (\<lambda>j. dat + int j * bsize) js) @ ?b # bs)"
    using Cons.IH [OF 1 2 3] by blast
  then show ?case using Cons.prems(3) by (auto simp: write_word_def)
qed

lemma pool_blocks_apart:
  "0 < b \<Longrightarrow> sorted_wrt (\<lambda>x y. x + b \<le> y \<or> y + b \<le> x) (rev (map (\<lambda>j. dat + int j * b) [0 ..< n]))"
proof (induction n)
  case 0
  then show ?case by simp
next
  case (Suc n)
  have "dat + int j * b + b \<le> dat + int n * b" if "j < n" for j
  proof -
    have "(int j + 1) * b \<le> int n * b" using that Suc.prems by (intro mult_right_mono) auto
    then show ?thesis by (simp add: distrib_right)
  qed
  then show ?case using Suc by auto
qed

lemma pool_new_blocks:
  assumes "0 < dat" "0 < len" "0 < s" "s \<le> SZ_MAX - 8"
    and "\<forall>b \<in> set (pool_blocks dat len s). m b \<noteq> None"
  shows "\<exists>pool m'. pool_new m dat len s = Some (pool, m') \<and> pl_size pool = pool_block_size s \<and>
    free_blocks m' pool (pool_blocks dat len s)"
proof -
  have bs: "0 < pool_block_size s"
    using ALIGN_UP_bounds [of s 3] assms(3) by (simp add: pool_block_size_def)
  obtain h m' where "pool_link m dat (pool_block_size s) [0 ..< nat (len div pool_block_size s)] 0 = Some (h, m')"
    "chain m' h (pool_blocks dat len s)"
    using pool_link_chain [OF assms(1) bs, of m 0 "[]" "[0 ..< nat (len div pool_block_size s)]"] assms(5)
    by (auto simp: pool_blocks_def)
  then show ?thesis using assms bs pool_blocks_apart [OF bs]
    by (auto simp: pool_new_def free_blocks_def pool_block_size_def ALIGN_UP_def pool_blocks_def Let_def)
qed

section \<open>The interface of a block allocator\<close>

text \<open>
  What the page tables and the file system use: \<open>avail s bs\<close> reads "the blocks \<open>bs\<close> are free, the
  first one is handed out next". NULL (0) is returned only when no block is left.
\<close>

fun alloc_n :: "('s \<Rightarrow> (addr \<times> 's) option) \<Rightarrow> nat \<Rightarrow> 's \<Rightarrow> (addr list \<times> 's) option" where
  "alloc_n alloc 0 s = Some ([], s)"
| "alloc_n alloc (Suc n) s = do {
     (a, s) \<leftarrow> alloc s; (as, s) \<leftarrow> alloc_n alloc n s; Some (a # as, s) }"

locale block_allocator =
  fixes alloc :: "'s \<Rightarrow> (addr \<times> 's) option"
    and release :: "'s \<Rightarrow> addr \<Rightarrow> 's option"
    and avail :: "'s \<Rightarrow> addr list \<Rightarrow> bool"
    and releasable :: "'s \<Rightarrow> addr list \<Rightarrow> addr \<Rightarrow> bool"
  assumes alloc_nil: "avail s [] \<Longrightarrow> alloc s = Some (0, s)"
    and alloc_cons: "avail s (b # bs) \<Longrightarrow> \<exists>s'. alloc s = Some (b, s') \<and> avail s' bs"
    and release_cons: "avail s bs \<Longrightarrow> releasable s bs b \<Longrightarrow> \<exists>s'. release s b = Some s' \<and> avail s' (b # bs)"
    and avail_nonzero: "avail s bs \<Longrightarrow> 0 \<notin> set bs"
begin

lemma alloc_total: "avail s bs \<Longrightarrow> \<exists>a s'. alloc s = Some (a, s') \<and> (a = 0 \<longleftrightarrow> bs = [])"
  using alloc_nil alloc_cons avail_nonzero by (cases bs) fastforce+

lemma drain: "avail s (bs @ cs) \<Longrightarrow> \<exists>s'. alloc_n alloc (length bs) s = Some (bs, s') \<and> avail s' cs"
proof (induction bs arbitrary: s)
  case Nil
  then show ?case by simp
next
  case (Cons b bs)
  then obtain s1 where "alloc s = Some (b, s1)" "avail s1 (bs @ cs)"
    using alloc_cons [of s b "bs @ cs"] by auto
  then show ?case using Cons.IH [of s1] by auto
qed

lemma release_then_alloc:
  "avail s bs \<Longrightarrow> releasable s bs b \<Longrightarrow>
     \<exists>s' s''. release s b = Some s' \<and> alloc s' = Some (b, s'') \<and> avail s'' bs"
  using release_cons alloc_cons by metis

end

definition pool_alloc' :: "words \<times> pool \<Rightarrow> (addr \<times> words \<times> pool) option" where
  "pool_alloc' s = pool_alloc (fst s) (snd s)"

definition pool_free' :: "words \<times> pool \<Rightarrow> addr \<Rightarrow> (words \<times> pool) option" where
  "pool_free' s b = pool_free (fst s) (snd s) b"

definition pool_avail :: "words \<times> pool \<Rightarrow> addr list \<Rightarrow> bool" where
  "pool_avail s bs = free_blocks (fst s) (snd s) bs"

definition pool_releasable :: "words \<times> pool \<Rightarrow> addr list \<Rightarrow> addr \<Rightarrow> bool" where
  "pool_releasable s bs b \<longleftrightarrow> b \<noteq> 0 \<and> fst s b \<noteq> None \<and>
     (\<forall>x \<in> set bs. x + pl_size (snd s) \<le> b \<or> b + pl_size (snd s) \<le> x)"

lemma free_blocks_nonzero: "free_blocks m pool bs \<Longrightarrow> 0 \<notin> set bs"
proof -
  have "chain m a bs \<Longrightarrow> 0 \<notin> set bs" for a by (induction bs arbitrary: a) auto
  then show "free_blocks m pool bs \<Longrightarrow> 0 \<notin> set bs" by (auto simp: free_blocks_def)
qed

interpretation pl: block_allocator pool_alloc' pool_free' pool_avail pool_releasable
proof unfold_locales
  fix s :: "words \<times> pool" and b bs
  assume "pool_avail s (b # bs)"
  then show "\<exists>s'. pool_alloc' s = Some (b, s') \<and> pool_avail s' bs"
    using pool_alloc_cons [of "fst s" "snd s" b bs] by (auto simp: pool_alloc'_def pool_avail_def)
next
  fix s :: "words \<times> pool" and b bs
  assume "pool_avail s bs" "pool_releasable s bs b"
  then show "\<exists>s'. pool_free' s b = Some s' \<and> pool_avail s' (b # bs)"
    using pool_free_cons [of "fst s" "snd s" bs b]
    by (auto simp: pool_free'_def pool_avail_def pool_releasable_def)
qed (auto simp: pool_alloc'_def pool_avail_def pool_alloc_nil dest: free_blocks_nonzero)

text \<open>
  A new pool hands out exactly the \<open>len / block_size\<close> blocks of its memory, each once and
  none overlapping another, with the size rounded up to a multiple of 8.
\<close>

theorem pool_new_hands_out:
  assumes "0 < dat" and "0 < len" and "0 < s" and "s \<le> SZ_MAX - 8"
    and "\<forall>b \<in> set (pool_blocks dat len s). m b \<noteq> None"
  shows "\<exists>pool m' s'. pool_new m dat len s = Some (pool, m') \<and>
    alloc_n pool_alloc' (length (pool_blocks dat len s)) (m', pool) = Some (pool_blocks dat len s, s') \<and>
    sorted_wrt (\<lambda>a b. a + pool_block_size s \<le> b \<or> b + pool_block_size s \<le> a) (pool_blocks dat len s) \<and>
    pool_alloc' s' = Some (0, s')"
proof -
  obtain pool m' where n: "pool_new m dat len s = Some (pool, m')" "pl_size pool = pool_block_size s"
    "free_blocks m' pool (pool_blocks dat len s)"
    using pool_new_blocks [OF assms] by auto
  obtain s' where "alloc_n pool_alloc' (length (pool_blocks dat len s)) (m', pool) =
      Some (pool_blocks dat len s, s')" "pool_avail s' []"
    using pl.drain [of "(m', pool)" "pool_blocks dat len s" "[]"] n(3) by (auto simp: pool_avail_def)
  then show ?thesis using n pl.alloc_nil [of s'] by (cases s') (auto simp: free_blocks_def)
qed

theorem pool_new_hands_out_witness:
  "\<exists>pool m' s'. pool_new (\<lambda>_. Some 7) 4096 50 20 = Some (pool, m') \<and>
    alloc_n pool_alloc' (length (pool_blocks 4096 50 20)) (m', pool) = Some (pool_blocks 4096 50 20, s') \<and>
    sorted_wrt (\<lambda>a b. a + pool_block_size 20 \<le> b \<or> b + pool_block_size 20 \<le> a) (pool_blocks 4096 50 20) \<and>
    pool_alloc' s' = Some (0, s')"
  by (rule pool_new_hands_out) (simp_all add: SZ_MAX_def)

end
