(* ===== verification/Buddy.thy ===== *)
theory Buddy
  imports Dlist Arena
begin

text \<open>
  The buddy allocator (src/buddy.c) and the kernel virtual address allocator on top of it
  (src/kvalloc.c). The links of the free blocks are stored in the free memory itself: the node
  \<open>Blk a\<close> is the \<open>struct block\<close> at address \<open>a\<close>, the node \<open>Head k\<close> the head of the free list of
  order \<open>k\<close> in the allocator structure. The links of an allocated block are memory of its owner;
  the model lets them keep any value, because the code writes them before it reads them again.
\<close>

section \<open>Powers of two\<close>

definition N_FREE_LISTS :: nat where "N_FREE_LISTS = 52"
definition BYTE_WIDTH :: int where "BYTE_WIDTH = 8"

text \<open>The loop over the shifts 1, 2, 4, ..., 32 smears the highest bit to the right.\<close>

fun smear :: "int \<Rightarrow> nat list \<Rightarrow> int" where
  "smear n [] = n"
| "smear n (shift # shifts) = smear (n OR drop_bit shift n) shifts"

text \<open>The last addition overflows, which is undefined, for sizes above \<open>2 ^ 62\<close>.\<close>

definition min_power_of_two_geq :: "sz \<Rightarrow> sz option" where
  "min_power_of_two_geq n =
     (if n = 0 then Some 1
      else if n AND (n - 1) = 0 then Some n
      else
        let n = smear n [1, 2, 4, 8, 16, 32] in
        if n + 1 > SZ_MAX then None else Some (n + 1))"

definition max_power_of_two_leq :: "sz \<Rightarrow> sz option" where
  "max_power_of_two_leq n = do {
     kassert (n > 0);
     if n AND (n - 1) = 0 then Some n
     else map_option (\<lambda>p. p div 2) (min_power_of_two_geq n)
   }"

function order_loop :: "int \<Rightarrow> int \<Rightarrow> int" where
  "order_loop len ord =
     (if len \<le> 0 then ord
      else let len = drop_bit 1 len in if len = 0 then ord else order_loop len (ord + 1))"
  by pat_completeness auto
termination
  by (relation "measure (\<lambda>(len, _). nat len)") (auto simp: drop_bit_eq_div)

declare order_loop.simps [simp del]

definition order_of :: "sz \<Rightarrow> sz option" where
  "order_of len = do {
     kassert (len > 0 \<and> len AND (len - 1) = 0);
     Some (order_loop len 0)
   }"

definition length_of_order :: "sz \<Rightarrow> sz option" where
  "length_of_order ord = do { kassert (ord < 64); if ord < 0 \<or> ord > 62 then None else Some (2 ^ nat ord) }"

section \<open>State\<close>

datatype bnode = Head nat | Blk addr

record buddy =
  bd_links :: "bnode heap"
  bd_ord :: "addr \<rightharpoonup> sz"
  bd_bitmap :: "byte list"
  bd_max_ord :: sz
  bd_base :: addr

text \<open>The loop that initialises the heads of the free lists.\<close>

fun init_lists :: "bnode heap \<Rightarrow> nat list \<Rightarrow> bnode heap option" where
  "init_lists h [] = Some h"
| "init_lists h (i # is) = do { h \<leftarrow> dlist_init_empty h (Head i); init_lists h is }"

text \<open>
  The memory before the initialisation: every page of the region and every list head has room for
  links. A \<open>struct buddy\<close> has 52 blocks of 24 bytes and three more fields, 1280 bytes in all.
\<close>

definition raw_links :: "addr \<Rightarrow> sz \<Rightarrow> bnode heap" where
  "raw_links base n_pages x =
     (case x of
        Head k \<Rightarrow> if k < N_FREE_LISTS then Some \<lparr>dl_prev = None, dl_next = None\<rparr> else None
      | Blk a \<Rightarrow>
          if base \<le> a \<and> a < base + n_pages * PAGE_SIZE \<and> (a - base) mod PAGE_SIZE = 0
          then Some \<lparr>dl_prev = None, dl_next = None\<rparr> else None)"

definition SIZEOF_BUDDY :: sz where "SIZEOF_BUDDY = 1280"

definition buddy_init :: "addr \<Rightarrow> sz \<Rightarrow> arena \<Rightarrow> (buddy \<times> arena) option" where
  "buddy_init dat len arn = do {
     kassert (len > 0);
     kassert (dat \<noteq> 0);
     let padding = (- dat) AND (PAGE_SIZE - 1);
     let avail = len - padding;
     kassert (avail > 0);
     m \<leftarrow> max_power_of_two_leq avail;
     let n_pages = m div PAGE_SIZE;
     let base = dat + padding;
     let bitmap_len = ((n_pages + BYTE_WIDTH) - 1) div BYTE_WIDTH;
     (_, arn) \<leftarrow> arena_alloc arn SIZEOF_BUDDY;
     (bitmap, arn) \<leftarrow> byte_array_from_arena bitmap_len arn;
     h \<leftarrow> init_lists (raw_links base n_pages) [0..<N_FREE_LISTS];
     max_ord \<leftarrow> order_of n_pages;
     kassert (max_ord < int N_FREE_LISTS);
     h \<leftarrow> dlist_insert h (Head (nat max_ord)) (Blk base);
     Some (\<lparr>bd_links = h, bd_ord = [base \<mapsto> max_ord], bd_bitmap = bitmap, bd_max_ord = max_ord,
       bd_base = base\<rparr>, arn)
   }"

section \<open>The bitmap\<close>

fun set_bits :: "byte list \<Rightarrow> byte \<Rightarrow> int \<Rightarrow> nat \<Rightarrow> byte list option" where
  "set_bits bm value i 0 = Some bm"
| "set_bits bm value i (Suc n) = do {
     b \<leftarrow> peek bm (i div BYTE_WIDTH);
     let k = nat (i mod BYTE_WIDTH);
     bm \<leftarrow> poke bm (i div BYTE_WIDTH) ((b AND NOT (push_bit k 1)) OR push_bit k value);
     set_bits bm value (i + 1) n
   }"

definition set_bitmap :: "buddy \<Rightarrow> addr \<Rightarrow> sz \<Rightarrow> byte \<Rightarrow> buddy option" where
  "set_bitmap b addr ord value = do {
     kassert (ord \<ge> 0);
     let bit_idx = (addr - bd_base b) div PAGE_SIZE;
     l \<leftarrow> length_of_order ord;
     let bit_end = bit_idx + l;
     kassert (bit_end \<le> int (length (bd_bitmap b)) * BYTE_WIDTH);
     bm \<leftarrow> set_bits (bd_bitmap b) value bit_idx (nat l);
     Some (b\<lparr>bd_bitmap := bm\<rparr>)
   }"

definition set_avail :: "buddy \<Rightarrow> addr \<Rightarrow> sz \<Rightarrow> buddy option" where
  "set_avail b addr ord = set_bitmap b addr ord 1"

definition set_not_avail :: "buddy \<Rightarrow> addr \<Rightarrow> sz \<Rightarrow> buddy option" where
  "set_not_avail b addr ord = set_bitmap b addr ord 0"

definition is_avail :: "buddy \<Rightarrow> addr \<Rightarrow> bool option" where
  "is_avail b addr = do {
     let bit_idx = (addr - bd_base b) div PAGE_SIZE;
     let byte_idx = bit_idx div BYTE_WIDTH;
     kassert (0 \<le> bit_idx);
     kassert (0 \<le> byte_idx \<and> byte_idx < int (length (bd_bitmap b)));
     v \<leftarrow> peek (bd_bitmap b) byte_idx;
     Some (v AND push_bit (nat (bit_idx mod BYTE_WIDTH)) 1 \<noteq> 0)
   }"

section \<open>Allocation\<close>

definition split_block :: "addr \<Rightarrow> sz \<Rightarrow> addr option" where
  "split_block block ord = do {
     len \<leftarrow> length_of_order ord;
     kassert (len \<le> SZ_MAX div PAGE_SIZE);
     let offset = len * PAGE_SIZE;
     kassert (block \<le> SZ_MAX - offset);
     Some (block + offset)
   }"

text \<open>The search for a non-empty free list; it ends because the order grows to \<open>max_ord\<close>.\<close>

function find_order :: "buddy \<Rightarrow> sz \<Rightarrow> sz option" where
  "find_order b ord =
     (if ord \<le> bd_max_ord b then
        case dlist_is_empty (bd_links b) (Head (nat ord)) of
          None \<Rightarrow> None
        | Some e \<Rightarrow> if \<not> e then Some ord else find_order b (ord + 1)
      else Some ord)"
  by pat_completeness auto
termination
  by (relation "measure (\<lambda>(b, ord). nat (bd_max_ord b + 1 - ord))") auto

declare find_order.simps [simp del]

definition insert_block :: "buddy \<Rightarrow> sz \<Rightarrow> addr \<Rightarrow> buddy option" where
  "insert_block b ord a = do {
     h \<leftarrow> dlist_insert (bd_links b) (Head (nat ord)) (Blk a);
     Some (b\<lparr>bd_links := h\<rparr>)
   }"

definition remove_node :: "buddy \<Rightarrow> bnode \<Rightarrow> buddy option" where
  "remove_node b x = do { h \<leftarrow> dlist_remove (bd_links b) x; Some (b\<lparr>bd_links := h\<rparr>) }"

fun split_down :: "buddy \<Rightarrow> addr \<Rightarrow> sz \<Rightarrow> nat \<Rightarrow> buddy option" where
  "split_down b ret req_ord 0 = Some b"
| "split_down b ret req_ord (Suc n) = do {
     let ord = req_ord + int n;
     rem \<leftarrow> split_block ret ord;
     b \<leftarrow> set_avail b rem ord;
     let b = b\<lparr>bd_ord := (bd_ord b)(rem \<mapsto> ord)\<rparr>;
     b \<leftarrow> insert_block b ord rem;
     split_down b ret req_ord n
   }"

definition buddy_alloc_raw :: "buddy \<Rightarrow> sz \<Rightarrow> (addr option \<times> buddy) option" where
  "buddy_alloc_raw b req_ord = do {
     kassert (req_ord \<ge> 0);
     ord \<leftarrow> find_order b req_ord;
     if ord > bd_max_ord b then Some (None, b)
     else do {
       d \<leftarrow> bd_links b (Head (nat ord));
       case dl_next d of
         Some (Blk ret) \<Rightarrow> do {
           b \<leftarrow> set_not_avail b ret ord;
           b \<leftarrow> remove_node b (Blk ret);
           b \<leftarrow> split_down b ret req_ord (nat (ord - req_ord));
           Some (Some ret, b)
         }
       | _ \<Rightarrow> None
     }
   }"

section \<open>Freeing\<close>

definition get_buddy :: "buddy \<Rightarrow> addr \<Rightarrow> sz \<Rightarrow> addr option" where
  "get_buddy b block ord = do {
     let base_offset = block - bd_base b;
     l1 \<leftarrow> length_of_order (ord + 1);
     kassert (l1 \<le> SZ_MAX div PAGE_SIZE);
     let m = l1 * PAGE_SIZE;
     l0 \<leftarrow> length_of_order ord;
     kassert (l0 \<le> SZ_MAX div PAGE_SIZE);
     let halfway_offset = l0 * PAGE_SIZE;
     if base_offset mod m = 0 then Some (block + halfway_offset)
     else if base_offset mod m = halfway_offset then Some (block - halfway_offset)
     else crash
   }"

text \<open>
  The coalescing loop; it ends because the order grows to \<open>max_ord\<close>. For a block of the largest
  order the code computes a buddy outside of the region but does not use it.
\<close>

function coalesce :: "buddy \<Rightarrow> addr \<Rightarrow> addr \<Rightarrow> sz \<Rightarrow> (addr \<times> sz \<times> buddy) option" where
  "coalesce b block buddy_block ord =
     (if \<not> ord < bd_max_ord b then Some (block, ord, b)
      else case is_avail b buddy_block of
        None \<Rightarrow> None
      | Some False \<Rightarrow> Some (block, ord, b)
      | Some True \<Rightarrow>
          (case dlist_remove (bd_links b) (Blk buddy_block) of
             None \<Rightarrow> None
           | Some h \<Rightarrow>
               let block = (if buddy_block < block then buddy_block else block) in
               case get_buddy (b\<lparr>bd_links := h\<rparr>) block (ord + 1) of
                 None \<Rightarrow> None
               | Some bb \<Rightarrow> coalesce (b\<lparr>bd_links := h\<rparr>) block bb (ord + 1)))"
  by pat_completeness auto
termination
  by (relation "measure (\<lambda>(b, _, _, ord). nat (bd_max_ord b - ord))") auto

declare coalesce.simps [simp del]

definition buddy_free_raw :: "buddy \<Rightarrow> addr \<Rightarrow> sz \<Rightarrow> buddy option" where
  "buddy_free_raw b p ord = do {
     kassert (0 \<le> ord \<and> ord \<le> bd_max_ord b);
     kassert (p \<noteq> 0);
     buddy_block \<leftarrow> get_buddy b p ord;
     (block, ord, b) \<leftarrow> coalesce b p buddy_block ord;
     b \<leftarrow> set_avail b block ord;
     insert_block b ord block
   }"

definition size_order :: "sz \<Rightarrow> sz option" where
  "size_order n_bytes = do {
     let real_size = ALIGN_UP n_bytes PAGE_SIZE;
     p \<leftarrow> min_power_of_two_geq real_size;
     order_of (p div PAGE_SIZE)
   }"

definition buddy_alloc :: "buddy \<Rightarrow> sz \<Rightarrow> (addr option \<times> buddy) option" where
  "buddy_alloc b n_bytes = do {
     kassert (n_bytes > 0);
     ord \<leftarrow> size_order n_bytes;
     buddy_alloc_raw b ord
   }"

definition buddy_free :: "buddy \<Rightarrow> addr \<Rightarrow> sz \<Rightarrow> buddy option" where
  "buddy_free b dat len = do {
     kassert (len > 0);
     kassert (dat \<noteq> 0);
     ord \<leftarrow> size_order len;
     buddy_free_raw b dat ord
   }"

section \<open>The kernel allocator\<close>

record kvalloc =
  kv_virt_alloc :: "buddy option"
  kv_initialized :: bool

definition VIRT_ALLOC_BACKING_MEM_SIZE :: sz where "VIRT_ALLOC_BACKING_MEM_SIZE = 0x5000"

text \<open>\<open>backing\<close> is the address of the static memory \<open>virt_alloc_backing_mem\<close>.\<close>

definition kvalloc_init :: "addr \<Rightarrow> addr \<Rightarrow> sz \<Rightarrow> kvalloc \<Rightarrow> (unit res \<times> kvalloc) option" where
  "kvalloc_init backing dat len kv = do {
     kassert (\<not> kv_initialized kv);
     (b, _) \<leftarrow> buddy_init dat len (arena_new backing VIRT_ALLOC_BACKING_MEM_SIZE);
     Some (ok, kv\<lparr>kv_virt_alloc := Some b, kv_initialized := True\<rparr>)
   }"

text \<open>
  A byte array is its address and its length. The length of the allocation is the size rounded up
  to pages.
\<close>

definition kvalloc_alloc :: "sz \<Rightarrow> sz \<Rightarrow> kvalloc \<Rightarrow> ((addr \<times> sz) option \<times> kvalloc) option" where
  "kvalloc_alloc n_bytes align kv = do {
     kassert (kv_initialized kv);
     kassert (align \<le> PAGE_SIZE);
     let real_size = ALIGN_UP n_bytes PAGE_SIZE;
     b \<leftarrow> kv_virt_alloc kv;
     (p, b) \<leftarrow> buddy_alloc b real_size;
     Some (map_option (\<lambda>a. (a, real_size)) p, kv\<lparr>kv_virt_alloc := Some b\<rparr>)
   }"

definition kvalloc_free :: "addr \<times> sz \<Rightarrow> kvalloc \<Rightarrow> kvalloc option" where
  "kvalloc_free ba kv = do {
     kassert (kv_initialized kv);
     if fst ba = 0 then Some kv
     else do {
       b \<leftarrow> kv_virt_alloc kv;
       b \<leftarrow> buddy_free b (fst ba) (ALIGN_UP (snd ba) PAGE_SIZE);
       Some (kv\<lparr>kv_virt_alloc := Some b\<rparr>)
     }
   }"

text \<open>The functions behind \<open>struct alloc\<close> (include/tx/alloc.h) drop the length of the array.\<close>

definition buddy_alloc_wrapper :: "buddy \<Rightarrow> sz \<Rightarrow> sz \<Rightarrow> (addr option \<times> buddy) option" where
  "buddy_alloc_wrapper b n_bytes align = buddy_alloc b n_bytes"

definition buddy_free_wrapper :: "buddy \<Rightarrow> addr \<Rightarrow> sz \<Rightarrow> buddy option" where
  "buddy_free_wrapper b p n_bytes = buddy_free b p n_bytes"

definition kvalloc_alloc_wrapper :: "sz \<Rightarrow> sz \<Rightarrow> kvalloc \<Rightarrow> (addr option \<times> kvalloc) option" where
  "kvalloc_alloc_wrapper n_bytes align kv = do {
     (ba, kv) \<leftarrow> kvalloc_alloc n_bytes align kv;
     Some (map_option fst ba, kv)
   }"

definition kvalloc_free_wrapper :: "addr \<Rightarrow> sz \<Rightarrow> kvalloc \<Rightarrow> kvalloc option" where
  "kvalloc_free_wrapper p n_bytes kv = kvalloc_free (p, n_bytes) kv"

section \<open>Rounding to powers of two\<close>

lemma or_shift:
  assumes "\<And>i. bit m i \<longleftrightarrow> (\<exists>j < w. bit (n :: int) (i + j))"
  shows "bit (m OR drop_bit w m) i \<longleftrightarrow> (\<exists>j < 2 * w. bit n (i + j))"
proof
  assume "bit (m OR drop_bit w m) i"
  then consider "bit m i" | "bit m (w + i)" by (auto simp: bit_simps)
  then show "\<exists>j < 2 * w. bit n (i + j)"
  proof cases
    case 1
    then obtain j where "j < w" "bit n (i + j)" using assms by blast
    then show ?thesis by (intro exI [of _ j]) simp
  next
    case 2
    then obtain j where "j < w" "bit n (w + i + j)" using assms by blast
    then show ?thesis by (intro exI [of _ "w + j"]) (simp add: add_ac)
  qed
next
  assume "\<exists>j < 2 * w. bit n (i + j)"
  then obtain j where j: "j < 2 * w" "bit n (i + j)" by blast
  show "bit (m OR drop_bit w m) i"
  proof (cases "j < w")
    case True
    then show ?thesis using j assms [of i] by (auto simp: bit_simps)
  next
    case False
    then have "bit m (w + i)" using j assms [of "w + i"] by (auto intro!: exI [of _ "j - w"] simp: add_ac)
    then show ?thesis by (simp add: bit_simps)
  qed
qed

lemma smear_bits: "bit (smear n [1, 2, 4, 8, 16, 32]) i \<longleftrightarrow> (\<exists>j < 64. bit n (i + j))"
proof -
  have 0: "bit n i \<longleftrightarrow> (\<exists>j < 1. bit n (i + j))" for i by simp
  define n1 where "n1 = n OR drop_bit 1 n"
  define n2 where "n2 = n1 OR drop_bit 2 n1"
  define n4 where "n4 = n2 OR drop_bit 4 n2"
  define n8 where "n8 = n4 OR drop_bit 8 n4"
  define n16 where "n16 = n8 OR drop_bit 16 n8"
  define n32 where "n32 = n16 OR drop_bit 32 n16"
  have 1: "bit n1 i \<longleftrightarrow> (\<exists>j < 2. bit n (i + j))" for i using or_shift [OF 0] by (simp add: n1_def)
  have 2: "bit n2 i \<longleftrightarrow> (\<exists>j < 4. bit n (i + j))" for i using or_shift [OF 1] by (simp add: n2_def)
  have 3: "bit n4 i \<longleftrightarrow> (\<exists>j < 8. bit n (i + j))" for i using or_shift [OF 2] by (simp add: n4_def)
  have 4: "bit n8 i \<longleftrightarrow> (\<exists>j < 16. bit n (i + j))" for i using or_shift [OF 3] by (simp add: n8_def)
  have 5: "bit n16 i \<longleftrightarrow> (\<exists>j < 32. bit n (i + j))" for i using or_shift [OF 4] by (simp add: n16_def)
  have 6: "bit n32 i \<longleftrightarrow> (\<exists>j < 64. bit n (i + j))" for i using or_shift [OF 5] by (simp add: n32_def)
  show ?thesis using 6 [of i] by (simp add: n1_def n2_def n4_def n8_def n16_def n32_def)
qed

lemma bit_above: "0 \<le> n \<Longrightarrow> n < 2 ^ k \<Longrightarrow> k \<le> i \<Longrightarrow> \<not> bit (n :: int) i"
proof -
  assume a: "0 \<le> n" "n < 2 ^ k" "k \<le> i"
  have "(2 :: int) ^ k \<le> 2 ^ i" using a(3) by (intro power_increasing) simp_all
  then have "n < 2 ^ i" using a by linarith
  then have "n div 2 ^ i = 0" using a(1) by simp
  then show "\<not> bit n i" by (simp add: bit_iff_odd)
qed

lemma bit_top: "2 ^ k \<le> n \<Longrightarrow> n < 2 ^ Suc k \<Longrightarrow> bit (n :: int) k"
proof -
  assume a: "2 ^ k \<le> n" "n < 2 ^ Suc k"
  have "n div 2 ^ k = 1" by (rule int_div_pos_eq [of _ _ _ "n - 2 ^ k"]) (use a in simp_all)
  then show "bit n k" by (simp add: bit_iff_odd)
qed

lemma smear_mask:
  assumes "2 ^ k \<le> n" "n < 2 ^ Suc k" "k < 63"
  shows "smear n [1, 2, 4, 8, 16, 32] = 2 ^ Suc k - 1"
proof -
  have n: "0 \<le> n" using assms(1) by (metis order_trans zero_le_numeral zero_le_power)
  have "smear n [1, 2, 4, 8, 16, 32] = mask (Suc k)"
  proof (rule bit_eqI)
    fix i
    have "(\<exists>j < 64. bit n (i + j)) \<longleftrightarrow> i < Suc k"
    proof
      assume "\<exists>j < 64. bit n (i + j)"
      then obtain j where "bit n (i + j)" by blast
      then have "\<not> Suc k \<le> i + j" using bit_above [OF n assms(2)] by blast
      then show "i < Suc k" by simp
    next
      assume "i < Suc k"
      then show "\<exists>j < 64. bit n (i + j)" using bit_top [OF assms(1,2)] assms(3)
        by (intro exI [of _ "k - i"]) simp
    qed
    then show "bit (smear n [1, 2, 4, 8, 16, 32]) i \<longleftrightarrow> bit (mask (Suc k) :: int) i"
      unfolding smear_bits by (simp add: bit_mask_iff)
  qed
  then show ?thesis by (simp add: mask_eq_exp_minus_1)
qed

lemma log2_exists: "0 < n \<Longrightarrow> \<exists>k. 2 ^ k \<le> n \<and> n < 2 ^ Suc k" for n :: int
proof (induction "nat n" arbitrary: n rule: less_induct)
  case less
  show ?case
  proof (cases "n = 1")
    case True
    then show ?thesis by (intro exI [of _ 0]) simp
  next
    case False
    then have "nat (n div 2) < nat n" "0 < n div 2" using less.prems by auto
    from less.hyps [OF this] obtain k where "2 ^ k \<le> n div 2" "n div 2 < 2 ^ Suc k" by blast
    then show ?thesis by (intro exI [of _ "Suc k"]) auto
  qed
qed

lemma and_pred_pow2: "0 < n \<Longrightarrow> n AND (n - 1) = 0 \<longleftrightarrow> (\<exists>k. n = 2 ^ k)" for n :: int
proof
  assume "0 < n" "n AND (n - 1) = 0"
  obtain k where k: "2 ^ k \<le> n" "n < 2 ^ Suc k" using log2_exists [OF \<open>0 < n\<close>] by blast
  show "\<exists>k. n = 2 ^ k"
  proof (rule ccontr)
    assume "\<not> ?thesis"
    then have "2 ^ k \<le> n - 1" using k by (metis zle_diff1_eq order_le_less)
    then have "bit (n - 1) k" "bit n k" using bit_top k by (auto intro!: bit_top)
    then have "bit (n AND (n - 1)) k" by (simp add: bit_and_iff)
    then show False using \<open>n AND (n - 1) = 0\<close> by simp
  qed
next
  assume "\<exists>k. n = 2 ^ k"
  then obtain k where "n = 2 ^ k" by blast
  moreover have "(2 :: int) ^ k AND (2 ^ k - 1) = 0" by (simp add: and_pow2_mod)
  ultimately show "n AND (n - 1) = 0" by simp
qed

text \<open>
  For every size from 1 to \<open>2 ^ 62\<close>, \<open>min_power_of_two_geq\<close> returns the least power of two
  that is not smaller than the size, without overflow.
\<close>

theorem min_power_of_two_geq_least:
  assumes "1 \<le> n" and "n \<le> 2 ^ 62"
  shows "\<exists>k. min_power_of_two_geq n = Some (2 ^ k) \<and> n \<le> 2 ^ k \<and> (\<forall>j. n \<le> 2 ^ j \<longrightarrow> k \<le> j)"
proof (cases "n AND (n - 1) = 0")
  case True
  then obtain k where "n = 2 ^ k" using and_pred_pow2 [of n] assms by auto
  then show ?thesis using True by (intro exI [of _ k]) (simp add: min_power_of_two_geq_def)
next
  case False
  obtain k where k: "2 ^ k \<le> n" "n < 2 ^ Suc k" using log2_exists [of n] assms by auto
  have ne: "n \<noteq> 2 ^ k" using False and_pred_pow2 [of n] assms by auto
  have "(2 :: int) ^ k < 2 ^ 62" using k assms(2) ne by linarith
  then have k62: "k < 62" by (metis power_less_imp_less_exp one_less_numeral_iff semiring_norm(76))
  then have "(2 :: int) ^ Suc k \<le> 2 ^ 62" by (intro power_increasing) simp_all
  then have r: "min_power_of_two_geq n = Some (2 ^ Suc k)"
    using False assms smear_mask [OF k] k62 by (simp add: min_power_of_two_geq_def SZ_MAX_def del: smear.simps)
  have "Suc k \<le> j" if "n \<le> 2 ^ j" for j
  proof (rule ccontr)
    assume "\<not> Suc k \<le> j"
    then have "(2 :: int) ^ j \<le> 2 ^ k" by (intro power_increasing) simp_all
    then show False using that k ne by linarith
  qed
  then show ?thesis using r k by (intro exI [of _ "Suc k"]) auto
qed

theorem min_power_of_two_geq_least_witness:
  "\<exists>k. min_power_of_two_geq 5000 = Some (2 ^ k) \<and> 5000 \<le> (2 :: int) ^ k \<and> (\<forall>j. (5000 :: int) \<le> 2 ^ j \<longrightarrow> k \<le> j)"
  by (rule min_power_of_two_geq_least) simp_all

lemma order_loop_pow2: "order_loop (2 ^ k) ord = ord + int k"
proof (induction k arbitrary: ord)
  case 0
  then show ?case by (subst order_loop.simps) (simp add: drop_bit_eq_div)
next
  case (Suc k)
  have "drop_bit 1 ((2 :: int) ^ Suc k) = 2 ^ k" by (simp add: drop_bit_eq_div)
  then show ?case using Suc by (subst order_loop.simps) (simp add: Let_def)
qed

lemma order_of_pow2: "order_of (2 ^ k) = Some (int k)"
  using and_pred_pow2 [of "2 ^ k"] by (auto simp: order_of_def order_loop_pow2)

text \<open>The heads of the free lists.\<close>

lemma init_lists_rings:
  "distinct is \<Longrightarrow> \<forall>i \<in> set is. h (Head i) \<noteq> None \<Longrightarrow>
     \<exists>h'. init_lists h is = Some h' \<and> (\<forall>i \<in> set is. ring h' (Head i) []) \<and> dom h' = dom h \<and>
       (\<forall>y. y \<notin> Head ` set is \<longrightarrow> h' y = h y)"
proof (induction "is" arbitrary: h)
  case (Cons i js)
  obtain h1 where 1: "dlist_init_empty h (Head i) = Some h1" "ring h1 (Head i) []" "dom h1 = dom h" "\<forall>y. y \<noteq> Head i \<longrightarrow> h1 y = h y"
    using dlist_init_empty_ring [of h "Head i"] Cons.prems(2) by auto
  have "\<forall>j \<in> set js. h1 (Head j) \<noteq> None" using Cons.prems(1,2) 1(4) by auto
  then obtain h2 where 2: "init_lists h1 js = Some h2" "\<forall>j \<in> set js. ring h2 (Head j) []" "dom h2 = dom h1"
    "\<forall>y. y \<notin> Head ` set js \<longrightarrow> h2 y = h1 y" using Cons.IH [of h1] Cons.prems(1) by auto
  have "h2 (Head i) = h1 (Head i)" using 2(4) Cons.prems(1) by auto
  then have "ring h2 (Head i) []" using ring_frame [OF 1(2)] by simp
  then show ?case using 1 2 by auto
qed simp

section \<open>Coalescing with a block that is still in use\<close>

text \<open>
  \<open>buddy_free_raw\<close> merges a block with its buddy when the bit of the first page of the buddy is
  set. It does not test that the buddy is free as a whole: when the buddy has been split, its
  first page can be free while another part of it is allocated.
\<close>

definition overlap_run :: "(addr \<times> addr \<times> addr) option" where
  "overlap_run = do {
     (b, _) \<leftarrow> buddy_init 4096 (4 * 4096) (arena_new 0x100000 0x5000);
     (p, b) \<leftarrow> buddy_alloc b 8192; p \<leftarrow> p;
     (q, b) \<leftarrow> buddy_alloc b 4096; q \<leftarrow> q;
     (r, b) \<leftarrow> buddy_alloc b 4096; r \<leftarrow> r;
     b \<leftarrow> buddy_free b q 4096;
     b \<leftarrow> buddy_free b p 8192;
     (z, b) \<leftarrow> buddy_alloc b 16384; z \<leftarrow> z;
     Some (q, r, z)
   }"

text \<open>
  A defect of the code. On a region of four pages, allocate two pages, one page and one page,
  then free the middle allocation and the first one: the next allocation of four pages succeeds
  and contains the page that is still allocated.
\<close>

theorem buddy_coalescing_overlap:
  "\<exists>q r z. overlap_run = Some (q, r, z) \<and> z \<le> r \<and> r + 4096 \<le> z + 16384"
proof -
  have "overlap_run = Some (12288, 16384, 4096)" by code_simp
  then show ?thesis by (intro exI [of _ 12288] exI [of _ 16384] exI [of _ 4096]) simp
qed

end
