(* ===== verification/Fifo.thy ===== *)
theory Fifo
  imports Prelude
begin

text \<open>
  Bounded queues in ring buffers. \<open>ring_items\<close> is the content of a ring buffer read from a start
  position around the end of the array, for the input queue of the network devices and the byte buffers
  of TCP connections. The locale \<open>bounded_fifo\<close> is the contract of a queue whose operations are atomic, as those of the
  byte buffers are.
\<close>

section \<open>Reading around the end of an array\<close>

definition ring_items :: "'a list \<Rightarrow> nat \<Rightarrow> nat \<Rightarrow> 'a list" where
  "ring_items xs t n = map (\<lambda>k. xs ! ((t + k) mod length xs)) [0..<n]"

lemma ring_items_length [simp]: "length (ring_items xs t n) = n"
  by (simp add: ring_items_def)

lemma ring_items_0 [simp]: "ring_items xs t 0 = []"
  by (simp add: ring_items_def)

lemma mod_shift_neq:
  assumes "k < n" "n < (L :: nat)"
  shows "(t + k) mod L \<noteq> (t + n) mod L"
proof
  assume "(t + k) mod L = (t + n) mod L"
  then have "L dvd (t + n) - (t + k)" using mod_eq_dvd_iff_nat [of "t + k" "t + n" L] assms by simp
  then have "L \<le> n - k" using assms by (simp add: dvd_imp_le)
  then show False using assms by simp
qed

lemma ring_items_put:
  "n < length xs \<Longrightarrow> ring_items (xs[(t + n) mod length xs := v]) t (Suc n) = ring_items xs t n @ [v]"
proof -
  assume n: "n < length xs"
  have "(t + n) mod length xs < length xs" using n by (metis gr_implies_not0 mod_less_divisor neq0_conv)
  moreover have "(t + n) mod length xs \<noteq> (t + x) mod length xs" if "x < n" for x
    using mod_shift_neq [OF that n] by metis
  ultimately show ?thesis by (auto simp: ring_items_def)
qed

lemma ring_items_get:
  assumes "xs \<noteq> []"
  shows "ring_items xs t (Suc n) = xs ! (t mod length xs) # ring_items xs ((t + 1) mod length xs) n"
proof -
  have "[0..<Suc n] = 0 # map Suc [0..<n]" by (metis map_Suc_upt upt_rec zero_less_Suc)
  moreover have "(t + Suc k) mod length xs = ((t + 1) mod length xs + k) mod length xs" for k
    by (simp add: mod_add_left_eq)
  ultimately show ?thesis by (simp add: ring_items_def del: upt_Suc)
qed

lemma ring_items_mod: "ring_items xs (t mod length xs) n = ring_items xs t n"
  by (simp add: ring_items_def mod_add_left_eq)

lemma ring_items_drop: "k \<le> n \<Longrightarrow> drop k (ring_items xs t n) = ring_items xs (t + k) (n - k)"
  by (rule nth_equalityI) (auto simp: ring_items_def add.assoc)

lemma ring_items_take: "k \<le> n \<Longrightarrow> take k (ring_items xs t n) = ring_items xs t k"
  by (rule nth_equalityI) (auto simp: ring_items_def)

section \<open>Bounded queues\<close>

text \<open>
  \<open>put\<close> answers whether there was room; \<open>get\<close> answers the oldest element, if there is one. What
  is stored of an element \<open>a\<close> is \<open>stored a\<close>. The run of a sequence of operations is compared with a list.
\<close>

datatype 'a fifo_op = Put 'a | Get

locale bounded_fifo =
  fixes good :: "'s \<Rightarrow> bool" and items :: "'s \<Rightarrow> 'b list" and bound :: nat and stored :: "'a \<Rightarrow> 'b"
    and put :: "'a \<Rightarrow> 's \<Rightarrow> (bool \<times> 's) option" and get :: "'s \<Rightarrow> ('b option \<times> 's) option"
  assumes items_bound: "good s \<Longrightarrow> length (items s) \<le> bound"
    and put_room: "good s \<Longrightarrow> length (items s) < bound \<Longrightarrow>
      \<exists>s'. put a s = Some (True, s') \<and> good s' \<and> items s' = items s @ [stored a]"
    and put_full: "good s \<Longrightarrow> length (items s) = bound \<Longrightarrow> put a s = Some (False, s)"
    and get_item: "good s \<Longrightarrow> items s = b # bs \<Longrightarrow>
      \<exists>s'. get s = Some (Some b, s') \<and> good s' \<and> items s' = bs"
    and get_empty: "good s \<Longrightarrow> items s = [] \<Longrightarrow> get s = Some (None, s)"
begin

text \<open>A run returns the elements that were accepted and the elements that were taken out.\<close>

fun run :: "'a fifo_op list \<Rightarrow> 's \<Rightarrow> ('b list \<times> 'b list \<times> 's) option" where
  "run [] s = Some ([], [], s)"
| "run (Put a # ops) s = do {
     (b, s) \<leftarrow> put a s;
     (ins, outs, s) \<leftarrow> run ops s;
     Some (if b then stored a # ins else ins, outs, s)
   }"
| "run (Get # ops) s = do {
     (x, s) \<leftarrow> get s;
     (ins, outs, s) \<leftarrow> run ops s;
     Some (ins, case x of None \<Rightarrow> outs | Some b \<Rightarrow> b # outs, s)
   }"

text \<open>
  Every run succeeds, and first in is first out: what was in the queue at the start followed by
  what was accepted is what came out followed by what is in the queue at the end.
\<close>

lemma run_fifo:
  "good s \<Longrightarrow> \<exists>ins outs s'. run ops s = Some (ins, outs, s') \<and> good s' \<and>
     items s @ ins = outs @ items s'"
proof (induction ops arbitrary: s)
  case Nil
  then show ?case by simp
next
  case (Cons op ops)
  show ?case
  proof (cases op)
    case (Put a)
    show ?thesis
    proof (cases "length (items s) < bound")
      case True
      from put_room [OF Cons.prems this, of a] obtain s' where
        s': "put a s = Some (True, s')" "good s'" "items s' = items s @ [stored a]" by blast
      from Cons.IH [OF s'(2)] show ?thesis using s' Put by auto
    next
      case False
      then have "put a s = Some (False, s)" using put_full items_bound Cons.prems by (metis le_neq_implies_less)
      then show ?thesis using Cons.IH [OF Cons.prems] Put by auto
    qed
  next
    case Get
    show ?thesis
    proof (cases "items s")
      case Nil
      then show ?thesis using get_empty [OF Cons.prems] Cons.IH [OF Cons.prems] Get by auto
    next
      case (Cons a "as")
      from get_item [OF \<open>good s\<close> this] obtain s' where
        s': "get s = Some (Some a, s')" "good s'" "items s' = as" by blast
      from Cons.IH [OF s'(2)] show ?thesis using s' Get Cons by auto
    qed
  qed
qed

lemma run_from_empty:
  assumes "good s" "items s = []" "run ops s = Some (ins, outs, s')"
  shows "ins = outs @ items s'"
  using run_fifo [OF assms(1), of ops] assms(2,3) by simp

end

end
