(* ===== verification/CircBuf.thy ===== *)
theory CircBuf
  imports Buddy Fifo Bytes
begin

text \<open>
  The circular byte buffers of TCP connections (first part of src/net/tcp.c). \<open>cb_addr\<close> and
  \<open>cb_len\<close> are the byte array of the code, \<open>cb_dat\<close> is the memory behind it. Freshly allocated
  memory is zero here; what it holds does not matter, because a byte is read only after it has
  been written (the queue properties hold for every content).
\<close>

record circ_buf =
  cb_addr :: addr
  cb_len :: sz
  cb_dat :: "byte list"
  cb_head :: sz
  cb_tail :: sz

definition circ_buf_is_empty :: "circ_buf \<Rightarrow> bool" where
  "circ_buf_is_empty buf \<longleftrightarrow> cb_head buf = cb_tail buf"

text \<open>The remainder of a division by 0 has no value.\<close>

definition circ_buf_is_full :: "circ_buf \<Rightarrow> bool option" where
  "circ_buf_is_full buf =
     (if cb_len buf = 0 then None else Some ((cb_head buf + 1) mod cb_len buf = cb_tail buf))"

definition circ_buf_count :: "circ_buf \<Rightarrow> sz option" where
  "circ_buf_count buf = do {
     kassert (cb_len buf \<noteq> 0);
     Some ((cb_head buf - cb_tail buf + cb_len buf) mod cb_len buf)
   }"

definition circ_buf_space :: "circ_buf \<Rightarrow> sz option" where
  "circ_buf_space buf = do { n \<leftarrow> circ_buf_count buf; Some (cb_len buf - 1 - n) }"

definition circ_buf_alloc :: "circ_buf \<Rightarrow> sz \<Rightarrow> kvalloc \<Rightarrow> (unit res \<times> circ_buf \<times> kvalloc) option" where
  "circ_buf_alloc buf capacity kv = do {
     kassert (capacity > 0);
     (mem, kv) \<leftarrow> kvalloc_alloc capacity 1 kv;
     case mem of
       None \<Rightarrow> Some (Inl ENOMEM, buf, kv)
     | Some (a, n) \<Rightarrow>
         Some (ok, \<lparr>cb_addr = a, cb_len = n, cb_dat = replicate (nat n) 0, cb_head = 0, cb_tail = 0\<rparr>, kv)
   }"

definition circ_buf_free :: "circ_buf \<Rightarrow> kvalloc \<Rightarrow> (circ_buf \<times> kvalloc) option" where
  "circ_buf_free buf kv = do {
     kv \<leftarrow> kvalloc_free (cb_addr buf, cb_len buf) kv;
     Some (buf\<lparr>cb_addr := 0, cb_len := 0, cb_dat := []\<rparr>, kv)
   }"

definition circ_buf_push_byte :: "circ_buf \<Rightarrow> byte \<Rightarrow> (unit res \<times> circ_buf) option" where
  "circ_buf_push_byte buf b = do {
     full \<leftarrow> circ_buf_is_full buf;
     if full then Some (Inl EAGAIN, buf)
     else do {
       dat \<leftarrow> poke (cb_dat buf) (cb_head buf) b;
       Some (ok, buf\<lparr>cb_dat := dat, cb_head := (cb_head buf + 1) mod cb_len buf\<rparr>)
     }
   }"

definition circ_buf_pop_byte :: "circ_buf \<Rightarrow> (byte res \<times> circ_buf) option" where
  "circ_buf_pop_byte buf =
     (if circ_buf_is_empty buf then Some (Inl EAGAIN, buf)
      else if cb_len buf = 0 then None
      else do {
        b \<leftarrow> peek (cb_dat buf) (cb_tail buf);
        Some (Inr b, buf\<lparr>cb_tail := (cb_tail buf + 1) mod cb_len buf\<rparr>)
      })"

fun circ_push_all :: "circ_buf \<Rightarrow> byte list \<Rightarrow> (unit res \<times> circ_buf) option" where
  "circ_push_all buf [] = Some (ok, buf)"
| "circ_push_all buf (b # bs) = do {
     (r, buf) \<leftarrow> circ_buf_push_byte buf b;
     if is_error r then Some (r, buf) else circ_push_all buf bs
   }"

definition circ_buf_write :: "circ_buf \<Rightarrow> byte list \<Rightarrow> (unit res \<times> circ_buf) option" where
  "circ_buf_write buf data = do {
     space \<leftarrow> circ_buf_space buf;
     if int (length data) > space then Some (Inl EAGAIN, buf) else circ_push_all buf data
   }"

fun circ_read_loop :: "nat \<Rightarrow> circ_buf \<Rightarrow> byte_buf \<Rightarrow> sz \<Rightarrow> (sz \<times> circ_buf \<times> byte_buf) option" where
  "circ_read_loop 0 buf dest bytes_read = Some (bytes_read, buf, dest)"
| "circ_read_loop (Suc n) buf dest bytes_read = do {
     (r, buf) \<leftarrow> circ_buf_pop_byte buf;
     case r of
       Inl _ \<Rightarrow> Some (bytes_read, buf, dest)
     | Inr b \<Rightarrow> do {
         (k, dest) \<leftarrow> byte_buf_append_n dest 1 b;
         if k \<noteq> 1 then Some (bytes_read, buf, dest) else circ_read_loop n buf dest (bytes_read + 1)
       }
   }"

definition circ_buf_read :: "circ_buf \<Rightarrow> byte_buf \<Rightarrow> (sz \<times> circ_buf \<times> byte_buf) option" where
  "circ_buf_read buf dest = do {
     available \<leftarrow> circ_buf_count buf;
     let space = bb_cap dest - bb_len dest;
     circ_read_loop (nat (min available space)) buf dest 0
   }"

section \<open>The buffer as a queue\<close>

definition wf_circ :: "circ_buf \<Rightarrow> bool" where
  "wf_circ buf \<longleftrightarrow> 0 < cb_len buf \<and> cb_len buf = int (length (cb_dat buf)) \<and>
     0 \<le> cb_head buf \<and> cb_head buf < cb_len buf \<and> 0 \<le> cb_tail buf \<and> cb_tail buf < cb_len buf"

definition circ_used :: "circ_buf \<Rightarrow> nat" where
  "circ_used buf = nat ((cb_head buf - cb_tail buf + cb_len buf) mod cb_len buf)"

definition circ_items :: "circ_buf \<Rightarrow> byte list" where
  "circ_items buf = ring_items (cb_dat buf) (nat (cb_tail buf)) (circ_used buf)"

lemma circ_items_length [simp]: "length (circ_items buf) = circ_used buf"
  by (simp add: circ_items_def)

lemma circ_arith:
  assumes "0 \<le> h" "h < l" "0 \<le> t" "t < (l :: int)"
  shows "(h - t + l) mod l = (if t \<le> h then h - t else h - t + l)"
    "(h + 1) mod l = (if h + 1 = l then 0 else h + 1)"
proof -
  show "(h + 1) mod l = (if h + 1 = l then 0 else h + 1)" using assms by auto
  show "(h - t + l) mod l = (if t \<le> h then h - t else h - t + l)"
  proof (cases "t \<le> h")
    case True
    have "(h - t + l) mod l = (h - t) mod l" by simp
    also have "\<dots> = h - t" using True assms by (intro mod_pos_pos_trivial) auto
    finally show ?thesis using True by simp
  next
    case False
    have "(h - t + l) mod l = h - t + l" by (rule mod_pos_pos_trivial) (use False assms in auto)
    then show ?thesis using False by simp
  qed
qed

lemma circ_used_int:
  "wf_circ buf \<Longrightarrow> int (circ_used buf) =
     (if cb_tail buf \<le> cb_head buf then cb_head buf - cb_tail buf else cb_head buf - cb_tail buf + cb_len buf)"
proof -
  assume w: "wf_circ buf"
  then have "(cb_head buf - cb_tail buf + cb_len buf) mod cb_len buf =
      (if cb_tail buf \<le> cb_head buf then cb_head buf - cb_tail buf else cb_head buf - cb_tail buf + cb_len buf)"
    by (intro circ_arith(1)) (auto simp: wf_circ_def)
  moreover have "0 \<le> (cb_head buf - cb_tail buf + cb_len buf) mod cb_len buf"
    using w by (intro pos_mod_sign) (auto simp: wf_circ_def)
  ultimately show ?thesis unfolding circ_used_def by simp
qed

lemma circ_used_less: "wf_circ buf \<Longrightarrow> int (circ_used buf) < cb_len buf"
  using circ_used_int [of buf] by (auto simp: wf_circ_def split: if_splits)

lemma circ_count_used: "wf_circ buf \<Longrightarrow> circ_buf_count buf = Some (int (circ_used buf))"
proof -
  assume w: "wf_circ buf"
  then have "0 \<le> (cb_head buf - cb_tail buf + cb_len buf) mod cb_len buf"
    by (intro pos_mod_sign) (auto simp: wf_circ_def)
  then have "int (circ_used buf) = (cb_head buf - cb_tail buf + cb_len buf) mod cb_len buf"
    unfolding circ_used_def by simp
  moreover have "cb_len buf \<noteq> 0" using w by (auto simp: wf_circ_def)
  ultimately show ?thesis by (simp add: circ_buf_count_def kassert_def)
qed

lemma circ_space_used: "wf_circ buf \<Longrightarrow> circ_buf_space buf = Some (cb_len buf - 1 - int (circ_used buf))"
  by (simp add: circ_buf_space_def circ_count_used)

lemma circ_head_pos:
  assumes "wf_circ buf"
  shows "(nat (cb_tail buf) + circ_used buf) mod length (cb_dat buf) = nat (cb_head buf)"
proof -
  have "(cb_tail buf + int (circ_used buf)) mod cb_len buf = cb_head buf"
    using assms circ_used_int [OF assms] by (auto simp: wf_circ_def)
  then have "int ((nat (cb_tail buf) + circ_used buf) mod length (cb_dat buf)) = cb_head buf"
    using assms by (simp add: wf_circ_def zmod_int)
  then show ?thesis by simp
qed

lemma circ_push_room:
  assumes "wf_circ buf" "int (circ_used buf) < cb_len buf - 1"
  shows "\<exists>buf'. circ_buf_push_byte buf b = Some (ok, buf') \<and> wf_circ buf' \<and> cb_len buf' = cb_len buf \<and>
    cb_addr buf' = cb_addr buf \<and> circ_items buf' = circ_items buf @ [b]"
proof -
  let ?h' = "(cb_head buf + 1) mod cb_len buf"
  let ?buf' = "buf\<lparr>cb_dat := (cb_dat buf)[nat (cb_head buf) := b], cb_head := ?h'\<rparr>"
  have w: "0 < cb_len buf" "cb_len buf = int (length (cb_dat buf))" "0 \<le> cb_head buf" "cb_head buf < cb_len buf"
    "0 \<le> cb_tail buf" "cb_tail buf < cb_len buf" using assms(1) by (auto simp: wf_circ_def)
  have nf: "?h' \<noteq> cb_tail buf"
    using assms(2) circ_used_int [OF assms(1)] w circ_arith(2) [OF w(3,4,5,6)] by (auto split: if_splits)
  have wf': "wf_circ ?buf'" using w by (auto simp: wf_circ_def)
  have "int (circ_used ?buf') = int (circ_used buf) + 1"
    using circ_used_int [OF wf'] circ_used_int [OF assms(1)] w nf circ_arith(2) [OF w(3,4,5,6)]
    by (auto split: if_splits)
  then have u: "circ_used ?buf' = Suc (circ_used buf)" by linarith
  have "circ_items ?buf' = circ_items buf @ [b]"
    unfolding circ_items_def u
    using ring_items_put [of "circ_used buf" "cb_dat buf" "nat (cb_tail buf)" b] circ_head_pos [OF assms(1)]
      circ_used_less [OF assms(1)] w by simp
  then show ?thesis using wf' w nf by (simp add: circ_buf_push_byte_def circ_buf_is_full_def poke_def)
qed

lemma circ_push_full:
  assumes "wf_circ buf" "int (circ_used buf) = cb_len buf - 1"
  shows "circ_buf_push_byte buf b = Some (Inl EAGAIN, buf)"
proof -
  have w: "0 < cb_len buf" "0 \<le> cb_head buf" "cb_head buf < cb_len buf" "0 \<le> cb_tail buf" "cb_tail buf < cb_len buf"
    using assms(1) by (auto simp: wf_circ_def)
  have "(cb_head buf + 1) mod cb_len buf = cb_tail buf"
    using assms(2) circ_used_int [OF assms(1)] w circ_arith(2) [OF w(2-5)] by (auto split: if_splits)
  then show ?thesis using w by (simp add: circ_buf_push_byte_def circ_buf_is_full_def)
qed

lemma circ_pop_item:
  assumes "wf_circ buf" "circ_items buf = x # xs"
  shows "\<exists>buf'. circ_buf_pop_byte buf = Some (Inr x, buf') \<and> wf_circ buf' \<and> cb_len buf' = cb_len buf \<and>
    cb_addr buf' = cb_addr buf \<and> circ_items buf' = xs"
proof -
  let ?t' = "(cb_tail buf + 1) mod cb_len buf"
  let ?buf' = "buf\<lparr>cb_tail := ?t'\<rparr>"
  have w: "0 < cb_len buf" "cb_len buf = int (length (cb_dat buf))" "0 \<le> cb_head buf" "cb_head buf < cb_len buf"
    "0 \<le> cb_tail buf" "cb_tail buf < cb_len buf" using assms(1) by (auto simp: wf_circ_def)
  have "circ_used buf \<noteq> 0" using assms(2) by (metis circ_items_length length_0_conv list.distinct(1))
  then have ne: "cb_head buf \<noteq> cb_tail buf" using circ_used_int [OF assms(1)] by auto
  have wf': "wf_circ ?buf'" using w by (auto simp: wf_circ_def)
  have "int (circ_used buf) = int (circ_used ?buf') + 1"
    using circ_used_int [OF wf'] circ_used_int [OF assms(1)] w ne circ_arith(2) [OF w(5,6,3,4)]
    by (auto split: if_splits)
  then have u: "circ_used buf = Suc (circ_used ?buf')" by linarith
  have q: "cb_dat buf \<noteq> []" using w by auto
  have "nat ?t' = (nat (cb_tail buf) + 1) mod length (cb_dat buf)"
    using w by (simp add: nat_mod_distrib nat_add_distrib)
  then have "circ_items buf = cb_dat buf ! nat (cb_tail buf) # circ_items ?buf'"
    using ring_items_get [OF q, of "nat (cb_tail buf)" "circ_used ?buf'"] w
    by (simp add: circ_items_def u)
  then show ?thesis using assms w ne wf'
    by (auto simp: circ_buf_pop_byte_def circ_buf_is_empty_def peek_def)
qed

lemma circ_pop_empty: "wf_circ buf \<Longrightarrow> circ_items buf = [] \<Longrightarrow> circ_buf_pop_byte buf = Some (Inl EAGAIN, buf)"
proof -
  assume a: "wf_circ buf" "circ_items buf = []"
  then have "circ_used buf = 0" by (metis circ_items_length list.size(3))
  then have "cb_head buf = cb_tail buf" using circ_used_int [OF a(1)] a(1) by (auto simp: wf_circ_def split: if_splits)
  then show "circ_buf_pop_byte buf = Some (Inl EAGAIN, buf)"
    by (simp add: circ_buf_pop_byte_def circ_buf_is_empty_def)
qed

lemma circ_push_all_ok:
  "wf_circ buf \<Longrightarrow> int (circ_used buf) + int (length bs) \<le> cb_len buf - 1 \<Longrightarrow>
     \<exists>buf'. circ_push_all buf bs = Some (ok, buf') \<and> wf_circ buf' \<and> cb_len buf' = cb_len buf \<and>
       cb_addr buf' = cb_addr buf \<and> circ_items buf' = circ_items buf @ bs"
proof (induction bs arbitrary: buf)
  case Nil
  then show ?case by simp
next
  case (Cons b bs)
  obtain b1 where b1: "circ_buf_push_byte buf b = Some (ok, b1)" "wf_circ b1" "cb_len b1 = cb_len buf"
    "cb_addr b1 = cb_addr buf" "circ_items b1 = circ_items buf @ [b]"
    using circ_push_room [OF Cons.prems(1), of b] Cons.prems(2) by auto
  have "circ_used b1 = Suc (circ_used buf)" using arg_cong [OF b1(5), of length] by simp
  then show ?case using Cons.IH [OF b1(2)] Cons.prems(2) b1 by auto
qed

text \<open>Writing is all or nothing.\<close>

lemma circ_buf_write_ok:
  assumes "wf_circ buf"
  shows "\<exists>buf'. wf_circ buf' \<and> cb_len buf' = cb_len buf \<and> cb_addr buf' = cb_addr buf \<and>
    (if int (circ_used buf) + int (length data) \<le> cb_len buf - 1
     then circ_buf_write buf data = Some (ok, buf') \<and> circ_items buf' = circ_items buf @ data
     else circ_buf_write buf data = Some (Inl EAGAIN, buf') \<and> buf' = buf)"
proof (cases "int (circ_used buf) + int (length data) \<le> cb_len buf - 1")
  case True
  then show ?thesis using circ_push_all_ok [OF assms, of data]
    by (auto simp: circ_buf_write_def circ_space_used [OF assms])
next
  case False
  then show ?thesis using assms by (auto simp: circ_buf_write_def circ_space_used [OF assms])
qed

lemma circ_read_loop_ok:
  "wf_circ buf \<Longrightarrow> wf_buf dest \<Longrightarrow> n \<le> circ_used buf \<Longrightarrow> int n \<le> bb_cap dest - bb_len dest \<Longrightarrow>
     \<exists>buf' dest'. circ_read_loop n buf dest k = Some (k + int n, buf', dest') \<and> wf_circ buf' \<and>
       cb_len buf' = cb_len buf \<and> cb_addr buf' = cb_addr buf \<and> wf_buf dest' \<and> bb_cap dest' = bb_cap dest \<and>
       circ_items buf' = drop n (circ_items buf) \<and>
       byte_view_from_buf dest' = byte_view_from_buf dest @ take n (circ_items buf)"
proof (induction n arbitrary: buf dest k)
  case 0
  then show ?case by simp
next
  case (Suc n)
  obtain x xs where x: "circ_items buf = x # xs"
    using Suc.prems(3) circ_items_length [of buf] by (cases "circ_items buf") auto
  obtain b1 where b1: "circ_buf_pop_byte buf = Some (Inr x, b1)" "wf_circ b1" "cb_len b1 = cb_len buf"
    "cb_addr b1 = cb_addr buf" "circ_items b1 = xs" using circ_pop_item [OF Suc.prems(1) x] by blast
  obtain d1 where d1: "byte_buf_append dest [x] = Some (1, d1)" "wf_buf d1" "bb_cap d1 = bb_cap dest"
    "bb_len d1 = bb_len dest + 1" "byte_view_from_buf d1 = byte_view_from_buf dest @ [x]"
    using byte_buf_append_fits [OF Suc.prems(2), of "[x]"] Suc.prems(4) by auto
  have a: "byte_buf_append_n dest 1 x = Some (1, d1)"
    using byte_buf_append_n_eq [of 1 dest x] Suc.prems(2) d1(1) by simp
  have "circ_used b1 = length xs" using b1(5) circ_items_length [of b1] by simp
  then have "n \<le> circ_used b1" using Suc.prems(3) circ_items_length [of buf] x by simp
  from Suc.IH [OF b1(2) d1(2) this, of "k + 1"] show ?case using Suc.prems(4) b1 d1 a x by auto
qed

lemma circ_buf_read_ok:
  assumes "wf_circ buf" "wf_buf dest"
  defines "n \<equiv> min (circ_used buf) (nat (bb_cap dest - bb_len dest))"
  shows "\<exists>buf' dest'. circ_buf_read buf dest = Some (int n, buf', dest') \<and> wf_circ buf' \<and>
     cb_len buf' = cb_len buf \<and> cb_addr buf' = cb_addr buf \<and> wf_buf dest' \<and> bb_cap dest' = bb_cap dest \<and>
     circ_items buf' = drop n (circ_items buf) \<and>
     byte_view_from_buf dest' = byte_view_from_buf dest @ take n (circ_items buf)"
proof -
  have c: "0 \<le> bb_cap dest - bb_len dest" using assms(2) by (auto simp: wf_buf_def)
  have m: "nat (min (int (circ_used buf)) (bb_cap dest - bb_len dest)) = n"
    using c by (auto simp: n_def min_def nat_le_iff le_nat_iff)
  have "n \<le> circ_used buf" "int n \<le> bb_cap dest - bb_len dest" using c by (auto simp: n_def)
  from circ_read_loop_ok [OF assms(1,2) this, of 0] show ?thesis
    by (simp add: circ_buf_read_def circ_count_used [OF assms(1)] m)
qed

text \<open>One byte at a time, the buffer is a bounded queue.\<close>

definition circ_put :: "byte \<Rightarrow> circ_buf \<Rightarrow> (bool \<times> circ_buf) option" where
  "circ_put b buf = map_option (\<lambda>(r, buf). (\<not> is_error r, buf)) (circ_buf_push_byte buf b)"

definition circ_get :: "circ_buf \<Rightarrow> (byte option \<times> circ_buf) option" where
  "circ_get buf = map_option (\<lambda>(r, buf). (case r of Inl _ \<Rightarrow> None | Inr b \<Rightarrow> Some b, buf)) (circ_buf_pop_byte buf)"

text \<open>A buffer of the size of the receive window holds up to \<open>0x2000 - 1\<close> bytes.\<close>

definition wf_recv_buf :: "circ_buf \<Rightarrow> bool" where
  "wf_recv_buf buf \<longleftrightarrow> wf_circ buf \<and> cb_len buf = 0x2000"

interpretation cb: bounded_fifo wf_recv_buf circ_items "0x1fff" "\<lambda>b. b" circ_put circ_get
proof (unfold_locales, goal_cases)
  case (1 s)
  then show ?case using circ_used_less [of s] by (auto simp: wf_recv_buf_def)
next
  case (2 s a)
  then show ?case using circ_push_room [of s a] by (auto simp: wf_recv_buf_def circ_put_def)
next
  case (3 s a)
  then show ?case using circ_push_full [of s a] by (auto simp: wf_recv_buf_def circ_put_def)
next
  case (4 s b bs)
  then show ?case using circ_pop_item [of s b bs] by (auto simp: wf_recv_buf_def circ_get_def)
next
  case (5 s)
  then show ?case using circ_pop_empty [of s] by (auto simp: wf_recv_buf_def circ_get_def)
qed

text \<open>
  C40: the circular buffer is a byte queue: a write that fits appends all its bytes and a write
  that does not fit changes nothing and returns \<open>EAGAIN\<close>; a following read returns as many of
  the oldest bytes as are there and fit into the destination, and removes exactly these.
\<close>

theorem circ_buf_write_read:
  assumes "wf_circ buf" and "wf_buf dest"
    and "items = (if int (circ_used buf) + int (length data) \<le> cb_len buf - 1 then circ_items buf @ data else circ_items buf)"
    and "n = min (length items) (nat (bb_cap dest - bb_len dest))"
  shows "\<exists>r buf1 buf2 dest'. circ_buf_write buf data = Some (r, buf1) \<and>
    r = (if int (circ_used buf) + int (length data) \<le> cb_len buf - 1 then ok else Inl EAGAIN) \<and>
    circ_items buf1 = items \<and> circ_buf_read buf1 dest = Some (int n, buf2, dest') \<and>
    byte_view_from_buf dest' = byte_view_from_buf dest @ take n items \<and> circ_items buf2 = drop n items \<and>
    wf_circ buf2 \<and> wf_buf dest'"
proof -
  obtain buf1 where b: "wf_circ buf1"
    "if int (circ_used buf) + int (length data) \<le> cb_len buf - 1
     then circ_buf_write buf data = Some (ok, buf1) \<and> circ_items buf1 = circ_items buf @ data
     else circ_buf_write buf data = Some (Inl EAGAIN, buf1) \<and> buf1 = buf"
    using circ_buf_write_ok [OF assms(1), of data] by blast
  then have i: "circ_items buf1 = items" using assms(3) by (auto split: if_splits)
  then have "circ_used buf1 = length items" using circ_items_length [of buf1] by simp
  then show ?thesis using circ_buf_read_ok [OF b(1) assms(2)] b i assms(4) by (auto split: if_splits)
qed

definition sample_circ :: circ_buf where
  "sample_circ = \<lparr>cb_addr = 4096, cb_len = 4, cb_dat = [7, 0, 0, 9], cb_head = 1, cb_tail = 3\<rparr>"

theorem circ_buf_write_read_witness:
  "\<exists>r buf1 buf2 dest'. circ_buf_write sample_circ [5] = Some (r, buf1) \<and>
    r = (if int (circ_used sample_circ) + int (length [5 :: byte]) \<le> cb_len sample_circ - 1 then ok else Inl EAGAIN) \<and>
    circ_items buf1 = [9, 7, 5] \<and> circ_buf_read buf1 (byte_buf_from_array [0, 0]) = Some (int 2, buf2, dest') \<and>
    byte_view_from_buf dest' = byte_view_from_buf (byte_buf_from_array [0, 0]) @ take 2 [9, 7, 5] \<and>
    circ_items buf2 = drop 2 [9, 7, 5] \<and> wf_circ buf2 \<and> wf_buf dest'"
  by (rule circ_buf_write_read)
    (simp_all add: sample_circ_def wf_circ_def circ_used_def circ_items_def ring_items_def numeral_2_eq_2)

end
