(* ===== verification/SendBuf.thy ===== *)
theory SendBuf
  imports Arena
begin

text \<open>
  Send buffers (src/net/send_buf.c): the protocol layers put their headers in front of what is
  there already, each into a part of its own. A pointer to a part is its index, and the caller
  writes through it with \<open>part_append\<close> and \<open>part_append_n\<close>. A send buffer is passed by value;
  the memory behind its parts is disjoint because it comes from one arena (\<open>arena_alloc_aligned\<close>).
  The abstract value of a send buffer is the byte string \<open>sb_content\<close>.
\<close>

definition SEND_BUF_NUM_PARTS :: nat where
  "SEND_BUF_NUM_PARTS = 8"

record send_buf =
  sb_orig_arn :: arena
  sb_arn :: arena
  sb_parts :: "byte_buf list"
  sb_n_used :: nat

definition send_buf_new :: "arena \<Rightarrow> send_buf" where
  "send_buf_new arn =
     \<lparr>sb_orig_arn = arn, sb_arn = arn, sb_parts = replicate SEND_BUF_NUM_PARTS (byte_buf_new [] 0 0),
      sb_n_used = 0\<rparr>"

definition send_buf_prepend :: "send_buf \<Rightarrow> sz \<Rightarrow> (nat option \<times> send_buf) option" where
  "send_buf_prepend sb buf_size =
     (if sb_n_used sb = SEND_BUF_NUM_PARTS then Some (None, sb)
      else do {
        (ba, arn) \<leftarrow> byte_array_from_arena buf_size (sb_arn sb);
        parts \<leftarrow> poke (sb_parts sb) (int (sb_n_used sb)) (byte_buf_from_array ba);
        Some (Some (sb_n_used sb),
          sb\<lparr>sb_arn := arn, sb_parts := parts, sb_n_used := sb_n_used sb + 1\<rparr>)
      })"

definition send_buf_total_length :: "send_buf \<Rightarrow> sz" where
  "send_buf_total_length sb = (\<Sum>p \<leftarrow> take (sb_n_used sb) (sb_parts sb). bb_len p)"

definition send_buf_clear :: "send_buf \<Rightarrow> send_buf" where
  "send_buf_clear sb = sb\<lparr>sb_arn := sb_orig_arn sb, sb_n_used := 0\<rparr>"

fun assemble_loop :: "byte_buf list \<Rightarrow> nat \<Rightarrow> byte_buf \<Rightarrow> (unit res \<times> byte_buf) option" where
  "assemble_loop parts 0 buf = Some (ok, buf)"
| "assemble_loop parts (Suc i) buf = do {
     p \<leftarrow> peek parts (int i);
     (n_appended, buf) \<leftarrow> byte_buf_append buf (byte_view_from_buf p);
     if n_appended \<noteq> bb_len p then Some (Inl ENOMEM, buf) else assemble_loop parts i buf
   }"

definition send_buf_assemble :: "send_buf \<Rightarrow> byte_buf \<Rightarrow> (unit res \<times> byte_buf) option" where
  "send_buf_assemble sb buf = do {
     let len_before = bb_len buf;
     (r, buf) \<leftarrow> assemble_loop (sb_parts sb) (sb_n_used sb) buf;
     if is_error r then Some (r, buf)
     else do {
       kassert (bb_len buf - len_before = send_buf_total_length sb);
       Some (ok, buf)
     }
   }"

text \<open>Writing through the pointer that \<open>send_buf_prepend\<close> returned.\<close>

definition part_append :: "send_buf \<Rightarrow> nat \<Rightarrow> byte list \<Rightarrow> (sz \<times> send_buf) option" where
  "part_append sb i bv = do {
     p \<leftarrow> peek (sb_parts sb) (int i);
     (n, p) \<leftarrow> byte_buf_append p bv;
     parts \<leftarrow> poke (sb_parts sb) (int i) p;
     Some (n, sb\<lparr>sb_parts := parts\<rparr>)
   }"

definition part_append_n :: "send_buf \<Rightarrow> nat \<Rightarrow> sz \<Rightarrow> byte \<Rightarrow> (sz \<times> send_buf) option" where
  "part_append_n sb i n v = do {
     p \<leftarrow> peek (sb_parts sb) (int i);
     (n, p) \<leftarrow> byte_buf_append_n p n v;
     parts \<leftarrow> poke (sb_parts sb) (int i) p;
     Some (n, sb\<lparr>sb_parts := parts\<rparr>)
   }"

section \<open>Invariant and content\<close>

definition wf_sb :: "send_buf \<Rightarrow> bool" where
  "wf_sb sb \<longleftrightarrow> length (sb_parts sb) = SEND_BUF_NUM_PARTS \<and> sb_n_used sb \<le> SEND_BUF_NUM_PARTS \<and>
     (\<forall>p \<in> set (take (sb_n_used sb) (sb_parts sb)). wf_buf p)"

definition sb_content :: "send_buf \<Rightarrow> byte list" where
  "sb_content sb = concat (rev (map byte_view_from_buf (take (sb_n_used sb) (sb_parts sb))))"

lemma send_buf_new_wf [simp]: "wf_sb (send_buf_new arn)" "sb_content (send_buf_new arn) = []"
  "sb_n_used (send_buf_new arn) = 0" "sb_arn (send_buf_new arn) = arn"
  by (simp_all add: wf_sb_def send_buf_new_def sb_content_def)

lemma send_buf_clear_wf [simp]:
  "wf_sb sb \<Longrightarrow> wf_sb (send_buf_clear sb)" "sb_content (send_buf_clear sb) = []"
  by (simp_all add: wf_sb_def send_buf_clear_def sb_content_def)

lemma total_length_content: "wf_sb sb \<Longrightarrow> send_buf_total_length sb = int (length (sb_content sb))"
proof -
  have "\<forall>p \<in> set ps. wf_buf p \<Longrightarrow>
      (\<Sum>p \<leftarrow> ps. bb_len p) = int (length (concat (rev (map byte_view_from_buf ps))))" for ps
    by (induction ps) (auto simp: wf_buf_def)
  then show "wf_sb sb \<Longrightarrow> ?thesis" by (simp add: send_buf_total_length_def sb_content_def wf_sb_def)
qed

lemma assemble_loop_ok:
  assumes "wf_buf buf" "i \<le> length parts" "\<forall>p \<in> set (take i parts). wf_buf p"
    and "bb_len buf + int (length (concat (rev (map byte_view_from_buf (take i parts))))) \<le> bb_cap buf"
  shows "\<exists>buf'. assemble_loop parts i buf = Some (ok, buf') \<and> wf_buf buf' \<and> bb_cap buf' = bb_cap buf \<and>
    byte_view_from_buf buf' = byte_view_from_buf buf @ concat (rev (map byte_view_from_buf (take i parts)))"
  using assms
proof (induction i arbitrary: buf)
  case 0
  then show ?case by simp
next
  case (Suc i)
  let ?p = "parts ! i"
  have t: "take (Suc i) parts = take i parts @ [?p]" using Suc.prems by (simp add: take_Suc_conv_app_nth)
  have p: "wf_buf ?p" using Suc.prems(3) by (simp add: t)
  obtain b where b: "byte_buf_append buf (byte_view_from_buf ?p) = Some (int (length (byte_view_from_buf ?p)), b)"
    "wf_buf b" "bb_cap b = bb_cap buf" "bb_len b = bb_len buf + int (length (byte_view_from_buf ?p))"
    "byte_view_from_buf b = byte_view_from_buf buf @ byte_view_from_buf ?p"
    using byte_buf_append_fits [OF Suc.prems(1), of "byte_view_from_buf ?p"] Suc.prems(4) by (auto simp: t)
  have l: "int (length (byte_view_from_buf ?p)) = bb_len ?p" using p by (simp add: wf_buf_def)
  obtain b' where "assemble_loop parts i b = Some (ok, b')" "wf_buf b'" "bb_cap b' = bb_cap b"
    "byte_view_from_buf b' = byte_view_from_buf b @ concat (rev (map byte_view_from_buf (take i parts)))"
    using Suc.IH [of b] Suc.prems b by (auto simp: t)
  then show ?case using b l Suc.prems(2) by (auto simp: t)
qed

lemma assemble_loop_full:
  assumes "wf_buf buf" "i \<le> length parts" "\<forall>p \<in> set (take i parts). wf_buf p"
    and "bb_cap buf < bb_len buf + int (length (concat (rev (map byte_view_from_buf (take i parts)))))"
  shows "\<exists>buf'. assemble_loop parts i buf = Some (Inl ENOMEM, buf') \<and> wf_buf buf' \<and> bb_cap buf' = bb_cap buf"
  using assms
proof (induction i arbitrary: buf)
  case 0
  then show ?case by (auto simp: wf_buf_def)
next
  case (Suc i)
  let ?p = "parts ! i"
  have t: "take (Suc i) parts = take i parts @ [?p]" using Suc.prems by (simp add: take_Suc_conv_app_nth)
  have p: "wf_buf ?p" using Suc.prems(3) by (simp add: t)
  have l: "int (length (byte_view_from_buf ?p)) = bb_len ?p" using p by (simp add: wf_buf_def)
  obtain b where b: "byte_buf_append buf (byte_view_from_buf ?p) =
      Some (min (bb_cap buf - bb_len buf) (bb_len ?p), b)"
    "wf_buf b" "bb_cap b = bb_cap buf" "bb_len b = bb_len buf + min (bb_cap buf - bb_len buf) (bb_len ?p)"
    using byte_buf_append_ok [OF Suc.prems(1), of "byte_view_from_buf ?p"] l by auto
  show ?case
  proof (cases "bb_len ?p \<le> bb_cap buf - bb_len buf")
    case True
    then obtain b' where "assemble_loop parts i b = Some (Inl ENOMEM, b')" "wf_buf b'" "bb_cap b' = bb_cap b"
      using Suc.IH [of b] Suc.prems b l by (auto simp: t)
    then show ?thesis using b True Suc.prems(2) by auto
  next
    case False
    then show ?thesis using b Suc.prems(2) by auto
  qed
qed

lemma wf_sb_parts: "wf_sb sb \<Longrightarrow> i < sb_n_used sb \<Longrightarrow> wf_buf (sb_parts sb ! i) \<and> i < length (sb_parts sb)"
  unfolding wf_sb_def using nth_mem [of i "take (sb_n_used sb) (sb_parts sb)"] by auto

text \<open>
  Prepending: a new part holds nothing; appending to the newest part puts the bytes in front of
  everything that was there before the part was added.
\<close>

lemma send_buf_prepend_ok:
  assumes "wf_sb sb" "sb_n_used sb < SEND_BUF_NUM_PARTS" "0 < n" "arena_alloc (sb_arn sb) n = Some (a, arn')"
  shows "\<exists>sb'. send_buf_prepend sb n = Some (Some (sb_n_used sb), sb') \<and> wf_sb sb' \<and>
    sb_n_used sb' = sb_n_used sb + 1 \<and> sb_content sb' = sb_content sb \<and> sb_arn sb' = arn' \<and>
    sb_orig_arn sb' = sb_orig_arn sb \<and>
    take (sb_n_used sb) (sb_parts sb') = take (sb_n_used sb) (sb_parts sb) \<and>
    sb_parts sb' ! sb_n_used sb = byte_buf_from_array (replicate (nat n) 0)"
  using assms
  by (auto simp: send_buf_prepend_def byte_array_from_arena_def wf_sb_def sb_content_def
      take_Suc_conv_app_nth take_update_cancel)

text \<open>\<open>room_at\<close>: how many bytes the part \<open>i\<close> still takes.\<close>

definition room_at :: "send_buf \<Rightarrow> nat \<Rightarrow> sz" where
  "room_at sb i = bb_cap (sb_parts sb ! i) - bb_len (sb_parts sb ! i)"

lemma part_append_ok:
  assumes "wf_sb sb" "sb_n_used sb = Suc i" "int (length bs) \<le> room_at sb i"
  shows "\<exists>sb'. part_append sb i bs = Some (int (length bs), sb') \<and> wf_sb sb' \<and> sb_n_used sb' = Suc i \<and>
    take i (sb_parts sb') = take i (sb_parts sb) \<and> sb_arn sb' = sb_arn sb \<and>
    sb_orig_arn sb' = sb_orig_arn sb \<and> room_at sb' i = room_at sb i - int (length bs) \<and>
    byte_view_from_buf (sb_parts sb' ! i) = byte_view_from_buf (sb_parts sb ! i) @ bs"
proof -
  have i: "i < length (sb_parts sb)" "wf_buf (sb_parts sb ! i)"
    using wf_sb_parts [of sb i] assms by auto
  obtain p where p: "byte_buf_append (sb_parts sb ! i) bs = Some (int (length bs), p)" "wf_buf p"
    "bb_cap p = bb_cap (sb_parts sb ! i)" "bb_len p = bb_len (sb_parts sb ! i) + int (length bs)"
    "byte_view_from_buf p = byte_view_from_buf (sb_parts sb ! i) @ bs"
    using byte_buf_append_fits [OF i(2), of bs] assms(3) by (auto simp: room_at_def)
  have w: "wf_sb (sb\<lparr>sb_parts := (sb_parts sb)[i := p]\<rparr>)"
    using assms p(2) i(1) unfolding wf_sb_def
    by (auto simp: take_Suc_conv_app_nth take_update_cancel)
  show ?thesis using p i w assms by (simp add: part_append_def room_at_def take_update_cancel)
qed

lemma sb_content_newest:
  "wf_sb sb \<Longrightarrow> sb_n_used sb = Suc i \<Longrightarrow>
     sb_content sb = byte_view_from_buf (sb_parts sb ! i) @ concat (rev (map byte_view_from_buf (take i (sb_parts sb))))"
  by (simp add: sb_content_def wf_sb_def take_Suc_conv_app_nth)

text \<open>
  \<open>send_buf_assemble\<close> never fails its assertion. When the content fits it is appended to the
  buffer, the parts in reverse order of their creation; when it does not fit the call returns
  \<open>ENOMEM\<close> and the buffer stays well-formed.
\<close>

theorem send_buf_assemble_content:
  assumes "wf_sb sb" and "wf_buf buf"
  shows "\<exists>buf'. wf_buf buf' \<and> bb_cap buf' = bb_cap buf \<and>
    (if bb_len buf + int (length (sb_content sb)) \<le> bb_cap buf
     then send_buf_assemble sb buf = Some (ok, buf') \<and>
       byte_view_from_buf buf' = byte_view_from_buf buf @ sb_content sb
     else send_buf_assemble sb buf = Some (Inl ENOMEM, buf'))"
proof -
  have i: "sb_n_used sb \<le> length (sb_parts sb)" "\<forall>p \<in> set (take (sb_n_used sb) (sb_parts sb)). wf_buf p"
    using assms(1) by (auto simp: wf_sb_def)
  show ?thesis
  proof (cases "bb_len buf + int (length (sb_content sb)) \<le> bb_cap buf")
    case True
    then obtain b where b: "assemble_loop (sb_parts sb) (sb_n_used sb) buf = Some (ok, b)" "wf_buf b"
      "bb_cap b = bb_cap buf" "byte_view_from_buf b = byte_view_from_buf buf @ sb_content sb"
      using assemble_loop_ok [OF assms(2) i] by (auto simp: sb_content_def)
    have "int (length (byte_view_from_buf b)) = int (length (byte_view_from_buf buf)) + int (length (sb_content sb))"
      by (simp add: b(4))
    then have "bb_len b - bb_len buf = send_buf_total_length sb"
      using b(2) assms by (simp add: total_length_content wf_buf_def)
    then show ?thesis using b True by (auto simp: send_buf_assemble_def)
  next
    case False
    then show ?thesis using assemble_loop_full [OF assms(2) i] by (auto simp: sb_content_def send_buf_assemble_def)
  qed
qed

theorem send_buf_assemble_content_witness:
  "\<exists>buf'. wf_buf buf' \<and> bb_cap buf' = bb_cap (byte_buf_from_array [0, 0]) \<and>
    (if bb_len (byte_buf_from_array [0, 0]) + int (length (sb_content (send_buf_new (arena_new 0 100)))) \<le>
        bb_cap (byte_buf_from_array [0, 0])
     then send_buf_assemble (send_buf_new (arena_new 0 100)) (byte_buf_from_array [0, 0]) = Some (ok, buf') \<and>
       byte_view_from_buf buf' = byte_view_from_buf (byte_buf_from_array [0, 0]) @ sb_content (send_buf_new (arena_new 0 100))
     else send_buf_assemble (send_buf_new (arena_new 0 100)) (byte_buf_from_array [0, 0]) = Some (Inl ENOMEM, buf'))"
  by (rule send_buf_assemble_content) simp_all

end
