(* ===== verification/Fmt.thy ===== *)
theory Fmt
  imports Bytes
begin

lemma word_div10_less: "(x::u64) div 10 \<noteq> 0 \<Longrightarrow> unat (x div 10) < unat x"
  by (cases "x = 0") (simp_all add: unat_div word_gt_0 unat_gt_0)

text \<open>
  Formatting (include/tx/fmt.h): numbers to text, and the printf-like \<open>fmt_vfmt\<close>. The temporary
  array of the number formatters, filled from its end, is the list of the digits; that it never
  holds more than its 64 bytes is \<open>u64_digits_length\<close>, \<open>i64_digits_length\<close> and \<open>hex_digits_length\<close>. The
  variable arguments are a list of tagged values: reading an argument of another type than the
  one that was passed has no value, as in C.
\<close>

section \<open>Numbers\<close>

function u64_digits :: "u64 \<Rightarrow> byte list \<Rightarrow> byte list" where
  "u64_digits x acc =
     (let acc = (48 + ucast (x mod 10)) # acc; x = x div 10 in
      if x = 0 then acc else u64_digits x acc)"
  by pat_completeness auto
termination
  by (relation "measure (\<lambda>(x, _). unat x)") (simp_all add: word_div10_less)

declare u64_digits.simps [simp del]

definition fmt_append_u64 :: "u64 \<Rightarrow> str_buf \<Rightarrow> (unit res \<times> str_buf) option" where
  "fmt_append_u64 x buf = str_buf_append buf (u64_digits x [])"

text \<open>Signed numbers: the loop divides the absolute value, which is never negative.\<close>

function i64_digits :: "int \<Rightarrow> byte list \<Rightarrow> byte list" where
  "i64_digits d acc =
     (let acc = (48 + word_of_int (d mod 10)) # acc; d = d div 10 in
      if d \<le> 0 then acc else i64_digits d acc)"
  by pat_completeness auto
termination
  by (relation "measure (\<lambda>(d, _). nat d)") auto

declare i64_digits.simps [simp del]

text \<open>Negating the smallest number overflows, which is undefined in C.\<close>

definition fmt_append_i64 :: "u64 \<Rightarrow> str_buf \<Rightarrow> (unit res \<times> str_buf) option" where
  "fmt_append_i64 w buf =
     (let x = sint w in
      if x = - (2 ^ 63) then None
      else
        let d = (if x < 0 then - x else x); digits = i64_digits d [] in
        str_buf_append buf (if x < 0 then 45 # digits else digits))"

datatype fmt_hex_alpha = HEX_ALPHA_UPPER | HEX_ALPHA_LOWER

definition hex_alphabet :: "fmt_hex_alpha \<Rightarrow> byte list" where
  "hex_alphabet alpha =
     (case alpha of HEX_ALPHA_LOWER \<Rightarrow> cstr ''0123456789abcdef''
      | HEX_ALPHA_UPPER \<Rightarrow> cstr ''0123456789ABCDEF'')"

lemma word_drop4_less: "drop_bit 4 (x::u64) \<noteq> 0 \<Longrightarrow> unat (drop_bit 4 x) < unat x"
proof -
  assume a: "drop_bit 4 x \<noteq> 0"
  have "unat (drop_bit 4 x) = unat x div 16"
    by (simp add: unat_drop_bit_eq drop_bit_eq_div unat_div)
  moreover have "unat x \<noteq> 0" using a by (metis drop_bit_of_0 unat_eq_zero)
  ultimately show ?thesis by simp
qed

function hex_digits :: "byte list \<Rightarrow> u64 \<Rightarrow> byte list \<Rightarrow> byte list" where
  "hex_digits a x acc =
     (let acc = (a ! unat (x AND 0xf)) # acc; x = drop_bit 4 x in
      if x = 0 then acc else hex_digits a x acc)"
  by pat_completeness auto
termination
  by (relation "measure (\<lambda>(_, x, _). unat x)") (simp_all add: word_drop4_less)

declare hex_digits.simps [simp del]

definition fmt_append_hex :: "u64 \<Rightarrow> fmt_hex_alpha \<Rightarrow> str_buf \<Rightarrow> (unit res \<times> str_buf) option" where
  "fmt_append_hex x alpha buf = str_buf_append buf (hex_digits (hex_alphabet alpha) x [])"

definition fmt_append_ptr :: "u64 \<Rightarrow> str_buf \<Rightarrow> (unit res \<times> str_buf) option" where
  "fmt_append_ptr p buf = fmt_append_hex p HEX_ALPHA_LOWER buf"

section \<open>Format strings\<close>

datatype fmt_arg = Arg32 u32 | Arg64 u64 | ArgStr "byte list option"
datatype fmt_modifier = M_NONE | M_L | M_HH | M_H
datatype fmt_expect = NOTHING | MODIFIER | CONVERSION

text \<open>
  The integer argument of a conversion: 64 bits with the modifier \<open>l\<close>, otherwise 32 bits that
  are extended (with their sign for \<open>d\<close> and \<open>i\<close>) and masked.
\<close>

definition fmt_int_arg :: "bool \<Rightarrow> fmt_modifier \<Rightarrow> fmt_arg list \<Rightarrow> (u64 \<times> fmt_arg list) option" where
  "fmt_int_arg sg modifier args =
     (case (modifier, args) of
        (M_L, Arg64 v # args) \<Rightarrow> Some (v, args)
      | (M_H, Arg32 v # args) \<Rightarrow> Some ((if sg then scast v else ucast v) AND 0xffff, args)
      | (M_HH, Arg32 v # args) \<Rightarrow> Some ((if sg then scast v else ucast v) AND 0xff, args)
      | (M_NONE, Arg32 v # args) \<Rightarrow> Some (if sg then scast v else ucast v, args)
      | _ \<Rightarrow> None)"

text \<open>One conversion: the character \<open>c\<close> under the modifier.\<close>

definition fmt_convert ::
  "byte \<Rightarrow> fmt_modifier \<Rightarrow> str_buf \<Rightarrow> fmt_arg list \<Rightarrow> ((unit res \<times> str_buf) \<times> fmt_arg list) option" where
  "fmt_convert c modifier buf args =
     (if c = 105 \<or> c = 100 then do {
        (v, args) \<leftarrow> fmt_int_arg True modifier args; r \<leftarrow> fmt_append_i64 v buf; Some (r, args) }
      else if c = 117 then do {
        (v, args) \<leftarrow> fmt_int_arg False modifier args; r \<leftarrow> fmt_append_u64 v buf; Some (r, args) }
      else if c = 120 then do {
        (v, args) \<leftarrow> fmt_int_arg False modifier args;
        r \<leftarrow> fmt_append_hex v HEX_ALPHA_LOWER buf; Some (r, args) }
      else if c = 88 then do {
        (v, args) \<leftarrow> fmt_int_arg False modifier args;
        r \<leftarrow> fmt_append_hex v HEX_ALPHA_UPPER buf; Some (r, args) }
      else if c = 115 then
        (case args of
           ArgStr (Some s) # args \<Rightarrow> do { r \<leftarrow> str_buf_append buf s; Some (r, args) }
         | ArgStr None # args \<Rightarrow> do { r \<leftarrow> str_buf_append buf (cstr ''(NULL)''); Some (r, args) }
         | _ \<Rightarrow> None)
      else if c = 99 then
        (case args of
           Arg32 v # args \<Rightarrow> do { r \<leftarrow> str_buf_append_char buf (ucast v); Some (r, args) }
         | _ \<Rightarrow> None)
      else Some ((Inl EINVAL, buf), args))"

text \<open>
  The character behind the end of a format string, which a modifier at the very end reads, is
  the terminating zero of the literal that every caller passes.
\<close>

definition fmt_char :: "byte list \<Rightarrow> nat \<Rightarrow> byte" where
  "fmt_char fmt i = (if i < length fmt then fmt ! i else 0)"

definition fmt_modifier_at :: "byte list \<Rightarrow> nat \<Rightarrow> fmt_modifier \<Rightarrow> nat \<times> fmt_modifier" where
  "fmt_modifier_at fmt i modifier =
     (if fmt_char fmt i = 108 then (if fmt_char fmt (i + 1) = 108 then i + 2 else i + 1, M_L)
      else if fmt_char fmt i = 104 then
        (if fmt_char fmt (i + 1) = 104 then (i + 2, M_HH) else (i + 1, M_H))
      else (i, modifier))"

function fmt_loop ::
  "byte list \<Rightarrow> nat \<Rightarrow> fmt_expect \<Rightarrow> fmt_modifier \<Rightarrow> str_buf \<Rightarrow> fmt_arg list \<Rightarrow>
     (unit res \<times> str_buf) option" where
  "fmt_loop fmt i expect modifier buf args =
     (if \<not> i < length fmt then Some (ok, buf)
      else case expect of
        NOTHING \<Rightarrow>
          if fmt ! i = 37 then fmt_loop fmt (i + 1) MODIFIER modifier buf args
          else (case str_buf_append_char buf (fmt ! i) of
                  None \<Rightarrow> None
                | Some (Inl e, buf) \<Rightarrow> Some (Inl e, buf)
                | Some (Inr _, buf) \<Rightarrow> fmt_loop fmt (i + 1) NOTHING modifier buf args)
      | MODIFIER \<Rightarrow>
          (case fmt_modifier_at fmt i modifier of
             (j, m) \<Rightarrow> if j < i then None else fmt_loop fmt j CONVERSION m buf args)
      | CONVERSION \<Rightarrow>
          (case fmt_convert (fmt ! i) modifier buf args of
             None \<Rightarrow> None
           | Some ((Inl e, buf), _) \<Rightarrow> Some (Inl e, buf)
           | Some ((Inr _, buf), args) \<Rightarrow> fmt_loop fmt (i + 1) NOTHING M_NONE buf args))"
  by pat_completeness auto
termination
  by (relation "measure (\<lambda>(fmt, i, expect, _). 3 * (length fmt - i) + (if expect = MODIFIER then 1 else 0))")
    auto

declare fmt_loop.simps [simp del]

definition fmt_vfmt :: "str_buf \<Rightarrow> byte list \<Rightarrow> fmt_arg list \<Rightarrow> (unit res \<times> str_buf) option" where
  "fmt_vfmt buf fmt args = fmt_loop fmt 0 NOTHING M_NONE buf args"

lemma fmt_modifier_at_le: "i \<le> fst (fmt_modifier_at fmt i m)"
  by (simp add: fmt_modifier_at_def)

section \<open>The digits\<close>

text \<open>The decimal and the hexadecimal representation of a number, most significant digit first.\<close>

fun decimal :: "nat \<Rightarrow> byte list" where
  "decimal n = (if n < 10 then [48 + of_nat n] else decimal (n div 10) @ [48 + of_nat (n mod 10)])"

declare decimal.simps [simp del]

definition undecimal :: "byte list \<Rightarrow> nat" where
  "undecimal s = foldl (\<lambda>a c. 10 * a + (unat c - 48)) 0 s"

lemma digit_value: "d < 10 \<Longrightarrow> unat ((48 :: byte) + of_nat d) = 48 + d"
  by (simp add: unat_word_ariths unat_of_nat)

lemma undecimal_decimal: "undecimal (decimal n) = n"
proof (induction n rule: decimal.induct)
  case (1 n)
  have d: "unat ((48 :: byte) + of_nat (n mod 10)) = 48 + n mod 10" by (rule digit_value) simp
  show ?case
  proof (cases "n < 10")
    case True
    then show ?thesis by (subst decimal.simps) (simp add: undecimal_def digit_value)
  next
    case False
    with 1 have "undecimal (decimal (n div 10)) = n div 10" by simp
    then show ?thesis using False d by (subst decimal.simps) (simp add: undecimal_def)
  qed
qed

lemma decimal_length: "n < 10 ^ k \<Longrightarrow> 0 < k \<Longrightarrow> length (decimal n) \<le> k"
proof (induction n arbitrary: k rule: decimal.induct)
  case (1 n)
  show ?case
  proof (cases "n < 10")
    case True
    then show ?thesis using "1.prems" by (subst decimal.simps) simp
  next
    case False
    then obtain j where k: "k = Suc j" "0 < j"
      using "1.prems" by (cases k; cases "k - 1") auto
    then have "n div 10 < 10 ^ j" using "1.prems" by (simp add: less_mult_imp_div_less mult.commute)
    then have "length (decimal (n div 10)) \<le> j" using "1.IH" False k by blast
    then show ?thesis using False k by (subst decimal.simps) simp
  qed
qed

lemma u64_digits_decimal: "u64_digits x acc = decimal (unat x) @ acc"
proof (induction x acc rule: u64_digits.induct)
  case (1 x acc)
  have u: "unat (x div 10) = unat x div 10" by (simp add: unat_div)
  have "(ucast (x mod 10) :: byte) = of_nat (unat (x mod 10))" by simp
  then have d: "(ucast (x mod 10) :: byte) = of_nat (unat x mod 10)" by (simp only: unat_mod) simp
  have z: "x div 10 = 0 \<longleftrightarrow> unat x < 10" using u by (metis div_eq_0_iff unat_eq_zero zero_neq_numeral)
  show ?case
  proof (cases "unat x < 10")
    case True
    then show ?thesis using z d by (subst u64_digits.simps, subst decimal.simps) simp
  next
    case False
    then have "u64_digits (x div 10) ((48 + ucast (x mod 10)) # acc) =
        decimal (unat x div 10) @ (48 + ucast (x mod 10)) # acc"
      using 1 [OF refl refl] z u by simp
    then show ?thesis using False z d by (subst u64_digits.simps, subst decimal.simps) simp
  qed
qed

lemma i64_digits_decimal: "0 \<le> d \<Longrightarrow> i64_digits d acc = decimal (nat d) @ acc"
proof (induction d acc rule: i64_digits.induct)
  case (1 d acc)
  have w: "(word_of_int (d mod 10) :: byte) = of_nat (nat d mod 10)"
  proof -
    have "d mod 10 = int (nat d mod 10)" using "1.prems" by (simp add: zmod_int)
    then show ?thesis by simp
  qed
  show ?case
  proof (cases "d < 10")
    case True
    then have "d div 10 = 0" "nat d < 10" using "1.prems" by auto
    then show ?thesis using w by (subst i64_digits.simps, subst decimal.simps) simp
  next
    case False
    then have d: "\<not> d div 10 \<le> 0" "\<not> nat d < 10" "nat (d div 10) = nat d div 10"
      by (auto simp: nat_div_distrib)
    then show ?thesis using 1 w by (subst i64_digits.simps, subst decimal.simps) (simp add: Let_def)
  qed
qed

lemma u64_digits_length: "length (u64_digits x []) \<le> 20"
proof -
  have "unat x < 2 ^ 64" using unat_bound [of x] by simp
  then show ?thesis by (simp add: u64_digits_decimal decimal_length)
qed

lemma i64_digits_length: "\<bar>d\<bar> < 2 ^ 63 \<Longrightarrow> length (i64_digits \<bar>d\<bar> []) \<le> 19"
  by (simp add: i64_digits_decimal decimal_length)

lemma hex_digits_length:
  "0 < k \<Longrightarrow> unat x < 16 ^ k \<Longrightarrow> length (hex_digits a x acc) \<le> length acc + k"
proof (induction a x acc arbitrary: k rule: hex_digits.induct)
  case (1 a x acc)
  let ?acc = "(a ! unat (x AND 0xf)) # acc"
  show ?case
  proof (cases "drop_bit 4 x = 0")
    case True
    then show ?thesis using "1.prems" by (subst hex_digits.simps) (simp add: Let_def)
  next
    case False
    have u: "unat (drop_bit 4 x) = unat x div 16"
      by (simp add: unat_drop_bit_eq drop_bit_eq_div unat_div)
    then have "unat x div 16 \<noteq> 0" using False by (metis unat_eq_zero)
    then obtain j where k: "k = Suc j" "0 < j"
      using "1.prems" by (cases k; cases "k - 1") auto
    have "unat (drop_bit 4 x) < 16 ^ j"
      using "1.prems" k u by (simp add: less_mult_imp_div_less mult.commute)
    then have "length (hex_digits a (drop_bit 4 x) ?acc) \<le> length ?acc + j"
      using "1.IH" [OF refl refl False] k by blast
    then show ?thesis using False k by (subst hex_digits.simps) (simp add: Let_def)
  qed
qed

lemma hex_digits_length_16: "length (hex_digits a x []) \<le> 16"
  using hex_digits_length [of 16 x a "[]"] unat_bound [of x] by simp

text \<open>
  \<open>fmt_append_u64\<close> appends at most 20 characters (so its 64-byte temporary never
  overflows), and reading these characters as a decimal number gives the formatted value back.
\<close>

theorem fmt_append_u64_roundtrip:
  assumes "wf_buf buf" and "bb_len buf + 20 \<le> bb_cap buf"
  shows "\<exists>buf' ds. fmt_append_u64 x buf = Some (ok, buf') \<and> wf_buf buf' \<and> length ds \<le> 20 \<and>
    byte_view_from_buf buf' = byte_view_from_buf buf @ ds \<and> undecimal ds = unat x"
proof -
  have "bb_len buf + int (length (u64_digits x [])) \<le> bb_cap buf"
    using u64_digits_length [of x] assms(2) by simp
  from str_buf_append_ok [OF assms(1) this] show ?thesis
    using u64_digits_length [of x] by (auto simp: fmt_append_u64_def u64_digits_decimal undecimal_decimal)
qed

theorem fmt_append_u64_roundtrip_witness:
  "\<exists>buf' ds. fmt_append_u64 1234 (byte_buf_from_array (replicate 32 0)) = Some (ok, buf') \<and>
    wf_buf buf' \<and> length ds \<le> 20 \<and>
    byte_view_from_buf buf' = byte_view_from_buf (byte_buf_from_array (replicate 32 0)) @ ds \<and>
    undecimal ds = unat (1234 :: u64)"
  by (rule fmt_append_u64_roundtrip) simp_all

section \<open>Formatting only appends\<close>

text \<open>What every formatting step keeps: the buffer stays well-formed and its content grows.\<close>

definition extends :: "str_buf \<Rightarrow> str_buf \<Rightarrow> bool" where
  "extends buf buf' \<longleftrightarrow> wf_buf buf' \<and> bb_cap buf' = bb_cap buf \<and>
     (\<exists>s. byte_view_from_buf buf' = byte_view_from_buf buf @ s)"

lemma extends_refl [simp]: "wf_buf buf \<Longrightarrow> extends buf buf"
  by (simp add: extends_def)

lemma extends_trans: "extends a b \<Longrightarrow> extends b c \<Longrightarrow> extends a c"
  by (auto simp: extends_def)

lemma str_buf_append_extends:
  assumes "wf_buf buf" "str_buf_append buf s = Some (r, buf')"
  shows "extends buf buf'"
proof (cases "bb_cap buf < bb_len buf + int (length s)")
  case True
  then show ?thesis using assms by (simp add: str_buf_append_def)
next
  case False
  then show ?thesis using assms str_buf_append_ok [OF assms(1), of s] by (auto simp: extends_def)
qed

lemma fmt_convert_extends:
  assumes "wf_buf buf" "fmt_convert c m buf args = Some ((r, buf'), args')"
  shows "extends buf buf'"
  using assms str_buf_append_extends [OF assms(1)] str_buf_append_char_eq [OF assms(1)]
  by (auto simp: fmt_convert_def bind_eq_Some_conv fmt_append_i64_def fmt_append_u64_def
      fmt_append_hex_def Let_def split: if_splits list.splits fmt_arg.splits option.splits)

lemma fmt_loop_extends:
  "wf_buf buf \<Longrightarrow> fmt_loop fmt i e m buf args = Some (r, buf') \<Longrightarrow> extends buf buf'"
proof (induction fmt i e m buf args arbitrary: r buf' rule: fmt_loop.induct)
  case (1 fmt i e m buf args)
  show ?case
  proof (cases "i < length fmt")
    case False
    then show ?thesis using "1.prems" by (subst (asm) fmt_loop.simps) simp
  next
    case True
    note res = "1.prems"(2) [unfolded fmt_loop.simps [of fmt i e m buf args]]
    show ?thesis
    proof (cases e)
      case NOTHING
      show ?thesis
      proof (cases "fmt ! i = 37")
        case True
        then show ?thesis using "1.IH"(1) \<open>i < length fmt\<close> NOTHING "1.prems"(1) res by auto
      next
        case False
        obtain q b where a: "str_buf_append_char buf (fmt ! i) = Some (q, b)"
          using res NOTHING False True by (auto split: option.splits)
        then have e: "extends buf b"
          using "1.prems"(1) str_buf_append_char_eq str_buf_append_extends by metis
        then show ?thesis using a res NOTHING False True "1.IH"(2) [of "(q, b)" q b]
          by (cases q) (auto simp: extends_def intro: extends_trans)
      qed
    next
      case MODIFIER
      then show ?thesis using res True "1.IH"(3) "1.prems"(1)
        by (auto split: prod.splits if_splits)
    next
      case CONVERSION
      obtain q b args' where a: "fmt_convert (fmt ! i) m buf args = Some ((q, b), args')"
        using res CONVERSION True by (auto split: option.splits)
      then have e: "extends buf b" using "1.prems"(1) fmt_convert_extends by blast
      then show ?thesis using a res CONVERSION True "1.IH"(4) [of "((q, b), args')" "(q, b)" args' q b]
        by (cases q) (auto simp: extends_def intro: extends_trans)
    qed
  qed
qed

text \<open>Single steps over a format string: an ordinary character, and the conversions of bytes.\<close>

definition appended :: "str_buf \<Rightarrow> byte list \<Rightarrow> str_buf \<Rightarrow> bool" where
  "appended buf s buf' \<longleftrightarrow> wf_buf buf' \<and> bb_cap buf' = bb_cap buf \<and>
     bb_len buf' = bb_len buf + int (length s) \<and> byte_view_from_buf buf' = byte_view_from_buf buf @ s"

lemma appended_trans: "appended a s b \<Longrightarrow> appended b t c \<Longrightarrow> appended a (s @ t) c"
  by (auto simp: appended_def)

lemma str_buf_append_appended:
  assumes "wf_buf buf" "bb_len buf + int (length s) \<le> bb_cap buf"
  shows "\<exists>buf'. str_buf_append buf s = Some (ok, buf') \<and> appended buf s buf'"
  using str_buf_append_ok [OF assms] by (auto simp: appended_def)

lemma fmt_loop_char:
  assumes "i < length fmt" "fmt ! i \<noteq> 37" "wf_buf buf" "bb_len buf < bb_cap buf"
  shows "\<exists>buf'. fmt_loop fmt i NOTHING m buf args = fmt_loop fmt (i + 1) NOTHING m buf' args \<and>
    appended buf [fmt ! i] buf'"
proof -
  obtain buf' where b: "str_buf_append_char buf (fmt ! i) = Some (ok, buf')" "appended buf [fmt ! i] buf'"
    using str_buf_append_appended [of buf "[fmt ! i]"] assms str_buf_append_char_eq by auto
  then show ?thesis using assms by (subst fmt_loop.simps) auto
qed

lemma fmt_loop_hh:
  assumes "i + 3 < length fmt" "fmt ! i = 37" "fmt ! (i + 1) = 104" "fmt ! (i + 2) = 104"
    and "fmt_convert (fmt ! (i + 3)) M_HH buf args = Some ((ok, buf'), args')"
  shows "fmt_loop fmt i NOTHING m buf args = fmt_loop fmt (i + 4) NOTHING M_NONE buf' args'"
proof -
  have ii: "i + 1 + 1 = i + 2" "i + 1 + 2 = i + 3" by simp_all
  have j: "fmt_modifier_at fmt (i + 1) m = (i + 3, M_HH)"
    using assms unfolding fmt_modifier_at_def fmt_char_def ii by simp
  have "fmt_loop fmt i NOTHING m buf args = fmt_loop fmt (i + 1) MODIFIER m buf args"
    using assms by (subst fmt_loop.simps) simp
  also have "\<dots> = fmt_loop fmt (i + 3) CONVERSION M_HH buf args"
    by (subst fmt_loop.simps) (use assms j in \<open>simp\<close>)
  also have "\<dots> = fmt_loop fmt (i + 4) NOTHING M_NONE buf' args'"
    by (subst fmt_loop.simps) (use assms in \<open>simp add: add.commute\<close>)
  finally show ?thesis .
qed

lemma byte_arg: "(ucast (ucast (a :: u8) :: u32) :: u64) AND 0xff = ucast a"
proof -
  have m: "(0xff :: u64) = mask 8" by (simp add: mask_eq_exp_minus_1)
  show ?thesis unfolding m
    by (rule bit_word_eqI) (auto simp: bit_simps dest: bit_imp_le_length)
qed

lemma unat_ucast_u8: "unat (ucast (a :: u8) :: u64) = unat a"
  using unat_bound [of a] by (simp add: unsigned_ucast_eq take_bit_nat_eq_self)

lemma fmt_loop_hhu:
  assumes "i + 3 < length fmt" "fmt ! i = 37" "fmt ! (i + 1) = 104" "fmt ! (i + 2) = 104" "fmt ! (i + 3) = 117"
    and "wf_buf buf" "bb_len buf + int (length (decimal (unat a))) \<le> bb_cap buf"
  shows "\<exists>buf'. fmt_loop fmt i NOTHING m buf (Arg32 (ucast (a :: u8)) # args) =
      fmt_loop fmt (i + 4) NOTHING M_NONE buf' args \<and> appended buf (decimal (unat a)) buf'"
proof -
  obtain buf' where b: "str_buf_append buf (decimal (unat a)) = Some (ok, buf')"
    "appended buf (decimal (unat a)) buf'"
    using str_buf_append_appended [OF assms(6,7)] by auto
  then have "fmt_convert (fmt ! (i + 3)) M_HH buf (Arg32 (ucast a) # args) = Some ((ok, buf'), args)"
    using assms by (simp add: fmt_convert_def fmt_int_arg_def byte_arg fmt_append_u64_def
        u64_digits_decimal unat_ucast_u8)
  then show ?thesis using fmt_loop_hh [OF assms(1-4)] b by blast
qed

lemma decimal_byte_length: "length (decimal (unat (a :: u8))) \<le> 3"
  using unat_bound [of a] by (intro decimal_length) simp_all

text \<open>
  Whatever the format string and the arguments, a run of \<open>fmt_vfmt\<close> never writes outside
  of the buffer and only appends to it: the buffer stays well-formed, keeps its capacity, and
  its old content is a prefix of the new one, on the error returns too.
\<close>

theorem fmt_vfmt_only_appends:
  assumes "wf_buf buf" and "fmt_vfmt buf fmt args = Some (r, buf')"
  shows "wf_buf buf' \<and> bb_cap buf' = bb_cap buf \<and>
    (\<exists>s. byte_view_from_buf buf' = byte_view_from_buf buf @ s)"
  using fmt_loop_extends [OF assms(1)] assms(2) by (auto simp: fmt_vfmt_def extends_def)

lemma fmt_vfmt_example:
  "fmt_vfmt (byte_buf_from_array (replicate 6 0)) (cstr ''n=%hhu;'') [Arg32 300] =
     Some (ok, byte_buf_new (cstr ''n=44;'' @ [0]) 5 6)"
  by code_simp

theorem fmt_vfmt_only_appends_witness:
  "wf_buf (byte_buf_new (cstr ''n=44;'' @ [0]) 5 6) \<and>
   bb_cap (byte_buf_new (cstr ''n=44;'' @ [0]) 5 6) = bb_cap (byte_buf_from_array (replicate 6 (0::byte))) \<and>
   (\<exists>s. byte_view_from_buf (byte_buf_new (cstr ''n=44;'' @ [0]) 5 6) =
        byte_view_from_buf (byte_buf_from_array (replicate 6 0)) @ s)"
  by (rule fmt_vfmt_only_appends [OF byte_buf_from_array_wf fmt_vfmt_example])

end
