(* ===== verification/NetAddr.thy ===== *)
theory NetAddr
  imports Fmt Arena
begin

text \<open>
  Byte order and addresses: include/tx/net/netorder.h, include/tx/net/ip_addr.h with
  src/net/ip_addr.c, and include/tx/net/mac_addr.h. A value in network byte order is the number
  that is stored in memory on a little-endian machine, as in the C code; \<open>le_bytes16\<close> and
  \<open>le_bytes32\<close> are its bytes in memory. The result of the parser carries the address and the
  mask of \<open>struct ipv4_addr_parsed\<close>.
\<close>

section \<open>Network byte order\<close>

text \<open>The bytes of a number in the memory of a little-endian machine, and back.\<close>

definition le_bytes16 :: "u16 \<Rightarrow> byte list" where
  "le_bytes16 x = [ucast x, ucast (drop_bit 8 x)]"

definition le_bytes32 :: "u32 \<Rightarrow> byte list" where
  "le_bytes32 x = [ucast x, ucast (drop_bit 8 x), ucast (drop_bit 16 x), ucast (drop_bit 24 x)]"

definition le_word16 :: "byte \<Rightarrow> byte \<Rightarrow> u16" where
  "le_word16 b0 b1 = ucast b0 OR push_bit 8 (ucast b1)"

definition le_word32 :: "byte \<Rightarrow> byte \<Rightarrow> byte \<Rightarrow> byte \<Rightarrow> u32" where
  "le_word32 b0 b1 b2 b3 =
     ucast b0 OR push_bit 8 (ucast b1) OR push_bit 16 (ucast b2) OR push_bit 24 (ucast b3)"

text \<open>The byte swaps of the compiler.\<close>

definition bswap16 :: "u16 \<Rightarrow> u16" where
  "bswap16 x = push_bit 8 x OR drop_bit 8 x"

definition bswap32 :: "u32 \<Rightarrow> u32" where
  "bswap32 x = le_word32 (ucast (drop_bit 24 x)) (ucast (drop_bit 16 x)) (ucast (drop_bit 8 x)) (ucast x)"

type_synonym net_u16 = u16
type_synonym net_u32 = u32

definition u16_from_net_u16 :: "net_u16 \<Rightarrow> u16" where
  "u16_from_net_u16 value = bswap16 value"

definition u32_from_net_u32 :: "net_u32 \<Rightarrow> u32" where
  "u32_from_net_u32 value = bswap32 value"

definition net_u16_from_u16 :: "u16 \<Rightarrow> net_u16" where
  "net_u16_from_u16 value = bswap16 value"

definition net_u32_from_u32 :: "u32 \<Rightarrow> net_u32" where
  "net_u32_from_u32 value = bswap32 value"

lemma no_bit_8: "8 \<le> n \<Longrightarrow> \<not> bit (b :: byte) n"
  using bit_imp_le_length [of b n] by auto

lemma le_word16_bytes [simp]:
  "ucast (le_word16 b0 b1) = b0" "ucast (drop_bit 8 (le_word16 b0 b1)) = b1"
  by (auto simp: le_word16_def bit_simps no_bit_8 intro!: bit_word_eqI)

lemma le_word32_bytes [simp]:
  "ucast (le_word32 b0 b1 b2 b3) = b0" "ucast (drop_bit 8 (le_word32 b0 b1 b2 b3)) = b1"
  "ucast (drop_bit 16 (le_word32 b0 b1 b2 b3)) = b2" "ucast (drop_bit 24 (le_word32 b0 b1 b2 b3)) = b3"
  by (auto simp: le_word32_def bit_simps no_bit_8 intro!: bit_word_eqI)

lemma bswap16_involution [simp]: "bswap16 (bswap16 x) = x"
  by (rule bit_word_eqI) (auto simp: bswap16_def bit_simps less_diff_conv2)

lemma le_word16_le_bytes16 [simp]: "le_word16 (ucast x) (ucast (drop_bit 8 x)) = x"
  by (rule bit_word_eqI) (auto simp: le_word16_def bit_simps)

lemma net_u16_bytes: "le_bytes16 (net_u16_from_u16 x) = [ucast (drop_bit 8 x), ucast x]"
  by (auto simp: le_bytes16_def net_u16_from_u16_def bswap16_def bit_simps no_bit_8 intro!: bit_word_eqI)

lemma u16_of_net_roundtrip [simp]: "u16_from_net_u16 (net_u16_from_u16 x) = x"
  by (simp add: u16_from_net_u16_def net_u16_from_u16_def)

lemma net_of_u16_roundtrip [simp]: "net_u16_from_u16 (u16_from_net_u16 x) = x"
  by (simp add: u16_from_net_u16_def net_u16_from_u16_def)

lemma le_word32_le_bytes32 [simp]:
  "le_word32 (ucast x) (ucast (drop_bit 8 x)) (ucast (drop_bit 16 x)) (ucast (drop_bit 24 x)) = x"
proof (rule bit_word_eqI)
  fix n :: nat
  assume n: "n < LENGTH(32)"
  consider "n < 8" | "8 \<le> n" "n < 16" | "16 \<le> n" "n < 24" | "24 \<le> n" by linarith
  then show "bit (le_word32 (ucast x) (ucast (drop_bit 8 x)) (ucast (drop_bit 16 x)) (ucast (drop_bit 24 x))) n = bit x n"
    using n by cases (simp_all add: le_word32_def bit_simps less_diff_conv2)
qed

lemma bswap32_involution [simp]: "bswap32 (bswap32 x) = x"
  by (simp add: bswap32_def)

lemma u32_of_net_roundtrip [simp]: "u32_from_net_u32 (net_u32_from_u32 x) = x"
  by (simp add: u32_from_net_u32_def net_u32_from_u32_def)

lemma net_u32_bytes: "le_bytes32 (net_u32_from_u32 x) =
    [ucast (drop_bit 24 x), ucast (drop_bit 16 x), ucast (drop_bit 8 x), ucast x]"
  by (simp add: le_bytes32_def net_u32_from_u32_def bswap32_def)

section \<open>IPv4 addresses\<close>

datatype ipv4_addr = Ipv4 u8 u8 u8 u8

definition ipv4_addr_new :: "u8 \<Rightarrow> u8 \<Rightarrow> u8 \<Rightarrow> u8 \<Rightarrow> ipv4_addr" where
  "ipv4_addr_new a0 a1 a2 a3 = Ipv4 a0 a1 a2 a3"

fun ipv4_addr_is_equal :: "ipv4_addr \<Rightarrow> ipv4_addr \<Rightarrow> bool" where
  "ipv4_addr_is_equal (Ipv4 a0 a1 a2 a3) (Ipv4 b0 b1 b2 b3) \<longleftrightarrow>
     a0 = b0 \<and> a1 = b1 \<and> a2 = b2 \<and> a3 = b3"

fun ipv4_addr_mask :: "ipv4_addr \<Rightarrow> ipv4_addr \<Rightarrow> ipv4_addr" where
  "ipv4_addr_mask (Ipv4 a0 a1 a2 a3) (Ipv4 m0 m1 m2 m3) =
     Ipv4 (a0 AND m0) (a1 AND m1) (a2 AND m2) (a3 AND m3)"

fun ipv4_addr_bytes :: "ipv4_addr \<Rightarrow> byte list" where
  "ipv4_addr_bytes (Ipv4 a0 a1 a2 a3) = [a0, a1, a2, a3]"

lemma ipv4_addr_is_equal_iff [simp]: "ipv4_addr_is_equal a b \<longleftrightarrow> a = b"
  by (cases a; cases b) auto

lemma ipv4_addr_bytes_length [simp]: "length (ipv4_addr_bytes a) = 4"
  by (cases a) simp

definition ipv4_addr_format :: "ipv4_addr \<Rightarrow> arena \<Rightarrow> (byte list \<times> arena) option" where
  "ipv4_addr_format addr arn = (case addr of Ipv4 a0 a1 a2 a3 \<Rightarrow> do {
     (ba, arn) \<leftarrow> byte_array_from_arena 32 arn;
     (res, sbuf) \<leftarrow> fmt_vfmt (byte_buf_from_array ba) (cstr ''%hhu.%hhu.%hhu.%hhu'')
        [Arg32 (ucast a0), Arg32 (ucast a1), Arg32 (ucast a2), Arg32 (ucast a3)];
     kassert (\<not> is_error res);
     Some (byte_view_from_buf sbuf, arn)
   })"

lemma word_drop1_less:
  assumes "(x :: u32) \<noteq> 0"
  shows "unat (drop_bit (Suc 0) x) < unat x"
proof -
  have "unat (drop_bit 1 x) = unat x div 2" by (simp add: unat_drop_bit_eq drop_bit_eq_div unat_div)
  moreover have "0 < unat x" using assms by (simp add: unat_gt_0)
  ultimately show ?thesis by simp
qed

text \<open>
  The prefix length of a mask. The loop shifts the inverted mask to the right until it is zero;
  the first and the last two asserts are the code's. \<open>BIT\<close> has 64 bits.
\<close>

function mask_length_loop :: "u32 \<Rightarrow> sz \<Rightarrow> sz" where
  "mask_length_loop inverted prefix_length =
     (if inverted = 0 then prefix_length else mask_length_loop (drop_bit 1 inverted) (prefix_length - 1))"
  by pat_completeness auto
termination
  by (relation "measure (\<lambda>(x, _). unat x)") (auto simp: word_drop1_less)

declare mask_length_loop.simps [simp del]

definition ipv4_mask_prefix_length :: "ipv4_addr \<Rightarrow> sz option" where
  "ipv4_mask_prefix_length msk = (case msk of Ipv4 m0 m1 m2 m3 \<Rightarrow>
     let raw = push_bit 24 (ucast m0) OR push_bit 16 (ucast m1) OR push_bit 8 (ucast m2) OR ucast m3 :: u32 in do {
       kassert (raw \<noteq> 0);
       let inverted = NOT raw;
       let prefix_length = mask_length_loop inverted 32;
       kassert (ucast (NOT raw + 1 :: u32) = (push_bit (nat (32 - prefix_length)) 1 :: u64));
       kassert (prefix_length > 0);
       Some prefix_length
     })"

section \<open>Parsing\<close>

definition in_char_range :: "byte \<Rightarrow> byte \<Rightarrow> byte \<Rightarrow> bool" where
  "in_char_range x beg end \<longleftrightarrow> beg \<le> x \<and> x \<le> end"

definition char_to_digit :: "byte \<Rightarrow> u8 option" where
  "char_to_digit x = do { kassert (in_char_range x 48 57); Some (x - 48) }"

definition prefix_length_to_mask :: "sz \<Rightarrow> ipv4_addr option" where
  "prefix_length_to_mask prefix_length = do {
     kassert (1 \<le> prefix_length \<and> prefix_length \<le> 32);
     let raw = push_bit (nat (32 - prefix_length)) (0xffffffff :: u32);
     Some (Ipv4 (ucast (drop_bit 24 raw AND 0xff)) (ucast (drop_bit 16 raw AND 0xff))
       (ucast (drop_bit 8 raw AND 0xff)) (ucast (raw AND 0xff)))
   }"

text \<open>
  The body of the inner \<open>do ... while (0)\<close>: one octet at position \<open>i\<close>. The result is the octet
  with the position behind it, or \<^term>\<open>Inl EINVAL\<close> for the jump to \<open>error\<close>.
\<close>

definition parse_octet :: "byte list \<Rightarrow> nat \<Rightarrow> (u8 \<times> nat) res option" where
  "parse_octet str i =
     (if i + 2 < length str \<and> str ! i = 50 \<and> str ! (i + 1) = 53 \<and> in_char_range (str ! (i + 2)) 48 53 then do {
        d \<leftarrow> char_to_digit (str ! (i + 2));
        Some (Inr (250 + d, i + 3)) }
      else if i + 2 < length str \<and> str ! i = 50 \<and> in_char_range (str ! (i + 1)) 48 52 \<and>
          in_char_range (str ! (i + 2)) 48 57 then do {
        d1 \<leftarrow> char_to_digit (str ! (i + 1)); d2 \<leftarrow> char_to_digit (str ! (i + 2));
        Some (Inr (200 + 10 * d1 + d2, i + 3)) }
      else if i + 2 < length str \<and> str ! i = 49 \<and> in_char_range (str ! (i + 1)) 48 57 \<and>
          in_char_range (str ! (i + 2)) 48 57 then do {
        d1 \<leftarrow> char_to_digit (str ! (i + 1)); d2 \<leftarrow> char_to_digit (str ! (i + 2));
        Some (Inr (100 + 10 * d1 + d2, i + 3)) }
      else if i + 1 < length str \<and> in_char_range (str ! i) 49 57 \<and> in_char_range (str ! (i + 1)) 48 57 then do {
        d1 \<leftarrow> char_to_digit (str ! i); d2 \<leftarrow> char_to_digit (str ! (i + 1));
        Some (Inr (10 * d1 + d2, i + 2)) }
      else if i < length str \<and> in_char_range (str ! i) 48 57 then do {
        d \<leftarrow> char_to_digit (str ! i);
        Some (Inr (d, i + 1)) }
      else Some (Inl EINVAL))"

text \<open>
  The loop over the octets; the octets parsed so far are the first \<open>addr_idx\<close> bytes of the
  address. Storing a fifth octet would be out of bounds.
\<close>

function parse_octets :: "byte list \<Rightarrow> nat \<Rightarrow> u8 list \<Rightarrow> (u8 list \<times> nat) res option" where
  "parse_octets str i octets =
     (if \<not> i < length str then Some (Inr (octets, i))
      else case parse_octet str i of
        None \<Rightarrow> None
      | Some (Inl e) \<Rightarrow> Some (Inl e)
      | Some (Inr (v, j)) \<Rightarrow>
         if \<not> length octets < 4 then None
         else if j \<le> i then None
         else
           let octets = octets @ [v] in
           if length octets \<ge> 4 \<or> j \<ge> length str then Some (Inr (octets, j))
           else if str ! j \<noteq> 46 then Some (Inl EINVAL)
           else parse_octets str (j + 1) octets)"
  by pat_completeness auto
termination
  by (relation "measure (\<lambda>(str, i, _). length str - i)") auto

declare parse_octets.simps [simp del]

text \<open>The optional prefix length, the second \<open>do ... while (0)\<close>.\<close>

definition parse_prefix_length :: "byte list \<Rightarrow> nat \<Rightarrow> (sz \<times> nat) res option" where
  "parse_prefix_length str i =
     (if \<not> i < length str then Some (Inr (32, i))
      else if str ! i \<noteq> 47 then Some (Inl EINVAL)
      else
        let i = i + 1 in
        if i + 1 < length str \<and> str ! i = 51 \<and> in_char_range (str ! (i + 1)) 48 50 then do {
          d \<leftarrow> char_to_digit (str ! (i + 1));
          Some (Inr (30 + uint d, i + 2)) }
        else if i + 1 < length str \<and> in_char_range (str ! i) 49 50 \<and> in_char_range (str ! (i + 1)) 48 57 then do {
          d1 \<leftarrow> char_to_digit (str ! i); d2 \<leftarrow> char_to_digit (str ! (i + 1));
          Some (Inr (10 * uint d1 + uint d2, i + 2)) }
        else if i < length str \<and> in_char_range (str ! i) 49 57 then do {
          d \<leftarrow> char_to_digit (str ! i);
          Some (Inr (uint d, i + 1)) }
        else Some (Inl EINVAL))"

record ipv4_addr_parsed =
  pa_addr :: ipv4_addr
  pa_mask :: ipv4_addr

definition ipv4_addr_parse :: "byte list \<Rightarrow> ipv4_addr_parsed res option" where
  "ipv4_addr_parse str =
     (case parse_octets str 0 [] of
        None \<Rightarrow> None
      | Some (Inl e) \<Rightarrow> Some (Inl e)
      | Some (Inr (octets, i)) \<Rightarrow>
         if length octets \<noteq> 4 then Some (Inl EINVAL)
         else case parse_prefix_length str i of
           None \<Rightarrow> None
         | Some (Inl e) \<Rightarrow> Some (Inl e)
         | Some (Inr (prefix_length, i)) \<Rightarrow>
            if i \<noteq> length str then Some (Inl EINVAL)
            else do {
              m \<leftarrow> prefix_length_to_mask prefix_length;
              Some (Inr \<lparr>pa_addr = Ipv4 (octets ! 0) (octets ! 1) (octets ! 2) (octets ! 3), pa_mask = m\<rparr>)
            })"

text \<open>The self-test that the kernel runs at boot.\<close>

definition parses_to :: "string \<Rightarrow> ipv4_addr \<Rightarrow> unit option" where
  "parses_to s addr = do {
     pa_res \<leftarrow> ipv4_addr_parse (cstr s);
     case pa_res of Inl _ \<Rightarrow> None
     | Inr pa \<Rightarrow> do { kassert (pa_addr pa = addr); kassert (pa_mask pa = Ipv4 0xff 0xff 0xff 0xff) }
   }"

definition parse_fails :: "string \<Rightarrow> unit option" where
  "parse_fails s = do { pa_res \<leftarrow> ipv4_addr_parse (cstr s); kassert (is_error pa_res) }"

fun test_prefixes :: "str_buf \<Rightarrow> nat list \<Rightarrow> unit option" where
  "test_prefixes sbuf [] = Some ()"
| "test_prefixes sbuf (prefix # ps) = do {
     let sbuf = sbuf\<lparr>bb_len := 0\<rparr>;
     (_, sbuf) \<leftarrow> str_buf_append sbuf (cstr ''192.168.0.1/'');
     (_, sbuf) \<leftarrow> fmt_append_i64 (of_nat prefix) sbuf;
     pa_res \<leftarrow> ipv4_addr_parse (byte_view_from_buf sbuf);
     case pa_res of Inl _ \<Rightarrow> None
     | Inr pa \<Rightarrow> do {
         kassert (pa_addr pa = Ipv4 192 168 0 1);
         let mask_raw = push_bit (32 - prefix) (0xffffffff :: u32);
         kassert (case pa_mask pa of Ipv4 m0 m1 m2 m3 \<Rightarrow>
           ucast m0 = drop_bit 24 mask_raw AND 0xff \<and> ucast m1 = drop_bit 16 mask_raw AND 0xff \<and>
           ucast m2 = drop_bit 8 mask_raw AND 0xff \<and> ucast m3 = mask_raw AND 0xff);
         test_prefixes sbuf ps
       }
   }"

definition ipv4_test_addr_parse :: "arena \<Rightarrow> unit option" where
  "ipv4_test_addr_parse arn = do {
     parses_to ''0.0.0.0'' (Ipv4 0 0 0 0);
     parses_to ''255.255.255.255'' (Ipv4 255 255 255 255);
     parses_to ''1.23.195.7'' (Ipv4 1 23 195 7);
     parses_to ''127.42.8.100'' (Ipv4 127 42 8 100);
     parse_fails ''256.0.0.0'';
     parse_fails ''192.168.1'';
     parse_fails ''001.002.003.004'';
     (ba, arn) \<leftarrow> byte_array_from_arena 32 arn;
     test_prefixes (byte_buf_from_array ba) [1..<33]
   }"

section \<open>MAC addresses\<close>

datatype mac_addr = Mac u8 u8 u8 u8 u8 u8

definition mac_addr_new :: "u8 \<Rightarrow> u8 \<Rightarrow> u8 \<Rightarrow> u8 \<Rightarrow> u8 \<Rightarrow> u8 \<Rightarrow> mac_addr" where
  "mac_addr_new a1 a2 a3 a4 a5 a6 = Mac a1 a2 a3 a4 a5 a6"

definition MAC_ADDR_BROADCAST :: mac_addr where
  "MAC_ADDR_BROADCAST = mac_addr_new 0xff 0xff 0xff 0xff 0xff 0xff"

fun mac_addr_is_equal :: "mac_addr \<Rightarrow> mac_addr \<Rightarrow> bool" where
  "mac_addr_is_equal (Mac a0 a1 a2 a3 a4 a5) (Mac b0 b1 b2 b3 b4 b5) \<longleftrightarrow>
     a0 = b0 \<and> a1 = b1 \<and> a2 = b2 \<and> a3 = b3 \<and> a4 = b4 \<and> a5 = b5"

fun mac_addr_bytes :: "mac_addr \<Rightarrow> byte list" where
  "mac_addr_bytes (Mac a0 a1 a2 a3 a4 a5) = [a0, a1, a2, a3, a4, a5]"

definition mac_addr_format :: "mac_addr \<Rightarrow> arena \<Rightarrow> (byte list \<times> arena) option" where
  "mac_addr_format addr arn = (case addr of Mac a0 a1 a2 a3 a4 a5 \<Rightarrow> do {
     (ba, arn) \<leftarrow> byte_array_from_arena 32 arn;
     (res, sbuf) \<leftarrow> fmt_vfmt (byte_buf_from_array ba) (cstr ''%hhx:%hhx:%hhx:%hhx:%hhx:%hhx'')
        [Arg32 (ucast a0), Arg32 (ucast a1), Arg32 (ucast a2), Arg32 (ucast a3), Arg32 (ucast a4),
         Arg32 (ucast a5)];
     kassert (\<not> is_error res);
     Some (byte_view_from_buf sbuf, arn)
   })"

lemma mac_addr_is_equal_iff [simp]: "mac_addr_is_equal a b \<longleftrightarrow> a = b"
  by (cases a; cases b) auto

lemma mac_addr_bytes_length [simp]: "length (mac_addr_bytes a) = 6"
  by (cases a) simp

section \<open>Formatting an address and parsing it back\<close>

abbreviation digit :: "nat \<Rightarrow> byte" where
  "digit d \<equiv> 48 + of_nat d"

lemma digit_eq:
  assumes "d < 10"
  shows "digit d = 50 \<longleftrightarrow> d = 2" "digit d = 49 \<longleftrightarrow> d = 1" "digit d = 53 \<longleftrightarrow> d = 5"
    "digit d \<noteq> 47" "digit d \<noteq> 46"
  using digit_value [OF assms] by (simp_all add: word_unat_eq_iff)

lemma digit_range:
  assumes "d < 10"
  shows "in_char_range (digit d) 48 57" "in_char_range (digit d) 48 53 \<longleftrightarrow> d \<le> 5"
    "in_char_range (digit d) 48 52 \<longleftrightarrow> d \<le> 4" "in_char_range (digit d) 49 57 \<longleftrightarrow> 1 \<le> d"
  using digit_value [OF assms] assms by (auto simp: in_char_range_def word_le_nat_alt)

lemma char_to_digit_digit: "d < 10 \<Longrightarrow> char_to_digit (digit d) = Some (of_nat d)"
  by (simp add: char_to_digit_def digit_range)

lemmas digit_simps = digit_eq digit_range char_to_digit_digit

text \<open>The octet parser on the decimal representation of a byte, up to the next non-digit.\<close>

definition stops :: "byte list \<Rightarrow> bool" where
  "stops rest \<longleftrightarrow> (rest = [] \<or> \<not> in_char_range (hd rest) 48 57)"

lemma stops_no_digit:
  assumes "stops rest" "rest \<noteq> []"
  shows "hd rest \<noteq> 53" "\<not> in_char_range (hd rest) 48 52" "\<not> in_char_range (hd rest) 48 53"
    "\<not> in_char_range (hd rest) 48 57"
proof -
  have n: "\<not> in_char_range (hd rest) 48 57" using assms by (simp add: stops_def)
  then show "\<not> in_char_range (hd rest) 48 57" .
  show "hd rest \<noteq> 53" using n by (auto simp: in_char_range_def)
  show "\<not> in_char_range (hd rest) 48 52" "\<not> in_char_range (hd rest) 48 53"
    using n by (auto simp: in_char_range_def word_le_nat_alt)
qed

lemma decimal_cases:
  assumes "n < 256"
  shows "(n < 10 \<and> decimal n = [digit n]) \<or>
    (10 \<le> n \<and> n < 100 \<and> decimal n = [digit (n div 10), digit (n mod 10)]) \<or>
    (100 \<le> n \<and> decimal n = [digit (n div 100), digit (n div 10 mod 10), digit (n mod 10)])"
proof -
  have "n div 10 div 10 = n div 100" by (simp add: div_mult2_eq [symmetric])
  moreover have "n div 100 < 10" using assms by linarith
  ultimately show ?thesis
    by (auto simp: decimal.simps [of n] decimal.simps [of "n div 10"] decimal.simps [of "n div 100"])
qed

lemma parse_octet_decimal:
  assumes "stops rest" and n: "n < 256"
  shows "parse_octet (pre @ decimal n @ rest) (length pre) =
    Some (Inr (of_nat n, length pre + length (decimal n)))"
proof -
  have nth: "(pre @ s) ! (length pre + k) = s ! k" "(pre @ s) ! Suc (length pre) = s ! 1"
    "(pre @ s) ! Suc (Suc (length pre)) = s ! 2"
    "(pre @ s) ! length pre = s ! 0" for s :: "byte list" and k by (simp_all add: nth_append)
  from decimal_cases [OF n] show ?thesis
  proof (elim disjE conjE)
    assume d: "n < 10" "decimal n = [digit n]"
    show ?thesis
    proof (cases rest)
      case Nil
      then show ?thesis using d by (simp add: parse_octet_def nth digit_simps)
    next
      case (Cons c r)
      then show ?thesis using d stops_no_digit [OF assms(1)] by (simp add: parse_octet_def nth digit_simps)
    qed
  next
    assume d: "10 \<le> n" "n < 100" "decimal n = [digit (n div 10), digit (n mod 10)]"
    have q: "n div 10 < 10" "n mod 10 < 10" "1 \<le> n div 10" "n div 10 \<noteq> 0" using d(1,2) by auto
    have "10 * of_nat (n div 10) + of_nat (n mod 10) = (of_nat (10 * (n div 10) + n mod 10) :: byte)"
      by (simp only: of_nat_add of_nat_mult of_nat_numeral)
    then have v: "10 * of_nat (n div 10) + of_nat (n mod 10) = (of_nat n :: byte)" by simp
    show ?thesis
    proof (cases rest)
      case Nil
      then show ?thesis using d q v by (simp add: parse_octet_def nth digit_simps)
    next
      case (Cons c r)
      then show ?thesis using d q v stops_no_digit [OF assms(1)]
        by (simp add: parse_octet_def nth digit_simps)
    qed
  next
    assume d: "100 \<le> n"
      "decimal n = [digit (n div 100), digit (n div 10 mod 10), digit (n mod 10)]"
    have q: "n div 10 mod 10 < 10" "n mod 10 < 10" by auto
    have h: "n div 100 = 1 \<or> n div 100 = 2" using d(1) n by linarith
    define x y where "x = n div 10 mod 10" and "y = n mod 10"
    have e: "n = 100 * (n div 100) + 10 * x + y" 
  proof -
    have "n = 10 * (n div 10) + y" "n div 10 = 10 * (n div 10 div 10) + x" by (simp_all add: x_def y_def)
    moreover have "n div 10 div 10 = n div 100" by (simp add: div_mult2_eq [symmetric])
    ultimately show ?thesis by linarith
  qed
    have xy: "x < 10" "y < 10" using q by (simp_all add: x_def y_def)
    from h show ?thesis
    proof
      assume 1: "n div 100 = 1"
      have "100 + 10 * of_nat x + of_nat y = (of_nat (100 + 10 * x + y) :: byte)"
        by (simp only: of_nat_add of_nat_mult of_nat_numeral)
      then have v: "100 + 10 * of_nat x + of_nat y = (of_nat n :: byte)" using e 1 by simp
      show ?thesis using d(2) xy v digit_eq [of 1]
        by (simp add: parse_octet_def nth digit_simps 1 x_def [symmetric] y_def [symmetric])
    next
      assume 2: "n div 100 = 2"
      have "250 + of_nat y = (of_nat (250 + y) :: byte)" 
        "200 + 10 * of_nat x + of_nat y = (of_nat (200 + 10 * x + y) :: byte)"
        by (simp_all only: of_nat_add of_nat_mult of_nat_numeral)
      then have v: "x = 5 \<Longrightarrow> 250 + of_nat y = (of_nat n :: byte)" "200 + 10 * of_nat x + of_nat y = (of_nat n :: byte)" using e 2 by simp_all
      have "x \<le> 5" "x = 5 \<Longrightarrow> y \<le> 5" using e 2 n by auto
      then show ?thesis using d(2) xy v digit_eq [of 2]
        by (simp add: parse_octet_def nth digit_simps 2 x_def [symmetric] y_def [symmetric])
    qed
  qed
qed

lemma decimal_not_Nil [simp]: "decimal n \<noteq> []"
  by (subst decimal.simps) simp

lemma parse_octets_step:
  assumes "length octets < 3" "n < 256"
  shows "parse_octets (pre @ decimal n @ 46 # rest) (length pre) octets =
    parse_octets ((pre @ decimal n @ [46]) @ rest) (length (pre @ decimal n @ [46])) (octets @ [of_nat n])"
proof -
  have "parse_octet (pre @ decimal n @ 46 # rest) (length pre) =
      Some (Inr (of_nat n, length pre + length (decimal n)))"
    by (rule parse_octet_decimal) (simp_all add: stops_def in_char_range_def assms)
  then show ?thesis using assms
    by (subst parse_octets.simps) (simp add: nth_append)
qed

lemma parse_octets_last:
  assumes "length octets = 3" "n < 256" "stops rest"
  shows "parse_octets (pre @ decimal n @ rest) (length pre) octets =
    Some (Inr (octets @ [of_nat n], length (pre @ decimal n)))"
  using parse_octet_decimal [OF assms(3,2), of pre] assms
  by (subst parse_octets.simps) simp

lemma parse_octets_dotted:
  assumes "a < 256" "b < 256" "c < 256" "d < 256" "stops rest"
  shows "parse_octets (decimal a @ 46 # decimal b @ 46 # decimal c @ 46 # decimal d @ rest) 0 [] =
    Some (Inr ([of_nat a, of_nat b, of_nat c, of_nat d],
      length (decimal a @ 46 # decimal b @ 46 # decimal c @ 46 # decimal d)))"
  using parse_octets_step [of "[]" a "[]"]
    parse_octets_step [of "[of_nat a]" b "decimal a @ [46]"]
    parse_octets_step [of "[of_nat a, of_nat b]" c "decimal a @ 46 # decimal b @ [46]"]
    parse_octets_last [of "[of_nat a, of_nat b, of_nat c]" d rest "decimal a @ 46 # decimal b @ 46 # decimal c @ [46]"]
    assms by simp

definition dotted :: "ipv4_addr \<Rightarrow> byte list" where
  "dotted addr = (case addr of Ipv4 a b c d \<Rightarrow>
     decimal (unat a) @ 46 # decimal (unat b) @ 46 # decimal (unat c) @ 46 # decimal (unat d))"

lemma ipv4_addr_parse_dotted:
  "ipv4_addr_parse (dotted addr) =
     Some (Inr \<lparr>pa_addr = addr, pa_mask = Ipv4 255 255 255 255\<rparr>)"
proof (cases addr)
  case (Ipv4 a b c d)
  have lt: "unat x < 256" for x :: u8 using unat_bound [of x] by simp
  have m: "prefix_length_to_mask 32 = Some (Ipv4 255 255 255 255)" by code_simp
  show ?thesis
    using parse_octets_dotted [OF lt [of a] lt [of b] lt [of c] lt [of d], of "[]"] m
    by (simp add: Ipv4 dotted_def ipv4_addr_parse_def stops_def parse_prefix_length_def)
qed

abbreviation dotted_fmt :: "byte list" where
  "dotted_fmt \<equiv> cstr ''%hhu.%hhu.%hhu.%hhu''"

lemma dotted_fmt_nth:
  "length dotted_fmt = 19"
  "k \<in> {0, 5, 10, 15} \<Longrightarrow> dotted_fmt ! k = 37 \<and> dotted_fmt ! (k + 1) = 104 \<and>
     dotted_fmt ! (k + 2) = 104 \<and> dotted_fmt ! (k + 3) = 117"
  "k \<in> {4, 9, 14} \<Longrightarrow> dotted_fmt ! k = 46"
  by (auto simp: cstr_def of_char_of)

lemma fmt_field:
  assumes "k \<in> {0, 5, 10, 15}" "wf_buf buf" "bb_len buf + 3 \<le> bb_cap buf"
  shows "\<exists>buf'. fmt_loop dotted_fmt k NOTHING m buf (Arg32 (ucast (a :: u8)) # args) =
      fmt_loop dotted_fmt (k + 4) NOTHING M_NONE buf' args \<and> appended buf (decimal (unat a)) buf'"
  using dotted_fmt_nth(1) dotted_fmt_nth(2) [OF assms(1)] assms decimal_byte_length [of a]
  by (intro fmt_loop_hhu) auto

lemma fmt_dot:
  assumes "k \<in> {4, 9, 14}" "wf_buf buf" "bb_len buf < bb_cap buf"
  shows "\<exists>buf'. fmt_loop dotted_fmt k NOTHING m buf args =
      fmt_loop dotted_fmt (k + 1) NOTHING m buf' args \<and> appended buf [46] buf'"
  using fmt_loop_char [of k dotted_fmt buf m args] dotted_fmt_nth(1) dotted_fmt_nth(3) [OF assms(1)] assms
  by auto

lemma fmt_dotted:
  assumes "wf_buf buf" "bb_len buf + 15 \<le> bb_cap buf"
  shows "\<exists>buf'. fmt_vfmt buf dotted_fmt
      [Arg32 (ucast (a :: u8)), Arg32 (ucast (b :: u8)), Arg32 (ucast (c :: u8)), Arg32 (ucast (d :: u8))] =
      Some (ok, buf') \<and> appended buf (dotted (Ipv4 a b c d)) buf'"
proof -
  note len = decimal_byte_length [of a] decimal_byte_length [of b] decimal_byte_length [of c]
    decimal_byte_length [of d]
  note ap = appended_def
  let ?L = "\<lambda>k m. fmt_loop dotted_fmt k NOTHING m"
  obtain b1 where b1: "?L 0 M_NONE buf [Arg32 (ucast a), Arg32 (ucast b), Arg32 (ucast c), Arg32 (ucast d)] =
      ?L 4 M_NONE b1 [Arg32 (ucast b), Arg32 (ucast c), Arg32 (ucast d)]" "appended buf (decimal (unat a)) b1"
    using fmt_field [of 0 buf M_NONE a] assms by auto
  obtain b2 where b2: "?L 4 M_NONE b1 [Arg32 (ucast b), Arg32 (ucast c), Arg32 (ucast d)] =
      ?L 5 M_NONE b2 [Arg32 (ucast b), Arg32 (ucast c), Arg32 (ucast d)]" "appended b1 [46] b2"
    using fmt_dot [of 4 b1 M_NONE] assms b1(2) len by (auto simp: ap)
  obtain b3 where b3: "?L 5 M_NONE b2 [Arg32 (ucast b), Arg32 (ucast c), Arg32 (ucast d)] =
      ?L 9 M_NONE b3 [Arg32 (ucast c), Arg32 (ucast d)]" "appended b2 (decimal (unat b)) b3"
    using fmt_field [of 5 b2 M_NONE b] assms b1(2) b2(2) len by (auto simp: ap)
  obtain b4 where b4: "?L 9 M_NONE b3 [Arg32 (ucast c), Arg32 (ucast d)] =
      ?L 10 M_NONE b4 [Arg32 (ucast c), Arg32 (ucast d)]" "appended b3 [46] b4"
    using fmt_dot [of 9 b3 M_NONE] assms b1(2) b2(2) b3(2) len by (auto simp: ap)
  obtain b5 where b5: "?L 10 M_NONE b4 [Arg32 (ucast c), Arg32 (ucast d)] =
      ?L 14 M_NONE b5 [Arg32 (ucast d)]" "appended b4 (decimal (unat c)) b5"
    using fmt_field [of 10 b4 M_NONE c] assms b1(2) b2(2) b3(2) b4(2) len by (auto simp: ap)
  obtain b6 where b6: "?L 14 M_NONE b5 [Arg32 (ucast d)] = ?L 15 M_NONE b6 [Arg32 (ucast d)]"
      "appended b5 [46] b6"
    using fmt_dot [of 14 b5 M_NONE] assms b1(2) b2(2) b3(2) b4(2) b5(2) len by (auto simp: ap)
  obtain b7 where b7: "?L 15 M_NONE b6 [Arg32 (ucast d)] = ?L 19 M_NONE b7 []"
      "appended b6 (decimal (unat d)) b7"
    using fmt_field [of 15 b6 M_NONE d "[]"] assms b1(2) b2(2) b3(2) b4(2) b5(2) b6(2) len by (auto simp: ap)
  have "appended buf (dotted (Ipv4 a b c d)) b7"
    using b1(2) b2(2) b3(2) b4(2) b5(2) b6(2) b7(2) by (auto simp: ap dotted_def)
  moreover have "?L 19 M_NONE b7 [] = Some (ok, b7)"
    by (subst fmt_loop.simps) (simp add: dotted_fmt_nth)
  ultimately show ?thesis using b1(1) b2(1) b3(1) b4(1) b5(1) b6(1) b7(1)
    by (auto simp: fmt_vfmt_def)
qed

text \<open>
  Whenever the arena has room for the 32-byte buffer, \<open>ipv4_addr_format\<close> does not crash, and
  parsing its text with \<open>ipv4_addr_parse\<close> gives the address back, with the mask of a single host.
\<close>

theorem ipv4_addr_format_parse:
  assumes "arena_alloc arn 32 = Some (p, arn')"
  shows "\<exists>s. ipv4_addr_format addr arn = Some (s, arn') \<and>
    ipv4_addr_parse s = Some (Inr \<lparr>pa_addr = addr, pa_mask = Ipv4 255 255 255 255\<rparr>)"
proof (cases addr)
  case (Ipv4 a b c d)
  obtain buf' where "fmt_vfmt (byte_buf_from_array (replicate 32 0)) dotted_fmt
      [Arg32 (ucast a), Arg32 (ucast b), Arg32 (ucast c), Arg32 (ucast d)] = Some (ok, buf')"
    "appended (byte_buf_from_array (replicate 32 0)) (dotted addr) buf'"
    using fmt_dotted [of "byte_buf_from_array (replicate 32 0)" a b c d] by (auto simp: Ipv4)
  then show ?thesis using assms
    by (auto simp: Ipv4 ipv4_addr_format_def byte_array_from_arena_def appended_def
        ipv4_addr_parse_dotted [unfolded Ipv4])
qed

theorem ipv4_addr_format_parse_witness:
  "\<exists>s. ipv4_addr_format (Ipv4 192 168 0 21) (arena_new 4096 4096) = Some (s, \<lparr>ar_beg = 4128, ar_end = 8192\<rparr>) \<and>
    ipv4_addr_parse s = Some (Inr \<lparr>pa_addr = Ipv4 192 168 0 21, pa_mask = Ipv4 255 255 255 255\<rparr>)"
  by (rule ipv4_addr_format_parse [of _ 4096])
    (simp add: arena_new_def arena_alloc_def arena_alloc_aligned_def)

section \<open>Parsing always returns\<close>

lemma char_to_digit_Some:
  "in_char_range c lo hi \<Longrightarrow> 48 \<le> lo \<Longrightarrow> hi \<le> 57 \<Longrightarrow> char_to_digit c = Some (c - 48)"
  by (auto simp: char_to_digit_def in_char_range_def word_le_nat_alt)

lemma char_to_digit_ranges:
  "in_char_range c 48 57 \<Longrightarrow> char_to_digit c = Some (c - 48)"
  "in_char_range c 48 53 \<Longrightarrow> char_to_digit c = Some (c - 48)"
  "in_char_range c 48 52 \<Longrightarrow> char_to_digit c = Some (c - 48)"
  "in_char_range c 48 50 \<Longrightarrow> char_to_digit c = Some (c - 48)"
  "in_char_range c 49 50 \<Longrightarrow> char_to_digit c = Some (c - 48)"
  "in_char_range c 49 57 \<Longrightarrow> char_to_digit c = Some (c - 48)"
  by (erule char_to_digit_Some; simp)+

lemma char_range_digit:
  "in_char_range c lo hi \<Longrightarrow> 48 \<le> lo \<Longrightarrow> uint lo - 48 \<le> uint (c - 48) \<and> uint (c - 48) \<le> uint hi - 48"
  by (auto simp: in_char_range_def word_le_def uint_sub_lem [THEN iffD1])

lemma parse_octet_returns:
  "parse_octet str i = Some (Inl EINVAL) \<or>
     (\<exists>v j. parse_octet str i = Some (Inr (v, j)) \<and> i < j \<and> j \<le> length str)"
  by (auto simp: parse_octet_def char_to_digit_ranges)

lemma parse_octets_returns:
  "length octets < 4 \<Longrightarrow> i \<le> length str \<Longrightarrow> parse_octets str i octets = Some (Inl EINVAL) \<or>
     (\<exists>os j. parse_octets str i octets = Some (Inr (os, j)) \<and> j \<le> length str \<and> length os \<le> 4)"
proof (induction str i octets rule: parse_octets.induct)
  case (1 str i octets)
  show ?case
  proof (cases "i < length str")
    case False
    then show ?thesis using "1.prems" by (subst (1 2) parse_octets.simps) auto
  next
    case True
    from parse_octet_returns [of str i] show ?thesis
    proof (elim disjE exE conjE)
      assume "parse_octet str i = Some (Inl EINVAL)"
      then show ?thesis using True by (subst parse_octets.simps) simp
    next
      fix v j
      assume o: "parse_octet str i = Some (Inr (v, j))" "i < j" "j \<le> length str"
      show ?thesis
      proof (cases "length (octets @ [v]) \<ge> 4 \<or> j \<ge> length str \<or> str ! j \<noteq> 46")
        case True
        then show ?thesis using \<open>i < length str\<close> o "1.prems"
          by (subst (1 2) parse_octets.simps) (auto simp: Let_def)
      next
        case False
        then have "parse_octets str i octets = parse_octets str (j + 1) (octets @ [v])"
          using True o "1.prems" by (subst parse_octets.simps) simp
        then show ?thesis using "1.IH" [OF _ o(1) refl refl] True o False "1.prems" by simp
      qed
    qed
  qed
qed

lemma tens_pos: "1 \<le> a \<Longrightarrow> 0 \<le> b \<Longrightarrow> 1 \<le> 10 * a + (b :: int)"
  by linarith

lemma parse_prefix_length_returns:
  "parse_prefix_length str i = Some (Inl EINVAL) \<or>
     (\<exists>p j. parse_prefix_length str i = Some (Inr (p, j)) \<and> 1 \<le> p \<and> p \<le> 32)"
  using char_range_digit [of "str ! (i + 1)" 48 57] char_range_digit [of "str ! (i + 1)" 49 50]
    char_range_digit [of "str ! (i + 1)" 49 57]
    char_range_digit [of "str ! (i + 2)" 48 57] char_range_digit [of "str ! (i + 2)" 48 50]
  by (auto simp: parse_prefix_length_def char_to_digit_ranges intro!: tens_pos)

lemma prefix_length_to_mask_Some: "1 \<le> p \<Longrightarrow> p \<le> 32 \<Longrightarrow> \<exists>m. prefix_length_to_mask p = Some m"
  by (simp add: prefix_length_to_mask_def Let_def)

text \<open>
  \<open>ipv4_addr_parse\<close> returns for every string, without failing an assertion or reading out
  of bounds: either \<open>EINVAL\<close>, or an address with the mask of a prefix length between 1 and 32.
\<close>

theorem ipv4_addr_parse_returns:
  "ipv4_addr_parse str = Some (Inl EINVAL) \<or>
     (\<exists>r p. ipv4_addr_parse str = Some (Inr r) \<and> 1 \<le> p \<and> p \<le> 32 \<and>
        prefix_length_to_mask p = Some (pa_mask r))"
proof -
  from parse_octets_returns [of "[]" 0 str] consider
    "parse_octets str 0 [] = Some (Inl EINVAL)"
  | os i where "parse_octets str 0 [] = Some (Inr (os, i))" by auto
  then show ?thesis
  proof cases
    case 1
    then show ?thesis by (simp add: ipv4_addr_parse_def)
  next
    case (2 os i)
    from parse_prefix_length_returns [of str i] consider
      "parse_prefix_length str i = Some (Inl EINVAL)"
    | p j where "parse_prefix_length str i = Some (Inr (p, j))" "1 \<le> p" "p \<le> 32" by auto
    then show ?thesis
      using 2 prefix_length_to_mask_Some by cases (fastforce simp: ipv4_addr_parse_def)+
  qed
qed

lemma prefix_masks:
  "list_all (\<lambda>p. case prefix_length_to_mask p of None \<Rightarrow> False
     | Some m \<Rightarrow> ipv4_mask_prefix_length m = Some p) (map int [1..<33])"
  by code_simp

text \<open>
  The mask made from a prefix length passes the assertions of \<open>ipv4_mask_prefix_length\<close>,
  which counts the same prefix length back.
\<close>

theorem prefix_length_mask_roundtrip:
  assumes "1 \<le> p" and "p \<le> 32"
  shows "\<exists>m. prefix_length_to_mask p = Some m \<and> ipv4_mask_prefix_length m = Some p"
proof -
  have "p \<in> set (map int [1..<33])" using assms by (auto simp: image_iff intro!: bexI [of _ "nat p"])
  then show ?thesis using prefix_masks unfolding list_all_iff by (fastforce split: option.splits)
qed

theorem prefix_length_mask_roundtrip_witness:
  "\<exists>m. prefix_length_to_mask 24 = Some m \<and> ipv4_mask_prefix_length m = Some 24"
  by (rule prefix_length_mask_roundtrip) simp_all

lemma test_prefixes_run: "test_prefixes (byte_buf_from_array (replicate 32 0)) [1..<33] = Some ()"
  by code_simp

text \<open>
  The parser's self-test that runs when the kernel boots passes, for every arena that has
  room for its 32-byte buffer.
\<close>

theorem ipv4_self_test_passes:
  assumes "arena_alloc arn 32 = Some (p, arn')"
  shows "ipv4_test_addr_parse arn = Some ()"
proof -
  have "parses_to ''0.0.0.0'' (Ipv4 0 0 0 0) = Some ()" by code_simp
  moreover have "parses_to ''255.255.255.255'' (Ipv4 255 255 255 255) = Some ()" by code_simp
  moreover have "parses_to ''1.23.195.7'' (Ipv4 1 23 195 7) = Some ()" by code_simp
  moreover have "parses_to ''127.42.8.100'' (Ipv4 127 42 8 100) = Some ()" by code_simp
  moreover have "parse_fails ''256.0.0.0'' = Some ()" by code_simp
  moreover have "parse_fails ''192.168.1'' = Some ()" by code_simp
  moreover have "parse_fails ''001.002.003.004'' = Some ()" by code_simp
  ultimately show ?thesis using assms test_prefixes_run
    by (simp add: ipv4_test_addr_parse_def byte_array_from_arena_def)
qed

theorem ipv4_self_test_passes_witness: "ipv4_test_addr_parse (arena_new 4096 4096) = Some ()"
  by (rule ipv4_self_test_passes [of _ 4096 "\<lparr>ar_beg = 4128, ar_end = 8192\<rparr>"])
    (simp add: arena_new_def arena_alloc_def arena_alloc_aligned_def)

end
