(* ===== verification/Checksum.thy ===== *)
theory Checksum
  imports NetAddr
begin

text \<open>
  The internet checksum of src/net/ip.c. The sum is kept in 32 bits, as in the code. The lemmas
  relate the loop to the sum of the 16-bit words of the data modulo \<open>2 ^ 16 - 1\<close>, which is what
  makes the checksum independent of the byte order, and from this follows that data which
  carries its own checksum adds up to zero.
\<close>

fun checksum_loop :: "u32 \<Rightarrow> byte list \<Rightarrow> u32" where
  "checksum_loop acc (b0 # b1 # bs) = checksum_loop (acc + ucast (le_word16 b0 b1)) bs"
| "checksum_loop acc [b] = acc + ucast b"
| "checksum_loop acc [] = acc"

lemma unat_drop16: "unat (drop_bit 16 (x :: u32)) = unat x div 65536"
  by (simp add: unat_drop_bit_eq drop_bit_eq_div unat_div)

lemma and_ffff: "unat ((x :: u32) AND 0xffff) = unat x mod 65536"
proof -
  have m: "(0xffff :: u32) = mask 16" by (simp add: mask_eq_exp_minus_1)
  have "x AND 0xffff = take_bit 16 x" unfolding m by (simp only: take_bit_eq_mask)
  then have "unat (x AND 0xffff) = take_bit 16 (unat x)" by (simp only: unsigned_take_bit_eq)
  then show ?thesis by (simp add: take_bit_eq_mod)
qed

lemma fold_step: "unat ((x AND 0xffff) + drop_bit 16 (x :: u32)) = unat x mod 65536 + unat x div 65536"
proof -
  have "unat x < 2 ^ 32" using unat_bound [of x] by simp
  then have "unat x mod 65536 + unat x div 65536 < 2 ^ 32"
    using mod_less_divisor [of 65536 "unat x"] by linarith
  then show ?thesis by (simp add: unat_word_ariths and_ffff unat_drop16 del: mod_less_divisor)
qed

lemma drop16_zero: "drop_bit 16 (x :: u32) = 0 \<longleftrightarrow> unat x < 65536"
  using unat_drop16 [of x] by (metis div_eq_0_iff unat_eq_zero zero_neq_numeral)

lemma fold_step_less:
  assumes "drop_bit 16 (x :: u32) \<noteq> 0"
  shows "unat ((x AND 0xffff) + drop_bit 16 x) < unat x"
proof -
  have "65536 \<le> unat x" using assms by (simp add: drop16_zero)
  then have "0 < unat x div 65536" by (simp add: div_greater_zero_iff)
  moreover have "unat x = 65536 * (unat x div 65536) + unat x mod 65536" by simp
  ultimately show ?thesis unfolding fold_step by linarith
qed

function checksum_fold :: "u32 \<Rightarrow> u32" where
  "checksum_fold acc =
     (if drop_bit 16 acc = 0 then acc else checksum_fold ((acc AND 0xffff) + drop_bit 16 acc))"
  by pat_completeness auto
termination
  by (relation "measure unat") (simp_all add: fold_step_less)

declare checksum_fold.simps [simp del]

definition internet_checksum_iterate :: "net_u16 \<Rightarrow> byte list \<Rightarrow> net_u16" where
  "internet_checksum_iterate checksum data = ucast (checksum_fold (checksum_loop (ucast checksum) data))"

definition internet_checksum_finalize :: "net_u16 \<Rightarrow> net_u16" where
  "internet_checksum_finalize acc = NOT acc"

definition internet_checksum :: "byte list \<Rightarrow> net_u16" where
  "internet_checksum data =
     internet_checksum_finalize (internet_checksum_iterate (net_u16_from_u16 0) data)"

section \<open>The sum of the words\<close>

fun word_sum :: "byte list \<Rightarrow> nat" where
  "word_sum (b0 # b1 # bs) = unat b0 + 256 * unat b1 + word_sum bs"
| "word_sum [b] = unat b"
| "word_sum [] = 0"

lemma unat_le_word16: "unat (le_word16 b0 b1) = unat b0 + 256 * unat b1"
proof -
  have u: "unat (ucast b :: u16) = unat b" for b :: byte
    using unat_bound [of b] by (simp add: unsigned_ucast_eq take_bit_nat_eq_self)
  have "le_word16 b0 b1 = ucast b0 + push_bit 8 (ucast b1)"
    unfolding le_word16_def by (rule disjunctive_add [symmetric]) (auto simp: bit_simps no_bit_8)
  then have "unat (le_word16 b0 b1) = (unat b0 + 256 * unat b1 mod 65536) mod 65536"
    by (simp add: unat_word_ariths push_bit_eq_mult u mult.commute)
  moreover have "unat b0 + 256 * unat b1 < 65536"
    using unat_bound [of b0] unat_bound [of b1] by simp
  ultimately show ?thesis by simp
qed

lemma word_sum_bound: "word_sum bs \<le> 65535 * length bs"
proof (induction bs rule: word_sum.induct)
  case (1 b0 b1 bs)
  then show ?case using unat_bound [of b0] unat_bound [of b1] by simp
next
  case (2 b)
  then show ?case using unat_bound [of b] by simp
qed simp

lemma unat_checksum_loop:
  "unat s + word_sum bs < 2 ^ 32 \<Longrightarrow> unat (checksum_loop s bs) = unat s + word_sum bs"
proof (induction s bs rule: checksum_loop.induct)
  case (1 s b0 b1 bs)
  have "unat (ucast (le_word16 b0 b1) :: u32) = unat b0 + 256 * unat b1"
    using unat_bound [of "le_word16 b0 b1"]
    by (simp add: unat_le_word16 unsigned_ucast_eq take_bit_nat_eq_self)
  then have "unat (s + ucast (le_word16 b0 b1)) = unat s + unat b0 + 256 * unat b1"
    using "1.prems" by (simp add: unat_word_ariths)
  then show ?case using 1 by simp
next
  case (2 s b)
  have "unat (ucast b :: u32) = unat b"
    using unat_bound [of b] by (simp add: unsigned_ucast_eq take_bit_nat_eq_self)
  then show ?case using 2 by (simp add: unat_word_ariths)
qed simp

text \<open>
  \<open>folds r s\<close>: \<open>r\<close> is a 16-bit one's complement representative of the sum \<open>s\<close>; only the empty
  sum is represented by 0.
\<close>

definition folds :: "nat \<Rightarrow> nat \<Rightarrow> bool" where
  "folds r s \<longleftrightarrow> r < 65536 \<and> r mod 65535 = s mod 65535 \<and> (r = 0 \<longleftrightarrow> s = 0)"

lemma folds_self: "r < 65536 \<Longrightarrow> folds r r"
  by (simp add: folds_def)

lemma folds_add: "folds r s \<Longrightarrow> folds q (r + t) \<Longrightarrow> folds q (s + t)"
  by (auto simp: folds_def) (metis mod_add_left_eq)+

lemma folds_add_right: "folds r s \<Longrightarrow> folds q (t + r) \<Longrightarrow> folds q (t + s)"
  using folds_add [of r s q t] by (simp add: add.commute)

lemma folds_zero: "folds r s \<Longrightarrow> 65535 dvd s \<Longrightarrow> 0 < s \<Longrightarrow> r = 65535"
proof -
  assume a: "folds r s" "65535 dvd s" "0 < s"
  then have "r mod 65535 = 0" "0 < r" "r < 65536" by (auto simp: folds_def)
  then show "r = 65535" by (cases "r < 65535") auto
qed

lemma checksum_fold_folds: "folds (unat (checksum_fold x)) (unat x)"
proof (induction x rule: checksum_fold.induct)
  case (1 x)
  show ?case
  proof (cases "drop_bit 16 x = 0")
    case True
    then show ?thesis by (subst checksum_fold.simps) (simp add: drop16_zero folds_self)
  next
    case False
    let ?y = "(x AND 0xffff) + drop_bit 16 x"
    have e: "unat x = 65536 * (unat x div 65536) + unat x mod 65536" by simp
    have "unat x = unat ?y + 65535 * (unat x div 65536)"
      unfolding fold_step using e by linarith
    then have "unat ?y mod 65535 = unat x mod 65535" by (metis mod_mult_self2)
    moreover have "unat ?y \<noteq> 0" "unat x \<noteq> 0"
      using False e unfolding fold_step by (auto simp: drop16_zero)
    ultimately have "folds (unat (checksum_fold ?y)) (unat x)"
      using 1 [OF False] by (simp add: folds_def)
    then show ?thesis using False by (subst checksum_fold.simps) simp
  qed
qed

lemma checksum_iterate_folds:
  assumes "length bs \<le> 65536"
  shows "folds (unat (internet_checksum_iterate c bs)) (unat c + word_sum bs)"
proof -
  have c: "unat (ucast c :: u32) = unat c"
    using unat_bound [of c] by (simp add: unsigned_ucast_eq take_bit_nat_eq_self)
  have "unat c + word_sum bs < 2 ^ 32" using unat_bound [of c] word_sum_bound [of bs] assms by simp
  then have "unat (checksum_loop (ucast c) bs) = unat c + word_sum bs"
    using unat_checksum_loop [of "ucast c" bs] c by simp
  then have f: "folds (unat (checksum_fold (checksum_loop (ucast c) bs))) (unat c + word_sum bs)"
    using checksum_fold_folds [of "checksum_loop (ucast c) bs"] by simp
  then have "unat (checksum_fold (checksum_loop (ucast c) bs)) < 65536" by (simp add: folds_def)
  then have "unat (internet_checksum_iterate c bs) = unat (checksum_fold (checksum_loop (ucast c) bs))"
    by (simp add: internet_checksum_iterate_def unsigned_ucast_eq take_bit_nat_eq_self)
  then show ?thesis using f by simp
qed

lemma word_sum_append: "even (length as) \<Longrightarrow> word_sum (as @ bs) = word_sum as + word_sum bs"
  by (induction "as" rule: word_sum.induct) simp_all

lemma word_sum_le_bytes16 [simp]: "word_sum (le_bytes16 c) = unat c"
  using unat_le_word16 [of "ucast c" "ucast (drop_bit 8 c)"] by (simp add: le_bytes16_def)

lemma le_bytes16_length [simp]: "length (le_bytes16 c) = 2"
  by (simp add: le_bytes16_def)

lemma le_bytes32_length [simp]: "length (le_bytes32 c) = 4"
  by (simp add: le_bytes32_def)

lemma net_u16_zero [simp]: "net_u16_from_u16 0 = 0"
  by (simp add: net_u16_from_u16_def bswap16_def)

lemma unat_finalize: "unat (internet_checksum_finalize c) = 65535 - unat c"
proof -
  have "NOT c = (-1) - c" by (simp add: not_eq_complement)
  moreover have "unat ((-1) - c) = unat (-1 :: u16) - unat c" by (rule unat_sub) simp
  moreover have "unat (-1 :: u16) = 65535" by (simp add: unsigned_minus_1_eq_mask mask_eq_exp_minus_1)
  ultimately show ?thesis by (simp add: internet_checksum_finalize_def)
qed

lemma folds_complement:
  assumes "folds r s" "folds q (s + (65535 - r))"
  shows "q = 65535"
proof -
  have l: "r < 65536" using assms(1) by (simp add: folds_def)
  have "(s + (65535 - r)) mod 65535 = (r + (65535 - r)) mod 65535"
    using assms(1) unfolding folds_def by (metis mod_add_left_eq)
  also have "\<dots> = 0" using l by simp
  finally have "65535 dvd s + (65535 - r)" by (simp add: mod_eq_0_iff_dvd)
  moreover have "0 < s + (65535 - r)" using assms(1) l by (cases "s = 0") (auto simp: folds_def)
  ultimately show "q = 65535" by (rule folds_zero [OF assms(2)])
qed

text \<open>
  The two-byte field at an even position: with the field zero the sum is \<open>c\<close>, with the
  complement of \<open>c\<close> in the field the sum is \<open>0xffff\<close>.
\<close>

lemma checksum_field:
  assumes "even (length pre)" "length pre + 2 + length post \<le> 65536"
  shows "internet_checksum_iterate c
      (pre @ le_bytes16 (internet_checksum_finalize (internet_checksum_iterate c (pre @ [0, 0] @ post))) @ post) = 0xffff"
proof -
  let ?r = "internet_checksum_iterate c (pre @ [0, 0] @ post)"
  let ?data = "pre @ le_bytes16 (internet_checksum_finalize ?r) @ post"
  define s where "s = unat c + word_sum pre + word_sum post"
  have z: "word_sum (pre @ [0, 0] @ post) = word_sum pre + word_sum post"
    using assms(1) by (simp add: word_sum_append)
  have r: "folds (unat ?r) s"
    using checksum_iterate_folds [of "pre @ [0, 0] @ post" c] assms(2) unfolding z s_def by (simp add: add.assoc)
  have d: "unat c + word_sum ?data = s + (65535 - unat ?r)"
    using assms(1) by (simp add: word_sum_append unat_finalize s_def)
  have q: "folds (unat (internet_checksum_iterate c ?data)) (s + (65535 - unat ?r))"
    using checksum_iterate_folds [of ?data c] assms(2) unfolding d by simp
  have "unat (internet_checksum_iterate c ?data) = 65535" by (rule folds_complement [OF r q])
  then show ?thesis by (simp add: word_unat_eq_iff)
qed

text \<open>
  A sender that zeroes a two-byte checksum field at an even offset, computes the checksum of
  the whole data and stores it there produces data that every receiver accepts: its internet
  checksum is 0. This holds for every content, of even or odd length, up to 64 KiB.
\<close>

theorem internet_checksum_verifies:
  assumes "even (length pre)" and "length pre + 2 + length post \<le> 65536"
  shows "internet_checksum (pre @ le_bytes16 (internet_checksum (pre @ [0, 0] @ post)) @ post) = 0"
  using checksum_field [OF assms, of 0]
  by (simp add: internet_checksum_def internet_checksum_finalize_def)

theorem internet_checksum_verifies_witness:
  "internet_checksum ([8, 0] @ le_bytes16 (internet_checksum ([8, 0] @ [0, 0] @ [0x12, 0xff, 7])) @ [0x12, 0xff, 7]) = 0"
  by (rule internet_checksum_verifies) simp_all

end
