(* ===== verification/Netdev.thy ===== *)
theory Netdev
  imports SendBuf Fifo Checksum
begin

text \<open>
  Network devices (src/net/netdev.c, include/tx/net/netdev.h, include/tx/net/ethernet.h): the
  table of the registered devices, sending through the link layer, and the queue of the received
  packets. The state has type \<open>('d, 'z) net_scheme\<close>: \<open>'d\<close> is the state of the hardware and its
  driver, which only the \<open>send_frame\<close> function of a device changes, and the extensions of the
  record hold the tables of the higher protocols. A device is not changed after it has been
  registered, so that a pointer to it is the record itself.
\<close>

section \<open>State\<close>

type_synonym netdev_proto = u16
type_synonym netdev_link_type = u16

definition NETDEV_PROTO_ARP :: netdev_proto where "NETDEV_PROTO_ARP = 0xaa"
definition NETDEV_PROTO_IPV4 :: netdev_proto where "NETDEV_PROTO_IPV4 = 0x04"
definition NETDEV_LINK_TYPE_ETHERNET :: netdev_link_type where "NETDEV_LINK_TYPE_ETHERNET = 0xe7"

record 'd netdev =
  nd_mac_addr :: mac_addr
  nd_ip_addr :: ipv4_addr
  nd_link_type :: netdev_link_type
  nd_send_frame :: "send_buf \<Rightarrow> 'd \<Rightarrow> (unit res \<times> 'd) option"
  nd_mtu :: sz

record 'd input_packet =
  ip_src :: mac_addr
  ip_netdev :: "'d netdev option"
  ip_proto :: netdev_proto
  ip_n_failed_to_handle :: sz
  ip_data :: byte_buf

definition NETDEV_TABLE_SIZE :: nat where "NETDEV_TABLE_SIZE = 16"
definition NETDEV_INPUT_PACKET_SIZE :: sz where "NETDEV_INPUT_PACKET_SIZE = 2048"
definition NETDEV_INPUT_QUEUE_SIZE :: nat where "NETDEV_INPUT_QUEUE_SIZE = 64"

text \<open>The capacity of a packet buffer: the kernel allocator hands out whole pages.\<close>

definition INPUT_BUF_CAP :: sz where "INPUT_BUF_CAP = 4096"

text \<open>A slot of the device table is \<^term>\<open>None\<close> when its \<open>used\<close> flag is not set.\<close>

record 'd net =
  net_default_ip_addr :: ipv4_addr
  net_table :: "'d netdev option list"
  net_queue :: "'d input_packet list"
  net_queue_head :: nat
  net_queue_tail :: nat
  net_queue_is_initialized :: bool
  net_drv :: 'd

section \<open>Device registration and lookup\<close>

definition netdev_set_default_ip_addr :: "ipv4_addr \<Rightarrow> ('d, 'z) net_scheme \<Rightarrow> ('d, 'z) net_scheme" where
  "netdev_set_default_ip_addr ip_addr s = s\<lparr>net_default_ip_addr := ip_addr\<rparr>"

definition ETHERNET_HEADER_SIZE :: sz where "ETHERNET_HEADER_SIZE = 14"

fun mac_in_table :: "mac_addr \<Rightarrow> 'd netdev option list \<Rightarrow> bool" where
  "mac_in_table m [] = False"
| "mac_in_table m (slot # slots) =
     (case slot of Some d \<Rightarrow> mac_addr_is_equal m (nd_mac_addr d) \<or> mac_in_table m slots
      | None \<Rightarrow> mac_in_table m slots)"

text \<open>The loop that takes the first unused slot.\<close>

fun insert_unused :: "'a \<Rightarrow> 'a option list \<Rightarrow> 'a option list option" where
  "insert_unused d [] = None"
| "insert_unused d (slot # slots) =
     (case slot of None \<Rightarrow> Some (Some d # slots)
      | Some x \<Rightarrow> map_option ((#) (Some x)) (insert_unused d slots))"

definition netdev_register_device ::
  "'d netdev \<Rightarrow> ('d, 'z) net_scheme \<Rightarrow> (unit res \<times> 'd netdev \<times> ('d, 'z) net_scheme) option" where
  "netdev_register_device dev s =
     (let zero = ipv4_addr_new 0 0 0 0 in
      if ipv4_addr_is_equal (net_default_ip_addr s) zero then Some (Inl EINVAL, dev, s)
      else if \<not> ipv4_addr_is_equal (nd_ip_addr dev) zero then Some (Inl EINVAL, dev, s)
      else do {
        let dev = dev\<lparr>nd_ip_addr := net_default_ip_addr s\<rparr>;
        kassert (nd_link_type dev = NETDEV_LINK_TYPE_ETHERNET);
        let dev = dev\<lparr>nd_mtu := max 0 (nd_mtu dev - ETHERNET_HEADER_SIZE)\<rparr>;
        if mac_in_table (nd_mac_addr dev) (net_table s) then Some (Inl EEXIST, dev, s)
        else case insert_unused dev (net_table s) of
          Some t \<Rightarrow> Some (ok, dev, s\<lparr>net_table := t\<rparr>)
        | None \<Rightarrow> Some (Inl ENOMEM, dev, s)
      })"

fun last_match_ip :: "ipv4_addr \<Rightarrow> 'd netdev option list \<Rightarrow> 'd netdev option \<Rightarrow> 'd netdev option" where
  "last_match_ip a [] last_match = last_match"
| "last_match_ip a (slot # slots) last_match =
     last_match_ip a slots
       (case slot of Some d \<Rightarrow> if ipv4_addr_is_equal a (nd_ip_addr d) then Some d else last_match
        | None \<Rightarrow> last_match)"

definition netdev_lookup_ip_addr :: "ipv4_addr \<Rightarrow> ('d, 'z) net_scheme \<Rightarrow> 'd netdev option" where
  "netdev_lookup_ip_addr a s = last_match_ip a (net_table s) None"

fun find_mac :: "mac_addr \<Rightarrow> 'd netdev option list \<Rightarrow> 'd netdev option" where
  "find_mac m [] = None"
| "find_mac m (slot # slots) =
     (case slot of Some d \<Rightarrow> if mac_addr_is_equal m (nd_mac_addr d) then Some d else find_mac m slots
      | None \<Rightarrow> find_mac m slots)"

definition netdev_lookup_mac_addr :: "mac_addr \<Rightarrow> ('d, 'z) net_scheme \<Rightarrow> 'd netdev option" where
  "netdev_lookup_mac_addr m s = find_mac m (net_table s)"

section \<open>Sending\<close>

definition ETHERNET_PTYPE_IPV4 :: u16 where "ETHERNET_PTYPE_IPV4 = 0x0800"
definition ETHERNET_PTYPE_ARP :: u16 where "ETHERNET_PTYPE_ARP = 0x0806"

definition ethernet_type_from_netdev_proto :: "netdev_proto \<Rightarrow> u16 option" where
  "ethernet_type_from_netdev_proto proto =
     (if proto = NETDEV_PROTO_IPV4 then Some ETHERNET_PTYPE_IPV4
      else if proto = NETDEV_PROTO_ARP then Some ETHERNET_PTYPE_ARP
      else None)"

definition netdev_proto_from_ethernet_type :: "u16 \<Rightarrow> netdev_proto option" where
  "netdev_proto_from_ethernet_type type =
     (if type = ETHERNET_PTYPE_IPV4 then Some NETDEV_PROTO_IPV4
      else if type = ETHERNET_PTYPE_ARP then Some NETDEV_PROTO_ARP
      else None)"

record ethernet_frame_header =
  eth_dest :: mac_addr
  eth_src :: mac_addr
  eth_ether_type :: net_u16

definition ethernet_header_bytes :: "ethernet_frame_header \<Rightarrow> byte list" where
  "ethernet_header_bytes h =
     mac_addr_bytes (eth_dest h) @ mac_addr_bytes (eth_src h) @ le_bytes16 (eth_ether_type h)"

text \<open>Reading a structure from the bytes at the start of a view; the callers check the length.\<close>

definition mac_addr_at :: "byte list \<Rightarrow> nat \<Rightarrow> mac_addr" where
  "mac_addr_at bs i = Mac (bs ! i) (bs ! (i+1)) (bs ! (i+2)) (bs ! (i+3)) (bs ! (i+4)) (bs ! (i+5))"

definition ipv4_addr_at :: "byte list \<Rightarrow> nat \<Rightarrow> ipv4_addr" where
  "ipv4_addr_at bs i = Ipv4 (bs ! i) (bs ! (i+1)) (bs ! (i+2)) (bs ! (i+3))"

definition u16_at :: "byte list \<Rightarrow> nat \<Rightarrow> u16" where
  "u16_at bs i = le_word16 (bs ! i) (bs ! (i+1))"

definition u32_at :: "byte list \<Rightarrow> nat \<Rightarrow> u32" where
  "u32_at bs i = le_word32 (bs ! i) (bs ! (i+1)) (bs ! (i+2)) (bs ! (i+3))"

definition ethernet_header_of :: "byte list \<Rightarrow> ethernet_frame_header" where
  "ethernet_header_of bs =
     \<lparr>eth_dest = mac_addr_at bs 0, eth_src = mac_addr_at bs 6, eth_ether_type = u16_at bs 12\<rparr>"

definition netdev_append_link_header ::
  "send_buf \<Rightarrow> nat \<Rightarrow> 'd netdev \<Rightarrow> mac_addr \<Rightarrow> netdev_proto \<Rightarrow> (unit res \<times> send_buf) option" where
  "netdev_append_link_header sb buf netdev dest_mac proto = do {
     kassert (nd_link_type netdev = NETDEV_LINK_TYPE_ETHERNET);
     case ethernet_type_from_netdev_proto proto of
       None \<Rightarrow> Some (Inl EINVAL, sb)
     | Some ether_type \<Rightarrow> do {
         let ether_hdr = \<lparr>eth_dest = dest_mac, eth_src = nd_mac_addr netdev,
           eth_ether_type = net_u16_from_u16 ether_type\<rparr>;
         (n_appended, sb) \<leftarrow> part_append sb buf (ethernet_header_bytes ether_hdr);
         if n_appended \<noteq> ETHERNET_HEADER_SIZE then Some (Inl ENOMEM, sb) else Some (ok, sb)
       }
   }"

definition netdev_send ::
  "mac_addr \<Rightarrow> 'd netdev \<Rightarrow> netdev_proto \<Rightarrow> send_buf \<Rightarrow> ('d, 'z) net_scheme \<Rightarrow>
     (unit res \<times> ('d, 'z) net_scheme) option" where
  "netdev_send dest_mac netdev proto sb s = do {
     kassert (nd_link_type netdev = NETDEV_LINK_TYPE_ETHERNET);
     (buf, sb) \<leftarrow> send_buf_prepend sb ETHERNET_HEADER_SIZE;
     case buf of
       None \<Rightarrow> Some (Inl ENOMEM, s)
     | Some buf \<Rightarrow> do {
         (r, sb) \<leftarrow> netdev_append_link_header sb buf netdev dest_mac proto;
         if is_error r then Some (r, s)
         else do {
           (r, drv) \<leftarrow> nd_send_frame netdev sb (net_drv s);
           Some (r, s\<lparr>net_drv := drv\<rparr>)
         }
       }
   }"

section \<open>The input queue\<close>

definition netdev_intr_input_queue_add ::
  "mac_addr \<Rightarrow> 'd netdev \<Rightarrow> netdev_proto \<Rightarrow> byte list \<Rightarrow> ('d, 'z) net_scheme \<Rightarrow>
     (unit res \<times> ('d, 'z) net_scheme) option" where
  "netdev_intr_input_queue_add src netdev proto data s =
     (if (net_queue_head s + 1) mod NETDEV_INPUT_QUEUE_SIZE = net_queue_tail s then Some (Inl EAGAIN, s)
      else do {
        pkt \<leftarrow> peek (net_queue s) (int (net_queue_head s));
        (_, data) \<leftarrow> byte_buf_append ((ip_data pkt)\<lparr>bb_len := 0\<rparr>) data;
        let pkt = pkt\<lparr>ip_src := src, ip_netdev := Some netdev, ip_proto := proto,
          ip_n_failed_to_handle := 0, ip_data := data\<rparr>;
        queue \<leftarrow> poke (net_queue s) (int (net_queue_head s)) pkt;
        Some (ok, s\<lparr>net_queue := queue, net_queue_head := (net_queue_head s + 1) mod NETDEV_INPUT_QUEUE_SIZE\<rparr>)
      })"

definition netdev_intr_receive_ethernet ::
  "'d netdev \<Rightarrow> byte list \<Rightarrow> ('d, 'z) net_scheme \<Rightarrow> ('d, 'z) net_scheme option" where
  "netdev_intr_receive_ethernet netdev frame s =
     (if int (length frame) < ETHERNET_HEADER_SIZE then Some s
      else
        let ether_hdr = ethernet_header_of frame in
        if \<not> mac_addr_is_equal (eth_dest ether_hdr) (nd_mac_addr netdev) \<and>
            \<not> mac_addr_is_equal (eth_dest ether_hdr) MAC_ADDR_BROADCAST then Some s
        else
          let payload = drop (nat ETHERNET_HEADER_SIZE) frame in
          case netdev_proto_from_ethernet_type (u16_from_net_u16 (eth_ether_type ether_hdr)) of
            None \<Rightarrow> Some s
          | Some proto \<Rightarrow> do {
              (_, s) \<leftarrow> netdev_intr_input_queue_add (eth_src ether_hdr) netdev proto payload s;
              Some s
            })"

definition netdev_intr_receive ::
  "'d netdev \<Rightarrow> byte list \<Rightarrow> ('d, 'z) net_scheme \<Rightarrow> ('d, 'z) net_scheme option" where
  "netdev_intr_receive netdev frame s = do {
     kassert (net_queue_is_initialized s);
     kassert (nd_link_type netdev = NETDEV_LINK_TYPE_ETHERNET);
     netdev_intr_receive_ethernet netdev frame s
   }"

text \<open>A pointer to a packet of the queue is its index.\<close>

definition netdev_get_input :: "('d, 'z) net_scheme \<Rightarrow> nat option option" where
  "netdev_get_input s = do {
     kassert (net_queue_is_initialized s);
     if net_queue_tail s = net_queue_head s then Some None
     else Some (Some (net_queue_tail s))
   }"

definition netdev_release_input :: "nat \<Rightarrow> ('d, 'z) net_scheme \<Rightarrow> ('d, 'z) net_scheme option" where
  "netdev_release_input pkt s = do {
     kassert (net_queue_is_initialized s);
     kassert (pkt = net_queue_tail s);
     if net_queue_tail s = net_queue_head s then Some s
     else Some (s\<lparr>net_queue_tail := (net_queue_tail s + 1) mod NETDEV_INPUT_QUEUE_SIZE\<rparr>)
   }"

section \<open>The registered devices\<close>

definition registered :: "('d, 'z) net_scheme \<Rightarrow> 'd netdev list" where
  "registered s = concat (map (case_option [] (\<lambda>d. [d])) (net_table s))"

text \<open>No two registered devices have the same MAC address.\<close>

definition macs_unique :: "('d, 'z) net_scheme \<Rightarrow> bool" where
  "macs_unique s \<longleftrightarrow> distinct (map nd_mac_addr (registered s))"

lemma mac_in_table_iff:
  "mac_in_table m t \<longleftrightarrow> m \<in> nd_mac_addr ` set (concat (map (case_option [] (\<lambda>d. [d])) t))"
  by (induction t) (auto split: option.splits)

lemma insert_unused_Some:
  "insert_unused d t = Some t' \<Longrightarrow> \<exists>a b. t = a @ None # b \<and> t' = a @ Some d # b \<and> None \<notin> set a"
proof (induction t arbitrary: t')
  case (Cons x t)
  show ?case
  proof (cases x)
    case None
    then show ?thesis using Cons.prems by (fastforce intro: exI [of _ "[]"])
  next
    case (Some e)
    then obtain u where "insert_unused d t = Some u" "t' = Some e # u" using Cons.prems by auto
    then show ?thesis using Cons.IH Some by (metis append_Cons option.distinct(1) set_ConsD)
  qed
qed simp

lemma insert_unused_None: "insert_unused d t = None \<longleftrightarrow> None \<notin> set t"
  by (induction t) (auto split: option.splits)

lemma find_mac_Some: "find_mac m t = Some d \<Longrightarrow> nd_mac_addr d = m \<and> Some d \<in> set t"
  by (induction t) (auto split: option.splits if_splits)

lemma find_mac_unique:
  "distinct (map nd_mac_addr (concat (map (case_option [] (\<lambda>d. [d])) t))) \<Longrightarrow> Some d \<in> set t \<Longrightarrow>
     find_mac (nd_mac_addr d) t = Some d"
proof (induction t)
  case (Cons x t)
  have in_t: "d \<in> set (concat (map (case_option [] (\<lambda>d. [d])) t))" if "Some d \<in> set t"
    using that by (auto intro: bexI [of _ "Some d"])
  show ?case
  proof (cases x)
    case None
    then show ?thesis using Cons by simp
  next
    case (Some e)
    show ?thesis
    proof (cases "e = d")
      case False
      then have "Some d \<in> set t" using Cons.prems(2) Some by simp
      moreover from in_t [OF this] have "nd_mac_addr e \<noteq> nd_mac_addr d"
        using Cons.prems(1) Some by (auto simp: image_iff)
      ultimately show ?thesis using Cons Some by simp
    qed (simp add: Some)
  qed
qed simp

lemma find_mac_None: "find_mac m t = None \<longleftrightarrow> \<not> mac_in_table m t"
  by (induction t) (auto split: option.splits)

lemma last_match_ip_spec:
  "last_match_ip a t l = (case filter (\<lambda>x. \<exists>d. x = Some d \<and> nd_ip_addr d = a) t of [] \<Rightarrow> l | ms \<Rightarrow> last ms)"
proof (induction t arbitrary: l)
  case (Cons x t)
  then show ?case by (cases x) (auto split: list.splits)
qed simp

text \<open>
  Registering devices keeps the MAC addresses in the table unique, and a registration that
  succeeds adds exactly the device, with the default IP address and the MTU without the link
  header, so that the lookup by its MAC address finds it. A registration that fails changes
  nothing in the table.
\<close>

theorem netdev_register_device_unique:
  assumes "netdev_register_device dev s = Some (r, dev', s')" and "macs_unique s"
  shows "macs_unique s' \<and>
    (case r of Inl _ \<Rightarrow> net_table s' = net_table s
     | Inr _ \<Rightarrow> nd_ip_addr dev' = net_default_ip_addr s \<and> nd_mac_addr dev' = nd_mac_addr dev \<and>
         nd_mtu dev' = max 0 (nd_mtu dev - 14) \<and> set (registered s') = insert dev' (set (registered s)) \<and>
         netdev_lookup_mac_addr (nd_mac_addr dev) s' = Some dev')"
proof (cases r)
  case (Inl e)
  then have "net_table s' = net_table s"
    using assms(1) by (auto simp: netdev_register_device_def kern bind_eq_Some_conv Let_def split: if_splits option.splits)
  then show ?thesis using Inl assms(2) by (simp add: macs_unique_def registered_def)
next
  case (Inr u)
  then obtain t where
    t: "\<not> mac_in_table (nd_mac_addr dev) (net_table s)" "insert_unused dev' (net_table s) = Some t"
      "s' = s\<lparr>net_table := t\<rparr>" and
    d: "dev' = dev\<lparr>nd_ip_addr := net_default_ip_addr s, nd_mtu := max 0 (nd_mtu dev - 14)\<rparr>"
    using assms(1) by (auto simp: netdev_register_device_def ETHERNET_HEADER_SIZE_def kern bind_eq_Some_conv
        Let_def split: if_splits option.splits)
  obtain a b where ab: "net_table s = a @ None # b" "t = a @ Some dev' # b"
    using insert_unused_Some [OF t(2)] by blast
  have m: "nd_mac_addr dev' = nd_mac_addr dev" by (simp add: d)
  have u: "distinct (map nd_mac_addr (concat (map (case_option [] (\<lambda>d. [d])) t)))"
    using assms(2) t(1) unfolding mac_in_table_iff macs_unique_def registered_def ab by (auto simp: m)
  moreover have "find_mac (nd_mac_addr dev') t = Some dev'" using u by (rule find_mac_unique) (simp add: ab)
  ultimately show ?thesis using Inr t(3) ab m d
    by (auto simp: macs_unique_def registered_def netdev_lookup_mac_addr_def)
qed

definition sample_dev :: "byte list netdev" where
  "sample_dev = \<lparr>nd_mac_addr = Mac 2 0 0 0 0 1, nd_ip_addr = Ipv4 0 0 0 0,
     nd_link_type = NETDEV_LINK_TYPE_ETHERNET, nd_send_frame = (\<lambda>sb d. Some (ok, d @ sb_content sb)), nd_mtu = 1514\<rparr>"

definition sample_queue :: "byte list input_packet list" where
  "sample_queue = replicate NETDEV_INPUT_QUEUE_SIZE \<lparr>ip_src = Mac 0 0 0 0 0 0, ip_netdev = None, ip_proto = 0,
     ip_n_failed_to_handle = 0, ip_data = byte_buf_from_array (replicate 4096 0)\<rparr>"

definition sample_net :: "byte list net" where
  "sample_net = \<lparr>net_default_ip_addr = Ipv4 10 0 0 2, net_table = replicate NETDEV_TABLE_SIZE None,
     net_queue = sample_queue, net_queue_head = 0, net_queue_tail = 0, net_queue_is_initialized = True, net_drv = []\<rparr>"

lemma replicate_table: "replicate NETDEV_TABLE_SIZE None = None # replicate 15 None"
  by (simp add: NETDEV_TABLE_SIZE_def eval_nat_numeral)

lemma concat_replicate_empty [simp]: "concat (replicate n []) = []"
  by (induction n) simp_all

theorem netdev_register_device_unique_witness:
  "let dev' = sample_dev\<lparr>nd_ip_addr := Ipv4 10 0 0 2, nd_mtu := 1500\<rparr>;
       s' = sample_net\<lparr>net_table := Some dev' # replicate 15 None\<rparr> in
   macs_unique s' \<and>
    (case ok of Inl _ \<Rightarrow> net_table s' = net_table sample_net
     | Inr _ \<Rightarrow> nd_ip_addr dev' = net_default_ip_addr sample_net \<and> nd_mac_addr dev' = nd_mac_addr sample_dev \<and>
         nd_mtu dev' = max 0 (nd_mtu sample_dev - 14) \<and> set (registered s') = insert dev' (set (registered sample_net)) \<and>
         netdev_lookup_mac_addr (nd_mac_addr sample_dev) s' = Some dev')"
  unfolding Let_def
  by (rule netdev_register_device_unique)
    (simp_all add: sample_dev_def sample_net_def netdev_register_device_def ipv4_addr_new_def
      replicate_table mac_in_table_iff Let_def ETHERNET_HEADER_SIZE_def macs_unique_def registered_def)

section \<open>The input queue is a bounded queue\<close>

text \<open>
  The abstract queue: sender, device, protocol and data of the packets between tail and head. One
  slot always stays free, and data that is larger than a packet buffer is cut off.
\<close>

type_synonym 'd rx = "mac_addr \<times> 'd netdev \<times> netdev_proto \<times> byte list"

definition rx_of :: "'d input_packet \<Rightarrow> 'd rx" where
  "rx_of pkt = (ip_src pkt, the (ip_netdev pkt), ip_proto pkt, byte_view_from_buf (ip_data pkt))"

definition queue_used :: "('d, 'z) net_scheme \<Rightarrow> nat" where
  "queue_used s = (net_queue_head s + NETDEV_INPUT_QUEUE_SIZE - net_queue_tail s) mod NETDEV_INPUT_QUEUE_SIZE"

definition queue_items :: "('d, 'z) net_scheme \<Rightarrow> 'd rx list" where
  "queue_items s = map rx_of (ring_items (net_queue s) (net_queue_tail s) (queue_used s))"

definition wf_queue :: "('d, 'z) net_scheme \<Rightarrow> bool" where
  "wf_queue s \<longleftrightarrow> net_queue_is_initialized s \<and> length (net_queue s) = NETDEV_INPUT_QUEUE_SIZE \<and>
     net_queue_head s < NETDEV_INPUT_QUEUE_SIZE \<and> net_queue_tail s < NETDEV_INPUT_QUEUE_SIZE \<and>
     (\<forall>pkt \<in> set (net_queue s). wf_buf (ip_data pkt) \<and> bb_cap (ip_data pkt) = INPUT_BUF_CAP)"

fun rx_stored :: "'d rx \<Rightarrow> 'd rx" where
  "rx_stored (src, dev, proto, data) = (src, dev, proto, take (nat INPUT_BUF_CAP) data)"

lemma queue_arith:
  assumes "(h :: nat) < 64" "t < 64"
  shows "(t + (h + 64 - t) mod 64) mod 64 = h" "(h + 1) mod 64 = t \<longleftrightarrow> (h + 64 - t) mod 64 = 63"
    "(h + 1) mod 64 \<noteq> t \<Longrightarrow> ((h + 1) mod 64 + 64 - t) mod 64 = Suc ((h + 64 - t) mod 64)"
    "t = h \<longleftrightarrow> (h + 64 - t) mod 64 = 0"
    "t \<noteq> h \<Longrightarrow> (h + 64 - t) mod 64 = Suc ((h + 64 - (t + 1) mod 64) mod 64)"
proof -
  have m: "n mod 64 = (if n < 64 then n else n - 64)" if "n < 128" for n :: nat
    using that by (simp add: mod_if)
  show "(t + (h + 64 - t) mod 64) mod 64 = h" "(h + 1) mod 64 = t \<longleftrightarrow> (h + 64 - t) mod 64 = 63"
    "(h + 1) mod 64 \<noteq> t \<Longrightarrow> ((h + 1) mod 64 + 64 - t) mod 64 = Suc ((h + 64 - t) mod 64)"
    "t = h \<longleftrightarrow> (h + 64 - t) mod 64 = 0"
    "t \<noteq> h \<Longrightarrow> (h + 64 - t) mod 64 = Suc ((h + 64 - (t + 1) mod 64) mod 64)"
    using assms by (auto simp: m split: if_splits)
qed

text \<open>The slot at the head after a packet was stored in it.\<close>

abbreviation stored_packet :: "mac_addr \<Rightarrow> 'd netdev \<Rightarrow> netdev_proto \<Rightarrow> byte_buf \<Rightarrow> ('d, 'z) net_scheme \<Rightarrow> 'd input_packet" where
  "stored_packet src dev proto d s \<equiv> (net_queue s ! net_queue_head s)\<lparr>ip_src := src, ip_netdev := Some dev,
     ip_proto := proto, ip_n_failed_to_handle := 0, ip_data := d\<rparr>"

abbreviation queue_with :: "'d input_packet \<Rightarrow> ('d, 'z) net_scheme \<Rightarrow> ('d, 'z) net_scheme" where
  "queue_with pkt s \<equiv> s\<lparr>net_queue := (net_queue s)[net_queue_head s := pkt], net_queue_head := (net_queue_head s + 1) mod 64\<rparr>"

lemma queue_add_state:
  assumes "wf_queue s" "queue_used s < 63"
  shows "\<exists>d. netdev_intr_input_queue_add src dev proto data s = Some (ok, queue_with (stored_packet src dev proto d s) s) \<and>
    wf_buf d \<and> bb_cap d = 4096 \<and> byte_view_from_buf d = take 4096 data"
proof -
  let ?h = "net_queue_head s" and ?t = "net_queue_tail s"
  have b: "?h < 64" "?t < 64" "length (net_queue s) = 64"
    using assms(1) by (auto simp: wf_queue_def NETDEV_INPUT_QUEUE_SIZE_def)
  have nf: "(?h + 1) mod 64 \<noteq> ?t"
    using assms(2) queue_arith(2) [OF b(1,2)] by (simp add: queue_used_def NETDEV_INPUT_QUEUE_SIZE_def)
  have pk: "wf_buf (ip_data (net_queue s ! ?h))" "bb_cap (ip_data (net_queue s ! ?h)) = 4096"
    using assms(1) b by (auto simp: wf_queue_def INPUT_BUF_CAP_def)
  let ?d0 = "(ip_data (net_queue s ! ?h))\<lparr>bb_len := 0\<rparr>"
  have "wf_buf ?d0" using pk by (auto simp: wf_buf_def)
  from byte_buf_append_ok [OF this, of data] obtain d n where
    "byte_buf_append ?d0 data = Some (n, d)" "wf_buf d" "bb_cap d = 4096" "byte_view_from_buf d = take 4096 data"
    using pk by (auto simp: byte_view_from_buf_def)
  then show ?thesis using b nf
    by (intro exI [of _ d]) (simp add: netdev_intr_input_queue_add_def NETDEV_INPUT_QUEUE_SIZE_def)
qed

lemma queue_add_ok:
  assumes "wf_queue s" "queue_used s < 63"
  shows "\<exists>s'. netdev_intr_input_queue_add src dev proto data s = Some (ok, s') \<and> wf_queue s' \<and>
    queue_items s' = queue_items s @ [rx_stored (src, dev, proto, data)]"
proof -
  let ?h = "net_queue_head s" and ?t = "net_queue_tail s"
  have b: "?h < 64" "?t < 64" "length (net_queue s) = 64"
    using assms(1) by (auto simp: wf_queue_def NETDEV_INPUT_QUEUE_SIZE_def)
  have nf: "(?h + 1) mod 64 \<noteq> ?t"
    using assms(2) queue_arith(2) [OF b(1,2)] by (simp add: queue_used_def NETDEV_INPUT_QUEUE_SIZE_def)
  obtain d where d: "netdev_intr_input_queue_add src dev proto data s = Some (ok, queue_with (stored_packet src dev proto d s) s)"
    "wf_buf d" "bb_cap d = 4096" "byte_view_from_buf d = take 4096 data" using queue_add_state [OF assms] by blast
  let ?p = "stored_packet src dev proto d s"
  let ?s = "queue_with ?p s"
  have used: "queue_used ?s = Suc (queue_used s)"
    using queue_arith(3) [OF b(1,2) nf] by (simp add: queue_used_def NETDEV_INPUT_QUEUE_SIZE_def)
  have hd: "?h = (?t + queue_used s) mod length (net_queue s)"
    using queue_arith(1) [OF b(1,2)] b(3) by (simp add: queue_used_def NETDEV_INPUT_QUEUE_SIZE_def)
  have "queue_used s < length (net_queue s)" using assms(2) b by simp
  then have "ring_items ((net_queue s)[?h := ?p]) ?t (Suc (queue_used s)) =
      ring_items (net_queue s) ?t (queue_used s) @ [?p]"
    using ring_items_put [of "queue_used s" "net_queue s" ?t ?p] hd by simp
  then have it: "queue_items ?s = queue_items s @ [rx_stored (src, dev, proto, data)]"
    using d(4) unfolding queue_items_def used by (simp add: rx_of_def INPUT_BUF_CAP_def)
  have "wf_queue ?s" using assms(1) d b
    by (auto simp: wf_queue_def NETDEV_INPUT_QUEUE_SIZE_def INPUT_BUF_CAP_def
        dest!: set_update_subset_insert [THEN subsetD])
  then show ?thesis using d(1) it by auto
qed

lemma queue_add_full:
  assumes "wf_queue s" "queue_used s = 63"
  shows "netdev_intr_input_queue_add src dev proto data s = Some (Inl EAGAIN, s)"
proof -
  have b: "net_queue_head s < 64" "net_queue_tail s < 64"
    using assms(1) by (auto simp: wf_queue_def NETDEV_INPUT_QUEUE_SIZE_def)
  show ?thesis using queue_arith(2) [OF b] assms(2)
    by (simp add: queue_used_def NETDEV_INPUT_QUEUE_SIZE_def netdev_intr_input_queue_add_def)
qed

lemma queue_used_bound: "wf_queue s \<Longrightarrow> queue_used s \<le> 63"
  by (simp add: queue_used_def NETDEV_INPUT_QUEUE_SIZE_def)

lemma queue_items_length [simp]: "length (queue_items s) = queue_used s"
  by (simp add: queue_items_def)

lemma queue_head_item:
  assumes "wf_queue s" "queue_items s = x # xs"
  shows "netdev_get_input s = Some (Some (net_queue_tail s))" "peek (net_queue s) (int (net_queue_tail s)) = Some (net_queue s ! net_queue_tail s)"
    "rx_of (net_queue s ! net_queue_tail s) = x"
    "\<exists>s'. netdev_release_input (net_queue_tail s) s = Some s' \<and> wf_queue s' \<and> queue_items s' = xs"
proof -
  let ?h = "net_queue_head s" and ?t = "net_queue_tail s"
  have b: "?h < 64" "?t < 64" "length (net_queue s) = 64"
    using assms(1) by (auto simp: wf_queue_def NETDEV_INPUT_QUEUE_SIZE_def)
  have "queue_used s \<noteq> 0" using assms(2) by (metis queue_items_length length_0_conv list.distinct(1))
  then have ne: "?t \<noteq> ?h"
    using queue_arith(4) [OF b(1,2)] by (simp add: queue_used_def NETDEV_INPUT_QUEUE_SIZE_def)
  let ?s = "s\<lparr>net_queue_tail := (?t + 1) mod 64\<rparr>"
  have u: "queue_used s = Suc (queue_used ?s)"
    using queue_arith(5) [OF b(1,2) ne] by (simp add: queue_used_def NETDEV_INPUT_QUEUE_SIZE_def)
  have q: "net_queue s \<noteq> []" using b by auto
  have i: "queue_items s = rx_of (net_queue s ! ?t) # queue_items ?s"
    using ring_items_get [OF q, of ?t "queue_used ?s"] b by (simp add: queue_items_def u)
  then show "rx_of (net_queue s ! ?t) = x" using assms(2) by simp
  show "netdev_get_input s = Some (Some ?t)" "peek (net_queue s) (int ?t) = Some (net_queue s ! ?t)"
    using assms(1) ne b by (auto simp: netdev_get_input_def wf_queue_def)
  have "wf_queue ?s" using assms(1) by (simp add: wf_queue_def NETDEV_INPUT_QUEUE_SIZE_def)
  moreover have "netdev_release_input ?t s = Some ?s"
    using assms(1) ne by (auto simp: netdev_release_input_def wf_queue_def NETDEV_INPUT_QUEUE_SIZE_def)
  moreover have "queue_items ?s = xs" using i assms(2) by simp
  ultimately show "\<exists>s'. netdev_release_input ?t s = Some s' \<and> wf_queue s' \<and> queue_items s' = xs" by blast
qed

lemma queue_empty:
  assumes "wf_queue s" "queue_items s = []"
  shows "netdev_get_input s = Some None"
proof -
  have b: "net_queue_head s < 64" "net_queue_tail s < 64"
    using assms(1) by (auto simp: wf_queue_def NETDEV_INPUT_QUEUE_SIZE_def)
  have "queue_used s = 0" using assms(2) by (metis queue_items_length list.size(3))
  then have "net_queue_tail s = net_queue_head s"
    using queue_arith(4) [OF b] by (simp add: queue_used_def NETDEV_INPUT_QUEUE_SIZE_def)
  then show ?thesis using assms(1) by (simp add: netdev_get_input_def wf_queue_def)
qed

text \<open>Counting a failed attempt changes nothing that the queue holds.\<close>

lemma queue_count_failure:
  fixes n
  assumes "wf_queue s" "i < length (net_queue s)"
  defines "s' \<equiv> s\<lparr>net_queue := (net_queue s)[i := (net_queue s ! i)\<lparr>ip_n_failed_to_handle := n\<rparr>]\<rparr>"
  shows "wf_queue s'" "queue_items s' = queue_items s"
proof -
  have "\<forall>pkt \<in> set (net_queue s'). wf_buf (ip_data pkt) \<and> bb_cap (ip_data pkt) = INPUT_BUF_CAP"
    using assms(1,2) by (auto simp: s'_def wf_queue_def dest!: set_update_subset_insert [THEN subsetD])
  then show "wf_queue s'" using assms(1) by (simp add: wf_queue_def s'_def)
  have "rx_of ((net_queue s)[i := (net_queue s ! i)\<lparr>ip_n_failed_to_handle := n\<rparr>] ! j) = rx_of (net_queue s ! j)" for j
    using assms(2) by (cases "j = i") (simp_all add: rx_of_def)
  then show "queue_items s' = queue_items s"
    by (simp add: queue_items_def queue_used_def s'_def ring_items_def)
qed

text \<open>
  The steps of the two sides. A receive interrupt can come between any two steps of the receiving task: \<open>netdev_get_input\<close> and
  \<open>netdev_release_input\<close> read and write the indices with interrupts disabled, but between them the task handles the packet in its slot with
  interrupts enabled. The task without a packet calls \<open>netdev_get_input\<close>; with one (its slot, and what it read there when it got it)
  it gives the packet back when it is done, or counts a failed attempt and looks again (\<open>task_net_receive\<close> in src/init.c). A run returns
  what arrived, with the number of waiting packets and whether it was accepted, and the packets that were given back, as they were read
  at first and as they are in their slot at the end.
\<close>

datatype 'd queue_step = Interrupt "'d rx" | Task bool

fun queue_run :: "'d queue_step list \<Rightarrow> (nat \<times> 'd rx) option \<Rightarrow> ('d, 'z) net_scheme \<Rightarrow>
    ((nat \<times> 'd rx \<times> bool) list \<times> ('d rx \<times> 'd rx) list \<times> (nat \<times> 'd rx) option \<times> ('d, 'z) net_scheme) option" where
  "queue_run [] held s = Some ([], [], held, s)"
| "queue_run (Interrupt (src, dev, proto, data) # ops) held s = do {
     (r, s') \<leftarrow> netdev_intr_input_queue_add src dev proto data s;
     (arrived, outs, held, s'') \<leftarrow> queue_run ops held s';
     Some ((length (queue_items s), (src, dev, proto, data), \<not> is_error r) # arrived, outs, held, s'')
   }"
| "queue_run (Task handled # ops) None s = do {
     p \<leftarrow> netdev_get_input s;
     case p of
       None \<Rightarrow> queue_run ops None s
     | Some i \<Rightarrow> do {
         pkt \<leftarrow> peek (net_queue s) (int i);
         queue_run ops (Some (i, rx_of pkt)) s
       }
   }"
| "queue_run (Task handled # ops) (Some (i, seen)) s = do {
     pkt \<leftarrow> peek (net_queue s) (int i);
     if handled then do {
       s \<leftarrow> netdev_release_input i s;
       (arrived, outs, held, s) \<leftarrow> queue_run ops None s;
       Some (arrived, (seen, rx_of pkt) # outs, held, s)
     }
     else do {
       queue \<leftarrow> poke (net_queue s) (int i) (pkt\<lparr>ip_n_failed_to_handle := ip_n_failed_to_handle pkt + 1\<rparr>);
       queue_run ops None (s\<lparr>net_queue := queue\<rparr>)
     }
   }"

definition accepted :: "(nat \<times> 'd rx \<times> bool) list \<Rightarrow> 'd rx list" where
  "accepted arrived = map (\<lambda>(n, p, b). rx_stored p) (filter (\<lambda>(n, p, b). b) arrived)"

lemma accepted_Cons: "accepted ((n, p, b) # as) = (if b then rx_stored p # accepted as else accepted as)"
  by (simp add: accepted_def)

text \<open>The packet that the task holds is the oldest one, and it is as the task has read it.\<close>

definition held_ok :: "(nat \<times> 'd rx) option \<Rightarrow> ('d, 'z) net_scheme \<Rightarrow> bool" where
  "held_ok held s \<longleftrightarrow> (case held of None \<Rightarrow> True | Some (i, seen) \<Rightarrow> i = net_queue_tail s \<and> (\<exists>xs. queue_items s = seen # xs))"

lemma queue_run_fifo:
  "wf_queue s \<Longrightarrow> held_ok held s \<Longrightarrow> \<exists>arrived outs held' s'. queue_run ops held s = Some (arrived, outs, held', s') \<and>
     wf_queue s' \<and> held_ok held' s' \<and> (\<forall>(n, p, b) \<in> set arrived. b \<longleftrightarrow> n < 63) \<and> (\<forall>(p, q) \<in> set outs. q = p) \<and>
     queue_items s @ accepted arrived = map fst outs @ queue_items s'"
proof (induction ops arbitrary: held s)
  case Nil
  then show ?case by (simp add: accepted_def)
next
  case (Cons op ops)
  show ?case
  proof (cases op)
    case (Interrupt p)
    obtain src dev proto data where p: "p = (src, dev, proto, data)" by (cases p)
    show ?thesis
    proof (cases "queue_used s < 63")
      case True
      obtain s1 where s1: "netdev_intr_input_queue_add src dev proto data s = Some (ok, s1)" "wf_queue s1"
        "queue_items s1 = queue_items s @ [rx_stored p]" using queue_add_ok [OF Cons.prems(1) True] p by blast
      have "net_queue_tail s1 = net_queue_tail s"
        using queue_add_state [OF Cons.prems(1) True, of src dev proto data] s1(1) by auto
      then have "held_ok held s1" using Cons.prems(2) s1(3) by (auto simp: held_ok_def split: option.splits)
      then show ?thesis using Cons.IH [OF s1(2)] s1(1,3) True by (fastforce simp: Interrupt p accepted_Cons)
    next
      case False
      then have "queue_used s = 63" using queue_used_bound [OF Cons.prems(1)] by simp
      from queue_add_full [OF Cons.prems(1) this]
      show ?thesis using Cons.IH [OF Cons.prems] False by (fastforce simp: Interrupt p accepted_Cons)
    qed
  next
    case (Task handled)
    show ?thesis
    proof (cases held)
      case None
      show ?thesis
      proof (cases "queue_items s")
        case Nil
        then show ?thesis using queue_empty [OF Cons.prems(1)] Cons.IH [OF Cons.prems(1), of None]
          by (simp add: Task None held_ok_def)
      next
        case i: (Cons x xs)
        note h = queue_head_item [OF Cons.prems(1) i]
        have "held_ok (Some (net_queue_tail s, x)) s" using i by (simp add: held_ok_def)
        then show ?thesis using Cons.IH [OF Cons.prems(1)] h(1-3) by (simp add: Task None)
      qed
    next
      case (Some h)
      obtain seen xs where h: "h = (net_queue_tail s, seen)" "queue_items s = seen # xs"
        using Cons.prems(2) Some by (cases h) (auto simp: held_ok_def)
      let ?t = "net_queue_tail s"
      note hd = queue_head_item [OF Cons.prems(1) h(2)]
      have free: "held_ok None s" for s :: "('a, 'b) net_scheme" by (simp add: held_ok_def)
      show ?thesis
      proof (cases handled)
        case True
        obtain s1 where s1: "netdev_release_input ?t s = Some s1" "wf_queue s1" "queue_items s1 = xs" using hd(4) by blast
        obtain arrived outs held' s2 where r: "queue_run ops None s1 = Some (arrived, outs, held', s2)" "wf_queue s2" "held_ok held' s2"
          "\<forall>(n, p, b) \<in> set arrived. b \<longleftrightarrow> n < 63" "\<forall>(p, q) \<in> set outs. q = p"
          "xs @ accepted arrived = map fst outs @ queue_items s2"
          using Cons.IH [OF s1(2) free] s1(3) by auto
        have "queue_run (op # ops) held s = Some (arrived, (seen, seen) # outs, held', s2)"
          using hd(2,3) s1(1) r(1) by (simp add: Task Some h(1) True)
        then show ?thesis using r(2-6) h(2) by (intro exI conjI) (assumption | simp)+
      next
        case False
        have t: "?t < length (net_queue s)" using Cons.prems(1) by (simp add: wf_queue_def)
        note c = queue_count_failure [OF Cons.prems(1) t, of "ip_n_failed_to_handle (net_queue s ! ?t) + 1"]
        have "queue_run (op # ops) held s = queue_run ops None
            (s\<lparr>net_queue := (net_queue s)[?t := (net_queue s ! ?t)\<lparr>ip_n_failed_to_handle := ip_n_failed_to_handle (net_queue s ! ?t) + 1\<rparr>]\<rparr>)"
          using hd(2) t by (simp add: Task Some h(1) False)
        then show ?thesis using Cons.IH [OF c(1) free] c(2) by simp
      qed
    qed
  qed
qed

text \<open>
  C39: The input queue under every interleaving of receive interrupts with the steps of the receiving task, in particular with
  interrupts while the task is working on a packet. No assertion fails: the packet that is given back is the one that was handed
  out. Between the two the packet keeps its contents. An arriving packet is refused only if 63 packets wait already. The packets
  that were waiting and those that were accepted, with the data that fits into the buffer of a packet, are in this order the packets that were given back and those that still wait; a packet
  whose handling failed is handed out again.
\<close>

theorem input_queue_fifo:
  assumes "wf_queue s"
  shows "\<exists>arrived outs held s'. queue_run ops None s = Some (arrived, outs, held, s') \<and> wf_queue s' \<and> held_ok held s' \<and>
    (\<forall>(n, p, b) \<in> set arrived. b \<longleftrightarrow> n < 63) \<and> (\<forall>(p, q) \<in> set outs. q = p) \<and>
    queue_items s @ accepted arrived = map fst outs @ queue_items s'"
  by (rule queue_run_fifo [OF assms]) (simp add: held_ok_def)

lemma sample_net_wf: "wf_queue sample_net"
  by (auto simp: wf_queue_def sample_net_def sample_queue_def NETDEV_INPUT_QUEUE_SIZE_def INPUT_BUF_CAP_def)

theorem input_queue_fifo_witness:
  "\<exists>arrived outs held s'.
      queue_run [Interrupt (Mac 2 0 0 0 0 9, sample_dev, NETDEV_PROTO_ARP, [1, 2]), Task True,
        Interrupt (Mac 2 0 0 0 0 7, sample_dev, NETDEV_PROTO_ARP, [3]), Task False, Task True, Task True] None sample_net =
      Some (arrived, outs, held, s') \<and> wf_queue s' \<and> held_ok held s' \<and>
    (\<forall>(n, p, b) \<in> set arrived. b \<longleftrightarrow> n < 63) \<and> (\<forall>(p, q) \<in> set outs. q = p) \<and>
    queue_items sample_net @ accepted arrived = map fst outs @ queue_items s'"
  by (rule input_queue_fifo [OF sample_net_wf])

section \<open>Frames on the link\<close>

lemma mac_addr_at_bytes: "mac_addr_at (mac_addr_bytes m @ rest) 0 = m"
  by (cases m) (simp add: mac_addr_at_def nth_Cons')

lemma mac_addr_bytes_nth:
  "mac_addr_bytes m = [a0, a1, a2, a3, a4, a5] \<longleftrightarrow> m = Mac a0 a1 a2 a3 a4 a5"
  by (cases m) auto

lemma u16_at_le_bytes16: "length pre = i \<Longrightarrow> u16_at (pre @ le_bytes16 x @ rest) i = x"
  by (auto simp: u16_at_def le_bytes16_def nth_append)

lemma u32_at_le_bytes32: "length pre = i \<Longrightarrow> u32_at (pre @ le_bytes32 x @ rest) i = x"
  by (auto simp: u32_at_def le_bytes32_def nth_append nth_Cons')

lemma ipv4_addr_at_bytes: "length pre = i \<Longrightarrow> ipv4_addr_at (pre @ ipv4_addr_bytes a @ rest) i = a"
  by (cases a) (auto simp: ipv4_addr_at_def nth_append nth_Cons')

lemma mac_addr_at_prefix: "length pre = i \<Longrightarrow> mac_addr_at (pre @ mac_addr_bytes m @ rest) i = m"
  by (cases m) (auto simp: mac_addr_at_def nth_append nth_Cons')

lemma ethernet_header_bytes_length [simp]: "length (ethernet_header_bytes h) = 14"
  by (simp add: ethernet_header_bytes_def)

lemma ethernet_header_roundtrip [simp]: "ethernet_header_of (ethernet_header_bytes h @ rest) = h"
  using mac_addr_at_prefix [of "[]" 0 "eth_dest h"] mac_addr_at_prefix [of "mac_addr_bytes (eth_dest h)" 6 "eth_src h"]
    u16_at_le_bytes16 [of "mac_addr_bytes (eth_dest h) @ mac_addr_bytes (eth_src h)" 12]
  by (simp add: ethernet_header_of_def ethernet_header_bytes_def)

lemma proto_roundtrip:
  "ethernet_type_from_netdev_proto proto = Some t \<Longrightarrow> netdev_proto_from_ethernet_type t = Some proto"
  by (auto simp: ethernet_type_from_netdev_proto_def netdev_proto_from_ethernet_type_def
      ETHERNET_PTYPE_IPV4_def ETHERNET_PTYPE_ARP_def split: if_splits)

text \<open>
  Sending on a device: the driver gets the frame whose content is the link header followed by
  what the protocols above have put into the send buffer.
\<close>

definition frame_to :: "mac_addr \<Rightarrow> 'd netdev \<Rightarrow> u16 \<Rightarrow> byte list \<Rightarrow> byte list" where
  "frame_to dest_mac netdev t payload =
     ethernet_header_bytes \<lparr>eth_dest = dest_mac, eth_src = nd_mac_addr netdev, eth_ether_type = net_u16_from_u16 t\<rparr> @ payload"

lemma netdev_send_frame:
  assumes "wf_sb sb" "sb_n_used sb < 8" "arena_alloc (sb_arn sb) 14 = Some (a, arn')"
    and "nd_link_type netdev = NETDEV_LINK_TYPE_ETHERNET" "ethernet_type_from_netdev_proto proto = Some t"
  shows "\<exists>sb'. wf_sb sb' \<and> sb_content sb' = frame_to dest_mac netdev t (sb_content sb) \<and>
    netdev_send dest_mac netdev proto sb s =
      map_option (\<lambda>(r, drv). (r, s\<lparr>net_drv := drv\<rparr>)) (nd_send_frame netdev sb' (net_drv s))"
proof -
  let ?hdr = "\<lparr>eth_dest = dest_mac, eth_src = nd_mac_addr netdev, eth_ether_type = net_u16_from_u16 t\<rparr>"
  let ?i = "sb_n_used sb"
  obtain sb1 where sb1: "send_buf_prepend sb 14 = Some (Some ?i, sb1)" "wf_sb sb1" "sb_n_used sb1 = Suc ?i"
    "take ?i (sb_parts sb1) = take ?i (sb_parts sb)" "sb_parts sb1 ! ?i = byte_buf_from_array (replicate 14 0)"
    using send_buf_prepend_ok [of sb 14 a arn'] assms by (auto simp: SEND_BUF_NUM_PARTS_def)
  obtain sb2 where sb2: "part_append sb1 ?i (ethernet_header_bytes ?hdr) = Some (14, sb2)" "wf_sb sb2"
    "sb_n_used sb2 = Suc ?i" "take ?i (sb_parts sb2) = take ?i (sb_parts sb)"
    "byte_view_from_buf (sb_parts sb2 ! ?i) = ethernet_header_bytes ?hdr"
    using part_append_ok [OF sb1(2,3), of "ethernet_header_bytes ?hdr"] sb1(4,5) by (auto simp: room_at_def)
  have "sb_content sb2 = frame_to dest_mac netdev t (sb_content sb)"
    using sb_content_newest [OF sb2(2,3)] sb2(4,5) by (simp add: frame_to_def sb_content_def)
  moreover have "netdev_send dest_mac netdev proto sb s =
      map_option (\<lambda>(r, drv). (r, s\<lparr>net_drv := drv\<rparr>)) (nd_send_frame netdev sb2 (net_drv s))"
    using sb1(1) sb2(1) assms(4,5)
    by (cases "nd_send_frame netdev sb2 (net_drv s)")
      (auto simp: netdev_send_def ETHERNET_HEADER_SIZE_def netdev_append_link_header_def)
  ultimately show ?thesis using sb2(2) by blast
qed

text \<open>Receiving a frame for the device is storing its payload in the queue.\<close>

lemma intr_receive_frame:
  assumes "ethernet_type_from_netdev_proto proto = Some t" "net_queue_is_initialized s"
    "nd_link_type dev = NETDEV_LINK_TYPE_ETHERNET" "dest_mac = nd_mac_addr dev \<or> dest_mac = MAC_ADDR_BROADCAST"
  shows "netdev_intr_receive dev (frame_to dest_mac sender t payload) s =
    map_option snd (netdev_intr_input_queue_add (nd_mac_addr sender) dev proto payload s)"
  using assms proto_roundtrip [OF assms(1)]
  by (cases "netdev_intr_input_queue_add (nd_mac_addr sender) dev proto payload s")
    (auto simp: netdev_intr_receive_def netdev_intr_receive_ethernet_def frame_to_def
      ETHERNET_HEADER_SIZE_def Let_def)

text \<open>
  A frame built by the link layer of one host and received by the device of another host with
  the destination MAC address appears at the end of that host's input queue, with the sender,
  the protocol and the (at most 4096 bytes of) payload that were sent, when the queue has room;
  when it is full the packet is dropped and nothing changes.
\<close>

theorem link_layer_delivers:
  assumes "ethernet_type_from_netdev_proto proto = Some t"
    and "wf_queue s" and "nd_link_type dev = NETDEV_LINK_TYPE_ETHERNET"
    and "dest_mac = nd_mac_addr dev \<or> dest_mac = MAC_ADDR_BROADCAST"
  shows "\<exists>s'. netdev_intr_receive dev (frame_to dest_mac sender t payload) s = Some s' \<and> wf_queue s' \<and>
    (if length (queue_items s) < 63
     then queue_items s' = queue_items s @ [(nd_mac_addr sender, dev, proto, take 4096 payload)]
     else s' = s)"
proof -
  have "net_queue_is_initialized s" using assms(2) by (simp add: wf_queue_def)
  note eq = intr_receive_frame [OF assms(1) this assms(3,4), of sender payload]
  show ?thesis
  proof (cases "queue_used s < 63")
    case True
    then show ?thesis using queue_add_ok [OF assms(2) True, of "nd_mac_addr sender" dev proto payload] eq
      by (auto simp: INPUT_BUF_CAP_def)
  next
    case False
    then have "queue_used s = 63" using queue_used_bound [OF assms(2)] by simp
    then show ?thesis using queue_add_full [OF assms(2)] eq assms(2) by simp
  qed
qed

theorem link_layer_delivers_witness:
  "\<exists>s'. netdev_intr_receive sample_dev (frame_to (Mac 2 0 0 0 0 1) sample_dev 0x0800 [9, 8]) sample_net = Some s' \<and>
    wf_queue s' \<and>
    (if length (queue_items sample_net) < 63
     then queue_items s' = queue_items sample_net @
       [(nd_mac_addr sample_dev, sample_dev, NETDEV_PROTO_IPV4, take 4096 [9, 8])]
     else s' = sample_net)"
  by (rule link_layer_delivers [OF _ sample_net_wf])
    (simp_all add: sample_dev_def ethernet_type_from_netdev_proto_def ETHERNET_PTYPE_IPV4_def)

end
