(* ===== verification/Arp.thy ===== *)
theory Arp
  imports Netdev "HOL-Library.Multiset"
begin

text \<open>
  Address resolution (src/net/arp.c): the table from IPv4 to MAC addresses, the requests and the
  replies. The state extends the one of the network devices by the table.
\<close>

record arp_table_ent =
  ae_is_used :: bool
  ae_ip_addr :: ipv4_addr
  ae_mac_addr :: mac_addr

definition GLOBAL_ARP_TABLE_SIZE :: nat where "GLOBAL_ARP_TABLE_SIZE = 32"

record 'd arp_net = "'d net" +
  arp_table :: "arp_table_ent list"

definition ARP_OPCODE_REQUEST :: u16 where "ARP_OPCODE_REQUEST = 1"
definition ARP_OPCODE_REPLY :: u16 where "ARP_OPCODE_REPLY = 2"
definition ARP_HTYPE_ETHERNET :: u16 where "ARP_HTYPE_ETHERNET = 1"

section \<open>Packets\<close>

record arp_header =
  arp_htype :: net_u16
  arp_ptype :: net_u16
  arp_hlen :: u8
  arp_plen :: u8
  arp_opcode :: net_u16

definition arp_header_bytes :: "arp_header \<Rightarrow> byte list" where
  "arp_header_bytes h =
     le_bytes16 (arp_htype h) @ le_bytes16 (arp_ptype h) @ [arp_hlen h, arp_plen h] @ le_bytes16 (arp_opcode h)"

definition arp_header_of :: "byte list \<Rightarrow> arp_header" where
  "arp_header_of bs = \<lparr>arp_htype = u16_at bs 0, arp_ptype = u16_at bs 2, arp_hlen = bs ! 4,
     arp_plen = bs ! 5, arp_opcode = u16_at bs 6\<rparr>"

record ip_ethernet_arp_payload =
  arpp_src_mac :: mac_addr
  arpp_src_ip :: ipv4_addr
  arpp_dest_mac :: mac_addr
  arpp_dest_ip :: ipv4_addr

definition arp_payload_bytes :: "ip_ethernet_arp_payload \<Rightarrow> byte list" where
  "arp_payload_bytes p =
     mac_addr_bytes (arpp_src_mac p) @ ipv4_addr_bytes (arpp_src_ip p) @
     mac_addr_bytes (arpp_dest_mac p) @ ipv4_addr_bytes (arpp_dest_ip p)"

definition arp_payload_of :: "byte list \<Rightarrow> ip_ethernet_arp_payload" where
  "arp_payload_of bs = \<lparr>arpp_src_mac = mac_addr_at bs 0, arpp_src_ip = ipv4_addr_at bs 6,
     arpp_dest_mac = mac_addr_at bs 10, arpp_dest_ip = ipv4_addr_at bs 16\<rparr>"

definition arp_send_common ::
  "u16 \<Rightarrow> ipv4_addr \<Rightarrow> mac_addr \<Rightarrow> 'd netdev \<Rightarrow> send_buf \<Rightarrow> ('d, 'z) net_scheme \<Rightarrow>
     (unit res \<times> ('d, 'z) net_scheme) option" where
  "arp_send_common opcode dest_ip dest_mac netdev sb s = do {
     let arp_hdr = \<lparr>arp_htype = net_u16_from_u16 ARP_HTYPE_ETHERNET,
       arp_ptype = net_u16_from_u16 ETHERNET_PTYPE_IPV4, arp_hlen = 6, arp_plen = 4,
       arp_opcode = net_u16_from_u16 opcode\<rparr>;
     let arp_payload = \<lparr>arpp_src_mac = nd_mac_addr netdev, arpp_src_ip = nd_ip_addr netdev,
       arpp_dest_mac = dest_mac, arpp_dest_ip = dest_ip\<rparr>;
     (buf, sb) \<leftarrow> send_buf_prepend sb (8 + 20);
     case buf of
       None \<Rightarrow> None
     | Some buf \<Rightarrow> do {
         (_, sb) \<leftarrow> part_append sb buf (arp_header_bytes arp_hdr);
         (_, sb) \<leftarrow> part_append sb buf (arp_payload_bytes arp_payload);
         p \<leftarrow> peek (sb_parts sb) (int buf);
         kassert (bb_len p = 8 + 20);
         netdev_send dest_mac netdev NETDEV_PROTO_ARP sb s
       }
   }"

definition arp_send_request ::
  "ipv4_addr \<Rightarrow> 'd netdev \<Rightarrow> send_buf \<Rightarrow> ('d, 'z) net_scheme \<Rightarrow> (unit res \<times> ('d, 'z) net_scheme) option" where
  "arp_send_request dest_ip netdev sb s =
     arp_send_common ARP_OPCODE_REQUEST dest_ip MAC_ADDR_BROADCAST netdev sb s"

section \<open>The table\<close>

fun arp_matches :: "ipv4_addr \<Rightarrow> arp_table_ent list \<Rightarrow> nat \<times> arp_table_ent option \<Rightarrow> nat \<times> arp_table_ent option" where
  "arp_matches a [] acc = acc"
| "arp_matches a (ent # ents) (n, last_match) =
     arp_matches a ents
       (if ae_is_used ent \<and> ipv4_addr_is_equal (ae_ip_addr ent) a then (n + 1, Some ent) else (n, last_match))"

definition arp_lookup_mac_addr :: "ipv4_addr \<Rightarrow> arp_table_ent list \<Rightarrow> mac_addr option option" where
  "arp_lookup_mac_addr a table = do {
     let (n_matches, last_match) = arp_matches a table (0, None);
     kassert (n_matches \<le> 1);
     if n_matches = 0 then Some None
     else case last_match of None \<Rightarrow> None | Some ent \<Rightarrow> Some (Some (ae_mac_addr ent))
   }"

text \<open>The two loops: change the entry of a known address, or take the first unused entry.\<close>

fun arp_update :: "ipv4_addr \<Rightarrow> mac_addr \<Rightarrow> arp_table_ent list \<Rightarrow> arp_table_ent list option" where
  "arp_update a m [] = None"
| "arp_update a m (ent # ents) =
     (if ae_is_used ent \<and> ipv4_addr_is_equal a (ae_ip_addr ent) then Some (ent\<lparr>ae_mac_addr := m\<rparr> # ents)
      else map_option ((#) ent) (arp_update a m ents))"

fun arp_insert :: "ipv4_addr \<Rightarrow> mac_addr \<Rightarrow> arp_table_ent list \<Rightarrow> arp_table_ent list option" where
  "arp_insert a m [] = None"
| "arp_insert a m (ent # ents) =
     (if \<not> ae_is_used ent then Some (\<lparr>ae_is_used = True, ae_ip_addr = a, ae_mac_addr = m\<rparr> # ents)
      else map_option ((#) ent) (arp_insert a m ents))"

definition arp_table_update_or_insert ::
  "ipv4_addr \<Rightarrow> mac_addr \<Rightarrow> arp_table_ent list \<Rightarrow> bool res \<times> arp_table_ent list" where
  "arp_table_update_or_insert a m table =
     (case arp_update a m table of
        Some table \<Rightarrow> (Inr True, table)
      | None \<Rightarrow> (case arp_insert a m table of
            Some table \<Rightarrow> (Inr False, table)
          | None \<Rightarrow> (Inl ENOMEM, table)))"

section \<open>Handling a packet\<close>

definition arp_handle_packet ::
  "'d input_packet \<Rightarrow> send_buf \<Rightarrow> ('d, 'z) arp_net_scheme \<Rightarrow> (unit res \<times> ('d, 'z) arp_net_scheme) option" where
  "arp_handle_packet pkt sb s =
     (let data = byte_view_from_buf (ip_data pkt) in
      if bb_len (ip_data pkt) < 8 + 20 then Some (ok, s)
      else
        let arp_hdr = arp_header_of data in
        if u16_from_net_u16 (arp_htype arp_hdr) \<noteq> ARP_HTYPE_ETHERNET \<or>
           u16_from_net_u16 (arp_ptype arp_hdr) \<noteq> ETHERNET_PTYPE_IPV4 then Some (ok, s)
        else do {
          let payload = arp_payload_of (drop 8 data);
          old_mac_opt \<leftarrow> arp_lookup_mac_addr (arpp_src_ip payload) (arp_table s);
          let (insert_res, table) =
            arp_table_update_or_insert (arpp_src_ip payload) (arpp_src_mac payload) (arp_table s);
          let s = s\<lparr>arp_table := table\<rparr>;
          case insert_res of
            Inl e \<Rightarrow> Some (Inl e, s)
          | Inr updated \<Rightarrow> do {
              kassert (updated \<longrightarrow> old_mac_opt \<noteq> None);
              if u16_from_net_u16 (arp_opcode arp_hdr) = ARP_OPCODE_REQUEST
              then case ip_netdev pkt of
                  None \<Rightarrow> None
                | Some netdev \<Rightarrow>
                    arp_send_common ARP_OPCODE_REPLY (arpp_src_ip payload) (arpp_src_mac payload) netdev sb s
              else Some (ok, s)
            }
        })"

section \<open>The table as a map\<close>

text \<open>The used addresses are distinct; the abstract value is the map from addresses to MACs.\<close>

definition arp_used :: "arp_table_ent list \<Rightarrow> ipv4_addr list" where
  "arp_used t = map ae_ip_addr (filter ae_is_used t)"

definition arp_ok :: "arp_table_ent list \<Rightarrow> bool" where
  "arp_ok t \<longleftrightarrow> distinct (arp_used t)"

definition arp_map :: "arp_table_ent list \<Rightarrow> ipv4_addr \<rightharpoonup> mac_addr" where
  "arp_map t = map_of (map (\<lambda>e. (ae_ip_addr e, ae_mac_addr e)) (filter ae_is_used t))"

lemma arp_map_dom: "dom (arp_map t) = set (arp_used t)"
  by (simp add: arp_map_def arp_used_def dom_map_of_conv_image_fst image_image)

lemma arp_map_None: "arp_map t a = None \<longleftrightarrow> a \<notin> set (arp_used t)"
  using arp_map_dom [of t] by (metis domIff)

lemma arp_simps [simp]:
  "arp_used [] = []" "arp_map [] = Map.empty"
  "arp_used (e # t) = (if ae_is_used e then ae_ip_addr e # arp_used t else arp_used t)"
  "arp_map (e # t) = (if ae_is_used e then (arp_map t)(ae_ip_addr e \<mapsto> ae_mac_addr e) else arp_map t)"
  by (simp_all add: arp_used_def arp_map_def)

lemma arp_matches_none: "a \<notin> set (arp_used t) \<Longrightarrow> arp_matches a t acc = acc"
  by (induction t arbitrary: acc) (auto split: if_splits)

lemma arp_matches_one:
  "distinct (arp_used t) \<Longrightarrow> arp_map t a = Some m \<Longrightarrow>
     \<exists>e. arp_matches a t (n, l) = (n + 1, Some e) \<and> ae_mac_addr e = m"
  by (induction t arbitrary: n l) (auto simp: arp_matches_none split: if_splits)

lemma arp_lookup_map: "arp_ok t \<Longrightarrow> arp_lookup_mac_addr a t = Some (arp_map t a)"
proof (cases "arp_map t a")
  case None
  then have "a \<notin> set (arp_used t)" by (simp add: arp_map_None)
  with None show ?thesis by (simp add: arp_lookup_mac_addr_def arp_matches_none)
next
  case (Some m)
  assume "arp_ok t"
  then obtain e where "arp_matches a t (0, None) = (1, Some e)" "ae_mac_addr e = m"
    using arp_matches_one [OF _ Some, of 0 None] by (auto simp: arp_ok_def)
  then show ?thesis using Some by (simp add: arp_lookup_mac_addr_def)
qed

lemma arp_update_Some:
  "arp_update a m t = Some t' \<Longrightarrow> arp_used t' = arp_used t \<and> arp_map t' = (arp_map t)(a \<mapsto> m) \<and>
     a \<in> set (arp_used t) \<and> length t' = length t"
proof (induction t arbitrary: t')
  case (Cons e t)
  show ?case
  proof (cases "ae_is_used e \<and> ae_ip_addr e = a")
    case True
    then show ?thesis using Cons.prems by auto
  next
    case False
    then obtain u where "arp_update a m t = Some u" "t' = e # u" using Cons.prems by (auto split: if_splits)
    then show ?thesis using Cons.IH False by (auto simp: fun_upd_twist)
  qed
qed simp

lemma arp_update_None: "arp_update a m t = None \<longleftrightarrow> a \<notin> set (arp_used t)"
  by (induction t) auto

lemma arp_insert_Some:
  "arp_insert a m t = Some t' \<Longrightarrow> a \<notin> set (arp_used t) \<Longrightarrow>
     mset (arp_used t') = add_mset a (mset (arp_used t)) \<and> arp_map t' = (arp_map t)(a \<mapsto> m) \<and>
     length t' = length t"
  by (induction t arbitrary: t') (auto simp: fun_upd_twist split: if_splits)

lemma arp_insert_None: "arp_insert a m t = None \<longleftrightarrow> (\<forall>e \<in> set t. ae_is_used e)"
  by (induction t) auto

lemma arp_update_spec:
  assumes "arp_ok t" and "arp_table_update_or_insert a m t = (r, t')"
  shows "arp_ok t' \<and> length t' = length t \<and>
    (case r of
       Inr known \<Rightarrow> arp_map t' = (arp_map t)(a \<mapsto> m) \<and> (known \<longleftrightarrow> a \<in> dom (arp_map t))
     | Inl e \<Rightarrow> e = ENOMEM \<and> t' = t \<and> a \<notin> dom (arp_map t) \<and> (\<forall>ent \<in> set t. ae_is_used ent))"
proof (cases "arp_update a m t")
  case (Some u)
  then show ?thesis using assms arp_update_Some [OF Some]
    by (auto simp: arp_table_update_or_insert_def arp_ok_def arp_lookup_map arp_map_dom)
next
  case None
  then have a: "a \<notin> set (arp_used t)" by (simp add: arp_update_None)
  show ?thesis
  proof (cases "arp_insert a m t")
    case (Some u)
    then have u: "mset (arp_used u) = add_mset a (mset (arp_used t))" "arp_map u = (arp_map t)(a \<mapsto> m)"
      "length u = length t" using arp_insert_Some a by blast+
    then have "distinct (arp_used u)" using assms(1) a unfolding arp_ok_def
      by (metis distinct.simps(2) mset.simps(2) mset_eq_imp_distinct_iff)
    then show ?thesis using None Some assms u a
      by (auto simp: arp_table_update_or_insert_def arp_ok_def arp_lookup_map arp_map_dom)
  next
    case None2: None
    then have "\<forall>e \<in> set t. ae_is_used e" by (simp add: arp_insert_None)
    then show ?thesis using None None2 assms a
      by (auto simp: arp_table_update_or_insert_def arp_ok_def arp_lookup_map arp_map_dom)
  qed
qed

text \<open>
  C38: on a table without duplicate addresses, the lookup never fails its assertion and reads the
  table as a map, and \<open>arp_table_update_or_insert\<close> is the update of this map, keeps the
  addresses unique, and reports whether the address was known. It fails, with the table
  unchanged, exactly when the address is new and every entry is used.
\<close>

theorem arp_table_refines_map:
  assumes "arp_ok t" and "arp_table_update_or_insert a m t = (r, t')"
  shows "arp_lookup_mac_addr b t = Some (arp_map t b) \<and> arp_ok t' \<and> length t' = length t \<and>
    (case r of
       Inr known \<Rightarrow> arp_map t' = (arp_map t)(a \<mapsto> m) \<and> (known \<longleftrightarrow> a \<in> dom (arp_map t))
     | Inl e \<Rightarrow> e = ENOMEM \<and> t' = t \<and> a \<notin> dom (arp_map t) \<and> (\<forall>ent \<in> set t. ae_is_used ent))"
  using arp_update_spec [OF assms] by (simp add: arp_lookup_map assms(1))

definition sample_arp_table :: "arp_table_ent list" where
  "sample_arp_table = [\<lparr>ae_is_used = True, ae_ip_addr = Ipv4 10 0 0 1, ae_mac_addr = Mac 2 0 0 0 0 7\<rparr>,
     \<lparr>ae_is_used = False, ae_ip_addr = Ipv4 0 0 0 0, ae_mac_addr = Mac 0 0 0 0 0 0\<rparr>]"

theorem arp_table_refines_map_witness:
  "let t' = [hd sample_arp_table, \<lparr>ae_is_used = True, ae_ip_addr = Ipv4 10 0 0 3, ae_mac_addr = Mac 2 0 0 0 0 8\<rparr>] in
   arp_lookup_mac_addr (Ipv4 10 0 0 1) sample_arp_table = Some (arp_map sample_arp_table (Ipv4 10 0 0 1)) \<and>
   arp_ok t' \<and> length t' = length sample_arp_table \<and>
   (case (Inr False :: bool res) of
      Inr known \<Rightarrow> arp_map t' = (arp_map sample_arp_table)(Ipv4 10 0 0 3 \<mapsto> Mac 2 0 0 0 0 8) \<and>
        (known \<longleftrightarrow> Ipv4 10 0 0 3 \<in> dom (arp_map sample_arp_table))
    | Inl e \<Rightarrow> e = ENOMEM \<and> t' = sample_arp_table \<and> Ipv4 10 0 0 3 \<notin> dom (arp_map sample_arp_table) \<and>
        (\<forall>ent \<in> set sample_arp_table. ae_is_used ent))"
  unfolding Let_def
  by (rule arp_table_refines_map)
    (simp_all add: sample_arp_table_def arp_ok_def arp_table_update_or_insert_def)

section \<open>Answering requests\<close>

lemma arp_header_bytes_length [simp]: "length (arp_header_bytes h) = 8"
  by (simp add: arp_header_bytes_def)

lemma arp_payload_bytes_length [simp]: "length (arp_payload_bytes p) = 20"
  by (simp add: arp_payload_bytes_def)

lemma arp_header_roundtrip [simp]: "arp_header_of (arp_header_bytes h @ rest) = h"
  using u16_at_le_bytes16 [of "[]" 0 "arp_htype h"] u16_at_le_bytes16 [of "le_bytes16 (arp_htype h)" 2 "arp_ptype h"]
    u16_at_le_bytes16 [of "le_bytes16 (arp_htype h) @ le_bytes16 (arp_ptype h) @ [arp_hlen h, arp_plen h]" 6 "arp_opcode h"]
  by (simp add: arp_header_of_def arp_header_bytes_def nth_append)

lemma arp_payload_roundtrip [simp]: "arp_payload_of (arp_payload_bytes p @ rest) = p"
  using mac_addr_at_prefix [of "[]" 0 "arpp_src_mac p"]
    ipv4_addr_at_bytes [of "mac_addr_bytes (arpp_src_mac p)" 6 "arpp_src_ip p"]
    mac_addr_at_prefix [of "mac_addr_bytes (arpp_src_mac p) @ ipv4_addr_bytes (arpp_src_ip p)" 10 "arpp_dest_mac p"]
    ipv4_addr_at_bytes [of "mac_addr_bytes (arpp_src_mac p) @ ipv4_addr_bytes (arpp_src_ip p) @
      mac_addr_bytes (arpp_dest_mac p)" 16 "arpp_dest_ip p"]
  by (simp add: arp_payload_of_def arp_payload_bytes_def)

definition arp_packet_bytes :: "u16 \<Rightarrow> 'd netdev \<Rightarrow> mac_addr \<Rightarrow> ipv4_addr \<Rightarrow> byte list" where
  "arp_packet_bytes opcode netdev dest_mac dest_ip =
     arp_header_bytes \<lparr>arp_htype = net_u16_from_u16 1, arp_ptype = net_u16_from_u16 0x0800, arp_hlen = 6,
       arp_plen = 4, arp_opcode = net_u16_from_u16 opcode\<rparr> @
     arp_payload_bytes \<lparr>arpp_src_mac = nd_mac_addr netdev, arpp_src_ip = nd_ip_addr netdev,
       arpp_dest_mac = dest_mac, arpp_dest_ip = dest_ip\<rparr>"

lemma arp_send_common_frame:
  assumes "wf_sb sb" "sb_n_used sb < 7" "sb_content sb = []"
    and "arena_alloc (sb_arn sb) 28 = Some (a, arn')" "arena_alloc arn' 14 = Some (a', arn'')"
    and "nd_link_type netdev = NETDEV_LINK_TYPE_ETHERNET"
  shows "\<exists>sb'. wf_sb sb' \<and>
    sb_content sb' = frame_to dest_mac netdev 0x0806 (arp_packet_bytes opcode netdev dest_mac dest_ip) \<and>
    arp_send_common opcode dest_ip dest_mac netdev sb s =
      map_option (\<lambda>(r, drv). (r, s\<lparr>net_drv := drv\<rparr>)) (nd_send_frame netdev sb' (net_drv s))"
proof -
  let ?i = "sb_n_used sb"
  let ?h = "\<lparr>arp_htype = net_u16_from_u16 1, arp_ptype = net_u16_from_u16 0x0800, arp_hlen = 6,
    arp_plen = 4, arp_opcode = net_u16_from_u16 opcode\<rparr>"
  let ?p = "\<lparr>arpp_src_mac = nd_mac_addr netdev, arpp_src_ip = nd_ip_addr netdev,
    arpp_dest_mac = dest_mac, arpp_dest_ip = dest_ip\<rparr>"
  obtain sb1 where sb1: "send_buf_prepend sb 28 = Some (Some ?i, sb1)" "wf_sb sb1" "sb_n_used sb1 = Suc ?i"
    "take ?i (sb_parts sb1) = take ?i (sb_parts sb)" "sb_parts sb1 ! ?i = byte_buf_from_array (replicate 28 0)"
    "sb_arn sb1 = arn'"
    using send_buf_prepend_ok [of sb 28 a arn'] assms by (auto simp: SEND_BUF_NUM_PARTS_def)
  obtain sb2 where sb2: "part_append sb1 ?i (arp_header_bytes ?h) = Some (8, sb2)" "wf_sb sb2"
    "sb_n_used sb2 = Suc ?i" "take ?i (sb_parts sb2) = take ?i (sb_parts sb)" "sb_arn sb2 = arn'"
    "room_at sb2 ?i = 20" "byte_view_from_buf (sb_parts sb2 ! ?i) = arp_header_bytes ?h"
    using part_append_ok [OF sb1(2,3), of "arp_header_bytes ?h"] sb1(4-6) by (auto simp: room_at_def)
  obtain sb3 where sb3: "part_append sb2 ?i (arp_payload_bytes ?p) = Some (20, sb3)" "wf_sb sb3"
    "sb_n_used sb3 = Suc ?i" "take ?i (sb_parts sb3) = take ?i (sb_parts sb)" "sb_arn sb3 = arn'"
    "byte_view_from_buf (sb_parts sb3 ! ?i) = arp_header_bytes ?h @ arp_payload_bytes ?p"
    using part_append_ok [OF sb2(2,3), of "arp_payload_bytes ?p"] sb2(4-7) by auto
  have i: "?i < length (sb_parts sb3)" "wf_buf (sb_parts sb3 ! ?i)"
    using wf_sb_parts [OF sb3(2), of ?i] sb3(3) by auto
  have "int (length (byte_view_from_buf (sb_parts sb3 ! ?i))) = 28" unfolding sb3(6) by simp
  then have l: "bb_len (sb_parts sb3 ! ?i) = 28" using i(2) by (simp add: wf_buf_def)
  have c: "sb_content sb3 = arp_packet_bytes opcode netdev dest_mac dest_ip"
    using sb_content_newest [OF sb3(2,3)] sb3(4,6) assms(3) by (simp add: arp_packet_bytes_def sb_content_def)
  have eq: "arp_send_common opcode dest_ip dest_mac netdev sb s =
      netdev_send dest_mac netdev NETDEV_PROTO_ARP sb3 s"
    using sb1(1) sb2(1) sb3(1) i l
    by (simp add: arp_send_common_def ARP_HTYPE_ETHERNET_def ETHERNET_PTYPE_IPV4_def)
  have t: "ethernet_type_from_netdev_proto NETDEV_PROTO_ARP = Some 0x0806"
    by (simp add: ethernet_type_from_netdev_proto_def NETDEV_PROTO_ARP_def NETDEV_PROTO_IPV4_def ETHERNET_PTYPE_ARP_def)
  have "sb_n_used sb3 < 8" "arena_alloc (sb_arn sb3) 14 = Some (a', arn'')" using sb3 assms by simp_all
  from netdev_send_frame [OF sb3(2) this assms(6) t, of dest_mac s] show ?thesis unfolding eq c .
qed

text \<open>
  C36: an ARP request on an Ethernet device is answered, whatever the table held before: the
  sender's addresses are in the table afterwards, the table stays free of duplicates, and the
  device gets exactly one frame, an ARP reply to the sender that carries the MAC and the IP
  address of the device. Only a full table prevents this, with \<open>ENOMEM\<close>.
\<close>

theorem arp_request_is_answered:
  assumes "arp_ok (arp_table s)" and "ip_netdev pkt = Some netdev"
    and "nd_link_type netdev = NETDEV_LINK_TYPE_ETHERNET" and "wf_buf (ip_data pkt)"
    and "byte_view_from_buf (ip_data pkt) =
      arp_packet_bytes ARP_OPCODE_REQUEST peer dest_mac dest_ip @ padding"
    and "arena_alloc (sb_arn sb) 28 = Some (a, arn')" and "arena_alloc arn' 14 = Some (a', arn'')"
    and "sb = send_buf_new (sb_arn sb)"
    and "nd_ip_addr peer \<in> dom (arp_map (arp_table s)) \<or> (\<exists>ent \<in> set (arp_table s). \<not> ae_is_used ent)"
  shows "\<exists>t' sb'. arp_ok t' \<and> arp_map t' = (arp_map (arp_table s))(nd_ip_addr peer \<mapsto> nd_mac_addr peer) \<and>
    sb_content sb' = frame_to (nd_mac_addr peer) netdev 0x0806
      (arp_packet_bytes ARP_OPCODE_REPLY netdev (nd_mac_addr peer) (nd_ip_addr peer)) \<and>
    arp_handle_packet pkt sb s =
      map_option (\<lambda>(r, drv). (r, s\<lparr>arp_table := t', net_drv := drv\<rparr>)) (nd_send_frame netdev sb' (net_drv s))"
proof -
  let ?a = "nd_ip_addr peer" and ?m = "nd_mac_addr peer"
  obtain r t' where u: "arp_table_update_or_insert ?a ?m (arp_table s) = (r, t')" by force
  have T: "arp_lookup_mac_addr ?a (arp_table s) = Some (arp_map (arp_table s) ?a)" "arp_ok t'"
    "case r of Inr known \<Rightarrow> arp_map t' = (arp_map (arp_table s))(?a \<mapsto> ?m) \<and> (known \<longleftrightarrow> ?a \<in> dom (arp_map (arp_table s)))
     | Inl e \<Rightarrow> ?a \<notin> dom (arp_map (arp_table s)) \<and> (\<forall>ent \<in> set (arp_table s). ae_is_used ent)"
    using arp_update_spec [OF assms(1) u] by (auto simp: arp_lookup_map assms(1) split: sum.splits)
  then obtain known where r: "r = Inr known" "arp_map t' = (arp_map (arp_table s))(?a \<mapsto> ?m)"
    "known \<longleftrightarrow> ?a \<in> dom (arp_map (arp_table s))"
    using assms(9) by (cases r) auto
  have sb: "wf_sb sb" "sb_n_used sb = 0" "sb_content sb = []"
    by (subst assms(8), simp)+
  have "int (length (byte_view_from_buf (ip_data pkt))) = 28 + int (length padding)"
    unfolding assms(5) by (simp add: arp_packet_bytes_def)
  then have l: "28 \<le> bb_len (ip_data pkt)" using assms(4) by (simp add: wf_buf_def)
  obtain sb' where sb': "sb_content sb' = frame_to ?m netdev 0x0806 (arp_packet_bytes ARP_OPCODE_REPLY netdev ?m ?a)"
    "arp_send_common ARP_OPCODE_REPLY ?a ?m netdev sb (s\<lparr>arp_table := t'\<rparr>) =
      map_option (\<lambda>(r, drv). (r, s\<lparr>arp_table := t', net_drv := drv\<rparr>)) (nd_send_frame netdev sb' (net_drv s))"
    using arp_send_common_frame [OF sb(1) _ sb(3) assms(6,7,3), of ?m ARP_OPCODE_REPLY ?a "s\<lparr>arp_table := t'\<rparr>"] sb(2)
    by auto
  have k: "kassert (known \<longrightarrow> arp_map (arp_table s) ?a \<noteq> None) = Some ()"
    using r(3) by (auto simp: kassert_def)
  have "arp_handle_packet pkt sb s = arp_send_common ARP_OPCODE_REPLY ?a ?m netdev sb (s\<lparr>arp_table := t'\<rparr>)"
    using l r(1) u T(1) assms(2) k unfolding arp_handle_packet_def assms(5)
    by (auto simp: arp_packet_bytes_def ARP_HTYPE_ETHERNET_def ETHERNET_PTYPE_IPV4_def
        ARP_OPCODE_REQUEST_def Let_def)
  then show ?thesis using sb' T(2) r(2) by auto
qed

definition sample_arp_net :: "byte list arp_net" where
  "sample_arp_net = net.extend sample_net \<lparr>arp_table = sample_arp_table\<rparr>"

definition sample_arp_request :: "byte list input_packet" where
  "sample_arp_request = \<lparr>ip_src = Mac 2 0 0 0 0 1, ip_netdev = Some sample_dev, ip_proto = NETDEV_PROTO_ARP,
     ip_n_failed_to_handle = 0, ip_data =
       byte_buf_new (arp_packet_bytes ARP_OPCODE_REQUEST sample_dev MAC_ADDR_BROADCAST (Ipv4 10 0 0 2)) 28 28\<rparr>"

theorem arp_request_is_answered_witness:
  "\<exists>t' sb'. arp_ok t' \<and>
    arp_map t' = (arp_map (arp_table sample_arp_net))(nd_ip_addr sample_dev \<mapsto> nd_mac_addr sample_dev) \<and>
    sb_content sb' = frame_to (nd_mac_addr sample_dev) sample_dev 0x0806
      (arp_packet_bytes ARP_OPCODE_REPLY sample_dev (nd_mac_addr sample_dev) (nd_ip_addr sample_dev)) \<and>
    arp_handle_packet sample_arp_request (send_buf_new (arena_new 4096 4096)) sample_arp_net =
      map_option (\<lambda>(r, drv). (r, sample_arp_net\<lparr>arp_table := t', net_drv := drv\<rparr>))
        (nd_send_frame sample_dev sb' (net_drv sample_arp_net))"
  by (rule arp_request_is_answered [where padding = "[]" and dest_mac = MAC_ADDR_BROADCAST and dest_ip = "Ipv4 10 0 0 2"
      and a = 4096 and a' = 4128 and arn' = "\<lparr>ar_beg = 4124, ar_end = 8192\<rparr>" and arn'' = "\<lparr>ar_beg = 4142, ar_end = 8192\<rparr>"])
    (simp_all add: sample_arp_net_def net.extend_def sample_arp_table_def sample_dev_def arp_ok_def
      sample_arp_request_def wf_buf_def byte_buf_new_def byte_view_from_buf_def arp_packet_bytes_def
      arena_alloc_def arena_alloc_aligned_def arena_new_def)

end
