(* ===== verification/Ip.thy ===== *)
theory Ip
  imports Arp
begin

text \<open>
  The IPv4 layer of src/net/ip.c: the header, the routing table and sending. The checksum is in
  the theory Checksum, the handling of incoming datagrams, which calls the protocols above, in
  the theory NetInput.
\<close>

section \<open>Header\<close>

record ipv4_header =
  ih_ihl :: u8
  ih_version :: u8
  ih_ds_ecn :: u8
  ih_total_length :: net_u16
  ih_ident :: net_u16
  ih_fragment_offset :: net_u16
  ih_ttl :: u8
  ih_protocol :: u8
  ih_checksum :: net_u16
  ih_src_addr :: ipv4_addr
  ih_dest_addr :: ipv4_addr

text \<open>The first byte holds the two 4-bit fields, \<open>ihl\<close> in the low half.\<close>

definition ipv4_header_bytes :: "ipv4_header \<Rightarrow> byte list" where
  "ipv4_header_bytes h =
     [(ih_ihl h AND 0xf) OR push_bit 4 (ih_version h), ih_ds_ecn h] @ le_bytes16 (ih_total_length h) @
     le_bytes16 (ih_ident h) @ le_bytes16 (ih_fragment_offset h) @ [ih_ttl h, ih_protocol h] @
     le_bytes16 (ih_checksum h) @ ipv4_addr_bytes (ih_src_addr h) @ ipv4_addr_bytes (ih_dest_addr h)"

definition ipv4_header_of :: "byte list \<Rightarrow> ipv4_header" where
  "ipv4_header_of bs =
     \<lparr>ih_ihl = bs ! 0 AND 0xf, ih_version = drop_bit 4 (bs ! 0), ih_ds_ecn = bs ! 1,
      ih_total_length = u16_at bs 2, ih_ident = u16_at bs 4, ih_fragment_offset = u16_at bs 6,
      ih_ttl = bs ! 8, ih_protocol = bs ! 9, ih_checksum = u16_at bs 10,
      ih_src_addr = ipv4_addr_at bs 12, ih_dest_addr = ipv4_addr_at bs 16\<rparr>"

definition IPV4_HEADER_SIZE :: sz where "IPV4_HEADER_SIZE = 20"

definition IPV4_PROTOCOL_ICMP :: u8 where "IPV4_PROTOCOL_ICMP = 1"
definition IPV4_PROTOCOL_TCP :: u8 where "IPV4_PROTOCOL_TCP = 6"

definition ipv4_checksum_is_ok :: "byte list \<Rightarrow> bool" where
  "ipv4_checksum_is_ok hdr \<longleftrightarrow> internet_checksum (take (nat IPV4_HEADER_SIZE) hdr) = 0"

section \<open>Routing\<close>

record ipv4_route_entry =
  re_dest :: ipv4_addr
  re_mask :: ipv4_addr
  re_gateway :: ipv4_addr
  re_interface :: ipv4_addr

definition GLOBAL_ROUTE_TABLE_SIZE :: nat where "GLOBAL_ROUTE_TABLE_SIZE = 32"

record 'd ip_net = "'d arp_net" +
  route_table :: "ipv4_route_entry option list"

definition ipv4_route_add ::
  "ipv4_route_entry \<Rightarrow> ('d, 'z) ip_net_scheme \<Rightarrow> unit res \<times> ('d, 'z) ip_net_scheme" where
  "ipv4_route_add ent s =
     (case insert_unused ent (route_table s) of
        Some t \<Rightarrow> (ok, s\<lparr>route_table := t\<rparr>)
      | None \<Rightarrow> (Inl ENOMEM, s))"

lemma and_pred_less: "x \<noteq> 0 \<Longrightarrow> unat (x AND (x - 1)) < unat (x :: u32)"
proof -
  assume "x \<noteq> 0"
  then have "unat (x - 1) < unat x" by (metis unat_minus_one diff_less unat_gt_0 zero_less_one)
  moreover have "unat (x AND (x - 1)) \<le> unat (x - 1)"
    by (metis word_and_le1 word_le_nat_alt)
  ultimately show ?thesis by simp
qed

function count_bits_loop :: "u32 \<Rightarrow> int \<Rightarrow> int" where
  "count_bits_loop x n = (if x = 0 then n else count_bits_loop (x AND (x - 1)) (n + 1))"
  by pat_completeness auto
termination
  by (relation "measure (\<lambda>(x, _). unat x)") (simp_all add: and_pred_less)

declare count_bits_loop.simps [simp del]

definition count_set_bits :: "ipv4_addr \<Rightarrow> int" where
  "count_set_bits a = (case a of Ipv4 a0 a1 a2 a3 \<Rightarrow>
     count_bits_loop (ucast a0 OR push_bit 8 (ucast a1) OR push_bit 16 (ucast a2) OR push_bit 24 (ucast a3)) 0)"

text \<open>
  The search: the best match so far is \<^term>\<open>None\<close> as long as \<open>match_found\<close> is not set, and the
  entry otherwise. The number of bits starts at 0.
\<close>

fun route_best ::
  "ipv4_addr \<Rightarrow> ipv4_route_entry option list \<Rightarrow> int \<Rightarrow> ipv4_route_entry option \<Rightarrow> ipv4_route_entry option" where
  "route_best dest_ip [] best_n_bits best = best"
| "route_best dest_ip (slot # slots) best_n_bits best =
     (case slot of
        None \<Rightarrow> route_best dest_ip slots best_n_bits best
      | Some ent \<Rightarrow>
          let masked = ipv4_addr_mask dest_ip (re_mask ent); n_bits = count_set_bits (re_mask ent) in
          if ipv4_addr_is_equal masked (re_dest ent) \<and> n_bits \<ge> best_n_bits
          then route_best dest_ip slots n_bits (Some ent)
          else route_best dest_ip slots best_n_bits best)"

definition ipv4_route_get_entry :: "ipv4_addr \<Rightarrow> ('d, 'z) ip_net_scheme \<Rightarrow> ipv4_route_entry option" where
  "ipv4_route_get_entry dest_ip s = route_best dest_ip (route_table s) 0 None"

definition ipv4_route_interface_addr :: "ipv4_addr \<Rightarrow> ('d, 'z) ip_net_scheme \<Rightarrow> ipv4_addr res" where
  "ipv4_route_interface_addr dest_ip s =
     (case ipv4_route_get_entry dest_ip s of
        None \<Rightarrow> Inl EHOSTUNREACH
      | Some route \<Rightarrow> Inr (re_interface route))"

definition ipv4_route_mtu :: "ipv4_addr \<Rightarrow> ('d, 'z) ip_net_scheme \<Rightarrow> sz res" where
  "ipv4_route_mtu dest_ip s =
     (case ipv4_route_get_entry dest_ip s of
        None \<Rightarrow> Inl EHOSTUNREACH
      | Some route \<Rightarrow>
          (case netdev_lookup_ip_addr (re_interface route) s of
             None \<Rightarrow> Inl ENODEV
           | Some netdev \<Rightarrow> Inr (max 0 (nd_mtu netdev - IPV4_HEADER_SIZE))))"

section \<open>Sending\<close>

definition ipv4_make_header :: "ipv4_addr \<Rightarrow> ipv4_addr \<Rightarrow> u8 \<Rightarrow> sz \<Rightarrow> ipv4_header" where
  "ipv4_make_header src_ip dest_ip proto len =
     (let ip_hdr = \<lparr>ih_ihl = 5, ih_version = 4, ih_ds_ecn = 0,
        ih_total_length = net_u16_from_u16 (word_of_int (IPV4_HEADER_SIZE + len)),
        ih_ident = net_u16_from_u16 0, ih_fragment_offset = net_u16_from_u16 0, ih_ttl = 64,
        ih_protocol = proto, ih_checksum = net_u16_from_u16 0, ih_src_addr = src_ip, ih_dest_addr = dest_ip\<rparr> in
      ip_hdr\<lparr>ih_checksum := internet_checksum (ipv4_header_bytes ip_hdr)\<rparr>)"

definition ipv4_prepend_header ::
  "ipv4_addr \<Rightarrow> ipv4_addr \<Rightarrow> u8 \<Rightarrow> send_buf \<Rightarrow> (unit res \<times> send_buf) option" where
  "ipv4_prepend_header src_ip dest_ip proto sb = do {
     kassert (IPV4_HEADER_SIZE + send_buf_total_length sb \<le> 65535);
     let ip_hdr = ipv4_make_header src_ip dest_ip proto (send_buf_total_length sb);
     kassert (ipv4_checksum_is_ok (ipv4_header_bytes ip_hdr));
     (buf, sb) \<leftarrow> send_buf_prepend sb IPV4_HEADER_SIZE;
     case buf of
       None \<Rightarrow> Some (Inl ENOMEM, sb)
     | Some buf \<Rightarrow> do {
         (n, sb) \<leftarrow> part_append sb buf (ipv4_header_bytes ip_hdr);
         kassert (n = IPV4_HEADER_SIZE);
         Some (ok, sb)
       }
   }"

definition ipv4_send_packet ::
  "ipv4_addr \<Rightarrow> u8 \<Rightarrow> send_buf \<Rightarrow> ('d, 'z) ip_net_scheme \<Rightarrow> (unit res \<times> ('d, 'z) ip_net_scheme) option" where
  "ipv4_send_packet dest_ip proto sb s =
     (case ipv4_route_get_entry dest_ip s of
        None \<Rightarrow> Some (Inl EHOSTUNREACH, s)
      | Some route \<Rightarrow>
          (case netdev_lookup_ip_addr (re_interface route) s of
             None \<Rightarrow> Some (Inl ENODEV, s)
           | Some netdev \<Rightarrow>
               let gateway_ip =
                 (if ipv4_addr_is_equal (re_gateway route) (re_interface route) then dest_ip
                  else re_gateway route) in do {
                 gateway_mac_opt \<leftarrow> arp_lookup_mac_addr gateway_ip (arp_table s);
                 case gateway_mac_opt of
                   None \<Rightarrow> do {
                     (_, s) \<leftarrow> arp_send_request gateway_ip netdev (send_buf_clear sb) s;
                     Some (Inl EAGAIN, s)
                   }
                 | Some gateway_mac \<Rightarrow> do {
                     (r, sb) \<leftarrow> ipv4_prepend_header (nd_ip_addr netdev) dest_ip proto sb;
                     if is_error r then Some (r, s)
                     else netdev_send gateway_mac netdev NETDEV_PROTO_IPV4 sb s
                   }
               }))"

section \<open>Counting bits\<close>

fun popcount :: "nat \<Rightarrow> nat" where
  "popcount n = (if n = 0 then 0 else n mod 2 + popcount (n div 2))"

declare popcount.simps [simp del]

lemma and_pred_even: "(2 * m) AND (2 * m - 1) = 2 * (m AND (m - 1))" for m :: nat
proof (cases m)
  case (Suc k)
  have "2 * Suc k AND Suc (2 * k) = 2 * (Suc k AND k)"
    by (subst and_rec) simp
  then show ?thesis using Suc by simp
qed simp

lemma and_pred_odd: "odd n \<Longrightarrow> n AND (n - 1) = n - 1" for n :: nat
proof -
  assume "odd n"
  then obtain k where n: "n = 2 * k + 1" by (elim oddE)
  have "Suc (2 * k) AND (2 * k) = 2 * k"
    by (subst and_rec) simp
  then show ?thesis by (simp add: n)
qed

lemma popcount_step: "n \<noteq> 0 \<Longrightarrow> popcount n = Suc (popcount (n AND (n - 1)))"
proof (induction n rule: popcount.induct)
  case (1 n)
  show ?case
  proof (cases "even n")
    case True
    then obtain m where n: "n = 2 * m" by (elim evenE)
    then have m: "m \<noteq> 0" "popcount m = Suc (popcount (m AND (m - 1)))" using 1 by auto
    have "popcount n = popcount m" using m(1) by (subst popcount.simps) (simp add: n)
    moreover have "popcount (2 * k) = popcount k" for k by (subst popcount.simps) (simp add: popcount.simps [of 0])
    ultimately show ?thesis using m(2) and_pred_even [of m] by (simp add: n)
  next
    case False
    then have "n AND (n - 1) = n - 1" by (rule and_pred_odd)
    moreover obtain k where n: "n = Suc (2 * k)" using False by (elim oddE) simp
    moreover have "popcount (2 * k) = popcount k" for k by (subst popcount.simps) (simp add: popcount.simps [of 0])
    moreover have "popcount (Suc (2 * k)) = Suc (popcount k)" by (subst popcount.simps) simp
    ultimately show ?thesis by simp
  qed
qed

lemma count_bits_loop_popcount: "count_bits_loop x c = c + int (popcount (unat x))"
proof (induction x c rule: count_bits_loop.induct)
  case (1 x c)
  show ?case
  proof (cases "x = 0")
    case True
    then show ?thesis by (subst count_bits_loop.simps) (simp add: popcount.simps)
  next
    case False
    have "unat (x AND (x - 1)) = unat x AND (unat x - 1)"
      using False by (simp add: unsigned_and_eq unat_minus_one)
    then have "popcount (unat x) = Suc (popcount (unat (x AND (x - 1))))"
      using False popcount_step [of "unat x"] by (simp add: unat_eq_zero)
    then show ?thesis using 1 [OF False] False by (subst count_bits_loop.simps) simp
  qed
qed

lemma count_set_bits_nonneg: "0 \<le> count_set_bits a"
  by (cases a) (simp add: count_set_bits_def count_bits_loop_popcount)

section \<open>The routing decision\<close>

definition routes :: "('d, 'z) ip_net_scheme \<Rightarrow> ipv4_route_entry set" where
  "routes s = {ent. Some ent \<in> set (route_table s)}"

definition route_matches :: "ipv4_addr \<Rightarrow> ipv4_route_entry \<Rightarrow> bool" where
  "route_matches dest_ip ent \<longleftrightarrow> ipv4_addr_mask dest_ip (re_mask ent) = re_dest ent"

definition route_bits :: "ipv4_route_entry \<Rightarrow> int" where
  "route_bits ent = count_set_bits (re_mask ent)"

lemma route_best_spec:
  assumes "case best of None \<Rightarrow> n = 0 | Some b \<Rightarrow> n = route_bits b"
  shows "case route_best d t n best of
      None \<Rightarrow> best = None \<and> (\<forall>e. Some e \<in> set t \<longrightarrow> \<not> route_matches d e)
    | Some r \<Rightarrow> (best = Some r \<or> Some r \<in> set t \<and> route_matches d r) \<and> n \<le> route_bits r \<and>
        (\<forall>e. Some e \<in> set t \<longrightarrow> route_matches d e \<longrightarrow> route_bits e \<le> route_bits r)"
  using assms
proof (induction t arbitrary: n best)
  case Nil
  then show ?case by (auto split: option.splits)
next
  case (Cons x t)
  show ?case
  proof (cases x)
    case None
    then show ?thesis using Cons.IH [OF Cons.prems] by (auto split: option.splits)
  next
    case (Some e)
    show ?thesis
    proof (cases "route_matches d e \<and> n \<le> route_bits e")
      case True
      have "case route_best d t (route_bits e) (Some e) of
          None \<Rightarrow> False
        | Some r \<Rightarrow> (e = r \<or> Some r \<in> set t \<and> route_matches d r) \<and> route_bits e \<le> route_bits r \<and>
            (\<forall>e. Some e \<in> set t \<longrightarrow> route_matches d e \<longrightarrow> route_bits e \<le> route_bits r)"
        using Cons.IH [where best = "Some e" and n = "route_bits e"] by (auto split: option.splits)
      moreover have "route_best d (x # t) n best = route_best d t (route_bits e) (Some e)"
        using True Some by (simp add: route_matches_def route_bits_def Let_def)
      ultimately show ?thesis using True Some by (auto split: option.splits)
    next
      case False
      then have eq: "route_best d (x # t) n best = route_best d t n best"
        using Some by (auto simp: route_matches_def route_bits_def Let_def)
      have n: "best = None \<Longrightarrow> n \<le> route_bits e"
        using Cons.prems count_set_bits_nonneg by (auto simp: route_bits_def)
      show ?thesis using Cons.IH [OF Cons.prems] False Some n unfolding eq
        by (fastforce split: option.splits)
    qed
  qed
qed

text \<open>
  C37: routing is longest-prefix matching: \<open>ipv4_route_get_entry\<close> finds nothing exactly when no
  entry matches the destination, and otherwise an entry of the table that matches and whose mask
  has at least as many bits as the mask of every other matching entry.
\<close>

theorem route_longest_match:
  "case ipv4_route_get_entry dest_ip s of
     None \<Rightarrow> \<forall>ent \<in> routes s. \<not> route_matches dest_ip ent
   | Some r \<Rightarrow> r \<in> routes s \<and> route_matches dest_ip r \<and>
       (\<forall>ent \<in> routes s. route_matches dest_ip ent \<longrightarrow> route_bits ent \<le> route_bits r)"
  using route_best_spec [where best = None and n = 0 and d = dest_ip and t = "route_table s"]
  by (auto simp: ipv4_route_get_entry_def routes_def split: option.splits)

definition sample_routes :: "byte list ip_net" where
  "sample_routes = arp_net.extend (net.extend (sample_net\<lparr>net_table := [Some (sample_dev\<lparr>nd_ip_addr := Ipv4 10 0 0 2\<rparr>)]\<rparr>)
       \<lparr>arp_table = sample_arp_table\<rparr>)
     \<lparr>route_table = [
        Some \<lparr>re_dest = Ipv4 0 0 0 0, re_mask = Ipv4 0 0 0 0, re_gateway = Ipv4 10 0 0 1, re_interface = Ipv4 10 0 0 2\<rparr>,
        None,
        Some \<lparr>re_dest = Ipv4 10 0 0 0, re_mask = Ipv4 255 255 255 0, re_gateway = Ipv4 10 0 0 2,
          re_interface = Ipv4 10 0 0 2\<rparr>]\<rparr>"

theorem route_longest_match_witness:
  "Some \<lparr>re_dest = Ipv4 10 0 0 0, re_mask = Ipv4 255 255 255 0, re_gateway = Ipv4 10 0 0 2,
      re_interface = Ipv4 10 0 0 2\<rparr> = ipv4_route_get_entry (Ipv4 10 0 0 9) sample_routes \<and>
   (case ipv4_route_get_entry (Ipv4 10 0 0 9) sample_routes of
     None \<Rightarrow> \<forall>ent \<in> routes sample_routes. \<not> route_matches (Ipv4 10 0 0 9) ent
   | Some r \<Rightarrow> r \<in> routes sample_routes \<and> route_matches (Ipv4 10 0 0 9) r \<and>
       (\<forall>ent \<in> routes sample_routes. route_matches (Ipv4 10 0 0 9) ent \<longrightarrow> route_bits ent \<le> route_bits r))"
  by (intro conjI route_longest_match)
    (simp add: ipv4_route_get_entry_def sample_routes_def arp_net.extend_def count_set_bits_def
      count_bits_loop.simps Let_def)

section \<open>Datagrams\<close>

lemma ipv4_header_bytes_length [simp]: "length (ipv4_header_bytes h) = 20"
  by (simp add: ipv4_header_bytes_def)

lemma and_0xf: "(x :: u8) AND 0xf = take_bit 4 x"
proof -
  have "(0xf :: u8) = mask 4" by (simp add: mask_eq_exp_minus_1)
  then show ?thesis by (simp only: take_bit_eq_mask)
qed

lemma nibbles:
  assumes "(i :: u8) < 16" "v < 16"
  shows "((i AND 0xf) OR push_bit 4 v) AND 0xf = i" "drop_bit 4 ((i AND 0xf) OR push_bit 4 v) = v"
proof -
  have lt: "\<not> bit x n" if "4 \<le> n" "(x :: u8) < 16" for x n
  proof -
    have "(16 :: nat) = 2 ^ 4" by simp
    also have "(2 :: nat) ^ 4 \<le> 2 ^ n" using that(1) by (intro power_increasing) simp_all
    finally have "unat x div 2 ^ n = 0" using that(2) by (simp add: word_less_nat_alt)
    then have "\<not> bit (unat x) n" by (simp add: bit_iff_odd)
    then show ?thesis by (simp add: bit_unsigned_iff bit_imp_le_length)
  qed
  show "((i AND 0xf) OR push_bit 4 v) AND 0xf = i"
    unfolding and_0xf by (rule bit_word_eqI) (use lt assms in \<open>auto simp: bit_simps\<close>)
  show "drop_bit 4 ((i AND 0xf) OR push_bit 4 v) = v"
    unfolding and_0xf
    by (rule bit_word_eqI) (use lt [OF _ assms(2)] in \<open>auto simp: bit_simps dest: bit_imp_le_length\<close>, meson not_less)
qed

lemma ipv4_header_roundtrip:
  assumes "ih_ihl h < 16" "ih_version h < 16"
  shows "ipv4_header_of (ipv4_header_bytes h @ rest) = h"
proof -
  let ?b0 = "(ih_ihl h AND 0xf) OR push_bit 4 (ih_version h)"
  have "u16_at (ipv4_header_bytes h @ rest) 2 = ih_total_length h"
    "u16_at (ipv4_header_bytes h @ rest) 4 = ih_ident h"
    "u16_at (ipv4_header_bytes h @ rest) 6 = ih_fragment_offset h"
    "u16_at (ipv4_header_bytes h @ rest) 10 = ih_checksum h"
    "ipv4_addr_at (ipv4_header_bytes h @ rest) 12 = ih_src_addr h"
    "ipv4_addr_at (ipv4_header_bytes h @ rest) 16 = ih_dest_addr h"
    using u16_at_le_bytes16 [of "[?b0, ih_ds_ecn h]" 2 "ih_total_length h"]
      u16_at_le_bytes16 [of "[?b0, ih_ds_ecn h] @ le_bytes16 (ih_total_length h)" 4 "ih_ident h"]
      u16_at_le_bytes16 [of "[?b0, ih_ds_ecn h] @ le_bytes16 (ih_total_length h) @ le_bytes16 (ih_ident h)" 6 "ih_fragment_offset h"]
      u16_at_le_bytes16 [of "[?b0, ih_ds_ecn h] @ le_bytes16 (ih_total_length h) @ le_bytes16 (ih_ident h) @
        le_bytes16 (ih_fragment_offset h) @ [ih_ttl h, ih_protocol h]" 10 "ih_checksum h"]
      ipv4_addr_at_bytes [of "[?b0, ih_ds_ecn h] @ le_bytes16 (ih_total_length h) @ le_bytes16 (ih_ident h) @
        le_bytes16 (ih_fragment_offset h) @ [ih_ttl h, ih_protocol h] @ le_bytes16 (ih_checksum h)" 12 "ih_src_addr h"]
      ipv4_addr_at_bytes [of "[?b0, ih_ds_ecn h] @ le_bytes16 (ih_total_length h) @ le_bytes16 (ih_ident h) @
        le_bytes16 (ih_fragment_offset h) @ [ih_ttl h, ih_protocol h] @ le_bytes16 (ih_checksum h) @
        ipv4_addr_bytes (ih_src_addr h)" 16 "ih_dest_addr h"]
    by (simp_all add: ipv4_header_bytes_def)
  then show ?thesis using nibbles [OF assms]
    by (simp add: ipv4_header_of_def) (simp add: ipv4_header_bytes_def nth_append)
qed

text \<open>The header that the layer makes always passes its own checksum test.\<close>

lemma ipv4_make_header_ok: "ipv4_checksum_is_ok (ipv4_header_bytes (ipv4_make_header src dst proto len))"
proof -
  let ?t = "net_u16_from_u16 (word_of_int (20 + len))"
  let ?pre = "[(5 AND 0xf) OR push_bit 4 4, 0] @ le_bytes16 ?t @ le_bytes16 0 @ le_bytes16 0 @ [64, proto] :: byte list"
  let ?post = "ipv4_addr_bytes src @ ipv4_addr_bytes dst"
  have z: "le_bytes16 0 = [0, 0]" by (simp add: le_bytes16_def)
  have "even (length ?pre)" "length ?pre + 2 + length ?post \<le> 65536" by simp_all
  note c = checksum_field [OF this, of 0]
  have m: "ipv4_header_bytes (ipv4_make_header src dst proto len) =
      ?pre @ le_bytes16 (internet_checksum (?pre @ [0, 0] @ ?post)) @ ?post"
    by (simp add: ipv4_make_header_def IPV4_HEADER_SIZE_def ipv4_header_bytes_def z)
  show ?thesis using c unfolding ipv4_checksum_is_ok_def m
    by (simp add: IPV4_HEADER_SIZE_def internet_checksum_def internet_checksum_finalize_def)
qed

lemma ipv4_prepend_header_ok:
  assumes "wf_sb sb" "sb_n_used sb < 8" "length (sb_content sb) \<le> 65515"
    and "arena_alloc (sb_arn sb) 20 = Some (a, arn')"
  shows "\<exists>sb'. ipv4_prepend_header src dst proto sb = Some (ok, sb') \<and> wf_sb sb' \<and>
    sb_n_used sb' = Suc (sb_n_used sb) \<and> sb_arn sb' = arn' \<and>
    sb_content sb' = ipv4_header_bytes (ipv4_make_header src dst proto (int (length (sb_content sb)))) @ sb_content sb"
proof -
  let ?i = "sb_n_used sb"
  let ?h = "ipv4_header_bytes (ipv4_make_header src dst proto (int (length (sb_content sb))))"
  obtain sb1 where sb1: "send_buf_prepend sb 20 = Some (Some ?i, sb1)" "wf_sb sb1" "sb_n_used sb1 = Suc ?i"
    "take ?i (sb_parts sb1) = take ?i (sb_parts sb)" "sb_parts sb1 ! ?i = byte_buf_from_array (replicate 20 0)"
    "sb_arn sb1 = arn'"
    using send_buf_prepend_ok [of sb 20 a arn'] assms by (auto simp: SEND_BUF_NUM_PARTS_def)
  obtain sb2 where sb2: "part_append sb1 ?i ?h = Some (20, sb2)" "wf_sb sb2"
    "sb_n_used sb2 = Suc ?i" "take ?i (sb_parts sb2) = take ?i (sb_parts sb)" "sb_arn sb2 = arn'"
    "byte_view_from_buf (sb_parts sb2 ! ?i) = ?h"
    using part_append_ok [OF sb1(2,3), of ?h] sb1(4-6) by (auto simp: room_at_def)
  have "sb_content sb2 = ?h @ sb_content sb"
    using sb_content_newest [OF sb2(2,3)] sb2(4,6) by (simp add: sb_content_def)
  then show ?thesis using sb1(1) sb2 assms(1,3) ipv4_make_header_ok
    by (simp add: ipv4_prepend_header_def IPV4_HEADER_SIZE_def total_length_content)
qed

text \<open>Where a packet goes: a frame to the next hop, or a request for its address.\<close>

lemma ipv4_send_outcome:
  assumes "ipv4_route_get_entry dest_ip s = Some route"
    and "netdev_lookup_ip_addr (re_interface route) s = Some nd" and "nd_link_type nd = NETDEV_LINK_TYPE_ETHERNET"
    and "arp_ok (arp_table s)" and "wf_sb sb" and "sb_n_used sb < 7" and "length (sb_content sb) \<le> 65515"
    and "arena_alloc (sb_arn sb) 20 = Some (a, arn1)" and "arena_alloc arn1 14 = Some (b, arn2)"
    and "arena_alloc (sb_orig_arn sb) 28 = Some (c, arn3)" and "arena_alloc arn3 14 = Some (d, arn4)"
    and "hop = (if re_gateway route = re_interface route then dest_ip else re_gateway route)"
  shows "case arp_map (arp_table s) hop of
      Some mac \<Rightarrow> \<exists>sb'. sb_content sb' = frame_to mac nd 0x0800
          (ipv4_header_bytes (ipv4_make_header (nd_ip_addr nd) dest_ip proto (int (length (sb_content sb)))) @
           sb_content sb) \<and>
        ipv4_send_packet dest_ip proto sb s =
          map_option (\<lambda>(r, drv). (r, s\<lparr>net_drv := drv\<rparr>)) (nd_send_frame nd sb' (net_drv s))
    | None \<Rightarrow> \<exists>sb'. sb_content sb' = frame_to MAC_ADDR_BROADCAST nd 0x0806
          (arp_packet_bytes ARP_OPCODE_REQUEST nd MAC_ADDR_BROADCAST hop) \<and>
        ipv4_send_packet dest_ip proto sb s =
          map_option (\<lambda>(r, drv). (Inl EAGAIN, s\<lparr>net_drv := drv\<rparr>)) (nd_send_frame nd sb' (net_drv s))"
proof -
  note look = arp_lookup_map [OF assms(4), of hop]
  have hop: "(if ipv4_addr_is_equal (re_gateway route) (re_interface route) then dest_ip else re_gateway route) = hop"
    using assms(12) by simp
  show ?thesis
proof (cases "arp_map (arp_table s) hop")
  case (Some mac)
  obtain sb1 where sb1: "ipv4_prepend_header (nd_ip_addr nd) dest_ip proto sb = Some (ok, sb1)" "wf_sb sb1"
    "sb_n_used sb1 < 8" "sb_arn sb1 = arn1"
    "sb_content sb1 = ipv4_header_bytes (ipv4_make_header (nd_ip_addr nd) dest_ip proto (int (length (sb_content sb)))) @ sb_content sb"
    using ipv4_prepend_header_ok [OF assms(5) _ assms(7,8)] assms(6) by fastforce
  have t: "ethernet_type_from_netdev_proto NETDEV_PROTO_IPV4 = Some 0x0800"
    by (simp add: ethernet_type_from_netdev_proto_def ETHERNET_PTYPE_IPV4_def)
  have "arena_alloc (sb_arn sb1) 14 = Some (b, arn2)" using sb1(4) assms(9) by simp
  from netdev_send_frame [OF sb1(2,3) this assms(3) t, of mac s] obtain sb' where
    "sb_content sb' = frame_to mac nd 0x0800 (sb_content sb1)"
    "netdev_send mac nd NETDEV_PROTO_IPV4 sb1 s =
      map_option (\<lambda>(r, drv). (r, s\<lparr>net_drv := drv\<rparr>)) (nd_send_frame nd sb' (net_drv s))" by blast
  moreover have "ipv4_send_packet dest_ip proto sb s = netdev_send mac nd NETDEV_PROTO_IPV4 sb1 s"
    unfolding ipv4_send_packet_def Let_def assms(1,2) option.case hop look by (simp add: Some sb1(1))
  ultimately show ?thesis unfolding Some option.case sb1(5) by (intro exI [of _ sb'] conjI) simp_all
next
  case None
  let ?sb = "send_buf_clear sb"
  have sb: "wf_sb ?sb" "sb_n_used ?sb < 7" "sb_content ?sb = []" "sb_arn ?sb = sb_orig_arn sb"
    using assms(5) by (simp_all add: send_buf_clear_def sb_content_def wf_sb_def)
  from arp_send_common_frame [OF sb(1-3) _ assms(11,3), of c MAC_ADDR_BROADCAST ARP_OPCODE_REQUEST hop s] obtain sb' where
    "sb_content sb' = frame_to MAC_ADDR_BROADCAST nd 0x0806 (arp_packet_bytes ARP_OPCODE_REQUEST nd MAC_ADDR_BROADCAST hop)"
    "arp_send_request hop nd ?sb s =
      map_option (\<lambda>(r, drv). (r, s\<lparr>net_drv := drv\<rparr>)) (nd_send_frame nd sb' (net_drv s))"
    using assms(10) sb(4) by (auto simp: arp_send_request_def)
  moreover have "ipv4_send_packet dest_ip proto sb s =
      map_option (\<lambda>(r, s). (Inl EAGAIN, s)) (arp_send_request hop nd ?sb s)"
    unfolding ipv4_send_packet_def Let_def assms(1,2) option.case hop look
    by (cases "arp_send_request hop nd ?sb s") (auto simp: None)
  ultimately show ?thesis unfolding None option.case
    by (intro exI [of _ sb'] conjI) (simp_all add: option.map_comp comp_def case_prod_beta')
qed
qed

text \<open>
  C35: sending a datagram to a routable destination through an Ethernet device. When the address
  of the next hop (the destination itself, or the gateway of the route) is in the ARP table, the
  device gets one frame to its MAC address: link header, a valid IPv4 header, and the payload
  unchanged. Otherwise the device gets an ARP request for the next hop, and the caller \<open>EAGAIN\<close>.
\<close>

theorem ipv4_send_reaches_next_hop:
  assumes "ipv4_route_get_entry dest_ip s = Some route"
    and "netdev_lookup_ip_addr (re_interface route) s = Some nd" and "nd_link_type nd = NETDEV_LINK_TYPE_ETHERNET"
    and "arp_ok (arp_table s)" and "wf_sb sb" and "sb_n_used sb < 7" and "length (sb_content sb) \<le> 65515"
    and "arena_alloc (sb_arn sb) 20 = Some (a, arn1)" and "arena_alloc arn1 14 = Some (b, arn2)"
    and "arena_alloc (sb_orig_arn sb) 28 = Some (c, arn3)" and "arena_alloc arn3 14 = Some (d, arn4)"
    and "hop = (if re_gateway route = re_interface route then dest_ip else re_gateway route)"
  shows "case arp_map (arp_table s) hop of
      Some mac \<Rightarrow> \<exists>sb'. sb_content sb' = frame_to mac nd 0x0800
          (ipv4_header_bytes (ipv4_make_header (nd_ip_addr nd) dest_ip proto (int (length (sb_content sb)))) @
           sb_content sb) \<and>
        ipv4_send_packet dest_ip proto sb s =
          map_option (\<lambda>(r, drv). (r, s\<lparr>net_drv := drv\<rparr>)) (nd_send_frame nd sb' (net_drv s))
    | None \<Rightarrow> \<exists>sb'. sb_content sb' = frame_to MAC_ADDR_BROADCAST nd 0x0806
          (arp_packet_bytes ARP_OPCODE_REQUEST nd MAC_ADDR_BROADCAST hop) \<and>
        ipv4_send_packet dest_ip proto sb s =
          map_option (\<lambda>(r, drv). (Inl EAGAIN, s\<lparr>net_drv := drv\<rparr>)) (nd_send_frame nd sb' (net_drv s))"
  by (rule ipv4_send_outcome [OF assms])

abbreviation sample_net_dev :: "byte list netdev" where
  "sample_net_dev \<equiv> sample_dev\<lparr>nd_ip_addr := Ipv4 10 0 0 2\<rparr>"

abbreviation sample_route :: ipv4_route_entry where
  "sample_route \<equiv> \<lparr>re_dest = Ipv4 0 0 0 0, re_mask = Ipv4 0 0 0 0, re_gateway = Ipv4 10 0 0 1, re_interface = Ipv4 10 0 0 2\<rparr>"

lemma sample_route_lookup: "ipv4_route_get_entry (Ipv4 8 8 8 8) sample_routes = Some sample_route"
  by (simp add: ipv4_route_get_entry_def sample_routes_def arp_net.extend_def count_set_bits_def
      count_bits_loop.simps Let_def)

lemma sample_sb_arena:
  "arena_alloc (sb_arn (send_buf_new (arena_new 4096 4096))) 20 = Some (4096, \<lparr>ar_beg = 4116, ar_end = 8192\<rparr>)"
  "arena_alloc \<lparr>ar_beg = 4116, ar_end = 8192\<rparr> 14 = Some (4120, \<lparr>ar_beg = 4134, ar_end = 8192\<rparr>)"
  "arena_alloc (sb_orig_arn (send_buf_new (arena_new 4096 4096))) 28 = Some (4096, \<lparr>ar_beg = 4124, ar_end = 8192\<rparr>)"
  "arena_alloc \<lparr>ar_beg = 4124, ar_end = 8192\<rparr> 14 = Some (4128, \<lparr>ar_beg = 4142, ar_end = 8192\<rparr>)"
  by (simp_all add: send_buf_new_def arena_new_def arena_alloc_def arena_alloc_aligned_def)

theorem ipv4_send_reaches_next_hop_witness:
  "let sb = send_buf_new (arena_new 4096 4096); s = sample_routes in
   case arp_map (arp_table s) (Ipv4 10 0 0 1) of
      Some mac \<Rightarrow> \<exists>sb'. sb_content sb' = frame_to mac sample_net_dev 0x0800
          (ipv4_header_bytes (ipv4_make_header (nd_ip_addr sample_net_dev) (Ipv4 8 8 8 8) 1 (int (length (sb_content sb)))) @
           sb_content sb) \<and>
        ipv4_send_packet (Ipv4 8 8 8 8) 1 sb s =
          map_option (\<lambda>(r, drv). (r, s\<lparr>net_drv := drv\<rparr>)) (nd_send_frame sample_net_dev sb' (net_drv s))
    | None \<Rightarrow> \<exists>sb'. sb_content sb' = frame_to MAC_ADDR_BROADCAST sample_net_dev 0x0806
          (arp_packet_bytes ARP_OPCODE_REQUEST sample_net_dev MAC_ADDR_BROADCAST (Ipv4 10 0 0 1)) \<and>
        ipv4_send_packet (Ipv4 8 8 8 8) 1 sb s =
          map_option (\<lambda>(r, drv). (Inl EAGAIN, s\<lparr>net_drv := drv\<rparr>)) (nd_send_frame sample_net_dev sb' (net_drv s))"
  unfolding Let_def
  by (rule ipv4_send_reaches_next_hop [OF sample_route_lookup _ _ _ _ _ _ sample_sb_arena])
    (simp_all add: sample_routes_def netdev_lookup_ip_addr_def sample_dev_def arp_net.extend_def net.extend_def
      sample_net_def sample_arp_table_def arp_ok_def)

end
