(* ===== verification/Icmp.thy ===== *)
theory Icmp
  imports Ip
begin

text \<open>
  ICMP for IPv4 (src/net/icmp.c): answering echo requests and sending them.
\<close>

definition ICMPV4_TYPE_ECHO_REPLY :: u8 where "ICMPV4_TYPE_ECHO_REPLY = 0"
definition ICMPV4_TYPE_ECHO :: u8 where "ICMPV4_TYPE_ECHO = 8"

record icmpv4_header =
  ic_type :: u8
  ic_code :: u8
  ic_checksum :: net_u16

definition icmpv4_header_bytes :: "icmpv4_header \<Rightarrow> byte list" where
  "icmpv4_header_bytes h = [ic_type h, ic_code h] @ le_bytes16 (ic_checksum h)"

definition icmpv4_header_of :: "byte list \<Rightarrow> icmpv4_header" where
  "icmpv4_header_of bs = \<lparr>ic_type = bs ! 0, ic_code = bs ! 1, ic_checksum = u16_at bs 2\<rparr>"

record icmpv4_echo_message =
  ice_ident :: net_u16
  ice_seq :: net_u16

definition icmpv4_echo_bytes :: "icmpv4_echo_message \<Rightarrow> byte list" where
  "icmpv4_echo_bytes m = le_bytes16 (ice_ident m) @ le_bytes16 (ice_seq m)"

definition icmpv4_checksum_is_ok :: "byte list \<Rightarrow> bool" where
  "icmpv4_checksum_is_ok message \<longleftrightarrow> internet_checksum message = 0"

text \<open>\<open>dat[1] = internet_checksum(...)\<close>: the second 16-bit word of the newest part is overwritten.\<close>

definition patch_checksum :: "send_buf \<Rightarrow> nat \<Rightarrow> send_buf option" where
  "patch_checksum sb i = do {
     p \<leftarrow> peek (sb_parts sb) (int i);
     dat \<leftarrow> write_at (bb_dat p) 2 (le_bytes16 (internet_checksum (byte_view_from_buf p)));
     parts \<leftarrow> poke (sb_parts sb) (int i) (p\<lparr>bb_dat := dat\<rparr>);
     Some (sb\<lparr>sb_parts := parts\<rparr>)
   }"

definition icmpv4_send_echo ::
  "ipv4_addr \<Rightarrow> u16 \<Rightarrow> u16 \<Rightarrow> send_buf \<Rightarrow> ('d, 'z) ip_net_scheme \<Rightarrow> (unit res \<times> ('d, 'z) ip_net_scheme) option" where
  "icmpv4_send_echo dest_addr ident seq sb s = do {
     let icmp_hdr = \<lparr>ic_type = ICMPV4_TYPE_ECHO, ic_code = 0, ic_checksum = net_u16_from_u16 0\<rparr>;
     let icmp_echo = \<lparr>ice_ident = net_u16_from_u16 ident, ice_seq = net_u16_from_u16 seq\<rparr>;
     let n_data_bytes = 40;
     (reply_buf, sb) \<leftarrow> send_buf_prepend sb (4 + 4 + n_data_bytes);
     case reply_buf of
       None \<Rightarrow> Some (Inl ENOMEM, s)
     | Some i \<Rightarrow> do {
         (n, sb) \<leftarrow> part_append sb i (icmpv4_header_bytes icmp_hdr);
         kassert (n = 4);
         (n, sb) \<leftarrow> part_append sb i (icmpv4_echo_bytes icmp_echo);
         kassert (n = 4);
         (n, sb) \<leftarrow> part_append_n sb i n_data_bytes 0xb0;
         kassert (n = n_data_bytes);
         sb \<leftarrow> patch_checksum sb i;
         ipv4_send_packet dest_addr IPV4_PROTOCOL_ICMP sb s
       }
   }"

definition icmpv4_handle_echo ::
  "ipv4_addr \<Rightarrow> icmpv4_header \<Rightarrow> byte list \<Rightarrow> send_buf \<Rightarrow> ('d, 'z) ip_net_scheme \<Rightarrow>
     (unit res \<times> ('d, 'z) ip_net_scheme) option" where
  "icmpv4_handle_echo dest_addr hdr data sb s =
     (if length data < 4 then Some (ok, s)
      else if ic_code hdr \<noteq> 0 then Some (ok, s)
      else do {
        let icmp_hdr = \<lparr>ic_type = ICMPV4_TYPE_ECHO_REPLY, ic_code = 0, ic_checksum = net_u16_from_u16 0\<rparr>;
        (reply_buf, sb) \<leftarrow> send_buf_prepend sb (4 + int (length data));
        case reply_buf of
          None \<Rightarrow> Some (Inl ENOMEM, s)
        | Some i \<Rightarrow> do {
            (n, sb) \<leftarrow> part_append sb i (icmpv4_header_bytes icmp_hdr);
            kassert (n = 4);
            (n, sb) \<leftarrow> part_append sb i data;
            kassert (n = int (length data));
            sb \<leftarrow> patch_checksum sb i;
            ipv4_send_packet dest_addr IPV4_PROTOCOL_ICMP sb s
          }
      })"

definition icmpv4_handle_echo_reply ::
  "icmpv4_header \<Rightarrow> byte list \<Rightarrow> ('d, 'z) ip_net_scheme \<Rightarrow> (unit res \<times> ('d, 'z) ip_net_scheme) option" where
  "icmpv4_handle_echo_reply hdr data s =
     (if length data < 4 then Some (ok, s)
      else if ic_code hdr \<noteq> 0 then Some (ok, s)
      else Some (ok, s))"

definition icmpv4_handle_message ::
  "ipv4_addr \<Rightarrow> byte list \<Rightarrow> send_buf \<Rightarrow> ('d, 'z) ip_net_scheme \<Rightarrow> (unit res \<times> ('d, 'z) ip_net_scheme) option" where
  "icmpv4_handle_message src_addr message sb s =
     (if length message < 4 then Some (ok, s)
      else if \<not> icmpv4_checksum_is_ok message then Some (ok, s)
      else do {
        let icmp_hdr = icmpv4_header_of message;
        data \<leftarrow> byte_view_skip message 4;
        if ic_type icmp_hdr = ICMPV4_TYPE_ECHO then icmpv4_handle_echo src_addr icmp_hdr data sb s
        else if ic_type icmp_hdr = ICMPV4_TYPE_ECHO_REPLY then icmpv4_handle_echo_reply icmp_hdr data s
        else Some (ok, s)
      })"

section \<open>Replies\<close>

definition icmp_with_checksum :: "u8 \<Rightarrow> byte list \<Rightarrow> byte list" where
  "icmp_with_checksum t data = [t, 0] @ le_bytes16 (internet_checksum ([t, 0] @ [0, 0] @ data)) @ data"

lemma patch_checksum_ok:
  assumes "wf_sb sb" "sb_n_used sb = Suc i" "byte_view_from_buf (sb_parts sb ! i) = [t, 0, 0, 0] @ data"
  shows "\<exists>sb'. patch_checksum sb i = Some sb' \<and> wf_sb sb' \<and> sb_n_used sb' = Suc i \<and> sb_arn sb' = sb_arn sb \<and>
    sb_orig_arn sb' = sb_orig_arn sb \<and> take i (sb_parts sb') = take i (sb_parts sb) \<and>
    byte_view_from_buf (sb_parts sb' ! i) = icmp_with_checksum t data"
proof -
  let ?p = "sb_parts sb ! i"
  let ?c = "le_bytes16 (internet_checksum (byte_view_from_buf ?p))"
  have i: "i < length (sb_parts sb)" "wf_buf ?p" using wf_sb_parts [OF assms(1), of i] assms(2) by auto
  have n: "nat (bb_len ?p) = 4 + length data" "nat (bb_len ?p) \<le> length (bb_dat ?p)"
    using byte_view_from_buf_length [OF i(2)] assms(3) i(2) by (auto simp: wf_buf_def)
  let ?dat = "take 2 (bb_dat ?p) @ ?c @ drop 4 (bb_dat ?p)"
  have w: "write_at (bb_dat ?p) 2 ?c = Some ?dat"
    using n write_at_eq [of 2 ?c "bb_dat ?p"] by simp
  have v: "take (4 + length data) (bb_dat ?p) = [t, 0, 0, 0] @ data"
    using assms(3) n(1) by (simp add: byte_view_from_buf_def)
  have t2: "take 2 (bb_dat ?p) = [t, 0]"
    using arg_cong [OF v, of "take 2"] by (simp add: min_def)
  have d4: "take (length data) (drop 4 (bb_dat ?p)) = data"
    using arg_cong [OF v, of "drop 4"] by (simp add: take_drop add.commute)
  have l: "length ?dat = length (bb_dat ?p)" using n by simp
  have "byte_view_from_buf (?p\<lparr>bb_dat := ?dat\<rparr>) = take (4 + length data) ?dat"
    using n(1) by (simp add: byte_view_from_buf_def)
  also have "\<dots> = ([t, 0] @ ?c) @ take (length data) (drop 4 (bb_dat ?p))"
  proof -
    have "length ([t, 0] @ ?c) = 4" by simp
    then show ?thesis unfolding t2 append_assoc [symmetric] by (simp only: take_append) simp
  qed
  finally have bv: "byte_view_from_buf (?p\<lparr>bb_dat := ?dat\<rparr>) = icmp_with_checksum t data"
    by (simp add: icmp_with_checksum_def assms(3) d4)
  have "wf_sb (sb\<lparr>sb_parts := (sb_parts sb)[i := ?p\<lparr>bb_dat := ?dat\<rparr>]\<rparr>)"
    using assms(1,2) i l unfolding wf_sb_def wf_buf_def
    by (auto simp: take_Suc_conv_app_nth take_update_cancel)
  then show ?thesis using w i bv assms(2) by (simp add: patch_checksum_def take_update_cancel)
qed

lemma icmp_with_checksum_ok:
  assumes "length data \<le> 65532"
  shows "icmpv4_checksum_is_ok (icmp_with_checksum t data)"
proof -
  have "even (length [t, 0])" "length [t, 0] + 2 + length data \<le> 65536" using assms by simp_all
  note c = checksum_field [OF this, of 0]
  show ?thesis using c
    by (simp add: icmpv4_checksum_is_ok_def icmp_with_checksum_def internet_checksum_def internet_checksum_finalize_def)
qed

text \<open>The reply, for any empty send buffer.\<close>

lemma icmp_echo_reply:
  assumes "icmpv4_checksum_is_ok message" and "message = [ICMPV4_TYPE_ECHO, 0, c0, c1] @ data"
    and "4 \<le> length data" and "length data \<le> 65511"
    and "wf_sb sb" and "sb_n_used sb = 0" and "arena_alloc (sb_arn sb) (4 + int (length data)) = Some (a, arn')"
  shows "\<exists>sb'. wf_sb sb' \<and> sb_arn sb' = arn' \<and> sb_orig_arn sb' = sb_orig_arn sb \<and> sb_n_used sb' = 1 \<and>
    sb_content sb' = icmp_with_checksum ICMPV4_TYPE_ECHO_REPLY data \<and>
    icmpv4_checksum_is_ok (sb_content sb') \<and>
    icmpv4_handle_message src_addr message sb s =
      ipv4_send_packet src_addr IPV4_PROTOCOL_ICMP sb' s"
proof -
  let ?sb = sb
  let ?n = "4 + int (length data)"
  obtain sb1 where sb1: "send_buf_prepend ?sb ?n = Some (Some 0, sb1)" "wf_sb sb1" "sb_n_used sb1 = Suc 0"
    "sb_parts sb1 ! 0 = byte_buf_from_array (replicate (nat ?n) 0)" "sb_arn sb1 = arn'" "sb_orig_arn sb1 = sb_orig_arn sb"
    using send_buf_prepend_ok [of ?sb ?n a arn'] assms(5-7) by (auto simp: SEND_BUF_NUM_PARTS_def)
  obtain sb2 where sb2: "part_append sb1 0 [0, 0, 0, 0] = Some (4, sb2)" "wf_sb sb2" "sb_n_used sb2 = Suc 0"
    "sb_arn sb2 = arn'" "sb_orig_arn sb2 = sb_orig_arn sb" "room_at sb2 0 = int (length data)"
    "byte_view_from_buf (sb_parts sb2 ! 0) = [0, 0, 0, 0]"
    using part_append_ok [OF sb1(2,3), of "[0, 0, 0, 0]"] sb1(4-6) by (auto simp: room_at_def)
  obtain sb3 where sb3: "part_append sb2 0 data = Some (int (length data), sb3)" "wf_sb sb3" "sb_n_used sb3 = Suc 0"
    "sb_arn sb3 = arn'" "sb_orig_arn sb3 = sb_orig_arn sb" "byte_view_from_buf (sb_parts sb3 ! 0) = [0, 0, 0, 0] @ data"
    using part_append_ok [OF sb2(2,3), of data] sb2(4-7) by auto
  obtain sb4 where sb4: "patch_checksum sb3 0 = Some sb4" "wf_sb sb4" "sb_n_used sb4 = Suc 0" "sb_arn sb4 = arn'" "sb_orig_arn sb4 = sb_orig_arn sb"
    "byte_view_from_buf (sb_parts sb4 ! 0) = icmp_with_checksum 0 data"
    using patch_checksum_ok [OF sb3(2,3), of 0 data] sb3(4-6) by auto
  have c: "sb_content sb4 = icmp_with_checksum ICMPV4_TYPE_ECHO_REPLY data"
    using sb_content_newest [OF sb4(2,3)] sb4(6) by (simp add: ICMPV4_TYPE_ECHO_REPLY_def)
  have h: "icmpv4_header_bytes \<lparr>ic_type = ICMPV4_TYPE_ECHO_REPLY, ic_code = 0, ic_checksum = net_u16_from_u16 0\<rparr> = [0, 0, 0, 0]"
    by (simp add: icmpv4_header_bytes_def ICMPV4_TYPE_ECHO_REPLY_def le_bytes16_def)
  have "icmpv4_handle_echo src_addr \<lparr>ic_type = ICMPV4_TYPE_ECHO, ic_code = 0, ic_checksum = u16_at message 2\<rparr> data ?sb s =
      ipv4_send_packet src_addr IPV4_PROTOCOL_ICMP sb4 s"
    using assms(3) sb1(1) sb2(1) sb3(1) sb4(1) h by (simp add: icmpv4_handle_echo_def)
  then have "icmpv4_handle_message src_addr message ?sb s = ipv4_send_packet src_addr IPV4_PROTOCOL_ICMP sb4 s"
    using assms(1,3) unfolding icmpv4_handle_message_def assms(2)
    by (simp add: byte_view_skip_def icmpv4_header_of_def ICMPV4_TYPE_ECHO_def)
  then show ?thesis using sb4 c icmp_with_checksum_ok [of data] assms(4) by auto
qed

text \<open>
  An echo request with a valid checksum is answered: the IPv4 layer is asked to send to the
  sender one echo reply that carries the same identifier, sequence number and data, and whose
  checksum is valid again.
\<close>

theorem icmp_echo_is_answered:
  assumes "icmpv4_checksum_is_ok message" and "message = [ICMPV4_TYPE_ECHO, 0, c0, c1] @ data"
    and "4 \<le> length data" and "length data \<le> 65511"
    and "arena_alloc arn (4 + int (length data)) = Some (a, arn')"
  shows "\<exists>sb'. wf_sb sb' \<and> sb_arn sb' = arn' \<and> sb_n_used sb' = 1 \<and>
    sb_content sb' = icmp_with_checksum ICMPV4_TYPE_ECHO_REPLY data \<and>
    icmpv4_checksum_is_ok (sb_content sb') \<and>
    icmpv4_handle_message src_addr message (send_buf_new arn) s =
      ipv4_send_packet src_addr IPV4_PROTOCOL_ICMP sb' s"
  using icmp_echo_reply [OF assms(1-4), of "send_buf_new arn" a arn' src_addr s] assms(5)
  by auto

theorem icmp_echo_is_answered_witness:
  "\<exists>sb'. wf_sb sb' \<and> sb_arn sb' = \<lparr>ar_beg = 4105, ar_end = 8192\<rparr> \<and> sb_n_used sb' = 1 \<and>
    sb_content sb' = icmp_with_checksum ICMPV4_TYPE_ECHO_REPLY [0, 1, 0, 2, 0xaa] \<and>
    icmpv4_checksum_is_ok (sb_content sb') \<and>
    icmpv4_handle_message (Ipv4 10 0 0 9) [8, 0, 0x4d, 0xfc, 0, 1, 0, 2, 0xaa] (send_buf_new (arena_new 4096 4096)) sample_routes =
      ipv4_send_packet (Ipv4 10 0 0 9) IPV4_PROTOCOL_ICMP sb' sample_routes"
proof (rule icmp_echo_is_answered [of _ "0x4d" "0xfc" _ _ 4096])
  show "icmpv4_checksum_is_ok [8, 0, 0x4d, 0xfc, 0, 1, 0, 2, 0xaa]" by code_simp
qed (simp_all add: ICMPV4_TYPE_ECHO_def arena_new_def arena_alloc_def arena_alloc_aligned_def)

end
