(* ===== verification/TcpConn.thy ===== *)
theory TcpConn
  imports CircBuf Dlist Time Icmp
begin

text \<open>
  TCP connections (src/net/tcp.c): the connection table, allocation and lookup, the sequence
  numbers, and the segments that are sent. A pointer to a connection is its index in
  \<open>tcp_conn_table\<close>. The links of \<open>accept_queue\<close> of connection \<open>i\<close> are node \<open>i\<close> of the list memory
  \<open>tcp_links\<close>. The state extends the state of the IP layer by the static variables of tcp.c and
  by what TCP uses of the rest of the kernel: the allocator, the clock, and the random numbers
  of the processor as the stream of the results of \<open>rdrand\<close> (\<^term>\<open>None\<close>: not successful). The
  temporary arenas of the functions are only used for debug output and are left out.
\<close>

section \<open>Segments\<close>

record tcp_header =
  th_src_port :: net_u16
  th_dest_port :: net_u16
  th_seq_num :: net_u32
  th_ack_num :: net_u32
  th_reserved :: u8
  th_header_len :: u8
  th_flags :: u8
  th_window_size :: net_u16
  th_checksum :: net_u16
  th_urgent :: net_u16

text \<open>The two 4-bit fields share a byte; on a little-endian machine \<open>reserved\<close> is the low half.\<close>

definition tcp_header_bytes :: "tcp_header \<Rightarrow> byte list" where
  "tcp_header_bytes h =
     le_bytes16 (th_src_port h) @ le_bytes16 (th_dest_port h) @ le_bytes32 (th_seq_num h) @
     le_bytes32 (th_ack_num h) @ [(th_reserved h AND 0xf) OR push_bit 4 (th_header_len h), th_flags h] @
     le_bytes16 (th_window_size h) @ le_bytes16 (th_checksum h) @ le_bytes16 (th_urgent h)"

definition tcp_header_of :: "byte list \<Rightarrow> tcp_header" where
  "tcp_header_of bs =
     \<lparr>th_src_port = u16_at bs 0, th_dest_port = u16_at bs 2, th_seq_num = u32_at bs 4,
      th_ack_num = u32_at bs 8, th_reserved = bs ! 12 AND 0xf, th_header_len = drop_bit 4 (bs ! 12),
      th_flags = bs ! 13, th_window_size = u16_at bs 14, th_checksum = u16_at bs 16, th_urgent = u16_at bs 18\<rparr>"

definition TCP_HEADER_SIZE :: sz where "TCP_HEADER_SIZE = 20"
definition TCP_HEADER_LEN_NO_OPT :: u8 where "TCP_HEADER_LEN_NO_OPT = 5"

definition TCP_HDR_FLAG_FIN :: u8 where "TCP_HDR_FLAG_FIN = 0x01"
definition TCP_HDR_FLAG_SYN :: u8 where "TCP_HDR_FLAG_SYN = 0x02"
definition TCP_HDR_FLAG_RST :: u8 where "TCP_HDR_FLAG_RST = 0x04"
definition TCP_HDR_FLAG_ACK :: u8 where "TCP_HDR_FLAG_ACK = 0x10"

definition has_flag :: "u8 \<Rightarrow> u8 \<Rightarrow> bool" where
  "has_flag flags f \<longleftrightarrow> flags AND f \<noteq> 0"

record tcp_ip_pseudo_header =
  ph_src_addr :: ipv4_addr
  ph_dest_addr :: ipv4_addr
  ph_zero :: u8
  ph_protocol :: u8
  ph_tcp_length :: net_u16

definition pseudo_header_bytes :: "tcp_ip_pseudo_header \<Rightarrow> byte list" where
  "pseudo_header_bytes h =
     ipv4_addr_bytes (ph_src_addr h) @ ipv4_addr_bytes (ph_dest_addr h) @ [ph_zero h, ph_protocol h] @
     le_bytes16 (ph_tcp_length h)"

section \<open>Connections\<close>

text \<open>The last constructor stands for every bit pattern that is not a value of the enumeration.\<close>

datatype tcp_conn_state =
    LISTEN | SYN_RCVD | ESTABLISHED | CLOSE_WAIT | LAST_ACK | FIN_WAIT_1 | FIN_WAIT_2 | CLOSING
  | TIME_WAIT | RESET | INVALID_STATE

definition TCP_CONN_RECV_WINDOW_SIZE :: u16 where "TCP_CONN_RECV_WINDOW_SIZE = 0x2000"

record tcp_conn =
  tc_is_used :: bool
  tc_host_addr :: ipv4_addr
  tc_peer_addr :: ipv4_addr
  tc_host_port :: u16
  tc_peer_port :: u16
  tc_state :: tcp_conn_state
  tc_send_unack :: u32
  tc_send_next :: u32
  tc_send_window :: u16
  tc_iss :: u32
  tc_recv_next :: u32
  tc_recv_window :: u16
  tc_recv_buf :: circ_buf
  tc_time_wait_start :: time_ms

definition TCP_CONN_MAX_NUM :: nat where "TCP_CONN_MAX_NUM = 64"

record 'd tcp_net = "'d ip_net" +
  tcp_conn_table :: "tcp_conn list"
  tcp_links :: "nat heap"
  tcp_kv :: kvalloc
  tcp_clock :: clock
  tcp_rdrand :: "nat \<Rightarrow> u64 option"
  tcp_rdrand_reads :: nat

definition conn_at :: "('d, 'z) tcp_net_scheme \<Rightarrow> nat \<Rightarrow> tcp_conn option" where
  "conn_at s c = peek (tcp_conn_table s) (int c)"

definition conn_update ::
  "nat \<Rightarrow> (tcp_conn \<Rightarrow> tcp_conn) \<Rightarrow> ('d, 'z) tcp_net_scheme \<Rightarrow> ('d, 'z) tcp_net_scheme option" where
  "conn_update c f s = do {
     conn \<leftarrow> conn_at s c;
     table \<leftarrow> poke (tcp_conn_table s) (int c) (f conn);
     Some (s\<lparr>tcp_conn_table := table\<rparr>)
   }"

text \<open>The content of the structure after \<open>byte_array_set(..., 0xee)\<close> and \<open>is_used = false\<close>.\<close>

definition freed_conn :: tcp_conn where
  "freed_conn =
     \<lparr>tc_is_used = False, tc_host_addr = Ipv4 0xee 0xee 0xee 0xee, tc_peer_addr = Ipv4 0xee 0xee 0xee 0xee,
      tc_host_port = 0xeeee, tc_peer_port = 0xeeee, tc_state = INVALID_STATE, tc_send_unack = 0xeeeeeeee,
      tc_send_next = 0xeeeeeeee, tc_send_window = 0xeeee, tc_iss = 0xeeeeeeee, tc_recv_next = 0xeeeeeeee,
      tc_recv_window = 0xeeee,
      tc_recv_buf = \<lparr>cb_addr = 0xeeeeeeeeeeeeeeee, cb_len = - 0x1111111111111112, cb_dat = [],
        cb_head = - 0x1111111111111112, cb_tail = - 0x1111111111111112\<rparr>,
      tc_time_wait_start = 0xeeeeeeeeeeeeeeee\<rparr>"

definition freed_links :: "nat dlist" where
  "freed_links = \<lparr>dl_prev = Some 0xeeeeeeeeeeeeeeee, dl_next = Some 0xeeeeeeeeeeeeeeee\<rparr>"

definition tcp_free_conn :: "nat \<Rightarrow> ('d, 'z) tcp_net_scheme \<Rightarrow> ('d, 'z) tcp_net_scheme option" where
  "tcp_free_conn c s = do {
     conn \<leftarrow> conn_at s c;
     (buf, kv) \<leftarrow> circ_buf_free (tc_recv_buf conn) (tcp_kv s);
     links \<leftarrow> dlist_remove (tcp_links s) c;
     conn_update c (\<lambda>_. freed_conn) (s\<lparr>tcp_kv := kv, tcp_links := links(c \<mapsto> freed_links)\<rparr>)
   }"

definition tcp_time_ms :: "('d, 'z) tcp_net_scheme \<Rightarrow> (time_ms \<times> ('d, 'z) tcp_net_scheme) option" where
  "tcp_time_ms s = do { (t, ck) \<leftarrow> time_current_ms (tcp_clock s); Some (t, s\<lparr>tcp_clock := ck\<rparr>) }"

fun purge_loop :: "nat list \<Rightarrow> ('d, 'z) tcp_net_scheme \<Rightarrow> ('d, 'z) tcp_net_scheme option" where
  "purge_loop [] s = Some s"
| "purge_loop (i # is) s = do {
     conn \<leftarrow> conn_at s i;
     if tc_is_used conn \<and> tc_state conn = TIME_WAIT then do {
       (t, s) \<leftarrow> tcp_time_ms s;
       if t \<ge> tc_time_wait_start conn then do { s \<leftarrow> tcp_free_conn i s; purge_loop is s }
       else purge_loop is s
     }
     else purge_loop is s
   }"

definition tcp_purge_old_conn :: "('d, 'z) tcp_net_scheme \<Rightarrow> ('d, 'z) tcp_net_scheme option" where
  "tcp_purge_old_conn s = purge_loop [0..<TCP_CONN_MAX_NUM] s"

text \<open>The loops over the table: the index of the first connection that satisfies the test.\<close>

fun first_conn :: "(tcp_conn \<Rightarrow> bool) \<Rightarrow> nat list \<Rightarrow> ('d, 'z) tcp_net_scheme \<Rightarrow> nat option option" where
  "first_conn P [] s = Some None"
| "first_conn P (i # is) s = do {
     conn \<leftarrow> conn_at s i;
     if P conn then Some (Some i) else first_conn P is s
   }"

definition tcp_alloc_conn :: "('d, 'z) tcp_net_scheme \<Rightarrow> (nat option \<times> ('d, 'z) tcp_net_scheme) option" where
  "tcp_alloc_conn s = do {
     s \<leftarrow> tcp_purge_old_conn s;
     c \<leftarrow> first_conn (\<lambda>conn. \<not> tc_is_used conn) [0..<TCP_CONN_MAX_NUM] s;
     case c of
       None \<Rightarrow> Some (None, s)
     | Some c \<Rightarrow> do { s \<leftarrow> conn_update c (\<lambda>conn. conn\<lparr>tc_is_used := True\<rparr>) s; Some (Some c, s) }
   }"

definition ipv4_addr_wildcard_compare :: "ipv4_addr \<Rightarrow> ipv4_addr \<Rightarrow> bool" where
  "ipv4_addr_wildcard_compare a b =
     (let zero = ipv4_addr_new 0 0 0 0 in
      if ipv4_addr_is_equal a zero \<or> ipv4_addr_is_equal b zero then True else ipv4_addr_is_equal a b)"

definition port_wildcard_compare :: "u16 \<Rightarrow> u16 \<Rightarrow> bool" where
  "port_wildcard_compare a b = (if a = 0 \<or> b = 0 then True else a = b)"

definition conn_matches :: "ipv4_addr \<Rightarrow> ipv4_addr \<Rightarrow> u16 \<Rightarrow> u16 \<Rightarrow> bool \<Rightarrow> tcp_conn \<Rightarrow> bool" where
  "conn_matches host_addr peer_addr host_port peer_port use_peer_wildcards conn \<longleftrightarrow>
     tc_is_used conn \<and>
     (if use_peer_wildcards
      then ipv4_addr_is_equal host_addr (tc_host_addr conn) \<and>
        ipv4_addr_wildcard_compare peer_addr (tc_peer_addr conn) \<and> host_port = tc_host_port conn \<and>
        port_wildcard_compare peer_port (tc_peer_port conn)
      else ipv4_addr_is_equal host_addr (tc_host_addr conn) \<and> ipv4_addr_is_equal peer_addr (tc_peer_addr conn) \<and>
        host_port = tc_host_port conn \<and> peer_port = tc_peer_port conn)"

definition tcp_lookup_conn ::
  "ipv4_addr \<Rightarrow> ipv4_addr \<Rightarrow> u16 \<Rightarrow> u16 \<Rightarrow> bool \<Rightarrow> ('d, 'z) tcp_net_scheme \<Rightarrow>
     (nat option \<times> ('d, 'z) tcp_net_scheme) option" where
  "tcp_lookup_conn host_addr peer_addr host_port peer_port use_peer_wildcards s = do {
     s \<leftarrow> tcp_purge_old_conn s;
     c \<leftarrow> first_conn (conn_matches host_addr peer_addr host_port peer_port use_peer_wildcards)
       [0..<TCP_CONN_MAX_NUM] s;
     Some (c, s)
   }"

definition tcp_fmt_conn :: "ipv4_addr \<Rightarrow> ipv4_addr \<Rightarrow> u16 \<Rightarrow> u16 \<Rightarrow> arena \<Rightarrow> (byte list \<times> arena) option" where
  "tcp_fmt_conn host_addr peer_addr host_port peer_port arn = do {
     (ba, arn) \<leftarrow> byte_array_from_arena 128 arn;
     (host, arn) \<leftarrow> ipv4_addr_format host_addr arn;
     (peer, arn) \<leftarrow> ipv4_addr_format peer_addr arn;
     (res, sbuf) \<leftarrow> fmt_vfmt (byte_buf_from_array ba) (cstr ''%s:%hu %s:%hu'')
        [ArgStr (Some host), Arg32 (ucast host_port), ArgStr (Some peer), Arg32 (ucast peer_port)];
     kassert (\<not> is_error res);
     Some (byte_view_from_buf sbuf, arn)
   }"

definition tcp_generate_isn :: "('d, 'z) tcp_net_scheme \<Rightarrow> u32 res \<times> ('d, 'z) tcp_net_scheme" where
  "tcp_generate_isn s =
     (case tcp_rdrand s (tcp_rdrand_reads s) of None \<Rightarrow> Inl EIO | Some isn_raw \<Rightarrow> Inr (ucast isn_raw),
      s\<lparr>tcp_rdrand_reads := Suc (tcp_rdrand_reads s)\<rparr>)"

definition init_conn :: "ipv4_addr \<Rightarrow> u16 \<Rightarrow> tcp_conn_state \<Rightarrow> u32 \<Rightarrow> tcp_conn \<Rightarrow> tcp_conn" where
  "init_conn host_addr host_port state isn conn =
     conn\<lparr>tc_host_addr := host_addr, tc_peer_addr := ipv4_addr_new 0 0 0 0, tc_host_port := host_port,
       tc_peer_port := 0, tc_state := state, tc_recv_next := 0, tc_recv_window := TCP_CONN_RECV_WINDOW_SIZE,
       tc_recv_buf := \<lparr>cb_addr = 0, cb_len = 0, cb_dat = [], cb_head = 0, cb_tail = 0\<rparr>,
       tc_iss := isn, tc_send_unack := isn, tc_send_next := isn, tc_send_window := 0, tc_time_wait_start := 0\<rparr>"

definition tcp_conn_alloc_and_init ::
  "ipv4_addr \<Rightarrow> u16 \<Rightarrow> tcp_conn_state \<Rightarrow> ('d, 'z) tcp_net_scheme \<Rightarrow>
     (nat option \<times> ('d, 'z) tcp_net_scheme) option" where
  "tcp_conn_alloc_and_init host_addr host_port state s = do {
     (c, s) \<leftarrow> tcp_alloc_conn s;
     case c of
       None \<Rightarrow> Some (None, s)
     | Some c \<Rightarrow>
         let (isn_res, s) = tcp_generate_isn s in
         (case isn_res of
            Inl _ \<Rightarrow> do { s \<leftarrow> tcp_free_conn c s; Some (None, s) }
          | Inr isn \<Rightarrow> do {
              links \<leftarrow> dlist_init_empty (tcp_links s) c;
              s \<leftarrow> conn_update c (init_conn host_addr host_port state isn) (s\<lparr>tcp_links := links\<rparr>);
              Some (Some c, s)
            })
   }"

section \<open>Sequence numbers\<close>

definition seq_gt :: "u32 \<Rightarrow> u32 \<Rightarrow> bool" where
  "seq_gt a b \<longleftrightarrow> uint a - uint b > 0"

definition tcp_conn_update_send_state :: "tcp_header \<Rightarrow> tcp_conn \<Rightarrow> tcp_conn" where
  "tcp_conn_update_send_state hdr conn =
     (let ack_num = u32_from_net_u32 (th_ack_num hdr);
          conn = (if has_flag (th_flags hdr) TCP_HDR_FLAG_ACK \<and> seq_gt ack_num (tc_send_unack conn)
                  then conn\<lparr>tc_send_unack := ack_num\<rparr> else conn) in
      conn\<lparr>tc_send_window := u16_from_net_u16 (th_window_size hdr)\<rparr>)"

text \<open>Sums of a sequence number and a length are computed with 64 bits.\<close>

definition tcp_conn_update_recv_state :: "tcp_header \<Rightarrow> byte list \<Rightarrow> tcp_conn \<Rightarrow> (sz \<times> tcp_conn) option" where
  "tcp_conn_update_recv_state hdr payload conn =
     (let seq_num = u32_from_net_u32 (th_seq_num hdr); len = int (length payload);
          fin = (\<lambda>conn. if has_flag (th_flags hdr) TCP_HDR_FLAG_FIN then
              if uint seq_num + len \<noteq> uint (tc_recv_next conn) then Some (len, conn)
              else Some (len, conn\<lparr>tc_recv_next := tc_recv_next conn + 1\<rparr>)
            else Some (len, conn)) in
      if len > 0 then
        if seq_num \<noteq> tc_recv_next conn then Some (0, conn)
        else do {
          (write_res, buf) \<leftarrow> circ_buf_write (tc_recv_buf conn) payload;
          case write_res of
            Inl e \<Rightarrow> do { kassert (e = EAGAIN); Some (0, conn\<lparr>tc_recv_buf := buf\<rparr>) }
          | Inr _ \<Rightarrow> fin (conn\<lparr>tc_recv_buf := buf, tc_recv_next := tc_recv_next conn + word_of_int len\<rparr>)
        }
      else fin conn)"

section \<open>Sending segments\<close>

definition tcp_make_header :: "u16 \<Rightarrow> u16 \<Rightarrow> u32 \<Rightarrow> u32 \<Rightarrow> u8 \<Rightarrow> u16 \<Rightarrow> tcp_header" where
  "tcp_make_header host_port peer_port seq_num ack_num flags window_size =
     \<lparr>th_src_port = net_u16_from_u16 host_port, th_dest_port = net_u16_from_u16 peer_port,
      th_seq_num = net_u32_from_u32 seq_num, th_ack_num = net_u32_from_u32 ack_num, th_reserved = 0,
      th_header_len = TCP_HEADER_LEN_NO_OPT, th_flags = flags, th_window_size = net_u16_from_u16 window_size,
      th_checksum = net_u16_from_u16 0, th_urgent = net_u16_from_u16 0\<rparr>"

definition tcp_pseudo_header :: "ipv4_addr \<Rightarrow> ipv4_addr \<Rightarrow> sz \<Rightarrow> tcp_ip_pseudo_header" where
  "tcp_pseudo_header src dest len =
     \<lparr>ph_src_addr = src, ph_dest_addr = dest, ph_zero = 0, ph_protocol = IPV4_PROTOCOL_TCP,
      ph_tcp_length = net_u16_from_u16 (word_of_int len)\<rparr>"

definition tcp_checksum :: "tcp_header \<Rightarrow> tcp_ip_pseudo_header \<Rightarrow> byte list \<Rightarrow> net_u16" where
  "tcp_checksum hdr pseudo_hdr payload =
     (let checksum = net_u16_from_u16 0;
          checksum = internet_checksum_iterate checksum (tcp_header_bytes hdr);
          checksum = internet_checksum_iterate checksum (pseudo_header_bytes pseudo_hdr);
          checksum = internet_checksum_iterate checksum payload in
      internet_checksum_finalize checksum)"

definition tcp_prepend :: "send_buf \<Rightarrow> byte list \<Rightarrow> (unit res \<times> send_buf) option" where
  "tcp_prepend sb bytes = do {
     (buf, sb) \<leftarrow> send_buf_prepend sb (int (length bytes));
     case buf of
       None \<Rightarrow> Some (Inl ENOMEM, sb)
     | Some buf \<Rightarrow> do {
         (n, sb) \<leftarrow> part_append sb buf bytes;
         kassert (n = int (length bytes));
         Some (ok, sb)
       }
   }"

definition tcp_send_segment_raw ::
  "ipv4_addr \<Rightarrow> ipv4_addr \<Rightarrow> u16 \<Rightarrow> u16 \<Rightarrow> u32 \<Rightarrow> u32 \<Rightarrow> u16 \<Rightarrow> u8 \<Rightarrow> byte list \<Rightarrow> send_buf \<Rightarrow>
     ('d, 'z) tcp_net_scheme \<Rightarrow> (unit res \<times> ('d, 'z) tcp_net_scheme) option" where
  "tcp_send_segment_raw host_addr peer_addr host_port peer_port seq_num ack_num window_size flags payload sb s =
     (case ipv4_route_interface_addr peer_addr s of
        Inl e \<Rightarrow> Some (Inl e, s)
      | Inr interface_addr \<Rightarrow> do {
          let flags = (if \<not> ipv4_addr_is_equal interface_addr host_addr then flags OR TCP_HDR_FLAG_RST else flags);
          let hdr = tcp_make_header host_port peer_port seq_num ack_num flags window_size;
          let pseudo_hdr = tcp_pseudo_header interface_addr peer_addr (TCP_HEADER_SIZE + int (length payload));
          let hdr = hdr\<lparr>th_checksum := tcp_checksum hdr pseudo_hdr payload\<rparr>;
          (r, sb) \<leftarrow> (if length payload > 0 then tcp_prepend sb payload else Some (ok, sb));
          if is_error r then Some (r, s)
          else do {
            (r, sb) \<leftarrow> tcp_prepend sb (tcp_header_bytes hdr);
            if is_error r then Some (r, s) else ipv4_send_packet peer_addr IPV4_PROTOCOL_TCP sb s
          }
        })"

definition tcp_send_window_avail :: "tcp_conn \<Rightarrow> u32" where
  "tcp_send_window_avail conn = (ucast (tc_send_window conn) + tc_send_unack conn) - tc_send_next conn"

definition tcp_send_segment ::
  "nat \<Rightarrow> u8 \<Rightarrow> byte list \<Rightarrow> send_buf \<Rightarrow> ('d, 'z) tcp_net_scheme \<Rightarrow>
     (sz res \<times> ('d, 'z) tcp_net_scheme) option" where
  "tcp_send_segment c flags payload sb s = do {
     conn \<leftarrow> conn_at s c;
     let n_send = min (uint (tcp_send_window_avail conn)) (int (length payload));
     (r, s) \<leftarrow> tcp_send_segment_raw (tc_host_addr conn) (tc_peer_addr conn) (tc_host_port conn) (tc_peer_port conn)
        (tc_send_next conn) (tc_recv_next conn) (tc_recv_window conn) flags (take (nat n_send) payload) sb s;
     case r of
       Inl e \<Rightarrow> Some (Inl e, s)
     | Inr _ \<Rightarrow> do {
         s \<leftarrow> conn_update c (\<lambda>conn. conn\<lparr>tc_send_next := tc_send_next conn + word_of_int n_send +
             (if has_flag flags TCP_HDR_FLAG_SYN then 1 else 0) +
             (if has_flag flags TCP_HDR_FLAG_FIN then 1 else 0)\<rparr>) s;
         Some (Inr n_send, s)
       }
   }"

definition tcp_send_segment_empty ::
  "nat \<Rightarrow> u8 \<Rightarrow> send_buf \<Rightarrow> ('d, 'z) tcp_net_scheme \<Rightarrow> (unit res \<times> ('d, 'z) tcp_net_scheme) option" where
  "tcp_send_segment_empty c flags sb s = do {
     (res, s) \<leftarrow> tcp_send_segment c flags [] sb s;
     case res of Inl e \<Rightarrow> Some (Inl e, s) | Inr _ \<Rightarrow> Some (ok, s)
   }"

end
