(* ===== verification/Tcp.thy ===== *)
theory Tcp
  imports TcpConn
begin

text \<open>
  TCP (src/net/tcp.c): the handling of incoming segments in each state of a connection, and the
  interface for the users of connections. The first sections are the code; the rest of the
  theory relates it to the state machine of the connections.
\<close>

section \<open>Handling incoming segments\<close>

definition set_state :: "nat \<Rightarrow> tcp_conn_state \<Rightarrow> ('d, 'z) tcp_net_scheme \<Rightarrow> ('d, 'z) tcp_net_scheme option" where
  "set_state c state s = conn_update c (\<lambda>conn. conn\<lparr>tc_state := state\<rparr>) s"

definition update_send_state :: "nat \<Rightarrow> tcp_header \<Rightarrow> ('d, 'z) tcp_net_scheme \<Rightarrow> ('d, 'z) tcp_net_scheme option" where
  "update_send_state c hdr s = conn_update c (tcp_conn_update_send_state hdr) s"

definition update_recv_state ::
  "nat \<Rightarrow> tcp_header \<Rightarrow> byte list \<Rightarrow> ('d, 'z) tcp_net_scheme \<Rightarrow> (sz \<times> ('d, 'z) tcp_net_scheme) option" where
  "update_recv_state c hdr payload s = do {
     conn \<leftarrow> conn_at s c;
     (n, conn) \<leftarrow> tcp_conn_update_recv_state hdr payload conn;
     s \<leftarrow> conn_update c (\<lambda>_. conn) s;
     Some (n, s)
   }"

definition start_time_wait :: "nat \<Rightarrow> ('d, 'z) tcp_net_scheme \<Rightarrow> ('d, 'z) tcp_net_scheme option" where
  "start_time_wait c s = do {
     s \<leftarrow> set_state c TIME_WAIT s;
     (t, s) \<leftarrow> tcp_time_ms s;
     conn_update c (\<lambda>conn. conn\<lparr>tc_time_wait_start := t\<rparr>) s
   }"

definition tcp_handle_receive_listen ::
  "nat \<Rightarrow> ipv4_addr \<Rightarrow> u16 \<Rightarrow> tcp_header \<Rightarrow> send_buf \<Rightarrow> ('d, 'z) tcp_net_scheme \<Rightarrow>
     (unit res \<times> ('d, 'z) tcp_net_scheme) option" where
  "tcp_handle_receive_listen listen peer_addr peer_port hdr sb s = do {
     listen_conn \<leftarrow> conn_at s listen;
     kassert (tc_state listen_conn = LISTEN);
     if has_flag (th_flags hdr) TCP_HDR_FLAG_RST then Some (ok, s)
     else if \<not> has_flag (th_flags hdr) TCP_HDR_FLAG_SYN then Some (ok, s)
     else do {
       kassert (ipv4_addr_is_equal (tc_peer_addr listen_conn) (ipv4_addr_new 0 0 0 0));
       kassert (tc_peer_port listen_conn = 0);
       (c, s) \<leftarrow> tcp_conn_alloc_and_init (tc_host_addr listen_conn) (tc_host_port listen_conn) SYN_RCVD s;
       case c of
         None \<Rightarrow> Some (Inl ENOMEM, s)
       | Some c \<Rightarrow> do {
           links \<leftarrow> dlist_insert (tcp_links s) listen c;
           s \<leftarrow> conn_update c (\<lambda>conn. conn\<lparr>tc_peer_addr := peer_addr, tc_peer_port := peer_port,
               tc_recv_next := u32_from_net_u32 (th_seq_num hdr) + 1\<rparr>) (s\<lparr>tcp_links := links\<rparr>);
           tcp_send_segment_empty c (TCP_HDR_FLAG_SYN OR TCP_HDR_FLAG_ACK) sb s
         }
     }
   }"

definition tcp_handle_receive_syn_rcvd ::
  "nat \<Rightarrow> tcp_header \<Rightarrow> send_buf \<Rightarrow> ('d, 'z) tcp_net_scheme \<Rightarrow> (unit res \<times> ('d, 'z) tcp_net_scheme) option" where
  "tcp_handle_receive_syn_rcvd c hdr sb s = do {
     conn \<leftarrow> conn_at s c;
     kassert (tc_state conn = SYN_RCVD);
     if has_flag (th_flags hdr) TCP_HDR_FLAG_RST then do { s \<leftarrow> tcp_free_conn c s; Some (ok, s) }
     else if \<not> has_flag (th_flags hdr) TCP_HDR_FLAG_ACK then Some (ok, s)
     else do {
       s \<leftarrow> set_state c ESTABLISHED s;
       s \<leftarrow> update_send_state c hdr s;
       conn \<leftarrow> conn_at s c;
       (res, buf, kv) \<leftarrow> circ_buf_alloc (tc_recv_buf conn) (uint (tc_recv_window conn)) (tcp_kv s);
       s \<leftarrow> conn_update c (\<lambda>conn. conn\<lparr>tc_recv_buf := buf\<rparr>) (s\<lparr>tcp_kv := kv\<rparr>);
       if is_error res then do {
         (_, s) \<leftarrow> tcp_send_segment_empty c TCP_HDR_FLAG_RST sb s;
         s \<leftarrow> tcp_free_conn c s;
         Some (Inl ENOMEM, s)
       }
       else Some (ok, s)
     }
   }"

definition tcp_handle_receive_established ::
  "nat \<Rightarrow> tcp_header \<Rightarrow> byte list \<Rightarrow> send_buf \<Rightarrow> ('d, 'z) tcp_net_scheme \<Rightarrow>
     (unit res \<times> ('d, 'z) tcp_net_scheme) option" where
  "tcp_handle_receive_established c hdr payload sb s = do {
     conn \<leftarrow> conn_at s c;
     kassert (tc_state conn = ESTABLISHED);
     s \<leftarrow> update_send_state c hdr s;
     (n_received, s) \<leftarrow> update_recv_state c hdr payload s;
     if has_flag (th_flags hdr) TCP_HDR_FLAG_RST then do { s \<leftarrow> set_state c RESET s; Some (ok, s) }
     else if has_flag (th_flags hdr) TCP_HDR_FLAG_FIN then do {
       s \<leftarrow> set_state c CLOSE_WAIT s;
       tcp_send_segment_empty c TCP_HDR_FLAG_ACK sb s
     }
     else if n_received > 0 then tcp_send_segment_empty c TCP_HDR_FLAG_ACK sb s
     else Some (ok, s)
   }"

definition tcp_handle_receive_last_ack ::
  "nat \<Rightarrow> tcp_header \<Rightarrow> ('d, 'z) tcp_net_scheme \<Rightarrow> ('d, 'z) tcp_net_scheme option" where
  "tcp_handle_receive_last_ack c hdr s = do {
     conn \<leftarrow> conn_at s c;
     kassert (tc_state conn = LAST_ACK);
     if has_flag (th_flags hdr) TCP_HDR_FLAG_ACK \<or> has_flag (th_flags hdr) TCP_HDR_FLAG_RST then tcp_free_conn c s
     else Some s
   }"

definition tcp_handle_receive_fin_wait_1 ::
  "nat \<Rightarrow> tcp_header \<Rightarrow> byte list \<Rightarrow> send_buf \<Rightarrow> ('d, 'z) tcp_net_scheme \<Rightarrow>
     (unit res \<times> ('d, 'z) tcp_net_scheme) option" where
  "tcp_handle_receive_fin_wait_1 c hdr payload sb s = do {
     conn \<leftarrow> conn_at s c;
     kassert (tc_state conn = FIN_WAIT_1);
     if has_flag (th_flags hdr) TCP_HDR_FLAG_RST then do { s \<leftarrow> tcp_free_conn c s; Some (ok, s) }
     else if has_flag (th_flags hdr) TCP_HDR_FLAG_FIN \<and> has_flag (th_flags hdr) TCP_HDR_FLAG_ACK then do {
       s \<leftarrow> start_time_wait c s;
       s \<leftarrow> update_send_state c hdr s;
       (_, s) \<leftarrow> update_recv_state c hdr payload s;
       tcp_send_segment_empty c TCP_HDR_FLAG_ACK sb s
     }
     else if has_flag (th_flags hdr) TCP_HDR_FLAG_FIN then do {
       s \<leftarrow> set_state c CLOSING s;
       s \<leftarrow> update_send_state c hdr s;
       (_, s) \<leftarrow> update_recv_state c hdr payload s;
       tcp_send_segment_empty c TCP_HDR_FLAG_ACK sb s
     }
     else if has_flag (th_flags hdr) TCP_HDR_FLAG_ACK then do {
       s \<leftarrow> set_state c FIN_WAIT_2 s;
       s \<leftarrow> update_send_state c hdr s;
       (_, s) \<leftarrow> update_recv_state c hdr payload s;
       Some (ok, s)
     }
     else Some (ok, s)
   }"

definition tcp_handle_receive_fin_wait_2 ::
  "nat \<Rightarrow> tcp_header \<Rightarrow> byte list \<Rightarrow> send_buf \<Rightarrow> ('d, 'z) tcp_net_scheme \<Rightarrow>
     (unit res \<times> ('d, 'z) tcp_net_scheme) option" where
  "tcp_handle_receive_fin_wait_2 c hdr payload sb s = do {
     conn \<leftarrow> conn_at s c;
     kassert (tc_state conn = FIN_WAIT_2);
     if has_flag (th_flags hdr) TCP_HDR_FLAG_RST then do { s \<leftarrow> tcp_free_conn c s; Some (ok, s) }
     else if \<not> has_flag (th_flags hdr) TCP_HDR_FLAG_FIN then Some (ok, s)
     else do {
       s \<leftarrow> start_time_wait c s;
       s \<leftarrow> update_send_state c hdr s;
       (_, s) \<leftarrow> update_recv_state c hdr payload s;
       tcp_send_segment_empty c TCP_HDR_FLAG_ACK sb s
     }
   }"

definition tcp_handle_receive_closing ::
  "nat \<Rightarrow> tcp_header \<Rightarrow> ('d, 'z) tcp_net_scheme \<Rightarrow> ('d, 'z) tcp_net_scheme option" where
  "tcp_handle_receive_closing c hdr s = do {
     conn \<leftarrow> conn_at s c;
     kassert (tc_state conn = CLOSING);
     if has_flag (th_flags hdr) TCP_HDR_FLAG_RST then tcp_free_conn c s
     else if \<not> has_flag (th_flags hdr) TCP_HDR_FLAG_ACK then Some s
     else do {
       s \<leftarrow> start_time_wait c s;
       update_send_state c hdr s
     }
   }"

definition tcp_handle_receive_time_wait ::
  "nat \<Rightarrow> tcp_header \<Rightarrow> byte list \<Rightarrow> send_buf \<Rightarrow> ('d, 'z) tcp_net_scheme \<Rightarrow>
     (unit res \<times> ('d, 'z) tcp_net_scheme) option" where
  "tcp_handle_receive_time_wait c hdr payload sb s = do {
     conn \<leftarrow> conn_at s c;
     kassert (tc_state conn = TIME_WAIT);
     if has_flag (th_flags hdr) TCP_HDR_FLAG_RST then do { s \<leftarrow> tcp_free_conn c s; Some (ok, s) }
     else do {
       s \<leftarrow> update_send_state c hdr s;
       (_, s) \<leftarrow> update_recv_state c hdr payload s;
       if \<not> has_flag (th_flags hdr) TCP_HDR_FLAG_FIN then Some (ok, s)
       else tcp_send_segment_empty c TCP_HDR_FLAG_ACK sb s
     }
   }"

definition tcp_checksum_is_ok :: "tcp_ip_pseudo_header \<Rightarrow> byte list \<Rightarrow> bool" where
  "tcp_checksum_is_ok pseudo_hdr segment \<longleftrightarrow>
     (let checksum = net_u16_from_u16 0;
          checksum = internet_checksum_iterate checksum (pseudo_header_bytes pseudo_hdr);
          checksum = internet_checksum_iterate checksum segment in
      internet_checksum_finalize checksum = 0)"

definition tcp_dispatch ::
  "nat \<Rightarrow> ipv4_addr \<Rightarrow> u16 \<Rightarrow> tcp_header \<Rightarrow> byte list \<Rightarrow> send_buf \<Rightarrow> ('d, 'z) tcp_net_scheme \<Rightarrow>
     (unit res \<times> ('d, 'z) tcp_net_scheme) option" where
  "tcp_dispatch c peer_addr peer_port hdr payload sb s = do {
     conn \<leftarrow> conn_at s c;
     case tc_state conn of
       LISTEN \<Rightarrow> tcp_handle_receive_listen c peer_addr peer_port hdr sb s
     | SYN_RCVD \<Rightarrow> tcp_handle_receive_syn_rcvd c hdr sb s
     | ESTABLISHED \<Rightarrow> tcp_handle_receive_established c hdr payload sb s
     | CLOSE_WAIT \<Rightarrow> Some (ok, s)
     | LAST_ACK \<Rightarrow> do { s \<leftarrow> tcp_handle_receive_last_ack c hdr s; Some (ok, s) }
     | FIN_WAIT_1 \<Rightarrow> tcp_handle_receive_fin_wait_1 c hdr payload sb s
     | FIN_WAIT_2 \<Rightarrow> tcp_handle_receive_fin_wait_2 c hdr payload sb s
     | CLOSING \<Rightarrow> do { s \<leftarrow> tcp_handle_receive_closing c hdr s; Some (ok, s) }
     | TIME_WAIT \<Rightarrow> tcp_handle_receive_time_wait c hdr payload sb s
     | RESET \<Rightarrow> Some (ok, s)
     | INVALID_STATE \<Rightarrow> crash
   }"

definition tcp_handle_packet ::
  "tcp_ip_pseudo_header \<Rightarrow> byte list \<Rightarrow> send_buf \<Rightarrow> ('d, 'z) tcp_net_scheme \<Rightarrow>
     (unit res \<times> ('d, 'z) tcp_net_scheme) option" where
  "tcp_handle_packet pseudo_hdr segment sb s =
     (if int (length segment) < TCP_HEADER_SIZE then Some (ok, s)
      else if \<not> tcp_checksum_is_ok pseudo_hdr segment then crash
      else
        let tcp_hdr = tcp_header_of segment in
        if th_header_len tcp_hdr < TCP_HEADER_LEN_NO_OPT then Some (ok, s)
        else do {
          payload \<leftarrow> byte_view_skip segment (uint (th_header_len tcp_hdr) * 4);
          let host_addr = ph_dest_addr pseudo_hdr;
          let peer_addr = ph_src_addr pseudo_hdr;
          let host_port = u16_from_net_u16 (th_dest_port tcp_hdr);
          let peer_port = u16_from_net_u16 (th_src_port tcp_hdr);
          (c, s) \<leftarrow> tcp_lookup_conn host_addr peer_addr host_port peer_port False s;
          (c, s) \<leftarrow> (case c of
              None \<Rightarrow> tcp_lookup_conn host_addr peer_addr host_port peer_port True s
            | Some c \<Rightarrow> Some (Some c, s));
          case c of
            None \<Rightarrow> tcp_send_segment_raw host_addr peer_addr host_port peer_port
                (u32_from_net_u32 (th_ack_num tcp_hdr)) (u32_from_net_u32 (th_seq_num tcp_hdr))
                (u16_from_net_u16 (th_window_size tcp_hdr)) TCP_HDR_FLAG_RST [] sb s
          | Some c \<Rightarrow> tcp_dispatch c peer_addr peer_port tcp_hdr payload sb s
        })"

section \<open>The user interface\<close>

definition tcp_conn_listen ::
  "ipv4_addr \<Rightarrow> u16 \<Rightarrow> ('d, 'z) tcp_net_scheme \<Rightarrow> (nat option \<times> ('d, 'z) tcp_net_scheme) option" where
  "tcp_conn_listen addr port s = do {
     (c, s) \<leftarrow> tcp_lookup_conn addr (ipv4_addr_new 0 0 0 0) port 0 True s;
     listening \<leftarrow> (case c of None \<Rightarrow> Some False
       | Some c \<Rightarrow> do { conn \<leftarrow> conn_at s c; Some (tc_state conn = LISTEN) });
     if listening then Some (c, s)
     else tcp_conn_alloc_and_init addr port LISTEN s
   }"

definition tcp_conn_accept :: "nat \<Rightarrow> ('d, 'z) tcp_net_scheme \<Rightarrow> (nat option \<times> ('d, 'z) tcp_net_scheme) option" where
  "tcp_conn_accept listen s = do {
     l \<leftarrow> tcp_links s listen;
     c \<leftarrow> dl_next l;
     if c = listen then Some (None, s)
     else do {
       conn \<leftarrow> conn_at s c;
       if tc_state conn \<noteq> ESTABLISHED then Some (None, s)
       else do {
         links \<leftarrow> dlist_remove (tcp_links s) c;
         Some (Some c, s\<lparr>tcp_links := links\<rparr>)
       }
     }
   }"

definition tcp_conn_closed_by_peer :: "tcp_conn_state \<Rightarrow> bool" where
  "tcp_conn_closed_by_peer state \<longleftrightarrow> state = CLOSE_WAIT \<or> state = RESET"

text \<open>
  The loop of \<open>tcp_conn_send\<close>; its \<open>mtu\<close> is never negative (see below). With an \<open>mtu\<close> of 0 it
  sends empty segments without end.
\<close>

partial_function (option) tcp_send_loop ::
  "nat \<Rightarrow> byte list \<Rightarrow> sz \<Rightarrow> sz \<Rightarrow> sz \<Rightarrow> send_buf \<Rightarrow> ('d, 'z) tcp_net_scheme \<Rightarrow>
     (sz res \<times> ('d, 'z) tcp_net_scheme) option" where
  "tcp_send_loop c payload mtu i n_sent sb s =
     (if \<not> i < int (length payload) then Some (Inr n_sent, s)
      else do {
        conn \<leftarrow> conn_at s c;
        if tcp_send_window_avail conn = 0 then Some (Inr n_sent, s)
        else do {
          let fragment = take (nat (min (int (length payload) - i) mtu)) (drop (nat i) payload);
          (res, s) \<leftarrow> tcp_send_segment c TCP_HDR_FLAG_ACK fragment sb s;
          case res of
            Inl e \<Rightarrow> Some (Inl e, s)
          | Inr n_fragment_sent \<Rightarrow>
              let n_sent = n_sent + n_fragment_sent in
              if n_fragment_sent < int (length fragment) then Some (Inr n_sent, s)
              else tcp_send_loop c payload mtu (i + mtu) n_sent sb s
        }
      })"

declare tcp_send_loop.simps [code]

text \<open>
  Sizes are signed (include/tx/base.h redefines \<open>sizeof\<close>), so an MTU that is smaller than the header
  gives 0.
\<close>

definition tcp_mtu :: "sz \<Rightarrow> sz" where
  "tcp_mtu mtu = max 0 (mtu - TCP_HEADER_SIZE)"

definition tcp_conn_send ::
  "nat \<Rightarrow> byte list \<Rightarrow> send_buf \<Rightarrow> ('d, 'z) tcp_net_scheme \<Rightarrow>
     (sz res \<times> bool \<times> ('d, 'z) tcp_net_scheme) option" where
  "tcp_conn_send c payload sb s = do {
     conn \<leftarrow> conn_at s c;
     let peer_closed_conn = tcp_conn_closed_by_peer (tc_state conn);
     case ipv4_route_mtu (tc_peer_addr conn) s of
       Inl e \<Rightarrow> Some (Inl e, peer_closed_conn, s)
     | Inr mtu \<Rightarrow> do {
         (res, s) \<leftarrow> tcp_send_loop c payload (tcp_mtu mtu) 0 0 sb s;
         Some (res, peer_closed_conn, s)
       }
   }"

definition tcp_conn_recv ::
  "nat \<Rightarrow> byte_buf \<Rightarrow> ('d, 'z) tcp_net_scheme \<Rightarrow> (sz res \<times> byte_buf \<times> bool \<times> ('d, 'z) tcp_net_scheme) option" where
  "tcp_conn_recv c buf s = do {
     conn \<leftarrow> conn_at s c;
     let peer_closed_conn = tcp_conn_closed_by_peer (tc_state conn);
     avail \<leftarrow> circ_buf_count (tc_recv_buf conn);
     if avail = 0 then Some (Inr 0, buf, peer_closed_conn, s)
     else do {
       (_, recv_buf, buf) \<leftarrow> circ_buf_read (tc_recv_buf conn) buf;
       s \<leftarrow> conn_update c (\<lambda>conn. conn\<lparr>tc_recv_buf := recv_buf\<rparr>) s;
       Some (Inr avail, buf, peer_closed_conn, s)
     }
   }"

text \<open>The pointer of the caller is set to NULL; that is left to the caller here.\<close>

definition tcp_conn_close ::
  "nat \<Rightarrow> send_buf \<Rightarrow> ('d, 'z) tcp_net_scheme \<Rightarrow> (unit res \<times> ('d, 'z) tcp_net_scheme) option" where
  "tcp_conn_close c sb s = do {
     conn \<leftarrow> conn_at s c;
     if tc_state conn = LISTEN \<or> tc_state conn = SYN_RCVD \<or> tc_state conn = RESET
     then do { s \<leftarrow> tcp_free_conn c s; Some (ok, s) }
     else if tc_state conn = ESTABLISHED then do {
       s \<leftarrow> set_state c FIN_WAIT_1 s;
       tcp_send_segment_empty c (TCP_HDR_FLAG_FIN OR TCP_HDR_FLAG_ACK) sb s
     }
     else if tc_state conn = CLOSE_WAIT then do {
       s \<leftarrow> set_state c LAST_ACK s;
       tcp_send_segment_empty c (TCP_HDR_FLAG_FIN OR TCP_HDR_FLAG_ACK) sb s
     }
     else Some (ok, s)
   }"

end
