(* ===== verification/TcpInv.thy ===== *)
theory TcpInv
  imports Tcp
begin

text \<open>
  The invariant of the TCP state and the state machine of the connections: every operation of
  the theory Tcp keeps the invariant, and changes the states of the connections only along the
  transitions of \<open>seg_trans\<close> (incoming segments) and \<open>user_trans\<close> (calls of the users).
\<close>

section \<open>Links that form rings\<close>

text \<open>
  The nodes in \<open>U\<close> are linked in circles: \<open>next\<close> and \<open>prev\<close> lead from each of them to another
  one, and back. This says nothing about which node is the head of a circle, so it also holds
  when a connection that listens is closed before the connections in its queue.
\<close>

definition links_ok :: "'a heap \<Rightarrow> 'a set \<Rightarrow> bool" where
  "links_ok h U \<longleftrightarrow>
     (\<forall>i \<in> U. \<exists>j \<in> U. nxt h i = Some j \<and> prv h j = Some i) \<and>
     (\<forall>i \<in> U. \<exists>j \<in> U. prv h i = Some j \<and> nxt h j = Some i)"

lemma links_ok_cong:
  "(\<And>i. i \<in> U \<Longrightarrow> nxt h' i = nxt h i) \<Longrightarrow> (\<And>i. i \<in> U \<Longrightarrow> prv h' i = prv h i) \<Longrightarrow> links_ok h' U = links_ok h U"
  unfolding links_ok_def by (intro arg_cong2 [where f = "(\<and>)"] ball_cong bex_cong refl) auto

lemma links_ok_nodes:
  assumes "links_ok h U" "i \<in> U"
  obtains p n where "p \<in> U" "n \<in> U" "prv h i = Some p" "nxt h p = Some i" "nxt h i = Some n" "prv h n = Some i"
  using assms unfolding links_ok_def by blast

lemma links_ok_dom: "links_ok h U \<Longrightarrow> i \<in> U \<Longrightarrow> h i \<noteq> None"
  by (auto simp: links_ok_def dest: nxt_dom)

lemma dlist_remove_self: "nxt h x = Some x \<Longrightarrow> prv h x = Some x \<Longrightarrow> dlist_remove h x = Some h"
  using dlist_remove_single [of h x] by (simp add: ring_def)

lemma links_ok_next:
  assumes "links_ok h U" "i \<in> U"
  obtains j where "j \<in> U" "nxt h i = Some j" "prv h j = Some i"
  using links_ok_nodes [OF assms] by metis

lemma links_ok_prev:
  assumes "links_ok h U" "i \<in> U"
  obtains j where "j \<in> U" "prv h i = Some j" "nxt h j = Some i"
  using links_ok_nodes [OF assms] by metis

lemma links_okI:
  assumes "\<And>i. i \<in> U \<Longrightarrow> \<exists>j \<in> U. nxt h i = Some j \<and> prv h j = Some i"
    and "\<And>i. i \<in> U \<Longrightarrow> \<exists>j \<in> U. prv h i = Some j \<and> nxt h j = Some i"
  shows "links_ok h U"
  using assms by (simp add: links_ok_def)

lemma links_ok_remove:
  assumes "links_ok h U" "x \<in> U"
  shows "\<exists>h'. dlist_remove h x = Some h' \<and> links_ok h' U \<and> nxt h' x = Some x \<and> prv h' x = Some x \<and>
    dom h' = dom h \<and> (\<forall>y. y \<notin> U \<longrightarrow> h' y = h y)"
proof -
  obtain p n where pn: "p \<in> U" "n \<in> U" "prv h x = Some p" "nxt h p = Some x" "nxt h x = Some n" "prv h n = Some x"
    using links_ok_nodes [OF assms] .
  show ?thesis
  proof (cases "p = x \<or> n = x")
    case True
    then have "nxt h x = Some x" "prv h x = Some x" using pn by auto
    then show ?thesis using dlist_remove_self [of h x] assms(1) by auto
  next
    case False
    obtain h' where h': "dlist_remove h x = Some h'" "nxt h' = (nxt h)(p := Some n, x := Some x)"
      "prv h' = (prv h)(n := Some p, x := Some x)" "dom h' = dom h" "\<forall>y. y \<notin> {p, n, x} \<longrightarrow> h' y = h y"
      using dlist_remove_links [OF pn(3,5)] links_ok_dom [OF assms(1)] pn(1,2) False by blast
    have "links_ok h' U"
    proof -
      have "\<exists>j \<in> U. nxt h' i = Some j \<and> prv h' j = Some i" if "i \<in> U" for i
      proof -
        obtain j where j: "j \<in> U" "nxt h i = Some j" "prv h j = Some i" using links_ok_next [OF assms(1) \<open>i \<in> U\<close>] .
        consider "i = x" | "i = p" | "i \<noteq> x" "i \<noteq> p" by blast
        then show ?thesis
        proof cases
          case 3
          then have "j \<noteq> x" "j \<noteq> n" using j pn by auto
          then show ?thesis using 3 j h'(2,3) by auto
        qed (use assms(2) pn False h'(2,3) in auto)
      qed
      moreover have "\<exists>j \<in> U. prv h' i = Some j \<and> nxt h' j = Some i" if "i \<in> U" for i
      proof -
        obtain j where j: "j \<in> U" "prv h i = Some j" "nxt h j = Some i" using links_ok_prev [OF assms(1) \<open>i \<in> U\<close>] .
        consider "i = x" | "i = n" | "i \<noteq> x" "i \<noteq> n" by blast
        then show ?thesis
        proof cases
          case 3
          then have "j \<noteq> x" "j \<noteq> p" using j pn by auto
          then show ?thesis using 3 j h'(2,3) by auto
        qed (use assms(2) pn False h'(2,3) in auto)
      qed
      ultimately show ?thesis by (simp add: links_ok_def)
    qed
    moreover have "\<forall>y. y \<notin> U \<longrightarrow> h' y = h y" using h'(5) pn(1,2) assms(2) by auto
    ultimately show ?thesis using h' by auto
  qed
qed

lemma links_ok_delete:
  assumes "links_ok h U" "nxt h x = Some x" "prv h x = Some x" "\<And>y. y \<noteq> x \<Longrightarrow> h' y = h y"
  shows "links_ok h' (U - {x})"
proof (rule links_okI)
  fix i assume i: "i \<in> U - {x}"
  then obtain j where j: "j \<in> U" "nxt h i = Some j" "prv h j = Some i" using links_ok_next [OF assms(1)] by blast
  then have "j \<noteq> x" using i assms(3) by auto
  then show "\<exists>j \<in> U - {x}. nxt h' i = Some j \<and> prv h' j = Some i"
    using i j assms(4) by (auto simp: nxt_def prv_def)
next
  fix i assume i: "i \<in> U - {x}"
  then obtain j where j: "j \<in> U" "prv h i = Some j" "nxt h j = Some i" using links_ok_prev [OF assms(1)] by blast
  then have "j \<noteq> x" using i assms(2) by auto
  then show "\<exists>j \<in> U - {x}. prv h' i = Some j \<and> nxt h' j = Some i"
    using i j assms(4) by (auto simp: nxt_def prv_def)
qed

lemma links_ok_init:
  assumes "links_ok h U" "x \<notin> U" "h x \<noteq> None"
  shows "\<exists>h'. dlist_init_empty h x = Some h' \<and> links_ok h' (insert x U) \<and> nxt h' x = Some x \<and> prv h' x = Some x \<and>
    dom h' = dom h \<and> (\<forall>y. y \<noteq> x \<longrightarrow> h' y = h y)"
proof -
  obtain h' where h': "dlist_init_empty h x = Some h'" "nxt h' = (nxt h)(x := Some x)"
    "prv h' = (prv h)(x := Some x)" "dom h' = dom h" "\<forall>y. y \<noteq> x \<longrightarrow> h' y = h y"
    using dlist_init_empty_links [of h x] assms(3) by blast
  have "links_ok h' (insert x U)"
  proof (rule links_okI)
    fix i assume "i \<in> insert x U"
    then show "\<exists>j \<in> insert x U. nxt h' i = Some j \<and> prv h' j = Some i"
    proof (cases "i = x")
      case False
      then obtain j where "j \<in> U" "nxt h i = Some j" "prv h j = Some i"
        using \<open>i \<in> insert x U\<close> links_ok_next [OF assms(1), of i] by blast
      then show ?thesis using False h'(2,3) assms(2) by auto
    qed (simp add: h'(2,3))
  next
    fix i assume "i \<in> insert x U"
    then show "\<exists>j \<in> insert x U. prv h' i = Some j \<and> nxt h' j = Some i"
    proof (cases "i = x")
      case False
      then obtain j where "j \<in> U" "prv h i = Some j" "nxt h j = Some i"
        using \<open>i \<in> insert x U\<close> links_ok_prev [OF assms(1), of i] by blast
      then show ?thesis using False h'(2,3) assms(2) by auto
    qed (simp add: h'(2,3))
  qed
  then show ?thesis using h' by auto
qed

lemma links_ok_insert:
  assumes "links_ok h U" "a \<in> U" "x \<in> U" "x \<noteq> a" "nxt h x = Some x" "prv h x = Some x"
  shows "\<exists>h'. dlist_insert h a x = Some h' \<and> links_ok h' U \<and> dom h' = dom h \<and> (\<forall>y. y \<notin> U \<longrightarrow> h' y = h y) \<and>
    nxt h' a = Some x"
proof -
  obtain p b where b: "b \<in> U" "nxt h a = Some b" "prv h b = Some a" using links_ok_nodes [OF assms(1,2)] by metis
  have bx: "b \<noteq> x" using b assms(4,6) by auto
  obtain h' where h': "dlist_insert h a x = Some h'" "nxt h' = (nxt h)(x := Some b, a := Some x)"
    "prv h' = (prv h)(b := Some x, x := Some a)" "dom h' = dom h" "\<forall>y. y \<notin> {a, b, x} \<longrightarrow> h' y = h y"
    using dlist_insert_links [OF b(2) _ _ assms(4)] links_ok_dom [OF assms(1)] b(1) assms(3) by blast
  have "links_ok h' U"
  proof -
    have "\<exists>j \<in> U. nxt h' i = Some j \<and> prv h' j = Some i" if "i \<in> U" for i
    proof -
      obtain j where j: "j \<in> U" "nxt h i = Some j" "prv h j = Some i" using links_ok_next [OF assms(1) \<open>i \<in> U\<close>] .
      consider "i = x" | "i = a" | "i \<noteq> x" "i \<noteq> a" by blast
      then show ?thesis
      proof cases
        case 3
        then have "j \<noteq> x" "j \<noteq> b" using j b assms(6) by auto
        then show ?thesis using 3 j h'(2,3) by auto
      qed (use assms b bx h'(2,3) in auto)
    qed
    moreover have "\<exists>j \<in> U. prv h' i = Some j \<and> nxt h' j = Some i" if "i \<in> U" for i
    proof -
      obtain j where j: "j \<in> U" "prv h i = Some j" "nxt h j = Some i" using links_ok_prev [OF assms(1) \<open>i \<in> U\<close>] .
      consider "i = x" | "i = b" | "i \<noteq> x" "i \<noteq> b" by blast
      then show ?thesis
      proof cases
        case 3
        then have "j \<noteq> x" "j \<noteq> a" using j b assms(5) by auto
        then show ?thesis using 3 j h'(2,3) by auto
      qed (use assms b bx h'(2,3) in auto)
    qed
    ultimately show ?thesis by (simp add: links_ok_def)
  qed
  moreover have "\<forall>y. y \<notin> U \<longrightarrow> h' y = h y" using h'(5) b(1) assms(2,3) by auto
  ultimately show ?thesis using h' by auto
qed

section \<open>The invariant\<close>

definition used :: "('d, 'z) tcp_net_scheme \<Rightarrow> nat set" where
  "used s = {i. i < TCP_CONN_MAX_NUM \<and> tc_is_used (tcp_conn_table s ! i)}"

text \<open>
  A connection in the LISTEN state has no peer and no buffer, one in the SYN_RCVD state no buffer
  yet, and in all other states there is a buffer of the size of the receive window.
\<close>

definition conn_ok :: "tcp_conn \<Rightarrow> bool" where
  "conn_ok conn \<longleftrightarrow>
     (case tc_state conn of
        LISTEN \<Rightarrow> tc_peer_addr conn = Ipv4 0 0 0 0 \<and> tc_peer_port conn = 0 \<and> cb_addr (tc_recv_buf conn) = 0
      | SYN_RCVD \<Rightarrow> cb_addr (tc_recv_buf conn) = 0 \<and> tc_recv_window conn = TCP_CONN_RECV_WINDOW_SIZE
      | INVALID_STATE \<Rightarrow> False
      | _ \<Rightarrow> wf_recv_buf (tc_recv_buf conn))"

definition unused_links :: "nat dlist option \<Rightarrow> bool" where
  "unused_links d \<longleftrightarrow> d = Some \<lparr>dl_prev = None, dl_next = None\<rparr> \<or> d = Some freed_links"

text \<open>The invariant may be broken for the connections in \<open>X\<close> while they are changed.\<close>

definition tcp_inv_except :: "nat set \<Rightarrow> ('d, 'z) tcp_net_scheme \<Rightarrow> bool" where
  "tcp_inv_except X s \<longleftrightarrow> length (tcp_conn_table s) = TCP_CONN_MAX_NUM \<and> dom (tcp_links s) = {..<TCP_CONN_MAX_NUM} \<and>
     links_ok (tcp_links s) (used s) \<and> (\<forall>i \<in> used s - X. conn_ok (tcp_conn_table s ! i)) \<and>
     (\<forall>i < TCP_CONN_MAX_NUM. i \<notin> used s \<longrightarrow> unused_links (tcp_links s i))"

definition tcp_inv :: "('d, 'z) tcp_net_scheme \<Rightarrow> bool" where
  "tcp_inv s \<longleftrightarrow> tcp_inv_except {} s"

text \<open>The state of a connection as the state machine sees it; an entry that is not used is free.\<close>

definition phase :: "('d, 'z) tcp_net_scheme \<Rightarrow> nat \<Rightarrow> tcp_conn_state option" where
  "phase s i = (if i \<in> used s then Some (tc_state (tcp_conn_table s ! i)) else None)"

lemma phase_Some: "phase s c = Some st \<longleftrightarrow> c \<in> used s \<and> tc_state (tcp_conn_table s ! c) = st"
  by (simp add: phase_def)

lemma tcp_frame [simp]:
  "tcp_inv_except X (s\<lparr>tcp_kv := kv\<rparr>) = tcp_inv_except X s" "phase (s\<lparr>tcp_kv := kv\<rparr>) = phase s"
  "tcp_inv_except X (s\<lparr>tcp_clock := ck\<rparr>) = tcp_inv_except X s" "phase (s\<lparr>tcp_clock := ck\<rparr>) = phase s"
  "tcp_inv_except X (s\<lparr>tcp_rdrand_reads := k\<rparr>) = tcp_inv_except X s" "phase (s\<lparr>tcp_rdrand_reads := k\<rparr>) = phase s"
  "tcp_inv_except X (s\<lparr>net_drv := d\<rparr>) = tcp_inv_except X s" "phase (s\<lparr>net_drv := d\<rparr>) = phase s"
  "used (s\<lparr>tcp_links := h\<rparr>) = used s" "phase (s\<lparr>tcp_links := h\<rparr>) = phase s" "used (s\<lparr>tcp_kv := kv\<rparr>) = used s"
  by (simp_all add: tcp_inv_except_def phase_def fun_eq_iff used_def)

lemma used_bound: "i \<in> used s \<Longrightarrow> i < TCP_CONN_MAX_NUM"
  by (simp add: used_def)

lemma conn_at_Some: "conn_at s c = Some conn \<longleftrightarrow> c < length (tcp_conn_table s) \<and> conn = tcp_conn_table s ! c"
  by (auto simp: conn_at_def peek_Some)

lemma conn_update_Some:
  "conn_update c f s = Some s' \<longleftrightarrow> c < length (tcp_conn_table s) \<and>
     s' = s\<lparr>tcp_conn_table := (tcp_conn_table s)[c := f (tcp_conn_table s ! c)]\<rparr>"
  by (auto simp: conn_update_def conn_at_def peek_Some poke_Some bind_eq_Some_conv)

lemma conn_update_eq:
  "c < length (tcp_conn_table s) \<Longrightarrow>
     conn_update c f s = Some (s\<lparr>tcp_conn_table := (tcp_conn_table s)[c := f (tcp_conn_table s ! c)]\<rparr>)"
  by (simp add: conn_update_Some)

lemma conn_update_inv:
  assumes "conn_update c f s = Some s'" "tcp_inv_except X s" "c \<in> used s"
    "tc_is_used (f (tcp_conn_table s ! c))"
  shows "tcp_inv_except (insert c X) s'" "phase s' = (phase s)(c \<mapsto> tc_state (f (tcp_conn_table s ! c)))"
    "conn_ok (f (tcp_conn_table s ! c)) \<Longrightarrow> tcp_inv_except (X - {c}) s'" "used s' = used s"
    "tcp_conn_table s' ! c = f (tcp_conn_table s ! c)" "tcp_links s' = tcp_links s"
proof -
  have s': "c < length (tcp_conn_table s)" "s' = s\<lparr>tcp_conn_table := (tcp_conn_table s)[c := f (tcp_conn_table s ! c)]\<rparr>"
    using assms(1) by (auto simp: conn_update_Some)
  then show u: "used s' = used s" using assms(3,4) by (auto simp: used_def nth_list_update)
  show "tcp_inv_except (insert c X) s'" using assms(2) s' u by (auto simp: tcp_inv_except_def nth_list_update)
  show "phase s' = (phase s)(c \<mapsto> tc_state (f (tcp_conn_table s ! c)))"
    using s' u assms(3) by (auto simp: phase_def fun_eq_iff)
  show "conn_ok (f (tcp_conn_table s ! c)) \<Longrightarrow> tcp_inv_except (X - {c}) s'"
    using assms(2) s' u by (auto simp: tcp_inv_except_def nth_list_update)
  show "tcp_conn_table s' ! c = f (tcp_conn_table s ! c)" "tcp_links s' = tcp_links s" using s' by auto
qed

lemma tcp_free_conn_inv:
  assumes "tcp_free_conn c s = Some s'" "tcp_inv_except X s" "c \<in> used s"
  shows "tcp_inv_except (X - {c}) s'" "phase s' = (phase s)(c := None)"
proof -
  let ?h = "tcp_links s"
  from assms(2) have i: "length (tcp_conn_table s) = TCP_CONN_MAX_NUM" "links_ok ?h (used s)"
    by (auto simp: tcp_inv_except_def)
  obtain h1 where h1: "dlist_remove ?h c = Some h1" "links_ok h1 (used s)" "nxt h1 c = Some c" "prv h1 c = Some c"
    "dom h1 = dom ?h" "\<forall>y. y \<notin> used s \<longrightarrow> h1 y = ?h y"
    using links_ok_remove [OF i(2) assms(3)] by blast
  obtain kv where s': "s' = s\<lparr>tcp_kv := kv, tcp_links := h1(c \<mapsto> freed_links),
      tcp_conn_table := (tcp_conn_table s)[c := freed_conn]\<rparr>"
    using assms(1) h1(1) by (auto simp: tcp_free_conn_def bind_eq_Some_conv conn_update_Some)
  have c: "c < TCP_CONN_MAX_NUM" using assms(3) by (rule used_bound)
  have u: "used s' = used s - {c}" using s' c i(1) by (auto simp: used_def nth_list_update freed_conn_def)
  have l: "links_ok (tcp_links s') (used s - {c})" using links_ok_delete [OF h1(2-4)] s' by simp
  have d: "dom (tcp_links s') = dom ?h" using s' h1(5) c assms(2) by (auto simp: tcp_inv_except_def)
  have n: "unused_links (tcp_links s' j)" if "j < TCP_CONN_MAX_NUM" "j \<notin> used s - {c}" for j
    using that s' h1(6) assms(2) by (cases "j = c") (auto simp: tcp_inv_except_def unused_links_def)
  show "tcp_inv_except (X - {c}) s'"
    using assms(2) l d n u s' by (auto simp: tcp_inv_except_def nth_list_update)
  show "phase s' = (phase s)(c := None)" using s' u by (auto simp: phase_def fun_eq_iff nth_list_update)
qed

lemma tcp_time_ms_inv:
  assumes "tcp_time_ms s = Some (t, s')"
  shows "tcp_inv_except X s' = tcp_inv_except X s" "phase s' = phase s" "tcp_conn_table s' = tcp_conn_table s" "used s' = used s"
  using assms by (auto simp: tcp_time_ms_def bind_eq_Some_conv used_def)

section \<open>Purging and allocation\<close>

text \<open>What \<open>tcp_purge_old_conn\<close> may do to the state of a connection.\<close>

definition purged :: "tcp_conn_state option \<Rightarrow> tcp_conn_state option \<Rightarrow> bool" where
  "purged x y \<longleftrightarrow> y = x \<or> x = Some TIME_WAIT \<and> y = None"

lemma purged_refl [simp]: "purged x x"
  by (simp add: purged_def)

lemma purged_trans: "purged x y \<Longrightarrow> purged y z \<Longrightarrow> purged x z"
  by (auto simp: purged_def)

lemma purged_Some: "purged x (Some st) \<longleftrightarrow> x = Some st"
  by (auto simp: purged_def)

lemma purge_loop_inv:
  assumes "purge_loop is s = Some s'" "tcp_inv_except X s" "\<forall>i \<in> set is. i < TCP_CONN_MAX_NUM"
  shows "tcp_inv_except X s' \<and> (\<forall>i. purged (phase s i) (phase s' i))"
  using assms
proof (induction "is" arbitrary: s)
  case (Cons i "is")
  have l: "i < TCP_CONN_MAX_NUM" "\<forall>j \<in> set is. j < TCP_CONN_MAX_NUM" using Cons.prems(3) by auto
  show ?case
  proof (cases "tc_is_used (tcp_conn_table s ! i) \<and> tc_state (tcp_conn_table s ! i) = TIME_WAIT")
    case False
    then have "purge_loop is s = Some s'" using Cons.prems(1) by (auto simp: bind_eq_Some_conv conn_at_Some split: if_splits)
    then show ?thesis using Cons.IH Cons.prems(2) l(2) by blast
  next
    case True
    then have u: "i \<in> used s" "phase s i = Some TIME_WAIT" using l(1) by (auto simp: used_def phase_def)
    obtain t s1 where t: "tcp_time_ms s = Some (t, s1)" using Cons.prems(1) True by (auto simp: bind_eq_Some_conv conn_at_Some)
    note t_inv = tcp_time_ms_inv [OF t]
    show ?thesis
    proof (cases "t \<ge> tc_time_wait_start (tcp_conn_table s ! i)")
      case True
      then obtain s2 where s2: "tcp_free_conn i s1 = Some s2" "purge_loop is s2 = Some s'"
        using Cons.prems(1) \<open>tc_is_used _ \<and> _\<close> t by (auto simp: bind_eq_Some_conv conn_at_Some)
      have f: "tcp_inv_except (X - {i}) s2" "phase s2 = (phase s1)(i := None)"
        using tcp_free_conn_inv [OF s2(1)] Cons.prems(2) t_inv u(1) by simp_all
      have "tcp_inv_except X s2" using f(1) by (auto simp: tcp_inv_except_def)
      then have r: "tcp_inv_except X s'" "\<forall>j. purged (phase s2 j) (phase s' j)" using Cons.IH [OF s2(2)] l(2) by auto
      moreover have "purged (phase s j) (phase s2 j)" for j using f(2) t_inv(2) u(2) by (simp add: purged_def)
      ultimately show ?thesis using purged_trans by blast
    next
      case False
      then have "purge_loop is s1 = Some s'"
        using Cons.prems(1) \<open>tc_is_used _ \<and> _\<close> t by (auto simp: bind_eq_Some_conv conn_at_Some)
      then show ?thesis using Cons.IH [of s1] Cons.prems(2) l(2) t_inv by auto
    qed
  qed
qed simp

lemma tcp_purge_old_conn_inv:
  assumes "tcp_purge_old_conn s = Some s'" "tcp_inv_except X s"
  shows "tcp_inv_except X s'" "\<And>i. purged (phase s i) (phase s' i)"
  using purge_loop_inv [OF assms(1) [unfolded tcp_purge_old_conn_def] assms(2)] by auto

lemma first_conn_Some:
  "first_conn P is s = Some (Some c) \<Longrightarrow> \<exists>as bs. is = as @ c # bs \<and> P (tcp_conn_table s ! c) \<and>
     (\<forall>i \<in> set as. \<not> P (tcp_conn_table s ! i))"
proof (induction "is")
  case (Cons i "is")
  show ?case
  proof (cases "P (tcp_conn_table s ! i)")
    case True
    then show ?thesis using Cons.prems by (intro exI [of _ "[]"] exI [of _ "is"]) (auto simp: bind_eq_Some_conv conn_at_Some)
  next
    case False
    then have "first_conn P is s = Some (Some c)" using Cons.prems by (auto simp: bind_eq_Some_conv conn_at_Some)
    then obtain as' bs where "is = as' @ c # bs" "P (tcp_conn_table s ! c)" "\<forall>i \<in> set as'. \<not> P (tcp_conn_table s ! i)"
      using Cons.IH by blast
    then show ?thesis using False by (intro exI [of _ "i # as'"] exI [of _ bs]) auto
  qed
qed simp

lemma first_conn_None:
  "first_conn P is s = Some None \<Longrightarrow> i \<in> set is \<Longrightarrow> \<not> P (tcp_conn_table s ! i)"
  by (induction "is") (auto simp: bind_eq_Some_conv conn_at_Some split: if_splits)

lemma first_conn_total:
  "\<forall>i \<in> set is. i < length (tcp_conn_table s) \<Longrightarrow> \<exists>c. first_conn P is s = Some c"
  by (induction "is") (auto simp: conn_at_Some conn_at_def peek_def)

lemma unused_remove:
  assumes "unused_links (h c)" "dom h = {..<TCP_CONN_MAX_NUM}"
  shows "dlist_remove h c = None"
proof -
  have "(0xeeeeeeeeeeeeeeee :: nat) \<notin> {..<TCP_CONN_MAX_NUM}" by (simp add: TCP_CONN_MAX_NUM_def)
  then have "h 0xeeeeeeeeeeeeeeee = None" unfolding assms(2) [symmetric] by (simp add: domIff)
  then show ?thesis using assms(1)
    by (auto simp: unused_links_def dlist_remove_def freed_links_def set_next_def)
qed

text \<open>
  Allocating and initialising a connection: either there is none, or the connection \<open>c\<close> was free
  after the purge, and it is alone in its circle of links. If the processor returns no random
  number, the run does not return, because the new connection is freed before it is initialised.
\<close>

lemma tcp_conn_alloc_and_init_inv:
  fixes s s' :: "('d, 'z) tcp_net_scheme"
  assumes "tcp_conn_alloc_and_init host_addr host_port state s = Some (r, s')" "tcp_inv s"
    "state = LISTEN \<or> state = SYN_RCVD"
  obtains (no_conn) "r = None" "tcp_inv s'" "\<And>i. purged (phase s i) (phase s' i)"
  | (conn) s1 :: "('d, 'z) tcp_net_scheme" and c where "r = Some c" "tcp_inv s'" "\<And>i. purged (phase s i) (phase s1 i)" "phase s1 c = None"
      "phase s' = (phase s1)(c \<mapsto> state)" "c \<in> used s'" "nxt (tcp_links s') c = Some c" "prv (tcp_links s') c = Some c"
      "tc_host_addr (tcp_conn_table s' ! c) = host_addr" "tc_host_port (tcp_conn_table s' ! c) = host_port"
proof -
  obtain s1 where s1: "tcp_purge_old_conn s = Some s1"
    using assms(1) by (auto simp: tcp_conn_alloc_and_init_def tcp_alloc_conn_def bind_eq_Some_conv)
  note p = tcp_purge_old_conn_inv [OF s1 assms(2) [unfolded tcp_inv_def]]
  have len: "length (tcp_conn_table s1) = TCP_CONN_MAX_NUM" using p(1) by (simp add: tcp_inv_except_def)
  then obtain c0 where c0: "first_conn (\<lambda>conn. \<not> tc_is_used conn) [0..<TCP_CONN_MAX_NUM] s1 = Some c0"
    using first_conn_total [of "[0..<TCP_CONN_MAX_NUM]" s1] by auto
  show thesis
  proof (cases c0)
    case None
    then have "r = None" "s' = s1" using assms(1) s1 c0
      by (auto simp: tcp_conn_alloc_and_init_def tcp_alloc_conn_def bind_eq_Some_conv)
    then show thesis using no_conn p by (simp add: tcp_inv_def)
  next
    case (Some c)
    then obtain as bs where "[0..<TCP_CONN_MAX_NUM] = as @ c # bs" "\<not> tc_is_used (tcp_conn_table s1 ! c)"
      using first_conn_Some c0 by blast
    then have "c \<in> set [0..<TCP_CONN_MAX_NUM]" "\<not> tc_is_used (tcp_conn_table s1 ! c)" by (metis in_set_conv_decomp)+
    then have c: "c < TCP_CONN_MAX_NUM" "c \<notin> used s1" by (auto simp: used_def)
    let ?conn = "(tcp_conn_table s1 ! c)\<lparr>tc_is_used := True\<rparr>"
    let ?t = "(tcp_conn_table s1)[c := ?conn]"
    let ?s2 = "s1\<lparr>tcp_conn_table := ?t\<rparr>"
    have a: "tcp_alloc_conn s = Some (Some c, ?s2)"
      using s1 c0 Some c(1) len by (simp add: tcp_alloc_conn_def conn_update_eq)
    have u: "unused_links (tcp_links s1 c)" and d: "dom (tcp_links s1) = {..<TCP_CONN_MAX_NUM}"
      using p(1) c by (auto simp: tcp_inv_except_def)
    obtain isn where isn: "tcp_rdrand s1 (tcp_rdrand_reads s1) = Some isn"
    proof (cases "tcp_rdrand s1 (tcp_rdrand_reads s1)")
      case None
      then have "tcp_conn_alloc_and_init host_addr host_port state s = None"
        using a unused_remove [OF u d]
        by (cases "circ_buf_free (tc_recv_buf ?conn) (tcp_kv s1)")
          (auto simp: tcp_conn_alloc_and_init_def tcp_generate_isn_def tcp_free_conn_def conn_at_def Let_def
            bind_eq_None_conv bind_eq_Some_conv split: option.splits)
      then show ?thesis using assms(1) by simp
    qed
    have "links_ok (tcp_links s1) (used s1)" "tcp_links s1 c \<noteq> None" using p(1) c(1) d by (auto simp: tcp_inv_except_def)
    from links_ok_init [OF this(1) c(2) this(2)] obtain h where
      h: "dlist_init_empty (tcp_links s1) c = Some h" "links_ok h (insert c (used s1))" "nxt h c = Some c" "prv h c = Some c"
        "dom h = dom (tcp_links s1)" "\<forall>y. y \<noteq> c \<longrightarrow> h y = tcp_links s1 y" by blast
    let ?new = "init_conn host_addr host_port state (ucast isn) ?conn"
    have r: "r = Some c" "s' = ?s2\<lparr>tcp_rdrand_reads := Suc (tcp_rdrand_reads s1), tcp_links := h,
        tcp_conn_table := (tcp_conn_table s1)[c := ?new]\<rparr>"
      using assms(1) a isn h(1) c(1) len
      by (auto simp: tcp_conn_alloc_and_init_def tcp_generate_isn_def Let_def bind_eq_Some_conv conn_update_Some)
    have us: "used s' = insert c (used s1)" using r(2) c(1) len by (auto simp: used_def nth_list_update init_conn_def)
    have ok: "conn_ok ?new" using assms(3) by (auto simp: conn_ok_def init_conn_def ipv4_addr_new_def)
    have "tcp_inv s'" unfolding tcp_inv_def
      using p(1) us r(2) h(2,5,6) ok c(1) len by (auto simp: tcp_inv_except_def nth_list_update)
    moreover have "phase s' = (phase s1)(c \<mapsto> state)"
      using us r(2) c len by (auto simp: phase_def fun_eq_iff nth_list_update init_conn_def)
    moreover have "phase s1 c = None" using c(2) by (simp add: phase_def)
    ultimately show thesis using conn [of c s1] r us h(3,4) p(2) c(1) len by (simp add: init_conn_def)
  qed
qed

section \<open>Sending and updating\<close>

text \<open>Sending changes nothing but the state of the driver.\<close>

definition drv_only :: "('d, 'z) net_scheme \<Rightarrow> ('d, 'z) net_scheme \<Rightarrow> bool" where
  "drv_only s s' \<longleftrightarrow> s' = s\<lparr>net_drv := net_drv s'\<rparr>"

lemma drv_only_intros [simp]: "drv_only s s" "drv_only s (s\<lparr>net_drv := d\<rparr>)"
  by (simp_all add: drv_only_def)

lemma netdev_send_drv: "netdev_send m nd proto sb s = Some (r, s') \<Longrightarrow> drv_only s s'"
  by (auto simp: netdev_send_def bind_eq_Some_conv split: option.splits if_splits)

lemma arp_send_common_drv: "arp_send_common op ip m nd sb s = Some (r, s') \<Longrightarrow> drv_only s s'"
  by (auto simp: arp_send_common_def bind_eq_Some_conv Let_def dest: netdev_send_drv split: option.splits if_splits)

lemma ipv4_send_packet_drv: "ipv4_send_packet d proto sb s = Some (r, s') \<Longrightarrow> drv_only s s'"
  by (auto simp: ipv4_send_packet_def arp_send_request_def bind_eq_Some_conv Let_def
      dest: netdev_send_drv arp_send_common_drv split: option.splits if_splits)

lemma tcp_send_segment_raw_drv:
  "tcp_send_segment_raw h p hp pp seq ack w fl payload sb s = Some (r, s') \<Longrightarrow> drv_only s s'"
  unfolding tcp_send_segment_raw_def Let_def
  by (auto simp: bind_eq_Some_conv dest: ipv4_send_packet_drv split: sum.splits if_splits)

lemma drv_only_tcp:
  fixes s s' :: "('d, 'z) tcp_net_scheme"
  assumes "drv_only s s'"
  shows "tcp_inv_except X s' = tcp_inv_except X s" "phase s' = phase s" "used s' = used s"
    "tcp_conn_table s' = tcp_conn_table s" "tcp_links s' = tcp_links s" "tcp_kv s' = tcp_kv s"
proof -
  obtain d where "s' = s\<lparr>net_drv := d\<rparr>" using assms unfolding drv_only_def by blast
  then show "tcp_inv_except X s' = tcp_inv_except X s" "phase s' = phase s" "used s' = used s"
    "tcp_conn_table s' = tcp_conn_table s" "tcp_links s' = tcp_links s" "tcp_kv s' = tcp_kv s"
    by (simp_all add: used_def)
qed

text \<open>An update that keeps what the invariant and the state machine see.\<close>

lemma conn_update_same:
  assumes "conn_update c f s = Some s'" "tcp_inv_except X s" "c \<in> used s"
    "\<And>conn. tc_is_used (f conn) = tc_is_used conn" "\<And>conn. tc_state (f conn) = tc_state conn"
    "\<And>conn. conn_ok conn \<Longrightarrow> conn_ok (f conn)"
  shows "tcp_inv_except X s'" "phase s' = phase s" "used s' = used s"
proof -
  have u: "tc_is_used (f (tcp_conn_table s ! c))" using assms(3,4) by (simp add: used_def)
  note i = conn_update_inv [OF assms(1-3) u]
  show "phase s' = phase s" using i(2) assms(3,5) by (auto simp: phase_def fun_eq_iff)
  show "used s' = used s" by (rule i(4))
  show "tcp_inv_except X s'"
  proof (cases "c \<in> X")
    case True
    then show ?thesis using i(1) by (simp add: insert_absorb)
  next
    case False
    then have "conn_ok (f (tcp_conn_table s ! c))" using assms(2,3,6) by (simp add: tcp_inv_except_def)
    then show ?thesis using i(3) False by simp
  qed
qed

lemma tcp_send_segment_effect:
  assumes "tcp_send_segment c fl payload sb s = Some (r, s')"
  shows "\<exists>s1. drv_only s s1 \<and>
    (s' = s1 \<or> (\<exists>f. conn_update c f s1 = Some s' \<and> (\<forall>conn. \<exists>x. f conn = conn\<lparr>tc_send_next := x\<rparr>)))"
proof -
  obtain conn where conn: "conn_at s c = Some conn"
    using assms by (auto simp: tcp_send_segment_def bind_eq_Some_conv)
  let ?n = "min (uint (tcp_send_window_avail conn)) (int (length payload))"
  obtain r1 s1 where s1: "tcp_send_segment_raw (tc_host_addr conn) (tc_peer_addr conn) (tc_host_port conn)
      (tc_peer_port conn) (tc_send_next conn) (tc_recv_next conn) (tc_recv_window conn) fl (take (nat ?n) payload) sb s = Some (r1, s1)"
    using assms conn by (auto simp: tcp_send_segment_def Let_def bind_eq_Some_conv)
  have d: "drv_only s s1" by (rule tcp_send_segment_raw_drv [OF s1])
  show ?thesis
  proof (cases r1)
    case (Inl e)
    then have "s' = s1" using assms conn s1 by (simp add: tcp_send_segment_def Let_def)
    then show ?thesis using d by auto
  next
    case (Inr u)
    then have "\<exists>f. conn_update c f s1 = Some s' \<and> (\<forall>conn. \<exists>x. f conn = conn\<lparr>tc_send_next := x\<rparr>)"
      using assms conn s1 by (simp add: tcp_send_segment_def Let_def bind_eq_Some_conv) blast
    then show ?thesis using d by auto
  qed
qed

lemma tcp_send_segment_inv:
  assumes "tcp_send_segment c fl payload sb s = Some (r, s')" "tcp_inv_except X s" "c \<in> used s"
  shows "tcp_inv_except X s'" "phase s' = phase s" "used s' = used s"
proof -
  obtain s1 where s1: "drv_only s s1"
    "s' = s1 \<or> (\<exists>f. conn_update c f s1 = Some s' \<and> (\<forall>conn. \<exists>x. f conn = conn\<lparr>tc_send_next := x\<rparr>))"
    using tcp_send_segment_effect [OF assms(1)] by blast
  note d = drv_only_tcp [OF s1(1)]
  from s1(2) have "tcp_inv_except X s' \<and> phase s' = phase s \<and> used s' = used s"
  proof
    assume "s' = s1"
    then show ?thesis using d assms(2) by simp
  next
    assume "\<exists>f. conn_update c f s1 = Some s' \<and> (\<forall>conn. \<exists>x. f conn = conn\<lparr>tc_send_next := x\<rparr>)"
    then obtain f where f: "conn_update c f s1 = Some s'" "\<And>conn. \<exists>x. f conn = conn\<lparr>tc_send_next := x\<rparr>" by blast
    have "tc_is_used (f conn) = tc_is_used conn" "tc_state (f conn) = tc_state conn" "conn_ok (f conn) = conn_ok conn" for conn
      using f(2) [of conn] by (auto simp: conn_ok_def cong: tcp_conn_state.case_cong)
    then show ?thesis using conn_update_same [OF f(1), of X] d assms(2,3) by simp
  qed
  then show "tcp_inv_except X s'" "phase s' = phase s" "used s' = used s" by auto
qed

lemma tcp_send_segment_empty_inv:
  assumes "tcp_send_segment_empty c fl sb s = Some (r, s')" "tcp_inv_except X s" "c \<in> used s"
  shows "tcp_inv_except X s'" "phase s' = phase s" "used s' = used s"
proof -
  obtain r1 where "tcp_send_segment c fl [] sb s = Some (r1, s')"
    using assms(1) unfolding tcp_send_segment_empty_def
    by (cases "tcp_send_segment c fl [] sb s") (auto split: sum.splits)
  from tcp_send_segment_inv [OF this assms(2,3)] show "tcp_inv_except X s'" "phase s' = phase s" "used s' = used s" .
qed

lemma update_send_state_inv:
  assumes "update_send_state c hdr s = Some s'" "tcp_inv_except X s" "c \<in> used s"
  shows "tcp_inv_except X s'" "phase s' = phase s" "used s' = used s"
  using conn_update_same [OF assms(1) [unfolded update_send_state_def] assms(2,3)]
  by (auto simp: tcp_conn_update_send_state_def Let_def conn_ok_def cong: tcp_conn_state.case_cong)

lemma recv_state_effect:
  assumes "tcp_conn_update_recv_state hdr payload conn = Some (n, conn')"
  shows "\<exists>buf x. conn' = conn\<lparr>tc_recv_buf := buf, tc_recv_next := x\<rparr> \<and>
    (wf_recv_buf (tc_recv_buf conn) \<longrightarrow> wf_recv_buf buf)"
proof -
  have w: "wf_recv_buf buf \<Longrightarrow> circ_buf_write buf payload = Some (r, buf') \<Longrightarrow> wf_recv_buf buf'" for buf r buf'
    using circ_buf_write_ok [of buf payload] by (auto simp: wf_recv_buf_def split: if_splits)
  have same: "\<exists>buf x. conn = conn\<lparr>tc_recv_buf := buf, tc_recv_next := x\<rparr> \<and>
      (wf_recv_buf (tc_recv_buf conn) \<longrightarrow> wf_recv_buf buf)"
    by (intro exI [of _ "tc_recv_buf conn"] exI [of _ "tc_recv_next conn"]) simp
  show ?thesis
  proof (cases "payload = []")
    case True
    then have "conn' = conn \<or> conn' = conn\<lparr>tc_recv_next := tc_recv_next conn + 1\<rparr>"
      using assms by (auto simp: tcp_conn_update_recv_state_def Let_def split: if_splits)
    then show ?thesis using same by (elim disjE) (simp, intro exI [of _ "tc_recv_buf conn"] exI, simp)
  next
    case False
    show ?thesis
    proof (cases "u32_from_net_u32 (th_seq_num hdr) = tc_recv_next conn")
      case True
      then obtain r buf where r: "circ_buf_write (tc_recv_buf conn) payload = Some (r, buf)"
        using assms False by (auto simp: tcp_conn_update_recv_state_def Let_def bind_eq_Some_conv)
      have "\<exists>x. conn' = conn\<lparr>tc_recv_buf := buf, tc_recv_next := x\<rparr>"
        using assms False True r
        by (cases r) (auto simp: tcp_conn_update_recv_state_def Let_def bind_eq_Some_conv split: if_splits
            intro: exI [of _ "tc_recv_next conn"])
      then show ?thesis using w [OF _ r] by blast
    next
      case False
      then show ?thesis using assms same \<open>payload \<noteq> []\<close> by (auto simp: tcp_conn_update_recv_state_def Let_def)
    qed
  qed
qed

lemma recv_state_ok:
  assumes "tcp_conn_update_recv_state hdr payload conn = Some (n, conn')"
  shows "tc_is_used conn' = tc_is_used conn" "tc_state conn' = tc_state conn"
    "conn_ok conn \<Longrightarrow> tc_state conn \<notin> {LISTEN, SYN_RCVD} \<Longrightarrow> conn_ok conn'"
proof -
  obtain buf x where e: "conn' = conn\<lparr>tc_recv_buf := buf, tc_recv_next := x\<rparr>"
    "wf_recv_buf (tc_recv_buf conn) \<longrightarrow> wf_recv_buf buf" using recv_state_effect [OF assms] by blast
  show "tc_is_used conn' = tc_is_used conn" "tc_state conn' = tc_state conn" using e(1) by simp_all
  show "conn_ok conn \<Longrightarrow> tc_state conn \<notin> {LISTEN, SYN_RCVD} \<Longrightarrow> conn_ok conn'"
    using e by (cases "tc_state conn") (auto simp: conn_ok_def)
qed

lemma update_recv_state_inv:
  assumes "update_recv_state c hdr payload s = Some (n, s')" "tcp_inv_except X s" "c \<in> used s"
    "tc_state (tcp_conn_table s ! c) \<notin> {LISTEN, SYN_RCVD}" "c \<notin> X"
  shows "tcp_inv_except X s'" "phase s' = phase s" "used s' = used s"
proof -
  obtain conn' where c: "tcp_conn_update_recv_state hdr payload (tcp_conn_table s ! c) = Some (n, conn')"
    "conn_update c (\<lambda>_. conn') s = Some s'"
    using assms(1) by (auto simp: update_recv_state_def bind_eq_Some_conv conn_at_Some)
  note r = recv_state_ok [OF c(1)]
  have "tc_is_used conn'" using assms(3) r(1) by (simp add: used_def)
  note i = conn_update_inv [OF c(2) assms(2,3) this]
  have "conn_ok (tcp_conn_table s ! c)" using assms(2,3,5) by (simp add: tcp_inv_except_def)
  then have "conn_ok conn'" using r(3) assms(4) by blast
  then have "tcp_inv_except (X - {c}) s'" by (rule i(3))
  then show "tcp_inv_except X s'" using assms(5) by simp
  show "phase s' = phase s" using i(2) r(2) assms(3) by (auto simp: phase_def fun_eq_iff)
  show "used s' = used s" by (rule i(4))
qed

lemma set_state_inv:
  assumes "set_state c st s = Some s'" "tcp_inv_except X s" "c \<in> used s" "c \<notin> X"
    "tc_state (tcp_conn_table s ! c) \<notin> {LISTEN, SYN_RCVD}" "st \<notin> {LISTEN, SYN_RCVD, INVALID_STATE}"
  shows "tcp_inv_except X s'" "phase s' = (phase s)(c \<mapsto> st)" "used s' = used s"
    "tc_state (tcp_conn_table s' ! c) = st"
proof -
  let ?f = "\<lambda>conn. conn\<lparr>tc_state := st\<rparr>"
  have u: "tc_is_used (?f (tcp_conn_table s ! c))" using assms(3) by (simp add: used_def)
  note i = conn_update_inv [OF assms(1) [unfolded set_state_def] assms(2,3) u]
  have "conn_ok (tcp_conn_table s ! c)" using assms(2-4) by (simp add: tcp_inv_except_def)
  then have "conn_ok (?f (tcp_conn_table s ! c))"
    using assms(5,6) by (auto simp: conn_ok_def split: tcp_conn_state.splits)
  then show "tcp_inv_except X s'" using i(3) assms(4) by simp
  show "phase s' = (phase s)(c \<mapsto> st)" using i(2) by simp
  show "used s' = used s" by (rule i(4))
  show "tc_state (tcp_conn_table s' ! c) = st" using i(5) by simp
qed

lemma start_time_wait_inv:
  assumes "start_time_wait c s = Some s'" "tcp_inv_except X s" "c \<in> used s" "c \<notin> X"
    "tc_state (tcp_conn_table s ! c) \<notin> {LISTEN, SYN_RCVD}"
  shows "tcp_inv_except X s'" "phase s' = (phase s)(c \<mapsto> TIME_WAIT)" "used s' = used s"
proof -
  obtain s1 t s2 where s: "set_state c TIME_WAIT s = Some s1" "tcp_time_ms s1 = Some (t, s2)"
    "conn_update c (\<lambda>conn. conn\<lparr>tc_time_wait_start := t\<rparr>) s2 = Some s'"
    using assms(1) by (auto simp: start_time_wait_def bind_eq_Some_conv)
  note i1 = set_state_inv [OF s(1) assms(2-5), simplified]
  note i2 = tcp_time_ms_inv [OF s(2)]
  have "tcp_inv_except X s2" "c \<in> used s2" using i1 i2 assms(3) by simp_all
  note i3 = conn_update_same [OF s(3) this]
  show "tcp_inv_except X s'" "phase s' = (phase s)(c \<mapsto> TIME_WAIT)" "used s' = used s"
    using i1 i2 i3 by (simp_all add: conn_ok_def cong: tcp_conn_state.case_cong)
qed

section \<open>The state machine\<close>

text \<open>
  The transitions of the connection that receives a segment with the given flags. \<^term>\<open>None\<close> is a
  connection that is free. A SYN for a listening connection creates a new one; \<open>no_buffer\<close> is the
  case that there is no memory for the receive buffer.
\<close>

inductive seg_trans :: "u8 \<Rightarrow> tcp_conn_state option \<Rightarrow> tcp_conn_state option \<Rightarrow> bool" for fl :: u8 where
  stay: "seg_trans fl x x"
| passive_open: "has_flag fl TCP_HDR_FLAG_SYN \<Longrightarrow> \<not> has_flag fl TCP_HDR_FLAG_RST \<Longrightarrow> seg_trans fl None (Some SYN_RCVD)"
| handshake: "has_flag fl TCP_HDR_FLAG_ACK \<Longrightarrow> \<not> has_flag fl TCP_HDR_FLAG_RST \<Longrightarrow>
    seg_trans fl (Some SYN_RCVD) (Some ESTABLISHED)"
| no_buffer: "has_flag fl TCP_HDR_FLAG_ACK \<Longrightarrow> \<not> has_flag fl TCP_HDR_FLAG_RST \<Longrightarrow> seg_trans fl (Some SYN_RCVD) None"
| reset: "has_flag fl TCP_HDR_FLAG_RST \<Longrightarrow> seg_trans fl (Some ESTABLISHED) (Some RESET)"
| peer_close: "has_flag fl TCP_HDR_FLAG_FIN \<Longrightarrow> \<not> has_flag fl TCP_HDR_FLAG_RST \<Longrightarrow>
    seg_trans fl (Some ESTABLISHED) (Some CLOSE_WAIT)"
| last_ack: "has_flag fl TCP_HDR_FLAG_ACK \<Longrightarrow> seg_trans fl (Some LAST_ACK) None"
| fin_ack: "has_flag fl TCP_HDR_FLAG_FIN \<Longrightarrow> has_flag fl TCP_HDR_FLAG_ACK \<Longrightarrow> \<not> has_flag fl TCP_HDR_FLAG_RST \<Longrightarrow>
    seg_trans fl (Some FIN_WAIT_1) (Some TIME_WAIT)"
| both_close: "has_flag fl TCP_HDR_FLAG_FIN \<Longrightarrow> \<not> has_flag fl TCP_HDR_FLAG_ACK \<Longrightarrow> \<not> has_flag fl TCP_HDR_FLAG_RST \<Longrightarrow>
    seg_trans fl (Some FIN_WAIT_1) (Some CLOSING)"
| fin_is_acked: "has_flag fl TCP_HDR_FLAG_ACK \<Longrightarrow> \<not> has_flag fl TCP_HDR_FLAG_FIN \<Longrightarrow> \<not> has_flag fl TCP_HDR_FLAG_RST \<Longrightarrow>
    seg_trans fl (Some FIN_WAIT_1) (Some FIN_WAIT_2)"
| fin: "has_flag fl TCP_HDR_FLAG_FIN \<Longrightarrow> \<not> has_flag fl TCP_HDR_FLAG_RST \<Longrightarrow>
    seg_trans fl (Some FIN_WAIT_2) (Some TIME_WAIT)"
| closed: "has_flag fl TCP_HDR_FLAG_ACK \<Longrightarrow> \<not> has_flag fl TCP_HDR_FLAG_RST \<Longrightarrow> seg_trans fl (Some CLOSING) (Some TIME_WAIT)"
| delete: "has_flag fl TCP_HDR_FLAG_RST \<Longrightarrow> x \<in> {SYN_RCVD, LAST_ACK, FIN_WAIT_1, FIN_WAIT_2, CLOSING, TIME_WAIT} \<Longrightarrow>
    seg_trans fl (Some x) None"

inductive user_trans :: "tcp_conn_state option \<Rightarrow> tcp_conn_state option \<Rightarrow> bool" where
  user_stay: "user_trans x x"
| user_listen: "user_trans None (Some LISTEN)"
| user_abort: "x \<in> {LISTEN, SYN_RCVD, RESET} \<Longrightarrow> user_trans (Some x) None"
| user_close: "user_trans (Some ESTABLISHED) (Some FIN_WAIT_1)"
| user_last: "user_trans (Some CLOSE_WAIT) (Some LAST_ACK)"

text \<open>
  One operation: connections are purged, and after that at most one connection \<open>c\<close> makes a step.
\<close>

definition moves ::
  "(tcp_conn_state option \<Rightarrow> tcp_conn_state option \<Rightarrow> bool) \<Rightarrow> ('d, 'z) tcp_net_scheme \<Rightarrow> ('d, 'z) tcp_net_scheme \<Rightarrow> bool" where
  "moves T s s' \<longleftrightarrow> (\<exists>c p. (\<forall>i. purged (phase s i) (p i)) \<and> T (p c) (phase s' c) \<and> (\<forall>i. i \<noteq> c \<longrightarrow> phase s' i = p i))"

lemma moves_purged:
  assumes "\<And>i. purged (phase s i) (phase s1 i)" "moves T s1 s2"
  shows "moves T s s2"
  using assms unfolding moves_def by (metis purged_trans)

lemma moves_one:
  assumes "phase s' = (phase s)(c := x)" "T (phase s c) x"
  shows "moves T s s'"
  using assms unfolding moves_def by (intro exI [of _ c] exI [of _ "phase s"]) auto

lemma moves_seg_same: "phase s' = phase s \<Longrightarrow> moves (seg_trans fl) s s'"
  by (rule moves_one [where c = 0 and x = "phase s 0"]) (simp_all add: stay)

section \<open>The handlers\<close>

text \<open>The steps that all handlers end with: an acknowledgement is sent, or nothing.\<close>

lemmas handler_simps = bind_eq_Some_conv conn_at_Some kassert_Some

lemma tcp_free_conn_moves:
  assumes "tcp_free_conn c s = Some s'" "tcp_inv s" "c \<in> used s" "T (phase s c) None"
  shows "tcp_inv s' \<and> moves T s s'"
  using tcp_free_conn_inv [OF assms(1), of "{}"] assms(2-4) by (auto simp: tcp_inv_def intro: moves_one)

lemma handle_last_ack_inv:
  assumes "tcp_handle_receive_last_ack c hdr s = Some s'" "tcp_inv s" "c \<in> used s"
  shows "tcp_inv s' \<and> moves (seg_trans (th_flags hdr)) s s'"
proof (cases "s' = s")
  case True
  then show ?thesis using assms(2) by (simp add: moves_seg_same)
next
  case False
  then have f: "tcp_free_conn c s = Some s'" "phase s c = Some LAST_ACK"
    "has_flag (th_flags hdr) TCP_HDR_FLAG_ACK \<or> has_flag (th_flags hdr) TCP_HDR_FLAG_RST"
    using assms by (auto simp: tcp_handle_receive_last_ack_def handler_simps phase_def split: if_splits)
  then have "seg_trans (th_flags hdr) (phase s c) None" by (auto intro: last_ack delete)
  then show ?thesis using tcp_free_conn_moves [OF f(1) assms(2,3)] by blast
qed

lemma state_step:
  assumes "set_state c st s = Some s'" "tcp_inv s" "c \<in> used s" "phase s c = Some x"
    "x \<notin> {LISTEN, SYN_RCVD}" "st \<notin> {LISTEN, SYN_RCVD, INVALID_STATE}"
  shows "tcp_inv s'" "phase s' = (phase s)(c \<mapsto> st)" "c \<in> used s'"
  using set_state_inv [OF assms(1) assms(2) [unfolded tcp_inv_def] assms(3)] assms(3-6)
  by (auto simp: tcp_inv_def phase_def split: if_splits)

lemma time_wait_step:
  assumes "start_time_wait c s = Some s'" "tcp_inv s" "c \<in> used s" "phase s c = Some x" "x \<notin> {LISTEN, SYN_RCVD}"
  shows "tcp_inv s'" "phase s' = (phase s)(c \<mapsto> TIME_WAIT)" "c \<in> used s'"
  using start_time_wait_inv [OF assms(1) assms(2) [unfolded tcp_inv_def] assms(3)] assms(3-5)
  by (auto simp: tcp_inv_def phase_def split: if_splits)

lemma send_state_step:
  assumes "update_send_state c hdr s = Some s'" "tcp_inv s" "c \<in> used s"
  shows "tcp_inv s'" "phase s' = phase s" "c \<in> used s'"
  using update_send_state_inv [OF assms(1), of "{}"] assms(2,3) by (simp_all add: tcp_inv_def)

lemma recv_state_step:
  assumes "update_recv_state c hdr payload s = Some (n, s')" "tcp_inv s" "c \<in> used s" "phase s c = Some x"
    "x \<notin> {LISTEN, SYN_RCVD}"
  shows "tcp_inv s'" "phase s' = phase s" "c \<in> used s'"
  using update_recv_state_inv [OF assms(1), of "{}"] assms(2-5) by (auto simp: tcp_inv_def phase_def)

lemma send_step:
  assumes "tcp_send_segment_empty c fl sb s = Some (r, s')" "tcp_inv s" "c \<in> used s"
  shows "tcp_inv s'" "phase s' = phase s" "c \<in> used s'"
  using tcp_send_segment_empty_inv [OF assms(1), of "{}"] assms(2,3) by (simp_all add: tcp_inv_def)

text \<open>The common part of most handlers: update the send and the receive state.\<close>

lemma update_steps:
  assumes "update_send_state c hdr s = Some s1" "update_recv_state c hdr payload s1 = Some (n, s2)"
    "tcp_inv s" "c \<in> used s" "phase s c = Some x" "x \<notin> {LISTEN, SYN_RCVD}"
  shows "tcp_inv s2" "phase s2 = phase s" "c \<in> used s2"
proof -
  note 1 = send_state_step [OF assms(1,3,4)]
  have "phase s1 c = Some x" using 1(2) assms(5) by simp
  note 2 = recv_state_step [OF assms(2) 1(1,3) this assms(6)]
  show "tcp_inv s2" "phase s2 = phase s" "c \<in> used s2" using 1 2 by simp_all
qed

lemma handle_established_inv:
  assumes "tcp_handle_receive_established c hdr payload sb s = Some (r, s')" "tcp_inv s" "c \<in> used s"
  shows "tcp_inv s' \<and> moves (seg_trans (th_flags hdr)) s s'"
proof -
  let ?fl = "th_flags hdr"
  have st: "phase s c = Some ESTABLISHED"
    using assms by (auto simp: tcp_handle_receive_established_def handler_simps phase_def)
  obtain s1 n s2 where u: "update_send_state c hdr s = Some s1" "update_recv_state c hdr payload s1 = Some (n, s2)"
    using assms(1) by (auto simp: tcp_handle_receive_established_def handler_simps)
  note i = update_steps [OF u assms(2,3) st, simplified]
  have st2: "phase s2 c = Some ESTABLISHED" using i st by simp
  consider (rst) "has_flag ?fl TCP_HDR_FLAG_RST" "set_state c RESET s2 = Some s'"
    | (fin) s3 where "\<not> has_flag ?fl TCP_HDR_FLAG_RST" "has_flag ?fl TCP_HDR_FLAG_FIN"
        "set_state c CLOSE_WAIT s2 = Some s3" "tcp_send_segment_empty c TCP_HDR_FLAG_ACK sb s3 = Some (r, s')"
    | (ack) "tcp_send_segment_empty c TCP_HDR_FLAG_ACK sb s2 = Some (r, s')"
    | (none) "s' = s2"
    using assms(1) u by (auto simp: tcp_handle_receive_established_def handler_simps split: if_splits)
  then show ?thesis
  proof cases
    case rst
    then show ?thesis using state_step [OF rst(2) i(1,3) st2] i(2) st moves_one [of s' s c "Some RESET"] reset [OF rst(1)] by simp
  next
    case fin
    note 1 = state_step [OF fin(3) i(1,3) st2, simplified]
    note 2 = send_step [OF fin(4) 1(1,3)]
    show ?thesis using 1 2 i(2) st moves_one [of s' s c "Some CLOSE_WAIT"] peer_close [OF fin(2,1)] by simp
  next
    case ack
    then show ?thesis using send_step [OF ack i(1,3)] i(2) by (simp add: moves_seg_same)
  next
    case none
    then show ?thesis using i by (simp add: moves_seg_same)
  qed
qed

lemma handle_time_wait_inv:
  assumes "tcp_handle_receive_time_wait c hdr payload sb s = Some (r, s')" "tcp_inv s" "c \<in> used s"
  shows "tcp_inv s' \<and> moves (seg_trans (th_flags hdr)) s s'"
proof -
  have st: "phase s c = Some TIME_WAIT"
    using assms by (auto simp: tcp_handle_receive_time_wait_def handler_simps phase_def)
  consider (rst) "has_flag (th_flags hdr) TCP_HDR_FLAG_RST" "tcp_free_conn c s = Some s'"
    | (upd) s1 n s2 where "update_send_state c hdr s = Some s1" "update_recv_state c hdr payload s1 = Some (n, s2)"
        "s' = s2 \<or> tcp_send_segment_empty c TCP_HDR_FLAG_ACK sb s2 = Some (r, s')"
    using assms(1) by (auto simp: tcp_handle_receive_time_wait_def handler_simps split: if_splits)
  then show ?thesis
  proof cases
    case rst
    then show ?thesis using tcp_free_conn_moves [OF rst(2) assms(2,3)] delete [OF rst(1), of TIME_WAIT] st by simp
  next
    case upd
    note i = update_steps [OF upd(1,2) assms(2,3) st, simplified]
    show ?thesis using upd(3) i send_step [of c TCP_HDR_FLAG_ACK sb s2 r s'] by (auto simp: moves_seg_same)
  qed
qed

lemma handle_closing_inv:
  assumes "tcp_handle_receive_closing c hdr s = Some s'" "tcp_inv s" "c \<in> used s"
  shows "tcp_inv s' \<and> moves (seg_trans (th_flags hdr)) s s'"
proof -
  have st: "phase s c = Some CLOSING"
    using assms by (auto simp: tcp_handle_receive_closing_def handler_simps phase_def)
  consider (rst) "has_flag (th_flags hdr) TCP_HDR_FLAG_RST" "tcp_free_conn c s = Some s'"
    | (none) "s' = s"
    | (ack) s1 where "\<not> has_flag (th_flags hdr) TCP_HDR_FLAG_RST" "has_flag (th_flags hdr) TCP_HDR_FLAG_ACK"
        "start_time_wait c s = Some s1" "update_send_state c hdr s1 = Some s'"
    using assms(1) by (auto simp: tcp_handle_receive_closing_def handler_simps split: if_splits)
  then show ?thesis
  proof cases
    case rst
    then show ?thesis using tcp_free_conn_moves [OF rst(2) assms(2,3)] delete [OF rst(1), of CLOSING] st by simp
  next
    case ack
    note 1 = time_wait_step [OF ack(3) assms(2,3) st, simplified]
    note 2 = send_state_step [OF ack(4) 1(1,3)]
    show ?thesis using 1 2 st moves_one [of s' s c "Some TIME_WAIT"] closed [OF ack(2,1)] by simp
  qed (simp add: assms(2) moves_seg_same)
qed

text \<open>A step into \<open>st\<close>, both updates, and possibly an acknowledgement.\<close>

lemma closing_step:
  assumes "update_send_state c hdr s1 = Some s2" "update_recv_state c hdr payload s2 = Some (n, s3)"
    "s' = s3 \<or> tcp_send_segment_empty c fl sb s3 = Some (r, s')"
    "tcp_inv s1" "c \<in> used s1" "phase s1 = (phase s)(c \<mapsto> st)" "st \<notin> {LISTEN, SYN_RCVD}" "T (phase s c) (Some st)"
  shows "tcp_inv s' \<and> moves T s s'"
proof -
  have "phase s1 c = Some st" using assms(6) by simp
  note i = update_steps [OF assms(1,2,4,5) this assms(7)]
  have "tcp_inv s' \<and> phase s' = phase s3" using assms(3) i send_step [of c fl sb s3 r s'] by auto
  then show ?thesis using i(2) assms(6,8) moves_one [of s' s c "Some st" T] by simp
qed

lemma handle_fin_wait_1_inv:
  assumes "tcp_handle_receive_fin_wait_1 c hdr payload sb s = Some (r, s')" "tcp_inv s" "c \<in> used s"
  shows "tcp_inv s' \<and> moves (seg_trans (th_flags hdr)) s s'"
proof -
  let ?fl = "th_flags hdr"
  have st: "phase s c = Some FIN_WAIT_1"
    using assms by (auto simp: tcp_handle_receive_fin_wait_1_def handler_simps phase_def)
  consider (rst) "has_flag ?fl TCP_HDR_FLAG_RST" "tcp_free_conn c s = Some s'"
    | (both) s1 s2 n s3 where "\<not> has_flag ?fl TCP_HDR_FLAG_RST" "has_flag ?fl TCP_HDR_FLAG_FIN" "has_flag ?fl TCP_HDR_FLAG_ACK"
        "start_time_wait c s = Some s1"
        "update_send_state c hdr s1 = Some s2" "update_recv_state c hdr payload s2 = Some (n, s3)"
        "tcp_send_segment_empty c TCP_HDR_FLAG_ACK sb s3 = Some (r, s')"
    | (fin) s1 s2 n s3 where "\<not> has_flag ?fl TCP_HDR_FLAG_RST" "has_flag ?fl TCP_HDR_FLAG_FIN" "\<not> has_flag ?fl TCP_HDR_FLAG_ACK"
        "set_state c CLOSING s = Some s1"
        "update_send_state c hdr s1 = Some s2" "update_recv_state c hdr payload s2 = Some (n, s3)"
        "tcp_send_segment_empty c TCP_HDR_FLAG_ACK sb s3 = Some (r, s')"
    | (ack) s1 s2 n where "\<not> has_flag ?fl TCP_HDR_FLAG_RST" "\<not> has_flag ?fl TCP_HDR_FLAG_FIN" "has_flag ?fl TCP_HDR_FLAG_ACK"
        "set_state c FIN_WAIT_2 s = Some s1"
        "update_send_state c hdr s1 = Some s2" "update_recv_state c hdr payload s2 = Some (n, s')"
    | (none) "s' = s"
    using assms(1) by (auto simp: tcp_handle_receive_fin_wait_1_def handler_simps split: if_splits)
  then show ?thesis
  proof cases
    case rst
    then show ?thesis using tcp_free_conn_moves [OF rst(2) assms(2,3)] delete [OF rst(1), of FIN_WAIT_1] st by simp
  next
    case both
    note 1 = time_wait_step [OF both(4) assms(2,3) st, simplified]
    show ?thesis
      by (rule closing_step [OF both(5,6) disjI2 [OF both(7)] 1(1,3,2)]) (simp_all add: st fin_ack [OF both(2,3,1)])
  next
    case fin
    note 1 = state_step [OF fin(4) assms(2,3) st, simplified]
    show ?thesis
      by (rule closing_step [OF fin(5,6) disjI2 [OF fin(7)] 1(1,3,2)]) (simp_all add: st both_close [OF fin(2,3,1)])
  next
    case ack
    note 1 = state_step [OF ack(4) assms(2,3) st, simplified]
    show ?thesis
      by (rule closing_step [OF ack(5,6) disjI1 [OF refl] 1(1,3,2)]) (simp_all add: st fin_is_acked [OF ack(3,2,1)])
  qed (simp add: assms(2) moves_seg_same)
qed

lemma handle_fin_wait_2_inv:
  assumes "tcp_handle_receive_fin_wait_2 c hdr payload sb s = Some (r, s')" "tcp_inv s" "c \<in> used s"
  shows "tcp_inv s' \<and> moves (seg_trans (th_flags hdr)) s s'"
proof -
  let ?fl = "th_flags hdr"
  have st: "phase s c = Some FIN_WAIT_2"
    using assms by (auto simp: tcp_handle_receive_fin_wait_2_def handler_simps phase_def)
  consider (rst) "has_flag ?fl TCP_HDR_FLAG_RST" "tcp_free_conn c s = Some s'"
    | (fin) s1 s2 n s3 where "\<not> has_flag ?fl TCP_HDR_FLAG_RST" "has_flag ?fl TCP_HDR_FLAG_FIN"
        "start_time_wait c s = Some s1"
        "update_send_state c hdr s1 = Some s2" "update_recv_state c hdr payload s2 = Some (n, s3)"
        "tcp_send_segment_empty c TCP_HDR_FLAG_ACK sb s3 = Some (r, s')"
    | (none) "s' = s"
    using assms(1) by (auto simp: tcp_handle_receive_fin_wait_2_def handler_simps split: if_splits)
  then show ?thesis
  proof cases
    case rst
    then show ?thesis using tcp_free_conn_moves [OF rst(2) assms(2,3)] delete [OF rst(1), of FIN_WAIT_2] st by simp
  next
    case fin
    note 1 = time_wait_step [OF fin(3) assms(2,3) st, simplified]
    show ?thesis
      by (rule closing_step [OF fin(4,5) disjI2 [OF fin(6)] 1(1,3,2)]) (simp_all add: st seg_trans.fin [OF fin(2,1)])
  qed (simp add: assms(2) moves_seg_same)
qed

text \<open>The buffer that the handshake allocates has the size of the receive window.\<close>

lemma kvalloc_alloc_size:
  "kvalloc_alloc n al kv = Some (Some (a, len), kv') \<Longrightarrow> len = ALIGN_UP n PAGE_SIZE"
  by (auto simp: kvalloc_alloc_def Let_def bind_eq_Some_conv)

lemma circ_buf_alloc_window:
  assumes "circ_buf_alloc buf (uint TCP_CONN_RECV_WINDOW_SIZE) kv = Some (r, buf', kv')"
  shows "is_error r \<and> buf' = buf \<or> \<not> is_error r \<and> wf_recv_buf buf'"
proof -
  have u: "uint TCP_CONN_RECV_WINDOW_SIZE = 0x2000" by (simp add: TCP_CONN_RECV_WINDOW_SIZE_def)
  obtain mem kv1 where m: "kvalloc_alloc 0x2000 1 kv = Some (mem, kv1)"
    using assms unfolding u by (auto simp: circ_buf_alloc_def bind_eq_Some_conv)
  show ?thesis
  proof (cases mem)
    case None
    then show ?thesis using assms m unfolding u by (auto simp: circ_buf_alloc_def)
  next
    case (Some al)
    obtain a len where al: "al = (a, len)" by (cases al)
    have "len = 0x2000" using kvalloc_alloc_size [OF m [unfolded Some al]] by (simp add: PAGE_SIZE_def ALIGN_UP_def)
    then show ?thesis using assms m unfolding u Some al
      by (auto simp: circ_buf_alloc_def wf_recv_buf_def wf_circ_def)
  qed
qed

lemma handle_syn_rcvd_inv:
  assumes "tcp_handle_receive_syn_rcvd c hdr sb s = Some (r, s')" "tcp_inv s" "c \<in> used s"
  shows "tcp_inv s' \<and> moves (seg_trans (th_flags hdr)) s s'"
proof -
  let ?fl = "th_flags hdr"
  have st: "phase s c = Some SYN_RCVD"
    using assms by (auto simp: tcp_handle_receive_syn_rcvd_def handler_simps phase_def)
  consider (rst) "has_flag ?fl TCP_HDR_FLAG_RST" "tcp_free_conn c s = Some s'"
    | (none) "s' = s"
    | (ack) s1 s2 where "\<not> has_flag ?fl TCP_HDR_FLAG_RST" "has_flag ?fl TCP_HDR_FLAG_ACK"
        "set_state c ESTABLISHED s = Some s1" "update_send_state c hdr s1 = Some s2"
    using assms(1) by (auto simp: tcp_handle_receive_syn_rcvd_def handler_simps split: if_splits)
  then show ?thesis
  proof cases
    case rst
    then show ?thesis using tcp_free_conn_moves [OF rst(2) assms(2,3)] delete [OF rst(1), of SYN_RCVD] st by simp
  next
    case none
    then show ?thesis using assms(2) by (simp add: moves_seg_same)
  next
    case ack
    let ?conn = "tcp_conn_table s ! c"
    have ok: "conn_ok ?conn" "tc_state ?conn = SYN_RCVD" "tc_is_used ?conn"
      using assms(2,3) st by (auto simp: tcp_inv_def tcp_inv_except_def phase_def used_def)
    note 1 = conn_update_inv [OF ack(3) [unfolded set_state_def] assms(2) [unfolded tcp_inv_def] assms(3), simplified]
    note i1 = 1(1) [OF ok(3)] 1(2) [OF ok(3)] 1(4) [OF ok(3)] 1(5) [OF ok(3)]
    have c1: "c \<in> used s1" using i1(3) assms(3) by simp
    note i2 = update_send_state_inv [OF ack(4) i1(1) c1]
    have w: "tc_recv_window (tcp_conn_table s2 ! c) = TCP_CONN_RECV_WINDOW_SIZE" "tc_state (tcp_conn_table s2 ! c) = ESTABLISHED"
      "tc_is_used (tcp_conn_table s2 ! c)"
      using ack(4) i1(4) ok by (auto simp: update_send_state_def conn_update_Some tcp_conn_update_send_state_def Let_def conn_ok_def)
    have c2: "c \<in> used s2" using i2(3) c1 by simp
    obtain res buf kv s3 where s3: "circ_buf_alloc (tc_recv_buf (tcp_conn_table s2 ! c)) (uint TCP_CONN_RECV_WINDOW_SIZE) (tcp_kv s2) =
        Some (res, buf, kv)" "conn_update c (\<lambda>conn. conn\<lparr>tc_recv_buf := buf\<rparr>) (s2\<lparr>tcp_kv := kv\<rparr>) = Some s3"
      "(if is_error res then do {
         (_, s) \<leftarrow> tcp_send_segment_empty c TCP_HDR_FLAG_RST sb s3;
         s \<leftarrow> tcp_free_conn c s;
         Some (Inl ENOMEM, s)
       } else Some (ok, s3)) = Some (r, s')"
      using assms(1) ack st w by (auto simp: tcp_handle_receive_syn_rcvd_def handler_simps)
    note i3 = conn_update_inv [OF s3(2), of "{c}", simplified, OF i2(1) c2 w(3)]
    have p3: "phase s3 = (phase s)(c \<mapsto> ESTABLISHED)" using i3(2) i2(2) i1(2) w(2) by (simp add: fun_eq_iff)
    have c3: "c \<in> used s3" using i3(4) c2 by simp
    show ?thesis
    proof (cases "is_error res")
      case True
      then obtain r4 s4 where s4: "tcp_send_segment_empty c TCP_HDR_FLAG_RST sb s3 = Some (r4, s4)"
        "tcp_free_conn c s4 = Some s'" using s3(3) by (auto simp: bind_eq_Some_conv)
      note i4 = tcp_send_segment_empty_inv [OF s4(1) i3(1) c3]
      have c4: "c \<in> used s4" using i4(3) c3 by simp
      note i5 = tcp_free_conn_inv [OF s4(2) i4(1) c4]
      have "phase s' = (phase s)(c := None)" using i5(2) i4(2) p3 by simp
      then show ?thesis using i5(1) st no_buffer [OF ack(2,1)] moves_one [of s' s c None] by (simp add: tcp_inv_def)
    next
      case False
      then have "wf_recv_buf buf" "s' = s3" using circ_buf_alloc_window [OF s3(1)] s3(3) by auto
      then have "tcp_inv s'" using i3(3) w(2) by (simp add: tcp_inv_def conn_ok_def)
      then show ?thesis using p3 st handshake [OF ack(2,1)] moves_one [of s' s c "Some ESTABLISHED"] \<open>s' = s3\<close> by simp
    qed
  qed
qed

end
