(* ===== verification/TcpMachine.thy ===== *)
theory TcpMachine
  imports TcpInv
begin

text \<open>
  The operations of TCP as a whole: lookup, the dispatch of segments and the calls of the users
  keep the invariant and follow the state machine; the reachable states.
\<close>

section \<open>Lookup and dispatch\<close>

lemma conn_matches_used: "conn_matches h p hp pp w conn \<Longrightarrow> tc_is_used conn"
  by (simp add: conn_matches_def)

lemma tcp_lookup_conn_inv:
  assumes "tcp_lookup_conn h p hp pp w s = Some (c, s')" "tcp_inv s"
  shows "tcp_inv s'" "\<And>i. purged (phase s i) (phase s' i)"
    "c = Some i \<Longrightarrow> i \<in> used s' \<and> conn_matches h p hp pp w (tcp_conn_table s' ! i)"
proof -
  have s': "tcp_purge_old_conn s = Some s'" "first_conn (conn_matches h p hp pp w) [0..<TCP_CONN_MAX_NUM] s' = Some c"
    using assms(1) by (auto simp: tcp_lookup_conn_def bind_eq_Some_conv)
  show "tcp_inv s'" "\<And>i. purged (phase s i) (phase s' i)"
    using tcp_purge_old_conn_inv [OF s'(1), of "{}"] assms(2) by (simp_all add: tcp_inv_def)
  show "c = Some i \<Longrightarrow> i \<in> used s' \<and> conn_matches h p hp pp w (tcp_conn_table s' ! i)"
  proof -
    assume "c = Some i"
    then obtain as bs where *: "[0..<TCP_CONN_MAX_NUM] = as @ i # bs" "conn_matches h p hp pp w (tcp_conn_table s' ! i)"
      using first_conn_Some s'(2) by blast
    from *(1) have "i \<in> set [0..<TCP_CONN_MAX_NUM]" by (metis in_set_conv_decomp)
    then show ?thesis using *(2) by (auto simp: used_def conn_matches_used)
  qed
qed

lemma handle_listen_inv:
  fixes s s' :: "('d, 'z) tcp_net_scheme"
  assumes "tcp_handle_receive_listen l peer_addr peer_port hdr sb s = Some (r, s')" "tcp_inv s" "l \<in> used s"
  shows "tcp_inv s' \<and> moves (seg_trans (th_flags hdr)) s s'"
proof -
  let ?fl = "th_flags hdr" and ?l = "tcp_conn_table s ! l"
  have st: "phase s l = Some LISTEN"
    using assms by (auto simp: tcp_handle_receive_listen_def handler_simps phase_def)
  show ?thesis
  proof (cases "s' = s")
    case True
    then show ?thesis using assms(2) by (simp add: moves_seg_same)
  next
    case False
    then have fl: "\<not> has_flag ?fl TCP_HDR_FLAG_RST" "has_flag ?fl TCP_HDR_FLAG_SYN"
      using assms(1) by (auto simp: tcp_handle_receive_listen_def handler_simps split: if_splits)
    obtain c s1 where s1: "tcp_conn_alloc_and_init (tc_host_addr ?l) (tc_host_port ?l) SYN_RCVD s = Some (c, s1)"
      using assms(1) fl by (auto simp: tcp_handle_receive_listen_def handler_simps)
    show ?thesis
    proof (rule tcp_conn_alloc_and_init_inv [OF s1 assms(2)])
      assume "c = None" "tcp_inv s1" "\<And>i. purged (phase s i) (phase s1 i)"
      moreover from \<open>c = None\<close> have "s' = s1" using assms(1) fl s1
        by (auto simp: tcp_handle_receive_listen_def handler_simps)
      ultimately show ?thesis using moves_purged [of s s1 "seg_trans ?fl" s1] by (simp add: moves_seg_same)
    next
      fix p :: "('d, 'z) tcp_net_scheme" and c'
      assume c: "c = Some c'" "tcp_inv s1" "\<And>i. purged (phase s i) (phase p i)" "phase p c' = None"
        "phase s1 = (phase p)(c' \<mapsto> SYN_RCVD)" "c' \<in> used s1" "nxt (tcp_links s1) c' = Some c'" "prv (tcp_links s1) c' = Some c'"
      have "phase p l = Some LISTEN" using c(3) [of l] st by (simp add: purged_def)
      then have l: "l \<noteq> c'" "phase s1 l = Some LISTEN" using c(4,5) by auto
      then have lu: "l \<in> used s1" by (simp add: phase_Some)
      have lo: "links_ok (tcp_links s1) (used s1)" using c(2) by (simp add: tcp_inv_def tcp_inv_except_def)
      obtain h where h: "dlist_insert (tcp_links s1) l c' = Some h" "links_ok h (used s1)" "dom h = dom (tcp_links s1)"
        "\<forall>y. y \<notin> used s1 \<longrightarrow> h y = tcp_links s1 y"
        using links_ok_insert [OF lo lu c(6) l(1) [symmetric] c(7,8)] by blast
      let ?s2 = "s1\<lparr>tcp_links := h\<rparr>"
      have i2: "tcp_inv_except {} ?s2"
        using c(2) h(2-4) unfolding tcp_inv_def tcp_inv_except_def by simp
      obtain s3 where s3: "conn_update c' (\<lambda>conn. conn\<lparr>tc_peer_addr := peer_addr, tc_peer_port := peer_port,
            tc_recv_next := u32_from_net_u32 (th_seq_num hdr) + 1\<rparr>) ?s2 = Some s3"
        "tcp_send_segment_empty c' (TCP_HDR_FLAG_SYN OR TCP_HDR_FLAG_ACK) sb s3 = Some (r, s')"
        using assms(1) fl s1 c(1) h(1) by (auto simp: tcp_handle_receive_listen_def handler_simps)
      have cu: "c' \<in> used ?s2" "tc_state (tcp_conn_table s1 ! c') = SYN_RCVD" "tc_is_used (tcp_conn_table ?s2 ! c')"
        using c(5,6) by (auto simp: phase_def fun_eq_iff used_def split: if_splits)
      have "conn_ok (tcp_conn_table s1 ! c')" using c(2,6) by (simp add: tcp_inv_def tcp_inv_except_def)
      then have ok: "conn_ok ((tcp_conn_table ?s2 ! c')\<lparr>tc_peer_addr := peer_addr, tc_peer_port := peer_port,
            tc_recv_next := u32_from_net_u32 (th_seq_num hdr) + 1\<rparr>)" using cu(2) by (simp add: conn_ok_def)
      note i3 = conn_update_inv [OF s3(1) i2 cu(1)]
      have i3': "tcp_inv s3" "phase s3 = phase s1" "c' \<in> used s3"
        using i3(2,3,4) ok cu c(5) by (auto simp: tcp_inv_def fun_eq_iff)
      note i4 = send_step [OF s3(2) i3'(1,3)]
      have "moves (seg_trans ?fl) p s'"
        using moves_one [of s' p c' "Some SYN_RCVD"] i4(2) i3'(2) c(4,5) passive_open [OF fl(2,1)] by simp
      then show ?thesis using i4(1) moves_purged [OF c(3)] by blast
    qed simp
  qed
qed

lemma tcp_dispatch_inv:
  assumes "tcp_dispatch c peer_addr peer_port hdr payload sb s = Some (r, s')" "tcp_inv s" "c \<in> used s"
  shows "tcp_inv s' \<and> moves (seg_trans (th_flags hdr)) s s'"
  using assms handle_listen_inv [OF _ assms(2,3)] handle_syn_rcvd_inv [OF _ assms(2,3)]
    handle_established_inv [OF _ assms(2,3)] handle_last_ack_inv [OF _ assms(2,3)] handle_fin_wait_1_inv [OF _ assms(2,3)]
    handle_fin_wait_2_inv [OF _ assms(2,3)] handle_closing_inv [OF _ assms(2,3)] handle_time_wait_inv [OF _ assms(2,3)]
  by (cases "tc_state (tcp_conn_table s ! c)")
    (simp_all add: tcp_dispatch_def bind_eq_Some_conv conn_at_Some crash_def, auto simp: moves_seg_same)

lemma tcp_handle_packet_inv:
  assumes "tcp_handle_packet ph segment sb s = Some (r, s')" "tcp_inv s"
  shows "tcp_inv s' \<and> moves (seg_trans (th_flags (tcp_header_of segment))) s s'"
proof (cases "s' = s")
  case True
  then show ?thesis using assms(2) by (simp add: moves_seg_same)
next
  case False
  let ?hdr = "tcp_header_of segment"
  obtain payload c1 s1 c s2 where s: "tcp_lookup_conn (ph_dest_addr ph) (ph_src_addr ph) (u16_from_net_u16 (th_dest_port ?hdr))
      (u16_from_net_u16 (th_src_port ?hdr)) False s = Some (c1, s1)"
    "(case c1 of None \<Rightarrow> tcp_lookup_conn (ph_dest_addr ph) (ph_src_addr ph) (u16_from_net_u16 (th_dest_port ?hdr))
        (u16_from_net_u16 (th_src_port ?hdr)) True s1 | Some c \<Rightarrow> Some (Some c, s1)) = Some (c, s2)"
    "(case c of
        None \<Rightarrow> tcp_send_segment_raw (ph_dest_addr ph) (ph_src_addr ph) (u16_from_net_u16 (th_dest_port ?hdr))
          (u16_from_net_u16 (th_src_port ?hdr)) (u32_from_net_u32 (th_ack_num ?hdr)) (u32_from_net_u32 (th_seq_num ?hdr))
          (u16_from_net_u16 (th_window_size ?hdr)) TCP_HDR_FLAG_RST [] sb s2
      | Some c \<Rightarrow> tcp_dispatch c (ph_src_addr ph) (u16_from_net_u16 (th_src_port ?hdr)) ?hdr payload sb s2) = Some (r, s')"
    using assms(1) False unfolding tcp_handle_packet_def Let_def bind_eq_Some_conv
    by (auto simp: bind_eq_Some_conv crash_def split: if_splits)
  note i1 = tcp_lookup_conn_inv [OF s(1) assms(2)]
  have i2: "tcp_inv s2 \<and> (\<forall>i. purged (phase s1 i) (phase s2 i)) \<and> (\<forall>j. c = Some j \<longrightarrow> j \<in> used s2)"
  proof (cases c1)
    case None
    then show ?thesis using tcp_lookup_conn_inv [OF _ i1(1), of _ _ _ _ True c s2] s(2) by auto
  next
    case (Some j)
    then show ?thesis using s(2) i1 by auto
  qed
  then have p: "\<And>i. purged (phase s i) (phase s2 i)" using i1(2) purged_trans by blast
  show ?thesis
  proof (cases c)
    case None
    then have "drv_only s2 s'" using s(3) tcp_send_segment_raw_drv by auto
    from drv_only_tcp [OF this] show ?thesis using i2 moves_purged [OF p] by (simp add: tcp_inv_def moves_seg_same)
  next
    case (Some j)
    then show ?thesis using s(3) i2 tcp_dispatch_inv [of j _ _ ?hdr payload sb s2 r s'] moves_purged [OF p] by auto
  qed
qed

section \<open>The calls of the users\<close>

lemma moves_user_same: "phase s' = phase s \<Longrightarrow> moves user_trans s s'"
  by (rule moves_one [where c = 0 and x = "phase s 0"]) (simp_all add: user_stay)

lemma tcp_conn_listen_inv:
  fixes s s' :: "('d, 'z) tcp_net_scheme"
  assumes "tcp_conn_listen addr port s = Some (r, s')" "tcp_inv s"
  shows "tcp_inv s' \<and> moves user_trans s s' \<and> (\<forall>c. r = Some c \<longrightarrow> phase s' c = Some LISTEN)"
proof -
  obtain c s1 listening where s1: "tcp_lookup_conn addr (ipv4_addr_new 0 0 0 0) port 0 True s = Some (c, s1)"
    "(case c of None \<Rightarrow> Some False | Some c \<Rightarrow> do { conn \<leftarrow> conn_at s1 c; Some (tc_state conn = LISTEN) }) = Some listening"
    "(if listening then Some (c, s1) else tcp_conn_alloc_and_init addr port LISTEN s1) = Some (r, s')"
    using assms(1) by (auto simp: tcp_conn_listen_def bind_eq_Some_conv)
  note i1 = tcp_lookup_conn_inv [OF s1(1) assms(2)]
  show ?thesis
  proof (cases listening)
    case True
    then obtain j where "c = Some j" "tc_state (tcp_conn_table s1 ! j) = LISTEN"
      using s1(2) by (auto simp: bind_eq_Some_conv conn_at_Some split: option.splits)
    then have "phase s1 j = Some LISTEN" using i1(3) by (simp add: phase_Some)
    then show ?thesis using True s1(3) i1(1) \<open>c = Some j\<close> moves_purged [OF i1(2), of user_trans s1] by (auto simp: moves_user_same)
  next
    case False
    then have "tcp_conn_alloc_and_init addr port LISTEN s1 = Some (r, s')" using s1(3) by simp
    then show ?thesis
    proof (rule tcp_conn_alloc_and_init_inv [OF _ i1(1)])
      assume "r = None" "tcp_inv s'" "\<And>i. purged (phase s1 i) (phase s' i)"
      then show ?thesis using moves_purged [of s s' user_trans s'] i1(2) purged_trans by (fastforce simp: moves_user_same)
    next
      fix p :: "('d, 'z) tcp_net_scheme" and c'
      assume c: "r = Some c'" "tcp_inv s'" "\<And>i. purged (phase s1 i) (phase p i)" "phase p c' = None"
        "phase s' = (phase p)(c' \<mapsto> LISTEN)"
      have "moves user_trans p s'" using moves_one [OF c(5)] c(4) user_listen by simp
      then have "moves user_trans s s'" using moves_purged [of s p] i1(2) c(3) purged_trans by blast
      then show ?thesis using c by simp
    qed simp
  qed
qed

lemma tcp_conn_accept_inv:
  assumes "tcp_conn_accept l s = Some (r, s')" "tcp_inv s" "l \<in> used s"
  shows "tcp_inv s' \<and> phase s' = phase s \<and> (\<forall>c. r = Some c \<longrightarrow> c \<noteq> l \<and> phase s' c = Some ESTABLISHED \<and>
    nxt (tcp_links s') c = Some c)"
proof (cases "s' = s \<and> r = None")
  case True
  then show ?thesis using assms(2) by simp
next
  case False
  then obtain c h where c: "nxt (tcp_links s) l = Some c" "tc_state (tcp_conn_table s ! c) = ESTABLISHED"
    "dlist_remove (tcp_links s) c = Some h" "r = Some c" "s' = s\<lparr>tcp_links := h\<rparr>" "c \<noteq> l"
    using assms(1) by (auto simp: tcp_conn_accept_def bind_eq_Some_conv conn_at_Some nxt_def split: if_splits)
  have lo: "links_ok (tcp_links s) (used s)" using assms(2) by (simp add: tcp_inv_def tcp_inv_except_def)
  have cu: "c \<in> used s" using links_ok_nodes [OF lo assms(3)] c(1) by (metis option.inject)
  have "links_ok h (used s)" "nxt h c = Some c" "dom h = dom (tcp_links s)" "\<forall>y. y \<notin> used s \<longrightarrow> h y = tcp_links s y"
    using links_ok_remove [OF lo cu] c(3) by auto
  then show ?thesis using assms(2) c cu by (auto simp: tcp_inv_def tcp_inv_except_def phase_Some)
qed

lemma tcp_send_segment_step:
  assumes "tcp_send_segment c fl payload sb s = Some (r, s')" "tcp_inv s" "c \<in> used s"
  shows "tcp_inv s'" "phase s' = phase s" "c \<in> used s'"
  using tcp_send_segment_inv [OF assms(1), of "{}"] assms(2,3) by (simp_all add: tcp_inv_def)

lemma tcp_send_loop_inv:
  assumes "tcp_send_loop c payload mtu i n sb s = Some y"
  shows "tcp_inv s \<longrightarrow> c \<in> used s \<longrightarrow> tcp_inv (snd y) \<and> phase (snd y) = phase s"
proof (rule tcp_send_loop.raw_induct
    [where P = "\<lambda>c payload mtu i n sb s y. tcp_inv s \<longrightarrow> c \<in> used s \<longrightarrow> tcp_inv (snd y) \<and> phase (snd y) = phase s",
      OF _ assms])
  fix loop c payload mtu i n sb and s :: "('a, 'b) tcp_net_scheme" and y
  assume IH: "\<And>c payload mtu i n sb s y. loop c payload mtu i n sb s = Some y \<Longrightarrow>
      tcp_inv s \<longrightarrow> c \<in> used s \<longrightarrow> tcp_inv (snd y) \<and> phase (snd y) = phase s"
    and y: "(if \<not> i < int (length payload) then Some (Inr n, s)
      else do {
        conn \<leftarrow> conn_at s c;
        if tcp_send_window_avail conn = 0 then Some (Inr n, s)
        else do {
          let fragment = take (nat (min (int (length payload) - i) mtu)) (drop (nat i) payload);
          (res, s) \<leftarrow> tcp_send_segment c TCP_HDR_FLAG_ACK fragment sb s;
          case res of
            Inl e \<Rightarrow> Some (Inl e, s)
          | Inr n_fragment_sent \<Rightarrow>
              let n_sent = n + n_fragment_sent in
              if n_fragment_sent < int (length fragment) then Some (Inr n_sent, s)
              else loop c payload mtu (i + mtu) n_sent sb s
        }
      }) = Some y"
  show "tcp_inv s \<longrightarrow> c \<in> used s \<longrightarrow> tcp_inv (snd y) \<and> phase (snd y) = phase s"
  proof (intro impI)
    assume s: "tcp_inv s" "c \<in> used s"
    show "tcp_inv (snd y) \<and> phase (snd y) = phase s"
    proof (cases "snd y = s")
      case True
      then show ?thesis using s by simp
    next
      case False
      let ?fragment = "take (nat (min (int (length payload) - i) mtu)) (drop (nat i) payload)"
      obtain res s1 where s1: "tcp_send_segment c TCP_HDR_FLAG_ACK ?fragment sb s = Some (res, s1)"
        "snd y = s1 \<or> (\<exists>k. loop c payload mtu (i + mtu) k sb s1 = Some y)"
      proof -
        obtain res s1 where s1: "tcp_send_segment c TCP_HDR_FLAG_ACK ?fragment sb s = Some (res, s1)"
          using y False by (auto simp: bind_eq_Some_conv Let_def split: if_splits)
        moreover have "snd y = s1 \<or> (\<exists>k. loop c payload mtu (i + mtu) k sb s1 = Some y)"
          using y False s1 by (cases res) (auto simp: bind_eq_Some_conv Let_def split: if_splits)
        ultimately show ?thesis using that by blast
      qed
      note i1 = tcp_send_segment_step [OF s1(1) s]
      show ?thesis using s1(2) i1 IH [of c payload mtu "i + mtu" _ sb s1 y] by auto
    qed
  qed
qed

lemma tcp_conn_send_inv:
  assumes "tcp_conn_send c payload sb s = Some (r, p, s')" "tcp_inv s" "c \<in> used s"
  shows "tcp_inv s' \<and> phase s' = phase s"
proof (cases "s' = s")
  case False
  then obtain mtu r' where "tcp_send_loop c payload mtu 0 0 sb s = Some (r', s')"
    using assms(1) by (cases "ipv4_route_mtu (tc_peer_addr (tcp_conn_table s ! c)) s")
      (auto simp: tcp_conn_send_def bind_eq_Some_conv Let_def conn_at_Some)
  from tcp_send_loop_inv [OF this] show ?thesis using assms(2,3) by simp
qed (simp add: assms(2))

lemma circ_buf_read_wf:
  "wf_recv_buf buf \<Longrightarrow> wf_buf dest \<Longrightarrow> circ_buf_read buf dest = Some (n, buf', dest') \<Longrightarrow> wf_recv_buf buf'"
  using circ_buf_read_ok [of buf dest] by (auto simp: wf_recv_buf_def)

lemma tcp_conn_recv_inv:
  assumes "tcp_conn_recv c buf s = Some (r, buf', p, s')" "tcp_inv s" "c \<in> used s" "wf_buf buf"
    "tc_state (tcp_conn_table s ! c) \<notin> {LISTEN, SYN_RCVD}"
  shows "tcp_inv s' \<and> phase s' = phase s"
proof (cases "s' = s")
  case False
  let ?conn = "tcp_conn_table s ! c"
  obtain n rb where r: "circ_buf_read (tc_recv_buf ?conn) buf = Some (n, rb, buf')"
    "conn_update c (\<lambda>conn. conn\<lparr>tc_recv_buf := rb\<rparr>) s = Some s'"
    using assms(1) False by (auto simp: tcp_conn_recv_def bind_eq_Some_conv Let_def conn_at_Some split: if_splits)
  have ok: "conn_ok ?conn" "tc_is_used ?conn" using assms(2,3) by (auto simp: tcp_inv_def tcp_inv_except_def used_def)
  then have w: "wf_recv_buf (tc_recv_buf ?conn)" using assms(5) by (auto simp: conn_ok_def split: tcp_conn_state.splits)
  have "wf_recv_buf rb" by (rule circ_buf_read_wf [OF w assms(4) r(1)])
  then have "conn_ok (?conn\<lparr>tc_recv_buf := rb\<rparr>)" using ok(1) assms(5) by (auto simp: conn_ok_def split: tcp_conn_state.splits)
  then show ?thesis using conn_update_inv [OF r(2) assms(2) [unfolded tcp_inv_def] assms(3)] ok(2) assms(3)
    by (auto simp: tcp_inv_def phase_def fun_eq_iff)
qed (simp add: assms(2))

lemma tcp_conn_close_inv:
  assumes "tcp_conn_close c sb s = Some (r, s')" "tcp_inv s" "c \<in> used s"
  shows "tcp_inv s' \<and> moves user_trans s s'"
proof -
  let ?st = "tc_state (tcp_conn_table s ! c)"
  have st: "phase s c = Some ?st" using assms(3) by (simp add: phase_def)
  consider (free) "?st \<in> {LISTEN, SYN_RCVD, RESET}" "tcp_free_conn c s = Some s'"
    | (fin) s1 st' where "set_state c st' s = Some s1" "?st = ESTABLISHED \<and> st' = FIN_WAIT_1 \<or> ?st = CLOSE_WAIT \<and> st' = LAST_ACK"
        "tcp_send_segment_empty c (TCP_HDR_FLAG_FIN OR TCP_HDR_FLAG_ACK) sb s1 = Some (r, s')"
    | (none) "s' = s"
    using assms(1) by (auto simp: tcp_conn_close_def bind_eq_Some_conv conn_at_Some split: if_splits)
  then show ?thesis
  proof cases
    case free
    then show ?thesis using tcp_free_conn_moves [OF free(2) assms(2,3), of user_trans] user_abort st by simp
  next
    case fin
    note 1 = state_step [OF fin(1) assms(2,3) st]
    have 2: "tcp_inv s1" "phase s1 = (phase s)(c \<mapsto> st')" "c \<in> used s1" using 1 fin(2) by auto
    note 3 = send_step [OF fin(3) 2(1,3)]
    have "user_trans (Some ?st) (Some st')" using fin(2) user_close user_last by auto
    then show ?thesis using 2 3 st moves_one [of s' s c "Some st'" user_trans] by simp
  qed (simp add: assms(2) moves_user_same)
qed

section \<open>Reachable states\<close>

text \<open>
  The users of connections: a call names a connection that is in use, and \<open>tcp_conn_recv\<close> a
  connection that came from \<open>tcp_conn_accept\<close>, so its handshake is complete. Between the calls the
  rest of the network stack may change its own part of the state.
\<close>

datatype tcp_call =
    Packet tcp_ip_pseudo_header "byte list" send_buf
  | Listen ipv4_addr u16
  | Accept nat
  | Send nat "byte list" send_buf
  | Recv nat byte_buf
  | Close nat send_buf

fun call_allowed :: "tcp_call \<Rightarrow> ('d, 'z) tcp_net_scheme \<Rightarrow> bool" where
  "call_allowed (Accept l) s = (l \<in> used s)"
| "call_allowed (Send c _ _) s = (c \<in> used s)"
| "call_allowed (Recv c buf) s = (c \<in> used s \<and> wf_buf buf \<and> tc_state (tcp_conn_table s ! c) \<notin> {LISTEN, SYN_RCVD})"
| "call_allowed (Close c _) s = (c \<in> used s)"
| "call_allowed _ s = True"

fun tcp_run :: "tcp_call \<Rightarrow> ('d, 'z) tcp_net_scheme \<Rightarrow> ('d, 'z) tcp_net_scheme option" where
  "tcp_run (Packet ph segment sb) s = map_option snd (tcp_handle_packet ph segment sb s)"
| "tcp_run (Listen addr port) s = map_option snd (tcp_conn_listen addr port s)"
| "tcp_run (Accept l) s = map_option snd (tcp_conn_accept l s)"
| "tcp_run (Send c payload sb) s = map_option (snd \<circ> snd) (tcp_conn_send c payload sb s)"
| "tcp_run (Recv c buf) s = map_option (snd \<circ> snd \<circ> snd) (tcp_conn_recv c buf s)"
| "tcp_run (Close c sb) s = map_option snd (tcp_conn_close c sb s)"

fun call_trans :: "tcp_call \<Rightarrow> tcp_conn_state option \<Rightarrow> tcp_conn_state option \<Rightarrow> bool" where
  "call_trans (Packet _ segment _) = seg_trans (th_flags (tcp_header_of segment))"
| "call_trans _ = user_trans"

lemma tcp_run_inv:
  assumes "tcp_run call s = Some s'" "tcp_inv s" "call_allowed call s"
  shows "tcp_inv s' \<and> moves (call_trans call) s s'"
proof (cases call)
  case (Packet ph seg sb)
  then show ?thesis using assms tcp_handle_packet_inv [of ph seg sb s] by auto
next
  case (Listen addr port)
  then show ?thesis using assms tcp_conn_listen_inv [of addr port s] by auto
next
  case (Accept l)
  then show ?thesis using assms tcp_conn_accept_inv [of l s] by (auto simp: moves_user_same)
next
  case (Send c payload sb)
  then show ?thesis using assms tcp_conn_send_inv [of c payload sb s] by (auto simp: moves_user_same)
next
  case (Recv c buf)
  then show ?thesis using assms tcp_conn_recv_inv [of c buf s] by (auto simp: moves_user_same)
next
  case (Close c sb)
  then show ?thesis using assms tcp_conn_close_inv [of c sb s] by auto
qed

end
