(* ===== verification/TcpProps.thy ===== *)
theory TcpProps
  imports TcpMachine
begin

text \<open>
  What TCP does for its users: connections stay valid while their users have them, data arrives
  in order, the send window is respected, segments carry a valid checksum.
\<close>

section \<open>The reachable states\<close>

text \<open>The static memory at the start of the kernel is zero, which is the state LISTEN of a free connection.\<close>

definition zero_conn :: tcp_conn where
  "zero_conn =
     \<lparr>tc_is_used = False, tc_host_addr = Ipv4 0 0 0 0, tc_peer_addr = Ipv4 0 0 0 0, tc_host_port = 0,
      tc_peer_port = 0, tc_state = LISTEN, tc_send_unack = 0, tc_send_next = 0, tc_send_window = 0, tc_iss = 0,
      tc_recv_next = 0, tc_recv_window = 0,
      tc_recv_buf = \<lparr>cb_addr = 0, cb_len = 0, cb_dat = [], cb_head = 0, cb_tail = 0\<rparr>, tc_time_wait_start = 0\<rparr>"

definition zero_links :: "nat heap" where
  "zero_links i = (if i < TCP_CONN_MAX_NUM then Some \<lparr>dl_prev = None, dl_next = None\<rparr> else None)"

inductive tcp_reachable :: "('d, 'z) tcp_net_scheme \<Rightarrow> bool" where
  boot: "tcp_conn_table s = replicate TCP_CONN_MAX_NUM zero_conn \<Longrightarrow> tcp_links s = zero_links \<Longrightarrow> tcp_reachable s"
| call: "tcp_reachable s \<Longrightarrow> call_allowed call s \<Longrightarrow> tcp_run call s = Some s' \<Longrightarrow> tcp_reachable s'"
| elsewhere: "tcp_reachable s \<Longrightarrow> tcp_conn_table s' = tcp_conn_table s \<Longrightarrow> tcp_links s' = tcp_links s \<Longrightarrow> tcp_reachable s'"

lemma tcp_inv_cong:
  "tcp_conn_table s' = tcp_conn_table s \<Longrightarrow> tcp_links s' = tcp_links s \<Longrightarrow> tcp_inv s' = tcp_inv s"
  by (simp add: tcp_inv_def tcp_inv_except_def used_def)

lemma tcp_boot_inv:
  assumes "tcp_conn_table s = replicate TCP_CONN_MAX_NUM zero_conn" "tcp_links s = zero_links"
  shows "tcp_inv s"
proof -
  have "used s = {}" using assms by (auto simp: used_def zero_conn_def)
  then show ?thesis using assms
    by (auto simp: tcp_inv_def tcp_inv_except_def links_ok_def zero_links_def unused_links_def split: if_splits)
qed

lemma tcp_reachable_inv: "tcp_reachable s \<Longrightarrow> tcp_inv s"
proof (induction rule: tcp_reachable.induct)
  case (boot s)
  then show ?case by (rule tcp_boot_inv)
next
  case (call s c s')
  then show ?case using tcp_run_inv by blast
next
  case (elsewhere s s')
  then show ?case using tcp_inv_cong by blast
qed

text \<open>
  C1: in every state that TCP can reach, each connection that is in use is in a state of the TCP
  state machine, with the fields that this state needs (no peer while it listens, a receive buffer
  from the end of the handshake on), its queue links lead to connections that are in use and
  back, and every further operation changes the states of the connections only along the state
  machine: connections whose waiting time is over are deleted, and at most one connection makes
  one of the transitions that the operation allows.
\<close>

theorem tcp_follows_state_machine:
  assumes "tcp_reachable s"
  shows "(\<forall>i \<in> used s. conn_ok (tcp_conn_table s ! i)) \<and> links_ok (tcp_links s) (used s) \<and>
    (\<forall>call s'. call_allowed call s \<longrightarrow> tcp_run call s = Some s' \<longrightarrow> moves (call_trans call) s s')"
  using tcp_reachable_inv [OF assms] tcp_run_inv [of _ s] by (auto simp: tcp_inv_def tcp_inv_except_def)

definition sample_tcp :: "byte list tcp_net" where
  "sample_tcp = ip_net.extend sample_routes
     \<lparr>tcp_conn_table = replicate TCP_CONN_MAX_NUM zero_conn, tcp_links = zero_links,
      tcp_kv = \<lparr>kv_virt_alloc = None, kv_initialized = True\<rparr>,
      tcp_clock = \<lparr>hw_tsc = \<lambda>n. of_nat n * 1000000, hw_tsc_reads = 0, hw_pit = \<lambda>_. 0, hw_pit_reads = 0, hw_pit_writes = [],
        ck_tsc_base = 0, ck_tsc_freq_hz = 1000000000, ck_initialized = True\<rparr>,
      tcp_rdrand = \<lambda>n. Some (of_nat n + 7), tcp_rdrand_reads = 0\<rparr>"

text \<open>Runs of the loops over the table when there is nothing to do.\<close>

lemma purge_loop_idle:
  "\<forall>i \<in> set is. i < length (tcp_conn_table s) \<and> \<not> (tc_is_used (tcp_conn_table s ! i) \<and> tc_state (tcp_conn_table s ! i) = TIME_WAIT) \<Longrightarrow>
     purge_loop is s = Some s"
  by (induction "is") (auto simp: conn_at_def)

lemma first_conn_miss:
  "\<forall>i \<in> set is. i < length (tcp_conn_table s) \<and> \<not> P (tcp_conn_table s ! i) \<Longrightarrow> first_conn P is s = Some None"
  by (induction "is") (auto simp: conn_at_def)

lemma first_conn_zero:
  "0 < length (tcp_conn_table s) \<Longrightarrow> P (tcp_conn_table s ! 0) \<Longrightarrow> first_conn P [0..<TCP_CONN_MAX_NUM] s = Some (Some 0)"
  by (subst upt_conv_Cons) (simp_all add: TCP_CONN_MAX_NUM_def conn_at_def peek_def)

definition sample_conn :: tcp_conn where
  "sample_conn = init_conn (Ipv4 10 0 0 2) 80 LISTEN 7 (zero_conn\<lparr>tc_is_used := True\<rparr>)"

definition sample_listening :: "byte list tcp_net" where
  "sample_listening = sample_tcp\<lparr>tcp_rdrand_reads := 1,
     tcp_links := zero_links(0 \<mapsto> \<lparr>dl_prev = Some 0, dl_next = Some 0\<rparr>),
     tcp_conn_table := (replicate TCP_CONN_MAX_NUM zero_conn)[0 := sample_conn]\<rparr>"

lemma sample_tcp_simps [simp]:
  "tcp_conn_table sample_tcp = replicate TCP_CONN_MAX_NUM zero_conn" "tcp_links sample_tcp = zero_links"
  "tcp_rdrand sample_tcp 0 = Some 7" "tcp_rdrand_reads sample_tcp = 0" "\<not> tc_is_used zero_conn"
  by (simp_all add: sample_tcp_def ip_net.extend_def zero_conn_def)

lemma sample_listen: "tcp_run (Listen (Ipv4 10 0 0 2) 80) sample_tcp = Some sample_listening"
proof -
  have p: "tcp_purge_old_conn sample_tcp = Some sample_tcp"
    unfolding tcp_purge_old_conn_def by (rule purge_loop_idle) simp
  have l: "tcp_lookup_conn a p hp pp w sample_tcp = Some (None, sample_tcp)" for a p hp pp w
    unfolding tcp_lookup_conn_def p using first_conn_miss [of "[0..<TCP_CONN_MAX_NUM]" sample_tcp]
    by (simp add: conn_matches_def)
  have f: "first_conn (\<lambda>conn. \<not> tc_is_used conn) [0..<TCP_CONN_MAX_NUM] sample_tcp = Some (Some 0)"
    by (rule first_conn_zero) (simp_all add: TCP_CONN_MAX_NUM_def)
  show ?thesis
    using p l f
    by (simp add: tcp_conn_listen_def tcp_conn_alloc_and_init_def tcp_alloc_conn_def conn_update_def conn_at_def peek_def poke_def
        tcp_generate_isn_def dlist_init_empty_def set_next_def set_prev_def zero_links_def TCP_CONN_MAX_NUM_def
        sample_listening_def sample_conn_def init_conn_def fun_eq_iff)
qed

lemma sample_reachable: "tcp_reachable sample_tcp" "tcp_reachable sample_listening"
proof -
  show b: "tcp_reachable sample_tcp" by (rule tcp_reachable.boot) simp_all
  show "tcp_reachable sample_listening" by (rule tcp_reachable.call [OF b _ sample_listen]) simp
qed

lemma sample_used: "0 \<in> used sample_listening"
  by (simp add: used_def sample_listening_def sample_conn_def init_conn_def TCP_CONN_MAX_NUM_def)

theorem tcp_follows_state_machine_witness:
  "tcp_reachable sample_listening \<and> conn_ok (tcp_conn_table sample_listening ! 0) \<and>
   links_ok (tcp_links sample_listening) (used sample_listening) \<and> moves user_trans sample_tcp sample_listening"
proof (intro conjI)
  show "tcp_reachable sample_listening" by (rule sample_reachable(2))
  show "conn_ok (tcp_conn_table sample_listening ! 0)"
    using tcp_follows_state_machine [OF sample_reachable(2)] sample_used by blast
  show "links_ok (tcp_links sample_listening) (used sample_listening)"
    using tcp_follows_state_machine [OF sample_reachable(2)] by blast
  have "moves (call_trans (Listen (Ipv4 10 0 0 2) 80)) sample_tcp sample_listening"
    using tcp_follows_state_machine [OF sample_reachable(1)] sample_listen call_allowed.simps(6) by blast
  then show "moves user_trans sample_tcp sample_listening" by simp
qed

section \<open>Connections of users stay valid\<close>

definition user_open :: "tcp_conn_state \<Rightarrow> bool" where
  "user_open st \<longleftrightarrow> st \<in> {LISTEN, ESTABLISHED, CLOSE_WAIT, RESET}"

inductive_cases seg_transE: "seg_trans fl x y"

text \<open>
  C4: a segment never takes a connection away from its user: a connection that listens or has been
  accepted, and has not been closed by the user, is still in use after any incoming segment, and
  the peer can only move it from ESTABLISHED to CLOSE_WAIT (with a FIN) or to RESET (with a RST).
\<close>

theorem tcp_open_connections_kept:
  assumes "tcp_reachable s" and "phase s c = Some st" and "user_open st"
    and "tcp_handle_packet ph segment sb s = Some (r, s')"
  shows "\<exists>st'. phase s' c = Some st' \<and> user_open st' \<and>
    (st' = st \<or> st = ESTABLISHED \<and>
      (st' = CLOSE_WAIT \<and> has_flag (th_flags (tcp_header_of segment)) TCP_HDR_FLAG_FIN \<or>
       st' = RESET \<and> has_flag (th_flags (tcp_header_of segment)) TCP_HDR_FLAG_RST))"
proof -
  obtain d p where p: "\<forall>i. purged (phase s i) (p i)"
    "seg_trans (th_flags (tcp_header_of segment)) (p d) (phase s' d)" "\<forall>i. i \<noteq> d \<longrightarrow> phase s' i = p i"
    using tcp_handle_packet_inv [OF assms(4) tcp_reachable_inv [OF assms(1)]] by (auto simp: moves_def)
  have pc: "p c = Some st" using p(1) assms(2,3) by (metis option.inject purged_def user_open_def empty_iff insert_iff tcp_conn_state.distinct)
  show ?thesis
  proof (cases "c = d")
    case True
    then show ?thesis using p(2) pc assms(3) by (auto simp: user_open_def elim!: seg_transE)
  next
    case False
    then show ?thesis using p(3) pc assms(3) by simp
  qed
qed

section \<open>Receiving data\<close>

text \<open>
  C3: data on an established connection. A segment with data (and neither RST nor FIN) is accepted
  exactly when its sequence number is the next one that is expected and the data fits into the
  receive buffer. Then the data is appended to the queue of the bytes for the user, the next
  expected number advances by its length modulo \<open>2 ^ 32\<close>, and the segment is acknowledged;
  otherwise buffer and number stay as they are and nothing is sent. Nothing else changes but the
  send window and the acknowledged number of this connection.
\<close>

theorem tcp_established_receives:
  assumes "tcp_inv s" and "c \<in> used s" and "conn = tcp_conn_table s ! c" and "tc_state conn = ESTABLISHED"
    and "\<not> has_flag (th_flags hdr) TCP_HDR_FLAG_RST" and "\<not> has_flag (th_flags hdr) TCP_HDR_FLAG_FIN"
    and "payload \<noteq> []"
    and "accept = (u32_from_net_u32 (th_seq_num hdr) = tc_recv_next conn \<and>
      circ_used (tc_recv_buf conn) + length payload \<le> 0x1fff)"
  shows "\<exists>conn' s1. s1 = s\<lparr>tcp_conn_table := (tcp_conn_table s)[c := conn']\<rparr> \<and>
    tcp_handle_receive_established c hdr payload sb s =
      (if accept then tcp_send_segment_empty c TCP_HDR_FLAG_ACK sb s1 else Some (ok, s1)) \<and>
    circ_items (tc_recv_buf conn') = circ_items (tc_recv_buf conn) @ (if accept then payload else []) \<and>
    tc_recv_next conn' = tc_recv_next conn + (if accept then word_of_int (int (length payload)) else 0) \<and>
    conn' = (tcp_conn_update_send_state hdr conn)\<lparr>tc_recv_buf := tc_recv_buf conn', tc_recv_next := tc_recv_next conn'\<rparr>"
proof -
  let ?c1 = "tcp_conn_update_send_state hdr conn"
  let ?t = "tcp_conn_table s"
  have c: "c < length ?t" "conn_ok conn" using assms(1-3) by (auto simp: tcp_inv_def tcp_inv_except_def used_def)
  then have w: "wf_recv_buf (tc_recv_buf conn)" using assms(4) by (simp add: conn_ok_def)
  have c1: "tc_recv_buf ?c1 = tc_recv_buf conn" "tc_recv_next ?c1 = tc_recv_next conn"
    by (auto simp: tcp_conn_update_send_state_def Let_def)
  obtain buf where buf: "if circ_used (tc_recv_buf conn) + length payload \<le> 0x1fff
      then circ_buf_write (tc_recv_buf conn) payload = Some (ok, buf) \<and> circ_items buf = circ_items (tc_recv_buf conn) @ payload
      else circ_buf_write (tc_recv_buf conn) payload = Some (Inl EAGAIN, buf) \<and> buf = tc_recv_buf conn"
    using circ_buf_write_ok [of "tc_recv_buf conn" payload] w unfolding wf_recv_buf_def by (auto split: if_splits)
  define conn' where "conn' = (if accept then ?c1\<lparr>tc_recv_buf := buf,
      tc_recv_next := tc_recv_next conn + word_of_int (int (length payload))\<rparr> else ?c1)"
  have r: "tcp_conn_update_recv_state hdr payload ?c1 = Some (if accept then int (length payload) else 0, conn')"
    using assms(6-8) buf c1 by (auto simp: tcp_conn_update_recv_state_def Let_def conn'_def split: if_splits)
  have "update_send_state c hdr s = Some (s\<lparr>tcp_conn_table := ?t[c := ?c1]\<rparr>)"
    using c(1) assms(3) by (simp add: update_send_state_def conn_update_eq)
  moreover have "update_recv_state c hdr payload (s\<lparr>tcp_conn_table := ?t[c := ?c1]\<rparr>) =
      Some (if accept then int (length payload) else 0, s\<lparr>tcp_conn_table := ?t[c := conn']\<rparr>)"
    using c(1) r by (simp add: update_recv_state_def conn_at_def conn_update_eq)
  moreover have "conn_at s c = Some conn" using c(1) assms(3) by (simp add: conn_at_def)
  ultimately have h: "tcp_handle_receive_established c hdr payload sb s =
      (if accept then tcp_send_segment_empty c TCP_HDR_FLAG_ACK sb (s\<lparr>tcp_conn_table := ?t[c := conn']\<rparr>)
       else Some (ok, s\<lparr>tcp_conn_table := ?t[c := conn']\<rparr>))"
    using assms(4-7) by (simp add: tcp_handle_receive_established_def)
  show ?thesis
  proof (intro exI conjI)
    show "tcp_handle_receive_established c hdr payload sb s =
      (if accept then tcp_send_segment_empty c TCP_HDR_FLAG_ACK sb (s\<lparr>tcp_conn_table := ?t[c := conn']\<rparr>)
       else Some (ok, s\<lparr>tcp_conn_table := ?t[c := conn']\<rparr>))" by (rule h)
    show "circ_items (tc_recv_buf conn') = circ_items (tc_recv_buf conn) @ (if accept then payload else [])"
      using buf assms(8) c1 by (auto simp: conn'_def)
  qed (use c1 in \<open>auto simp: conn'_def\<close>)
qed

section \<open>The send window\<close>

definition in_flight :: "tcp_conn \<Rightarrow> nat" where
  "in_flight conn = unat (tc_send_next conn - tc_send_unack conn)"

definition window_ok :: "tcp_conn \<Rightarrow> bool" where
  "window_ok conn \<longleftrightarrow> in_flight conn \<le> unat (tc_send_window conn)"

lemma window_ok_room: "window_ok conn \<Longrightarrow> 0 \<le> int (unat (tc_send_window conn)) - int (in_flight conn)"
  unfolding window_ok_def by (simp only: of_nat_le_iff diff_ge_0_iff_ge)

lemma window_avail:
  assumes "window_ok conn"
  shows "unat (tcp_send_window_avail conn) = unat (tc_send_window conn) - in_flight conn"
proof -
  let ?w = "ucast (tc_send_window conn) :: u32" and ?f = "tc_send_next conn - tc_send_unack conn"
  have u: "unat ?w = unat (tc_send_window conn)" by (simp add: unsigned_ucast_eq take_bit_nat_eq_self_iff less_trans [OF unat_bound])
  have "tcp_send_window_avail conn = ?w - ?f" by (simp add: tcp_send_window_avail_def)
  moreover have "?f \<le> ?w" using assms u by (simp add: window_ok_def in_flight_def word_le_nat_alt)
  ultimately show ?thesis using u by (simp add: unat_sub in_flight_def)
qed

abbreviation sent :: "int \<Rightarrow> tcp_conn \<Rightarrow> tcp_conn" where
  "sent n conn \<equiv> conn\<lparr>tc_send_next := tc_send_next conn + word_of_int n\<rparr>"

lemma in_flight_sent:
  assumes "window_ok conn" "0 \<le> n" "n \<le> int (unat (tc_send_window conn)) - int (in_flight conn)"
  shows "in_flight (sent n conn) = in_flight conn + nat n" "window_ok (sent n conn)"
proof -
  have b: "in_flight conn + nat n \<le> unat (tc_send_window conn)" using assms(2,3) by linarith
  have l: "unat (tc_send_window conn) < 2 ^ 16" using unat_bound [of "tc_send_window conn"] by simp
  have n: "unat (word_of_int n :: u32) = nat n"
    using assms(2) b l by (simp add: unsigned_of_int take_bit_int_eq_self)
  have "tc_send_next (sent n conn) - tc_send_unack conn = (tc_send_next conn - tc_send_unack conn) + word_of_int n" by simp
  then have "in_flight (sent n conn) = unat ((tc_send_next conn - tc_send_unack conn) + word_of_int n)"
    unfolding in_flight_def by (simp add: algebra_simps)
  also have "\<dots> = in_flight conn + nat n"
    using b l n by (simp add: in_flight_def unat_word_ariths)
  finally show "in_flight (sent n conn) = in_flight conn + nat n" .
  then show "window_ok (sent n conn)" using b by (simp add: window_ok_def)
qed

lemma tcp_send_segment_sent:
  assumes "tcp_send_segment c fl payload sb s = Some (Inr n, s')" "window_ok (tcp_conn_table s ! c)"
    "\<not> has_flag fl TCP_HDR_FLAG_SYN" "\<not> has_flag fl TCP_HDR_FLAG_FIN"
  shows "n = min (int (unat (tc_send_window (tcp_conn_table s ! c))) - int (in_flight (tcp_conn_table s ! c))) (int (length payload))"
    "c < length (tcp_conn_table s)" "tcp_conn_table s' = (tcp_conn_table s)[c := sent n (tcp_conn_table s ! c)]"
proof -
  let ?conn = "tcp_conn_table s ! c"
  let ?n = "min (uint (tcp_send_window_avail ?conn)) (int (length payload))"
  show c: "c < length (tcp_conn_table s)"
    using assms(1) by (auto simp: tcp_send_segment_def bind_eq_Some_conv conn_at_Some)
  then have conn: "conn_at s c = Some ?conn" by (simp add: conn_at_def)
  obtain r1 s1 where s1: "tcp_send_segment_raw (tc_host_addr ?conn) (tc_peer_addr ?conn) (tc_host_port ?conn)
      (tc_peer_port ?conn) (tc_send_next ?conn) (tc_recv_next ?conn) (tc_recv_window ?conn) fl (take (nat ?n) payload) sb s = Some (r1, s1)"
    using assms(1) conn by (auto simp: tcp_send_segment_def Let_def bind_eq_Some_conv)
  have t: "tcp_conn_table s1 = tcp_conn_table s" by (rule drv_only_tcp(4) [OF tcp_send_segment_raw_drv [OF s1]])
  obtain u where "r1 = Inr u" using assms(1) conn s1 by (cases r1) (auto simp: tcp_send_segment_def Let_def)
  then have r: "n = ?n" "tcp_conn_table s' = (tcp_conn_table s)[c := sent ?n ?conn]"
    using assms(1,3,4) conn s1 t c by (auto simp: tcp_send_segment_def Let_def bind_eq_Some_conv conn_update_Some)
  have "uint (tcp_send_window_avail ?conn) = int (unat (tc_send_window ?conn)) - int (in_flight ?conn)"
    using window_avail [OF assms(2)] assms(2) unfolding window_ok_def by (metis of_nat_diff uint_nat)
  then show "n = min (int (unat (tc_send_window ?conn)) - int (in_flight ?conn)) (int (length payload))"
    "tcp_conn_table s' = (tcp_conn_table s)[c := sent n ?conn]" using r by simp_all
qed

lemma tcp_send_loop_sent:
  assumes "tcp_send_loop c payload mtu i k sb s = Some y"
  shows "window_ok (tcp_conn_table s ! c) \<longrightarrow> c < length (tcp_conn_table s) \<longrightarrow> 0 \<le> i \<longrightarrow> k = min i (int (length payload)) \<longrightarrow> 0 \<le> mtu \<longrightarrow>
    (\<forall>n. fst y = Inr n \<longrightarrow>
       n = min (int (length payload))
         (k + (int (unat (tc_send_window (tcp_conn_table s ! c))) - int (in_flight (tcp_conn_table s ! c)))) \<and>
       tcp_conn_table (snd y) = (tcp_conn_table s)[c := sent (n - k) (tcp_conn_table s ! c)])"
proof (rule tcp_send_loop.raw_induct
    [where P = "\<lambda>c payload mtu i k sb s y. window_ok (tcp_conn_table s ! c) \<longrightarrow> c < length (tcp_conn_table s) \<longrightarrow> 0 \<le> i \<longrightarrow>
      k = min i (int (length payload)) \<longrightarrow> 0 \<le> mtu \<longrightarrow>
      (\<forall>n. fst y = Inr n \<longrightarrow>
        n = min (int (length payload))
          (k + (int (unat (tc_send_window (tcp_conn_table s ! c))) - int (in_flight (tcp_conn_table s ! c)))) \<and>
        tcp_conn_table (snd y) = (tcp_conn_table s)[c := sent (n - k) (tcp_conn_table s ! c)])",
      OF _ assms])
  fix loop c and payload :: "byte list" and mtu i k sb and s :: "('a, 'b) tcp_net_scheme" and y
  let ?len = "int (length payload)"
  let ?avail = "\<lambda>s. int (unat (tc_send_window (tcp_conn_table s ! c))) - int (in_flight (tcp_conn_table s ! c))"
  assume IH: "\<And>c payload mtu i k sb s y. loop c payload mtu i k sb s = Some y \<Longrightarrow>
      window_ok (tcp_conn_table s ! c) \<longrightarrow> c < length (tcp_conn_table s) \<longrightarrow> 0 \<le> i \<longrightarrow> k = min i (int (length payload)) \<longrightarrow> 0 \<le> mtu \<longrightarrow>
      (\<forall>n. fst y = Inr n \<longrightarrow>
        n = min (int (length payload))
          (k + (int (unat (tc_send_window (tcp_conn_table s ! c))) - int (in_flight (tcp_conn_table s ! c)))) \<and>
        tcp_conn_table (snd y) = (tcp_conn_table s)[c := sent (n - k) (tcp_conn_table s ! c)])"
    and y: "(if \<not> i < int (length payload) then Some (Inr k, s)
      else do {
        conn \<leftarrow> conn_at s c;
        if tcp_send_window_avail conn = 0 then Some (Inr k, s)
        else do {
          let fragment = take (nat (min (int (length payload) - i) mtu)) (drop (nat i) payload);
          (res, s) \<leftarrow> tcp_send_segment c TCP_HDR_FLAG_ACK fragment sb s;
          case res of
            Inl e \<Rightarrow> Some (Inl e, s)
          | Inr n_fragment_sent \<Rightarrow>
              let n_sent = k + n_fragment_sent in
              if n_fragment_sent < int (length fragment) then Some (Inr n_sent, s)
              else loop c payload mtu (i + mtu) n_sent sb s
        }
      }) = Some y"
  show "window_ok (tcp_conn_table s ! c) \<longrightarrow> c < length (tcp_conn_table s) \<longrightarrow> 0 \<le> i \<longrightarrow> k = min i ?len \<longrightarrow> 0 \<le> mtu \<longrightarrow>
      (\<forall>n. fst y = Inr n \<longrightarrow> n = min ?len (k + ?avail s) \<and>
        tcp_conn_table (snd y) = (tcp_conn_table s)[c := sent (n - k) (tcp_conn_table s ! c)])"
  proof (intro impI allI)
    fix n
    let ?conn = "tcp_conn_table s ! c"
    assume a: "window_ok ?conn" "c < length (tcp_conn_table s)" "0 \<le> i" "k = min i ?len" "fst y = Inr n"
    assume mt: "0 \<le> mtu"
    have pos: "0 \<le> ?avail s" by (rule window_ok_room [OF a(1)])
    have stop: "n = min ?len (k + ?avail s) \<and> tcp_conn_table (snd y) = (tcp_conn_table s)[c := sent (n - k) ?conn]"
      if "y = (Inr k, s)" "k = ?len \<or> ?avail s = 0"
      using that a pos by auto
    show "n = min ?len (k + ?avail s) \<and> tcp_conn_table (snd y) = (tcp_conn_table s)[c := sent (n - k) ?conn]"
    proof (cases "i < ?len \<and> tcp_send_window_avail ?conn \<noteq> 0")
      case False
      have "?avail s = 0" if "tcp_send_window_avail ?conn = 0"
        using window_avail [OF a(1)] that a(1) by (simp add: window_ok_def)
      then show ?thesis using False y a stop by (auto simp: conn_at_def split: if_splits)
    next
      case True
      let ?fragment = "take (nat (min (?len - i) mtu)) (drop (nat i) payload)"
      have "conn_at s c = Some ?conn" using a(2) by (simp add: conn_at_def)
      then obtain res s1 where s1: "tcp_send_segment c TCP_HDR_FLAG_ACK ?fragment sb s = Some (res, s1)" "0 \<le> mtu"
        using y True mt by (auto simp: bind_eq_Some_conv Let_def)
      obtain m where m: "res = Inr m"
        using y True a(5) s1 \<open>conn_at s c = Some ?conn\<close> by (cases res) (auto simp: Let_def)
      have fl: "\<not> has_flag TCP_HDR_FLAG_ACK TCP_HDR_FLAG_SYN" "\<not> has_flag TCP_HDR_FLAG_ACK TCP_HDR_FLAG_FIN"
        by (simp_all add: has_flag_def TCP_HDR_FLAG_ACK_def TCP_HDR_FLAG_SYN_def TCP_HDR_FLAG_FIN_def)
      note t = tcp_send_segment_sent [OF s1(1) [unfolded m] a(1) fl]
      obtain L where L: "int (length ?fragment) = L" by blast
      have fl_len: "L = min (?len - i) mtu" using True a(3) s1(2) unfolding L [symmetric] by auto
      note t1 = t(1) [unfolded L]
      have k: "k = i" using a(4) True by simp
      have mb: "0 \<le> m" "m \<le> ?avail s" using t1 pos fl_len True s1(2) by linarith+
      note f = in_flight_sent [OF a(1) mb]
      have c1: "tcp_conn_table s1 ! c = sent m ?conn" using t(3) a(2) by simp
      have y1: "(if m < L then Some (Inr (k + m), s1)
          else loop c payload mtu (i + mtu) (k + m) sb s1) = Some y"
        using y True s1 m \<open>conn_at s c = Some ?conn\<close> unfolding L [symmetric] by (simp add: Let_def)
      show ?thesis
      proof (cases "m < L")
        case short: True
        then have "y = (Inr (k + m), s1)" using y1 by (simp only: if_True option.inject)
        then have n: "n = k + m" "snd y = s1" using a(5) by simp_all
        have m': "m = ?avail s" "m < ?len - i" using short t1 fl_len by linarith+
        show ?thesis
        proof
          show "n = min ?len (k + ?avail s)" using n m' k by linarith
          have "n - k = m" using n(1) by simp
          then show "tcp_conn_table (snd y) = (tcp_conn_table s)[c := sent (n - k) ?conn]" using n(2) t(3) by simp
        qed
      next
        case False
        then have m_len: "m = L" using t1 by linarith
        have "loop c payload mtu (i + mtu) (k + m) sb s1 = Some y" using y1 by (simp only: False if_False)
        moreover have "k + m = min (i + mtu) ?len" using m_len fl_len k by linarith
        ultimately have "n = min ?len (k + m + ?avail s1) \<and>
            tcp_conn_table (snd y) = (tcp_conn_table s1)[c := sent (n - (k + m)) (tcp_conn_table s1 ! c)]"
          using IH [of c payload mtu "i + mtu" "k + m" sb s1 y] a(2,3,5) s1(2) f(2) c1 t(3) by simp
        moreover have "?avail s1 = ?avail s - m" using f(1) mb(1) c1 by simp
        moreover have "sent (n - (k + m)) (sent m ?conn) = sent (n - k) ?conn" by (simp add: of_int_diff)
        ultimately show ?thesis using t(3) c1 by simp
      qed
    qed
  qed
qed

text \<open>
  C2: sending respects the window of the peer. When the number of bytes that are sent but not
  acknowledged is within the send window, \<open>tcp_conn_send\<close> sends as many bytes as the window
  allows, up to the whole payload, in segments of any \<open>mtu\<close>; it reports exactly this number,
  advances the next sequence number by it modulo \<open>2 ^ 32\<close>, changes nothing else in the
  connection, and the bytes in flight stay within the window.
\<close>

theorem tcp_conn_send_window:
  assumes "tcp_conn_send c payload sb s = Some (Inr n, closed, s')" and "conn = tcp_conn_table s ! c"
    and "window_ok conn"
  shows "n = min (int (length payload)) (int (unat (tc_send_window conn)) - int (in_flight conn)) \<and>
    tcp_conn_table s' = (tcp_conn_table s)[c := conn\<lparr>tc_send_next := tc_send_next conn + word_of_int n\<rparr>] \<and>
    in_flight (tcp_conn_table s' ! c) = in_flight conn + nat n \<and> window_ok (tcp_conn_table s' ! c)"
proof -
  have c: "c < length (tcp_conn_table s)" "conn_at s c = Some conn"
    using assms(1,2) by (auto simp: tcp_conn_send_def bind_eq_Some_conv conn_at_Some)
  obtain mtu where "tcp_send_loop c payload (tcp_mtu mtu) 0 0 sb s = Some (Inr n, s')"
    using assms(1) c(2) by (cases "ipv4_route_mtu (tc_peer_addr conn) s") (auto simp: tcp_conn_send_def bind_eq_Some_conv Let_def)
  moreover have "0 \<le> tcp_mtu mtu" by (simp add: tcp_mtu_def)
  ultimately have n: "n = min (int (length payload)) (int (unat (tc_send_window conn)) - int (in_flight conn))"
    "tcp_conn_table s' = (tcp_conn_table s)[c := sent n conn]" using tcp_send_loop_sent [of c payload "tcp_mtu mtu" 0 0 sb s] assms(2,3) c(1) by fastforce+
  have "0 \<le> n" "n \<le> int (unat (tc_send_window conn)) - int (in_flight conn)" using n(1) window_ok_room [OF assms(3)] by linarith+
  from in_flight_sent [OF assms(3) this] n c(1) show ?thesis by simp
qed

section \<open>Checksums\<close>

text \<open>
  C5: the segments that TCP sends pass the checksum test of a receiver that computes the same
  pseudo header, whatever the fields and the payload (of up to 65515 bytes).
\<close>

theorem tcp_sent_segment_verifies:
  assumes "length payload \<le> 65515"
    and "hdr = tcp_make_header host_port peer_port seq_num ack_num flags window_size"
    and "ph = tcp_pseudo_header src dest (20 + int (length payload))"
  shows "tcp_checksum_is_ok ph (tcp_header_bytes (hdr\<lparr>th_checksum := tcp_checksum hdr ph payload\<rparr>) @ payload)"
proof -
  define c where "c = tcp_checksum hdr ph payload"
  let ?pre = "take 16 (tcp_header_bytes hdr)"
  have split: "tcp_header_bytes (hdr\<lparr>th_checksum := x\<rparr>) = ?pre @ le_bytes16 x @ [0, 0]" for x
    using assms(2) by (simp add: tcp_header_bytes_def tcp_make_header_def le_bytes16_def)
  have len: "length ?pre = 16" by (simp add: tcp_header_bytes_def)
  have hdr: "hdr = hdr\<lparr>th_checksum := 0\<rparr>" using assms(2) by (simp add: tcp_make_header_def)
  have ws: "word_sum (tcp_header_bytes (hdr\<lparr>th_checksum := x\<rparr>)) = word_sum ?pre + unat x" for x
    unfolding split using len by (simp add: word_sum_append)
  have wsh: "word_sum (tcp_header_bytes hdr) = word_sum ?pre" using ws [of 0] hdr by simp
  have lens: "length (pseudo_header_bytes ph) = 12" "length (tcp_header_bytes x) = 20" for x
    by (simp_all add: pseudo_header_bytes_def tcp_header_bytes_def)
  let ?S = "word_sum ?pre + word_sum (pseudo_header_bytes ph) + word_sum payload"
  let ?c1 = "internet_checksum_iterate 0 (tcp_header_bytes hdr)"
  let ?c2 = "internet_checksum_iterate ?c1 (pseudo_header_bytes ph)"
  let ?c3 = "internet_checksum_iterate ?c2 payload"
  have 1: "folds (unat ?c1) (word_sum ?pre)"
    using checksum_iterate_folds [of "tcp_header_bytes hdr" 0] lens wsh by simp
  have 2: "folds (unat ?c2) (word_sum ?pre + word_sum (pseudo_header_bytes ph))"
    by (rule folds_add [OF 1]) (rule checksum_iterate_folds, simp add: lens)
  have 3: "folds (unat ?c3) ?S"
    by (rule folds_add [OF 2]) (rule checksum_iterate_folds, use assms(1) in simp)
  have c: "unat c = 65535 - unat ?c3" by (simp add: c_def tcp_checksum_def unat_finalize)
  let ?seg = "tcp_header_bytes (hdr\<lparr>th_checksum := c\<rparr>) @ payload"
  let ?v1 = "internet_checksum_iterate 0 (pseudo_header_bytes ph)"
  let ?v2 = "internet_checksum_iterate ?v1 ?seg"
  have v1: "folds (unat ?v1) (word_sum (pseudo_header_bytes ph))"
    using checksum_iterate_folds [of "pseudo_header_bytes ph" 0] lens by simp
  have seg: "word_sum ?seg = word_sum ?pre + unat c + word_sum payload"
    using lens(2) ws by (simp add: word_sum_append)
  have "folds (unat ?v2) (word_sum (pseudo_header_bytes ph) + word_sum ?seg)"
    by (rule folds_add [OF v1]) (rule checksum_iterate_folds, use assms(1) lens in simp)
  moreover have "word_sum (pseudo_header_bytes ph) + word_sum ?seg = ?S + (65535 - unat ?c3)" unfolding seg c by simp
  ultimately have "unat ?v2 = 65535" using folds_complement [OF 3] by simp
  then have "?v2 = 0xffff" by (simp add: word_unat_eq_iff)
  then show ?thesis by (simp add: tcp_checksum_is_ok_def internet_checksum_finalize_def c_def)
qed

section \<open>Sending does not halt\<close>

text \<open>
  What sending needs of the layers below: the ARP table has one entry for each address, the
  registered devices are Ethernet devices, and their drivers come back with a result.
\<close>

definition net_ok :: "('d, 'z) ip_net_scheme \<Rightarrow> bool" where
  "net_ok s \<longleftrightarrow> arp_ok (arp_table s) \<and>
     (\<forall>nd. Some nd \<in> set (net_table s) \<longrightarrow> nd_link_type nd = NETDEV_LINK_TYPE_ETHERNET \<and>
       (\<forall>sb drv. nd_send_frame nd sb drv \<noteq> None))"

text \<open>An empty send buffer with memory for a packet of \<open>n\<close> bytes and all headers, aligned to 8 bytes each.\<close>

definition sb_room :: "send_buf \<Rightarrow> sz \<Rightarrow> bool" where
  "sb_room sb n \<longleftrightarrow> wf_sb sb \<and> sb_n_used sb = 0 \<and> sb_orig_arn sb = sb_arn sb \<and>
     ar_beg (sb_arn sb) + n + 128 \<le> ar_end (sb_arn sb)"

lemma arena_room:
  assumes "0 \<le> n" "ar_beg arn + n + 7 \<le> ar_end arn"
  shows "\<exists>p arn'. arena_alloc arn n = Some (p, arn') \<and> ar_end arn' = ar_end arn \<and> ar_beg arn' \<le> ar_beg arn + n + 7"
proof -
  have "0 \<le> (- ar_beg arn) mod 8" "(- ar_beg arn) mod 8 < 8" by simp_all
  then show ?thesis using assms arena_alloc_aligned_Some [of arn n 3] by (auto simp: arena_alloc_def)
qed

lemma tcp_prepend_ok:
  assumes "wf_sb sb" "sb_n_used sb < 8" "bytes \<noteq> []" "ar_beg (sb_arn sb) + int (length bytes) + 7 \<le> ar_end (sb_arn sb)"
  shows "\<exists>sb'. tcp_prepend sb bytes = Some (ok, sb') \<and> wf_sb sb' \<and> sb_n_used sb' = Suc (sb_n_used sb) \<and>
    ar_end (sb_arn sb') = ar_end (sb_arn sb) \<and> ar_beg (sb_arn sb') \<le> ar_beg (sb_arn sb) + int (length bytes) + 7 \<and>
    sb_orig_arn sb' = sb_orig_arn sb \<and> sb_content sb' = bytes @ sb_content sb"
proof -
  let ?i = "sb_n_used sb" and ?n = "int (length bytes)"
  obtain p arn' where a: "arena_alloc (sb_arn sb) ?n = Some (p, arn')" "ar_end arn' = ar_end (sb_arn sb)"
    "ar_beg arn' \<le> ar_beg (sb_arn sb) + ?n + 7" using arena_room [of ?n "sb_arn sb"] assms(4) by auto
  obtain sb1 where sb1: "send_buf_prepend sb ?n = Some (Some ?i, sb1)" "wf_sb sb1" "sb_n_used sb1 = Suc ?i"
    "take ?i (sb_parts sb1) = take ?i (sb_parts sb)" "sb_parts sb1 ! ?i = byte_buf_from_array (replicate (length bytes) 0)"
    "sb_arn sb1 = arn'" "sb_orig_arn sb1 = sb_orig_arn sb"
    using send_buf_prepend_ok [of sb ?n p arn'] assms a(1) by (auto simp: SEND_BUF_NUM_PARTS_def)
  obtain sb2 where sb2: "part_append sb1 ?i bytes = Some (?n, sb2)" "wf_sb sb2" "sb_n_used sb2 = Suc ?i"
    "take ?i (sb_parts sb2) = take ?i (sb_parts sb)" "sb_arn sb2 = arn'" "sb_orig_arn sb2 = sb_orig_arn sb"
    "byte_view_from_buf (sb_parts sb2 ! ?i) = bytes"
    using part_append_ok [OF sb1(2,3), of bytes] sb1(4-7) by (auto simp: room_at_def)
  have "sb_content sb2 = bytes @ sb_content sb"
    using sb_content_newest [OF sb2(2,3)] sb2(4,7) by (simp add: sb_content_def)
  then show ?thesis using sb1(1) sb2 a by (auto simp: tcp_prepend_def)
qed

lemma last_match_ip_in: "last_match_ip a t l = Some d \<Longrightarrow> l = Some d \<or> Some d \<in> set t"
  by (induction t arbitrary: l) (auto split: option.splits if_splits)

lemma device_ok:
  assumes "net_ok s" "netdev_lookup_ip_addr a s = Some nd"
  shows "nd_link_type nd = NETDEV_LINK_TYPE_ETHERNET" "\<exists>y. nd_send_frame nd sb drv = Some y"
  using assms last_match_ip_in [of a "net_table s" None nd] by (auto simp: net_ok_def netdev_lookup_ip_addr_def)

lemma ipv4_send_packet_returns:
  assumes "net_ok s" "wf_sb sb" "sb_n_used sb < 7" "length (sb_content sb) \<le> 65515"
    "ar_beg (sb_arn sb) + 48 \<le> ar_end (sb_arn sb)" "ar_beg (sb_orig_arn sb) + 56 \<le> ar_end (sb_orig_arn sb)"
  shows "\<exists>y. ipv4_send_packet d proto sb s = Some y"
proof (cases "ipv4_route_get_entry d s")
  case None
  then show ?thesis by (simp add: ipv4_send_packet_def)
next
  case (Some route)
  note route = Some
  show ?thesis
  proof (cases "netdev_lookup_ip_addr (re_interface route) s")
    case None
    then show ?thesis using route by (simp add: ipv4_send_packet_def)
  next
    case (Some nd)
    note dev = device_ok [OF assms(1) Some]
    let ?hop = "if ipv4_addr_is_equal (re_gateway route) (re_interface route) then d else re_gateway route"
    have look: "arp_lookup_mac_addr ?hop (arp_table s) = Some (arp_map (arp_table s) ?hop)"
      using assms(1) by (simp add: net_ok_def arp_lookup_map)
    show ?thesis
    proof (cases "arp_map (arp_table s) ?hop")
      case None
      let ?sb = "send_buf_clear sb"
      have sb: "wf_sb ?sb" "sb_n_used ?sb < 7" "sb_content ?sb = []" "sb_arn ?sb = sb_orig_arn sb"
        using assms(2) by (simp_all add: send_buf_clear_def sb_content_def wf_sb_def)
      obtain p1 a1 where a1: "arena_alloc (sb_orig_arn sb) 28 = Some (p1, a1)" "ar_end a1 = ar_end (sb_orig_arn sb)"
        "ar_beg a1 \<le> ar_beg (sb_orig_arn sb) + 28 + 7" using arena_room [of 28 "sb_orig_arn sb"] assms(6) by auto
      obtain p2 a2 where a2: "arena_alloc a1 14 = Some (p2, a2)" using arena_room [of 14 a1] a1 assms(6) by auto
      have a1': "arena_alloc (sb_arn ?sb) 28 = Some (p1, a1)" using a1(1) sb(4) by simp
      obtain y where "arp_send_request ?hop nd ?sb s = Some y"
        using arp_send_common_frame [OF sb(1-3) a1' a2 dev(1), of MAC_ADDR_BROADCAST ARP_OPCODE_REQUEST ?hop s] dev(2)
        by (fastforce simp: arp_send_request_def)
      then show ?thesis using route Some look None by (cases y) (simp add: ipv4_send_packet_def Let_def)
    next
      case (Some mac)
      obtain p1 a1 where a1: "arena_alloc (sb_arn sb) 20 = Some (p1, a1)" "ar_end a1 = ar_end (sb_arn sb)"
        "ar_beg a1 \<le> ar_beg (sb_arn sb) + 20 + 7" using arena_room [of 20 "sb_arn sb"] assms(5) by auto
      obtain p2 a2 where a2: "arena_alloc a1 14 = Some (p2, a2)" using arena_room [of 14 a1] a1 assms(5) by auto
      obtain sb1 where sb1: "ipv4_prepend_header (nd_ip_addr nd) d proto sb = Some (ok, sb1)" "wf_sb sb1"
        "sb_n_used sb1 < 8" "sb_arn sb1 = a1"
        using ipv4_prepend_header_ok [OF assms(2) _ assms(4) a1(1), of "nd_ip_addr nd" d proto] assms(3) by fastforce
      have t: "ethernet_type_from_netdev_proto NETDEV_PROTO_IPV4 = Some 0x0800"
        by (simp add: ethernet_type_from_netdev_proto_def ETHERNET_PTYPE_IPV4_def)
      have a2': "arena_alloc (sb_arn sb1) 14 = Some (p2, a2)" using a2 sb1(4) by simp
      obtain y where "netdev_send mac nd NETDEV_PROTO_IPV4 sb1 s = Some y"
        using netdev_send_frame [OF sb1(2,3) a2' dev(1) t, of mac s] dev(2) by fastforce
      then show ?thesis using route \<open>netdev_lookup_ip_addr _ s = Some nd\<close> look Some sb1(1)
        by (simp add: ipv4_send_packet_def Let_def)
    qed
  qed
qed

lemma tcp_send_segment_raw_returns:
  assumes "net_ok s" "sb_room sb (int (length payload))" "length payload \<le> 65495"
  shows "\<exists>y. tcp_send_segment_raw h p hp pp seq ack w fl payload sb s = Some y"
proof (cases "ipv4_route_interface_addr p s")
  case (Inl e)
  then show ?thesis by (simp add: tcp_send_segment_raw_def)
next
  case (Inr a)
  let ?fl = "if \<not> ipv4_addr_is_equal a h then fl OR TCP_HDR_FLAG_RST else fl"
  let ?hdr = "tcp_make_header hp pp seq ack ?fl w"
  let ?ph = "tcp_pseudo_header a p (TCP_HEADER_SIZE + int (length payload))"
  let ?h = "tcp_header_bytes (?hdr\<lparr>th_checksum := tcp_checksum ?hdr ?ph payload\<rparr>)"
  have room: "wf_sb sb" "sb_n_used sb = 0" "sb_orig_arn sb = sb_arn sb" "sb_content sb = []"
    "ar_beg (sb_arn sb) + int (length payload) + 128 \<le> ar_end (sb_arn sb)"
    using assms(2) by (auto simp: sb_room_def sb_content_def)
  obtain sb1 where sb1: "(if length payload > 0 then tcp_prepend sb payload else Some (ok, sb)) = Some (ok, sb1)"
    "wf_sb sb1" "sb_n_used sb1 < 2" "sb_orig_arn sb1 = sb_arn sb" "sb_content sb1 = payload"
    "ar_end (sb_arn sb1) = ar_end (sb_arn sb)" "ar_beg (sb_arn sb1) \<le> ar_beg (sb_arn sb) + int (length payload) + 7"
    using tcp_prepend_ok [OF room(1), of payload] room by (cases "payload = []") auto
  have l: "length ?h = 20" by (simp add: tcp_header_bytes_def)
  then have "?h \<noteq> []" by fastforce
  from tcp_prepend_ok [OF sb1(2) _ this] l sb1(3,6,7) room(5) obtain sb2 where sb2: "tcp_prepend sb1 ?h = Some (ok, sb2)"
    "wf_sb sb2" "sb_n_used sb2 < 7" "sb_orig_arn sb2 = sb_arn sb" "sb_content sb2 = ?h @ payload"
    "ar_end (sb_arn sb2) = ar_end (sb_arn sb)" "ar_beg (sb_arn sb2) \<le> ar_beg (sb_arn sb1) + 27"
    using sb1(4,5) by auto
  have "length (sb_content sb2) \<le> 65515" using sb2(5) l assms(3) by simp
  from ipv4_send_packet_returns [OF assms(1) sb2(2,3) this, of p IPV4_PROTOCOL_TCP] obtain y where
    "ipv4_send_packet p IPV4_PROTOCOL_TCP sb2 s = Some y" using sb2(4,6,7) sb1(7) room(5) by auto
  then show ?thesis using Inr sb1(1) sb2(1) unfolding tcp_send_segment_raw_def Let_def by simp
qed

lemma sb_room_mono: "sb_room sb n \<Longrightarrow> m \<le> n \<Longrightarrow> sb_room sb m"
  by (auto simp: sb_room_def)

lemma net_ok_drv: "drv_only s s' \<Longrightarrow> net_ok s' = net_ok (s :: ('d, 'z) ip_net_scheme)"
proof -
  assume "drv_only s s'"
  then obtain d where "s' = s\<lparr>net_drv := d\<rparr>" unfolding drv_only_def by blast
  then show ?thesis by (simp add: net_ok_def)
qed

lemma tcp_send_segment_returns:
  assumes "net_ok s" "sb_room sb (int (length payload))" "length payload \<le> 65495" "c < length (tcp_conn_table s)"
  shows "\<exists>r s'. tcp_send_segment c fl payload sb s = Some (r, s') \<and> net_ok s' \<and> c < length (tcp_conn_table s')"
proof -
  let ?conn = "tcp_conn_table s ! c"
  let ?n = "min (uint (tcp_send_window_avail ?conn)) (int (length payload))"
  have conn: "conn_at s c = Some ?conn" using assms(4) by (simp add: conn_at_def)
  have "sb_room sb (int (length (take (nat ?n) payload)))" by (rule sb_room_mono [OF assms(2)]) simp
  from tcp_send_segment_raw_returns [OF assms(1) this] assms(3) obtain r1 s1 where
    s1: "tcp_send_segment_raw (tc_host_addr ?conn) (tc_peer_addr ?conn) (tc_host_port ?conn) (tc_peer_port ?conn)
      (tc_send_next ?conn) (tc_recv_next ?conn) (tc_recv_window ?conn) fl (take (nat ?n) payload) sb s = Some (r1, s1)"
    by fastforce
  note d = tcp_send_segment_raw_drv [OF s1]
  have n: "net_ok s1" "c < length (tcp_conn_table s1)"
    using net_ok_drv [OF d] drv_only_tcp(4) [OF d] assms(1,4) by simp_all
  show ?thesis
  proof (cases r1)
    case (Inl e)
    then show ?thesis using conn s1 n by (simp add: tcp_send_segment_def Let_def)
  next
    case (Inr u)
    then show ?thesis using conn s1 n by (simp add: tcp_send_segment_def Let_def conn_update_eq net_ok_def)
  qed
qed

lemma tcp_send_loop_returns:
  assumes "net_ok s" "c < length (tcp_conn_table s)" "0 < mtu" "mtu \<le> 65495" "sb_room sb mtu" "0 \<le> i"
  shows "\<exists>y. tcp_send_loop c payload mtu i k sb s = Some y"
  using assms
proof (induction "nat (int (length payload) - i)" arbitrary: i k s rule: less_induct)
  case less
  show ?case
  proof (cases "i < int (length payload) \<and> tcp_send_window_avail (tcp_conn_table s ! c) \<noteq> 0")
    case False
    then show ?thesis using less.prems(2) by (subst tcp_send_loop.simps) (auto simp: conn_at_def)
  next
    case True
    let ?f = "take (nat (min (int (length payload) - i) mtu)) (drop (nat i) payload)"
    have f: "int (length ?f) \<le> mtu" using True less.prems(3,6) by auto
    have "length ?f \<le> 65495" using f less.prems(4) by linarith
    from tcp_send_segment_returns [OF less.prems(1) sb_room_mono [OF less.prems(5) f] this less.prems(2), of TCP_HDR_FLAG_ACK]
    obtain r s1 where s1: "tcp_send_segment c TCP_HDR_FLAG_ACK ?f sb s = Some (r, s1)" "net_ok s1" "c < length (tcp_conn_table s1)"
      by blast
    have "nat (int (length payload) - (i + mtu)) < nat (int (length payload) - i)" using True less.prems(3) by simp
    from less.hyps [OF this s1(2,3) less.prems(3-5)] less.prems(3,6)
    have "\<exists>y. tcp_send_loop c payload mtu (i + mtu) k' sb s1 = Some y" for k' by simp
    then show ?thesis using True less.prems(2,3) s1(1)
      by (subst tcp_send_loop.simps) (cases r; auto simp: conn_at_def Let_def)
  qed
qed

text \<open>
  C6: \<open>tcp_conn_send\<close> always comes back when there is a route whose device has an MTU with room for
  the headers: with a send buffer that holds one full segment, no assertion of the layers below
  fails, the memory of the arena suffices however long the payload is (each segment starts from
  the same send buffer), and the loop ends.
\<close>

theorem tcp_conn_send_returns:
  assumes "net_ok s" and "conn_at s c = Some conn" and "ipv4_route_mtu (tc_peer_addr conn) s = Inr mtu"
    and "20 < mtu" and "mtu \<le> 65515" and "sb_room sb (mtu - 20)"
  shows "\<exists>r s'. tcp_conn_send c payload sb s = Some (r, tcp_conn_closed_by_peer (tc_state conn), s')"
proof -
  have m: "tcp_mtu mtu = mtu - 20" using assms(4) by (simp add: tcp_mtu_def TCP_HEADER_SIZE_def)
  have c: "c < length (tcp_conn_table s)" using assms(2) by (simp add: conn_at_Some)
  obtain r s' where "tcp_send_loop c payload (mtu - 20) 0 0 sb s = Some (r, s')"
    using tcp_send_loop_returns [OF assms(1) c _ _ assms(6), of 0 payload 0] assms(4,5) by fastforce
  then show ?thesis using assms(2,3) m by (simp add: tcp_conn_send_def)
qed

section \<open>Runs that halt\<close>

text \<open>
  Two kinds of segments from the network halt the machine, although the comments and messages
  of the code say that such segments are dropped: a segment of at least 20 bytes whose checksum is
  wrong, and a segment whose header length field points behind its end.
\<close>

theorem tcp_malformed_segment_halts:
  assumes "20 \<le> length segment"
    and "\<not> tcp_checksum_is_ok ph segment \<or>
      5 \<le> th_header_len (tcp_header_of segment) \<and> int (length segment) < uint (th_header_len (tcp_header_of segment)) * 4"
  shows "tcp_handle_packet ph segment sb s = None"
  using assms
  by (auto simp: tcp_handle_packet_def TCP_HEADER_SIZE_def TCP_HEADER_LEN_NO_OPT_def crash_def byte_view_skip_def Let_def
      bind_eq_None_conv)

lemma purge_loop_rdrand:
  "purge_loop is s = Some s' \<Longrightarrow> tcp_rdrand s' = tcp_rdrand s \<and> tcp_rdrand_reads s' = tcp_rdrand_reads s"
proof (induction "is" arbitrary: s)
  case (Cons i "is")
  have f: "tcp_rdrand s2 = tcp_rdrand s1 \<and> tcp_rdrand_reads s2 = tcp_rdrand_reads s1"
    if "tcp_free_conn i s1 = Some s2" for s1 s2 :: "('a, 'b) tcp_net_scheme"
    using that by (auto simp: tcp_free_conn_def bind_eq_Some_conv conn_update_Some)
  have t: "tcp_rdrand s2 = tcp_rdrand s1 \<and> tcp_rdrand_reads s2 = tcp_rdrand_reads s1"
    if "tcp_time_ms s1 = Some (x, s2)" for x and s1 s2 :: "('a, 'b) tcp_net_scheme"
    using that by (auto simp: tcp_time_ms_def bind_eq_Some_conv)
  show ?case using Cons.prems Cons.IH
    by (fastforce simp: bind_eq_Some_conv conn_at_Some dest: f t split: if_splits)
qed simp

text \<open>
  When the processor has no random number, opening a connection halts the machine instead of
  returning NULL: the new connection is freed before its list node has been initialised.
\<close>

theorem tcp_no_random_number_halts:
  assumes "tcp_reachable s" and "i < TCP_CONN_MAX_NUM" and "i \<notin> used s"
    and "tcp_rdrand s (tcp_rdrand_reads s) = None" and "state = LISTEN \<or> state = SYN_RCVD"
  shows "tcp_conn_alloc_and_init host_addr host_port state s = None"
proof (cases "tcp_purge_old_conn s")
  case None
  then show ?thesis by (simp add: tcp_conn_alloc_and_init_def tcp_alloc_conn_def)
next
  case (Some s1)
  note p = tcp_purge_old_conn_inv [OF Some tcp_reachable_inv [OF assms(1), unfolded tcp_inv_def]]
  have len: "length (tcp_conn_table s1) = TCP_CONN_MAX_NUM" using p(1) by (simp add: tcp_inv_except_def)
  have "phase s1 i = None" using p(2) [of i] assms(3) by (auto simp: purged_def phase_def)
  then have i: "\<not> tc_is_used (tcp_conn_table s1 ! i)" using assms(2) by (auto simp: phase_def used_def split: if_splits)
  obtain c where c: "first_conn (\<lambda>conn. \<not> tc_is_used conn) [0..<TCP_CONN_MAX_NUM] s1 = Some c"
    using first_conn_total [of "[0..<TCP_CONN_MAX_NUM]" s1] len by auto
  then obtain j where j: "c = Some j" using first_conn_None [of _ "[0..<TCP_CONN_MAX_NUM]" s1 i] i assms(2) by (cases c) auto
  then obtain as bs where "[0..<TCP_CONN_MAX_NUM] = as @ j # bs" "\<not> tc_is_used (tcp_conn_table s1 ! j)"
    using first_conn_Some c by blast
  then have "j \<in> set [0..<TCP_CONN_MAX_NUM]" "\<not> tc_is_used (tcp_conn_table s1 ! j)" by (metis in_set_conv_decomp)+
  then have j': "j < TCP_CONN_MAX_NUM" "j \<notin> used s1" by (auto simp: used_def)
  then have u: "unused_links (tcp_links s1 j)" "dom (tcp_links s1) = {..<TCP_CONN_MAX_NUM}"
    using p(1) by (auto simp: tcp_inv_except_def)
  have "tcp_rdrand s1 (tcp_rdrand_reads s1) = None"
    using purge_loop_rdrand [OF Some [unfolded tcp_purge_old_conn_def]] assms(4) by simp
  moreover have "tcp_alloc_conn s = Some (Some j, s1\<lparr>tcp_conn_table :=
      (tcp_conn_table s1)[j := (tcp_conn_table s1 ! j)\<lparr>tc_is_used := True\<rparr>]\<rparr>)"
    using Some c j j'(1) len by (simp add: tcp_alloc_conn_def conn_update_eq)
  ultimately show ?thesis using unused_remove [OF u]
    by (auto simp: tcp_conn_alloc_and_init_def tcp_generate_isn_def tcp_free_conn_def conn_at_def Let_def
      bind_eq_None_conv bind_eq_Some_conv split: option.splits)
qed

section \<open>Concrete runs\<close>

text \<open>A reset for the port on which a connection listens, from 10.0.0.9.\<close>

definition sample_reset :: "byte list" where
  "sample_reset = [15, 160, 0, 80, 0, 0, 0, 1, 0, 0, 0, 0, 80, 4, 2, 0, 137, 229, 0, 0]"

definition sample_pseudo :: tcp_ip_pseudo_header where
  "sample_pseudo = tcp_pseudo_header (Ipv4 10 0 0 9) (Ipv4 10 0 0 2) 20"

lemma sample_checksum: "tcp_checksum_is_ok sample_pseudo sample_reset"
  by code_simp

lemma sample_fields:
  "th_header_len (tcp_header_of sample_reset) = 5" "u16_from_net_u16 (th_dest_port (tcp_header_of sample_reset)) = 80"
  "has_flag (th_flags (tcp_header_of sample_reset)) TCP_HDR_FLAG_RST" "length sample_reset = 20"
  by code_simp+

lemma sample_table:
  "length (tcp_conn_table sample_listening) = TCP_CONN_MAX_NUM" "tcp_conn_table sample_listening ! 0 = sample_conn"
  "0 < i \<Longrightarrow> i < TCP_CONN_MAX_NUM \<Longrightarrow> tcp_conn_table sample_listening ! i = zero_conn"
  by (simp_all add: sample_listening_def nth_list_update TCP_CONN_MAX_NUM_def)

lemma sample_conn_simps [simp]:
  "tc_state sample_conn = LISTEN" "tc_is_used sample_conn" "tc_host_addr sample_conn = Ipv4 10 0 0 2"
  "tc_peer_addr sample_conn = Ipv4 0 0 0 0" "tc_host_port sample_conn = 80" "tc_peer_port sample_conn = 0"
  by (simp_all add: sample_conn_def init_conn_def ipv4_addr_new_def)

lemma sample_purge: "tcp_purge_old_conn sample_listening = Some sample_listening"
proof -
  have "\<not> (tc_is_used (tcp_conn_table sample_listening ! i) \<and> tc_state (tcp_conn_table sample_listening ! i) = TIME_WAIT)"
    if "i < TCP_CONN_MAX_NUM" for i using sample_table that by (cases "i = 0") auto
  then show ?thesis unfolding tcp_purge_old_conn_def by (intro purge_loop_idle) (auto simp: sample_table(1))
qed

lemma sample_reset_ignored:
  "tcp_handle_packet sample_pseudo sample_reset sb sample_listening = Some (ok, sample_listening)"
proof -
  let ?m = "\<lambda>w. conn_matches (Ipv4 10 0 0 2) (Ipv4 10 0 0 9) 80 (u16_from_net_u16 (th_src_port (tcp_header_of sample_reset))) w"
  have "\<not> ?m False (tcp_conn_table sample_listening ! i)" if "i < TCP_CONN_MAX_NUM" for i
    using sample_table that by (cases "i = 0") (auto simp: conn_matches_def)
  then have 1: "first_conn (?m False) [0..<TCP_CONN_MAX_NUM] sample_listening = Some None"
    by (intro first_conn_miss) (auto simp: sample_table(1))
  have 2: "first_conn (?m True) [0..<TCP_CONN_MAX_NUM] sample_listening = Some (Some 0)"
    by (rule first_conn_zero) (simp_all add: sample_table TCP_CONN_MAX_NUM_def conn_matches_def
        ipv4_addr_wildcard_compare_def ipv4_addr_new_def port_wildcard_compare_def)
  have 3: "conn_at sample_listening 0 = Some sample_conn"
    using sample_table by (simp add: conn_at_def peek_def TCP_CONN_MAX_NUM_def)
  have a: "ph_dest_addr sample_pseudo = Ipv4 10 0 0 2" "ph_src_addr sample_pseudo = Ipv4 10 0 0 9"
    by (simp_all add: sample_pseudo_def tcp_pseudo_header_def)
  show ?thesis
    using sample_checksum sample_fields sample_purge 1 2 3 a
    by (simp add: tcp_handle_packet_def TCP_HEADER_SIZE_def TCP_HEADER_LEN_NO_OPT_def tcp_lookup_conn_def byte_view_skip_def
        tcp_dispatch_def tcp_handle_receive_listen_def)
qed

theorem tcp_open_connections_kept_witness:
  "\<exists>st'. phase sample_listening 0 = Some st' \<and> user_open st' \<and>
    (st' = LISTEN \<or> LISTEN = ESTABLISHED \<and>
      (st' = CLOSE_WAIT \<and> has_flag (th_flags (tcp_header_of sample_reset)) TCP_HDR_FLAG_FIN \<or>
       st' = RESET \<and> has_flag (th_flags (tcp_header_of sample_reset)) TCP_HDR_FLAG_RST))"
  by (rule tcp_open_connections_kept [OF sample_reachable(2) _ _ sample_reset_ignored])
    (simp_all add: phase_Some sample_used sample_table user_open_def)

text \<open>An established connection with an empty receive buffer.\<close>

definition sample_est_conn :: tcp_conn where
  "sample_est_conn = sample_conn\<lparr>tc_state := ESTABLISHED, tc_peer_addr := Ipv4 8 8 8 8, tc_peer_port := 4000,
     tc_send_window := 1000, tc_recv_next := 100,
     tc_recv_buf := \<lparr>cb_addr = 0x100000, cb_len = 0x2000, cb_dat = replicate 0x2000 0, cb_head = 0, cb_tail = 0\<rparr>\<rparr>"

definition sample_established :: "byte list tcp_net" where
  "sample_established = sample_listening\<lparr>tcp_conn_table := (replicate TCP_CONN_MAX_NUM zero_conn)[0 := sample_est_conn]\<rparr>"

lemma sample_est_table:
  "length (tcp_conn_table sample_established) = TCP_CONN_MAX_NUM" "tcp_conn_table sample_established ! 0 = sample_est_conn"
  by (simp_all add: sample_established_def TCP_CONN_MAX_NUM_def)

lemma sample_est_used: "used sample_established = {0}"
  by (auto simp: used_def sample_established_def sample_est_conn_def nth_list_update TCP_CONN_MAX_NUM_def)

lemma sample_est_buf: "wf_recv_buf (tc_recv_buf sample_est_conn)" "circ_used (tc_recv_buf sample_est_conn) = 0"
  by (simp_all add: sample_est_conn_def wf_recv_buf_def wf_circ_def circ_used_def)

lemma sample_est_inv: "tcp_inv sample_established"
proof -
  have l: "tcp_links sample_established = zero_links(0 \<mapsto> \<lparr>dl_prev = Some 0, dl_next = Some 0\<rparr>)"
    by (simp add: sample_established_def sample_listening_def)
  have "conn_ok sample_est_conn" using sample_est_buf by (simp add: conn_ok_def) (simp add: sample_est_conn_def)
  moreover have "links_ok (tcp_links sample_established) {0}" by (simp add: links_ok_def nxt_def prv_def l)
  moreover have "dom (tcp_links sample_established) = {..<TCP_CONN_MAX_NUM}"
    by (auto simp: l zero_links_def TCP_CONN_MAX_NUM_def split: if_splits)
  ultimately show ?thesis unfolding tcp_inv_def tcp_inv_except_def sample_est_used
    using sample_est_table by (auto simp: l zero_links_def unused_links_def)
qed

definition sample_data_header :: tcp_header where
  "sample_data_header = tcp_make_header 4000 80 100 7 TCP_HDR_FLAG_ACK 2000"

theorem tcp_established_receives_witness:
  "\<exists>conn' s1. s1 = sample_established\<lparr>tcp_conn_table := (tcp_conn_table sample_established)[0 := conn']\<rparr> \<and>
    tcp_handle_receive_established 0 sample_data_header [1, 2, 3] (send_buf_new (arena_new 4096 4096)) sample_established =
      (if True then tcp_send_segment_empty 0 TCP_HDR_FLAG_ACK (send_buf_new (arena_new 4096 4096)) s1 else Some (ok, s1)) \<and>
    circ_items (tc_recv_buf conn') = circ_items (tc_recv_buf sample_est_conn) @ (if True then [1, 2, 3] else []) \<and>
    tc_recv_next conn' = tc_recv_next sample_est_conn + (if True then word_of_int (int (length [1, 2, 3 :: byte])) else 0) \<and>
    conn' = (tcp_conn_update_send_state sample_data_header sample_est_conn)
      \<lparr>tc_recv_buf := tc_recv_buf conn', tc_recv_next := tc_recv_next conn'\<rparr>"
proof (rule tcp_established_receives)
  show "True = (u32_from_net_u32 (th_seq_num sample_data_header) = tc_recv_next sample_est_conn \<and>
      circ_used (tc_recv_buf sample_est_conn) + length [1, 2, 3 :: byte] \<le> 0x1fff)"
    using sample_est_buf by (simp add: sample_data_header_def tcp_make_header_def) (simp add: sample_est_conn_def)
  show "sample_est_conn = tcp_conn_table sample_established ! 0" using sample_est_table by simp
  show "tc_state sample_est_conn = ESTABLISHED" by (simp add: sample_est_conn_def)
  show "\<not> has_flag (th_flags sample_data_header) TCP_HDR_FLAG_RST" "\<not> has_flag (th_flags sample_data_header) TCP_HDR_FLAG_FIN"
    by (simp_all add: sample_data_header_def tcp_make_header_def has_flag_def TCP_HDR_FLAG_ACK_def TCP_HDR_FLAG_RST_def TCP_HDR_FLAG_FIN_def)
qed (simp_all add: sample_est_inv sample_est_used)

theorem tcp_sent_segment_verifies_witness:
  "let hdr = tcp_make_header 80 4000 7 100 TCP_HDR_FLAG_ACK 0x2000;
       ph = tcp_pseudo_header (Ipv4 10 0 0 2) (Ipv4 8 8 8 8) (20 + int (length [1, 2, 3 :: byte])) in
   tcp_checksum_is_ok ph (tcp_header_bytes (hdr\<lparr>th_checksum := tcp_checksum hdr ph [1, 2, 3]\<rparr>) @ [1, 2, 3])"
  unfolding Let_def by (rule tcp_sent_segment_verifies [OF _ refl refl]) simp

lemma sample_net_ok: "net_ok sample_established"
  by (auto simp: net_ok_def sample_established_def sample_listening_def sample_tcp_def ip_net.extend_def sample_routes_def
      arp_net.extend_def net.extend_def sample_net_def sample_dev_def arp_ok_def sample_arp_table_def)

lemma sample_mtu: "ipv4_route_mtu (Ipv4 8 8 8 8) sample_established = Inr 1494"
  using sample_route_lookup
  by (simp add: ipv4_route_mtu_def ipv4_route_get_entry_def sample_established_def sample_listening_def sample_tcp_def
      ip_net.extend_def) (simp add: sample_routes_def arp_net.extend_def net.extend_def netdev_lookup_ip_addr_def sample_dev_def IPV4_HEADER_SIZE_def)

lemma sample_sb_room: "sb_room (send_buf_new (arena_new 4096 4096)) 1474"
  by (simp add: sb_room_def) (simp add: send_buf_new_def arena_new_def)

theorem tcp_conn_send_returns_witness:
  "\<exists>r s'. tcp_conn_send 0 [1, 2, 3] (send_buf_new (arena_new 4096 4096)) sample_established =
    Some (r, tcp_conn_closed_by_peer (tc_state sample_est_conn), s')"
  by (rule tcp_conn_send_returns [OF sample_net_ok, where mtu = 1494])
    (use sample_est_table sample_mtu sample_sb_room in \<open>simp_all add: conn_at_def peek_def TCP_CONN_MAX_NUM_def sample_est_conn_def\<close>)

theorem tcp_malformed_segment_halts_witness:
  "tcp_handle_packet sample_pseudo (replicate 20 0) (send_buf_new (arena_new 4096 4096)) sample_listening = None"
  by (rule tcp_malformed_segment_halts) (simp, rule disjI1, code_simp)

theorem tcp_no_random_number_halts_witness:
  "tcp_conn_alloc_and_init (Ipv4 10 0 0 2) 80 LISTEN (sample_tcp\<lparr>tcp_rdrand := \<lambda>_. None\<rparr>) = None"
  by (rule tcp_no_random_number_halts [where i = 0])
    (auto intro: tcp_reachable.boot simp: used_def TCP_CONN_MAX_NUM_def)

text \<open>A table with a single connection suffices to send three bytes.\<close>

definition sample_sending :: "byte list tcp_net" where
  "sample_sending = ip_net.extend (sample_routes\<lparr>net_queue := []\<rparr>)
     \<lparr>tcp_conn_table = [init_conn (Ipv4 10 0 0 2) 80 ESTABLISHED 7
        (zero_conn)\<lparr>tc_peer_addr := Ipv4 8 8 8 8, tc_peer_port := 4000, tc_send_window := 1000\<rparr>],
      tcp_links = \<lambda>_. None, tcp_kv = \<lparr>kv_virt_alloc = None, kv_initialized = True\<rparr>,
      tcp_clock = \<lparr>hw_tsc = \<lambda>n. 0, hw_tsc_reads = 0, hw_pit = \<lambda>_. 0, hw_pit_reads = 0, hw_pit_writes = [],
        ck_tsc_base = 0, ck_tsc_freq_hz = 1000000000, ck_initialized = True\<rparr>,
      tcp_rdrand = \<lambda>n. None, tcp_rdrand_reads = 0\<rparr>"

definition sample_sent :: "(sz res \<times> bool \<times> byte list tcp_net) option" where
  "sample_sent = tcp_conn_send 0 [1, 2, 3] (send_buf_new (arena_new 4096 4096)) sample_sending"

lemma sample_sent_three: "case sample_sent of None \<Rightarrow> False | Some (r, _, s) \<Rightarrow> r = Inr 3"
  by code_simp

theorem tcp_conn_send_window_witness:
  "\<exists>s' :: byte list tcp_net. (3 :: int) = min (int (length [1, 2, 3 :: byte]))
      (int (unat (tc_send_window (tcp_conn_table sample_sending ! 0))) - int (in_flight (tcp_conn_table sample_sending ! 0))) \<and>
    tcp_conn_table s' = (tcp_conn_table sample_sending)[0 := (tcp_conn_table sample_sending ! 0)
      \<lparr>tc_send_next := tc_send_next (tcp_conn_table sample_sending ! 0) + word_of_int 3\<rparr>] \<and>
    in_flight (tcp_conn_table s' ! 0) = in_flight (tcp_conn_table sample_sending ! 0) + nat 3 \<and>
    window_ok (tcp_conn_table s' ! 0)"
proof -
  obtain closed s' where s': "tcp_conn_send 0 [1, 2, 3] (send_buf_new (arena_new 4096 4096)) sample_sending = Some (Inr 3, closed, s')"
    using sample_sent_three by (auto simp: sample_sent_def split: option.splits)
  have "window_ok (tcp_conn_table sample_sending ! 0)"
    by (simp add: window_ok_def in_flight_def sample_sending_def ip_net.extend_def init_conn_def)
  from tcp_conn_send_window [OF s' refl this] show ?thesis by (rule exI [of _ s'])
qed

end
