(* ===== verification/RamPath.thy ===== *)
theory RamPath
  imports Arena
begin

text \<open>
  Path names of the RAM file system (the first part of src/ramfs.c): the parser and the function
  that writes a parsed path back. A path is specified by splitting its text at the slashes and
  dropping the empty parts; the parser is shown to compute that within the array it allocates.
\<close>

section \<open>Code\<close>

definition PATH_NAME_MAX_LEN :: sz where "PATH_NAME_MAX_LEN = 0x1000"

definition slash :: byte where "slash = of_char (CHR ''/'')"

text \<open>
  The array behind \<open>components\<close> has more elements than \<open>n_components\<close>. The slices into \<open>src\<close> are
  the bytes that they cover.
\<close>

record path_name =
  pn_src :: "byte list"
  pn_n_components :: sz
  pn_components :: "byte list list"
  pn_is_absolute :: bool

text \<open>The loop of the parser, over what is left of \<open>src\<close>.\<close>

function parse_components :: "sz \<Rightarrow> byte list \<Rightarrow> sz \<Rightarrow> byte list list \<Rightarrow> (sz \<times> byte list list) option" where
  "parse_components max_n src n comps =
     (if src = [] then Some (n, comps)
      else if \<not> n < max_n then None
      else case str_find_char src slash of
        None \<Rightarrow> do {
          comps \<leftarrow> poke comps n src;
          Some (n + 1, comps)
        }
      | Some next_len \<Rightarrow>
         if next_len = 0 then parse_components max_n (drop 1 src) n comps
         else do {
           comps \<leftarrow> poke comps n (take (nat next_len) src);
           parse_components max_n (drop (nat (next_len + 1)) src) (n + 1) comps
         })"
  by pat_completeness auto
termination
  by (relation "measure (\<lambda>(_, src, _, _). length src)") (auto simp: str_find_char_Some)

declare parse_components.simps [simp del]

text \<open>The size and the alignment of \<open>struct str\<close> are 16 and 8; the arena hands out zeroed memory.\<close>

definition path_name_parse :: "byte list \<Rightarrow> arena \<Rightarrow> (path_name res \<times> arena) option" where
  "path_name_parse name arn =
     (if name = [] then Some (Inl EINVAL, arn)
      else if int (length name) > PATH_NAME_MAX_LEN then Some (Inl ENAMETOOLONG, arn)
      else do {
        kassert (name ! 0 = slash);
        let name = drop 1 name;
        let name = (if name \<noteq> [] \<and> last name = slash then butlast name else name);
        if str_find_char name 0 \<noteq> None then Some (Inl EINVAL, arn)
        else do {
          (src_buf, arn) \<leftarrow> str_buf_from_arena arn (int (length name));
          (_, src_buf) \<leftarrow> str_buf_append src_buf name;
          let src = byte_view_from_buf src_buf;
          let max_n_components = int (length name) div 2 + 1;
          (p, arn) \<leftarrow> arena_alloc_aligned_array arn max_n_components 16 8;
          let comps = (if p = None then [] else replicate (nat max_n_components) []);
          (n, comps) \<leftarrow> parse_components max_n_components src 0 comps;
          Some (Inr \<lparr>pn_src = src, pn_n_components = n, pn_components = comps,
                     pn_is_absolute = True\<rparr>, arn)
        }
      })"

text \<open>The writing loop does not look at the results of the appending functions.\<close>

fun path_write :: "path_name \<Rightarrow> nat list \<Rightarrow> str_buf \<Rightarrow> str_buf option" where
  "path_write path [] sbuf = Some sbuf"
| "path_write path (i # is) sbuf = do {
     (_, sbuf) \<leftarrow> (if i \<noteq> 0 then str_buf_append_char sbuf slash else Some (ok, sbuf));
     comp \<leftarrow> peek (pn_components path) (int i);
     (_, sbuf) \<leftarrow> str_buf_append sbuf comp;
     path_write path is sbuf
   }"

definition path_name_to_str :: "path_name \<Rightarrow> arena \<Rightarrow> (byte list \<times> arena) option" where
  "path_name_to_str path arn = do {
     (sbuf, arn) \<leftarrow> str_buf_from_arena arn PATH_NAME_MAX_LEN;
     (_, sbuf) \<leftarrow> (if pn_is_absolute path then str_buf_append_char sbuf slash else Some (ok, sbuf));
     sbuf \<leftarrow> path_write path [0 ..< nat (pn_n_components path)] sbuf;
     Some (byte_view_from_buf sbuf, arn)
   }"

section \<open>Splitting at slashes\<close>

fun split_slash :: "byte list \<Rightarrow> byte list list" where
  "split_slash [] = [[]]"
| "split_slash (c # s) =
     (if c = slash then [] # split_slash s
      else (c # hd (split_slash s)) # tl (split_slash s))"

definition path_of :: "byte list \<Rightarrow> byte list list" where
  "path_of s = filter (\<lambda>w. w \<noteq> []) (split_slash s)"

lemma split_slash_ne [simp]: "split_slash s \<noteq> []"
  by (cases s) auto

lemma split_slash_word: "slash \<notin> set w \<Longrightarrow> split_slash w = [w]"
  by (induction w) auto

lemma split_slash_append: "slash \<notin> set w \<Longrightarrow> split_slash (w @ slash # s) = w # split_slash s"
  by (induction w) auto

lemma path_of_nil [simp]: "path_of [] = []"
  by (simp add: path_of_def)

lemma path_of_slash [simp]: "path_of (slash # s) = path_of s"
  by (simp add: path_of_def)

lemma path_of_word: "slash \<notin> set w \<Longrightarrow> w \<noteq> [] \<Longrightarrow> path_of w = [w]"
  by (simp add: path_of_def split_slash_word)

lemma path_of_append: "slash \<notin> set w \<Longrightarrow> w \<noteq> [] \<Longrightarrow> path_of (w @ slash # s) = w # path_of s"
  by (simp add: path_of_def split_slash_append)

lemma split_slash_snoc: "split_slash (s @ [slash]) = split_slash s @ [[]]"
  by (induction s) auto

lemma path_of_trailing [simp]: "path_of (s @ [slash]) = path_of s"
  by (simp add: path_of_def split_slash_snoc)

lemma split_slash_parts: "w \<in> set (split_slash s) \<Longrightarrow> set w \<subseteq> set s - {slash}"
proof (induction s arbitrary: w)
  case Nil
  then show ?case by simp
next
  case (Cons c s)
  show ?case
  proof (cases "c = slash")
    case True
    then show ?thesis using Cons by auto
  next
    case False
    have "set (hd (split_slash s)) \<subseteq> set s - {slash}" by (rule Cons.IH) simp
    moreover have "v \<in> set (tl (split_slash s)) \<Longrightarrow> set v \<subseteq> set s - {slash}" for v
      by (rule Cons.IH) (simp add: list.set_sel(2))
    ultimately show ?thesis using Cons.prems False by auto
  qed
qed

text \<open>Names that can stand between slashes.\<close>

definition comp_ok :: "byte list \<Rightarrow> bool" where
  "comp_ok w \<longleftrightarrow> w \<noteq> [] \<and> slash \<notin> set w \<and> 0 \<notin> set w"

lemma path_of_comp_ok: "0 \<notin> set s \<Longrightarrow> w \<in> set (path_of s) \<Longrightarrow> comp_ok w"
  using split_slash_parts [of w s] by (auto simp: path_of_def comp_ok_def)

lemma split_slash_length: "sum_list (map length (split_slash s)) + length (split_slash s) = length s + 1"
proof (induction s)
  case Nil
  then show ?case by simp
next
  case (Cons c s)
  obtain w ws where "split_slash s = w # ws" by (cases "split_slash s") auto
  then show ?case using Cons by auto
qed

lemma path_of_length: "2 * length (path_of s) \<le> length s + 1"
proof -
  have "2 * length (filter (\<lambda>w. w \<noteq> []) ws) \<le> sum_list (map length ws) + length ws" for ws :: "byte list list"
  proof (induction ws)
    case (Cons w ws)
    then show ?case by (cases w) auto
  qed simp
  from this [of "split_slash s"] split_slash_length [of s] show ?thesis by (simp add: path_of_def)
qed

section \<open>The parser\<close>

lemma take_snoc_update: "n < length xs \<Longrightarrow> take (Suc n) (xs[n := v]) = take n xs @ [v]"
  by (simp add: take_Suc_conv_app_nth)

lemma parse_components_eq:
  assumes "0 \<le> n" "2 * n + int (length src) \<le> l" "int (length comps) = l div 2 + 1"
  shows "\<exists>comps'. parse_components (l div 2 + 1) src n comps = Some (n + int (length (path_of src)), comps') \<and>
    length comps' = length comps \<and>
    take (nat n + length (path_of src)) comps' = take (nat n) comps @ path_of src"
  using assms
proof (induction "length src" arbitrary: src n comps rule: less_induct)
  case less
  show ?case
  proof (cases "src = []")
    case True
    then show ?thesis by (subst parse_components.simps) simp
  next
    case ne: False
    then have "length src \<ge> 1" by (cases src) auto
    then have n: "n < l div 2 + 1" using less.prems by linarith
    then have n': "nat n < length comps" "0 \<le> n" "n < int (length comps)"
      using less.prems by linarith+
    show ?thesis
    proof (cases "str_find_char src slash")
      case None
      then have "path_of src = [src]" using ne str_find_char_None path_of_word by blast
      then show ?thesis using None ne n n'
        by (subst parse_components.simps) (simp add: poke_def take_snoc_update)
    next
      case (Some k)
      then have k: "0 \<le> k" "k < int (length src)" "src ! nat k = slash" "slash \<notin> set (take (nat k) src)"
        by (auto simp: str_find_char_Some)
      define rest where "rest = drop (nat (k + 1)) src"
      have src: "src = take (nat k) src @ slash # rest"
        using id_take_nth_drop [of "nat k" src] k by (simp add: rest_def nat_add_distrib)
      have len: "length src = nat k + 1 + length rest" using k by (simp add: rest_def)
      show ?thesis
      proof (cases "k = 0")
        case True
        have "path_of src = path_of rest" using src True by (metis append_Nil nat_0 path_of_slash take_0)
        moreover have "parse_components (l div 2 + 1) src n comps = parse_components (l div 2 + 1) rest n comps"
          using Some True ne n by (subst parse_components.simps) (simp add: rest_def)
        moreover have "2 * n + int (length rest) \<le> l" "length rest < length src"
          using less.prems(2) len by linarith+
        ultimately show ?thesis using less.hyps [of rest n comps] less.prems(1,3) by simp
      next
        case False
        define w where "w = take (nat k) src"
        have "w \<noteq> []" using False k by (auto simp: w_def)
        then have path: "path_of src = w # path_of rest"
          using path_of_append [of w rest] k(4) src by (simp add: w_def)
        define comps1 where "comps1 = comps[nat n := w]"
        have "1 \<le> nat k" using False k(1) by simp
        then have "length rest + 2 \<le> length src" using len by linarith
        then have "2 * (n + 1) + int (length rest) \<le> l" using less.prems(2) by simp
        then obtain comps' where c: "parse_components (l div 2 + 1) rest (n + 1) comps1 =
            Some (n + 1 + int (length (path_of rest)), comps')" "length comps' = length comps1"
          "take (nat (n + 1) + length (path_of rest)) comps' = take (nat (n + 1)) comps1 @ path_of rest"
          using less.hyps [of rest "n + 1" comps1] less.prems len by (auto simp: comps1_def)
        have "parse_components (l div 2 + 1) src n comps = parse_components (l div 2 + 1) rest (n + 1) comps1"
          using ne n n' Some False
          by (subst parse_components.simps) (simp add: poke_def comps1_def w_def rest_def)
        then have "parse_components (l div 2 + 1) src n comps = Some (n + int (length (path_of src)), comps')"
          unfolding c(1) path by simp
        moreover have "take (nat n + length (path_of src)) comps' = take (nat n) comps @ path_of src"
        proof -
          have "take (nat (n + 1)) comps1 = take (nat n) comps @ [w]"
            using n' by (simp add: comps1_def nat_add_distrib take_snoc_update)
          then show ?thesis using c(3) n'(2) unfolding path by (simp add: nat_add_distrib)
        qed
        moreover have "length comps' = length comps" using c(2) by (simp add: comps1_def)
        ultimately show ?thesis by blast
      qed
    qed
  qed
qed

text \<open>The bytes that the parser takes from the arena.\<close>

definition parse_room :: "byte list \<Rightarrow> arena \<Rightarrow> bool" where
  "parse_room name arn \<longleftrightarrow> 9 * int (length name) + 32 \<le> ar_end arn - ar_beg arn"

lemma arena_alloc_aligned_ok:
  assumes "n + 2 ^ k \<le> ar_end arn - ar_beg arn" "0 \<le> n"
  shows "\<exists>p. arena_alloc_aligned arn n (2 ^ k) = Some (p, arn\<lparr>ar_beg := p + n\<rparr>) \<and>
    ar_beg arn \<le> p \<and> p < ar_beg arn + 2 ^ k"
proof -
  have "0 \<le> (- ar_beg arn) mod 2 ^ k" "(- ar_beg arn) mod 2 ^ k < 2 ^ k" by simp_all
  moreover have "ar_beg arn + (- ar_beg arn) mod 2 ^ k + n \<le> ar_end arn"
    using assms calculation(2) by linarith
  ultimately show ?thesis using assms(2)
    by (intro exI [of _ "ar_beg arn + (- ar_beg arn) mod 2 ^ k"])
      (simp add: arena_alloc_aligned_Some)
qed

lemma str_buf_from_arena_ok:
  assumes "0 \<le> cap" "cap + 8 \<le> ar_end arn - ar_beg arn" "cap \<le> 4294967295"
  shows "\<exists>p. str_buf_from_arena arn cap =
    Some (byte_buf_new (replicate (nat cap) 0) 0 cap, arn\<lparr>ar_beg := p + cap\<rparr>) \<and>
    ar_beg arn \<le> p \<and> p < ar_beg arn + 8"
proof -
  obtain p where "arena_alloc_aligned arn cap 8 = Some (p, arn\<lparr>ar_beg := p + cap\<rparr>)"
    "ar_beg arn \<le> p" "p < ar_beg arn + 8"
    using arena_alloc_aligned_ok [of cap 3 arn] assms by auto
  then show ?thesis using assms
    by (auto simp: str_buf_from_arena_def arena_alloc_array_def arena_alloc_aligned_array_def)
qed

definition path_ok :: "path_name \<Rightarrow> byte list list \<Rightarrow> bool" where
  "path_ok p ws \<longleftrightarrow> pn_is_absolute p \<and> pn_n_components p = int (length ws) \<and>
     length ws \<le> length (pn_components p) \<and> take (length ws) (pn_components p) = ws"

lemma path_of_trim:
  "path_of (if s \<noteq> [] \<and> last s = slash then butlast s else s) = path_of s"
  by (metis append_butlast_last_id path_of_trailing)

lemma zero_not_slash [simp]: "slash \<noteq> 0"
  by (simp add: slash_def)

lemma set_trim: "0 \<in> set (if s \<noteq> [] \<and> last s = slash then butlast s else s) \<longleftrightarrow> 0 \<in> set s"
proof (cases "s \<noteq> [] \<and> last s = slash")
  case True
  then have "set s = set (butlast s) \<union> {slash}"
    by (metis append_butlast_last_id list.set(1) list.simps(15) set_append)
  then show ?thesis using True by (auto simp: zero_not_slash [symmetric])
qed auto

lemma path_name_parse_ok:
  assumes "int (length (slash # s)) \<le> PATH_NAME_MAX_LEN" "0 \<notin> set s" "parse_room (slash # s) arn"
  shows "\<exists>p arn'. path_name_parse (slash # s) arn = Some (Inr p, arn') \<and> path_ok p (path_of s) \<and>
    ar_end arn' = ar_end arn \<and> ar_beg arn \<le> ar_beg arn' \<and>
    ar_beg arn' \<le> ar_beg arn + 9 * int (length (slash # s)) + 32"
proof -
  define t where "t = (if s \<noteq> [] \<and> last s = slash then butlast s else s)"
  define l where "l = int (length t)"
  have t: "path_of t = path_of s" "0 \<notin> set t" "l \<le> int (length s)" "0 \<le> l"
    using path_of_trim set_trim assms(2) by (auto simp: t_def l_def)
  have room: "9 * int (length s) + 41 \<le> ar_end arn - ar_beg arn" and small: "l \<le> 4095"
    using assms(1,3) t by (auto simp: parse_room_def PATH_NAME_MAX_LEN_def)
  obtain q where q: "str_buf_from_arena arn l = Some (byte_buf_new (replicate (nat l) 0) 0 l,
      arn\<lparr>ar_beg := q + l\<rparr>)" "ar_beg arn \<le> q" "q < ar_beg arn + 8"
    using str_buf_from_arena_ok [of l arn] t room small by auto
  obtain b where b: "str_buf_append (byte_buf_new (replicate (nat l) 0) 0 l) t = Some (ok, b)"
    "byte_view_from_buf b = t"
    using str_buf_append_ok [of "byte_buf_new (replicate (nat l) 0) 0 l" t] t
    by (auto simp: byte_buf_new_def wf_buf_def l_def byte_view_from_buf_def)
  define m where "m = l div 2 + 1"
  have m: "0 < m" "2 * m \<le> l + 2" "m \<le> 4096" using t small by (simp_all add: m_def)
  obtain beg where beg: "q + l \<le> beg" "beg < q + l + 8"
    "arena_alloc_aligned (arn\<lparr>ar_beg := q + l\<rparr>) (m * 16) 8 = Some (beg, arn\<lparr>ar_beg := beg + m * 16\<rparr>)"
    using arena_alloc_aligned_ok [of "m * 16" 3 "arn\<lparr>ar_beg := q + l\<rparr>"] room t m q by auto
  then have arr: "arena_alloc_aligned_array (arn\<lparr>ar_beg := q + l\<rparr>) m 16 8 =
      Some (Some beg, arn\<lparr>ar_beg := beg + m * 16\<rparr>)"
    using m by (simp add: arena_alloc_aligned_array_def)
  obtain comps where c: "parse_components m t 0 (replicate (nat m) []) = Some (int (length (path_of t)), comps)"
    "length comps = nat m" "take (length (path_of t)) comps = path_of t"
    using parse_components_eq [of 0 t l "replicate (nat m) []"] m(1) by (auto simp: m_def l_def)
  have "length (path_of t) \<le> nat m" using path_of_length [of t] by (simp add: m_def l_def)
  moreover have "path_name_parse (slash # s) arn = Some (Inr \<lparr>pn_src = t, pn_n_components =
      int (length (path_of t)), pn_components = comps, pn_is_absolute = True\<rparr>, arn\<lparr>ar_beg := beg + m * 16\<rparr>)"
    using assms(1) t q(1) b arr c str_find_char_None [of t 0]
    unfolding path_name_parse_def
    by (simp add: t_def [symmetric] l_def [symmetric] m_def [symmetric] Let_def)
  ultimately show ?thesis using c t(1) beg(1,2) q(2,3) m room t(3,4)
    by (auto simp: path_ok_def)
qed

text \<open>Whenever the parser returns for a proper path, its result is right and it has used the arena.\<close>

lemma path_name_parse_inv:
  assumes "path_name_parse (slash # s) arn = Some (r, arn')" "0 \<notin> set s"
    "int (length (slash # s)) \<le> PATH_NAME_MAX_LEN"
  shows "\<exists>p. r = Inr p \<and> path_ok p (path_of s) \<and> ar_end arn' = ar_end arn \<and> ar_beg arn + 16 \<le> ar_beg arn'"
proof -
  define t where "t = (if s \<noteq> [] \<and> last s = slash then butlast s else s)"
  define m where "m = int (length t) div 2 + 1"
  have t: "path_of t = path_of s" "0 \<notin> set t" "int (length t) \<le> 4095"
    using path_of_trim set_trim assms(2,3) by (auto simp: t_def PATH_NAME_MAX_LEN_def)
  have m: "1 \<le> m" "m \<le> 4096" using t(3) by (simp_all add: m_def)
  obtain b arn1 b' where 1: "str_buf_from_arena arn (int (length t)) = Some (b, arn1)"
    "str_buf_append b t = Some b'" and rest: "do {
          (p, arn) \<leftarrow> arena_alloc_aligned_array arn1 m 16 8;
          let comps = (if p = None then [] else replicate (nat m) []);
          (n, comps) \<leftarrow> parse_components m (byte_view_from_buf (snd b')) 0 comps;
          Some (Inr \<lparr>pn_src = byte_view_from_buf (snd b'), pn_n_components = n, pn_components = comps,
                     pn_is_absolute = True\<rparr>, arn)
        } = Some (r, arn')"
    using assms t(2) str_find_char_None [of t 0]
    by (auto simp: path_name_parse_def t_def [symmetric] m_def [symmetric] Let_def bind_eq_Some_conv split_def
        split: if_splits)
  obtain q where q: "b = byte_buf_new (replicate (length t) 0) 0 (int (length t))" "ar_end arn1 = ar_end arn"
    "ar_beg arn \<le> ar_beg arn1"
    using 1(1) t(3) arena_alloc_props(2,3,5) [of arn "int (length t)" 3 _ arn1]
    by (auto simp: str_buf_from_arena_def arena_alloc_array_def arena_alloc_aligned_array_def bind_eq_Some_conv)
  have view: "byte_view_from_buf (snd b') = t"
    using 1(2) str_buf_append_ok [of b t] q(1)
    by (auto simp: byte_buf_new_def wf_buf_def byte_view_from_buf_def)
  obtain comps where c: "parse_components m t 0 (replicate (nat m) []) = Some (int (length (path_of t)), comps)"
    "length comps = nat m" "take (length (path_of t)) comps = path_of t"
    using parse_components_eq [of 0 t "int (length t)" "replicate (nat m) []"] m(1) by (auto simp: m_def)
  have len: "length (path_of t) \<le> nat m" using path_of_length [of t] by (simp add: m_def)
  obtain x where x: "arena_alloc_aligned arn1 (m * 16) (2 ^ 3) = Some (x, arn')"
    "r = Inr \<lparr>pn_src = t, pn_n_components = int (length (path_of t)), pn_components = comps, pn_is_absolute = True\<rparr>"
    using rest view c(1) m by (auto simp: arena_alloc_aligned_array_def bind_eq_Some_conv)
  have "ar_beg arn1 + 16 \<le> ar_beg arn'" "ar_end arn' = ar_end arn1"
    using arena_alloc_props(2,3,5) [OF x(1)] m(1) by linarith+
  then show ?thesis using q x(2) c len t(1) by (auto simp: path_ok_def)
qed

lemma path_name_parse_splits_aux:
  assumes "parse_room name arn"
  shows "if name = [] then path_name_parse name arn = Some (Inl EINVAL, arn)
    else if int (length name) > PATH_NAME_MAX_LEN then path_name_parse name arn = Some (Inl ENAMETOOLONG, arn)
    else if hd name \<noteq> slash then path_name_parse name arn = None
    else if 0 \<in> set name then path_name_parse name arn = Some (Inl EINVAL, arn)
    else \<exists>p arn'. path_name_parse name arn = Some (Inr p, arn') \<and> path_ok p (path_of name) \<and>
      (\<forall>w \<in> set (path_of name). comp_ok w)"
proof (cases name)
  case Nil
  then show ?thesis by (simp add: path_name_parse_def)
next
  case (Cons c s)
  consider "int (length name) > PATH_NAME_MAX_LEN" | "int (length name) \<le> PATH_NAME_MAX_LEN" "c \<noteq> slash"
    | "int (length name) \<le> PATH_NAME_MAX_LEN" "c = slash" "0 \<in> set s"
    | "int (length name) \<le> PATH_NAME_MAX_LEN" "c = slash" "0 \<notin> set s" by fastforce
  then show ?thesis
  proof cases
    case 3
    then show ?thesis using Cons set_trim [of s]
        str_find_char_None [of "if s \<noteq> [] \<and> last s = slash then butlast s else s" 0]
      by (simp add: path_name_parse_def Let_def)
  next
    case 4
    then show ?thesis using Cons path_name_parse_ok [of s arn] assms path_of_comp_ok [of s]
      by (auto simp del: split_slash.simps)
  qed (use Cons in \<open>simp_all add: path_name_parse_def\<close>)
qed

text \<open>
  C10: path_name_parse terminates on every text and decides it completely. The empty path is EINVAL, a path of more
  than 4096 bytes is ENAMETOOLONG, a path that does not begin with a slash stops the machine (an
  assertion), a path with a NUL byte is EINVAL; every other path gives its non-empty parts
  between slashes in order. The assertion on the number of components never fails.
\<close>

theorem path_name_parse_splits:
  assumes "parse_room name arn"
  shows "if name = [] then path_name_parse name arn = Some (Inl EINVAL, arn)
    else if int (length name) > PATH_NAME_MAX_LEN then path_name_parse name arn = Some (Inl ENAMETOOLONG, arn)
    else if hd name \<noteq> slash then path_name_parse name arn = None
    else if 0 \<in> set name then path_name_parse name arn = Some (Inl EINVAL, arn)
    else \<exists>p arn'. path_name_parse name arn = Some (Inr p, arn') \<and> path_ok p (path_of name) \<and>
      (\<forall>w \<in> set (path_of name). comp_ok w)"
  by (rule path_name_parse_splits_aux [OF assms])

theorem path_name_parse_splits_witness:
  "\<exists>p arn'. path_name_parse (cstr ''/foo//bar/'') (arena_new 4096 1000) = Some (Inr p, arn') \<and>
     path_ok p [cstr ''foo'', cstr ''bar'']"
proof -
  have "path_of (cstr ''/foo//bar/'') = [cstr ''foo'', cstr ''bar'']"
    by (simp add: path_of_def cstr_def slash_def)
  then show ?thesis
    using path_name_parse_splits [of "cstr ''/foo//bar/''" "arena_new 4096 1000"]
    by (simp add: parse_room_def arena_new_def PATH_NAME_MAX_LEN_def cstr_def slash_def) blast
qed

section \<open>Writing a path\<close>

definition path_text :: "byte list list \<Rightarrow> byte list" where
  "path_text ws = (if ws = [] then [slash] else concat (map ((#) slash) ws))"

lemma path_of_text: "(\<forall>w \<in> set ws. comp_ok w) \<Longrightarrow> path_of (path_text ws) = ws"
proof -
  have "(\<forall>w \<in> set ws. comp_ok w) \<Longrightarrow> path_of (concat (map ((#) slash) ws)) = ws"
  proof (induction ws)
    case (Cons w ws)
    then show ?case
      by (cases ws) (simp_all add: comp_ok_def path_of_word path_of_append)
  qed simp
  then show "(\<forall>w \<in> set ws. comp_ok w) \<Longrightarrow> path_of (path_text ws) = ws"
    by (simp add: path_text_def)
qed

lemma path_text_length: "length (path_text (path_of s)) \<le> length s + 1"
proof -
  have "length (concat (map ((#) slash) (filter (\<lambda>w. w \<noteq> []) ws))) \<le> sum_list (map length ws) + length ws" for ws
    by (induction ws) auto
  from this [of "split_slash s"] split_slash_length [of s] show ?thesis
    by (auto simp: path_text_def path_of_def)
qed

lemma path_write_ok:
  "wf_buf buf \<Longrightarrow> path_ok p ws \<Longrightarrow> k \<le> length ws \<Longrightarrow>
   bb_len buf + int (length (concat (map ((#) slash) (drop k ws)))) \<le> bb_cap buf + (if k = 0 \<and> ws \<noteq> [] then 1 else 0) \<Longrightarrow>
     \<exists>buf'. path_write p [k ..< length ws] buf = Some buf' \<and>
       byte_view_from_buf buf' = byte_view_from_buf buf @
         (if k = 0 \<and> ws \<noteq> [] then drop 1 else id) (concat (map ((#) slash) (drop k ws)))"
proof (induction "length ws - k" arbitrary: k buf)
  case 0
  then show ?case by simp
next
  case (Suc n)
  then have k: "k < length ws" by simp
  then have up: "[k ..< length ws] = k # [Suc k ..< length ws]" by (simp add: upt_rec)
  have d: "drop k ws = ws ! k # drop (Suc k) ws" using k by (simp add: Cons_nth_drop_Suc)
  have comp: "peek (pn_components p) (int k) = Some (ws ! k)"
  proof -
    have "take (length ws) (pn_components p) ! k = ws ! k" "k < length (pn_components p)"
      using Suc.prems(2) k by (simp_all add: path_ok_def)
    then show ?thesis using k by simp
  qed
  define pre where "pre = (if k \<noteq> 0 then [slash] else [])"
  have room: "bb_len buf + int (length (pre @ ws ! k)) + int (length (concat (map ((#) slash) (drop (Suc k) ws))))
      \<le> bb_cap buf"
    using Suc.prems(4) k d by (auto simp: pre_def split: if_splits)
  obtain b1 where b1: "(if k \<noteq> 0 then str_buf_append_char buf slash else Some (ok, buf)) = Some (ok, b1)"
    "wf_buf b1" "bb_cap b1 = bb_cap buf" "bb_len b1 = bb_len buf + int (length pre)"
    "byte_view_from_buf b1 = byte_view_from_buf buf @ pre"
  proof (cases "k = 0")
    case True
    then show ?thesis using that [of buf] Suc.prems(1) by (simp add: pre_def)
  next
    case False
    then show ?thesis using that str_buf_append_ok [OF Suc.prems(1), of pre] room Suc.prems(1)
      by (auto simp: pre_def str_buf_append_char_eq)
  qed
  obtain b2 where b2: "str_buf_append b1 (ws ! k) = Some (ok, b2)" "wf_buf b2" "bb_cap b2 = bb_cap b1"
    "bb_len b2 = bb_len b1 + int (length (ws ! k))"
    "byte_view_from_buf b2 = byte_view_from_buf b1 @ ws ! k"
    using str_buf_append_ok [OF b1(2), of "ws ! k"] room b1(3,4) by auto
  have "\<exists>buf'. path_write p [Suc k ..< length ws] b2 = Some buf' \<and> byte_view_from_buf buf' =
      byte_view_from_buf b2 @ concat (map ((#) slash) (drop (Suc k) ws))"
    using Suc.hyps(1) [of "Suc k" b2] Suc.hyps(2) Suc.prems(2) k b1 b2 room by auto
  moreover have "(if k = 0 \<and> ws \<noteq> [] then drop 1 else id) (concat (map ((#) slash) (drop k ws))) =
      pre @ ws ! k @ concat (map ((#) slash) (drop (Suc k) ws))"
    using d k by (auto simp: pre_def)
  ultimately show ?case unfolding up using comp b1 b2 by auto
qed

lemma str_buf_from_arena_buf:
  assumes "str_buf_from_arena arn cap = Some (b, arn')" "0 \<le> cap" "cap \<le> 4294967295"
  shows "b = byte_buf_new (replicate (nat cap) 0) 0 cap \<and> ar_end arn' = ar_end arn \<and>
    ar_beg arn + cap \<le> ar_beg arn' \<and> ar_beg arn' \<le> ar_end arn"
  using assms arena_alloc_props(2-5) [of arn cap 3 _ arn']
  by (auto simp: str_buf_from_arena_def arena_alloc_array_def arena_alloc_aligned_array_def bind_eq_Some_conv)

lemma path_name_to_str_eq:
  assumes "path_ok p ws" "int (length (path_text ws)) \<le> PATH_NAME_MAX_LEN"
  shows "path_name_to_str p arn = map_option (\<lambda>(_, arn'). (path_text ws, arn')) (str_buf_from_arena arn PATH_NAME_MAX_LEN)"
proof (cases "str_buf_from_arena arn PATH_NAME_MAX_LEN")
  case None
  then show ?thesis by (simp add: path_name_to_str_def)
next
  case (Some y)
  obtain buf arn' where y: "y = (buf, arn')" by force
  have "buf = byte_buf_new (replicate (nat PATH_NAME_MAX_LEN) 0) 0 PATH_NAME_MAX_LEN"
    using str_buf_from_arena_buf [of arn PATH_NAME_MAX_LEN buf arn'] Some y by (simp add: PATH_NAME_MAX_LEN_def)
  then have wf: "wf_buf buf" "bb_len buf = 0" "bb_cap buf = PATH_NAME_MAX_LEN" "byte_view_from_buf buf = []"
    by (simp_all add: byte_buf_new_def wf_buf_def byte_view_from_buf_def PATH_NAME_MAX_LEN_def)
  obtain b1 where b1: "str_buf_append_char buf slash = Some (ok, b1)" "wf_buf b1" "bb_cap b1 = PATH_NAME_MAX_LEN"
    "bb_len b1 = 1" "byte_view_from_buf b1 = [slash]"
    using str_buf_append_ok [OF wf(1), of "[slash]"] wf str_buf_append_char_eq [OF wf(1)]
    by (auto simp: PATH_NAME_MAX_LEN_def)
  obtain b2 where "path_write p [0 ..< length ws] b1 = Some b2" "byte_view_from_buf b2 = path_text ws"
    using path_write_ok [OF b1(2) assms(1), of 0] b1 assms(2) by (cases ws) (auto simp: path_text_def)
  then show ?thesis using Some y b1 assms(1) by (simp add: path_name_to_str_def path_ok_def)
qed

lemma path_name_to_str_ok:
  assumes "path_ok p ws" "int (length (path_text ws)) \<le> PATH_NAME_MAX_LEN"
    "PATH_NAME_MAX_LEN + 8 \<le> ar_end arn - ar_beg arn"
  shows "\<exists>q. path_name_to_str p arn = Some (path_text ws, arn\<lparr>ar_beg := q + PATH_NAME_MAX_LEN\<rparr>) \<and>
    ar_beg arn \<le> q \<and> q < ar_beg arn + 8"
  using str_buf_from_arena_ok [of PATH_NAME_MAX_LEN arn] assms(3) path_name_to_str_eq [OF assms(1,2), of arn]
  by (auto simp: PATH_NAME_MAX_LEN_def)

text \<open>
  Round trip of path names. The text that path_name_to_str writes for a parsed path begins
  every component with one slash, is never longer than the path it came from (so nothing is cut off
  by the ignored errors of the appending functions), and parses to the same components again.
\<close>

theorem path_name_text_roundtrip:
  assumes "path_name_parse name arn = Some (Inr p, arn1)" and "parse_room name arn"
    and "PATH_NAME_MAX_LEN + 8 \<le> ar_end arn2 - ar_beg arn2" and "parse_room name arn4"
  shows "\<exists>t arn3 q arn5. path_name_to_str p arn2 = Some (t, arn3) \<and> length t \<le> length name \<and>
    path_name_parse t arn4 = Some (Inr q, arn5) \<and> pn_n_components q = pn_n_components p \<and>
    take (nat (pn_n_components q)) (pn_components q) = take (nat (pn_n_components p)) (pn_components p)"
proof -
  have len: "int (length name) \<le> PATH_NAME_MAX_LEN" and "name \<noteq> []" "hd name = slash" and z: "0 \<notin> set name"
    and p: "path_ok p (path_of name)" and ok: "\<forall>w \<in> set (path_of name). comp_ok w"
    using assms(1) path_name_parse_splits_aux [OF assms(2)] by (auto split: if_splits)
  then obtain s where s: "name = slash # s" by (cases name) auto
  let ?t = "path_text (path_of name)"
  have le: "length ?t \<le> length name" using path_text_length [of s] s by simp
  obtain arn3 where 1: "path_name_to_str p arn2 = Some (?t, arn3)"
    using path_name_to_str_ok [OF p, of arn2] le len assms(3) by auto
  obtain r where r: "?t = slash # r" by (cases "path_of name") (auto simp: path_text_def)
  have "0 \<notin> set ?t" using ok by (auto simp: path_text_def comp_ok_def zero_not_slash [symmetric])
  then have "0 \<notin> set r" using r by simp
  moreover have "path_of r = path_of name" using path_of_text [OF ok] r by simp
  ultimately obtain q arn5 where 2: "path_name_parse ?t arn4 = Some (Inr q, arn5)" "path_ok q (path_of name)"
    using path_name_parse_ok [of r arn4] r le len assms(4) by (auto simp: parse_room_def)
  show ?thesis using 1 2 le p by (auto simp: path_ok_def)
qed

theorem path_name_text_roundtrip_witness:
  "\<exists>p arn1 t arn3 q arn5. path_name_parse (cstr ''/a//b/'') (arena_new 4096 1000) = Some (Inr p, arn1) \<and>
     path_name_to_str p (arena_new 8192 5000) = Some (t, arn3) \<and> length t \<le> 6 \<and>
     path_name_parse t (arena_new 4096 1000) = Some (Inr q, arn5) \<and> pn_n_components q = pn_n_components p"
proof -
  have room: "parse_room (cstr ''/a//b/'') (arena_new 4096 1000)"
    by (simp add: parse_room_def cstr_def arena_new_def)
  have "\<exists>p arn1. path_name_parse (cstr ''/a//b/'') (arena_new 4096 1000) = Some (Inr p, arn1)"
    using path_name_parse_splits_aux [OF room] by (auto simp: cstr_def slash_def PATH_NAME_MAX_LEN_def)
  then obtain p arn1 where p: "path_name_parse (cstr ''/a//b/'') (arena_new 4096 1000) = Some (Inr p, arn1)"
    by blast
  show ?thesis
    using path_name_text_roundtrip [OF p room _ room, of "arena_new 8192 5000"] p
    by (simp add: arena_new_def PATH_NAME_MAX_LEN_def cstr_def numeral_eq_Suc) blast
qed

end
