(* ===== verification/RamFs.thy ===== *)
theory RamFs
  imports RamPath Buddy
begin

text \<open>
  The RAM file system (src/ramfs.c, include/tx/ramfs.h) behind an allocator (include/tx/alloc.h).
  Nodes are addresses of pool blocks; the tree is linked by the \<open>first\<close> and \<open>next\<close> pointers of the
  nodes, NULL is 0. Every node points back to its file system; as there is one file system, it is
  passed to the functions instead. The abstraction of the node heap is a tree of named files and
  directories, on which lookup and creation are specified.
\<close>

section \<open>Allocators\<close>

text \<open>
  \<open>struct alloc\<close>: the state behind \<open>a_ptr\<close> and the two functions. \<open>al_mem\<close> is what the memory
  holds before it is handed out, an arbitrary byte per address.
\<close>

record 'a alloc =
  al_ptr :: 'a
  al_alloc :: "'a \<Rightarrow> sz \<Rightarrow> sz \<Rightarrow> (addr option \<times> 'a) option"
  al_free :: "'a \<Rightarrow> addr \<Rightarrow> sz \<Rightarrow> 'a option"
  al_mem :: "addr \<Rightarrow> byte"

definition alloc_new :: "'a \<Rightarrow> ('a \<Rightarrow> sz \<Rightarrow> sz \<Rightarrow> (addr option \<times> 'a) option) \<Rightarrow>
    ('a \<Rightarrow> addr \<Rightarrow> sz \<Rightarrow> 'a option) \<Rightarrow> (addr \<Rightarrow> byte) \<Rightarrow> 'a alloc" where
  "alloc_new a_ptr alloc free mem = \<lparr>al_ptr = a_ptr, al_alloc = alloc, al_free = free, al_mem = mem\<rparr>"

definition alloc_alloc :: "'a alloc \<Rightarrow> sz \<Rightarrow> sz \<Rightarrow> (addr option \<times> 'a alloc) option" where
  "alloc_alloc a n align = do {
     (p, st) \<leftarrow> al_alloc a (al_ptr a) n align;
     Some (p, a\<lparr>al_ptr := st\<rparr>)
   }"

definition alloc_free :: "'a alloc \<Rightarrow> addr \<Rightarrow> sz \<Rightarrow> 'a alloc option" where
  "alloc_free a p n = do {
     st \<leftarrow> al_free a (al_ptr a) p n;
     Some (a\<lparr>al_ptr := st\<rparr>)
   }"

text \<open>The bytes of a fresh allocation.\<close>

definition fresh_bytes :: "'a alloc \<Rightarrow> addr \<Rightarrow> sz \<Rightarrow> byte list" where
  "fresh_bytes a p n = map (\<lambda>i. al_mem a (p + int i)) [0 ..< nat n]"

section \<open>State\<close>

definition RAM_FS_MAX_NODES_NUM :: sz where "RAM_FS_MAX_NODES_NUM = 10000"
definition RAM_FS_DEFAULT_FILE_SIZE :: sz where "RAM_FS_DEFAULT_FILE_SIZE = PAGE_SIZE"

datatype ram_fs_node_type = RAM_FS_TYPE_FILE | RAM_FS_TYPE_DIR

text \<open>The pointer of the data buffer is apart from the bytes behind it; it can be NULL.\<close>

record ram_fs_node =
  fn_first :: addr
  fn_next :: addr
  fn_type :: ram_fs_node_type
  fn_name :: "byte list"
  fn_data_ptr :: addr
  fn_data :: byte_buf

type_synonym node_heap = "addr \<Rightarrow> ram_fs_node option"

record 'a ram_fs =
  rf_data_alloc :: "'a alloc"
  rf_words :: words
  rf_node_alloc :: pool
  rf_scratch :: arena
  rf_root :: addr
  rf_nodes :: node_heap

definition no_data :: byte_buf where "no_data = byte_buf_new [] 0 0"

definition SIZEOF_RAM_FS :: sz where "SIZEOF_RAM_FS = 64"
definition SIZEOF_RAM_FS_NODE :: sz where "SIZEOF_RAM_FS_NODE = 72"

section \<open>Lookup\<close>

text \<open>The walk of \<open>ram_fs_node_lookup_at\<close>; \<open>i\<close> counts the components that have been found.\<close>

partial_function (option) lookup_loop :: "node_heap \<Rightarrow> path_name \<Rightarrow> sz \<Rightarrow> addr \<Rightarrow> addr option" where
  "lookup_loop nodes path i cur =
     (if cur = 0 then Some 0
      else do {
        nd \<leftarrow> nodes cur;
        comp \<leftarrow> peek (pn_components path) i;
        if str_is_equal (fn_name nd) comp then
          if i + 1 = pn_n_components path then Some cur
          else case fn_type nd of
              RAM_FS_TYPE_DIR \<Rightarrow> lookup_loop nodes path (i + 1) (fn_first nd)
            | RAM_FS_TYPE_FILE \<Rightarrow> Some 0
        else lookup_loop nodes path i (fn_next nd)
      })"

definition ram_fs_node_lookup_at :: "node_heap \<Rightarrow> addr \<Rightarrow> path_name \<Rightarrow> addr option" where
  "ram_fs_node_lookup_at nodes cur path = do {
     kassert (pn_n_components path \<noteq> 0);
     lookup_loop nodes path 0 cur
   }"

definition ram_fs_node_lookup :: "node_heap \<Rightarrow> addr \<Rightarrow> path_name \<Rightarrow> addr option" where
  "ram_fs_node_lookup nodes root path = do {
     kassert (root \<noteq> 0);
     if pn_is_absolute path then
       if pn_n_components path = 0 then Some root
       else do {
         nd \<leftarrow> nodes root;
         ram_fs_node_lookup_at nodes (fn_first nd) path
       }
     else crash
   }"

section \<open>Creation\<close>

text \<open>
  The memory for the name is not compared with NULL: copying a name to a NULL pointer has no
  value.
\<close>

definition ram_fs_node_alloc :: "'a ram_fs \<Rightarrow> byte list \<Rightarrow> ram_fs_node_type \<Rightarrow> (addr \<times> 'a ram_fs) option" where
  "ram_fs_node_alloc rfs name type = do {
     (node, words, pl) \<leftarrow> pool_alloc (rf_words rfs) (rf_node_alloc rfs);
     let rfs = rfs\<lparr>rf_words := words, rf_node_alloc := pl\<rparr>;
     if node = 0 then Some (0, rfs)
     else do {
       (p, al) \<leftarrow> alloc_alloc (rf_data_alloc rfs) (int (length name)) 8;
       let rfs = rfs\<lparr>rf_data_alloc := al\<rparr>;
       let name_buf = byte_buf_new (case p of None \<Rightarrow> [] | Some a \<Rightarrow> fresh_bytes al a (int (length name)))
         0 (int (length name));
       (_, name_buf) \<leftarrow> str_buf_append name_buf name;
       let nd = \<lparr>fn_first = 0, fn_next = 0, fn_type = type, fn_name = byte_view_from_buf name_buf,
                 fn_data_ptr = 0, fn_data = no_data\<rparr>;
       Some (node, rfs\<lparr>rf_nodes := (rf_nodes rfs)(node \<mapsto> nd)\<rparr>)
     }
   }"

text \<open>The search for a node of the same name, and the walk to the last node of a directory.\<close>

partial_function (option) has_conflict :: "node_heap \<Rightarrow> byte list \<Rightarrow> addr \<Rightarrow> bool option" where
  "has_conflict nodes name cur =
     (if cur = 0 then Some False
      else do {
        nd \<leftarrow> nodes cur;
        if str_is_equal (fn_name nd) name then Some True
        else has_conflict nodes name (fn_next nd)
      })"

partial_function (option) last_node :: "node_heap \<Rightarrow> addr \<Rightarrow> addr option" where
  "last_node nodes cur = do {
     nd \<leftarrow> nodes cur;
     if fn_next nd \<noteq> 0 then last_node nodes (fn_next nd) else Some cur
   }"

definition link_node :: "node_heap \<Rightarrow> addr \<Rightarrow> addr \<Rightarrow> node_heap option" where
  "link_node nodes parent node = do {
     pd \<leftarrow> nodes parent;
     if fn_first pd \<noteq> 0 then do {
       cur \<leftarrow> last_node nodes (fn_first pd);
       nd \<leftarrow> nodes cur;
       Some (nodes(cur \<mapsto> nd\<lparr>fn_next := node\<rparr>))
     }
     else Some (nodes(parent \<mapsto> pd\<lparr>fn_first := node\<rparr>))
   }"

text \<open>What \<open>ram_fs_create_common\<close> does once it has the parent directory.\<close>

definition create_in :: "addr \<Rightarrow> byte list \<Rightarrow> ram_fs_node_type \<Rightarrow> 'a ram_fs \<Rightarrow> (addr res \<times> 'a ram_fs) option" where
  "create_in parent nodename type rfs = do {
     pd \<leftarrow> rf_nodes rfs parent;
     if fn_type pd \<noteq> RAM_FS_TYPE_DIR then Some (Inl ENOTDIR, rfs)
     else do {
       conflict \<leftarrow> has_conflict (rf_nodes rfs) nodename (fn_first pd);
       if conflict then Some (Inl EEXIST, rfs)
       else do {
         (node, rfs) \<leftarrow> ram_fs_node_alloc rfs nodename type;
         if node = 0 then Some (Inl ENOMEM, rfs)
         else do {
           nodes \<leftarrow> link_node (rf_nodes rfs) parent node;
           Some (Inr node, rfs\<lparr>rf_nodes := nodes\<rparr>)
         }
       }
     }
   }"

text \<open>
  The scratch arena is passed by value, so every call of this function sees its own arena, and the
  recursive call gets what is left.
\<close>

partial_function (option) ram_fs_create_common ::
  "addr \<Rightarrow> byte list \<Rightarrow> ram_fs_node_type \<Rightarrow> bool \<Rightarrow> arena \<Rightarrow> 'a ram_fs \<Rightarrow> (addr res \<times> 'a ram_fs) option" where
  "ram_fs_create_common root nodepath type recursive scratch rfs = do {
     (path_res, scratch) \<leftarrow> path_name_parse nodepath scratch;
     case path_res of
       Inl e \<Rightarrow> Some (Inl e, rfs)
     | Inr path \<Rightarrow>
         if pn_n_components path = 0 then Some (Inl EEXIST, rfs)
         else do {
           kassert (pn_is_absolute path);
           nodename \<leftarrow> peek (pn_components path) (pn_n_components path - 1);
           let path = path\<lparr>pn_n_components := pn_n_components path - 1\<rparr>;
           parent \<leftarrow> ram_fs_node_lookup (rf_nodes rfs) root path;
           if parent = 0 then
             if \<not> recursive then Some (Inl ENOENT, rfs)
             else do {
               (parent_path, scratch) \<leftarrow> path_name_to_str path scratch;
               (parent_res, rfs) \<leftarrow> ram_fs_create_common root parent_path RAM_FS_TYPE_DIR True scratch rfs;
               case parent_res of
                 Inl e \<Rightarrow> Some (Inl e, rfs)
               | Inr parent \<Rightarrow> create_in parent nodename type rfs
             }
           else create_in parent nodename type rfs
         }
   }"

declare lookup_loop.simps [code] has_conflict.simps [code] last_node.simps [code]
  ram_fs_create_common.simps [code]

section \<open>Public functions\<close>

definition ram_fs_new :: "words \<Rightarrow> 'a alloc \<Rightarrow> ('a ram_fs option \<times> 'a alloc) option" where
  "ram_fs_new words al = do {
     (rfs, al) \<leftarrow> alloc_alloc al SIZEOF_RAM_FS 8;
     if rfs = None then Some (None, al)
     else do {
       let node_mem_size = RAM_FS_MAX_NODES_NUM * SIZEOF_RAM_FS_NODE;
       (node_mem, al) \<leftarrow> alloc_alloc al node_mem_size 8;
       case node_mem of
         None \<Rightarrow> Some (None, al)
       | Some node_mem \<Rightarrow> do {
           (pl, words) \<leftarrow> pool_new words node_mem node_mem_size SIZEOF_RAM_FS_NODE;
           let scratch_mem_size = 4 * PATH_NAME_MAX_LEN;
           (scratch_mem, al) \<leftarrow> alloc_alloc al scratch_mem_size 8;
           case scratch_mem of
             None \<Rightarrow> Some (None, al)
           | Some scratch_mem \<Rightarrow> do {
               (root_dir, words, pl) \<leftarrow> pool_alloc words pl;
               kassert (root_dir \<noteq> 0);
               let nd = \<lparr>fn_first = 0, fn_next = 0, fn_type = RAM_FS_TYPE_DIR, fn_name = [],
                         fn_data_ptr = 0, fn_data = no_data\<rparr>;
               Some (Some \<lparr>rf_data_alloc = al, rf_words = words, rf_node_alloc = pl,
                 rf_scratch = arena_new scratch_mem scratch_mem_size, rf_root = root_dir,
                 rf_nodes = [root_dir \<mapsto> nd]\<rparr>, al)
             }
         }
     }
   }"

definition ram_fs_create_dir :: "addr \<Rightarrow> byte list \<Rightarrow> bool \<Rightarrow> 'a ram_fs \<Rightarrow> (addr res \<times> 'a ram_fs) option" where
  "ram_fs_create_dir root dirpath recursive rfs = do {
     kassert (root \<noteq> 0);
     ram_fs_create_common root dirpath RAM_FS_TYPE_DIR recursive (rf_scratch rfs) rfs
   }"

definition ram_fs_create_file :: "addr \<Rightarrow> byte list \<Rightarrow> bool \<Rightarrow> 'a ram_fs \<Rightarrow> (addr res \<times> 'a ram_fs) option" where
  "ram_fs_create_file root filepath recursive rfs = do {
     kassert (root \<noteq> 0);
     (node_res, rfs) \<leftarrow> ram_fs_create_common root filepath RAM_FS_TYPE_FILE recursive (rf_scratch rfs) rfs;
     case node_res of
       Inl e \<Rightarrow> Some (Inl e, rfs)
     | Inr node \<Rightarrow> do {
         (data, al) \<leftarrow> alloc_alloc (rf_data_alloc rfs) RAM_FS_DEFAULT_FILE_SIZE 8;
         let rfs = rfs\<lparr>rf_data_alloc := al\<rparr>;
         case data of
           None \<Rightarrow> Some (Inl ENOMEM, rfs)
         | Some data \<Rightarrow> do {
             nd \<leftarrow> rf_nodes rfs node;
             let nd = nd\<lparr>fn_data_ptr := data, fn_data := byte_buf_new
               (fresh_bytes al data RAM_FS_DEFAULT_FILE_SIZE) 0 RAM_FS_DEFAULT_FILE_SIZE\<rparr>;
             Some (Inr node, rfs\<lparr>rf_nodes := (rf_nodes rfs)(node \<mapsto> nd)\<rparr>)
           }
       }
   }"

definition ram_fs_open :: "addr \<Rightarrow> byte list \<Rightarrow> 'a ram_fs \<Rightarrow> addr res option" where
  "ram_fs_open root filename rfs = do {
     kassert (root \<noteq> 0);
     (path_res, _) \<leftarrow> path_name_parse filename (rf_scratch rfs);
     case path_res of
       Inl e \<Rightarrow> Some (Inl e)
     | Inr path \<Rightarrow>
         if pn_n_components path = 0 then Some (Inr root)
         else do {
           node \<leftarrow> ram_fs_node_lookup (rf_nodes rfs) root path;
           if node = 0 then Some (Inl ENOENT) else Some (Inr node)
         }
   }"

text \<open>
  A view of the file data that begins before its first byte has no value; the code relies on its
  callers for that.
\<close>

definition ram_fs_read :: "addr \<Rightarrow> byte_buf \<Rightarrow> sz \<Rightarrow> 'a ram_fs \<Rightarrow> (sz res \<times> byte_buf) option" where
  "ram_fs_read rfs_node bbuf offset rfs = do {
     nd \<leftarrow> rf_nodes rfs rfs_node;
     if fn_type nd \<noteq> RAM_FS_TYPE_FILE then Some (Inl EINVAL, bbuf)
     else if offset > bb_len (fn_data nd) then Some (Inl EINVAL, bbuf)
     else if offset = bb_len (fn_data nd) then Some (Inr 0, bbuf)
     else if offset < 0 then None
     else do {
       let avail = bb_len (fn_data nd) - offset;
       (n_appended, bbuf) \<leftarrow> byte_buf_append bbuf (take (nat avail) (drop (nat offset) (bb_dat (fn_data nd))));
       Some (Inr n_appended, bbuf)
     }
   }"

text \<open>\<open>while (new_data_cap < bview.len + offset) new_data_cap *= 2\<close>\<close>

partial_function (option) grow_cap :: "sz \<Rightarrow> sz \<Rightarrow> sz option" where
  "grow_cap new_data_cap need =
     (if new_data_cap < need then grow_cap (new_data_cap * 2) need else Some new_data_cap)"

declare grow_cap.simps [code]

text \<open>The reallocation in \<open>ram_fs_write\<close>.\<close>

definition grow_file :: "addr \<Rightarrow> sz \<Rightarrow> 'a ram_fs \<Rightarrow> (unit res \<times> 'a ram_fs) option" where
  "grow_file rfs_node need rfs = do {
     nd \<leftarrow> rf_nodes rfs rfs_node;
     new_data_cap \<leftarrow> grow_cap (2 * bb_cap (fn_data nd)) need;
     (new_data, al) \<leftarrow> alloc_alloc (rf_data_alloc rfs) new_data_cap 8;
     case new_data of
       None \<Rightarrow> Some (Inl ENOMEM, rfs\<lparr>rf_data_alloc := al\<rparr>)
     | Some new_data \<Rightarrow> do {
         let new_data_buf = byte_buf_new (fresh_bytes al new_data new_data_cap) 0 new_data_cap;
         (_, new_data_buf) \<leftarrow> byte_buf_append new_data_buf (byte_view_from_buf (fn_data nd));
         al \<leftarrow> alloc_free al (fn_data_ptr nd) (bb_cap (fn_data nd));
         let nd = nd\<lparr>fn_data_ptr := new_data, fn_data := new_data_buf\<rparr>;
         Some (ok, rfs\<lparr>rf_data_alloc := al, rf_nodes := (rf_nodes rfs)(rfs_node \<mapsto> nd)\<rparr>)
       }
   }"

text \<open>The second part: the bytes are copied through a buffer over the rest of the file data.\<close>

definition write_file :: "addr \<Rightarrow> byte list \<Rightarrow> sz \<Rightarrow> 'a ram_fs \<Rightarrow> (sz res \<times> 'a ram_fs) option" where
  "write_file rfs_node bview offset rfs = do {
     nd \<leftarrow> rf_nodes rfs rfs_node;
     let avail = bb_cap (fn_data nd) - offset;
     kassert (int (length bview) \<le> avail);
     let write_len = min (int (length bview)) avail;
     kassert (bb_cap (fn_data nd) \<ge> offset);
     kassert (write_len \<le> bb_cap (fn_data nd) - offset);
     kassert (0 \<le> offset);
     (_, bb) \<leftarrow> byte_buf_append
       (byte_buf_new (drop (nat offset) (bb_dat (fn_data nd))) 0 write_len) bview;
     kassert (bb_len bb = write_len);
     let data = (fn_data nd)\<lparr>bb_dat := take (nat offset) (bb_dat (fn_data nd)) @ bb_dat bb,
       bb_len := max (bb_len (fn_data nd)) (offset + write_len)\<rparr>;
     Some (Inr write_len, rfs\<lparr>rf_nodes := (rf_nodes rfs)(rfs_node \<mapsto> nd\<lparr>fn_data := data\<rparr>)\<rparr>)
   }"

definition ram_fs_write :: "addr \<Rightarrow> byte list \<Rightarrow> sz \<Rightarrow> 'a ram_fs \<Rightarrow> (sz res \<times> 'a ram_fs) option" where
  "ram_fs_write rfs_node bview offset rfs = do {
     nd \<leftarrow> rf_nodes rfs rfs_node;
     if fn_type nd \<noteq> RAM_FS_TYPE_FILE then Some (Inl EINVAL, rfs)
     else do {
       kassert (fn_data_ptr nd \<noteq> 0 \<and> bb_cap (fn_data nd) \<noteq> 0);
       if offset > bb_len (fn_data nd) then Some (Inl EINVAL, rfs)
       else do {
         (r, rfs) \<leftarrow> (if int (length bview) + offset > bb_cap (fn_data nd)
            then grow_file rfs_node (int (length bview) + offset) rfs else Some (ok, rfs));
         case r of Inl e \<Rightarrow> Some (Inl e, rfs) | Inr _ \<Rightarrow> write_file rfs_node bview offset rfs
       }
     }
   }"

end
