(* ===== verification/RamTree.thy ===== *)
theory RamTree
  imports RamFs "HOL-Library.Multiset"
begin

text \<open>
  The specification of the file system's name space: a tree of named files and directories, in
  which each node carries the address of its node in the heap. Lookup and creation of src/ramfs.c
  are shown to implement lookup and insertion in this tree.
\<close>

section \<open>The tree in the heap\<close>

datatype fs_tree =
    File_node (t_addr: addr) (t_name: "byte list")
  | Dir_node (t_addr: addr) (t_name: "byte list") (t_children: "fs_tree list")

text \<open>\<open>siblings h c ts\<close>: from the address \<open>c\<close> the \<open>next\<close> pointers lead through the nodes \<open>ts\<close>.\<close>

fun siblings :: "node_heap \<Rightarrow> addr \<Rightarrow> fs_tree list \<Rightarrow> bool" where
  "siblings h c [] \<longleftrightarrow> c = 0"
| "siblings h c (File_node a n # ts) \<longleftrightarrow> c = a \<and> a \<noteq> 0 \<and>
     (\<exists>nd. h a = Some nd \<and> fn_type nd = RAM_FS_TYPE_FILE \<and> fn_name nd = n \<and> siblings h (fn_next nd) ts)"
| "siblings h c (Dir_node a n cs # ts) \<longleftrightarrow> c = a \<and> a \<noteq> 0 \<and>
     (\<exists>nd. h a = Some nd \<and> fn_type nd = RAM_FS_TYPE_DIR \<and> fn_name nd = n \<and>
       siblings h (fn_first nd) cs \<and> siblings h (fn_next nd) ts)"

fun tree_addrs :: "fs_tree list \<Rightarrow> addr list" where
  "tree_addrs [] = []"
| "tree_addrs (File_node a n # ts) = a # tree_addrs ts"
| "tree_addrs (Dir_node a n cs # ts) = a # tree_addrs cs @ tree_addrs ts"

text \<open>What of a node the tree depends on.\<close>

definition same_links :: "ram_fs_node option \<Rightarrow> ram_fs_node option \<Rightarrow> bool" where
  "same_links x y \<longleftrightarrow> map_option (\<lambda>nd. (fn_first nd, fn_next nd, fn_type nd, fn_name nd)) x =
     map_option (\<lambda>nd. (fn_first nd, fn_next nd, fn_type nd, fn_name nd)) y"

lemma siblings_frame:
  "siblings h c ts \<Longrightarrow> (\<And>a. a \<in> set (tree_addrs ts) \<Longrightarrow> same_links (h' a) (h a)) \<Longrightarrow> siblings h' c ts"
proof (induction h c ts rule: siblings.induct)
  case (2 h c a n ts)
  then obtain nd where nd: "h a = Some nd" "fn_type nd = RAM_FS_TYPE_FILE" "fn_name nd = n"
    "siblings h (fn_next nd) ts" by auto
  moreover have "same_links (h' a) (h a)" using "2.prems"(2) by simp
  ultimately show ?case using "2.IH" [of nd] "2.prems" by (auto simp: same_links_def)
next
  case (3 h c a n cs ts)
  then obtain nd where nd: "h a = Some nd" "fn_type nd = RAM_FS_TYPE_DIR" "fn_name nd = n"
    "siblings h (fn_first nd) cs" "siblings h (fn_next nd) ts" by auto
  moreover have "same_links (h' a) (h a)" using "3.prems"(2) by simp
  ultimately show ?case using "3.IH"(1) [of nd] "3.IH"(2) [of nd] "3.prems" by (auto simp: same_links_def)
qed simp

lemma siblings_dom: "siblings h c ts \<Longrightarrow> a \<in> set (tree_addrs ts) \<Longrightarrow> h a \<noteq> None \<and> a \<noteq> 0"
  by (induction h c ts rule: siblings.induct) auto

lemma same_links_refl [simp]: "same_links x x"
  by (simp add: same_links_def)

text \<open>The head of a list of siblings.\<close>

lemma siblings_cons:
  "siblings h c (t # ts) \<Longrightarrow> \<exists>nd. c = t_addr t \<and> c \<noteq> 0 \<and> h c = Some nd \<and> fn_name nd = t_name t \<and>
     siblings h (fn_next nd) ts \<and>
     (case t of File_node a n \<Rightarrow> fn_type nd = RAM_FS_TYPE_FILE
      | Dir_node a n cs \<Rightarrow> fn_type nd = RAM_FS_TYPE_DIR \<and> siblings h (fn_first nd) cs)"
  by (cases t) auto

lemma siblings_consI:
  "c = t_addr t \<Longrightarrow> c \<noteq> 0 \<Longrightarrow> h c = Some nd \<Longrightarrow> fn_name nd = t_name t \<Longrightarrow> siblings h (fn_next nd) ts \<Longrightarrow>
     (case t of File_node a n \<Rightarrow> fn_type nd = RAM_FS_TYPE_FILE
      | Dir_node a n cs \<Rightarrow> fn_type nd = RAM_FS_TYPE_DIR \<and> siblings h (fn_first nd) cs) \<Longrightarrow>
     siblings h c (t # ts)"
  by (cases t) auto

section \<open>Lookup\<close>

fun tree_find :: "fs_tree list \<Rightarrow> byte list list \<Rightarrow> fs_tree option" where
  "tree_find ts [] = None"
| "tree_find [] (w # ws) = None"
| "tree_find (t # ts) (w # ws) =
     (if t_name t = w then
        if ws = [] then Some t
        else case t of Dir_node a n cs \<Rightarrow> tree_find cs ws | File_node a n \<Rightarrow> None
      else tree_find ts (w # ws))"

definition addr_of :: "fs_tree option \<Rightarrow> addr" where
  "addr_of t = (case t of None \<Rightarrow> 0 | Some t \<Rightarrow> t_addr t)"

lemma addr_of_simps [simp]: "addr_of None = 0" "addr_of (Some t) = t_addr t"
  by (simp_all add: addr_of_def)

lemma lookup_loop_finds:
  "path_ok path (us @ ws) \<Longrightarrow> ws \<noteq> [] \<Longrightarrow> siblings h c ts \<Longrightarrow>
     lookup_loop h path (int (length us)) c = Some (addr_of (tree_find ts ws))"
proof (induction ts ws arbitrary: us c rule: tree_find.induct)
  case (1 ts)
  then show ?case by simp
next
  case (2 w ws)
  then show ?case by (subst lookup_loop.simps) simp
next
  case (3 t ts w ws)
  obtain nd where nd: "c = t_addr t" "c \<noteq> 0" "h c = Some nd" "fn_name nd = t_name t"
    "siblings h (fn_next nd) ts" "case t of File_node a n \<Rightarrow> fn_type nd = RAM_FS_TYPE_FILE
      | Dir_node a n cs \<Rightarrow> fn_type nd = RAM_FS_TYPE_DIR \<and> siblings h (fn_first nd) cs"
    using siblings_cons [OF "3.prems"(3)] by blast
  have "take (length (us @ w # ws)) (pn_components path) ! length us = w"
    "length us < length (pn_components path)"
    using "3.prems"(1) by (simp_all add: path_ok_def nth_append)
  then have comp: "peek (pn_components path) (int (length us)) = Some w" by simp
  have n: "pn_n_components path = int (length us) + 1 + int (length ws)"
    using "3.prems"(1) by (simp add: path_ok_def)
  note unfold = lookup_loop.simps [of h path "int (length us)" c]
  show ?case
  proof (cases "t_name t = w")
    case False
    then show ?thesis using nd comp "3.IH"(2) [of us "fn_next nd"] "3.prems" by (subst unfold) simp
  next
    case True
    show ?thesis
    proof (cases "ws = []")
      case True
      then show ?thesis using \<open>t_name t = w\<close> nd comp n by (subst unfold) simp
    next
      case ne: False
      show ?thesis
      proof (cases t)
        case (File_node a n)
        then show ?thesis using \<open>t_name t = w\<close> nd comp n ne by (subst unfold) simp
      next
        case (Dir_node a m cs)
        then have "lookup_loop h path (int (length (us @ [w]))) (fn_first nd) = Some (addr_of (tree_find cs ws))"
          using "3.IH"(1) [OF \<open>t_name t = w\<close> ne Dir_node, of "us @ [w]" "fn_first nd"] nd "3.prems"(1) ne
          by simp
        then show ?thesis using Dir_node \<open>t_name t = w\<close> nd comp n ne by (subst unfold) (simp add: add.commute)
      qed
    qed
  qed
qed

text \<open>The node under a path; the empty path is the root directory.\<close>

definition tree_at :: "addr \<Rightarrow> fs_tree list \<Rightarrow> byte list list \<Rightarrow> fs_tree option" where
  "tree_at root ts ws = (if ws = [] then Some (Dir_node root [] ts) else tree_find ts ws)"

lemma ram_fs_node_lookup_finds:
  assumes "path_ok path ws" "root \<noteq> 0" "h root = Some nd" "siblings h (fn_first nd) ts"
  shows "ram_fs_node_lookup h root path = Some (addr_of (tree_at root ts ws))"
  using assms lookup_loop_finds [of path "[]" ws h "fn_first nd" ts]
  by (auto simp: ram_fs_node_lookup_def ram_fs_node_lookup_at_def path_ok_def tree_at_def)

section \<open>Creation in the tree\<close>

text \<open>\<open>add_child ws new ts\<close> puts \<open>new\<close> behind the last node of the directory under \<open>ws\<close>.\<close>

fun add_child :: "byte list list \<Rightarrow> fs_tree \<Rightarrow> fs_tree list \<Rightarrow> fs_tree list" where
  "add_child [] new ts = ts @ [new]"
| "add_child (w # ws) new [] = []"
| "add_child (w # ws) new (t # ts) =
     (if t_name t = w then
        (case t of Dir_node a n cs \<Rightarrow> Dir_node a n (add_child ws new cs) | File_node a n \<Rightarrow> t) # ts
      else t # add_child (w # ws) new ts)"

definition new_node :: "ram_fs_node_type \<Rightarrow> addr \<Rightarrow> byte list \<Rightarrow> fs_tree" where
  "new_node type a n = (case type of RAM_FS_TYPE_FILE \<Rightarrow> File_node a n | RAM_FS_TYPE_DIR \<Rightarrow> Dir_node a n [])"

text \<open>
  Creation on the tree and the list of the free blocks. The parent is looked up, names must be
  new in their directory, and the first free block becomes the node.
\<close>

type_synonym fs_spec = "fs_tree list \<times> addr list"

definition tree_create :: "addr \<Rightarrow> ram_fs_node_type \<Rightarrow> byte list list \<Rightarrow> fs_spec \<Rightarrow> addr res \<times> fs_spec" where
  "tree_create root type ws st =
     (case tree_at root (fst st) (butlast ws) of
        None \<Rightarrow> (Inl ENOENT, st)
      | Some (File_node a n) \<Rightarrow> (Inl ENOTDIR, st)
      | Some (Dir_node a n cs) \<Rightarrow>
          if last ws \<in> t_name ` set cs then (Inl EEXIST, st)
          else case snd st of
              [] \<Rightarrow> (Inl ENOMEM, st)
            | b # bs \<Rightarrow> (Inr b, (add_child (butlast ws) (new_node type b (last ws)) (fst st), bs)))"

function tree_create_path :: "addr \<Rightarrow> bool \<Rightarrow> ram_fs_node_type \<Rightarrow> byte list list \<Rightarrow> fs_spec \<Rightarrow> addr res \<times> fs_spec" where
  "tree_create_path root recursive type ws st =
     (if ws = [] then (Inl EEXIST, st)
      else if tree_at root (fst st) (butlast ws) = None \<and> recursive then
        case tree_create_path root True RAM_FS_TYPE_DIR (butlast ws) st of
          (Inl e, st) \<Rightarrow> (Inl e, st)
        | (Inr _, st) \<Rightarrow> tree_create root type ws st
      else tree_create root type ws st)"
  by pat_completeness auto
termination
  by (relation "measure (\<lambda>(_, _, _, ws, _). length ws)") auto

declare tree_create_path.simps [simp del]

text \<open>Lookup after an insertion.\<close>

lemma tree_find_add_new:
  "tree_at root ts ws = Some (Dir_node a n cs) \<Longrightarrow> t_name new \<notin> t_name ` set cs \<Longrightarrow>
     tree_find (add_child ws new ts) (ws @ [t_name new]) = Some new"
proof (induction ws new ts arbitrary: root a n rule: add_child.induct)
  case (1 new ts)
  then have "t_name new \<notin> t_name ` set ts" by (simp add: tree_at_def)
  then show ?case by (induction ts) auto
next
  case (2 w ws new)
  then show ?case by (simp add: tree_at_def)
next
  case (3 w ws new t ts)
  show ?case
  proof (cases "t_name t = w")
    case False
    then show ?thesis using "3.IH"(2) [OF False] "3.prems" by (simp add: tree_at_def)
  next
    case True
    show ?thesis
    proof (cases t)
      case (File_node b m)
      then show ?thesis using True "3.prems" by (cases ws) (auto simp: tree_at_def)
    next
      case (Dir_node b m ds)
      have "tree_at b ds ws = Some (Dir_node (if ws = [] then b else a) (if ws = [] then [] else n) cs)"
        using "3.prems"(1) True Dir_node by (cases ws) (auto simp: tree_at_def)
      then show ?thesis using "3.IH"(1) [OF True Dir_node] "3.prems" True Dir_node
        by (cases ws) (auto simp: tree_at_def)
    qed
  qed
qed

text \<open>Nodes that were there stay where they are; a directory may have got one more child.\<close>

lemma tree_find_add_old:
  "tree_find ts us = Some t \<Longrightarrow> \<exists>t'. tree_find (add_child ws new ts) us = Some t' \<and>
     t_addr t' = t_addr t \<and> t_name t' = t_name t \<and>
     ((\<exists>a n. t = File_node a n) \<longrightarrow> t' = t) \<and> ((\<exists>a n cs. t = Dir_node a n cs) \<longrightarrow> (\<exists>a n cs. t' = Dir_node a n cs))"
proof (induction ws new ts arbitrary: us rule: add_child.induct)
  case (1 new ts)
  then have "tree_find (ts @ [new]) us = Some t"
    by (induction ts us rule: tree_find.induct) (auto split: if_splits fs_tree.splits)
  then show ?case by simp
next
  case (2 w ws new)
  then show ?case by simp
next
  case (3 w ws new s ts)
  then obtain u vs where us: "us = u # vs" by (cases us) auto
  show ?case
  proof (cases "t_name s = u")
    case False
    then show ?thesis using "3.IH"(2) [of us] "3.prems" us
      by (cases s) auto
  next
    case True
    then show ?thesis using "3.IH"(1) [of _ _ _ vs] "3.prems" us
      by (cases s; cases vs) (auto split: if_splits)
  qed
qed

section \<open>Creation in the heap\<close>

text \<open>
  The state of a file system that represents a tree: the root is a directory whose nodes are
  \<open>ts\<close>, no address is used twice, and the blocks \<open>bs\<close> are free.
\<close>

definition fs_ok :: "addr \<Rightarrow> 'a ram_fs \<Rightarrow> fs_spec \<Rightarrow> bool" where
  "fs_ok root rfs st \<longleftrightarrow> root \<noteq> 0 \<and>
     (\<exists>nd. rf_nodes rfs root = Some nd \<and> fn_type nd = RAM_FS_TYPE_DIR \<and>
       siblings (rf_nodes rfs) (fn_first nd) (fst st)) \<and>
     distinct (root # tree_addrs (fst st) @ snd st) \<and>
     free_blocks (rf_words rfs) (rf_node_alloc rfs) (snd st)"

lemma has_conflict_iff:
  "siblings h c ts \<Longrightarrow> has_conflict h n c = Some (n \<in> t_name ` set ts)"
proof (induction ts arbitrary: c)
  case Nil
  then show ?case by (subst has_conflict.simps) simp
next
  case (Cons t ts)
  obtain nd where "c = t_addr t" "c \<noteq> 0" "h c = Some nd" "fn_name nd = t_name t" "siblings h (fn_next nd) ts"
    using siblings_cons [OF Cons.prems] by blast
  then show ?case using Cons.IH [of "fn_next nd"] by (subst has_conflict.simps) auto
qed

lemma siblings_head: "siblings h c ts \<Longrightarrow> c = (case ts of [] \<Rightarrow> 0 | t # _ \<Rightarrow> t_addr t)"
  by (cases ts; cases "hd ts") auto

lemma t_addr_in: "t \<in> set ts \<Longrightarrow> t_addr t \<in> set (tree_addrs ts)"
  by (induction ts rule: tree_addrs.induct) auto

lemma last_node_eq:
  "siblings h c (ts @ [t]) \<Longrightarrow> last_node h c = Some (t_addr t)"
proof (induction ts arbitrary: c)
  case Nil
  then obtain nd where "c = t_addr t" "h c = Some nd" "fn_next nd = 0"
    using siblings_cons [of h c t "[]"] by auto
  then show ?case by (subst last_node.simps) simp
next
  case (Cons u ts)
  then obtain nd where nd: "c = t_addr u" "h c = Some nd" "siblings h (fn_next nd) (ts @ [t])"
    using siblings_cons [of h c u "ts @ [t]"] by auto
  have "fn_next nd \<noteq> 0"
    using siblings_head [OF nd(3)] siblings_dom [OF nd(3)] t_addr_in [of _ "ts @ [t]"]
    by (cases ts) auto
  then show ?case using nd Cons.IH [OF nd(3)] by (subst last_node.simps) simp
qed

lemma tree_addrs_append [simp]: "tree_addrs (ts @ us) = tree_addrs ts @ tree_addrs us"
  by (induction ts rule: tree_addrs.induct) auto

text \<open>Appending a node to a list of siblings, and to a directory.\<close>

lemma siblings_snoc:
  "siblings h c (ts @ [t]) \<Longrightarrow> siblings h b [new] \<Longrightarrow> distinct (tree_addrs (ts @ [t])) \<Longrightarrow>
   set (tree_addrs [new]) \<inter> set (tree_addrs (ts @ [t])) = {} \<Longrightarrow> h (t_addr t) = Some nd \<Longrightarrow>
     siblings (h(t_addr t \<mapsto> nd\<lparr>fn_next := b\<rparr>)) c (ts @ [t, new])"
proof (induction ts arbitrary: c)
  case Nil
  define g where "g = h(t_addr t \<mapsto> nd\<lparr>fn_next := b\<rparr>)"
  have t: "c = t_addr t" "c \<noteq> 0" "fn_name nd = t_name t" "siblings h (fn_next nd) []"
    "case t of File_node a n \<Rightarrow> fn_type nd = RAM_FS_TYPE_FILE
      | Dir_node a n cs \<Rightarrow> fn_type nd = RAM_FS_TYPE_DIR \<and> siblings h (fn_first nd) cs"
    using siblings_cons [of h c t "[]"] Nil.prems(1,5) by auto
  have new: "siblings g b [new]"
    by (rule siblings_frame [OF Nil.prems(2)]) (use Nil.prems(4) t_addr_in [of t "[t]"] in \<open>auto simp: g_def\<close>)
  have kids: "siblings g (fn_first nd) cs" if "t = Dir_node a n cs" for a n cs
    by (rule siblings_frame [of h]) (use t(5) that Nil.prems(3) in \<open>auto simp: g_def\<close>)
  have "g c = Some (nd\<lparr>fn_next := b\<rparr>)" using t(1) by (simp add: g_def)
  then have "siblings g c [t, new]"
    by (rule siblings_consI [OF t(1,2)]) (use t new kids in \<open>auto split: fs_tree.splits\<close>)
  then show ?case unfolding g_def append_Nil .
next
  case (Cons u ts)
  define g where "g = h(t_addr t \<mapsto> nd\<lparr>fn_next := b\<rparr>)"
  obtain ud where u: "c = t_addr u" "c \<noteq> 0" "h c = Some ud" "fn_name ud = t_name u"
    "siblings h (fn_next ud) (ts @ [t])"
    "case u of File_node a n \<Rightarrow> fn_type ud = RAM_FS_TYPE_FILE
      | Dir_node a n cs \<Rightarrow> fn_type ud = RAM_FS_TYPE_DIR \<and> siblings h (fn_first ud) cs"
    using siblings_cons [of h c u "ts @ [t]"] Cons.prems(1) by auto
  have apart: "t_addr t \<notin> set (tree_addrs [u])"
    using Cons.prems(3) t_addr_in [of t "[t]"] by (cases u) auto
  then have "t_addr t \<noteq> t_addr u" using t_addr_in [of u "[u]"] by auto
  then have hc: "g c = Some ud" using u by (simp add: g_def)
  have kids: "siblings g (fn_first ud) cs" if "u = Dir_node a n cs" for a n cs
    by (rule siblings_frame [of h]) (use u(6) that apart in \<open>auto simp: g_def\<close>)
  have "siblings g (fn_next ud) (ts @ [t, new])"
    unfolding g_def by (rule Cons.IH [OF u(5) Cons.prems(2)]) (use Cons.prems in \<open>cases u; auto\<close>)+
  then have "siblings g c (u # ts @ [t, new])"
    by (rule siblings_consI [where h = g and t = u, OF u(1,2) hc u(4)]) (use u(6) kids in \<open>auto split: fs_tree.splits\<close>)
  then show ?case unfolding g_def append_Cons .
qed

definition same_but_first :: "ram_fs_node \<Rightarrow> ram_fs_node \<Rightarrow> bool" where
  "same_but_first x y \<longleftrightarrow> fn_next x = fn_next y \<and> fn_type x = fn_type y \<and> fn_name x = fn_name y"

lemma link_node_ok:
  assumes "h p = Some pd" "siblings h (fn_first pd) cs" "siblings h b [new]" "t_addr new = b"
    and "distinct (p # tree_addrs cs)" "set (tree_addrs [new]) \<inter> set (p # tree_addrs cs) = {}"
  shows "\<exists>h' pd'. link_node h p b = Some h' \<and> h' p = Some pd' \<and> same_but_first pd' pd \<and>
    siblings h' (fn_first pd') (cs @ [new]) \<and> (\<forall>x. x \<notin> set (p # tree_addrs cs) \<longrightarrow> h' x = h x)"
proof (cases cs rule: rev_cases)
  case Nil
  then have "fn_first pd = 0" using assms(2) by simp
  then have "link_node h p b = Some (h(p \<mapsto> pd\<lparr>fn_first := b\<rparr>))"
    using assms(1) by (simp add: link_node_def)
  moreover have "siblings (h(p \<mapsto> pd\<lparr>fn_first := b\<rparr>)) b [new]"
    by (rule siblings_frame [OF assms(3)]) (use assms(6) in auto)
  ultimately show ?thesis using Nil by (auto simp: same_but_first_def)
next
  case (snoc ts t)
  have "fn_first pd \<noteq> 0"
    using siblings_head [OF assms(2)] siblings_dom [OF assms(2)] t_addr_in [of _ cs] snoc
    by (cases ts) auto
  moreover have last: "last_node h (fn_first pd) = Some (t_addr t)"
    using last_node_eq assms(2) snoc by blast
  obtain nd where nd: "h (t_addr t) = Some nd"
    using siblings_dom [OF assms(2), of "t_addr t"] t_addr_in [of t cs] snoc by auto
  ultimately have 1: "link_node h p b = Some (h(t_addr t \<mapsto> nd\<lparr>fn_next := b\<rparr>))"
    using assms(1) nd last by (simp add: link_node_def)
  have 2: "siblings (h(t_addr t \<mapsto> nd\<lparr>fn_next := b\<rparr>)) (fn_first pd) (cs @ [new])"
    using siblings_snoc [of h "fn_first pd" ts t b new nd] assms snoc nd by auto
  have "t_addr t \<in> set (tree_addrs cs)" using t_addr_in [of t cs] snoc by simp
  then have "t_addr t \<noteq> p" "\<forall>x. x \<notin> set (p # tree_addrs cs) \<longrightarrow> (h(t_addr t \<mapsto> nd\<lparr>fn_next := b\<rparr>)) x = h x"
    using assms(5) by auto
  then show ?thesis using 1 2 assms(1) by (auto simp: same_but_first_def)
qed

lemma tree_addrs_cons: "set (tree_addrs (t # ts)) = set (tree_addrs [t]) \<union> set (tree_addrs ts)"
  by (cases t) auto

lemma tree_find_addrs:
  "tree_find ts ws = Some (Dir_node p n cs) \<Longrightarrow> set (p # tree_addrs cs) \<subseteq> set (tree_addrs ts)"
proof (induction ts ws rule: tree_find.induct)
  case (3 t ts w ws)
  then show ?case using tree_addrs_cons [of t ts]
    by (cases t) (auto split: if_splits)
qed auto

lemma tree_find_distinct:
  "tree_find ts ws = Some (Dir_node p n cs) \<Longrightarrow> distinct (tree_addrs ts) \<Longrightarrow> distinct (p # tree_addrs cs)"
proof (induction ts ws rule: tree_find.induct)
  case (3 t ts w ws)
  then show ?case by (cases t) (auto split: if_splits)
qed auto

text \<open>The change of one directory seen from the list of siblings that it is in or below.\<close>

lemma siblings_add_child:
  "siblings h c ts \<Longrightarrow> ws \<noteq> [] \<Longrightarrow> tree_find ts ws = Some (Dir_node p n cs) \<Longrightarrow> distinct (tree_addrs ts) \<Longrightarrow>
   h p = Some pd \<Longrightarrow> h' p = Some pd' \<Longrightarrow> same_but_first pd' pd \<Longrightarrow> siblings h' (fn_first pd') (cs @ [new]) \<Longrightarrow>
   (\<forall>x. x \<notin> set (p # tree_addrs cs) \<longrightarrow> h' x = h x) \<Longrightarrow> siblings h' c (add_child ws new ts)"
proof (induction ws new ts arbitrary: c rule: add_child.induct)
  case (3 w ws new t ts)
  obtain nd where t: "c = t_addr t" "c \<noteq> 0" "h c = Some nd" "fn_name nd = t_name t" "siblings h (fn_next nd) ts"
    "case t of File_node a n \<Rightarrow> fn_type nd = RAM_FS_TYPE_FILE
      | Dir_node a n cs \<Rightarrow> fn_type nd = RAM_FS_TYPE_DIR \<and> siblings h (fn_first nd) cs"
    using siblings_cons [OF "3.prems"(1)] by blast
  note inside = tree_find_addrs
  show ?case
  proof (cases "t_name t = w")
    case False
    then have f: "tree_find ts (w # ws) = Some (Dir_node p n cs)" using "3.prems"(3) by simp
    have "siblings h' (fn_next nd) (add_child (w # ws) new ts)"
      by (rule "3.IH"(2) [OF False t(5)]) (use f "3.prems" in \<open>cases t; auto\<close>)+
    moreover have same: "h' x = h x" if "x \<in> set (tree_addrs [t])" for x
    proof -
      have "set (tree_addrs [t]) \<inter> set (tree_addrs ts) = {}" using "3.prems"(4) by (cases t) auto
      then have "x \<notin> set (p # tree_addrs cs)" using inside [OF f] that by blast
      then show ?thesis using "3.prems"(9) by blast
    qed
    moreover have "siblings h' (fn_first nd) ds" if "t = Dir_node a m ds" for a m ds
      by (rule siblings_frame [of h]) (use t(6) that same in auto)
    moreover have "h' c = Some nd" using same t(1,3) t_addr_in [of t "[t]"] by simp
    ultimately show ?thesis using False t by (cases t) auto
  next
    case True
    show ?thesis
    proof (cases t)
      case (File_node a m)
      then show ?thesis using True "3.prems"(3) by (auto split: if_splits)
    next
      case (Dir_node a m ds)
      have nd: "h a = Some nd" "c = a" "fn_type nd = RAM_FS_TYPE_DIR" "siblings h (fn_first nd) ds"
        using t Dir_node by auto
      show ?thesis
      proof (cases "ws = []")
        case True
        then have eq: "p = a" "n = m" "cs = ds" using "3.prems"(3) \<open>t_name t = w\<close> Dir_node by auto
        have "siblings h' (fn_next pd') ts"
          by (rule siblings_frame [of h])
            (use t(5) nd(1) "3.prems"(4,5,7,9) Dir_node eq in \<open>auto simp: same_but_first_def\<close>)
        then show ?thesis using True \<open>t_name t = w\<close> Dir_node eq "3.prems"(5-8) nd t(2,4)
          by (auto simp: same_but_first_def)
      next
        case False
        then have f: "tree_find ds ws = Some (Dir_node p n cs)"
          using "3.prems"(3) Dir_node \<open>t_name t = w\<close> by simp
        have "siblings h' (fn_first nd) (add_child ws new ds)"
          by (rule "3.IH"(1) [OF \<open>t_name t = w\<close> Dir_node nd(4) False f])
            (use "3.prems" Dir_node in auto)
        moreover have "h' x = h x" if "x \<in> set (tree_addrs ts)" for x
        proof -
          have "set (tree_addrs ds) \<inter> set (tree_addrs ts) = {}" using "3.prems"(4) Dir_node by simp
          then have "x \<notin> set (p # tree_addrs cs)" using inside [OF f] that by blast
          then show ?thesis using "3.prems"(9) by blast
        qed
        then have "siblings h' (fn_next nd) ts" using siblings_frame [OF t(5)] by simp
        moreover note this
        moreover have "h' a = h a" using inside [OF f] "3.prems"(4,9) Dir_node by auto
        ultimately show ?thesis using \<open>t_name t = w\<close> Dir_node nd t(2,4) by auto
      qed
    qed
  qed
qed auto

lemma tree_addrs_add_child:
  "tree_at root ts ws = Some (Dir_node p n cs) \<Longrightarrow>
     mset (tree_addrs (add_child ws new ts)) = mset (tree_addrs ts) + mset (tree_addrs [new])"
proof (induction ws new ts arbitrary: root p n rule: add_child.induct)
  case (3 w ws new t ts)
  show ?case
  proof (cases "t_name t = w")
    case False
    then show ?thesis using "3.IH"(2) [OF False, of root] "3.prems"
      by (cases t) (auto simp: tree_at_def)
  next
    case True
    then show ?thesis
    proof (cases t)
      case (File_node b m)
      then show ?thesis using True "3.prems" by (cases ws) (auto simp: tree_at_def)
    next
      case (Dir_node b m ds)
      have "tree_at b ds ws = Some (Dir_node (if ws = [] then b else p) (if ws = [] then [] else n) cs)"
        using "3.prems"(1) True Dir_node by (cases ws) (auto simp: tree_at_def)
      then show ?thesis using "3.IH"(1) [OF True Dir_node] True Dir_node by auto
    qed
  qed
qed (auto simp: tree_at_def)

end
