(* ===== verification/RamCreate.thy ===== *)
theory RamCreate
  imports RamTree
begin

text \<open>
  Creation of files and directories (src/ramfs.c) implements insertion in the tree of RamTree, for
  every path, every error and every depth that fits the scratch arena; opening implements lookup.
  The last section shows what happens on a path that does not fit.
\<close>

section \<open>Allocators that serve requests\<close>

text \<open>\<open>serves f k s\<close>: in state \<open>s\<close> the next \<open>k\<close> requests of at most a page succeed.\<close>

primrec serves :: "('a \<Rightarrow> sz \<Rightarrow> sz \<Rightarrow> (addr option \<times> 'a) option) \<Rightarrow> nat \<Rightarrow> 'a \<Rightarrow> bool" where
  "serves f 0 s \<longleftrightarrow> True"
| "serves f (Suc k) s \<longleftrightarrow> (\<forall>n. 0 < n \<and> n \<le> 0x1000 \<longrightarrow>
     (\<exists>p s'. f s n 8 = Some (Some p, s') \<and> p \<noteq> 0 \<and> serves f k s'))"

lemma serves_less: "serves f (Suc k) s \<Longrightarrow> serves f k s"
proof (induction k arbitrary: s)
  case (Suc k)
  then show ?case unfolding serves.simps(2) [of f "Suc k"] serves.simps(2) [of f k] by meson
qed simp

definition al_serves :: "nat \<Rightarrow> 'a alloc \<Rightarrow> bool" where
  "al_serves k a \<longleftrightarrow> serves (al_alloc a) k (al_ptr a)"

lemma al_serves_less: "al_serves (Suc k) a \<Longrightarrow> al_serves k a"
  by (simp add: al_serves_def serves_less del: serves.simps)

lemma al_serves_mono: "al_serves n a \<Longrightarrow> k \<le> n \<Longrightarrow> al_serves k a"
  by (induction n) (auto simp: le_Suc_eq dest: al_serves_less)

lemma alloc_alloc_served:
  assumes "al_serves (Suc k) a" "0 < n" "n \<le> 0x1000"
  shows "\<exists>p a'. alloc_alloc a n 8 = Some (Some p, a') \<and> p \<noteq> 0 \<and> al_serves k a'"
  using assms by (fastforce simp: al_serves_def alloc_alloc_def)

section \<open>One node\<close>

definition blank_node :: "ram_fs_node_type \<Rightarrow> byte list \<Rightarrow> ram_fs_node" where
  "blank_node type name = \<lparr>fn_first = 0, fn_next = 0, fn_type = type, fn_name = name,
     fn_data_ptr = 0, fn_data = no_data\<rparr>"

lemma ram_fs_node_alloc_ok:
  assumes "free_blocks (rf_words rfs) (rf_node_alloc rfs) (b # bs)" "al_serves (Suc k) (rf_data_alloc rfs)"
    and "name \<noteq> []" "int (length name) \<le> 0x1000"
  shows "\<exists>rfs'. ram_fs_node_alloc rfs name type = Some (b, rfs') \<and> b \<noteq> 0 \<and>
    rf_nodes rfs' = (rf_nodes rfs)(b \<mapsto> blank_node type name) \<and> rf_scratch rfs' = rf_scratch rfs \<and>
    free_blocks (rf_words rfs') (rf_node_alloc rfs') bs \<and> al_serves k (rf_data_alloc rfs')"
proof -
  obtain m pl where pl: "pool_alloc (rf_words rfs) (rf_node_alloc rfs) = Some (b, m, pl)" "free_blocks m pl bs"
    using pool_alloc_cons [OF assms(1)] by auto
  have b: "b \<noteq> 0" using free_blocks_nonzero [OF assms(1)] by auto
  obtain p al where al: "alloc_alloc (rf_data_alloc rfs) (int (length name)) 8 = Some (Some p, al)"
    "al_serves k al"
    using alloc_alloc_served [OF assms(2), of "int (length name)"] assms(3,4) by auto
  obtain nb where nb: "str_buf_append (byte_buf_new (fresh_bytes al p (int (length name))) 0 (int (length name))) name
      = Some (ok, nb)" "byte_view_from_buf nb = name"
    using str_buf_append_ok [of "byte_buf_new (fresh_bytes al p (int (length name))) 0 (int (length name))" name]
    by (auto simp: byte_buf_new_def wf_buf_def fresh_bytes_def byte_view_from_buf_def)
  show ?thesis using pl al nb b by (simp add: ram_fs_node_alloc_def blank_node_def)
qed

lemma ram_fs_node_alloc_full:
  "free_blocks (rf_words rfs) (rf_node_alloc rfs) [] \<Longrightarrow> ram_fs_node_alloc rfs name type = Some (0, rfs)"
  by (simp add: ram_fs_node_alloc_def pool_alloc_nil)

lemma link_node_data:
  "link_node h p b = Some h' \<Longrightarrow> h x = Some nd \<Longrightarrow>
     \<exists>nd'. h' x = Some nd' \<and> fn_data nd' = fn_data nd \<and> fn_data_ptr nd' = fn_data_ptr nd"
  by (auto simp: link_node_def bind_eq_Some_conv split: if_splits)

text \<open>A node of the tree in the heap.\<close>

lemma tree_find_heap:
  "siblings h c ts \<Longrightarrow> tree_find ts ws = Some t \<Longrightarrow> \<exists>nd. h (t_addr t) = Some nd \<and> t_addr t \<noteq> 0 \<and>
     (case t of File_node a n \<Rightarrow> fn_type nd = RAM_FS_TYPE_FILE
      | Dir_node a n cs \<Rightarrow> fn_type nd = RAM_FS_TYPE_DIR \<and> siblings h (fn_first nd) cs)"
proof (induction ts ws arbitrary: c rule: tree_find.induct)
  case (3 t ts w ws)
  then show ?case using siblings_cons [OF "3.prems"(1)]
    by (cases t) (auto split: if_splits)
qed auto

lemma tree_at_heap:
  assumes "fs_ok root rfs st" "tree_at root (fst st) ws = Some t"
  shows "\<exists>nd. rf_nodes rfs (t_addr t) = Some nd \<and> t_addr t \<noteq> 0 \<and>
     (case t of File_node a n \<Rightarrow> fn_type nd = RAM_FS_TYPE_FILE
      | Dir_node a n cs \<Rightarrow> fn_type nd = RAM_FS_TYPE_DIR \<and> siblings (rf_nodes rfs) (fn_first nd) cs)"
proof (cases "ws = []")
  case True
  then show ?thesis using assms by (auto simp: tree_at_def fs_ok_def)
next
  case False
  then show ?thesis using assms tree_find_heap by (fastforce simp: tree_at_def fs_ok_def)
qed

section \<open>Creation in a directory\<close>

text \<open>What creation keeps: the data of all nodes, and the scratch arena.\<close>

definition keeps :: "fs_spec \<Rightarrow> 'a ram_fs \<Rightarrow> 'a ram_fs \<Rightarrow> bool" where
  "keeps st rfs rfs' \<longleftrightarrow> rf_scratch rfs' = rf_scratch rfs \<and>
     (\<forall>x nd. rf_nodes rfs x = Some nd \<and> x \<notin> set (snd st) \<longrightarrow>
       (\<exists>nd'. rf_nodes rfs' x = Some nd' \<and> fn_data nd' = fn_data nd \<and> fn_data_ptr nd' = fn_data_ptr nd))"

lemma keeps_refl [simp]: "keeps st rfs rfs"
  by (simp add: keeps_def)

lemma new_node_simps [simp]: "t_addr (new_node type b n) = b" "t_name (new_node type b n) = n"
  "tree_addrs [new_node type b n] = [b]"
  by (cases type; simp add: new_node_def)+

lemma siblings_new_node: "b \<noteq> 0 \<Longrightarrow> h b = Some (blank_node type n) \<Longrightarrow> siblings h b [new_node type b n]"
  by (cases type) (auto simp: new_node_def blank_node_def)

text \<open>Linking a fresh node into a directory extends the tree.\<close>

lemma fs_ok_link:
  assumes ok: "fs_ok root rfs (ts, b # bs)" and at: "tree_at root ts ws = Some (Dir_node p n cs)"
    and h: "rf_nodes rfs' = (rf_nodes rfs)(b \<mapsto> blank_node type name)" and b: "b \<noteq> 0"
    and free: "free_blocks (rf_words rfs') (rf_node_alloc rfs') bs"
  shows "\<exists>h'. link_node (rf_nodes rfs') p b = Some h' \<and>
    fs_ok root (rfs'\<lparr>rf_nodes := h'\<rparr>) (add_child ws (new_node type b name) ts, bs)"
proof -
  let ?new = "new_node type b name" and ?h = "rf_nodes rfs'"
  obtain rd where rd: "rf_nodes rfs root = Some rd" "fn_type rd = RAM_FS_TYPE_DIR"
    "siblings (rf_nodes rfs) (fn_first rd) ts" and dis: "distinct (root # tree_addrs ts @ b # bs)" "root \<noteq> 0"
    using ok by (auto simp: fs_ok_def)
  have rd': "?h root = Some rd" using rd dis h by auto
  have sib: "siblings ?h (fn_first rd) ts"
    by (rule siblings_frame [OF rd(3)]) (use dis h in auto)
  have new: "siblings ?h b [?new]" using b h by (simp add: siblings_new_node)
  obtain pd where pd: "?h p = Some pd" "siblings ?h (fn_first pd) cs"
    and in_tree: "set (p # tree_addrs cs) \<subseteq> set (root # tree_addrs ts)" and dcs: "distinct (p # tree_addrs cs)"
  proof (cases "ws = []")
    case True
    then show ?thesis using at rd' sib dis that by (auto simp: tree_at_def)
  next
    case False
    then have f: "tree_find ts ws = Some (Dir_node p n cs)" using at by (simp add: tree_at_def)
    have "distinct (tree_addrs ts)" using dis by simp
    then have "distinct (p # tree_addrs cs)" using f tree_find_distinct by blast
    then show ?thesis using tree_find_heap [OF sib f] tree_find_addrs [OF f] that by auto
  qed
  have "set (tree_addrs [?new]) \<inter> set (p # tree_addrs cs) = {}" using in_tree dis by auto
  then obtain h' pd' where l: "link_node ?h p b = Some h'" "h' p = Some pd'" "same_but_first pd' pd"
    "siblings h' (fn_first pd') (cs @ [?new])" "\<forall>x. x \<notin> set (p # tree_addrs cs) \<longrightarrow> h' x = ?h x"
    using link_node_ok [OF pd new _ dcs] by auto
  have root: "\<exists>nd. h' root = Some nd \<and> fn_type nd = RAM_FS_TYPE_DIR \<and>
      siblings h' (fn_first nd) (add_child ws ?new ts)"
  proof (cases "ws = []")
    case True
    then have "p = root" "cs = ts" "pd = rd" using at pd rd' by (auto simp: tree_at_def)
    then show ?thesis using l rd True by (auto simp: same_but_first_def)
  next
    case False
    then have f: "tree_find ts ws = Some (Dir_node p n cs)" using at by (simp add: tree_at_def)
    have "siblings h' (fn_first rd) (add_child ws ?new ts)"
      by (rule siblings_add_child [OF sib False f _ pd(1) l(2-5)]) (use dis in simp)
    moreover have "root \<notin> set (p # tree_addrs cs)" using tree_find_addrs [OF f] dis by auto
    ultimately show ?thesis using rd rd' l(5) by auto
  qed
  have "mset (root # tree_addrs (add_child ws ?new ts) @ bs) = mset (root # tree_addrs ts @ b # bs)"
    using tree_addrs_add_child [OF at, of ?new] by simp
  then have "distinct (root # tree_addrs (add_child ws ?new ts) @ bs)"
    using dis(1) mset_eq_imp_distinct_iff by blast
  then show ?thesis using l(1) root free dis(2) by (auto simp: fs_ok_def)
qed

lemma create_in_ok:
  fixes type :: ram_fs_node_type
  assumes ok: "fs_ok root rfs st" and al: "al_serves (Suc k) (rf_data_alloc rfs)"
    and at: "tree_at root (fst st) ws = Some t" and name: "name \<noteq> []" "int (length name) \<le> 0x1000"
  defines "r \<equiv> tree_create root type (ws @ [name]) st"
  shows "\<exists>rfs'. create_in (t_addr t) name type rfs = Some (fst r, rfs') \<and> fs_ok root rfs' (snd r) \<and>
    al_serves k (rf_data_alloc rfs') \<and> keeps st rfs rfs'"
proof -
  obtain nd where nd: "rf_nodes rfs (t_addr t) = Some nd" "case t of File_node a n \<Rightarrow> fn_type nd = RAM_FS_TYPE_FILE
      | Dir_node a n cs \<Rightarrow> fn_type nd = RAM_FS_TYPE_DIR \<and> siblings (rf_nodes rfs) (fn_first nd) cs"
    using tree_at_heap [OF ok at] by blast
  show ?thesis
  proof (cases t)
    case (File_node a n)
    then show ?thesis using nd ok al_serves_less [OF al] at by (simp add: create_in_def r_def tree_create_def)
  next
    case (Dir_node a n cs)
    have conf: "has_conflict (rf_nodes rfs) name (fn_first nd) = Some (name \<in> t_name ` set cs)"
      using has_conflict_iff nd(2) Dir_node by simp
    show ?thesis
    proof (cases "name \<in> t_name ` set cs")
      case True
      then show ?thesis using nd conf Dir_node ok al_serves_less [OF al] at
        by (simp add: create_in_def r_def tree_create_def)
    next
      case new: False
      obtain ts free where st: "st = (ts, free)" by (cases st)
      show ?thesis
      proof (cases free)
        case Nil
        then have "ram_fs_node_alloc rfs name type = Some (0, rfs)"
          using ok st by (intro ram_fs_node_alloc_full) (simp add: fs_ok_def)
        then show ?thesis using nd conf Dir_node ok al_serves_less [OF al] at new st Nil
          by (simp add: create_in_def r_def tree_create_def)
      next
        case (Cons b bs)
        have fb: "free_blocks (rf_words rfs) (rf_node_alloc rfs) (b # bs)"
          using ok st Cons by (simp add: fs_ok_def)
        obtain rfs1 where 1: "ram_fs_node_alloc rfs name type = Some (b, rfs1)" "b \<noteq> 0"
          "rf_nodes rfs1 = (rf_nodes rfs)(b \<mapsto> blank_node type name)" "rf_scratch rfs1 = rf_scratch rfs"
          "free_blocks (rf_words rfs1) (rf_node_alloc rfs1) bs" "al_serves k (rf_data_alloc rfs1)"
          using ram_fs_node_alloc_ok [OF fb al name] by blast
        obtain h' where h': "link_node (rf_nodes rfs1) a b = Some h'"
          "fs_ok root (rfs1\<lparr>rf_nodes := h'\<rparr>) (add_child ws (new_node type b name) ts, bs)"
          using fs_ok_link [of root rfs ts b bs ws a n cs rfs1 type name] ok at st Cons Dir_node 1 by auto
        have "keeps st rfs (rfs1\<lparr>rf_nodes := h'\<rparr>)"
          using link_node_data [OF h'(1)] 1(3,4) st Cons by (auto simp: keeps_def)
        then show ?thesis using 1 h' nd conf Dir_node at new st Cons
          by (simp add: create_in_def r_def tree_create_def)
      qed
    qed
  qed
qed

section \<open>Creation under a path\<close>

text \<open>
  The number of proper prefixes of a path that do not exist, and the room that this many recursive
  calls need in the scratch arena.
\<close>

definition missing :: "addr \<Rightarrow> fs_tree list \<Rightarrow> byte list list \<Rightarrow> nat" where
  "missing root ts ws = length (filter (\<lambda>k. tree_at root ts (take k ws) = None) [0 ..< length ws])"

definition create_room :: "nat \<Rightarrow> byte list \<Rightarrow> arena \<Rightarrow> bool" where
  "create_room m nodepath arn \<longleftrightarrow> (int m + 1) * (9 * int (length nodepath) + 32) + int m * 0x1008
     \<le> ar_end arn - ar_beg arn"

lemma create_room_parse: "create_room m nodepath arn \<Longrightarrow> parse_room nodepath arn"
proof -
  have "L \<le> R" if "(M + 1) * L + M * 0x1008 \<le> R" "0 \<le> M" "0 \<le> L" for L M R :: int
  proof -
    have "0 \<le> M * L" using that by simp
    moreover have "(M + 1) * L = M * L + L" by (simp add: distrib_right)
    ultimately show ?thesis using that by linarith
  qed
  from this [of "int m" "9 * int (length nodepath) + 32" "ar_end arn - ar_beg arn"]
  show "create_room m nodepath arn \<Longrightarrow> parse_room nodepath arn"
    by (simp add: create_room_def parse_room_def)
qed

lemma missing_snoc:
  "missing root ts (ws @ [w]) = missing root ts ws + (if tree_at root ts ws = None then 1 else 0)"
proof -
  have "filter (\<lambda>k. tree_at root ts (take k (ws @ [w])) = None) [0 ..< length ws] =
      filter (\<lambda>k. tree_at root ts (take k ws) = None) [0 ..< length ws]"
    by (rule filter_cong) auto
  then show ?thesis by (simp add: missing_def)
qed

lemma tree_create_at:
  "tree_create root type ws st = (Inr a, st') \<Longrightarrow> ws \<noteq> [] \<Longrightarrow>
     tree_at root (fst st') ws = Some (new_node type a (last ws))"
  using tree_find_add_new [of root "fst st" "butlast ws" _ _ _ "new_node type a (last ws)"]
  by (auto simp: tree_create_def tree_at_def split: option.splits fs_tree.splits if_splits list.splits)

lemma tree_create_path_at:
  "tree_create_path root rec type ws st = (Inr a, st') \<Longrightarrow>
     ws \<noteq> [] \<and> tree_at root (fst st') ws = Some (new_node type a (last ws))"
  by (subst (asm) tree_create_path.simps)
    (auto split: if_splits prod.splits sum.splits intro: tree_create_at)

lemma tree_create_blocks: "set (snd (snd (tree_create root type ws st))) \<subseteq> set (snd st)"
  by (auto simp: tree_create_def split: option.splits fs_tree.splits list.splits)

lemma tree_create_path_blocks: "set (snd (snd (tree_create_path root rec type ws st))) \<subseteq> set (snd st)"
proof (induction root rec type ws st rule: tree_create_path.induct)
  case (1 root rec type ws st)
  obtain r st1 where r: "tree_create_path root True RAM_FS_TYPE_DIR (butlast ws) st = (r, st1)"
    by (metis surj_pair)
  show ?case
  proof (cases "ws \<noteq> [] \<and> tree_at root (fst st) (butlast ws) = None \<and> rec")
    case True
    then have "set (snd st1) \<subseteq> set (snd st)" using "1.IH" r by simp
    then show ?thesis using r tree_create_blocks [of root type ws st1] True
      by (subst tree_create_path.simps) (auto split: sum.splits)
  next
    case False
    then show ?thesis using tree_create_blocks [of root type ws st]
      by (subst tree_create_path.simps) auto
  qed
qed

lemma keeps_trans:
  "keeps st a b \<Longrightarrow> keeps st' b c \<Longrightarrow> set (snd st') \<subseteq> set (snd st) \<Longrightarrow> keeps st a c"
  unfolding keeps_def by (metis subset_iff)

lemma ram_fs_create_common_ok:
  assumes "fs_ok root rfs st" and "al_serves (length ws + k) (rf_data_alloc rfs)"
    and "path_of s = ws" "0 \<notin> set s" "int (length (slash # s)) \<le> PATH_NAME_MAX_LEN"
    and "create_room (if recursive then missing root (fst st) ws else 0) (slash # s) arn"
  shows "\<exists>rfs'. ram_fs_create_common root (slash # s) type recursive arn rfs =
      Some (fst (tree_create_path root recursive type ws st), rfs') \<and>
    fs_ok root rfs' (snd (tree_create_path root recursive type ws st)) \<and>
    al_serves k (rf_data_alloc rfs') \<and> keeps st rfs rfs'"
  using assms
proof (induction ws arbitrary: s rfs type recursive arn k rule: rev_induct)
  case Nil
  have "parse_room (slash # s) arn" by (rule create_room_parse [OF Nil.prems(6)])
  then obtain p arn' where "path_name_parse (slash # s) arn = Some (Inr p, arn')" "path_ok p []"
    using path_name_parse_ok [of s arn] Nil.prems by auto
  then show ?case using Nil.prems(1,2)
    by (subst ram_fs_create_common.simps) (auto simp: path_ok_def tree_create_path.simps [of root _ _ "[]"])
next
  case (snoc w ws)
  let ?m = "if recursive then missing root (fst st) (ws @ [w]) else 0"
  have "parse_room (slash # s) arn"
    by (rule create_room_parse [OF snoc.prems(6)])
  then obtain p arn1 where p: "path_name_parse (slash # s) arn = Some (Inr p, arn1)" "path_ok p (ws @ [w])"
    "ar_end arn1 = ar_end arn" "ar_beg arn1 \<le> ar_beg arn + 9 * int (length (slash # s)) + 32"
    using path_name_parse_ok [of s arn] snoc.prems(3-5) by auto
  have comps: "\<forall>v \<in> set (ws @ [w]). comp_ok v" using path_of_comp_ok [OF snoc.prems(4)] snoc.prems(3) by auto
  have wlen: "w \<noteq> []" "int (length w) \<le> 0x1000"
  proof -
    show "w \<noteq> []" using comps by (simp add: comp_ok_def)
    have "length w \<le> length (path_text (path_of s))" using snoc.prems(3) by (auto simp: path_text_def)
    then show "int (length w) \<le> 0x1000"
      using path_text_length [of s] snoc.prems(5) by (simp add: PATH_NAME_MAX_LEN_def)
  qed
  define q where "q = p\<lparr>pn_n_components := pn_n_components p - 1\<rparr>"
  have q: "path_ok q ws" using p(2) by (auto simp: q_def path_ok_def dest: arg_cong [where f = "take (length ws)"])
  have qeq: "p\<lparr>pn_n_components := int (length ws)\<rparr> = q" using p(2) by (simp add: q_def path_ok_def)
  have name: "peek (pn_components p) (pn_n_components p - 1) = Some w"
  proof -
    have "take (length (ws @ [w])) (pn_components p) ! length ws = w" "length ws < length (pn_components p)"
      using p(2) by (simp_all add: path_ok_def)
    then show ?thesis using p(2) by (simp add: path_ok_def)
  qed
  have look: "ram_fs_node_lookup (rf_nodes rfs) root q = Some (addr_of (tree_at root (fst st) ws))"
    using snoc.prems(1) ram_fs_node_lookup_finds [OF q] by (auto simp: fs_ok_def)
  have al: "al_serves (Suc k) (rf_data_alloc rfs)" by (rule al_serves_mono [OF snoc.prems(2)]) simp
  have step: "ram_fs_create_common root (slash # s) type recursive arn rfs =
     (let parent = addr_of (tree_at root (fst st) ws) in
      if parent = 0 then
        if \<not> recursive then Some (Inl ENOENT, rfs)
        else do {
          (parent_path, scratch) \<leftarrow> path_name_to_str q arn1;
          (parent_res, rfs) \<leftarrow> ram_fs_create_common root parent_path RAM_FS_TYPE_DIR True scratch rfs;
          case parent_res of Inl e \<Rightarrow> Some (Inl e, rfs) | Inr parent \<Rightarrow> create_in parent w type rfs
        }
      else create_in parent w type rfs)"
    using p(1,2) name look qeq
    by (subst ram_fs_create_common.simps) (simp add: path_ok_def Let_def)
  show ?case
  proof (cases "tree_at root (fst st) ws")
    case (Some t)
    then have "addr_of (tree_at root (fst st) ws) \<noteq> 0" using tree_at_heap [OF snoc.prems(1)] by auto
    moreover have "tree_create_path root recursive type (ws @ [w]) st = tree_create root type (ws @ [w]) st"
      using Some by (subst tree_create_path.simps) simp
    ultimately show ?thesis using create_in_ok [OF snoc.prems(1) al Some wlen, of type] Some step by simp
  next
    case None
    show ?thesis
    proof (cases recursive)
      case False
      then show ?thesis using None step snoc.prems(1) al_serves_less [OF al]
        by (simp add: tree_create_path.simps [of root False] tree_create_def)
    next
      case rec: True
      have "int (length (path_text ws)) \<le> int (length (slash # s))"
        using path_text_length [of s] snoc.prems(3) by (auto simp: path_text_def)
      moreover obtain r where r: "path_text ws = slash # r" by (cases ws) (auto simp: path_text_def)
      ultimately have len: "int (length (slash # r)) \<le> int (length (slash # s))" by simp
      have r_path: "path_of r = ws" using path_of_text [of ws] comps r by simp
      have "0 \<notin> set (path_text ws)" using comps by (auto simp: path_text_def comp_ok_def zero_not_slash [symmetric])
      then have r0: "0 \<notin> set r" using r by simp
      define m where "m = missing root (fst st) ws"
      define l A C where "l = 9 * int (length (slash # s)) + 32" and "A = int m * l" and "C = int m * 0x1008"
      have pos: "0 \<le> A" "0 \<le> C" "0 \<le> l" by (simp_all add: A_def C_def l_def)
      have room: "A + 2 * l + C + 0x1008 \<le> ar_end arn - ar_beg arn"
        using snoc.prems(6) rec None missing_snoc [of root "fst st" ws w]
        by (simp add: create_room_def m_def [symmetric] A_def C_def l_def algebra_simps)
      define l' where "l' = 9 * int (length (slash # r)) + 32"
      have small: "l' \<le> l" using len by (simp add: l_def l'_def)
      have small_A: "int m * l' \<le> A" unfolding A_def by (rule mult_left_mono [OF small]) simp
      have beg1: "ar_beg arn1 \<le> ar_beg arn + l" using p(4) by (simp add: l_def)
      have big: "PATH_NAME_MAX_LEN + 8 \<le> ar_end arn1 - ar_beg arn1"
        using room pos p(3) beg1 unfolding PATH_NAME_MAX_LEN_def by linarith
      obtain y where y: "path_name_to_str q arn1 = Some (path_text ws, arn1\<lparr>ar_beg := y + PATH_NAME_MAX_LEN\<rparr>)"
        "y < ar_beg arn1 + 8"
        using path_name_to_str_ok [OF q _ big] len r snoc.prems(5) by auto
      have "create_room m (slash # r) (arn1\<lparr>ar_beg := y + PATH_NAME_MAX_LEN\<rparr>)"
      proof -
        have "int m * l' + l' + C \<le> ar_end arn1 - (y + 0x1000)"
          using room small small_A p(3) beg1 y(2) by linarith
        moreover have "(int m + 1) * l' + int m * 0x1008 = int m * l' + l' + C"
          by (simp add: C_def distrib_right)
        ultimately show ?thesis
          unfolding create_room_def l'_def [symmetric] by (simp add: PATH_NAME_MAX_LEN_def)
      qed
      then obtain rfs1 where 1: "ram_fs_create_common root (slash # r) RAM_FS_TYPE_DIR True
          (arn1\<lparr>ar_beg := y + PATH_NAME_MAX_LEN\<rparr>) rfs =
          Some (fst (tree_create_path root True RAM_FS_TYPE_DIR ws st), rfs1)"
        "fs_ok root rfs1 (snd (tree_create_path root True RAM_FS_TYPE_DIR ws st))"
        "al_serves (Suc k) (rf_data_alloc rfs1)" "keeps st rfs rfs1"
        using snoc.IH [of rfs "Suc k" r True _ RAM_FS_TYPE_DIR] snoc.prems(1,2,5) r_path r0 len
        by (auto simp: m_def)
      obtain pr st1 where pr: "tree_create_path root True RAM_FS_TYPE_DIR ws st = (pr, st1)"
        by (metis surj_pair)
      have unf: "tree_create_path root recursive type (ws @ [w]) st =
          (case pr of Inl e \<Rightarrow> (Inl e, st1) | Inr _ \<Rightarrow> tree_create root type (ws @ [w]) st1)"
        using None rec pr by (subst tree_create_path.simps) simp
      show ?thesis
      proof (cases pr)
        case (Inl e)
        then show ?thesis using step None rec y(1) r 1 pr unf al_serves_less by simp
      next
        case (Inr a)
        have at: "tree_at root (fst st1) ws = Some (new_node RAM_FS_TYPE_DIR a (last ws))"
          using tree_create_path_at pr Inr by blast
        obtain rfs2 where 2: "create_in a w type rfs1 = Some (fst (tree_create root type (ws @ [w]) st1), rfs2)"
          "fs_ok root rfs2 (snd (tree_create root type (ws @ [w]) st1))" "al_serves k (rf_data_alloc rfs2)"
          "keeps st1 rfs1 rfs2"
          using create_in_ok [OF _ 1(3) at wlen, of type] 1(2) pr by auto
        have "keeps st rfs rfs2"
          by (rule keeps_trans [OF 1(4) 2(4)]) (use tree_create_path_blocks pr in \<open>metis snd_conv\<close>)
        then show ?thesis using step None rec y(1) r 1 pr unf 2 Inr by simp
      qed
    qed
  qed
qed

end
