(* ===== verification/RamData.thy ===== *)
theory RamData
  imports RamFs
begin

text \<open>
  Reading and writing files (the last part of src/ramfs.c) against the byte list that a file holds:
  writing replaces the bytes behind an offset and extends the file, growing its memory as needed.
\<close>

definition file_ok :: "ram_fs_node \<Rightarrow> bool" where
  "file_ok nd \<longleftrightarrow> fn_type nd = RAM_FS_TYPE_FILE \<and> fn_data_ptr nd \<noteq> 0 \<and> wf_buf (fn_data nd) \<and> 0 < bb_cap (fn_data nd)"

definition file_content :: "ram_fs_node \<Rightarrow> byte list" where
  "file_content nd = byte_view_from_buf (fn_data nd)"

definition overwrite :: "byte list \<Rightarrow> sz \<Rightarrow> byte list \<Rightarrow> byte list" where
  "overwrite c off bv = take (nat off) c @ bv @ drop (nat off + length bv) c"

text \<open>
  An allocator whose functions return: memory at an address that is not NULL, or nothing.
\<close>

definition al_returns :: "'a alloc \<Rightarrow> bool" where
  "al_returns a \<longleftrightarrow>
     (\<forall>s n. 0 < n \<longrightarrow> (\<exists>p s'. al_alloc a s n 8 = Some (p, s') \<and> p \<noteq> Some 0)) \<and>
     (\<forall>s p n. al_free a s p n \<noteq> None)"

lemma alloc_returns:
  assumes "al_returns a" "0 < n"
  shows "\<exists>p a'. alloc_alloc a n 8 = Some (p, a') \<and> p \<noteq> Some 0 \<and> al_returns a'"
proof -
  obtain p s' where "al_alloc a (al_ptr a) n 8 = Some (p, s')" "p \<noteq> Some 0"
    using assms unfolding al_returns_def by blast
  then show ?thesis using assms by (auto simp: alloc_alloc_def al_returns_def)
qed

lemma free_returns: "al_returns a \<Longrightarrow> \<exists>a'. alloc_free a p n = Some a'"
proof -
  assume "al_returns a"
  then obtain s' where "al_free a (al_ptr a) p n = Some s'" unfolding al_returns_def by fastforce
  then show ?thesis by (simp add: alloc_free_def)
qed

lemma file_content_length: "file_ok nd \<Longrightarrow> int (length (file_content nd)) = bb_len (fn_data nd)"
  by (auto simp: file_ok_def file_content_def wf_buf_def)

text \<open>The doubling loop ends with a capacity that is large enough.\<close>

lemma grow_cap_ends: "0 < c \<Longrightarrow> \<exists>c'. grow_cap c need = Some c' \<and> need \<le> c' \<and> c \<le> c'"
proof (induction "nat (need - c)" arbitrary: c rule: less_induct)
  case less
  show ?case
  proof (cases "c < need")
    case True
    then obtain c' where "grow_cap (c * 2) need = Some c'" "need \<le> c'" "c * 2 \<le> c'"
      using less.hyps [of "c * 2"] less.prems by auto
    then show ?thesis using True less.prems by (subst grow_cap.simps) auto
  next
    case False
    then show ?thesis by (subst grow_cap.simps) auto
  qed
qed

definition set_node :: "addr \<Rightarrow> ram_fs_node \<Rightarrow> 'a ram_fs \<Rightarrow> 'a ram_fs" where
  "set_node a nd rfs = rfs\<lparr>rf_nodes := (rf_nodes rfs)(a \<mapsto> nd)\<rparr>"

lemma grow_file_ok:
  assumes "rf_nodes rfs a = Some nd" "file_ok nd" "al_returns (rf_data_alloc rfs)"
  shows "\<exists>al. grow_file a need rfs = Some (Inl ENOMEM, rfs\<lparr>rf_data_alloc := al\<rparr>) \<or>
    (\<exists>p data. grow_file a need rfs = Some (ok, set_node a (nd\<lparr>fn_data_ptr := p, fn_data := data\<rparr>)
        (rfs\<lparr>rf_data_alloc := al\<rparr>)) \<and>
      file_ok (nd\<lparr>fn_data_ptr := p, fn_data := data\<rparr>) \<and> need \<le> bb_cap data \<and>
      byte_view_from_buf data = file_content nd \<and> bb_len data = bb_len (fn_data nd))"
proof -
  have cap: "0 < bb_cap (fn_data nd)" "wf_buf (fn_data nd)" using assms(2) by (auto simp: file_ok_def)
  then obtain c where c: "grow_cap (2 * bb_cap (fn_data nd)) need = Some c" "need \<le> c" "2 * bb_cap (fn_data nd) \<le> c"
    using grow_cap_ends [of "2 * bb_cap (fn_data nd)" need] by auto
  then obtain p al where al: "alloc_alloc (rf_data_alloc rfs) c 8 = Some (p, al)" "p \<noteq> Some 0" "al_returns al"
    using alloc_returns [OF assms(3), of c] cap by auto
  show ?thesis
  proof (cases p)
    case None
    then show ?thesis using assms(1) c al by (auto simp: grow_file_def)
  next
    case (Some q)
    let ?buf = "byte_buf_new (fresh_bytes al q c) 0 c"
    have buf: "wf_buf ?buf" "byte_view_from_buf ?buf = []" "bb_len ?buf = 0" "bb_cap ?buf = c"
      using c cap by (auto simp: wf_buf_def byte_buf_new_def fresh_bytes_def byte_view_from_buf_def)
    have len: "int (length (file_content nd)) = bb_len (fn_data nd)" using file_content_length assms(2) by blast
    then have "int (length (file_content nd)) \<le> bb_cap ?buf - bb_len ?buf"
      using cap c buf by (auto simp: wf_buf_def)
    then obtain data where data: "byte_buf_append ?buf (file_content nd) = Some (int (length (file_content nd)), data)"
      "wf_buf data" "bb_cap data = c" "bb_len data = bb_len (fn_data nd)" "byte_view_from_buf data = file_content nd"
      using byte_buf_append_fits [OF buf(1), of "file_content nd"] buf len by auto
    obtain al' where al': "alloc_free al (fn_data_ptr nd) (bb_cap (fn_data nd)) = Some al'"
      using free_returns [OF al(3)] by blast
    have "grow_file a need rfs = Some (ok, set_node a (nd\<lparr>fn_data_ptr := q, fn_data := data\<rparr>)
        (rfs\<lparr>rf_data_alloc := al'\<rparr>))"
      using assms(1) c(1) al(1) Some data(1) al' by (simp add: grow_file_def set_node_def file_content_def)
    moreover have "file_ok (nd\<lparr>fn_data_ptr := q, fn_data := data\<rparr>)"
      using data c cap al(2) Some assms(2) by (auto simp: file_ok_def)
    ultimately show ?thesis using data c by auto
  qed
qed

lemma write_file_ok:
  assumes "rf_nodes rfs a = Some nd" "file_ok nd" "0 \<le> off" "off \<le> bb_len (fn_data nd)"
    and "int (length bv) + off \<le> bb_cap (fn_data nd)"
  shows "\<exists>data. write_file a bv off rfs = Some (Inr (int (length bv)), set_node a (nd\<lparr>fn_data := data\<rparr>) rfs) \<and>
    file_ok (nd\<lparr>fn_data := data\<rparr>) \<and> byte_view_from_buf data = overwrite (file_content nd) off bv"
proof -
  let ?d = "fn_data nd"
  have wf: "0 \<le> bb_len ?d" "bb_len ?d \<le> bb_cap ?d" "bb_cap ?d \<le> int (length (bb_dat ?d))" "0 < bb_cap ?d"
    using assms(2) by (auto simp: file_ok_def wf_buf_def)
  let ?b = "byte_buf_new (drop (nat off) (bb_dat ?d)) 0 (int (length bv))"
  have b: "bb_len ?b = 0" "bb_cap ?b = int (length bv)" "bb_dat ?b = drop (nat off) (bb_dat ?d)"
    by (simp_all add: byte_buf_new_def)
  have "write_at (drop (nat off) (bb_dat ?d)) 0 bv =
      Some (bv @ drop (length bv) (drop (nat off) (bb_dat ?d)))"
    by (subst write_at_eq) (use wf assms(3,5) in auto)
  then have app: "byte_buf_append ?b bv = Some (int (length bv),
      ?b\<lparr>bb_dat := bv @ drop (nat off + length bv) (bb_dat ?d), bb_len := int (length bv)\<rparr>)"
    using b by (simp add: byte_buf_append_def add.commute Let_def)
  define dat where "dat = take (nat off) (bb_dat ?d) @ bv @ drop (nat off + length bv) (bb_dat ?d)"
  define len where "len = max (bb_len ?d) (off + int (length bv))"
  have w: "write_file a bv off rfs = Some (Inr (int (length bv)),
      set_node a (nd\<lparr>fn_data := ?d\<lparr>bb_dat := dat, bb_len := len\<rparr>\<rparr>) rfs)"
    using assms app b by (simp add: write_file_def kassert_bind min_def dat_def len_def set_node_def Let_def)
  have ldat: "length dat = length (bb_dat ?d)" using wf assms(3,5) by (simp add: dat_def)
  have "file_ok (nd\<lparr>fn_data := ?d\<lparr>bb_dat := dat, bb_len := len\<rparr>\<rparr>)"
    using assms wf ldat by (auto simp: file_ok_def wf_buf_def len_def)
  moreover have "take (nat len) dat = overwrite (take (nat (bb_len ?d)) (bb_dat ?d)) off bv"
  proof -
    have o: "nat off \<le> length (bb_dat ?d)" "nat off \<le> nat (bb_len ?d)" using wf assms(3,4) by auto
    have l: "nat len = nat off + length bv + (nat (bb_len ?d) - (nat off + length bv))"
      using wf assms(3) by (auto simp: len_def max_def nat_add_distrib)
    have "take (nat len) dat = take (nat off) (bb_dat ?d) @ bv @
        take (nat (bb_len ?d) - (nat off + length bv)) (drop (nat off + length bv) (bb_dat ?d))"
      using o unfolding l dat_def by simp
    also have "\<dots> = overwrite (take (nat (bb_len ?d)) (bb_dat ?d)) off bv"
      using o by (simp add: overwrite_def drop_take min_def)
    finally show ?thesis .
  qed
  ultimately show ?thesis using w by (auto simp: byte_view_from_buf_def file_content_def)
qed

section \<open>Properties\<close>

lemma overwrite_nil: "0 \<le> off \<Longrightarrow> off \<le> int (length c) \<Longrightarrow> overwrite c off [] = c"
  by (simp add: overwrite_def)

lemma ram_fs_write_cases:
  assumes "rf_nodes rfs a = Some nd" "file_ok nd" "al_returns (rf_data_alloc rfs)" "0 \<le> off"
  shows "if off > int (length (file_content nd)) then ram_fs_write a bv off rfs = Some (Inl EINVAL, rfs)
    else (\<exists>al p data. ram_fs_write a bv off rfs = Some (Inr (int (length bv)),
            set_node a (nd\<lparr>fn_data_ptr := p, fn_data := data\<rparr>) (rfs\<lparr>rf_data_alloc := al\<rparr>)) \<and>
          file_ok (nd\<lparr>fn_data_ptr := p, fn_data := data\<rparr>) \<and>
          byte_view_from_buf data = overwrite (file_content nd) off bv)
      \<or> bb_cap (fn_data nd) < off + int (length bv) \<and>
         (\<exists>al. ram_fs_write a bv off rfs = Some (Inl ENOMEM, rfs\<lparr>rf_data_alloc := al\<rparr>))"
proof -
  have len: "int (length (file_content nd)) = bb_len (fn_data nd)" using file_content_length assms(2) by blast
  have start: "fn_type nd = RAM_FS_TYPE_FILE" "fn_data_ptr nd \<noteq> 0 \<and> bb_cap (fn_data nd) \<noteq> 0"
    using assms(2) by (auto simp: file_ok_def)
  show ?thesis
  proof (cases "off > bb_len (fn_data nd)")
    case True
    then show ?thesis using len start assms(1) by (simp add: ram_fs_write_def)
  next
    case le: False
    show ?thesis
    proof (cases "int (length bv) + off > bb_cap (fn_data nd)")
      case False
      then obtain data where "write_file a bv off rfs = Some (Inr (int (length bv)), set_node a (nd\<lparr>fn_data := data\<rparr>) rfs)"
        "file_ok (nd\<lparr>fn_data := data\<rparr>)" "byte_view_from_buf data = overwrite (file_content nd) off bv"
        using write_file_ok [OF assms(1,2,4), of bv] le by auto
      note w = this
      have "ram_fs_write a bv off rfs = write_file a bv off rfs"
        using start assms(1) le False by (simp add: ram_fs_write_def)
      then have "\<exists>al p data. ram_fs_write a bv off rfs = Some (Inr (int (length bv)),
            set_node a (nd\<lparr>fn_data_ptr := p, fn_data := data\<rparr>) (rfs\<lparr>rf_data_alloc := al\<rparr>)) \<and>
          file_ok (nd\<lparr>fn_data_ptr := p, fn_data := data\<rparr>) \<and>
          byte_view_from_buf data = overwrite (file_content nd) off bv"
        by (intro exI [of _ "rf_data_alloc rfs"] exI [of _ "fn_data_ptr nd"] exI [of _ data]) (simp add: w)
      then show ?thesis using len le by simp
    next
      case True
      obtain al where g: "grow_file a (int (length bv) + off) rfs = Some (Inl ENOMEM, rfs\<lparr>rf_data_alloc := al\<rparr>) \<or>
        (\<exists>p data. grow_file a (int (length bv) + off) rfs = Some (ok, set_node a (nd\<lparr>fn_data_ptr := p, fn_data := data\<rparr>)
            (rfs\<lparr>rf_data_alloc := al\<rparr>)) \<and>
          file_ok (nd\<lparr>fn_data_ptr := p, fn_data := data\<rparr>) \<and> int (length bv) + off \<le> bb_cap data \<and>
          byte_view_from_buf data = file_content nd \<and> bb_len data = bb_len (fn_data nd))"
        using grow_file_ok [OF assms(1-3)] by blast
      then consider "grow_file a (int (length bv) + off) rfs = Some (Inl ENOMEM, rfs\<lparr>rf_data_alloc := al\<rparr>)"
        | p data where "grow_file a (int (length bv) + off) rfs = Some (ok, set_node a (nd\<lparr>fn_data_ptr := p, fn_data := data\<rparr>)
            (rfs\<lparr>rf_data_alloc := al\<rparr>))"
          "file_ok (nd\<lparr>fn_data_ptr := p, fn_data := data\<rparr>)" "int (length bv) + off \<le> bb_cap data"
          "byte_view_from_buf data = file_content nd" "bb_len data = bb_len (fn_data nd)" by blast
      then show ?thesis
      proof cases
        case 1
        then have "ram_fs_write a bv off rfs = Some (Inl ENOMEM, rfs\<lparr>rf_data_alloc := al\<rparr>)"
          using start assms(1) le True by (simp add: ram_fs_write_def)
        then show ?thesis using len le True by auto
      next
        case 2
        let ?nd1 = "nd\<lparr>fn_data_ptr := p, fn_data := data\<rparr>"
        let ?rfs1 = "set_node a ?nd1 (rfs\<lparr>rf_data_alloc := al\<rparr>)"
        obtain data2 where w: "write_file a bv off ?rfs1 =
            Some (Inr (int (length bv)), set_node a (?nd1\<lparr>fn_data := data2\<rparr>) ?rfs1)"
          "file_ok (?nd1\<lparr>fn_data := data2\<rparr>)" "byte_view_from_buf data2 = overwrite (file_content ?nd1) off bv"
          using write_file_ok [of ?rfs1 a ?nd1 off bv] 2 le assms(4) by (auto simp: set_node_def)
        have "set_node a (?nd1\<lparr>fn_data := data2\<rparr>) ?rfs1 =
            set_node a (nd\<lparr>fn_data_ptr := p, fn_data := data2\<rparr>) (rfs\<lparr>rf_data_alloc := al\<rparr>)"
          by (simp add: set_node_def)
        moreover have "ram_fs_write a bv off rfs = write_file a bv off ?rfs1"
          using start assms(1) le True 2(1) by (simp add: ram_fs_write_def)
        ultimately have "ram_fs_write a bv off rfs = Some (Inr (int (length bv)),
            set_node a (nd\<lparr>fn_data_ptr := p, fn_data := data2\<rparr>) (rfs\<lparr>rf_data_alloc := al\<rparr>))"
          "file_ok (nd\<lparr>fn_data_ptr := p, fn_data := data2\<rparr>)"
          "byte_view_from_buf data2 = overwrite (file_content nd) off bv"
          using w 2(4) by (simp_all add: file_content_def)
        then show ?thesis using len le by auto
      qed
    qed
  qed
qed

lemma ram_fs_read_content:
  assumes "rf_nodes rfs a = Some nd" "file_ok nd" "0 \<le> off" "off \<le> int (length (file_content nd))" "wf_buf buf"
  shows "\<exists>buf'. ram_fs_read a buf off rfs = Some (Inr (min (bb_cap buf - bb_len buf)
      (int (length (file_content nd)) - off)), buf') \<and> wf_buf buf' \<and>
    byte_view_from_buf buf' = byte_view_from_buf buf @
      take (nat (bb_cap buf - bb_len buf)) (drop (nat off) (file_content nd))"
proof -
  let ?d = "fn_data nd"
  have len: "int (length (file_content nd)) = bb_len ?d" using file_content_length assms(2) by blast
  have type: "fn_type nd = RAM_FS_TYPE_FILE" using assms(2) by (simp add: file_ok_def)
  have room: "0 \<le> bb_cap buf - bb_len buf" using assms(5) by (simp add: wf_buf_def)
  show ?thesis
  proof (cases "off = bb_len ?d")
    case True
    then have "drop (nat off) (file_content nd) = []" using len by simp
    moreover have "ram_fs_read a buf off rfs = Some (Inr 0, buf)"
      using True type assms(1) by (simp add: ram_fs_read_def)
    ultimately show ?thesis using True len room assms(5) by simp
  next
    case False
    let ?v = "take (nat (bb_len ?d - off)) (drop (nat off) (bb_dat ?d))"
    have v: "?v = drop (nat off) (file_content nd)"
      using assms(3,4) len by (simp add: file_content_def byte_view_from_buf_def drop_take nat_diff_distrib)
    have lv: "int (length ?v) = bb_len ?d - off" unfolding v using assms(3,4) len by simp
    obtain buf' where b: "byte_buf_append buf ?v = Some (min (bb_cap buf - bb_len buf) (int (length ?v)), buf')"
      "wf_buf buf'" "byte_view_from_buf buf' = byte_view_from_buf buf @ take (nat (bb_cap buf - bb_len buf)) ?v"
      using byte_buf_append_ok [OF assms(5), of ?v] by blast
    have "ram_fs_read a buf off rfs = Some (Inr (min (bb_cap buf - bb_len buf) (int (length ?v))), buf')"
      using type assms(1,3,4) False len b(1) by (simp add: ram_fs_read_def)
    then show ?thesis using b(2,3) lv len v by simp
  qed
qed

end
