(* ===== verification/RamProps.thy ===== *)
theory RamProps
  imports RamCreate RamData
begin

text \<open>
  The properties of the RAM file system: creation refines the tree, created nodes can be opened,
  writing and reading, and the paths that are too deep for the scratch arena.
\<close>

section \<open>A file system to try things on\<close>

text \<open>An allocator that counts addresses up, and a fresh file system with two free nodes.\<close>

definition bump_alloc :: "int alloc" where
  "bump_alloc = alloc_new 100000 (\<lambda>s n align. Some (Some s, s + n)) (\<lambda>s p n. Some s) (\<lambda>_. 0xcc)"

definition sample_fs :: "int ram_fs" where
  "sample_fs = \<lparr>rf_data_alloc = bump_alloc, rf_words = [80 \<mapsto> 160, 160 \<mapsto> 0],
     rf_node_alloc = \<lparr>pl_head = 80, pl_size = 72\<rparr>, rf_scratch = arena_new 0x10000 (4 * PATH_NAME_MAX_LEN),
     rf_root = 8, rf_nodes = [8 \<mapsto> blank_node RAM_FS_TYPE_DIR []]\<rparr>"

lemma bump_serves: "0 < s \<Longrightarrow> serves (\<lambda>s n align. Some (Some s, s + n)) k (s :: int)"
  by (induction k arbitrary: s) auto

lemma bump_alloc_serves: "al_serves k bump_alloc"
  by (simp add: al_serves_def bump_alloc_def alloc_new_def bump_serves)

lemma sample_fs_ok: "fs_ok 8 sample_fs ([], [80, 160])"
  by (simp add: fs_ok_def sample_fs_def blank_node_def free_blocks_def)

section \<open>Names\<close>

text \<open>A path that the file system accepts, in a scratch arena with room for it.\<close>

definition path_fits :: "addr \<Rightarrow> fs_spec \<Rightarrow> bool \<Rightarrow> byte list \<Rightarrow> arena \<Rightarrow> bool" where
  "path_fits root st recursive path arn \<longleftrightarrow> path \<noteq> [] \<and> hd path = slash \<and> 0 \<notin> set path \<and>
     int (length path) \<le> PATH_NAME_MAX_LEN \<and>
     create_room (if recursive then missing root (fst st) (path_of path) else 0) path arn"

lemma ram_fs_create_common_fits:
  assumes "fs_ok root rfs st" "al_serves (length (path_of path) + k) (rf_data_alloc rfs)"
    "path_fits root st recursive path arn"
  shows "\<exists>rfs'. ram_fs_create_common root path type recursive arn rfs =
      Some (fst (tree_create_path root recursive type (path_of path) st), rfs') \<and>
    fs_ok root rfs' (snd (tree_create_path root recursive type (path_of path) st)) \<and>
    al_serves k (rf_data_alloc rfs') \<and> keeps st rfs rfs'"
proof -
  obtain s where s: "path = slash # s" using assms(3) by (cases path) (auto simp: path_fits_def)
  have "path_of s = path_of path" "0 \<notin> set s" "int (length (slash # s)) \<le> PATH_NAME_MAX_LEN"
    "create_room (if recursive then missing root (fst st) (path_of path) else 0) (slash # s) arn"
    using assms(3) s by (simp_all add: path_fits_def cong: if_cong)
  from ram_fs_create_common_ok [OF assms(1,2) this] show ?thesis unfolding s [symmetric] .
qed

text \<open>
  C7: creating directories implements insertion in the tree of names. For every file system that
  represents a tree and every path, with or without creating missing parents, the code returns and
  gives the result of the specification (the address of the new node, EEXIST, ENOENT, ENOTDIR or
  ENOMEM), and the file system represents the resulting tree afterwards; node data are kept.
\<close>

theorem ram_fs_create_dir_refines:
  assumes "fs_ok root rfs st" and "al_serves (length (path_of path)) (rf_data_alloc rfs)"
    and "path_fits root st recursive path (rf_scratch rfs)"
  shows "\<exists>rfs'. ram_fs_create_dir root path recursive rfs =
      Some (fst (tree_create_path root recursive RAM_FS_TYPE_DIR (path_of path) st), rfs') \<and>
    fs_ok root rfs' (snd (tree_create_path root recursive RAM_FS_TYPE_DIR (path_of path) st)) \<and>
    keeps st rfs rfs'"
proof -
  have "root \<noteq> 0" using assms(1) by (simp add: fs_ok_def)
  then show ?thesis
    using ram_fs_create_common_fits [OF assms(1) _ assms(3), of 0 RAM_FS_TYPE_DIR] assms(2)
    by (auto simp: ram_fs_create_dir_def)
qed

theorem ram_fs_create_dir_refines_witness:
  "\<exists>rfs' :: int ram_fs. ram_fs_create_dir 8 (cstr ''/a/b'') True sample_fs = Some (Inr 160, rfs') \<and>
     fs_ok 8 rfs' ([Dir_node 80 (cstr ''a'') [Dir_node 160 (cstr ''b'') []]], [])"
proof -
  have path: "path_of (cstr ''/a/b'') = [cstr ''a'', cstr ''b'']"
    by (simp add: path_of_def cstr_def slash_def)
  have "missing 8 [] (path_of (cstr ''/a/b'')) = 1"
    unfolding path by (simp add: missing_def tree_at_def upt_rec)
  then have fits: "path_fits 8 ([], [80, 160]) True (cstr ''/a/b'') (rf_scratch sample_fs)"
    by (simp add: path_fits_def create_room_def sample_fs_def arena_new_def PATH_NAME_MAX_LEN_def
        cstr_def slash_def)
  have spec: "tree_create_path 8 True RAM_FS_TYPE_DIR (path_of (cstr ''/a/b'')) ([], [80, 160]) =
      (Inr 160, [Dir_node 80 (cstr ''a'') [Dir_node 160 (cstr ''b'') []]], [])"
    unfolding path
    by (simp add: tree_create_path.simps tree_create_def tree_at_def new_node_def cstr_def)
  show ?thesis
    using ram_fs_create_dir_refines [OF sample_fs_ok _ fits] bump_alloc_serves
    unfolding spec by (auto simp: sample_fs_def)
qed

text \<open>Nodes keep their place and their address under every creation.\<close>

lemma tree_create_keeps:
  "tree_at root (fst st) us = Some t \<Longrightarrow>
     \<exists>t'. tree_at root (fst (snd (tree_create root type ws st))) us = Some t' \<and> t_addr t' = t_addr t"
  using tree_find_add_old [of "fst st" us t "butlast ws"]
  by (cases "us = []")
    (fastforce simp: tree_create_def tree_at_def split: option.splits fs_tree.splits list.splits)+

lemma tree_create_path_keeps:
  "tree_at root (fst st) us = Some t \<Longrightarrow>
     \<exists>t'. tree_at root (fst (snd (tree_create_path root rec type ws st))) us = Some t' \<and> t_addr t' = t_addr t"
proof (induction root rec type ws st arbitrary: t rule: tree_create_path.induct)
  case (1 root rec type ws st)
  obtain r st1 where r: "tree_create_path root True RAM_FS_TYPE_DIR (butlast ws) st = (r, st1)"
    by (metis surj_pair)
  show ?case
  proof (cases "ws \<noteq> [] \<and> tree_at root (fst st) (butlast ws) = None \<and> rec")
    case True
    then obtain t1 where "tree_at root (fst st1) us = Some t1" "t_addr t1 = t_addr t"
      using "1.IH" [OF _ _ "1.prems"] r by auto
    then show ?thesis using r tree_create_keeps [of root st1 us t1 type ws] True
      by (subst tree_create_path.simps) (auto split: sum.splits)
  next
    case False
    then show ?thesis using tree_create_keeps [OF "1.prems", of type ws] "1.prems"
      by (subst tree_create_path.simps) auto
  qed
qed

text \<open>Opening a path is lookup in the tree.\<close>

lemma ram_fs_open_finds:
  assumes "fs_ok root rfs st" "q \<noteq> []" "hd q = slash" "0 \<notin> set q" "int (length q) \<le> PATH_NAME_MAX_LEN"
    "parse_room q (rf_scratch rfs)"
  shows "ram_fs_open root q rfs = Some (case tree_at root (fst st) (path_of q) of
      None \<Rightarrow> Inl ENOENT | Some t \<Rightarrow> Inr (t_addr t))"
proof -
  obtain s where s: "q = slash # s" using assms(2,3) by (cases q) auto
  then obtain p arn' where p: "path_name_parse q (rf_scratch rfs) = Some (Inr p, arn')" "path_ok p (path_of q)"
    using path_name_parse_ok [of s "rf_scratch rfs"] assms by auto
  obtain nd where "rf_nodes rfs root = Some nd" "siblings (rf_nodes rfs) (fn_first nd) (fst st)" "root \<noteq> 0"
    using assms(1) by (auto simp: fs_ok_def)
  then have l: "ram_fs_node_lookup (rf_nodes rfs) root p = Some (addr_of (tree_at root (fst st) (path_of q)))"
    using ram_fs_node_lookup_finds [OF p(2)] by blast
  have n: "pn_n_components p = int (length (path_of q))" using p(2) by (simp add: path_ok_def)
  show ?thesis
  proof (cases "path_of q = []")
    case True
    then show ?thesis using p n \<open>root \<noteq> 0\<close> by (simp add: ram_fs_open_def tree_at_def)
  next
    case False
    then show ?thesis using p l n \<open>root \<noteq> 0\<close> tree_at_heap [OF assms(1)]
      by (cases "tree_at root (fst st) (path_of q)") (auto simp: ram_fs_open_def)
  qed
qed

text \<open>
  C8: a created file is there, empty, and nothing else moves. When ram_fs_create_file returns a
  node, opening the same path gives that node, the node is an empty file that can be written, and
  every path that could be opened before still opens the same node. The hypothesis on the allocator
  is that it can serve the names and the file data.
\<close>

theorem ram_fs_create_file_opens:
  assumes "fs_ok root rfs st" and "al_serves (Suc (length (path_of path))) (rf_data_alloc rfs)"
    and "path_fits root st recursive path (rf_scratch rfs)"
    and "ram_fs_create_file root path recursive rfs = Some (Inr node, rfs')"
    and "path_fits root st False q (rf_scratch rfs)" and "ram_fs_open root q rfs = Some (Inr other)"
  shows "ram_fs_open root path rfs' = Some (Inr node) \<and> ram_fs_open root q rfs' = Some (Inr other) \<and>
    (\<exists>nd. rf_nodes rfs' node = Some nd \<and> file_ok nd \<and> file_content nd = [])"
proof -
  let ?r = "tree_create_path root recursive RAM_FS_TYPE_FILE (path_of path) st"
  obtain rfs1 where 1: "ram_fs_create_common root path RAM_FS_TYPE_FILE recursive (rf_scratch rfs) rfs =
      Some (fst ?r, rfs1)" "fs_ok root rfs1 (snd ?r)" "al_serves 1 (rf_data_alloc rfs1)" "keeps st rfs rfs1"
    using ram_fs_create_common_fits [OF assms(1) _ assms(3), of 1 RAM_FS_TYPE_FILE] assms(2) by auto
  obtain p al where al: "alloc_alloc (rf_data_alloc rfs1) RAM_FS_DEFAULT_FILE_SIZE 8 = Some (Some p, al)" "p \<noteq> 0"
    using alloc_alloc_served [of 0 "rf_data_alloc rfs1" RAM_FS_DEFAULT_FILE_SIZE] 1(3)
    by (auto simp: RAM_FS_DEFAULT_FILE_SIZE_def PAGE_SIZE_def)
  have r: "fst ?r = Inr node" using assms(1,4) 1(1) al
    by (cases "fst ?r") (auto simp: ram_fs_create_file_def fs_ok_def bind_eq_Some_conv)
  then have at: "tree_at root (fst (snd ?r)) (path_of path) = Some (new_node RAM_FS_TYPE_FILE node (last (path_of path)))"
    using tree_create_path_at [of root recursive RAM_FS_TYPE_FILE "path_of path" st node "snd ?r"]
    by (metis prod.collapse)
  obtain nd where nd: "rf_nodes rfs1 node = Some nd" "fn_type nd = RAM_FS_TYPE_FILE"
    using tree_at_heap [OF 1(2) at] by (auto simp: new_node_def)
  define nd' where "nd' = nd\<lparr>fn_data_ptr := p, fn_data := byte_buf_new
    (fresh_bytes al p RAM_FS_DEFAULT_FILE_SIZE) 0 RAM_FS_DEFAULT_FILE_SIZE\<rparr>"
  have rfs': "rfs' = rfs1\<lparr>rf_data_alloc := al, rf_nodes := (rf_nodes rfs1)(node \<mapsto> nd')\<rparr>"
    using assms(1,4) 1(1) al r nd by (simp add: ram_fs_create_file_def fs_ok_def nd'_def)
  have same: "same_links (rf_nodes rfs' a) (rf_nodes rfs1 a)" for a
    using nd by (simp add: rfs' nd'_def same_links_def)
  have ok: "fs_ok root rfs' (snd ?r)"
  proof -
    obtain rd where "rf_nodes rfs1 root = Some rd" "fn_type rd = RAM_FS_TYPE_DIR"
      "siblings (rf_nodes rfs1) (fn_first rd) (fst (snd ?r))"
      using 1(2) by (auto simp: fs_ok_def)
    moreover have "root \<noteq> node" using calculation(2) nd calculation(1) by auto
    moreover have "siblings (rf_nodes rfs') (fn_first rd) (fst (snd ?r))"
      by (rule siblings_frame [OF calculation(3) same])
    ultimately have "\<exists>nd. rf_nodes rfs' root = Some nd \<and> fn_type nd = RAM_FS_TYPE_DIR \<and>
        siblings (rf_nodes rfs') (fn_first nd) (fst (snd ?r))"
      by (simp add: rfs')
    then show ?thesis using 1(2) by (simp add: fs_ok_def rfs')
  qed
  have scratch: "rf_scratch rfs' = rf_scratch rfs" using 1(4) by (simp add: keeps_def rfs')
  have new: "ram_fs_open root path rfs' = Some (Inr node)"
    using ram_fs_open_finds [OF ok, of path] assms(3) create_room_parse at scratch
    by (auto simp: path_fits_def)
  have old: "ram_fs_open root q rfs = Some (case tree_at root (fst st) (path_of q) of
      None \<Rightarrow> Inl ENOENT | Some t \<Rightarrow> Inr (t_addr t))"
    using ram_fs_open_finds [OF assms(1), of q] assms(5) create_room_parse by (auto simp: path_fits_def)
  then obtain t where t: "tree_at root (fst st) (path_of q) = Some t" "t_addr t = other"
    using assms(6) by (auto split: option.splits)
  then have "ram_fs_open root q rfs' = Some (Inr other)"
    using tree_create_path_keeps [OF t(1), of recursive RAM_FS_TYPE_FILE "path_of path"]
      ram_fs_open_finds [OF ok, of q] assms(5) create_room_parse scratch
    by (auto simp: path_fits_def)
  moreover have "file_ok nd'" "file_content nd' = []" using nd al
    by (auto simp: nd'_def file_ok_def file_content_def wf_buf_def byte_buf_new_def fresh_bytes_def
        RAM_FS_DEFAULT_FILE_SIZE_def PAGE_SIZE_def byte_view_from_buf_def)
  ultimately show ?thesis using new by (simp add: rfs')
qed

lemma ram_fs_create_file_runs:
  assumes "fs_ok root rfs st" "al_serves (Suc (length (path_of path))) (rf_data_alloc rfs)"
    "path_fits root st recursive path (rf_scratch rfs)"
    "tree_create_path root recursive RAM_FS_TYPE_FILE (path_of path) st = (Inr node, st')"
  shows "\<exists>rfs'. ram_fs_create_file root path recursive rfs = Some (Inr node, rfs')"
proof -
  obtain rfs1 where 1: "ram_fs_create_common root path RAM_FS_TYPE_FILE recursive (rf_scratch rfs) rfs =
      Some (Inr node, rfs1)" "fs_ok root rfs1 st'" "al_serves 1 (rf_data_alloc rfs1)"
    using ram_fs_create_common_fits [OF assms(1) _ assms(3), of 1 RAM_FS_TYPE_FILE] assms(2,4) by auto
  obtain p al where al: "alloc_alloc (rf_data_alloc rfs1) RAM_FS_DEFAULT_FILE_SIZE 8 = Some (Some p, al)"
    using alloc_alloc_served [of 0 "rf_data_alloc rfs1" RAM_FS_DEFAULT_FILE_SIZE] 1(3)
    by (auto simp: RAM_FS_DEFAULT_FILE_SIZE_def PAGE_SIZE_def)
  have "tree_at root (fst st') (path_of path) = Some (new_node RAM_FS_TYPE_FILE node (last (path_of path)))"
    using tree_create_path_at assms(4) by blast
  then obtain nd where "rf_nodes rfs1 node = Some nd" using tree_at_heap [OF 1(2)] by fastforce
  then show ?thesis using 1(1) al assms(1) by (simp add: ram_fs_create_file_def fs_ok_def)
qed

theorem ram_fs_create_file_opens_witness:
  "\<exists>rfs' :: int ram_fs. ram_fs_create_file 8 (cstr ''/f'') False sample_fs = Some (Inr 80, rfs') \<and>
     ram_fs_open 8 (cstr ''/f'') rfs' = Some (Inr 80) \<and> ram_fs_open 8 (cstr ''/'') rfs' = Some (Inr 8)"
proof -
  have fits: "path_fits 8 ([], [80, 160]) False (cstr ''/f'') (rf_scratch sample_fs)"
    "path_fits 8 ([], [80, 160]) False (cstr ''/'') (rf_scratch sample_fs)"
    by (simp_all add: path_fits_def create_room_def sample_fs_def arena_new_def PATH_NAME_MAX_LEN_def
        cstr_def slash_def)
  have path: "path_of (cstr ''/f'') = [cstr ''f'']" "path_of (cstr ''/'') = []"
    by (simp_all add: path_of_def cstr_def slash_def)
  have "tree_create_path 8 False RAM_FS_TYPE_FILE (path_of (cstr ''/f'')) ([], [80, 160]) =
      (Inr 80, [File_node 80 (cstr ''f'')], [160])"
    unfolding path by (simp add: tree_create_path.simps tree_create_def tree_at_def new_node_def cstr_def)
  then obtain rfs' where 1: "ram_fs_create_file 8 (cstr ''/f'') False sample_fs = Some (Inr 80, rfs')"
    using ram_fs_create_file_runs [OF sample_fs_ok _ fits(1)] bump_alloc_serves by (auto simp: sample_fs_def)
  have 2: "ram_fs_open 8 (cstr ''/'') sample_fs = Some (Inr 8)"
    using ram_fs_open_finds [OF sample_fs_ok, of "cstr ''/''"] path(2)
    by (simp add: cstr_def slash_def PATH_NAME_MAX_LEN_def parse_room_def sample_fs_def arena_new_def tree_at_def)
  show ?thesis
    using ram_fs_create_file_opens [OF sample_fs_ok _ fits(1) 1 fits(2) 2] 1 bump_alloc_serves
    by (auto simp: sample_fs_def)
qed

section \<open>Contents\<close>

text \<open>
  C9: writing a file. An offset behind the end gives EINVAL and changes nothing. Otherwise the
  bytes replace what is at the offset and extend the file, all of them are written, and no other
  node changes; only when the capacity does not suffice can the result be ENOMEM, and then no node
  changes. The growing loop ends, no assertion fails, and the file can be written again.
\<close>

theorem ram_fs_write_overwrites:
  assumes "rf_nodes rfs a = Some nd" and "file_ok nd" and "al_returns (rf_data_alloc rfs)" and "0 \<le> off"
  shows "if off > int (length (file_content nd)) then ram_fs_write a bv off rfs = Some (Inl EINVAL, rfs)
    else (\<exists>al p data. ram_fs_write a bv off rfs = Some (Inr (int (length bv)),
            set_node a (nd\<lparr>fn_data_ptr := p, fn_data := data\<rparr>) (rfs\<lparr>rf_data_alloc := al\<rparr>)) \<and>
          file_ok (nd\<lparr>fn_data_ptr := p, fn_data := data\<rparr>) \<and>
          byte_view_from_buf data = overwrite (file_content nd) off bv)
      \<or> bb_cap (fn_data nd) < off + int (length bv) \<and>
         (\<exists>al. ram_fs_write a bv off rfs = Some (Inl ENOMEM, rfs\<lparr>rf_data_alloc := al\<rparr>))"
  by (rule ram_fs_write_cases [OF assms])

definition sample_file :: ram_fs_node where
  "sample_file = \<lparr>fn_first = 0, fn_next = 0, fn_type = RAM_FS_TYPE_FILE, fn_name = [102],
     fn_data_ptr = 4096, fn_data = byte_buf_new [1, 2, 3, 0] 3 4\<rparr>"

lemma sample_file_ok: "file_ok sample_file" "file_content sample_file = [1, 2, 3]"
  by (simp_all add: file_ok_def sample_file_def byte_buf_new_def wf_buf_def file_content_def byte_view_from_buf_def)

definition sample_file_fs :: "int ram_fs" where
  "sample_file_fs = set_node 80 sample_file
     (sample_fs\<lparr>rf_data_alloc := bump_alloc\<lparr>al_alloc := \<lambda>s n align. Some (Some 4096, s)\<rparr>\<rparr>)"

lemma sample_file_fs_simps:
  "rf_nodes sample_file_fs 80 = Some sample_file" "al_returns (rf_data_alloc sample_file_fs)"
  "bb_cap (fn_data sample_file) = 4"
  by (simp_all add: sample_file_fs_def set_node_def al_returns_def bump_alloc_def alloc_new_def
      sample_file_def byte_buf_new_def)

theorem ram_fs_write_overwrites_witness:
  "\<exists>rfs' nd'. ram_fs_write 80 [7, 8] 2 sample_file_fs = Some (Inr 2, rfs') \<and> rf_nodes rfs' 80 = Some nd' \<and>
     file_content nd' = [1, 2, 7, 8]"
proof -
  obtain al p data where "ram_fs_write 80 [7, 8] 2 sample_file_fs = Some (Inr 2, set_node 80
      (sample_file\<lparr>fn_data_ptr := p, fn_data := data\<rparr>) (sample_file_fs\<lparr>rf_data_alloc := al\<rparr>))"
    "byte_view_from_buf data = [1, 2, 7, 8]"
    using ram_fs_write_overwrites [OF sample_file_fs_simps(1) sample_file_ok(1) sample_file_fs_simps(2), of 2 "[7, 8]"]
      sample_file_ok(2) sample_file_fs_simps(3)
    by (auto simp: overwrite_def)
  then show ?thesis by (auto simp: set_node_def file_content_def)
qed

text \<open>
  What was written is read back. After a successful write, reading from the same offset gives
  the written bytes followed by what the file held behind them, as far as they fit the buffer of
  the reader.
\<close>

theorem ram_fs_write_read:
  assumes "rf_nodes rfs a = Some nd" and "file_ok nd" and "al_returns (rf_data_alloc rfs)" and "0 \<le> off"
    and "ram_fs_write a bv off rfs = Some (Inr n, rfs')" and "wf_buf buf"
  shows "\<exists>k buf'. ram_fs_read a buf off rfs' = Some (Inr k, buf') \<and> byte_view_from_buf buf' =
    byte_view_from_buf buf @ take (nat (bb_cap buf - bb_len buf)) (bv @ drop (nat off + length bv) (file_content nd))"
proof -
  have le: "off \<le> int (length (file_content nd))"
    using ram_fs_write_cases [OF assms(1-4), of bv] assms(5) by (auto split: if_splits)
  then obtain al p data where 1: "rfs' = set_node a (nd\<lparr>fn_data_ptr := p, fn_data := data\<rparr>) (rfs\<lparr>rf_data_alloc := al\<rparr>)"
    "file_ok (nd\<lparr>fn_data_ptr := p, fn_data := data\<rparr>)" "byte_view_from_buf data = overwrite (file_content nd) off bv"
    using ram_fs_write_cases [OF assms(1-4), of bv] assms(5) by (auto split: if_splits)
  let ?nd = "nd\<lparr>fn_data_ptr := p, fn_data := data\<rparr>"
  have node: "rf_nodes rfs' a = Some ?nd" using 1(1) by (simp add: set_node_def)
  have c: "file_content ?nd = overwrite (file_content nd) off bv" using 1(3) by (simp add: file_content_def)
  have d: "drop (nat off) (file_content ?nd) = bv @ drop (nat off + length bv) (file_content nd)"
    "off \<le> int (length (file_content ?nd))"
    using le assms(4) by (simp_all add: c overwrite_def)
  show ?thesis
    using ram_fs_read_content [OF node 1(2) assms(4) d(2) assms(6)] d(1) by auto
qed

theorem ram_fs_write_read_witness:
  "\<exists>rfs' k buf'. ram_fs_write 80 [7, 8] 1 sample_file_fs = Some (Inr 2, rfs') \<and>
     ram_fs_read 80 (byte_buf_new [0, 0, 0] 0 3) 1 rfs' = Some (Inr k, buf') \<and> byte_view_from_buf buf' = [7, 8]"
proof -
  note s = sample_file_fs_simps sample_file_ok
  obtain rfs' where w: "ram_fs_write 80 [7, 8] 1 sample_file_fs = Some (Inr 2, rfs')"
    using ram_fs_write_cases [OF s(1,4,2), of 1 "[7, 8]"] s(3,5) by auto
  show ?thesis
    using ram_fs_write_read [OF s(1,4,2) _ w, of "byte_buf_new [0, 0, 0] 0 3"] w s(5)
    by (auto simp: byte_buf_new_def wf_buf_def byte_view_from_buf_def)
qed

section \<open>Paths that are too deep\<close>

lemma tree_find_prefix: "tree_find ts (ws @ us) = Some t \<Longrightarrow> ws \<noteq> [] \<Longrightarrow> tree_find ts ws \<noteq> None"
proof (induction ts ws arbitrary: us rule: tree_find.induct)
  case (3 s ts w ws)
  then show ?case by (cases s; cases ws) (auto split: if_splits)
qed auto

lemma missing_parent: "0 < missing root ts (ws @ [w]) \<Longrightarrow> tree_at root ts ws = None"
proof (rule ccontr)
  assume m: "0 < missing root ts (ws @ [w])" and "tree_at root ts ws \<noteq> None"
  then obtain t where t: "tree_at root ts ws = Some t" by blast
  have "tree_at root ts (take k (ws @ [w])) \<noteq> None" if "k < Suc (length ws)" for k
  proof (cases "take k ws = []")
    case False
    have "tree_find ts (take k ws @ drop k ws) = Some t" using t False by (auto simp: tree_at_def split: if_splits)
    moreover have "take k ws \<noteq> []" using False that by auto
    ultimately show ?thesis using tree_find_prefix [of ts "take k ws" "drop k ws" t] that False by (auto simp: tree_at_def)
  qed (use that in \<open>simp add: tree_at_def\<close>)
  then have "filter (\<lambda>k. tree_at root ts (take k (ws @ [w])) = None) [0 ..< Suc (length ws)] = []"
    by (intro filter_False) (auto simp del: upt_Suc)
  then show False using m by (simp add: missing_def)
qed

text \<open>
  Every missing directory above the new node costs one text buffer of 4096 bytes in the scratch
  arena, besides the memory of the parser.
\<close>

lemma ram_fs_create_common_too_deep:
  assumes "fs_ok root rfs st" "path_of s = ws" "0 \<notin> set s" "int (length (slash # s)) \<le> PATH_NAME_MAX_LEN"
    "0 < missing root (fst st) ws" "ar_end arn - ar_beg arn < int (missing root (fst st) ws) * 0x1010"
  shows "ram_fs_create_common root (slash # s) type True arn rfs = None"
  using assms(2-)
proof (induction ws arbitrary: s type arn rule: rev_induct)
  case Nil
  then show ?case by (simp add: missing_def)
next
  case (snoc w ws)
  have gone: "tree_at root (fst st) ws = None" using missing_parent snoc.prems(4) by blast
  have m: "missing root (fst st) (ws @ [w]) = missing root (fst st) ws + 1"
    using missing_snoc gone by simp
  show ?case
  proof (cases "path_name_parse (slash # s) arn")
    case None
    then show ?thesis by (subst ram_fs_create_common.simps) simp
  next
    case (Some y)
    obtain r0 a0 where "y = (r0, a0)" by force
    with Some obtain p arn1 where p: "path_name_parse (slash # s) arn = Some (Inr p, arn1)" "path_ok p (ws @ [w])"
      "ar_end arn1 = ar_end arn" "ar_beg arn + 16 \<le> ar_beg arn1"
      using path_name_parse_inv [of s arn r0 a0] snoc.prems(1-3) by auto
    define q where "q = p\<lparr>pn_n_components := int (length ws)\<rparr>"
    have q: "path_ok q ws"
      using p(2) by (auto simp: q_def path_ok_def dest: arg_cong [where f = "take (length ws)"])
    have look: "ram_fs_node_lookup (rf_nodes rfs) root q = Some 0"
      using assms(1) ram_fs_node_lookup_finds [OF q] gone by (auto simp: fs_ok_def)
    have name: "\<exists>v. peek (pn_components p) (int (length ws)) = Some v"
      using p(2) by (simp add: path_ok_def peek_def)
    have step: "ram_fs_create_common root (slash # s) type True arn rfs = do {
          (parent_path, scratch) \<leftarrow> path_name_to_str q arn1;
          (parent_res, rfs) \<leftarrow> ram_fs_create_common root parent_path RAM_FS_TYPE_DIR True scratch rfs;
          v \<leftarrow> peek (pn_components p) (int (length ws));
          case parent_res of Inl e \<Rightarrow> Some (Inl e, rfs) | Inr parent \<Rightarrow> create_in parent v type rfs
        }"
      using p(1,2) name look
      by (subst ram_fs_create_common.simps) (auto simp: path_ok_def q_def [symmetric] Let_def)
    show ?thesis
    proof (cases "path_name_to_str q arn1")
      case None
      then show ?thesis using step by simp
    next
      case (Some z)
      obtain x arn2 where z: "z = (x, arn2)" by force
      have comps: "\<forall>v \<in> set (ws @ [w]). comp_ok v"
        using path_of_comp_ok [OF snoc.prems(2)] snoc.prems(1) by auto
      have len: "int (length (path_text ws)) \<le> int (length (slash # s))"
        using path_text_length [of s] snoc.prems(1) by (auto simp: path_text_def)
      have "map_option (\<lambda>(_, arn'). (path_text ws, arn')) (str_buf_from_arena arn1 PATH_NAME_MAX_LEN) = Some (x, arn2)"
        using path_name_to_str_eq [OF q, of arn1] Some z len snoc.prems(3) by simp
      then obtain b where b: "str_buf_from_arena arn1 PATH_NAME_MAX_LEN = Some (b, arn2)" "x = path_text ws" by auto
      have use: "ar_end arn2 = ar_end arn1" "ar_beg arn1 + 0x1000 \<le> ar_beg arn2" "ar_beg arn2 \<le> ar_end arn2"
        using str_buf_from_arena_buf [OF b(1)] by (simp_all add: PATH_NAME_MAX_LEN_def)
      have avail: "ar_end arn2 - ar_beg arn2 < int (missing root (fst st) ws) * 0x1010"
        using snoc.prems(5) m use p(3,4) by simp
      then have "0 < missing root (fst st) ws" using use(3) by (cases "missing root (fst st) ws") auto
      moreover obtain r where r: "path_text ws = slash # r" by (cases ws) (auto simp: path_text_def)
      moreover have "path_of r = ws" using path_of_text [of ws] comps r by simp
      moreover have "0 \<notin> set r"
      proof -
        have "0 \<notin> set (path_text ws)" using comps by (auto simp: path_text_def comp_ok_def zero_not_slash [symmetric])
        then show ?thesis using r by simp
      qed
      ultimately have "ram_fs_create_common root (slash # r) RAM_FS_TYPE_DIR True arn2 rfs = None"
        using snoc.IH [of r arn2 RAM_FS_TYPE_DIR] avail len snoc.prems(3) by simp
      then show ?thesis using step Some z b(2) r by simp
    qed
  qed
qed

text \<open>
  Creating a node under four or more missing directories stops the machine. The scratch arena
  has four times the maximal path length, so with \<open>recursive\<close> set the fourth missing directory
  makes the arena allocation crash, although the header promises the creation of missing parents
  or an error.
\<close>

theorem ram_fs_deep_create_halts:
  assumes "fs_ok root rfs st" and "rf_scratch rfs = arena_new a (4 * PATH_NAME_MAX_LEN)"
    and "path \<noteq> []" and "hd path = slash" and "0 \<notin> set path" and "int (length path) \<le> PATH_NAME_MAX_LEN"
    and "4 \<le> missing root (fst st) (path_of path)"
  shows "ram_fs_create_dir root path True rfs = None \<and> ram_fs_create_file root path True rfs = None"
proof -
  obtain s where s: "path = slash # s" using assms(3,4) by (cases path) auto
  have "ar_end (rf_scratch rfs) - ar_beg (rf_scratch rfs) < int (missing root (fst st) (path_of s)) * 0x1010"
    using assms(2,7) s by (simp add: arena_new_def PATH_NAME_MAX_LEN_def)
  then have "ram_fs_create_common root path type True (rf_scratch rfs) rfs = None" for type
    using ram_fs_create_common_too_deep [OF assms(1), of s "path_of s"] assms(5-7) s by simp
  then show ?thesis by (simp add: ram_fs_create_dir_def ram_fs_create_file_def)
qed

theorem ram_fs_deep_create_halts_witness:
  "ram_fs_create_dir 8 (cstr ''/a/b/c/d/e'') True sample_fs = None"
proof -
  have path: "path_of (cstr ''/a/b/c/d/e'') = [cstr ''a'', cstr ''b'', cstr ''c'', cstr ''d'', cstr ''e'']"
    by (simp add: path_of_def cstr_def slash_def)
  have "missing 8 [] (path_of (cstr ''/a/b/c/d/e'')) = 4"
    unfolding path by (simp add: missing_def tree_at_def upt_rec)
  then show ?thesis
    using ram_fs_deep_create_halts [OF sample_fs_ok, where a = "0x10000" and path = "cstr ''/a/b/c/d/e''"]
    by (simp add: sample_fs_def PATH_NAME_MAX_LEN_def cstr_def slash_def)
qed

end
