(* ===== verification/Sched.thy ===== *)
theory Sched
  imports Dlist Time Buddy
begin

text \<open>
  The cooperative scheduler (src/sched.c). Tasks that sleep are in an intrusive list ordered by
  their wake time; the running task is not in it. The context switch itself (src/sched.s) saves the
  registers on the stack of the old task and continues where the new task was left: here a
  suspended task carries the point at which it goes on, which is the entry function for a new task
  and the rest of \<open>sleep_ms\<close> (with its local variables) for every other one.
\<close>

section \<open>State\<close>

datatype task_ptr = Main_task | Task_at addr

datatype sched_node = Sleep_list | Sleep_of task_ptr

datatype task_point = At_entry | In_sleep time_ms time_ms

record sched_task =
  st_wake_time :: time_ms
  st_id :: u16
  st_point :: task_point

record sched =
  sc_initialized :: bool
  sc_next_id :: u16
  sc_current :: task_ptr
  sc_links :: "sched_node heap"
  sc_tasks :: "task_ptr \<Rightarrow> sched_task option"
  sc_clock :: clock
  sc_kv :: kvalloc

definition SIZEOF_SCHED_TASK :: sz where "SIZEOF_SCHED_TASK = 16440"

text \<open>The main task is zeroed, also its links; the current task is set before its first use.\<close>

definition sched_init :: "sched \<Rightarrow> sched option" where
  "sched_init s = do {
     kassert (\<not> sc_initialized s);
     let main = \<lparr>st_wake_time = 0, st_id = sc_next_id s, st_point = At_entry\<rparr>;
     let links = (sc_links s)(Sleep_of Main_task \<mapsto> \<lparr>dl_prev = None, dl_next = None\<rparr>,
                              Sleep_list \<mapsto> \<lparr>dl_prev = None, dl_next = None\<rparr>);
     links \<leftarrow> dlist_init_empty links Sleep_list;
     Some (s\<lparr>sc_next_id := sc_next_id s + 1, sc_current := Main_task, sc_links := links,
             sc_tasks := [Main_task \<mapsto> main], sc_initialized := True\<rparr>)
   }"

section \<open>The sleep list\<close>

text \<open>The walk of \<open>sched_add_sleeping\<close>: the node before which the new task goes.\<close>

partial_function (option) sleep_position ::
  "sched_node heap \<Rightarrow> (task_ptr \<Rightarrow> sched_task option) \<Rightarrow> time_ms \<Rightarrow> sched_node \<Rightarrow> sched_node option" where
  "sleep_position links tasks wake node =
     (case node of
        Sleep_list \<Rightarrow> Some Sleep_list
      | Sleep_of t \<Rightarrow> do {
          tk \<leftarrow> tasks t;
          if st_wake_time tk > wake then Some node
          else do {
            d \<leftarrow> links node;
            n \<leftarrow> dl_next d;
            sleep_position links tasks wake n
          }
        })"

definition sched_add_sleeping :: "task_ptr \<Rightarrow> sched \<Rightarrow> sched option" where
  "sched_add_sleeping new s = do {
     tk \<leftarrow> sc_tasks s new;
     d \<leftarrow> sc_links s Sleep_list;
     first \<leftarrow> dl_next d;
     node \<leftarrow> sleep_position (sc_links s) (sc_tasks s) (st_wake_time tk) first;
     d \<leftarrow> sc_links s node;
     p \<leftarrow> dl_prev d;
     links \<leftarrow> dlist_insert (sc_links s) p (Sleep_of new);
     Some (s\<lparr>sc_links := links\<rparr>)
   }"

definition sched_remove_sleeping :: "task_ptr \<Rightarrow> sched \<Rightarrow> sched option" where
  "sched_remove_sleeping t s = do {
     links \<leftarrow> dlist_remove (sc_links s) (Sleep_of t);
     Some (s\<lparr>sc_links := links\<rparr>)
   }"

text \<open>
  On an empty list the code takes the list head for a task and reads what happens to be there: no
  value.
\<close>

definition sched_poll_sleeping :: "sched \<Rightarrow> (task_ptr option \<times> sched) option" where
  "sched_poll_sleeping s = do {
     d \<leftarrow> sc_links s Sleep_list;
     n \<leftarrow> dl_next d;
     (now, ck) \<leftarrow> time_current_ms (sc_clock s);
     let s = s\<lparr>sc_clock := ck\<rparr>;
     case n of
       Sleep_list \<Rightarrow> None
     | Sleep_of t \<Rightarrow> do {
         tk \<leftarrow> sc_tasks s t;
         Some (if now < st_wake_time tk then None else Some t, s)
       }
   }"

partial_function (option) sched_get_ready :: "sched \<Rightarrow> (task_ptr \<times> sched) option" where
  "sched_get_ready s = do {
     (ready, s) \<leftarrow> sched_poll_sleeping s;
     case ready of None \<Rightarrow> sched_get_ready s | Some t \<Rightarrow> Some (t, s)
   }"

declare sleep_position.simps [code] sched_get_ready.simps [code]

section \<open>Tasks\<close>

text \<open>
  After a context switch the current task goes on at its point: at the callback, or behind the
  switch in its \<open>sleep_ms\<close>.
\<close>

definition sleep_ms_end :: "time_ms \<Rightarrow> time_ms \<Rightarrow> sched \<Rightarrow> sched option" where
  "sleep_ms_end start_time duration s = do {
     s \<leftarrow> sched_remove_sleeping (sc_current s) s;
     (now, ck) \<leftarrow> time_current_ms (sc_clock s);
     kassert (now - start_time \<ge> duration);
     Some (s\<lparr>sc_clock := ck\<rparr>)
   }"

definition resume :: "sched \<Rightarrow> sched option" where
  "resume s = do {
     tk \<leftarrow> sc_tasks s (sc_current s);
     case st_point tk of At_entry \<Rightarrow> Some s | In_sleep start_time duration \<Rightarrow> sleep_ms_end start_time duration s
   }"

definition sched_switch_task :: "task_ptr \<Rightarrow> sched \<Rightarrow> sched option" where
  "sched_switch_task next_task s =
     (if next_task = sc_current s then Some s
      else do {
        s \<leftarrow> sched_remove_sleeping next_task s;
        Some (s\<lparr>sc_current := next_task\<rparr>)
      })"

definition sched_final_switch_task :: "task_ptr \<Rightarrow> sched \<Rightarrow> sched option" where
  "sched_final_switch_task next_task s = do {
     kassert (next_task \<noteq> sc_current s);
     s \<leftarrow> sched_remove_sleeping next_task s;
     Some (s\<lparr>sc_current := next_task\<rparr>)
   }"

text \<open>The memory of the finished task is given back; nothing is stored there any more.\<close>

definition sched_task_finish :: "sched \<Rightarrow> sched option" where
  "sched_task_finish s = (case sc_current s of
      Main_task \<Rightarrow> None
    | Task_at p \<Rightarrow> do {
        kv \<leftarrow> kvalloc_free (p, SIZEOF_SCHED_TASK) (sc_kv s);
        let s = s\<lparr>sc_kv := kv, sc_tasks := (sc_tasks s)(Task_at p := None),
                  sc_links := (sc_links s)(Sleep_of (Task_at p) := None)\<rparr>;
        (ready, s) \<leftarrow> sched_get_ready s;
        s \<leftarrow> sched_final_switch_task ready s;
        resume s
      })"

text \<open>A new task starts with the wake time 0; its links are whatever the memory holds.\<close>

definition sched_create_task :: "sched_node dlist \<Rightarrow> sched \<Rightarrow> (unit res \<times> sched) option" where
  "sched_create_task raw s = do {
     kassert (sc_initialized s);
     (mem, kv) \<leftarrow> kvalloc_alloc SIZEOF_SCHED_TASK 8 (sc_kv s);
     let s = s\<lparr>sc_kv := kv\<rparr>;
     case mem of
       None \<Rightarrow> Some (Inl ENOMEM, s)
     | Some (p, _) \<Rightarrow> do {
         let tk = \<lparr>st_wake_time = 0, st_id = sc_next_id s, st_point = At_entry\<rparr>;
         let s = s\<lparr>sc_next_id := sc_next_id s + 1, sc_tasks := (sc_tasks s)(Task_at p \<mapsto> tk),
                   sc_links := (sc_links s)(Sleep_of (Task_at p) \<mapsto> raw)\<rparr>;
         s \<leftarrow> sched_add_sleeping (Task_at p) s;
         Some (ok, s)
       }
   }"

definition sched_current_id :: "sched \<Rightarrow> u16 option" where
  "sched_current_id s =
     (if \<not> sc_initialized s then Some 0
      else do { tk \<leftarrow> sc_tasks s (sc_current s); Some (st_id tk) })"

definition sleep_ms :: "time_ms \<Rightarrow> sched \<Rightarrow> sched option" where
  "sleep_ms duration s = do {
     kassert (sc_initialized s);
     (start_time, ck) \<leftarrow> time_current_ms (sc_clock s);
     tk \<leftarrow> sc_tasks s (sc_current s);
     let tk = tk\<lparr>st_wake_time := start_time + duration, st_point := In_sleep start_time duration\<rparr>;
     let s = s\<lparr>sc_clock := ck, sc_tasks := (sc_tasks s)(sc_current s \<mapsto> tk)\<rparr>;
     s \<leftarrow> sched_add_sleeping (sc_current s) s;
     (ready, s) \<leftarrow> sched_get_ready s;
     s \<leftarrow> sched_switch_task ready s;
     resume s
   }"

section \<open>Invariant\<close>

text \<open>
  The sleeping tasks \<open>ts\<close>: exactly the tasks that do not run, ordered by wake time. The main task
  always exists. A task that sleeps has a wake time that did not wrap around.
\<close>

definition wake :: "sched \<Rightarrow> task_ptr \<Rightarrow> time_ms" where
  "wake s t = (case sc_tasks s t of None \<Rightarrow> 0 | Some tk \<Rightarrow> st_wake_time tk)"

definition point_ok :: "sched_task \<Rightarrow> bool" where
  "point_ok tk \<longleftrightarrow> (case st_point tk of At_entry \<Rightarrow> True
     | In_sleep start dur \<Rightarrow> unat start + unat dur < 2 ^ 64 \<and> st_wake_time tk = start + dur)"

definition sleepers :: "sched \<Rightarrow> task_ptr list \<Rightarrow> bool" where
  "sleepers s ts \<longleftrightarrow> ring (sc_links s) Sleep_list (map Sleep_of ts) \<and>
     (\<forall>t \<in> set ts. \<exists>tk. sc_tasks s t = Some tk \<and> point_ok tk) \<and> sorted_wrt (\<lambda>a b. wake s a \<le> wake s b) ts"

definition sched_ok :: "sched \<Rightarrow> bool" where
  "sched_ok s \<longleftrightarrow> sc_initialized s \<and> clock_ok (sc_clock s) \<and>
     (\<exists>ts. sleepers s ts \<and> sc_current s \<notin> set ts \<and> dom (sc_tasks s) = insert (sc_current s) (set ts)) \<and>
     sc_links s (Sleep_of (sc_current s)) \<noteq> None \<and> Main_task \<in> dom (sc_tasks s)"

section \<open>The list in order\<close>

lemma seg_ends: "seg h a xs b \<Longrightarrow> nxt h a = Some (hd (xs @ [b])) \<and> prv h b = Some (last (a # xs))"
  by (induction xs arbitrary: a) auto

lemma nxt_Some: "nxt h a = Some b \<longleftrightarrow> (\<exists>d. h a = Some d \<and> dl_next d = Some b)"
  by (auto simp: nxt_def split: option.splits)

lemma prv_Some: "prv h a = Some b \<longleftrightarrow> (\<exists>d. h a = Some d \<and> dl_prev d = Some b)"
  by (auto simp: prv_def split: option.splits)

definition node_of :: "task_ptr list \<Rightarrow> sched_node" where
  "node_of ts = (case ts of [] \<Rightarrow> Sleep_list | t # _ \<Rightarrow> Sleep_of t)"

lemma node_of_hd: "hd (map Sleep_of ts @ [Sleep_list]) = node_of ts"
  by (cases ts) (auto simp: node_of_def)

lemma sleep_position_eq:
  "ring h Sleep_list (map Sleep_of (us @ ts)) \<Longrightarrow> (\<forall>t \<in> set ts. tasks t \<noteq> None) \<Longrightarrow>
     sleep_position h tasks w (node_of ts) =
       Some (node_of (dropWhile (\<lambda>t. st_wake_time (the (tasks t)) \<le> w) ts))"
proof (induction ts arbitrary: us)
  case Nil
  then show ?case by (subst sleep_position.simps) (simp add: node_of_def)
next
  case (Cons t ts)
  obtain tk where tk: "tasks t = Some tk" using Cons.prems(2) by auto
  show ?case
  proof (cases "st_wake_time tk > w")
    case True
    then have "\<not> st_wake_time tk \<le> w" by simp
    then show ?thesis using tk True by (subst sleep_position.simps) (simp add: node_of_def)
  next
    case False
    have "seg h (Sleep_of t) (map Sleep_of ts) Sleep_list"
      using Cons.prems(1) by (simp add: ring_def seg_append)
    then have "nxt h (Sleep_of t) = Some (node_of ts)" using seg_ends node_of_hd by metis
    then obtain d where "h (Sleep_of t) = Some d" "dl_next d = Some (node_of ts)" by (auto simp: nxt_Some)
    moreover have "sleep_position h tasks w (node_of ts) =
        Some (node_of (dropWhile (\<lambda>t. st_wake_time (the (tasks t)) \<le> w) ts))"
      using Cons.IH [of "us @ [t]"] Cons.prems by simp
    moreover have "st_wake_time tk \<le> w" using False by simp
    ultimately show ?thesis using False tk by (subst sleep_position.simps) (simp add: node_of_def [of "t # ts"])
  qed
qed

text \<open>The place of a new task: behind all tasks that do not wake later.\<close>

definition insert_sleeping :: "sched \<Rightarrow> task_ptr \<Rightarrow> task_ptr list \<Rightarrow> task_ptr list" where
  "insert_sleeping s t ts = takeWhile (\<lambda>u. wake s u \<le> wake s t) ts @ t # dropWhile (\<lambda>u. wake s u \<le> wake s t) ts"

lemma set_insert_sleeping [simp]: "set (insert_sleeping s t ts) = insert t (set ts)"
proof -
  have "set ts = set (takeWhile P ts) \<union> set (dropWhile P ts)" for P
    by (metis set_append takeWhile_dropWhile_id)
  then show ?thesis by (auto simp: insert_sleeping_def)
qed

lemma sorted_insert_sleeping:
  assumes "sorted_wrt (\<lambda>a b. wake s a \<le> wake s b) ts"
  shows "sorted_wrt (\<lambda>a b. wake s a \<le> wake s b) (insert_sleeping s t ts)"
  using assms
proof (induction ts)
  case (Cons u ts)
  then show ?case by (cases "wake s u \<le> wake s t") (auto simp: insert_sleeping_def dest: set_takeWhileD set_dropWhileD)
qed (simp add: insert_sleeping_def)

lemma sched_add_sleeping_ok:
  assumes "sleepers s ts" "new \<notin> set ts" "sc_tasks s new = Some tk" "point_ok tk"
    "sc_links s (Sleep_of new) \<noteq> None"
  shows "\<exists>h. sched_add_sleeping new s = Some (s\<lparr>sc_links := h\<rparr>) \<and>
    sleepers (s\<lparr>sc_links := h\<rparr>) (insert_sleeping s new ts) \<and> (\<forall>a. h a \<noteq> None \<longleftrightarrow> sc_links s a \<noteq> None)"
proof -
  let ?h = "sc_links s" and ?P = "\<lambda>u. wake s u \<le> wake s new"
  have ring: "ring ?h Sleep_list (map Sleep_of ts)" and tasks: "\<forall>t \<in> set ts. \<exists>tk. sc_tasks s t = Some tk \<and> point_ok tk"
    and sorted: "sorted_wrt (\<lambda>a b. wake s a \<le> wake s b) ts"
    using assms(1) by (auto simp: sleepers_def)
  have w: "st_wake_time (the (sc_tasks s u)) = wake s u" if "u \<in> set ts" for u
    using tasks that by (auto simp: wake_def)
  have wn: "st_wake_time tk = wake s new" using assms(3) by (simp add: wake_def)
  have drop: "dropWhile (\<lambda>u. st_wake_time (the (sc_tasks s u)) \<le> st_wake_time tk) ts = dropWhile ?P ts"
    by (rule dropWhile_cong) (auto simp: w wn)
  define us vs where "us = takeWhile ?P ts" and "vs = dropWhile ?P ts"
  have ts: "ts = us @ vs" by (simp add: us_def vs_def)
  have seg: "seg ?h Sleep_list (map Sleep_of us @ map Sleep_of vs) Sleep_list"
    using ring ts by (simp add: ring_def)
  obtain d where d: "?h Sleep_list = Some d" "dl_next d = Some (node_of ts)"
    using seg_ends [of ?h Sleep_list "map Sleep_of ts"] ring node_of_hd by (metis ring_def nxt_Some)
  have pos: "sleep_position ?h (sc_tasks s) (st_wake_time tk) (node_of ts) = Some (node_of vs)"
    using sleep_position_eq [of ?h "[]" ts "sc_tasks s" "st_wake_time tk"] ring tasks drop
    by (auto simp: vs_def)
  have "prv ?h (node_of vs) = Some (last (Sleep_list # map Sleep_of us))"
  proof (cases vs)
    case Nil
    then show ?thesis using seg_ends seg by (fastforce simp: node_of_def)
  next
    case (Cons v vs')
    then have "seg ?h Sleep_list (map Sleep_of us) (Sleep_of v)" using seg by (simp add: seg_append)
    then show ?thesis using seg_ends Cons by (fastforce simp: node_of_def)
  qed
  then obtain d' where d': "?h (node_of vs) = Some d'" "dl_prev d' = Some (last (Sleep_list # map Sleep_of us))"
    by (auto simp: prv_Some)
  have "Sleep_of new \<notin> set (Sleep_list # map Sleep_of us @ map Sleep_of vs)" using assms(2) ts by auto
  then obtain h where h: "dlist_insert ?h (last (Sleep_list # map Sleep_of us)) (Sleep_of new) = Some h"
    "ring h Sleep_list (map Sleep_of us @ Sleep_of new # map Sleep_of vs)"
    "(\<lambda>a. h a \<noteq> None) = (\<lambda>a. ?h a \<noteq> None)"
    using dl.ins_after [of ?h Sleep_list "map Sleep_of us" "map Sleep_of vs" "Sleep_of new"] ring ts assms(5)
    by auto
  have "sched_add_sleeping new s = Some (s\<lparr>sc_links := h\<rparr>)"
    using assms(3) d pos d' h(1) by (simp add: sched_add_sleeping_def del: last.simps)
  moreover have "sleepers (s\<lparr>sc_links := h\<rparr>) (insert_sleeping s new ts)"
    using h(2) tasks assms(3,4) sorted_insert_sleeping [OF sorted, of new] set_insert_sleeping [of s new ts]
    by (auto simp: sleepers_def insert_sleeping_def us_def vs_def wake_def)
  ultimately show ?thesis using h(3) by (metis (mono_tags))
qed

section \<open>Choosing a task\<close>

definition clock_now :: "sched \<Rightarrow> nat" where
  "clock_now s = clock_value (sc_clock s) (hw_tsc_reads (sc_clock s))"

definition read_clock :: "nat \<Rightarrow> sched \<Rightarrow> sched" where
  "read_clock n s = s\<lparr>sc_clock := (sc_clock s)\<lparr>hw_tsc_reads := n\<rparr>\<rparr>"

lemma read_clock_simps [simp]:
  "sc_links (read_clock n s) = sc_links s" "sc_tasks (read_clock n s) = sc_tasks s"
  "sc_current (read_clock n s) = sc_current s" "clock_ok (sc_clock (read_clock n s)) = clock_ok (sc_clock s)"
  "sleepers (read_clock n s) ts = sleepers s ts" "wake (read_clock n s) = wake s"
  "sc_initialized (read_clock n s) = sc_initialized s" "hw_tsc_reads (sc_clock (read_clock n s)) = n"
  "clock_value (sc_clock (read_clock n s)) = clock_value (sc_clock s)"
  "read_clock m (read_clock n s) = read_clock m s"
  by (auto simp: read_clock_def sleepers_def wake_def fun_eq_iff)

lemma sched_poll_ok:
  assumes "sleepers s (t # ts)" "clock_ok (sc_clock s)"
  shows "sched_poll_sleeping s = Some (if clock_now s < unat (wake s t) then None else Some t,
    read_clock (Suc (hw_tsc_reads (sc_clock s))) s)"
proof -
  have "seg (sc_links s) Sleep_list (map Sleep_of (t # ts)) Sleep_list"
    using assms(1) by (simp add: sleepers_def ring_def)
  then obtain d where d: "sc_links s Sleep_list = Some d" "dl_next d = Some (Sleep_of t)"
    by (auto simp: nxt_Some)
  obtain tk where tk: "sc_tasks s t = Some tk" using assms(1) by (auto simp: sleepers_def)
  obtain now where now: "time_current_ms (sc_clock s) = Some (now,
      (sc_clock s)\<lparr>hw_tsc_reads := Suc (hw_tsc_reads (sc_clock s))\<rparr>)" "unat now = clock_now s"
    using time_current_ms_ok [OF assms(2)] by (auto simp: clock_now_def)
  show ?thesis using d tk now
    by (simp add: sched_poll_sleeping_def read_clock_def wake_def word_less_nat_alt)
qed

text \<open>If the clock reaches the first wake time, the waiting loop returns the first sleeping task.\<close>

lemma sched_get_ready_ok:
  assumes "sleepers s (t # ts)" "clock_ok (sc_clock s)"
    "unat (wake s t) \<le> clock_value (sc_clock s) n" "hw_tsc_reads (sc_clock s) \<le> n"
  shows "\<exists>k. sched_get_ready s = Some (t, read_clock (Suc k) s) \<and> hw_tsc_reads (sc_clock s) \<le> k \<and>
    unat (wake s t) \<le> clock_value (sc_clock s) k"
  using assms
proof (induction "n - hw_tsc_reads (sc_clock s)" arbitrary: s)
  case 0
  then have "clock_now s = clock_value (sc_clock s) n" by (simp add: clock_now_def)
  then have "sched_get_ready s = Some (t, read_clock (Suc n) s)"
    using sched_poll_ok [OF "0.prems"(1,2)] 0 by (subst sched_get_ready.simps) simp
  then show ?case using 0 by auto
next
  case (Suc m)
  let ?s = "read_clock (Suc (hw_tsc_reads (sc_clock s))) s"
  show ?case
  proof (cases "clock_now s < unat (wake s t)")
    case True
    then have "sched_get_ready s = sched_get_ready ?s"
      using sched_poll_ok [OF Suc.prems(1,2)] by (subst sched_get_ready.simps) simp
    moreover have "hw_tsc_reads (sc_clock ?s) \<le> n" "m = n - hw_tsc_reads (sc_clock ?s)"
      using Suc.hyps(2) Suc.prems(4) by auto
    ultimately show ?thesis using Suc.hyps(1) [of ?s] Suc.prems by fastforce
  next
    case False
    then have "sched_get_ready s = Some (t, ?s)"
      using sched_poll_ok [OF Suc.prems(1,2)] by (subst sched_get_ready.simps) simp
    then show ?thesis using False by (intro exI [of _ "hw_tsc_reads (sc_clock s)"]) (auto simp: clock_now_def)
  qed
qed

text \<open>And whenever it returns, it has done just that.\<close>

lemma sched_get_ready_inv:
  assumes "sched_get_ready s = Some r" "sleepers s (t # ts)" "clock_ok (sc_clock s)"
  shows "\<exists>k. r = (t, read_clock (Suc k) s) \<and> hw_tsc_reads (sc_clock s) \<le> k \<and>
    unat (wake s t) \<le> clock_value (sc_clock s) k"
proof -
  let ?Q = "\<lambda>s r. \<exists>k. r = (t, read_clock (Suc k) s) \<and> hw_tsc_reads (sc_clock s) \<le> k \<and>
    unat (wake s t) \<le> clock_value (sc_clock s) k"
  have "sleepers s (t # ts) \<longrightarrow> clock_ok (sc_clock s) \<longrightarrow> ?Q s r"
  proof (rule sched_get_ready.raw_induct [where P = "\<lambda>s r. sleepers s (t # ts) \<longrightarrow> clock_ok (sc_clock s) \<longrightarrow> ?Q s r",
      OF _ assms(1)], intro impI)
    fix rec s r
    assume IH: "\<And>s r. rec s = Some r \<Longrightarrow> sleepers s (t # ts) \<longrightarrow> clock_ok (sc_clock s) \<longrightarrow> ?Q s r"
      and r: "sched_poll_sleeping s \<bind> (\<lambda>(ready, s). case ready of None \<Rightarrow> rec s | Some t \<Rightarrow> Some (t, s)) = Some r"
      and ok: "sleepers s (t # ts)" "clock_ok (sc_clock s)"
    let ?s = "read_clock (Suc (hw_tsc_reads (sc_clock s))) s"
    note poll = sched_poll_ok [OF ok]
    show "?Q s r"
    proof (cases "clock_now s < unat (wake s t)")
      case True
      then have "rec ?s = Some r" using r poll by simp
      then have "?Q ?s r" using IH [of ?s r] ok by simp
      then show ?thesis by auto
    next
      case False
      then have "r = (t, ?s)" using r poll by simp
      then show ?thesis using False by (auto simp: clock_now_def)
    qed
  qed
  then show ?thesis using assms by blast
qed

end
