(* ===== verification/SchedProps.thy ===== *)
theory SchedProps
  imports Sched
begin

text \<open>
  The scheduler keeps its invariant in every reachable state, and sleeping runs the task with the
  earliest wake time, never before it is due.
\<close>

section \<open>Switching\<close>

lemma wake_links [simp]: "wake (s\<lparr>sc_links := h\<rparr>) = wake s"
  by (simp add: wake_def fun_eq_iff)

lemma wake_current [simp]: "wake (s\<lparr>sc_current := t\<rparr>) = wake s"
  by (simp add: wake_def fun_eq_iff)

lemma sleepers_current [simp]: "sleepers (s\<lparr>sc_current := t\<rparr>) ts = sleepers s ts"
  by (simp add: sleepers_def)

text \<open>Taking the first task off the list.\<close>

lemma sched_remove_first:
  assumes "sleepers s (t # ts)"
  shows "\<exists>h. sched_remove_sleeping t s = Some (s\<lparr>sc_links := h\<rparr>) \<and> sleepers (s\<lparr>sc_links := h\<rparr>) ts \<and>
    ring h (Sleep_of t) [] \<and> (\<forall>a. h a \<noteq> None \<longleftrightarrow> sc_links s a \<noteq> None)"
proof -
  have "ring (sc_links s) Sleep_list ([] @ Sleep_of t # map Sleep_of ts)" using assms by (simp add: sleepers_def)
  then obtain h where h: "dlist_remove (sc_links s) (Sleep_of t) = Some h" "ring h Sleep_list (map Sleep_of ts)"
    "ring h (Sleep_of t) []" "(\<lambda>a. h a \<noteq> None) = (\<lambda>a. sc_links s a \<noteq> None)"
    using dl.del_member [of "sc_links s" Sleep_list "[]" "Sleep_of t" "map Sleep_of ts"] by auto
  then show ?thesis using assms by (auto simp: sched_remove_sleeping_def sleepers_def fun_eq_iff)
qed

text \<open>The state after a switch to the first sleeping task: it runs, and nothing else has changed.\<close>

definition switched :: "sched \<Rightarrow> task_ptr \<Rightarrow> task_ptr list \<Rightarrow> sched \<Rightarrow> bool" where
  "switched s t ts s' \<longleftrightarrow> sleepers s' ts \<and> sc_current s' = t \<and> sc_tasks s' = sc_tasks s \<and>
     sc_initialized s' = sc_initialized s \<and> (\<exists>n \<ge> hw_tsc_reads (sc_clock s). sc_clock s' = sc_clock (read_clock n s)) \<and>
     (\<forall>a. sc_links s' a \<noteq> None \<longleftrightarrow> sc_links s a \<noteq> None)"

text \<open>The assertion at the end of \<open>sleep_ms\<close>.\<close>

lemma slept_long_enough:
  assumes "unat start + unat dur < 2 ^ 64" "unat (start + dur) \<le> unat (now :: time_ms)"
  shows "dur \<le> now - start"
proof -
  have "unat (start + dur) = unat start + unat dur" using assms(1) by (simp add: unat_word_ariths)
  then have "unat start + unat dur \<le> unat now" using assms(2) by simp
  moreover have "unat (now - start) = unat now - unat start"
    using calculation by (intro unat_sub) (simp add: word_le_nat_alt)
  ultimately show ?thesis by (simp add: word_le_nat_alt)
qed

lemma sleep_ms_end_ok:
  assumes "dlist_remove (sc_links s) (Sleep_of (sc_current s)) = Some h" "clock_ok (sc_clock s)"
    "unat start + unat dur < 2 ^ 64" "unat (start + dur) \<le> clock_now s"
  shows "sleep_ms_end start dur s = Some (read_clock (Suc (hw_tsc_reads (sc_clock s))) (s\<lparr>sc_links := h\<rparr>))"
proof -
  obtain now where now: "time_current_ms (sc_clock s) = Some (now,
      (sc_clock s)\<lparr>hw_tsc_reads := Suc (hw_tsc_reads (sc_clock s))\<rparr>)" "unat now = clock_now s"
    using time_current_ms_ok [OF assms(2)] by (auto simp: clock_now_def)
  then have "dur \<le> now - start" using slept_long_enough assms(3,4) by simp
  then show ?thesis using assms(1) now
    by (simp add: sleep_ms_end_def sched_remove_sleeping_def read_clock_def)
qed

lemma switch_resume_ok:
  assumes s: "sleepers s (t # ts)" and ck: "clock_ok (sc_clock s)" and due: "unat (wake s t) \<le> clock_now s"
    and self: "t = sc_current s \<Longrightarrow> \<exists>tk. sc_tasks s t = Some tk \<and> st_point tk \<noteq> At_entry"
  shows "\<exists>s'. (sched_switch_task t s \<bind> resume) = Some s' \<and> switched s t ts s'"
proof -
  obtain h where h: "sched_remove_sleeping t s = Some (s\<lparr>sc_links := h\<rparr>)" "sleepers (s\<lparr>sc_links := h\<rparr>) ts"
    "ring h (Sleep_of t) []" "\<forall>a. h a \<noteq> None \<longleftrightarrow> sc_links s a \<noteq> None"
    using sched_remove_first [OF s] by blast
  obtain tk where tk: "sc_tasks s t = Some tk" "point_ok tk" using s by (auto simp: sleepers_def)
  have rem: "dlist_remove (sc_links s) (Sleep_of t) = Some h"
    using h(1) by (auto simp: sched_remove_sleeping_def bind_eq_Some_conv) (metis sched.ext_inject sched.surjective sched.update_convs(4))
  have rem2: "dlist_remove h (Sleep_of t) = Some h" by (rule dlist_remove_single [OF h(3)])
  show ?thesis
  proof (cases "t = sc_current s")
    case True
    then obtain start dur where p: "st_point tk = In_sleep start dur" using self tk by (cases "st_point tk") auto
    then have "sleep_ms_end start dur s = Some (read_clock (Suc (hw_tsc_reads (sc_clock s))) (s\<lparr>sc_links := h\<rparr>))"
      using sleep_ms_end_ok [OF _ ck] rem True tk due by (auto simp: point_ok_def wake_def)
    moreover have "(sched_switch_task t s \<bind> resume) = sleep_ms_end start dur s"
      using True tk(1) p by (simp add: sched_switch_task_def resume_def)
    ultimately show ?thesis using h(2,4) True
      by (auto simp: switched_def read_clock_def sleepers_def wake_def
          intro!: exI [of _ "Suc (hw_tsc_reads (sc_clock s))"])
  next
    case False
    let ?s = "s\<lparr>sc_links := h, sc_current := t\<rparr>"
    have sw: "sched_switch_task t s = Some ?s" using False h(1) by (simp add: sched_switch_task_def)
    show ?thesis
    proof (cases "st_point tk")
      case At_entry
      then have "resume ?s = Some ?s" using tk by (simp add: resume_def)
      moreover have "sc_clock ?s = sc_clock (read_clock (hw_tsc_reads (sc_clock s)) s)" by (simp add: read_clock_def)
      ultimately show ?thesis using sw h(2,4) unfolding switched_def by auto
    next
      case (In_sleep start dur)
      have "clock_now ?s = clock_now s" by (simp add: clock_now_def)
      then have "sleep_ms_end start dur ?s = Some (read_clock (Suc (hw_tsc_reads (sc_clock ?s))) (?s\<lparr>sc_links := h\<rparr>))"
        using sleep_ms_end_ok [of ?s h start dur] rem2 ck tk due In_sleep
        by (auto simp: point_ok_def wake_def)
      moreover have "resume ?s = sleep_ms_end start dur ?s" using tk(1) In_sleep by (simp add: resume_def)
      ultimately show ?thesis using sw h(2,4)
        by (auto simp: switched_def read_clock_def sleepers_def wake_def
            intro!: exI [of _ "Suc (hw_tsc_reads (sc_clock s))"])
    qed
  qed
qed

lemma switched_ok:
  assumes "switched s t ts s'" "sc_initialized s" "clock_ok (sc_clock s)" "t \<notin> set ts"
    "dom (sc_tasks s) = insert t (set ts)" "Main_task \<in> insert t (set ts)" "sc_links s (Sleep_of t) \<noteq> None"
  shows "sched_ok s'"
proof -
  obtain n where "sc_clock s' = sc_clock (read_clock n s)" using assms(1) by (auto simp: switched_def)
  then have "clock_ok (sc_clock s')" using assms(3) by simp
  then show ?thesis using assms unfolding switched_def sched_ok_def by auto
qed

section \<open>Sleeping\<close>

text \<open>The state in which the sleeping task waits for the next one, and the list then.\<close>

definition going_to_sleep :: "time_ms \<Rightarrow> time_ms \<Rightarrow> sched \<Rightarrow> sched" where
  "going_to_sleep start dur s = (read_clock (Suc (hw_tsc_reads (sc_clock s))) s)\<lparr>sc_tasks := (sc_tasks s)
     (sc_current s \<mapsto> (the (sc_tasks s (sc_current s)))\<lparr>st_wake_time := start + dur, st_point := In_sleep start dur\<rparr>)\<rparr>"

definition no_overflow :: "time_ms \<Rightarrow> sched \<Rightarrow> bool" where
  "no_overflow dur s \<longleftrightarrow> clock_now s + unat dur < 2 ^ 64"

definition falling_asleep :: "time_ms \<Rightarrow> sched \<Rightarrow> sched \<Rightarrow> task_ptr list \<Rightarrow> bool" where
  "falling_asleep dur s s1 ts \<longleftrightarrow> sleepers s1 ts \<and> clock_ok (sc_clock s1) \<and> distinct ts \<and>
    set ts = dom (sc_tasks s) \<and> dom (sc_tasks s1) = dom (sc_tasks s) \<and> sc_initialized s1 \<and>
    sc_current s1 = sc_current s \<and> (\<exists>tk. sc_tasks s1 (sc_current s) = Some tk \<and> st_point tk \<noteq> At_entry) \<and>
    (\<forall>u. u \<noteq> sc_current s \<longrightarrow> wake s1 u = wake s u) \<and> unat (wake s1 (sc_current s)) = clock_now s + unat dur \<and>
    sc_clock s1 = sc_clock (read_clock (Suc (hw_tsc_reads (sc_clock s))) s) \<and>
    (\<forall>u \<in> set ts. sc_links s1 (Sleep_of u) \<noteq> None)"

lemma sleep_ms_start:
  assumes ok: "sched_ok s" and dur: "no_overflow dur s"
  shows "\<exists>t ts s1. falling_asleep dur s s1 (t # ts) \<and>
    sleep_ms dur s = do { (ready, s2) \<leftarrow> sched_get_ready s1; sched_switch_task ready s2 \<bind> resume }"
proof -
  obtain ts where ts: "sleepers s ts" "sc_current s \<notin> set ts" "dom (sc_tasks s) = insert (sc_current s) (set ts)"
    and init: "sc_initialized s" and ck: "clock_ok (sc_clock s)" and cell: "sc_links s (Sleep_of (sc_current s)) \<noteq> None"
    using ok by (auto simp: sched_ok_def)
  obtain start where start: "time_current_ms (sc_clock s) = Some (start,
      (sc_clock s)\<lparr>hw_tsc_reads := Suc (hw_tsc_reads (sc_clock s))\<rparr>)" "unat start = clock_now s"
    using time_current_ms_ok [OF ck] by (auto simp: clock_now_def)
  obtain tk where tk: "sc_tasks s (sc_current s) = Some tk" using ts(3) by auto
  define tk' where "tk' = tk\<lparr>st_wake_time := start + dur, st_point := In_sleep start dur\<rparr>"
  define s0 where "s0 = going_to_sleep start dur s"
  have s0: "sc_tasks s0 = (sc_tasks s)(sc_current s \<mapsto> tk')" "sc_links s0 = sc_links s" "sc_current s0 = sc_current s"
    "sc_initialized s0" "sc_clock s0 = sc_clock (read_clock (Suc (hw_tsc_reads (sc_clock s))) s)"
    using init tk by (simp_all add: s0_def going_to_sleep_def tk'_def)
  have p: "point_ok tk'" using dur start(2) by (simp add: point_ok_def tk'_def no_overflow_def)
  have same: "wake s0 u = wake s u" if "u \<noteq> sc_current s" for u using that s0(1) by (simp add: wake_def)
  have "sorted_wrt (\<lambda>a b. wake s0 a \<le> wake s0 b) ts"
    using ts(1,2) by (auto simp: sleepers_def same intro!: sorted_wrt_mono_rel [of ts "\<lambda>a b. wake s a \<le> wake s b"])
      (metis same)
  then have sl: "sleepers s0 ts" using ts(1,2) s0(1,2) by (auto simp: sleepers_def)
  obtain h where h: "sched_add_sleeping (sc_current s) s0 = Some (s0\<lparr>sc_links := h\<rparr>)"
    "sleepers (s0\<lparr>sc_links := h\<rparr>) (insert_sleeping s0 (sc_current s) ts)" "\<forall>a. h a \<noteq> None \<longleftrightarrow> sc_links s0 a \<noteq> None"
    using sched_add_sleeping_ok [OF sl ts(2), of tk'] s0 p cell by auto
  define s1 where "s1 = s0\<lparr>sc_links := h\<rparr>"
  obtain t rest where l: "insert_sleeping s0 (sc_current s) ts = t # rest"
    by (cases "insert_sleeping s0 (sc_current s) ts") (auto simp: insert_sleeping_def)
  have mem: "set (t # rest) = dom (sc_tasks s)" using l set_insert_sleeping [of s0 "sc_current s" ts] ts(3) by simp
  have sl1: "sleepers s1 (t # rest)" using h(2) l by (simp add: s1_def)
  have dis: "distinct (t # rest)" using sl1 by (auto simp: sleepers_def ring_def distinct_map)
  have cells: "sc_links s1 (Sleep_of u) \<noteq> None" if "u \<in> set (t # rest)" for u
    using ring_dom [of "sc_links s1" Sleep_list "map Sleep_of (t # rest)" "Sleep_of u"] sl1 that
    by (auto simp: sleepers_def)
  have "sleep_ms dur s = do { (ready, s2) \<leftarrow> sched_get_ready s1; sched_switch_task ready s2 \<bind> resume }"
    using init start(1) tk h(1) unfolding s1_def s0_def
    by (simp add: sleep_ms_def going_to_sleep_def read_clock_def)
  moreover have "unat (wake s1 (sc_current s)) = clock_now s + unat dur"
    using s0(1) start(2) dur by (simp add: s1_def wake_def tk'_def no_overflow_def unat_word_ariths)
  ultimately show ?thesis using sl1 dis mem cells s0 ck tk same
    unfolding falling_asleep_def
    by (intro exI [of _ t] exI [of _ rest] exI [of _ s1]) (auto simp: s1_def tk'_def)
qed

lemma clock_now_read: "clock_ok (sc_clock s) \<Longrightarrow> v \<le> clock_value (sc_clock s) k \<Longrightarrow> v \<le> clock_now (read_clock (Suc k) s)"
  using clock_value_mono [of "sc_clock s" k "Suc k"] by (simp add: clock_now_def)

lemma wake_first: "sleepers s (t # ts) \<Longrightarrow> u \<in> set (t # ts) \<Longrightarrow> wake s t \<le> wake s u"
  by (auto simp: sleepers_def)

text \<open>What holds after \<open>sleep_ms\<close>: the task that is due first runs.\<close>

definition runs_earliest :: "time_ms \<Rightarrow> sched \<Rightarrow> sched \<Rightarrow> bool" where
  "runs_earliest dur s s' \<longleftrightarrow> sched_ok s' \<and> dom (sc_tasks s') = dom (sc_tasks s) \<and>
     (\<forall>u \<in> dom (sc_tasks s'). wake s' (sc_current s') \<le> wake s' u) \<and>
     unat (wake s' (sc_current s')) \<le> clock_now s' \<and>
     unat (wake s' (sc_current s)) = clock_now s + unat dur \<and>
     (\<forall>u. u \<noteq> sc_current s \<longrightarrow> wake s' u = wake s u)"

lemma sleep_ms_switch:
  assumes ok: "sched_ok s" and asleep: "falling_asleep dur s s1 (t # ts)"
    and k: "unat (wake s1 t) \<le> clock_value (sc_clock s1) k"
  shows "\<exists>s'. (sched_switch_task t (read_clock (Suc k) s1) \<bind> resume) = Some s' \<and> runs_earliest dur s s'"
proof -
  have s1: "sleepers s1 (t # ts)" "clock_ok (sc_clock s1)" "distinct (t # ts)"
      "set (t # ts) = dom (sc_tasks s)" "dom (sc_tasks s1) = dom (sc_tasks s)" "sc_initialized s1"
      "sc_current s1 = sc_current s" "\<exists>tk. sc_tasks s1 (sc_current s) = Some tk \<and> st_point tk \<noteq> At_entry"
      "\<forall>u. u \<noteq> sc_current s \<longrightarrow> wake s1 u = wake s u" "unat (wake s1 (sc_current s)) = clock_now s + unat dur"
      "\<forall>u \<in> set (t # ts). sc_links s1 (Sleep_of u) \<noteq> None"
    using asleep unfolding falling_asleep_def by blast+
  let ?s2 = "read_clock (Suc k) s1"
  have due: "unat (wake ?s2 t) \<le> clock_now ?s2" using clock_now_read [OF s1(2) k] by simp
  have "\<exists>tk. sc_tasks ?s2 t = Some tk \<and> st_point tk \<noteq> At_entry" if "t = sc_current ?s2" using that s1(7,8) by simp
  then obtain s' where s': "(sched_switch_task t ?s2 \<bind> resume) = Some s'" "switched ?s2 t ts s'"
    using switch_resume_ok [of ?s2 t ts] s1(1,2) due by auto
  have main: "Main_task \<in> set (t # ts)" using ok s1(4) by (auto simp: sched_ok_def)
  have "sched_ok s'"
  proof (rule switched_ok [OF s'(2)])
    show "dom (sc_tasks ?s2) = insert t (set ts)" using s1(4,5) by simp
    show "sc_links ?s2 (Sleep_of t) \<noteq> None" using s1(11) by simp
  qed (use s1(2,3,6) main in auto)
  moreover have w: "wake s' = wake s1" using s'(2) by (simp add: switched_def wake_def fun_eq_iff)
  moreover obtain n where n: "sc_clock s' = sc_clock (read_clock n ?s2)" "Suc k \<le> n"
    using s'(2) by (auto simp: switched_def)
  moreover have "unat (wake s1 t) \<le> clock_now s'"
    using due clock_value_mono [OF s1(2), of "Suc k" n] n by (simp add: clock_now_def)
  moreover have "dom (sc_tasks s') = dom (sc_tasks s)" "sc_current s' = t"
    using s'(2) s1(5) by (auto simp: switched_def)
  ultimately show ?thesis using s'(1) wake_first [OF s1(1)] s1(4,9,10) by (auto simp: runs_earliest_def)
qed

lemma sleep_ms_inv:
  assumes "sched_ok s" "no_overflow dur s" "sleep_ms dur s = Some s'"
  shows "runs_earliest dur s s'"
proof -
  obtain t ts s1 where s1: "falling_asleep dur s s1 (t # ts)"
    and run: "sleep_ms dur s = do { (ready, s2) \<leftarrow> sched_get_ready s1; sched_switch_task ready s2 \<bind> resume }"
    using sleep_ms_start [OF assms(1,2)] by blast
  obtain r where r: "sched_get_ready s1 = Some r"
    using run assms(3) by (cases "sched_get_ready s1") auto
  obtain k where k: "r = (t, read_clock (Suc k) s1)" "unat (wake s1 t) \<le> clock_value (sc_clock s1) k"
    using sched_get_ready_inv [OF r, of t ts] s1 by (auto simp: falling_asleep_def)
  show ?thesis using sleep_ms_switch [OF assms(1) s1 k(2)] run r k(1) assms(3) by auto
qed

lemma sleep_ms_returns:
  assumes "sched_ok s" "no_overflow dur s" "clock_now s + unat dur \<le> clock_value (sc_clock s) n"
  shows "\<exists>s'. sleep_ms dur s = Some s' \<and> runs_earliest dur s s'"
proof -
  obtain t ts s1 where s1: "falling_asleep dur s s1 (t # ts)"
    and run: "sleep_ms dur s = do { (ready, s2) \<leftarrow> sched_get_ready s1; sched_switch_task ready s2 \<bind> resume }"
    using sleep_ms_start [OF assms(1,2)] by blast
  have s: "sleepers s1 (t # ts)" "clock_ok (sc_clock s1)" "sc_current s \<in> set (t # ts)"
    "unat (wake s1 (sc_current s)) = clock_now s + unat dur"
    "sc_clock s1 = sc_clock (read_clock (Suc (hw_tsc_reads (sc_clock s))) s)"
    using s1 unfolding falling_asleep_def by blast+
  let ?m = "max n (hw_tsc_reads (sc_clock s1))"
  have "unat (wake s1 t) \<le> clock_now s + unat dur"
    using wake_first [OF s(1,3)] s(4) by (metis word_le_nat_alt)
  also have "\<dots> \<le> clock_value (sc_clock s1) n" using assms(3) s(5) by simp
  also have "\<dots> \<le> clock_value (sc_clock s1) ?m" by (rule clock_value_mono [OF s(2)]) simp
  finally obtain k where k: "sched_get_ready s1 = Some (t, read_clock (Suc k) s1)"
    "unat (wake s1 t) \<le> clock_value (sc_clock s1) k"
    using sched_get_ready_ok [OF s(1,2)] by fastforce
  show ?thesis using sleep_ms_switch [OF assms(1) s1 k(2)] run k(1) by auto
qed

section \<open>Creating and finishing tasks\<close>

definition fresh_task_memory :: "sched \<Rightarrow> bool" where
  "fresh_task_memory s \<longleftrightarrow> (case kvalloc_alloc SIZEOF_SCHED_TASK 8 (sc_kv s) of
     Some (Some (p, _), _) \<Rightarrow> Task_at p \<notin> dom (sc_tasks s) | _ \<Rightarrow> True)"

lemma sched_create_task_inv:
  assumes ok: "sched_ok s" and fresh: "fresh_task_memory s" and run: "sched_create_task raw s = Some (r, s')"
  shows "sched_ok s'"
proof -
  obtain ts where ts: "sleepers s ts" "sc_current s \<notin> set ts" "dom (sc_tasks s) = insert (sc_current s) (set ts)"
    and init: "sc_initialized s" and ck: "clock_ok (sc_clock s)" and cell: "sc_links s (Sleep_of (sc_current s)) \<noteq> None"
    and main: "Main_task \<in> dom (sc_tasks s)"
    using ok by (auto simp: sched_ok_def)
  obtain mem kv where kv: "kvalloc_alloc SIZEOF_SCHED_TASK 8 (sc_kv s) = Some (mem, kv)"
    using run init by (auto simp: sched_create_task_def bind_eq_Some_conv)
  show ?thesis
  proof (cases mem)
    case None
    then have "s' = s\<lparr>sc_kv := kv\<rparr>" using run init kv by (simp add: sched_create_task_def)
    then show ?thesis using ts init ck cell main by (auto simp: sched_ok_def sleepers_def wake_def)
  next
    case (Some m)
    obtain p l where m: "m = (p, l)" by force
    let ?t = "Task_at p"
    have new: "?t \<notin> dom (sc_tasks s)" using fresh kv Some m by (simp add: fresh_task_memory_def)
    define tk where "tk = \<lparr>st_wake_time = 0, st_id = sc_next_id s, st_point = At_entry\<rparr>"
    define s0 where "s0 = s\<lparr>sc_kv := kv, sc_next_id := sc_next_id s + 1, sc_tasks := (sc_tasks s)(?t \<mapsto> tk),
                   sc_links := (sc_links s)(Sleep_of ?t \<mapsto> raw)\<rparr>"
    have tnew: "?t \<notin> set ts" "?t \<noteq> sc_current s" using new ts(3) by auto
    have ring: "ring (sc_links s0) Sleep_list (map Sleep_of ts)"
      using ts(1) tnew by (auto simp: sleepers_def s0_def intro: ring_frame)
    have same: "wake s0 u = wake s u" if "u \<in> set ts" for u using that tnew by (auto simp: s0_def wake_def)
    have "sorted_wrt (\<lambda>a b. wake s0 a \<le> wake s0 b) ts"
      using ts(1) by (auto simp: sleepers_def same intro!: sorted_wrt_mono_rel [of ts "\<lambda>a b. wake s a \<le> wake s b"])
    then have sl: "sleepers s0 ts" using ts(1) tnew ring by (auto simp: sleepers_def s0_def)
    obtain h where h: "sched_add_sleeping ?t s0 = Some (s0\<lparr>sc_links := h\<rparr>)"
      "sleepers (s0\<lparr>sc_links := h\<rparr>) (insert_sleeping s0 ?t ts)" "\<forall>a. h a \<noteq> None \<longleftrightarrow> sc_links s0 a \<noteq> None"
      using sched_add_sleeping_ok [OF sl tnew(1), of tk] by (auto simp: s0_def tk_def point_ok_def)
    have "s' = s0\<lparr>sc_links := h\<rparr>" using run init kv Some m h(1)
      by (simp add: sched_create_task_def s0_def tk_def)
    then show ?thesis using h(2,3) ts tnew init ck cell main
      unfolding sched_ok_def by (intro conjI exI [of _ "insert_sleeping s0 ?t ts"]) (auto simp: s0_def)
  qed
qed

lemma sched_task_finish_inv:
  assumes ok: "sched_ok s" and run: "sched_task_finish s = Some s'"
  shows "sched_ok s'"
proof -
  obtain ts where ts: "sleepers s ts" "sc_current s \<notin> set ts" "dom (sc_tasks s) = insert (sc_current s) (set ts)"
    and init: "sc_initialized s" and ck: "clock_ok (sc_clock s)" and main: "Main_task \<in> dom (sc_tasks s)"
    using ok by (auto simp: sched_ok_def)
  obtain p where p: "sc_current s = Task_at p" using run
    by (cases "sc_current s") (auto simp: sched_task_finish_def)
  obtain kv where kv: "kvalloc_free (p, SIZEOF_SCHED_TASK) (sc_kv s) = Some kv"
    using run p by (auto simp: sched_task_finish_def bind_eq_Some_conv)
  define s0 where "s0 = s\<lparr>sc_kv := kv, sc_tasks := (sc_tasks s)(Task_at p := None),
                  sc_links := (sc_links s)(Sleep_of (Task_at p) := None)\<rparr>"
  have "ring (sc_links s0) Sleep_list (map Sleep_of ts)"
    using ts(1,2) p by (auto simp: sleepers_def s0_def intro: ring_frame)
  moreover have same: "wake s0 u = wake s u" if "u \<in> set ts" for u using that ts(2) p by (auto simp: s0_def wake_def)
  have "sorted_wrt (\<lambda>a b. wake s0 a \<le> wake s0 b) ts"
    using ts(1) by (auto simp: sleepers_def same intro!: sorted_wrt_mono_rel [of ts "\<lambda>a b. wake s a \<le> wake s b"])
  ultimately have sl: "sleepers s0 ts" using ts(1,2) p by (auto simp: sleepers_def s0_def)
  have "Main_task \<in> set ts" using main ts(3) p by auto
  then obtain t rest where l: "ts = t # rest" by (cases ts) auto
  have ck0: "clock_ok (sc_clock s0)" using ck by (simp add: s0_def)
  have rest: "do { (ready, s) \<leftarrow> sched_get_ready s0; s \<leftarrow> sched_final_switch_task ready s; resume s } = Some s'"
    using run p kv unfolding s0_def by (simp add: sched_task_finish_def)
  then obtain r where r: "sched_get_ready s0 = Some r" by (auto simp: bind_eq_Some_conv)
  obtain k where k: "r = (t, read_clock (Suc k) s0)" "unat (wake s0 t) \<le> clock_value (sc_clock s0) k"
    using sched_get_ready_inv [OF r _ ck0] sl l by blast
  let ?s2 = "read_clock (Suc k) s0"
  have cur: "t \<noteq> sc_current ?s2" using ts(2) l by (auto simp: s0_def)
  then have "sched_final_switch_task t ?s2 = sched_switch_task t ?s2"
    by (simp add: sched_final_switch_task_def sched_switch_task_def)
  then have "(sched_switch_task t ?s2 \<bind> resume) = Some s'" using rest r k(1) by simp
  moreover obtain s'' where "(sched_switch_task t ?s2 \<bind> resume) = Some s''" "switched ?s2 t rest s''"
    using switch_resume_ok [of ?s2 t rest] sl l ck0 clock_now_read [OF ck0 k(2)] cur by auto
  ultimately have sw: "switched ?s2 t rest s'" by simp
  have "distinct ts" using ts(1) by (auto simp: sleepers_def ring_def distinct_map)
  moreover have "sc_links s0 (Sleep_of t) \<noteq> None"
    using ring_dom [of "sc_links s0" Sleep_list "map Sleep_of ts" "Sleep_of t"] sl l by (auto simp: sleepers_def)
  ultimately show ?thesis
    using switched_ok [OF sw] ts(2,3) l p init ck0 main by (auto simp: s0_def)
qed

lemma sched_init_inv:
  assumes "sched_init s = Some s'" "clock_ok (sc_clock s)"
  shows "sched_ok s'"
proof -
  let ?h = "(sc_links s)(Sleep_of Main_task \<mapsto> \<lparr>dl_prev = None, dl_next = None\<rparr>, Sleep_list \<mapsto> \<lparr>dl_prev = None, dl_next = None\<rparr>)"
  obtain h where h: "dlist_init_empty ?h Sleep_list = Some h" "ring h Sleep_list []" "dom h = dom ?h"
    using dlist_init_empty_ring [of ?h Sleep_list] by auto
  have s': "s' = s\<lparr>sc_next_id := sc_next_id s + 1, sc_current := Main_task, sc_links := h,
      sc_tasks := [Main_task \<mapsto> \<lparr>st_wake_time = 0, st_id = sc_next_id s, st_point = At_entry\<rparr>],
      sc_initialized := True\<rparr>"
    using assms h(1) by (auto simp: sched_init_def bind_eq_Some_conv)
  have "Sleep_of Main_task \<in> dom h" using h(3) by simp
  then show ?thesis using h(2) assms(2) unfolding sched_ok_def sleepers_def s'
    by (intro conjI exI [of _ "[]"]) (auto simp: dom_def)
qed

section \<open>Reachable states\<close>

text \<open>
  The running task initialises the scheduler, creates tasks, sleeps, or (by returning from its
  callback) finishes; memory for a new task is not the memory of a task that exists.
\<close>

inductive sched_reachable :: "sched \<Rightarrow> bool" where
  reach_init: "sched_init s = Some s' \<Longrightarrow> clock_ok (sc_clock s) \<Longrightarrow> sched_reachable s'"
| reach_create: "sched_reachable s \<Longrightarrow> fresh_task_memory s \<Longrightarrow> sched_create_task raw s = Some (r, s') \<Longrightarrow>
    sched_reachable s'"
| reach_sleep: "sched_reachable s \<Longrightarrow> no_overflow dur s \<Longrightarrow> sleep_ms dur s = Some s' \<Longrightarrow> sched_reachable s'"
| reach_finish: "sched_reachable s \<Longrightarrow> sched_task_finish s = Some s' \<Longrightarrow> sched_reachable s'"

lemma sched_reachable_ok: "sched_reachable s \<Longrightarrow> sched_ok s"
  by (induction rule: sched_reachable.induct)
    (auto intro: sched_init_inv sched_create_task_inv sched_task_finish_inv dest: sleep_ms_inv simp: runs_earliest_def)

definition sample_sched0 :: sched where
  "sample_sched0 = \<lparr>sc_initialized = False, sc_next_id = 0, sc_current = Main_task, sc_links = Map.empty,
     sc_tasks = Map.empty, sc_clock = sample_clock, sc_kv = \<lparr>kv_virt_alloc = None, kv_initialized = False\<rparr>\<rparr>"

definition sample_sched :: sched where
  "sample_sched = the (sched_init sample_sched0)"

lemma sample_sched_init: "sched_init sample_sched0 = Some sample_sched"
  by (simp add: sample_sched_def sched_init_def sample_sched0_def dlist_init_empty_def set_next_def set_prev_def)

lemma sample_sched_simps: "sc_current sample_sched = Main_task" "sc_clock sample_sched = sample_clock"
  "dom (sc_tasks sample_sched) = {Main_task}"
  by (simp_all add: sample_sched_def sched_init_def sample_sched0_def dlist_init_empty_def set_next_def set_prev_def
      dom_def)

lemma sample_sched_reachable: "sched_reachable sample_sched"
  by (rule reach_init [OF sample_sched_init]) (simp add: sample_sched0_def sample_clock_ok)

text \<open>
  C19: the invariant of the scheduler. In every reachable state the sleep list is a well-formed ring
  of exactly the tasks that are not running, ordered by wake time without duplicates; the main task
  is always there, so the scheduler never polls an empty list while another task runs.
\<close>

theorem sched_reachable_invariant:
  assumes "sched_reachable s"
  shows "\<exists>ts. ring (sc_links s) Sleep_list (map Sleep_of ts) \<and> distinct ts \<and>
    sorted_wrt (\<lambda>a b. wake s a \<le> wake s b) ts \<and> dom (sc_tasks s) = insert (sc_current s) (set ts) \<and>
    sc_current s \<notin> set ts \<and> Main_task \<in> insert (sc_current s) (set ts)"
proof -
  obtain ts where "sleepers s ts" "sc_current s \<notin> set ts" "dom (sc_tasks s) = insert (sc_current s) (set ts)"
    "Main_task \<in> dom (sc_tasks s)"
    using sched_reachable_ok [OF assms] by (auto simp: sched_ok_def)
  then show ?thesis by (intro exI [of _ ts]) (auto simp: sleepers_def ring_def distinct_map)
qed

theorem sched_reachable_invariant_witness:
  "\<exists>ts. ring (sc_links sample_sched) Sleep_list (map Sleep_of ts) \<and> distinct ts \<and> Main_task \<notin> set ts"
  using sched_reachable_invariant [OF sample_sched_reachable] sample_sched_simps by auto

text \<open>
  C20: sleeping works. When the clock goes on for long enough, \<open>sleep_ms\<close> in a reachable state
  returns to a running task: the one with the earliest wake time of all tasks, and not before that
  time, so the assertion on the slept time holds. The task that called it wakes after the duration
  that it asked for, and the wake times of the others are untouched.
\<close>

theorem sleep_ms_runs_earliest:
  assumes "sched_reachable s" and "clock_now s + unat dur < 2 ^ 64"
    and "clock_now s + unat dur \<le> clock_value (sc_clock s) n"
  shows "\<exists>s'. sleep_ms dur s = Some s' \<and> sched_ok s' \<and> dom (sc_tasks s') = dom (sc_tasks s) \<and>
    (\<forall>u \<in> dom (sc_tasks s'). wake s' (sc_current s') \<le> wake s' u) \<and>
    unat (wake s' (sc_current s')) \<le> clock_now s' \<and>
    unat (wake s' (sc_current s)) = clock_now s + unat dur \<and>
    (\<forall>u. u \<noteq> sc_current s \<longrightarrow> wake s' u = wake s u)"
  using sleep_ms_returns [of s dur n] sched_reachable_ok [OF assms(1)] assms(2,3)
  by (auto simp: no_overflow_def runs_earliest_def)

theorem sleep_ms_runs_earliest_witness:
  "\<exists>s'. sleep_ms 20 sample_sched = Some s' \<and> sc_current s' = Main_task \<and> unat (wake s' Main_task) = 20"
proof -
  have now: "clock_now sample_sched = 0" "clock_value (sc_clock sample_sched) 10 = 20"
    by (simp_all add: clock_now_def sample_sched_simps clock_value_def sample_clock_def)
  obtain s' where s': "sleep_ms 20 sample_sched = Some s'" "sched_ok s'"
    "dom (sc_tasks s') = dom (sc_tasks sample_sched)" "unat (wake s' (sc_current sample_sched)) = 20"
    using sleep_ms_runs_earliest [OF sample_sched_reachable, of 20 10] now by auto
  then have "sc_current s' = Main_task" using sample_sched_simps(3) by (auto simp: sched_ok_def)
  then show ?thesis using s' sample_sched_simps(1) by simp
qed

end
