(* ===== verification/Web.thy ===== *)
theory Web
  imports RamProps Fmt
begin

text \<open>
  The web server (src/web.c), first part: requests, responses and serving files from the RAM file
  system. A request is the text that was received, a response is appended to a byte buffer. The
  commit of the build, which the preprocessor puts into the error pages, is a parameter.
\<close>

section \<open>Requests\<close>

datatype http_method = HTTP_METHOD_GET
datatype http_version = HTTP_VERSION_1_0 | HTTP_VERSION_1_1
datatype http_status = HTTP_STATUS_OK | HTTP_STATUS_BAD_REQUEST | HTTP_STATUS_FORBIDDEN
  | HTTP_STATUS_NOT_FOUND | HTTP_STATUS_INSUFFICIENT_STORAGE
datatype http_content_type = HTTP_CONTENT_TYPE_TEXT_HTML | HTTP_CONTENT_TYPE_TEXT_PLAIN
  | HTTP_CONTENT_TYPE_TEXT_CSS | HTTP_CONTENT_TYPE_IMAGE_PNG | HTTP_CONTENT_TYPE_IMAGE_JPEG

fun http_status_code :: "http_status \<Rightarrow> u32" where
  "http_status_code HTTP_STATUS_OK = 200"
| "http_status_code HTTP_STATUS_BAD_REQUEST = 400"
| "http_status_code HTTP_STATUS_FORBIDDEN = 403"
| "http_status_code HTTP_STATUS_NOT_FOUND = 404"
| "http_status_code HTTP_STATUS_INSUFFICIENT_STORAGE = 507"

record http_request =
  rq_method :: http_method
  rq_path :: "byte list"
  rq_version :: http_version
  rq_valid :: bool

definition http_get_file_extension :: "byte list \<Rightarrow> byte list" where
  "http_get_file_extension path =
     (case str_find_char_reverse path (of_char (CHR ''.'')) of
        None \<Rightarrow> []
      | Some pos \<Rightarrow> drop (nat pos) path)"

definition http_get_content_type_from_extension :: "byte list \<Rightarrow> http_content_type" where
  "http_get_content_type_from_extension extension =
     (if str_is_equal extension (cstr ''.html'') \<or> str_is_equal extension (cstr ''.htm'') then HTTP_CONTENT_TYPE_TEXT_HTML
      else if str_is_equal extension (cstr ''.css'') then HTTP_CONTENT_TYPE_TEXT_CSS
      else if str_is_equal extension (cstr ''.png'') then HTTP_CONTENT_TYPE_IMAGE_PNG
      else if str_is_equal extension (cstr ''.jpg'') then HTTP_CONTENT_TYPE_IMAGE_JPEG
      else HTTP_CONTENT_TYPE_TEXT_PLAIN)"

definition http_parse_method :: "byte list \<Rightarrow> http_method res" where
  "http_parse_method method_str =
     (if str_is_equal method_str (cstr ''GET'') then Inr HTTP_METHOD_GET else Inl EINVAL)"

definition http_parse_version :: "byte list \<Rightarrow> http_version res" where
  "http_parse_version version_str =
     (if str_is_equal version_str (cstr ''HTTP/1.1'') then Inr HTTP_VERSION_1_1
      else if str_is_equal version_str (cstr ''HTTP/1.0'') then Inr HTTP_VERSION_1_0
      else Inl EINVAL)"

fun http_method_to_string :: "http_method \<Rightarrow> byte list" where
  "http_method_to_string HTTP_METHOD_GET = cstr ''GET''"

fun http_version_to_string :: "http_version \<Rightarrow> byte list" where
  "http_version_to_string HTTP_VERSION_1_1 = cstr ''HTTP/1.1''"
| "http_version_to_string HTTP_VERSION_1_0 = cstr ''HTTP/1.0''"

fun http_status_to_string :: "http_status \<Rightarrow> byte list" where
  "http_status_to_string HTTP_STATUS_OK = cstr ''OK''"
| "http_status_to_string HTTP_STATUS_BAD_REQUEST = cstr ''Bad Request''"
| "http_status_to_string HTTP_STATUS_FORBIDDEN = cstr ''Forbidden''"
| "http_status_to_string HTTP_STATUS_NOT_FOUND = cstr ''Not Found''"
| "http_status_to_string HTTP_STATUS_INSUFFICIENT_STORAGE = cstr ''Insufficient Storage''"

fun http_content_type_to_string :: "http_content_type \<Rightarrow> byte list" where
  "http_content_type_to_string HTTP_CONTENT_TYPE_TEXT_HTML = cstr ''text/html''"
| "http_content_type_to_string HTTP_CONTENT_TYPE_TEXT_PLAIN = cstr ''text/plain''"
| "http_content_type_to_string HTTP_CONTENT_TYPE_TEXT_CSS = cstr ''text/css''"
| "http_content_type_to_string HTTP_CONTENT_TYPE_IMAGE_PNG = cstr ''image/png''"
| "http_content_type_to_string HTTP_CONTENT_TYPE_IMAGE_JPEG = cstr ''image/jpeg''"

text \<open>The carriage return and the line feed.\<close>

definition CR :: byte where "CR = 13"
definition LF :: byte where "LF = 10"

definition CRLF :: "byte list" where "CRLF = [CR, LF]"

definition is_printable_ascii :: "byte \<Rightarrow> bool" where
  "is_printable_ascii c \<longleftrightarrow> (0x20 \<le> c \<and> c \<le> 0x7E) \<or> c = 0x09 \<or> c = 0x0A \<or> c = 0x0D"

text \<open>The loop that copies the header of a bad request for the log.\<close>

fun printable_loop :: "byte list \<Rightarrow> str_buf \<Rightarrow> str_buf option" where
  "printable_loop [] buf = Some buf"
| "printable_loop (c # cs) buf = do {
     (_, buf) \<leftarrow> str_buf_append_char buf (if is_printable_ascii c then c else of_char (CHR ''?''));
     printable_loop cs buf
   }"

definition http_request_header_str :: "byte list \<Rightarrow> arena \<Rightarrow> byte list option" where
  "http_request_header_str request_data tmp = do {
     end_idx \<leftarrow> str_find_substring request_data (CRLF @ CRLF);
     case end_idx of
       None \<Rightarrow> Some (cstr ''<Not an HTTP header>'')
     | Some i \<Rightarrow> do {
         let len = min i 300;
         (buf, _) \<leftarrow> str_buf_from_arena tmp len;
         buf \<leftarrow> printable_loop (take (nat len) request_data) buf;
         Some (byte_view_from_buf buf)
       }
   }"

definition http_parse_request :: "byte list \<Rightarrow> http_request" where
  "http_parse_request request_data =
     (let req = \<lparr>rq_method = HTTP_METHOD_GET, rq_path = [], rq_version = HTTP_VERSION_1_0, rq_valid = False\<rparr>;
          space = of_char (CHR '' '') in
      case str_find_char request_data space of
        None \<Rightarrow> req
      | Some space1_pos \<Rightarrow>
        (case http_parse_method (take (nat space1_pos) request_data) of
           Inl e \<Rightarrow> req
         | Inr method \<Rightarrow>
           (let req = req\<lparr>rq_method := method\<rparr>;
                remaining = drop (nat (space1_pos + 1)) request_data in
            case str_find_char remaining space of
              None \<Rightarrow> req
            | Some space2_pos \<Rightarrow>
              (let req = req\<lparr>rq_path := take (nat space2_pos) remaining\<rparr>;
                   version_and_rest = drop (nat (space2_pos + 1)) remaining;
                   newline_pos = (case str_find_char version_and_rest CR of
                     None \<Rightarrow> str_find_char version_and_rest LF | Some p \<Rightarrow> Some p) in
               case newline_pos of
                 None \<Rightarrow> req
               | Some nl_pos \<Rightarrow>
                 (case http_parse_version (take (nat nl_pos) version_and_rest) of
                    Inl e \<Rightarrow> req
                  | Inr version \<Rightarrow> req\<lparr>rq_version := version, rq_valid := True\<rparr>)))))"

section \<open>Responses\<close>

text \<open>
  The header is formatted into a copy of the buffer structure that shares its memory; the buffer
  of the caller is set only at the end, so after an error it has its old length, over memory that
  holds the part of the header that was written.
\<close>

definition http_build_header ::
  "http_status \<Rightarrow> http_content_type \<Rightarrow> sz \<Rightarrow> byte_buf \<Rightarrow> (unit res \<times> byte_buf) option" where
  "http_build_header status content_type body_len response_buf = (
     let buf = response_buf; fail = (\<lambda>e buf. Some (Inl e, response_buf\<lparr>bb_dat := bb_dat buf\<rparr>)) in do {
     (res, buf) \<leftarrow> fmt_vfmt buf (cstr ''HTTP/1.1 %u %s'' @ CRLF)
       [Arg32 (http_status_code status), ArgStr (Some (http_status_to_string status))];
     case res of Inl e \<Rightarrow> fail e buf | Inr _ \<Rightarrow> do {
     (res, buf) \<leftarrow> fmt_vfmt buf (cstr ''Content-Type: %s'' @ CRLF)
       [ArgStr (Some (http_content_type_to_string content_type))];
     case res of Inl e \<Rightarrow> fail e buf | Inr _ \<Rightarrow> do {
     kassert (body_len \<ge> 0);
     (res, buf) \<leftarrow> fmt_vfmt buf (cstr ''Content-Length: %lu'' @ CRLF) [Arg64 (word_of_int body_len)];
     case res of Inl e \<Rightarrow> fail e buf | Inr _ \<Rightarrow> do {
     (res, buf) \<leftarrow> str_buf_append buf (cstr ''Connection: close'' @ CRLF);
     case res of Inl e \<Rightarrow> fail e buf | Inr _ \<Rightarrow> do {
     (res, buf) \<leftarrow> str_buf_append buf CRLF;
     case res of Inl e \<Rightarrow> fail e buf | Inr _ \<Rightarrow> Some (ok, buf) }}}}})"

definition http_build_response ::
  "http_status \<Rightarrow> http_content_type \<Rightarrow> byte list \<Rightarrow> byte_buf \<Rightarrow> (unit res \<times> byte_buf) option" where
  "http_build_response status content_type body response_buf =
     (if bb_cap response_buf < bb_len response_buf + int (length body) then Some (Inl ENOMEM, response_buf)
      else do {
        (res, response_buf) \<leftarrow> http_build_header status content_type (int (length body)) response_buf;
        case res of
          Inl e \<Rightarrow> Some (Inl e, response_buf)
        | Inr _ \<Rightarrow> do {
            (n_appended, response_buf) \<leftarrow> byte_buf_append response_buf body;
            if n_appended \<noteq> int (length body) then Some (Inl ENOMEM, response_buf)
            else Some (ok, response_buf)
          }
      })"

definition quoted :: "byte list" where "quoted = [0x22]"

definition HTML_PAGE :: "byte list \<Rightarrow> byte list \<Rightarrow> byte list \<Rightarrow> byte list" where
  "HTML_PAGE git_commit title content =
     cstr ''<!DOCTYPE html><html lang='' @ quoted @ cstr ''en'' @ quoted @ cstr ''><head><meta charset='' @
     quoted @ cstr ''UTF-8'' @ quoted @ cstr ''><meta name='' @ quoted @ cstr ''viewport'' @ quoted @
     cstr '' content='' @ quoted @ cstr ''width=device-width, initial-scale=1.0'' @ quoted @
     cstr ''><title>'' @ title @ cstr ''</title></head><body>'' @ content @
     cstr ''<footer><hr/><small>Served by Tatix ('' @ git_commit @ cstr '')</small></footer></body></html>''"

definition forbidden_body :: "byte list \<Rightarrow> byte list" where
  "forbidden_body git_commit = HTML_PAGE git_commit (cstr ''403 Forbidden'')
     (cstr ''<h1>403 Forbidden</h1><p>Directory listing not allowed.</p>'')"

definition not_found_body :: "byte list \<Rightarrow> byte list" where
  "not_found_body git_commit = HTML_PAGE git_commit (cstr ''404 Not Found'')
     (cstr ''<h1>404 Not Found</h1><p>The requested file was not found.</p>'')"

definition bad_request_body :: "byte list \<Rightarrow> byte list" where
  "bad_request_body git_commit = HTML_PAGE git_commit (cstr ''400 Bad Request'')
     (cstr ''<h1>400 Bad Request</h1><p>Invalid HTTP request.</p>'')"

definition insufficient_storage_body :: "byte list \<Rightarrow> byte list" where
  "insufficient_storage_body git_commit = HTML_PAGE git_commit (cstr ''507 Insufficient Storage'')
     (cstr ''<h1>507 Insufficient Storage</h1><p>The server does not have enought memory to store your request.</p>'')"

definition http_serve_file ::
  "byte list \<Rightarrow> addr \<Rightarrow> byte list \<Rightarrow> byte_buf \<Rightarrow> 'a ram_fs \<Rightarrow> (unit res \<times> byte_buf) option" where
  "http_serve_file git_commit root path response_buf rfs = (
     let path = (if path = [] \<or> (length path = 1 \<and> path ! 0 = slash) then cstr ''/index.html'' else path) in do {
       file_result \<leftarrow> ram_fs_open root path rfs;
       case file_result of
         Inl e \<Rightarrow> http_build_response HTTP_STATUS_NOT_FOUND HTTP_CONTENT_TYPE_TEXT_HTML
           (not_found_body git_commit) response_buf
       | Inr file_node \<Rightarrow> do {
           nd \<leftarrow> rf_nodes rfs file_node;
           if fn_type nd \<noteq> RAM_FS_TYPE_FILE then
             http_build_response HTTP_STATUS_FORBIDDEN HTTP_CONTENT_TYPE_TEXT_HTML
               (forbidden_body git_commit) response_buf
           else
             let content_type = http_get_content_type_from_extension (http_get_file_extension path) in
             http_build_response HTTP_STATUS_OK content_type (byte_view_from_buf (fn_data nd)) response_buf
         }
     })"

definition http_handle_request ::
  "byte list \<Rightarrow> addr \<Rightarrow> byte list \<Rightarrow> byte_buf \<Rightarrow> arena \<Rightarrow> 'a ram_fs \<Rightarrow> (unit res \<times> byte_buf) option" where
  "http_handle_request git_commit root request_data response_buf tmp rfs = (
     let req = http_parse_request request_data in
     if \<not> rq_valid req then do {
       _ \<leftarrow> http_request_header_str request_data tmp;
       http_build_response HTTP_STATUS_BAD_REQUEST HTTP_CONTENT_TYPE_TEXT_HTML
         (bad_request_body git_commit) response_buf
     }
     else http_serve_file git_commit root (rq_path req) response_buf rfs)"

definition http_is_complete_header :: "byte list \<Rightarrow> bool option" where
  "http_is_complete_header request_data = do {
     i \<leftarrow> str_find_substring request_data (CRLF @ CRLF);
     Some (i \<noteq> None)
   }"

end
