(* ===== verification/WebProps.thy ===== *)
theory WebProps
  imports Web
begin

text \<open>
  The properties of requests and responses: what a response looks like, that requests parse, which
  response every request gets, and the request that stops the machine.
\<close>

section \<open>Formats as lists of pieces\<close>

text \<open>A format string without modifiers other than \<open>l\<close> is a list of literals and conversions.\<close>

datatype piece = Lit "byte list" | PStr "byte list" | PU32 u32 | PU64 u64

fun piece_fmt :: "piece \<Rightarrow> byte list" where
  "piece_fmt (Lit s) = s"
| "piece_fmt (PStr s) = [37, 115]"
| "piece_fmt (PU32 w) = [37, 117]"
| "piece_fmt (PU64 w) = [37, 108, 117]"

fun piece_args :: "piece \<Rightarrow> fmt_arg list" where
  "piece_args (Lit s) = []"
| "piece_args (PStr s) = [ArgStr (Some s)]"
| "piece_args (PU32 w) = [Arg32 w]"
| "piece_args (PU64 w) = [Arg64 w]"

fun piece_text :: "piece \<Rightarrow> byte list" where
  "piece_text (Lit s) = s"
| "piece_text (PStr s) = s"
| "piece_text (PU32 w) = decimal (unat w)"
| "piece_text (PU64 w) = decimal (unat w)"

fun piece_ok :: "piece \<Rightarrow> bool" where
  "piece_ok (Lit s) \<longleftrightarrow> 37 \<notin> set s"
| "piece_ok p \<longleftrightarrow> True"

definition pieces_text :: "piece list \<Rightarrow> byte list" where
  "pieces_text ps = concat (map piece_text ps)"

lemma fmt_loop_lit:
  "37 \<notin> set s \<Longrightarrow> wf_buf buf \<Longrightarrow> bb_len buf + int (length s) \<le> bb_cap buf \<Longrightarrow>
     \<exists>buf'. fmt_loop (pre @ s @ post) (length pre) NOTHING m buf args =
       fmt_loop (pre @ s @ post) (length pre + length s) NOTHING m buf' args \<and> appended buf s buf'"
proof (induction s arbitrary: pre buf)
  case Nil
  then show ?case by (auto simp: appended_def)
next
  case (Cons c s)
  obtain b where b: "fmt_loop (pre @ (c # s) @ post) (length pre) NOTHING m buf args =
      fmt_loop (pre @ (c # s) @ post) (length pre + 1) NOTHING m b args" "appended buf [c] b"
    using fmt_loop_char [of "length pre" "pre @ (c # s) @ post" buf m args] Cons.prems by (auto simp: nth_append)
  have "\<exists>buf'. fmt_loop ((pre @ [c]) @ s @ post) (length (pre @ [c])) NOTHING m b args =
       fmt_loop ((pre @ [c]) @ s @ post) (length (pre @ [c]) + length s) NOTHING m buf' args \<and> appended b s buf'"
    by (rule Cons.IH) (use Cons.prems b(2) in \<open>auto simp: appended_def\<close>)
  then show ?case using b appended_trans [OF b(2)] by auto
qed

text \<open>A conversion without a modifier, and one with \<open>l\<close>.\<close>

lemma fmt_loop_conv:
  assumes "c \<noteq> 104" "c \<noteq> 108" "fmt_convert c m buf args = Some ((ok, buf'), args')"
  shows "fmt_loop (pre @ [37, c] @ post) (length pre) NOTHING m buf args =
    fmt_loop (pre @ [37, c] @ post) (length pre + 2) NOTHING M_NONE buf' args'"
proof -
  let ?f = "pre @ [37, c] @ post" and ?i = "length pre"
  have at: "?f ! ?i = 37" "?f ! (?i + 1) = c" "?i + 1 < length ?f" by (simp_all add: nth_append)
  have mod: "fmt_modifier_at ?f (?i + 1) m = (?i + 1, m)"
    using assms(1,2) at by (simp add: fmt_modifier_at_def fmt_char_def)
  have "fmt_loop ?f ?i NOTHING m buf args = fmt_loop ?f (?i + 1) MODIFIER m buf args"
    using at by (subst fmt_loop.simps) simp
  also have "\<dots> = fmt_loop ?f (?i + 1) CONVERSION m buf args"
    using at(3) mod by (subst fmt_loop.simps) simp
  also have "\<dots> = fmt_loop ?f (?i + 2) NOTHING M_NONE buf' args'"
    using at assms(3) by (subst fmt_loop.simps) simp
  finally show ?thesis .
qed

lemma fmt_loop_conv_l:
  assumes "c \<noteq> 108" "fmt_convert c M_L buf args = Some ((ok, buf'), args')"
  shows "fmt_loop (pre @ [37, 108, c] @ post) (length pre) NOTHING m buf args =
    fmt_loop (pre @ [37, 108, c] @ post) (length pre + 3) NOTHING M_NONE buf' args'"
proof -
  let ?f = "pre @ [37, 108, c] @ post" and ?i = "length pre"
  have at: "?f ! ?i = 37" "?f ! (?i + 1) = 108" "?f ! (?i + 2) = c" "?i + 2 < length ?f"
    by (simp_all add: nth_append)
  have i2: "?i + 1 + 1 = ?i + 2" by simp
  have mod: "fmt_modifier_at ?f (?i + 1) m = (?i + 2, M_L)"
    using assms(1) at unfolding fmt_modifier_at_def fmt_char_def i2 by simp
  have "fmt_loop ?f ?i NOTHING m buf args = fmt_loop ?f (?i + 1) MODIFIER m buf args"
    using at by (subst fmt_loop.simps) simp
  also have "\<dots> = fmt_loop ?f (?i + 2) CONVERSION M_L buf args"
    using at(4) mod by (subst fmt_loop.simps) simp
  also have "\<dots> = fmt_loop ?f (?i + 3) NOTHING M_NONE buf' args'"
    using at assms(2) by (subst fmt_loop.simps) (simp add: eval_nat_numeral)
  finally show ?thesis .
qed

lemma fmt_loop_piece:
  assumes "piece_ok p" "wf_buf buf" "bb_len buf + int (length (piece_text p)) \<le> bb_cap buf"
  shows "\<exists>buf'. fmt_loop (pre @ piece_fmt p @ post) (length pre) NOTHING M_NONE buf (piece_args p @ args) =
      fmt_loop (pre @ piece_fmt p @ post) (length pre + length (piece_fmt p)) NOTHING M_NONE buf' args \<and>
    appended buf (piece_text p) buf'"
proof (cases p)
  case (Lit s)
  then show ?thesis using fmt_loop_lit [of s buf pre post M_NONE args] assms by simp
next
  case (PStr s)
  obtain b where b: "str_buf_append buf s = Some (ok, b)" "appended buf s b"
    using str_buf_append_appended [OF assms(2), of s] assms(3) PStr by auto
  then have "fmt_convert 115 M_NONE buf (ArgStr (Some s) # args) = Some ((ok, b), args)"
    by (simp add: fmt_convert_def)
  then show ?thesis using fmt_loop_conv [of 115 M_NONE buf "ArgStr (Some s) # args" b args pre post] b PStr by auto
next
  case (PU32 w)
  obtain b where b: "str_buf_append buf (decimal (unat w)) = Some (ok, b)" "appended buf (decimal (unat w)) b"
    using str_buf_append_appended [OF assms(2), of "decimal (unat w)"] assms(3) PU32 by auto
  have "unat (ucast w :: u64) = unat w"
    using unat_bound [of w] by (simp add: unsigned_ucast_eq take_bit_nat_eq_self)
  then have "fmt_convert 117 M_NONE buf (Arg32 w # args) = Some ((ok, b), args)" using b(1)
    by (simp add: fmt_convert_def fmt_int_arg_def fmt_append_u64_def u64_digits_decimal)
  then show ?thesis using fmt_loop_conv [of 117 M_NONE buf "Arg32 w # args" b args pre post] b PU32 by auto
next
  case (PU64 w)
  obtain b where b: "str_buf_append buf (decimal (unat w)) = Some (ok, b)" "appended buf (decimal (unat w)) b"
    using str_buf_append_appended [OF assms(2), of "decimal (unat w)"] assms(3) PU64 by auto
  then have "fmt_convert 117 M_L buf (Arg64 w # args) = Some ((ok, b), args)"
    by (simp add: fmt_convert_def fmt_int_arg_def fmt_append_u64_def u64_digits_decimal)
  then have "fmt_loop (pre @ [37, 108, 117] @ post) (length pre) NOTHING M_NONE buf (Arg64 w # args) =
      fmt_loop (pre @ [37, 108, 117] @ post) (length pre + 3) NOTHING M_NONE b args"
    by (intro fmt_loop_conv_l) simp_all
  moreover have l: "length [37, 108, 117 :: byte] = 3" by simp
  ultimately show ?thesis using b(2)
    unfolding PU64 piece_fmt.simps piece_args.simps piece_text.simps append.simps l by blast
qed

lemma fmt_loop_pieces:
  "(\<forall>p \<in> set ps. piece_ok p) \<Longrightarrow> wf_buf buf \<Longrightarrow> bb_len buf + int (length (pieces_text ps)) \<le> bb_cap buf \<Longrightarrow>
     \<exists>buf'. fmt_loop (pre @ concat (map piece_fmt ps)) (length pre) NOTHING M_NONE buf (concat (map piece_args ps)) =
       Some (ok, buf') \<and> appended buf (pieces_text ps) buf'"
proof (induction ps arbitrary: pre buf)
  case Nil
  then show ?case by (subst fmt_loop.simps) (simp add: pieces_text_def appended_def)
next
  case (Cons p ps)
  obtain b where b: "fmt_loop (pre @ piece_fmt p @ concat (map piece_fmt ps)) (length pre) NOTHING M_NONE buf
        (piece_args p @ concat (map piece_args ps)) =
      fmt_loop (pre @ piece_fmt p @ concat (map piece_fmt ps)) (length pre + length (piece_fmt p)) NOTHING M_NONE b
        (concat (map piece_args ps))" "appended buf (piece_text p) b"
    using fmt_loop_piece [of p buf pre "concat (map piece_fmt ps)" "concat (map piece_args ps)"] Cons.prems
    by (auto simp: pieces_text_def)
  have "\<exists>buf'. fmt_loop ((pre @ piece_fmt p) @ concat (map piece_fmt ps)) (length (pre @ piece_fmt p)) NOTHING M_NONE b
      (concat (map piece_args ps)) = Some (ok, buf') \<and> appended b (pieces_text ps) buf'"
    by (rule Cons.IH) (use Cons.prems b(2) in \<open>auto simp: appended_def pieces_text_def\<close>)
  then show ?case using b appended_trans [OF b(2)] by (auto simp: pieces_text_def)
qed

lemma fmt_vfmt_pieces:
  assumes "fmt = concat (map piece_fmt ps)" "args = concat (map piece_args ps)" "\<forall>p \<in> set ps. piece_ok p"
    "wf_buf buf" "bb_len buf + int (length (pieces_text ps)) \<le> bb_cap buf"
  shows "\<exists>buf'. fmt_vfmt buf fmt args = Some (ok, buf') \<and> appended buf (pieces_text ps) buf'"
  using fmt_loop_pieces [of ps buf "[]"] assms by (auto simp: fmt_vfmt_def)

text \<open>Without room for the text the result is \<open>ENOMEM\<close>, wherever the buffer ends.\<close>

lemma fmt_loop_lit_full:
  "37 \<notin> set s \<Longrightarrow> wf_buf buf \<Longrightarrow> bb_cap buf < bb_len buf + int (length s) \<Longrightarrow>
     \<exists>b. fmt_loop (pre @ s @ post) (length pre) NOTHING m buf args = Some (Inl ENOMEM, b)"
proof (induction s arbitrary: pre buf)
  case (Cons c s)
  show ?case
  proof (cases "bb_len buf < bb_cap buf")
    case True
    obtain b where b: "fmt_loop (pre @ (c # s) @ post) (length pre) NOTHING m buf args =
        fmt_loop (pre @ (c # s) @ post) (length pre + 1) NOTHING m b args" "appended buf [c] b"
      using fmt_loop_char [of "length pre" "pre @ (c # s) @ post" buf m args] Cons.prems True by (auto simp: nth_append)
    have "\<exists>b'. fmt_loop ((pre @ [c]) @ s @ post) (length (pre @ [c])) NOTHING m b args = Some (Inl ENOMEM, b')"
      by (rule Cons.IH) (use Cons.prems b(2) in \<open>auto simp: appended_def\<close>)
    then show ?thesis using b(1) by auto
  next
    case False
    then have "str_buf_append_char buf c = Some (Inl ENOMEM, buf)"
      using str_buf_append_char_eq [OF Cons.prems(2)] str_buf_append_full [of buf "[c]"] by simp
    then show ?thesis using Cons.prems(1) by (subst fmt_loop.simps) (simp add: nth_append)
  qed
qed (simp add: wf_buf_def)

lemma fmt_loop_conv_err:
  assumes "c \<noteq> 104" "c \<noteq> 108" "fmt_convert c m buf args = Some ((Inl e, buf'), args')"
  shows "fmt_loop (pre @ [37, c] @ post) (length pre) NOTHING m buf args = Some (Inl e, buf')"
proof -
  let ?f = "pre @ [37, c] @ post" and ?i = "length pre"
  have at: "?f ! ?i = 37" "?f ! (?i + 1) = c" "?i + 1 < length ?f" by (simp_all add: nth_append)
  have mod: "fmt_modifier_at ?f (?i + 1) m = (?i + 1, m)"
    using assms(1,2) at by (simp add: fmt_modifier_at_def fmt_char_def)
  have "fmt_loop ?f ?i NOTHING m buf args = fmt_loop ?f (?i + 1) MODIFIER m buf args"
    using at by (subst fmt_loop.simps) simp
  also have "\<dots> = fmt_loop ?f (?i + 1) CONVERSION m buf args" using at(3) mod by (subst fmt_loop.simps) simp
  also have "\<dots> = Some (Inl e, buf')" using at assms(3) by (subst fmt_loop.simps) simp
  finally show ?thesis .
qed

lemma fmt_loop_conv_l_err:
  assumes "c \<noteq> 108" "fmt_convert c M_L buf args = Some ((Inl e, buf'), args')"
  shows "fmt_loop (pre @ [37, 108, c] @ post) (length pre) NOTHING m buf args = Some (Inl e, buf')"
proof -
  let ?f = "pre @ [37, 108, c] @ post" and ?i = "length pre"
  have at: "?f ! ?i = 37" "?f ! (?i + 1) = 108" "?f ! (?i + 2) = c" "?i + 2 < length ?f"
    by (simp_all add: nth_append)
  have i2: "?i + 1 + 1 = ?i + 2" by simp
  have mod: "fmt_modifier_at ?f (?i + 1) m = (?i + 2, M_L)"
    using assms(1) at unfolding fmt_modifier_at_def fmt_char_def i2 by simp
  have "fmt_loop ?f ?i NOTHING m buf args = fmt_loop ?f (?i + 1) MODIFIER m buf args"
    using at by (subst fmt_loop.simps) simp
  also have "\<dots> = fmt_loop ?f (?i + 2) CONVERSION M_L buf args" using at(4) mod by (subst fmt_loop.simps) simp
  also have "\<dots> = Some (Inl e, buf')" using at assms(2) by (subst fmt_loop.simps) simp
  finally show ?thesis .
qed

lemma fmt_loop_piece_full:
  assumes "piece_ok p" "wf_buf buf" "bb_cap buf < bb_len buf + int (length (piece_text p))"
  shows "\<exists>b. fmt_loop (pre @ piece_fmt p @ post) (length pre) NOTHING M_NONE buf (piece_args p @ args) = Some (Inl ENOMEM, b)"
proof (cases p)
  case (Lit s)
  then show ?thesis using fmt_loop_lit_full [of s buf pre post M_NONE args] assms by simp
next
  case (PStr s)
  then have "fmt_convert 115 M_NONE buf (ArgStr (Some s) # args) = Some ((Inl ENOMEM, buf), args)"
    using str_buf_append_full assms(3) by (simp add: fmt_convert_def)
  then show ?thesis using fmt_loop_conv_err [of 115 M_NONE buf "ArgStr (Some s) # args"] PStr by auto
next
  case (PU32 w)
  have "unat (ucast w :: u64) = unat w"
    using unat_bound [of w] by (simp add: unsigned_ucast_eq take_bit_nat_eq_self)
  then have "fmt_convert 117 M_NONE buf (Arg32 w # args) = Some ((Inl ENOMEM, buf), args)"
    using str_buf_append_full assms(3) PU32
    by (simp add: fmt_convert_def fmt_int_arg_def fmt_append_u64_def u64_digits_decimal)
  then show ?thesis using fmt_loop_conv_err [of 117 M_NONE buf "Arg32 w # args"] PU32 by auto
next
  case (PU64 w)
  then have "fmt_convert 117 M_L buf (Arg64 w # args) = Some ((Inl ENOMEM, buf), args)"
    using str_buf_append_full assms(3) by (simp add: fmt_convert_def fmt_int_arg_def fmt_append_u64_def u64_digits_decimal)
  then show ?thesis using fmt_loop_conv_l_err [of 117 buf "Arg64 w # args"] PU64 by auto
qed

lemma fmt_loop_pieces_full:
  "(\<forall>p \<in> set ps. piece_ok p) \<Longrightarrow> wf_buf buf \<Longrightarrow> bb_cap buf < bb_len buf + int (length (pieces_text ps)) \<Longrightarrow>
     \<exists>b. fmt_loop (pre @ concat (map piece_fmt ps)) (length pre) NOTHING M_NONE buf (concat (map piece_args ps)) = Some (Inl ENOMEM, b)"
proof (induction ps arbitrary: pre buf)
  case (Cons p ps)
  show ?case
  proof (cases "bb_len buf + int (length (piece_text p)) \<le> bb_cap buf")
    case True
    obtain b where b: "fmt_loop (pre @ piece_fmt p @ concat (map piece_fmt ps)) (length pre) NOTHING M_NONE buf
          (piece_args p @ concat (map piece_args ps)) =
        fmt_loop (pre @ piece_fmt p @ concat (map piece_fmt ps)) (length pre + length (piece_fmt p)) NOTHING M_NONE b
          (concat (map piece_args ps))" "appended buf (piece_text p) b"
      using fmt_loop_piece [of p buf pre "concat (map piece_fmt ps)" "concat (map piece_args ps)"] Cons.prems True by auto
    have "\<exists>b'. fmt_loop ((pre @ piece_fmt p) @ concat (map piece_fmt ps)) (length (pre @ piece_fmt p)) NOTHING M_NONE b
        (concat (map piece_args ps)) = Some (Inl ENOMEM, b')"
      by (rule Cons.IH) (use Cons.prems b(2) in \<open>auto simp: appended_def pieces_text_def\<close>)
    then show ?thesis using b(1) by auto
  next
    case False
    then show ?thesis
      using fmt_loop_piece_full [of p buf pre "concat (map piece_fmt ps)" "concat (map piece_args ps)"] Cons.prems by simp
  qed
qed (simp add: pieces_text_def wf_buf_def)

lemma fmt_vfmt_pieces_cases:
  assumes "fmt = concat (map piece_fmt ps)" "args = concat (map piece_args ps)" "\<forall>p \<in> set ps. piece_ok p" "wf_buf buf"
  obtains b where "bb_len buf + int (length (pieces_text ps)) \<le> bb_cap buf" "fmt_vfmt buf fmt args = Some (ok, b)"
      "appended buf (pieces_text ps) b" "extends buf b"
    | b where "bb_cap buf < bb_len buf + int (length (pieces_text ps))" "fmt_vfmt buf fmt args = Some (Inl ENOMEM, b)" "extends buf b"
proof (cases "bb_len buf + int (length (pieces_text ps)) \<le> bb_cap buf")
  case True
  then show thesis using that(1) fmt_vfmt_pieces [OF assms] fmt_loop_extends [OF assms(4)] unfolding fmt_vfmt_def by blast
next
  case False
  then show thesis using that(2) fmt_loop_pieces_full [of ps buf "[]"] assms fmt_loop_extends [OF assms(4)]
    by (fastforce simp: fmt_vfmt_def)
qed

section \<open>Responses\<close>

text \<open>The header of a response.\<close>

definition http_header :: "http_status \<Rightarrow> http_content_type \<Rightarrow> nat \<Rightarrow> byte list" where
  "http_header status content_type n =
     cstr ''HTTP/1.1 '' @ decimal (unat (http_status_code status)) @ cstr '' '' @ http_status_to_string status @ CRLF @
     cstr ''Content-Type: '' @ http_content_type_to_string content_type @ CRLF @
     cstr ''Content-Length: '' @ decimal n @ CRLF @
     cstr ''Connection: close'' @ CRLF @ CRLF"

lemma http_build_header_ok:
  assumes "wf_buf buf" "bb_len buf + int (length (http_header status ct n)) \<le> bb_cap buf" "n < 2 ^ 64"
  shows "\<exists>buf'. http_build_header status ct (int n) buf = Some (ok, buf') \<and> appended buf (http_header status ct n) buf'"
proof -
  have n: "unat (word_of_int (int n) :: u64) = n" using assms(3) by (simp add: unat_of_nat take_bit_nat_eq_self)
  then have n': "unat (word_of_nat n :: u64) = n" by simp
  let ?p1 = "[Lit (cstr ''HTTP/1.1 ''), PU32 (http_status_code status), Lit (cstr '' ''),
    PStr (http_status_to_string status), Lit CRLF]"
  let ?p2 = "[Lit (cstr ''Content-Type: ''), PStr (http_content_type_to_string ct), Lit CRLF]"
  let ?p3 = "[Lit (cstr ''Content-Length: ''), PU64 (word_of_int (int n)), Lit CRLF]"
  let ?t4 = "cstr ''Connection: close'' @ CRLF"
  have h: "http_header status ct n = pieces_text ?p1 @ pieces_text ?p2 @ pieces_text ?p3 @ ?t4 @ CRLF"
    by (simp add: http_header_def pieces_text_def n')
  have ok: "\<forall>p \<in> set ?p1. piece_ok p" "\<forall>p \<in> set ?p2. piece_ok p" "\<forall>p \<in> set ?p3. piece_ok p"
    by (simp_all add: cstr_def CRLF_def CR_def LF_def)
  have f: "cstr ''HTTP/1.1 %u %s'' @ CRLF = concat (map piece_fmt ?p1)"
    "cstr ''Content-Type: %s'' @ CRLF = concat (map piece_fmt ?p2)"
    "cstr ''Content-Length: %lu'' @ CRLF = concat (map piece_fmt ?p3)"
    by (simp_all add: cstr_def)
  obtain b1 where b1: "fmt_vfmt buf (cstr ''HTTP/1.1 %u %s'' @ CRLF)
      [Arg32 (http_status_code status), ArgStr (Some (http_status_to_string status))] = Some (ok, b1)"
    "appended buf (pieces_text ?p1) b1"
    using fmt_vfmt_pieces [OF f(1) _ ok(1) assms(1)] assms(2) h by auto
  obtain b2 where b2: "fmt_vfmt b1 (cstr ''Content-Type: %s'' @ CRLF)
      [ArgStr (Some (http_content_type_to_string ct))] = Some (ok, b2)" "appended b1 (pieces_text ?p2) b2"
    using fmt_vfmt_pieces [OF f(2) _ ok(2), of _ b1] b1(2) assms(2) h by (auto simp: appended_def)
  obtain b3 where b3: "fmt_vfmt b2 (cstr ''Content-Length: %lu'' @ CRLF) [Arg64 (word_of_int (int n))] = Some (ok, b3)"
    "appended b2 (pieces_text ?p3) b3"
    using fmt_vfmt_pieces [OF f(3) _ ok(3), of _ b2] b1(2) b2(2) assms(2) h by (auto simp: appended_def)
  obtain b4 where b4: "str_buf_append b3 ?t4 = Some (ok, b4)" "appended b3 ?t4 b4"
    using str_buf_append_appended [of b3 ?t4] b1(2) b2(2) b3(2) assms(2) h by (auto simp: appended_def)
  obtain b5 where b5: "str_buf_append b4 CRLF = Some (ok, b5)" "appended b4 CRLF b5"
    using str_buf_append_appended [of b4 CRLF] b1(2) b2(2) b3(2) b4(2) assms(2) h by (auto simp: appended_def)
  have "http_build_header status ct (int n) buf = Some (ok, b5)"
    using b1(1) b2(1) b3(1) b4(1) b5(1) by (simp add: http_build_header_def)
  moreover have "appended buf (http_header status ct n) b5"
    unfolding h using appended_trans b1(2) b2(2) b3(2) b4(2) b5(2) by meson
  ultimately show ?thesis by blast
qed


lemma http_build_response_ok:
  assumes "wf_buf buf" "bb_len buf + int (length (http_header status ct (length body)) + length body) \<le> bb_cap buf"
    "length body < 2 ^ 64"
  shows "\<exists>buf'. http_build_response status ct body buf = Some (ok, buf') \<and>
    appended buf (http_header status ct (length body) @ body) buf'"
proof -
  obtain b where b: "http_build_header status ct (int (length body)) buf = Some (ok, b)"
    "appended buf (http_header status ct (length body)) b"
    using http_build_header_ok [OF assms(1) _ assms(3), of status ct] assms(2) by auto
  obtain b' where b': "byte_buf_append b body = Some (int (length body), b')" "appended b body b'"
    using byte_buf_append_fits [of b body] b(2) assms(2) by (auto simp: appended_def)
  have "\<not> bb_cap buf < bb_len buf + int (length body)" using assms(2) by simp
  then have "http_build_response status ct body buf = Some (ok, b')"
    using b(1) b'(1) by (simp add: http_build_response_def)
  then show ?thesis using appended_trans [OF b(2) b'(2)] by blast
qed

text \<open>After an error, the buffer of the caller has the length and the content that it had before.\<close>

lemma extends_rollback:
  assumes "wf_buf buf" "extends buf b"
  shows "extends buf (buf\<lparr>bb_dat := bb_dat b\<rparr>)"
proof -
  obtain t where t: "byte_view_from_buf b = byte_view_from_buf buf @ t" "wf_buf b" "bb_cap b = bb_cap buf"
    using assms(2) by (auto simp: extends_def)
  have n: "length (byte_view_from_buf buf) = nat (bb_len buf)"
    using assms(1) unfolding byte_view_from_buf_def wf_buf_def length_take by linarith
  have "take (nat (bb_len buf)) (bb_dat b) = byte_view_from_buf buf"
  proof -
    have "nat (bb_len buf) \<le> length (byte_view_from_buf b)" using t(1) n by simp
    then have "nat (bb_len buf) \<le> nat (bb_len b)" using t(2) by (simp add: byte_view_from_buf_def wf_buf_def)
    then have "take (nat (bb_len buf)) (bb_dat b) = take (nat (bb_len buf)) (byte_view_from_buf b)"
      by (simp add: byte_view_from_buf_def)
    then show ?thesis using t(1) n by simp
  qed
  then have "byte_view_from_buf (buf\<lparr>bb_dat := bb_dat b\<rparr>) = byte_view_from_buf buf" by (simp add: byte_view_from_buf_def)
  then show ?thesis using assms(1) t(2,3) by (simp add: extends_def wf_buf_def)
qed

lemma appended_extends: "appended a t b \<Longrightarrow> extends a b"
  by (auto simp: appended_def extends_def)

lemma http_build_header_full:
  assumes "wf_buf buf" "bb_cap buf < bb_len buf + int (length (http_header status ct n))" "n < 2 ^ 64"
  shows "\<exists>b. http_build_header status ct (int n) buf = Some (Inl ENOMEM, b) \<and> extends buf b"
proof -
  have n: "unat (word_of_int (int n) :: u64) = n" using assms(3) by (simp add: unat_of_nat take_bit_nat_eq_self)
  then have n': "unat (word_of_nat n :: u64) = n" by simp
  let ?p1 = "[Lit (cstr ''HTTP/1.1 ''), PU32 (http_status_code status), Lit (cstr '' ''),
    PStr (http_status_to_string status), Lit CRLF]"
  let ?p2 = "[Lit (cstr ''Content-Type: ''), PStr (http_content_type_to_string ct), Lit CRLF]"
  let ?p3 = "[Lit (cstr ''Content-Length: ''), PU64 (word_of_int (int n)), Lit CRLF]"
  let ?t4 = "cstr ''Connection: close'' @ CRLF"
  have h: "http_header status ct n = pieces_text ?p1 @ pieces_text ?p2 @ pieces_text ?p3 @ ?t4 @ CRLF"
    by (simp add: http_header_def pieces_text_def n')
  have ok: "\<forall>p \<in> set ?p1. piece_ok p" "\<forall>p \<in> set ?p2. piece_ok p" "\<forall>p \<in> set ?p3. piece_ok p"
    by (simp_all add: cstr_def CRLF_def CR_def LF_def)
  have f: "cstr ''HTTP/1.1 %u %s'' @ CRLF = concat (map piece_fmt ?p1)"
    "cstr ''Content-Type: %s'' @ CRLF = concat (map piece_fmt ?p2)"
    "cstr ''Content-Length: %lu'' @ CRLF = concat (map piece_fmt ?p3)"
    "[Arg32 (http_status_code status), ArgStr (Some (http_status_to_string status))] = concat (map piece_args ?p1)"
    "[ArgStr (Some (http_content_type_to_string ct))] = concat (map piece_args ?p2)"
    "[Arg64 (word_of_int (int n))] = concat (map piece_args ?p3)"
    by (simp_all add: cstr_def)
  note undo = extends_rollback [OF assms(1)]
  show ?thesis
  proof (cases rule: fmt_vfmt_pieces_cases [OF f(1,4) ok(1) assms(1)])
    case (2 b1)
    then show ?thesis using undo [OF 2(3)] by (simp add: http_build_header_def)
  next
    case x: (1 b1)
    have w1: "wf_buf b1" using x(4) by (simp add: extends_def)
    show ?thesis
    proof (cases rule: fmt_vfmt_pieces_cases [OF f(2,5) ok(2) w1])
      case (2 b2)
      then show ?thesis using x(2) undo [OF extends_trans [OF x(4) 2(3)]] by (simp add: http_build_header_def)
    next
      case y: (1 b2)
      have w2: "wf_buf b2" and e2: "extends buf b2" using extends_trans [OF x(4) y(4)] by (simp_all add: extends_def)
      show ?thesis
      proof (cases rule: fmt_vfmt_pieces_cases [OF f(3,6) ok(3) w2])
        case (2 b3)
        then show ?thesis using x(2) y(2) undo [OF extends_trans [OF e2 2(3)]] by (simp add: http_build_header_def)
      next
        case z: (1 b3)
        have w3: "wf_buf b3" and e3: "extends buf b3" using extends_trans [OF e2 z(4)] by (simp_all add: extends_def)
        show ?thesis
        proof (cases "bb_len b3 + int (length ?t4) \<le> bb_cap b3")
          case False
          then have "str_buf_append b3 ?t4 = Some (Inl ENOMEM, b3)" using str_buf_append_full [of b3 ?t4] by simp
          then show ?thesis using x(2) y(2) z(2) undo [OF e3] by (simp add: http_build_header_def)
        next
          case True
          obtain b4 where 4: "str_buf_append b3 ?t4 = Some (ok, b4)" "appended b3 ?t4 b4"
            using str_buf_append_appended [OF w3 True] by auto
          have "bb_cap b4 < bb_len b4 + int (length CRLF)"
            using assms(2) x(3) y(3) z(3) 4(2) unfolding h by (simp add: appended_def)
          then have "str_buf_append b4 CRLF = Some (Inl ENOMEM, b4)" using str_buf_append_full [of b4 CRLF] by simp
          then show ?thesis using x(2) y(2) z(2) 4(1) undo [OF extends_trans [OF e3 appended_extends [OF 4(2)]]]
            by (simp add: http_build_header_def)
        qed
      qed
    qed
  qed
qed

lemma http_build_response_full:
  assumes "wf_buf buf" "bb_cap buf < bb_len buf + int (length (http_header status ct (length body)) + length body)" "bb_cap buf < 2 ^ 63"
  shows "\<exists>b. http_build_response status ct body buf = Some (Inl ENOMEM, b) \<and> extends buf b"
proof (cases "bb_cap buf < bb_len buf + int (length body)")
  case True
  then show ?thesis using assms(1) by (simp add: http_build_response_def)
next
  case False
  have n: "length body < 2 ^ 64" using False assms(1,3) by (simp add: wf_buf_def)
  show ?thesis
  proof (cases "bb_len buf + int (length (http_header status ct (length body))) \<le> bb_cap buf")
    case True
    obtain b where b: "http_build_header status ct (int (length body)) buf = Some (ok, b)"
      "appended buf (http_header status ct (length body)) b"
      using http_build_header_ok [OF assms(1) True n] by auto
    obtain k b' where b': "byte_buf_append b body = Some (k, b')" "k = min (bb_cap b - bb_len b) (int (length body))"
      "extends b b'"
      using byte_buf_append_ok [of b body] b(2) by (auto simp: appended_def extends_def)
    have "k \<noteq> int (length body)" using b(2) b'(2) assms(2) by (simp add: appended_def)
    then show ?thesis using False b(1) b'(1) extends_trans [OF appended_extends [OF b(2)] b'(3)]
      by (simp add: http_build_response_def)
  next
    case F: False
    then obtain b where "http_build_header status ct (int (length body)) buf = Some (Inl ENOMEM, b)" "extends buf b"
      using http_build_header_full [OF assms(1) _ n, of status ct] by auto
    then show ?thesis using False by (simp add: http_build_response_def)
  qed
qed

text \<open>A response without room for its body leaves the buffer alone.\<close>

lemma http_build_response_no_room:
  "bb_cap buf < bb_len buf + int (length body) \<Longrightarrow> http_build_response status ct body buf = Some (Inl ENOMEM, buf)"
  by (simp add: http_build_response_def)

section \<open>Requests\<close>

text \<open>The requests that are accepted: the version ends at the first CR, or at the first LF if there is no CR.\<close>

definition request_line :: "byte list \<Rightarrow> http_version \<Rightarrow> byte \<Rightarrow> byte list \<Rightarrow> byte list" where
  "request_line path version nl rest =
     cstr ''GET '' @ path @ cstr '' '' @ http_version_to_string version @ nl # rest"

definition line_ok :: "byte list \<Rightarrow> byte \<Rightarrow> byte list \<Rightarrow> bool" where
  "line_ok path nl rest \<longleftrightarrow> of_char (CHR '' '') \<notin> set path \<and> (nl = CR \<or> nl = LF \<and> CR \<notin> set rest)"

lemma version_chars: "CR \<notin> set (http_version_to_string v)" "LF \<notin> set (http_version_to_string v)"
  by (cases v; simp add: cstr_def CR_def LF_def)+

lemma http_parse_version_iff: "http_parse_version s = Inr v \<longleftrightarrow> s = http_version_to_string v"
  by (cases v) (auto simp: http_parse_version_def cstr_def)

lemma http_parse_method_Inr: "http_parse_method s = Inr m \<longleftrightarrow> s = cstr ''GET''"
  by (cases m) (auto simp: http_parse_method_def)

text \<open>Splitting at the place a search has found.\<close>

lemma str_find_char_split:
  "str_find_char s c = Some i \<Longrightarrow>
     s = take (nat i) s @ c # drop (nat (i + 1)) s \<and> c \<notin> set (take (nat i) s)"
  by (auto simp: str_find_char_Some nat_add_distrib id_take_nth_drop [symmetric])

lemma http_parse_request_line:
  assumes "line_ok path nl rest"
  shows "http_parse_request (request_line path version nl rest) =
    \<lparr>rq_method = HTTP_METHOD_GET, rq_path = path, rq_version = version, rq_valid = True\<rparr>"
proof -
  let ?sp = "32 :: byte"
  have sp: "cstr ''GET '' = cstr ''GET'' @ [?sp]" "cstr '' '' = [?sp]" by (simp_all add: cstr_def)
  have 1: "str_find_char (cstr ''GET'' @ ?sp # r) ?sp = Some 3" for r
    using str_find_char_append [of ?sp "cstr ''GET''" r] by (simp add: cstr_def)
  have 2: "str_find_char (path @ ?sp # r) ?sp = Some (int (length path))" for r
    using assms by (intro str_find_char_append) (simp add: line_ok_def)
  let ?v = "http_version_to_string version"
  have 3: "(case str_find_char (?v @ nl # rest) CR of None \<Rightarrow> str_find_char (?v @ nl # rest) LF | Some p \<Rightarrow> Some p) =
      Some (int (length ?v))"
  proof (cases "nl = CR")
    case True
    then show ?thesis using str_find_char_append [OF version_chars(1), of version rest] by simp
  next
    case False
    then have "str_find_char (?v @ nl # rest) CR = None" "nl = LF"
      using assms version_chars by (auto simp: str_find_char_None line_ok_def)
    then show ?thesis using str_find_char_append [OF version_chars(2), of version rest] by simp
  qed
  have len: "nat (int (length path) + 1) = Suc (length path)" "length (cstr ''GET'') = 3" "nat 4 = Suc 3"
    by (simp_all add: cstr_def)
  show ?thesis
    unfolding request_line_def sp
    by (simp add: http_parse_request_def Let_def 1 2 3 len http_parse_method_Inr http_parse_version_iff [THEN iffD2]
        http_parse_method_def)
qed

lemma http_parse_request_valid:
  assumes "rq_valid (http_parse_request d)"
  shows "\<exists>nl rest. d = request_line (rq_path (http_parse_request d)) (rq_version (http_parse_request d)) nl rest \<and>
    line_ok (rq_path (http_parse_request d)) nl rest"
proof -
  obtain i m where 1: "str_find_char d 32 = Some i" "http_parse_method (take (nat i) d) = Inr m"
    using assms by (auto simp: http_parse_request_def Let_def split: option.splits sum.splits)
  define d1 where "d1 = drop (nat (i + 1)) d"
  obtain j where 2: "str_find_char d1 32 = Some j"
    using assms 1 by (auto simp: http_parse_request_def Let_def d1_def split: option.splits sum.splits)
  define d2 where "d2 = drop (nat (j + 1)) d1"
  define nlp where "nlp = (case str_find_char d2 CR of None \<Rightarrow> str_find_char d2 LF | Some p \<Rightarrow> Some p)"
  obtain k v where 3: "nlp = Some k" "http_parse_version (take (nat k) d2) = Inr v"
    and r: "http_parse_request d = \<lparr>rq_method = m, rq_path = take (nat j) d1, rq_version = v, rq_valid = True\<rparr>"
    using assms 1 2
    by (auto simp: http_parse_request_def Let_def d1_def [symmetric] d2_def [symmetric] nlp_def [symmetric]
        split: option.splits sum.splits)
  have a: "d = cstr ''GET'' @ 32 # d1"
    using str_find_char_split [OF 1(1)] 1(2) by (simp add: http_parse_method_Inr d1_def)
  have b: "d1 = take (nat j) d1 @ 32 # d2" "32 \<notin> set (take (nat j) d1)"
    using str_find_char_split [OF 2] by (simp_all add: d2_def)
  have v: "take (nat k) d2 = http_version_to_string v" using 3(2) by (simp add: http_parse_version_iff)
  obtain nl where c: "d2 = http_version_to_string v @ nl # drop (nat (k + 1)) d2"
    "nl = CR \<or> nl = LF \<and> CR \<notin> set (drop (nat (k + 1)) d2)"
  proof (cases "str_find_char d2 CR")
    case None
    then have f: "str_find_char d2 LF = Some k" "CR \<notin> set d2" using 3(1) None by (simp_all add: nlp_def str_find_char_None [symmetric])
    have "CR \<notin> set (drop (nat (k + 1)) d2)" using f(2) by (meson in_set_dropD)
    then show ?thesis using str_find_char_split [OF f(1)] v that [of LF] by simp
  next
    case (Some p)
    then have "str_find_char d2 CR = Some k" using 3(1) by (simp add: nlp_def)
    then show ?thesis using str_find_char_split [of d2 CR k] v that [of CR] by simp
  qed
  have "d = cstr ''GET'' @ 32 # take (nat j) d1 @ 32 # http_version_to_string v @ nl # drop (nat (k + 1)) d2"
    using a b(1) c(1) by metis
  then have "d = request_line (take (nat j) d1) v nl (drop (nat (k + 1)) d2)"
    by (simp add: request_line_def cstr_def)
  then show ?thesis using r b(2) c(2) by (auto simp: line_ok_def)
qed

text \<open>
  C22: the requests that are accepted. A text is taken as a valid request for a path and a version
  exactly when it begins with \<open>GET\<close>, a space, the path without spaces, a space, the version and
  the end of the line, and the result is that path and that version.
\<close>

theorem http_parse_request_accepts:
  "http_parse_request d = \<lparr>rq_method = HTTP_METHOD_GET, rq_path = path, rq_version = version, rq_valid = True\<rparr> \<longleftrightarrow>
     (\<exists>nl rest. d = request_line path version nl rest \<and> line_ok path nl rest)"
  using http_parse_request_valid [of d] http_parse_request_line by fastforce

section \<open>Answers\<close>

text \<open>What the server has for a path: a status, a content type and a body.\<close>

definition http_answer :: "byte list \<Rightarrow> addr \<Rightarrow> 'a ram_fs \<Rightarrow> fs_tree list \<Rightarrow> byte list \<Rightarrow>
    http_status \<times> http_content_type \<times> byte list" where
  "http_answer git_commit root rfs ts path =
     (let page = (if path = [] \<or> path = [slash] then cstr ''/index.html'' else path) in
      case (if 0 \<in> set page then None else tree_at root ts (path_of page)) of
        None \<Rightarrow> (HTTP_STATUS_NOT_FOUND, HTTP_CONTENT_TYPE_TEXT_HTML, not_found_body git_commit)
      | Some (Dir_node a n cs) \<Rightarrow> (HTTP_STATUS_FORBIDDEN, HTTP_CONTENT_TYPE_TEXT_HTML, forbidden_body git_commit)
      | Some (File_node a n) \<Rightarrow> (HTTP_STATUS_OK, http_get_content_type_from_extension (http_get_file_extension page),
          case rf_nodes rfs a of None \<Rightarrow> [] | Some nd \<Rightarrow> file_content nd))"

definition http_reply :: "http_status \<times> http_content_type \<times> byte list \<Rightarrow> byte list" where
  "http_reply answer = (case answer of (status, content_type, body) \<Rightarrow>
     http_header status content_type (length body) @ body)"

lemma http_build_response_reply:
  assumes "wf_buf buf" "bb_cap buf < 2 ^ 63" "bb_len buf + int (length (http_reply (status, ct, body))) \<le> bb_cap buf"
  shows "\<exists>buf'. http_build_response status ct body buf = Some (ok, buf') \<and>
    appended buf (http_reply (status, ct, body)) buf'"
proof -
  have "0 \<le> bb_len buf" using assms(1) by (simp add: wf_buf_def)
  then have "length body < 2 ^ 64" using assms(2,3) by (simp add: http_reply_def)
  then show ?thesis using http_build_response_ok [OF assms(1), of status ct body] assms(3) by (simp add: http_reply_def)
qed

lemma http_serve_file_eq:
  assumes "fs_ok root rfs st" "rf_scratch rfs = arena_new a (4 * PATH_NAME_MAX_LEN)"
    "path = [] \<or> hd path = slash" "length path \<le> 1024"
  shows "http_serve_file git_commit root path buf rfs =
    (case http_answer git_commit root rfs (fst st) path of (status, ct, body) \<Rightarrow> http_build_response status ct body buf)"
proof -
  define page where "page = (if path = [] \<or> path = [slash] then cstr ''/index.html'' else path)"
  have page: "(if path = [] \<or> length path = 1 \<and> path ! 0 = slash then cstr ''/index.html'' else path) = page"
    by (cases path) (auto simp: page_def)
  have ix: "length (cstr ''/index.html'') = 11" "hd (cstr ''/index.html'') = slash" "cstr ''/index.html'' \<noteq> []"
    by (simp_all add: cstr_def slash_def)
  have f: "page \<noteq> []" "hd page = slash" "length page \<le> 1024"
    using assms(3,4) ix by (auto simp: page_def)
  have room: "parse_room page (rf_scratch rfs)" "int (length page) \<le> PATH_NAME_MAX_LEN"
    using f(3) by (simp_all add: parse_room_def assms(2) arena_new_def PATH_NAME_MAX_LEN_def)
  define t where "t = (if 0 \<in> set page then None else tree_at root (fst st) (path_of page))"
  have t_heap: "\<exists>nd. rf_nodes rfs (t_addr u) = Some nd \<and> (case u of File_node a n \<Rightarrow> fn_type nd = RAM_FS_TYPE_FILE
      | Dir_node a n cs \<Rightarrow> fn_type nd = RAM_FS_TYPE_DIR)" if "t = Some u" for u
    using tree_at_heap [OF assms(1), of "path_of page" u] that
    by (cases u) (auto simp: t_def split: if_splits)
  have opened: "\<exists>e. ram_fs_open root page rfs = Some (case t of None \<Rightarrow> Inl e | Some u \<Rightarrow> Inr (t_addr u))"
  proof (cases "0 \<in> set page")
    case True
    have "root \<noteq> 0" using assms(1) by (simp add: fs_ok_def)
    then show ?thesis using path_name_parse_splits_aux [OF room(1)] f room(2) True
      by (simp add: ram_fs_open_def t_def)
  next
    case False
    then show ?thesis using ram_fs_open_finds [OF assms(1) f(1,2) _ room(2,1)] by (auto simp: t_def)
  qed
  have ans: "http_answer git_commit root rfs (fst st) path = (case t of
        None \<Rightarrow> (HTTP_STATUS_NOT_FOUND, HTTP_CONTENT_TYPE_TEXT_HTML, not_found_body git_commit)
      | Some (Dir_node a n cs) \<Rightarrow> (HTTP_STATUS_FORBIDDEN, HTTP_CONTENT_TYPE_TEXT_HTML, forbidden_body git_commit)
      | Some (File_node a n) \<Rightarrow> (HTTP_STATUS_OK, http_get_content_type_from_extension (http_get_file_extension page),
          case rf_nodes rfs a of None \<Rightarrow> [] | Some nd \<Rightarrow> file_content nd))"
    unfolding http_answer_def Let_def page_def [symmetric] t_def [symmetric] by (rule refl)
  show ?thesis
    using opened t_heap unfolding ans http_serve_file_def Let_def page
    by (auto simp: file_content_def split: option.splits fs_tree.splits)
qed

text \<open>The text that the log shows of a request that is not valid.\<close>

lemma str_buf_append_returns: "wf_buf buf \<Longrightarrow> \<exists>r buf'. str_buf_append buf s = Some (r, buf') \<and> wf_buf buf'"
  using str_buf_append_ok [of buf s] str_buf_append_full [of buf s] by (meson not_less)

lemma printable_loop_returns: "wf_buf buf \<Longrightarrow> \<exists>buf'. printable_loop cs buf = Some buf'"
proof (induction cs arbitrary: buf)
  case (Cons c cs)
  obtain r b where "str_buf_append_char buf (if is_printable_ascii c then c else of_char (CHR ''?'')) = Some (r, b)" "wf_buf b"
    using str_buf_append_returns [OF Cons.prems] str_buf_append_char_eq [OF Cons.prems] by metis
  then show ?case using Cons.IH [of b] by simp
qed simp

lemma http_request_header_str_returns:
  assumes "308 \<le> ar_end tmp - ar_beg tmp"
  shows "\<exists>s. http_request_header_str d tmp = Some s"
proof -
  obtain r where r: "str_find_substring d (CRLF @ CRLF) = Some r"
    "case r of None \<Rightarrow> True | Some i \<Rightarrow> 0 \<le> i"
    using find_substring_from_spec [of "CRLF @ CRLF" d 0]
    by (auto simp: str_find_substring_def CRLF_def split: option.splits)
  show ?thesis
  proof (cases r)
    case None
    then show ?thesis using r by (simp add: http_request_header_str_def)
  next
    case (Some i)
    obtain p where p: "str_buf_from_arena tmp (min i 300) =
        Some (byte_buf_new (replicate (nat (min i 300)) 0) 0 (min i 300), tmp\<lparr>ar_beg := p + min i 300\<rparr>)"
    proof -
      have "0 \<le> min i 300" "min i 300 + 8 \<le> ar_end tmp - ar_beg tmp" "min i 300 \<le> 4294967295"
        using r(2) Some assms by simp_all
      from str_buf_from_arena_ok [OF this] show thesis using that by blast
    qed
    have "wf_buf (byte_buf_new (replicate (nat (min i 300)) 0) 0 (min i 300))"
      using r(2) Some by (simp add: wf_buf_def byte_buf_new_def)
    from printable_loop_returns [OF this] obtain b where
      "printable_loop (take (nat (min i 300)) d) (byte_buf_new (replicate (nat (min i 300)) 0) 0 (min i 300)) = Some b"
      by blast
    then show ?thesis using r(1) p Some by (simp add: http_request_header_str_def Let_def)
  qed
qed

text \<open>The answer to a request text.\<close>

definition http_request_answer :: "byte list \<Rightarrow> addr \<Rightarrow> 'a ram_fs \<Rightarrow> fs_tree list \<Rightarrow> byte list \<Rightarrow>
    http_status \<times> http_content_type \<times> byte list" where
  "http_request_answer git_commit root rfs ts d =
     (if rq_valid (http_parse_request d) then http_answer git_commit root rfs ts (rq_path (http_parse_request d))
      else (HTTP_STATUS_BAD_REQUEST, HTTP_CONTENT_TYPE_TEXT_HTML, bad_request_body git_commit))"

lemma request_path_length:
  assumes "rq_valid (http_parse_request d)"
  shows "length (rq_path (http_parse_request d)) \<le> length d"
proof -
  from http_parse_request_valid [OF assms] obtain nl rest where
    d: "request_line (rq_path (http_parse_request d)) (rq_version (http_parse_request d)) nl rest = d" by metis
  have "length p \<le> length (request_line p v nl rest)" for p v by (simp add: request_line_def)
  from this [of "rq_path (http_parse_request d)" "rq_version (http_parse_request d)"] show ?thesis unfolding d .
qed

text \<open>
  A request can stop the machine. When the path of a valid request does not begin with a slash,
  the parser of paths fails its assertion, so the handler does not return: one request for \<open>x\<close>
  instead of \<open>/x\<close> halts the server and with it the kernel.
\<close>

definition no_slash :: "byte list \<Rightarrow> bool" where
  "no_slash d \<longleftrightarrow> rq_valid (http_parse_request d) \<and> rq_path (http_parse_request d) \<noteq> [] \<and> hd (rq_path (http_parse_request d)) \<noteq> slash"

lemma http_handle_request_halts:
  assumes "no_slash d" and "length d \<le> 1024"
  shows "http_handle_request git_commit root d buf tmp rfs = None"
proof -
  let ?path = "rq_path (http_parse_request d)"
  have v: "rq_valid (http_parse_request d)" "?path \<noteq> []" "hd ?path \<noteq> slash" using assms(1) by (simp_all add: no_slash_def)
  have "int (length ?path) \<le> PATH_NAME_MAX_LEN" using request_path_length [OF v(1)] assms(2) by (simp add: PATH_NAME_MAX_LEN_def)
  then have "path_name_parse ?path (rf_scratch rfs) = None"
    using v(2,3) by (simp add: path_name_parse_def hd_conv_nth)
  moreover have "\<not> (length ?path = 1 \<and> ?path ! 0 = slash)" using v(2,3) by (simp add: hd_conv_nth)
  ultimately show ?thesis using v by (auto simp: http_handle_request_def http_serve_file_def ram_fs_open_def)
qed

lemma http_handle_request_eq:
  assumes "fs_ok root rfs st" "rf_scratch rfs = arena_new a (4 * PATH_NAME_MAX_LEN)"
    "length d \<le> 1024" "308 \<le> ar_end tmp - ar_beg tmp" "\<not> no_slash d"
  shows "http_handle_request git_commit root d buf tmp rfs =
    (case http_request_answer git_commit root rfs (fst st) d of (status, ct, body) \<Rightarrow> http_build_response status ct body buf)"
proof (cases "rq_valid (http_parse_request d)")
  case True
  then show ?thesis
    using http_serve_file_eq [OF assms(1,2), of "rq_path (http_parse_request d)" git_commit buf]
      request_path_length [OF True] assms(3,5)
    by (auto simp: http_handle_request_def http_request_answer_def no_slash_def)
next
  case False
  then show ?thesis
    using http_request_header_str_returns [OF assms(4), of d]
    by (auto simp: http_handle_request_def http_request_answer_def)
qed

text \<open>
  C21: what becomes of a request, for every text of at most 1024 bytes (the receive buffer). If it is a valid request whose path
  is not empty and does not begin with a slash, the kernel halts in the parser of paths. Otherwise the handler returns. If the
  answer fits behind what is in the response buffer, it has appended exactly its header and its body: 400 for what is not a
  valid request, 404 for a path that is not in the tree of the file system, 403 for a directory, and otherwise 200
  with the content of the file, its length and the type its name stands for. If it does not fit, the result is \<open>ENOMEM\<close>, and what was in
  the buffer is still its beginning.
\<close>

theorem http_handle_request_answers:
  assumes "fs_ok root rfs st" and "rf_scratch rfs = arena_new a (4 * PATH_NAME_MAX_LEN)"
    and "length d \<le> 1024" and "308 \<le> ar_end tmp - ar_beg tmp"
    and "wf_buf buf" and "bb_cap buf < 2 ^ 63"
  shows "let reply = http_reply (http_request_answer git_commit root rfs (fst st) d) in
    if no_slash d then http_handle_request git_commit root d buf tmp rfs = None
    else if bb_len buf + int (length reply) \<le> bb_cap buf
    then \<exists>buf'. http_handle_request git_commit root d buf tmp rfs = Some (ok, buf') \<and> appended buf reply buf'
    else \<exists>buf'. http_handle_request git_commit root d buf tmp rfs = Some (Inl ENOMEM, buf') \<and> extends buf buf'"
proof (cases "no_slash d")
  case True
  then show ?thesis using http_handle_request_halts assms(3) by (simp add: Let_def)
next
  case False
  obtain status ct body where ans: "http_request_answer git_commit root rfs (fst st) d = (status, ct, body)" by (metis surj_pair)
  have e: "http_handle_request git_commit root d buf tmp rfs = http_build_response status ct body buf"
    using http_handle_request_eq [OF assms(1-4) False] ans by simp
  have l: "length (http_reply (status, ct, body)) = length (http_header status ct (length body)) + length body"
    by (simp add: http_reply_def)
  show ?thesis
    using http_build_response_reply [OF assms(5,6), of status ct body] http_build_response_full [OF assms(5) _ assms(6), of status ct body] False
    unfolding e ans Let_def l by auto
qed

text \<open>A file system with one file, that holds the bytes 1, 2 and 3.\<close>

definition sample_web_fs :: "int ram_fs" where
  "sample_web_fs = sample_fs\<lparr>rf_words := [160 \<mapsto> 0], rf_node_alloc := \<lparr>pl_head = 160, pl_size = 72\<rparr>,
     rf_nodes := [8 \<mapsto> (blank_node RAM_FS_TYPE_DIR [])\<lparr>fn_first := 80\<rparr>,
       80 \<mapsto> sample_file\<lparr>fn_name := cstr ''index.html''\<rparr>]\<rparr>"

lemma sample_web_fs_ok: "fs_ok 8 sample_web_fs ([File_node 80 (cstr ''index.html'')], [160])"
  by (simp add: fs_ok_def sample_web_fs_def sample_fs_def blank_node_def free_blocks_def sample_file_def)

definition sample_request :: "byte list" where
  "sample_request = cstr ''GET / HTTP/1.1'' @ CRLF @ CRLF"

lemma sample_request_parses:
  "http_parse_request sample_request =
    \<lparr>rq_method = HTTP_METHOD_GET, rq_path = [slash], rq_version = HTTP_VERSION_1_1, rq_valid = True\<rparr>"
proof -
  have "sample_request = request_line [slash] HTTP_VERSION_1_1 CR (LF # CRLF)"
    by (simp add: sample_request_def request_line_def CRLF_def cstr_def slash_def)
  then show ?thesis
    using http_parse_request_line [of "[slash]" CR "LF # CRLF" HTTP_VERSION_1_1] by (simp add: line_ok_def slash_def)
qed

lemma sample_request_answer:
  "http_request_answer git_commit 8 sample_web_fs [File_node 80 (cstr ''index.html'')] sample_request =
    (HTTP_STATUS_OK, HTTP_CONTENT_TYPE_TEXT_HTML, [1, 2, 3])"
proof -
  have p: "path_of (cstr ''/index.html'') = [cstr ''index.html'']" by (simp add: path_of_def cstr_def slash_def)
  have z: "0 \<notin> set (cstr ''/index.html'')" by (simp add: cstr_def)
  have "str_find_char_reverse (cstr ''/index.html'') 46 = Some 6"
    by code_simp
  then have e: "http_get_content_type_from_extension (http_get_file_extension (cstr ''/index.html'')) = HTTP_CONTENT_TYPE_TEXT_HTML"
    by (simp add: http_get_file_extension_def http_get_content_type_from_extension_def cstr_def)
  show ?thesis
    using sample_file_ok(2)
    by (simp add: http_request_answer_def sample_request_parses http_answer_def p z e tree_at_def sample_web_fs_def
        file_content_def)
qed

theorem http_handle_request_answers_witness:
  "\<exists>buf'. http_handle_request (cstr ''abc'') 8 sample_request (byte_buf_new (replicate 200 0) 0 200) (arena_new 0 400) sample_web_fs =
      Some (ok, buf') \<and> byte_view_from_buf buf' = http_reply (HTTP_STATUS_OK, HTTP_CONTENT_TYPE_TEXT_HTML, [1, 2, 3])"
proof -
  have l: "length (http_reply (HTTP_STATUS_OK, HTTP_CONTENT_TYPE_TEXT_HTML, [1, 2, 3])) \<le> 200"
    by (simp add: http_reply_def http_header_def cstr_def CRLF_def decimal.simps)
  have f: "rf_scratch sample_web_fs = arena_new 0x10000 (4 * PATH_NAME_MAX_LEN)" "length sample_request \<le> 1024"
    "308 \<le> ar_end (arena_new 0 400) - ar_beg (arena_new 0 400)"
    "wf_buf (byte_buf_new (replicate 200 0) 0 200)" "bb_cap (byte_buf_new (replicate 200 0) 0 200) < 2 ^ 63"
    by (simp_all add: sample_web_fs_def sample_fs_def sample_request_def CRLF_def cstr_def arena_new_def
        byte_buf_new_def wf_buf_def)
  show ?thesis
    using http_handle_request_answers [OF sample_web_fs_ok f(1-3) f(4,5), of "cstr ''abc''"] l
    by (auto simp: Let_def no_slash_def sample_request_answer sample_request_parses byte_buf_new_def appended_def byte_view_from_buf_def)
qed

text \<open>A request without a slash.\<close>

lemma no_slash_halts:
  "http_handle_request (cstr ''abc'') 8 (cstr ''GET x HTTP/1.1'' @ CRLF @ CRLF)
    (byte_buf_new (replicate 200 0) 0 200) (arena_new 0 400) sample_fs = None"
proof -
  have d: "cstr ''GET x HTTP/1.1'' @ CRLF @ CRLF = request_line (cstr ''x'') HTTP_VERSION_1_1 CR (LF # CRLF)"
    by (simp add: request_line_def CRLF_def cstr_def)
  have "no_slash (cstr ''GET x HTTP/1.1'' @ CRLF @ CRLF)"
    unfolding d using http_parse_request_line [of "cstr ''x''" CR "LF # CRLF" HTTP_VERSION_1_1]
    by (simp add: no_slash_def line_ok_def cstr_def slash_def)
  then show ?thesis by (rule http_handle_request_halts) (simp add: cstr_def CRLF_def)
qed

end
