(* ===== verification/WebConn.thy ===== *)
theory WebConn
  imports Web TcpProps
begin

text \<open>
  The web server (src/web.c), second part: connections. While the server sleeps, the other tasks
  run; \<open>env\<close> is what they do to the state of the network in one sleep. The server's temporary arena
  is passed by value, so an allocation of a callee does not reach its caller.
\<close>

definition WEB_NUM_RECV_RETRIES :: nat where "WEB_NUM_RECV_RETRIES = 10"
definition WEB_NUM_RECV_REQUEST_RETRIES :: nat where "WEB_NUM_RECV_REQUEST_RETRIES = 5"
definition WEB_MAX_RESPONSE_SIZE :: sz where "WEB_MAX_RESPONSE_SIZE = 2 ^ 22"

type_synonym ('d, 'z) world = "('d, 'z) tcp_net_scheme \<Rightarrow> ('d, 'z) tcp_net_scheme option"

section \<open>Accepting and answering\<close>

partial_function (option) web_wait_accept_conn ::
  "('d, 'z) world \<Rightarrow> nat \<Rightarrow> ('d, 'z) tcp_net_scheme \<Rightarrow> (nat \<times> ('d, 'z) tcp_net_scheme) option" where
  "web_wait_accept_conn env listen_conn s = do {
     (conn, s) \<leftarrow> tcp_conn_accept listen_conn s;
     case conn of
       Some c \<Rightarrow> Some (c, s)
     | None \<Rightarrow> do { s \<leftarrow> env s; web_wait_accept_conn env listen_conn s }
   }"

text \<open>The sending loop of \<open>web_respond_close\<close>; its first round always runs.\<close>

partial_function (option) web_transmit ::
  "('d, 'z) world \<Rightarrow> nat \<Rightarrow> byte list \<Rightarrow> sz \<Rightarrow> send_buf \<Rightarrow> ('d, 'z) tcp_net_scheme \<Rightarrow>
     (unit res \<times> ('d, 'z) tcp_net_scheme) option" where
  "web_transmit env c response n_transmitted sb s = do {
     transmit \<leftarrow> byte_view_skip response n_transmitted;
     (res, peer_closed_conn, s) \<leftarrow> tcp_conn_send c transmit sb s;
     case res of
       Inl e \<Rightarrow> Some (Inl e, s)
     | Inr n \<Rightarrow>
         let n_transmitted = n_transmitted + n in
         if n_transmitted \<ge> int (length response) then Some (ok, s)
         else do {
           s \<leftarrow> env s;
           if peer_closed_conn then Some (ok, s) else web_transmit env c response n_transmitted sb s
         }
   }"

declare web_wait_accept_conn.simps [code] web_transmit.simps [code]

definition web_respond_close ::
  "('d, 'z) world \<Rightarrow> nat \<Rightarrow> byte list \<Rightarrow> send_buf \<Rightarrow> ('d, 'z) tcp_net_scheme \<Rightarrow>
     (unit res \<times> ('d, 'z) tcp_net_scheme) option" where
  "web_respond_close env c response sb s = do {
     (res, s) \<leftarrow> web_transmit env c response 0 sb s;
     case res of Inl e \<Rightarrow> Some (Inl e, s) | Inr _ \<Rightarrow> tcp_conn_close c sb s
   }"

section \<open>Receiving a request\<close>

fun recv_retry_loop ::
  "('d, 'z) world \<Rightarrow> nat \<Rightarrow> nat \<Rightarrow> sz \<Rightarrow> byte_buf \<Rightarrow> ('d, 'z) tcp_net_scheme \<Rightarrow>
     (sz res \<times> byte_buf \<times> ('d, 'z) tcp_net_scheme) option" where
  "recv_retry_loop env c 0 n_received recv_buf s = Some (Inr n_received, recv_buf, s)"
| "recv_retry_loop env c (Suc i) n_received recv_buf s = do {
     (res, recv_buf, peer_closed_conn, s) \<leftarrow> tcp_conn_recv c recv_buf s;
     case res of
       Inl e \<Rightarrow> Some (Inl e, recv_buf, s)
     | Inr n_received \<Rightarrow>
         if n_received \<noteq> 0 \<or> peer_closed_conn then Some (Inr n_received, recv_buf, s)
         else do { s \<leftarrow> env s; recv_retry_loop env c i n_received recv_buf s }
   }"

definition web_recv_retry ::
  "('d, 'z) world \<Rightarrow> nat \<Rightarrow> byte_buf \<Rightarrow> ('d, 'z) tcp_net_scheme \<Rightarrow>
     (sz res \<times> byte_buf \<times> ('d, 'z) tcp_net_scheme) option" where
  "web_recv_retry env c recv_buf s = recv_retry_loop env c WEB_NUM_RECV_RETRIES 0 recv_buf s"

text \<open>
  TCP reports the bytes that were available, also those that did not fit the buffer. Then the
  server answers with 507 and closes the connection.
\<close>

definition respond_no_storage ::
  "('d, 'z) world \<Rightarrow> byte list \<Rightarrow> nat \<Rightarrow> send_buf \<Rightarrow> arena \<Rightarrow> ('d, 'z) tcp_net_scheme \<Rightarrow> ('d, 'z) tcp_net_scheme option" where
  "respond_no_storage env git_commit c sb tmp s = do {
     (ba, _) \<leftarrow> byte_array_from_arena 1028 tmp;
     (_, response_buf) \<leftarrow> http_build_response HTTP_STATUS_INSUFFICIENT_STORAGE HTTP_CONTENT_TYPE_TEXT_HTML
       (insufficient_storage_body git_commit) (byte_buf_from_array ba);
     (_, s) \<leftarrow> web_respond_close env c (byte_view_from_buf response_buf) sb s;
     Some s
   }"

fun recv_request_loop ::
  "('d, 'z) world \<Rightarrow> byte list \<Rightarrow> nat \<Rightarrow> nat \<Rightarrow> sz \<Rightarrow> byte_buf \<Rightarrow> send_buf \<Rightarrow> arena \<Rightarrow> ('d, 'z) tcp_net_scheme \<Rightarrow>
     (sz res \<times> byte_buf \<times> ('d, 'z) tcp_net_scheme) option" where
  "recv_request_loop env git_commit c 0 n_received recv_buf sb tmp s = Some (Inl EINVAL, recv_buf, s)"
| "recv_request_loop env git_commit c (Suc i) n_received recv_buf sb tmp s = do {
     (res, recv_buf, s) \<leftarrow> web_recv_retry env c recv_buf s;
     case res of
       Inl e \<Rightarrow> Some (Inl e, recv_buf, s)
     | Inr n_new \<Rightarrow>
         if n_new = 0 then Some (Inr n_received, recv_buf, s)
         else
           let n_received = n_received + n_new in
           if n_received > bb_cap recv_buf then do {
             s \<leftarrow> respond_no_storage env git_commit c sb tmp s;
             Some (Inl ENOMEM, recv_buf, s)
           }
           else do {
             complete \<leftarrow> http_is_complete_header (byte_view_from_buf recv_buf);
             if complete then Some (Inr n_received, recv_buf, s)
             else do { s \<leftarrow> env s; recv_request_loop env git_commit c i n_received recv_buf sb tmp s }
           }
   }"

definition web_recv_http_request ::
  "('d, 'z) world \<Rightarrow> byte list \<Rightarrow> nat \<Rightarrow> byte_buf \<Rightarrow> send_buf \<Rightarrow> arena \<Rightarrow> ('d, 'z) tcp_net_scheme \<Rightarrow>
     (sz res \<times> byte_buf \<times> ('d, 'z) tcp_net_scheme) option" where
  "web_recv_http_request env git_commit c recv_buf sb tmp s =
     recv_request_loop env git_commit c WEB_NUM_RECV_REQUEST_RETRIES 0 recv_buf sb tmp s"

section \<open>Serving\<close>

definition web_serve_conn ::
  "('d, 'z) world \<Rightarrow> byte list \<Rightarrow> nat \<Rightarrow> addr \<Rightarrow> 'a ram_fs \<Rightarrow> send_buf \<Rightarrow> arena \<Rightarrow> ('d, 'z) tcp_net_scheme \<Rightarrow>
     (unit res \<times> ('d, 'z) tcp_net_scheme) option" where
  "web_serve_conn env git_commit c root rfs sb tmp s = do {
     (ba, tmp) \<leftarrow> byte_array_from_arena 1024 tmp;
     (res, recv_buf, s) \<leftarrow> web_recv_http_request env git_commit c (byte_buf_from_array ba) sb tmp s;
     case res of
       Inl e \<Rightarrow> do { (_, s) \<leftarrow> tcp_conn_close c sb s; Some (Inl e, s) }
     | Inr n_received \<Rightarrow>
         if n_received = 0 then do { (_, s) \<leftarrow> tcp_conn_close c sb s; Some (ok, s) }
         else do {
           (ba, tmp) \<leftarrow> byte_array_from_arena WEB_MAX_RESPONSE_SIZE tmp;
           (http_res, response_buf) \<leftarrow> http_handle_request git_commit root (byte_view_from_buf recv_buf)
             (byte_buf_from_array ba) tmp rfs;
           case http_res of
             Inl e \<Rightarrow> do { (_, s) \<leftarrow> tcp_conn_close c sb s; Some (Inl e, s) }
           | Inr _ \<Rightarrow> web_respond_close env c (byte_view_from_buf response_buf) sb s
         }
   }"

definition web_handle_conn ::
  "('d, 'z) world \<Rightarrow> byte list \<Rightarrow> nat \<Rightarrow> addr \<Rightarrow> 'a ram_fs \<Rightarrow> send_buf \<Rightarrow> arena \<Rightarrow> ('d, 'z) tcp_net_scheme \<Rightarrow>
     (unit res \<times> ('d, 'z) tcp_net_scheme) option" where
  "web_handle_conn env git_commit listen_conn root rfs sb tmp s = do {
     (c, s) \<leftarrow> web_wait_accept_conn env listen_conn s;
     web_serve_conn env git_commit c root rfs sb tmp s
   }"

text \<open>
  \<open>web_listen\<close> never returns: its start, and one round of its loop. The listening connection is not
  compared with NULL; \<open>tcp_conn_accept\<close> has an assertion for it.
\<close>

definition web_listen_start ::
  "ipv4_addr \<Rightarrow> u16 \<Rightarrow> ('d, 'z) tcp_net_scheme \<Rightarrow> (nat option \<times> arena \<times> send_buf \<times> ('d, 'z) tcp_net_scheme) option" where
  "web_listen_start ip_addr port s = do {
     (mem, kv) \<leftarrow> kvalloc_alloc (0x4000 + WEB_MAX_RESPONSE_SIZE) 64 (tcp_kv s);
     (a, n) \<leftarrow> mem;
     let tmp = arena_new a n;
     (mem, kv) \<leftarrow> kvalloc_alloc (0x4000 + WEB_MAX_RESPONSE_SIZE) 64 kv;
     (a, n) \<leftarrow> mem;
     let sb = send_buf_new (arena_new a n);
     (listen_conn, s) \<leftarrow> tcp_conn_listen ip_addr port (s\<lparr>tcp_kv := kv\<rparr>);
     (_, tmp) \<leftarrow> ipv4_addr_format ip_addr tmp;
     Some (listen_conn, tmp, sb, s)
   }"

definition web_listen_round ::
  "('d, 'z) world \<Rightarrow> byte list \<Rightarrow> nat option \<Rightarrow> addr \<Rightarrow> 'a ram_fs \<Rightarrow> send_buf \<Rightarrow> arena \<Rightarrow> ('d, 'z) tcp_net_scheme \<Rightarrow>
     ('d, 'z) tcp_net_scheme option" where
  "web_listen_round env git_commit listen_conn root rfs sb tmp s = do {
     listen_conn \<leftarrow> listen_conn;
     (_, s) \<leftarrow> web_handle_conn env git_commit listen_conn root rfs sb tmp s;
     env s
   }"

fun web_listen_rounds ::
  "nat \<Rightarrow> ('d, 'z) world \<Rightarrow> byte list \<Rightarrow> nat option \<Rightarrow> addr \<Rightarrow> 'a ram_fs \<Rightarrow> send_buf \<Rightarrow> arena \<Rightarrow>
     ('d, 'z) tcp_net_scheme \<Rightarrow> ('d, 'z) tcp_net_scheme option" where
  "web_listen_rounds 0 env git_commit listen_conn root rfs sb tmp s = Some s"
| "web_listen_rounds (Suc n) env git_commit listen_conn root rfs sb tmp s = do {
     s \<leftarrow> web_listen_round env git_commit listen_conn root rfs sb tmp s;
     web_listen_rounds n env git_commit listen_conn root rfs sb tmp s
   }"

end
