(* ===== verification/WebServe.thy ===== *)
theory WebServe
  imports WebConn
begin

text \<open>
  The connections of the web server. What the other tasks may do while the server sleeps is a
  locale; the arrival of any segments is an instance of it. The server closes the connections that it
  accepts, and never touches others.
\<close>

section \<open>What is kept\<close>

text \<open>A connection that has been accepted and that its user has not closed.\<close>

definition held :: "tcp_conn_state option \<Rightarrow> bool" where
  "held x \<longleftrightarrow> x \<in> {Some ESTABLISHED, Some CLOSE_WAIT, Some RESET}"

text \<open>The connections outside of \<open>X\<close> that listen go on listening, and those that are held stay held.\<close>

definition spares :: "nat set \<Rightarrow> ('d, 'z) tcp_net_scheme \<Rightarrow> ('d, 'z) tcp_net_scheme \<Rightarrow> bool" where
  "spares X s s' \<longleftrightarrow> tcp_inv s' \<and> (\<forall>i. i \<notin> X \<longrightarrow>
     (phase s i = Some LISTEN \<longrightarrow> phase s' i = Some LISTEN) \<and> (held (phase s i) \<longrightarrow> held (phase s' i)))"

lemma spares_inv: "spares X s s' \<Longrightarrow> tcp_inv s'"
  by (simp add: spares_def)

lemma spares_refl: "tcp_inv s \<Longrightarrow> spares X s s"
  by (simp add: spares_def)

lemma spares_trans: "spares X s s1 \<Longrightarrow> spares X s1 s2 \<Longrightarrow> spares X s s2"
  by (simp add: spares_def)

lemma spares_mono: "spares X s s' \<Longrightarrow> X \<subseteq> Y \<Longrightarrow> spares Y s s'"
  unfolding spares_def by blast

lemma spares_same: "tcp_inv s' \<Longrightarrow> phase s' = phase s \<Longrightarrow> spares X s s'"
  by (simp add: spares_def)

lemma spares_held: "spares X s s' \<Longrightarrow> held (phase s c) \<Longrightarrow> c \<notin> X \<Longrightarrow> held (phase s' c)"
  by (simp add: spares_def)

lemma spares_listen: "spares X s s' \<Longrightarrow> phase s c = Some LISTEN \<Longrightarrow> c \<notin> X \<Longrightarrow> phase s' c = Some LISTEN"
  by (simp add: spares_def)

lemma held_used: "held (phase s c) \<Longrightarrow> c \<in> used s \<and> tc_state (tcp_conn_table s ! c) \<in> {ESTABLISHED, CLOSE_WAIT, RESET}"
  by (auto simp: held_def phase_def split: if_splits)

section \<open>Closing\<close>

text \<open>Closing gives a held connection up, and closing it once more does nothing.\<close>

lemma tcp_conn_close_held:
  assumes "tcp_conn_close c sb s = Some (r, s')" "tcp_inv s" "held (phase s c)"
  shows "spares {c} s s'" "\<not> held (phase s' c)" "\<exists>r'. tcp_conn_close c sb s' = Some (r', s')"
proof -
  let ?st = "tc_state (tcp_conn_table s ! c)"
  have u: "c \<in> used s" "?st \<in> {ESTABLISHED, CLOSE_WAIT, RESET}" "phase s c = Some ?st"
    using held_used [OF assms(3)] by (simp_all add: phase_def)
  have len: "c < length (tcp_conn_table s)"
    using u(1) assms(2) used_bound by (auto simp: tcp_inv_def tcp_inv_except_def)
  consider (free) "tcp_free_conn c s = Some s'"
    | (fin) s1 st' where "set_state c st' s = Some s1" "st' \<in> {FIN_WAIT_1, LAST_ACK}" "?st \<noteq> RESET"
        "tcp_send_segment_empty c (TCP_HDR_FLAG_FIN OR TCP_HDR_FLAG_ACK) sb s1 = Some (r, s')"
    using assms(1) u(2) by (auto simp: tcp_conn_close_def bind_eq_Some_conv conn_at_Some split: if_splits)
  then have "spares {c} s s' \<and> \<not> held (phase s' c) \<and> (\<exists>r'. tcp_conn_close c sb s' = Some (r', s'))"
  proof cases
    case free
    note f = tcp_free_conn_inv [OF free, of "{}"]
    have "tcp_conn_table s' = (tcp_conn_table s)[c := freed_conn]"
      using free len by (auto simp: tcp_free_conn_def bind_eq_Some_conv conn_update_Some)
    then have "conn_at s' c = Some freed_conn" using len by (simp add: conn_at_Some)
    then show ?thesis using f assms(2) u(1)
      by (auto simp: tcp_inv_def spares_def held_def tcp_conn_close_def freed_conn_def)
  next
    case fin
    note 1 = state_step [OF fin(1) assms(2) u(1,3)]
    have 2: "tcp_inv s1" "phase s1 = (phase s)(c \<mapsto> st')" "c \<in> used s1" using 1 u(2) fin(2) by auto
    note 3 = send_step [OF fin(4) 2(1,3)]
    have p: "phase s' c = Some st'" using 2 3 by simp
    then have "c < length (tcp_conn_table s')" "tc_state (tcp_conn_table s' ! c) = st'"
      using 3(1) used_bound by (auto simp: phase_Some tcp_inv_def tcp_inv_except_def)
    then have "tcp_conn_close c sb s' = Some (ok, s')"
      using fin(2) by (auto simp: tcp_conn_close_def conn_at_def peek_Some)
    then show ?thesis using 2 3 fin(2) p by (auto simp: spares_def held_def)
  qed
  then show "spares {c} s s'" "\<not> held (phase s' c)" "\<exists>r'. tcp_conn_close c sb s' = Some (r', s')" by auto
qed

lemma tcp_conn_recv_spares:
  assumes "tcp_conn_recv c buf s = Some (r, buf', p, s')" "tcp_inv s" "held (phase s c)" "wf_buf buf"
  shows "spares {} s s'" "wf_buf buf'" "bb_cap buf' = bb_cap buf"
proof -
  have u: "c \<in> used s" "tc_state (tcp_conn_table s ! c) \<in> {ESTABLISHED, CLOSE_WAIT, RESET}"
    using held_used [OF assms(3)] by simp_all
  have i: "tcp_inv s' \<and> phase s' = phase s" using tcp_conn_recv_inv [OF assms(1,2) u(1) assms(4)] u(2) by auto
  then show "spares {} s s'" by (simp add: spares_same)
  have "wf_buf buf' \<and> bb_cap buf' = bb_cap buf"
  proof (cases "buf' = buf")
    case False
    let ?conn = "tcp_conn_table s ! c"
    obtain n rb where r: "circ_buf_read (tc_recv_buf ?conn) buf = Some (n, rb, buf')"
      using assms(1) False by (auto simp: tcp_conn_recv_def bind_eq_Some_conv Let_def conn_at_Some split: if_splits)
    have "conn_ok ?conn" using assms(2) u by (auto simp: tcp_inv_def tcp_inv_except_def)
    then have "wf_recv_buf (tc_recv_buf ?conn)" using u(2) by (auto simp: conn_ok_def split: tcp_conn_state.splits)
    then show ?thesis using circ_buf_read_ok [of "tc_recv_buf ?conn" buf] assms(4) r by (auto simp: wf_recv_buf_def)
  qed (simp add: assms(4))
  then show "wf_buf buf'" "bb_cap buf' = bb_cap buf" by auto
qed

text \<open>Sending a part of the answer has failed, and that was the end.\<close>

definition sending_failed :: "nat \<Rightarrow> send_buf \<Rightarrow> unit res \<Rightarrow> ('d, 'z) tcp_net_scheme \<Rightarrow> bool" where
  "sending_failed c sb r s \<longleftrightarrow> (\<exists>x t s2 p. r = Inl x \<and> tcp_conn_send c t sb s2 = Some (Inl x, p, s))"

section \<open>The other tasks\<close>

text \<open>
  The contract of the rest of the kernel: a sleep keeps the invariant of TCP, and does not take
  connections away from the server.
\<close>

locale web_world =
  fixes env :: "('d, 'z) world"
  assumes env_keeps: "tcp_inv s \<Longrightarrow> env s = Some s' \<Longrightarrow> spares {} s s'"
begin

lemma wait_accept:
  assumes "web_wait_accept_conn env l s = Some y" "tcp_inv s" "phase s l = Some LISTEN"
  shows "spares {} s (snd y) \<and> phase (snd y) (fst y) = Some ESTABLISHED \<and> fst y \<noteq> l"
proof -
  have "env = env \<longrightarrow> tcp_inv s \<longrightarrow> phase s l = Some LISTEN \<longrightarrow>
    spares {} s (snd y) \<and> phase (snd y) (fst y) = Some ESTABLISHED \<and> fst y \<noteq> l"
  proof (rule web_wait_accept_conn.raw_induct [where P = "\<lambda>e l s y. e = env \<longrightarrow> tcp_inv s \<longrightarrow>
      phase s l = Some LISTEN \<longrightarrow> spares {} s (snd y) \<and> phase (snd y) (fst y) = Some ESTABLISHED \<and> fst y \<noteq> l",
      OF _ assms(1)], intro impI)
    fix rec e l and s :: "('d, 'z) tcp_net_scheme" and y
    assume IH: "\<And>e l s y. rec e l s = Some y \<Longrightarrow> e = env \<longrightarrow> tcp_inv s \<longrightarrow> phase s l = Some LISTEN \<longrightarrow>
        spares {} s (snd y) \<and> phase (snd y) (fst y) = Some ESTABLISHED \<and> fst y \<noteq> l"
      and y: "do { (conn, s) \<leftarrow> tcp_conn_accept l s;
          case conn of None \<Rightarrow> e s \<bind> rec e l | Some c \<Rightarrow> Some (c, s) } = Some y"
      and e: "e = env" "tcp_inv s" "phase s l = Some LISTEN"
    obtain r s1 where a: "tcp_conn_accept l s = Some (r, s1)"
      "(case r of None \<Rightarrow> e s1 \<bind> rec e l | Some c \<Rightarrow> Some (c, s1)) = Some y"
      using y by (auto simp: bind_eq_Some_conv)
    have "l \<in> used s" using e(3) by (simp add: phase_Some)
    note i = tcp_conn_accept_inv [OF a(1) e(2) this]
    then have k: "spares {} s s1" by (simp add: spares_same)
    show "spares {} s (snd y) \<and> phase (snd y) (fst y) = Some ESTABLISHED \<and> fst y \<noteq> l"
    proof (cases r)
      case None
      then obtain s2 where s2: "env s1 = Some s2" "rec e l s2 = Some y" using a(2) e(1) by (auto simp: bind_eq_Some_conv)
      have k2: "spares {} s1 s2" using env_keeps [OF spares_inv [OF k] s2(1)] .
      then show ?thesis using IH [OF s2(2)] e spares_trans [OF k] spares_trans spares_listen spares_inv k by blast
    next
      case (Some c)
      then show ?thesis using a(2) i k by auto
    qed
  qed
  then show ?thesis using assms(2,3) by blast
qed

lemma transmit:
  assumes "web_transmit env c response n sb s = Some y" "tcp_inv s" "held (phase s c)"
  shows "spares {} s (snd y) \<and>
    (\<forall>x. fst y = Inl x \<longrightarrow> (\<exists>t s2 p. tcp_conn_send c t sb s2 = Some (Inl x, p, snd y)))"
proof -
  let ?Q = "\<lambda>c sb s y. spares {} s (snd y) \<and>
    (\<forall>x. fst y = Inl x \<longrightarrow> (\<exists>t s2 p. tcp_conn_send c t sb s2 = Some (Inl x, p, snd y)))"
  have "env = env \<longrightarrow> tcp_inv s \<longrightarrow> held (phase s c) \<longrightarrow> ?Q c sb s y"
  proof (rule web_transmit.raw_induct [where P = "\<lambda>e c response n sb s y. e = env \<longrightarrow> tcp_inv s \<longrightarrow>
      held (phase s c) \<longrightarrow> ?Q c sb s y", OF _ assms(1)], intro impI)
    fix rec e c response n sb and s :: "('d, 'z) tcp_net_scheme" and y
    assume IH: "\<And>e c response n sb s y. rec e c response n sb s = Some y \<Longrightarrow> e = env \<longrightarrow> tcp_inv s \<longrightarrow>
        held (phase s c) \<longrightarrow> ?Q c sb s y"
      and y: "do { transmit \<leftarrow> byte_view_skip response n;
          (res, peer, s) \<leftarrow> tcp_conn_send c transmit sb s;
          case res of Inl x \<Rightarrow> Some (Inl x, s)
          | Inr m \<Rightarrow> let n = n + m in if n \<ge> int (length response) then Some (ok, s)
              else e s \<bind> (\<lambda>s. if peer then Some (ok, s) else rec e c response n sb s) } = Some y"
      and e: "e = env" "tcp_inv s" "held (phase s c)"
    obtain t res peer s1 where t: "tcp_conn_send c t sb s = Some (res, peer, s1)"
      "(case res of Inl x \<Rightarrow> Some (Inl x, s1)
          | Inr m \<Rightarrow> let n = n + m in if n \<ge> int (length response) then Some (ok, s1)
              else e s1 \<bind> (\<lambda>s. if peer then Some (ok, s) else rec e c response n sb s)) = Some y"
      using y by (auto simp: bind_eq_Some_conv)
    have k: "spares {} s s1" using tcp_conn_send_inv [OF t(1) e(2)] held_used [OF e(3)] by (simp add: spares_same)
    show "?Q c sb s y"
    proof (cases res)
      case (Inl x)
      then have "y = (Inl x, s1)" "tcp_conn_send c t sb s = Some (Inl x, peer, s1)" using t by simp_all
      then show ?thesis using k by simp blast
    next
      case (Inr m)
      consider "y = (ok, s1)" | s2 where "env s1 = Some s2" "y = (ok, s2)"
        | s2 where "env s1 = Some s2" "rec e c response (n + m) sb s2 = Some y"
        using t(2) Inr e(1) by (auto simp: bind_eq_Some_conv Let_def split: if_splits)
      then show ?thesis
      proof cases
        case 3
        note k2 = env_keeps [OF spares_inv [OF k] 3(1)]
        have "held (phase s2 c)" using e(3) k k2 spares_held by blast
        then show ?thesis using IH [OF 3(2)] e(1) spares_inv [OF k2] spares_trans [OF k] spares_trans [OF k2] by blast
      qed (use k env_keeps [OF spares_inv [OF k]] spares_trans [OF k] in auto)
    qed
  qed
  then show ?thesis using assms(2,3) by blast
qed

lemma respond_close:
  assumes "web_respond_close env c response sb s = Some (r, s')" "tcp_inv s" "held (phase s c)"
  shows "spares {c} s s'" "\<not> held (phase s' c) \<or> sending_failed c sb r s'"
    "\<not> held (phase s' c) \<Longrightarrow> \<exists>r'. tcp_conn_close c sb s' = Some (r', s')"
proof -
  obtain res s1 where t: "web_transmit env c response 0 sb s = Some (res, s1)"
    "(case res of Inl e \<Rightarrow> Some (Inl e, s1) | Inr _ \<Rightarrow> tcp_conn_close c sb s1) = Some (r, s')"
    using assms(1) by (auto simp: web_respond_close_def bind_eq_Some_conv)
  have k: "spares {} s s1" "\<And>x. res = Inl x \<Longrightarrow> \<exists>t s2 p. tcp_conn_send c t sb s2 = Some (Inl x, p, s1)"
    using transmit [OF t(1) assms(2,3)] by simp_all
  have h: "tcp_inv s1" "held (phase s1 c)" using k(1) assms(3) spares_inv spares_held by blast+
  have "spares {c} s s' \<and> (\<not> held (phase s' c) \<or> sending_failed c sb r s') \<and>
    (\<not> held (phase s' c) \<longrightarrow> (\<exists>r'. tcp_conn_close c sb s' = Some (r', s')))"
  proof (cases res)
    case (Inl x)
    then have "sending_failed c sb r s'" "s' = s1" using t(2) k(2) by (auto simp: sending_failed_def)
    then show ?thesis using k(1) h(2) spares_mono [OF k(1)] by auto
  next
    case (Inr u)
    then have "tcp_conn_close c sb s1 = Some (r, s')" using t(2) by simp
    from tcp_conn_close_held [OF this h] show ?thesis using spares_trans [OF spares_mono [OF k(1)]] by auto
  qed
  then show "spares {c} s s'" "\<not> held (phase s' c) \<or> sending_failed c sb r s'"
    "\<not> held (phase s' c) \<Longrightarrow> \<exists>r'. tcp_conn_close c sb s' = Some (r', s')" by blast+
qed

lemma recv_retry:
  assumes "recv_retry_loop env c i n buf s = Some (r, buf', s')" "tcp_inv s" "held (phase s c)" "wf_buf buf"
  shows "spares {} s s' \<and> wf_buf buf'"
  using assms
proof (induction i arbitrary: n buf s)
  case 0
  then show ?case by (simp add: spares_refl)
next
  case (Suc i)
  obtain res b p s1 where 1: "tcp_conn_recv c buf s = Some (res, b, p, s1)"
    "(case res of Inl e \<Rightarrow> Some (Inl e, b, s1) | Inr m \<Rightarrow>
       if m \<noteq> 0 \<or> p then Some (Inr m, b, s1) else env s1 \<bind> recv_retry_loop env c i m b) = Some (r, buf', s')"
    using Suc.prems(1) by (auto simp: bind_eq_Some_conv)
  note k = tcp_conn_recv_spares [OF 1(1) Suc.prems(2-4)]
  show ?case
  proof (cases "s' = s1 \<and> buf' = b")
    case True
    then show ?thesis using k by simp
  next
    case False
    then obtain s2 m where 2: "env s1 = Some s2" "recv_retry_loop env c i m b s2 = Some (r, buf', s')"
      using 1(2) by (auto simp: bind_eq_Some_conv split: sum.splits if_splits)
    note k2 = env_keeps [OF spares_inv [OF k(1)] 2(1)]
    have "held (phase s2 c)" using Suc.prems(3) k(1) k2 spares_held by blast
    then have "spares {} s2 s' \<and> wf_buf buf'" using Suc.IH [OF 2(2) spares_inv [OF k2] _ k(2)] by blast
    then show ?thesis using spares_trans [OF k(1)] spares_trans [OF k2] by blast
  qed
qed

text \<open>
  After receiving, the connection is still held, or, with an error, it may have been closed; then
  closing it again does nothing.
\<close>

lemma recv_request:
  assumes "recv_request_loop env git c i n buf sb tmp s = Some (r, buf', s')" "tcp_inv s" "held (phase s c)" "wf_buf buf"
  shows "spares {c} s s' \<and> (held (phase s' c) \<or> is_error r \<and> (\<exists>r'. tcp_conn_close c sb s' = Some (r', s')))"
  using assms
proof (induction i arbitrary: n buf s)
  case 0
  then show ?case by (simp add: spares_refl)
next
  case (Suc i)
  obtain res b s1 where 1: "web_recv_retry env c buf s = Some (res, b, s1)" using Suc.prems(1) by (auto simp: bind_eq_Some_conv)
  have k: "spares {} s s1" "wf_buf b"
    using recv_retry [OF 1 [unfolded web_recv_retry_def] Suc.prems(2-4)] by auto
  have h: "tcp_inv s1" "held (phase s1 c)" using k(1) Suc.prems(3) spares_inv spares_held by blast+
  have kc: "spares {c} s s1" using spares_mono [OF k(1)] by blast
  consider "s' = s1" | "respond_no_storage env git c sb tmp s1 = Some s'" "r = Inl ENOMEM"
    | s2 m where "env s1 = Some s2" "recv_request_loop env git c i m b sb tmp s2 = Some (r, buf', s')"
    using Suc.prems(1) 1 by (auto simp: bind_eq_Some_conv Let_def split: sum.splits if_splits)
  then show ?case
  proof cases
    case 1
    then show ?thesis using kc h by simp
  next
    case 2
    then obtain resp x where "web_respond_close env c resp sb s1 = Some (x, s')"
      by (auto simp: respond_no_storage_def bind_eq_Some_conv)
    from respond_close [OF this h] show ?thesis using spares_trans [OF kc] 2(2) by auto
  next
    case 3
    note k2 = env_keeps [OF h(1) 3(1)]
    have "held (phase s2 c)" using h(2) k2 spares_held by blast
    then show ?thesis using Suc.IH [OF 3(2) spares_inv [OF k2] _ k(2)] spares_trans [OF kc] spares_trans [OF spares_mono [OF k2]] by blast
  qed
qed

lemma serve_conn:
  assumes "web_serve_conn env git c root rfs sb tmp s = Some (r, s')" "tcp_inv s" "held (phase s c)"
  shows "spares {c} s s' \<and> (\<not> held (phase s' c) \<or> sending_failed c sb r s')"
proof -
  obtain ba tmp1 res buf s1 where 0: "byte_array_from_arena 1024 tmp = Some (ba, tmp1)"
    and 1: "web_recv_http_request env git c (byte_buf_from_array ba) sb tmp1 s = Some (res, buf, s1)"
    using assms(1) by (auto simp: web_serve_conn_def bind_eq_Some_conv)
  have k: "spares {c} s s1" "held (phase s1 c) \<or> is_error res \<and> (\<exists>r'. tcp_conn_close c sb s1 = Some (r', s1))"
    using recv_request [OF 1 [unfolded web_recv_http_request_def] assms(2,3)] by auto
  consider (closed) x where "tcp_conn_close c sb s1 = Some (x, s')"
    | (answer) resp where "web_respond_close env c resp sb s1 = Some (r, s')" "\<not> is_error res"
  proof (cases res)
    case (Inl e)
    then show thesis using assms(1) 0 1 that(1) by (auto simp: web_serve_conn_def bind_eq_Some_conv)
  next
    case (Inr n)
    show thesis
    proof (cases "n = 0")
      case True
      then show thesis using assms(1) 0 1 that(1) Inr by (auto simp: web_serve_conn_def bind_eq_Some_conv)
    next
      case False
      obtain res2 :: "unit res" and resp where "(case res2 of Inl e \<Rightarrow> do { (_, s) \<leftarrow> tcp_conn_close c sb s1; Some (Inl e, s) }
          | Inr _ \<Rightarrow> web_respond_close env c (byte_view_from_buf resp) sb s1) = Some (r, s')"
        using assms(1) 0 1 Inr False unfolding web_serve_conn_def
        by (auto simp: bind_eq_Some_conv)
      then show thesis using that Inr by (cases res2) (auto simp: bind_eq_Some_conv)
    qed
  qed
  then show ?thesis
  proof cases
    case closed
    show ?thesis
    proof (cases "held (phase s1 c)")
      case True
      from tcp_conn_close_held [OF closed spares_inv [OF k(1)] True] show ?thesis using spares_trans [OF k(1)] by blast
    next
      case False
      then have "s' = s1" using closed k(2) by auto
      then show ?thesis using k(1) False by simp
    qed
  next
    case answer
    then have "held (phase s1 c)" using k(2) by simp
    from respond_close [OF answer(1) spares_inv [OF k(1)] this] show ?thesis using spares_trans [OF k(1)] by blast
  qed
qed

lemma handle_conn:
  assumes "web_handle_conn env git l root rfs sb tmp s = Some (r, s')" "tcp_inv s" "phase s l = Some LISTEN"
  shows "\<exists>c s1. web_wait_accept_conn env l s = Some (c, s1) \<and> phase s1 c = Some ESTABLISHED \<and> c \<noteq> l \<and>
    spares {c} s s' \<and> (\<not> held (phase s' c) \<or> sending_failed c sb r s')"
proof -
  obtain c s1 where 1: "web_wait_accept_conn env l s = Some (c, s1)" "web_serve_conn env git c root rfs sb tmp s1 = Some (r, s')"
    using assms(1) by (auto simp: web_handle_conn_def bind_eq_Some_conv)
  have k: "spares {} s s1" "phase s1 c = Some ESTABLISHED" "c \<noteq> l" using wait_accept [OF 1(1) assms(2,3)] by simp_all
  have "held (phase s1 c)" using k(2) by (simp add: held_def)
  from serve_conn [OF 1(2) spares_inv [OF k(1)] this] show ?thesis
    using 1(1) k spares_trans [OF spares_mono [OF k(1)]] by blast
qed

lemma rounds:
  "web_listen_rounds n env git (Some l) root rfs sb tmp s = Some s' \<Longrightarrow> tcp_inv s \<Longrightarrow> phase s l = Some LISTEN \<Longrightarrow>
     tcp_inv s' \<and> phase s' l = Some LISTEN"
proof (induction n arbitrary: s)
  case (Suc n)
  obtain r s1 s2 where 1: "web_handle_conn env git l root rfs sb tmp s = Some (r, s1)" "env s1 = Some s2"
    "web_listen_rounds n env git (Some l) root rfs sb tmp s2 = Some s'"
    using Suc.prems(1) by (auto simp: web_listen_round_def bind_eq_Some_conv)
  obtain c where c: "c \<noteq> l" "spares {c} s s1" using handle_conn [OF 1(1) Suc.prems(2,3)] by blast
  note k = env_keeps [OF spares_inv [OF c(2)] 1(2)]
  have "phase s2 l = Some LISTEN" using spares_listen [OF c(2) Suc.prems(3)] c(1) spares_listen [OF k] by auto
  then show ?case using Suc.IH [OF 1(3) spares_inv [OF k]] by blast
qed simp

end

section \<open>Segments that arrive\<close>

text \<open>
  The network while the server sleeps: the segments of the next batch arrive, one after the other,
  with the send buffer of the task that handles them.
\<close>

record 'd web_net = "'d tcp_net" +
  wn_arriving :: "(tcp_ip_pseudo_header \<times> byte list \<times> send_buf) list list"

fun arrive :: "(tcp_ip_pseudo_header \<times> byte list \<times> send_buf) list \<Rightarrow> ('d, 'z) world" where
  "arrive [] s = Some s"
| "arrive ((ph, segment, sb) # segs) s = do {
     (_, s) \<leftarrow> tcp_handle_packet ph segment sb s;
     arrive segs s
   }"

definition network :: "'d web_net \<Rightarrow> 'd web_net option" where
  "network s = (case wn_arriving s of
      [] \<Rightarrow> Some s
    | segs # later \<Rightarrow> arrive segs (s\<lparr>wn_arriving := later\<rparr>))"

lemma handle_packet_spares:
  assumes "tcp_handle_packet ph segment sb s = Some (r, s')" "tcp_inv s"
  shows "spares {} s s'"
proof -
  note i = tcp_handle_packet_inv [OF assms]
  then obtain d p where p: "\<forall>i. purged (phase s i) (p i)"
    "seg_trans (th_flags (tcp_header_of segment)) (p d) (phase s' d)" "\<forall>i. i \<noteq> d \<longrightarrow> phase s' i = p i"
    by (auto simp: moves_def)
  have same: "p i = phase s i" if "phase s i = Some LISTEN \<or> held (phase s i)" for i
    using p(1) [rule_format, of i] that by (auto simp: purged_def held_def)
  have "(phase s i = Some LISTEN \<longrightarrow> phase s' i = Some LISTEN) \<and> (held (phase s i) \<longrightarrow> held (phase s' i))" for i
    using p(2,3) same [of i] by (cases "i = d") (auto simp: held_def elim!: seg_transE)
  then show ?thesis using i by (simp add: spares_def)
qed

lemma arrive_spares: "arrive segs s = Some s' \<Longrightarrow> tcp_inv s \<Longrightarrow> spares {} s s'"
proof (induction segs s rule: arrive.induct)
  case (2 ph segment sb segs s)
  obtain r s1 where 1: "tcp_handle_packet ph segment sb s = Some (r, s1)" "arrive segs s1 = Some s'"
    using "2.prems"(1) by (auto simp: bind_eq_Some_conv)
  note k = handle_packet_spares [OF 1(1) "2.prems"(2)]
  show ?case using "2.IH" [OF 1(1) refl 1(2) spares_inv [OF k]] spares_trans [OF k] by blast
qed (simp add: spares_refl)

lemma tcp_inv_arriving [simp]: "tcp_inv (s\<lparr>wn_arriving := x\<rparr>) = tcp_inv s"
  by (rule tcp_inv_cong) simp_all

lemma phase_arriving [simp]: "phase (s\<lparr>wn_arriving := x\<rparr>) = phase s"
  by (simp add: phase_def used_def fun_eq_iff)

lemma network_spares: "tcp_inv s \<Longrightarrow> network s = Some s' \<Longrightarrow> spares {} s s'"
proof (cases "wn_arriving s")
  case (Cons segs later)
  assume "tcp_inv s" "network s = Some s'"
  then have "spares {} (s\<lparr>wn_arriving := later\<rparr>) s'"
    using arrive_spares [of segs "s\<lparr>wn_arriving := later\<rparr>" s'] Cons by (simp add: network_def)
  then show ?thesis by (simp add: spares_def)
qed (simp add: network_def spares_refl)

interpretation ww: web_world network
  by unfold_locales (rule network_spares)

section \<open>Properties\<close>

text \<open>
  The server gives up what it accepts, and nothing else. Whatever segments arrive while it
  sleeps, one call of \<open>web_handle_conn\<close> keeps the invariant of TCP; it accepts an established
  connection, and when it returns it has closed exactly this connection, unless sending a part of
  the answer failed: then the error is returned and the connection stays. Listening connections go on
  listening, and all other accepted connections stay as they are to their users.
\<close>

theorem web_handle_conn_closes:
  assumes "tcp_inv s" and "phase s l = Some LISTEN"
    and "web_handle_conn network git_commit l root rfs sb tmp s = Some (r, s')"
  shows "\<exists>c s1. web_wait_accept_conn network l s = Some (c, s1) \<and> phase s1 c = Some ESTABLISHED \<and> c \<noteq> l \<and>
    spares {c} s s' \<and> (\<not> held (phase s' c) \<or> sending_failed c sb r s')"
  by (rule ww.handle_conn [OF assms(3,1,2)])

text \<open>
  The server goes on. After every number of rounds of \<open>web_listen\<close>, with any segments arriving
  in between, the invariant of TCP holds and its connection is listening.
\<close>

theorem web_listen_goes_on:
  assumes "tcp_inv s" and "phase s l = Some LISTEN"
    and "web_listen_rounds n network git_commit (Some l) root rfs sb tmp s = Some s'"
  shows "tcp_inv s' \<and> phase s' l = Some LISTEN"
  by (rule ww.rounds [OF assms(3,1,2)])

lemma transmit_stuck:
  fixes s :: "'d web_net"
  assumes "web_transmit network c response n sb s = Some y" "wn_arriving s = []"
    "tcp_conn_table s ! c = conn" "c < length (tcp_conn_table s)" "tcp_send_window_avail conn = 0"
    "\<not> tcp_conn_closed_by_peer (tc_state conn)" "ipv4_route_mtu (tc_peer_addr conn) s = Inr mtu"
  shows "int (length response) \<le> n"
proof -
  have send: "tcp_conn_send c t sb s = Some (Inr 0, False, s)" for t sb
    using assms(3-7) by (simp add: tcp_conn_send_def conn_at_def peek_Some [THEN iffD2] tcp_send_loop.simps)
  have "(network :: 'd web_net \<Rightarrow> _) = network \<longrightarrow> s = s \<longrightarrow> c = c \<longrightarrow> int (length response) \<le> n"
    by (rule web_transmit.raw_induct [where P = "\<lambda>e c' response n sb s' y. e = network \<longrightarrow> s' = s \<longrightarrow> c' = c \<longrightarrow>
        int (length response) \<le> n", OF _ assms(1)])
      (use assms(2) send in \<open>auto simp: bind_eq_Some_conv network_def Let_def split: if_splits\<close>)
  then show ?thesis by simp
qed

text \<open>
  A silent peer stops the server. If the peer of a connection has filled its window and sends
  nothing any more, then TCP accepts no byte, every sleep brings the same state back, and the
  sending loop never returns: the loop has no limit, and while it runs no other connection is served.
\<close>

theorem web_transmit_hangs:
  assumes "wn_arriving s = []" and "conn_at s c = Some conn" and "tcp_send_window_avail conn = 0"
    and "\<not> tcp_conn_closed_by_peer (tc_state conn)" and "ipv4_route_mtu (tc_peer_addr conn) s = Inr mtu"
    and "response \<noteq> []"
  shows "tcp_conn_send c response sb s = Some (Inr 0, False, s) \<and> network s = Some s \<and>
    web_respond_close network c response sb s = None"
proof -
  have c: "tcp_conn_table s ! c = conn" "c < length (tcp_conn_table s)" using assms(2) by (simp_all add: conn_at_Some)
  have "tcp_conn_send c response sb s = Some (Inr 0, False, s)"
    using assms(2-6) by (simp add: tcp_conn_send_def tcp_send_loop.simps)
  moreover have "web_transmit network c response 0 sb s = None"
  proof (cases "web_transmit network c response 0 sb s")
    case (Some y)
    from transmit_stuck [OF this assms(1) c assms(3-5)] show ?thesis using assms(6) by simp
  qed
  ultimately show ?thesis using assms(1) by (simp add: network_def web_respond_close_def)
qed

section \<open>Samples\<close>

text \<open>A listening connection 0 with an established one in its queue, and no routes.\<close>

definition sample_web_net :: "byte list web_net" where
  "sample_web_net = tcp_net.extend (sample_listening\<lparr>route_table := [],
       tcp_links := zero_links(0 \<mapsto> \<lparr>dl_prev = Some 1, dl_next = Some 1\<rparr>, 1 \<mapsto> \<lparr>dl_prev = Some 0, dl_next = Some 0\<rparr>),
       tcp_conn_table := (replicate TCP_CONN_MAX_NUM zero_conn)[0 := sample_conn, 1 := sample_est_conn]\<rparr>)
     \<lparr>wn_arriving = []\<rparr>"

lemma sample_web_simps [simp]:
  "tcp_conn_table sample_web_net = (replicate TCP_CONN_MAX_NUM zero_conn)[0 := sample_conn, 1 := sample_est_conn]"
  "tcp_links sample_web_net = zero_links(0 \<mapsto> \<lparr>dl_prev = Some 1, dl_next = Some 1\<rparr>, 1 \<mapsto> \<lparr>dl_prev = Some 0, dl_next = Some 0\<rparr>)"
  "wn_arriving sample_web_net = []" "route_table sample_web_net = []"
  by (simp_all add: sample_web_net_def tcp_net.extend_def)

lemma sample_est_simps [simp]: "tc_is_used sample_est_conn" "tc_state sample_est_conn = ESTABLISHED"
  by (simp_all add: sample_est_conn_def)

lemma sample_web_used: "used sample_web_net = {0, 1}"
  by (auto simp: used_def nth_list_update TCP_CONN_MAX_NUM_def)

lemma sample_web_listens: "phase sample_web_net 0 = Some LISTEN"
  by (simp add: phase_Some sample_web_used TCP_CONN_MAX_NUM_def)

lemma sample_web_inv: "tcp_inv sample_web_net"
proof -
  have "conn_ok sample_est_conn" using sample_est_buf by (simp add: conn_ok_def)
  moreover have "conn_ok sample_conn"
    using tcp_reachable_inv [OF sample_reachable(2)] sample_used sample_table
    by (auto simp: tcp_inv_def tcp_inv_except_def)
  moreover have "links_ok (tcp_links sample_web_net) {0, 1}" by (simp add: links_ok_def nxt_def prv_def)
  moreover have "dom (tcp_links sample_web_net) = {..<TCP_CONN_MAX_NUM}"
    by (auto simp: zero_links_def TCP_CONN_MAX_NUM_def split: if_splits)
  ultimately show ?thesis unfolding tcp_inv_def tcp_inv_except_def sample_web_used
    by (auto simp: zero_links_def unused_links_def TCP_CONN_MAX_NUM_def)
qed

text \<open>Nothing is received, and the connection is closed; the FIN finds no route.\<close>

lemma recv_retry_idle:
  assumes "\<And>b. tcp_conn_recv c b s = Some (Inr 0, b, False, s)" "network s = Some s"
  shows "recv_retry_loop network c i 0 buf s = Some (Inr 0, buf, s)"
  by (induction i) (use assms in simp_all)

lemma serve_idle:
  assumes "\<And>b. tcp_conn_recv c b s = Some (Inr 0, b, False, s)" "network s = Some s"
    "tcp_conn_close c sb s = Some (r, s')" "byte_array_from_arena 1024 tmp = Some (ba, tmp')"
  shows "web_serve_conn network git_commit c root rfs sb tmp s = Some (ok, s')"
proof -
  have "web_recv_retry network c buf s = Some (Inr 0, buf, s)" for buf
    unfolding web_recv_retry_def by (rule recv_retry_idle [OF assms(1,2)])
  then have "web_recv_http_request network git_commit c buf sb tmp' s = Some (Inr 0, buf, s)" for buf
    by (simp add: web_recv_http_request_def WEB_NUM_RECV_REQUEST_RETRIES_def eval_nat_numeral)
  then show ?thesis using assms(3,4) by (simp add: web_serve_conn_def)
qed

lemma sample_web_accept:
  "\<exists>h. web_wait_accept_conn network 0 sample_web_net = Some (1, sample_web_net\<lparr>tcp_links := h\<rparr>)"
proof -
  have "\<exists>h. dlist_remove (tcp_links sample_web_net) 1 = Some h"
    using links_ok_remove [of "tcp_links sample_web_net" "used sample_web_net" 1] sample_web_inv
    by (auto simp: tcp_inv_def tcp_inv_except_def sample_web_used)
  then obtain h where h: "dlist_remove (tcp_links sample_web_net) 1 = Some h" ..
  have "conn_at sample_web_net 1 = Some sample_est_conn" by (simp add: conn_at_Some TCP_CONN_MAX_NUM_def)
  then have "tcp_conn_accept 0 sample_web_net = Some (Some 1, sample_web_net\<lparr>tcp_links := h\<rparr>)"
    using h by (simp add: tcp_conn_accept_def)
  then have "web_wait_accept_conn network 0 sample_web_net = Some (1, sample_web_net\<lparr>tcp_links := h\<rparr>)"
    by (subst web_wait_accept_conn.simps) simp
  then show ?thesis by fastforce
qed

lemma sample_web_serve:
  "\<exists>s'. web_handle_conn network (cstr ''abc'') 0 8 sample_fs (send_buf_new (arena_new 4096 4096)) (arena_new 4096 4096)
      sample_web_net = Some (ok, s') \<and> network s' = Some s' \<and> phase s' 0 = Some LISTEN"
proof -
  obtain h where h: "web_wait_accept_conn network 0 sample_web_net = Some (1, sample_web_net\<lparr>tcp_links := h\<rparr>)"
    using sample_web_accept by blast
  let ?s = "sample_web_net\<lparr>tcp_links := h\<rparr>"
  let ?s' = "?s\<lparr>tcp_conn_table := (tcp_conn_table sample_web_net)[1 := sample_est_conn\<lparr>tc_state := FIN_WAIT_1\<rparr>]\<rparr>"
  have conn: "conn_at ?s 1 = Some sample_est_conn" "1 < length (tcp_conn_table ?s)" "tcp_conn_table ?s ! 1 = sample_est_conn"
    by (simp_all add: conn_at_Some TCP_CONN_MAX_NUM_def)
  have recv: "tcp_conn_recv 1 b ?s = Some (Inr 0, b, False, ?s)" for b
    using conn(1) by (simp add: tcp_conn_recv_def circ_buf_count_def tcp_conn_closed_by_peer_def sample_est_conn_def)
  have set: "set_state 1 FIN_WAIT_1 ?s = Some ?s'"
    using conn by (simp add: set_state_def conn_update_def poke_def)
  have "conn_at ?s' 1 = Some (sample_est_conn\<lparr>tc_state := FIN_WAIT_1\<rparr>)" by (simp add: conn_at_Some TCP_CONN_MAX_NUM_def)
  then have "tcp_send_segment_empty 1 (TCP_HDR_FLAG_FIN OR TCP_HDR_FLAG_ACK) sb ?s' = Some (Inl EHOSTUNREACH, ?s')" for sb
    by (simp add: tcp_send_segment_empty_def tcp_send_segment_def tcp_send_segment_raw_def
        ipv4_route_interface_addr_def ipv4_route_get_entry_def Let_def)
  then have close: "tcp_conn_close 1 sb ?s = Some (Inl EHOSTUNREACH, ?s')" for sb
    using conn(1) set by (simp add: tcp_conn_close_def)
  have mem: "byte_array_from_arena 1024 (arena_new 4096 4096) = Some (replicate 1024 0, \<lparr>ar_beg = 5120, ar_end = 8192\<rparr>)"
    by (simp add: byte_array_from_arena_def arena_alloc_def arena_alloc_aligned_def arena_new_def)
  have "web_handle_conn network (cstr ''abc'') 0 8 sample_fs (send_buf_new (arena_new 4096 4096)) (arena_new 4096 4096)
      sample_web_net = Some (ok, ?s')"
    using h serve_idle [OF recv _ close mem] by (simp add: web_handle_conn_def network_def)
  moreover have "phase ?s' 0 = Some LISTEN" by (simp add: phase_def used_def TCP_CONN_MAX_NUM_def)
  ultimately show ?thesis by (intro exI [of _ ?s']) (simp add: network_def)
qed

theorem web_handle_conn_closes_witness:
  "\<exists>c s1 s'. web_wait_accept_conn network 0 sample_web_net = Some (c, s1) \<and> spares {c} sample_web_net s' \<and>
    web_handle_conn network (cstr ''abc'') 0 8 sample_fs (send_buf_new (arena_new 4096 4096)) (arena_new 4096 4096)
      sample_web_net = Some (ok, s') \<and> \<not> held (phase s' c)"
proof -
  obtain s' where "web_handle_conn network (cstr ''abc'') 0 8 sample_fs (send_buf_new (arena_new 4096 4096))
      (arena_new 4096 4096) sample_web_net = Some (ok, s')"
    using sample_web_serve by blast
  from this web_handle_conn_closes [OF sample_web_inv sample_web_listens this] show ?thesis
    by (auto simp: sending_failed_def)
qed

theorem web_listen_goes_on_witness:
  "\<exists>s'. web_listen_rounds 1 network (cstr ''abc'') (Some 0) 8 sample_fs (send_buf_new (arena_new 4096 4096))
      (arena_new 4096 4096) sample_web_net = Some s' \<and> tcp_inv s' \<and> phase s' 0 = Some LISTEN"
proof -
  obtain s' where "web_listen_rounds 1 network (cstr ''abc'') (Some 0) 8 sample_fs (send_buf_new (arena_new 4096 4096))
      (arena_new 4096 4096) sample_web_net = Some s'"
    using sample_web_serve by (auto simp: web_listen_round_def)
  from this web_listen_goes_on [OF sample_web_inv sample_web_listens this] show ?thesis by blast
qed

definition sample_silent :: "byte list web_net" where
  "sample_silent = tcp_net.extend (sample_established\<lparr>tcp_conn_table := [sample_est_conn\<lparr>tc_send_window := 0\<rparr>]\<rparr>)
     \<lparr>wn_arriving = []\<rparr>"

theorem web_transmit_hangs_witness:
  "web_respond_close network 0 [1, 2, 3] (send_buf_new (arena_new 4096 4096)) sample_silent = None"
proof -
  let ?conn = "sample_est_conn\<lparr>tc_send_window := 0\<rparr>"
  have "netdev_lookup_ip_addr a sample_silent = netdev_lookup_ip_addr a sample_established" for a
    by (simp add: netdev_lookup_ip_addr_def sample_silent_def tcp_net.extend_def)
  moreover have "route_table sample_silent = route_table sample_established"
    by (simp add: sample_silent_def tcp_net.extend_def)
  ultimately have "ipv4_route_mtu (Ipv4 8 8 8 8) sample_silent = Inr 1494"
    using sample_mtu by (simp add: ipv4_route_mtu_def ipv4_route_get_entry_def cong: option.case_cong)
  moreover have "tc_peer_addr ?conn = Ipv4 8 8 8 8" "tcp_send_window_avail ?conn = 0" "conn_at sample_silent 0 = Some ?conn"
    by (simp_all add: sample_est_conn_def tcp_send_window_avail_def sample_conn_def init_conn_def conn_at_Some
        sample_silent_def tcp_net.extend_def)
  moreover have "wn_arriving sample_silent = []" by (simp add: sample_silent_def tcp_net.extend_def)
  ultimately show ?thesis using web_transmit_hangs [of sample_silent 0 ?conn 1494 "[1, 2, 3]"]
    by (simp add: tcp_conn_closed_by_peer_def)
qed

end
