(* ===== verification/WebLive.thy ===== *)
theory WebLive
  imports WebServe
begin

text \<open>
  The progress of the web server: a response goes out completely and the connection is closed, as long as the
  peer goes on acknowledging. What the other tasks do to the network while the server sleeps is a parameter; the
  hypothesis on it is that the window of the connection opens again after some time. Without it the
  sending loop does not end (\<open>web_transmit_hangs\<close> in WebServe).
\<close>

section \<open>What sending leaves alone\<close>







section \<open>A connection that can send\<close>









section \<open>The response goes out\<close>






end
