(* ===== verification/Paging.thy ===== *)
theory Paging
  imports Arena Fmt
begin

text \<open>
  Paging (src/paging.c): the table of the linear mappings between virtual and physical addresses,
  the translations, and the page tables. Page table pages live in the memory of the pool that hands
  them out, so an entry is a word of that memory: a free page and a page in use are the same words.
  The processor's answer to \<open>cpuid\<close> and the register \<open>cr3\<close> are fields of the state.
\<close>

section \<open>State\<close>

definition PT_FLAG_P :: u64 where "PT_FLAG_P = 1"
definition PT_FLAG_RW :: u64 where "PT_FLAG_RW = 2"
definition PT_FLAG_US :: u64 where "PT_FLAG_US = 4"
definition PT_FLAG_PWT :: u64 where "PT_FLAG_PWT = 8"
definition PT_FLAG_PCD :: u64 where "PT_FLAG_PCD = 16"

definition PML4_BIT_BASE :: nat where "PML4_BIT_BASE = 39"
definition PDPT_BIT_BASE :: nat where "PDPT_BIT_BASE = 30"
definition PD_BIT_BASE :: nat where "PD_BIT_BASE = 21"
definition PT_BIT_BASE :: nat where "PT_BIT_BASE = 12"

definition PT_IDX :: "addr \<Rightarrow> nat \<Rightarrow> sz" where
  "PT_IDX vaddr base = drop_bit base (push_bit base 511 AND vaddr)"

definition NUM_PT_ENTRIES :: sz where "NUM_PT_ENTRIES = 512"

datatype addr_mapping_type = ADDR_MAPPING_TYPE_CANONICAL | ADDR_MAPPING_TYPE_ALIAS

datatype addr_mapping_memory_type =
    ADDR_MAPPING_MEMORY_WRITE_BACK | ADDR_MAPPING_MEMORY_WRITE_THROUGH
  | ADDR_MAPPING_MEMORY_UNCACHEABLE | ADDR_MAPPING_MEMORY_STRONG_UNCACHEABLE

abbreviation "ADDR_MAPPING_MEMORY_DEFAULT \<equiv> ADDR_MAPPING_MEMORY_WRITE_BACK"

record addr_mapping =
  am_type :: addr_mapping_type
  am_mem_type :: addr_mapping_memory_type
  am_perms :: u16
  am_vbase :: addr
  am_pbase :: addr
  am_len :: sz

definition NUM_ADDR_MAPPINGS :: nat where "NUM_ADDR_MAPPINGS = 32"

text \<open>An entry of the two arrays \<open>global_addr_mappings\<close> and \<open>global_addr_mappings_used\<close>.\<close>

type_synonym mappings = "(bool \<times> addr_mapping) list"

record paging =
  pg_mappings :: mappings
  pg_words :: words
  pg_pool :: pool
  pg_pml4 :: addr
  pg_cpuid_edx :: u32
  pg_cr3 :: addr

text \<open>\<open>result_..._checked\<close>: an error stops the machine.\<close>

fun checked :: "'a res \<Rightarrow> 'a option" where
  "checked (Inl e) = crash"
| "checked (Inr x) = Some x"

section \<open>The table of mappings\<close>

definition intervals_overlap :: "sz \<Rightarrow> sz \<Rightarrow> sz \<Rightarrow> sz \<Rightarrow> bool" where
  "intervals_overlap a1 b1 a2 b2 \<longleftrightarrow> a1 < b2 \<and> a2 < b1"

definition v_overlap :: "addr_mapping \<Rightarrow> addr_mapping \<Rightarrow> bool" where
  "v_overlap a b \<longleftrightarrow> intervals_overlap (am_vbase a) (am_vbase a + am_len a) (am_vbase b) (am_vbase b + am_len b)"

definition p_overlap :: "addr_mapping \<Rightarrow> addr_mapping \<Rightarrow> bool" where
  "p_overlap a b \<longleftrightarrow> intervals_overlap (am_pbase a) (am_pbase a + am_len a) (am_pbase b) (am_pbase b + am_len b)"

text \<open>The first loop of \<open>add_addr_mapping\<close>: \<^term>\<open>None\<close> for the return inside of it, otherwise the counters.\<close>

fun count_conflicts :: "addr_mapping \<Rightarrow> mappings \<Rightarrow> nat \<Rightarrow> nat \<Rightarrow> (nat \<times> nat) option" where
  "count_conflicts new [] n_canonical n_alias = Some (n_canonical, n_alias)"
| "count_conflicts new ((is_used, mapping) # ms) n_canonical n_alias =
     (if is_used then
        if v_overlap new mapping then None
        else if p_overlap new mapping then
          (case am_type mapping of
             ADDR_MAPPING_TYPE_CANONICAL \<Rightarrow> count_conflicts new ms (n_canonical + 1) n_alias
           | ADDR_MAPPING_TYPE_ALIAS \<Rightarrow> count_conflicts new ms n_canonical (n_alias + 1))
        else count_conflicts new ms n_canonical n_alias
      else count_conflicts new ms n_canonical n_alias)"

fun take_slot :: "addr_mapping \<Rightarrow> mappings \<Rightarrow> mappings option" where
  "take_slot new [] = None"
| "take_slot new ((is_used, mapping) # ms) =
     (if \<not> is_used then Some ((True, new) # ms) else map_option ((#) (is_used, mapping)) (take_slot new ms))"

definition add_addr_mapping :: "addr_mapping \<Rightarrow> mappings \<Rightarrow> unit res \<times> mappings" where
  "add_addr_mapping new ms =
     (case count_conflicts new ms 0 0 of
        None \<Rightarrow> (Inl EINVAL, ms)
      | Some (n_canonical, n_alias) \<Rightarrow>
          if \<not> (n_canonical = 1 \<or> n_canonical = 0 \<and> n_alias = 1 \<or> n_canonical = 0 \<and> n_alias = 0) then (Inl EINVAL, ms)
          else (case take_slot new ms of None \<Rightarrow> (Inl ENOMEM, ms) | Some ms' \<Rightarrow> (ok, ms')))"

definition same_region :: "addr_mapping \<Rightarrow> addr_mapping \<Rightarrow> bool" where
  "same_region a b \<longleftrightarrow> am_vbase a = am_vbase b \<and> am_pbase a = am_pbase b \<and> am_len a = am_len b"

fun remove_addr_mapping :: "addr_mapping \<Rightarrow> mappings \<Rightarrow> unit res \<times> mappings" where
  "remove_addr_mapping mapping [] = (Inl EINVAL, [])"
| "remove_addr_mapping mapping ((is_used, m) # ms) =
     (if is_used \<and> same_region m mapping then (ok, (False, m) # ms)
      else (let (r, ms) = remove_addr_mapping mapping ms in (r, (is_used, m) # ms)))"

text \<open>The loops of the translations keep the last mapping that matches.\<close>

fun phys_loop :: "addr \<Rightarrow> mappings \<Rightarrow> addr_mapping option \<Rightarrow> addr_mapping option \<Rightarrow> nat \<Rightarrow> nat \<Rightarrow>
    addr_mapping option \<times> addr_mapping option \<times> nat \<times> nat" where
  "phys_loop paddr [] canonical alias n_canonical n_alias = (canonical, alias, n_canonical, n_alias)"
| "phys_loop paddr ((is_used, m) # ms) canonical alias n_canonical n_alias =
     (if is_used \<and> IN_RANGE paddr (am_pbase m) (am_len m) then
        if am_type m = ADDR_MAPPING_TYPE_CANONICAL
        then phys_loop paddr ms (Some m) alias (n_canonical + 1) n_alias
        else phys_loop paddr ms canonical (Some m) n_canonical (n_alias + 1)
      else phys_loop paddr ms canonical alias n_canonical n_alias)"

definition phys_to_virt :: "addr \<Rightarrow> mappings \<Rightarrow> addr res option" where
  "phys_to_virt paddr ms =
     (if paddr = 0 then Some (Inr 0)
      else let (canonical, alias, n_canonical, n_alias) = phys_loop paddr ms None None 0 0 in do {
        kassert (n_canonical = 1 \<or> n_canonical = 0 \<and> n_alias = 1 \<or> n_canonical = 0 \<and> n_alias = 0);
        Some (case canonical of
            Some m \<Rightarrow> Inr (am_vbase m + (paddr - am_pbase m))
          | None \<Rightarrow> (case alias of
              Some m \<Rightarrow> Inr (am_vbase m + (paddr - am_pbase m))
            | None \<Rightarrow> Inl EINVAL))
      })"

fun virt_loop :: "addr \<Rightarrow> mappings \<Rightarrow> addr_mapping option \<Rightarrow> nat \<Rightarrow> addr_mapping option \<times> nat" where
  "virt_loop vaddr [] candidate n_candidates = (candidate, n_candidates)"
| "virt_loop vaddr ((is_used, m) # ms) candidate n_candidates =
     (if is_used \<and> IN_RANGE vaddr (am_vbase m) (am_len m) then virt_loop vaddr ms (Some m) (n_candidates + 1)
      else virt_loop vaddr ms candidate n_candidates)"

definition virt_to_phys :: "addr \<Rightarrow> mappings \<Rightarrow> addr res option" where
  "virt_to_phys vaddr ms =
     (if vaddr = 0 then Some (Inr 0)
      else let (candidate, n_candidates) = virt_loop vaddr ms None 0 in do {
        kassert (n_candidates \<le> 1);
        Some (case candidate of Some m \<Rightarrow> Inr (am_pbase m + (vaddr - am_vbase m)) | None \<Rightarrow> Inl EINVAL)
      })"

section \<open>Page tables\<close>

fun mem_type_flags :: "addr_mapping_memory_type \<Rightarrow> u64" where
  "mem_type_flags ADDR_MAPPING_MEMORY_WRITE_BACK = 0"
| "mem_type_flags ADDR_MAPPING_MEMORY_WRITE_THROUGH = PT_FLAG_PWT"
| "mem_type_flags ADDR_MAPPING_MEMORY_UNCACHEABLE = PT_FLAG_PCD"
| "mem_type_flags ADDR_MAPPING_MEMORY_STRONG_UNCACHEABLE = PT_FLAG_PCD OR PT_FLAG_PWT"

text \<open>Physical addresses are signed 64-bit numbers.\<close>

definition paddr_from_pte :: "u64 \<Rightarrow> addr" where
  "paddr_from_pte pte = sint (pte AND NOT (2 ^ 11 - 1))"

definition pte_from_paddr :: "addr \<Rightarrow> u16 \<Rightarrow> addr_mapping_memory_type \<Rightarrow> u64" where
  "pte_from_paddr p perms mem_type =
     (word_of_int p AND NOT (2 ^ 11 - 1)) OR ucast perms OR mem_type_flags mem_type OR PT_FLAG_P"

text \<open>The entries of the page at \<open>pt\<close>; the page at NULL, or what is not memory, has none.\<close>

definition pte_get :: "words \<Rightarrow> addr \<Rightarrow> sz \<Rightarrow> u64 option" where
  "pte_get m pt idx = map_option word_of_int (m (pt + 8 * idx))"

definition pte_set :: "words \<Rightarrow> addr \<Rightarrow> sz \<Rightarrow> u64 \<Rightarrow> words option" where
  "pte_set m pt idx pte = write_word m (pt + 8 * idx) (sint pte)"

definition pt_insert :: "addr \<Rightarrow> sz \<Rightarrow> u64 \<Rightarrow> words \<Rightarrow> words option" where
  "pt_insert pt idx pte m = do {
     kassert (pt \<noteq> 0);
     kassert (0 \<le> idx \<and> idx < NUM_PT_ENTRIES);
     pte_set m pt idx pte
   }"

text \<open>NULL for an entry that is not present.\<close>

definition pt_get :: "addr \<Rightarrow> sz \<Rightarrow> mappings \<Rightarrow> words \<Rightarrow> addr option" where
  "pt_get pt idx ms m = do {
     kassert (pt \<noteq> 0);
     kassert (0 \<le> idx \<and> idx < NUM_PT_ENTRIES);
     pte \<leftarrow> pte_get m pt idx;
     if pte AND PT_FLAG_P \<noteq> 0 then do {
       r \<leftarrow> phys_to_virt (paddr_from_pte pte) ms;
       checked r
     }
     else Some 0
   }"

definition more_permissive :: "u64 \<Rightarrow> u16 \<Rightarrow> u64 \<Rightarrow> u64" where
  "more_permissive flag perms pte =
     (if ucast perms AND flag \<noteq> 0 \<and> pte AND flag = 0 then pte OR flag else pte)"

definition pt_get_or_alloc :: "addr \<Rightarrow> sz \<Rightarrow> u16 \<Rightarrow> paging \<Rightarrow> (addr \<times> paging) option" where
  "pt_get_or_alloc pt idx perms s = do {
     ret \<leftarrow> pt_get pt idx (pg_mappings s) (pg_words s);
     if ret = 0 then do {
       (ret, m, pl) \<leftarrow> pool_alloc (pg_words s) (pg_pool s);
       let s = s\<lparr>pg_words := m, pg_pool := pl\<rparr>;
       if ret = 0 then Some (0, s)
       else do {
         r \<leftarrow> virt_to_phys ret (pg_mappings s);
         paddr_ret \<leftarrow> checked r;
         m \<leftarrow> pt_insert pt idx (pte_from_paddr paddr_ret perms ADDR_MAPPING_MEMORY_DEFAULT) (pg_words s);
         Some (ret, s\<lparr>pg_words := m\<rparr>)
       }
     }
     else do {
       pte \<leftarrow> pte_get (pg_words s) pt idx;
       let pte = more_permissive PT_FLAG_US perms pte;
       let pte = more_permissive PT_FLAG_RW perms pte;
       m \<leftarrow> pt_insert pt idx pte (pg_words s);
       Some (ret, s\<lparr>pg_words := m\<rparr>)
     }
   }"

text \<open>
  The test behind the third call looks at \<open>pd\<close> once more instead of \<open>pt\<close>, so it never succeeds;
  without memory for \<open>pt\<close> the entry is written to the page at NULL.
\<close>

definition pt_map :: "addr \<Rightarrow> addr \<Rightarrow> u16 \<Rightarrow> addr_mapping_memory_type \<Rightarrow> paging \<Rightarrow> (unit res \<times> paging) option" where
  "pt_map vaddr paddr perms mem_type s = do {
     (pdpt, s) \<leftarrow> pt_get_or_alloc (pg_pml4 s) (PT_IDX vaddr PML4_BIT_BASE) perms s;
     if pdpt = 0 then Some (Inl ENOMEM, s)
     else do {
       (pd, s) \<leftarrow> pt_get_or_alloc pdpt (PT_IDX vaddr PDPT_BIT_BASE) perms s;
       if pd = 0 then Some (Inl ENOMEM, s)
       else do {
         (pt, s) \<leftarrow> pt_get_or_alloc pd (PT_IDX vaddr PD_BIT_BASE) perms s;
         if pd = 0 then Some (Inl ENOMEM, s)
         else do {
           let pt_idx = PT_IDX vaddr PT_BIT_BASE;
           kassert (0 \<le> pt_idx \<and> pt_idx < NUM_PT_ENTRIES);
           m \<leftarrow> pte_set (pg_words s) pt pt_idx (pte_from_paddr paddr perms mem_type);
           Some (ok, s\<lparr>pg_words := m\<rparr>)
         }
       }
     }
   }"

fun empty_loop :: "addr \<Rightarrow> sz list \<Rightarrow> words \<Rightarrow> bool option" where
  "empty_loop pt [] m = Some True"
| "empty_loop pt (i # is) m = do {
     pte \<leftarrow> pte_get m pt i;
     if pte AND PT_FLAG_P \<noteq> 0 then Some False else empty_loop pt is m
   }"

definition pt_is_empty :: "addr \<Rightarrow> words \<Rightarrow> bool option" where
  "pt_is_empty pt m = do { kassert (pt \<noteq> 0); empty_loop pt [0 .. NUM_PT_ENTRIES - 1] m }"

definition clear_present :: "addr \<Rightarrow> sz \<Rightarrow> words \<Rightarrow> words option" where
  "clear_present pt idx m = do {
     pte \<leftarrow> pte_get m pt idx;
     pte_set m pt idx (pte AND NOT PT_FLAG_P)
   }"

text \<open>One of the three steps that give back a page without entries: \<open>pt\<close>, at \<open>idx\<close> of \<open>parent\<close>.\<close>

definition free_if_empty :: "addr \<Rightarrow> addr \<Rightarrow> sz \<Rightarrow> paging \<Rightarrow> paging option" where
  "free_if_empty pt parent idx s = do {
     e \<leftarrow> pt_is_empty pt (pg_words s);
     if e then do {
       m \<leftarrow> clear_present parent idx (pg_words s);
       (m, pl) \<leftarrow> pool_free m (pg_pool s) pt;
       Some (s\<lparr>pg_words := m, pg_pool := pl\<rparr>)
     }
     else Some s
   }"

definition pt_unmap :: "addr \<Rightarrow> paging \<Rightarrow> (unit res \<times> paging) option" where
  "pt_unmap vaddr s =
     (if pg_pml4 s = 0 then Some (Inl EINVAL, s)
      else let ms = pg_mappings s; m = pg_words s in do {
        pdpt \<leftarrow> pt_get (pg_pml4 s) (PT_IDX vaddr PML4_BIT_BASE) ms m;
        if pdpt = 0 then Some (Inl EINVAL, s)
        else do {
          pd \<leftarrow> pt_get pdpt (PT_IDX vaddr PDPT_BIT_BASE) ms m;
          if pd = 0 then Some (Inl EINVAL, s)
          else do {
            pt \<leftarrow> pt_get pd (PT_IDX vaddr PD_BIT_BASE) ms m;
            if pt = 0 then Some (Inl EINVAL, s)
            else do {
              let pt_idx = PT_IDX vaddr PT_BIT_BASE;
              kassert (0 \<le> pt_idx \<and> pt_idx < NUM_PT_ENTRIES);
              pte \<leftarrow> pte_get m pt pt_idx;
              if pte AND PT_FLAG_P = 0 then Some (Inl EINVAL, s)
              else do {
                m \<leftarrow> clear_present pt pt_idx m;
                s \<leftarrow> free_if_empty pt pd (PT_IDX vaddr PD_BIT_BASE) (s\<lparr>pg_words := m\<rparr>);
                s \<leftarrow> free_if_empty pd pdpt (PT_IDX vaddr PDPT_BIT_BASE) s;
                s \<leftarrow> free_if_empty pdpt (pg_pml4 s) (PT_IDX vaddr PML4_BIT_BASE) s;
                Some (ok, s)
              }
            }
          }
        }
      })"

text \<open>
  Printing the tables follows the physical addresses of the entries, which only works where they
  are virtual addresses, too. The errors of the indentation are ignored.
\<close>

fun pt_fmt_indent :: "str_buf \<Rightarrow> nat \<Rightarrow> str_buf option" where
  "pt_fmt_indent buf 0 = Some buf"
| "pt_fmt_indent buf (Suc level) = do {
     (_, buf) \<leftarrow> str_buf_append buf (cstr ''    '');
     pt_fmt_indent buf level
   }"

fun pt_fmt_level :: "nat \<Rightarrow> nat \<Rightarrow> addr \<Rightarrow> addr \<Rightarrow> sz list \<Rightarrow> words \<Rightarrow> str_buf \<Rightarrow> (unit res \<times> str_buf) option" where
  "pt_fmt_level below level pt base_vaddr [] m buf = Some (ok, buf)"
| "pt_fmt_level below level pt base_vaddr (idx # is) m buf = do {
     entry \<leftarrow> pte_get m pt idx;
     if entry AND PT_FLAG_P = 0 then pt_fmt_level below level pt base_vaddr is m buf
     else do {
       let vaddr = base_vaddr + push_bit (PML4_BIT_BASE - level * 9) idx;
       buf \<leftarrow> pt_fmt_indent buf level;
       (res, buf) \<leftarrow> fmt_vfmt buf (cstr ''%ld : %c%c vaddr=0x%lx paddr=0x%lx'' @ [10])
         [Arg64 (word_of_int idx),
          Arg32 (if entry AND PT_FLAG_US \<noteq> 0 then of_char (CHR ''u'') else of_char (CHR ''s'')),
          Arg32 (if entry AND PT_FLAG_RW \<noteq> 0 then of_char (CHR ''w'') else of_char (CHR ''r'')),
          Arg64 (word_of_int vaddr), Arg64 (word_of_int (paddr_from_pte entry))];
       if is_error res then Some (res, buf)
       else do {
         (res, buf) \<leftarrow> (case below of
             0 \<Rightarrow> Some (ok, buf)
           | Suc below \<Rightarrow> do {
               kassert (paddr_from_pte entry \<noteq> 0);
               pt_fmt_level below (level + 1) (paddr_from_pte entry) vaddr [0 .. NUM_PT_ENTRIES - 1] m buf
             });
         if is_error res then Some (res, buf) else pt_fmt_level below level pt base_vaddr is m buf
       }
     }
   }"

definition pt_fmt :: "addr \<Rightarrow> str_buf \<Rightarrow> nat \<Rightarrow> words \<Rightarrow> (unit res \<times> str_buf) option" where
  "pt_fmt pml4 buf depth m = do {
     kassert (depth \<le> 3);
     kassert (pml4 \<noteq> 0);
     pt_fmt_level depth 0 pml4 0 [0 .. NUM_PT_ENTRIES - 1] m buf
   }"

section \<open>The interface\<close>

definition cpu_has_pat :: "paging \<Rightarrow> bool" where
  "cpu_has_pat s \<longleftrightarrow> pg_cpuid_edx s AND 2 ^ 16 \<noteq> 0"

text \<open>The offsets of the pages of a region.\<close>

definition page_offsets :: "sz \<Rightarrow> sz list" where
  "page_offsets len = map (\<lambda>i. int i * PAGE_SIZE) [0 ..< nat ((len + PAGE_SIZE - 1) div PAGE_SIZE)]"

text \<open>Mapping that must not fail, as in \<open>paging_init\<close>.\<close>

fun init_map_loop :: "addr_mapping \<Rightarrow> sz list \<Rightarrow> paging \<Rightarrow> paging option" where
  "init_map_loop addrs [] s = Some s"
| "init_map_loop addrs (off # offs) s = do {
     (r, s) \<leftarrow> pt_map (am_vbase addrs + off) (am_pbase addrs + off) (ucast PT_FLAG_RW) ADDR_MAPPING_MEMORY_DEFAULT s;
     kassert (\<not> is_error r);
     init_map_loop addrs offs s
   }"

definition paging_init :: "addr_mapping \<Rightarrow> addr_mapping \<Rightarrow> paging \<Rightarrow> ((addr \<times> sz) \<times> paging) option" where
  "paging_init code_addrs dyn_addrs s = (
     let n_pages = ALIGN_UP (am_len code_addrs + am_len dyn_addrs) PAGE_SIZE div PAGE_SIZE;
         n_pts = ALIGN_UP n_pages NUM_PT_ENTRIES div NUM_PT_ENTRIES;
         n_pds = ALIGN_UP n_pts NUM_PT_ENTRIES div NUM_PT_ENTRIES;
         n_pdpts = ALIGN_UP n_pds NUM_PT_ENTRIES div NUM_PT_ENTRIES;
         n_pml4s = ALIGN_UP n_pdpts NUM_PT_ENTRIES div NUM_PT_ENTRIES;
         pt_bytes = 2 * PAGE_SIZE * (n_pts + n_pds + n_pdpts + n_pml4s) in do {
       kassert (am_len dyn_addrs div 200 > pt_bytes);
       kassert (pt_bytes < 16 * 0x100000);
       kassert (cpu_has_pat s);
       (pl, m) \<leftarrow> pool_new (pg_words s) (am_vbase dyn_addrs) pt_bytes PAGE_SIZE;
       (pml4, m, pl) \<leftarrow> pool_alloc m pl;
       let s = s\<lparr>pg_words := m, pg_pool := pl, pg_pml4 := pml4\<rparr>;
       kassert (pml4 \<noteq> 0);
       let code_addrs = code_addrs\<lparr>am_type := ADDR_MAPPING_TYPE_CANONICAL,
         am_mem_type := ADDR_MAPPING_MEMORY_DEFAULT, am_perms := ucast PT_FLAG_RW\<rparr>;
       let dyn_addrs = dyn_addrs\<lparr>am_type := ADDR_MAPPING_TYPE_CANONICAL,
         am_mem_type := ADDR_MAPPING_MEMORY_DEFAULT, am_perms := ucast PT_FLAG_RW\<rparr>;
       let (r, ms) = add_addr_mapping code_addrs (pg_mappings s);
       kassert (\<not> is_error r);
       let (r, ms) = add_addr_mapping dyn_addrs ms;
       kassert (\<not> is_error r);
       let s = s\<lparr>pg_mappings := ms\<rparr>;
       s \<leftarrow> init_map_loop code_addrs (page_offsets (am_len code_addrs)) s;
       s \<leftarrow> init_map_loop dyn_addrs (page_offsets (am_len dyn_addrs)) s;
       r \<leftarrow> virt_to_phys pml4 (pg_mappings s);
       cr3 \<leftarrow> checked r;
       Some ((am_vbase dyn_addrs + pt_bytes, am_len dyn_addrs - pt_bytes), s\<lparr>pg_cr3 := cr3\<rparr>)
     })"

fun unmap_all_loop :: "addr \<Rightarrow> sz list \<Rightarrow> paging \<Rightarrow> paging option" where
  "unmap_all_loop vbase [] s = Some s"
| "unmap_all_loop vbase (off # offs) s = do {
     (_, s) \<leftarrow> pt_unmap (vbase + off) s;
     unmap_all_loop vbase offs s
   }"

fun map_region_loop :: "addr_mapping \<Rightarrow> sz list \<Rightarrow> paging \<Rightarrow> (unit res \<times> paging) option" where
  "map_region_loop addrs [] s = Some (ok, s)"
| "map_region_loop addrs (off # offs) s = do {
     (res, s) \<leftarrow> pt_map (am_vbase addrs + off) (am_pbase addrs + off) (am_perms addrs) (am_mem_type addrs) s;
     if is_error res then do {
       s \<leftarrow> unmap_all_loop (am_vbase addrs) (page_offsets (am_len addrs)) s;
       Some (res, s)
     }
     else map_region_loop addrs offs s
   }"

definition paging_map_region :: "addr_mapping \<Rightarrow> paging \<Rightarrow> (unit res \<times> paging) option" where
  "paging_map_region addrs s =
     (let (res, ms) = add_addr_mapping addrs (pg_mappings s) in
      if is_error res then Some (res, s)
      else map_region_loop addrs (page_offsets (am_len addrs)) (s\<lparr>pg_mappings := ms\<rparr>))"

fun unmap_region_loop :: "addr \<Rightarrow> sz list \<Rightarrow> paging \<Rightarrow> (unit res \<times> paging) option" where
  "unmap_region_loop vbase [] s = Some (ok, s)"
| "unmap_region_loop vbase (off # offs) s = do {
     (res, s) \<leftarrow> pt_unmap (vbase + off) s;
     if is_error res then Some (res, s) else unmap_region_loop vbase offs s
   }"

definition paging_unmap_region :: "addr_mapping \<Rightarrow> paging \<Rightarrow> (unit res \<times> paging) option" where
  "paging_unmap_region addrs s = do {
     (res, s) \<leftarrow> unmap_region_loop (am_vbase addrs) (page_offsets (am_len addrs)) s;
     if is_error res then Some (res, s)
     else
       let (res, ms) = remove_addr_mapping addrs (pg_mappings s) in
       Some (res, s\<lparr>pg_mappings := ms\<rparr>)
   }"

end
