(* ===== verification/Mmu.thy ===== *)
theory Mmu
  imports Arena
begin

text \<open>
  The translation of addresses by an x86-64 processor with four levels of tables and pages of 4 KB, after its manual and
  not after the kernel: it shares no definition with the model of src/paging.c. Memory is a function from physical addresses to the words
  that are stored there. The memory types are those that the registers of the page attribute table select after a reset.
\<close>

datatype caching = Write_Back | Write_Through | Uncached_Minus | Uncached

record translation =
  tr_paddr :: addr
  tr_writable :: bool
  tr_user :: bool
  tr_caching :: caching

type_synonym ram = "addr \<Rightarrow> u64 option"

text \<open>Bits 12 to 51 of an entry are the number of a physical page.\<close>

definition frame_of :: "u64 \<Rightarrow> addr" where
  "frame_of e = uint e div 4096 mod 2 ^ 40 * 4096"

fun caching_of :: "bool \<Rightarrow> bool \<Rightarrow> caching" where
  "caching_of False False = Write_Back"
| "caching_of False True = Write_Through"
| "caching_of True False = Uncached_Minus"
| "caching_of True True = Uncached"

text \<open>The bits 3 and 4 of the last entry, PWT and PCD, select the memory type.\<close>

definition page_translation :: "u64 \<Rightarrow> addr \<Rightarrow> bool \<Rightarrow> bool \<Rightarrow> translation" where
  "page_translation e v w u = \<lparr>tr_paddr = frame_of e + v mod 4096, tr_writable = w, tr_user = u,
     tr_caching = caching_of (bit e 4) (bit e 3)\<rparr>"

text \<open>
  An entry whose bit 0 is clear ends in a page fault, \<^term>\<open>Some None\<close>. A page is writable, or open for user mode, if bit 1, or
  bit 2, is set in the entries of all levels. There is no value where an upper entry maps a large page (bit 7), or a table is outside
  of memory.
\<close>

fun mmu_walk :: "ram \<Rightarrow> addr \<Rightarrow> addr \<Rightarrow> nat list \<Rightarrow> bool \<Rightarrow> bool \<Rightarrow> translation option option" where
  "mmu_walk ram t v [] w u = None"
| "mmu_walk ram t v (b # bs) w u = do {
     e \<leftarrow> ram (t + 8 * (v div 2 ^ b mod 512));
     if \<not> bit e 0 then Some None
     else if bs = [] then Some (Some (page_translation e v (w \<and> bit e 1) (u \<and> bit e 2)))
     else if bit e 7 then None
     else mmu_walk ram (frame_of e) v bs (w \<and> bit e 1) (u \<and> bit e 2)
   }"

definition mmu :: "ram \<Rightarrow> addr \<Rightarrow> addr \<Rightarrow> translation option option" where
  "mmu ram cr3 v = mmu_walk ram cr3 v [39, 30, 21, 12] True True"

lemma frame_of_bits: "frame_of e = push_bit 12 (take_bit 40 (drop_bit 12 (uint e)))"
  by (simp add: frame_of_def push_bit_eq_mult take_bit_eq_mod drop_bit_eq_div)

text \<open>Flags in the lowest 12 bits do not matter for the frame.\<close>

lemma frame_of_eqI: "(\<And>n. 12 \<le> n \<Longrightarrow> n < 52 \<Longrightarrow> bit e n = bit f n) \<Longrightarrow> frame_of e = frame_of f"
  unfolding frame_of_bits by (intro bit_eqI) (auto simp: bit_simps)

lemma frame_of_or: "take_bit 12 f = f \<Longrightarrow> frame_of (e OR f) = frame_of e"
proof (rule frame_of_eqI)
  fix n :: nat assume "take_bit 12 f = f" "12 \<le> n"
  then have "\<not> bit f n" by (metis bit_take_bit_iff not_less)
  then show "bit (e OR f) n = bit e n" by (simp add: bit_or_iff)
qed

lemma frame_of_int:
  assumes "0 \<le> p" "p < 2 ^ 52" "p mod 4096 = 0"
  shows "frame_of (word_of_int p) = p"
proof -
  obtain k where k: "p = 4096 * k" using assms(3) by (meson mod_0_imp_dvd dvdE)
  then have "0 \<le> k" "k < 2 ^ 40" using assms by simp_all
  moreover have "uint (word_of_int p :: u64) = p" using assms by (simp add: uint_word_of_int_eq take_bit_eq_mod)
  ultimately show ?thesis using k by (simp add: frame_of_def)
qed

end
