(* ===== verification/PagingTree.thy ===== *)
theory PagingTree
  imports Paging Mmu
begin

text \<open>
  The page tables as a tree. A table is named by the list of the indices that lead to it from the
  root; \<open>T\<close> gives the address of every table that exists. The invariant ties this to the words of
  the pool; looking up an address becomes a lookup in the last level of the tree. A second invariant states what the processor needs
  of the upper entries: the frames of the tables below, and the flags RW and US where an entry below has them.
\<close>

section \<open>Entries\<close>

definition present :: "u64 \<Rightarrow> bool" where
  "present e \<longleftrightarrow> e AND PT_FLAG_P \<noteq> 0"

lemma present_bit: "present e \<longleftrightarrow> bit e 0"
  by (auto simp: present_def PT_FLAG_P_def and_one_eq odd_iff_mod_2_eq_one bit_0 simp flip: even_iff_mod_2_eq_zero)

text \<open>The frames of page tables: aligned, not 0, and inside of the 52 bits of physical addresses.\<close>

definition frame_ok :: "addr \<Rightarrow> bool" where
  "frame_ok p \<longleftrightarrow> 0 < p \<and> p < 2 ^ 52 \<and> p mod 4096 = 0"

definition perms_ok :: "u16 \<Rightarrow> bool" where
  "perms_ok perms \<longleftrightarrow> perms < 2 ^ 11"

lemma low_mask: "NOT (2 ^ 11 - 1) = NOT (mask 11 :: u64)"
  by (simp add: mask_eq_exp_minus_1)

lemma and_high: "(x :: u64) AND NOT (mask 11) = 0 \<longleftrightarrow> take_bit 11 x = x"
  by (auto simp: bit_eq_iff bit_simps)

lemma paddr_of_or:
  "take_bit 11 f = f \<Longrightarrow> paddr_from_pte (e OR f) = paddr_from_pte e"
proof -
  assume "take_bit 11 f = f"
  then have "f AND NOT (mask 11) = 0" by (simp add: and_high)
  then have "(e OR f) AND NOT (mask 11) = e AND NOT (mask 11)" by (simp add: bit.conj_disj_distrib2)
  then show ?thesis unfolding paddr_from_pte_def low_mask by simp
qed

lemma perms_low: "perms_ok perms \<Longrightarrow> take_bit 11 (ucast perms :: u64) = ucast perms"
proof -
  assume "perms_ok perms"
  then have "unat perms < 2 ^ 11" by (simp add: perms_ok_def word_less_nat_alt)
  moreover have "unat (ucast perms :: u64) = unat perms"
    using unat_bound [of perms] by (simp add: unsigned_ucast_eq take_bit_nat_eq_self)
  ultimately have "take_bit 11 (unat (ucast perms :: u64)) = unat (ucast perms :: u64)" by (simp add: take_bit_nat_eq_self)
  then have "unat (take_bit 11 (ucast perms :: u64)) = unat (ucast perms :: u64)" by (simp only: unsigned_take_bit_eq)
  then show ?thesis by (simp only: word_unat_eq_iff)
qed

lemma flags_low [simp]:
  "take_bit 11 PT_FLAG_P = PT_FLAG_P" "take_bit 11 PT_FLAG_US = PT_FLAG_US" "take_bit 11 PT_FLAG_RW = PT_FLAG_RW"
  "take_bit 11 (mem_type_flags mt) = mem_type_flags mt"
  by (cases mt; simp add: PT_FLAG_P_def PT_FLAG_US_def PT_FLAG_RW_def PT_FLAG_PCD_def PT_FLAG_PWT_def)+

lemma paddr_of_pte:
  assumes "frame_ok p" "perms_ok perms"
  shows "paddr_from_pte (pte_from_paddr p perms mt) = p"
proof -
  let ?w = "word_of_int p :: u64"
  have "uint ?w = p" using assms(1) by (simp add: frame_ok_def uint_word_of_int_eq take_bit_eq_mod)
  moreover have "take_bit 11 p = 0"
  proof -
    have "take_bit 12 p = 0" using assms(1) by (simp add: frame_ok_def take_bit_eq_mod)
    then have "take_bit 11 (take_bit 12 p) = 0" by simp
    then show ?thesis by simp
  qed
  ultimately have "uint (take_bit 11 ?w) = 0" by (simp only: unsigned_take_bit_eq)
  then have "take_bit 11 ?w = 0" by (simp only: unsigned_eq_0_iff)
  then have "?w AND NOT (mask 11) = ?w"
    by (auto simp: bit_eq_iff bit_simps)
  moreover have "sint ?w = p" using assms(1) by (simp add: frame_ok_def sint_sbintrunc' signed_take_bit_int_eq_self)
  ultimately have "paddr_from_pte (?w AND NOT (mask 11)) = p"
    unfolding paddr_from_pte_def low_mask by simp
  then show ?thesis unfolding pte_from_paddr_def low_mask
    using paddr_of_or perms_low [OF assms(2)] flags_low by simp
qed

lemma present_pte: "present (pte_from_paddr p perms mt)"
  by (simp add: present_bit pte_from_paddr_def PT_FLAG_P_def bit_or_iff)

lemma present_more: "present (more_permissive f perms e) \<longleftrightarrow> present e" if "f \<in> {PT_FLAG_US, PT_FLAG_RW}"
  using that by (auto simp: more_permissive_def present_bit bit_or_iff PT_FLAG_US_def PT_FLAG_RW_def bit_simps)

lemma paddr_more: "paddr_from_pte (more_permissive f perms e) = paddr_from_pte e" if "f \<in> {PT_FLAG_US, PT_FLAG_RW}"
  using that by (auto simp: more_permissive_def paddr_of_or)

lemma not_present_clear: "\<not> present (e AND NOT PT_FLAG_P)"
  by (simp add: present_bit PT_FLAG_P_def bit_and_iff bit_not_iff)

lemma word_of_sint [simp]: "word_of_int (sint (e :: u64)) = e"
  by simp

section \<open>Entries for the processor\<close>

text \<open>The flags RW and US only.\<close>

definition rw_us :: "u16 \<Rightarrow> bool" where
  "rw_us perms \<longleftrightarrow> (\<forall>n. bit perms n \<longrightarrow> n = 1 \<or> n = 2)"

lemma rw_us_perms: "rw_us perms \<Longrightarrow> perms_ok perms"
proof -
  assume r: "rw_us perms"
  have "bit perms n \<longrightarrow> n < 11" for n using r [unfolded rw_us_def, rule_format, of n] by auto
  then have "take_bit 11 perms = perms" by (auto intro!: bit_eqI simp: bit_take_bit_iff)
  then have "take_bit 11 (unat perms) = unat perms" by (metis unsigned_take_bit_eq)
  then have "unat perms < 2 ^ 11" by (metis take_bit_nat_less_exp)
  then show ?thesis by (simp add: perms_ok_def word_less_nat_alt)
qed

fun cache_type :: "addr_mapping_memory_type \<Rightarrow> caching" where
  "cache_type ADDR_MAPPING_MEMORY_WRITE_BACK = Write_Back"
| "cache_type ADDR_MAPPING_MEMORY_WRITE_THROUGH = Write_Through"
| "cache_type ADDR_MAPPING_MEMORY_UNCACHEABLE = Uncached_Minus"
| "cache_type ADDR_MAPPING_MEMORY_STRONG_UNCACHEABLE = Uncached"

lemma bit_pte:
  assumes "n < 11"
  shows "bit (pte_from_paddr p perms mt) n \<longleftrightarrow> bit perms n \<or> bit (mem_type_flags mt) n \<or> n = 0"
proof -
  have "\<not> bit (word_of_int p AND NOT (mask 11) :: u64) n" using assms by (simp add: bit_simps)
  moreover have "bit (ucast perms :: u64) n = bit perms n" using assms by (simp add: bit_simps)
  moreover have "bit PT_FLAG_P n \<longleftrightarrow> n = 0" by (simp add: PT_FLAG_P_def bit_1_iff)
  ultimately show ?thesis unfolding pte_from_paddr_def low_mask by (simp add: bit_or_iff)
qed

lemma bit_mem_type:
  "bit (mem_type_flags mt) 1 = False" "bit (mem_type_flags mt) 2 = False" "bit (mem_type_flags mt) 7 = False"
  "caching_of (bit (mem_type_flags mt) 4) (bit (mem_type_flags mt) 3) = cache_type mt"
  by (cases mt; simp add: PT_FLAG_PCD_def PT_FLAG_PWT_def; code_simp)+

lemma low_bits: "take_bit 11 (x :: u64) = x \<Longrightarrow> 11 \<le> n \<Longrightarrow> \<not> bit x n"
  by (metis bit_take_bit_iff not_le)

lemma bit_flags: "bit PT_FLAG_RW n \<longleftrightarrow> n = 1" "bit PT_FLAG_US n \<longleftrightarrow> n = 2"
proof -
  have "bit (2 ^ k :: u64) n \<longleftrightarrow> n = k" if "k < 64" for k using that by (auto simp: bit_exp_iff possible_bit_def)
  from this [of 1] this [of 2] show "bit PT_FLAG_RW n \<longleftrightarrow> n = 1" "bit PT_FLAG_US n \<longleftrightarrow> n = 2"
    by (simp_all add: PT_FLAG_RW_def PT_FLAG_US_def)
qed

lemma flag_and: "(x AND PT_FLAG_RW = 0) = (\<not> bit x 1)" "(x AND PT_FLAG_US = 0) = (\<not> bit x 2)"
proof -
  have "(x AND f = 0) = (\<not> bit x k)" if "\<And>n. bit f n \<longleftrightarrow> n = k" for f :: u64 and k
  proof
    assume "x AND f = 0"
    then have "\<not> bit (x AND f) k" by simp
    then show "\<not> bit x k" using that by (simp add: bit_and_iff)
  next
    assume "\<not> bit x k"
    then show "x AND f = 0" using that by (intro bit_eqI) (auto simp: bit_and_iff)
  qed
  then show "(x AND PT_FLAG_RW = 0) = (\<not> bit x 1)" "(x AND PT_FLAG_US = 0) = (\<not> bit x 2)" using bit_flags by blast+
qed

lemma page_of_pte:
  assumes "rw_us perms" "0 \<le> p" "p < 2 ^ 52" "p mod 4096 = 0"
  shows "frame_of (pte_from_paddr p perms mt) = p"
    "page_translation (pte_from_paddr p perms mt) v w u = \<lparr>tr_paddr = p + v mod 4096, tr_writable = w, tr_user = u, tr_caching = cache_type mt\<rparr>"
proof -
  have "frame_of (pte_from_paddr p perms mt) = frame_of (word_of_int p)"
  proof (rule frame_of_eqI)
    fix n :: nat assume n: "12 \<le> n" "n < 52"
    have "\<not> bit (ucast perms :: u64) n" "\<not> bit (mem_type_flags mt) n" "\<not> bit PT_FLAG_P n"
      using low_bits [OF perms_low [OF rw_us_perms [OF assms(1)]], of n] low_bits [OF flags_low(4), of n mt] low_bits [OF flags_low(1), of n] n by simp_all
    then show "bit (pte_from_paddr p perms mt) n = bit (word_of_int p :: u64) n"
      using n unfolding pte_from_paddr_def low_mask by (simp add: bit_simps)
  qed
  then show f: "frame_of (pte_from_paddr p perms mt) = p" using frame_of_int [OF assms(2-4)] by simp
  have "\<not> bit perms 4" "\<not> bit perms 3" using assms(1) by (auto simp: rw_us_def)
  then show "page_translation (pte_from_paddr p perms mt) v w u = \<lparr>tr_paddr = p + v mod 4096, tr_writable = w, tr_user = u, tr_caching = cache_type mt\<rparr>"
    using bit_mem_type(4) [of mt] by (simp add: page_translation_def f bit_pte)
qed

lemma bit_more:
  assumes "f \<in> {PT_FLAG_US, PT_FLAG_RW}"
  shows "bit e n \<Longrightarrow> bit (more_permissive f perms e) n"
    "n \<notin> {1, 2} \<Longrightarrow> bit (more_permissive f perms e) n = bit e n"
  using assms by (auto simp: more_permissive_def bit_or_iff bit_flags)

section \<open>The tree in the memory\<close>

definition page_ok :: "mappings \<Rightarrow> words \<Rightarrow> addr \<Rightarrow> bool" where
  "page_ok ms m b \<longleftrightarrow> b \<noteq> 0 \<and> b mod 4096 = 0 \<and> (\<forall>i \<in> {0 ..< 512}. m (b + 8 * i) \<noteq> None) \<and>
     (\<exists>p. frame_ok p \<and> virt_to_phys b ms = Some (Inr p) \<and> phys_to_virt p ms = Some (Inr b))"

definition entry :: "words \<Rightarrow> addr \<Rightarrow> sz \<Rightarrow> u64" where
  "entry m a i = the (pte_get m a i)"

type_synonym tables = "sz list \<Rightarrow> addr option"

definition child_ok :: "mappings \<Rightarrow> addr option \<Rightarrow> u64 \<Rightarrow> bool" where
  "child_ok ms c e \<longleftrightarrow> (case c of None \<Rightarrow> \<not> present e
     | Some b \<Rightarrow> present e \<and> phys_to_virt (paddr_from_pte e) ms = Some (Inr b))"

text \<open>\<open>P\<close> are all pages of the pool, \<open>fs\<close> the free ones. The page at NULL is not memory.\<close>

definition no_null_page :: "words \<Rightarrow> bool" where
  "no_null_page m \<longleftrightarrow> (\<forall>i \<in> {0 ..< 512}. m (8 * i) = None)"

definition tables_ok :: "paging \<Rightarrow> addr set \<Rightarrow> tables \<Rightarrow> addr list \<Rightarrow> bool" where
  "tables_ok s P T fs \<longleftrightarrow> free_blocks (pg_words s) (pg_pool s) fs \<and> pl_size (pg_pool s) = 4096 \<and> set fs \<subseteq> P \<and> no_null_page (pg_words s) \<and>
     (\<forall>b \<in> P. page_ok (pg_mappings s) (pg_words s) b) \<and> T [] = Some (pg_pml4 s) \<and>
     (\<forall>p a. T p = Some a \<longrightarrow> a \<in> P - set fs \<and> length p \<le> 3 \<and> (\<forall>q. T q = Some a \<longrightarrow> q = p)) \<and>
     (\<forall>p i. T (p @ [i]) \<noteq> None \<longrightarrow> T p \<noteq> None \<and> i \<in> {0 ..< 512}) \<and>
     (\<forall>p a. T p = Some a \<longrightarrow> length p < 3 \<longrightarrow>
       (\<forall>i \<in> {0 ..< 512}. child_ok (pg_mappings s) (T (p @ [i])) (entry (pg_words s) a i)))"

text \<open>The last level: the entry that maps the page with the index \<open>i\<close> in the table \<open>p\<close>.\<close>

definition leaf :: "words \<Rightarrow> tables \<Rightarrow> sz list \<Rightarrow> sz \<Rightarrow> u64 option" where
  "leaf m T p i = (case T p of None \<Rightarrow> None
     | Some a \<Rightarrow> if present (entry m a i) then Some (entry m a i) else None)"

lemma page_addr_eq:
  assumes "(a :: int) mod 4096 = 0" "b mod 4096 = 0" "i \<in> {0 ..< 512}" "j \<in> {0 ..< 512}"
  shows "a + 8 * i = b + 8 * j \<longleftrightarrow> a = b \<and> i = j"
proof -
  obtain k l where "a = 4096 * k" "b = 4096 * l" using assms(1,2) by (meson mod_0_imp_dvd dvdE)
  then have "a + 8 * i = b + 8 * j \<longrightarrow> k = l" using assms(3,4) by simp
  then show ?thesis using \<open>a = 4096 * k\<close> \<open>b = 4096 * l\<close> by auto
qed

lemma page_addr_in:
  assumes "(a :: int) mod 4096 = 0" "b mod 4096 = 0" "j \<in> {0 ..< 512}"
  shows "a \<le> b + 8 * j \<and> b + 8 * j < a + 4096 \<longleftrightarrow> a = b"
proof -
  obtain k l where "a = 4096 * k" "b = 4096 * l" using assms(1,2) by (meson mod_0_imp_dvd dvdE)
  then show ?thesis using assms(3) by auto
qed

lemma pte_get_entry: "page_ok ms m a \<Longrightarrow> i \<in> {0 ..< 512} \<Longrightarrow> pte_get m a i = Some (entry m a i)"
  by (auto simp: page_ok_def pte_get_def entry_def)

lemma tables_okD:
  assumes "tables_ok s P T fs"
  shows "\<And>b. b \<in> P \<Longrightarrow> page_ok (pg_mappings s) (pg_words s) b"
    "\<And>p a. T p = Some a \<Longrightarrow> a \<in> P \<and> a \<notin> set fs \<and> length p \<le> 3"
    "\<And>p q a. T p = Some a \<Longrightarrow> T q = Some a \<Longrightarrow> q = p"
    "\<And>p i. T (p @ [i]) \<noteq> None \<Longrightarrow> T p \<noteq> None \<and> i \<in> {0 ..< 512}"
    "\<And>p a i. T p = Some a \<Longrightarrow> length p < 3 \<Longrightarrow> i \<in> {0 ..< 512} \<Longrightarrow>
       child_ok (pg_mappings s) (T (p @ [i])) (entry (pg_words s) a i)"
  using assms unfolding tables_ok_def by blast+

lemma tables_okI:
  assumes "free_blocks (pg_words s) (pg_pool s) fs" "pl_size (pg_pool s) = 4096" "set fs \<subseteq> P"
    "\<And>b. b \<in> P \<Longrightarrow> page_ok (pg_mappings s) (pg_words s) b" "T [] = Some (pg_pml4 s)"
    "\<And>p a. T p = Some a \<Longrightarrow> a \<in> P \<and> a \<notin> set fs \<and> length p \<le> 3"
    "\<And>p q a. T p = Some a \<Longrightarrow> T q = Some a \<Longrightarrow> q = p"
    "\<And>p i. T (p @ [i]) \<noteq> None \<Longrightarrow> T p \<noteq> None \<and> i \<in> {0 ..< 512}"
    "\<And>p a i. T p = Some a \<Longrightarrow> length p < 3 \<Longrightarrow> i \<in> {0 ..< 512} \<Longrightarrow>
       child_ok (pg_mappings s) (T (p @ [i])) (entry (pg_words s) a i)"
    "no_null_page (pg_words s)"
  shows "tables_ok s P T fs"
  unfolding tables_ok_def
proof (intro conjI allI impI ballI)
  fix p a q assume "T p = Some a" "T q = Some a"
  then show "q = p" by (rule assms(7))
qed (use assms in blast)+

lemma tables_ok_pool:
  assumes "tables_ok s P T fs"
  shows "free_blocks (pg_words s) (pg_pool s) fs" "pl_size (pg_pool s) = 4096" "set fs \<subseteq> P" "T [] = Some (pg_pml4 s)"
    "no_null_page (pg_words s)"
  using assms unfolding tables_ok_def by blast+

lemma pt_get_child:
  assumes "tables_ok s P T fs" "T p = Some a" "length p < 3" "i \<in> {0 ..< 512}"
  shows "pt_get a i (pg_mappings s) (pg_words s) = Some (case T (p @ [i]) of None \<Rightarrow> 0 | Some b \<Rightarrow> b)"
proof -
  have a: "page_ok (pg_mappings s) (pg_words s) a" using tables_okD(1,2) [OF assms(1)] assms(2) by blast
  then have "a \<noteq> 0" by (simp add: page_ok_def)
  then show ?thesis using pte_get_entry [OF a assms(4)] tables_okD(5) [OF assms(1-4)] assms(4)
    by (cases "T (p @ [i])") (auto simp: pt_get_def NUM_PT_ENTRIES_def child_ok_def present_def)
qed

text \<open>Writing an entry of a page changes this entry only.\<close>

lemma entry_write:
  assumes "a mod 4096 = 0" "b mod 4096 = 0" "i \<in> {0 ..< 512}" "j \<in> {0 ..< 512}"
  shows "entry (m(a + 8 * i \<mapsto> sint e)) b j = (if b = a \<and> j = i then e else entry m b j)"
  using page_addr_eq [OF assms(2,1,4,3)] by (simp add: entry_def pte_get_def)

lemma page_ok_write [simp]: "page_ok ms (m(x \<mapsto> v)) b = page_ok ms m b" if "m x \<noteq> None"
  using that by (auto simp: page_ok_def)

lemma no_null_write [simp]: "no_null_page (m(x \<mapsto> v)) = no_null_page m" if "m x \<noteq> None"
  using that by (auto simp: no_null_page_def)

lemma no_null_zero [simp]: "no_null_page (zero_range m x n) = no_null_page m"
proof -
  have "zero_range m x n y = None \<longleftrightarrow> m y = None" for y by (auto simp: zero_range_def)
  then show ?thesis by (simp only: no_null_page_def)
qed

lemma free_blocks_write:
  "free_blocks m pl fs \<Longrightarrow> x \<notin> set fs \<Longrightarrow> free_blocks (m(x \<mapsto> v)) pl fs"
  by (auto simp: free_blocks_def intro: chain_frame)

lemma pte_set_ok:
  assumes "page_ok ms m a" "i \<in> {0 ..< 512}"
  shows "pte_set m a i e = Some (m(a + 8 * i \<mapsto> sint e))" "m (a + 8 * i) \<noteq> None"
proof -
  show x: "m (a + 8 * i) \<noteq> None" using assms by (simp add: page_ok_def)
  then show "pte_set m a i e = Some (m(a + 8 * i \<mapsto> sint e))" by (auto simp: pte_set_def write_word_def)
qed

lemma pt_insert_ok:
  "page_ok ms m a \<Longrightarrow> i \<in> {0 ..< 512} \<Longrightarrow> pt_insert a i e m = Some (m(a + 8 * i \<mapsto> sint e))"
  using pte_set_ok(1) [of ms m a i e] by (simp add: pt_insert_def page_ok_def NUM_PT_ENTRIES_def)

text \<open>The free blocks are the pages of the pool: an entry of a table in use is none of their words.\<close>

lemma write_not_free:
  assumes "tables_ok s P T fs" "T p = Some a" "i \<in> {0 ..< 512}"
  shows "a + 8 * i \<notin> set fs"
proof
  assume "a + 8 * i \<in> set fs"
  then have "a + 8 * i \<in> P" using assms(1) by (auto simp: tables_ok_def)
  then have "(a + 8 * i) mod 4096 = 0" "a mod 4096 = 0"
    using tables_okD(1,2) [OF assms(1)] assms(2) by (auto simp: page_ok_def)
  then have "a = a + 8 * i" using page_addr_in [of "a + 8 * i" a i] assms(3) by simp
  then show False using \<open>a + 8 * i \<in> set fs\<close> tables_okD(2) [OF assms(1,2)] by simp
qed

section \<open>Walking down\<close>

text \<open>
  What a step of a walk keeps: the tables of the new tree contain those of the old one, and the
  mapped pages are the same.
\<close>

definition hangs_into :: "paging \<Rightarrow> tables \<Rightarrow> paging \<Rightarrow> tables \<Rightarrow> bool" where
  "hangs_into s T s' T' \<longleftrightarrow> pg_mappings s' = pg_mappings s \<and> pg_pml4 s' = pg_pml4 s \<and> T \<subseteq>\<^sub>m T' \<and>
     (\<forall>p i. length p = 3 \<longrightarrow> i \<in> {0 ..< 512} \<longrightarrow> leaf (pg_words s') T' p i = leaf (pg_words s) T p i)"

lemma hangs_refl: "hangs_into s T s T"
  by (simp add: hangs_into_def)

lemma hangs_trans: "hangs_into s T s1 T1 \<Longrightarrow> hangs_into s1 T1 s2 T2 \<Longrightarrow> hangs_into s T s2 T2"
  unfolding hangs_into_def by (auto intro: map_le_trans)

text \<open>Changing an entry of an upper table.\<close>

lemma write_upper:
  assumes "tables_ok s P T fs" "T p = Some a" "length p < 3" "i \<in> {0 ..< 512}"
    "child_ok (pg_mappings s) (T (p @ [i])) e"
  shows "tables_ok (s\<lparr>pg_words := (pg_words s)(a + 8 * i \<mapsto> sint e)\<rparr>) P T fs"
    "hangs_into s T (s\<lparr>pg_words := (pg_words s)(a + 8 * i \<mapsto> sint e)\<rparr>) T"
    "\<And>q c j. T q = Some c \<Longrightarrow> j \<in> {0 ..< 512} \<Longrightarrow>
       entry ((pg_words s)(a + 8 * i \<mapsto> sint e)) c j = (if q = p \<and> j = i then e else entry (pg_words s) c j)"
proof -
  note D = tables_okD [OF assms(1)]
  let ?m = "pg_words s" and ?ms = "pg_mappings s"
  have a: "page_ok ?ms ?m a" using D(1,2) assms(2) by blast
  then have some: "?m (a + 8 * i) \<noteq> None" "a mod 4096 = 0" using assms(4) by (auto simp: page_ok_def)
  have al: "b mod 4096 = 0" if "T q = Some b" for q b using D(1,2) that by (auto simp: page_ok_def)
  have entry: "entry (?m(a + 8 * i \<mapsto> sint e)) b j = (if b = a \<and> j = i then e else entry ?m b j)"
    if "T q = Some b" "j \<in> {0 ..< 512}" for q b j
    using entry_write [OF some(2) al [OF that(1)] assms(4) that(2)] .
  have child: "child_ok ?ms (T (q @ [j])) (entry (?m(a + 8 * i \<mapsto> sint e)) b j)"
    if "T q = Some b" "length q < 3" "j \<in> {0 ..< 512}" for q b j
  proof (cases "b = a \<and> j = i")
    case True
    then have "q = p" using D(3) [OF assms(2), of q] that(1) by simp
    then show ?thesis using entry [OF that(1,3)] True assms(5) by simp
  next
    case False
    then show ?thesis using D(5) [OF that] unfolding entry [OF that(1,3)] if_not_P [OF False] by simp
  qed
  have free: "free_blocks (?m(a + 8 * i \<mapsto> sint e)) (pg_pool s) fs"
    using free_blocks_write write_not_free [OF assms(1,2,4)] assms(1) by (simp add: tables_ok_def)
  have pages: "page_ok ?ms (?m(a + 8 * i \<mapsto> sint e)) b" if "b \<in> P" for b using D(1) [OF that] some(1) by simp
  show "tables_ok (s\<lparr>pg_words := ?m(a + 8 * i \<mapsto> sint e)\<rparr>) P T fs"
    using assms(1) child free pages some(1) unfolding tables_ok_def by simp
  have "leaf (?m(a + 8 * i \<mapsto> sint e)) T q j = leaf ?m T q j" if q: "length q = 3" "j \<in> {0 ..< 512}" for q j
  proof (cases "T q")
    case (Some b)
    then have "b \<noteq> a" using D(3) [OF assms(2), of q] assms(3) q(1) by auto
    then show ?thesis using entry [OF Some q(2)] Some by (simp add: leaf_def)
  qed (simp add: leaf_def)
  then show "hangs_into s T (s\<lparr>pg_words := ?m(a + 8 * i \<mapsto> sint e)\<rparr>) T" by (simp add: hangs_into_def)
  fix q c and j :: sz assume c: "T q = Some c" "j \<in> {0 ..< 512}"
  have "c = a \<longleftrightarrow> q = p" using D(3) [OF assms(2), of q] c(1) assms(2) by auto
  then show "entry (?m(a + 8 * i \<mapsto> sint e)) c j = (if q = p \<and> j = i then e else entry ?m c j)" using entry [OF c] by simp
qed

text \<open>Taking a page from the pool and hanging it into an upper table.\<close>

lemma zeroed_page:
  assumes "page_ok ms m b" "b mod 4096 = 0" "c mod 4096 = 0" "j \<in> {0 ..< 512}" "m (c + 8 * j) \<noteq> None"
  shows "entry (zero_range m b 4096) c j = (if c = b then 0 else entry m c j)"
  using page_addr_in [OF assms(2,3,4)] assms(5) by (auto simp: entry_def pte_get_def zero_range_def)

lemma page_ok_zero [simp]: "page_ok ms (zero_range m x n) b = page_ok ms m b"
proof -
  have "zero_range m x n y \<noteq> None \<longleftrightarrow> m y \<noteq> None" for y by (auto simp: zero_range_def)
  then show ?thesis by (simp only: page_ok_def)
qed

lemma not_present_zero [simp]: "\<not> present 0"
  by (simp add: present_def)

lemma hang_page:
  assumes "tables_ok s P T (b # fs)" "T p = Some a" "length p < 3" "i \<in> {0 ..< 512}" "T (p @ [i]) = None"
    "pool_alloc (pg_words s) (pg_pool s) = Some (b, zero_range (pg_words s) b 4096, pl)"
    "free_blocks (zero_range (pg_words s) b 4096) pl fs" "pl_size pl = 4096"
    "present e" "phys_to_virt (paddr_from_pte e) (pg_mappings s) = Some (Inr b)"
  defines "s' \<equiv> s\<lparr>pg_words := (zero_range (pg_words s) b 4096)(a + 8 * i \<mapsto> sint e), pg_pool := pl\<rparr>"
  shows "tables_ok s' P (T(p @ [i] \<mapsto> b)) fs" "hangs_into s T s' (T(p @ [i] \<mapsto> b))"
    "\<And>q c j. T q = Some c \<Longrightarrow> j \<in> {0 ..< 512} \<Longrightarrow>
       entry (pg_words s') c j = (if q = p \<and> j = i then e else entry (pg_words s) c j)"
proof -
  note D = tables_okD [OF assms(1)]
  let ?ms = "pg_mappings s" and ?T = "T(p @ [i] \<mapsto> b)" and ?z = "zero_range (pg_words s) b 4096"
  let ?m = "?z(a + 8 * i \<mapsto> sint e)"
  have bP: "b \<in> P" "page_ok ?ms (pg_words s) b" "b \<notin> set fs"
    using assms(1) D(1) by (auto simp: tables_ok_def free_blocks_def)
  have aP: "a \<in> P" "a \<noteq> b" "a \<notin> set fs" using D(2) [OF assms(2)] by auto
  have al: "c mod 4096 = 0" if "c \<in> P" for c using D(1) [OF that] by (simp add: page_ok_def)
  have some: "?z (a + 8 * i) \<noteq> None" using D(1) [OF aP(1)] assms(4) by (auto simp: page_ok_def zero_range_def)
  have entry: "entry ?m c j = (if c = a \<and> j = i then e else if c = b then 0 else entry (pg_words s) c j)"
    if "c \<in> P" "j \<in> {0 ..< 512}" for c j
  proof -
    have w: "pg_words s (c + 8 * j) \<noteq> None" using D(1) [OF that(1)] that(2) by (simp add: page_ok_def)
    show ?thesis
      unfolding entry_write [OF al [OF aP(1)] al [OF that(1)] assms(4) that(2)]
        zeroed_page [OF bP(2) al [OF bP(1)] al [OF that(1)] that(2) w] by (rule refl)
  qed
  have free: "free_blocks ?m pl fs"
    using free_blocks_write [OF assms(7)] write_not_free [OF assms(1,2,4)] by simp
  have fresh: "T q \<noteq> Some b" for q using D(2) [of q b] by auto
  have inP: "c \<in> P \<and> c \<notin> set fs \<and> length q \<le> 3 \<and> (\<forall>r. ?T r = Some c \<longrightarrow> r = q)" if "?T q = Some c" for q c
  proof (cases "q = p @ [i]")
    case True
    then have "c = b" using that by simp
    then show ?thesis using True bP(1,3) fresh assms(3) by simp
  next
    case False
    then have q: "T q = Some c" using that by simp
    then have c: "c \<in> P" "c \<noteq> b" "c \<notin> set fs" "length q \<le> 3" using D(2) [OF q] by auto
    have "r = q" if "?T r = Some c" for r using that c(2) D(3) [OF q, of r] by (simp split: if_splits)
    then show ?thesis using c by blast
  qed
  have up: "?T q \<noteq> None \<and> j \<in> {0 ..< 512}" if "?T (q @ [j]) \<noteq> None" for q j
  proof (cases "q @ [j] = p @ [i]")
    case True
    then show ?thesis using assms(2,4) by simp
  next
    case False
    then have "T (q @ [j]) \<noteq> None" using that by (simp split: if_splits)
    from D(4) [OF this] show ?thesis by simp
  qed
  have below: "T (p @ [i] @ [j]) = None" for j
    using D(4) [of "p @ [i]" j] assms(5) by (cases "T (p @ [i, j])") auto
  have child: "child_ok ?ms (?T (q @ [j])) (entry ?m c j)" if q: "?T q = Some c" "length q < 3" "j \<in> {0 ..< 512}" for q c j
  proof (cases "q = p @ [i]")
    case True
    then have "?T (q @ [j]) = None" "c = b" using below [of j] q(1) by auto
    then show ?thesis using entry [OF bP(1) q(3)] aP(2) by (simp add: child_ok_def)
  next
    case False
    then have c: "T q = Some c" "c \<in> P" "c \<noteq> b" using q(1) D(2) [of q c] by (auto split: if_splits)
    show ?thesis
    proof (cases "q = p \<and> j = i")
      case True
      then show ?thesis using c assms(2,9,10) entry [OF c(2) q(3)] by (simp add: child_ok_def)
    next
      case F: False
      then have "\<not> (c = a \<and> j = i)" using D(3) [OF assms(2), of q] c(1) by auto
      moreover have "?T (q @ [j]) = T (q @ [j])" using F by auto
      ultimately show ?thesis using D(5) [OF c(1) q(2,3)] c(3) unfolding entry [OF c(2) q(3)] by auto
    qed
  qed
  show "tables_ok s' P ?T fs"
  proof (rule tables_okI)
    show "set fs \<subseteq> P" "?T [] = Some (pg_pml4 s')" using tables_ok_pool(3,4) [OF assms(1)] by (simp_all add: s'_def)
    show "page_ok (pg_mappings s') (pg_words s') c" if "c \<in> P" for c using D(1) [OF that] some by (simp add: s'_def)
    show "no_null_page (pg_words s')" using tables_ok_pool(5) [OF assms(1)] some by (simp add: s'_def)
    show "q = r" if "?T r = Some c" "?T q = Some c" for r q c using inP [OF that(1)] that(2) by blast
    show "child_ok (pg_mappings s') (?T (q @ [j])) (entry (pg_words s') c j)"
      if "?T q = Some c" "length q < 3" "j \<in> {0 ..< 512}" for q c j using child [OF that] by (simp add: s'_def)
    show "free_blocks (pg_words s') (pg_pool s') fs" "pl_size (pg_pool s') = 4096"
      using free assms(8) by (simp_all add: s'_def)
    show "c \<in> P \<and> c \<notin> set fs \<and> length q \<le> 3" if "?T q = Some c" for q c using inP [OF that] by blast
    show "?T q \<noteq> None \<and> j \<in> {0 ..< 512}" if "?T (q @ [j]) \<noteq> None" for q j using up [OF that] .
  qed
  have leaf: "leaf ?m ?T q j = leaf (pg_words s) T q j" if q: "length q = 3" "j \<in> {0 ..< 512}" for q j
  proof (cases "q = p @ [i]")
    case True
    then show ?thesis using entry [OF bP(1) q(2)] aP(2) assms(5) by (simp add: leaf_def)
  next
    case False
    show ?thesis
    proof (cases "T q")
      case (Some c)
      then have "c \<in> P" "c \<noteq> b" "c \<noteq> a" using D(2) [of q c] D(3) [OF assms(2), of q] q(1) assms(3) by auto
      then show ?thesis using entry [OF _ q(2), of c] Some False by (simp add: leaf_def)
    qed (use False in \<open>simp add: leaf_def\<close>)
  qed
  have "T \<subseteq>\<^sub>m ?T" using assms(5) by (auto simp: map_le_def dom_def)
  then show "hangs_into s T s' ?T" using leaf by (simp add: hangs_into_def s'_def)
  fix q c and j :: sz assume c: "T q = Some c" "j \<in> {0 ..< 512}"
  then have "c \<in> P" "c \<noteq> b" "c = a \<longleftrightarrow> q = p" using D(2) [of q c] D(3) [OF assms(2), of q] assms(2) by auto
  then show "entry (pg_words s') c j = (if q = p \<and> j = i then e else entry (pg_words s) c j)"
    using entry [of c j] c(2) by (simp add: s'_def)
qed

section \<open>What the processor needs\<close>

text \<open>
  The upper entries hold the frames of the tables below them and do not map large pages, and they have the flags RW and US wherever an
  entry of the last level below them has it.
\<close>

definition path_bit :: "words \<Rightarrow> tables \<Rightarrow> sz list \<Rightarrow> nat \<Rightarrow> bool" where
  "path_bit m T p k \<longleftrightarrow> (\<forall>n < length p. \<forall>a. T (take n p) = Some a \<longrightarrow> bit (entry m a (p ! n)) k)"

definition mmu_ok :: "paging \<Rightarrow> tables \<Rightarrow> bool" where
  "mmu_ok s T \<longleftrightarrow> (\<forall>p a i b. T p = Some a \<longrightarrow> length p < 3 \<longrightarrow> T (p @ [i]) = Some b \<longrightarrow>
       virt_to_phys b (pg_mappings s) = Some (Inr (frame_of (entry (pg_words s) a i))) \<and> \<not> bit (entry (pg_words s) a i) 7) \<and>
     (\<forall>p i e k. length p = 3 \<longrightarrow> i \<in> {0 ..< 512} \<longrightarrow> k \<in> {1, 2} \<longrightarrow> leaf (pg_words s) T p i = Some e \<longrightarrow> bit e k \<longrightarrow>
       path_bit (pg_words s) T p k)"

definition kept_bits :: "paging \<Rightarrow> tables \<Rightarrow> paging \<Rightarrow> bool" where
  "kept_bits s T s' \<longleftrightarrow> (\<forall>p a i k. T p = Some a \<longrightarrow> length p < 3 \<longrightarrow> T (p @ [i]) \<noteq> None \<longrightarrow>
     bit (entry (pg_words s) a i) k \<longrightarrow> bit (entry (pg_words s') a i) k)"

lemma prefix_table:
  assumes "tables_ok s P T fs" "T p \<noteq> None"
  shows "T (take n p) \<noteq> None"
  using assms(2)
proof (induction p rule: rev_induct)
  case (snoc i p)
  have "T p \<noteq> None" using tables_okD(4) [OF assms(1) snoc.prems] by simp
  then show ?case using snoc by (cases "n \<le> length p") simp_all
qed simp

lemma path_bit_kept:
  assumes "tables_ok s P T fs" "T p \<noteq> None" "path_bit (pg_words s) T p k" "T \<subseteq>\<^sub>m T'" "kept_bits s T s'"
  shows "path_bit (pg_words s') T' p k"
  unfolding path_bit_def
proof (intro allI impI)
  fix n a assume n: "n < length p" "T' (take n p) = Some a"
  obtain c where c: "T (take n p) = Some c" using prefix_table [OF assms(1,2), of n] by auto
  then have a: "c = a" using assms(4) n(2) by (force simp: map_le_def dom_def)
  have "T (take n p @ [p ! n]) \<noteq> None" using prefix_table [OF assms(1,2), of "Suc n"] n(1) by (simp add: take_Suc_conv_app_nth)
  moreover have "length (take n p) < 3" using tables_okD(2) [OF assms(1)] assms(2) n(1) by fastforce
  moreover have "bit (entry (pg_words s) a (p ! n)) k" using assms(3) c n(1) unfolding path_bit_def a by blast
  ultimately show "bit (entry (pg_words s') a (p ! n)) k" using assms(5) c unfolding kept_bits_def a by blast
qed

lemma map_le_Some: "T \<subseteq>\<^sub>m T1 \<Longrightarrow> T p = Some a \<Longrightarrow> T1 p = Some a"
  by (auto simp: map_le_def dom_def)

lemma kept_trans: "kept_bits s T s1 \<Longrightarrow> hangs_into s T s1 T1 \<Longrightarrow> kept_bits s1 T1 s2 \<Longrightarrow> kept_bits s T s2"
  unfolding kept_bits_def
proof (intro allI impI)
  assume k: "\<forall>p a i k. T p = Some a \<longrightarrow> length p < 3 \<longrightarrow> T (p @ [i]) \<noteq> None \<longrightarrow> bit (entry (pg_words s) a i) k \<longrightarrow> bit (entry (pg_words s1) a i) k"
    "hangs_into s T s1 T1" "\<forall>p a i k. T1 p = Some a \<longrightarrow> length p < 3 \<longrightarrow> T1 (p @ [i]) \<noteq> None \<longrightarrow> bit (entry (pg_words s1) a i) k \<longrightarrow> bit (entry (pg_words s2) a i) k"
  fix p a i k assume p: "T p = Some a" "length p < 3" "T (p @ [i]) \<noteq> None" "bit (entry (pg_words s) a i) k"
  have "T1 p = Some a" "T1 (p @ [i]) \<noteq> None" using p(1,3) map_le_Some [of T T1] k(2) by (auto simp: hangs_into_def)
  then show "bit (entry (pg_words s2) a i) k" using k(1,3) p by blast
qed

text \<open>One entry of an upper table is set, for a table that was below it or for a new one.\<close>

lemma mmu_ok_upper:
  assumes "tables_ok s P T fs" "hangs_into s T s' T'" "T p = Some a" "length p < 3" "i \<in> {0 ..< 512}"
    and ent: "\<And>q c j. T q = Some c \<Longrightarrow> j \<in> {0 ..< 512} \<Longrightarrow>
      entry (pg_words s') c j = (if q = p \<and> j = i then e else entry (pg_words s) c j)"
    and same: "\<And>q. q \<noteq> p @ [i] \<Longrightarrow> T' q = T q"
    and b: "T' (p @ [i]) = Some b" "mmu_ok s T \<Longrightarrow> virt_to_phys b (pg_mappings s) = Some (Inr (frame_of e)) \<and> \<not> bit e 7"
    and bits: "\<And>k. T (p @ [i]) \<noteq> None \<Longrightarrow> bit (entry (pg_words s) a i) k \<Longrightarrow> bit e k"
  shows "kept_bits s T s'" "mmu_ok s T \<Longrightarrow> mmu_ok s' T'"
proof -
  note D = tables_okD [OF assms(1)]
  show k: "kept_bits s T s'"
    unfolding kept_bits_def
  proof (intro allI impI)
    fix q c j k assume q: "T q = Some c" "T (q @ [j]) \<noteq> None" "bit (entry (pg_words s) c j) k"
    have "j \<in> {0 ..< 512}" using D(4) [OF q(2)] by simp
    then show "bit (entry (pg_words s') c j) k" using ent [OF q(1)] bits q assms(3) by auto
  qed
  assume m: "mmu_ok s T"
  have h: "pg_mappings s' = pg_mappings s" "T \<subseteq>\<^sub>m T'"
    "\<And>q j. length q = 3 \<Longrightarrow> j \<in> {0 ..< 512} \<Longrightarrow> leaf (pg_words s') T' q j = leaf (pg_words s) T q j"
    using assms(2) by (simp_all add: hangs_into_def)
  show "mmu_ok s' T'"
    unfolding mmu_ok_def h(1)
  proof (intro conjI allI impI)
    fix q c j d assume q: "T' q = Some c" "length q < 3" "T' (q @ [j]) = Some d"
    have "virt_to_phys d (pg_mappings s) = Some (Inr (frame_of (entry (pg_words s') c j))) \<and> \<not> bit (entry (pg_words s') c j) 7"
    proof (cases "q = p \<and> j = i")
      case True
      have "T' p = T p" by (rule same) simp
      then have "T p = Some c" "c = a" using q(1) True assms(3) by simp_all
      then have "entry (pg_words s') c j = e" "d = b" using ent [of p c j] True assms(5) q(3) b(1) by simp_all
      then show ?thesis using b(2) [OF m] by simp
    next
      case False
      then have d: "T (q @ [j]) = Some d" using same [of "q @ [j]"] q(3) by simp
      then have t: "T q \<noteq> None" "j \<in> {0 ..< 512}" using D(4) [of q j] by auto
      then have c: "T q = Some c" using q(1) h(2) by (metis domIff map_le_def)
      then show ?thesis using m d q(2) ent [OF c t(2)] False unfolding mmu_ok_def by simp
    qed
    then show "virt_to_phys d (pg_mappings s) = Some (Inr (frame_of (entry (pg_words s') c j)))"
      "\<not> bit (entry (pg_words s') c j) 7" by blast+
  next
    fix q j f k assume q: "length q = 3" "j \<in> {0 ..< 512}" "k \<in> {1 :: nat, 2}" "leaf (pg_words s') T' q j = Some f" "bit f k"
    then have "leaf (pg_words s) T q j = Some f" using h(3) by simp
    moreover from this have "path_bit (pg_words s) T q k" using m q unfolding mmu_ok_def by blast
    ultimately show "path_bit (pg_words s') T' q k" using path_bit_kept [OF assms(1) _ _ h(2) k] by (auto simp: leaf_def split: option.splits)
  qed
qed

section \<open>The call\<close>

text \<open>
  The new tables are among \<open>ps\<close>, and every one of them took a page of the pool.
\<close>

definition grown :: "tables \<Rightarrow> addr list \<Rightarrow> tables \<Rightarrow> addr list \<Rightarrow> sz list set \<Rightarrow> bool" where
  "grown T fs T' fs' ps \<longleftrightarrow> dom T' \<subseteq> dom T \<union> ps \<and>
     (finite (dom T) \<longrightarrow> finite (dom T') \<and> card (dom T') + length fs' = card (dom T) + length fs)"

lemma grown_refl: "grown T fs T fs ps"
  by (simp add: grown_def)

lemma grown_trans: "grown T fs T1 f1 ps \<Longrightarrow> grown T1 f1 T2 f2 qs \<Longrightarrow> grown T fs T2 f2 (ps \<union> qs)"
  unfolding grown_def by (intro conjI impI; (elim conjE)?; (blast | simp))

lemma grown_update: "T p = None \<Longrightarrow> grown T (b # fs) (T(p \<mapsto> b)) fs {p}"
  by (auto simp: grown_def card_insert_if)

text \<open>What a call does for the processor: it keeps the flags of the upper entries, and it sets those of \<open>K\<close> in its own entry.\<close>

definition lets :: "paging \<Rightarrow> tables \<Rightarrow> paging \<Rightarrow> tables \<Rightarrow> sz list \<Rightarrow> sz \<Rightarrow> nat set \<Rightarrow> bool" where
  "lets s T s' T' p i K \<longleftrightarrow> kept_bits s T s' \<and> (mmu_ok s T \<longrightarrow> mmu_ok s' T') \<and>
     (\<forall>k \<in> K. \<forall>c. T' p = Some c \<longrightarrow> bit (entry (pg_words s') c i) k)"

lemma lets_refl: "lets s T s T p i {}"
  by (simp add: lets_def kept_bits_def)

lemma bit_more_set:
  "rw_us perms \<Longrightarrow> bit perms k \<Longrightarrow> bit (more_permissive PT_FLAG_RW perms (more_permissive PT_FLAG_US perms e)) k"
proof -
  assume "rw_us perms" "bit perms k"
  then consider "k = 1" | "k = 2" by (auto simp: rw_us_def)
  then show ?thesis
  proof cases
    case 1
    then show ?thesis using \<open>bit perms k\<close> by (auto simp: more_permissive_def bit_or_iff bit_flags flag_and bit_ucast_iff)
  next
    case 2
    then show ?thesis using \<open>bit perms k\<close> by (auto simp: more_permissive_def bit_or_iff bit_flags flag_and bit_ucast_iff)
  qed
qed

text \<open>The call: it gives the table below, or NULL if there was none and the pool is empty.\<close>

lemma pt_get_or_alloc_ok:
  assumes "tables_ok s P T fs" "T p = Some a" "length p < 3" "i \<in> {0 ..< 512}" "perms_ok perms"
  shows "\<exists>b s' T' fs'. pt_get_or_alloc a i perms s = Some (b, s') \<and> tables_ok s' P T' fs' \<and> hangs_into s T s' T' \<and>
    (if b = 0 then s' = s \<and> fs = [] else T' (p @ [i]) = Some b) \<and> length fs \<le> Suc (length fs') \<and> grown T fs T' fs' {p @ [i]} \<and>
    (rw_us perms \<longrightarrow> lets s T s' T' p i (if b = 0 then {} else {k. bit perms k}))"
proof -
  note D = tables_okD [OF assms(1)]
  let ?m = "pg_words s" and ?ms = "pg_mappings s"
  have a: "page_ok ?ms ?m a" using D(1,2) assms(2) by blast
  note get = pt_get_child [OF assms(1-4)]
  show ?thesis
  proof (cases "T (p @ [i])")
    case (Some b)
    let ?e = "more_permissive PT_FLAG_RW perms (more_permissive PT_FLAG_US perms (entry ?m a i))"
    have b: "b \<noteq> 0" using D(1,2) Some by (auto simp: page_ok_def)
    have "child_ok ?ms (T (p @ [i])) ?e"
      using D(5) [OF assms(2-4)] Some by (simp add: child_ok_def present_more paddr_more)
    note w = write_upper [OF assms(1-4) this]
    have *: "lets s T (s\<lparr>pg_words := ?m(a + 8 * i \<mapsto> sint ?e)\<rparr>) T p i {k. bit perms k}" if rw: "rw_us perms"
      unfolding lets_def
    proof (intro conjI)
      have f: "frame_of ?e = frame_of (entry ?m a i)" by (rule frame_of_eqI) (simp add: bit_more)
      have b7: "mmu_ok s T \<Longrightarrow> virt_to_phys b ?ms = Some (Inr (frame_of ?e)) \<and> \<not> bit ?e 7"
        using Some assms(2,3) unfolding f mmu_ok_def by (simp add: bit_more)
      note u = mmu_ok_upper [OF assms(1) w(2) assms(2-4), where e = ?e and b = b]
      show "kept_bits s T (s\<lparr>pg_words := ?m(a + 8 * i \<mapsto> sint ?e)\<rparr>)"
        "mmu_ok s T \<longrightarrow> mmu_ok (s\<lparr>pg_words := ?m(a + 8 * i \<mapsto> sint ?e)\<rparr>) T"
        using u w(3) Some b7 bit_more(1) by simp_all
      show "\<forall>k \<in> {k. bit perms k}. \<forall>c. T p = Some c \<longrightarrow>
          bit (entry (pg_words (s\<lparr>pg_words := ?m(a + 8 * i \<mapsto> sint ?e)\<rparr>)) c i) k"
        using w(3) [OF assms(2,4)] bit_more_set rw assms(2) by (auto simp: rw_us_def)
    qed
    have "pt_get_or_alloc a i perms s = Some (b, s\<lparr>pg_words := ?m(a + 8 * i \<mapsto> sint ?e)\<rparr>)"
      using get Some b pte_get_entry [OF a assms(4)] pt_insert_ok [OF a assms(4)]
      by (simp add: pt_get_or_alloc_def Let_def)
    with * show ?thesis using w(1,2) b Some grown_refl by (intro exI conjI) (assumption | simp)+
  next
    case None
    show ?thesis
    proof (cases fs)
      case Nil
      then have "pool_alloc ?m (pg_pool s) = Some (0, ?m, pg_pool s)"
        using assms(1) pool_alloc_nil by (simp add: tables_ok_def)
      then have "pt_get_or_alloc a i perms s = Some (0, s)" using get None by (simp add: pt_get_or_alloc_def)
      then show ?thesis using Nil assms(1) hangs_refl grown_refl lets_refl [of s T p i] by fastforce
    next
      case (Cons b fs')
      have fb: "free_blocks ?m (pg_pool s) (b # fs')" "pl_size (pg_pool s) = 4096" "b \<in> P"
        using assms(1) Cons by (auto simp: tables_ok_def)
      obtain pl where pl: "pool_alloc ?m (pg_pool s) = Some (b, zero_range ?m b 4096, pl)"
        "free_blocks (zero_range ?m b 4096) pl fs'" "pl_size pl = 4096"
        using pool_alloc_cons [OF fb(1)] fb(2) by auto
      obtain f where f: "frame_ok f" "virt_to_phys b ?ms = Some (Inr f)" "phys_to_virt f ?ms = Some (Inr b)" "b \<noteq> 0"
        using D(1) [OF fb(3)] by (auto simp: page_ok_def)
      let ?e = "pte_from_paddr f perms ADDR_MAPPING_MEMORY_DEFAULT"
      have e: "present ?e" "phys_to_virt (paddr_from_pte ?e) ?ms = Some (Inr b)"
        using f present_pte paddr_of_pte [OF f(1) assms(5)] by simp_all
      note h = hang_page [OF assms(1) [unfolded Cons] assms(2-4) None pl e]
      let ?s = "s\<lparr>pg_words := (zero_range ?m b 4096)(a + 8 * i \<mapsto> sint ?e), pg_pool := pl\<rparr>"
      have *: "lets s T ?s (T(p @ [i] \<mapsto> b)) p i {k. bit perms k}" if rw: "rw_us perms"
        unfolding lets_def
      proof (intro conjI)
        have "frame_of ?e = f" by (rule page_of_pte(1) [OF rw]) (use f(1) in \<open>simp_all add: frame_ok_def\<close>)
        moreover have "\<not> bit ?e 7" using rw by (auto simp: bit_pte rw_us_def bit_mem_type)
        ultimately have "virt_to_phys b ?ms = Some (Inr (frame_of ?e)) \<and> \<not> bit ?e 7" using f(2) by simp
        then show "kept_bits s T ?s" "mmu_ok s T \<longrightarrow> mmu_ok ?s (T(p @ [i] \<mapsto> b))"
          using mmu_ok_upper [OF assms(1) h(2) assms(2-4), where e = ?e and b = b] h(3) None by simp_all
        show "\<forall>k \<in> {k. bit perms k}. \<forall>c. (T(p @ [i] \<mapsto> b)) p = Some c \<longrightarrow> bit (entry (pg_words ?s) c i) k"
          using h(3) [OF assms(2,4)] rw assms(2) by (auto simp: rw_us_def bit_pte)
      qed
      have z: "page_ok ?ms (zero_range ?m b 4096) a" using a by simp
      have "pt_get_or_alloc a i perms s =
          Some (b, s\<lparr>pg_words := (zero_range ?m b 4096)(a + 8 * i \<mapsto> sint ?e), pg_pool := pl\<rparr>)"
        using get None pl(1) f(2,4) pt_insert_ok [OF z assms(4)] by (simp add: pt_get_or_alloc_def)
      with * show ?thesis using h(1,2) f(4) Cons grown_update [where T = T and p = "p @ [i]" and b = b and fs = fs'] None by (intro exI conjI) (assumption | simp)+
    qed
  qed
qed

lemma pt_get_or_alloc_obtain:
  assumes "tables_ok s P T fs" "T p = Some a" "length p < 3" "i \<in> {0 ..< 512}" "perms_ok perms" "q = p @ [i]"
  obtains b s' T' fs' where "pt_get_or_alloc a i perms s = Some (b, s')" "tables_ok s' P T' fs'"
    "hangs_into s T s' T'" "if b = 0 then s' = s \<and> fs = [] else T' q = Some b" "length fs \<le> Suc (length fs')"
    "grown T fs T' fs' {q}" "rw_us perms \<longrightarrow> lets s T s' T' p i (if b = 0 then {} else {k. bit perms k})"
  using pt_get_or_alloc_ok [OF assms(1-5)] assms(6) by blast

end
