(* ===== verification/PagingMap.thy ===== *)
theory PagingMap
  imports PagingTree
begin

text \<open>
  Mapping and unmapping a page: on the kernel's own lookup of an address in the page tables, they are the update of a map from pages
  to entries. The processor's translations, which \<open>mmu\<close> in Mmu models without a definition of the kernel, are those of the entries that
  this lookup finds (\<open>mmu_view\<close>), as long as the upper tables have what the processor needs (\<open>mmu_ok\<close>).
\<close>

section \<open>The walk\<close>

text \<open>The four indices of an address, and the entry that the kernel finds with them, by the calls that \<open>pt_unmap\<close> makes.\<close>

definition indices :: "addr \<Rightarrow> sz list" where
  "indices v = [PT_IDX v PML4_BIT_BASE, PT_IDX v PDPT_BIT_BASE, PT_IDX v PD_BIT_BASE, PT_IDX v PT_BIT_BASE]"

definition pt_walk :: "paging \<Rightarrow> addr \<Rightarrow> u64 option option" where
  "pt_walk s v = do {
     pdpt \<leftarrow> pt_get (pg_pml4 s) (PT_IDX v PML4_BIT_BASE) (pg_mappings s) (pg_words s);
     if pdpt = 0 then Some None
     else do {
       pd \<leftarrow> pt_get pdpt (PT_IDX v PDPT_BIT_BASE) (pg_mappings s) (pg_words s);
       if pd = 0 then Some None
       else do {
         pt \<leftarrow> pt_get pd (PT_IDX v PD_BIT_BASE) (pg_mappings s) (pg_words s);
         if pt = 0 then Some None
         else do {
           e \<leftarrow> pte_get (pg_words s) pt (PT_IDX v PT_BIT_BASE);
           Some (if present e then Some e else None)
         }
       }
     }
   }"

lemma PT_IDX_eq: "PT_IDX v b = take_bit 9 (drop_bit b v)"
proof -
  have m: "(511 :: int) = mask 9" by (simp add: mask_eq_exp_minus_1)
  show ?thesis unfolding PT_IDX_def m
    by (intro bit_eqI) (auto simp: bit_simps)
qed

lemma PT_IDX_range [simp]: "PT_IDX v b \<in> {0 ..< 512}"
  unfolding PT_IDX_eq by (simp add: take_bit_eq_mod)

lemma PT_IDX_bounds [simp]: "0 \<le> PT_IDX v b" "PT_IDX v b < 512"
  using PT_IDX_range [of v b] by (simp_all del: PT_IDX_range)

text \<open>Addresses have the same indices exactly when they are in the same page, up to the bits above 47.\<close>

definition page_of :: "addr \<Rightarrow> int" where
  "page_of v = take_bit 36 (drop_bit 12 v)"

lemma indices_eq: "indices v = indices w \<longleftrightarrow> page_of v = page_of w"
proof
  assume i: "indices v = indices w"
  have "bit v (12 + n) = bit w (12 + n)" if "n < 36" for n
  proof -
    obtain b k where b: "b \<in> {12, 21, 30, 39}" "12 + n = b + k" "k < 9"
    proof -
      consider "n < 9" | "9 \<le> n" "n < 18" | "18 \<le> n" "n < 27" | "27 \<le> n" using \<open>n < 36\<close> by linarith
      then show thesis
        using that [of 12 n] that [of 21 "n - 9"] that [of 30 "n - 18"] that [of 39 "n - 27"] \<open>n < 36\<close>
        by cases auto
    qed
    have "take_bit 9 (drop_bit b v) = take_bit 9 (drop_bit b w)"
      using i b(1) by (auto simp: indices_def PT_IDX_eq PML4_BIT_BASE_def PDPT_BIT_BASE_def PD_BIT_BASE_def PT_BIT_BASE_def)
    then have "bit (take_bit 9 (drop_bit b v)) k = bit (take_bit 9 (drop_bit b w)) k" by simp
    then show ?thesis using b(2,3) by (simp add: bit_simps)
  qed
  then show "page_of v = page_of w" unfolding page_of_def by (intro bit_eqI) (auto simp: bit_simps)
next
  assume p: "page_of v = page_of w"
  have "bit v (12 + n) = bit w (12 + n)" if "n < 36" for n
  proof -
    have "bit (page_of v) n = bit (page_of w) n" using p by simp
    then show ?thesis using that by (simp add: page_of_def bit_simps)
  qed
  then have b: "take_bit 9 (drop_bit (12 + k) v) = take_bit 9 (drop_bit (12 + k) w)" if "k \<le> 27" for k
    using that by (intro bit_eqI) (auto simp: bit_simps add.assoc)
  show "indices v = indices w"
    using b [of 0] b [of 9] b [of 18] b [of 27]
    by (simp add: indices_def PT_IDX_eq PML4_BIT_BASE_def PDPT_BIT_BASE_def PD_BIT_BASE_def PT_BIT_BASE_def)
qed

text \<open>The tables on the way of \<open>v\<close>.\<close>

abbreviation "i4 v \<equiv> PT_IDX v PML4_BIT_BASE"
abbreviation "i3 v \<equiv> PT_IDX v PDPT_BIT_BASE"
abbreviation "i2 v \<equiv> PT_IDX v PD_BIT_BASE"
abbreviation "i1 v \<equiv> PT_IDX v PT_BIT_BASE"

lemma table_nonzero: "tables_ok s P T fs \<Longrightarrow> T p = Some a \<Longrightarrow> a \<noteq> 0 \<and> page_ok (pg_mappings s) (pg_words s) a"
  using tables_okD(1,2) by (metis page_ok_def)

lemma child_none: "tables_ok s P T fs \<Longrightarrow> T p = None \<Longrightarrow> T (p @ [i]) = None"
  using tables_okD(4) by blast

lemma pt_walk_leaf:
  assumes "tables_ok s P T fs"
  shows "pt_walk s v = Some (leaf (pg_words s) T [i4 v, i3 v, i2 v] (i1 v))"
proof -
  note root = tables_ok_pool(4) [OF assms]
  note g1 = pt_get_child [OF assms root _ PT_IDX_range, of v PML4_BIT_BASE]
  show ?thesis
  proof (cases "T [i4 v]")
    case None
    then have "T [i4 v, i3 v, i2 v] = None"
      using child_none [OF assms, of "[i4 v]" "i3 v"] child_none [OF assms, of "[i4 v, i3 v]" "i2 v"] by simp
    then show ?thesis using g1 None by (simp add: pt_walk_def leaf_def)
  next
    case (Some pdpt)
    note g2 = pt_get_child [OF assms Some _ PT_IDX_range, of v PDPT_BIT_BASE]
    have n1: "pdpt \<noteq> 0" using table_nonzero [OF assms Some] by simp
    show ?thesis
    proof (cases "T [i4 v, i3 v]")
      case None
      then have "T [i4 v, i3 v, i2 v] = None" using child_none [OF assms, of "[i4 v, i3 v]" "i2 v"] by simp
      then show ?thesis using g1 g2 n1 Some None by (simp add: pt_walk_def leaf_def)
    next
      case Some2: (Some pd)
      note g3 = pt_get_child [OF assms Some2 _ PT_IDX_range, of v PD_BIT_BASE]
      have n2: "pd \<noteq> 0" using table_nonzero [OF assms Some2] by simp
      show ?thesis
      proof (cases "T [i4 v, i3 v, i2 v]")
        case None
        then show ?thesis using g1 g2 g3 n1 n2 Some Some2 by (simp add: pt_walk_def leaf_def)
      next
        case Some3: (Some pt)
        have n3: "pt \<noteq> 0" "page_ok (pg_mappings s) (pg_words s) pt" using table_nonzero [OF assms Some3] by simp_all
        then show ?thesis using g1 g2 g3 n1 n2 Some Some2 Some3 pte_get_entry [OF n3(2) PT_IDX_range]
          by (simp add: pt_walk_def leaf_def)
      qed
    qed
  qed
qed

section \<open>Mapping\<close>

text \<open>Writing an entry of the last level.\<close>

lemma write_leaf:
  fixes e :: u64
  assumes "tables_ok s P T fs" "T p = Some a" "length p = 3" "i \<in> {0 ..< 512}"
  defines "s' \<equiv> s\<lparr>pg_words := (pg_words s)(a + 8 * i \<mapsto> sint e)\<rparr>"
  shows "tables_ok s' P T fs"
    "length q = 3 \<Longrightarrow> j \<in> {0 ..< 512} \<Longrightarrow> leaf (pg_words s') T q j =
       (if q = p \<and> j = i then (if present e then Some e else None) else leaf (pg_words s) T q j)"
proof -
  note D = tables_okD [OF assms(1)]
  let ?m = "pg_words s" and ?ms = "pg_mappings s"
  have a: "page_ok ?ms ?m a" using D(1,2) assms(2) by blast
  then have some: "?m (a + 8 * i) \<noteq> None" "a mod 4096 = 0" using assms(4) by (auto simp: page_ok_def)
  have al: "b mod 4096 = 0" if "T q = Some b" for q b using D(1,2) that by (auto simp: page_ok_def)
  have entry: "entry (?m(a + 8 * i \<mapsto> sint e)) b j = (if b = a \<and> j = i then e else entry ?m b j)"
    if "T q = Some b" "j \<in> {0 ..< 512}" for q b j
    using entry_write [OF some(2) al [OF that(1)] assms(4) that(2)] .
  show "tables_ok s' P T fs"
  proof (rule tables_okI)
    show "free_blocks (pg_words s') (pg_pool s') fs"
      using free_blocks_write write_not_free [OF assms(1,2,4)] tables_ok_pool(1) [OF assms(1)] by (simp add: s'_def)
    show "page_ok (pg_mappings s') (pg_words s') b" if "b \<in> P" for b using D(1) [OF that] some(1) by (simp add: s'_def)
    show "child_ok (pg_mappings s') (T (q @ [j])) (entry (pg_words s') b j)"
      if "T q = Some b" "length q < 3" "j \<in> {0 ..< 512}" for q b j
    proof -
      have "b \<noteq> a" using D(3) [OF assms(2), of q] assms(3) that(1,2) by auto
      then show ?thesis using D(5) [OF that] entry [OF that(1,3)] by (simp add: s'_def)
    qed
    show "q = r" if "T r = Some c" "T q = Some c" for r q c using D(3) [OF that] .
    show "b \<in> P \<and> b \<notin> set fs \<and> length q \<le> 3" if "T q = Some b" for q b using D(2) [OF that] .
    show "T q \<noteq> None \<and> j \<in> {0 ..< 512}" if "T (q @ [j]) \<noteq> None" for q j using D(4) [OF that] .
  qed (use tables_ok_pool [OF assms(1)] some in \<open>simp_all add: s'_def\<close>)
  assume q: "length q = 3" "j \<in> {0 ..< 512}"
  show "leaf (pg_words s') T q j =
    (if q = p \<and> j = i then (if present e then Some e else None) else leaf (pg_words s) T q j)"
  proof (cases "T q")
    case None
    then show ?thesis using assms(2) by (auto simp: leaf_def)
  next
    case (Some b)
    have "b = a \<longleftrightarrow> q = p" using D(3) [OF assms(2), of q] Some assms(2) by auto
    then have "entry (?m(a + 8 * i \<mapsto> sint e)) b j = (if q = p \<and> j = i then e else entry ?m b j)"
      using entry [OF Some q(2)] by simp
    then show ?thesis using Some by (cases "q = p \<and> j = i") (auto simp: leaf_def s'_def)
  qed
qed

text \<open>The upper tables are as they were, some may be gone.\<close>

lemma mmu_ok_sub:
  assumes "mmu_ok s T" "pg_mappings s' = pg_mappings s" "T' \<subseteq>\<^sub>m T" "tables_ok s' P T' fs"
    and ent: "\<And>q b j. T' q = Some b \<Longrightarrow> length q < 3 \<Longrightarrow> T' (q @ [j]) \<noteq> None \<Longrightarrow> entry (pg_words s') b j = entry (pg_words s) b j"
    and leaves: "\<And>q j f k. length q = 3 \<Longrightarrow> j \<in> {0 ..< 512} \<Longrightarrow> k \<in> {1, 2} \<Longrightarrow> leaf (pg_words s') T' q j = Some f \<Longrightarrow>
      bit f k \<Longrightarrow> path_bit (pg_words s) T q k"
  shows "mmu_ok s' T'"
  unfolding mmu_ok_def assms(2)
proof (intro conjI allI impI)
  fix q c j d assume q: "T' q = Some c" "length q < 3" "T' (q @ [j]) = Some d"
  then have "T q = Some c" "T (q @ [j]) = Some d" using map_le_Some [OF assms(3)] by simp_all
  then show "virt_to_phys d (pg_mappings s) = Some (Inr (frame_of (entry (pg_words s') c j)))" "\<not> bit (entry (pg_words s') c j) 7"
    using ent [OF q(1,2)] q(2,3) assms(1) unfolding mmu_ok_def by fastforce+
next
  fix q j f k assume q: "length q = 3" "j \<in> {0 ..< 512}" "k \<in> {1 :: nat, 2}" "leaf (pg_words s') T' q j = Some f" "bit f k"
  have p: "path_bit (pg_words s) T q k" by (rule leaves [OF q])
  have t: "T' q \<noteq> None" using q(4) by (auto simp: leaf_def split: option.splits)
  show "path_bit (pg_words s') T' q k"
    unfolding path_bit_def
  proof (intro allI impI)
    fix n a assume n: "n < length q" "T' (take n q) = Some a"
    have "T' (take n q @ [q ! n]) \<noteq> None" using prefix_table [OF assms(4) t, of "Suc n"] n(1) by (simp add: take_Suc_conv_app_nth)
    then have "entry (pg_words s') a (q ! n) = entry (pg_words s) a (q ! n)" using ent [OF n(2)] n(1) q(1) by simp
    then show "bit (entry (pg_words s') a (q ! n)) k"
      using p n(1) map_le_Some [OF assms(3) n(2)] unfolding path_bit_def by simp
  qed
qed

lemma mmu_ok_leaf:
  fixes e :: u64
  assumes "tables_ok s P T fs" "T p = Some a" "length p = 3" "i \<in> {0 ..< 512}" "mmu_ok s T"
    and e: "\<And>k. k \<in> {1, 2} \<Longrightarrow> present e \<Longrightarrow> bit e k \<Longrightarrow> path_bit (pg_words s) T p k"
  shows "mmu_ok (s\<lparr>pg_words := (pg_words s)(a + 8 * i \<mapsto> sint e)\<rparr>) T"
proof (rule mmu_ok_sub [OF assms(5), where P = P and fs = fs])
  note w = write_leaf [OF assms(1-4), where e = e]
  let ?s = "s\<lparr>pg_words := (pg_words s)(a + 8 * i \<mapsto> sint e)\<rparr>"
  show "tables_ok ?s P T fs" by (rule w(1))
  fix q b j assume q: "T q = Some b" "length q < 3" "T (q @ [j]) \<noteq> None"
  have j: "j \<in> {0 ..< 512}" using tables_okD(4) [OF assms(1) q(3)] by simp
  have "b \<noteq> a" using tables_okD(3) [OF assms(1,2), of q] assms(3) q(1,2) by auto
  moreover have "a mod 4096 = 0" "b mod 4096 = 0"
    using table_nonzero [OF assms(1,2)] table_nonzero [OF assms(1) q(1)] by (simp_all add: page_ok_def)
  ultimately show "entry (pg_words ?s) b j = entry (pg_words s) b j" using entry_write [OF _ _ assms(4) j] by simp
next
  fix q j f k
  assume q: "length q = 3" "j \<in> {0 ..< 512}" "k \<in> {1 :: nat, 2}" "leaf (pg_words (s\<lparr>pg_words := (pg_words s)(a + 8 * i \<mapsto> sint e)\<rparr>)) T q j = Some f" "bit f k"
  show "path_bit (pg_words s) T q k"
  proof (cases "q = p \<and> j = i")
    case True
    then have "f = e \<and> present e" using write_leaf(2) [OF assms(1-4) q(1,2), where e = e] q(4) by (simp split: if_splits)
    then show ?thesis using e [OF q(3)] q(5) True by simp
  next
    case False
    then have "leaf (pg_words s) T q j = Some f" using write_leaf(2) [OF assms(1-4) q(1,2), where e = e] q(4) by auto
    then show ?thesis using assms(5) q(1-3,5) unfolding mmu_ok_def by blast
  qed
qed (simp_all add: map_le_def)

lemma path_bit3:
  assumes "T [] = Some a" "T [x] = Some b" "T [x, y] = Some c" "bit (entry m a x) k" "bit (entry m b y) k" "bit (entry m c z) k"
  shows "path_bit m T [x, y, z] k"
  unfolding path_bit_def
proof (intro allI impI)
  fix n d assume n: "n < length [x, y, z]" "T (take n [x, y, z]) = Some d"
  then consider "n = 0" | "n = 1" | "n = 2" by fastforce
  then show "bit (entry m d ([x, y, z] ! n)) k" using n(2) assms by cases simp_all
qed

lemma path_bit3D:
  assumes "path_bit m T [x, y, z] k" "T [] = Some a" "T [x] = Some b" "T [x, y] = Some c"
  shows "bit (entry m a x) k \<and> bit (entry m b y) k \<and> bit (entry m c z) k"
  using assms(1) [unfolded path_bit_def, rule_format, of 0 a] assms(1) [unfolded path_bit_def, rule_format, of 1 b]
    assms(1) [unfolded path_bit_def, rule_format, of 2 c] assms(2-4) by simp

abbreviation "tables_to v \<equiv> {[i4 v], [i4 v, i3 v], [i4 v, i3 v, i2 v]}"

text \<open>The flags that the three calls have set on the way down.\<close>

lemma path_of_calls:
  assumes "tables_ok s1 P T1 f1" "hangs_into s1 T1 s2 T2" "hangs_into s2 T2 s3 T3" "T1 [x] = Some b1" "T2 [x, y] = Some b2"
    and "lets s T s1 T1 [] x K" "lets s1 T1 s2 T2 [x] y K" "lets s2 T2 s3 T3 [x, y] z K" "k \<in> K"
  shows "path_bit (pg_words s3) T3 [x, y, z] k"
proof (rule path_bit3)
  have le: "T1 \<subseteq>\<^sub>m T2" "T2 \<subseteq>\<^sub>m T3" using assms(2,3) by (simp_all add: hangs_into_def)
  have kept: "kept_bits s1 T1 s3" "kept_bits s2 T2 s3"
    using kept_trans [OF _ assms(2)] assms(7,8) by (simp_all add: lets_def)
  have r: "T1 [] = Some (pg_pml4 s1)" by (rule tables_ok_pool(4) [OF assms(1)])
  show "T3 [] = Some (pg_pml4 s1)" "T3 [x] = Some b1" "T3 [x, y] = Some b2"
    using r assms(4,5) map_le_Some [OF le(1)] map_le_Some [OF le(2)] by blast+
  show "bit (entry (pg_words s3) (pg_pml4 s1) x) k"
    using kept(1) r assms(4,6,9) unfolding kept_bits_def lets_def by force
  show "bit (entry (pg_words s3) b1 y) k"
    using kept(2) map_le_Some [OF le(1) assms(4)] assms(5,7,9) unfolding kept_bits_def lets_def by force
  show "bit (entry (pg_words s3) b2 z) k"
    using map_le_Some [OF le(2) assms(5)] assms(8,9) unfolding lets_def by blast
qed

lemma pt_map_cases:
  assumes ok: "tables_ok s P T fs" and perms: "perms_ok perms"
  shows "(\<exists>s' T' fs'. pt_map v p perms mt s = Some (ok, s') \<and> tables_ok s' P T' fs' \<and> pg_mappings s' = pg_mappings s \<and>
      length fs \<le> length fs' + 3 \<and> grown T fs T' fs' (tables_to v) \<and> (rw_us perms \<longrightarrow> mmu_ok s T \<longrightarrow> mmu_ok s' T') \<and>
      (\<forall>w. pt_walk s' w = (if page_of w = page_of v then Some (Some (pte_from_paddr p perms mt)) else pt_walk s w)))
    \<or> length fs < 3 \<and> (\<exists>s' T' fs'. pt_map v p perms mt s = Some (Inl ENOMEM, s') \<and> tables_ok s' P T' fs' \<and>
        pg_mappings s' = pg_mappings s \<and> (rw_us perms \<longrightarrow> mmu_ok s T \<longrightarrow> mmu_ok s' T') \<and> (\<forall>w. pt_walk s' w = pt_walk s w))
    \<or> length fs < 3 \<and> pt_map v p perms mt s = None"
proof -
  have walk: "pt_walk s' w = pt_walk s w" if "hangs_into s T s' T'" "tables_ok s' P T' fs'" for s' T' fs' w
    using that(1) unfolding pt_walk_leaf [OF ok] pt_walk_leaf [OF that(2)] by (simp add: hangs_into_def)
  note root = tables_ok_pool(4) [OF ok]
  obtain b1 s1 T1 f1 where 1: "pt_get_or_alloc (pg_pml4 s) (i4 v) perms s = Some (b1, s1)" "tables_ok s1 P T1 f1"
    "hangs_into s T s1 T1" "if b1 = 0 then s1 = s \<and> fs = [] else T1 [i4 v] = Some b1" "length fs \<le> Suc (length f1)"
    "grown T fs T1 f1 {[i4 v]}" "rw_us perms \<longrightarrow> lets s T s1 T1 [] (i4 v) (if b1 = 0 then {} else {k. bit perms k})"
    by (rule pt_get_or_alloc_obtain [OF ok root _ PT_IDX_range perms, of "[i4 v]"]) (simp, simp, rule that)
  show ?thesis
  proof (cases "b1 = 0")
    case True
    then have "pt_map v p perms mt s = Some (Inl ENOMEM, s)" "fs = []" using 1 by (simp_all add: pt_map_def)
    then show ?thesis using ok by auto
  next
    case False
    then have t1: "T1 [i4 v] = Some b1" using 1(4) by simp
    obtain b2 s2 T2 f2 where 2: "pt_get_or_alloc b1 (i3 v) perms s1 = Some (b2, s2)" "tables_ok s2 P T2 f2"
      "hangs_into s1 T1 s2 T2" "if b2 = 0 then s2 = s1 \<and> f1 = [] else T2 [i4 v, i3 v] = Some b2" "length f1 \<le> Suc (length f2)"
      "grown T1 f1 T2 f2 {[i4 v, i3 v]}" "rw_us perms \<longrightarrow> lets s1 T1 s2 T2 [i4 v] (i3 v) (if b2 = 0 then {} else {k. bit perms k})"
      by (rule pt_get_or_alloc_obtain [OF 1(2) t1 _ PT_IDX_range perms, of "[i4 v, i3 v]"]) (simp, simp, rule that)
    note e2 = hangs_trans [OF 1(3) 2(3)]
    show ?thesis
    proof (cases "b2 = 0")
      case True
      then have "pt_map v p perms mt s = Some (Inl ENOMEM, s2)" "length fs < 3"
        using 1 2 False by (simp_all add: pt_map_def)
      moreover have "rw_us perms \<longrightarrow> mmu_ok s T \<longrightarrow> mmu_ok s2 T2" using 1(7) 2(7) by (auto simp: lets_def)
      ultimately show ?thesis using 2(2) e2 walk [OF e2 2(2)] by (auto simp: hangs_into_def)
    next
      case F2: False
      then have t2: "T2 [i4 v, i3 v] = Some b2" using 2(4) by simp
      obtain b3 s3 T3 f3 where 3: "pt_get_or_alloc b2 (i2 v) perms s2 = Some (b3, s3)" "tables_ok s3 P T3 f3"
        "hangs_into s2 T2 s3 T3" "if b3 = 0 then s3 = s2 \<and> f2 = [] else T3 [i4 v, i3 v, i2 v] = Some b3"
        "length f2 \<le> Suc (length f3)" "grown T2 f2 T3 f3 {[i4 v, i3 v, i2 v]}"
        "rw_us perms \<longrightarrow> lets s2 T2 s3 T3 [i4 v, i3 v] (i2 v) (if b3 = 0 then {} else {k. bit perms k})"
        by (rule pt_get_or_alloc_obtain [OF 2(2) t2 _ PT_IDX_range perms, of "[i4 v, i3 v, i2 v]"]) (simp, simp, rule that)
      note e3 = hangs_trans [OF e2 3(3)]
      let ?e = "pte_from_paddr p perms mt"
      have m: "pt_map v p perms mt s = do { m \<leftarrow> pte_set (pg_words s3) b3 (i1 v) ?e; Some (ok, s3\<lparr>pg_words := m\<rparr>) }"
        using 1(1) 2(1) 3(1) False F2 PT_IDX_range [of v PT_BIT_BASE]
        by (simp add: pt_map_def Let_def NUM_PT_ENTRIES_def kassert_bind)
      show ?thesis
      proof (cases "b3 = 0")
        case True
        then have "f2 = []" "s3 = s2" using 3(4) by simp_all
        then have "length fs < 3" "pg_words s3 (8 * i1 v) = None"
          using 1(5) 2(5) tables_ok_pool(5) [OF 2(2)] by (simp_all add: no_null_page_def)
        then show ?thesis using m True by (simp add: pte_set_def write_word_def)
      next
        case F3: False
        then have t3: "T3 [i4 v, i3 v, i2 v] = Some b3" using 3(4) by simp
        note w = write_leaf [OF 3(2) t3 _ PT_IDX_range [of v PT_BIT_BASE], where e = ?e]
        let ?s = "s3\<lparr>pg_words := (pg_words s3)(b3 + 8 * i1 v \<mapsto> sint ?e)\<rparr>"
        have ok': "tables_ok ?s P T3 f3" using w(1) by simp
        have "pt_map v p perms mt s = Some (ok, ?s)"
          using pte_set_ok(1) [OF conjunct2 [OF table_nonzero [OF 3(2) t3]] PT_IDX_range [of v PT_BIT_BASE], of ?e] m by simp
        moreover have "pt_walk ?s x = (if page_of x = page_of v then Some (Some ?e) else pt_walk s x)" for x
          using w(2) [of "[i4 x, i3 x, i2 x]" "i1 x"] walk [OF e3 3(2), of x]
          unfolding pt_walk_leaf [OF ok'] pt_walk_leaf [OF 3(2)] indices_eq [symmetric]
          by (auto simp: indices_def present_pte)
        moreover have "pg_mappings ?s = pg_mappings s" using e3 by (simp add: hangs_into_def)
        moreover have "length fs \<le> length f3 + 3" using 1(5) 2(5) 3(5) by simp
        moreover have "grown T fs T3 f3 (tables_to v)"
          using grown_trans [OF grown_trans [OF 1(6) 2(6)] 3(6)] by (simp add: insert_commute)
        moreover have "rw_us perms \<longrightarrow> mmu_ok s T \<longrightarrow> mmu_ok ?s T3"
        proof (intro impI)
          assume rw: "rw_us perms" and mm: "mmu_ok s T"
          have l: "lets s T s1 T1 [] (i4 v) {k. bit perms k}" "lets s1 T1 s2 T2 [i4 v] (i3 v) {k. bit perms k}"
            "lets s2 T2 s3 T3 [i4 v, i3 v] (i2 v) {k. bit perms k}" using 1(7) 2(7) 3(7) rw False F2 F3 by simp_all
          show "mmu_ok ?s T3"
          proof (rule mmu_ok_leaf [OF 3(2) t3 _ PT_IDX_range])
            show "mmu_ok s3 T3" using l mm by (simp add: lets_def)
            fix k assume k: "k \<in> {1 :: nat, 2}" "bit ?e k"
            then have "bit perms k" using bit_mem_type(1,2) by (auto simp: bit_pte)
            then show "path_bit (pg_words s3) T3 [i4 v, i3 v, i2 v] k"
              using path_of_calls [OF 1(2) 2(3) 3(3) t1 t2 l] by simp
          qed simp
        qed
        ultimately show ?thesis using ok' by blast
      qed
    qed
  qed
qed

text \<open>The root stays where it is.\<close>

lemma pt_get_or_alloc_root: "pt_get_or_alloc pt idx perms s = Some (r, s') \<Longrightarrow> pg_pml4 s' = pg_pml4 s"
  by (auto simp: pt_get_or_alloc_def bind_eq_Some_conv Let_def split: if_splits)

lemma bind_SomeE: "m \<bind> f = Some y \<Longrightarrow> (\<And>x. m = Some x \<Longrightarrow> f x = Some y \<Longrightarrow> P) \<Longrightarrow> P"
  by (cases m) auto

lemma pt_map_root: "pt_map v p perms mt s = Some (r, s') \<Longrightarrow> pg_pml4 s' = pg_pml4 s"
  unfolding pt_map_def Let_def
  by (elim bind_SomeE; clarsimp split: if_splits dest!: pt_get_or_alloc_root; (elim bind_SomeE; clarsimp split: if_splits dest!: pt_get_or_alloc_root)?)+

section \<open>Unmapping\<close>

lemma empty_loop_eq:
  "page_ok ms m a \<Longrightarrow> set is \<subseteq> {0 ..< 512} \<Longrightarrow> empty_loop a is m = Some (\<forall>i \<in> set is. \<not> present (entry m a i))"
proof (induction "is")
  case (Cons i js)
  then show ?case using pte_get_entry [OF Cons.prems(1), of i] by (simp add: present_def)
qed simp

lemma pt_is_empty_eq:
  assumes "page_ok ms m a"
  shows "pt_is_empty a m = Some (\<forall>i \<in> {0 ..< 512}. \<not> present (entry m a i))"
proof -
  have "set [0 .. NUM_PT_ENTRIES - 1] = {0 ..< 512}" by (auto simp: NUM_PT_ENTRIES_def)
  then show ?thesis using empty_loop_eq [OF assms, of "[0 .. NUM_PT_ENTRIES - 1]"] assms
    by (simp add: pt_is_empty_def page_ok_def)
qed

text \<open>What the steps that give tables back keep.\<close>

definition same_pages :: "paging \<Rightarrow> tables \<Rightarrow> paging \<Rightarrow> tables \<Rightarrow> bool" where
  "same_pages s T s' T' \<longleftrightarrow> pg_mappings s' = pg_mappings s \<and> pg_pml4 s' = pg_pml4 s \<and> (mmu_ok s T \<longrightarrow> mmu_ok s' T') \<and>
     (\<forall>p i. length p = 3 \<longrightarrow> i \<in> {0 ..< 512} \<longrightarrow> leaf (pg_words s') T' p i = leaf (pg_words s) T p i)"

lemma same_pages_refl: "same_pages s T s T"
  by (simp add: same_pages_def)

lemma same_pages_trans: "same_pages s T s1 T1 \<Longrightarrow> same_pages s1 T1 s2 T2 \<Longrightarrow> same_pages s T s2 T2"
  by (simp add: same_pages_def)

lemma clear_present_ok:
  "page_ok ms m a \<Longrightarrow> i \<in> {0 ..< 512} \<Longrightarrow>
     clear_present a i m = Some (m(a + 8 * i \<mapsto> sint (entry m a i AND NOT PT_FLAG_P)))"
  using pte_get_entry [of ms m a i] pte_set_ok(1) [of ms m a i] by (simp add: clear_present_def)

text \<open>A table without entries goes back to the pool.\<close>

lemma free_page:
  assumes "tables_ok s P T fs" "T p = Some a" "length p < 3" "i \<in> {0 ..< 512}" "T (p @ [i]) = Some b"
    "\<forall>j \<in> {0 ..< 512}. \<not> present (entry (pg_words s) b j)"
  defines "m \<equiv> (pg_words s)(a + 8 * i \<mapsto> sint (entry (pg_words s) a i AND NOT PT_FLAG_P))"
  defines "s' \<equiv> s\<lparr>pg_words := m(b \<mapsto> pl_head (pg_pool s)), pg_pool := (pg_pool s)\<lparr>pl_head := b\<rparr>\<rparr>"
  shows "pool_free m (pg_pool s) b = Some (pg_words s', pg_pool s')"
    "tables_ok s' P (T(p @ [i] := None)) (b # fs)" "same_pages s T s' (T(p @ [i] := None))"
proof -
  note D = tables_okD [OF assms(1)]
  let ?ms = "pg_mappings s" and ?T = "T(p @ [i] := None)" and ?e = "entry (pg_words s) a i AND NOT PT_FLAG_P"
  have a: "a \<in> P" "page_ok ?ms (pg_words s) a" using D(1,2) assms(2) by blast+
  have b: "b \<in> P" "page_ok ?ms (pg_words s) b" "b \<notin> set fs" using D(1,2) assms(5) by blast+
  have ab: "a \<noteq> b" using D(3) [OF assms(2), of "p @ [i]"] assms(5) by auto
  have some: "pg_words s (a + 8 * i) \<noteq> None" using a(2) assms(4) by (simp add: page_ok_def)
  have "pg_words s (b + 8 * 0) \<noteq> None" using b(2) unfolding page_ok_def by fastforce
  then have mb: "m b \<noteq> None" by (simp add: m_def)
  have al: "c mod 4096 = 0" if "c \<in> P" for c using D(1) [OF that] by (simp add: page_ok_def)
  have entry: "entry (pg_words s') c j = (if c = a \<and> j = i then ?e else entry (pg_words s) c j)"
    if "c \<in> P" "c \<noteq> b" "j \<in> {0 ..< 512}" for c j
  proof -
    have "c + 8 * j \<noteq> b" using page_addr_eq [OF al [OF that(1)] al [OF b(1)] that(3), of 0] that(2) by simp
    then have "entry (pg_words s') c j = entry m c j" by (simp add: s'_def entry_def pte_get_def)
    also have "\<dots> = (if c = a \<and> j = i then ?e else entry (pg_words s) c j)"
      unfolding m_def by (rule entry_write [OF al [OF a(1)] al [OF that(1)] assms(4) that(3)])
    finally show ?thesis .
  qed
  have fm: "free_blocks m (pg_pool s) fs"
    using free_blocks_write write_not_free [OF assms(1,2,4)] tables_ok_pool(1) [OF assms(1)] by (simp add: m_def)
  have apart: "\<forall>x \<in> set fs. x + pl_size (pg_pool s) \<le> b \<or> b + pl_size (pg_pool s) \<le> x"
  proof
    fix x assume x: "x \<in> set fs"
    then have "x \<in> P" "x \<noteq> b" using tables_ok_pool(3) [OF assms(1)] b(3) by auto
    then obtain k l where "x = 4096 * k" "b = 4096 * l" "k \<noteq> l"
      using al b(1) by (metis mod_0_imp_dvd dvdE)
    then show "x + pl_size (pg_pool s) \<le> b \<or> b + pl_size (pg_pool s) \<le> x"
      using tables_ok_pool(2) [OF assms(1)] by auto
  qed
  have b0: "b \<noteq> 0" using b(2) by (simp add: page_ok_def)
  show pf: "pool_free m (pg_pool s) b = Some (pg_words s', pg_pool s')"
    using mb b0 by (auto simp: pool_free_def write_word_def s'_def)
  have fb: "free_blocks (pg_words s') (pg_pool s') (b # fs)"
    using pool_free_cons [OF fm b0 mb apart] pf by auto
  have below: "T (p @ [i] @ [j]) = None" for j
  proof (rule ccontr)
    assume n: "T (p @ [i] @ [j]) \<noteq> None"
    then have j: "j \<in> {0 ..< 512}" using D(4) [of "p @ [i]" j] by simp
    obtain c where c: "T (p @ [i] @ [j]) = Some c" using n by auto
    then have "length (p @ [i]) < 3" using D(2) by fastforce
    from D(5) [OF assms(5) this j] show False using c assms(6) j by (simp add: child_ok_def)
  qed
  have T': "T q = Some c \<and> c \<noteq> b \<and> c \<in> P" if "?T q = Some c" for q c
  proof -
    have q: "T q = Some c" "q \<noteq> p @ [i]" using that by (auto split: if_splits)
    then have "c \<noteq> b" using D(3) [OF assms(5), of q] by auto
    then show ?thesis using q D(2) by blast
  qed
  show t: "tables_ok s' P ?T (b # fs)"
  proof (rule tables_okI)
    show "free_blocks (pg_words s') (pg_pool s') (b # fs)" by (rule fb)
    show "pl_size (pg_pool s') = 4096" "set (b # fs) \<subseteq> P" "?T [] = Some (pg_pml4 s')"
      using tables_ok_pool(2-4) [OF assms(1)] b(1) by (simp_all add: s'_def)
    show "page_ok (pg_mappings s') (pg_words s') c" if "c \<in> P" for c
      using D(1) [OF that] some mb by (simp add: s'_def m_def)
    show "no_null_page (pg_words s')" using tables_ok_pool(5) [OF assms(1)] some mb by (simp add: s'_def m_def)
    show "c \<in> P \<and> c \<notin> set (b # fs) \<and> length q \<le> 3" if "?T q = Some c" for q c
      using T' [OF that] D(2) [of q c] by simp
    show "r = q" if "?T q = Some c" "?T r = Some c" for q r c
      using D(3) [of q c r] T' [OF that(1)] T' [OF that(2)] by blast
    show "?T q \<noteq> None \<and> j \<in> {0 ..< 512}" if "?T (q @ [j]) \<noteq> None" for q j
    proof -
      have n: "T (q @ [j]) \<noteq> None" using that by (auto split: if_splits)
      then have "q \<noteq> p @ [i]" using below [of j] by auto
      then show ?thesis using D(4) [OF n] by auto
    qed
    show "child_ok (pg_mappings s') (?T (q @ [j])) (entry (pg_words s') c j)"
      if q: "?T q = Some c" "length q < 3" "j \<in> {0 ..< 512}" for q c j
    proof -
      note c = T' [OF q(1)]
      have e: "entry (pg_words s') c j = (if c = a \<and> j = i then ?e else entry (pg_words s) c j)"
        using entry c q(3) by blast
      show ?thesis
      proof (cases "q = p \<and> j = i")
        case True
        then have "c = a" using c assms(2) by simp
        then have "entry (pg_words s') c j = ?e" using e True by simp
        moreover have "?T (q @ [j]) = None" using True by simp
        ultimately show ?thesis using not_present_clear by (simp add: child_ok_def)
      next
        case False
        then have "\<not> (c = a \<and> j = i)" using D(3) [OF assms(2), of q] c by auto
        moreover have "?T (q @ [j]) = T (q @ [j])" using False by auto
        ultimately show ?thesis using D(5) [of q c j] c q(2,3) unfolding e by (auto simp: s'_def)
      qed
    qed
  qed
  have l: "leaf (pg_words s') ?T q j = leaf (pg_words s) T q j" if q: "length q = 3" "j \<in> {0 ..< 512}" for q j
  proof (cases "q = p @ [i]")
    case True
    then show ?thesis using assms(5,6) q(2) by (simp add: leaf_def)
  next
    case False
    show ?thesis
    proof (cases "T q")
      case (Some c)
      then have "c \<noteq> a" "?T q = Some c" using D(3) [OF assms(2), of q] q(1) assms(3) False by auto
      then show ?thesis using entry [of c j] T' [of q c] q(2) Some by (simp add: leaf_def)
    qed (use False in \<open>simp add: leaf_def\<close>)
  qed
  have "mmu_ok s' ?T" if mm: "mmu_ok s T"
  proof (rule mmu_ok_sub [OF mm _ _ t])
    show "pg_mappings s' = pg_mappings s" by (simp add: s'_def)
    show "?T \<subseteq>\<^sub>m T" by (auto simp: map_le_def)
    fix q c j assume q: "?T q = Some c" "?T (q @ [j]) \<noteq> None"
    then have "j \<in> {0 ..< 512}" "\<not> (q = p \<and> j = i)" using tables_okD(4) [OF t q(2)] by auto
    moreover have "\<not> (c = a \<and> q \<noteq> p)" using D(3) [OF assms(2), of q] T' [OF q(1)] by auto
    ultimately show "entry (pg_words s') c j = entry (pg_words s) c j" using entry [of c j] T' [OF q(1)] by auto
  next
    fix q j f k
    assume "length q = 3" "j \<in> {0 ..< 512}" "k \<in> {1 :: nat, 2}" "leaf (pg_words s') ?T q j = Some f" "bit f k"
    then show "path_bit (pg_words s) T q k" using mm l unfolding mmu_ok_def by metis
  qed
  then show "same_pages s T s' ?T" using l by (simp add: same_pages_def s'_def)
qed

lemma free_if_empty_obtain:
  assumes "tables_ok s P T fs" "T p = Some a" "length p < 3" "i \<in> {0 ..< 512}" "T q = Some b" "q = p @ [i]"
  obtains s' T' fs' where "free_if_empty b a i s = Some s'" "tables_ok s' P T' fs'" "same_pages s T s' T'"
    "\<forall>r. length r \<le> length p \<longrightarrow> T' r = T r"
proof (cases "\<forall>j \<in> {0 ..< 512}. \<not> present (entry (pg_words s) b j)")
  case True
  have b: "T (p @ [i]) = Some b" using assms(5,6) by simp
  have pg: "page_ok (pg_mappings s) (pg_words s) a" "page_ok (pg_mappings s) (pg_words s) b"
    using table_nonzero [OF assms(1,2)] table_nonzero [OF assms(1) b] by simp_all
  note f = free_page [OF assms(1-4) b True]
  have "pt_is_empty b (pg_words s) = Some True" using pt_is_empty_eq [OF pg(2)] True by simp
  then have "free_if_empty b a i s = Some (s\<lparr>pg_words := (pg_words s)
      (a + 8 * i \<mapsto> sint (entry (pg_words s) a i AND NOT PT_FLAG_P), b \<mapsto> pl_head (pg_pool s)),
      pg_pool := (pg_pool s)\<lparr>pl_head := b\<rparr>\<rparr>)"
    using clear_present_ok [OF pg(1) assms(4)] f(1) by (simp add: free_if_empty_def)
  then show thesis using that f(2,3) by fastforce
next
  case False
  have "page_ok (pg_mappings s) (pg_words s) b" using table_nonzero [OF assms(1,5)] by simp
  then have "pt_is_empty b (pg_words s) = Some False" using pt_is_empty_eq False by auto
  then have "free_if_empty b a i s = Some s" by (simp add: free_if_empty_def)
  then show thesis using that assms(1) same_pages_refl by blast
qed

text \<open>Clearing the entry of a page in the last level.\<close>

lemma clear_leaf_obtain:
  assumes "tables_ok s P T fs" "T p = Some a" "length p = 3" "i \<in> {0 ..< 512}"
  obtains s' where "clear_present a i (pg_words s) = Some (pg_words s')" "s\<lparr>pg_words := pg_words s'\<rparr> = s'"
    "tables_ok s' P T fs" "\<forall>q j. length q = 3 \<longrightarrow> j \<in> {0 ..< 512} \<longrightarrow>
      leaf (pg_words s') T q j = (if q = p \<and> j = i then None else leaf (pg_words s) T q j)"
    "pg_mappings s' = pg_mappings s" "pg_pml4 s' = pg_pml4 s" "mmu_ok s T \<Longrightarrow> mmu_ok s' T"
proof -
  let ?e = "entry (pg_words s) a i AND NOT PT_FLAG_P"
  let ?s = "s\<lparr>pg_words := (pg_words s)(a + 8 * i \<mapsto> sint ?e)\<rparr>"
  have pg: "page_ok (pg_mappings s) (pg_words s) a" using table_nonzero [OF assms(1,2)] by simp
  note w = write_leaf [OF assms, where e = ?e]
  show thesis
  proof (rule that [of ?s])
    show "clear_present a i (pg_words s) = Some (pg_words ?s)" using clear_present_ok [OF pg assms(4)] by simp
    show "tables_ok ?s P T fs" by (rule w(1))
    show "\<forall>q j. length q = 3 \<longrightarrow> j \<in> {0 ..< 512} \<longrightarrow>
      leaf (pg_words ?s) T q j = (if q = p \<and> j = i then None else leaf (pg_words s) T q j)"
      using w(2) not_present_clear by simp
    show "mmu_ok ?s T" if "mmu_ok s T" by (rule mmu_ok_leaf [OF assms that]) (simp add: not_present_clear)
  qed simp_all
qed

text \<open>The way of an address that is mapped.\<close>

lemma leaf_way:
  assumes "tables_ok s P T fs" "leaf (pg_words s) T [i4 v, i3 v, i2 v] (i1 v) = Some e"
  obtains pdpt pd pt where "T [i4 v] = Some pdpt" "T [i4 v, i3 v] = Some pd" "T [i4 v, i3 v, i2 v] = Some pt"
    "pte_get (pg_words s) pt (i1 v) = Some e" "present e"
proof -
  obtain pt where pt: "T [i4 v, i3 v, i2 v] = Some pt" "entry (pg_words s) pt (i1 v) = e" "present e"
    using assms(2) by (auto simp: leaf_def split: option.splits if_splits)
  obtain pd where pd: "T [i4 v, i3 v] = Some pd"
    using child_none [OF assms(1), of "[i4 v, i3 v]" "i2 v"] pt(1) by (cases "T [i4 v, i3 v]") auto
  obtain pdpt where "T [i4 v] = Some pdpt"
    using child_none [OF assms(1), of "[i4 v]" "i3 v"] pd by (cases "T [i4 v]") auto
  then show thesis
    using that pd pt pte_get_entry [OF conjunct2 [OF table_nonzero [OF assms(1) pt(1)]] PT_IDX_range [of v PT_BIT_BASE]] by auto
qed

lemma way_gets:
  assumes "tables_ok s P T fs" "T [i4 v] = Some pdpt" "T [i4 v, i3 v] = Some pd" "T [i4 v, i3 v, i2 v] = Some pt"
  shows "pt_get (pg_pml4 s) (i4 v) (pg_mappings s) (pg_words s) = Some pdpt"
    "pt_get pdpt (i3 v) (pg_mappings s) (pg_words s) = Some pd"
    "pt_get pd (i2 v) (pg_mappings s) (pg_words s) = Some pt"
    "pg_pml4 s \<noteq> 0" "pdpt \<noteq> 0" "pd \<noteq> 0" "pt \<noteq> 0"
  using pt_get_child [OF assms(1) tables_ok_pool(4) [OF assms(1)] _ PT_IDX_range, of v PML4_BIT_BASE]
    pt_get_child [OF assms(1,2) _ PT_IDX_range, of v PDPT_BIT_BASE]
    pt_get_child [OF assms(1,3) _ PT_IDX_range, of v PD_BIT_BASE] assms(2-4)
    table_nonzero [OF assms(1) tables_ok_pool(4) [OF assms(1)]] table_nonzero [OF assms(1,2)]
    table_nonzero [OF assms(1,3)] table_nonzero [OF assms(1,4)]
  by simp_all

lemma pt_unmap_mapped:
  assumes ok: "tables_ok s P T fs" and w: "pt_walk s v = Some (Some e)"
  shows "\<exists>s' T' fs'. pt_unmap v s = Some (ok, s') \<and> tables_ok s' P T' fs' \<and> pg_mappings s' = pg_mappings s \<and>
      pg_pml4 s' = pg_pml4 s \<and> (mmu_ok s T \<longrightarrow> mmu_ok s' T') \<and>
      (\<forall>w. pt_walk s' w = (if page_of w = page_of v then Some None else pt_walk s w))"
proof -
  have l: "leaf (pg_words s) T [i4 v, i3 v, i2 v] (i1 v) = Some e" using w pt_walk_leaf [OF ok] by simp
  obtain pdpt pd pt where way: "T [i4 v] = Some pdpt" "T [i4 v, i3 v] = Some pd" "T [i4 v, i3 v, i2 v] = Some pt"
    "pte_get (pg_words s) pt (i1 v) = Some e" "present e" by (rule leaf_way [OF ok l])
  note gets = way_gets [OF ok way(1-3)]
  obtain s0 where 0: "clear_present pt (i1 v) (pg_words s) = Some (pg_words s0)" "s\<lparr>pg_words := pg_words s0\<rparr> = s0"
    "tables_ok s0 P T fs" "\<forall>q j. length q = 3 \<longrightarrow> j \<in> {0 ..< 512} \<longrightarrow>
      leaf (pg_words s0) T q j = (if q = [i4 v, i3 v, i2 v] \<and> j = i1 v then None else leaf (pg_words s) T q j)"
    "pg_mappings s0 = pg_mappings s" "pg_pml4 s0 = pg_pml4 s" "mmu_ok s T \<Longrightarrow> mmu_ok s0 T"
    by (rule clear_leaf_obtain [OF ok way(3) _ PT_IDX_range [of v PT_BIT_BASE]]) (simp, rule that)
  obtain s1 T1 f1 where 1: "free_if_empty pt pd (i2 v) s0 = Some s1" "tables_ok s1 P T1 f1" "same_pages s0 T s1 T1"
    "\<forall>r. length r \<le> length [i4 v, i3 v] \<longrightarrow> T1 r = T r"
    by (rule free_if_empty_obtain [OF 0(3) way(2) _ PT_IDX_range way(3)]) (simp, simp, rule that)
  have t1: "T1 [i4 v] = Some pdpt" "T1 [i4 v, i3 v] = Some pd" using 1(4) way(1,2) by simp_all
  obtain s2 T2 f2 where 2: "free_if_empty pd pdpt (i3 v) s1 = Some s2" "tables_ok s2 P T2 f2" "same_pages s1 T1 s2 T2"
    "\<forall>r. length r \<le> length [i4 v] \<longrightarrow> T2 r = T1 r"
    by (rule free_if_empty_obtain [OF 1(2) t1(1) _ PT_IDX_range t1(2)]) (simp, simp, rule that)
  have t2: "T2 [] = Some (pg_pml4 s)" "T2 [i4 v] = Some pdpt" "pg_pml4 s2 = pg_pml4 s"
    using 2(3,4) 1(3,4) 0(6) t1 tables_ok_pool(4) [OF 2(2)] by (simp_all add: same_pages_def)
  obtain s3 T3 f3 where 3: "free_if_empty pdpt (pg_pml4 s) (i4 v) s2 = Some s3" "tables_ok s3 P T3 f3"
    "same_pages s2 T2 s3 T3" "\<forall>r. length r \<le> length ([] :: sz list) \<longrightarrow> T3 r = T2 r"
    by (rule free_if_empty_obtain [OF 2(2) t2(1) _ PT_IDX_range t2(2)]) (simp, simp, rule that)
  note same = same_pages_trans [OF same_pages_trans [OF 1(3) 2(3)] 3(3)]
  have "pt_unmap v s = Some (ok, s3)"
    using gets way(4,5) t2(3) 0(1,2) 1(1) 2(1) 3(1) PT_IDX_range [of v PT_BIT_BASE]
    by (simp add: pt_unmap_def Let_def NUM_PT_ENTRIES_def kassert_bind present_def)
  moreover have "pt_walk s3 x = (if page_of x = page_of v then Some None else pt_walk s x)" for x
    using same 0(4) [rule_format, of "[i4 x, i3 x, i2 x]" "i1 x"]
    unfolding pt_walk_leaf [OF ok] pt_walk_leaf [OF 3(2)] indices_eq [symmetric]
    by (auto simp: indices_def same_pages_def)
  moreover have "pg_mappings s3 = pg_mappings s" "pg_pml4 s3 = pg_pml4 s" using same 0(5,6) by (simp_all add: same_pages_def)
  moreover have "mmu_ok s T \<longrightarrow> mmu_ok s3 T3" using same 0(7) by (simp add: same_pages_def)
  ultimately show ?thesis using 3(2) by blast
qed

lemma pt_unmap_unmapped:
  assumes ok: "tables_ok s P T fs" and w: "pt_walk s v = Some None"
  shows "pt_unmap v s = Some (Inl EINVAL, s)"
proof -
  note root = tables_ok_pool(4) [OF ok]
  note g1 = pt_get_child [OF ok root _ PT_IDX_range, of v PML4_BIT_BASE]
  have r0: "pg_pml4 s \<noteq> 0" using table_nonzero [OF ok root] by simp
  consider "T [i4 v] = None" | pdpt where "T [i4 v] = Some pdpt" "T [i4 v, i3 v] = None"
    | pdpt pd where "T [i4 v] = Some pdpt" "T [i4 v, i3 v] = Some pd" "T [i4 v, i3 v, i2 v] = None"
    | pdpt pd pt where "T [i4 v] = Some pdpt" "T [i4 v, i3 v] = Some pd" "T [i4 v, i3 v, i2 v] = Some pt" by fastforce
  then show ?thesis
  proof cases
    case 1
    then show ?thesis using g1 r0 by (simp add: pt_unmap_def)
  next
    case 2
    then show ?thesis using g1 r0 pt_get_child [OF ok 2(1) _ PT_IDX_range, of v PDPT_BIT_BASE]
        table_nonzero [OF ok 2(1)] by (simp add: pt_unmap_def)
  next
    case 3
    then show ?thesis using g1 r0 pt_get_child [OF ok 3(1) _ PT_IDX_range, of v PDPT_BIT_BASE]
        pt_get_child [OF ok 3(2) _ PT_IDX_range, of v PD_BIT_BASE]
        table_nonzero [OF ok 3(1)] table_nonzero [OF ok 3(2)] by (simp add: pt_unmap_def)
  next
    case 4
    note gets = way_gets [OF ok 4]
    have e: "pte_get (pg_words s) pt (i1 v) = Some (entry (pg_words s) pt (i1 v))"
      by (rule pte_get_entry [OF conjunct2 [OF table_nonzero [OF ok 4(3)]] PT_IDX_range])
    have "\<not> present (entry (pg_words s) pt (i1 v))"
      using w 4(3) unfolding pt_walk_leaf [OF ok] by (simp add: leaf_def split: if_splits)
    then show ?thesis using gets e PT_IDX_range [of v PT_BIT_BASE]
      by (simp add: pt_unmap_def Let_def NUM_PT_ENTRIES_def kassert_bind present_def)
  qed
qed

section \<open>The view of the processor\<close>

text \<open>
  \<open>ram\<close> is a physical memory that holds the words of the pages of the pool where the address mappings have them. There is one,
  as different pages have different physical addresses.
\<close>

definition backs :: "ram \<Rightarrow> paging \<Rightarrow> addr set \<Rightarrow> bool" where
  "backs ram s P \<longleftrightarrow> (\<forall>b \<in> P. \<forall>f. virt_to_phys b (pg_mappings s) = Some (Inr f) \<longrightarrow>
     (\<forall>i \<in> {0 ..< 512}. ram (f + 8 * i) = pte_get (pg_words s) b i))"

definition ram_of :: "paging \<Rightarrow> ram" where
  "ram_of s x = (case phys_to_virt (x - x mod 4096) (pg_mappings s) of
     Some (Inr b) \<Rightarrow> map_option word_of_int (pg_words s (b + x mod 4096)) | _ \<Rightarrow> None)"

lemma ram_of_backs:
  assumes "tables_ok s P T fs"
  shows "backs (ram_of s) s P"
  unfolding backs_def
proof (intro ballI allI impI)
  fix b f i assume b: "b \<in> P" "virt_to_phys b (pg_mappings s) = Some (Inr f)" "i \<in> {0 ..< (512 :: int)}"
  then have f: "f mod 4096 = 0" "phys_to_virt f (pg_mappings s) = Some (Inr b)"
    using tables_okD(1) [OF assms b(1)] by (auto simp: page_ok_def frame_ok_def)
  then have "(f + 8 * i) mod 4096 = 8 * i" using b(3) by (simp add: mod_add_left_eq [of f 4096, symmetric])
  then show "ram_of s (f + 8 * i) = pte_get (pg_words s) b i" using f(2) by (simp add: ram_of_def pte_get_def)
qed

text \<open>The processor reads the entries of the tables.\<close>

lemma ram_entry:
  assumes "tables_ok s P T fs" "backs ram s P" "T p = Some a" "virt_to_phys a (pg_mappings s) = Some (Inr f)" "i \<in> {0 ..< 512}"
  shows "ram (f + 8 * i) = Some (entry (pg_words s) a i)"
proof -
  have "a \<in> P" using tables_okD(2) [OF assms(1,3)] by blast
  then have "ram (f + 8 * i) = pte_get (pg_words s) a i" using assms(2,4,5) unfolding backs_def by blast
  then show ?thesis using pte_get_entry [OF conjunct2 [OF table_nonzero [OF assms(1,3)]] assms(5)] by simp
qed

lemma mmu_step:
  assumes "tables_ok s P T fs" "mmu_ok s T" "backs ram s P" "T p = Some a" "length p < 3"
    and "virt_to_phys a (pg_mappings s) = Some (Inr f)" "bs \<noteq> []"
  shows "mmu_walk ram f v (b # bs) w u = (case T (p @ [PT_IDX v b]) of None \<Rightarrow> Some None
    | Some c \<Rightarrow> mmu_walk ram (frame_of (entry (pg_words s) a (PT_IDX v b))) v bs
        (w \<and> bit (entry (pg_words s) a (PT_IDX v b)) 1) (u \<and> bit (entry (pg_words s) a (PT_IDX v b)) 2))"
proof -
  have i: "v div 2 ^ b mod 512 = PT_IDX v b" unfolding PT_IDX_eq by (simp add: take_bit_eq_mod drop_bit_eq_div)
  note c = tables_okD(5) [OF assms(1,4,5) PT_IDX_range, of v b] and e = ram_entry [OF assms(1,3,4,6) PT_IDX_range, of v b]
  show ?thesis
  proof (cases "T (p @ [PT_IDX v b])")
    case None
    then show ?thesis using c e by (simp add: i child_ok_def present_bit)
  next
    case (Some d)
    then have "\<not> bit (entry (pg_words s) a (PT_IDX v b)) 7" using assms(2,4,5) unfolding mmu_ok_def by blast
    then show ?thesis using c e Some assms(7) by (simp add: i child_ok_def present_bit)
  qed
qed

text \<open>The flags of the last entry decide: the flags on its way are set if they are needed.\<close>

definition decode :: "addr \<Rightarrow> u64 \<Rightarrow> translation" where
  "decode v e = page_translation e v (bit e 1) (bit e 2)"

lemma decode_pte:
  assumes "rw_us perms" "0 \<le> p" "p < 2 ^ 52" "p mod 4096 = 0"
  shows "decode v (pte_from_paddr p perms mt) =
    \<lparr>tr_paddr = p + v mod 4096, tr_writable = bit perms 1, tr_user = bit perms 2, tr_caching = cache_type mt\<rparr>"
  using page_of_pte(2) [OF assms] bit_mem_type(1,2) by (simp add: decode_def bit_pte)

lemma mmu_view:
  assumes "tables_ok s P T fs" "mmu_ok s T" "backs ram s P" "virt_to_phys (pg_pml4 s) (pg_mappings s) = Some (Inr root)"
  shows "mmu ram root v = map_option (map_option (decode v)) (pt_walk s v)"
proof -
  have b: "39 = PML4_BIT_BASE" "30 = PDPT_BIT_BASE" "21 = PD_BIT_BASE" "12 = PT_BIT_BASE"
    by (simp_all add: PML4_BIT_BASE_def PDPT_BIT_BASE_def PD_BIT_BASE_def PT_BIT_BASE_def)
  note r = tables_ok_pool(4) [OF assms(1)] and w = pt_walk_leaf [OF assms(1), of v]
  note s4 = mmu_step [OF assms(1-3) r _ assms(4), of "[PDPT_BIT_BASE, PD_BIT_BASE, PT_BIT_BASE]" v PML4_BIT_BASE]
  have below: "virt_to_phys d (pg_mappings s) = Some (Inr (frame_of (entry (pg_words s) c i)))"
    if "T p = Some c" "length p < 3" "T (p @ [i]) = Some d" for p c i d using assms(2) that unfolding mmu_ok_def by blast
  show ?thesis
  proof (cases "T [i4 v]")
    case None
    then have "T [i4 v, i3 v, i2 v] = None"
      using child_none [OF assms(1), of "[i4 v]" "i3 v"] child_none [OF assms(1), of "[i4 v, i3 v]" "i2 v"] by simp
    then show ?thesis using s4 w None by (simp add: mmu_def b leaf_def del: mmu_walk.simps)
  next
    case T4: (Some pdpt)
    note s3 = mmu_step [OF assms(1-3) T4 _ below [OF r], of "i4 v" "[PD_BIT_BASE, PT_BIT_BASE]" v PDPT_BIT_BASE]
    show ?thesis
    proof (cases "T [i4 v, i3 v]")
      case None
      then have "T [i4 v, i3 v, i2 v] = None" using child_none [OF assms(1), of "[i4 v, i3 v]" "i2 v"] by simp
      then show ?thesis using s4 s3 w T4 None by (simp add: mmu_def b leaf_def del: mmu_walk.simps)
    next
      case T3: (Some pd)
      note s2 = mmu_step [OF assms(1-3) T3 _ below [OF T4], of "i3 v" "[PT_BIT_BASE]" v PD_BIT_BASE]
      show ?thesis
      proof (cases "T [i4 v, i3 v, i2 v]")
        case None
        then show ?thesis using s4 s3 s2 w T4 T3 by (simp add: mmu_def b leaf_def del: mmu_walk.simps)
      next
        case T2: (Some pt)
        let ?e = "entry (pg_words s) pt (i1 v)"
        have e: "ram (frame_of (entry (pg_words s) pd (i2 v)) + 8 * i1 v) = Some ?e"
          by (rule ram_entry [OF assms(1,3) T2 _ PT_IDX_range]) (rule below [OF T3]; simp add: T2)
        have i: "v div 2 ^ PT_BIT_BASE mod 512 = i1 v" unfolding PT_IDX_eq by (simp add: take_bit_eq_mod drop_bit_eq_div)
        have flag: "bit (entry (pg_words s) (pg_pml4 s) (i4 v)) k \<and> bit (entry (pg_words s) pdpt (i3 v)) k \<and> bit (entry (pg_words s) pd (i2 v)) k"
          if "present ?e" "bit ?e k" "k \<in> {1, 2}" for k
        proof -
          have "leaf (pg_words s) T [i4 v, i3 v, i2 v] (i1 v) = Some ?e" using that(1) T2 by (simp add: leaf_def)
          moreover have "length [i4 v, i3 v, i2 v] = 3" by simp
          ultimately have "path_bit (pg_words s) T [i4 v, i3 v, i2 v] k"
            using assms(2) that(2,3) PT_IDX_range [of v PT_BIT_BASE] unfolding mmu_ok_def by blast
          then show ?thesis using path_bit3D [OF _ r T4 T3] by blast
        qed
        let ?f = "\<lambda>k. bit (entry (pg_words s) (pg_pml4 s) (i4 v)) k \<and> bit (entry (pg_words s) pdpt (i3 v)) k \<and> bit (entry (pg_words s) pd (i2 v)) k"
        have "mmu ram root v = mmu_walk ram (frame_of (entry (pg_words s) pd (i2 v))) v [PT_BIT_BASE] (?f 1) (?f 2)"
          using s4 s3 s2 T4 T3 T2 by (simp add: mmu_def b del: mmu_walk.simps)
        also have "\<dots> = Some (if present ?e then Some (page_translation ?e v (?f 1 \<and> bit ?e 1) (?f 2 \<and> bit ?e 2)) else None)"
          using e by (simp add: i present_bit)
        also have "\<dots> = Some (map_option (decode v) (leaf (pg_words s) T [i4 v, i3 v, i2 v] (i1 v)))"
        proof -
          have "(?f k \<and> bit ?e k) = bit ?e k" if "present ?e" "k \<in> {1, 2}" for k using flag [of k] that by blast
          then show ?thesis using T2 by (simp add: leaf_def decode_def)
        qed
        finally show ?thesis using w by simp
      qed
    qed
  qed
qed

lemma mmu_ok_mappings:
  assumes "tables_ok s P T fs" "mmu_ok s T" "\<And>b. b \<in> P \<Longrightarrow> virt_to_phys b ms = virt_to_phys b (pg_mappings s)"
  shows "mmu_ok (s\<lparr>pg_mappings := ms\<rparr>) T"
  using assms(2) assms(3) tables_okD(2) [OF assms(1)] unfolding mmu_ok_def by simp

lemma backs_mappings:
  assumes "\<And>b. b \<in> P \<Longrightarrow> virt_to_phys b ms = virt_to_phys b (pg_mappings s)"
  shows "backs ram (s\<lparr>pg_mappings := ms\<rparr>) P = backs ram s P"
  using assms unfolding backs_def by simp

end
