(* ===== verification/PagingTable.thy ===== *)
theory PagingTable
  imports Paging
begin

text \<open>
  The table of the address mappings. Its used entries, in their order, decide the translations.
  No two of them share a virtual address, so a virtual address has at most one translation; for the
  physical addresses there is no such invariant.
\<close>

section \<open>The used entries\<close>

definition used :: "mappings \<Rightarrow> addr_mapping list" where
  "used ms = map snd (filter fst ms)"

lemma used_simps [simp]: "used [] = []" "used ((True, m) # ms) = m # used ms" "used ((False, m) # ms) = used ms"
  "used (xs @ ys) = used xs @ used ys"
  by (simp_all add: used_def)

definition at_virt :: "addr \<Rightarrow> addr_mapping \<Rightarrow> bool" where
  "at_virt v m \<longleftrightarrow> IN_RANGE v (am_vbase m) (am_len m)"

definition at_phys :: "addr \<Rightarrow> addr_mapping \<Rightarrow> bool" where
  "at_phys p m \<longleftrightarrow> IN_RANGE p (am_pbase m) (am_len m)"

abbreviation "canonical_map m \<equiv> am_type m = ADDR_MAPPING_TYPE_CANONICAL"

definition last_or :: "'a option \<Rightarrow> 'a list \<Rightarrow> 'a option" where
  "last_or c xs = (if xs = [] then c else Some (last xs))"

lemma last_or_simps [simp]: "last_or c [] = c" "last_or c (x # xs) = last_or (Some x) xs"
  by (simp_all add: last_or_def)

lemma virt_loop_eq:
  "virt_loop v ms c n = (last_or c (filter (at_virt v) (used ms)), n + length (filter (at_virt v) (used ms)))"
proof (induction v ms c n rule: virt_loop.induct)
  case (2 v is_used m ms c n)
  then show ?case by (cases is_used) (simp_all add: at_virt_def)
qed simp

definition phys_canonical :: "addr \<Rightarrow> mappings \<Rightarrow> addr_mapping list" where
  "phys_canonical p ms = filter (\<lambda>m. at_phys p m \<and> canonical_map m) (used ms)"

definition phys_alias :: "addr \<Rightarrow> mappings \<Rightarrow> addr_mapping list" where
  "phys_alias p ms = filter (\<lambda>m. at_phys p m \<and> \<not> canonical_map m) (used ms)"

lemma phys_loop_eq:
  "phys_loop p ms c a nc na = (last_or c (phys_canonical p ms), last_or a (phys_alias p ms),
     nc + length (phys_canonical p ms), na + length (phys_alias p ms))"
proof (induction p ms c a nc na rule: phys_loop.induct)
  case (2 p is_used m ms c a nc na)
  then show ?case by (cases is_used) (simp_all add: phys_canonical_def phys_alias_def at_phys_def)
qed (simp add: phys_canonical_def phys_alias_def)

text \<open>The translations see the used entries only.\<close>

lemma virt_to_phys_used: "used ms = used ms' \<Longrightarrow> virt_to_phys v ms = virt_to_phys v ms'"
  by (simp add: virt_to_phys_def virt_loop_eq)

lemma phys_to_virt_used: "used ms = used ms' \<Longrightarrow> phys_to_virt p ms = phys_to_virt p ms'"
  by (simp add: phys_to_virt_def phys_loop_eq phys_canonical_def phys_alias_def)

text \<open>An entry that does not hold the address changes nothing.\<close>

lemma virt_to_phys_other:
  "used ms = us @ vs \<Longrightarrow> used ms' = us @ m # vs \<Longrightarrow> \<not> at_virt v m \<Longrightarrow> virt_to_phys v ms' = virt_to_phys v ms"
  by (simp add: virt_to_phys_def virt_loop_eq)

lemma phys_to_virt_other:
  "used ms = us @ vs \<Longrightarrow> used ms' = us @ m # vs \<Longrightarrow> \<not> at_phys p m \<Longrightarrow> phys_to_virt p ms' = phys_to_virt p ms"
  by (simp add: phys_to_virt_def phys_loop_eq phys_canonical_def phys_alias_def)

section \<open>Adding and removing\<close>

lemma v_overlap_sym: "v_overlap a b \<longleftrightarrow> v_overlap b a"
  by (auto simp: v_overlap_def intervals_overlap_def)

lemma v_overlap_at: "at_virt v a \<Longrightarrow> at_virt v b \<Longrightarrow> v_overlap a b"
  by (auto simp: v_overlap_def intervals_overlap_def at_virt_def IN_RANGE_def)

lemma count_conflicts_apart:
  "count_conflicts new ms nc na = Some r \<Longrightarrow> \<forall>m \<in> set (used ms). \<not> v_overlap new m"
proof (induction new ms nc na rule: count_conflicts.induct)
  case (2 new is_used m ms nc na)
  show ?case
  proof (cases is_used)
    case True
    then have "\<not> v_overlap new m" using 2(5) by (cases "v_overlap new m") simp_all
    moreover have "\<forall>m \<in> set (used ms). \<not> v_overlap new m"
      using 2(5) True calculation 2(1-3) [OF True calculation] 2(4) True
      by (cases "p_overlap new m"; cases "am_type m") simp_all
    ultimately show ?thesis using True by simp
  qed (use 2(4,5) in simp)
qed simp

lemma take_slot_used:
  "take_slot new ms = Some ms' \<Longrightarrow> \<exists>us vs. used ms = us @ vs \<and> used ms' = us @ new # vs"
proof (induction new ms arbitrary: ms' rule: take_slot.induct)
  case (2 new is_used m ms)
  show ?case
  proof (cases is_used)
    case True
    then obtain ns where ns: "take_slot new ms = Some ns" "ms' = (True, m) # ns" using 2(2) by auto
    then obtain us vs where "used ms = us @ vs" "used ns = us @ new # vs" using 2(1) True by blast
    then have "used ((is_used, m) # ms) = (m # us) @ vs" "used ms' = (m # us) @ new # vs" using ns(2) True by simp_all
    then show ?thesis by blast
  next
    case False
    then have "used ((is_used, m) # ms) = [] @ used ms" "used ms' = [] @ new # used ms" using 2(2) by auto
    then show ?thesis by blast
  qed
qed simp

lemma add_used:
  assumes "add_addr_mapping new ms = (ok, ms')"
  shows "(\<exists>us vs. used ms = us @ vs \<and> used ms' = us @ new # vs) \<and> (\<forall>m \<in> set (used ms). \<not> v_overlap new m)"
proof -
  obtain nc na where c: "count_conflicts new ms 0 0 = Some (nc, na)"
    using assms by (auto simp: add_addr_mapping_def split: option.splits)
  then have "take_slot new ms = Some ms'"
    using assms by (auto simp: add_addr_mapping_def split: option.splits if_splits)
  then show ?thesis using take_slot_used count_conflicts_apart [OF c] by blast
qed

lemma add_error: "add_addr_mapping new ms = (Inl e, ms') \<Longrightarrow> ms' = ms"
  by (auto simp: add_addr_mapping_def split: option.splits if_splits)

lemma remove_used:
  "remove_addr_mapping x ms = (ok, ms') \<Longrightarrow>
     \<exists>us m vs. used ms = us @ m # vs \<and> used ms' = us @ vs \<and> same_region m x \<and> (\<forall>u \<in> set us. \<not> same_region u x)"
proof (induction x ms arbitrary: ms' rule: remove_addr_mapping.induct)
  case (2 x is_used m ms)
  show ?case
  proof (cases "is_used \<and> same_region m x")
    case True
    then have "used ((is_used, m) # ms) = [] @ m # used ms" "used ms' = [] @ used ms" using 2(2) by auto
    then show ?thesis using True by (metis empty_iff list.set(1))
  next
    case False
    obtain r ns where ns: "remove_addr_mapping x ms = (r, ns)" by (cases "remove_addr_mapping x ms")
    have e: "remove_addr_mapping x ((is_used, m) # ms) = (r, (is_used, m) # ns)"
      unfolding remove_addr_mapping.simps if_not_P [OF False] by (simp add: ns)
    then have r: "r = ok" "ms' = (is_used, m) # ns" using 2(2) by simp_all
    obtain us y vs where u: "used ms = us @ y # vs" "used ns = us @ vs" "same_region y x" "\<forall>u \<in> set us. \<not> same_region u x"
      using 2(1) [OF False] ns r(1) by blast
    show ?thesis
    proof (cases is_used)
      case True
      then have "used ((is_used, m) # ms) = (m # us) @ y # vs" "used ms' = (m # us) @ vs" using u r(2) by simp_all
      moreover have "\<forall>u \<in> set (m # us). \<not> same_region u x" using u(4) True False by simp
      ultimately show ?thesis using u(3) by blast
    next
      case F: False
      then show ?thesis using u r(2) by auto
    qed
  qed
qed simp

lemma remove_error: "remove_addr_mapping x ms = (Inl e, ms') \<Longrightarrow> ms' = ms"
proof (induction x ms arbitrary: ms' rule: remove_addr_mapping.induct)
  case (2 x is_used m ms)
  have F: "\<not> (is_used \<and> same_region m x)" using 2(2) by auto
  obtain r ns where ns: "remove_addr_mapping x ms = (r, ns)" by (cases "remove_addr_mapping x ms")
  have "remove_addr_mapping x ((is_used, m) # ms) = (r, (is_used, m) # ns)"
    unfolding remove_addr_mapping.simps if_not_P [OF F] by (simp add: ns)
  then show ?case using 2(1) [OF F] 2(2) ns by auto
qed simp

lemma remove_finds: "m \<in> set (used ms) \<Longrightarrow> same_region m x \<Longrightarrow> \<exists>ms'. remove_addr_mapping x ms = (ok, ms')"
proof (induction x ms rule: remove_addr_mapping.induct)
  case (2 x is_used y ms)
  show ?case
  proof (cases "is_used \<and> same_region y x")
    case False
    then have "m \<in> set (used ms)" using 2(2,3) by (cases is_used) auto
    then obtain ms' where "remove_addr_mapping x ms = (ok, ms')" using 2(1) [OF False] 2(3) by blast
    then show ?thesis unfolding remove_addr_mapping.simps if_not_P [OF False] by simp
  qed simp
qed simp

section \<open>The invariant\<close>

definition virt_apart :: "mappings \<Rightarrow> bool" where
  "virt_apart ms \<longleftrightarrow> sorted_wrt (\<lambda>a b. \<not> v_overlap a b) (used ms)"

lemma virt_apart_add: "virt_apart ms \<Longrightarrow> virt_apart (snd (add_addr_mapping new ms))"
proof -
  assume v: "virt_apart ms"
  obtain r ms' where a: "add_addr_mapping new ms = (r, ms')" by (cases "add_addr_mapping new ms")
  show ?thesis
  proof (cases r)
    case (Inl e)
    then show ?thesis using a v add_error by fastforce
  next
    case (Inr x)
    then obtain us vs where "used ms = us @ vs" "used ms' = us @ new # vs" "\<forall>m \<in> set (used ms). \<not> v_overlap new m"
      using add_used [of new ms ms'] a by auto
    then show ?thesis using v a v_overlap_sym by (auto simp: virt_apart_def sorted_wrt_append)
  qed
qed

lemma virt_apart_remove: "virt_apart ms \<Longrightarrow> virt_apart (snd (remove_addr_mapping x ms))"
proof -
  assume v: "virt_apart ms"
  obtain r ms' where a: "remove_addr_mapping x ms = (r, ms')" by (cases "remove_addr_mapping x ms")
  show ?thesis
  proof (cases r)
    case (Inl e)
    then show ?thesis using a v remove_error by fastforce
  next
    case (Inr y)
    then obtain us m vs where "used ms = us @ m # vs" "used ms' = us @ vs"
      using remove_used [of x ms ms'] a by auto
    then show ?thesis using v a by (auto simp: virt_apart_def sorted_wrt_append)
  qed
qed

lemma virt_apart_hits:
  assumes "virt_apart ms"
  shows "filter (at_virt v) (used ms) = (case find (at_virt v) (used ms) of None \<Rightarrow> [] | Some m \<Rightarrow> [m])"
proof -
  have s: "sorted_wrt (\<lambda>a b. \<not> v_overlap a b) (used ms)" using assms by (simp add: virt_apart_def)
  then show ?thesis
  proof (induction "used ms" arbitrary: ms)
    case (Cons m us)
    have us: "us = used (map (Pair True) us)" by (induction us) auto
    have s': "sorted_wrt (\<lambda>a b. \<not> v_overlap a b) us" "\<forall>b \<in> set us. \<not> v_overlap m b" using Cons(3) by (simp_all flip: Cons(2))
    have "filter (at_virt v) us = []" if "at_virt v m"
      using s'(2) v_overlap_at [OF that] by (auto simp: filter_empty_conv)
    then show ?case using Cons(1) [OF us] s'(1) us by (simp flip: Cons(2))
  qed simp
qed

lemma virt_to_phys_find:
  assumes "virt_apart ms"
  shows "virt_to_phys v ms = Some (if v = 0 then Inr 0 else
    case find (at_virt v) (used ms) of None \<Rightarrow> Inl EINVAL | Some m \<Rightarrow> Inr (am_pbase m + (v - am_vbase m)))"
  using virt_apart_hits [OF assms, of v] by (simp add: virt_to_phys_def virt_loop_eq split: option.splits)

text \<open>Any history of the table, from its start.\<close>

datatype mapping_op = AddMapping addr_mapping | RemoveMapping addr_mapping

fun run_mapping_op :: "mapping_op \<Rightarrow> mappings \<Rightarrow> mappings" where
  "run_mapping_op (AddMapping m) ms = snd (add_addr_mapping m ms)"
| "run_mapping_op (RemoveMapping m) ms = snd (remove_addr_mapping m ms)"

definition no_mappings :: "addr_mapping \<Rightarrow> mappings" where
  "no_mappings m = replicate NUM_ADDR_MAPPINGS (False, m)"

lemma virt_apart_history: "virt_apart (fold run_mapping_op ops (no_mappings m))"
proof -
  have "used (replicate n (False, m)) = []" for n by (induction n) auto
  then have "virt_apart (no_mappings m)" by (simp add: virt_apart_def no_mappings_def)
  then show ?thesis
  proof (induction ops arbitrary: m rule: rev_induct)
    case (snoc oper ops)
    then show ?case by (cases oper) (simp_all add: virt_apart_add virt_apart_remove)
  qed simp
qed

text \<open>
  C17: The assertion in \<open>virt_to_phys\<close> never fails: after any sequence of \<open>add_addr_mapping\<close> and
  \<open>remove_addr_mapping\<close>, accepted or refused, a virtual address other than NULL is translated by the
  only mapping that holds it, and there is the error \<open>EINVAL\<close> if there is none.
\<close>

theorem virt_to_phys_history:
  "virt_to_phys v (fold run_mapping_op ops (no_mappings m)) = Some (if v = 0 then Inr 0 else
    case find (at_virt v) (used (fold run_mapping_op ops (no_mappings m))) of
      None \<Rightarrow> Inl EINVAL | Some m \<Rightarrow> Inr (am_pbase m + (v - am_vbase m)))"
  by (rule virt_to_phys_find [OF virt_apart_history])

section \<open>Physical addresses\<close>

text \<open>
  The type of the mapping that is added does not count for \<open>add_addr_mapping\<close>. So a second canonical
  mapping of the same physical addresses is accepted, and from then on \<open>phys_to_virt\<close> stops
  the machine at the assertion of its invariant, for each address that is in both.
\<close>

theorem second_canonical_halts:
  assumes "canonical_map a" "canonical_map b" "\<not> v_overlap b a" "at_phys p a" "at_phys p b" "p \<noteq> 0"
  shows "\<exists>ms ms'. add_addr_mapping a (no_mappings m) = (ok, ms) \<and> phys_to_virt p ms \<noteq> None \<and>
    add_addr_mapping b ms = (ok, ms') \<and> phys_to_virt p ms' = None"
proof -
  let ?e = "(False, m)"
  have n: "no_mappings m = ?e # ?e # replicate 30 ?e" by (simp add: no_mappings_def NUM_ADDR_MAPPINGS_def numeral_eq_Suc)
  have u: "used (replicate k ?e) = []" for k by (induction k) auto
  have c: "count_conflicts x (replicate k ?e) nc na = Some (nc, na)" for x k nc na by (induction k) auto
  let ?ms = "(True, a) # ?e # replicate 30 ?e" and ?ms' = "(True, a) # (True, b) # replicate 30 ?e"
  have "p_overlap b a" using assms(4,5) by (auto simp: p_overlap_def intervals_overlap_def at_phys_def IN_RANGE_def)
  then have "add_addr_mapping a (no_mappings m) = (ok, ?ms)" "add_addr_mapping b ?ms = (ok, ?ms')"
    using c [of _ 30] assms(1,3) unfolding n by (simp_all add: add_addr_mapping_def)
  moreover have "phys_to_virt p ?ms \<noteq> None" "phys_to_virt p ?ms' = None"
    using assms u [of 30] by (simp_all add: phys_to_virt_def phys_loop_eq phys_canonical_def phys_alias_def kassert_def)
  ultimately show ?thesis by blast
qed

definition sample_mapping :: "addr \<Rightarrow> addr \<Rightarrow> addr_mapping" where
  "sample_mapping v p = \<lparr>am_type = ADDR_MAPPING_TYPE_CANONICAL, am_mem_type = ADDR_MAPPING_MEMORY_WRITE_BACK,
     am_perms = 2, am_vbase = v, am_pbase = p, am_len = 4096\<rparr>"

theorem second_canonical_halts_witness:
  "\<exists>ms ms'. add_addr_mapping (sample_mapping 0x1000 0x8000) (no_mappings (sample_mapping 0 0)) = (ok, ms) \<and>
    phys_to_virt 0x8010 ms \<noteq> None \<and> add_addr_mapping (sample_mapping 0x2000 0x8000) ms = (ok, ms') \<and>
    phys_to_virt 0x8010 ms' = None"
  by (rule second_canonical_halts)
    (simp_all add: sample_mapping_def v_overlap_def intervals_overlap_def at_phys_def IN_RANGE_def)

end
