(* ===== verification/PagingProps.thy ===== *)
theory PagingProps
  imports PagingMap PagingTable
begin

text \<open>
  What the page tables promise: mapping and unmapping of pages and of regions as updates of what the kernel's lookup (\<open>pt_walk\<close>)
  and the processor (\<open>mmu\<close>) find, the translations in between, and what is left to go wrong.
\<close>

section \<open>Changing the mappings under the tables\<close>

lemma tables_ok_mappings:
  assumes "tables_ok s P T fs"
    "\<And>b. b \<in> P \<Longrightarrow> virt_to_phys b ms = virt_to_phys b (pg_mappings s)"
    "\<And>x b. b \<in> P \<Longrightarrow> phys_to_virt x (pg_mappings s) = Some (Inr b) \<Longrightarrow> phys_to_virt x ms = Some (Inr b)"
  shows "tables_ok (s\<lparr>pg_mappings := ms\<rparr>) P T fs"
proof (rule tables_okI)
  note D = tables_okD [OF assms(1)]
  show "page_ok (pg_mappings (s\<lparr>pg_mappings := ms\<rparr>)) (pg_words (s\<lparr>pg_mappings := ms\<rparr>)) b" if b: "b \<in> P" for b
  proof -
    have p: "page_ok (pg_mappings s) (pg_words s) b" by (rule D(1) [OF b])
    then obtain p where "frame_ok p" "virt_to_phys b (pg_mappings s) = Some (Inr p)"
      "phys_to_virt p (pg_mappings s) = Some (Inr b)" by (auto simp: page_ok_def)
    then have "frame_ok p \<and> virt_to_phys b ms = Some (Inr p) \<and> phys_to_virt p ms = Some (Inr b)"
      using assms(2,3) b by simp
    then show ?thesis using p by (auto simp: page_ok_def)
  qed
  show "child_ok (pg_mappings (s\<lparr>pg_mappings := ms\<rparr>)) (T (p @ [i])) (entry (pg_words (s\<lparr>pg_mappings := ms\<rparr>)) a i)"
    if "T p = Some a" "length p < 3" "i \<in> {0 ..< 512}" for p a i
    using D(5) [OF that] D(2) [of "p @ [i]"] assms(3) by (auto simp: child_ok_def split: option.splits)
  show "q = p" if "T p = Some a" "T q = Some a" for p q a using D(3) [OF that] .
  show "a \<in> P \<and> a \<notin> set fs \<and> length p \<le> 3" if "T p = Some a" for p a using D(2) [OF that] .
  show "T p \<noteq> None \<and> i \<in> {0 ..< 512}" if "T (p @ [i]) \<noteq> None" for p i using D(4) [OF that] .
qed (use tables_ok_pool [OF assms(1)] in simp_all)

lemma walk_mappings:
  "tables_ok s P T fs \<Longrightarrow> tables_ok (s\<lparr>pg_mappings := ms\<rparr>) P T fs \<Longrightarrow> pt_walk (s\<lparr>pg_mappings := ms\<rparr>) v = pt_walk s v"
  using pt_walk_leaf [of s P T fs v] pt_walk_leaf [of "s\<lparr>pg_mappings := ms\<rparr>" P T fs v] by simp

text \<open>The new mapping holds none of the physical addresses of the tables.\<close>

definition apart_from :: "addr set \<Rightarrow> mappings \<Rightarrow> addr_mapping \<Rightarrow> bool" where
  "apart_from P ms m \<longleftrightarrow> (\<forall>x b. b \<in> P \<longrightarrow> phys_to_virt x ms = Some (Inr b) \<longrightarrow> \<not> at_phys x m)"

lemma virt_to_phys_hit:
  assumes "virt_to_phys b ms = Some (Inr p)" "b \<noteq> 0"
  shows "\<exists>m \<in> set (used ms). at_virt b m"
proof (rule ccontr)
  assume "\<not> ?thesis"
  then have "filter (at_virt b) (used ms) = []" by (auto simp: filter_empty_conv)
  then show False using assms by (simp add: virt_to_phys_def virt_loop_eq kassert_def)
qed

lemma new_not_at:
  assumes "page_ok ms m b" "\<forall>x \<in> set (used ms). \<not> v_overlap new x"
  shows "\<not> at_virt b new"
proof -
  obtain p where "virt_to_phys b ms = Some (Inr p)" "b \<noteq> 0" using assms(1) by (auto simp: page_ok_def)
  then obtain x where "x \<in> set (used ms)" "at_virt b x" using virt_to_phys_hit by blast
  then show ?thesis using assms(2) v_overlap_at by blast
qed

lemma add_keeps_virt:
  assumes "tables_ok s P T fs" "add_addr_mapping new (pg_mappings s) = (ok, ms)" "b \<in> P"
  shows "virt_to_phys b ms = virt_to_phys b (pg_mappings s)"
proof -
  obtain us vs where u: "used (pg_mappings s) = us @ vs" "used ms = us @ new # vs"
    "\<forall>m \<in> set (used (pg_mappings s)). \<not> v_overlap new m" using add_used [OF assms(2)] by blast
  have "\<not> at_virt b new" using new_not_at [OF _ u(3)] tables_okD(1) [OF assms(1,3)] by blast
  then show ?thesis by (rule virt_to_phys_other [OF u(1,2)])
qed

lemma mmu_ok_region:
  assumes "tables_ok s P T fs" "mmu_ok s T" "add_addr_mapping new (pg_mappings s) = (ok, ms)"
  shows "mmu_ok (s\<lparr>pg_mappings := ms\<rparr>) T" "backs ram (s\<lparr>pg_mappings := ms\<rparr>) P = backs ram s P"
    "\<And>b. b \<in> P \<Longrightarrow> virt_to_phys b ms = virt_to_phys b (pg_mappings s)"
proof -
  show v: "virt_to_phys b ms = virt_to_phys b (pg_mappings s)" if "b \<in> P" for b using add_keeps_virt [OF assms(1,3) that] .
  show "mmu_ok (s\<lparr>pg_mappings := ms\<rparr>) T" by (rule mmu_ok_mappings [OF assms(1,2) v])
  show "backs ram (s\<lparr>pg_mappings := ms\<rparr>) P = backs ram s P" by (rule backs_mappings [OF v])
qed

lemma add_keeps_tables:
  assumes "tables_ok s P T fs" "add_addr_mapping new (pg_mappings s) = (ok, ms)" "apart_from P (pg_mappings s) new"
  shows "tables_ok (s\<lparr>pg_mappings := ms\<rparr>) P T fs"
proof -
  obtain us vs where u: "used (pg_mappings s) = us @ vs" "used ms = us @ new # vs"
    "\<forall>m \<in> set (used (pg_mappings s)). \<not> v_overlap new m" using add_used [OF assms(2)] by blast
  show ?thesis
  proof (rule tables_ok_mappings [OF assms(1)])
    show "virt_to_phys b ms = virt_to_phys b (pg_mappings s)" if "b \<in> P" for b by (rule add_keeps_virt [OF assms(1,2) that])
  next
    fix x b assume "b \<in> P" "phys_to_virt x (pg_mappings s) = Some (Inr b)"
    then have "\<not> at_phys x new" using assms(3) by (auto simp: apart_from_def)
    then show "phys_to_virt x ms = Some (Inr b)"
      using phys_to_virt_other [OF u(1,2)] \<open>phys_to_virt x (pg_mappings s) = Some (Inr b)\<close> by simp
  qed
qed

lemma at_shift: "at_phys x m \<Longrightarrow> at_virt (am_vbase m + (x - am_pbase m)) m"
  by (simp add: at_phys_def at_virt_def IN_RANGE_def)

text \<open>Without the new mapping, the addresses that it does not hold are translated as before.\<close>

lemma phys_to_virt_without:
  assumes "used ms = us @ vs" "used ms' = us @ m # vs" "phys_to_virt x ms' = Some (Inr b)" "\<not> at_virt b m"
  shows "phys_to_virt x ms = Some (Inr b)"
proof (cases "x = 0 \<or> \<not> at_phys x m")
  case True
  then show ?thesis using phys_to_virt_other [OF assms(1,2), of x] assms(3) by (auto simp: phys_to_virt_def)
next
  case False
  let ?c = "filter (\<lambda>m. at_phys x m \<and> canonical_map m)" and ?a = "filter (\<lambda>m. at_phys x m \<and> \<not> canonical_map m)"
  have b: "b \<noteq> am_vbase m + (x - am_pbase m)" using at_shift [of x m] False assms(4) by auto
  show ?thesis
  proof (cases "canonical_map m")
    case True
    then have "?c us = [] \<and> ?c vs = []"
      using assms(3) False by (auto simp: phys_to_virt_def phys_loop_eq phys_canonical_def assms(2) kassert_def split: if_splits)
    then show ?thesis using assms(3) False True b
      by (simp add: phys_to_virt_def phys_loop_eq phys_canonical_def phys_alias_def assms(2) kassert_def last_or_def)
  next
    case F: False
    show ?thesis
    proof (cases "?c us = [] \<and> ?c vs = []")
      case True
      then have "?a us = [] \<and> ?a vs = []" using assms(3) False F
        by (auto simp: phys_to_virt_def phys_loop_eq phys_canonical_def phys_alias_def assms(2) kassert_def split: if_splits)
      then show ?thesis using assms(3) False F True b
        by (simp add: phys_to_virt_def phys_loop_eq phys_canonical_def phys_alias_def assms(2) kassert_def last_or_def)
    next
      case c: False
      then have n: "length (?c us) + length (?c vs) = 1" "?c us @ ?c vs \<noteq> []" using assms(3) False F
        by (auto simp: phys_to_virt_def phys_loop_eq phys_canonical_def phys_alias_def assms(2) kassert_def split: if_splits)
      then show ?thesis using assms(3) False F
        by (auto simp: phys_to_virt_def phys_loop_eq phys_canonical_def phys_alias_def assms(1,2) kassert_def last_or_def
            split: if_splits)
    qed
  qed
qed

lemma walk_page: "page_of w = page_of v \<Longrightarrow> pt_walk s w = pt_walk s v"
proof -
  assume "page_of w = page_of v"
  then have "i4 w = i4 v" "i3 w = i3 v" "i2 w = i2 v" "i1 w = i1 v"
    using indices_eq [of w v] by (simp_all add: indices_def)
  then show ?thesis by (simp only: pt_walk_def)
qed

section \<open>Single pages\<close>

text \<open>
  C11: \<open>pt_map\<close> with three free pages in the pool: it succeeds, whatever levels of the tables are missing. The processor, whose
  walk through the physical memory is \<^const>\<open>mmu\<close>, then translates every address in the page to the given physical page, writable and
  open for user mode exactly as the flags say, with the given memory type; all other addresses it translates as before, with
  the same rights. The tables stay well-formed. The flags are any of RW and US.
\<close>

theorem pt_map_refines:
  assumes "tables_ok s P T fs" "mmu_ok s T" "rw_us perms" "3 \<le> length fs" "0 \<le> p" "p < 2 ^ 52" "p mod 4096 = 0"
    and "virt_to_phys (pg_pml4 s) (pg_mappings s) = Some (Inr root)"
  shows "\<exists>s' T' fs'. pt_map v p perms mt s = Some (ok, s') \<and> tables_ok s' P T' fs' \<and> mmu_ok s' T' \<and>
    pg_mappings s' = pg_mappings s \<and> pg_pml4 s' = pg_pml4 s \<and>
    (\<forall>ram ram' w. backs ram s P \<longrightarrow> backs ram' s' P \<longrightarrow> mmu ram' root w =
       (if page_of w = page_of v
        then Some (Some \<lparr>tr_paddr = p + w mod 4096, tr_writable = bit perms 1, tr_user = bit perms 2, tr_caching = cache_type mt\<rparr>)
        else mmu ram root w))"
proof -
  have "\<not> length fs < 3" using assms(4) by simp
  then obtain s' T' fs' where m: "pt_map v p perms mt s = Some (ok, s')" "tables_ok s' P T' fs'" "pg_mappings s' = pg_mappings s"
    "rw_us perms \<longrightarrow> mmu_ok s T \<longrightarrow> mmu_ok s' T'"
    "\<forall>w. pt_walk s' w = (if page_of w = page_of v then Some (Some (pte_from_paddr p perms mt)) else pt_walk s w)"
    using pt_map_cases [OF assms(1) rw_us_perms [OF assms(3)], of v p mt] by blast
  have mm: "mmu_ok s' T'" "pg_pml4 s' = pg_pml4 s" using m(4) assms(2,3) pt_map_root [OF m(1)] by blast+
  have "mmu ram' root w = (if page_of w = page_of v
      then Some (Some \<lparr>tr_paddr = p + w mod 4096, tr_writable = bit perms 1, tr_user = bit perms 2, tr_caching = cache_type mt\<rparr>)
      else mmu ram root w)" if r: "backs ram s P" "backs ram' s' P" for ram ram' w
    using mmu_view [OF m(2) mm(1) r(2), of root w] mmu_view [OF assms(1,2) r(1) assms(8), of w] assms(8) m(3,5) mm(2)
      decode_pte [OF assms(3,5-7), of w mt] by simp
  then show ?thesis using m(1-3) mm by blast
qed


text \<open>
  The test of \<open>pt_map\<close> behind the last allocation looks at the wrong variable: when the pool runs out exactly
  at the last level, the new entry is written through the null pointer instead of \<open>ENOMEM\<close> being returned, as
  happens one level higher.
\<close>

theorem pt_map_exhausted_writes_null:
  assumes "tables_ok s P T []" "perms_ok perms" "T [i4 v, i3 v] = Some pd" "T [i4 v, i3 v, i2 v] = None"
    "T [i4 w] = Some pdpt" "T [i4 w, i3 w] = None"
  shows "pt_map v p perms mt s = None \<and> (\<exists>s'. pt_map w p perms mt s = Some (Inl ENOMEM, s'))"
proof
  have call: "pt_get_or_alloc a i perms s' = Some (0, s')"
    if "tables_ok s' P T' []" "T' q = Some a" "length q < 3" "i \<in> {0 ..< 512}" "T' (q @ [i]) = None" for s' T' q a i
    using pt_get_child [OF that(1-4)] that(5) pool_alloc_nil [OF tables_ok_pool(1) [OF that(1)]]
    by (simp add: pt_get_or_alloc_def)
  have step: "\<exists>s'. pt_get_or_alloc a i perms s'' = Some (b, s') \<and> tables_ok s' P T []"
    if "tables_ok s'' P T []" "T q = Some a" "length q < 3" "i \<in> {0 ..< 512}" "T (q @ [i]) = Some b" for s'' q a i b
  proof -
    let ?e = "more_permissive PT_FLAG_RW perms (more_permissive PT_FLAG_US perms (entry (pg_words s'') a i))"
    have a: "page_ok (pg_mappings s'') (pg_words s'') a" "b \<noteq> 0"
      using table_nonzero [OF that(1,2)] table_nonzero [OF that(1,5)] by simp_all
    have "child_ok (pg_mappings s'') (T (q @ [i])) ?e"
      using tables_okD(5) [OF that(1-4)] that(5) by (simp add: child_ok_def present_more paddr_more)
    then show ?thesis using write_upper(1) [OF that(1-4)] pt_get_child [OF that(1-4)] that(5) a(2)
        pte_get_entry [OF a(1) that(4)] pt_insert_ok [OF a(1) that(4)]
      by (simp add: pt_get_or_alloc_def Let_def)
  qed
  obtain b where b: "T [i4 v] = Some b" using child_none [OF assms(1), of "[i4 v]" "i3 v"] assms(3) by (cases "T [i4 v]") auto
  obtain s1 where s1: "pt_get_or_alloc (pg_pml4 s) (i4 v) perms s = Some (b, s1)" "tables_ok s1 P T []"
    using step [OF assms(1) tables_ok_pool(4) [OF assms(1)] _ PT_IDX_range] b by fastforce
  obtain s2 where s2: "pt_get_or_alloc b (i3 v) perms s1 = Some (pd, s2)" "tables_ok s2 P T []"
    using step [OF s1(2) b _ PT_IDX_range] assms(3) by fastforce
  have "pt_get_or_alloc pd (i2 v) perms s2 = Some (0, s2)"
    using call [OF s2(2) assms(3) _ PT_IDX_range] assms(4) by simp
  moreover have "pg_words s2 (8 * i1 v) = None" using tables_ok_pool(5) [OF s2(2)] by (simp add: no_null_page_def)
  ultimately show "pt_map v p perms mt s = None"
    using s1(1) s2(1) table_nonzero [OF assms(1) b] table_nonzero [OF assms(1,3)] PT_IDX_range [of v PT_BIT_BASE]
    by (simp add: pt_map_def Let_def NUM_PT_ENTRIES_def kassert_bind pte_set_def write_word_def)
  obtain s3 where s3: "pt_get_or_alloc (pg_pml4 s) (i4 w) perms s = Some (pdpt, s3)" "tables_ok s3 P T []"
    using step [OF assms(1) tables_ok_pool(4) [OF assms(1)] _ PT_IDX_range] assms(5) by fastforce
  have "pt_get_or_alloc pdpt (i3 w) perms s3 = Some (0, s3)"
    using call [OF s3(2) assms(5) _ PT_IDX_range] assms(6) by simp
  then show "\<exists>s'. pt_map w p perms mt s = Some (Inl ENOMEM, s')"
    using s3(1) table_nonzero [OF assms(1,5)] by (simp add: pt_map_def)
qed

section \<open>Regions\<close>

definition pages_distinct :: "addr \<Rightarrow> sz list \<Rightarrow> bool" where
  "pages_distinct vbase offs \<longleftrightarrow> distinct (map (\<lambda>off. page_of (vbase + off)) offs)"

lemma page_of_add: "page_of (v + int i * 4096) = (v div 4096 + int i) mod 2 ^ 36"
  by (simp add: page_of_def take_bit_eq_mod drop_bit_eq_div add.commute)

lemma pages_distinct_offsets:
  assumes "len \<le> 2 ^ 48"
  shows "pages_distinct v (page_offsets len)"
proof -
  let ?n = "nat ((len + PAGE_SIZE - 1) div PAGE_SIZE)"
  have "(len + 4096 - 1) div 4096 \<le> (2 ^ 48 + 4096 - 1) div 4096" using assms by (intro zdiv_mono1) simp_all
  then have "(len + 4096 - 1) div 4096 \<le> 2 ^ 36" by simp
  then have n: "int ?n \<le> 2 ^ 36" by (simp add: PAGE_SIZE_def)
  have "i = j" if "page_of (v + int i * 4096) = page_of (v + int j * 4096)" "i < ?n" "j < ?n" for i j
  proof -
    have "(v div 4096 + int i) mod 2 ^ 36 = (v div 4096 + int j) mod 2 ^ 36" using that(1) by (simp only: page_of_add)
    then have "2 ^ 36 dvd (v div 4096 + int i) - (v div 4096 + int j)" by (simp only: mod_eq_dvd_iff)
    then have "2 ^ 36 dvd int i - int j" by simp
    moreover have "\<bar>int i - int j\<bar> < 2 ^ 36" using that(2,3) n by linarith
    ultimately have "int i - int j = 0" using zdvd_not_zless [of "\<bar>int i - int j\<bar>" "2 ^ 36"] by fastforce
    then show ?thesis by simp
  qed
  then show ?thesis by (auto simp: pages_distinct_def page_offsets_def distinct_map inj_on_def PAGE_SIZE_def)
qed

text \<open>The entries of a region after it is mapped.\<close>

definition region_mapped :: "addr_mapping \<Rightarrow> sz list \<Rightarrow> paging \<Rightarrow> paging \<Rightarrow> bool" where
  "region_mapped a offs s s' \<longleftrightarrow>
     (\<forall>off \<in> set offs. \<forall>w. page_of w = page_of (am_vbase a + off) \<longrightarrow>
        pt_walk s' w = Some (Some (pte_from_paddr (am_pbase a + off) (am_perms a) (am_mem_type a)))) \<and>
     (\<forall>w. (\<forall>off \<in> set offs. page_of w \<noteq> page_of (am_vbase a + off)) \<longrightarrow> pt_walk s' w = pt_walk s w)"

text \<open>
  The pool has enough pages: three for every page that is mapped, or one for every table that the pages may need,
  and three more.
\<close>

definition enough :: "tables \<Rightarrow> addr list \<Rightarrow> addr \<Rightarrow> sz list \<Rightarrow> bool" where
  "enough T fs v offs \<longleftrightarrow> 3 * length offs \<le> length fs \<or>
     (\<exists>U. finite U \<and> dom T \<subseteq> U \<and> (\<forall>off \<in> set offs. tables_to (v + off) \<subseteq> U) \<and> card U + 3 \<le> card (dom T) + length fs)"

lemma enough_step:
  assumes "enough T fs v (off # offs)"
  shows "3 \<le> length fs"
    "grown T fs T' fs' (tables_to (v + off)) \<Longrightarrow> length fs \<le> length fs' + 3 \<Longrightarrow> enough T' fs' v offs"
proof -
  consider "3 * length (off # offs) \<le> length fs" |
    U where "finite U" "dom T \<subseteq> U" "\<forall>x \<in> set (off # offs). tables_to (v + x) \<subseteq> U" "card U + 3 \<le> card (dom T) + length fs"
    using assms unfolding enough_def by blast
  note c = this
  show "3 \<le> length fs"
  proof (cases rule: c)
    case (2 U)
    then show ?thesis using card_mono [of U "dom T"] by simp
  qed simp
  assume g: "grown T fs T' fs' (tables_to (v + off))" "length fs \<le> length fs' + 3"
  show "enough T' fs' v offs"
  proof (cases rule: c)
    case 1
    then show ?thesis using g(2) by (simp add: enough_def)
  next
    case (2 U)
    have "finite (dom T)" using 2(1,2) finite_subset by blast
    then have "card (dom T') + length fs' = card (dom T) + length fs" using g(1) by (simp add: grown_def)
    moreover have "dom T' \<subseteq> dom T \<union> tables_to (v + off)" using g(1) unfolding grown_def by blast
    moreover have "tables_to (v + off) \<subseteq> U" using 2(3) by simp
    ultimately have "card (dom T') + length fs' = card (dom T) + length fs" "dom T' \<subseteq> U" using 2(2) by blast+
    then show ?thesis using 2 unfolding enough_def by (intro disjI2 exI [of _ U]) simp
  qed
qed

lemma map_region_loop_ok:
  assumes "tables_ok s P T fs" "perms_ok (am_perms a)" "enough T fs (am_vbase a) offs" "pages_distinct (am_vbase a) offs"
  shows "\<exists>s' T' fs'. map_region_loop a offs s = Some (ok, s') \<and> tables_ok s' P T' fs' \<and> grown T fs T' fs' (\<Union>off \<in> set offs. tables_to (am_vbase a + off)) \<and>
    pg_mappings s' = pg_mappings s \<and> region_mapped a offs s s' \<and> pg_pml4 s' = pg_pml4 s \<and>
    (rw_us (am_perms a) \<longrightarrow> mmu_ok s T \<longrightarrow> mmu_ok s' T')"
  using assms
proof (induction offs arbitrary: s T fs)
  case Nil
  then show ?case by (auto simp: region_mapped_def intro: grown_refl)
next
  case (Cons off offs)
  let ?e = "pte_from_paddr (am_pbase a + off) (am_perms a) (am_mem_type a)"
  have "3 \<le> length fs" by (rule enough_step(1) [OF Cons.prems(3)])
  then obtain s1 T1 f1 where 1: "pt_map (am_vbase a + off) (am_pbase a + off) (am_perms a) (am_mem_type a) s = Some (ok, s1)"
    "tables_ok s1 P T1 f1" "pg_mappings s1 = pg_mappings s" "length fs \<le> length f1 + 3"
    "grown T fs T1 f1 (tables_to (am_vbase a + off))" "rw_us (am_perms a) \<longrightarrow> mmu_ok s T \<longrightarrow> mmu_ok s1 T1"
    "\<forall>w. pt_walk s1 w = (if page_of w = page_of (am_vbase a + off) then Some (Some ?e) else pt_walk s w)"
    using pt_map_cases [OF Cons.prems(1,2), of "am_vbase a + off" "am_pbase a + off" "am_mem_type a"] by (meson not_le)
  have "enough T1 f1 (am_vbase a) offs" "pages_distinct (am_vbase a) offs"
    using enough_step(2) [OF Cons.prems(3) 1(5,4)] Cons.prems(4) by (simp_all add: pages_distinct_def)
  then obtain s2 T2 f2 where 2: "map_region_loop a offs s1 = Some (ok, s2)" "tables_ok s2 P T2 f2"
    "pg_mappings s2 = pg_mappings s1" "region_mapped a offs s1 s2" "grown T1 f1 T2 f2 (\<Union>off \<in> set offs. tables_to (am_vbase a + off))"
    "pg_pml4 s2 = pg_pml4 s1" "rw_us (am_perms a) \<longrightarrow> mmu_ok s1 T1 \<longrightarrow> mmu_ok s2 T2"
    using Cons.IH [OF 1(2) Cons.prems(2)] by blast
  have fresh: "\<forall>x \<in> set offs. page_of (am_vbase a + off) \<noteq> page_of (am_vbase a + x)"
    using Cons.prems(4) by (auto simp: pages_distinct_def)
  have "region_mapped a (off # offs) s s2"
    unfolding region_mapped_def
  proof (intro conjI ballI allI impI)
    fix x w assume x: "x \<in> set (off # offs)" "page_of w = page_of (am_vbase a + x)"
    show "pt_walk s2 w = Some (Some (pte_from_paddr (am_pbase a + x) (am_perms a) (am_mem_type a)))"
    proof (cases "x = off")
      case True
      then have "pt_walk s2 w = pt_walk s1 w" using 2(4) fresh x(2) by (simp add: region_mapped_def)
      then show ?thesis using 1(7) True x(2) by simp
    next
      case False
      then show ?thesis using 2(4) x by (simp add: region_mapped_def)
    qed
  next
    fix w assume "\<forall>x \<in> set (off # offs). page_of w \<noteq> page_of (am_vbase a + x)"
    then show "pt_walk s2 w = pt_walk s w" using 2(4) 1(7) by (simp add: region_mapped_def)
  qed
  moreover have "map_region_loop a (off # offs) s = Some (ok, s2)" using 1(1) 2(1) by simp
  moreover have "grown T fs T2 f2 (\<Union>x \<in> set (off # offs). tables_to (am_vbase a + x))" using grown_trans [OF 1(5) 2(5)] by simp
  moreover have "pg_pml4 s2 = pg_pml4 s" using 2(6) pt_map_root [OF 1(1)] by simp
  moreover have "rw_us (am_perms a) \<longrightarrow> mmu_ok s T \<longrightarrow> mmu_ok s2 T2" using 1(6) 2(7) by blast
  ultimately show ?case using 2(2,3) 1(3) by (intro exI [of _ s2] exI [of _ T2] exI [of _ f2] conjI) (assumption | simp)+
qed

lemma unmap_region_loop_ok:
  assumes "tables_ok s P T fs" "\<forall>off \<in> set offs. \<exists>e. pt_walk s (v + off) = Some (Some e)" "pages_distinct v offs"
  shows "\<exists>s' T' fs'. unmap_region_loop v offs s = Some (ok, s') \<and> tables_ok s' P T' fs' \<and>
    pg_mappings s' = pg_mappings s \<and> pg_pml4 s' = pg_pml4 s \<and> (mmu_ok s T \<longrightarrow> mmu_ok s' T') \<and>
    (\<forall>w. pt_walk s' w = (if \<exists>off \<in> set offs. page_of w = page_of (v + off) then Some None else pt_walk s w))"
  using assms
proof (induction offs arbitrary: s T fs)
  case Nil
  then show ?case by auto
next
  case (Cons off offs)
  obtain e where "pt_walk s (v + off) = Some (Some e)" using Cons.prems(2) by auto
  from pt_unmap_mapped [OF Cons.prems(1) this] obtain s1 T1 f1 where 1: "pt_unmap (v + off) s = Some (ok, s1)"
    "tables_ok s1 P T1 f1" "pg_mappings s1 = pg_mappings s" "pg_pml4 s1 = pg_pml4 s" "mmu_ok s T \<longrightarrow> mmu_ok s1 T1"
    "\<forall>w. pt_walk s1 w = (if page_of w = page_of (v + off) then Some None else pt_walk s w)" by blast
  have fresh: "\<forall>x \<in> set offs. page_of (v + x) \<noteq> page_of (v + off)"
    using Cons.prems(3) unfolding pages_distinct_def by (auto dest: sym)
  then have "\<forall>x \<in> set offs. \<exists>e. pt_walk s1 (v + x) = Some (Some e)" using 1(6) Cons.prems(2) by simp
  moreover have "pages_distinct v offs" using Cons.prems(3) by (simp add: pages_distinct_def)
  ultimately obtain s2 T2 f2 where 2: "unmap_region_loop v offs s1 = Some (ok, s2)" "tables_ok s2 P T2 f2"
    "pg_mappings s2 = pg_mappings s1" "pg_pml4 s2 = pg_pml4 s1" "mmu_ok s1 T1 \<longrightarrow> mmu_ok s2 T2"
    "\<forall>w. pt_walk s2 w = (if \<exists>x \<in> set offs. page_of w = page_of (v + x) then Some None else pt_walk s1 w)"
    using Cons.IH [OF 1(2)] by blast
  have "pt_walk s2 w = (if \<exists>x \<in> set (off # offs). page_of w = page_of (v + x) then Some None else pt_walk s w)" for w
    using 1(6) 2(6) by simp
  moreover have "unmap_region_loop v (off # offs) s = Some (ok, s2)" using 1(1) 2(1) by simp
  moreover have "pg_mappings s2 = pg_mappings s" "pg_pml4 s2 = pg_pml4 s" "mmu_ok s T \<longrightarrow> mmu_ok s2 T2" using 1(3-5) 2(3-5) by simp_all
  ultimately show ?case using 2(2) by blast
qed

text \<open>The addresses of a region up to its last page, which is mapped as a whole.\<close>

definition region_len :: "addr_mapping \<Rightarrow> sz" where
  "region_len a = (am_len a + 4095) div 4096 * 4096"

lemma region_offset:
  assumes "0 \<le> d" "d < region_len a"
  shows "d - d mod 4096 \<in> set (page_offsets (am_len a))" "d - d mod 4096 < am_len a"
proof -
  have d: "d - d mod 4096 = d div 4096 * 4096" by (simp add: minus_mod_eq_div_mult)
  have n: "0 \<le> d div 4096" "d div 4096 < (am_len a + 4095) div 4096" using assms by (simp_all add: region_len_def div_less_iff_less_mult)
  then show "d - d mod 4096 < am_len a" unfolding d by linarith
  have "nat (d div 4096) \<in> {0 ..< nat ((am_len a + 4095) div 4096)}" using n by simp
  then show "d - d mod 4096 \<in> set (page_offsets (am_len a))"
    unfolding d page_offsets_def PAGE_SIZE_def using n(1) by (auto intro!: image_eqI [where x = "nat (d div 4096)"])
qed

lemma page_of_offset: "v mod 4096 = 0 \<Longrightarrow> page_of (v + d) = page_of (v + (d - d mod 4096))"
proof -
  assume "v mod 4096 = 0"
  then obtain k where v: "v = 4096 * k" by (meson mod_0_imp_dvd dvdE)
  have "v + d = 4096 * (k + d div 4096) + d mod 4096" "v + (d - d mod 4096) = 4096 * (k + d div 4096)"
    using v by (simp_all add: minus_mod_eq_mult_div algebra_simps)
  then have "(v + d) div 4096 = k + d div 4096" "(v + (d - d mod 4096)) div 4096 = k + d div 4096" by simp_all
  then show ?thesis by (simp add: page_of_def drop_bit_eq_div)
qed

definition region_translated :: "addr_mapping \<Rightarrow> (addr \<Rightarrow> translation option option) \<Rightarrow> (addr \<Rightarrow> translation option option) \<Rightarrow> bool" where
  "region_translated a view view' \<longleftrightarrow>
     (\<forall>d. 0 \<le> d \<longrightarrow> d < region_len a \<longrightarrow> view' (am_vbase a + d) = Some (Some \<lparr>tr_paddr = am_pbase a + d,
        tr_writable = bit (am_perms a) 1, tr_user = bit (am_perms a) 2, tr_caching = cache_type (am_mem_type a)\<rparr>)) \<and>
     (\<forall>w. (\<forall>d. 0 \<le> d \<longrightarrow> d < region_len a \<longrightarrow> page_of w \<noteq> page_of (am_vbase a + d)) \<longrightarrow> view' w = view w)"

lemma region_view_mmu:
  assumes "region_mapped a (page_offsets (am_len a)) s s'" "rw_us (am_perms a)"
    and "am_vbase a mod 4096 = 0" "am_pbase a mod 4096 = 0" "0 \<le> am_pbase a" "am_pbase a + am_len a \<le> 2 ^ 52"
    and view: "\<And>w. view w = map_option (map_option (decode w)) (pt_walk s w)" "\<And>w. view' w = map_option (map_option (decode w)) (pt_walk s' w)"
  shows "region_translated a view view'"
  unfolding region_translated_def
proof (intro conjI allI impI)
  fix d assume d: "0 \<le> d" "d < region_len a"
  let ?o = "d - d mod 4096"
  note o = region_offset [OF d]
  have p: "pt_walk s' (am_vbase a + d) = Some (Some (pte_from_paddr (am_pbase a + ?o) (am_perms a) (am_mem_type a)))"
    using assms(1) o(1) page_of_offset [OF assms(3), of d] unfolding region_mapped_def by blast
  have f: "0 \<le> am_pbase a + ?o" "am_pbase a + ?o < 2 ^ 52" "(am_pbase a + ?o) mod 4096 = 0" "(am_vbase a + d) mod 4096 = d mod 4096"
    using assms(3-6) o(2) d(1) by (simp_all add: mod_add_left_eq [of _ 4096, symmetric] minus_mod_eq_mult_div)
  show "view' (am_vbase a + d) = Some (Some \<lparr>tr_paddr = am_pbase a + d,
      tr_writable = bit (am_perms a) 1, tr_user = bit (am_perms a) 2, tr_caching = cache_type (am_mem_type a)\<rparr>)"
    using decode_pte [OF assms(2) f(1-3)] by (simp add: view(2) p f(4))
next
  fix w assume w: "\<forall>d. 0 \<le> d \<longrightarrow> d < region_len a \<longrightarrow> page_of w \<noteq> page_of (am_vbase a + d)"
  have "page_of w \<noteq> page_of (am_vbase a + off)" if o: "off \<in> set (page_offsets (am_len a))" for off
  proof -
    obtain i where i: "off = int i * 4096" "i < nat ((am_len a + 4095) div 4096)" using o by (auto simp: page_offsets_def PAGE_SIZE_def)
    then have "0 \<le> off" "off < region_len a" unfolding region_len_def by linarith+
    then show ?thesis using w by blast
  qed
  then have "pt_walk s' w = pt_walk s w" using assms(1) unfolding region_mapped_def by blast
  then show "view' w = view w" by (simp add: view)
qed

text \<open>
  C14: \<open>paging_map_region\<close>: with a slot for the mapping and three free pages per page of the region, the call
  succeeds. The processor then translates every address of the region, up to the end of its last page, to the physical address at the same
  offset, with the rights and the memory type of the mapping, and every address in other pages as before. The tables of the kernel stay
  reachable for it under the new mapping.
\<close>

theorem paging_map_region_maps:
  assumes "tables_ok s P T fs" "mmu_ok s T" "add_addr_mapping a (pg_mappings s) = (ok, ms)" "apart_from P (pg_mappings s) a"
    and "rw_us (am_perms a)" "am_len a \<le> 2 ^ 48" "3 * length (page_offsets (am_len a)) \<le> length fs"
    and "am_vbase a mod 4096 = 0" "am_pbase a mod 4096 = 0" "0 \<le> am_pbase a" "am_pbase a + am_len a \<le> 2 ^ 52"
    and "virt_to_phys (pg_pml4 s) (pg_mappings s) = Some (Inr root)"
  shows "\<exists>s' T' fs'. paging_map_region a s = Some (ok, s') \<and> tables_ok s' P T' fs' \<and> mmu_ok s' T' \<and> pg_mappings s' = ms \<and>
    pg_pml4 s' = pg_pml4 s \<and>
    (\<forall>ram ram'. backs ram s P \<longrightarrow> backs ram' s' P \<longrightarrow> region_translated a (mmu ram root) (mmu ram' root))"
proof -
  let ?s = "s\<lparr>pg_mappings := ms\<rparr>"
  have t: "tables_ok ?s P T fs" by (rule add_keeps_tables [OF assms(1,3,4)])
  note mm = mmu_ok_region [OF assms(1-3)]
  obtain s' T' fs' where m: "map_region_loop a (page_offsets (am_len a)) ?s = Some (ok, s')" "tables_ok s' P T' fs'"
    "pg_mappings s' = ms" "region_mapped a (page_offsets (am_len a)) ?s s'" "pg_pml4 s' = pg_pml4 s" "mmu_ok s' T'"
    using map_region_loop_ok [OF t rw_us_perms [OF assms(5)] _ pages_distinct_offsets [OF assms(6)]] assms(5,7) mm(1)
    by (auto simp: enough_def)
  have root: "virt_to_phys (pg_pml4 s) ms = Some (Inr root)"
    using mm(3) tables_ok_pool(4) [OF assms(1)] tables_okD(2) [OF assms(1)] assms(12) by simp
  have "region_translated a (mmu ram root) (mmu ram' root)" if r: "backs ram s P" "backs ram' s' P" for ram ram'
    by (rule region_view_mmu [OF m(4) assms(5,8-11)])
      (use mmu_view [OF t mm(1)] mmu_view [OF m(2,6) r(2)] mm(2) r(1) m(3,5) root in simp_all)
  moreover have "paging_map_region a s = Some (ok, s')" using assms(3) m(1) by (simp add: paging_map_region_def)
  ultimately show ?thesis using m(2,3,5,6) by blast
qed

lemma remove_added:
  assumes "used ms = us @ vs" "used ms' = us @ a # vs" "\<forall>m \<in> set (used ms). \<not> v_overlap a m" "0 < am_len a"
  obtains ms'' where "remove_addr_mapping a ms' = (ok, ms'')" "used ms'' = used ms"
proof -
  have same: "v_overlap a m" if "same_region m a" for m
    using that assms(4) by (simp add: same_region_def v_overlap_def intervals_overlap_def)
  have none: "\<not> same_region m a" if "m \<in> set us \<union> set vs" for m
    using same assms(1,3) that by auto
  have a: "same_region a a" "a \<in> set (used ms')" using assms(2) by (simp_all add: same_region_def)
  obtain ms'' where ms'': "remove_addr_mapping a ms' = (ok, ms'')" using remove_finds [OF a(2,1)] by blast
  obtain xs m ys where x: "used ms' = xs @ m # ys" "used ms'' = xs @ ys" "same_region m a" using remove_used [OF ms''] by blast
  have "m \<in> set (us @ a # vs)" using x(1) assms(2) by (metis in_set_conv_decomp)
  then have "m = a" using none x(3) by auto
  then have "us = xs \<and> vs = ys"
    using x(1) assms(2) none a(1) append_Cons_eq_iff [of a us vs xs ys] by auto
  then show thesis using that ms'' x(2) assms(1) by simp
qed

text \<open>
  C13: Mapping and unmapping a region is a round trip: \<open>paging_unmap_region\<close> after \<open>paging_map_region\<close>, on a region
  that was not mapped before, succeeds, and the used address mappings and the kernel's lookup of all virtual
  addresses are those from before the two calls, and so are the translations of the processor if the flags are RW and US.
\<close>

theorem paging_region_roundtrip:
  assumes "tables_ok s P T fs" "add_addr_mapping a (pg_mappings s) = (ok, ms)" "apart_from P (pg_mappings s) a"
    "perms_ok (am_perms a)" "0 < am_len a" "am_len a \<le> 2 ^ 48" "3 * length (page_offsets (am_len a)) \<le> length fs"
    "\<forall>off \<in> set (page_offsets (am_len a)). pt_walk s (am_vbase a + off) = Some None"
  shows "\<exists>s1 s2 T' fs'. paging_map_region a s = Some (ok, s1) \<and> paging_unmap_region a s1 = Some (ok, s2) \<and>
    tables_ok s2 P T' fs' \<and> used (pg_mappings s2) = used (pg_mappings s) \<and> (\<forall>w. pt_walk s2 w = pt_walk s w) \<and>
    (\<forall>ram ram' root w. mmu_ok s T \<longrightarrow> rw_us (am_perms a) \<longrightarrow> virt_to_phys (pg_pml4 s) (pg_mappings s) = Some (Inr root) \<longrightarrow>
       backs ram s P \<longrightarrow> backs ram' s2 P \<longrightarrow> mmu_ok s2 T' \<and> mmu ram' root w = mmu ram root w)"
proof -
  let ?s = "s\<lparr>pg_mappings := ms\<rparr>" and ?offs = "page_offsets (am_len a)"
  have t: "tables_ok ?s P T fs" by (rule add_keeps_tables [OF assms(1-3)])
  note d = pages_distinct_offsets [OF assms(6), of "am_vbase a"]
  obtain s1 T1 f1 where m: "map_region_loop a ?offs ?s = Some (ok, s1)" "tables_ok s1 P T1 f1"
    "pg_mappings s1 = ms" "region_mapped a ?offs ?s s1" "pg_pml4 s1 = pg_pml4 s" "rw_us (am_perms a) \<longrightarrow> mmu_ok ?s T \<longrightarrow> mmu_ok s1 T1"
    using map_region_loop_ok [OF t assms(4) _ d] assms(7) by (auto simp: enough_def)
  obtain s2 T2 f2 where u: "unmap_region_loop (am_vbase a) ?offs s1 = Some (ok, s2)" "tables_ok s2 P T2 f2"
    "pg_mappings s2 = ms" "\<forall>w. pt_walk s2 w =
      (if \<exists>off \<in> set ?offs. page_of w = page_of (am_vbase a + off) then Some None else pt_walk s1 w)"
    "pg_pml4 s2 = pg_pml4 s1" "mmu_ok s1 T1 \<longrightarrow> mmu_ok s2 T2"
    using unmap_region_loop_ok [OF m(2) _ d] m(3,4) by (auto simp: region_mapped_def)
  obtain us vs where us: "used (pg_mappings s) = us @ vs" "used ms = us @ a # vs"
    "\<forall>m \<in> set (used (pg_mappings s)). \<not> v_overlap a m" using add_used [OF assms(2)] by blast
  obtain ms'' where r: "remove_addr_mapping a ms = (ok, ms'')" "used ms'' = used (pg_mappings s)"
    using remove_added [OF us assms(5)] by blast
  have away: "\<not> at_virt b a" if "b \<in> P" for b using new_not_at [OF tables_okD(1) [OF assms(1) that] us(3)] .
  have virt: "virt_to_phys b ms'' = virt_to_phys b (pg_mappings s2)" if "b \<in> P" for b
    using virt_to_phys_other [OF us(1,2) away [OF that]] virt_to_phys_used [OF r(2)] u(3) by simp
  have t3: "tables_ok (s2\<lparr>pg_mappings := ms''\<rparr>) P T2 f2"
  proof (rule tables_ok_mappings [OF u(2) virt])
    fix b assume b: "b \<in> P"
    fix x assume "phys_to_virt x (pg_mappings s2) = Some (Inr b)"
    then show "phys_to_virt x ms'' = Some (Inr b)"
      using phys_to_virt_without [OF us(1,2) _ away [OF b]] phys_to_virt_used [OF r(2)] u(3) by simp
  qed
  have walk: "pt_walk (s2\<lparr>pg_mappings := ms''\<rparr>) w = pt_walk s w" for w
  proof (cases "\<exists>off \<in> set ?offs. page_of w = page_of (am_vbase a + off)")
    case True
    then have "pt_walk s w = Some None" using walk_page assms(8) by metis
    then show ?thesis using u(4) True walk_mappings [OF u(2) t3] by simp
  next
    case False
    then have "pt_walk s2 w = pt_walk ?s w" using u(4) m(4) by (simp add: region_mapped_def)
    then show ?thesis using walk_mappings [OF u(2) t3] walk_mappings [OF assms(1) t] by simp
  qed
  have "mmu_ok (s2\<lparr>pg_mappings := ms''\<rparr>) T2 \<and> mmu ram' root w = mmu ram root w"
    if h: "mmu_ok s T" "rw_us (am_perms a)" "virt_to_phys (pg_pml4 s) (pg_mappings s) = Some (Inr root)" "backs ram s P"
      "backs ram' (s2\<lparr>pg_mappings := ms''\<rparr>) P" for ram ram' root w
  proof -
    have "mmu_ok s2 T2" using mmu_ok_region(1) [OF assms(1) h(1) assms(2)] h(2) m(6) u(6) by blast
    then have mm: "mmu_ok (s2\<lparr>pg_mappings := ms''\<rparr>) T2" by (rule mmu_ok_mappings [OF u(2) _ virt])
    have "virt_to_phys (pg_pml4 s) ms'' = virt_to_phys (pg_pml4 s) (pg_mappings s)" by (rule virt_to_phys_used [OF r(2)])
    then show ?thesis using mm mmu_view [OF t3 mm h(5), of root w] mmu_view [OF assms(1) h(1,4,3), of w] walk [of w] m(5) u(5) h(3) by simp
  qed
  moreover have "paging_map_region a s = Some (ok, s1)" using assms(2) m(1) by (simp add: paging_map_region_def)
  moreover have "paging_unmap_region a s1 = Some (ok, s2\<lparr>pg_mappings := ms''\<rparr>)"
    using u(1,3) r(1) by (simp add: paging_unmap_region_def)
  moreover have "used (pg_mappings (s2\<lparr>pg_mappings := ms''\<rparr>)) = used (pg_mappings s)" using r(2) by simp
  ultimately show ?thesis using t3 walk by blast
qed

section \<open>Examples\<close>

text \<open>Eight pages, of which the first is the root, empty; the others are in the pool.\<close>

definition sample_words :: words where
  "sample_words x = (if 0x100000 \<le> x \<and> x < 0x108000 \<and> x mod 8 = 0
     then Some (if x mod 4096 = 0 \<and> x < 0x107000 then x + 4096 else 0) else None)"

definition sample_pages :: "addr list" where
  "sample_pages = [0x101000, 0x102000, 0x103000, 0x104000, 0x105000, 0x106000, 0x107000]"

definition sample_paging :: paging where
  "sample_paging = \<lparr>pg_mappings = (True, (sample_mapping 0x100000 0x500000)\<lparr>am_len := 0x8000\<rparr>) #
       replicate 31 (False, sample_mapping 0 0),
     pg_words = sample_words, pg_pool = \<lparr>pl_head = 0x101000, pl_size = 4096\<rparr>, pg_pml4 = 0x100000,
     pg_cpuid_edx = 2 ^ 16, pg_cr3 = 0x500000\<rparr>"

lemma used_unused: "used (replicate n (False, m)) = []"
  by (induction n) auto

lemma sample_mapping_used: "used (pg_mappings sample_paging) = [(sample_mapping 0x100000 0x500000)\<lparr>am_len := 0x8000\<rparr>]"
  by (simp add: sample_paging_def used_unused)

lemma sample_translate:
  "virt_to_phys b (pg_mappings sample_paging) = Some (Inr (b + 0x400000))"
  "phys_to_virt (b + 0x400000) (pg_mappings sample_paging) = Some (Inr b)"
  if "0x100000 \<le> b" "b < 0x108000"
  using that by (simp_all add: virt_to_phys_def virt_loop_eq phys_to_virt_def phys_loop_eq phys_canonical_def
    phys_alias_def sample_mapping_used at_virt_def at_phys_def IN_RANGE_def sample_mapping_def kassert_def last_or_def)

lemma sample_phys_range:
  "phys_to_virt x (pg_mappings sample_paging) = Some (Inr b) \<Longrightarrow> b \<noteq> 0 \<Longrightarrow> 0x500000 \<le> x \<and> x < 0x508000"
  by (auto simp: phys_to_virt_def phys_loop_eq phys_canonical_def phys_alias_def sample_mapping_used at_phys_def IN_RANGE_def
      sample_mapping_def kassert_def last_or_def split: if_splits)

lemma sample_page_ok: "page_ok (pg_mappings sample_paging) sample_words b" if "b \<in> set (0x100000 # sample_pages)"
proof -
  have b: "0x100000 \<le> b" "b \<le> 0x107000" "b mod 4096 = 0" using that by (auto simp: sample_pages_def)
  have w: "sample_words (b + 8 * i) \<noteq> None" if "i \<in> {0 ..< 512}" for i
  proof -
    obtain k where "b = 4096 * k" using b(3) by (meson mod_0_imp_dvd dvdE)
    then have "(b + 8 * i) mod 8 = 0" by (simp add: mod_simps)
    moreover have "0x100000 \<le> b + 8 * i \<and> b + 8 * i < 0x108000" using b(1,2) that by auto
    ultimately show ?thesis unfolding sample_words_def by (simp only: if_True simp_thms option.distinct not_False_eq_True)
  qed
  have "(b + 1024 * 4096) mod 4096 = b mod 4096" by (rule mod_mult_self1)
  then have "(b + 0x400000) mod 4096 = 0" using b(3) by simp
  then have "frame_ok (b + 0x400000)" using b by (simp add: frame_ok_def)
  then show ?thesis using w b sample_translate [of b] by (auto simp: page_ok_def)
qed

lemma sample_tables: "tables_ok sample_paging (set (0x100000 # sample_pages)) [[] \<mapsto> 0x100000] sample_pages"
proof (rule tables_okI)
  show "free_blocks (pg_words sample_paging) (pg_pool sample_paging) sample_pages"
    by (simp add: free_blocks_def sample_paging_def sample_pages_def sample_words_def)
  show "page_ok (pg_mappings sample_paging) (pg_words sample_paging) b" if "b \<in> set (0x100000 # sample_pages)" for b
    using sample_page_ok [OF that] by (simp add: sample_paging_def)
  show "no_null_page (pg_words sample_paging)" by (simp add: no_null_page_def sample_paging_def sample_words_def)
  show "child_ok (pg_mappings sample_paging) ([[] \<mapsto> 0x100000] (p @ [i])) (entry (pg_words sample_paging) a i)"
    if "[[] \<mapsto> 0x100000] p = Some a" "i \<in> {0 ..< 512}" for p a i
  proof -
    have p: "p = []" "a = 0x100000" using that(1) by (auto split: if_splits)
    have "sample_words (0x100000 + 8 * i) = Some (if i = 0 then 0x101000 else 0)"
    proof -
      have "(8 * i + 256 * 4096) mod 4096 = 8 * i mod 4096" by (rule mod_mult_self1)
      moreover have "8 * i mod 4096 = 8 * i" using that(2) by (intro mod_pos_pos_trivial) auto
      ultimately have "(0x100000 + 8 * i) mod 4096 = 8 * i" by (simp add: add.commute)
      moreover have "(0x100000 + 8 * i) mod 8 = 0" by (simp add: mod_simps)
      ultimately show ?thesis using that(2) by (simp add: sample_words_def)
    qed
    then have "entry (pg_words sample_paging) a i = (if i = 0 then 0x101000 else 0)"
      using p by (simp add: entry_def pte_get_def sample_paging_def)
    then show ?thesis using p by (simp add: child_ok_def present_def PT_FLAG_P_def)
  qed
qed (auto simp: sample_paging_def sample_pages_def split: if_splits)

lemma sample_walk: "pt_walk sample_paging v = Some None"
  unfolding pt_walk_leaf [OF sample_tables] by (simp add: leaf_def)

lemma sample_mmu_ok: "mmu_ok sample_paging [[] \<mapsto> 0x100000]"
  by (auto simp: mmu_ok_def leaf_def split: if_splits)

lemma sample_root: "virt_to_phys (pg_pml4 sample_paging) (pg_mappings sample_paging) = Some (Inr 0x500000)"
  using sample_translate(1) [of "0x100000"] by (simp add: sample_paging_def)

lemma sample_mmu: "backs ram sample_paging (set (0x100000 # sample_pages)) \<Longrightarrow> mmu ram 0x500000 v = Some None"
  using mmu_view [OF sample_tables sample_mmu_ok _ sample_root] by (simp add: sample_walk)

lemma rw_us_2: "rw_us 2"
proof -
  have "bit (2 ^ k :: u16) n \<longleftrightarrow> n = k" if "k < 16" for k n using that by (auto simp: bit_exp_iff possible_bit_def)
  from this [of 1] show ?thesis by (simp add: rw_us_def)
qed

theorem pt_map_refines_witness:
  "\<exists>s'. pt_map 0xFFFF000 0x7000 2 ADDR_MAPPING_MEMORY_UNCACHEABLE sample_paging = Some (ok, s') \<and>
    mmu (ram_of s') 0x500000 0xFFFF123 =
      Some (Some \<lparr>tr_paddr = 0x7123, tr_writable = True, tr_user = False, tr_caching = Uncached_Minus\<rparr>) \<and>
    mmu (ram_of s') 0x500000 0x123 = Some None"
proof -
  let ?P = "set (0x100000 # sample_pages)"
  have "3 \<le> length sample_pages" "0x7000 mod 4096 = (0 :: int)" by (simp_all add: sample_pages_def)
  from pt_map_refines [OF sample_tables sample_mmu_ok rw_us_2 this(1) _ _ this(2) sample_root, of "0xFFFF000" ADDR_MAPPING_MEMORY_UNCACHEABLE]
  obtain s' T' fs' where s': "pt_map 0xFFFF000 0x7000 2 ADDR_MAPPING_MEMORY_UNCACHEABLE sample_paging = Some (ok, s')" "tables_ok s' ?P T' fs'"
    "\<forall>ram ram' w. backs ram sample_paging ?P \<longrightarrow> backs ram' s' ?P \<longrightarrow> mmu ram' 0x500000 w =
       (if page_of w = page_of 0xFFFF000
        then Some (Some \<lparr>tr_paddr = 0x7000 + w mod 4096, tr_writable = bit (2 :: u16) 1, tr_user = bit (2 :: u16) 2, tr_caching = Uncached_Minus\<rparr>)
        else mmu ram 0x500000 w)" by auto
  note r = ram_of_backs [OF sample_tables] ram_of_backs [OF s'(2)]
  have p: "page_of 0xFFFF123 = page_of 0xFFFF000" "page_of 0x123 \<noteq> page_of 0xFFFF000"
    by (simp_all add: page_of_def take_bit_eq_mod drop_bit_eq_div)
  have b: "bit (2 :: u16) 1" "\<not> bit (2 :: u16) 2" by code_simp+
  show ?thesis
    using s'(1) s'(3) [rule_format, OF r, of "0xFFFF123"] s'(3) [rule_format, OF r, of "0x123"] p b sample_mmu [OF r(1)] by simp
qed


text \<open>A device at the physical address 0xFEBC0000.\<close>

definition sample_device :: addr_mapping where
  "sample_device = \<lparr>am_type = ADDR_MAPPING_TYPE_CANONICAL, am_mem_type = ADDR_MAPPING_MEMORY_STRONG_UNCACHEABLE,
     am_perms = 2, am_vbase = 0xFEBC0000, am_pbase = 0xFEBC0000, am_len = 0x2000\<rparr>"

definition sample_mappings :: mappings where
  "sample_mappings = (True, (sample_mapping 0x100000 0x500000)\<lparr>am_len := 0x8000\<rparr>) # (True, sample_device) #
     replicate 30 (False, sample_mapping 0 0)"

lemma count_unused: "count_conflicts x (replicate k (False, m)) nc na = Some (nc, na)"
  by (induction k) auto

lemma sample_add: "add_addr_mapping sample_device (pg_mappings sample_paging) = (ok, sample_mappings)"
proof -
  have r: "replicate 31 (False, sample_mapping 0 0) = (False, sample_mapping 0 0) # replicate 30 (False, sample_mapping 0 0)"
    by (simp add: numeral_eq_Suc)
  show ?thesis unfolding sample_paging_def sample_mappings_def paging.select_convs r
    by (simp add: add_addr_mapping_def count_unused v_overlap_def p_overlap_def intervals_overlap_def
        sample_device_def sample_mapping_def)
qed

lemma sample_offsets: "page_offsets (am_len sample_device) = [0, 4096]"
  by (simp add: page_offsets_def sample_device_def PAGE_SIZE_def upt_rec)

lemma sample_apart: "apart_from (set (0x100000 # sample_pages)) (pg_mappings sample_paging) sample_device"
  unfolding apart_from_def
proof (intro allI impI)
  fix x b assume b: "b \<in> set (0x100000 # sample_pages)" "phys_to_virt x (pg_mappings sample_paging) = Some (Inr b)"
  then have "b \<noteq> 0" by (auto simp: sample_pages_def)
  from sample_phys_range [OF b(2) this] show "\<not> at_phys x sample_device"
    by (simp add: at_phys_def IN_RANGE_def sample_device_def)
qed

theorem paging_map_region_maps_witness:
  "\<exists>s'. paging_map_region sample_device sample_paging = Some (ok, s') \<and>
    mmu (ram_of s') 0x500000 0xFEBC1FFF =
      Some (Some \<lparr>tr_paddr = 0xFEBC1FFF, tr_writable = True, tr_user = False, tr_caching = Uncached\<rparr>) \<and>
    mmu (ram_of s') 0x500000 0xFEBC2000 = Some None"
proof -
  let ?P = "set (0x100000 # sample_pages)"
  have d: "rw_us (am_perms sample_device)" "am_len sample_device \<le> 2 ^ 48" "am_vbase sample_device mod 4096 = 0"
    "am_pbase sample_device mod 4096 = 0" "0 \<le> am_pbase sample_device" "am_pbase sample_device + am_len sample_device \<le> 2 ^ 52"
    by (simp_all add: sample_device_def rw_us_2)
  have n: "3 * length (page_offsets (am_len sample_device)) \<le> length sample_pages" by (simp add: sample_offsets sample_pages_def)
  obtain s' T' fs' where s': "paging_map_region sample_device sample_paging = Some (ok, s')" "tables_ok s' ?P T' fs'"
    "\<forall>ram ram'. backs ram sample_paging ?P \<longrightarrow> backs ram' s' ?P \<longrightarrow>
       region_translated sample_device (mmu ram 0x500000) (mmu ram' 0x500000)"
    using paging_map_region_maps [OF sample_tables sample_mmu_ok sample_add sample_apart d(1,2) n d(3-6) sample_root] by blast
  note r = ram_of_backs [OF sample_tables] ram_of_backs [OF s'(2)]
  have v: "region_translated sample_device (mmu (ram_of sample_paging) 0x500000) (mmu (ram_of s') 0x500000)" using s'(3) r by blast
  have b: "bit (2 :: u16) 1" "\<not> bit (2 :: u16) 2" by code_simp+
  have "mmu (ram_of s') 0x500000 0xFEBC1FFF =
      Some (Some \<lparr>tr_paddr = 0xFEBC1FFF, tr_writable = True, tr_user = False, tr_caching = Uncached\<rparr>)"
    using conjunct1 [OF v [unfolded region_translated_def], rule_format, of "0x1FFF"] b by (simp add: region_len_def sample_device_def)
  moreover have "page_of 0xFEBC2000 \<noteq> page_of (0xFEBC0000 + d)" if "0 \<le> d" "d < 0x2000" for d
  proof -
    have "(0xFEBC0000 + d) div 4096 < 0xFEBC2" "0 \<le> (0xFEBC0000 + d) div 4096" using that by simp_all
    then show ?thesis by (simp add: page_of_def take_bit_eq_mod drop_bit_eq_div)
  qed
  then have "mmu (ram_of s') 0x500000 0xFEBC2000 = mmu (ram_of sample_paging) 0x500000 0xFEBC2000"
    using conjunct2 [OF v [unfolded region_translated_def], rule_format, of "0xFEBC2000"] by (simp add: region_len_def sample_device_def)
  ultimately show ?thesis using s'(1) sample_mmu [OF r(1)] by simp
qed

theorem paging_region_roundtrip_witness:
  "\<exists>s1 s2. paging_map_region sample_device sample_paging = Some (ok, s1) \<and>
    paging_unmap_region sample_device s1 = Some (ok, s2) \<and>
    used (pg_mappings s2) = used (pg_mappings sample_paging) \<and> (\<forall>w. pt_walk s2 w = pt_walk sample_paging w) \<and>
    mmu (ram_of s2) 0x500000 0xFEBC0000 = Some None"
proof -
  let ?P = "set (0x100000 # sample_pages)"
  have d: "perms_ok (am_perms sample_device)" "0 < am_len sample_device" "am_len sample_device \<le> 2 ^ 48" "rw_us (am_perms sample_device)"
    by (simp_all add: sample_device_def perms_ok_def rw_us_2)
  have n: "3 * length (page_offsets (am_len sample_device)) \<le> length sample_pages" by (simp add: sample_offsets sample_pages_def)
  have w: "\<forall>off \<in> set (page_offsets (am_len sample_device)). pt_walk sample_paging (am_vbase sample_device + off) = Some None"
    by (simp add: sample_walk)
  obtain s1 s2 T' fs' where r: "paging_map_region sample_device sample_paging = Some (ok, s1)"
    "paging_unmap_region sample_device s1 = Some (ok, s2)" "tables_ok s2 ?P T' fs'"
    "used (pg_mappings s2) = used (pg_mappings sample_paging)" "\<forall>w. pt_walk s2 w = pt_walk sample_paging w"
    "\<forall>ram ram' root w. mmu_ok sample_paging [[] \<mapsto> 0x100000] \<longrightarrow> rw_us (am_perms sample_device) \<longrightarrow>
       virt_to_phys (pg_pml4 sample_paging) (pg_mappings sample_paging) = Some (Inr root) \<longrightarrow>
       backs ram sample_paging ?P \<longrightarrow> backs ram' s2 ?P \<longrightarrow> mmu_ok s2 T' \<and> mmu ram' root w = mmu ram root w"
    using paging_region_roundtrip [OF sample_tables sample_add sample_apart d(1-3) n w] by blast
  note b = ram_of_backs [OF sample_tables] ram_of_backs [OF r(3)]
  show ?thesis using r(1,2,4,5) r(6) [rule_format, OF sample_mmu_ok d(4) sample_root b, of "0xFEBC0000"] sample_mmu [OF b(1)] by auto
qed

text \<open>Three levels of tables for the first gigabytes, no last level, and an empty pool.\<close>

definition full_words :: words where
  "full_words x = (if 0x100000 \<le> x \<and> x < 0x108000 \<and> x mod 8 = 0
     then Some (if x = 0x100000 then 0x501003 else if x = 0x101000 then 0x502003 else 0) else None)"

definition full_paging :: paging where
  "full_paging = sample_paging\<lparr>pg_words := full_words, pg_pool := \<lparr>pl_head = 0, pl_size = 4096\<rparr>\<rparr>"

definition full_tables :: tables where
  "full_tables = [[] \<mapsto> 0x100000, [0] \<mapsto> 0x101000, [0, 0] \<mapsto> 0x102000]"

lemma full_entry:
  assumes "a \<in> {0x100000, 0x101000, 0x102000}" "i \<in> {0 ..< 512}"
  shows "entry (pg_words full_paging) a i =
    (if i = 0 \<and> a = 0x100000 then 0x501003 else if i = 0 \<and> a = 0x101000 then 0x502003 else 0)"
proof -
  have "(a + 8 * i) mod 8 = 0" using assms(1) by (auto simp: mod_simps)
  then show ?thesis using assms page_addr_eq [of a "0x100000" i 0] page_addr_eq [of a "0x101000" i 0]
    by (auto simp: entry_def pte_get_def full_paging_def full_words_def)
qed

lemma full_paddr: "paddr_from_pte 0x501003 = 0x501000" "paddr_from_pte 0x502003 = 0x502000"
  by (simp_all add: paddr_from_pte_def)

lemma full_sample_ok: "tables_ok full_paging {0x100000, 0x101000, 0x102000} full_tables []"
proof (rule tables_okI)
  show "page_ok (pg_mappings full_paging) (pg_words full_paging) b" if "b \<in> {0x100000, 0x101000, 0x102000}" for b
  proof -
    have "page_ok (pg_mappings sample_paging) sample_words b" using sample_page_ok [of b] that by (auto simp: sample_pages_def)
    moreover have "full_words x = None \<longleftrightarrow> sample_words x = None" for x by (simp add: full_words_def sample_words_def)
    ultimately show ?thesis by (simp add: page_ok_def full_paging_def)
  qed
  show "no_null_page (pg_words full_paging)" by (simp add: no_null_page_def full_paging_def full_words_def)
  show "child_ok (pg_mappings full_paging) (full_tables (p @ [i])) (entry (pg_words full_paging) a i)"
    if "full_tables p = Some a" "i \<in> {0 ..< 512}" for p a i
  proof -
    have "a \<in> {0x100000, 0x101000, 0x102000}" using that(1) by (auto simp: full_tables_def split: if_splits)
    note e = full_entry [OF this that(2)]
    have m: "pg_mappings full_paging = pg_mappings sample_paging" by (simp add: full_paging_def)
    have "p = [] \<and> a = 0x100000 \<or> p = [0] \<and> a = 0x101000 \<or> p = [0, 0] \<and> a = 0x102000"
      using that(1) unfolding full_tables_def by (simp split: if_splits)
    then consider "p = []" "a = 0x100000" | "p = [0]" "a = 0x101000" | "p = [0, 0]" "a = 0x102000" by blast
    then show ?thesis
      using sample_translate(2) [of "0x101000"] sample_translate(2) [of "0x102000"] unfolding e m
      by cases (simp_all add: full_tables_def child_ok_def present_def PT_FLAG_P_def full_paddr)
  qed
qed (auto simp: free_blocks_def full_paging_def sample_paging_def full_tables_def split: if_splits)

theorem pt_map_exhausted_writes_null_witness:
  "pt_map 0x1000 0x7000 2 ADDR_MAPPING_MEMORY_WRITE_BACK full_paging = None \<and>
    (\<exists>s'. pt_map 0x40000000 0x7000 2 ADDR_MAPPING_MEMORY_WRITE_BACK full_paging = Some (Inl ENOMEM, s'))"
proof -
  have i: "i4 0x1000 = 0" "i3 0x1000 = 0" "i2 0x1000 = 0" "i4 0x40000000 = 0" "i3 0x40000000 = 1"
    by (simp_all add: PT_IDX_eq PML4_BIT_BASE_def PDPT_BIT_BASE_def PD_BIT_BASE_def take_bit_eq_mod drop_bit_eq_div)
  show ?thesis
    by (rule pt_map_exhausted_writes_null [OF full_sample_ok, where pd = "0x102000" and pdpt = "0x101000"])
      (simp_all add: i full_tables_def perms_ok_def)
qed

end
