(* ===== verification/NetInput.thy ===== *)
theory NetInput
  imports TcpProps
begin

text \<open>
  Packets that come in: the memory of the input queue (the rest of src/net/netdev.c), the dispatch of
  IPv4 datagrams (src/net/ip.c), and the task that takes packets out of the queue and handles them
  (src/init.c). A packet on the wire is followed from the interrupt to the answer.
\<close>

section \<open>The memory of the queue\<close>

text \<open>The buffers of the packets so far are kept, in order to free them if the memory is exhausted.\<close>

fun free_inputs :: "(addr \<times> sz) list \<Rightarrow> kvalloc \<Rightarrow> kvalloc option" where
  "free_inputs [] kv = Some kv"
| "free_inputs (ba # bas) kv = do { kv \<leftarrow> kvalloc_free ba kv; free_inputs bas kv }"

fun init_inputs :: "nat list \<Rightarrow> (addr \<times> sz) list \<Rightarrow> 'd input_packet list \<Rightarrow> kvalloc \<Rightarrow>
    (unit res \<times> 'd input_packet list \<times> kvalloc) option" where
  "init_inputs [] bas queue kv = Some (ok, queue, kv)"
| "init_inputs (i # is) bas queue kv = do {
     (mem, kv) \<leftarrow> kvalloc_alloc NETDEV_INPUT_PACKET_SIZE 64 kv;
     case mem of
       None \<Rightarrow> do { kv \<leftarrow> free_inputs bas kv; Some (Inl ENOMEM, queue, kv) }
     | Some (a, n) \<Rightarrow> do {
         pkt \<leftarrow> peek queue (int i);
         queue \<leftarrow> poke queue (int i) (pkt\<lparr>ip_data := byte_buf_from_array (replicate (nat n) 0)\<rparr>);
         init_inputs is (bas @ [(a, n)]) queue kv
       }
   }"

definition netdev_init_input_queue :: "('d, 'z) tcp_net_scheme \<Rightarrow> (unit res \<times> ('d, 'z) tcp_net_scheme) option" where
  "netdev_init_input_queue s = do {
     (res, queue, kv) \<leftarrow> init_inputs [0 ..< NETDEV_INPUT_QUEUE_SIZE] [] (net_queue s) (tcp_kv s);
     let s = s\<lparr>net_queue := queue, tcp_kv := kv\<rparr>;
     if is_error res then Some (res, s)
     else Some (ok, s\<lparr>net_queue_tail := 0, net_queue_head := 0, net_queue_is_initialized := True\<rparr>)
   }"

section \<open>Datagrams\<close>

text \<open>
  A total length below the size of the header makes a view of negative length; both protocols drop it at
  their first test, like the empty payload that it is here.
\<close>

definition ipv4_handle_packet ::
  "'d input_packet \<Rightarrow> send_buf \<Rightarrow> ('d, 'z) tcp_net_scheme \<Rightarrow> (unit res \<times> ('d, 'z) tcp_net_scheme) option" where
  "ipv4_handle_packet pkt sb s =
     (let data = byte_view_from_buf (ip_data pkt) in
      if bb_len (ip_data pkt) < IPV4_HEADER_SIZE then Some (ok, s)
      else
        let ip_hdr = ipv4_header_of data; total_length = uint (u16_from_net_u16 (ih_total_length ip_hdr)) in
        if ih_version ip_hdr \<noteq> 4 then Some (ok, s)
        else if \<not> ipv4_checksum_is_ok data then Some (ok, s)
        else if uint (ih_ihl ip_hdr) * 4 \<noteq> IPV4_HEADER_SIZE then Some (ok, s)
        else case ip_netdev pkt of
            None \<Rightarrow> None
          | Some netdev \<Rightarrow>
              if total_length > bb_len (ip_data pkt) then Some (ok, s)
              else
                let payload = take (nat (total_length - IPV4_HEADER_SIZE)) (drop (nat IPV4_HEADER_SIZE) data) in
                if ih_protocol ip_hdr = IPV4_PROTOCOL_ICMP then icmpv4_handle_message (ih_src_addr ip_hdr) payload sb s
                else if ih_protocol ip_hdr = IPV4_PROTOCOL_TCP then
                  tcp_handle_packet
                    \<lparr>ph_src_addr = ih_src_addr ip_hdr, ph_dest_addr = ih_dest_addr ip_hdr, ph_zero = 0,
                     ph_protocol = ih_protocol ip_hdr,
                     ph_tcp_length = net_u16_from_u16 (word_of_int (total_length - IPV4_HEADER_SIZE))\<rparr>
                    payload sb s
                else Some (ok, s))"

section \<open>The receiving task\<close>

text \<open>
  One round of the loop of \<open>task_net_receive\<close>: the value of \<open>res\<close> is kept between the rounds, the flag says
  whether the round ends with a sleep. The send buffer of the context is cleared in place.
\<close>

definition net_receive_round ::
  "unit res \<Rightarrow> send_buf \<Rightarrow> ('d, 'z) tcp_net_scheme \<Rightarrow>
     (unit res \<times> bool \<times> send_buf \<times> ('d, 'z) tcp_net_scheme) option" where
  "net_receive_round res sb s = do {
     in_packet \<leftarrow> netdev_get_input s;
     case in_packet of
       None \<Rightarrow> Some (res, True, sb, s)
     | Some i \<Rightarrow> do {
         pkt \<leftarrow> peek (net_queue s) (int i);
         if ip_n_failed_to_handle pkt > 5 then do {
           s \<leftarrow> netdev_release_input i s;
           Some (res, False, sb, s)
         }
         else do {
           let sb = send_buf_clear sb;
           (res, s) \<leftarrow>
             (if ip_proto pkt = NETDEV_PROTO_ARP then arp_handle_packet pkt sb s
              else if ip_proto pkt = NETDEV_PROTO_IPV4 then ipv4_handle_packet pkt sb s
              else Some (res, s));
           if is_error res then do {
             pkt \<leftarrow> peek (net_queue s) (int i);
             queue \<leftarrow> poke (net_queue s) (int i) (pkt\<lparr>ip_n_failed_to_handle := ip_n_failed_to_handle pkt + 1\<rparr>);
             Some (res, True, sb, s\<lparr>net_queue := queue\<rparr>)
           }
           else do {
             s \<leftarrow> netdev_release_input i s;
             Some (res, True, sb, s)
           }
         }
       }
   }"

section \<open>The queue after its initialisation\<close>

lemma kvalloc_alloc_len: "kvalloc_alloc n al kv = Some (Some (a, len), kv') \<Longrightarrow> len = ALIGN_UP n PAGE_SIZE"
  by (auto simp: kvalloc_alloc_def Let_def bind_eq_Some_conv)

lemma init_inputs_ok:
  "init_inputs is bas queue kv = Some (ok, queue', kv') \<Longrightarrow>
     length queue' = length queue \<and>
     (\<forall>i < length queue. ip_data (queue' ! i) =
       (if i \<in> set is then byte_buf_from_array (replicate 4096 0) else ip_data (queue ! i)))"
proof (induction "is" bas queue kv arbitrary: queue' kv' rule: init_inputs.induct)
  case (2 i js bas queue kv)
  obtain mem kv1 where m: "kvalloc_alloc NETDEV_INPUT_PACKET_SIZE 64 kv = Some (mem, kv1)"
    using 2(2) by (auto simp: bind_eq_Some_conv)
  obtain a n where an: "mem = Some (a, n)"
  proof (cases mem)
    case None
    then show ?thesis using 2(2) m by (auto simp: bind_eq_Some_conv)
  qed auto
  have n: "n = 4096"
    using kvalloc_alloc_len m an by (fastforce simp: NETDEV_INPUT_PACKET_SIZE_def PAGE_SIZE_def ALIGN_UP_def)
  let ?b = "byte_buf_from_array (replicate 4096 0)"
  obtain pkt q where q: "peek queue (int i) = Some pkt" "poke queue (int i) (pkt\<lparr>ip_data := ?b\<rparr>) = Some q"
    "init_inputs js (bas @ [(a, n)]) q kv1 = Some (ok, queue', kv')"
    using 2(2) m an n by (auto simp: bind_eq_Some_conv)
  have i: "i < length queue" "q = queue[i := pkt\<lparr>ip_data := ?b\<rparr>]"
    using q(1,2) by (auto simp: peek_def poke_def split: if_splits)
  have IH: "length queue' = length q \<and> (\<forall>j < length q. ip_data (queue' ! j) =
      (if j \<in> set js then ?b else ip_data (q ! j)))" using 2(1) m an q(1,3) i n by fastforce
  then show ?case using i by (auto simp: nth_list_update)
qed simp

lemma input_queue_initialised:
  assumes "netdev_init_input_queue s = Some (ok, s')" "length (net_queue s) = NETDEV_INPUT_QUEUE_SIZE"
  shows "wf_queue s' \<and> queue_items s' = []"
proof -
  obtain r queue kv where r: "init_inputs [0 ..< NETDEV_INPUT_QUEUE_SIZE] [] (net_queue s) (tcp_kv s) = Some (r, queue, kv)"
    using assms(1) by (auto simp: netdev_init_input_queue_def bind_eq_Some_conv)
  then have "\<not> is_error r" using assms(1) by (cases r) (auto simp: netdev_init_input_queue_def Let_def)
  then have q: "init_inputs [0 ..< NETDEV_INPUT_QUEUE_SIZE] [] (net_queue s) (tcp_kv s) = Some (ok, queue, kv)"
    "s' = s\<lparr>net_queue := queue, tcp_kv := kv, net_queue_tail := 0, net_queue_head := 0, net_queue_is_initialized := True\<rparr>"
    using assms(1) r by (cases r; auto simp: netdev_init_input_queue_def Let_def)+
  have l: "length queue = NETDEV_INPUT_QUEUE_SIZE" "\<forall>i < length queue. ip_data (queue ! i) = byte_buf_from_array (replicate 4096 0)"
    using init_inputs_ok [OF q(1)] assms(2) by auto
  have "wf_buf (ip_data pkt) \<and> bb_cap (ip_data pkt) = INPUT_BUF_CAP" if pkt: "pkt \<in> set queue" for pkt
  proof -
    obtain i where "i < length queue" "queue ! i = pkt" using pkt unfolding in_set_conv_nth by blast
    then have "ip_data pkt = byte_buf_from_array (replicate 4096 0)" using l(2) by blast
    then show ?thesis by (simp add: INPUT_BUF_CAP_def)
  qed
  then show ?thesis using q(2) l(1)
    by (simp add: wf_queue_def queue_items_def queue_used_def NETDEV_INPUT_QUEUE_SIZE_def)
qed

section \<open>What is sent arrives\<close>

text \<open>The header of a datagram, read back.\<close>

lemma ipv4_header_read:
  assumes "0 \<le> len" "len \<le> 65515"
  shows "ipv4_header_of (ipv4_header_bytes (ipv4_make_header src dst proto len) @ rest) = ipv4_make_header src dst proto len"
    "ih_version (ipv4_make_header src dst proto len) = 4" "ih_ihl (ipv4_make_header src dst proto len) = 5"
    "uint (u16_from_net_u16 (ih_total_length (ipv4_make_header src dst proto len))) = 20 + len"
    "ih_protocol (ipv4_make_header src dst proto len) = proto"
    "ih_src_addr (ipv4_make_header src dst proto len) = src" "ih_dest_addr (ipv4_make_header src dst proto len) = dst"
proof -
  have "uint (word_of_int (20 + len) :: u16) = 20 + len"
    unfolding uint_word_of_int_eq using assms by (intro take_bit_int_eq_self) simp_all
  then show "uint (u16_from_net_u16 (ih_total_length (ipv4_make_header src dst proto len))) = 20 + len"
    by (simp add: ipv4_make_header_def Let_def IPV4_HEADER_SIZE_def)
  show "ipv4_header_of (ipv4_header_bytes (ipv4_make_header src dst proto len) @ rest) = ipv4_make_header src dst proto len"
    by (rule ipv4_header_roundtrip) (simp_all add: ipv4_make_header_def Let_def)
qed (simp_all add: ipv4_make_header_def Let_def)

lemma ipv4_handle_packet_content:
  assumes "byte_view_from_buf (ip_data pkt) =
      ipv4_header_bytes (ipv4_make_header src dst proto (int (length content))) @ content @ padding"
    and "wf_buf (ip_data pkt)" "length content \<le> 65515" "ip_netdev pkt = Some netdev"
  shows "ipv4_handle_packet pkt sb s =
    (if proto = IPV4_PROTOCOL_ICMP then icmpv4_handle_message src content sb s
     else if proto = IPV4_PROTOCOL_TCP then
       tcp_handle_packet (tcp_pseudo_header src dst (int (length content))) content sb s
     else Some (ok, s))"
proof -
  let ?h = "ipv4_make_header src dst proto (int (length content))"
  have r: "0 \<le> int (length content)" "int (length content) \<le> 65515" using assms(3) by simp_all
  note h = ipv4_header_read(2-7) [OF r, of src dst proto]
  have of: "ipv4_header_of (byte_view_from_buf (ip_data pkt)) = ?h"
    unfolding assms(1) by (rule ipv4_header_read(1) [OF r])
  have len: "bb_len (ip_data pkt) = 20 + int (length content) + int (length padding)"
    using byte_view_from_buf_length [OF assms(2)] assms(1,2) by (simp add: wf_buf_def)
  have c: "ipv4_checksum_is_ok (byte_view_from_buf (ip_data pkt))"
    using ipv4_make_header_ok [of src dst proto "int (length content)"]
    unfolding assms(1) by (simp add: ipv4_checksum_is_ok_def IPV4_HEADER_SIZE_def)
  have p: "take (nat (20 + int (length content) - IPV4_HEADER_SIZE))
      (drop (nat IPV4_HEADER_SIZE) (byte_view_from_buf (ip_data pkt))) = content"
    unfolding assms(1) by (simp add: IPV4_HEADER_SIZE_def)
  show ?thesis
    unfolding ipv4_handle_packet_def Let_def of h p assms(4) option.case
    using c len by (simp add: tcp_pseudo_header_def IPV4_HEADER_SIZE_def)
qed

text \<open>
  C25: A datagram as \<open>ipv4_prepend_header\<close> builds it, in a packet that may be padded behind it, is handed to
  its protocol with exactly the content and the addresses that were sent; other protocols are dropped.
\<close>

theorem ipv4_handle_delivers:
  assumes "byte_view_from_buf (ip_data pkt) =
      ipv4_header_bytes (ipv4_make_header src dst proto (int (length content))) @ content @ padding"
    and "wf_buf (ip_data pkt)" "length content \<le> 65515" "ip_netdev pkt = Some netdev"
  shows "ipv4_handle_packet pkt sb s =
    (if proto = IPV4_PROTOCOL_ICMP then icmpv4_handle_message src content sb s
     else if proto = IPV4_PROTOCOL_TCP then
       tcp_handle_packet (tcp_pseudo_header src dst (int (length content))) content sb s
     else Some (ok, s))"
  by (rule ipv4_handle_packet_content [OF assms])

section \<open>A ping from the wire to the wire\<close>

lemma arena_alloc_room:
  assumes "0 \<le> n" "ar_beg arn + n + 7 \<le> ar_end arn"
  obtains p arn' where "arena_alloc arn n = Some (p, arn')" "ar_end arn' = ar_end arn" "ar_beg arn' \<le> ar_beg arn + n + 7"
proof -
  let ?p = "ar_beg arn + (- ar_beg arn) mod 2 ^ 3"
  have "(- ar_beg arn) mod 2 ^ 3 \<le> (7 :: int)" "0 \<le> (- ar_beg arn) mod (2 :: int) ^ 3"
    using pos_mod_bound [of "2 ^ 3" "- ar_beg arn"] by simp_all
  then have "arena_alloc_aligned arn n (2 ^ 3) = Some (?p, arn\<lparr>ar_beg := ?p + n\<rparr>)"
    using assms unfolding arena_alloc_aligned_Some by simp
  then show thesis using that [of ?p "arn\<lparr>ar_beg := ?p + n\<rparr>"] assms \<open>_ \<le> 7\<close> by (simp add: arena_alloc_def)
qed

text \<open>The round that takes the only packet out of the queue and handles it.\<close>

lemma net_receive_first:
  assumes "wf_queue s" "queue_items s = []" "ip_n_failed_to_handle pkt = 0" "ip_proto pkt = NETDEV_PROTO_IPV4"
    "wf_buf (ip_data pkt)" "bb_cap (ip_data pkt) = 4096"
    "ipv4_handle_packet pkt (send_buf_clear sb) (queue_with pkt s) = Some (ok, (queue_with pkt s)\<lparr>net_drv := drv\<rparr>)"
  shows "\<exists>s2. net_receive_round res sb (queue_with pkt s) = Some (ok, True, send_buf_clear sb, s2) \<and>
    net_drv s2 = drv \<and> wf_queue s2 \<and> queue_items s2 = []"
proof -
  let ?h = "net_queue_head s" and ?t = "net_queue_tail s"
  have b: "?h < 64" "?t < 64" "length (net_queue s) = 64" "net_queue_is_initialized s"
    using assms(1) by (auto simp: wf_queue_def NETDEV_INPUT_QUEUE_SIZE_def)
  have "queue_used s = 0" using assms(2) by (metis queue_items_length list.size(3))
  then have th: "?t = ?h" using queue_arith(4) [OF b(1,2)] by (simp add: queue_used_def NETDEV_INPUT_QUEUE_SIZE_def)
  have ne: "?h \<noteq> (?h + 1) mod 64" using b(1) by (cases "?h = 63") simp_all
  let ?s2 = "(queue_with pkt s)\<lparr>net_drv := drv, net_queue_tail := (?h + 1) mod 64\<rparr>"
  have get: "netdev_get_input (queue_with pkt s) = Some (Some ?h)"
    using b th ne by (simp add: netdev_get_input_def)
  have release: "netdev_release_input ?h ((queue_with pkt s)\<lparr>net_drv := drv\<rparr>) = Some ?s2"
    using b th ne by (simp add: netdev_release_input_def NETDEV_INPUT_QUEUE_SIZE_def)
  have peek: "peek (net_queue (queue_with pkt s)) (int ?h) = Some pkt" using b by simp
  have "NETDEV_PROTO_IPV4 \<noteq> NETDEV_PROTO_ARP" by (simp add: NETDEV_PROTO_IPV4_def NETDEV_PROTO_ARP_def)
  then have round: "net_receive_round res sb (queue_with pkt s) = Some (ok, True, send_buf_clear sb, ?s2)"
    unfolding net_receive_round_def get bind.bind_lunit option.case peek
    using assms(3,4,7) release by simp
  have "queue_used ?s2 = 0" using b(1) by (simp add: queue_used_def NETDEV_INPUT_QUEUE_SIZE_def)
  then have empty: "queue_items ?s2 = []" by (simp add: queue_items_def)
  have "wf_queue ?s2"
    using assms(1,5,6) by (auto simp: wf_queue_def NETDEV_INPUT_QUEUE_SIZE_def INPUT_BUF_CAP_def
        dest!: set_update_subset_insert [THEN subsetD])
  then show ?thesis using round empty by (intro exI [of _ ?s2]) simp
qed

text \<open>
  C24: A ping is answered on the wire. The frame with an echo request, padded or not, arrives at the device
  of the host by the interrupt; the next round of the receiving task gives the driver one
  frame, to the next hop on the route to the sender, with the echo reply that carries the same data, valid checksums,
  and the addresses exchanged; the input queue is empty again.
\<close>

theorem ping_is_answered:
  fixes s :: "('d, 'z) tcp_net_scheme"
  assumes "wf_queue s" "queue_items s = []" "nd_link_type dev = NETDEV_LINK_TYPE_ETHERNET"
    and "dest_mac = nd_mac_addr dev \<or> dest_mac = MAC_ADDR_BROADCAST"
    and "message = [ICMPV4_TYPE_ECHO, 0, c0, c1] @ data" "icmpv4_checksum_is_ok message" "4 \<le> length data"
    and "length message + length padding \<le> 2000"
    and "ipv4_route_get_entry src s = Some route" "netdev_lookup_ip_addr (re_interface route) s = Some nd"
    and "nd_link_type nd = NETDEV_LINK_TYPE_ETHERNET" "arp_ok (arp_table s)"
    and "arp_map (arp_table s) (if re_gateway route = re_interface route then src else re_gateway route) = Some mac"
    and "wf_sb sb" "ar_beg (sb_orig_arn sb) + 2200 \<le> ar_end (sb_orig_arn sb)"
  shows "\<exists>s1 reply. netdev_intr_receive dev (frame_to dest_mac sender 0x0800
        (ipv4_header_bytes (ipv4_make_header src dst IPV4_PROTOCOL_ICMP (int (length message))) @ message @ padding)) s = Some s1 \<and>
    sb_content reply = frame_to mac nd 0x0800
      (ipv4_header_bytes (ipv4_make_header (nd_ip_addr nd) src IPV4_PROTOCOL_ICMP (int (length message))) @
       icmp_with_checksum ICMPV4_TYPE_ECHO_REPLY data) \<and>
    (\<forall>drv. nd_send_frame nd reply (net_drv s) = Some (ok, drv) \<longrightarrow>
      (\<exists>s2. net_receive_round res sb s1 = Some (ok, True, send_buf_clear sb, s2) \<and>
        net_drv s2 = drv \<and> wf_queue s2 \<and> queue_items s2 = []))"
proof -
  let ?dgram = "ipv4_header_bytes (ipv4_make_header src dst IPV4_PROTOCOL_ICMP (int (length message))) @ message @ padding"
  let ?hop = "if re_gateway route = re_interface route then src else re_gateway route"
  have used: "queue_used s < 63" using assms(2) by (metis queue_items_length list.size(3) zero_less_numeral)
  obtain d where d: "netdev_intr_input_queue_add (nd_mac_addr sender) dev NETDEV_PROTO_IPV4 ?dgram s =
      Some (ok, queue_with (stored_packet (nd_mac_addr sender) dev NETDEV_PROTO_IPV4 d s) s)"
    "wf_buf d" "bb_cap d = 4096" "byte_view_from_buf d = take 4096 ?dgram"
    using queue_add_state [OF assms(1) used] by blast
  let ?pkt = "stored_packet (nd_mac_addr sender) dev NETDEV_PROTO_IPV4 d s"
  let ?s1 = "queue_with ?pkt s"
  have dv: "byte_view_from_buf (ip_data ?pkt) = ?dgram" using d(4) assms(8) by simp
  have t: "ethernet_type_from_netdev_proto NETDEV_PROTO_IPV4 = Some 0x0800"
    by (simp add: ethernet_type_from_netdev_proto_def ETHERNET_PTYPE_IPV4_def)
  have init: "net_queue_is_initialized s" using assms(1) by (simp add: wf_queue_def)
  have arrive: "netdev_intr_receive dev (frame_to dest_mac sender 0x0800 ?dgram) s = Some ?s1"
    unfolding intr_receive_frame [OF t init assms(3,4)] d(1) by simp
  let ?sb = "send_buf_clear sb"
  have sb: "wf_sb ?sb" "sb_n_used ?sb = 0" "sb_arn ?sb = sb_orig_arn sb" "sb_orig_arn ?sb = sb_orig_arn sb"
    using assms(14) by (simp_all add: send_buf_clear_def wf_sb_def)
  let ?n = "4 + int (length data)"
  have lm: "length message = 4 + length data" using assms(5) by simp
  obtain p1 a1 where a1: "arena_alloc (sb_arn ?sb) ?n = Some (p1, a1)" "ar_end a1 = ar_end (sb_orig_arn sb)"
    "ar_beg a1 \<le> ar_beg (sb_orig_arn sb) + ?n + 7"
    by (rule arena_alloc_room [of ?n "sb_arn ?sb"]) (use sb(3) assms(8,15) lm in auto)
  obtain p2 a2 where a2: "arena_alloc a1 20 = Some (p2, a2)" "ar_end a2 = ar_end a1" "ar_beg a2 \<le> ar_beg a1 + 20 + 7"
    by (rule arena_alloc_room [of 20 a1]) (use a1 assms(8,15) lm in auto)
  obtain p3 a3 where a3: "arena_alloc a2 14 = Some (p3, a3)"
    by (rule arena_alloc_room [of 14 a2]) (use a1 a2 assms(8,15) lm in auto)
  obtain p4 a4 where a4: "arena_alloc (sb_orig_arn sb) 28 = Some (p4, a4)" "ar_end a4 = ar_end (sb_orig_arn sb)"
    "ar_beg a4 \<le> ar_beg (sb_orig_arn sb) + 28 + 7"
    by (rule arena_alloc_room [of 28 "sb_orig_arn sb"]) (use assms(15) in auto)
  obtain p5 a5 where a5: "arena_alloc a4 14 = Some (p5, a5)"
    by (rule arena_alloc_room [of 14 a4]) (use a4 assms(15) in auto)
  have ld: "length data \<le> 65511" using lm assms(8) by simp
  obtain sb' where r: "wf_sb sb'" "sb_arn sb' = a1" "sb_n_used sb' = 1" "sb_orig_arn sb' = sb_orig_arn sb"
    "sb_content sb' = icmp_with_checksum ICMPV4_TYPE_ECHO_REPLY data"
    "icmpv4_handle_message src message ?sb ?s1 = ipv4_send_packet src IPV4_PROTOCOL_ICMP sb' ?s1"
    using icmp_echo_reply [OF assms(6,5,7) ld sb(1,2) a1(1), of src ?s1] sb(4) by auto
  have lr: "length (sb_content sb') = length message"
    unfolding r(5) lm by (simp add: icmp_with_checksum_def)
  have route: "ipv4_route_get_entry src ?s1 = Some route" "netdev_lookup_ip_addr (re_interface route) ?s1 = Some nd"
    "arp_ok (arp_table ?s1)"
    using assms(9,10,12) by (simp_all add: ipv4_route_get_entry_def netdev_lookup_ip_addr_def)
  have "sb_n_used sb' < 7" "length (sb_content sb') \<le> 65515" using r(3) lr assms(8) by simp_all
  note out = ipv4_send_outcome [OF route(1,2) assms(11) route(3) r(1) this, of p2 a2 p3 a3 p4 a4 p5 a5 ?hop IPV4_PROTOCOL_ICMP]
  have "arp_map (arp_table ?s1) ?hop = Some mac" using assms(13) by simp
  then obtain reply where reply: "sb_content reply = frame_to mac nd 0x0800
      (ipv4_header_bytes (ipv4_make_header (nd_ip_addr nd) src IPV4_PROTOCOL_ICMP (int (length message))) @ sb_content sb')"
    "ipv4_send_packet src IPV4_PROTOCOL_ICMP sb' ?s1 =
      map_option (\<lambda>(r, drv). (r, ?s1\<lparr>net_drv := drv\<rparr>)) (nd_send_frame nd reply (net_drv ?s1))"
    using out a2(1) a3 a4(1) a5 r(2,4) lr by (auto simp del: frame_to_def)
  have lc: "length message \<le> 65515" using assms(8) by simp
  have handled: "ipv4_handle_packet ?pkt ?sb ?s1 = ipv4_send_packet src IPV4_PROTOCOL_ICMP sb' ?s1"
    using ipv4_handle_packet_content [OF dv _ lc, of dev ?sb ?s1] d(2) r(6) by simp
  have fin: "\<exists>s2. net_receive_round res sb ?s1 = Some (ok, True, ?sb, s2) \<and> net_drv s2 = drv \<and> wf_queue s2 \<and> queue_items s2 = []"
    if "nd_send_frame nd reply (net_drv s) = Some (ok, drv)" for drv
    by (rule net_receive_first [OF assms(1,2)]) (use d(2,3) handled reply(2) that in simp_all)
  show ?thesis using arrive reply(1) fin r(5) by (intro exI [of _ ?s1] exI [of _ reply]) simp
qed

section \<open>Examples\<close>

lemma sample_tcp_net:
  "wf_queue sample_tcp" "queue_items sample_tcp = []" "arp_table sample_tcp = sample_arp_table"
  "ipv4_route_get_entry (Ipv4 8 8 8 8) sample_tcp = Some sample_route"
  "netdev_lookup_ip_addr (Ipv4 10 0 0 2) sample_tcp = Some sample_net_dev" "net_drv sample_tcp = []"
proof -
  show "wf_queue sample_tcp" "queue_items sample_tcp = []" "arp_table sample_tcp = sample_arp_table" "net_drv sample_tcp = []"
    by (simp_all add: sample_tcp_def sample_routes_def ip_net.extend_def arp_net.extend_def net.extend_def sample_net_def
      wf_queue_def sample_queue_def NETDEV_INPUT_QUEUE_SIZE_def INPUT_BUF_CAP_def queue_items_def queue_used_def)
  have "ipv4_route_get_entry (Ipv4 8 8 8 8) sample_tcp = ipv4_route_get_entry (Ipv4 8 8 8 8) sample_routes"
    by (simp add: ipv4_route_get_entry_def sample_tcp_def ip_net.extend_def)
  then show "ipv4_route_get_entry (Ipv4 8 8 8 8) sample_tcp = Some sample_route" using sample_route_lookup by simp
  show "netdev_lookup_ip_addr (Ipv4 10 0 0 2) sample_tcp = Some sample_net_dev"
    by (simp add: sample_tcp_def sample_routes_def netdev_lookup_ip_addr_def sample_dev_def arp_net.extend_def
      net.extend_def ip_net.extend_def sample_net_def)
qed

definition sample_ping :: "byte list" where
  "sample_ping = [8, 0, 0x4d, 0xfc, 0, 1, 0, 2, 0xaa]"

lemma sample_ping_ok: "icmpv4_checksum_is_ok sample_ping" "sample_ping = [ICMPV4_TYPE_ECHO, 0, 0x4d, 0xfc] @ [0, 1, 0, 2, 0xaa]"
  unfolding sample_ping_def by code_simp (simp add: ICMPV4_TYPE_ECHO_def)

theorem ping_is_answered_witness:
  "\<exists>s1 reply. netdev_intr_receive sample_net_dev (frame_to (Mac 2 0 0 0 0 1) (sample_dev\<lparr>nd_mac_addr := Mac 2 0 0 0 0 7\<rparr>) 0x0800
        (ipv4_header_bytes (ipv4_make_header (Ipv4 8 8 8 8) (Ipv4 10 0 0 2) IPV4_PROTOCOL_ICMP (int (length sample_ping))) @
         sample_ping @ [0, 0, 0])) sample_tcp = Some s1 \<and>
    sb_content reply = frame_to (Mac 2 0 0 0 0 7) sample_net_dev 0x0800
      (ipv4_header_bytes (ipv4_make_header (nd_ip_addr sample_net_dev) (Ipv4 8 8 8 8) IPV4_PROTOCOL_ICMP (int (length sample_ping))) @
       icmp_with_checksum ICMPV4_TYPE_ECHO_REPLY [0, 1, 0, 2, 0xaa]) \<and>
    (\<exists>s2. net_receive_round ok (send_buf_new (arena_new 4096 4096)) s1 =
        Some (ok, True, send_buf_clear (send_buf_new (arena_new 4096 4096)), s2) \<and>
      net_drv s2 = sb_content reply \<and> wf_queue s2 \<and> queue_items s2 = [])"
proof -
  have "\<exists>s1 reply. netdev_intr_receive sample_net_dev (frame_to (Mac 2 0 0 0 0 1) (sample_dev\<lparr>nd_mac_addr := Mac 2 0 0 0 0 7\<rparr>) 0x0800
        (ipv4_header_bytes (ipv4_make_header (Ipv4 8 8 8 8) (Ipv4 10 0 0 2) IPV4_PROTOCOL_ICMP (int (length sample_ping))) @
         sample_ping @ [0, 0, 0])) sample_tcp = Some s1 \<and>
    sb_content reply = frame_to (Mac 2 0 0 0 0 7) sample_net_dev 0x0800
      (ipv4_header_bytes (ipv4_make_header (nd_ip_addr sample_net_dev) (Ipv4 8 8 8 8) IPV4_PROTOCOL_ICMP (int (length sample_ping))) @
       icmp_with_checksum ICMPV4_TYPE_ECHO_REPLY [0, 1, 0, 2, 0xaa]) \<and>
    (\<forall>drv. nd_send_frame sample_net_dev reply (net_drv sample_tcp) = Some (ok, drv) \<longrightarrow>
      (\<exists>s2. net_receive_round ok (send_buf_new (arena_new 4096 4096)) s1 =
          Some (ok, True, send_buf_clear (send_buf_new (arena_new 4096 4096)), s2) \<and>
        net_drv s2 = drv \<and> wf_queue s2 \<and> queue_items s2 = []))"
    by (rule ping_is_answered [OF sample_tcp_net(1,2) _ _ sample_ping_ok(2,1) _ _ sample_tcp_net(4)])
      (simp_all add: sample_tcp_net sample_ping_def sample_dev_def sample_arp_table_def arp_ok_def
        send_buf_new_def arena_new_def wf_sb_def)
  then show ?thesis by (simp add: sample_dev_def sample_tcp_net(6))
qed

definition sample_ping_packet :: "byte list input_packet" where
  "sample_ping_packet = \<lparr>ip_src = Mac 2 0 0 0 0 7, ip_netdev = Some sample_net_dev, ip_proto = NETDEV_PROTO_IPV4,
     ip_n_failed_to_handle = 0, ip_data = byte_buf_new
       (ipv4_header_bytes (ipv4_make_header (Ipv4 8 8 8 8) (Ipv4 10 0 0 2) 6 9) @ sample_ping @ [0, 0]) 31 31\<rparr>"

theorem ipv4_handle_delivers_witness:
  "ipv4_handle_packet sample_ping_packet (send_buf_new (arena_new 4096 4096)) sample_tcp =
    (if (6 :: u8) = IPV4_PROTOCOL_ICMP
     then icmpv4_handle_message (Ipv4 8 8 8 8) sample_ping (send_buf_new (arena_new 4096 4096)) sample_tcp
     else if 6 = IPV4_PROTOCOL_TCP then
       tcp_handle_packet (tcp_pseudo_header (Ipv4 8 8 8 8) (Ipv4 10 0 0 2) (int (length sample_ping))) sample_ping
         (send_buf_new (arena_new 4096 4096)) sample_tcp
     else Some (ok, sample_tcp))"
  by (rule ipv4_handle_delivers [where padding = "[0, 0]" and netdev = sample_net_dev])
    (simp_all add: sample_ping_packet_def sample_ping_def byte_view_from_buf_def byte_buf_new_def wf_buf_def)

end
