(* ===== verification/Rtcfg.thy ===== *)
theory Rtcfg
  imports NetAddr RamProps Buddy
begin

text \<open>
  The configuration at run time (src/rtcfg.c): the parser of the configuration text, shown to be a
  fold over the lines of the text, and reading it from the file system.
\<close>

section \<open>The parser\<close>

record runtime_config =
  host_ip :: "ipv4_addr option"
  local_ip :: "ipv4_addr option"
  local_ip_mask :: "ipv4_addr option"
  default_gateway_ip :: "ipv4_addr option"

definition NEWLINE :: byte where "NEWLINE = 10"

definition rtcfg_parse_option_ip_addr :: "byte list \<Rightarrow> (ipv4_addr_parsed res \<times> byte list) option" where
  "rtcfg_parse_option_ip_addr str = (
     let (consumed, str) = str_consume_prefix str (cstr ''='') in
     if \<not> consumed then Some (Inl EINVAL, str)
     else case str_find_char str NEWLINE of
         None \<Rightarrow> Some (Inl EINVAL, str)
       | Some substr_len \<Rightarrow> do {
           kassert (substr_len \<le> int (length str));
           pa_res \<leftarrow> ipv4_addr_parse (take (nat substr_len) str);
           if is_error pa_res then Some (pa_res, str)
           else Some (pa_res, drop (nat substr_len) str)
         })"

partial_function (option) rtcfg_parse :: "runtime_config \<Rightarrow> byte list \<Rightarrow> (unit res \<times> runtime_config) option" where
  "rtcfg_parse rtcfg str =
     (if str = [] then Some (ok, rtcfg)
      else if str_has_prefix str [NEWLINE] then rtcfg_parse rtcfg (snd (str_consume_prefix str [NEWLINE]))
      else if str_has_prefix str (cstr ''#'') then
        (let str = snd (str_consume_prefix str (cstr ''#'')) in
         case str_find_char str NEWLINE of
           None \<Rightarrow> Some (Inl EINVAL, rtcfg)
         | Some idx \<Rightarrow> rtcfg_parse rtcfg (drop (nat (idx + 1)) str))
      else if str_has_prefix str (cstr ''host_ip'') then do {
        (res, str) \<leftarrow> rtcfg_parse_option_ip_addr (snd (str_consume_prefix str (cstr ''host_ip'')));
        case res of
          Inl e \<Rightarrow> Some (Inl e, rtcfg)
        | Inr pa \<Rightarrow> rtcfg_parse (rtcfg\<lparr>host_ip := Some (pa_addr pa)\<rparr>) str
      }
      else if str_has_prefix str (cstr ''local_ip'') then do {
        (res, str) \<leftarrow> rtcfg_parse_option_ip_addr (snd (str_consume_prefix str (cstr ''local_ip'')));
        case res of
          Inl e \<Rightarrow> Some (Inl e, rtcfg)
        | Inr pa \<Rightarrow> rtcfg_parse (rtcfg\<lparr>local_ip := Some (pa_addr pa), local_ip_mask := Some (pa_mask pa)\<rparr>) str
      }
      else if str_has_prefix str (cstr ''default_gateway_ip'') then do {
        (res, str) \<leftarrow> rtcfg_parse_option_ip_addr (snd (str_consume_prefix str (cstr ''default_gateway_ip'')));
        case res of
          Inl e \<Rightarrow> Some (Inl e, rtcfg)
        | Inr pa \<Rightarrow> rtcfg_parse (rtcfg\<lparr>default_gateway_ip := Some (pa_addr pa)\<rparr>) str
      }
      else Some (Inl EINVAL, rtcfg))"

declare rtcfg_parse.simps [code]

definition empty_config :: runtime_config where
  "empty_config = \<lparr>host_ip = None, local_ip = None, local_ip_mask = None, default_gateway_ip = None\<rparr>"

definition SIZEOF_RUNTIME_CONFIG :: sz where "SIZEOF_RUNTIME_CONFIG = 20"

text \<open>The memory of the structure is not given back when the parser fails.\<close>

definition rtcfg_read_config :: "'a ram_fs \<Rightarrow> byte list \<Rightarrow> arena \<Rightarrow> kvalloc \<Rightarrow> (runtime_config res \<times> kvalloc) option" where
  "rtcfg_read_config rfs cfg_filename arn kv = do {
     cfg_file_res \<leftarrow> ram_fs_open (rf_root rfs) cfg_filename rfs;
     case cfg_file_res of
       Inl e \<Rightarrow> Some (Inl e, kv)
     | Inr cfg_file \<Rightarrow> do {
         nd \<leftarrow> rf_nodes rfs cfg_file;
         if bb_len (fn_data nd) > 4096 then Some (Inl ENOMEM, kv)
         else do {
           (ba, arn) \<leftarrow> byte_array_from_arena (bb_len (fn_data nd)) arn;
           (n_read_res, read_buf) \<leftarrow> ram_fs_read cfg_file (byte_buf_from_array ba) 0 rfs;
           case n_read_res of
             Inl e \<Rightarrow> Some (Inl e, kv)
           | Inr n_read \<Rightarrow> do {
               kassert (n_read = bb_len (fn_data nd));
               (rtcfg_mem, kv) \<leftarrow> kvalloc_alloc SIZEOF_RUNTIME_CONFIG 1 kv;
               if rtcfg_mem = None then Some (Inl ENOMEM, kv)
               else do {
                 (parse_res, rtcfg) \<leftarrow> rtcfg_parse empty_config (byte_view_from_buf read_buf);
                 case parse_res of Inl e \<Rightarrow> Some (Inl e, kv) | Inr _ \<Rightarrow> Some (Inr rtcfg, kv)
               }
             }
         }
       }
   }"

section \<open>The configuration, line by line\<close>

text \<open>The complete lines of a text, and what follows the last newline.\<close>

fun lines_of :: "byte list \<Rightarrow> byte list list \<times> byte list" where
  "lines_of [] = ([], [])"
| "lines_of (c # cs) =
     (let (ls, r) = lines_of cs in
      if c = NEWLINE then ([] # ls, r)
      else case ls of [] \<Rightarrow> ([], c # r) | l # ls \<Rightarrow> ((c # l) # ls, r))"

text \<open>The address behind \<open>key=\<close>, if the line has this form.\<close>

definition option_value :: "string \<Rightarrow> byte list \<Rightarrow> ipv4_addr_parsed res" where
  "option_value key line =
     (if take (length key + 1) line = cstr key @ cstr ''=''
      then the (ipv4_addr_parse (drop (length key + 1) line)) else Inl EINVAL)"

definition config_line :: "byte list \<Rightarrow> runtime_config \<Rightarrow> runtime_config res" where
  "config_line line cfg =
     (if line = [] \<or> hd line = of_char (CHR ''#'') then Inr cfg
      else case option_value ''host_ip'' line of
          Inr pa \<Rightarrow> Inr (cfg\<lparr>host_ip := Some (pa_addr pa)\<rparr>)
        | Inl _ \<Rightarrow>
      (case option_value ''local_ip'' line of
          Inr pa \<Rightarrow> Inr (cfg\<lparr>local_ip := Some (pa_addr pa), local_ip_mask := Some (pa_mask pa)\<rparr>)
        | Inl _ \<Rightarrow>
      (case option_value ''default_gateway_ip'' line of
          Inr pa \<Rightarrow> Inr (cfg\<lparr>default_gateway_ip := Some (pa_addr pa)\<rparr>)
        | Inl _ \<Rightarrow> Inl EINVAL)))"

fun config_lines :: "byte list list \<Rightarrow> byte list \<Rightarrow> runtime_config \<Rightarrow> unit res \<times> runtime_config" where
  "config_lines [] r cfg = ((if r = [] then ok else Inl EINVAL), cfg)"
| "config_lines (l # ls) r cfg =
     (case config_line l cfg of Inl e \<Rightarrow> (Inl e, cfg) | Inr cfg \<Rightarrow> config_lines ls r cfg)"

lemma lines_of_text:
  "lines_of cs = (ls, r) \<Longrightarrow>
     cs = concat (map (\<lambda>l. l @ [NEWLINE]) ls) @ r \<and> (\<forall>l \<in> set ls. NEWLINE \<notin> set l) \<and> NEWLINE \<notin> set r"
proof (induction cs arbitrary: ls r)
  case (Cons c cs)
  obtain ls1 r1 where 1: "lines_of cs = (ls1, r1)" by fastforce
  show ?case using Cons.IH [OF 1] Cons.prems 1 by (cases ls1) (auto split: if_splits)
qed simp

lemma option_value_error: "option_value key l = Inl e \<Longrightarrow> e = EINVAL"
  using ipv4_addr_parse_returns [of "drop (length key + 1) l"] by (auto simp: option_value_def split: if_splits)

lemma option_value_no:
  assumes "\<not> str_has_prefix l (cstr key)"
  shows "option_value key l = Inl EINVAL"
proof -
  have "take (length key + 1) l \<noteq> cstr key @ cstr ''=''"
  proof
    assume "take (length key + 1) l = cstr key @ cstr ''=''"
    then have "l = cstr key @ cstr ''='' @ drop (length key + 1) l"
      using append_take_drop_id [of "length key + 1" l] by simp
    then show False using assms str_has_prefix_iff by blast
  qed
  then show ?thesis by (simp add: option_value_def)
qed

lemma cstr_length [simp]: "length (cstr s) = length s"
  by (simp add: cstr_def)

text \<open>A key of a line is a key of the text that begins with the line.\<close>

lemma prefix_in_line:
  assumes "NEWLINE \<notin> set p"
  shows "str_has_prefix (l @ NEWLINE # rest) p \<longleftrightarrow> str_has_prefix l p"
proof -
  have "(\<exists>r. l @ NEWLINE # rest = p @ r) \<longleftrightarrow> (\<exists>r. l = p @ r)"
    using assms by (auto simp: append_eq_append_conv2 append_eq_Cons_conv Cons_eq_append_conv)
  then show ?thesis by (simp add: str_has_prefix_iff)
qed

lemma parse_option_line:
  assumes "NEWLINE \<notin> set v"
  shows "\<exists>s'. rtcfg_parse_option_ip_addr (v @ NEWLINE # rest) = Some (option_value key (cstr key @ v), s') \<and>
    (\<not> is_error (option_value key (cstr key @ v)) \<longrightarrow> s' = NEWLINE # rest)"
proof (cases "str_has_prefix v (cstr ''='')")
  case True
  then obtain w where w: "v = cstr ''='' @ w" by (auto simp: str_has_prefix_iff)
  have nw: "NEWLINE \<notin> set w" using assms w by simp
  have ov: "option_value key (cstr key @ v) = the (ipv4_addr_parse w)" by (simp add: option_value_def w)
  obtain r where r: "ipv4_addr_parse w = Some r" using ipv4_addr_parse_returns [of w] by auto
  have c: "str_consume_prefix (v @ NEWLINE # rest) (cstr ''='') = (True, w @ NEWLINE # rest)"
    unfolding w str_consume_prefix_eq by simp
  show ?thesis unfolding rtcfg_parse_option_ip_addr_def c ov r Let_def prod.case
    using str_find_char_append [OF nw] r by simp
next
  case False
  have "NEWLINE \<notin> set (cstr ''='')" by (simp add: NEWLINE_def cstr_def)
  then have "\<not> str_has_prefix (v @ NEWLINE # rest) (cstr ''='')" using prefix_in_line False by blast
  moreover have "option_value key (cstr key @ v) = Inl EINVAL"
  proof -
    have "take 1 v \<noteq> cstr ''=''"
      using False str_has_prefix_iff [of v "cstr ''=''"] append_take_drop_id [of 1 v] by metis
    then show ?thesis by (simp add: option_value_def)
  qed
  ultimately show ?thesis by (simp add: rtcfg_parse_option_ip_addr_def str_consume_prefix_def)
qed

lemma parse_option_rest: "NEWLINE \<notin> set v \<Longrightarrow> \<exists>s'. rtcfg_parse_option_ip_addr v = Some (Inl EINVAL, s')"
proof -
  assume "NEWLINE \<notin> set v"
  then have "NEWLINE \<notin> set (drop 1 v)" by (meson in_set_dropD)
  then have "str_find_char (drop 1 v) NEWLINE = None" by (simp add: str_find_char_None)
  moreover have "length (cstr ''='') = 1" by simp
  ultimately show ?thesis unfolding rtcfg_parse_option_ip_addr_def str_consume_prefix_def by simp
qed

lemma parse_newline: "rtcfg_parse cfg (NEWLINE # rest) = rtcfg_parse cfg rest"
  by (subst rtcfg_parse.simps) (simp add: str_has_prefix_iff str_consume_prefix_eq)

lemmas config_keys = str_has_prefix_def cstr_def NEWLINE_def

lemma parse_line:
  assumes n: "NEWLINE \<notin> set l"
  shows "rtcfg_parse cfg (l @ NEWLINE # rest) =
    (case config_line l cfg of Inl e \<Rightarrow> Some (Inl e, cfg) | Inr cfg \<Rightarrow> rtcfg_parse cfg rest)"
proof (cases "l = []")
  case True
  then show ?thesis using parse_newline by (simp add: config_line_def)
next
  case ne: False
  let ?s = "l @ NEWLINE # rest"
  have keys: "NEWLINE \<notin> set (cstr k)" if "k \<in> {''#'', ''host_ip'', ''local_ip'', ''default_gateway_ip''}" for k
    using that by (auto simp: NEWLINE_def cstr_def)
  note pre = prefix_in_line [OF keys]
  have first: "?s \<noteq> []" "\<not> str_has_prefix ?s [NEWLINE]"
    using n ne by (cases l; auto simp: str_has_prefix_def)+
  have hash: "str_has_prefix l (cstr ''#'') \<longleftrightarrow> hd l = of_char (CHR ''#'')"
    using ne by (cases l) (auto simp: str_has_prefix_def cstr_def)
  have other: "\<not> (str_has_prefix l (cstr a) \<and> str_has_prefix l (cstr b))"
    if "a \<in> {''#'', ''host_ip'', ''local_ip'', ''default_gateway_ip''}" "b \<in> {''#'', ''host_ip'', ''local_ip'', ''default_gateway_ip''}"
      "a \<noteq> b" for a b
    using that ne by (cases l) (auto simp: str_has_prefix_def cstr_def)
  have opt: "\<exists>s'. rtcfg_parse_option_ip_addr (snd (str_consume_prefix ?s (cstr k))) = Some (option_value k l, s') \<and>
      (\<not> is_error (option_value k l) \<longrightarrow> s' = NEWLINE # rest)" if p: "str_has_prefix l (cstr k)" for k
  proof -
    obtain v where v: "l = cstr k @ v" using p by (auto simp: str_has_prefix_iff)
    then have "snd (str_consume_prefix ?s (cstr k)) = v @ NEWLINE # rest" by (auto simp: str_consume_prefix_eq)
    then show ?thesis using parse_option_line [of v rest k] n v by simp
  qed
  show ?thesis
  proof (cases "str_has_prefix l (cstr ''#'')")
    case True
    then obtain v where v: "l = cstr ''#'' @ v" by (auto simp: str_has_prefix_iff)
    then have c: "snd (str_consume_prefix ?s (cstr ''#'')) = v @ NEWLINE # rest" by (auto simp: str_consume_prefix_eq)
    have "NEWLINE \<notin> set v" using n v by simp
    then have "rtcfg_parse cfg ?s = rtcfg_parse cfg rest"
      using first c True pre [of "''#''"] str_find_char_append [of NEWLINE v rest]
      by (subst rtcfg_parse.simps) (simp add: nat_add_distrib)
    then show ?thesis using True hash by (simp add: config_line_def)
  next
    case nh: False
    then have h: "hd l \<noteq> of_char (CHR ''#'')" using hash by simp
    show ?thesis
    proof (cases "str_has_prefix l (cstr ''host_ip'')")
      case True
      obtain s' where s': "rtcfg_parse_option_ip_addr (snd (str_consume_prefix ?s (cstr ''host_ip''))) =
          Some (option_value ''host_ip'' l, s')" "\<not> is_error (option_value ''host_ip'' l) \<longrightarrow> s' = NEWLINE # rest"
        using opt [OF True] by blast
      have "option_value ''local_ip'' l = Inl EINVAL" "option_value ''default_gateway_ip'' l = Inl EINVAL"
        using other [of "''host_ip''"] True by (auto intro!: option_value_no)
      then show ?thesis
        using first nh h True s' pre parse_newline ne option_value_error [of "''host_ip''" l]
        by (subst rtcfg_parse.simps) (auto simp: config_line_def split: sum.splits)
    next
      case n1: False
      show ?thesis
      proof (cases "str_has_prefix l (cstr ''local_ip'')")
        case True
        obtain s' where s': "rtcfg_parse_option_ip_addr (snd (str_consume_prefix ?s (cstr ''local_ip''))) =
            Some (option_value ''local_ip'' l, s')" "\<not> is_error (option_value ''local_ip'' l) \<longrightarrow> s' = NEWLINE # rest"
          using opt [OF True] by blast
        have "option_value ''host_ip'' l = Inl EINVAL" "option_value ''default_gateway_ip'' l = Inl EINVAL"
          using other [of "''local_ip''"] True by (auto intro!: option_value_no)
        then show ?thesis
          using first nh h n1 True s' pre parse_newline ne option_value_error [of "''local_ip''" l]
          by (subst rtcfg_parse.simps) (auto simp: config_line_def split: sum.splits)
      next
        case n2: False
        show ?thesis
        proof (cases "str_has_prefix l (cstr ''default_gateway_ip'')")
          case True
          obtain s' where s': "rtcfg_parse_option_ip_addr (snd (str_consume_prefix ?s (cstr ''default_gateway_ip''))) =
              Some (option_value ''default_gateway_ip'' l, s')"
            "\<not> is_error (option_value ''default_gateway_ip'' l) \<longrightarrow> s' = NEWLINE # rest"
            using opt [OF True] by blast
          have "option_value ''host_ip'' l = Inl EINVAL" "option_value ''local_ip'' l = Inl EINVAL"
            using n1 n2 by (auto intro!: option_value_no)
          then show ?thesis
            using first nh h n1 n2 True s' pre parse_newline ne option_value_error [of "''default_gateway_ip''" l]
            by (subst rtcfg_parse.simps) (auto simp: config_line_def split: sum.splits)
        next
          case n3: False
          have "config_line l cfg = Inl EINVAL"
            using ne h option_value_no [OF n1] option_value_no [OF n2] option_value_no [OF n3] by (simp add: config_line_def)
          then show ?thesis using first nh n1 n2 n3 pre by (subst rtcfg_parse.simps) simp
        qed
      qed
    qed
  qed
qed

lemma parse_rest:
  assumes n: "NEWLINE \<notin> set r"
  shows "rtcfg_parse cfg r = Some (if r = [] then ok else Inl EINVAL, cfg)"
proof -
  have "str_find_char (drop k r) NEWLINE = None" for k
    using n by (auto simp: str_find_char_None dest: in_set_dropD)
  moreover have "\<exists>s'. rtcfg_parse_option_ip_addr (drop k r) = Some (Inl EINVAL, s')" for k
    using n by (intro parse_option_rest) (auto dest: in_set_dropD)
  then obtain f where "rtcfg_parse_option_ip_addr (drop k r) = Some (Inl EINVAL, f k)" for k by metis
  moreover have "\<not> str_has_prefix r [NEWLINE]" using n by (auto simp: str_has_prefix_iff)
  ultimately show ?thesis
    by (subst rtcfg_parse.simps) (simp add: str_consume_prefix_def Let_def)
qed

text \<open>
  C34: The parser of the configuration returns for every text, and its result is that of the reference: each
  complete line in turn is blank, a comment, or sets one of the three options, the first line that is none of
  these ends it with \<open>EINVAL\<close>, and so does anything behind the last newline.
\<close>

theorem rtcfg_parse_lines:
  "rtcfg_parse cfg src = Some (case lines_of src of (ls, r) \<Rightarrow> config_lines ls r cfg)"
proof -
  obtain ls r where lr: "lines_of src = (ls, r)" by fastforce
  have "rtcfg_parse cfg (concat (map (\<lambda>l. l @ [NEWLINE]) ls) @ r) = Some (config_lines ls r cfg)"
    if "\<forall>l \<in> set ls. NEWLINE \<notin> set l" "NEWLINE \<notin> set r" for ls r
    using that
  proof (induction ls arbitrary: cfg)
    case Nil
    then show ?case using parse_rest by simp
  next
    case (Cons l ls)
    then show ?case
      using parse_line [of l cfg "concat (map (\<lambda>l. l @ [NEWLINE]) ls) @ r"] by (simp split: sum.splits)
  qed
  then show ?thesis using lines_of_text [OF lr] lr by simp
qed

end
