(* ===== verification/Ports.thy ===== *)
theory Ports
  imports Prelude
begin

text \<open>
  The interface to the hardware (include/tx/asm.h) and the interrupt controller (include/tx/pic.h). The
  instructions for port and memory access are inline assembly, so they are the fields of records that every
  function that uses them takes as a parameter: what a device does when it is read or written is up to them.
\<close>

record 's port_io =
  inb :: "u16 \<Rightarrow> 's \<Rightarrow> u8 \<times> 's"
  inl :: "u16 \<Rightarrow> 's \<Rightarrow> u32 \<times> 's"
  outb :: "u16 \<Rightarrow> u8 \<Rightarrow> 's \<Rightarrow> 's"
  outw :: "u16 \<Rightarrow> u16 \<Rightarrow> 's \<Rightarrow> 's"
  outl :: "u16 \<Rightarrow> u32 \<Rightarrow> 's \<Rightarrow> 's"

record 'h mmio =
  mmio_read32 :: "u64 \<Rightarrow> 'h \<Rightarrow> u32 \<times> 'h"
  mmio_write32 :: "u64 \<Rightarrow> u32 \<Rightarrow> 'h \<Rightarrow> 'h"
  mmio_write64 :: "u64 \<Rightarrow> u64 \<Rightarrow> 'h \<Rightarrow> 'h"

definition BIT :: "nat \<Rightarrow> 'a::len word" where
  "BIT n = push_bit n 1"

lemma bit_BIT [simp]: "bit (BIT m :: 'a::len word) n \<longleftrightarrow> n = m \<and> n < LENGTH('a)"
  by (simp only: BIT_def bit_push_bit_iff bit_1_iff) (auto simp: possible_bit_def)

section \<open>The interrupt controllers\<close>

definition PIC1_CMD_PORT :: u16 where "PIC1_CMD_PORT = 0x20"
definition PIC1_DAT_PORT :: u16 where "PIC1_DAT_PORT = 0x21"
definition PIC2_CMD_PORT :: u16 where "PIC2_CMD_PORT = 0xa0"
definition PIC2_DAT_PORT :: u16 where "PIC2_DAT_PORT = 0xa1"
definition PIC2_IRQ :: nat where "PIC2_IRQ = 2"
definition PIC_EOI_CMD :: u8 where "PIC_EOI_CMD = 0x20"
definition PIC_INIT_CMD :: u8 where "PIC_INIT_CMD = 0x11"
definition PIC_ICW4_8086_MODE :: u8 where "PIC_ICW4_8086_MODE = 0x01"

definition pic_send_eoi :: "'s port_io \<Rightarrow> u8 \<Rightarrow> 's \<Rightarrow> 's" where
  "pic_send_eoi io irq s =
     (let s = if irq \<ge> 8 then outb io PIC2_CMD_PORT PIC_EOI_CMD s else s in
      outb io PIC1_CMD_PORT PIC_EOI_CMD s)"

definition pic_remap :: "'s port_io \<Rightarrow> u8 \<Rightarrow> u8 \<Rightarrow> 's \<Rightarrow> 's" where
  "pic_remap io pic1_vec_base pic2_vec_base s =
     (let (mask1, s) = inb io PIC1_DAT_PORT s;
          (mask2, s) = inb io PIC2_DAT_PORT s;
          s = outb io PIC1_CMD_PORT PIC_INIT_CMD s;
          s = outb io PIC1_DAT_PORT pic1_vec_base s;
          s = outb io PIC1_DAT_PORT (BIT PIC2_IRQ) s;
          s = outb io PIC1_DAT_PORT PIC_ICW4_8086_MODE s;
          s = outb io PIC2_CMD_PORT PIC_INIT_CMD s;
          s = outb io PIC2_DAT_PORT pic2_vec_base s;
          s = outb io PIC2_DAT_PORT (of_nat PIC2_IRQ) s;
          s = outb io PIC2_DAT_PORT PIC_ICW4_8086_MODE s;
          s = outb io PIC1_DAT_PORT mask1 s in
      outb io PIC2_DAT_PORT mask2 s)"

definition pic_enable_irq :: "'s port_io \<Rightarrow> u8 \<Rightarrow> 's \<Rightarrow> 's" where
  "pic_enable_irq io irq s =
     (if irq \<ge> 8 then
        let (mask, s) = inb io PIC2_DAT_PORT s in outb io PIC2_DAT_PORT (mask AND NOT (BIT (unat irq - 8))) s
      else
        let (mask, s) = inb io PIC1_DAT_PORT s in outb io PIC1_DAT_PORT (mask AND NOT (BIT (unat irq))) s)"

end
