(* ===== verification/Console.thy ===== *)
theory Console
  imports Ports Fmt
begin

text \<open>
  The serial console (src/com.c) and printing (src/print.c). Waiting for the device is a loop over reads of
  its status; a device that never gets ready is a run without a value.
\<close>

section \<open>The serial port\<close>

definition COM1_PORT :: u16 where "COM1_PORT = 0x3f8"
definition OFFSET_DIVISOR_LOW :: u16 where "OFFSET_DIVISOR_LOW = 0"
definition OFFSET_DIVISOR_HIGH :: u16 where "OFFSET_DIVISOR_HIGH = 1"
definition OFFSET_INTERRUPT_ENABLE :: u16 where "OFFSET_INTERRUPT_ENABLE = 1"
definition OFFSET_LINE_CONTROL :: u16 where "OFFSET_LINE_CONTROL = 3"
definition OFFSET_MODEM_CONTROL :: u16 where "OFFSET_MODEM_CONTROL = 4"
definition OFFSET_LINE_STATUS :: u16 where "OFFSET_LINE_STATUS = 5"
definition LINE_CONTROL_DATA_LOW :: u8 where "LINE_CONTROL_DATA_LOW = BIT 0"
definition LINE_CONTROL_DATA_HIGH :: u8 where "LINE_CONTROL_DATA_HIGH = BIT 1"
definition LINE_CONTROL_STOP :: u8 where "LINE_CONTROL_STOP = BIT 2"
definition LINE_CONTROL_DLAB :: u8 where "LINE_CONTROL_DLAB = BIT 7"
definition MODEM_CONTROL_LOOP :: u8 where "MODEM_CONTROL_LOOP = BIT 4"
definition LINE_STATUS_RX_READY :: u8 where "LINE_STATUS_RX_READY = BIT 0"
definition LINE_STATUS_TX_READY :: u8 where "LINE_STATUS_TX_READY = BIT 5"
definition DIV_LOW :: u8 where "DIV_LOW = 1"
definition DIV_HIGH :: u8 where "DIV_HIGH = 0"

definition com_init :: "'s port_io \<Rightarrow> u16 \<Rightarrow> 's \<Rightarrow> unit res \<times> 's" where
  "com_init io port s =
     (let (lcr, s) = inb io (port + OFFSET_LINE_CONTROL) s;
          lcr = lcr OR LINE_CONTROL_DLAB;
          s = outb io (port + OFFSET_LINE_CONTROL) lcr s;
          s = outb io (port + OFFSET_DIVISOR_LOW) DIV_LOW s;
          s = outb io (port + OFFSET_DIVISOR_HIGH) DIV_HIGH s;
          lcr = lcr AND NOT LINE_CONTROL_DLAB;
          lcr = lcr OR LINE_CONTROL_DATA_LOW;
          lcr = lcr OR LINE_CONTROL_DATA_HIGH;
          lcr = lcr OR LINE_CONTROL_STOP;
          s = outb io (port + OFFSET_LINE_CONTROL) lcr s;
          s = outb io (port + OFFSET_INTERRUPT_ENABLE) 0 s;
          s = outb io (port + OFFSET_MODEM_CONTROL) MODEM_CONTROL_LOOP s;
          s = outb io port 0xbe s;
          (b, s) = inb io port s in
      if b \<noteq> 0xbe then (Inl EIO, s)
      else
        let s = outb io port 0xff s;
            (b, s) = inb io port s in
        if b \<noteq> 0xff then (Inl EIO, s)
        else (ok, outb io (port + OFFSET_MODEM_CONTROL) 0 s))"

partial_function (option) com_wait :: "'s port_io \<Rightarrow> u16 \<Rightarrow> u8 \<Rightarrow> 's \<Rightarrow> 's option" where
  "com_wait io port flag s =
     (let (st, s) = inb io (port + OFFSET_LINE_STATUS) s in
      if st AND flag = 0 then com_wait io port flag s else Some s)"

declare com_wait.simps [code]

fun com_write_loop :: "'s port_io \<Rightarrow> u16 \<Rightarrow> byte list \<Rightarrow> 's \<Rightarrow> 's option" where
  "com_write_loop io port [] s = Some s"
| "com_write_loop io port (c # cs) s = do {
     s \<leftarrow> com_wait io port LINE_STATUS_TX_READY s;
     com_write_loop io port cs (outb io port c s)
   }"

definition com_write :: "'s port_io \<Rightarrow> u16 \<Rightarrow> byte list \<Rightarrow> 's \<Rightarrow> (unit res \<times> 's) option" where
  "com_write io port str s =
     (if str = [] then Some (Inl EINVAL, s)
      else do { s \<leftarrow> com_write_loop io port str s; Some (ok, s) })"

fun com_read_loop :: "'s port_io \<Rightarrow> u16 \<Rightarrow> nat list \<Rightarrow> byte list \<Rightarrow> 's \<Rightarrow> (byte list \<times> 's) option" where
  "com_read_loop io port [] dat s = Some (dat, s)"
| "com_read_loop io port (i # is) dat s = do {
     s \<leftarrow> com_wait io port LINE_STATUS_RX_READY s;
     let (b, s) = inb io port s;
     dat \<leftarrow> poke dat (int i) b;
     com_read_loop io port is dat s
   }"

definition com_read :: "'s port_io \<Rightarrow> u16 \<Rightarrow> str_buf \<Rightarrow> 's \<Rightarrow> (unit res \<times> str_buf \<times> 's) option" where
  "com_read io port buf s =
     (if bb_cap buf \<le> 0 then Some (Inl EINVAL, buf, s)
      else do {
        (dat, s) \<leftarrow> com_read_loop io port [0 ..< nat (bb_cap buf)] (bb_dat buf) s;
        Some (ok, buf\<lparr>bb_dat := dat, bb_len := bb_cap buf\<rparr>, s)
      })"

section \<open>Printing\<close>

definition print_str :: "'s port_io \<Rightarrow> byte list \<Rightarrow> 's \<Rightarrow> (unit res \<times> 's) option" where
  "print_str io str s = com_write io COM1_PORT str s"

definition print_fmt :: "'s port_io \<Rightarrow> str_buf \<Rightarrow> byte list \<Rightarrow> fmt_arg list \<Rightarrow> 's \<Rightarrow> (unit res \<times> 's) option" where
  "print_fmt io buf fmt args s = do {
     (res, buf) \<leftarrow> fmt_vfmt buf fmt args;
     if is_error res then Some (res, s)
     else com_write io COM1_PORT (byte_view_from_buf buf) s
   }"

definition PRINT_DBG_BUF_SIZE :: sz where "PRINT_DBG_BUF_SIZE = 700"

text \<open>
  The widths that the build computes, the level of the build and the number of the running task are parameters.
  All parts of the prefix are tried; one error is enough to give up.
\<close>

record dbg_config =
  dc_level :: int
  dc_basename_max_len :: sz
  dc_line_max_len :: sz
  dc_funcname_max_len :: sz

definition dbg_prefix :: "dbg_config \<Rightarrow> u16 \<Rightarrow> byte list \<Rightarrow> byte list \<Rightarrow> byte list \<Rightarrow> str_buf \<Rightarrow> (bool \<times> str_buf) option" where
  "dbg_prefix dc task_id basename line funcname buf = do {
     (r1, buf) \<leftarrow> str_buf_append_char buf (of_char (CHR ''[''));
     (r2, buf) \<leftarrow> str_buf_append buf basename;
     (r3, buf) \<leftarrow> str_buf_append_char buf (of_char (CHR '':''));
     (r4, buf) \<leftarrow> str_buf_append buf line;
     (r5, buf) \<leftarrow> str_buf_append_n buf (dc_basename_max_len dc - int (length basename)) (of_char (CHR '' ''));
     (r6, buf) \<leftarrow> str_buf_append_n buf (dc_line_max_len dc - int (length line)) (of_char (CHR '' ''));
     (r7, buf) \<leftarrow> str_buf_append buf (cstr '' | '');
     (r8, buf) \<leftarrow> str_buf_append buf funcname;
     (r9, buf) \<leftarrow> str_buf_append_n buf (dc_funcname_max_len dc - int (length funcname)) (of_char (CHR '' ''));
     (r10, buf) \<leftarrow> str_buf_append buf (cstr '' | '');
     (r11, buf) \<leftarrow> fmt_vfmt buf (cstr ''%hu'') [Arg32 (ucast task_id)];
     (r12, buf) \<leftarrow> str_buf_append buf (cstr '']: '');
     Some (is_error r1 \<or> is_error r2 \<or> is_error r3 \<or> is_error r4 \<or> is_error r5 \<or> is_error r6 \<or> is_error r7 \<or>
       is_error r8 \<or> is_error r9 \<or> is_error r10 \<or> is_error r11 \<or> is_error r12, buf)
   }"

definition print_dbg ::
  "'s port_io \<Rightarrow> dbg_config \<Rightarrow> u16 \<Rightarrow> byte list \<Rightarrow> byte list \<Rightarrow> byte list \<Rightarrow> int \<Rightarrow> byte list \<Rightarrow> fmt_arg list \<Rightarrow> 's \<Rightarrow>
     (unit res \<times> 's) option" where
  "print_dbg io dc task_id basename line funcname level fmt_str args s =
     (if level > dc_level dc then Some (ok, s)
      else do {
        (failed, buf) \<leftarrow> dbg_prefix dc task_id basename line funcname
          (byte_buf_new (replicate (nat PRINT_DBG_BUF_SIZE) 0) 0 PRINT_DBG_BUF_SIZE);
        if failed then do {
          (_, s) \<leftarrow> print_str io (cstr ''ERROR: print_dbg failed to format source code location'' @ [10]) s;
          Some (Inl ENOMEM, s)
        }
        else do {
          (res, buf_cpy) \<leftarrow> fmt_vfmt buf fmt_str args;
          if is_error res then do {
            (_, s) \<leftarrow> print_str io (cstr ''ERROR: print_dbg failed to format debug message, source code location is: '') s;
            (_, s) \<leftarrow> print_str io (byte_view_from_buf buf) s;
            (_, s) \<leftarrow> print_str io [10] s;
            Some (res, s)
          }
          else print_str io (byte_view_from_buf buf_cpy) s
        }
      })"

section \<open>What is written goes out\<close>

text \<open>
  A port that gets ready: \<open>busy\<close> bounds the number of status reads until the transmitter is free, reading the
  status does not transmit, and a byte that is written to the port is transmitted.
\<close>

definition port_transmits :: "'s port_io \<Rightarrow> u16 \<Rightarrow> ('s \<Rightarrow> nat) \<Rightarrow> ('s \<Rightarrow> byte list) \<Rightarrow> bool" where
  "port_transmits io port busy sent \<longleftrightarrow>
     (\<forall>s st s'. inb io (port + OFFSET_LINE_STATUS) s = (st, s') \<longrightarrow>
        sent s' = sent s \<and> (st AND LINE_STATUS_TX_READY = 0 \<longrightarrow> busy s' < busy s)) \<and>
     (\<forall>s b. sent (outb io port b s) = sent s @ [b])"

lemma com_wait_returns:
  assumes "port_transmits io port busy sent"
  shows "\<exists>s'. com_wait io port LINE_STATUS_TX_READY s = Some s' \<and> sent s' = sent s"
proof (induction "busy s" arbitrary: s rule: less_induct)
  case less
  obtain st s1 where r: "inb io (port + OFFSET_LINE_STATUS) s = (st, s1)" by fastforce
  have s1: "sent s1 = sent s" using assms r unfolding port_transmits_def by blast
  show ?case
  proof (cases "st AND LINE_STATUS_TX_READY = 0")
    case True
    then have "busy s1 < busy s" using assms r unfolding port_transmits_def by blast
    from less [OF this] show ?thesis using True r s1 by (subst com_wait.simps) simp
  next
    case False
    then show ?thesis using r s1 by (subst com_wait.simps) simp
  qed
qed

lemma com_write_loop_sends:
  assumes "port_transmits io port busy sent"
  shows "\<exists>s'. com_write_loop io port str s = Some s' \<and> sent s' = sent s @ str"
proof (induction str arbitrary: s)
  case (Cons c cs)
  obtain s1 where s1: "com_wait io port LINE_STATUS_TX_READY s = Some s1" "sent s1 = sent s"
    using com_wait_returns [OF assms, of s] by blast
  have "sent (outb io port c s1) = sent s @ [c]" using assms s1(2) by (simp add: port_transmits_def)
  then show ?case using Cons.IH [of "outb io port c s1"] s1(1) by auto
qed simp

text \<open>
  Writing to a serial port whose transmitter always gets free again ends, and transmits exactly the bytes
  of the text in their order; an empty text is an error and transmits nothing.
\<close>

theorem com_write_transmits:
  assumes "port_transmits io port busy sent"
  shows "\<exists>s'. com_write io port str s = Some (if str = [] then Inl EINVAL else ok, s') \<and> sent s' = sent s @ str"
  using com_write_loop_sends [OF assms, of str s] by (auto simp: com_write_def)

text \<open>A transmitter that takes two status reads for every byte.\<close>

definition slow_port :: "(nat \<times> byte list) port_io" where
  "slow_port = \<lparr>inb = \<lambda>_ (n, bs). (if n = 0 then LINE_STATUS_TX_READY else 0, n - 1, bs),
     inl = \<lambda>_ s. (0, s), outb = \<lambda>_ b (n, bs). (2, bs @ [b]), outw = \<lambda>_ _ s. s, outl = \<lambda>_ _ s. s\<rparr>"

theorem com_write_transmits_witness:
  "\<exists>s'. com_write slow_port COM1_PORT (cstr ''ok'') (5 :: nat, []) = Some (if cstr ''ok'' = [] then Inl EINVAL else ok, s') \<and>
     snd s' = snd (5 :: nat, [] :: byte list) @ cstr ''ok''"
proof (rule com_write_transmits [of slow_port COM1_PORT fst snd])
  show "port_transmits slow_port COM1_PORT fst snd"
    by (auto simp: port_transmits_def slow_port_def LINE_STATUS_TX_READY_def BIT_def split: if_splits)
qed

end
