(* ===== verification/Isr.thy ===== *)
theory Isr
  imports Ports Fmt
begin

text \<open>
  Interrupts (src/isr.c): the table of handlers, dispatch, and the assembly of the entry stubs, which
  saves the registers on the stack, hands the stack to C as a structure, and restores them.
\<close>

section \<open>The frame of an interrupted context\<close>

record gp_regs =
  g_rax :: u64
  g_rbx :: u64
  g_rcx :: u64
  g_rdx :: u64
  g_rsi :: u64
  g_rdi :: u64
  g_rbp :: u64
  g_r8 :: u64
  g_r9 :: u64
  g_r10 :: u64
  g_r11 :: u64
  g_r12 :: u64
  g_r13 :: u64
  g_r14 :: u64
  g_r15 :: u64

record trap_frame = gp_regs +
  tf_vector :: u64
  tf_error_code :: u64
  tf_rip :: u64
  tf_cs :: u64
  tf_rflags :: u64
  tf_rsp :: u64
  tf_ss :: u64

definition RESERVED_VECTORS_END :: u64 where "RESERVED_VECTORS_END = 32"
definition IRQ_VECTORS_BEG :: u64 where "IRQ_VECTORS_BEG = 32"
definition IRQ_VECTORS_END :: u64 where "IRQ_VECTORS_END = 48"

section \<open>Handlers\<close>

text \<open>
  A pointer to a handler function is a name \<open>'f\<close>, and its private data a value \<open>'p\<close>; what a handler does
  is a parameter of the dispatcher. A handler gets the frame by pointer, so it may change it.
\<close>

record ('f, 'p) interrupt_handler =
  ih_is_used :: bool
  ih_handler :: 'f
  ih_private_data :: 'p

type_synonym ('f, 'p) handler_table = "('f, 'p) interrupt_handler list"

type_synonym ('f, 'p, 's) handler_run = "'f \<Rightarrow> 'p \<Rightarrow> trap_frame \<Rightarrow> 's \<Rightarrow> (trap_frame \<times> 's) option"

definition isr_register_handler ::
  "u64 \<Rightarrow> 'f \<Rightarrow> 'p \<Rightarrow> ('f, 'p) handler_table \<Rightarrow> (unit res \<times> ('f, 'p) handler_table) option" where
  "isr_register_handler v handler private_data table =
     (if v \<ge> IRQ_VECTORS_END then Some (Inl EINVAL, table)
      else do {
        ent \<leftarrow> peek table (uint v);
        if ih_is_used ent then Some (Inl EINVAL, table)
        else do {
          table \<leftarrow> poke table (uint v) \<lparr>ih_is_used = True, ih_handler = handler, ih_private_data = private_data\<rparr>;
          Some (ok, table)
        }
      })"

definition have_interrupt_handler :: "u64 \<Rightarrow> ('f, 'p) handler_table \<Rightarrow> bool option" where
  "have_interrupt_handler v table =
     (if v \<ge> IRQ_VECTORS_END then Some False
      else do { ent \<leftarrow> peek table (uint v); Some (ih_is_used ent) })"

definition handle_interrupt ::
  "'s port_io \<Rightarrow> ('f, 'p, 's) handler_run \<Rightarrow> ('f, 'p) handler_table \<Rightarrow> trap_frame \<Rightarrow> 's \<Rightarrow> (trap_frame \<times> 's) option" where
  "handle_interrupt io run table cpu_state s = do {
     (cpu_state, s) \<leftarrow>
       (if tf_vector cpu_state < IRQ_VECTORS_END then do {
          handler \<leftarrow> peek table (uint (tf_vector cpu_state));
          if ih_is_used handler then run (ih_handler handler) (ih_private_data handler) cpu_state s
          else Some (cpu_state, s)
        }
        else Some (cpu_state, s));
     Some (cpu_state, pic_send_eoi io (ucast (tf_vector cpu_state)) s)
   }"

definition fmt_cpu_state :: "trap_frame \<Rightarrow> str_buf \<Rightarrow> (unit res \<times> str_buf) option" where
  "fmt_cpu_state c buf = fmt_vfmt buf
     (cstr ''rax: 0x%lx'' @ [10] @ cstr ''rbx: 0x%lx'' @ [10] @ cstr ''rcx: 0x%lx'' @ [10] @ cstr ''rdx: 0x%lx'' @ [10] @
      cstr ''rsi: 0x%lx'' @ [10] @ cstr ''rdi: 0x%lx'' @ [10] @ cstr ''rbp: 0x%lx'' @ [10] @ cstr ''r8: 0x%lx'' @ [10] @
      cstr ''r9: 0x%lx'' @ [10] @ cstr ''r10: 0x%lx'' @ [10] @ cstr ''r11: 0x%lx'' @ [10] @ cstr ''r12: 0x%lx'' @ [10] @
      cstr ''r13: 0x%lx'' @ [10] @ cstr ''r14: 0x%lx'' @ [10] @ cstr ''r15: 0x%lx'' @ [10] @ cstr ''vector: 0x%lx'' @ [10] @
      cstr ''error code: 0x%lx'' @ [10] @ cstr ''rip: 0x%lx'' @ [10] @ cstr ''cs: 0x%lx'' @ [10] @ cstr ''rflags: 0x%lx'' @ [10] @
      cstr ''rsp: 0x%lx'' @ [10] @ cstr ''ss: 0x%lx'' @ [10])
     (map Arg64 [g_rax c, g_rbx c, g_rcx c, g_rdx c, g_rsi c, g_rdi c, g_rbp c, g_r8 c, g_r9 c, g_r10 c, g_r11 c, g_r12 c, g_r13 c, g_r14 c, g_r15 c,
        tf_vector c, tf_error_code c, tf_rip c, tf_cs c, tf_rflags c, tf_rsp c, tf_ss c])"

text \<open>Without a handler the state is printed and the machine stops; only the end matters here.\<close>

definition interrupt_catch_all ::
  "'s port_io \<Rightarrow> ('f, 'p, 's) handler_run \<Rightarrow> ('f, 'p) handler_table \<Rightarrow> trap_frame \<Rightarrow> 's \<Rightarrow> (trap_frame \<times> 's) option" where
  "interrupt_catch_all io run table cpu_state s = do {
     b \<leftarrow> have_interrupt_handler (tf_vector cpu_state) table;
     if b then handle_interrupt io run table cpu_state s
     else do {
       (_, buf) \<leftarrow> fmt_cpu_state cpu_state (byte_buf_new (replicate 1024 0) 0 1024);
       crash
     }
   }"

section \<open>The stubs\<close>

text \<open>
  The stack is the list of the words from its top. At an interrupt the processor pushes the context, and for
  some exceptions an error code; the stub of the vector pushes 0 where there is none, and the vector.
\<close>

definition isr_stub_vectors :: "nat set" where
  "isr_stub_vectors = {0..21} \<union> {32..47}"

definition isr_stub_with_error_code :: "nat set" where
  "isr_stub_with_error_code = {8, 10, 11, 12, 13, 14, 17, 21}"

definition isr_stub :: "nat \<Rightarrow> u64 list \<Rightarrow> u64 list" where
  "isr_stub v stack = (if v \<in> isr_stub_with_error_code then of_nat v # stack else of_nat v # 0 # stack)"

fun pushes :: "u64 list \<Rightarrow> u64 list \<Rightarrow> u64 list" where
  "pushes [] stack = stack"
| "pushes (r # rs) stack = pushes rs (r # stack)"

definition push_regs :: "gp_regs \<Rightarrow> u64 list \<Rightarrow> u64 list" where
  "push_regs g = pushes [g_r15 g, g_r14 g, g_r13 g, g_r12 g, g_r11 g, g_r10 g, g_r9 g, g_r8 g, g_rbp g, g_rdi g, g_rsi g, g_rdx g, g_rcx g, g_rbx g, g_rax g]"

text \<open>The structure in memory, and the stack below it.\<close>

definition trap_frame_words :: "trap_frame \<Rightarrow> u64 list" where
  "trap_frame_words f =
     [g_rax f, g_rbx f, g_rcx f, g_rdx f, g_rsi f, g_rdi f, g_rbp f, g_r8 f, g_r9 f, g_r10 f, g_r11 f, g_r12 f, g_r13 f, g_r14 f, g_r15 f,
      tf_vector f, tf_error_code f, tf_rip f, tf_cs f, tf_rflags f, tf_rsp f, tf_ss f]"

fun trap_frame_at :: "u64 list \<Rightarrow> (trap_frame \<times> u64 list) option" where
  "trap_frame_at (a # b # c # d # si # di # bp # e8 # e9 # e10 # e11 # e12 # e13 # e14 # e15 # v # e # i # s # f # sp # s' # stack) =
     Some (\<lparr>g_rax = a, g_rbx = b, g_rcx = c, g_rdx = d, g_rsi = si, g_rdi = di, g_rbp = bp, g_r8 = e8, g_r9 = e9, g_r10 = e10, g_r11 = e11,
            g_r12 = e12, g_r13 = e13, g_r14 = e14, g_r15 = e15, tf_vector = v, tf_error_code = e, tf_rip = i, tf_cs = s, tf_rflags = f,
            tf_rsp = sp, tf_ss = s'\<rparr>, stack)"
| "trap_frame_at _ = None"

text \<open>
  \<open>isr_return\<close> pops the registers in reverse order, skips vector and error code, and \<open>iretq\<close> pops the context
  (in 64-bit mode always with the stack pointer and segment).
\<close>

record cpu_context = gp_regs +
  x_rip :: u64
  x_cs :: u64
  x_rflags :: u64
  x_rsp :: u64
  x_ss :: u64

fun isr_return :: "u64 list \<Rightarrow> cpu_context option" where
  "isr_return (a # b # c # d # si # di # bp # e8 # e9 # e10 # e11 # e12 # e13 # e14 # e15 # _ # _ # i # s # f # sp # s' # _) =
     Some \<lparr>g_rax = a, g_rbx = b, g_rcx = c, g_rdx = d, g_rsi = si, g_rdi = di, g_rbp = bp, g_r8 = e8, g_r9 = e9, g_r10 = e10, g_r11 = e11,
            g_r12 = e12, g_r13 = e13, g_r14 = e14, g_r15 = e15, x_rip = i, x_cs = s, x_rflags = f, x_rsp = sp, x_ss = s'\<rparr>"
| "isr_return _ = None"

definition isr_stub_common ::
  "'s port_io \<Rightarrow> ('f, 'p, 's) handler_run \<Rightarrow> ('f, 'p) handler_table \<Rightarrow> gp_regs \<Rightarrow> u64 list \<Rightarrow> 's \<Rightarrow> (cpu_context \<times> 's) option" where
  "isr_stub_common io run table regs stack s = do {
     (cpu_state, rest) \<leftarrow> trap_frame_at (push_regs regs stack);
     (cpu_state, s) \<leftarrow> interrupt_catch_all io run table cpu_state s;
     x \<leftarrow> isr_return (trap_frame_words cpu_state @ rest);
     Some (x, s)
   }"

text \<open>The processor at an interrupt: what it pushes, and the stub that the vector leads to.\<close>

definition cpu_interrupt ::
  "'s port_io \<Rightarrow> ('f, 'p, 's) handler_run \<Rightarrow> ('f, 'p) handler_table \<Rightarrow> nat \<Rightarrow> u64 \<Rightarrow> cpu_context \<Rightarrow> u64 list \<Rightarrow> 's \<Rightarrow>
     (cpu_context \<times> 's) option" where
  "cpu_interrupt io run table v err x stack s =
     (let stack = x_rip x # x_cs x # x_rflags x # x_rsp x # x_ss x # stack;
          stack = if v \<in> isr_stub_with_error_code then err # stack else stack in
      isr_stub_common io run table (gp_regs.truncate x) (isr_stub v stack) s)"

section \<open>Interrupts leave the interrupted context alone\<close>

definition frame_of :: "nat \<Rightarrow> u64 \<Rightarrow> cpu_context \<Rightarrow> trap_frame" where
  "frame_of v err x = gp_regs.extend (gp_regs.truncate x)
     \<lparr>tf_vector = of_nat v, tf_error_code = (if v \<in> isr_stub_with_error_code then err else 0), tf_rip = x_rip x, tf_cs = x_cs x,
      tf_rflags = x_rflags x, tf_rsp = x_rsp x, tf_ss = x_ss x\<rparr>"

lemma frame_on_stack:
  "trap_frame_at (push_regs (gp_regs.truncate x) (isr_stub v
     (let stack = x_rip x # x_cs x # x_rflags x # x_rsp x # x_ss x # stack in
      if v \<in> isr_stub_with_error_code then err # stack else stack))) = Some (frame_of v err x, stack)"
  by (simp add: push_regs_def isr_stub_def frame_of_def gp_regs.defs trap_frame.defs)

lemma frame_returns: "isr_return (trap_frame_words (frame_of v err x) @ stack) = Some x"
  by (simp add: trap_frame_words_def frame_of_def gp_regs.defs trap_frame.defs)

lemma cpu_interrupt_eq:
  "cpu_interrupt io run table v err x stack s = do {
     (f, s) \<leftarrow> interrupt_catch_all io run table (frame_of v err x) s;
     x \<leftarrow> isr_return (trap_frame_words f @ stack);
     Some (x, s) }"
  using frame_on_stack [of x v stack err] by (simp add: cpu_interrupt_def isr_stub_common_def Let_def)

lemma vector_word: "v \<in> isr_stub_vectors \<Longrightarrow> uint (of_nat v :: u64) = int v \<and> (of_nat v :: u64) < IRQ_VECTORS_END"
proof -
  assume "v \<in> isr_stub_vectors"
  then have "v < 48" by (auto simp: isr_stub_vectors_def)
  then show ?thesis by (simp add: IRQ_VECTORS_END_def word_less_nat_alt unat_of_nat uint_nat take_bit_nat_eq_self)
qed

lemma interrupt_dispatch:
  assumes "v \<in> isr_stub_vectors" "length table = 48"
    and "\<And>f s'. run (ih_handler (table ! v)) (ih_private_data (table ! v)) (frame_of v err x) s = Some (f, s') \<Longrightarrow>
      f = frame_of v err x"
  shows "cpu_interrupt io run table v err x stack s =
    (if ih_is_used (table ! v) then
       map_option (\<lambda>(f, s'). (x, pic_send_eoi io (of_nat v) s'))
         (run (ih_handler (table ! v)) (ih_private_data (table ! v)) (frame_of v err x) s)
     else None)"
proof -
  note w = vector_word [OF assms(1)]
  have v: "v < 48" using assms(1) by (auto simp: isr_stub_vectors_def)
  have uc: "ucast (of_nat v :: u64) = (of_nat v :: u8)"
    using v by (simp add: unsigned_of_nat take_bit_nat_eq_self)
  have vec: "tf_vector (frame_of v err x) = of_nat v" by (simp add: frame_of_def gp_regs.defs)
  have p: "peek table (int v) = Some (table ! v)" using v assms(2) by simp
  have n: "\<not> IRQ_VECTORS_END \<le> (of_nat v :: u64)" using w by (simp add: not_le)
  have h: "have_interrupt_handler (of_nat v) table = Some (ih_is_used (table ! v))"
    using w n p by (simp add: have_interrupt_handler_def)
  show ?thesis
  proof (cases "ih_is_used (table ! v)")
    case True
    show ?thesis
    proof (cases "run (ih_handler (table ! v)) (ih_private_data (table ! v)) (frame_of v err x) s")
      case None
      then show ?thesis using True h w p vec
        by (simp add: cpu_interrupt_eq interrupt_catch_all_def handle_interrupt_def)
    next
      case (Some fs)
      obtain f s' where fs: "fs = (f, s')" by fastforce
      then have "f = frame_of v err x" using assms(3) Some by blast
      then show ?thesis using True h w p vec Some fs
        by (simp add: cpu_interrupt_eq interrupt_catch_all_def handle_interrupt_def frame_returns uc)
    qed
  next
    case False
    then show ?thesis using h vec
      by (simp add: cpu_interrupt_eq interrupt_catch_all_def crash_def split: option.splits) (metis bind.bind_lunit case_prod_conv)?
  qed
qed

text \<open>
  C29: An interrupt with one of the vectors that have a stub runs exactly the handler that is registered for
  it, on a frame with the registers and the context that was interrupted, its vector, and the error code of the
  processor or 0. When the handler leaves the frame alone, the interrupted code goes on with all its registers,
  its instruction pointer, stack and flags unchanged. Without a handler the machine stops.
\<close>

theorem interrupt_is_transparent:
  assumes "v \<in> isr_stub_vectors" "length table = 48"
    and "\<And>f s'. run (ih_handler (table ! v)) (ih_private_data (table ! v)) (frame_of v err x) s = Some (f, s') \<Longrightarrow>
      f = frame_of v err x"
  shows "cpu_interrupt io run table v err x stack s =
    (if ih_is_used (table ! v) then
       map_option (\<lambda>(f, s'). (x, pic_send_eoi io (of_nat v) s'))
         (run (ih_handler (table ! v)) (ih_private_data (table ! v)) (frame_of v err x) s)
     else None)"
  by (rule interrupt_dispatch [OF assms])

theorem interrupt_is_transparent_witness:
  "let io = \<lparr>inb = \<lambda>_ s. (0, s), inl = \<lambda>_ s. (0, s), outb = \<lambda>port v s. s @ [(port, v)], outw = \<lambda>_ _ s. s, outl = \<lambda>_ _ s. s\<rparr>;
       table = (replicate 48 \<lparr>ih_is_used = False, ih_handler = (), ih_private_data = ()\<rparr>)
         [43 := \<lparr>ih_is_used = True, ih_handler = (), ih_private_data = ()\<rparr>];
       run = (\<lambda>_ _ f s. Some (f, s @ [(0, 7)]));
       x = \<lparr>g_rax = 1, g_rbx = 2, g_rcx = 3, g_rdx = 4, g_rsi = 5, g_rdi = 6, g_rbp = 7, g_r8 = 8, g_r9 = 9, g_r10 = 10, g_r11 = 11,
            g_r12 = 12, g_r13 = 13, g_r14 = 14, g_r15 = 15, x_rip = 16, x_cs = 17, x_rflags = 18, x_rsp = 19, x_ss = 20\<rparr>
   in cpu_interrupt io run table 43 0 x [] [] = Some (x, [(0, 7), (0xa0, 0x20), (0x20, 0x20)])"
  unfolding Let_def
  by (subst interrupt_is_transparent)
    (simp_all add: isr_stub_vectors_def pic_send_eoi_def PIC2_CMD_PORT_def PIC1_CMD_PORT_def PIC_EOI_CMD_def Let_def)

end
