(* ===== verification/Cpu.thy ===== *)
theory Cpu
  imports Isr
begin

text \<open>
  The descriptor tables of the processor: segments and the task state (src/gdt.c, include/tx/gdt.h), the gates of
  the interrupt vectors (src/idt.c), and switching interrupts on. The addresses of tables and of the stubs
  are parameters.
\<close>

section \<open>Segments\<close>

record seg_descriptor =
  sd_limit_low :: u16
  sd_base_low :: u16
  sd_base_mid :: u8
  sd_attr :: u16
  sd_base_high :: u8

definition SEG_DESC_TYPE_DATA_RW :: u8 where "SEG_DESC_TYPE_DATA_RW = 2"
definition SEG_DESC_TYPE_CODE_RX :: u8 where "SEG_DESC_TYPE_CODE_RX = 10"
definition SEG_DESC_TYPE_TSS :: u16 where "SEG_DESC_TYPE_TSS = 9"
definition SEG_DESC_FLAG_S :: u16 where "SEG_DESC_FLAG_S = BIT 4"
definition SEG_DESC_DPL_SHIFT :: nat where "SEG_DESC_DPL_SHIFT = 5"
definition SEG_DESC_DPL_USER :: u8 where "SEG_DESC_DPL_USER = 3"
definition SEG_DESC_DPL_KERN :: u8 where "SEG_DESC_DPL_KERN = 0"
definition SEG_DESC_FLAG_P :: u16 where "SEG_DESC_FLAG_P = BIT 7"
definition SEG_DESC_LIMIT_HIGH_SHIFT :: nat where "SEG_DESC_LIMIT_HIGH_SHIFT = 8"
definition SEG_DESC_FLAG_L :: u16 where "SEG_DESC_FLAG_L = BIT 13"
definition SEG_DESC_FLAG_D :: u16 where "SEG_DESC_FLAG_D = BIT 14"
definition SEG_DESC_FLAG_G :: u16 where "SEG_DESC_FLAG_G = BIT 15"
definition SEG_IDX_KERN_CODE :: nat where "SEG_IDX_KERN_CODE = 1"
definition SEG_IDX_KERN_DATA :: nat where "SEG_IDX_KERN_DATA = 2"
definition SEG_IDX_USER_CODE :: nat where "SEG_IDX_USER_CODE = 3"
definition SEG_IDX_USER_DATA :: nat where "SEG_IDX_USER_DATA = 4"
definition SEG_IDX_TSS :: nat where "SEG_IDX_TSS = 5"
definition SIZEOF_TASK_STATE :: u64 where "SIZEOF_TASK_STATE = 104"

definition gdt_init_seg_descriptor :: "u8 \<Rightarrow> u8 \<Rightarrow> seg_descriptor \<Rightarrow> seg_descriptor" where
  "gdt_init_seg_descriptor type dpl desc =
     (let a = sd_attr desc;
          a = a OR ucast type;
          a = a OR SEG_DESC_FLAG_S;
          a = a OR push_bit SEG_DESC_DPL_SHIFT (ucast dpl);
          a = a OR SEG_DESC_FLAG_P;
          a = a OR push_bit SEG_DESC_LIMIT_HIGH_SHIFT 0xf;
          a = a OR SEG_DESC_FLAG_L;
          a = a AND NOT SEG_DESC_FLAG_D;
          a = a OR SEG_DESC_FLAG_G in
      \<lparr>sd_limit_low = 0xffff, sd_base_low = 0, sd_base_mid = 0, sd_attr = a, sd_base_high = 0\<rparr>)"

text \<open>The store through \<open>*(u32 *)high\<close> covers the first two fields of the upper half.\<close>

definition gdt_init_tss_descriptor ::
  "u64 \<Rightarrow> u64 \<Rightarrow> seg_descriptor \<Rightarrow> seg_descriptor \<Rightarrow> seg_descriptor \<times> seg_descriptor" where
  "gdt_init_tss_descriptor ts limit low high =
     (let a = sd_attr low;
          a = a OR SEG_DESC_TYPE_TSS;
          a = a OR push_bit SEG_DESC_DPL_SHIFT (ucast SEG_DESC_DPL_KERN);
          a = a OR SEG_DESC_FLAG_P;
          a = a OR ucast (push_bit SEG_DESC_LIMIT_HIGH_SHIFT (drop_bit 16 limit AND 0xff));
          a = a OR SEG_DESC_FLAG_G;
          hi = (ucast (drop_bit 32 ts AND 0xffffffff) :: u32) in
      (\<lparr>sd_limit_low = ucast (limit AND 0xffff), sd_base_low = ucast (ts AND 0xffff),
        sd_base_mid = ucast (drop_bit 16 ts AND 0xff), sd_attr = a, sd_base_high = ucast (drop_bit 24 ts AND 0xff)\<rparr>,
       high\<lparr>sd_limit_low := ucast hi, sd_base_low := ucast (drop_bit 16 hi)\<rparr>))"

definition segment_selector :: "u16 \<Rightarrow> u16 \<Rightarrow> u16" where
  "segment_selector gdt_idx rpl = push_bit 3 gdt_idx OR rpl"

record gdt_state =
  gdt :: "seg_descriptor list"
  gdtr :: "u16 \<times> u64"
  tr :: u16
  ts_io_map_base :: u16

definition zero_descriptor :: seg_descriptor where
  "zero_descriptor = \<lparr>sd_limit_low = 0, sd_base_low = 0, sd_base_mid = 0, sd_attr = 0, sd_base_high = 0\<rparr>"

definition gdt_init :: "u64 \<Rightarrow> u64 \<Rightarrow> gdt_state" where
  "gdt_init gdt_addr ts_addr =
     (let g = replicate 7 zero_descriptor;
          g = g[SEG_IDX_KERN_CODE := gdt_init_seg_descriptor SEG_DESC_TYPE_CODE_RX SEG_DESC_DPL_KERN (g ! SEG_IDX_KERN_CODE)];
          g = g[SEG_IDX_KERN_DATA := gdt_init_seg_descriptor SEG_DESC_TYPE_DATA_RW SEG_DESC_DPL_KERN (g ! SEG_IDX_KERN_DATA)];
          g = g[SEG_IDX_USER_CODE := gdt_init_seg_descriptor SEG_DESC_TYPE_CODE_RX SEG_DESC_DPL_USER (g ! SEG_IDX_USER_CODE)];
          g = g[SEG_IDX_USER_DATA := gdt_init_seg_descriptor SEG_DESC_TYPE_DATA_RW SEG_DESC_DPL_USER (g ! SEG_IDX_USER_DATA)];
          (low, high) = gdt_init_tss_descriptor ts_addr (SIZEOF_TASK_STATE - 1) (g ! SEG_IDX_TSS) (g ! (SEG_IDX_TSS + 1)) in
      \<lparr>gdt = g[SEG_IDX_TSS := low, SEG_IDX_TSS + 1 := high], gdtr = (7 * 8 - 1, gdt_addr),
       tr = segment_selector (of_nat SEG_IDX_TSS) (ucast SEG_DESC_DPL_KERN), ts_io_map_base = 0xffff\<rparr>)"

section \<open>Gates\<close>

record idt_entry =
  ie_offset1 :: u16
  ie_seg_selector :: u16
  ie_ist :: u8
  ie_attributes :: u8
  ie_offset2 :: u16
  ie_offset3 :: u32
  ie_reserved :: u32

definition GATE_TYPE_INTERRUPT :: u8 where "GATE_TYPE_INTERRUPT = 0xe"
definition GATE_PRESENT_FLAG_BIT :: nat where "GATE_PRESENT_FLAG_BIT = 7"

definition ATTR_INTERRUPT_GATE :: u8 where
  "ATTR_INTERRUPT_GATE = GATE_TYPE_INTERRUPT OR BIT GATE_PRESENT_FLAG_BIT"

definition NUM_IDT_ENTRIES :: nat where "NUM_IDT_ENTRIES = 256"

definition init_idt_entry :: "u64 \<Rightarrow> u8 \<Rightarrow> idt_entry" where
  "init_idt_entry handler attributes =
     \<lparr>ie_offset1 = ucast (handler AND 0xffff),
      ie_seg_selector = segment_selector (of_nat SEG_IDX_KERN_CODE) (ucast SEG_DESC_DPL_KERN),
      ie_ist = 0, ie_attributes = attributes,
      ie_offset2 = ucast (drop_bit 16 handler AND 0xffff),
      ie_offset3 = ucast (drop_bit 32 handler AND 0xffffffff), ie_reserved = 0\<rparr>"

definition init_idt :: "u64 \<Rightarrow> (nat \<Rightarrow> u64) \<Rightarrow> idt_entry list \<Rightarrow> idt_entry list \<times> (u16 \<times> u64)" where
  "init_idt idt_addr stub_addr idt =
     (foldl (\<lambda>idt v. idt[v := init_idt_entry (stub_addr v) ATTR_INTERRUPT_GATE]) idt ([0 ..< 22] @ [32 ..< 48]),
      (of_nat (16 * NUM_IDT_ENTRIES) - 1, idt_addr))"

record interrupt_state =
  idt :: "idt_entry list"
  idtr :: "u16 \<times> u64"
  interrupts_enabled :: bool

definition interrupt_init ::
  "'s port_io \<Rightarrow> u64 \<Rightarrow> (nat \<Rightarrow> u64) \<Rightarrow> interrupt_state \<Rightarrow> 's \<Rightarrow> interrupt_state \<times> 's" where
  "interrupt_init io idt_addr stub_addr st s =
     (let st = st\<lparr>interrupts_enabled := False\<rparr>;
          s = pic_remap io (ucast IRQ_VECTORS_BEG) (ucast IRQ_VECTORS_BEG + 8) s;
          (es, r) = init_idt idt_addr stub_addr (idt st) in
      (st\<lparr>idt := es, idtr := r, interrupts_enabled := True\<rparr>, s))"

section \<open>What the processor reads\<close>

text \<open>A selector and a gate as the processor decodes them, and the parts of a descriptor.\<close>

definition gate_offset :: "idt_entry \<Rightarrow> u64" where
  "gate_offset e = ucast (ie_offset1 e) OR push_bit 16 (ucast (ie_offset2 e)) OR push_bit 32 (ucast (ie_offset3 e))"

definition gate_present :: "idt_entry \<Rightarrow> bool" where
  "gate_present e = bit (ie_attributes e) 7"

definition gate_type :: "idt_entry \<Rightarrow> u8" where
  "gate_type e = ie_attributes e AND 0xf"

definition selected :: "u16 \<Rightarrow> seg_descriptor list \<Rightarrow> seg_descriptor" where
  "selected sel g = g ! unat (drop_bit 3 sel)"

definition desc_dpl :: "seg_descriptor \<Rightarrow> u16" where
  "desc_dpl d = drop_bit 5 (sd_attr d) AND 3"

definition is_code_64 :: "seg_descriptor \<Rightarrow> bool" where
  "is_code_64 d \<longleftrightarrow> bit (sd_attr d) 7 \<and> bit (sd_attr d) 4 \<and> bit (sd_attr d) 3 \<and> bit (sd_attr d) 13 \<and> \<not> bit (sd_attr d) 14"

definition tss_base :: "seg_descriptor \<Rightarrow> seg_descriptor \<Rightarrow> u64" where
  "tss_base low high = ucast (sd_base_low low) OR push_bit 16 (ucast (sd_base_mid low)) OR push_bit 24 (ucast (sd_base_high low)) OR
     push_bit 32 (ucast (sd_limit_low high)) OR push_bit 48 (ucast (sd_base_low high))"

lemma low_part_masks: "(0xffff :: u64) = mask 16" "(0xff :: u64) = mask 8" "(0xffffffff :: u64) = mask 32"
  by (simp_all add: mask_eq_exp_minus_1)

lemma ucast_low_part [simp]:
  "(ucast (x AND 0xffff :: u64) :: u16) = ucast x"
  "(ucast (x AND 0xff :: u64) :: u8) = ucast x"
  "(ucast (x AND 0xffffffff :: u64) :: u32) = ucast x"
proof -
  have "(ucast (x AND mask 16) :: u16) = ucast x" "(ucast (x AND mask 8) :: u8) = ucast x" "(ucast (x AND mask 32) :: u32) = ucast x"
    by (rule bit_eqI, auto simp: bit_simps)+
  then show "(ucast (x AND 0xffff :: u64) :: u16) = ucast x" "(ucast (x AND 0xff :: u64) :: u8) = ucast x"
    "(ucast (x AND 0xffffffff :: u64) :: u32) = ucast x" unfolding low_part_masks by simp_all
qed

lemma gate_offset_entry: "gate_offset (init_idt_entry h a) = h"
proof (rule bit_word_eqI)
  fix n assume "n < LENGTH(64)"
  then consider "n < 16" | "16 \<le> n" "n < 32" | "32 \<le> n" "n < 64" by fastforce
  then show "bit (gate_offset (init_idt_entry h a)) n = bit h n"
    by cases (auto simp: gate_offset_def init_idt_entry_def bit_simps)
qed

lemma tss_descriptor_base:
  assumes "gdt_init_tss_descriptor ts limit low high = (l, h)"
  shows "tss_base l h = ts"
proof (rule bit_word_eqI)
  fix n assume "n < LENGTH(64)"
  then consider "n < 16" | "16 \<le> n" "n < 24" | "24 \<le> n" "n < 32" | "32 \<le> n" "n < 48" | "48 \<le> n" "n < 64" by fastforce
  then show "bit (tss_base l h) n = bit ts n" using assms
    by cases (auto simp: gdt_init_tss_descriptor_def Let_def tss_base_def bit_simps)
qed

lemma init_idt_nth:
  assumes "length es = 256" "v < 256"
  shows "fst (init_idt a stub es) ! v = (if v \<in> isr_stub_vectors then init_idt_entry (stub v) ATTR_INTERRUPT_GATE else es ! v)"
proof -
  have "foldl (\<lambda>es v. es[v := f v]) es vs ! v = (if v \<in> set vs then f v else es ! v)" if "length es = 256" for es f vs
    using that assms(2) by (induction vs arbitrary: es) (auto simp: nth_list_update)
  note this [OF assms(1), of "\<lambda>v. init_idt_entry (stub v) ATTR_INTERRUPT_GATE" "[0 ..< 22] @ [32 ..< 48]"]
  moreover have "v \<in> set ([0 ..< 22] @ [32 ..< 48]) \<longleftrightarrow> v \<in> isr_stub_vectors"
    unfolding set_append set_upt isr_stub_vectors_def by auto
  ultimately show ?thesis unfolding init_idt_def fst_conv by presburger
qed

text \<open>
  C30: With the tables that the kernel sets up, every vector that has a stub goes to exactly this stub, through
  an interrupt gate that is present and selects the kernel's 64-bit code segment of privilege 0, and every other
  vector has no gate; the task register selects the descriptor pair that points to the task state.
\<close>

theorem vectors_reach_their_stubs:
  assumes "length (idt st) = 256" "\<forall>e \<in> set (idt st). ie_attributes e = 0"
    and "interrupt_init io idt_addr stub st s = (st', s')" "g = gdt_init gdt_addr ts_addr" "v < 256"
  shows "let e = idt st' ! v; sel = selected (ie_seg_selector e) (gdt g) in
    interrupts_enabled st' \<and> gate_present e = (v \<in> isr_stub_vectors) \<and>
    (v \<in> isr_stub_vectors \<longrightarrow> gate_offset e = stub v \<and> gate_type e = GATE_TYPE_INTERRUPT \<and>
       is_code_64 sel \<and> desc_dpl sel = 0) \<and>
    tss_base (selected (tr g) (gdt g)) (gdt g ! Suc (unat (drop_bit 3 (tr g)))) = ts_addr"
proof -
  have st': "idt st' = fst (init_idt idt_addr stub (idt st))" "interrupts_enabled st'"
    using assms(3) by (auto simp: interrupt_init_def Let_def init_idt_def)
  have e: "idt st' ! v = (if v \<in> isr_stub_vectors then init_idt_entry (stub v) ATTR_INTERRUPT_GATE else idt st ! v)"
    using init_idt_nth [OF assms(1,5)] st'(1) by simp
  have z: "ie_attributes (idt st ! v) = 0" using assms(1,2,5) by (simp add: nth_mem)
  have p: "gate_present (init_idt_entry h ATTR_INTERRUPT_GATE)" "gate_type (init_idt_entry h ATTR_INTERRUPT_GATE) = GATE_TYPE_INTERRUPT"
    "selected (ie_seg_selector (init_idt_entry h ATTR_INTERRUPT_GATE)) (gdt g) = gdt g ! 1" for h
    by (simp_all add: gate_present_def gate_type_def selected_def init_idt_entry_def ATTR_INTERRUPT_GATE_def
        GATE_TYPE_INTERRUPT_def GATE_PRESENT_FLAG_BIT_def BIT_def segment_selector_def SEG_IDX_KERN_CODE_def SEG_DESC_DPL_KERN_def)
  have c: "gdt g ! 1 = gdt_init_seg_descriptor SEG_DESC_TYPE_CODE_RX SEG_DESC_DPL_KERN zero_descriptor"
    using assms(4) by (simp add: gdt_init_def Let_def SEG_IDX_KERN_CODE_def SEG_IDX_KERN_DATA_def SEG_IDX_USER_CODE_def
        SEG_IDX_USER_DATA_def SEG_IDX_TSS_def split: prod.splits)
  have k: "is_code_64 (gdt g ! 1)" "desc_dpl (gdt g ! 1) = 0" unfolding c
    by (simp_all add: is_code_64_def desc_dpl_def gdt_init_seg_descriptor_def Let_def zero_descriptor_def SEG_DESC_TYPE_CODE_RX_def
        SEG_DESC_FLAG_S_def SEG_DESC_DPL_SHIFT_def SEG_DESC_DPL_KERN_def SEG_DESC_FLAG_P_def SEG_DESC_LIMIT_HIGH_SHIFT_def
        SEG_DESC_FLAG_L_def SEG_DESC_FLAG_D_def SEG_DESC_FLAG_G_def BIT_def)
  obtain l h where lh: "gdt_init_tss_descriptor ts_addr (SIZEOF_TASK_STATE - 1) zero_descriptor zero_descriptor = (l, h)" by fastforce
  have t: "selected (tr g) (gdt g) = l" "gdt g ! Suc (unat (drop_bit 3 (tr g))) = h"
    using assms(4) lh by (simp_all add: gdt_init_def Let_def SEG_IDX_KERN_CODE_def SEG_IDX_KERN_DATA_def SEG_IDX_USER_CODE_def
        SEG_IDX_USER_DATA_def SEG_IDX_TSS_def selected_def segment_selector_def SEG_DESC_DPL_KERN_def)
  show ?thesis
    unfolding Let_def t tss_descriptor_base [OF lh] e using st'(2) p k z gate_offset_entry
    by (auto simp: gate_present_def)
qed

definition no_idt :: interrupt_state where
  "no_idt = \<lparr>idt = replicate 256 \<lparr>ie_offset1 = 0, ie_seg_selector = 0, ie_ist = 0, ie_attributes = 0, ie_offset2 = 0,
     ie_offset3 = 0, ie_reserved = 0\<rparr>, idtr = (0, 0), interrupts_enabled = False\<rparr>"

definition no_ports :: "unit port_io" where
  "no_ports = \<lparr>inb = \<lambda>_ s. (0, s), inl = \<lambda>_ s. (0, s), outb = \<lambda>_ _ s. s, outw = \<lambda>_ _ s. s, outl = \<lambda>_ _ s. s\<rparr>"

theorem vectors_reach_their_stubs_witness:
  "let st' = fst (interrupt_init no_ports 0x1000 (\<lambda>v. 0xffffffff80000000 + of_nat v) no_idt ());
       g = gdt_init 0x2000 0x3000; e = idt st' ! 43; sel = selected (ie_seg_selector e) (gdt g) in
    interrupts_enabled st' \<and> gate_present e = (43 \<in> isr_stub_vectors) \<and>
    (43 \<in> isr_stub_vectors \<longrightarrow> gate_offset e = 0xffffffff80000000 + of_nat 43 \<and> gate_type e = GATE_TYPE_INTERRUPT \<and>
       is_code_64 sel \<and> desc_dpl sel = 0) \<and>
    tss_base (selected (tr g) (gdt g)) (gdt g ! Suc (unat (drop_bit 3 (tr g)))) = 0x3000"
proof -
  have "length (idt no_idt) = 256" "\<forall>e \<in> set (idt no_idt). ie_attributes e = 0" by (simp_all add: no_idt_def)
  from vectors_reach_their_stubs [OF this prod.collapse [symmetric] refl, of 43 no_ports "0x1000"
      "\<lambda>v. 0xffffffff80000000 + of_nat v" "()" "0x2000" "0x3000"]
  show ?thesis unfolding Let_def by simp
qed

end
