(* ===== verification/Pci.thy ===== *)
theory Pci
  imports Ports Paging Buddy
begin

text \<open>
  The PCI bus (src/pci.c, include/tx/pci.h): access to the configuration space through two ports, the base
  address registers of a device, the table of drivers, and probing. The list of devices, an intrusive
  list in the code, is the list of its elements.
\<close>

section \<open>Constants and types\<close>

definition PCI_PORT_CONFIG_ADDRESS :: u16 where "PCI_PORT_CONFIG_ADDRESS = 0xcf8"
definition PCI_PORT_CONFIG_DATA :: u16 where "PCI_PORT_CONFIG_DATA = 0xcfc"
definition PCI_OFFSET_VENDOR_ID :: u8 where "PCI_OFFSET_VENDOR_ID = 0x00"
definition PCI_OFFSET_DEVICE_ID :: u8 where "PCI_OFFSET_DEVICE_ID = 0x02"
definition PCI_OFFSET_COMMAND :: u8 where "PCI_OFFSET_COMMAND = 0x04"
definition PCI_OFFSET_REVISION_ID :: u8 where "PCI_OFFSET_REVISION_ID = 0x08"
definition PCI_OFFSET_PROG_IF :: u8 where "PCI_OFFSET_PROG_IF = 0x09"
definition PCI_OFFSET_SUBCLASS :: u8 where "PCI_OFFSET_SUBCLASS = 0x0a"
definition PCI_OFFSET_CLASS_CODE :: u8 where "PCI_OFFSET_CLASS_CODE = 0x0b"
definition PCI_OFFSET_HEADER_TYPE :: u8 where "PCI_OFFSET_HEADER_TYPE = 0x0e"
definition PCI_OFFSET_HDR0_BAR0 :: u8 where "PCI_OFFSET_HDR0_BAR0 = 0x10"
definition PCI_OFFSET_HDR0_INTERRUPT_LINE :: u8 where "PCI_OFFSET_HDR0_INTERRUPT_LINE = 0x3c"
definition PCI_MASK_HEADER_TYPE :: u8 where "PCI_MASK_HEADER_TYPE = NOT (BIT 7)"
definition PCI_REGISTER_COMMAND_IO_SPACE :: u16 where "PCI_REGISTER_COMMAND_IO_SPACE = BIT 0"
definition PCI_REGISTER_COMMAND_MEM_SPACE :: u16 where "PCI_REGISTER_COMMAND_MEM_SPACE = BIT 1"
definition PCI_REGISTER_COMMAND_BUS_MASTER :: u16 where "PCI_REGISTER_COMMAND_BUS_MASTER = BIT 2"
definition PCI_REGISTER_COMMAND_INTERRUPT_DISABLE :: u16 where "PCI_REGISTER_COMMAND_INTERRUPT_DISABLE = BIT 10"
definition PCI_MAX_DEVICES :: nat where "PCI_MAX_DEVICES = 32"
definition PCI_MAX_BUSSES :: nat where "PCI_MAX_BUSSES = 256"
definition PCI_MASK_BAR_TYPE :: u32 where "PCI_MASK_BAR_TYPE = BIT 0"
definition PCI_MASK_BAR_MEM_TYPE :: u32 where "PCI_MASK_BAR_MEM_TYPE = BIT 1 OR BIT 2"
definition PCI_MASK_BAR_MEM_PREFETCHABLE :: u32 where "PCI_MASK_BAR_MEM_PREFETCHABLE = BIT 3"
definition PCI_MASK_BAR_MEM_ADDR :: u32 where "PCI_MASK_BAR_MEM_ADDR = 0xfffffff0"
definition PCI_MASK_BAR_IO_ADDR :: u32 where "PCI_MASK_BAR_IO_ADDR = 0xfffffffc"
definition PCI_DEVICE_DRIVER_CAP_DMA :: u16 where "PCI_DEVICE_DRIVER_CAP_DMA = PCI_REGISTER_COMMAND_BUS_MASTER"
definition PCI_DEVICE_DRIVER_CAP_MEM :: u16 where "PCI_DEVICE_DRIVER_CAP_MEM = PCI_REGISTER_COMMAND_MEM_SPACE"
definition PCI_DEVICE_DRIVER_CAP_IO :: u16 where "PCI_DEVICE_DRIVER_CAP_IO = PCI_REGISTER_COMMAND_IO_SPACE"
definition PCI_DEVICE_DRIVER_CAP_INTERRUPT :: u16 where "PCI_DEVICE_DRIVER_CAP_INTERRUPT = PCI_REGISTER_COMMAND_INTERRUPT_DISABLE"

datatype pci_bar_type = PCI_BAR_TYPE_MEM | PCI_BAR_TYPE_IO

definition PCI_BAR_FLAG_PREFETCHABLE :: u16 where "PCI_BAR_FLAG_PREFETCHABLE = BIT 0"

record pci_bar =
  pb_used :: bool
  pb_type :: pci_bar_type
  pb_flags :: u16
  pb_base :: u64
  pb_len :: u64

definition PCI_MAX_BARS :: nat where "PCI_MAX_BARS = 6"

text \<open>The driver of a device is its index in the table of drivers.\<close>

record pci_device =
  pd_vendor_id :: u16
  pd_device_id :: u16
  pd_class_code :: u8
  pd_subclass :: u8
  pd_prog_if :: u8
  pd_revision_id :: u8
  pd_bus :: u8
  pd_device :: u8
  pd_func :: u8
  pd_interrupt_line :: u8
  pd_bars :: "pci_bar list"
  pd_driver :: "nat option"

record pci_device_id =
  id_vendor :: u16
  id_device :: u16

record 's pci_device_driver =
  drv_name :: "byte list"
  drv_ids :: "pci_device_id list"
  drv_capabilities :: u16
  drv_probe :: "pci_device \<Rightarrow> 's \<Rightarrow> (unit res \<times> 's) option"

section \<open>The configuration space\<close>

definition pci_config_address :: "u8 \<Rightarrow> u8 \<Rightarrow> u8 \<Rightarrow> u8 \<Rightarrow> u32" where
  "pci_config_address bus device func offset =
     push_bit 16 (ucast bus) OR push_bit 11 (ucast device) OR push_bit 8 (ucast func) OR ucast offset OR BIT 31"

definition pci_config_read32 ::
  "('s, 'z) port_io_scheme \<Rightarrow> u8 \<Rightarrow> u8 \<Rightarrow> u8 \<Rightarrow> u8 \<Rightarrow> 's \<Rightarrow> (u32 res \<times> 's) option" where
  "pci_config_read32 io bus device func offset s = do {
     kassert (IS_ALIGNED (uint offset) 4);
     let s = outl io PCI_PORT_CONFIG_ADDRESS (pci_config_address bus device func offset) s;
     let (ret, s) = inl io PCI_PORT_CONFIG_DATA s;
     Some (if ret = 0xffffffff then Inl ENODEV else Inr ret, s)
   }"

definition pci_config_read16 ::
  "('s, 'z) port_io_scheme \<Rightarrow> u8 \<Rightarrow> u8 \<Rightarrow> u8 \<Rightarrow> u8 \<Rightarrow> 's \<Rightarrow> (u16 res \<times> 's) option" where
  "pci_config_read16 io bus device func offset s = do {
     kassert (IS_ALIGNED (uint offset) 2);
     (res, s) \<leftarrow> pci_config_read32 io bus device func (offset AND NOT 3) s;
     case res of
       Inl e \<Rightarrow> Some (Inl e, s)
     | Inr v \<Rightarrow>
         let ret = ucast (drop_bit (unat (offset AND 2) * 8) v AND 0xffff) :: u16 in
         Some (if ret = 0xffff then Inl ENODEV else Inr ret, s)
   }"

definition pci_config_read8 ::
  "('s, 'z) port_io_scheme \<Rightarrow> u8 \<Rightarrow> u8 \<Rightarrow> u8 \<Rightarrow> u8 \<Rightarrow> 's \<Rightarrow> (u8 res \<times> 's) option" where
  "pci_config_read8 io bus device func offset s = do {
     (res, s) \<leftarrow> pci_config_read16 io bus device func (offset AND NOT 1) s;
     case res of
       Inl e \<Rightarrow> Some (Inl e, s)
     | Inr v \<Rightarrow>
         let ret = ucast (drop_bit (unat (offset AND 1) * 8) v AND 0xff) :: u8 in
         Some (if ret = 0xff then Inl ENODEV else Inr ret, s)
   }"

definition pci_config_write32 ::
  "('s, 'z) port_io_scheme \<Rightarrow> u8 \<Rightarrow> u8 \<Rightarrow> u8 \<Rightarrow> u8 \<Rightarrow> u32 \<Rightarrow> 's \<Rightarrow> 's option" where
  "pci_config_write32 io bus device func offset v s = do {
     kassert (IS_ALIGNED (uint offset) 4);
     let s = outl io PCI_PORT_CONFIG_ADDRESS (pci_config_address bus device func offset) s;
     Some (outl io PCI_PORT_CONFIG_DATA v s)
   }"

definition pci_config_write16 ::
  "('s, 'z) port_io_scheme \<Rightarrow> u8 \<Rightarrow> u8 \<Rightarrow> u8 \<Rightarrow> u8 \<Rightarrow> u16 \<Rightarrow> 's \<Rightarrow> 's option" where
  "pci_config_write16 io bus device func offset v s = do {
     kassert (IS_ALIGNED (uint offset) 2);
     let s = outl io PCI_PORT_CONFIG_ADDRESS (pci_config_address bus device func offset) s;
     Some (outw io PCI_PORT_CONFIG_DATA v s)
   }"

definition pci_config_write8 ::
  "('s, 'z) port_io_scheme \<Rightarrow> u8 \<Rightarrow> u8 \<Rightarrow> u8 \<Rightarrow> u8 \<Rightarrow> u8 \<Rightarrow> 's \<Rightarrow> 's" where
  "pci_config_write8 io bus device func offset v s =
     (let s = outl io PCI_PORT_CONFIG_ADDRESS (pci_config_address bus device func offset) s in
      outb io PCI_PORT_CONFIG_DATA v s)"

section \<open>Drivers\<close>

definition id_matches :: "u16 \<Rightarrow> u16 \<Rightarrow> pci_device_id \<Rightarrow> bool" where
  "id_matches vendor_id device_id d \<longleftrightarrow> id_vendor d = vendor_id \<and> id_device d = device_id"

fun match_ids :: "u16 \<Rightarrow> u16 \<Rightarrow> nat \<Rightarrow> pci_device_id list \<Rightarrow> nat \<times> nat option \<Rightarrow> nat \<times> nat option" where
  "match_ids vendor_id device_id drv [] acc = acc"
| "match_ids vendor_id device_id drv (d # ds) (n_matches, latest_match) =
     match_ids vendor_id device_id drv ds
       (if id_matches vendor_id device_id d then (n_matches + 1, Some drv) else (n_matches, latest_match))"

fun match_drivers :: "u16 \<Rightarrow> u16 \<Rightarrow> nat \<Rightarrow> 's pci_device_driver list \<Rightarrow> nat \<times> nat option \<Rightarrow> nat \<times> nat option" where
  "match_drivers vendor_id device_id i [] acc = acc"
| "match_drivers vendor_id device_id i (drv # drvs) acc =
     match_drivers vendor_id device_id (Suc i) drvs (match_ids vendor_id device_id i (drv_ids drv) acc)"

definition pci_lookup_driver :: "u16 \<Rightarrow> u16 \<Rightarrow> 's pci_device_driver list \<Rightarrow> nat option option" where
  "pci_lookup_driver vendor_id device_id drvs =
     (let (n_matches, latest_match) = match_drivers vendor_id device_id 0 drvs (0, None) in
      if n_matches = 1 then do { kassert (latest_match \<noteq> None); Some latest_match }
      else Some None)"

section \<open>Base address registers\<close>

definition pci_device_exists :: "('s, 'z) port_io_scheme \<Rightarrow> u8 \<Rightarrow> u8 \<Rightarrow> u8 \<Rightarrow> 's \<Rightarrow> (bool \<times> 's) option" where
  "pci_device_exists io bus device func s = do {
     (res, s) \<leftarrow> pci_config_read16 io bus device func PCI_OFFSET_VENDOR_ID s;
     Some (\<not> is_error res, s)
   }"

definition bar_offset :: "nat \<Rightarrow> u8" where
  "bar_offset i = PCI_OFFSET_HDR0_BAR0 + of_nat i * 4"

definition pci_get_bar_len ::
  "('s, 'z) port_io_scheme \<Rightarrow> u8 \<Rightarrow> u8 \<Rightarrow> u8 \<Rightarrow> nat \<Rightarrow> u32 \<Rightarrow> 's \<Rightarrow> (u32 res \<times> 's) option" where
  "pci_get_bar_len io bus device func bar_idx bar_mask s = do {
     (res, s) \<leftarrow> pci_config_read32 io bus device func (bar_offset bar_idx) s;
     case res of
       Inl e \<Rightarrow> Some (Inl e, s)
     | Inr orig_bar \<Rightarrow> do {
         s \<leftarrow> pci_config_write32 io bus device func (bar_offset bar_idx) 0xffffffff s;
         (res, s) \<leftarrow> pci_config_read32 io bus device func (bar_offset bar_idx) s;
         case res of
           Inl e \<Rightarrow> Some (Inl e, s)
         | Inr len \<Rightarrow> do {
             let len = len AND bar_mask;
             let len = NOT len;
             let len = len + 1;
             s \<leftarrow> pci_config_write32 io bus device func (bar_offset bar_idx) orig_bar s;
             Some (Inr len, s)
           }
       }
   }"

fun read_bars :: "('s, 'z) port_io_scheme \<Rightarrow> u8 \<Rightarrow> u8 \<Rightarrow> u8 \<Rightarrow> nat list \<Rightarrow> 's \<Rightarrow> (u32 list res \<times> 's) option" where
  "read_bars io bus device func [] s = Some (Inr [], s)"
| "read_bars io bus device func (i # is) s = do {
     (res, s) \<leftarrow> pci_config_read32 io bus device func (bar_offset i) s;
     case res of
       Inl e \<Rightarrow> Some (Inl e, s)
     | Inr v \<Rightarrow> do {
         (res, s) \<leftarrow> read_bars io bus device func is s;
         Some (case res of Inl e \<Rightarrow> Inl e | Inr vs \<Rightarrow> Inr (v # vs), s)
       }
   }"

definition zero_bar :: pci_bar where
  "zero_bar = \<lparr>pb_used = False, pb_type = PCI_BAR_TYPE_MEM, pb_flags = 0, pb_base = 0, pb_len = 0\<rparr>"

definition prefetch_flag :: "u32 \<Rightarrow> u16" where
  "prefetch_flag raw = (if raw AND PCI_MASK_BAR_MEM_PREFETCHABLE \<noteq> 0 then PCI_BAR_FLAG_PREFETCHABLE else 0)"

function bar_loop ::
  "('s, 'z) port_io_scheme \<Rightarrow> u8 \<Rightarrow> u8 \<Rightarrow> u8 \<Rightarrow> u32 list \<Rightarrow> nat \<Rightarrow> pci_bar list \<Rightarrow> 's \<Rightarrow>
     (unit res \<times> pci_bar list \<times> 's) option" where
  "bar_loop io bus device func raw_bars i bars s =
     (if \<not> i < PCI_MAX_BARS then Some (ok, bars, s)
      else do {
        raw \<leftarrow> peek raw_bars (int i);
        bar \<leftarrow> peek bars (int i);
        if raw AND PCI_MASK_BAR_TYPE = 1 then do {
          let bar = bar\<lparr>pb_type := PCI_BAR_TYPE_IO, pb_base := ucast (raw AND PCI_MASK_BAR_IO_ADDR), pb_flags := 0\<rparr>;
          bars \<leftarrow> poke bars (int i) bar;
          (res, s) \<leftarrow> pci_get_bar_len io bus device func i PCI_MASK_BAR_IO_ADDR s;
          case res of
            Inl e \<Rightarrow> Some (Inl e, bars, s)
          | Inr len \<Rightarrow> do {
              bars \<leftarrow> poke bars (int i) (bar\<lparr>pb_len := ucast len, pb_used := True\<rparr>);
              bar_loop io bus device func raw_bars (i + 1) bars s
            }
        }
        else if raw AND PCI_MASK_BAR_MEM_TYPE = 0 then do {
          let bar = bar\<lparr>pb_type := PCI_BAR_TYPE_MEM, pb_base := ucast (raw AND PCI_MASK_BAR_MEM_ADDR), pb_flags := prefetch_flag raw\<rparr>;
          bars \<leftarrow> poke bars (int i) bar;
          (res, s) \<leftarrow> pci_get_bar_len io bus device func i PCI_MASK_BAR_MEM_ADDR s;
          case res of
            Inl e \<Rightarrow> Some (Inl e, bars, s)
          | Inr len \<Rightarrow> do {
              bars \<leftarrow> poke bars (int i) (bar\<lparr>pb_len := ucast len, pb_used := True\<rparr>);
              bar_loop io bus device func raw_bars (i + 1) bars s
            }
        }
        else if raw AND PCI_MASK_BAR_MEM_TYPE = 2 then
          if i + 1 = PCI_MAX_BARS then Some (Inl EINVAL, bars, s)
          else do {
            high \<leftarrow> peek raw_bars (int (i + 1));
            let bar = bar\<lparr>pb_type := PCI_BAR_TYPE_MEM, pb_base := ucast (raw AND PCI_MASK_BAR_MEM_ADDR) + push_bit 32 (ucast high),
              pb_flags := prefetch_flag raw\<rparr>;
            bars \<leftarrow> poke bars (int i) bar;
            (low_res, s) \<leftarrow> pci_get_bar_len io bus device func i PCI_MASK_BAR_MEM_ADDR s;
            (high_res, s) \<leftarrow> pci_get_bar_len io bus device func (i + 1) 0xffffffff s;
            case low_res of
              Inl e \<Rightarrow> Some (Inl e, bars, s)
            | Inr low_len \<Rightarrow>
                (case high_res of
                   Inl e \<Rightarrow> Some (Inl e, bars, s)
                 | Inr high_len \<Rightarrow> do {
                     bars \<leftarrow> poke bars (int i) (bar\<lparr>pb_len := ucast low_len OR push_bit 32 (ucast high_len), pb_used := True\<rparr>);
                     bar_loop io bus device func raw_bars (i + 2) bars s
                   })
          }
        else bar_loop io bus device func raw_bars (i + 1) bars s
      })"
  by pat_completeness auto
termination
  by (relation "measure (\<lambda>(_, _, _, _, _, i, _, _). PCI_MAX_BARS - i)") auto

declare bar_loop.simps [simp del]

definition pci_get_resource_info ::
  "('s, 'z) port_io_scheme \<Rightarrow> u8 \<Rightarrow> u8 \<Rightarrow> u8 \<Rightarrow> 's \<Rightarrow> (unit res \<times> pci_bar list \<times> 's) option" where
  "pci_get_resource_info io bus device func s = do {
     let bars = replicate PCI_MAX_BARS zero_bar;
     (header_type_res, s) \<leftarrow> pci_config_read8 io bus device func PCI_OFFSET_HEADER_TYPE s;
     case header_type_res of
       Inl e \<Rightarrow> Some (Inl e, bars, s)
     | Inr header_type \<Rightarrow> do {
         kassert (header_type AND PCI_MASK_HEADER_TYPE = 0);
         (cmd_res, s) \<leftarrow> pci_config_read16 io bus device func PCI_OFFSET_COMMAND s;
         case cmd_res of
           Inl e \<Rightarrow> Some (Inl e, bars, s)
         | Inr orig_cmd \<Rightarrow> do {
             let tmp_cmd = orig_cmd AND NOT (PCI_REGISTER_COMMAND_IO_SPACE OR PCI_REGISTER_COMMAND_MEM_SPACE);
             s \<leftarrow> pci_config_write16 io bus device func PCI_OFFSET_COMMAND tmp_cmd s;
             (raw_res, s) \<leftarrow> read_bars io bus device func [0 ..< PCI_MAX_BARS] s;
             case raw_res of
               Inl e \<Rightarrow> Some (Inl e, bars, s)
             | Inr raw_bars \<Rightarrow> do {
                 (res, bars, s) \<leftarrow> bar_loop io bus device func raw_bars 0 bars s;
                 if is_error res then Some (res, bars, s)
                 else do {
                   s \<leftarrow> pci_config_write16 io bus device func PCI_OFFSET_COMMAND orig_cmd s;
                   Some (ok, bars, s)
                 }
               }
           }
       }
   }"

section \<open>Probing\<close>

definition set_flag :: "bool \<Rightarrow> u16 \<Rightarrow> u16 \<Rightarrow> u16" where
  "set_flag b flag cmd = (if b then cmd OR flag else cmd AND NOT flag)"

definition pci_set_driver_capabilities ::
  "('s, 'z) port_io_scheme \<Rightarrow> pci_device \<Rightarrow> u16 \<Rightarrow> 's \<Rightarrow> (unit res \<times> 's) option" where
  "pci_set_driver_capabilities io dev capabilities s = do {
     (cmd_res, s) \<leftarrow> pci_config_read16 io (pd_bus dev) (pd_device dev) (pd_func dev) PCI_OFFSET_COMMAND s;
     case cmd_res of
       Inl e \<Rightarrow> Some (Inl e, s)
     | Inr cmd \<Rightarrow> do {
         let cmd = set_flag (capabilities AND PCI_DEVICE_DRIVER_CAP_IO \<noteq> 0) PCI_REGISTER_COMMAND_IO_SPACE cmd;
         let cmd = set_flag (capabilities AND PCI_DEVICE_DRIVER_CAP_MEM \<noteq> 0) PCI_REGISTER_COMMAND_MEM_SPACE cmd;
         let cmd = set_flag (capabilities AND PCI_DEVICE_DRIVER_CAP_DMA \<noteq> 0) PCI_REGISTER_COMMAND_BUS_MASTER cmd;
         let cmd = set_flag (capabilities AND PCI_DEVICE_DRIVER_CAP_INTERRUPT = 0) PCI_REGISTER_COMMAND_INTERRUPT_DISABLE cmd;
         s \<leftarrow> pci_config_write16 io (pd_bus dev) (pd_device dev) (pd_func dev) PCI_OFFSET_COMMAND cmd s;
         Some (ok, s)
       }
   }"

text \<open>The kernel's allocator is a part of the machine that the bus code and the drivers share.\<close>

record 's pci_env = "'s port_io" +
  env_kv :: "'s \<Rightarrow> kvalloc"
  env_set_kv :: "kvalloc \<Rightarrow> 's \<Rightarrow> 's"

definition SIZEOF_PCI_DEVICE :: sz where "SIZEOF_PCI_DEVICE = 232"

text \<open>A device that is found, from its registers; \<^term>\<open>None\<close> as the device means that it is skipped.\<close>

definition pci_scan_device ::
  "('s, 'z) pci_env_scheme \<Rightarrow> u8 \<Rightarrow> u8 \<Rightarrow> arena \<Rightarrow> 's \<Rightarrow> (pci_device option res \<times> arena \<times> 's) option" where
  "pci_scan_device io bus device arn s = do {
     (exists, s) \<leftarrow> pci_device_exists io bus device 0 s;
     if \<not> exists then Some (Inr None, arn, s)
     else do {
       (header_type_res, s) \<leftarrow> pci_config_read8 io bus device 0 PCI_OFFSET_HEADER_TYPE s;
       case header_type_res of
         Inl e \<Rightarrow> Some (Inl e, arn, s)
       | Inr header_type \<Rightarrow> do {
           (res, s) \<leftarrow> pci_config_read16 io bus device 0 PCI_OFFSET_VENDOR_ID s;
           vendor_id \<leftarrow> checked res;
           (res, s) \<leftarrow> pci_config_read16 io bus device 0 PCI_OFFSET_DEVICE_ID s;
           device_id \<leftarrow> checked res;
           (res, s) \<leftarrow> pci_config_read8 io bus device 0 PCI_OFFSET_CLASS_CODE s;
           class_code \<leftarrow> checked res;
           (res, s) \<leftarrow> pci_config_read8 io bus device 0 PCI_OFFSET_SUBCLASS s;
           subclass \<leftarrow> checked res;
           (res, s) \<leftarrow> pci_config_read8 io bus device 0 PCI_OFFSET_PROG_IF s;
           prog_if \<leftarrow> checked res;
           (res, s) \<leftarrow> pci_config_read8 io bus device 0 PCI_OFFSET_REVISION_ID s;
           revision_id \<leftarrow> checked res;
           if header_type AND PCI_MASK_HEADER_TYPE \<noteq> 0 then Some (Inr None, arn, s)
           else do {
             (res, s) \<leftarrow> pci_config_read8 io bus device 0 PCI_OFFSET_HDR0_INTERRUPT_LINE s;
             interrupt_line \<leftarrow> checked res;
             (_, arn) \<leftarrow> arena_alloc_aligned arn SIZEOF_PCI_DEVICE 8;
             (res, bars, s) \<leftarrow> pci_get_resource_info io bus device 0 s;
             case res of
               Inl e \<Rightarrow> Some (Inl e, arn, s)
             | Inr _ \<Rightarrow> Some (Inr (Some
                 \<lparr>pd_vendor_id = vendor_id, pd_device_id = device_id, pd_class_code = class_code, pd_subclass = subclass,
                  pd_prog_if = prog_if, pd_revision_id = revision_id, pd_bus = bus, pd_device = device, pd_func = 0,
                  pd_interrupt_line = interrupt_line, pd_bars = bars, pd_driver = None\<rparr>), arn, s)
           }
         }
     }
   }"

fun pci_scan ::
  "('s, 'z) pci_env_scheme \<Rightarrow> (u8 \<times> u8) list \<Rightarrow> pci_device list \<Rightarrow> arena \<Rightarrow> 's \<Rightarrow> (pci_device list res \<times> 's) option" where
  "pci_scan io [] device_list arn s = Some (Inr device_list, s)"
| "pci_scan io ((bus, device) # ds) device_list arn s = do {
     (res, arn, s) \<leftarrow> pci_scan_device io bus device arn s;
     case res of
       Inl e \<Rightarrow> Some (Inl e, s)
     | Inr None \<Rightarrow> pci_scan io ds device_list arn s
     | Inr (Some dev) \<Rightarrow> pci_scan io ds (dev # device_list) arn s
   }"

fun pci_probe_devices ::
  "('s, 'z) pci_env_scheme \<Rightarrow> 's pci_device_driver list \<Rightarrow> pci_device list \<Rightarrow> 's \<Rightarrow> (unit res \<times> 's) option" where
  "pci_probe_devices io drvs [] s = Some (ok, s)"
| "pci_probe_devices io drvs (dev # devs) s = do {
     drv \<leftarrow> pci_lookup_driver (pd_vendor_id dev) (pd_device_id dev) drvs;
     case drv of
       None \<Rightarrow> pci_probe_devices io drvs devs s
     | Some i \<Rightarrow> do {
         drv \<leftarrow> peek drvs (int i);
         (res, s) \<leftarrow> pci_set_driver_capabilities io dev (drv_capabilities drv) s;
         if is_error res then Some (res, s)
         else do {
           (res, s) \<leftarrow> drv_probe drv (dev\<lparr>pd_driver := Some i\<rparr>) s;
           if is_error res then Some (res, s) else pci_probe_devices io drvs devs s
         }
       }
   }"

definition all_slots :: "(u8 \<times> u8) list" where
  "all_slots = [(of_nat bus, of_nat device). bus \<leftarrow> [0 ..< PCI_MAX_BUSSES], device \<leftarrow> [0 ..< PCI_MAX_DEVICES]]"

definition free_and_return ::
  "('s, 'z) pci_env_scheme \<Rightarrow> addr \<times> sz \<Rightarrow> errno \<Rightarrow> 's \<Rightarrow> (unit res \<times> 's) option" where
  "free_and_return io mem e s = do { kv \<leftarrow> kvalloc_free mem (env_kv io s); Some (Inl e, env_set_kv io kv s) }"

definition pci_probe :: "('s, 'z) pci_env_scheme \<Rightarrow> 's pci_device_driver list \<Rightarrow> 's \<Rightarrow> (unit res \<times> 's) option" where
  "pci_probe io drvs s = do {
     (mem_opt, kv) \<leftarrow> kvalloc_alloc (16 * SIZEOF_PCI_DEVICE) 8 (env_kv io s);
     let s = env_set_kv io kv s;
     case mem_opt of
       None \<Rightarrow> Some (Inl ENOMEM, s)
     | Some mem \<Rightarrow> do {
         (scan, s) \<leftarrow> pci_scan io all_slots [] (arena_new (fst mem) (snd mem)) s;
         case scan of
           Inl e \<Rightarrow> free_and_return io mem e s
         | Inr device_list \<Rightarrow> do {
             (res, s) \<leftarrow> pci_probe_devices io drvs device_list s;
             case res of Inl e \<Rightarrow> free_and_return io mem e s | Inr _ \<Rightarrow> Some (ok, s)
           }
       }
   }"

end
