(* ===== verification/PciProps.thy ===== *)
theory PciProps
  imports Pci
begin

text \<open>
  What the bus code reads from a device. The hardware behind the two ports is described by its configuration
  space: a function from addresses to double words, of which some bits are writable.
\<close>

section \<open>The configuration space\<close>

definition merge_bits :: "u32 \<Rightarrow> u32 \<Rightarrow> u32 \<Rightarrow> u32" where
  "merge_bits w old v = (old AND NOT w) OR (v AND w)"

text \<open>
  The access mechanism: after the address of a double word was written to the address port, reading the data
  port gives the double word, and writing changes its writable bits; a 16-bit write reaches the lower half.
\<close>

definition config_mechanism :: "('s, 'z) port_io_scheme \<Rightarrow> ('s \<Rightarrow> u32 \<Rightarrow> u32) \<Rightarrow> (u32 \<Rightarrow> u32) \<Rightarrow> bool" where
  "config_mechanism io cfg wm \<longleftrightarrow>
     (\<forall>s a v s'. inl io PCI_PORT_CONFIG_DATA (outl io PCI_PORT_CONFIG_ADDRESS a s) = (v, s') \<longrightarrow> v = cfg s a \<and> cfg s' = cfg s) \<and>
     (\<forall>s a v. cfg (outl io PCI_PORT_CONFIG_DATA v (outl io PCI_PORT_CONFIG_ADDRESS a s)) =
        (cfg s)(a := merge_bits (wm a) (cfg s a) v)) \<and>
     (\<forall>s a v. cfg (outw io PCI_PORT_CONFIG_DATA v (outl io PCI_PORT_CONFIG_ADDRESS a s)) =
        (cfg s)(a := merge_bits (wm a AND 0xffff) (cfg s a) (ucast v)))"

lemma config_read32:
  assumes "config_mechanism io cfg wm" "IS_ALIGNED (uint off) 4"
  shows "\<exists>s'. pci_config_read32 io b d f off s =
      Some (if cfg s (pci_config_address b d f off) = 0xffffffff then Inl ENODEV else Inr (cfg s (pci_config_address b d f off)), s') \<and>
    cfg s' = cfg s"
proof -
  obtain v s' where r: "inl io PCI_PORT_CONFIG_DATA (outl io PCI_PORT_CONFIG_ADDRESS (pci_config_address b d f off) s) = (v, s')"
    by fastforce
  then have "v = cfg s (pci_config_address b d f off)" "cfg s' = cfg s" using assms(1) unfolding config_mechanism_def by blast+
  then show ?thesis using r assms(2) by (simp add: pci_config_read32_def)
qed

lemma config_write32:
  assumes "config_mechanism io cfg wm" "IS_ALIGNED (uint off) 4"
  shows "\<exists>s'. pci_config_write32 io b d f off v s = Some s' \<and>
    cfg s' = (cfg s)(pci_config_address b d f off := merge_bits (wm (pci_config_address b d f off)) (cfg s (pci_config_address b d f off)) v)"
  using assms by (simp add: pci_config_write32_def config_mechanism_def)

lemma config_write16:
  assumes "config_mechanism io cfg wm" "IS_ALIGNED (uint off) 2"
  shows "\<exists>s'. pci_config_write16 io b d f off v s = Some s' \<and>
    cfg s' = (cfg s)(pci_config_address b d f off :=
      merge_bits (wm (pci_config_address b d f off) AND 0xffff) (cfg s (pci_config_address b d f off)) (ucast v))"
  using assms by (simp add: pci_config_write16_def config_mechanism_def)

lemma config_address_inj: "pci_config_address b d f x = pci_config_address b d f y \<longleftrightarrow> x = y"
proof
  assume eq: "pci_config_address b d f x = pci_config_address b d f y"
  show "x = y"
  proof (rule bit_word_eqI)
    fix n assume "n < LENGTH(8)"
    then have n: "n < 8" by simp
    have "bit (pci_config_address b d f z) n = bit z n" for z
      using n by (auto simp: pci_config_address_def bit_simps)
    then show "bit x n = bit y n" using eq by metis
  qed
qed simp

lemma merge_bits_restore [simp]: "merge_bits w (merge_bits w old v) old = old"
  by (rule bit_word_eqI) (auto simp: merge_bits_def bit_simps)

lemma merge_all: "merge_bits 0xffffffff old v = v"
proof -
  have m: "(0xffffffff :: u32) = -1" by simp
  show ?thesis unfolding m merge_bits_def by simp
qed

section \<open>Base address registers\<close>

text \<open>
  The registers of a device: not implemented, an I/O range or a 32-bit memory range of \<open>2 ^ k\<close> bytes. The bits of the
  address above the size can be written, all others are fixed.
\<close>

datatype bar_reg = No_bar | Io_bar u32 nat | Mem_bar bool u32 nat

fun reg_ok :: "bar_reg \<Rightarrow> bool" where
  "reg_ok No_bar = True"
| "reg_ok (Io_bar base k) \<longleftrightarrow> 2 \<le> k \<and> k < 32 \<and> base AND mask k = 0"
| "reg_ok (Mem_bar pf base k) \<longleftrightarrow> 4 \<le> k \<and> k < 32 \<and> base AND mask k = 0"

fun reg_value :: "bar_reg \<Rightarrow> u32" where
  "reg_value No_bar = 0"
| "reg_value (Io_bar base k) = base OR 1"
| "reg_value (Mem_bar pf base k) = base OR (if pf then 8 else 0)"

fun reg_writable :: "bar_reg \<Rightarrow> u32" where
  "reg_writable No_bar = 0"
| "reg_writable (Io_bar base k) = NOT (mask k)"
| "reg_writable (Mem_bar pf base k) = NOT (mask k)"

fun reg_size :: "bar_reg \<Rightarrow> u32" where
  "reg_size No_bar = 0"
| "reg_size (Io_bar base k) = 2 ^ k"
| "reg_size (Mem_bar pf base k) = 2 ^ k"

text \<open>What the kernel should know of a register. It takes a register that is not there for an empty range.\<close>

fun bar_of :: "bar_reg \<Rightarrow> pci_bar" where
  "bar_of No_bar = \<lparr>pb_used = True, pb_type = PCI_BAR_TYPE_MEM, pb_flags = 0, pb_base = 0, pb_len = 0\<rparr>"
| "bar_of (Io_bar base k) =
     \<lparr>pb_used = True, pb_type = PCI_BAR_TYPE_IO, pb_flags = 0, pb_base = ucast base, pb_len = 2 ^ k\<rparr>"
| "bar_of (Mem_bar pf base k) =
     \<lparr>pb_used = True, pb_type = PCI_BAR_TYPE_MEM, pb_flags = (if pf then PCI_BAR_FLAG_PREFETCHABLE else 0),
      pb_base = ucast base, pb_len = 2 ^ k\<rparr>"

fun reg_mask :: "bar_reg \<Rightarrow> u32" where
  "reg_mask (Io_bar base k) = PCI_MASK_BAR_IO_ADDR"
| "reg_mask _ = PCI_MASK_BAR_MEM_ADDR"

lemma addr_masks: "PCI_MASK_BAR_IO_ADDR = NOT (mask 2)" "PCI_MASK_BAR_MEM_ADDR = NOT (mask 4)"
  by (simp_all add: PCI_MASK_BAR_IO_ADDR_def PCI_MASK_BAR_MEM_ADDR_def mask_eq_exp_minus_1)

lemma bit_consts:
  "bit (1 :: u32) n \<longleftrightarrow> n = 0" "bit (8 :: int) n \<longleftrightarrow> n = 3"
  using bit_exp_iff [of 3 n, where ?'a = int] by (auto simp: bit_1_iff)

lemma base_bit: "base AND mask k = 0 \<Longrightarrow> n < k \<Longrightarrow> \<not> bit (base :: u32) n"
proof
  assume z: "base AND mask k = 0" and n: "n < k" and b: "bit base n"
  have "bit (base AND mask k) n"
    using n b bit_imp_le_length [OF b] by (simp only: bit_and_iff bit_mask_iff possible_bit_def) simp
  then show False using z by simp
qed

lemma size_probe:
  assumes "reg_ok r"
  shows "NOT (merge_bits (reg_writable r) (reg_value r) 0xffffffff AND reg_mask r) + 1 = reg_size r"
    and "merge_bits (reg_writable r) (reg_value r) 0xffffffff \<noteq> 0xffffffff" and "reg_value r \<noteq> 0xffffffff"
proof -
  have ones: "(0xffffffff :: u32) = -1" by simp
  have ne: "x \<noteq> 0xffffffff" if "\<not> bit x 1" for x :: u32 using that unfolding ones by auto
  show "reg_value r \<noteq> 0xffffffff"
    using assms by (intro ne; cases r) (auto simp: bit_simps bit_consts base_bit)
  show "merge_bits (reg_writable r) (reg_value r) 0xffffffff \<noteq> 0xffffffff"
    using assms by (intro ne; cases r) (auto simp: merge_bits_def bit_simps bit_consts base_bit)
  have m: "NOT (NOT (mask k)) + 1 = (2 ^ k :: u32)" for k by (simp add: mask_eq_exp_minus_1)
  show "NOT (merge_bits (reg_writable r) (reg_value r) 0xffffffff AND reg_mask r) + 1 = reg_size r"
  proof (cases r)
    case No_bar
    then show ?thesis by (simp add: merge_bits_def)
  next
    case (Io_bar base k)
    have "merge_bits (reg_writable r) (reg_value r) 0xffffffff AND reg_mask r = NOT (mask k)"
      unfolding Io_bar reg_writable.simps reg_value.simps reg_mask.simps addr_masks merge_bits_def ones
      by (rule bit_word_eqI) (use assms Io_bar base_bit [of base k] in \<open>auto simp: bit_simps bit_consts\<close>)
    then show ?thesis using m [of k] Io_bar by simp
  next
    case (Mem_bar pf base k)
    have "merge_bits (reg_writable r) (reg_value r) 0xffffffff AND reg_mask r = NOT (mask k)"
      unfolding Mem_bar reg_writable.simps reg_value.simps reg_mask.simps addr_masks merge_bits_def ones
      by (rule bit_word_eqI) (use assms Mem_bar base_bit [of base k] in \<open>auto simp: bit_simps bit_consts\<close>)
    then show ?thesis using m [of k] Mem_bar by simp
  qed
qed

lemma bar_offset_aligned: "i < 6 \<Longrightarrow> IS_ALIGNED (uint (bar_offset i)) 4"
  by (simp add: less_Suc_eq eval_nat_numeral) (auto simp: bar_offset_def PCI_OFFSET_HDR0_BAR0_def IS_ALIGNED_def ALIGN_DOWN_def)

abbreviation bar_addr :: "u8 \<Rightarrow> u8 \<Rightarrow> u8 \<Rightarrow> nat \<Rightarrow> u32" where
  "bar_addr b d f i \<equiv> pci_config_address b d f (bar_offset i)"

lemma bar_len_measured:
  assumes "config_mechanism io cfg wm" "i < 6" "reg_ok r"
    and "cfg s (bar_addr b d f i) = reg_value r" "wm (bar_addr b d f i) = reg_writable r"
  shows "\<exists>s'. pci_get_bar_len io b d f i (reg_mask r) s = Some (Inr (reg_size r), s') \<and> cfg s' = cfg s"
proof -
  let ?a = "bar_addr b d f i"
  note al = bar_offset_aligned [OF assms(2)] and p = size_probe [OF assms(3)]
  obtain s1 where s1: "pci_config_read32 io b d f (bar_offset i) s = Some (Inr (reg_value r), s1)" "cfg s1 = cfg s"
    using config_read32 [OF assms(1) al, of b d f s] p(3) assms(4) by auto
  obtain s2 where s2: "pci_config_write32 io b d f (bar_offset i) 0xffffffff s1 = Some s2"
    "cfg s2 = (cfg s)(?a := merge_bits (reg_writable r) (reg_value r) 0xffffffff)"
    using config_write32 [OF assms(1) al, of b d f "0xffffffff" s1] s1(2) assms(4,5) by auto
  obtain s3 where s3: "pci_config_read32 io b d f (bar_offset i) s2 =
      Some (Inr (merge_bits (reg_writable r) (reg_value r) 0xffffffff), s3)" "cfg s3 = cfg s2"
    using config_read32 [OF assms(1) al, of b d f s2] p(2) s2(2) by auto
  obtain s4 where s4: "pci_config_write32 io b d f (bar_offset i) (reg_value r) s3 = Some s4"
    "cfg s4 = (cfg s)(?a := reg_value r)"
    using config_write32 [OF assms(1) al, of b d f "reg_value r" s3] s3(2) s2(2) assms(5) by auto
  then have "cfg s4 = cfg s" using assms(4) by (metis fun_upd_triv)
  show ?thesis using s1(1) s2(1) s3(1) s4(1) \<open>cfg s4 = cfg s\<close> p(1) by (auto simp: pci_get_bar_len_def Let_def)
qed

section \<open>A device\<close>

lemma reg_decoded:
  assumes "reg_ok r"
  shows "(reg_value r AND PCI_MASK_BAR_TYPE = 1) = (\<exists>base k. r = Io_bar base k)"
    and "\<not> (\<exists>base k. r = Io_bar base k) \<Longrightarrow> reg_value r AND PCI_MASK_BAR_MEM_TYPE = 0"
    and "r = Io_bar base k \<Longrightarrow> reg_value r AND PCI_MASK_BAR_IO_ADDR = base"
    and "r = Mem_bar pf base k \<Longrightarrow> reg_value r AND PCI_MASK_BAR_MEM_ADDR = base"
    and "r = Mem_bar pf base k \<Longrightarrow> prefetch_flag (reg_value r) = (if pf then PCI_BAR_FLAG_PREFETCHABLE else 0)"
proof -
  have one: "x AND PCI_MASK_BAR_TYPE = 1 \<longleftrightarrow> bit x 0" for x :: u32
    unfolding PCI_MASK_BAR_TYPE_def BIT_def by (auto simp: and_one_eq bit_0 odd_iff_mod_2_eq_one)
  show "(reg_value r AND PCI_MASK_BAR_TYPE = 1) = (\<exists>base k. r = Io_bar base k)"
    unfolding one using assms base_bit [of _ _ 0] by (cases r) (auto simp: bit_or_iff bit_consts)
  show "reg_value r AND PCI_MASK_BAR_MEM_TYPE = 0" if "\<not> (\<exists>base k. r = Io_bar base k)"
    using that assms base_bit [of _ _ "Suc 0"] base_bit [of _ _ 2]
    by (cases r) (auto simp: PCI_MASK_BAR_MEM_TYPE_def bit_simps bit_consts intro!: bit_word_eqI)
  show "reg_value r AND PCI_MASK_BAR_IO_ADDR = base" if "r = Io_bar base k"
    using that assms base_bit [of base k] by (auto simp: addr_masks bit_simps bit_consts intro!: bit_word_eqI)
  show "reg_value r AND PCI_MASK_BAR_MEM_ADDR = base" if "r = Mem_bar pf base k"
    using that assms base_bit [of base k] by (auto simp: addr_masks bit_simps bit_consts intro!: bit_word_eqI)
  have three: "x AND PCI_MASK_BAR_MEM_PREFETCHABLE \<noteq> 0 \<longleftrightarrow> bit x 3" for x :: u32
    unfolding PCI_MASK_BAR_MEM_PREFETCHABLE_def BIT_def by (simp add: bit_iff_and_push_bit_not_eq_0)
  show "prefetch_flag (reg_value r) = (if pf then PCI_BAR_FLAG_PREFETCHABLE else 0)" if "r = Mem_bar pf base k"
    unfolding prefetch_flag_def three using that assms base_bit [of base k 3] by (auto simp: bit_or_iff bit_consts)
qed

definition has_bars ::
  "('s \<Rightarrow> u32 \<Rightarrow> u32) \<Rightarrow> (u32 \<Rightarrow> u32) \<Rightarrow> u8 \<Rightarrow> u8 \<Rightarrow> u8 \<Rightarrow> bar_reg list \<Rightarrow> 's \<Rightarrow> bool" where
  "has_bars cfg wm b d f regs s \<longleftrightarrow> length regs = 6 \<and>
     (\<forall>i < 6. reg_ok (regs ! i) \<and> cfg s (bar_addr b d f i) = reg_value (regs ! i) \<and>
        wm (bar_addr b d f i) = reg_writable (regs ! i))"

lemma ucast_size: "k < 32 \<Longrightarrow> (ucast (2 ^ k :: u32) :: u64) = 2 ^ k"
  by (rule bit_word_eqI) (auto simp: bit_simps)

lemma bar_filled: "(x :: pci_bar)\<lparr>pb_type := t, pb_base := b, pb_flags := f, pb_len := l, pb_used := u\<rparr> =
    \<lparr>pb_used = u, pb_type = t, pb_flags = f, pb_base = b, pb_len = l\<rparr>"
  by (cases x) simp

lemma bar_loop_reads:
  assumes "config_mechanism io cfg wm" "has_bars cfg wm b d f regs s" "i \<le> 6" "length bars = 6"
  shows "\<exists>s'. bar_loop io b d f (map reg_value regs) i bars s = Some (ok, take i bars @ map bar_of (drop i regs), s') \<and>
    cfg s' = cfg s"
  using assms(2-4)
proof (induction "6 - i" arbitrary: i bars s)
  case 0
  then show ?case by (subst bar_loop.simps) (simp add: bar_filled PCI_MAX_BARS_def has_bars_def)
next
  case (Suc n)
  then have i: "i < 6" and l: "length regs = 6" by (simp_all add: has_bars_def)
  let ?r = "regs ! i"
  have r: "reg_ok ?r" "cfg s (bar_addr b d f i) = reg_value ?r" "wm (bar_addr b d f i) = reg_writable ?r"
    using Suc.prems(1) i by (simp_all add: has_bars_def)
  obtain s1 where s1: "pci_get_bar_len io b d f i (reg_mask ?r) s = Some (Inr (reg_size ?r), s1)" "cfg s1 = cfg s"
    using bar_len_measured [OF assms(1) i r] by blast
  let ?bars = "bars[i := bar_of ?r]"
  have "has_bars cfg wm b d f regs s1" using Suc.prems(1) s1(2) by (simp add: has_bars_def)
  moreover have n: "n = 6 - Suc i" using Suc.hyps(2) by simp
  ultimately obtain s2 where s2: "bar_loop io b d f (map reg_value regs) (Suc i) ?bars s1 =
      Some (ok, take (Suc i) ?bars @ map bar_of (drop (Suc i) regs), s2)" "cfg s2 = cfg s"
    using Suc.hyps(1) [OF n, of s1 ?bars] Suc.prems(3) i s1(2) by auto
  have t: "take (Suc i) ?bars @ map bar_of (drop (Suc i) regs) = take i bars @ map bar_of (drop i regs)"
    using i l Suc.prems(3) by (simp add: take_Suc_conv_app_nth flip: Cons_nth_drop_Suc)
  have peek: "peek (map reg_value regs) (int i) = Some (reg_value ?r)" using i l by simp
  have poke: "peek bars (int i) = Some (bars ! i)" "poke bars (int i) x = Some (bars[i := x])" "poke (bars[i := y]) (int i) x = Some (bars[i := x])" for x y
    using i Suc.prems(3) by simp_all
  note d = reg_decoded [OF r(1)]
  have "bar_loop io b d f (map reg_value regs) i bars s = bar_loop io b d f (map reg_value regs) (Suc i) ?bars s1"
  proof (cases ?r)
    case No_bar
    then show ?thesis using s1(1) i peek poke d(1,2)
      by (subst bar_loop.simps) (simp add: bar_filled PCI_MAX_BARS_def prefetch_flag_def)
  next
    case (Io_bar base k)
    then show ?thesis using s1(1) i peek poke d(1) d(3) [OF Io_bar] r(1) ucast_size [of k]
      by (subst bar_loop.simps) (simp add: bar_filled PCI_MAX_BARS_def)
  next
    case (Mem_bar pf base k)
    then show ?thesis using s1(1) i peek poke d(1,2) d(4,5) [OF Mem_bar] r(1) ucast_size [of k]
      by (subst bar_loop.simps) (simp add: bar_filled PCI_MAX_BARS_def)
  qed
  then show ?case using s2 t by auto
qed

lemma read_bars_values:
  assumes "config_mechanism io cfg wm" "\<forall>i \<in> set is. i < 6 \<and> cfg s (bar_addr b d f i) \<noteq> 0xffffffff"
  shows "\<exists>s'. read_bars io b d f is s = Some (Inr (map (\<lambda>i. cfg s (bar_addr b d f i)) is), s') \<and> cfg s' = cfg s"
  using assms(2)
proof (induction "is" arbitrary: s)
  case (Cons i js)
  obtain s1 where s1: "pci_config_read32 io b d f (bar_offset i) s = Some (Inr (cfg s (bar_addr b d f i)), s1)" "cfg s1 = cfg s"
    using config_read32 [OF assms(1) bar_offset_aligned, of i b d f s] Cons.prems by auto
  obtain s2 where "read_bars io b d f js s1 = Some (Inr (map (\<lambda>i. cfg s (bar_addr b d f i)) js), s2)" "cfg s2 = cfg s"
    using Cons.IH [of s1] Cons.prems s1(2) by auto
  then show ?case using s1(1) by auto
qed simp

lemma config_read16:
  assumes "config_mechanism io cfg wm" "off AND NOT 3 = base" "IS_ALIGNED (uint off) 2" "IS_ALIGNED (uint base) 4"
    and "v = ucast (drop_bit (unat (off AND 2) * 8) (cfg s (pci_config_address b d f base)))" "v \<noteq> (0xffff :: u16)"
    and "unat (off AND 2) * 8 \<le> 16"
  shows "\<exists>s'. pci_config_read16 io b d f off s = Some (Inr v, s') \<and> cfg s' = cfg s"
proof -
  let ?x = "cfg s (pci_config_address b d f base)"
  have m: "(0xffff :: u32) = mask 16" "(0xffff :: u16) = -1" "(0xffffffff :: u32) = -1"
    by (simp_all add: mask_eq_exp_minus_1)
  have v: "(ucast (drop_bit n ?x AND 0xffff) :: u16) = ucast (drop_bit n ?x)" for n
    unfolding m by (rule bit_word_eqI) (auto simp: bit_simps)
  have "?x \<noteq> 0xffffffff" using assms(5-7) unfolding m
    by (auto intro!: bit_word_eqI simp: bit_simps)
  then obtain s1 where "pci_config_read32 io b d f base s = Some (Inr ?x, s1)" "cfg s1 = cfg s"
    using config_read32 [OF assms(1,4), of b d f s] by auto
  then show ?thesis using assms(2,3,5,6) v by (simp add: pci_config_read16_def Let_def)
qed

abbreviation header_addr :: "u8 \<Rightarrow> u8 \<Rightarrow> u8 \<Rightarrow> u32" where
  "header_addr b d f \<equiv> pci_config_address b d f 0x0c"

abbreviation command_addr :: "u8 \<Rightarrow> u8 \<Rightarrow> u8 \<Rightarrow> u32" where
  "command_addr b d f \<equiv> pci_config_address b d f PCI_OFFSET_COMMAND"

definition header_type :: "u32 \<Rightarrow> u8" where
  "header_type v = ucast (drop_bit 16 v)"

lemma read_header_type:
  assumes "config_mechanism io cfg wm" "header_type (cfg s (header_addr b d f)) AND PCI_MASK_HEADER_TYPE = 0"
  shows "\<exists>s'. pci_config_read8 io b d f PCI_OFFSET_HEADER_TYPE s = Some (Inr (header_type (cfg s (header_addr b d f))), s') \<and>
    cfg s' = cfg s"
proof -
  let ?h = "header_type (cfg s (header_addr b d f))" and ?v = "ucast (drop_bit 16 (cfg s (header_addr b d f))) :: u16"
  have z: "\<not> bit ?h 0"
  proof
    assume "bit ?h 0"
    then have "bit (?h AND PCI_MASK_HEADER_TYPE) 0" by (simp add: bit_simps PCI_MASK_HEADER_TYPE_def)
    then show False using assms(2) by simp
  qed
  have m: "(0xffff :: u16) = -1" "(0xff :: u8) = -1" "(0xff :: u16) = mask 8" by (simp_all add: mask_eq_exp_minus_1)
  have h: "(ucast (?v AND 0xff) :: u8) = ?h" unfolding m header_type_def by (rule bit_word_eqI) (auto simp: bit_simps)
  have "bit ?v 0 = bit ?h 0" by (simp add: header_type_def bit_simps)
  then have "?v \<noteq> 0xffff" "?h \<noteq> 0xff" using z unfolding m by (metis bit_minus_1_iff possible_bit_0)+
  moreover have "(PCI_OFFSET_HEADER_TYPE AND NOT 1) AND NOT 3 = 0x0c" "IS_ALIGNED (uint (PCI_OFFSET_HEADER_TYPE AND NOT 1)) 2"
    "IS_ALIGNED (uint (0x0c :: u8)) 4" "?v = ucast (drop_bit (unat ((PCI_OFFSET_HEADER_TYPE AND NOT 1) AND 2) * 8) (cfg s (header_addr b d f)))"
    "unat ((PCI_OFFSET_HEADER_TYPE AND NOT 1) AND 2) * 8 \<le> 16"
    by (simp_all add: PCI_OFFSET_HEADER_TYPE_def IS_ALIGNED_def ALIGN_DOWN_def)
  ultimately obtain s' where "pci_config_read16 io b d f (PCI_OFFSET_HEADER_TYPE AND NOT 1) s = Some (Inr ?v, s')" "cfg s' = cfg s"
    using config_read16 [OF assms(1), of "PCI_OFFSET_HEADER_TYPE AND NOT 1" "0x0c" ?v s b d f] by blast
  then show ?thesis using h \<open>?h \<noteq> 0xff\<close> by (simp add: pci_config_read8_def PCI_OFFSET_HEADER_TYPE_def Let_def)
qed

lemma read_command:
  assumes "config_mechanism io cfg wm" "ucast (cfg s (command_addr b d f)) \<noteq> (0xffff :: u16)"
  shows "\<exists>s'. pci_config_read16 io b d f PCI_OFFSET_COMMAND s = Some (Inr (ucast (cfg s (command_addr b d f))), s') \<and>
    cfg s' = cfg s"
  using assms(2) by (intro config_read16 [OF assms(1)]) (simp_all add: PCI_OFFSET_COMMAND_def IS_ALIGNED_def ALIGN_DOWN_def)

lemma command_not_bar: "i < 6 \<Longrightarrow> bar_addr b d f i \<noteq> command_addr b d f"
  unfolding config_address_inj by (simp add: less_Suc_eq eval_nat_numeral)
    (auto simp: bar_offset_def PCI_OFFSET_HDR0_BAR0_def PCI_OFFSET_COMMAND_def)

text \<open>Decoding switched off in the command register, and the way to the loop over the registers.\<close>

definition decode_off :: "u32 \<Rightarrow> u32 \<Rightarrow> u32" where
  "decode_off w old = merge_bits (w AND 0xffff) old
     (ucast (ucast old AND NOT (PCI_REGISTER_COMMAND_IO_SPACE OR PCI_REGISTER_COMMAND_MEM_SPACE)))"

lemma decode_restored: "merge_bits (w AND 0xffff) (decode_off w old) (ucast (ucast old :: u16)) = old"
proof -
  have m: "(0xffff :: u32) = mask 16" by (simp add: mask_eq_exp_minus_1)
  show ?thesis unfolding m decode_off_def merge_bits_def by (rule bit_word_eqI) (auto simp: bit_simps)
qed

lemma resource_info_loop:
  assumes "config_mechanism io cfg wm"
    and "header_type (cfg s (header_addr b d f)) AND PCI_MASK_HEADER_TYPE = 0"
    and "ucast (cfg s (command_addr b d f)) \<noteq> (0xffff :: u16)"
    and "\<forall>i < 6. cfg s (bar_addr b d f i) \<noteq> 0xffffffff"
  shows "\<exists>s'. cfg s' = (cfg s)(command_addr b d f := decode_off (wm (command_addr b d f)) (cfg s (command_addr b d f))) \<and>
    pci_get_resource_info io b d f s = do {
      (res, bars, s1) \<leftarrow> bar_loop io b d f (map (\<lambda>i. cfg s (bar_addr b d f i)) [0 ..< 6]) 0 (replicate 6 zero_bar) s';
      if is_error res then Some (res, bars, s1)
      else do {
        s2 \<leftarrow> pci_config_write16 io b d f PCI_OFFSET_COMMAND (ucast (cfg s (command_addr b d f))) s1;
        Some (ok, bars, s2)
      }
    }"
proof -
  let ?c = "command_addr b d f" and ?h = "header_type (cfg s (header_addr b d f))"
  let ?cmd = "ucast (cfg s ?c) :: u16"
  let ?tmp = "?cmd AND NOT (PCI_REGISTER_COMMAND_IO_SPACE OR PCI_REGISTER_COMMAND_MEM_SPACE)"
  obtain s1 where s1: "pci_config_read8 io b d f PCI_OFFSET_HEADER_TYPE s = Some (Inr ?h, s1)" "cfg s1 = cfg s"
    using read_header_type [OF assms(1,2)] by blast
  obtain s2 where s2: "pci_config_read16 io b d f PCI_OFFSET_COMMAND s1 = Some (Inr ?cmd, s2)" "cfg s2 = cfg s"
    using read_command [OF assms(1), of s1 b d f] assms(3) s1(2) by auto
  have "IS_ALIGNED (uint PCI_OFFSET_COMMAND) 2" by (simp add: PCI_OFFSET_COMMAND_def IS_ALIGNED_def ALIGN_DOWN_def)
  from config_write16 [OF assms(1) this, of b d f ?tmp s2] s2(2) obtain s3 where
    s3: "pci_config_write16 io b d f PCI_OFFSET_COMMAND ?tmp s2 = Some s3" "cfg s3 = (cfg s)(?c := decode_off (wm ?c) (cfg s ?c))"
    by (auto simp: decode_off_def)
  have bars: "cfg s3 (bar_addr b d f i) = cfg s (bar_addr b d f i)" if "i < 6" for i
    using command_not_bar [OF that] s3(2) by simp
  have "map (\<lambda>i. cfg s3 (bar_addr b d f i)) [0 ..< 6] = map (\<lambda>i. cfg s (bar_addr b d f i)) [0 ..< 6]"
    using bars by (intro map_cong) simp_all
  then obtain s4 where s4: "read_bars io b d f [0 ..< 6] s3 = Some (Inr (map (\<lambda>i. cfg s (bar_addr b d f i)) [0 ..< 6]), s4)"
    "cfg s4 = cfg s3"
    using read_bars_values [OF assms(1), of "[0 ..< 6]" s3 b d f] bars assms(4) by auto
  show ?thesis
    using s1(1) s2(1) s3 s4 assms(2)
    by (intro exI [of _ s4]) (simp add: pci_get_resource_info_def Let_def PCI_MAX_BARS_def del: upt_rec_numeral)
qed

text \<open>
  C31: For a device with a type 0 header whose six registers are unused, I/O ranges or 32-bit memory ranges of a
  power of two, reading its resources gives exactly the type, base, size and flags of every register, and when it
  is done every register of the configuration space has its old value again. Devices with 64-bit memory ranges are not covered: their
  registers are taken apart, which can fail (\<open>pci_64_bit_bar_fails\<close> below).
\<close>

theorem pci_resources_are_read:
  assumes "config_mechanism io cfg wm" "has_bars cfg wm b d f regs s"
    and "header_type (cfg s (header_addr b d f)) AND PCI_MASK_HEADER_TYPE = 0"
    and "ucast (cfg s (command_addr b d f)) \<noteq> (0xffff :: u16)"
  shows "\<exists>s'. pci_get_resource_info io b d f s = Some (ok, map bar_of regs, s') \<and> cfg s' = cfg s"
proof -
  let ?c = "command_addr b d f"
  have l: "length regs = 6" using assms(2) by (simp add: has_bars_def)
  have v: "\<forall>i < 6. cfg s (bar_addr b d f i) \<noteq> 0xffffffff" using assms(2) size_probe(3) by (simp add: has_bars_def)
  have raw: "map (\<lambda>i. cfg s (bar_addr b d f i)) [0 ..< 6] = map reg_value regs"
    using assms(2) l by (intro nth_equalityI) (simp_all add: has_bars_def del: upt_rec_numeral)
  obtain s1 where s1: "cfg s1 = (cfg s)(?c := decode_off (wm ?c) (cfg s ?c))"
    "pci_get_resource_info io b d f s = do {
      (res, bars, s1) \<leftarrow> bar_loop io b d f (map reg_value regs) 0 (replicate 6 zero_bar) s1;
      if is_error res then Some (res, bars, s1)
      else do {
        s2 \<leftarrow> pci_config_write16 io b d f PCI_OFFSET_COMMAND (ucast (cfg s ?c)) s1;
        Some (ok, bars, s2)
      }
    }" using resource_info_loop [OF assms(1,3,4) v] unfolding raw by blast
  have "has_bars cfg wm b d f regs s1" using assms(2) command_not_bar s1(1) by (simp add: has_bars_def)
  then obtain s2 where s2: "bar_loop io b d f (map reg_value regs) 0 (replicate 6 zero_bar) s1 = Some (ok, map bar_of regs, s2)"
    "cfg s2 = cfg s1" using bar_loop_reads [OF assms(1), of b d f regs s1 0 "replicate 6 zero_bar"] by auto
  have al: "IS_ALIGNED (uint PCI_OFFSET_COMMAND) 2" by (simp add: PCI_OFFSET_COMMAND_def IS_ALIGNED_def ALIGN_DOWN_def)
  obtain s3 where s3: "pci_config_write16 io b d f PCI_OFFSET_COMMAND (ucast (cfg s ?c)) s2 = Some s3"
    "cfg s3 = (cfg s)(?c := merge_bits (wm ?c AND 0xffff) (decode_off (wm ?c) (cfg s ?c)) (ucast (ucast (cfg s ?c) :: u16)))"
    using config_write16 [OF assms(1) al, of b d f "ucast (cfg s ?c)" s2] s1(1) s2(2) by auto
  have "cfg s3 = cfg s" unfolding s3(2) decode_restored by simp
  then show ?thesis using s1(2) s2(1) s3(1) by simp
qed

section \<open>64-bit registers\<close>

lemma bar_len_all_ones:
  assumes "config_mechanism io cfg wm" "i < 6" "cfg s (bar_addr b d f i) \<noteq> 0xffffffff" "wm (bar_addr b d f i) = 0xffffffff"
  shows "\<exists>s'. pci_get_bar_len io b d f i m s = Some (Inl ENODEV, s') \<and> cfg s' = (cfg s)(bar_addr b d f i := 0xffffffff)"
proof -
  let ?a = "bar_addr b d f i"
  note al = bar_offset_aligned [OF assms(2)]
  obtain s1 where s1: "pci_config_read32 io b d f (bar_offset i) s = Some (Inr (cfg s ?a), s1)" "cfg s1 = cfg s"
    using config_read32 [OF assms(1) al, of b d f s] assms(3) by auto
  obtain s2 where s2: "pci_config_write32 io b d f (bar_offset i) 0xffffffff s1 = Some s2" "cfg s2 = (cfg s)(?a := 0xffffffff)"
    using config_write32 [OF assms(1) al, of b d f "0xffffffff" s1] s1(2) unfolding assms(4) merge_all by auto
  obtain s3 where s3: "pci_config_read32 io b d f (bar_offset i) s2 = Some (Inl ENODEV, s3)" "cfg s3 = cfg s2"
    using config_read32 [OF assms(1) al, of b d f s2] s2(2) by auto
  show ?thesis using s1(1) s2 s3 by (auto simp: pci_get_bar_len_def)
qed

definition half_bar :: "u32 \<Rightarrow> pci_bar" where
  "half_bar raw = zero_bar\<lparr>pb_type := PCI_BAR_TYPE_MEM, pb_base := ucast (raw AND PCI_MASK_BAR_MEM_ADDR), pb_flags := prefetch_flag raw\<rparr>"

text \<open>
  The test for 64-bit memory compares the type bits with 2 instead of 4. A device whose first register is a 64-bit
  memory range is therefore taken apart: the range is ignored, its upper half is measured as a register of its
  own, reads as all ones, and that is an error; the type, base and flags of this register are already stored. The device stays with all ones in this register and with decoding of
  I/O and memory switched off.
\<close>

theorem pci_64_bit_bar_fails:
  assumes "config_mechanism io cfg wm"
    and "header_type (cfg s (header_addr b d f)) AND PCI_MASK_HEADER_TYPE = 0"
    and "ucast (cfg s (command_addr b d f)) \<noteq> (0xffff :: u16)"
    and "\<forall>i < 6. cfg s (bar_addr b d f i) \<noteq> 0xffffffff"
    and "cfg s (bar_addr b d f 0) AND 7 = 4" "cfg s (bar_addr b d f 1) AND 7 = 0" "wm (bar_addr b d f 1) = 0xffffffff"
  shows "\<exists>s'. pci_get_resource_info io b d f s = Some (Inl ENODEV, (replicate 6 zero_bar)[1 := half_bar (cfg s (bar_addr b d f 1))], s') \<and>
    cfg s' = (cfg s)(bar_addr b d f 1 := 0xffffffff,
      command_addr b d f := decode_off (wm (command_addr b d f)) (cfg s (command_addr b d f)))"
proof -
  let ?c = "command_addr b d f" and ?r = "\<lambda>i. cfg s (bar_addr b d f i)"
  obtain s1 where s1: "cfg s1 = (cfg s)(?c := decode_off (wm ?c) (cfg s ?c))"
    "pci_get_resource_info io b d f s = do {
      (res, bars, s1) \<leftarrow> bar_loop io b d f (map ?r [0 ..< 6]) 0 (replicate 6 zero_bar) s1;
      if is_error res then Some (res, bars, s1)
      else do {
        s2 \<leftarrow> pci_config_write16 io b d f PCI_OFFSET_COMMAND (ucast (cfg s ?c)) s1;
        Some (ok, bars, s2)
      }
    }" using resource_info_loop [OF assms(1-4)] by blast
  have "(7 :: u32) = mask 3" by (simp add: mask_eq_exp_minus_1)
  then have b: "x AND 7 = y \<longleftrightarrow> take_bit 3 x = y" for x y :: u32 by (simp add: take_bit_eq_mask)
  have m: "x AND PCI_MASK_BAR_TYPE = take_bit 3 x AND 1" "x AND PCI_MASK_BAR_MEM_TYPE = take_bit 3 x AND 6" for x
    by (simp_all add: PCI_MASK_BAR_TYPE_def PCI_MASK_BAR_MEM_TYPE_def BIT_def take_bit_eq_mask mask_eq_exp_minus_1 and.assoc)
  have t: "take_bit 3 (?r 0) = 4" "take_bit 3 (?r 1) = 0" using assms(5,6) b by blast+
  have ne: "cfg s1 (bar_addr b d f 1) \<noteq> 0xffffffff" using assms(4) s1(1) command_not_bar [of 1] by simp
  obtain s2 where s2: "pci_get_bar_len io b d f 1 PCI_MASK_BAR_MEM_ADDR s1 = Some (Inl ENODEV, s2)"
    "cfg s2 = (cfg s1)(bar_addr b d f 1 := 0xffffffff)"
    using bar_len_all_ones [OF assms(1) _ ne assms(7), of PCI_MASK_BAR_MEM_ADDR] by auto
  have peek: "peek (map ?r [0 ..< 6]) (int i) = Some (?r i)" if "i < 6" for i
    using that by (simp del: upt_rec_numeral)
  let ?bars = "(replicate 6 zero_bar)[1 := half_bar (?r 1)]"
  have z: "peek (replicate 6 zero_bar) (int i) = Some zero_bar" if "i < 6" for i using that by simp
  have p: "poke (replicate 6 zero_bar) 1 x = Some ((replicate 6 zero_bar)[1 := x])" for x by (simp add: poke_def)
  have "bar_loop io b d f (map ?r [0 ..< 6]) 1 (replicate 6 zero_bar) s1 = Some (Inl ENODEV, ?bars, s2)"
    using t(2) s2(1) peek [of 1] z [of 1] p
    by (subst bar_loop.simps) (simp add: m PCI_MAX_BARS_def half_bar_def del: upt_rec_numeral)
  then have "bar_loop io b d f (map ?r [0 ..< 6]) 0 (replicate 6 zero_bar) s1 = Some (Inl ENODEV, ?bars, s2)"
    using t(1) peek [of 0] z [of 0]
    by (subst bar_loop.simps) (simp add: m PCI_MAX_BARS_def del: upt_rec_numeral)
  then have "pci_get_resource_info io b d f s = Some (Inl ENODEV, ?bars, s2)"
    unfolding s1(2) by (simp del: upt_rec_numeral)
  moreover have "cfg s2 = (cfg s)(bar_addr b d f 1 := 0xffffffff, ?c := decode_off (wm ?c) (cfg s ?c))"
    unfolding s2(2) s1(1) using command_not_bar [of 1 b d f] by (simp add: fun_upd_twist)
  ultimately show ?thesis by blast
qed

section \<open>Sample devices\<close>

text \<open>A bus as its configuration space, with the address that was written last.\<close>

definition sample_bus :: "(u32 \<Rightarrow> u32) \<Rightarrow> (u32 \<times> (u32 \<Rightarrow> u32)) port_io" where
  "sample_bus wm = \<lparr>inb = \<lambda>_ s. (0, s), inl = \<lambda>_ (a, c). (c a, a, c), outb = \<lambda>_ _ s. s,
     outw = \<lambda>_ v (a, c). (a, c(a := merge_bits (wm a AND 0xffff) (c a) (ucast v))),
     outl = \<lambda>port v (a, c). if port = PCI_PORT_CONFIG_ADDRESS then (v, c) else (a, c(a := merge_bits (wm a) (c a) v))\<rparr>"

lemma sample_bus_ok: "config_mechanism (sample_bus wm) snd wm"
  by (auto simp: config_mechanism_def sample_bus_def PCI_PORT_CONFIG_ADDRESS_def PCI_PORT_CONFIG_DATA_def)

text \<open>The network card of the target machine, and a device with a 64-bit range.\<close>

definition nic_regs :: "bar_reg list" where
  "nic_regs = [Mem_bar False 0xfebc0000 17, Io_bar 0xc000 6, No_bar, No_bar, No_bar, No_bar]"

definition nic_config :: "u32 \<Rightarrow> u32" where
  "nic_config = (\<lambda>_. 0)(command_addr 0 3 0 := 0x02300107, bar_addr 0 3 0 0 := 0xfebc0000, bar_addr 0 3 0 1 := 0xc001)"

definition nic_writable :: "u32 \<Rightarrow> u32" where
  "nic_writable = (\<lambda>_. 0)(command_addr 0 3 0 := 0x407, bar_addr 0 3 0 0 := 0xfffe0000, bar_addr 0 3 0 1 := 0xffffffc0)"

definition wide_config :: "u32 \<Rightarrow> u32" where
  "wide_config = (\<lambda>_. 0)(command_addr 0 3 0 := 0x107, bar_addr 0 3 0 0 := 0xfebc0004)"

definition wide_writable :: "u32 \<Rightarrow> u32" where
  "wide_writable = (\<lambda>_. 0)(command_addr 0 3 0 := 0x407, bar_addr 0 3 0 0 := 0xfffe0000, bar_addr 0 3 0 1 := 0xffffffff)"

lemmas sample_addrs = config_address_inj bar_offset_def PCI_OFFSET_HDR0_BAR0_def PCI_OFFSET_COMMAND_def

lemma nic_has_bars: "has_bars snd nic_writable 0 3 0 nic_regs (0, nic_config)"
proof -
  have "reg_ok (nic_regs ! i) \<and> nic_config (bar_addr 0 3 0 i) = reg_value (nic_regs ! i) \<and>
      nic_writable (bar_addr 0 3 0 i) = reg_writable (nic_regs ! i)" if "i < 6" for i
  proof -
    have "i = 0 \<or> i = 1 \<or> i = 2 \<or> i = 3 \<or> i = 4 \<or> i = 5" using that by auto
    then show ?thesis
      by (elim disjE) (simp_all add: nic_regs_def nic_config_def nic_writable_def sample_addrs mask_eq_exp_minus_1)
  qed
  then show ?thesis by (simp add: has_bars_def nic_regs_def)
qed

theorem pci_resources_are_read_witness:
  "\<exists>s'. pci_get_resource_info (sample_bus nic_writable) 0 3 0 (0, nic_config) = Some (ok, map bar_of nic_regs, s') \<and>
     snd s' = snd (0 :: u32, nic_config)"
  by (rule pci_resources_are_read [OF sample_bus_ok nic_has_bars])
    (simp_all add: nic_config_def sample_addrs header_type_def)

theorem pci_64_bit_bar_fails_witness:
  "\<exists>s'. pci_get_resource_info (sample_bus wide_writable) 0 3 0 (0, wide_config) =
      Some (Inl ENODEV, (replicate 6 zero_bar)[1 := half_bar (snd (0 :: u32, wide_config) (bar_addr 0 3 0 1))], s') \<and>
     snd s' = (snd (0 :: u32, wide_config))(bar_addr 0 3 0 1 := 0xffffffff,
       command_addr 0 3 0 := decode_off (wide_writable (command_addr 0 3 0)) (snd (0 :: u32, wide_config) (command_addr 0 3 0)))"
proof (rule pci_64_bit_bar_fails [OF sample_bus_ok])
  have "wide_config (bar_addr 0 3 0 i) \<noteq> 0xffffffff" for i
    by (simp add: wide_config_def config_address_inj)
  then show "\<forall>i < 6. snd (0, wide_config) (bar_addr 0 3 0 i) \<noteq> 0xffffffff" by simp
qed (simp_all add: wide_config_def wide_writable_def sample_addrs header_type_def)

end
