(* ===== verification/E1000.thy ===== *)
theory E1000
  imports Isr Pci NetInput
begin

text \<open>
  The driver of the Intel 82540EM network controller (src/net/e1000.c). The registers of the device are behind
  \<open>mmio_read32\<close> and \<open>mmio_write32\<close>, parameters whose state \<open>'h\<close> is the hardware. The rings of descriptors and the
  buffers, which the device reads and writes too, are lists in the record of the device.
\<close>

section \<open>Constants and state\<close>

definition E1000_OFFSET_CTRL :: u64 where "E1000_OFFSET_CTRL = 0x0"
definition E1000_OFFSET_EECD :: u64 where "E1000_OFFSET_EECD = 0x10"
definition E1000_OFFSET_EERD :: u64 where "E1000_OFFSET_EERD = 0x14"
definition E1000_OFFSET_ICR :: u64 where "E1000_OFFSET_ICR = 0xc0"
definition E1000_OFFSET_ITR :: u64 where "E1000_OFFSET_ITR = 0xc4"
definition E1000_OFFSET_IMS :: u64 where "E1000_OFFSET_IMS = 0xd0"
definition E1000_OFFSET_RCTL :: u64 where "E1000_OFFSET_RCTL = 0x100"
definition E1000_OFFSET_RDBAL :: u64 where "E1000_OFFSET_RDBAL = 0x2800"
definition E1000_OFFSET_RDBAH :: u64 where "E1000_OFFSET_RDBAH = 0x2804"
definition E1000_OFFSET_RDLEN :: u64 where "E1000_OFFSET_RDLEN = 0x2808"
definition E1000_OFFSET_RDH :: u64 where "E1000_OFFSET_RDH = 0x2810"
definition E1000_OFFSET_RDT :: u64 where "E1000_OFFSET_RDT = 0x2818"
definition E1000_OFFSET_TCTL :: u64 where "E1000_OFFSET_TCTL = 0x400"
definition E1000_OFFSET_TIPG :: u64 where "E1000_OFFSET_TIPG = 0x410"
definition E1000_OFFSET_TDBAL :: u64 where "E1000_OFFSET_TDBAL = 0x3800"
definition E1000_OFFSET_TDBAH :: u64 where "E1000_OFFSET_TDBAH = 0x3804"
definition E1000_OFFSET_TDLEN :: u64 where "E1000_OFFSET_TDLEN = 0x3808"
definition E1000_OFFSET_TDH :: u64 where "E1000_OFFSET_TDH = 0x3810"
definition E1000_OFFSET_TDT :: u64 where "E1000_OFFSET_TDT = 0x3818"
definition E1000_OFFSET_RAL0 :: u64 where "E1000_OFFSET_RAL0 = 0x5400"
definition E1000_OFFSET_RAH0 :: u64 where "E1000_OFFSET_RAH0 = 0x5404"
definition E1000_INTERRUPT_RXDMT0 :: u32 where "E1000_INTERRUPT_RXDMT0 = BIT 4"
definition E1000_INTERRUPT_RXO :: u32 where "E1000_INTERRUPT_RXO = BIT 6"
definition E1000_INTERRUPT_RXT0 :: u32 where "E1000_INTERRUPT_RXT0 = BIT 7"
definition E1000_TX_DESC_SIZE :: sz where "E1000_TX_DESC_SIZE = 16"
definition E1000_TX_DESC_STATUS_DD :: u8 where "E1000_TX_DESC_STATUS_DD = BIT 0"
definition E1000_TX_DESC_CMD_EOP :: u8 where "E1000_TX_DESC_CMD_EOP = BIT 0"
definition E1000_TX_DESC_CMD_RS :: u8 where "E1000_TX_DESC_CMD_RS = BIT 3"
definition E1000_RX_DESC_SIZE :: sz where "E1000_RX_DESC_SIZE = 16"
definition E1000_RX_DESC_STATUS_DD :: u8 where "E1000_RX_DESC_STATUS_DD = BIT 0"
definition E1000_RX_DESC_STATUS_EOP :: u8 where "E1000_RX_DESC_STATUS_EOP = BIT 1"
definition E1000_RCTL_EN :: u32 where "E1000_RCTL_EN = BIT 1"
definition E1000_RCTL_UPE :: u32 where "E1000_RCTL_UPE = BIT 3"
definition E1000_RCTL_MPE :: u32 where "E1000_RCTL_MPE = BIT 4"
definition E1000_RCTL_BAM :: u32 where "E1000_RCTL_BAM = BIT 15"
definition E1000_RX_BUF_SIZE :: sz where "E1000_RX_BUF_SIZE = 2048"
definition E1000_TX_BUF_SIZE :: sz where "E1000_TX_BUF_SIZE = 16288"
definition E1000_VENDOR_ID :: u16 where "E1000_VENDOR_ID = 0x8086"
definition E1000_DEVICE_ID :: u16 where "E1000_DEVICE_ID = 0x100E"

record e1000_legacy_tx_desc =
  tx_base_addr :: u64
  tx_length :: u16
  tx_cso :: u8
  tx_cmd :: u8
  tx_status :: u8
  tx_css :: u8
  tx_special :: u16

record e1000_rx_desc =
  rx_base_addr :: u64
  rx_length :: u16
  rx_checksum :: u16
  rx_status :: u8
  rx_error :: u8
  rx_special :: u16

definition zero_tx_desc :: e1000_legacy_tx_desc where
  "zero_tx_desc = \<lparr>tx_base_addr = 0, tx_length = 0, tx_cso = 0, tx_cmd = 0, tx_status = 0, tx_css = 0, tx_special = 0\<rparr>"

definition zero_rx_desc :: e1000_rx_desc where
  "zero_rx_desc = \<lparr>rx_base_addr = 0, rx_length = 0, rx_checksum = 0, rx_status = 0, rx_error = 0, rx_special = 0\<rparr>"

record e1000_stats =
  n_packets_rx :: sz
  n_packets_tx :: sz
  n_rxo_interrupts :: sz
  n_rxdmt0_interrupts :: sz
  n_rxt0_interrupts :: sz
  n_interrupts :: sz

definition zero_stats :: e1000_stats where
  "zero_stats = \<lparr>n_packets_rx = 0, n_packets_tx = 0, n_rxo_interrupts = 0, n_rxdmt0_interrupts = 0,
     n_rxt0_interrupts = 0, n_interrupts = 0\<rparr>"

text \<open>
  The queues are the whole memory that was allocated for the descriptors; the fields \<open>n_desc\<close> say how many of them
  the driver uses.
\<close>

record e1000_device =
  ed_tmp_recv_buf :: "byte list"
  ed_mmio_base :: u64
  ed_mmio_len :: u64
  ed_eeprom_normal_access :: bool
  ed_mac_addr :: mac_addr
  ed_stats :: e1000_stats
  ed_tx_queue :: "e1000_legacy_tx_desc list"
  ed_tx_queue_n_desc :: sz
  ed_tx_tail :: sz
  ed_tx_buffers :: "byte list list"
  ed_rx_queue :: "e1000_rx_desc list"
  ed_rx_queue_n_desc :: sz
  ed_rx_tail :: sz
  ed_rx_buffers :: "byte list list"

section \<open>EEPROM\<close>

fun eeprom_check_loop :: "'h mmio \<Rightarrow> u64 \<Rightarrow> nat \<Rightarrow> 'h \<Rightarrow> bool \<times> 'h" where
  "eeprom_check_loop io base 0 h = (False, h)"
| "eeprom_check_loop io base (Suc n) h =
     (let (dat, h) = mmio_read32 io (base + E1000_OFFSET_EERD) h in
      if dat AND BIT 4 \<noteq> 0 then (True, h) else eeprom_check_loop io base n h)"

definition e1000_eeprom_check :: "'h mmio \<Rightarrow> e1000_device \<Rightarrow> 'h \<Rightarrow> e1000_device \<times> 'h" where
  "e1000_eeprom_check io dev h =
     (let h = mmio_write32 io (ed_mmio_base dev + E1000_OFFSET_EERD) (BIT 0) h;
          (b, h) = eeprom_check_loop io (ed_mmio_base dev) 999 h in
      (dev\<lparr>ed_eeprom_normal_access := b\<rparr>, h))"

partial_function (option) eeprom_wait :: "'h mmio \<Rightarrow> u64 \<Rightarrow> u32 \<Rightarrow> 'h \<Rightarrow> (u32 \<times> 'h) option" where
  "eeprom_wait io base flag h =
     (let (dat, h) = mmio_read32 io (base + E1000_OFFSET_EERD) h in
      if dat AND flag = 0 then eeprom_wait io base flag h else Some (dat, h))"

declare eeprom_wait.simps [code]

definition e1000_eeprom_read16 :: "'h mmio \<Rightarrow> e1000_device \<Rightarrow> u8 \<Rightarrow> 'h \<Rightarrow> (u16 \<times> 'h) option" where
  "e1000_eeprom_read16 io dev eeprom_addr h = do {
     let base = ed_mmio_base dev;
     let (eecd, h) = mmio_read32 io (base + E1000_OFFSET_EECD) h;
     if eecd AND BIT 8 = 0 then crash
     else do {
       (dat, h) \<leftarrow>
         (if ed_eeprom_normal_access dev then
            eeprom_wait io base (BIT 4)
              (mmio_write32 io (base + E1000_OFFSET_EERD) (push_bit 8 (ucast eeprom_addr) OR BIT 0) h)
          else
            eeprom_wait io base (BIT 1)
              (mmio_write32 io (base + E1000_OFFSET_EERD) (push_bit 2 (ucast eeprom_addr) OR BIT 0) h));
       let (tmp, h) = mmio_read32 io (base + E1000_OFFSET_EERD) h;
       let h = mmio_write32 io (base + E1000_OFFSET_EERD) (tmp AND NOT (BIT 0)) h;
       Some (ucast (drop_bit 16 dat AND 0xffff), h)
     }
   }"

definition low8 :: "u16 \<Rightarrow> u8" where "low8 w = ucast (w AND 0xff)"
definition high8 :: "u16 \<Rightarrow> u8" where "high8 w = ucast (drop_bit 8 w)"

definition e1000_read_mac_addr :: "'h mmio \<Rightarrow> e1000_device \<Rightarrow> 'h \<Rightarrow> (e1000_device \<times> 'h) option" where
  "e1000_read_mac_addr io dev h = do {
     (tmp0, h) \<leftarrow> e1000_eeprom_read16 io dev 0 h;
     (tmp1, h) \<leftarrow> e1000_eeprom_read16 io dev 1 h;
     (tmp2, h) \<leftarrow> e1000_eeprom_read16 io dev 2 h;
     Some (dev\<lparr>ed_mac_addr := mac_addr_new (low8 tmp0) (high8 tmp0) (low8 tmp1) (high8 tmp1) (low8 tmp2) (high8 tmp2)\<rparr>, h)
   }"

section \<open>Initialisation\<close>

definition e1000_init_mmio :: "e1000_device \<Rightarrow> addr_mapping_memory_type \<Rightarrow> paging \<Rightarrow> (unit res \<times> paging) option" where
  "e1000_init_mmio dev mem_type pg =
     paging_map_region \<lparr>am_type = ADDR_MAPPING_TYPE_CANONICAL, am_mem_type = mem_type, am_perms = ucast PT_FLAG_RW,
       am_vbase = uint (ed_mmio_base dev), am_pbase = uint (ed_mmio_base dev), am_len = uint (ed_mmio_len dev)\<rparr> pg"

definition e1000_init_device :: "'h mmio \<Rightarrow> e1000_device \<Rightarrow> 'h \<Rightarrow> 'h" where
  "e1000_init_device io dev h =
     (let (ctrl, h) = mmio_read32 io (ed_mmio_base dev + E1000_OFFSET_CTRL) h;
          ctrl = ctrl AND NOT (BIT 3);
          ctrl = ctrl AND NOT (BIT 7);
          ctrl = ctrl AND NOT (BIT 31) in
      mmio_write32 io (ed_mmio_base dev + E1000_OFFSET_CTRL) ctrl h)"

fun init_tx_descs :: "addr \<Rightarrow> nat list \<Rightarrow> e1000_legacy_tx_desc list \<Rightarrow> e1000_legacy_tx_desc list option" where
  "init_tx_descs paddr_tx_buffers [] q = Some q"
| "init_tx_descs paddr_tx_buffers (i # is) q = do {
     d \<leftarrow> peek q (int i);
     q \<leftarrow> poke q (int i) (d\<lparr>tx_status := tx_status d OR E1000_TX_DESC_STATUS_DD,
       tx_base_addr := word_of_int (paddr_tx_buffers + int i * E1000_TX_BUF_SIZE)\<rparr>);
     init_tx_descs paddr_tx_buffers is q
   }"

text \<open>
  The allocator gives whole pages, so the memory of the queue has more descriptors than the driver uses, and its
  length is what the length register gets.
\<close>

definition e1000_init_tx ::
  "'h mmio \<Rightarrow> mappings \<Rightarrow> e1000_device \<Rightarrow> kvalloc \<Rightarrow> 'h \<Rightarrow> (unit res \<times> e1000_device \<times> kvalloc \<times> 'h) option" where
  "e1000_init_tx io ms dev kv h = do {
     let tx_queue_n_desc = 32;
     (tx_mem_opt, kv) \<leftarrow> kvalloc_alloc (tx_queue_n_desc * E1000_TX_DESC_SIZE) E1000_TX_DESC_SIZE kv;
     case tx_mem_opt of
       None \<Rightarrow> Some (Inl ENOMEM, dev, kv, h)
     | Some tx_mem \<Rightarrow> do {
         (tx_buffers_mem_opt, kv) \<leftarrow> kvalloc_alloc (tx_queue_n_desc * E1000_TX_BUF_SIZE) 64 kv;
         case tx_buffers_mem_opt of
           None \<Rightarrow> do { kv \<leftarrow> kvalloc_free tx_mem kv; Some (Inl ENOMEM, dev, kv, h) }
         | Some tx_buffers_mem \<Rightarrow> do {
             let tx_queue = replicate (nat (snd tx_mem div E1000_TX_DESC_SIZE)) zero_tx_desc;
             let tx_buffers = replicate (nat tx_queue_n_desc) (replicate (nat E1000_TX_BUF_SIZE) 0);
             paddr_tx_queue_res \<leftarrow> virt_to_phys (fst tx_mem) ms;
             paddr_tx_buffers_res \<leftarrow> virt_to_phys (fst tx_buffers_mem) ms;
             case (paddr_tx_queue_res, paddr_tx_buffers_res) of
               (Inl e, _) \<Rightarrow> do {
                 kv \<leftarrow> kvalloc_free tx_mem kv; kv \<leftarrow> kvalloc_free tx_buffers_mem kv; Some (Inl e, dev, kv, h) }
             | (_, Inl e) \<Rightarrow> do {
                 kv \<leftarrow> kvalloc_free tx_mem kv; kv \<leftarrow> kvalloc_free tx_buffers_mem kv; Some (Inl e, dev, kv, h) }
             | (Inr paddr_tx_queue, Inr paddr_tx_buffers) \<Rightarrow> do {
                 tx_queue \<leftarrow> init_tx_descs paddr_tx_buffers [0 ..< nat tx_queue_n_desc] tx_queue;
                 let base = ed_mmio_base dev;
                 kassert (IS_ALIGNED paddr_tx_queue 16);
                 let h = mmio_write32 io (base + E1000_OFFSET_TDBAL) (word_of_int paddr_tx_queue) h;
                 let h = mmio_write32 io (base + E1000_OFFSET_TDBAH) (word_of_int (drop_bit 32 paddr_tx_queue)) h;
                 kassert (IS_ALIGNED (snd tx_mem) 128);
                 kassert (snd tx_mem \<le> 4294967295);
                 let h = mmio_write32 io (base + E1000_OFFSET_TDLEN) (word_of_int (snd tx_mem)) h;
                 let h = mmio_write64 io (base + E1000_OFFSET_TDH) 0 h;
                 let h = mmio_write64 io (base + E1000_OFFSET_TDT) 0 h;
                 let (tctl, h) = mmio_read32 io (base + E1000_OFFSET_TCTL) h;
                 let h = mmio_write32 io (base + E1000_OFFSET_TCTL)
                   (tctl OR (BIT 1 OR BIT 3 OR push_bit 4 0xf OR push_bit 12 0x40)) h;
                 let h = mmio_write32 io (base + E1000_OFFSET_TIPG) (10 OR push_bit 10 8 OR push_bit 20 6) h;
                 Some (ok, dev\<lparr>ed_tx_queue := tx_queue, ed_tx_buffers := tx_buffers,
                   ed_tx_queue_n_desc := tx_queue_n_desc, ed_tx_tail := 0\<rparr>, kv, h)
               }
           }
       }
   }"

fun init_rx_descs :: "addr \<Rightarrow> nat list \<Rightarrow> e1000_rx_desc list \<Rightarrow> e1000_rx_desc list option" where
  "init_rx_descs paddr_rx_buffers [] q = Some q"
| "init_rx_descs paddr_rx_buffers (i # is) q = do {
     d \<leftarrow> peek q (int i);
     q \<leftarrow> poke q (int i) (d\<lparr>rx_base_addr := word_of_int (paddr_rx_buffers + int i * E1000_RX_BUF_SIZE)\<rparr>);
     init_rx_descs paddr_rx_buffers is q
   }"

fun mac_ral :: "mac_addr \<Rightarrow> u32" where
  "mac_ral (Mac a0 a1 a2 a3 a4 a5) = push_bit 24 (ucast a3) OR push_bit 16 (ucast a2) OR push_bit 8 (ucast a1) OR ucast a0"

fun mac_rah :: "mac_addr \<Rightarrow> u32" where
  "mac_rah (Mac a0 a1 a2 a3 a4 a5) = BIT 31 OR push_bit 8 (ucast a5) OR ucast a4"

definition e1000_init_rx ::
  "'h mmio \<Rightarrow> mappings \<Rightarrow> e1000_device \<Rightarrow> kvalloc \<Rightarrow> 'h \<Rightarrow> (unit res \<times> e1000_device \<times> kvalloc \<times> 'h) option" where
  "e1000_init_rx io ms dev kv h = do {
     let rx_queue_n_desc = 128;
     (rx_mem_opt, kv) \<leftarrow> kvalloc_alloc (rx_queue_n_desc * E1000_RX_DESC_SIZE) E1000_RX_DESC_SIZE kv;
     case rx_mem_opt of
       None \<Rightarrow> Some (Inl ENOMEM, dev, kv, h)
     | Some rx_mem \<Rightarrow> do {
         (rx_buffers_mem_opt, kv) \<leftarrow> kvalloc_alloc (rx_queue_n_desc * E1000_RX_BUF_SIZE) 64 kv;
         case rx_buffers_mem_opt of
           None \<Rightarrow> do { kv \<leftarrow> kvalloc_free rx_mem kv; Some (Inl ENOMEM, dev, kv, h) }
         | Some rx_buffers_mem \<Rightarrow> do {
             let rx_queue = replicate (nat (snd rx_mem div E1000_RX_DESC_SIZE)) zero_rx_desc;
             let rx_buffers = replicate (nat rx_queue_n_desc) (replicate (nat E1000_RX_BUF_SIZE) 0);
             paddr_rx_queue_res \<leftarrow> virt_to_phys (fst rx_mem) ms;
             paddr_rx_buffers_res \<leftarrow> virt_to_phys (fst rx_buffers_mem) ms;
             case (paddr_rx_queue_res, paddr_rx_buffers_res) of
               (Inl e, _) \<Rightarrow> do {
                 kv \<leftarrow> kvalloc_free rx_mem kv; kv \<leftarrow> kvalloc_free rx_buffers_mem kv; Some (Inl e, dev, kv, h) }
             | (_, Inl e) \<Rightarrow> do {
                 kv \<leftarrow> kvalloc_free rx_mem kv; kv \<leftarrow> kvalloc_free rx_buffers_mem kv; Some (Inl e, dev, kv, h) }
             | (Inr paddr_rx_queue, Inr paddr_rx_buffers) \<Rightarrow> do {
                 rx_queue \<leftarrow> init_rx_descs paddr_rx_buffers [0 ..< nat rx_queue_n_desc] rx_queue;
                 let base = ed_mmio_base dev;
                 kassert (IS_ALIGNED paddr_rx_queue 16);
                 let h = mmio_write32 io (base + E1000_OFFSET_RDBAL) (word_of_int paddr_rx_queue) h;
                 let h = mmio_write32 io (base + E1000_OFFSET_RDBAH) (word_of_int (drop_bit 32 paddr_rx_queue)) h;
                 kassert (IS_ALIGNED (snd rx_mem) 128);
                 kassert (snd rx_mem \<le> 4294967295);
                 let h = mmio_write32 io (base + E1000_OFFSET_RDLEN) (word_of_int (snd rx_mem)) h;
                 let h = mmio_write64 io (base + E1000_OFFSET_RDH) 1 h;
                 let h = mmio_write64 io (base + E1000_OFFSET_RDT) 0 h;
                 let h = mmio_write32 io (base + E1000_OFFSET_RAL0) (mac_ral (ed_mac_addr dev)) h;
                 let h = mmio_write32 io (base + E1000_OFFSET_RAH0) (mac_rah (ed_mac_addr dev)) h;
                 let (rctl, h) = mmio_read32 io (base + E1000_OFFSET_RCTL) h;
                 let h = mmio_write32 io (base + E1000_OFFSET_RCTL)
                   (rctl OR (E1000_RCTL_EN OR E1000_RCTL_UPE OR E1000_RCTL_MPE OR E1000_RCTL_BAM)) h;
                 Some (ok, dev\<lparr>ed_rx_queue := rx_queue, ed_rx_queue_n_desc := rx_queue_n_desc,
                   ed_rx_buffers := rx_buffers, ed_rx_tail := 0\<rparr>, kv, h)
               }
           }
       }
   }"

definition e1000_enable_interrupts :: "'h mmio \<Rightarrow> e1000_device \<Rightarrow> 'h \<Rightarrow> 'h" where
  "e1000_enable_interrupts io dev h =
     (let h = mmio_write32 io (ed_mmio_base dev + E1000_OFFSET_IMS)
            (E1000_INTERRUPT_RXDMT0 OR E1000_INTERRUPT_RXO OR E1000_INTERRUPT_RXT0) h;
          h = mmio_write32 io (ed_mmio_base dev + E1000_OFFSET_ITR) 500 h in
      snd (mmio_read32 io (ed_mmio_base dev + E1000_OFFSET_ICR) h))"

definition e1000_set_link_up :: "'h mmio \<Rightarrow> e1000_device \<Rightarrow> 'h \<Rightarrow> 'h" where
  "e1000_set_link_up io dev h =
     (let (ctrl, h) = mmio_read32 io (ed_mmio_base dev + E1000_OFFSET_CTRL) h in
      mmio_write32 io (ed_mmio_base dev + E1000_OFFSET_CTRL) (ctrl OR BIT 6) h)"

section \<open>Receive and transmit\<close>

definition e1000_tx_poll ::
  "'h mmio \<Rightarrow> e1000_device \<Rightarrow> send_buf \<Rightarrow> 'h \<Rightarrow> (unit res \<times> e1000_device \<times> 'h) option" where
  "e1000_tx_poll io dev sb h = do {
     tx_desc \<leftarrow> peek (ed_tx_queue dev) (ed_tx_tail dev);
     let len = send_buf_total_length sb;
     if len > E1000_TX_BUF_SIZE then Some (Inl EINVAL, dev, h)
     else if tx_status tx_desc AND E1000_TX_DESC_STATUS_DD = 0 then Some (Inl ENOBUFS, dev, h)
     else do {
       dat \<leftarrow> peek (ed_tx_buffers dev) (ed_tx_tail dev);
       (res, tx_buf) \<leftarrow> send_buf_assemble sb (byte_buf_new dat 0 E1000_TX_BUF_SIZE);
       kassert (\<not> is_error res);
       bufs \<leftarrow> poke (ed_tx_buffers dev) (ed_tx_tail dev) (bb_dat tx_buf);
       q \<leftarrow> poke (ed_tx_queue dev) (ed_tx_tail dev) (tx_desc\<lparr>tx_length := word_of_int len, tx_status := 0,
         tx_cmd := tx_cmd tx_desc OR (E1000_TX_DESC_CMD_EOP OR E1000_TX_DESC_CMD_RS)\<rparr>);
       let tail = (ed_tx_tail dev + 1) mod ed_tx_queue_n_desc dev;
       kassert (tail \<le> 65535);
       let h = mmio_write32 io (ed_mmio_base dev + E1000_OFFSET_TDT) (word_of_int tail) h;
       Some (ok, dev\<lparr>ed_tx_buffers := bufs, ed_tx_queue := q, ed_tx_tail := tail,
         ed_stats := (ed_stats dev)\<lparr>n_packets_tx := n_packets_tx (ed_stats dev) + 1\<rparr>\<rparr>, h)
     }
   }"

definition e1000_rx_poll ::
  "'h mmio \<Rightarrow> e1000_device \<Rightarrow> byte_buf \<Rightarrow> 'h \<Rightarrow> (unit res \<times> e1000_device \<times> byte_buf \<times> 'h) option" where
  "e1000_rx_poll io dev buf h =
     (if bb_cap buf - bb_len buf < E1000_RX_BUF_SIZE then Some (Inl EINVAL, dev, buf, h)
      else do {
        let next_tail = (ed_rx_tail dev + 1) mod ed_rx_queue_n_desc dev;
        kassert (next_tail \<le> 65535);
        rx_desc \<leftarrow> peek (ed_rx_queue dev) next_tail;
        if rx_status rx_desc AND E1000_RX_DESC_STATUS_DD = 0 then Some (Inl EAGAIN, dev, buf, h)
        else do {
          kassert (rx_status rx_desc AND E1000_RX_DESC_STATUS_EOP \<noteq> 0);
          if rx_error rx_desc \<noteq> 0 then Some (Inl EIO, dev, buf, h)
          else do {
            kassert (uint (rx_length rx_desc) \<le> E1000_RX_BUF_SIZE);
            dat \<leftarrow> peek (ed_rx_buffers dev) next_tail;
            let n = unat (rx_length rx_desc);
            (_, buf) \<leftarrow> byte_buf_append buf (take n dat);
            bufs \<leftarrow> poke (ed_rx_buffers dev) next_tail (replicate n 0 @ drop n dat);
            q \<leftarrow> poke (ed_rx_queue dev) next_tail (rx_desc\<lparr>rx_length := 0, rx_status := 0\<rparr>);
            let h = mmio_write32 io (ed_mmio_base dev + E1000_OFFSET_RDT) (word_of_int next_tail) h;
            Some (ok, dev\<lparr>ed_rx_buffers := bufs, ed_rx_queue := q, ed_rx_tail := next_tail,
              ed_stats := (ed_stats dev)\<lparr>n_packets_rx := n_packets_rx (ed_stats dev) + 1\<rparr>\<rparr>, buf, h)
          }
        }
      })"

text \<open>The state that the network stack keeps for its driver: the device and the hardware.\<close>

record 'h e1000_drv =
  dr_dev :: e1000_device
  dr_hw :: 'h

abbreviation set_tmp_recv_buf :: "byte list \<Rightarrow> e1000_device \<Rightarrow> e1000_device" where
  "set_tmp_recv_buf dat dev \<equiv> dev\<lparr>ed_tmp_recv_buf := dat\<rparr>"

partial_function (option) e1000_receive_loop ::
  "'h mmio \<Rightarrow> 'h e1000_drv netdev \<Rightarrow> ('h e1000_drv, 'z) net_scheme \<Rightarrow> ('h e1000_drv, 'z) net_scheme option" where
  "e1000_receive_loop io netdev s = do {
     let dev = dr_dev (net_drv s);
     (res, dev, buf, h) \<leftarrow> e1000_rx_poll io dev (byte_buf_from_array (ed_tmp_recv_buf dev)) (dr_hw (net_drv s));
     let s = s\<lparr>net_drv := \<lparr>dr_dev = set_tmp_recv_buf (bb_dat buf) dev, dr_hw = h\<rparr>\<rparr>;
     if res = Inl EAGAIN then Some s
     else if is_error res then crash
     else do {
       s \<leftarrow> netdev_intr_receive netdev (byte_view_from_buf buf) s;
       e1000_receive_loop io netdev s
     }
   }"

declare e1000_receive_loop.simps [code]

definition count_if :: "bool \<Rightarrow> sz" where
  "count_if b = (if b then 1 else 0)"

definition e1000_handle_interrupt ::
  "'h mmio \<Rightarrow> 'h e1000_drv netdev \<Rightarrow> ('h e1000_drv, 'z) net_scheme \<Rightarrow> ('h e1000_drv, 'z) net_scheme option" where
  "e1000_handle_interrupt io netdev s = do {
     let dev = dr_dev (net_drv s);
     let (cause, h) = mmio_read32 io (ed_mmio_base dev + E1000_OFFSET_ICR) (dr_hw (net_drv s));
     let st = ed_stats dev;
     let st = st\<lparr>n_interrupts := n_interrupts st + 1,
       n_rxo_interrupts := n_rxo_interrupts st + count_if (cause AND E1000_INTERRUPT_RXO \<noteq> 0),
       n_rxdmt0_interrupts := n_rxdmt0_interrupts st + count_if (cause AND E1000_INTERRUPT_RXDMT0 \<noteq> 0),
       n_rxt0_interrupts := n_rxt0_interrupts st + count_if (cause AND E1000_INTERRUPT_RXT0 \<noteq> 0)\<rparr>;
     let s = s\<lparr>net_drv := \<lparr>dr_dev = dev\<lparr>ed_stats := st\<rparr>, dr_hw = h\<rparr>\<rparr>;
     if cause AND E1000_INTERRUPT_RXO \<noteq> 0 then crash
     else if cause AND E1000_INTERRUPT_RXDMT0 \<noteq> 0 \<or> cause AND E1000_INTERRUPT_RXT0 \<noteq> 0 then
       e1000_receive_loop io netdev s
     else Some s
   }"

section \<open>The device for the network stack\<close>

text \<open>The MAC address of the \<open>netdev\<close> is an argument, as the device record it belongs to has the function.\<close>

definition e1000_netdev_send_frame ::
  "'h mmio \<Rightarrow> mac_addr \<Rightarrow> send_buf \<Rightarrow> 'h e1000_drv \<Rightarrow> (unit res \<times> 'h e1000_drv) option" where
  "e1000_netdev_send_frame io mac sb drv = do {
     kassert (mac_addr_is_equal mac (ed_mac_addr (dr_dev drv)));
     (res, dev, h) \<leftarrow> e1000_tx_poll io (dr_dev drv) sb (dr_hw drv);
     Some (res, \<lparr>dr_dev = dev, dr_hw = h\<rparr>)
   }"

datatype irq_handler = Handle_timer_interrupt | E1000_handle_interrupt

record 'd kernel = "'d tcp_net" +
  k_paging :: paging
  k_handlers :: "(irq_handler, 'd netdev option) handler_table"

definition SIZEOF_E1000_DEVICE :: sz where "SIZEOF_E1000_DEVICE = 152"
definition SIZEOF_NETDEV :: sz where "SIZEOF_NETDEV = 40"

abbreviation set_drv :: "e1000_device \<Rightarrow> 'h \<Rightarrow> ('h e1000_drv, 'z) kernel_scheme \<Rightarrow> ('h e1000_drv, 'z) kernel_scheme" where
  "set_drv dev h s \<equiv> s\<lparr>net_drv := \<lparr>dr_dev = dev, dr_hw = h\<rparr>\<rparr>"

definition e1000_init_interrupts ::
  "'h mmio \<Rightarrow> ('h e1000_drv, 'z) kernel_scheme port_io \<Rightarrow> e1000_device \<Rightarrow> ('h e1000_drv, 'z) kernel_scheme \<Rightarrow>
     ('h e1000_drv, 'z) kernel_scheme" where
  "e1000_init_interrupts io pio dev s =
     (let s = pic_enable_irq pio 11 s in
      s\<lparr>net_drv := (net_drv s)\<lparr>dr_hw := e1000_enable_interrupts io dev (dr_hw (net_drv s))\<rparr>\<rparr>)"

text \<open>After the device was mapped: reading its address, and the two rings.\<close>

definition e1000_start ::
  "'h mmio \<Rightarrow> mappings \<Rightarrow> e1000_device \<Rightarrow> kvalloc \<Rightarrow> 'h \<Rightarrow> (unit res \<times> e1000_device \<times> kvalloc \<times> 'h) option" where
  "e1000_start io ms dev kv h = do {
     let (dev, h) = e1000_eeprom_check io dev h;
     (dev, h) \<leftarrow> e1000_read_mac_addr io dev h;
     let h = e1000_init_device io dev h;
     (res, dev, kv, h) \<leftarrow> e1000_init_tx io ms dev kv h;
     if is_error res then Some (res, dev, kv, h)
     else e1000_init_rx io ms dev kv h
   }"

definition e1000_register ::
  "'h mmio \<Rightarrow> ('h e1000_drv, 'z) kernel_scheme port_io \<Rightarrow> u8 \<Rightarrow> e1000_device \<Rightarrow> ('h e1000_drv, 'z) kernel_scheme \<Rightarrow>
     (unit res \<times> ('h e1000_drv, 'z) kernel_scheme) option" where
  "e1000_register io pio interrupt_line dev s = do {
     let netdev = \<lparr>nd_mac_addr = ed_mac_addr dev, nd_ip_addr = ipv4_addr_new 0 0 0 0, nd_link_type = NETDEV_LINK_TYPE_ETHERNET,
       nd_send_frame = e1000_netdev_send_frame io (ed_mac_addr dev), nd_mtu = E1000_TX_BUF_SIZE\<rparr>;
     (res, netdev, s) \<leftarrow> netdev_register_device netdev s;
     if is_error res then Some (res, s)
     else do {
       (res, table) \<leftarrow> isr_register_handler (IRQ_VECTORS_BEG + ucast interrupt_line) E1000_handle_interrupt (Some netdev) (k_handlers s);
       let s = s\<lparr>k_handlers := table\<rparr>;
       if is_error res then Some (res, s)
       else do {
         let s = e1000_init_interrupts io pio dev s;
         let s = pic_enable_irq pio interrupt_line s;
         Some (ok, s\<lparr>net_drv := (net_drv s)\<lparr>dr_hw := e1000_set_link_up io dev (dr_hw (net_drv s))\<rparr>\<rparr>)
       }
     }
   }"

definition e1000_probe ::
  "'h mmio \<Rightarrow> ('h e1000_drv, 'z) kernel_scheme port_io \<Rightarrow> pci_device \<Rightarrow> ('h e1000_drv, 'z) kernel_scheme \<Rightarrow>
     (unit res \<times> ('h e1000_drv, 'z) kernel_scheme) option" where
  "e1000_probe io pio pci s = do {
     (dev_mem, kv) \<leftarrow> kvalloc_alloc SIZEOF_E1000_DEVICE 8 (tcp_kv s);
     if dev_mem = None then Some (Inl ENOMEM, s\<lparr>tcp_kv := kv\<rparr>)
     else do {
       (netdev_mem, kv) \<leftarrow> kvalloc_alloc SIZEOF_NETDEV 8 kv;
       if netdev_mem = None then Some (Inl ENOMEM, s\<lparr>tcp_kv := kv\<rparr>)
       else do {
         (tmp, kv) \<leftarrow> kvalloc_alloc E1000_RX_BUF_SIZE 64 kv;
         (_, tmp_len) \<leftarrow> tmp;
         bar0 \<leftarrow> peek (pd_bars pci) 0;
         let dev = (dr_dev (net_drv s))\<lparr>ed_tmp_recv_buf := replicate (nat tmp_len) 0, ed_mmio_base := pb_base bar0,
           ed_mmio_len := pb_len bar0, ed_stats := zero_stats\<rparr>;
         (res, pg) \<leftarrow> e1000_init_mmio dev (if pb_flags bar0 AND PCI_BAR_FLAG_PREFETCHABLE \<noteq> 0
           then ADDR_MAPPING_MEMORY_DEFAULT else ADDR_MAPPING_MEMORY_STRONG_UNCACHEABLE) (k_paging s);
         let s = s\<lparr>tcp_kv := kv, k_paging := pg\<rparr>;
         if is_error res then Some (res, set_drv dev (dr_hw (net_drv s)) s)
         else do {
           (res, dev, kv, h) \<leftarrow> e1000_start io (pg_mappings pg) dev kv (dr_hw (net_drv s));
           let s = set_drv dev h (s\<lparr>tcp_kv := kv\<rparr>);
           if is_error res then Some (res, s)
           else e1000_register io pio (pd_interrupt_line pci) dev s
         }
       }
     }
   }"

text \<open>The entry in the table of drivers, and the handlers of interrupts as the dispatcher runs them.\<close>

definition pci_device_driver_e1000 ::
  "'h mmio \<Rightarrow> ('h e1000_drv, 'z) kernel_scheme port_io \<Rightarrow> ('h e1000_drv, 'z) kernel_scheme pci_device_driver" where
  "pci_device_driver_e1000 io pio = \<lparr>drv_name = cstr ''e1000'', drv_ids = [\<lparr>id_vendor = E1000_VENDOR_ID, id_device = E1000_DEVICE_ID\<rparr>],
     drv_capabilities = PCI_DEVICE_DRIVER_CAP_DMA OR PCI_DEVICE_DRIVER_CAP_MEM OR PCI_DEVICE_DRIVER_CAP_INTERRUPT,
     drv_probe = e1000_probe io pio\<rparr>"

fun run_handler ::
  "'h mmio \<Rightarrow> (irq_handler, 'h e1000_drv netdev option, ('h e1000_drv, 'z) kernel_scheme) handler_run" where
  "run_handler io Handle_timer_interrupt private_data cpu_state s = Some (cpu_state, s)"
| "run_handler io E1000_handle_interrupt private_data cpu_state s = do {
     netdev \<leftarrow> private_data;
     s \<leftarrow> e1000_handle_interrupt io netdev s;
     Some (cpu_state, s)
   }"

end
