(* ===== verification/E1000Rx.thy ===== *)
theory E1000Rx
  imports E1000
begin

text \<open>
  The receive ring of the network controller: the driver and the device share it, and each is a step on the ring.
  The frames that the device has stored and the driver has not fetched yet are a queue.
\<close>

section \<open>The registers and the frames in the ring\<close>

text \<open>
  The head and the tail of the ring, as numbers that the hardware keeps: a write to the tail register sets the
  tail and leaves the head.
\<close>

definition rx_registers :: "'h mmio \<Rightarrow> u64 \<Rightarrow> ('h \<Rightarrow> nat) \<Rightarrow> ('h \<Rightarrow> nat) \<Rightarrow> bool" where
  "rx_registers io base rdh rdt \<longleftrightarrow>
     (\<forall>v h. rdt (mmio_write32 io (base + E1000_OFFSET_RDT) v h) = unat v \<and>
        rdh (mmio_write32 io (base + E1000_OFFSET_RDT) v h) = rdh h)"

definition rx_frame :: "e1000_rx_desc \<Rightarrow> byte list \<Rightarrow> byte list" where
  "rx_frame d buf = take (unat (rx_length d)) buf"

definition rx_slots :: "e1000_device \<Rightarrow> byte list list" where
  "rx_slots dev = map2 rx_frame (take 128 (ed_rx_queue dev)) (ed_rx_buffers dev)"

text \<open>
  The memory of the ring has 256 descriptors, of which the driver uses 128. The others have no buffer, and the device
  passes over them; a head among them will store next at the start of the ring.
\<close>

definition rx_next :: "nat \<Rightarrow> nat" where
  "rx_next head = (if head < 128 then head else 0)"

definition rx_count :: "nat \<Rightarrow> nat \<Rightarrow> nat" where
  "rx_count head tail = (if tail < head then head - tail - 1 else head + 127 - tail)"

definition rx_waiting :: "('h \<Rightarrow> nat) \<Rightarrow> e1000_device \<Rightarrow> 'h \<Rightarrow> nat" where
  "rx_waiting rdh dev h = rx_count (rx_next (rdh h)) (nat (ed_rx_tail dev))"

definition rx_pending :: "('h \<Rightarrow> nat) \<Rightarrow> e1000_device \<Rightarrow> 'h \<Rightarrow> byte list list" where
  "rx_pending rdh dev h = ring_items (rx_slots dev) (nat (ed_rx_tail dev) + 1) (rx_waiting rdh dev h)"

definition rx_is_done :: "e1000_rx_desc \<Rightarrow> bool" where
  "rx_is_done d \<longleftrightarrow> bit (rx_status d) 0"

definition rx_is_good :: "e1000_rx_desc \<Rightarrow> bool" where
  "rx_is_good d \<longleftrightarrow> bit (rx_status d) 1 \<and> rx_error d = 0 \<and> unat (rx_length d) \<le> 2048"

text \<open>
  The invariant of the ring: its dimensions, where its descriptors point, the tail that driver and device agree
  on, and that the descriptors that are done are those between tail and head.
\<close>

definition rx_shape :: "u64 \<Rightarrow> int \<Rightarrow> e1000_device \<Rightarrow> bool" where
  "rx_shape base pa dev \<longleftrightarrow>
     ed_mmio_base dev = base \<and> ed_rx_queue_n_desc dev = 128 \<and> 0 \<le> ed_rx_tail dev \<and> ed_rx_tail dev < 128 \<and>
     length (ed_rx_queue dev) = 256 \<and> length (ed_rx_buffers dev) = 128 \<and> (\<forall>b \<in> set (ed_rx_buffers dev). length b = 2048) \<and>
     (\<forall>i < 128. rx_base_addr (ed_rx_queue dev ! i) = word_of_int (pa + int i * 2048)) \<and>
     (\<forall>i < 256. 128 \<le> i \<longrightarrow> rx_base_addr (ed_rx_queue dev ! i) = 0)"

definition rx_marks :: "nat \<Rightarrow> nat \<Rightarrow> e1000_rx_desc list \<Rightarrow> bool" where
  "rx_marks t n q \<longleftrightarrow> (\<forall>k < 128. let d = q ! ((t + 1 + k) mod 128) in rx_is_done d = (k < n) \<and> (k < n \<longrightarrow> rx_is_good d))"

definition rx_inv :: "u64 \<Rightarrow> int \<Rightarrow> ('h \<Rightarrow> nat) \<Rightarrow> ('h \<Rightarrow> nat) \<Rightarrow> e1000_device \<Rightarrow> 'h \<Rightarrow> bool" where
  "rx_inv base pa rdh rdt dev h \<longleftrightarrow> rx_shape base pa dev \<and> rdt h = nat (ed_rx_tail dev) \<and> rdh h < 256 \<and>
     rx_marks (nat (ed_rx_tail dev)) (rx_waiting rdh dev h) (ed_rx_queue dev)"

section \<open>Steps of the device\<close>

text \<open>
  As the manual of the device describes it: a frame goes to the buffer of the descriptor at the head, which
  gets its length and is marked as done and last of its packet; a descriptor without a buffer is passed over. When head
  and tail are equal the device has no descriptor, and frames are lost.
\<close>

definition put_frame :: "nat \<Rightarrow> nat \<Rightarrow> byte list \<Rightarrow> e1000_device \<Rightarrow> e1000_device" where
  "put_frame i j f dev = dev\<lparr>
     ed_rx_queue := (ed_rx_queue dev)[i := (ed_rx_queue dev ! i)\<lparr>rx_length := of_nat (length f), rx_status := 3, rx_error := 0\<rparr>],
     ed_rx_buffers := (ed_rx_buffers dev)[j := f @ drop (length f) (ed_rx_buffers dev ! j)]\<rparr>"

definition mark_done :: "nat \<Rightarrow> e1000_device \<Rightarrow> e1000_device" where
  "mark_done i dev = dev\<lparr>ed_rx_queue := (ed_rx_queue dev)[i := (ed_rx_queue dev ! i)\<lparr>rx_status := 1\<rparr>]\<rparr>"

text \<open>The state of the system, with the frames that were stored and the frames that were fetched so far.\<close>

inductive rx_step ::
  "'h mmio \<Rightarrow> int \<Rightarrow> ('h \<Rightarrow> nat) \<Rightarrow> ('h \<Rightarrow> nat) \<Rightarrow> e1000_device \<times> 'h \<times> byte list list \<times> byte list list \<Rightarrow>
     e1000_device \<times> 'h \<times> byte list list \<times> byte list list \<Rightarrow> bool"
  for io pa rdh rdt where
  Store: "rdh h \<noteq> rdt h \<Longrightarrow> rx_base_addr (ed_rx_queue dev ! rdh h) = word_of_int (pa + int j * 2048) \<Longrightarrow>
    rx_base_addr (ed_rx_queue dev ! rdh h) \<noteq> 0 \<Longrightarrow> j < 128 \<Longrightarrow> length f \<le> 2048 \<Longrightarrow>
    rdh h' = (rdh h + 1) mod 256 \<Longrightarrow> rdt h' = rdt h \<Longrightarrow>
    rx_step io pa rdh rdt (dev, h, ins, outs) (put_frame (rdh h) j f dev, h', ins @ [f], outs)"
| Skip: "rdh h \<noteq> rdt h \<Longrightarrow> rx_base_addr (ed_rx_queue dev ! rdh h) = 0 \<Longrightarrow>
    rdh h' = (rdh h + 1) mod 256 \<Longrightarrow> rdt h' = rdt h \<Longrightarrow>
    rx_step io pa rdh rdt (dev, h, ins, outs) (mark_done (rdh h) dev, h', ins, outs)"
| Poll: "wf_buf buf \<Longrightarrow> bb_len buf = 0 \<Longrightarrow> e1000_rx_poll io dev buf h = Some (res, dev', buf', h') \<Longrightarrow>
    rx_step io pa rdh rdt (dev, h, ins, outs)
      (dev', h', ins, if is_error res then outs else outs @ [byte_view_from_buf buf'])"

section \<open>The ring as a queue\<close>

lemma rx_count_bound: "head < 128 \<Longrightarrow> tail < 128 \<Longrightarrow> rx_count head tail \<le> 127"
  by (auto simp: rx_count_def)

lemma rx_next_bound [simp]: "rx_next head < 128"
  by (simp add: rx_next_def)

lemma rx_head_slot:
  "head < 128 \<Longrightarrow> tail < 128 \<Longrightarrow> (tail + 1 + rx_count head tail) mod 128 = head"
  by (auto simp: rx_count_def)

lemma rx_count_put:
  "head < 128 \<Longrightarrow> tail < 128 \<Longrightarrow> head \<noteq> tail \<Longrightarrow>
     rx_count (rx_next (head + 1)) tail = Suc (rx_count head tail) \<and> rx_count head tail < 127"
  by (auto simp: rx_count_def rx_next_def)

lemma rx_count_get:
  "head < 128 \<Longrightarrow> tail < 128 \<Longrightarrow> rx_count head tail = Suc n \<Longrightarrow> rx_count head ((tail + 1) mod 128) = n"
  by (cases "tail = 127") (auto simp: rx_count_def split: if_splits)

lemma slot_index_inj: "k < 128 \<Longrightarrow> l < 128 \<Longrightarrow> (t + k) mod 128 = (t + l) mod 128 \<longleftrightarrow> k = (l :: nat)"
  using mod_shift_neq [of k l 128 t] mod_shift_neq [of l k 128 t] by (metis linorder_neqE_nat)

lemma ring_items_other:
  assumes "\<forall>k < n. (t + k) mod length xs \<noteq> i"
  shows "ring_items (xs[i := v]) t n = ring_items xs t n"
  using assms by (auto simp: ring_items_def)

lemma rx_tail_nat: "rx_shape base pa dev \<Longrightarrow> nat (ed_rx_tail dev) < 128 \<and> int (nat (ed_rx_tail dev)) = ed_rx_tail dev"
  by (simp add: rx_shape_def nat_less_iff)

text \<open>The descriptor behind the tail.\<close>

lemma rx_next_tail:
  assumes "rx_shape base pa dev" "i = (nat (ed_rx_tail dev) + 1) mod 128"
  shows "i < 128" "(ed_rx_tail dev + 1) mod ed_rx_queue_n_desc dev = int i"
proof -
  have "int i = int (nat (ed_rx_tail dev) + 1) mod 128" unfolding assms(2) by (simp only: zmod_int) simp
  moreover have "int (nat (ed_rx_tail dev) + 1) = ed_rx_tail dev + 1" using rx_tail_nat [OF assms(1)] by linarith
  moreover have "ed_rx_queue_n_desc dev = 128" using assms(1) by (simp add: rx_shape_def)
  ultimately show "(ed_rx_tail dev + 1) mod ed_rx_queue_n_desc dev = int i" by presburger
  show "i < 128" unfolding assms(2) by simp
qed

lemma rx_slots_length: "rx_shape base pa dev \<Longrightarrow> length (rx_slots dev) = 128"
  by (simp add: rx_slots_def rx_shape_def)

lemma rx_slots_nth:
  "rx_shape base pa dev \<Longrightarrow> i < 128 \<Longrightarrow> rx_slots dev ! i = rx_frame (ed_rx_queue dev ! i) (ed_rx_buffers dev ! i)"
  by (simp add: rx_slots_def rx_shape_def)

lemma rx_pending_length [simp]: "length (rx_pending rdh dev h) = rx_waiting rdh dev h"
  by (simp add: rx_pending_def)

lemma rx_marks_at:
  assumes "rx_marks t n q" "k < 128"
  shows "rx_is_done (q ! ((t + 1 + k) mod 128)) = (k < n)" "k < n \<Longrightarrow> rx_is_good (q ! ((t + 1 + k) mod 128))"
  using assms by (auto simp: rx_marks_def Let_def)

text \<open>Storing a frame puts it at the end of the queue.\<close>

lemma put_frame_pending:
  assumes "rx_inv base pa rdh rdt dev h" "rdh h \<noteq> rdt h" "rdh h < 128" "length f \<le> 2048"
    and "rdh h' = (rdh h + 1) mod 256" "rdt h' = rdt h"
  shows "rx_inv base pa rdh rdt (put_frame (rdh h) (rdh h) f dev) h' \<and>
    rx_pending rdh (put_frame (rdh h) (rdh h) f dev) h' = rx_pending rdh dev h @ [f]"
proof -
  let ?i = "rdh h" and ?t = "nat (ed_rx_tail dev)" and ?dev = "put_frame (rdh h) (rdh h) f dev"
  let ?n = "rx_waiting rdh dev h"
  have sh: "rx_shape base pa dev" and rdt: "rdt h = ?t" and mk: "rx_marks ?t ?n (ed_rx_queue dev)"
    using assms(1) by (auto simp: rx_inv_def)
  have t: "?t < 128" using rx_tail_nat [OF sh] by simp
  have i: "?i < 128" "?i \<noteq> ?t" using assms(2,3) rdt by auto
  have nx: "rx_next ?i = ?i" using i by (simp add: rx_next_def)
  have n: "?n = rx_count ?i ?t" by (simp add: rx_waiting_def nx)
  have c: "rx_count (rx_next (?i + 1)) ?t = Suc ?n" "?n < 127"
    using rx_count_put [OF i(1) t i(2)] n by auto
  have slot: "(?t + 1 + ?n) mod 128 = ?i" unfolding n by (rule rx_head_slot [OF i(1) t])
  have tail: "ed_rx_tail ?dev = ed_rx_tail dev" by (simp add: put_frame_def)
  have "rx_next (rdh h') = rx_next (?i + 1)" using i(1) assms(5) by simp
  then have w: "rx_waiting rdh ?dev h' = Suc ?n" using c(1) by (simp add: rx_waiting_def tail)
  have blen: "length (ed_rx_buffers dev ! ?i) = 2048" using sh i by (simp add: rx_shape_def)
  have sh': "rx_shape base pa ?dev"
    using sh blen i assms(4) unfolding rx_shape_def put_frame_def
    by (auto simp: nth_list_update dest!: set_update_subset_insert [THEN subsetD])
  have f: "unat (of_nat (length f) :: u16) = length f" using assms(4) by (simp add: unsigned_of_nat take_bit_nat_eq_self)
  have dims: "length (ed_rx_queue dev) = 256" "length (ed_rx_buffers dev) = 128" using sh by (auto simp: rx_shape_def)
  have slots: "rx_slots ?dev = (rx_slots dev)[?i := f]"
  proof (rule nth_equalityI)
    show "length (rx_slots ?dev) = length ((rx_slots dev)[?i := f])" using sh sh' by (simp add: rx_slots_length)
    fix j assume "j < length (rx_slots ?dev)"
    then have "j < 128" using sh' by (simp add: rx_slots_length)
    then show "rx_slots ?dev ! j = (rx_slots dev)[?i := f] ! j"
      using rx_slots_nth [OF sh] rx_slots_nth [OF sh'] rx_slots_length [OF sh] dims f
      by (cases "j = ?i") (simp_all add: put_frame_def rx_frame_def)
  qed
  have "ring_items ((rx_slots dev)[?i := f]) (?t + 1) (Suc ?n) = ring_items (rx_slots dev) (?t + 1) ?n @ [f]"
    using ring_items_put [of ?n "rx_slots dev" "?t + 1" f] slot c(2) sh by (simp add: rx_slots_length)
  then have p: "rx_pending rdh ?dev h' = rx_pending rdh dev h @ [f]"
    by (simp add: rx_pending_def w tail slots)
  have "rx_marks ?t (Suc ?n) (ed_rx_queue ?dev)"
    unfolding rx_marks_def Let_def
  proof (intro allI impI)
    fix k :: nat assume k: "k < 128"
    let ?j = "(?t + 1 + k) mod 128"
    have j: "?j = ?i \<longleftrightarrow> k = ?n"
      using slot_index_inj [of k ?n "?t + 1"] slot k c(2) by simp
    show "rx_is_done (ed_rx_queue ?dev ! ?j) = (k < Suc ?n) \<and> (k < Suc ?n \<longrightarrow> rx_is_good (ed_rx_queue ?dev ! ?j))"
    proof (cases "k = ?n")
      case True
      have "ed_rx_queue ?dev ! ?j = (ed_rx_queue dev ! ?i)\<lparr>rx_length := of_nat (length f), rx_status := 3, rx_error := 0\<rparr>"
        using True j sh i by (simp add: put_frame_def rx_shape_def)
      then show ?thesis using True f assms(4) by (simp add: rx_is_done_def rx_is_good_def)
    next
      case False
      then have "ed_rx_queue ?dev ! ?j = ed_rx_queue dev ! ?j" using j by (simp add: put_frame_def)
      then show ?thesis using rx_marks_at [OF mk k] False by auto
    qed
  qed
  then show ?thesis using sh' w p tail rdt assms(5,6) i by (simp add: rx_inv_def)
qed

text \<open>Passing over a descriptor without a buffer changes nothing in the queue.\<close>

lemma mark_done_pending:
  assumes "rx_inv base pa rdh rdt dev h" "128 \<le> rdh h" "rdh h' = (rdh h + 1) mod 256" "rdt h' = rdt h"
  shows "rx_inv base pa rdh rdt (mark_done (rdh h) dev) h' \<and> rx_pending rdh (mark_done (rdh h) dev) h' = rx_pending rdh dev h"
proof -
  let ?i = "rdh h" and ?dev = "mark_done (rdh h) dev"
  have sh: "rx_shape base pa dev" and i: "?i < 256" using assms(1) by (auto simp: rx_inv_def)
  have nx: "rx_next (rdh h') = rx_next ?i"
    using assms(2,3) i by (cases "?i = 255") (auto simp: rx_next_def)
  have tail: "ed_rx_tail ?dev = ed_rx_tail dev" by (simp add: mark_done_def)
  have w: "rx_waiting rdh ?dev h' = rx_waiting rdh dev h" by (simp add: rx_waiting_def tail nx)
  have same: "ed_rx_queue ?dev ! j = ed_rx_queue dev ! j" if "j < 128" for j
    using that assms(2) by (simp add: mark_done_def)
  have sh': "rx_shape base pa ?dev" using sh i unfolding rx_shape_def mark_done_def by (auto simp: nth_list_update)
  have slots: "rx_slots ?dev = rx_slots dev"
    using assms(2) by (simp add: rx_slots_def mark_done_def take_update_cancel)
  have "rx_marks (nat (ed_rx_tail dev)) (rx_waiting rdh dev h) (ed_rx_queue ?dev)"
    using assms(1) same by (simp add: rx_inv_def rx_marks_def)
  then show ?thesis using assms(1,3,4) sh' w tail i slots by (simp add: rx_inv_def rx_pending_def)
qed

text \<open>Polling takes the oldest frame.\<close>

lemma and_bit0: "(x :: u8) AND BIT n = 0 \<longleftrightarrow> \<not> bit x n"
  by (simp add: BIT_def bit_iff_and_push_bit_not_eq_0)

lemma rx_poll_item:
  assumes "rx_inv base pa rdh rdt dev h" "rx_registers io base rdh rdt" "rx_pending rdh dev h = f # fs"
    and "wf_buf buf" "2048 \<le> bb_cap buf - bb_len buf"
  shows "\<exists>dev' buf' h'. e1000_rx_poll io dev buf h = Some (ok, dev', buf', h') \<and> wf_buf buf' \<and> bb_cap buf' = bb_cap buf \<and>
    length (bb_dat buf') = length (bb_dat buf) \<and> byte_view_from_buf buf' = byte_view_from_buf buf @ f \<and>
    rx_inv base pa rdh rdt dev' h' \<and> rx_pending rdh dev' h' = fs \<and> ed_tmp_recv_buf dev' = ed_tmp_recv_buf dev"
proof -
  let ?t = "nat (ed_rx_tail dev)" and ?n = "rx_waiting rdh dev h"
  define i where "i = (?t + 1) mod 128"
  let ?d = "ed_rx_queue dev ! i" and ?b = "ed_rx_buffers dev ! i"
  have sh: "rx_shape base pa dev" and rdt: "rdt h = ?t" and mk: "rx_marks ?t ?n (ed_rx_queue dev)" and rdh: "rdh h < 256"
    using assms(1) by (auto simp: rx_inv_def)
  have t: "?t < 128" using rx_tail_nat [OF sh] by simp
  note i = rx_next_tail [OF sh i_def]
  obtain m where m: "?n = Suc m" using assms(3) rx_pending_length [of rdh dev h] by (cases ?n) auto
  have d: "rx_is_done ?d" "rx_is_good ?d" using rx_marks_at [OF mk, of 0] m by (auto simp: i_def)
  have len: "length ?b = 2048" "unat (rx_length ?d) \<le> 2048" using sh d(2) i by (auto simp: rx_shape_def rx_is_good_def)
  have ne: "rx_slots dev \<noteq> []" using rx_slots_length [OF sh] by auto
  have "rx_pending rdh dev h = rx_slots dev ! i # ring_items (rx_slots dev) ((?t + 1 + 1) mod 128) m"
    using ring_items_get [OF ne, of "?t + 1" m] rx_slots_length [OF sh] m
    by (simp add: rx_pending_def i_def)
  moreover have "ring_items (rx_slots dev) ((?t + 1 + 1) mod 128) m = ring_items (rx_slots dev) (i + 1) m"
    unfolding i_def using ring_items_mod [of "rx_slots dev" "(?t + 1) mod 128 + 1" m] rx_slots_length [OF sh]
    by (simp add: mod_simps)
  ultimately have f: "f = rx_frame ?d ?b" "fs = ring_items (rx_slots dev) (i + 1) m"
    using assms(3) rx_slots_nth [OF sh i(1)] by auto
  have fl: "length f = unat (rx_length ?d)" using f(1) len by (simp add: rx_frame_def)
  have fl2: "length f \<le> 2048" unfolding fl by (rule len(2))
  then have fb: "min (bb_cap buf - bb_len buf) (int (length f)) = int (length f)" "length f \<le> nat (bb_cap buf - bb_len buf)"
    using assms(5) by linarith+
  note fb = fb(1) take_all [OF fb(2)]
  obtain buf' where buf': "byte_buf_append buf f = Some (int (length f), buf')" "wf_buf buf'" "bb_cap buf' = bb_cap buf"
    "length (bb_dat buf') = length (bb_dat buf)" "byte_view_from_buf buf' = byte_view_from_buf buf @ f"
    using byte_buf_append_ok [OF assms(4), of f] unfolding fb by blast
  let ?q = "(ed_rx_queue dev)[i := ?d\<lparr>rx_length := 0, rx_status := 0\<rparr>]"
  let ?bufs = "(ed_rx_buffers dev)[i := replicate (unat (rx_length ?d)) 0 @ drop (unat (rx_length ?d)) ?b]"
  define h' where "h' = mmio_write32 io (ed_mmio_base dev + E1000_OFFSET_RDT) (word_of_int (int i)) h"
  let ?dev = "dev\<lparr>ed_rx_buffers := ?bufs, ed_rx_queue := ?q, ed_rx_tail := int i,
     ed_stats := (ed_stats dev)\<lparr>n_packets_rx := n_packets_rx (ed_stats dev) + 1\<rparr>\<rparr>"
  have base: "ed_mmio_base dev = base" "ed_rx_queue_n_desc dev = 128" "length (ed_rx_queue dev) = 256" "length (ed_rx_buffers dev) = 128"
    using sh by (auto simp: rx_shape_def)
  have u: "uint (rx_length ?d) \<le> 2048" using len(2) unfolding uint_nat by linarith
  have pq: "peek (ed_rx_queue dev) (int i) = Some ?d" "poke (ed_rx_queue dev) (int i) x = Some ((ed_rx_queue dev)[i := x])"
    "peek (ed_rx_buffers dev) (int i) = Some ?b" "poke (ed_rx_buffers dev) (int i) y = Some ((ed_rx_buffers dev)[i := y])" for x y
    using i base by simp_all
  have g: "(rx_status ?d AND E1000_RX_DESC_STATUS_DD = 0) = False" "(rx_status ?d AND E1000_RX_DESC_STATUS_EOP \<noteq> 0) = True"
    "(rx_error ?d \<noteq> 0) = False" "(bb_cap buf - bb_len buf < E1000_RX_BUF_SIZE) = False"
    "(uint (rx_length ?d) \<le> E1000_RX_BUF_SIZE) = True" "(int i \<le> 65535) = True"
    using d u assms(5) i(1) by (auto simp: rx_is_done_def rx_is_good_def and_bit0 E1000_RX_DESC_STATUS_DD_def
        E1000_RX_DESC_STATUS_EOP_def E1000_RX_BUF_SIZE_def)
  have app: "byte_buf_append buf (take (unat (rx_length ?d)) ?b) = Some (int (length f), buf')"
    using buf'(1) unfolding f(1) rx_frame_def .
  have poll: "e1000_rx_poll io dev buf h = Some (ok, ?dev, buf', h')"
    unfolding e1000_rx_poll_def Let_def i(2) h'_def
    by (simp only: g if_False if_True kassert_True bind.bind_lunit pq app prod.case)
  have wi: "unat (word_of_int (int i) :: u32) = i"
    using i(1) by (simp add: unsigned_of_nat take_bit_nat_eq_self)
  have regs: "rdt h' = i" "rdh h' = rdh h"
    using assms(2) wi unfolding h'_def base(1) rx_registers_def by metis+
  have w: "rx_waiting rdh ?dev h' = m"
    using rx_count_get [of "rx_next (rdh h)" ?t m] t m by (simp add: rx_waiting_def regs i_def)
  have sh': "rx_shape base pa ?dev" using sh i(1) len unfolding rx_shape_def
    by (auto simp: nth_list_update dest!: set_update_subset_insert [THEN subsetD])
  have slots: "rx_slots ?dev = (rx_slots dev)[i := []]"
  proof (rule nth_equalityI)
    show "length (rx_slots ?dev) = length ((rx_slots dev)[i := []])" using sh sh' by (simp add: rx_slots_length)
    fix j assume "j < length (rx_slots ?dev)"
    then have "j < 128" using sh' by (simp add: rx_slots_length)
    then show "rx_slots ?dev ! j = (rx_slots dev)[i := []] ! j"
      using rx_slots_nth [OF sh] rx_slots_nth [OF sh'] rx_slots_length [OF sh] base
      by (cases "j = i") (simp_all add: rx_frame_def)
  qed
  have mb: "m < 127" using rx_count_bound [of "rx_next (rdh h)" ?t] t m by (simp add: rx_waiting_def)
  have shift: "(i + 1 + k) mod 128 = (?t + 1 + Suc k) mod 128" for k
    using mod_add_left_eq [of "?t + 1" 128 "Suc k"] unfolding i_def by (simp only: add.assoc plus_1_eq_Suc)
  have "(i + 1 + k) mod 128 \<noteq> i" if "k < m" for k
  proof -
    have "(?t + 1 + Suc k) mod 128 \<noteq> (?t + 1 + 0) mod 128" using slot_index_inj [of "Suc k" 0 "?t + 1"] that mb by simp
    then show ?thesis unfolding shift by (simp add: i_def)
  qed
  then have p: "rx_pending rdh ?dev h' = fs"
    unfolding rx_pending_def w slots f(2) using ring_items_other [of m "i + 1" "rx_slots dev" i] rx_slots_length [OF sh] by simp
  have "rx_marks i m ?q" unfolding rx_marks_def Let_def
  proof (intro allI impI)
    fix k :: nat assume k: "k < 128"
    let ?j = "(i + 1 + k) mod 128"
    have j: "?j = (?t + 1 + Suc k) mod 128" by (rule shift)
    show "rx_is_done (?q ! ?j) = (k < m) \<and> (k < m \<longrightarrow> rx_is_good (?q ! ?j))"
    proof (cases "k = 127")
      case True
      then have "?j = i" unfolding j i_def using mod_add_self2 [of "?t + 1" 128] by simp
      then show ?thesis using True mb base(3) i(1) by (simp add: rx_is_done_def)
    next
      case False
      then have "?j \<noteq> i" using slot_index_inj [of "Suc k" 0 "?t + 1"] k unfolding j by (simp add: i_def)
      then have "?q ! ?j = ed_rx_queue dev ! ?j" by simp
      then show ?thesis using rx_marks_at [OF mk, of "Suc k"] False k m unfolding j by simp
    qed
  qed
  then have "rx_inv base pa rdh rdt ?dev h'" using sh' w regs rdh by (simp add: rx_inv_def)
  then show ?thesis using poll buf' p by (intro exI [of _ ?dev] exI [of _ buf'] exI [of _ h']) simp
qed

lemma rx_poll_empty:
  assumes "rx_inv base pa rdh rdt dev h" "rx_pending rdh dev h = []" "2048 \<le> bb_cap buf - bb_len buf"
  shows "e1000_rx_poll io dev buf h = Some (Inl EAGAIN, dev, buf, h)"
proof -
  let ?t = "nat (ed_rx_tail dev)"
  define i where "i = (?t + 1) mod 128"
  have sh: "rx_shape base pa dev" and mk: "rx_marks ?t (rx_waiting rdh dev h) (ed_rx_queue dev)"
    using assms(1) by (auto simp: rx_inv_def)
  note i = rx_next_tail [OF sh i_def]
  have "rx_waiting rdh dev h = 0" using assms(2) rx_pending_length [of rdh dev h] by simp
  then have "\<not> rx_is_done (ed_rx_queue dev ! i)" using rx_marks_at [OF mk, of 0] by (simp add: i_def)
  moreover have "peek (ed_rx_queue dev) (int i) = Some (ed_rx_queue dev ! i)"
    using sh i(1) by (auto simp: rx_shape_def)
  ultimately show ?thesis
    using assms(3) i(1) unfolding e1000_rx_poll_def
    by (simp add: Let_def E1000_RX_BUF_SIZE_def E1000_RX_DESC_STATUS_DD_def and_bit0 rx_is_done_def i(2))
qed

section \<open>Everything that is received is delivered, in order\<close>

lemma rx_base_addr_inj:
  assumes "0 < pa" "pa + 262144 \<le> 2 ^ 64" "i < 128" "j < 128"
  shows "(word_of_int (pa + int i * 2048) :: u64) = word_of_int (pa + int j * 2048) \<longleftrightarrow> i = j"
    and "(word_of_int (pa + int i * 2048) :: u64) \<noteq> 0"
proof -
  have u: "uint (word_of_int (pa + int k * 2048) :: u64) = pa + int k * 2048" if "k < 128" for k
    unfolding uint_word_of_int_eq using assms(1,2) that by (intro take_bit_int_eq_self) simp_all
  show "(word_of_int (pa + int i * 2048) :: u64) = word_of_int (pa + int j * 2048) \<longleftrightarrow> i = j"
  proof
    assume "(word_of_int (pa + int i * 2048) :: u64) = word_of_int (pa + int j * 2048)"
    then have "pa + int i * 2048 = pa + int j * 2048" using u [OF assms(3)] u [OF assms(4)] by metis
    then show "i = j" by simp
  qed simp
  show "(word_of_int (pa + int i * 2048) :: u64) \<noteq> 0"
  proof
    assume "(word_of_int (pa + int i * 2048) :: u64) = 0"
    then have "pa + int i * 2048 = 0" using u [OF assms(3)] by (metis uint_0_eq)
    then show False using assms(1) by simp
  qed
qed

lemma rx_poll_no_room:
  "bb_cap buf - bb_len buf < 2048 \<Longrightarrow> e1000_rx_poll io dev buf h = Some (Inl EINVAL, dev, buf, h)"
  by (simp add: e1000_rx_poll_def E1000_RX_BUF_SIZE_def)

lemma rx_step_keeps:
  assumes "rx_step io pa rdh rdt (dev, h, ins, outs) (dev', h', ins', outs')"
    and "rx_registers io base rdh rdt" "0 < pa" "pa + 262144 \<le> 2 ^ 64"
    and "rx_inv base pa rdh rdt dev h" "ins = outs @ rx_pending rdh dev h"
  shows "rx_inv base pa rdh rdt dev' h' \<and> ins' = outs' @ rx_pending rdh dev' h'"
  using assms(1)
proof cases
  case (Store j f)
  have sh: "rx_shape base pa dev" and hb: "rdh h < 256" using assms(5) by (auto simp: rx_inv_def)
  have lt: "rdh h < 128" using sh hb Store(6) unfolding rx_shape_def by (meson not_le)
  have b: "rx_base_addr (ed_rx_queue dev ! rdh h) = word_of_int (pa + int (rdh h) * 2048)"
    using sh lt by (simp add: rx_shape_def)
  have "j = rdh h" using rx_base_addr_inj(1) [OF assms(3,4) lt Store(7)] Store(5) b by metis
  then show ?thesis
    using put_frame_pending [OF assms(5) Store(4) lt Store(8-10)] assms(6) Store(1-3) by simp
next
  case Skip
  have sh: "rx_shape base pa dev" using assms(5) by (auto simp: rx_inv_def)
  have "128 \<le> rdh h"
  proof (rule ccontr)
    assume "\<not> 128 \<le> rdh h"
    then have lt: "rdh h < 128" by simp
    then have "rx_base_addr (ed_rx_queue dev ! rdh h) = word_of_int (pa + int (rdh h) * 2048)"
      using sh by (simp add: rx_shape_def)
    then show False using rx_base_addr_inj(2) [OF assms(3,4) lt lt] Skip(5) by simp
  qed
  then show ?thesis using mark_done_pending [OF assms(5) _ Skip(6,7)] assms(6) Skip(1-3) by simp
next
  case (Poll buf res buf')
  show ?thesis
  proof (cases "2048 \<le> bb_cap buf - bb_len buf")
    case False
    then show ?thesis using rx_poll_no_room [of buf io dev h] Poll assms(5,6) by simp
  next
    case room: True
    show ?thesis
    proof (cases "rx_pending rdh dev h")
      case Nil
      then show ?thesis using rx_poll_empty [OF assms(5) Nil room, of io] Poll assms(5,6) by simp
    next
      case (Cons f fs)
      obtain dev2 buf2 h2 where p: "e1000_rx_poll io dev buf h = Some (ok, dev2, buf2, h2)"
        "byte_view_from_buf buf2 = byte_view_from_buf buf @ f" "rx_inv base pa rdh rdt dev2 h2" "rx_pending rdh dev2 h2 = fs"
        using rx_poll_item [OF assms(5,2) Cons Poll(3) room] by blast
      moreover have "byte_view_from_buf buf = []" using Poll(4) by (simp add: byte_view_from_buf_def)
      ultimately show ?thesis using Poll(1,2,5) assms(6) Cons by simp
    qed
  qed
qed

lemma rx_steps_keep:
  assumes "(rx_step io pa rdh rdt)\<^sup>*\<^sup>* st st'"
    and "rx_registers io base rdh rdt" "0 < pa" "pa + 262144 \<le> 2 ^ 64"
    and "case st of (dev, h, ins, outs) \<Rightarrow> rx_inv base pa rdh rdt dev h \<and> ins = outs @ rx_pending rdh dev h"
  shows "case st' of (dev, h, ins, outs) \<Rightarrow> rx_inv base pa rdh rdt dev h \<and> ins = outs @ rx_pending rdh dev h"
  using assms(1)
proof (induction rule: rtranclp_induct)
  case base
  then show ?case using assms(5) .
next
  case (step y z)
  obtain dev h ins outs where y: "y = (dev, h, ins, outs)" by (metis prod_cases4)
  obtain dev2 h2 ins2 outs2 where z: "z = (dev2, h2, ins2, outs2)" by (metis prod_cases4)
  show ?case using rx_step_keeps [OF _ assms(2-4)] step(2,3) unfolding y z prod.case by blast
qed

text \<open>
  C26: Whatever the order in which the device stores frames and the driver fetches them, starting with an empty ring,
  the frames that were stored are, in their order, those that were fetched followed by those that wait in the ring; and
  polling with enough room never fails an assertion: it gives the oldest frame that waits, or EAGAIN when there is none.
\<close>

theorem e1000_receives_in_order:
  assumes "rx_registers io base rdh rdt" "0 < pa" "pa + 262144 \<le> 2 ^ 64"
    and "rx_inv base pa rdh rdt dev h" "rx_pending rdh dev h = []"
    and "(rx_step io pa rdh rdt)\<^sup>*\<^sup>* (dev, h, [], []) (dev', h', ins, outs)"
    and "wf_buf buf" "bb_len buf = 0" "2048 \<le> bb_cap buf"
  shows "ins = outs @ rx_pending rdh dev' h' \<and>
    (\<exists>dev2 buf2 h2. e1000_rx_poll io dev' buf h' =
        Some (if rx_pending rdh dev' h' = [] then Inl EAGAIN else ok, dev2, buf2, h2) \<and>
      (\<forall>f fs. rx_pending rdh dev' h' = f # fs \<longrightarrow> byte_view_from_buf buf2 = f \<and> rx_pending rdh dev2 h2 = fs))"
proof -
  have k: "rx_inv base pa rdh rdt dev' h'" "ins = outs @ rx_pending rdh dev' h'"
    using rx_steps_keep [OF assms(6,1-3)] assms(4,5) by auto
  have room: "2048 \<le> bb_cap buf - bb_len buf" and e: "byte_view_from_buf buf = []"
    using assms(8,9) by (simp_all add: byte_view_from_buf_def)
  show ?thesis
  proof (cases "rx_pending rdh dev' h'")
    case Nil
    then show ?thesis using k rx_poll_empty [OF k(1) Nil room, of io] by simp
  next
    case (Cons f fs)
    from rx_poll_item [OF k(1) assms(1) Cons assms(7) room] obtain dev2 buf2 h2 where
      "e1000_rx_poll io dev' buf h' = Some (ok, dev2, buf2, h2)" "byte_view_from_buf buf2 = byte_view_from_buf buf @ f"
      "rx_pending rdh dev2 h2 = fs" by blast
    then show ?thesis using k(2) Cons e by auto
  qed
qed

section \<open>The ring after its initialisation\<close>

text \<open>The registers that the initialisation writes, and the length register.\<close>

definition ring_registers :: "'h mmio \<Rightarrow> u64 \<Rightarrow> ('h \<Rightarrow> nat) \<Rightarrow> ('h \<Rightarrow> nat) \<Rightarrow> ('h \<Rightarrow> nat) \<Rightarrow> bool" where
  "ring_registers io base rdh rdt rdlen \<longleftrightarrow>
     (\<forall>v h. let h' = mmio_write32 io (base + E1000_OFFSET_RDLEN) v h in
        rdlen h' = unat v \<and> rdh h' = rdh h \<and> rdt h' = rdt h) \<and>
     (\<forall>v h. let h' = mmio_write64 io (base + E1000_OFFSET_RDH) v h in
        rdh h' = unat v \<and> rdt h' = rdt h \<and> rdlen h' = rdlen h) \<and>
     (\<forall>v h. let h' = mmio_write64 io (base + E1000_OFFSET_RDT) v h in
        rdt h' = unat v \<and> rdh h' = rdh h \<and> rdlen h' = rdlen h) \<and>
     (\<forall>r \<in> {E1000_OFFSET_RDBAL, E1000_OFFSET_RDBAH, E1000_OFFSET_RAL0, E1000_OFFSET_RAH0, E1000_OFFSET_RCTL}.
        \<forall>v h. let h' = mmio_write32 io (base + r) v h in rdh h' = rdh h \<and> rdt h' = rdt h \<and> rdlen h' = rdlen h) \<and>
     (\<forall>h. let h' = snd (mmio_read32 io (base + E1000_OFFSET_RCTL) h) in rdh h' = rdh h \<and> rdt h' = rdt h \<and> rdlen h' = rdlen h)"

lemma init_rx_descs_nth:
  assumes "init_rx_descs pa is q = Some q'"
  shows "length q' = length q \<and> (\<forall>i < length q. q' ! i =
    (if i \<in> set is then (q ! i)\<lparr>rx_base_addr := word_of_int (pa + int i * 2048)\<rparr> else q ! i))"
  using assms
proof (induction "is" arbitrary: q)
  case (Cons i js)
  obtain q1 where q1: "i < length q" "q1 = q[i := (q ! i)\<lparr>rx_base_addr := word_of_int (pa + int i * 2048)\<rparr>]"
    "init_rx_descs pa js q1 = Some q'"
    using Cons.prems by (auto simp: bind_eq_Some_conv peek_def poke_def E1000_RX_BUF_SIZE_def split: if_splits)
  then show ?case using Cons.IH [OF q1(3)] by (auto simp: nth_list_update)
qed simp

lemma e1000_init_rx_result:
  assumes "e1000_init_rx io ms dev kv h = Some (ok, dev', kv', h')"
  shows "\<exists>pq pa q. init_rx_descs pa [0 ..< 128] (replicate 256 zero_rx_desc) = Some q \<and>
    dev' = dev\<lparr>ed_rx_queue := q, ed_rx_queue_n_desc := 128, ed_rx_buffers := replicate 128 (replicate 2048 0), ed_rx_tail := 0\<rparr> \<and>
    h' = (let base = ed_mmio_base dev;
       h = mmio_write32 io (base + E1000_OFFSET_RDBAL) (word_of_int pq) h;
       h = mmio_write32 io (base + E1000_OFFSET_RDBAH) (word_of_int (drop_bit 32 pq)) h;
       h = mmio_write32 io (base + E1000_OFFSET_RDLEN) 4096 h;
       h = mmio_write64 io (base + E1000_OFFSET_RDH) 1 h;
       h = mmio_write64 io (base + E1000_OFFSET_RDT) 0 h;
       h = mmio_write32 io (base + E1000_OFFSET_RAL0) (mac_ral (ed_mac_addr dev)) h;
       h = mmio_write32 io (base + E1000_OFFSET_RAH0) (mac_rah (ed_mac_addr dev)) h;
       r = mmio_read32 io (base + E1000_OFFSET_RCTL) h in
      mmio_write32 io (base + E1000_OFFSET_RCTL)
        (fst r OR (E1000_RCTL_EN OR E1000_RCTL_UPE OR E1000_RCTL_MPE OR E1000_RCTL_BAM)) (snd r))"
proof -
  have len: "n = 4096" if "kvalloc_alloc (128 * E1000_RX_DESC_SIZE) E1000_RX_DESC_SIZE kv = Some (Some (a, n), kv1)" for a n kv1
    using kvalloc_alloc_len [OF that] by (simp add: E1000_RX_DESC_SIZE_def PAGE_SIZE_def ALIGN_UP_def)
  note e = assms [unfolded e1000_init_rx_def Let_def]
  obtain mo kv1 where 1: "kvalloc_alloc (128 * E1000_RX_DESC_SIZE) E1000_RX_DESC_SIZE kv = Some (mo, kv1)"
    using e by (auto simp: bind_eq_Some_conv)
  obtain a n where an: "mo = Some (a, n)" using e 1 by (cases mo) auto
  have n: "n = 4096" using len 1 an by simp
  obtain bo kv2 where 2: "kvalloc_alloc (128 * E1000_RX_BUF_SIZE) 64 kv1 = Some (bo, kv2)"
    using e 1 an by (auto simp: bind_eq_Some_conv)
  obtain b m where bm: "bo = Some (b, m)" using e 1 an 2 by (cases bo) (auto simp: bind_eq_Some_conv)
  obtain rq rb where r: "virt_to_phys a ms = Some rq" "virt_to_phys b ms = Some rb"
    using e 1 an 2 bm by (auto simp: bind_eq_Some_conv)
  obtain pq pa where p: "rq = Inr pq" "rb = Inr pa"
    using e 1 an 2 bm r by (cases rq; cases rb) (auto simp: bind_eq_Some_conv)
  have d: "nat (4096 div E1000_RX_DESC_SIZE) = 256" "nat E1000_RX_BUF_SIZE = 2048" "nat 128 = 128"
    by (simp_all add: E1000_RX_DESC_SIZE_def E1000_RX_BUF_SIZE_def)
  note e2 = e [unfolded 1 2 an bm bind.bind_lunit prod.case option.case r p sum.case fst_conv snd_conv n d]
  obtain q where q: "init_rx_descs pa [0 ..< 128] (replicate 256 zero_rx_desc) = Some q"
    using e2 by (cases "init_rx_descs pa [0 ..< 128] (replicate 256 zero_rx_desc)") auto
  note e3 = e2 [unfolded q bind.bind_lunit]
  show ?thesis
    using e3 q unfolding Let_def
    by (intro exI [of _ pq] exI [of _ pa] exI [of _ q] conjI)
      (simp_all add: kassert_bind case_prod_beta split: if_splits)
qed

text \<open>
  After its initialisation the receive ring is a ring as the theorems on the driver need it, with no frame in it
  and 127 descriptors for the device. The length register, however, gets the size of the memory that the
  allocator gave, 4096 bytes for 256 descriptors, and not that of the 128 descriptors that the driver uses.
\<close>

lemma e1000_init_rx_ring:
  assumes "ring_registers io base rdh rdt rdlen" "ed_mmio_base dev = base"
    and "e1000_init_rx io ms dev kv h = Some (ok, dev', kv', h')"
  shows "\<exists>pa. rx_inv base pa rdh rdt dev' h' \<and> rx_pending rdh dev' h' = [] \<and> rdlen h' = 2 * nat (ed_rx_queue_n_desc dev' * E1000_RX_DESC_SIZE)"
proof -
  obtain pq pa q where q: "init_rx_descs pa [0 ..< 128] (replicate 256 zero_rx_desc) = Some q"
    and dev': "dev' = dev\<lparr>ed_rx_queue := q, ed_rx_queue_n_desc := 128, ed_rx_buffers := replicate 128 (replicate 2048 0), ed_rx_tail := 0\<rparr>"
    and h': "h' = (let base = ed_mmio_base dev;
       h = mmio_write32 io (base + E1000_OFFSET_RDBAL) (word_of_int pq) h;
       h = mmio_write32 io (base + E1000_OFFSET_RDBAH) (word_of_int (drop_bit 32 pq)) h;
       h = mmio_write32 io (base + E1000_OFFSET_RDLEN) 4096 h;
       h = mmio_write64 io (base + E1000_OFFSET_RDH) 1 h;
       h = mmio_write64 io (base + E1000_OFFSET_RDT) 0 h;
       h = mmio_write32 io (base + E1000_OFFSET_RAL0) (mac_ral (ed_mac_addr dev)) h;
       h = mmio_write32 io (base + E1000_OFFSET_RAH0) (mac_rah (ed_mac_addr dev)) h;
       r = mmio_read32 io (base + E1000_OFFSET_RCTL) h in
      mmio_write32 io (base + E1000_OFFSET_RCTL)
        (fst r OR (E1000_RCTL_EN OR E1000_RCTL_UPE OR E1000_RCTL_MPE OR E1000_RCTL_BAM)) (snd r))"
    using e1000_init_rx_result [OF assms(3)] by blast
  have regs: "rdh h' = 1" "rdt h' = 0" "rdlen h' = 4096"
    using assms(1) unfolding h' assms(2) Let_def ring_registers_def by simp_all
  have nth: "length q = 256" "\<forall>i < 256. q ! i = (if i < 128 then zero_rx_desc\<lparr>rx_base_addr := word_of_int (pa + int i * 2048)\<rparr>
      else zero_rx_desc)" using init_rx_descs_nth [OF q] by (simp_all del: upt_rec_numeral)
  have "rx_shape base pa dev'" using nth assms(2) unfolding dev' rx_shape_def by (simp add: zero_rx_desc_def)
  moreover have w: "rx_waiting rdh dev' h' = 0" by (simp add: rx_waiting_def regs dev' rx_next_def rx_count_def)
  moreover have "rx_marks 0 0 q" using nth by (simp add: rx_marks_def rx_is_done_def zero_rx_desc_def)
  ultimately have "rx_inv base pa rdh rdt dev' h'" using regs by (simp add: rx_inv_def dev')
  moreover have "rx_pending rdh dev' h' = []" using w by (simp add: rx_pending_def)
  moreover have "rdlen h' = 2 * nat (ed_rx_queue_n_desc dev' * E1000_RX_DESC_SIZE)"
    using regs(3) by (simp add: dev' E1000_RX_DESC_SIZE_def)
  ultimately show ?thesis by blast
qed

section \<open>From the wire to the input queue\<close>

fun receive_frames :: "'d netdev \<Rightarrow> byte list list \<Rightarrow> ('d, 'z) net_scheme \<Rightarrow> ('d, 'z) net_scheme option" where
  "receive_frames netdev [] s = Some s"
| "receive_frames netdev (f # fs) s = do { s \<leftarrow> netdev_intr_receive netdev f s; receive_frames netdev fs s }"

lemma intr_receive_drv:
  fixes s :: "('d, 'z) net_scheme"
  shows "netdev_intr_receive netdev f (s\<lparr>net_drv := d\<rparr>) = map_option (\<lambda>s. s\<lparr>net_drv := d\<rparr>) (netdev_intr_receive netdev f s)"
proof -
  have add: "netdev_intr_input_queue_add src dev proto p (s\<lparr>net_drv := d\<rparr>) =
      map_option (\<lambda>(r, s). (r, s\<lparr>net_drv := d\<rparr>)) (netdev_intr_input_queue_add src dev proto p s)" for src dev proto p
    by (auto simp: netdev_intr_input_queue_add_def Let_def split: prod.splits bind_splits)
  have snd: "map_option (\<lambda>(r, s). (r, s\<lparr>net_drv := d\<rparr>)) x \<bind> (\<lambda>(_, s). Some s) =
      map_option (\<lambda>s. s\<lparr>net_drv := d\<rparr>) (x \<bind> (\<lambda>(_, s). Some s))" for x :: "(unit res \<times> ('d, 'z) net_scheme) option"
    by (cases x) auto
  show ?thesis
    by (simp add: netdev_intr_receive_def netdev_intr_receive_ethernet_def add snd Let_def kassert_bind split: option.splits)
qed

lemma receive_frames_drv:
  "receive_frames netdev fs (s\<lparr>net_drv := d\<rparr>) = map_option (\<lambda>s. s\<lparr>net_drv := d\<rparr>) (receive_frames netdev fs s)"
  by (induction fs arbitrary: s) (auto simp: intr_receive_drv split: bind_splits)

lemma rx_inv_fields [simp]:
  "rx_inv base pa rdh rdt (dev\<lparr>ed_tmp_recv_buf := x\<rparr>) h = rx_inv base pa rdh rdt dev h"
  "rx_pending rdh (dev\<lparr>ed_tmp_recv_buf := x\<rparr>) h = rx_pending rdh dev h"
  "rx_inv base pa rdh rdt (dev\<lparr>ed_stats := st\<rparr>) h = rx_inv base pa rdh rdt dev h"
  "rx_pending rdh (dev\<lparr>ed_stats := st\<rparr>) h = rx_pending rdh dev h"
  by (simp_all add: rx_inv_def rx_pending_def rx_waiting_def rx_shape_def rx_slots_def)

lemma receive_loop_delivers:
  fixes s :: "('h e1000_drv, 'z) net_scheme"
  assumes "rx_registers io base rdh rdt" "rx_inv base pa rdh rdt dev h" "rx_pending rdh dev h = fs"
    and "2048 \<le> length (ed_tmp_recv_buf dev)" "net_drv s = \<lparr>dr_dev = dev, dr_hw = h\<rparr>" "receive_frames netdev fs s = Some s2"
  shows "\<exists>dev' h'. e1000_receive_loop io netdev s = Some (s2\<lparr>net_drv := \<lparr>dr_dev = dev', dr_hw = h'\<rparr>\<rparr>) \<and>
    rx_inv base pa rdh rdt dev' h' \<and> rx_pending rdh dev' h' = []"
  using assms(2-)
proof (induction fs arbitrary: dev h s s2)
  case Nil
  let ?buf = "byte_buf_from_array (ed_tmp_recv_buf dev)"
  have room: "2048 \<le> bb_cap ?buf - bb_len ?buf" using Nil(3) by (simp add: byte_buf_from_array_def byte_buf_new_def)
  show ?case using rx_poll_empty [OF Nil(1,2) room, of io] Nil
    by (subst e1000_receive_loop.simps) (auto simp: Let_def intro!: exI)
next
  case (Cons f fs)
  let ?buf = "byte_buf_from_array (ed_tmp_recv_buf dev)"
  have room: "wf_buf ?buf" "2048 \<le> bb_cap ?buf - bb_len ?buf" and e: "byte_view_from_buf ?buf = []"
    using Cons.prems(3) by (simp_all add: byte_buf_from_array_def byte_buf_new_def byte_view_from_buf_def wf_buf_def)
  obtain dev1 buf h1 where p: "e1000_rx_poll io dev ?buf h = Some (ok, dev1, buf, h1)"
    "length (bb_dat buf) = length (bb_dat ?buf)" "byte_view_from_buf buf = f"
    "rx_inv base pa rdh rdt dev1 h1" "rx_pending rdh dev1 h1 = fs"
    using rx_poll_item [OF Cons.prems(1) assms(1) Cons.prems(2) room] e by auto
  obtain s1 where s1: "netdev_intr_receive netdev f s = Some s1" "receive_frames netdev fs s1 = Some s2"
    using Cons.prems(5) by (auto simp: bind_eq_Some_conv)
  let ?dev = "dev1\<lparr>ed_tmp_recv_buf := bb_dat buf\<rparr>"
  let ?d = "\<lparr>dr_dev = ?dev, dr_hw = h1\<rparr>"
  have len: "2048 \<le> length (ed_tmp_recv_buf ?dev)"
    using p(2) Cons.prems(3) by (simp add: byte_buf_from_array_def byte_buf_new_def)
  have rs: "receive_frames netdev fs (s1\<lparr>net_drv := ?d\<rparr>) = Some (s2\<lparr>net_drv := ?d\<rparr>)" using s1(2) by (simp add: receive_frames_drv)
  obtain dev' h' where IH: "e1000_receive_loop io netdev (s1\<lparr>net_drv := ?d\<rparr>) =
      Some (s2\<lparr>net_drv := ?d\<rparr>\<lparr>net_drv := \<lparr>dr_dev = dev', dr_hw = h'\<rparr>\<rparr>)" "rx_inv base pa rdh rdt dev' h'" "rx_pending rdh dev' h' = []"
    using Cons.IH [OF _ _ len _ rs, of h1] p(4,5) by auto
  have "netdev_intr_receive netdev f (s\<lparr>net_drv := ?d\<rparr>) = Some (s1\<lparr>net_drv := ?d\<rparr>)"
    using s1(1) by (simp add: intr_receive_drv)
  then have "e1000_receive_loop io netdev s = e1000_receive_loop io netdev (s1\<lparr>net_drv := ?d\<rparr>)"
    using p(1,3) Cons.prems(4) by (subst e1000_receive_loop.simps) (simp add: Let_def)
  then show ?case using IH by (intro exI [of _ dev'] exI [of _ h']) simp
qed

lemma receive_frames_queued:
  assumes "wf_queue s" "nd_link_type netdev = NETDEV_LINK_TYPE_ETHERNET" "length (queue_items s) + length ps \<le> 63"
  shows "\<exists>s2. receive_frames netdev (map (\<lambda>(sender, payload). frame_to (nd_mac_addr netdev) sender 0x0800 payload) ps) s = Some s2 \<and>
    wf_queue s2 \<and> queue_items s2 = queue_items s @
      map (\<lambda>(sender, payload). (nd_mac_addr sender, netdev, NETDEV_PROTO_IPV4, take 4096 payload)) ps"
  using assms(1,3)
proof (induction ps arbitrary: s)
  case (Cons p ps)
  obtain sender payload where p: "p = (sender, payload)" by fastforce
  have t: "ethernet_type_from_netdev_proto NETDEV_PROTO_IPV4 = Some 0x0800"
    by (simp add: ethernet_type_from_netdev_proto_def ETHERNET_PTYPE_IPV4_def)
  obtain s1 where s1: "netdev_intr_receive netdev (frame_to (nd_mac_addr netdev) sender 0x0800 payload) s = Some s1" "wf_queue s1"
    "queue_items s1 = queue_items s @ [(nd_mac_addr sender, netdev, NETDEV_PROTO_IPV4, take 4096 payload)]"
    using link_layer_delivers [OF t Cons.prems(1) assms(2), of "nd_mac_addr netdev" sender payload] Cons.prems(2)
    by (auto split: if_splits)
  have "length (queue_items s1) + length ps \<le> 63" using s1(3) Cons.prems(2) by simp
  from Cons.IH [OF s1(2) this] show ?case using s1 p by auto
qed simp

lemma interrupt_fetches:
  fixes s :: "('h e1000_drv, 'z) net_scheme"
  assumes "rx_registers io base rdh rdt" "rx_inv base pa rdh rdt (dr_dev (net_drv s)) (dr_hw (net_drv s))"
    and "2048 \<le> length (ed_tmp_recv_buf (dr_dev (net_drv s)))"
    and "mmio_read32 io (base + E1000_OFFSET_ICR) (dr_hw (net_drv s)) = (cause, h)"
    and "rdh h = rdh (dr_hw (net_drv s))" "rdt h = rdt (dr_hw (net_drv s))"
    and "cause AND E1000_INTERRUPT_RXO = 0" "cause AND E1000_INTERRUPT_RXT0 \<noteq> 0"
    and "receive_frames netdev (rx_pending rdh (dr_dev (net_drv s)) (dr_hw (net_drv s))) s = Some s2"
  shows "\<exists>dev' h'. e1000_handle_interrupt io netdev s = Some (s2\<lparr>net_drv := \<lparr>dr_dev = dev', dr_hw = h'\<rparr>\<rparr>) \<and>
    rx_inv base pa rdh rdt dev' h' \<and> rx_pending rdh dev' h' = []"
proof -
  let ?dev = "dr_dev (net_drv s)"
  have b: "ed_mmio_base ?dev = base" using assms(2) by (simp add: rx_inv_def rx_shape_def)
  obtain st where st: "e1000_handle_interrupt io netdev s =
      e1000_receive_loop io netdev (s\<lparr>net_drv := \<lparr>dr_dev = ?dev\<lparr>ed_stats := st\<rparr>, dr_hw = h\<rparr>\<rparr>)"
    using assms(4,7,8) b by (auto simp: e1000_handle_interrupt_def Let_def)
  let ?d = "\<lparr>dr_dev = ?dev\<lparr>ed_stats := st\<rparr>, dr_hw = h\<rparr>"
  have rs: "receive_frames netdev (rx_pending rdh ?dev (dr_hw (net_drv s))) (s\<lparr>net_drv := ?d\<rparr>) = Some (s2\<lparr>net_drv := ?d\<rparr>)"
    using assms(9) by (simp add: receive_frames_drv)
  have "rx_inv base pa rdh rdt (?dev\<lparr>ed_stats := st\<rparr>) h" "rx_pending rdh (?dev\<lparr>ed_stats := st\<rparr>) h = rx_pending rdh ?dev (dr_hw (net_drv s))"
    using assms(2) assms(5,6) by (simp_all add: rx_inv_def rx_pending_def rx_waiting_def rx_shape_def rx_slots_def)
  from receive_loop_delivers [OF assms(1) this _ _ rs] show ?thesis unfolding st using assms(3) by auto
qed

text \<open>
  C27: When the controller raises its interrupt with IPv4 frames for the host in the ring, and the input queue has room for
  them, then all of them are in the input queue in their order, with their senders and payloads, the ring is
  empty, the interrupt is acknowledged, and the interrupted code goes on with its registers unchanged.
\<close>

theorem e1000_interrupt_delivers:
  fixes s :: "('h e1000_drv, 'z) kernel_scheme"
  assumes "rx_registers io base rdh rdt" "rx_inv base pa rdh rdt (dr_dev (net_drv s)) (dr_hw (net_drv s))"
    and "2048 \<le> length (ed_tmp_recv_buf (dr_dev (net_drv s)))"
    and "mmio_read32 io (base + E1000_OFFSET_ICR) (dr_hw (net_drv s)) = (cause, h)"
    and "rdh h = rdh (dr_hw (net_drv s))" "rdt h = rdt (dr_hw (net_drv s))"
    and "cause AND E1000_INTERRUPT_RXO = 0" "cause AND E1000_INTERRUPT_RXT0 \<noteq> 0"
    and "rx_pending rdh (dr_dev (net_drv s)) (dr_hw (net_drv s)) =
      map (\<lambda>(sender, payload). frame_to (nd_mac_addr netdev) sender 0x0800 payload) ps"
    and "wf_queue s" "nd_link_type netdev = NETDEV_LINK_TYPE_ETHERNET" "length (queue_items s) + length ps \<le> 63"
    and "length (k_handlers s) = 48"
    and "k_handlers s ! 43 = \<lparr>ih_is_used = True, ih_handler = E1000_handle_interrupt, ih_private_data = Some netdev\<rparr>"
  shows "\<exists>s'. cpu_interrupt pio (run_handler io) (k_handlers s) 43 err x stack s = Some (x, pic_send_eoi pio 43 s') \<and>
    wf_queue s' \<and> queue_items s' = queue_items s @
      map (\<lambda>(sender, payload). (nd_mac_addr sender, netdev, NETDEV_PROTO_IPV4, take 4096 payload)) ps \<and>
    rx_pending rdh (dr_dev (net_drv s')) (dr_hw (net_drv s')) = []"
proof -
  obtain s2 where s2: "receive_frames netdev (rx_pending rdh (dr_dev (net_drv s)) (dr_hw (net_drv s))) s = Some s2" "wf_queue s2"
    "queue_items s2 = queue_items s @ map (\<lambda>(sender, payload). (nd_mac_addr sender, netdev, NETDEV_PROTO_IPV4, take 4096 payload)) ps"
    using receive_frames_queued [OF assms(10-12)] unfolding assms(9) by blast
  obtain dev' h' where r: "e1000_handle_interrupt io netdev s = Some (s2\<lparr>net_drv := \<lparr>dr_dev = dev', dr_hw = h'\<rparr>\<rparr>)"
    "rx_pending rdh dev' h' = []" using interrupt_fetches [OF assms(1-8) s2(1)] by blast
  let ?s' = "s2\<lparr>net_drv := \<lparr>dr_dev = dev', dr_hw = h'\<rparr>\<rparr>"
  have "43 \<in> isr_stub_vectors" by (simp add: isr_stub_vectors_def)
  from interrupt_dispatch [OF this assms(13), of "run_handler io" err x s pio stack]
  have "cpu_interrupt pio (run_handler io) (k_handlers s) 43 err x stack s = Some (x, pic_send_eoi pio 43 ?s')"
    using r(1) by (simp add: assms(14))
  moreover have "wf_queue ?s'" "queue_items ?s' = queue_items s2"
    using s2(2) by (simp_all add: wf_queue_def queue_items_def queue_used_def)
  ultimately show ?thesis using s2(3) r(2) by (intro exI [of _ ?s']) simp
qed

section \<open>A sample\<close>

text \<open>A hardware with the head and the tail of the ring as its only state, whose interrupts are always a received frame.\<close>

definition sample_mmio :: "(nat \<times> nat) mmio" where
  "sample_mmio = \<lparr>mmio_read32 = (\<lambda>a h. (E1000_INTERRUPT_RXT0, h)),
     mmio_write32 = (\<lambda>a v h. if a = E1000_OFFSET_RDT then (fst h, unat v) else h), mmio_write64 = (\<lambda>a v h. h)\<rparr>"

definition sample_ring :: e1000_device where
  "sample_ring = \<lparr>ed_tmp_recv_buf = replicate 4096 0, ed_mmio_base = 0, ed_mmio_len = 0x20000, ed_eeprom_normal_access = True,
     ed_mac_addr = Mac 2 0 0 0 0 1, ed_stats = zero_stats, ed_tx_queue = [], ed_tx_queue_n_desc = 0, ed_tx_tail = 0, ed_tx_buffers = [],
     ed_rx_queue = map (\<lambda>i. zero_rx_desc\<lparr>rx_base_addr := word_of_int (65536 + int i * 2048)\<rparr>) [0 ..< 128] @ replicate 128 zero_rx_desc,
     ed_rx_queue_n_desc = 128, ed_rx_tail = 0, ed_rx_buffers = replicate 128 (replicate 2048 0)\<rparr>"

lemma sample_registers: "rx_registers sample_mmio 0 fst snd"
  by (simp add: rx_registers_def sample_mmio_def)

lemma sample_ring_inv: "rx_inv 0 65536 fst snd sample_ring (1, 0)" "rx_pending fst sample_ring (1, 0 :: nat) = []"
proof -
  let ?q = "ed_rx_queue sample_ring"
  have q: "?q ! i = (if i < 128 then zero_rx_desc\<lparr>rx_base_addr := word_of_int (65536 + int i * 2048)\<rparr> else zero_rx_desc)" if "i < 256" for i
    using that by (simp add: sample_ring_def nth_append del: upt_rec_numeral)
  have l: "length ?q = 256" by (simp add: sample_ring_def del: upt_rec_numeral)
  have "rx_shape 0 65536 sample_ring"
    using q l by (simp add: rx_shape_def sample_ring_def zero_rx_desc_def del: upt_rec_numeral)
  moreover have tail: "ed_rx_tail sample_ring = 0" by (simp add: sample_ring_def)
  moreover have w: "rx_waiting fst sample_ring (1, 0 :: nat) = 0"
    by (simp add: rx_waiting_def rx_next_def rx_count_def sample_ring_def)
  moreover have "rx_marks 0 0 ?q" using q by (simp add: rx_marks_def rx_is_done_def zero_rx_desc_def)
  ultimately show "rx_inv 0 65536 fst snd sample_ring (1, 0)" by (simp add: rx_inv_def tail)
  show "rx_pending fst sample_ring (1, 0 :: nat) = []" using w by (simp add: rx_pending_def)
qed

lemma sample_ring_frame:
  assumes "length f \<le> 2048"
  shows "rx_inv 0 65536 fst snd (put_frame 1 1 f sample_ring) (2, 0) \<and> rx_pending fst (put_frame 1 1 f sample_ring) (2, 0 :: nat) = [f]"
  using put_frame_pending [OF sample_ring_inv(1), of f "(2, 0)"] assms unfolding sample_ring_inv(2) by simp

theorem e1000_receives_in_order_witness:
  "\<exists>dev buf h. e1000_rx_poll sample_mmio (put_frame 1 1 [1, 2, 3] sample_ring) (byte_buf_from_array (replicate 2048 0)) (2, 0) =
      Some (ok, dev, buf, h) \<and> byte_view_from_buf buf = [1, 2, 3] \<and> rx_pending fst dev h = []"
proof -
  let ?buf = "byte_buf_from_array (replicate 2048 0)"
  have d: "rx_base_addr (ed_rx_queue sample_ring ! 1) = word_of_int (65536 + int 1 * 2048)"
    using sample_ring_inv(1) by (simp add: rx_inv_def rx_shape_def)
  have "rx_step sample_mmio 65536 fst snd (sample_ring, (1, 0), [], []) (put_frame 1 1 [1, 2, 3] sample_ring, (2, 0), [[1, 2, 3]], [])"
    using rx_step.Store [of fst "(1, 0)" snd sample_ring 65536 1 "[1, 2, 3]" "(2, 0)" sample_mmio "[]" "[]"] d by simp
  then have "(rx_step sample_mmio 65536 fst snd)\<^sup>*\<^sup>* (sample_ring, (1, 0), [], []) (put_frame 1 1 [1, 2, 3] sample_ring, (2, 0), [[1, 2, 3]], [])"
    by (rule r_into_rtranclp)
  note t = e1000_receives_in_order [OF sample_registers _ _ sample_ring_inv this, of ?buf]
  have p: "rx_pending fst (put_frame 1 1 [1, 2, 3] sample_ring) (2, 0 :: nat) = [[1, 2, 3]]"
    using sample_ring_frame [of "[1, 2, 3]"] by simp
  have b: "wf_buf ?buf" "bb_len ?buf = 0" "2048 \<le> bb_cap ?buf"
    by (simp_all add: byte_buf_from_array_def byte_buf_new_def wf_buf_def)
  show ?thesis using t [unfolded p, OF _ _ b] by auto
qed

definition sample_ports :: "'s port_io" where
  "sample_ports = \<lparr>inb = \<lambda>_ s. (0, s), inl = \<lambda>_ s. (0, s), outb = \<lambda>_ _ s. s, outw = \<lambda>_ _ s. s, outl = \<lambda>_ _ s. s\<rparr>"

definition sample_nic :: "(nat \<times> nat) e1000_drv netdev" where
  "sample_nic = \<lparr>nd_mac_addr = Mac 2 0 0 0 0 1, nd_ip_addr = Ipv4 10 0 0 2, nd_link_type = NETDEV_LINK_TYPE_ETHERNET,
     nd_send_frame = e1000_netdev_send_frame sample_mmio (Mac 2 0 0 0 0 1), nd_mtu = E1000_TX_BUF_SIZE\<rparr>"

definition sample_frame :: "byte list" where
  "sample_frame = frame_to (nd_mac_addr sample_nic) (sample_nic\<lparr>nd_mac_addr := Mac 2 0 0 0 0 7\<rparr>) 0x0800 [1, 2, 3]"

definition sample_kernel :: "paging \<Rightarrow> (nat \<times> nat) e1000_drv kernel" where
  "sample_kernel pg = \<lparr>net_default_ip_addr = Ipv4 10 0 0 2, net_table = [Some sample_nic],
     net_queue = replicate NETDEV_INPUT_QUEUE_SIZE \<lparr>ip_src = Mac 0 0 0 0 0 0, ip_netdev = None, ip_proto = 0,
       ip_n_failed_to_handle = 0, ip_data = byte_buf_from_array (replicate 4096 0)\<rparr>,
     net_queue_head = 0, net_queue_tail = 0, net_queue_is_initialized = True,
     net_drv = \<lparr>dr_dev = put_frame 1 1 sample_frame sample_ring, dr_hw = (2, 0)\<rparr>,
     arp_table = [], route_table = [], tcp_conn_table = [], tcp_links = \<lambda>_. None,
     tcp_kv = \<lparr>kv_virt_alloc = None, kv_initialized = True\<rparr>,
     tcp_clock = \<lparr>hw_tsc = \<lambda>n. 0, hw_tsc_reads = 0, hw_pit = \<lambda>_. 0, hw_pit_reads = 0, hw_pit_writes = [],
        ck_tsc_base = 0, ck_tsc_freq_hz = 1000000000, ck_initialized = True\<rparr>,
     tcp_rdrand = \<lambda>n. None, tcp_rdrand_reads = 0, k_paging = pg,
     k_handlers = (replicate 48 \<lparr>ih_is_used = False, ih_handler = Handle_timer_interrupt, ih_private_data = None\<rparr>)
         [43 := \<lparr>ih_is_used = True, ih_handler = E1000_handle_interrupt, ih_private_data = Some sample_nic\<rparr>]\<rparr>"

theorem e1000_interrupt_delivers_witness:
  "\<forall>pg x stack. \<exists>s'. cpu_interrupt sample_ports (run_handler sample_mmio) (k_handlers (sample_kernel pg)) 43 0 x stack (sample_kernel pg) =
       Some (x, s') \<and>
     queue_items s' = [(Mac 2 0 0 0 0 7, sample_nic, NETDEV_PROTO_IPV4, [1, 2, 3])] \<and>
     rx_pending fst (dr_dev (net_drv s')) (dr_hw (net_drv s')) = []"
proof (intro allI)
  fix pg x stack
  let ?s = "sample_kernel pg"
  have len: "length sample_frame \<le> 2048" by (simp add: sample_frame_def frame_to_def sample_nic_def)
  have d: "dr_dev (net_drv ?s) = put_frame 1 1 sample_frame sample_ring" "dr_hw (net_drv ?s) = (2, 0)"
    by (simp_all add: sample_kernel_def)
  have q: "wf_queue ?s" "queue_items ?s = []"
    by (simp_all add: sample_kernel_def wf_queue_def NETDEV_INPUT_QUEUE_SIZE_def INPUT_BUF_CAP_def queue_items_def queue_used_def)
  have k: "nd_link_type sample_nic = NETDEV_LINK_TYPE_ETHERNET" "length (k_handlers ?s) = 48"
    "k_handlers ?s ! 43 = \<lparr>ih_is_used = True, ih_handler = E1000_handle_interrupt, ih_private_data = Some sample_nic\<rparr>"
    by (simp_all add: sample_nic_def sample_kernel_def)
  have r: "mmio_read32 sample_mmio (0 + E1000_OFFSET_ICR) (dr_hw (net_drv ?s)) = (E1000_INTERRUPT_RXT0, (2, 0))"
    by (simp add: sample_mmio_def d)
  have p: "rx_pending fst (dr_dev (net_drv ?s)) (dr_hw (net_drv ?s)) =
      map (\<lambda>(sender, payload). frame_to (nd_mac_addr sample_nic) sender 0x0800 payload) [(sample_nic\<lparr>nd_mac_addr := Mac 2 0 0 0 0 7\<rparr>, [1, 2, 3])]"
    using sample_ring_frame [OF len] d by (simp add: sample_frame_def)
  have "\<exists>s'. cpu_interrupt sample_ports (run_handler sample_mmio) (k_handlers ?s) 43 0 x stack ?s = Some (x, pic_send_eoi sample_ports 43 s') \<and>
    wf_queue s' \<and> queue_items s' = queue_items ?s @
      map (\<lambda>(sender, payload). (nd_mac_addr sender, sample_nic, NETDEV_PROTO_IPV4, take 4096 payload))
        [(sample_nic\<lparr>nd_mac_addr := Mac 2 0 0 0 0 7\<rparr>, [1, 2, 3])] \<and>
    rx_pending fst (dr_dev (net_drv s')) (dr_hw (net_drv s')) = []"
  proof (rule e1000_interrupt_delivers [OF sample_registers _ _ r _ _ _ _ p q(1)])
    show "rx_inv 0 65536 fst snd (dr_dev (net_drv ?s)) (dr_hw (net_drv ?s))" using sample_ring_frame [OF len] d by simp
    show "2048 \<le> length (ed_tmp_recv_buf (dr_dev (net_drv ?s)))" by (simp add: d put_frame_def sample_ring_def)
    show "E1000_INTERRUPT_RXT0 AND E1000_INTERRUPT_RXO = 0" "E1000_INTERRUPT_RXT0 AND E1000_INTERRUPT_RXT0 \<noteq> 0"
      by (simp_all add: E1000_INTERRUPT_RXT0_def E1000_INTERRUPT_RXO_def BIT_def)
  qed (simp_all add: d q k)
  moreover have "pic_send_eoi sample_ports 43 s' = s'" for s' :: "(nat \<times> nat) e1000_drv kernel"
    by (simp add: pic_send_eoi_def sample_ports_def Let_def)
  ultimately show "\<exists>s'. cpu_interrupt sample_ports (run_handler sample_mmio) (k_handlers ?s) 43 0 x stack ?s = Some (x, s') \<and>
     queue_items s' = [(Mac 2 0 0 0 0 7, sample_nic, NETDEV_PROTO_IPV4, [1, 2, 3])] \<and>
     rx_pending fst (dr_dev (net_drv s')) (dr_hw (net_drv s')) = []"
    by (auto simp: q)
qed

end
