(* ===== verification/E1000Tx.thy ===== *)
theory E1000Tx
  imports E1000Rx
begin

text \<open>
  The transmit ring of the network controller: what a send puts into it, and what happens when it is full.
\<close>

section \<open>Sending a frame\<close>

definition tx_registers :: "'h mmio \<Rightarrow> u64 \<Rightarrow> ('h \<Rightarrow> nat) \<Rightarrow> ('h \<Rightarrow> nat) \<Rightarrow> bool" where
  "tx_registers io base tdh tdt \<longleftrightarrow>
     (\<forall>v h. tdt (mmio_write32 io (base + E1000_OFFSET_TDT) v h) = unat v \<and>
        tdh (mmio_write32 io (base + E1000_OFFSET_TDT) v h) = tdh h)"

definition tx_shape :: "u64 \<Rightarrow> nat \<Rightarrow> e1000_device \<Rightarrow> bool" where
  "tx_shape base t dev \<longleftrightarrow>
     ed_mmio_base dev = base \<and> ed_tx_queue_n_desc dev = 32 \<and> ed_tx_tail dev = int t \<and> t < 32 \<and>
     length (ed_tx_queue dev) = 256 \<and> length (ed_tx_buffers dev) = 32 \<and> (\<forall>b \<in> set (ed_tx_buffers dev). length b = 16288)"

definition tx_is_done :: "e1000_legacy_tx_desc \<Rightarrow> bool" where
  "tx_is_done d \<longleftrightarrow> bit (tx_status d) 0"

text \<open>The frame that the device sends for a descriptor, if it is marked as a whole packet.\<close>

definition tx_frame :: "e1000_legacy_tx_desc \<Rightarrow> byte list \<Rightarrow> byte list option" where
  "tx_frame d buf = (if bit (tx_cmd d) 0 then Some (take (unat (tx_length d)) buf) else None)"

definition frame_fits :: "send_buf \<Rightarrow> bool" where
  "frame_fits sb \<longleftrightarrow> wf_sb sb \<and> length (sb_content sb) \<le> 16288"

lemma assemble_loop_length:
  "wf_buf buf \<Longrightarrow> assemble_loop parts i buf = Some (r, buf') \<Longrightarrow> length (bb_dat buf') = length (bb_dat buf)"
proof (induction i arbitrary: buf)
  case (Suc i)
  obtain p n b where "byte_buf_append buf (byte_view_from_buf p) = Some (n, b)"
    "(if n \<noteq> bb_len p then Some (Inl ENOMEM, b) else assemble_loop parts i b) = Some (r, buf')"
    using Suc.prems(2) by (auto simp: bind_eq_Some_conv)
  moreover from this have "wf_buf b" "length (bb_dat b) = length (bb_dat buf)"
    using byte_buf_append_ok [OF Suc.prems(1), of "byte_view_from_buf p"] by auto
  ultimately show ?case using Suc.IH [of b] by (auto split: if_splits)
qed simp

lemma assemble_frame:
  assumes "frame_fits sb" "length b = 16288"
  shows "\<exists>buf. send_buf_assemble sb (byte_buf_new b 0 E1000_TX_BUF_SIZE) = Some (ok, buf) \<and>
    take (length (sb_content sb)) (bb_dat buf) = sb_content sb \<and> length (bb_dat buf) = 16288"
proof -
  let ?buf = "byte_buf_new b 0 E1000_TX_BUF_SIZE"
  have sb: "wf_sb sb" "length (sb_content sb) \<le> 16288" using assms(1) by (auto simp: frame_fits_def)
  have wb: "wf_buf ?buf" "byte_view_from_buf ?buf = []" "bb_cap ?buf = 16288" "bb_len ?buf = 0" "bb_dat ?buf = b"
    using assms(2) by (simp_all add: wf_buf_def byte_buf_new_def byte_view_from_buf_def E1000_TX_BUF_SIZE_def)
  have "\<forall>p \<in> set (take (sb_n_used sb) (sb_parts sb)). wf_buf p" "sb_n_used sb \<le> length (sb_parts sb)"
    using sb(1) by (auto simp: wf_sb_def)
  then obtain buf where buf: "assemble_loop (sb_parts sb) (sb_n_used sb) ?buf = Some (ok, buf)" "wf_buf buf"
    "byte_view_from_buf buf = sb_content sb"
    using assemble_loop_ok [OF wb(1), of "sb_n_used sb" "sb_parts sb"] sb(2) wb by (auto simp: sb_content_def)
  have len: "bb_len buf = int (length (sb_content sb))" using buf(2) unfolding buf(3) [symmetric] by (simp add: wf_buf_def)
  then have "send_buf_assemble sb ?buf = Some (ok, buf)"
    using buf(1) wb(4) by (simp add: send_buf_assemble_def total_length_content [OF sb(1)])
  moreover have "take (length (sb_content sb)) (bb_dat buf) = sb_content sb"
    using buf(3) len by (simp add: byte_view_from_buf_def)
  ultimately show ?thesis using assemble_loop_length [OF wb(1) buf(1)] wb(5) assms(2) by auto
qed

lemma tx_poll_ok:
  assumes "tx_registers io base tdh tdt" "tx_shape base t dev" "tx_is_done (ed_tx_queue dev ! t)" "frame_fits sb"
  shows "\<exists>dev' h' d buf. e1000_tx_poll io dev sb h = Some (ok, dev', h') \<and> tx_shape base ((t + 1) mod 32) dev' \<and>
    ed_tx_queue dev' = (ed_tx_queue dev)[t := d] \<and> ed_tx_buffers dev' = (ed_tx_buffers dev)[t := buf] \<and>
    tx_frame d buf = Some (sb_content sb) \<and> \<not> tx_is_done d \<and> tdt h' = (t + 1) mod 32 \<and> tdh h' = tdh h"
proof -
  let ?d = "ed_tx_queue dev ! t" and ?b = "ed_tx_buffers dev ! t" and ?n = "length (sb_content sb)"
  define i where "i = (t + 1) mod 32"
  have sh: "ed_mmio_base dev = base" "ed_tx_queue_n_desc dev = 32" "ed_tx_tail dev = int t" "t < 32" "length (ed_tx_queue dev) = 256"
    "length (ed_tx_buffers dev) = 32" "\<forall>b \<in> set (ed_tx_buffers dev). length b = 16288"
    using assms(2) by (auto simp: tx_shape_def)
  have i: "(int t + 1) mod 32 = int i" "i < 32" unfolding i_def by (simp_all add: zmod_int add.commute)
  obtain buf where buf: "send_buf_assemble sb (byte_buf_new ?b 0 E1000_TX_BUF_SIZE) = Some (ok, buf)"
    "take ?n (bb_dat buf) = sb_content sb" "length (bb_dat buf) = 16288"
    using assemble_frame [OF assms(4), of ?b] sh by auto
  have n: "wf_sb sb" "?n \<le> 16288" using assms(4) by (auto simp: frame_fits_def)
  have w: "unat (word_of_int (int ?n) :: u16) = ?n"
    using n(2) by (simp add: unsigned_of_nat take_bit_nat_eq_self)
  have pk: "peek (ed_tx_queue dev) (int t) = Some ?d" "peek (ed_tx_buffers dev) (int t) = Some ?b"
    "\<And>x. poke (ed_tx_queue dev) (int t) x = Some ((ed_tx_queue dev)[t := x])"
    "\<And>x. poke (ed_tx_buffers dev) (int t) x = Some ((ed_tx_buffers dev)[t := x])"
    using sh(4-6) by auto
  define d where "d = ?d\<lparr>tx_length := word_of_int (int ?n), tx_status := 0, tx_cmd := tx_cmd ?d OR (E1000_TX_DESC_CMD_EOP OR E1000_TX_DESC_CMD_RS)\<rparr>"
  define dev' where "dev' = dev\<lparr>ed_tx_buffers := (ed_tx_buffers dev)[t := bb_dat buf], ed_tx_queue := (ed_tx_queue dev)[t := d],
    ed_tx_tail := int i, ed_stats := (ed_stats dev)\<lparr>n_packets_tx := n_packets_tx (ed_stats dev) + 1\<rparr>\<rparr>"
  define h' where "h' = mmio_write32 io (base + E1000_OFFSET_TDT) (word_of_int (int i)) h"
  have dd: "tx_status ?d AND E1000_TX_DESC_STATUS_DD \<noteq> 0"
    using assms(3) by (simp add: E1000_TX_DESC_STATUS_DD_def and_bit0 tx_is_done_def)
  have i2: "int i \<le> 65535" using i(2) by simp
  have poll: "e1000_tx_poll io dev sb h = Some (ok, dev', h')"
    using dd buf(1) i2 n(2) unfolding e1000_tx_poll_def sh(1-3) pk total_length_content [OF n(1)] Let_def i(1) dev'_def h'_def d_def
    by (simp add: E1000_TX_BUF_SIZE_def)
  have "(\<forall>b \<in> set ((ed_tx_buffers dev)[t := bb_dat buf]). length b = 16288)"
    using sh(7) buf(3) by (auto dest!: set_update_subset_insert [THEN subsetD])
  then have "tx_shape base i dev'" using sh i(2) by (simp add: tx_shape_def dev'_def)
  moreover have "tx_frame d (bb_dat buf) = Some (sb_content sb)"
    using buf(2) w by (simp add: tx_frame_def d_def E1000_TX_DESC_CMD_EOP_def BIT_def bit_simps)
  moreover have "\<not> tx_is_done d" by (simp add: tx_is_done_def d_def)
  moreover have "tdt h' = i" "tdh h' = tdh h"
    using assms(1) i(2) by (simp_all add: tx_registers_def h'_def unsigned_of_nat take_bit_nat_eq_self)
  ultimately show ?thesis using poll unfolding i_def [symmetric]
    by (intro exI [of _ dev'] exI [of _ h'] exI [of _ d] exI [of _ "bb_dat buf"]) (simp add: dev'_def)
qed

lemma tx_poll_full:
  assumes "tx_shape base t dev" "\<not> tx_is_done (ed_tx_queue dev ! t)" "frame_fits sb"
  shows "e1000_tx_poll io dev sb h = Some (Inl ENOBUFS, dev, h)"
  using assms total_length_content [of sb]
  by (auto simp: e1000_tx_poll_def tx_shape_def frame_fits_def tx_is_done_def E1000_TX_DESC_STATUS_DD_def and_bit0 E1000_TX_BUF_SIZE_def)

section \<open>Filling the ring\<close>

fun send_all :: "'h mmio \<Rightarrow> e1000_device \<Rightarrow> send_buf list \<Rightarrow> 'h \<Rightarrow> (unit res list \<times> e1000_device \<times> 'h) option" where
  "send_all io dev [] h = Some ([], dev, h)"
| "send_all io dev (sb # sbs) h = do {
     (res, dev, h) \<leftarrow> e1000_tx_poll io dev sb h;
     (ress, dev, h) \<leftarrow> send_all io dev sbs h;
     Some (res # ress, dev, h)
   }"

definition tx_slot_frame :: "e1000_device \<Rightarrow> nat \<Rightarrow> byte list option" where
  "tx_slot_frame dev i = tx_frame (ed_tx_queue dev ! i) (ed_tx_buffers dev ! i)"

lemma ring_pos: "((t + 1) mod 32 + k) mod 32 = (t + Suc k) mod (32 :: nat)"
  by (simp add: mod_add_left_eq)

lemma send_all_ok:
  assumes "tx_registers io base tdh tdt" "tx_shape base t dev" "\<forall>sb \<in> set sbs. frame_fits sb" "length sbs \<le> 32"
    and "\<forall>k < length sbs. tx_is_done (ed_tx_queue dev ! ((t + k) mod 32))"
  shows "\<exists>dev' h'. send_all io dev sbs h = Some (replicate (length sbs) ok, dev', h') \<and> tx_shape base ((t + length sbs) mod 32) dev' \<and>
    (\<forall>k < length sbs. \<not> tx_is_done (ed_tx_queue dev' ! ((t + k) mod 32)) \<and>
        tx_slot_frame dev' ((t + k) mod 32) = Some (sb_content (sbs ! k))) \<and>
    (\<forall>k < 32. length sbs \<le> k \<longrightarrow> ed_tx_queue dev' ! ((t + k) mod 32) = ed_tx_queue dev ! ((t + k) mod 32) \<and>
        tx_slot_frame dev' ((t + k) mod 32) = tx_slot_frame dev ((t + k) mod 32)) \<and>
    tdt h' = (if sbs = [] then tdt h else (t + length sbs) mod 32) \<and> tdh h' = tdh h"
  using assms(2-)
proof (induction sbs arbitrary: t dev h)
  case Nil
  then have "t < 32" by (simp add: tx_shape_def)
  then show ?case using Nil by simp
next
  case (Cons sb sbs)
  let ?t = "(t + 1) mod 32"
  have t: "t < 32" "length (ed_tx_queue dev) = 256" "length (ed_tx_buffers dev) = 32" using Cons.prems(1) by (auto simp: tx_shape_def)
  have "tx_is_done (ed_tx_queue dev ! t)" using Cons.prems(4) t by auto
  then obtain dev1 h1 d buf where p: "e1000_tx_poll io dev sb h = Some (ok, dev1, h1)" "tx_shape base ?t dev1"
    "ed_tx_queue dev1 = (ed_tx_queue dev)[t := d]" "ed_tx_buffers dev1 = (ed_tx_buffers dev)[t := buf]"
    "tx_frame d buf = Some (sb_content sb)" "\<not> tx_is_done d" "tdt h1 = ?t" "tdh h1 = tdh h"
    using tx_poll_ok [OF assms(1) Cons.prems(1), of sb h] Cons.prems(2) by auto
  have ne: "(t + k) mod 32 \<noteq> t" if "0 < k" "k < 32" for k
    using mod_shift_neq [of 0 k 32 t] that t(1) by auto
  have keep: "ed_tx_queue dev1 ! ((t + k) mod 32) = ed_tx_queue dev ! ((t + k) mod 32)"
    "tx_slot_frame dev1 ((t + k) mod 32) = tx_slot_frame dev ((t + k) mod 32)" if "0 < k" "k < 32" for k
    using ne [OF that] p(3,4) by (simp_all add: tx_slot_frame_def)
  have "\<forall>k < length sbs. tx_is_done (ed_tx_queue dev1 ! ((?t + k) mod 32))"
    unfolding ring_pos using Cons.prems(3,4) keep(1) by (auto simp del: add_Suc_right)
  from Cons.IH [OF p(2) _ _ this, of h1] Cons.prems(2,3) obtain dev' h' where
    IH: "send_all io dev1 sbs h1 = Some (replicate (length sbs) ok, dev', h')" "tx_shape base ((t + Suc (length sbs)) mod 32) dev'"
    "\<forall>k < length sbs. \<not> tx_is_done (ed_tx_queue dev' ! ((t + Suc k) mod 32)) \<and>
        tx_slot_frame dev' ((t + Suc k) mod 32) = Some (sb_content (sbs ! k))"
    "\<forall>k < 32. length sbs \<le> k \<longrightarrow> ed_tx_queue dev' ! ((t + Suc k) mod 32) = ed_tx_queue dev1 ! ((t + Suc k) mod 32) \<and>
        tx_slot_frame dev' ((t + Suc k) mod 32) = tx_slot_frame dev1 ((t + Suc k) mod 32)"
    "tdt h' = (if sbs = [] then tdt h1 else (t + Suc (length sbs)) mod 32)" "tdh h' = tdh h1"
    unfolding ring_pos by auto
  have first: "\<not> tx_is_done (ed_tx_queue dev' ! (t mod 32)) \<and> tx_slot_frame dev' (t mod 32) = Some (sb_content sb)"
  proof -
    have "(t + Suc 31) mod 32 = t" "length sbs \<le> 31" using t(1) Cons.prems(3) by simp_all
    then have "ed_tx_queue dev' ! t = ed_tx_queue dev1 ! t" "tx_slot_frame dev' t = tx_slot_frame dev1 t"
      using IH(4) [rule_format, of 31] by auto
    then show ?thesis using p(3-6) t by (simp add: tx_slot_frame_def)
  qed
  have "\<forall>k < length (sb # sbs). \<not> tx_is_done (ed_tx_queue dev' ! ((t + k) mod 32)) \<and>
        tx_slot_frame dev' ((t + k) mod 32) = Some (sb_content ((sb # sbs) ! k))"
  proof (intro allI impI)
    fix k assume k: "k < length (sb # sbs)"
    show "\<not> tx_is_done (ed_tx_queue dev' ! ((t + k) mod 32)) \<and> tx_slot_frame dev' ((t + k) mod 32) = Some (sb_content ((sb # sbs) ! k))"
      using first IH(3) k by (cases k) (simp_all del: add_Suc_right)
  qed
  moreover have "\<forall>k < 32. length (sb # sbs) \<le> k \<longrightarrow> ed_tx_queue dev' ! ((t + k) mod 32) = ed_tx_queue dev ! ((t + k) mod 32) \<and>
        tx_slot_frame dev' ((t + k) mod 32) = tx_slot_frame dev ((t + k) mod 32)"
  proof (intro allI impI)
    fix k :: nat assume k: "k < 32" "length (sb # sbs) \<le> k"
    then obtain l where l: "k = Suc l" "length sbs \<le> l" by (cases k) auto
    then show "ed_tx_queue dev' ! ((t + k) mod 32) = ed_tx_queue dev ! ((t + k) mod 32) \<and>
        tx_slot_frame dev' ((t + k) mod 32) = tx_slot_frame dev ((t + k) mod 32)"
      using IH(4) [rule_format, of l] keep [of k] k(1) by simp
  qed
  ultimately show ?case using p(1,7,8) IH(1,2,5,6) by (intro exI [of _ dev'] exI [of _ h']) simp
qed

text \<open>
  C28: When the device has sent everything and the ring is idle, 32 frames in a row are accepted, each in the descriptor of its
  turn with its bytes. Then the tail register is equal to the head register, which tells the device that there is nothing to
  send: none of the frames will be sent, and every further frame is refused with ENOBUFS.
\<close>

theorem e1000_full_ring_stalls:
  assumes "tx_registers io base tdh tdt" "tx_shape base t dev" "tdh h = t" "\<forall>i < 32. tx_is_done (ed_tx_queue dev ! i)"
    and "length sbs = 32" "\<forall>sb \<in> set (sb # sbs). frame_fits sb"
  shows "\<exists>dev' h'. send_all io dev sbs h = Some (replicate 32 ok, dev', h') \<and>
    (\<forall>k < 32. tx_slot_frame dev' ((t + k) mod 32) = Some (sb_content (sbs ! k))) \<and>
    tdh h' = tdt h' \<and> e1000_tx_poll io dev' sb h' = Some (Inl ENOBUFS, dev', h')"
proof -
  have t: "t < 32" using assms(2) by (simp add: tx_shape_def)
  obtain dev' h' where p: "send_all io dev sbs h = Some (replicate 32 ok, dev', h')" "tx_shape base ((t + 32) mod 32) dev'"
    "\<forall>k < 32. \<not> tx_is_done (ed_tx_queue dev' ! ((t + k) mod 32)) \<and> tx_slot_frame dev' ((t + k) mod 32) = Some (sb_content (sbs ! k))"
    "tdt h' = (t + 32) mod 32" "tdh h' = tdh h"
    using send_all_ok [OF assms(1,2), of sbs h] assms(4-6) by (auto split: if_splits)
  have "tx_shape base t dev'" "\<not> tx_is_done (ed_tx_queue dev' ! t)" using p(2) p(3) [rule_format, of 0] t by simp_all
  from tx_poll_full [OF this, of sb io h'] have "e1000_tx_poll io dev' sb h' = Some (Inl ENOBUFS, dev', h')" using assms(6) by simp
  then show ?thesis using p(1,3-5) assms(3) t by (intro exI [of _ dev'] exI [of _ h']) simp
qed

text \<open>A device with an idle transmit ring, whose hardware has only the head and the tail of the ring.\<close>

definition sample_tx_mmio :: "(nat \<times> nat) mmio" where
  "sample_tx_mmio = \<lparr>mmio_read32 = (\<lambda>a h. (0, h)),
     mmio_write32 = (\<lambda>a v h. if a = E1000_OFFSET_TDT then (fst h, unat v) else h), mmio_write64 = (\<lambda>a v h. h)\<rparr>"

definition sample_idle :: e1000_device where
  "sample_idle = sample_ring\<lparr>ed_tx_queue := replicate 256 (zero_tx_desc\<lparr>tx_status := 1\<rparr>), ed_tx_queue_n_desc := 32,
     ed_tx_tail := 0, ed_tx_buffers := replicate 32 (replicate 16288 0)\<rparr>"

definition sample_send :: send_buf where
  "sample_send = (send_buf_new (arena_new 4096 4096))
     \<lparr>sb_parts := (replicate SEND_BUF_NUM_PARTS (byte_buf_new [] 0 0))[0 := byte_buf_new [1, 2, 3] 3 3], sb_n_used := 1\<rparr>"

lemma sample_send_fits: "frame_fits sample_send" "sb_content sample_send = [1, 2, 3]"
  by (simp_all add: frame_fits_def wf_sb_def sb_content_def sample_send_def send_buf_new_def SEND_BUF_NUM_PARTS_def
      byte_buf_new_def wf_buf_def byte_view_from_buf_def eval_nat_numeral)

theorem e1000_full_ring_stalls_witness:
  "\<exists>dev h. send_all sample_tx_mmio sample_idle (replicate 32 sample_send) (0, 0) = Some (replicate 32 ok, dev, h) \<and>
    tx_slot_frame dev 5 = Some [1, 2, 3] \<and> fst h = snd h \<and> e1000_tx_poll sample_tx_mmio dev sample_send h = Some (Inl ENOBUFS, dev, h)"
proof -
  have "\<exists>dev' h'. send_all sample_tx_mmio sample_idle (replicate 32 sample_send) (0, 0) = Some (replicate 32 ok, dev', h') \<and>
    (\<forall>k < 32. tx_slot_frame dev' ((0 + k) mod 32) = Some (sb_content (replicate 32 sample_send ! k))) \<and>
    fst h' = snd h' \<and> e1000_tx_poll sample_tx_mmio dev' sample_send h' = Some (Inl ENOBUFS, dev', h')"
  proof (rule e1000_full_ring_stalls)
    show "tx_registers sample_tx_mmio 0 fst snd" by (simp add: tx_registers_def sample_tx_mmio_def)
    show "tx_shape 0 0 sample_idle" by (simp add: tx_shape_def sample_idle_def sample_ring_def)
    show "\<forall>i < 32. tx_is_done (ed_tx_queue sample_idle ! i)" by (simp add: tx_is_done_def sample_idle_def)
  qed (use sample_send_fits in auto)
  then obtain dev' h' where p: "send_all sample_tx_mmio sample_idle (replicate 32 sample_send) (0, 0) = Some (replicate 32 ok, dev', h')"
    "\<forall>k < 32. tx_slot_frame dev' ((0 + k) mod 32) = Some (sb_content (replicate 32 sample_send ! k))"
    "fst h' = snd h'" "e1000_tx_poll sample_tx_mmio dev' sample_send h' = Some (Inl ENOBUFS, dev', h')" by blast
  have "tx_slot_frame dev' 5 = Some [1, 2, 3]" using p(2) [rule_format, of 5] by (simp add: sample_send_fits)
  then show ?thesis using p(1,3,4) by blast
qed

end
