(* ===== verification/Endian.thy ===== *)
theory Endian
  imports Prelude
begin

text \<open>
  Numbers in the bytes of a file, with the lowest byte first, as a cast of a pointer to a packed structure reads them.
  The archive of the root file system and the ELF file of the kernel are read that way.
\<close>

fun le_bytes :: "nat \<Rightarrow> u64 \<Rightarrow> byte list" where
  "le_bytes 0 x = []"
| "le_bytes (Suc n) x = ucast x # le_bytes n (drop_bit 8 x)"

fun le_word :: "byte list \<Rightarrow> u64" where
  "le_word [] = 0"
| "le_word (b # bs) = ucast b OR push_bit 8 (le_word bs)"

lemma le_bytes_length [simp]: "length (le_bytes n x) = n"
  by (induction n arbitrary: x) simp_all

lemma le_word_bytes: "le_word (le_bytes n x) = take_bit (8 * n) x"
proof (induction n arbitrary: x)
  case (Suc n)
  show ?case
    by (auto simp: Suc bit_simps intro!: bit_word_eqI)
qed simp

lemma le_word_bytes_8 [simp]: "le_word (le_bytes 8 x) = x"
  unfolding le_word_bytes by (rule bit_word_eqI) (simp add: bit_take_bit_iff)

text \<open>The bytes of a field of a structure.\<close>

definition field :: "nat \<Rightarrow> nat \<Rightarrow> byte list \<Rightarrow> byte list" where
  "field off n bs = take n (drop off bs)"

text \<open>A part of an object in memory; outside of the object there is nothing to read.\<close>

definition bytes_at :: "byte list \<Rightarrow> sz \<Rightarrow> sz \<Rightarrow> byte list option" where
  "bytes_at bs off n =
     (if n = 0 then Some []
      else if 0 \<le> off \<and> 0 \<le> n \<and> off + n \<le> int (length bs) then Some (field (nat off) (nat n) bs)
      else None)"

lemma bytes_at_part:
  "off = int (length xs) \<Longrightarrow> n = int (length ys) \<Longrightarrow> bytes_at (xs @ ys @ zs) off n = Some ys"
  by (auto simp: bytes_at_def field_def)

end
