(* ===== verification/Archive.thy ===== *)
theory Archive
  imports RamFs Endian
begin

text \<open>
  The archive of the root file system (src/archive.c and include/tx/archive.h), which the kernel unpacks when it
  starts, and the script that builds it (scripts/archive.py).
\<close>

section \<open>The format\<close>

definition MAGIC_SIZE :: nat where "MAGIC_SIZE = 8"
definition MAGIC_STRING :: "byte list" where "MAGIC_STRING = cstr ''TATIX_AR''"

record ar_header =
  ah_magic :: "byte list"
  ah_index_length :: sz
  ah_size :: sz

record ar_index_ent =
  ax_hash :: u64
  ax_offset :: sz
  ax_size :: sz
  ax_path_length :: sz
  ax_flags :: u32

definition SIZEOF_AR_HEADER :: sz where "SIZEOF_AR_HEADER = 24"
definition SIZEOF_AR_INDEX_ENT :: sz where "SIZEOF_AR_INDEX_ENT = 36"

definition ar_header_of :: "byte list \<Rightarrow> ar_header" where
  "ar_header_of bs = \<lparr>ah_magic = field 0 MAGIC_SIZE bs, ah_index_length = sint (le_word (field 8 8 bs)),
     ah_size = sint (le_word (field 16 8 bs))\<rparr>"

definition ar_index_ent_of :: "byte list \<Rightarrow> ar_index_ent" where
  "ar_index_ent_of bs = \<lparr>ax_hash = le_word (field 0 8 bs), ax_offset = sint (le_word (field 8 8 bs)),
     ax_size = sint (le_word (field 16 8 bs)), ax_path_length = sint (le_word (field 24 8 bs)), ax_flags = ucast (le_word (field 32 4 bs))\<rparr>"

section \<open>Extracting\<close>

fun djb2_loop :: "byte list \<Rightarrow> u64 \<Rightarrow> u64" where
  "djb2_loop [] h = h"
| "djb2_loop (b # bs) h = djb2_loop bs ((push_bit 5 h + h) + ucast b)"

definition djb2_hash :: "byte list \<Rightarrow> u64" where
  "djb2_hash bv = djb2_loop bv 5381"

definition ADD_OVERFLOW :: "sz \<Rightarrow> sz \<Rightarrow> bool" where
  "ADD_OVERFLOW a b \<longleftrightarrow> a + b > SZ_MAX \<or> a + b < - SZ_MAX - 1"

definition SUB_OVERFLOW :: "sz \<Rightarrow> sz \<Rightarrow> bool" where
  "SUB_OVERFLOW a b \<longleftrightarrow> a - b > SZ_MAX \<or> a - b < - SZ_MAX - 1"

text \<open>
  \<open>dat\<close> is the address of the archive. The tests look at the position of the entry in the index and at its sizes; nothing bounds
  its offset. The sum with the size is not tested for an overflow, which has no value in C.
\<close>

definition index_ent_ok :: "addr \<Rightarrow> sz \<Rightarrow> sz \<Rightarrow> ar_index_ent \<Rightarrow> bool option" where
  "index_ent_ok dat len index_offset ent =
     (if ax_offset ent < 0 \<or> ax_size ent < 0 \<or> ax_path_length ent < 0 then Some False
      else if ADD_OVERFLOW index_offset (ax_path_length ent) \<or> ADD_OVERFLOW (index_offset + ax_path_length ent) dat \<or>
        SUB_OVERFLOW (ax_size ent) (ax_path_length ent) then Some False
      else if ax_path_length ent > ax_size ent then Some False
      else if ADD_OVERFLOW index_offset (ax_size ent) then None
      else Some (\<not> index_offset + ax_size ent > len))"

text \<open>The first number is the number of entries that are left.\<close>

fun extract_loop :: "addr \<Rightarrow> byte list \<Rightarrow> nat \<Rightarrow> sz \<Rightarrow> 'a ram_fs \<Rightarrow> (unit res \<times> 'a ram_fs) option" where
  "extract_loop dat archive 0 index_offset rfs = Some (ok, rfs)"
| "extract_loop dat archive (Suc n) index_offset rfs =
     (if ADD_OVERFLOW dat index_offset then Some (Inl EINVAL, rfs)
      else if index_offset \<ge> int (length archive) then Some (Inl EINVAL, rfs)
      else do {
        raw \<leftarrow> bytes_at archive index_offset SIZEOF_AR_INDEX_ENT;
        let ent = ar_index_ent_of raw;
        good \<leftarrow> index_ent_ok dat (int (length archive)) index_offset ent;
        if \<not> good then Some (Inl EINVAL, rfs)
        else do {
          path_and_data \<leftarrow> bytes_at archive (ax_offset ent) (ax_size ent);
          let path = take (nat (ax_path_length ent)) path_and_data;
          let data = drop (nat (ax_path_length ent)) path_and_data;
          if djb2_hash path_and_data \<noteq> ax_hash ent then Some (Inl EINVAL, rfs)
          else do {
            (node_res, rfs) \<leftarrow> ram_fs_create_file (rf_root rfs) path True rfs;
            case node_res of
              Inl e \<Rightarrow> Some (Inl e, rfs)
            | Inr node \<Rightarrow> do {
                (_, rfs) \<leftarrow> ram_fs_write node data 0 rfs;
                if ADD_OVERFLOW index_offset SIZEOF_AR_INDEX_ENT then Some (Inl EINVAL, rfs)
                else extract_loop dat archive n (index_offset + SIZEOF_AR_INDEX_ENT) rfs
              }
          }
        }
      })"

definition archive_extract :: "addr \<Rightarrow> byte list \<Rightarrow> 'a ram_fs \<Rightarrow> (unit res \<times> 'a ram_fs) option" where
  "archive_extract dat archive rfs =
     (if int (length archive) < SIZEOF_AR_HEADER then Some (Inl EINVAL, rfs)
      else
        let hdr = ar_header_of archive in
        if \<not> str_is_equal (ah_magic hdr) MAGIC_STRING then Some (Inl EINVAL, rfs)
        else if ah_size hdr > int (length archive) \<or> ah_size hdr < 0 \<or> ah_index_length hdr < 0 then Some (Inl EINVAL, rfs)
        else extract_loop dat archive (nat (ah_index_length hdr)) SIZEOF_AR_HEADER rfs)"

section \<open>The script that builds archives\<close>

text \<open>A text of Python is a list of code points; \<open>encode('utf-8')\<close>:\<close>

fun utf8_char :: "int \<Rightarrow> byte list" where
  "utf8_char c =
     (if c < 0x80 then [word_of_int c]
      else if c < 0x800 then [word_of_int (0xc0 + c div 64), word_of_int (0x80 + c mod 64)]
      else if c < 0x10000 then
        [word_of_int (0xe0 + c div 4096), word_of_int (0x80 + c div 64 mod 64), word_of_int (0x80 + c mod 64)]
      else [word_of_int (0xf0 + c div 262144), word_of_int (0x80 + c div 4096 mod 64),
        word_of_int (0x80 + c div 64 mod 64), word_of_int (0x80 + c mod 64)])"

declare utf8_char.simps [simp del]

definition utf8 :: "int list \<Rightarrow> byte list" where
  "utf8 cs = concat (map utf8_char cs)"

text \<open>\<open>struct.pack\<close> with the format \<open>q\<close> raises an exception for numbers that do not fit.\<close>

definition pack_q :: "int \<Rightarrow> byte list option" where
  "pack_q i = (if - SZ_MAX - 1 \<le> i \<and> i \<le> SZ_MAX then Some (le_bytes 8 (word_of_int i)) else None)"

text \<open>A file is its path, its size, and its bytes.\<close>

fun index_entries :: "int \<Rightarrow> (int list \<times> int \<times> byte list) list \<Rightarrow> byte list option" where
  "index_entries file_offset [] = Some []"
| "index_entries file_offset ((file_path, file_size, file_data) # files) = do {
     let path_length = int (length file_path);
     off \<leftarrow> pack_q file_offset;
     n \<leftarrow> pack_q (file_size + path_length);
     p \<leftarrow> pack_q path_length;
     let index_entry = le_bytes 8 (djb2_hash (utf8 file_path @ file_data)) @ off @ n @ p @ le_bytes 4 0;
     es \<leftarrow> index_entries (file_offset + file_size + path_length) files;
     Some (index_entry @ es)
   }"

definition create_archive :: "(int list \<times> int \<times> byte list) list \<Rightarrow> byte list option" where
  "create_archive file_info = do {
     let file_info = map (\<lambda>(file_path, file_size, file_data). (47 # file_path, file_size, file_data)) file_info;
     let index_length = int (length file_info);
     let total_size = SIZEOF_AR_HEADER + index_length * SIZEOF_AR_INDEX_ENT +
       (\<Sum>(file_path, file_size, _) \<leftarrow> file_info. int (length file_path) + file_size);
     l \<leftarrow> pack_q index_length;
     t \<leftarrow> pack_q total_size;
     index \<leftarrow> index_entries (SIZEOF_AR_HEADER + index_length * SIZEOF_AR_INDEX_ENT) file_info;
     let file_entries = concat (map (\<lambda>(file_path, _, file_data). utf8 file_path @ file_data) file_info);
     Some ((MAGIC_STRING @ l @ t) @ index @ file_entries)
   }"

section \<open>Extracting what was built\<close>

lemma pack_q_word:
  assumes "pack_q i = Some bs"
  shows "length bs = 8 \<and> sint (le_word bs) = i"
proof -
  have i: "- (2 ^ 63) \<le> i" "i < 2 ^ 63" and bs: "bs = le_bytes 8 (word_of_int i)"
    using assms by (auto simp: pack_q_def SZ_MAX_def split: if_splits)
  have "sint (word_of_int i :: u64) = i"
    using i by (simp add: sint_sbintrunc' signed_take_bit_int_eq_self)
  then show ?thesis by (simp add: bs)
qed

lemma pack_q_length: "pack_q i = Some bs \<Longrightarrow> length bs = 8"
  by (simp add: pack_q_word)

lemma utf8_ascii: "\<forall>c \<in> set cs. c < 0x80 \<Longrightarrow> length (utf8 cs) = length cs"
  by (induction cs) (simp_all add: utf8_def utf8_char.simps)

text \<open>The files one after the other, as calls of the file system.\<close>

fun store_files :: "(byte list \<times> byte list) list \<Rightarrow> 'a ram_fs \<Rightarrow> (unit res \<times> 'a ram_fs) option" where
  "store_files [] rfs = Some (ok, rfs)"
| "store_files ((path, data) # files) rfs = do {
     (node_res, rfs) \<leftarrow> ram_fs_create_file (rf_root rfs) path True rfs;
     case node_res of
       Inl e \<Rightarrow> Some (Inl e, rfs)
     | Inr node \<Rightarrow> do {
         (_, rfs) \<leftarrow> ram_fs_write node data 0 rfs;
         store_files files rfs
       }
   }"

definition file_entry :: "int list \<times> int \<times> byte list \<Rightarrow> byte list" where
  "file_entry f = (case f of (file_path, _, file_data) \<Rightarrow> utf8 file_path @ file_data)"

lemma file_entry_simp [simp]: "file_entry (p, n, d) = utf8 p @ d"
  by (simp add: file_entry_def)

definition file_info_ok :: "int list \<times> int \<times> byte list \<Rightarrow> bool" where
  "file_info_ok f \<longleftrightarrow> (case f of (file_path, file_size, file_data) \<Rightarrow>
     (\<forall>c \<in> set file_path. c < 0x80) \<and> file_size = int (length file_data))"

lemma extract_loop_files:
  fixes rfs :: "'a ram_fs"
  assumes "index_entries (int (length (pre @ idx @ mid))) files = Some idx"
    and "archive = pre @ idx @ mid @ concat (map file_entry files)"
    and "\<forall>f \<in> set files. file_info_ok f" "0 \<le> dat" "dat + int (length archive) \<le> SZ_MAX"
  shows "extract_loop dat archive (length files) (int (length pre)) rfs =
    store_files (map (\<lambda>(p, _, d). (utf8 p, d)) files) rfs"
  using assms(1-3)
proof (induction files arbitrary: pre idx mid rfs)
  case (Cons f files)
  obtain p n d where f: "f = (p, n, d)" by (metis prod_cases3)
  define off where "off = int (length (pre @ idx @ mid))"
  have p1: "index_entries off ((p, n, d) # files) = Some idx" using Cons.prems(1) by (simp only: f off_def)
  have ok: "length (utf8 p) = length p" "n = int (length d)"
    using Cons.prems(3) by (auto simp: f file_info_ok_def utf8_ascii)
  obtain bo bn bp es where b: "pack_q off = Some bo" "pack_q (n + int (length p)) = Some bn" "pack_q (int (length p)) = Some bp"
    and es: "index_entries (off + n + int (length p)) files = Some es"
    and idx: "idx = (le_bytes 8 (djb2_hash (utf8 p @ d)) @ bo @ bn @ bp @ le_bytes 4 0) @ es"
    using p1 by (auto simp: Let_def bind_eq_Some_conv)
  note w = pack_q_word [OF b(1)] pack_q_word [OF b(2)] pack_q_word [OF b(3)]
  define e where "e = le_bytes 8 (djb2_hash (utf8 p @ d)) @ bo @ bn @ bp @ le_bytes 4 0"
  have el: "length e = 36" by (simp add: e_def w)
  let ?ent = "ar_index_ent_of e"
  have ent: "ax_hash ?ent = djb2_hash (utf8 p @ d)" "ax_offset ?ent = off" "ax_size ?ent = n + int (length p)"
    "ax_path_length ?ent = int (length p)"
    using w by (simp_all add: ar_index_ent_of_def e_def field_def)
  have arch: "archive = pre @ e @ es @ mid @ concat (map file_entry (f # files))"
    using Cons.prems(2) by (simp add: idx e_def)
  have arch2: "archive = (pre @ idx @ mid) @ (utf8 p @ d) @ concat (map file_entry files)"
    using Cons.prems(2) by (simp add: f)
  have raw: "bytes_at archive (int (length pre)) SIZEOF_AR_INDEX_ENT = Some e"
    unfolding arch by (rule bytes_at_part) (simp_all add: el SIZEOF_AR_INDEX_ENT_def)
  have cont: "bytes_at archive (ax_offset ?ent) (ax_size ?ent) = Some (utf8 p @ d)"
    unfolding arch2 ent by (rule bytes_at_part) (simp_all add: ok off_def)
  have len: "int (length archive) = int (length pre) + 36 + int (length es) + int (length mid) + int (length p) + n +
      int (length (concat (map file_entry files)))"
    unfolding arch by (simp add: el f ok)
  have no: "\<not> ADD_OVERFLOW dat (int (length pre))" "\<not> ADD_OVERFLOW (int (length pre)) SIZEOF_AR_INDEX_ENT"
    "int (length pre) < int (length archive)"
    using len assms(4,5) ok(2) by (simp_all add: ADD_OVERFLOW_def SIZEOF_AR_INDEX_ENT_def SZ_MAX_def)
  have entok: "index_ent_ok dat (int (length archive)) (int (length pre)) ?ent = Some True"
    using len assms(4,5) ok(2) off_def by (simp add: index_ent_ok_def ent ADD_OVERFLOW_def SUB_OVERFLOW_def SZ_MAX_def)
  have IH: "extract_loop dat archive (length files) (int (length (pre @ e))) rfs =
      store_files (map (\<lambda>(p, _, d). (utf8 p, d)) files) rfs" for rfs :: "'a ram_fs"
  proof (rule Cons.IH)
    show "index_entries (int (length ((pre @ e) @ es @ (mid @ utf8 p @ d)))) files = Some es"
      using es by (simp add: off_def idx e_def ok w algebra_simps)
    show "archive = (pre @ e) @ es @ (mid @ utf8 p @ d) @ concat (map file_entry files)"
      using arch by (simp add: f)
    show "\<forall>f \<in> set files. file_info_ok f" using Cons.prems(3) by simp
  qed
  have nx: "int (length pre) + SIZEOF_AR_INDEX_ENT = int (length (pre @ e))" by (simp add: el SIZEOF_AR_INDEX_ENT_def)
  show ?case
    using no entok raw cont IH ok(1)
    by (simp add: f Let_def ent(1,4) nx del: length_append cong: if_cong sum.case_cong)
qed simp

lemma index_entries_length: "index_entries off files = Some idx \<Longrightarrow> length idx = 36 * length files"
proof (induction off files arbitrary: idx rule: index_entries.induct)
  case (2 off p n d files)
  obtain bo bn bp es where "pack_q off = Some bo" "pack_q (n + int (length p)) = Some bn" "pack_q (int (length p)) = Some bp"
    "index_entries (off + n + int (length p)) files = Some es"
    "idx = (le_bytes 8 (djb2_hash (utf8 p @ d)) @ bo @ bn @ bp @ le_bytes 4 0) @ es"
    using 2(2) by (auto simp: Let_def bind_eq_Some_conv)
  then show ?case using 2(1) by (simp add: pack_q_length)
qed simp

text \<open>The files of the archive with the paths that the script gives them.\<close>

definition rooted :: "int list \<times> int \<times> byte list \<Rightarrow> byte list \<times> byte list" where
  "rooted f = (case f of (file_path, _, file_data) \<Rightarrow> (utf8 (47 # file_path), file_data))"

lemma create_archive_parts:
  assumes "create_archive files = Some archive" "\<forall>f \<in> set files. file_info_ok f"
  shows "\<exists>l t idx. let fs = map (\<lambda>(p, n, d). (47 # p, n, d)) files in
    archive = (MAGIC_STRING @ l @ t) @ idx @ [] @ concat (map file_entry fs) \<and> length (MAGIC_STRING @ l @ t) = 24 \<and>
    index_entries (int (length ((MAGIC_STRING @ l @ t) @ idx @ []))) fs = Some idx \<and> (\<forall>f \<in> set fs. file_info_ok f) \<and>
    ar_header_of archive = \<lparr>ah_magic = MAGIC_STRING, ah_index_length = int (length files), ah_size = int (length archive)\<rparr>"
proof -
  define fs where "fs = map (\<lambda>(p, n, d). (47 # p, n, d)) files"
  define total where "total = 24 + int (length files) * 36 + (\<Sum>(p, n, _) \<leftarrow> fs. int (length p) + n)"
  have magic: "length MAGIC_STRING = 8" by (simp add: MAGIC_STRING_def cstr_def)
  obtain l t idx where p: "pack_q (int (length files)) = Some l" "pack_q total = Some t"
    "index_entries (24 + int (length files) * 36) fs = Some idx"
    "archive = (MAGIC_STRING @ l @ t) @ idx @ concat (map file_entry fs)"
    using assms(1)
    by (auto simp: create_archive_def Let_def bind_eq_Some_conv fs_def total_def SIZEOF_AR_HEADER_def SIZEOF_AR_INDEX_ENT_def
        file_entry_def [abs_def])
  note w = pack_q_word [OF p(1)] pack_q_word [OF p(2)]
  have ok: "\<forall>f \<in> set fs. file_info_ok f" using assms(2) by (fastforce simp: fs_def file_info_ok_def)
  have "int (length (concat (map file_entry fs))) = (\<Sum>(p, n, _) \<leftarrow> fs. int (length p) + n)"
    using ok by (induction fs) (auto simp: file_info_ok_def utf8_ascii)
  moreover have idx: "length idx = 36 * length files" using index_entries_length [OF p(3)] by (simp add: fs_def)
  ultimately have len: "total = int (length archive)" by (simp add: total_def p(4) magic w)
  have "ar_header_of archive = \<lparr>ah_magic = MAGIC_STRING, ah_index_length = int (length files), ah_size = int (length archive)\<rparr>"
    unfolding len [symmetric] using w magic by (simp add: ar_header_of_def p(4) field_def MAGIC_SIZE_def)
  moreover have "index_entries (int (length ((MAGIC_STRING @ l @ t) @ idx @ []))) fs = Some idx"
    using p(3) by (simp add: magic w idx algebra_simps)
  ultimately show ?thesis using p(4) ok w magic unfolding Let_def fs_def [symmetric]
    by (intro exI [of _ l] exI [of _ t] exI [of _ idx]) simp
qed

text \<open>
  C32: Extracting an archive that the build script made from files with ASCII paths creates exactly these files, in their
  order, each under the root with its bytes: it is the same as making the calls of the file system
  one after the other, up to the first that fails.
\<close>

theorem archive_extract_created:
  assumes "create_archive files = Some archive" "\<forall>f \<in> set files. file_info_ok f"
    and "0 \<le> dat" "dat + int (length archive) \<le> SZ_MAX"
  shows "archive_extract dat archive rfs = store_files (map rooted files) rfs"
proof -
  define fs where "fs = map (\<lambda>(p, n, d). (47 # p, n, d)) files"
  obtain l t idx where p: "archive = (MAGIC_STRING @ l @ t) @ idx @ [] @ concat (map file_entry fs)"
    "length (MAGIC_STRING @ l @ t) = 24" "index_entries (int (length ((MAGIC_STRING @ l @ t) @ idx @ []))) fs = Some idx"
    "\<forall>f \<in> set fs. file_info_ok f"
    "ar_header_of archive = \<lparr>ah_magic = MAGIC_STRING, ah_index_length = int (length files), ah_size = int (length archive)\<rparr>"
    using create_archive_parts [OF assms(1,2)] unfolding Let_def fs_def [symmetric] by blast
  have len: "24 \<le> int (length archive)" "length fs = length files" using p(2) by (simp_all add: p(1) fs_def)
  have "archive_extract dat archive rfs = extract_loop dat archive (length fs) (int (length (MAGIC_STRING @ l @ t))) rfs"
    using len unfolding archive_extract_def Let_def p(5) by (simp add: SIZEOF_AR_HEADER_def p(2) del: length_append)
  also have "\<dots> = store_files (map (\<lambda>(p, _, d). (utf8 p, d)) fs) rfs"
    by (rule extract_loop_files [OF p(3,1,4) assms(3,4)])
  also have "map (\<lambda>(p, _, d). (utf8 p, d)) fs = map rooted files" by (auto simp: fs_def rooted_def)
  finally show ?thesis .
qed

theorem archive_extract_created_witness:
  "\<exists>archive. create_archive [([102], 2, [104, 105])] = Some archive \<and> length archive = 64 \<and>
     (\<forall>rfs :: int ram_fs. archive_extract 4096 archive rfs = store_files [([47, 102], [104, 105])] rfs)"
proof -
  have c: "create_archive [([102], 2, [104, 105])] \<noteq> None \<and> map_option length (create_archive [([102], 2, [104, 105])]) = Some 64"
    by code_simp
  then obtain archive where a: "create_archive [([102], 2, [104, 105])] = Some archive" "length archive = 64" by auto
  have r: "rooted ([102], 2, [104, 105]) = ([47, 102], [104, 105])" by code_simp
  have "archive_extract 4096 archive rfs = store_files [([47, 102], [104, 105])] rfs" for rfs :: "int ram_fs"
    by (subst archive_extract_created [OF a(1)]) (simp_all add: r file_info_ok_def a(2) SZ_MAX_def)
  then show ?thesis using a by blast
qed

text \<open>
  The script counts the characters of a path and the kernel its bytes: one path with a character
  that is not ASCII makes an archive that the kernel rejects.
\<close>

lemma archive_bad_hash:
  assumes "24 \<le> length archive" "hdr = ar_header_of archive" "ah_magic hdr = MAGIC_STRING"
    and "0 \<le> ah_size hdr \<and> ah_size hdr \<le> int (length archive) \<and> 0 < ah_index_length hdr"
    and "\<not> ADD_OVERFLOW dat 24" "bytes_at archive 24 36 = Some raw" "ent = ar_index_ent_of raw"
    and "index_ent_ok dat (int (length archive)) 24 ent = Some True" "bytes_at archive (ax_offset ent) (ax_size ent) = Some bs"
    and "djb2_hash bs \<noteq> ax_hash ent"
  shows "archive_extract dat archive rfs = Some (Inl EINVAL, rfs)"
proof -
  obtain k where k: "nat (ah_index_length hdr) = Suc k" using assms(4) by (cases "nat (ah_index_length hdr)") auto
  have "24 < length archive" using assms(6) by (auto simp: bytes_at_def split: if_splits)
  then show ?thesis using assms(3-10) unfolding archive_extract_def Let_def assms(2) [symmetric] k
    by (simp add: SIZEOF_AR_HEADER_def SIZEOF_AR_INDEX_ENT_def)
qed

definition accented :: "byte list" where
  "accented = [84, 65, 84, 73, 88, 95, 65, 82, 1, 0, 0, 0, 0, 0, 0, 0, 64, 0, 0, 0, 0, 0, 0, 0, 113, 74, 191, 11, 49, 0, 0, 0, 60, 0, 0, 0, 0, 0, 0, 0, 4, 0, 0, 0, 0, 0, 0, 0, 2, 0, 0, 0, 0, 0, 0, 0, 0, 0, 0, 0, 47, 195, 169, 104, 105]"

lemma archive_non_ascii_rejected:
  "create_archive [([233], 2, [104, 105])] = Some accented"
  "archive_extract 4096 accented rfs = Some (Inl EINVAL, rfs)"
proof -
  show "create_archive [([233], 2, [104, 105])] = Some accented" by code_simp
  let ?hdr = "ar_header_of accented" and ?raw = "take 36 (drop 24 accented)"
  let ?ent = "ar_index_ent_of ?raw"
  have "24 \<le> length accented \<and> ah_magic ?hdr = MAGIC_STRING \<and>
      0 \<le> ah_size ?hdr \<and> ah_size ?hdr \<le> int (length accented) \<and> 0 < ah_index_length ?hdr" by code_simp
  moreover have "\<not> ADD_OVERFLOW 4096 24 \<and> bytes_at accented 24 36 = Some ?raw \<and> index_ent_ok 4096 (int (length accented)) 24 ?ent = Some True"
    by code_simp
  moreover have "bytes_at accented (ax_offset ?ent) (ax_size ?ent) = Some (take 4 (drop 60 accented)) \<and>
      djb2_hash (take 4 (drop 60 accented)) \<noteq> ax_hash ?ent" by code_simp
  ultimately show "archive_extract 4096 accented rfs = Some (Inl EINVAL, rfs)"
    using archive_bad_hash [of accented ?hdr 4096 ?raw ?ent "take 4 (drop 60 accented)" rfs] by blast
qed

text \<open>A size near the largest number makes the sum overflow, which can pass the test if the sum wraps around.\<close>

lemma archive_size_overflows:
  assumes "24 \<le> dat" "dat < 2 ^ 48" "0 \<le> ax_offset ent" "ax_path_length ent = 1" "ax_size ent = SZ_MAX"
  shows "index_ent_ok dat len 24 ent = None"
  using assms by (simp add: index_ent_ok_def ADD_OVERFLOW_def SUB_OVERFLOW_def SZ_MAX_def)

text \<open>
  The offset of an entry is not compared with the length of the archive. The kernel reads behind the archive for
  every first entry whose sizes pass the tests and whose bytes would end behind the archive.
\<close>

theorem archive_offset_unchecked:
  assumes "60 \<le> length archive" "ah_magic (ar_header_of archive) = MAGIC_STRING"
    and "0 \<le> ah_size (ar_header_of archive)" "ah_size (ar_header_of archive) \<le> int (length archive)"
    and "0 < ah_index_length (ar_header_of archive)" "ent = ar_index_ent_of (take 36 (drop 24 archive))"
    and "0 \<le> ax_path_length ent" "ax_path_length ent \<le> ax_size ent" "0 < ax_size ent" "24 + ax_size ent \<le> int (length archive)"
    and "int (length archive) < ax_offset ent + ax_size ent" "0 \<le> ax_offset ent" "0 \<le> dat" "dat + int (length archive) \<le> SZ_MAX"
  shows "archive_extract dat archive rfs = None"
proof -
  have raw: "bytes_at archive 24 SIZEOF_AR_INDEX_ENT = Some (take 36 (drop 24 archive))"
    using assms(1) by (simp add: bytes_at_def field_def SIZEOF_AR_INDEX_ENT_def)
  have "index_ent_ok dat (int (length archive)) 24 ent = Some True"
    using assms(7-14) by (simp add: index_ent_ok_def ADD_OVERFLOW_def SUB_OVERFLOW_def SZ_MAX_def)
  moreover have "bytes_at archive (ax_offset ent) (ax_size ent) = None" using assms(9,11) by (simp add: bytes_at_def)
  moreover obtain k where k: "nat (ah_index_length (ar_header_of archive)) = Suc k" using assms(5) by (cases "nat (ah_index_length (ar_header_of archive))") auto
  moreover have "\<not> ADD_OVERFLOW dat 24" using assms(1,13,14) by (simp add: ADD_OVERFLOW_def SZ_MAX_def)
  ultimately show ?thesis
    using assms(1-5) raw unfolding archive_extract_def Let_def k
    by (simp add: SIZEOF_AR_HEADER_def assms(6) [symmetric])
qed

theorem archive_offset_unchecked_witness:
  "\<forall>rfs :: int ram_fs. archive_extract 4096 [84, 65, 84, 73, 88, 95, 65, 82, 1, 0, 0, 0, 0, 0, 0, 0, 60, 0, 0, 0, 0, 0, 0, 0, 0, 0, 0, 0, 0, 0, 0, 0, 232, 3, 0, 0, 0, 0, 0, 0, 4, 0, 0, 0, 0, 0, 0, 0, 2, 0, 0, 0, 0, 0, 0, 0, 0, 0, 0, 0, 0, 0, 0, 0] rfs = None"
proof
  fix rfs :: "int ram_fs"
  let ?a = "[84, 65, 84, 73, 88, 95, 65, 82, 1, 0, 0, 0, 0, 0, 0, 0, 60, 0, 0, 0, 0, 0, 0, 0, 0, 0, 0, 0, 0, 0, 0, 0, 232, 3, 0, 0, 0, 0, 0, 0, 4, 0, 0, 0, 0, 0, 0, 0, 2, 0, 0, 0, 0, 0, 0, 0, 0, 0, 0, 0, 0, 0, 0, 0] :: byte list"
  let ?hdr = "ar_header_of ?a" and ?ent = "ar_index_ent_of (take 36 (drop 24 ?a))"
  have "60 \<le> length ?a \<and> ah_magic ?hdr = MAGIC_STRING \<and> 0 \<le> ah_size ?hdr \<and> ah_size ?hdr \<le> int (length ?a) \<and> 0 < ah_index_length ?hdr"
    by code_simp
  moreover have "0 \<le> ax_path_length ?ent \<and> ax_path_length ?ent \<le> ax_size ?ent \<and> 0 < ax_size ?ent \<and> 24 + ax_size ?ent \<le> int (length ?a) \<and>
      int (length ?a) < ax_offset ?ent + ax_size ?ent \<and> 0 \<le> ax_offset ?ent \<and> 4096 + int (length ?a) \<le> SZ_MAX" by code_simp
  ultimately show "archive_extract 4096 ?a rfs = None" using archive_offset_unchecked [of ?a ?ent 4096 rfs] by simp
qed

end
