(* ===== verification/Boot.thy ===== *)
theory Boot
  imports Ports Arena Endian "HOL-Library.Signed_Division"
begin

text \<open>
  The second stage of the boot loader (bootloader/load_kernel.c and include/tx/elf64.h): it reads the ELF file of the
  kernel from an ATA disk, sector by sector, and puts its segments where they belong. Memory is a function from
  addresses; its messages are left out.
\<close>

section \<open>Memory\<close>

type_synonym memory = "addr \<Rightarrow> byte"

definition mem_write :: "addr \<Rightarrow> byte list \<Rightarrow> memory \<Rightarrow> memory" where
  "mem_write p bs m = (\<lambda>a. if p \<le> a \<and> a < p + int (length bs) then bs ! nat (a - p) else m a)"

definition mem_read :: "addr \<Rightarrow> nat \<Rightarrow> memory \<Rightarrow> byte list" where
  "mem_read p n m = map (\<lambda>i. m (p + int i)) [0 ..< n]"

section \<open>The ELF file\<close>

record elf64_hdr =
  eh_ident :: "byte list"
  eh_type :: u16
  eh_machine :: u16
  eh_version :: u16
  eh_entry :: u64
  eh_phdr_tab_offset :: u64
  eh_shdr_tab_offset :: u64
  eh_flags :: u32
  eh_header_size :: u16
  eh_phdr_size :: u16
  eh_phdr_count :: u16
  eh_shdr_size :: u16
  eh_shdr_count :: u16
  eh_str_tab_idx :: u16

record elf64_phdr =
  ep_type :: u32
  ep_flags :: u32
  ep_offset :: u64
  ep_vaddr :: u64
  ep_paddr :: u64
  ep_file_size :: u64
  ep_mem_size :: u64
  ep_align :: u64

definition EI_NIDENT :: nat where "EI_NIDENT = 16"
definition PT_LOAD :: u32 where "PT_LOAD = 1"
definition ET_EXEC :: u16 where "ET_EXEC = 2"
definition EM_X86_64 :: u16 where "EM_X86_64 = 62"
definition SIZEOF_ELF64_HDR :: nat where "SIZEOF_ELF64_HDR = 64"
definition SIZEOF_ELF64_PHDR :: nat where "SIZEOF_ELF64_PHDR = 56"

text \<open>The structures are not packed: the entry point has two bytes of padding before it.\<close>

definition elf64_hdr_of :: "byte list \<Rightarrow> elf64_hdr" where
  "elf64_hdr_of bs =
     \<lparr>eh_ident = field 0 EI_NIDENT bs, eh_type = ucast (le_word (field 16 2 bs)), eh_machine = ucast (le_word (field 18 2 bs)),
      eh_version = ucast (le_word (field 20 2 bs)), eh_entry = le_word (field 24 8 bs),
      eh_phdr_tab_offset = le_word (field 32 8 bs), eh_shdr_tab_offset = le_word (field 40 8 bs),
      eh_flags = ucast (le_word (field 48 4 bs)), eh_header_size = ucast (le_word (field 52 2 bs)),
      eh_phdr_size = ucast (le_word (field 54 2 bs)), eh_phdr_count = ucast (le_word (field 56 2 bs)),
      eh_shdr_size = ucast (le_word (field 58 2 bs)), eh_shdr_count = ucast (le_word (field 60 2 bs)),
      eh_str_tab_idx = ucast (le_word (field 62 2 bs))\<rparr>"

definition elf64_phdr_of :: "byte list \<Rightarrow> elf64_phdr" where
  "elf64_phdr_of bs =
     \<lparr>ep_type = ucast (le_word (field 0 4 bs)), ep_flags = ucast (le_word (field 4 4 bs)), ep_offset = le_word (field 8 8 bs),
      ep_vaddr = le_word (field 16 8 bs), ep_paddr = le_word (field 24 8 bs), ep_file_size = le_word (field 32 8 bs),
      ep_mem_size = le_word (field 40 8 bs), ep_align = le_word (field 48 8 bs)\<rparr>"

definition elf64_is_valid :: "elf64_hdr \<Rightarrow> bool" where
  "elf64_is_valid elf \<longleftrightarrow> take 4 (eh_ident elf) = [0x7f, 69, 76, 70] \<and>
     eh_header_size elf = of_nat SIZEOF_ELF64_HDR \<and> eh_phdr_size elf = of_nat SIZEOF_ELF64_PHDR \<and>
     eh_type elf = ET_EXEC \<and> eh_machine elf = EM_X86_64"

section \<open>The disk\<close>

definition ATA_IO_PORT_BASE :: u16 where "ATA_IO_PORT_BASE = 0x1f0"
definition ATA_OFFSET_SECTOR_COUNT :: u16 where "ATA_OFFSET_SECTOR_COUNT = 2"
definition ATA_OFFSET_LBA_LOW :: u16 where "ATA_OFFSET_LBA_LOW = 3"
definition ATA_OFFSET_LBA_MID :: u16 where "ATA_OFFSET_LBA_MID = 4"
definition ATA_OFFSET_LBA_HIGH :: u16 where "ATA_OFFSET_LBA_HIGH = 5"
definition ATA_OFFSET_LBA_EXTRA :: u16 where "ATA_OFFSET_LBA_EXTRA = 6"
definition ATA_OFFSET_STATUS :: u16 where "ATA_OFFSET_STATUS = 7"
definition ATA_OFFSET_COMMAND :: u16 where "ATA_OFFSET_COMMAND = 7"
definition ATA_COMMAND_READ_PIO :: u8 where "ATA_COMMAND_READ_PIO = BIT 5"
definition ATA_STATUS_ERROR :: u8 where "ATA_STATUS_ERROR = BIT 0"
definition ATA_STATUS_DRQ :: u8 where "ATA_STATUS_DRQ = BIT 3"
definition ATA_STATUS_DF :: u8 where "ATA_STATUS_DF = BIT 5"
definition ATA_STATUS_BUSY :: u8 where "ATA_STATUS_BUSY = BIT 7"
definition ATA_PRIMARY_CONTROL_PORT :: u16 where "ATA_PRIMARY_CONTROL_PORT = 0x3f6"
definition ATA_SECONDARY_CONTROL_PORT :: u16 where "ATA_SECONDARY_CONTROL_PORT = 0x376"
definition ATA_CONTROL_NIEN :: u8 where "ATA_CONTROL_NIEN = BIT 1"
definition SECTOR_SIZE :: int where "SECTOR_SIZE = 512"
definition BOOT_SECTOR_COUNT :: int where "BOOT_SECTOR_COUNT = 16"
definition ELF_BUF_SIZE :: int where "ELF_BUF_SIZE = 0x200"

partial_function (option) disk_wait_ready :: "'s port_io \<Rightarrow> 's \<Rightarrow> (int \<times> 's) option" where
  "disk_wait_ready io s =
     (let (status, s) = inb io (ATA_IO_PORT_BASE + ATA_OFFSET_STATUS) s in
      if status AND ATA_STATUS_BUSY \<noteq> 0 then disk_wait_ready io s
      else Some (if status AND (ATA_STATUS_ERROR OR ATA_STATUS_DF) \<noteq> 0 then -1 else 0, s))"

partial_function (option) disk_wait_drq :: "'s port_io \<Rightarrow> 's \<Rightarrow> (int \<times> 's) option" where
  "disk_wait_drq io s =
     (let (status, s) = inb io (ATA_IO_PORT_BASE + ATA_OFFSET_STATUS) s in
      if status AND ATA_STATUS_BUSY \<noteq> 0 then disk_wait_drq io s
      else if status AND ATA_STATUS_DRQ \<noteq> 0 then Some (0, s)
      else if status AND (ATA_STATUS_ERROR OR ATA_STATUS_DF) \<noteq> 0 then Some (-1, s)
      else disk_wait_drq io s)"

declare disk_wait_ready.simps [code] disk_wait_drq.simps [code]

text \<open>The instruction \<open>rep insl\<close> reads the port again and again.\<close>

fun insl :: "'s port_io \<Rightarrow> u16 \<Rightarrow> nat \<Rightarrow> 's \<Rightarrow> u32 list \<times> 's" where
  "insl io port 0 s = ([], s)"
| "insl io port (Suc n) s =
     (let (w, s) = inl io port s; (ws, s) = insl io port n s in (w # ws, s))"

definition word_bytes :: "u32 list \<Rightarrow> byte list" where
  "word_bytes ws = concat (map (\<lambda>w. le_bytes 4 (ucast w)) ws)"

text \<open>Both waits give a status that the caller does not look at.\<close>

definition disk_read_sector :: "'s port_io \<Rightarrow> addr \<Rightarrow> u32 \<Rightarrow> memory \<Rightarrow> 's \<Rightarrow> (memory \<times> 's) option" where
  "disk_read_sector io dst lba m s = do {
     (_, s) \<leftarrow> disk_wait_ready io s;
     let s = outb io (ATA_IO_PORT_BASE + ATA_OFFSET_LBA_EXTRA) (ucast ((drop_bit 24 lba AND 0x0f) OR 0xe0)) s;
     let s = outb io (ATA_IO_PORT_BASE + ATA_OFFSET_SECTOR_COUNT) 1 s;
     let s = outb io (ATA_IO_PORT_BASE + ATA_OFFSET_LBA_LOW) (ucast lba) s;
     let s = outb io (ATA_IO_PORT_BASE + ATA_OFFSET_LBA_MID) (ucast (drop_bit 8 lba)) s;
     let s = outb io (ATA_IO_PORT_BASE + ATA_OFFSET_LBA_HIGH) (ucast (drop_bit 16 lba)) s;
     let s = outb io (ATA_IO_PORT_BASE + ATA_OFFSET_COMMAND) ATA_COMMAND_READ_PIO s;
     (_, s) \<leftarrow> disk_wait_drq io s;
     let (ws, s) = insl io ATA_IO_PORT_BASE (nat (SECTOR_SIZE div 4)) s;
     Some (mem_write dst (word_bytes ws) m, s)
   }"

partial_function (option) disk_read_loop ::
  "'s port_io \<Rightarrow> addr \<Rightarrow> addr \<Rightarrow> u32 \<Rightarrow> memory \<Rightarrow> 's \<Rightarrow> (memory \<times> 's) option" where
  "disk_read_loop io dst dst_end lba m s =
     (if dst < dst_end then do {
        (m, s) \<leftarrow> disk_read_sector io dst lba m s;
        disk_read_loop io (dst + SECTOR_SIZE) dst_end (lba + 1) m s
      }
      else Some (m, s))"

declare disk_read_loop.simps [code]

text \<open>Sizes are signed, and signed division in C truncates towards 0.\<close>

definition disk_read :: "'s port_io \<Rightarrow> addr \<Rightarrow> sz \<Rightarrow> sz \<Rightarrow> sz \<Rightarrow> memory \<Rightarrow> 's \<Rightarrow> (memory \<times> 's) option" where
  "disk_read io dst count byte_offset sector_offset m s =
     (let dst_end = dst + count;
          lba = word_of_int (byte_offset sdiv SECTOR_SIZE + sector_offset);
          dst = dst - byte_offset smod SECTOR_SIZE in
      disk_read_loop io dst dst_end lba m s)"

section \<open>Loading the kernel\<close>

text \<open>The loop over the program headers; the number counts those that are left. They are read from memory one by one.\<close>

fun load_segments :: "'s port_io \<Rightarrow> nat \<Rightarrow> addr \<Rightarrow> memory \<Rightarrow> 's \<Rightarrow> (memory \<times> 's) option" where
  "load_segments io 0 phdr_iter m s = Some (m, s)"
| "load_segments io (Suc n) phdr_iter m s = do {
     let phdr = elf64_phdr_of (mem_read phdr_iter SIZEOF_ELF64_PHDR m);
     (m, s) \<leftarrow>
       (if ep_type phdr \<noteq> PT_LOAD then Some (m, s)
        else do {
          let paddr = uint (ep_paddr phdr);
          (m, s) \<leftarrow> disk_read io paddr (sint (ep_file_size phdr)) (sint (ep_offset phdr)) BOOT_SECTOR_COUNT m s;
          if ep_mem_size phdr > ep_file_size phdr then
            Some (mem_write (paddr + uint (ep_file_size phdr))
              (replicate (unat (ucast (ep_mem_size phdr - ep_file_size phdr) :: u32)) 0) m, s)
          else Some (m, s)
        });
     load_segments io n (phdr_iter + int SIZEOF_ELF64_PHDR) m s
   }"

datatype load_result = Load_failed | Entered addr

text \<open>\<open>elf_buf\<close> is the address of the buffer for the headers.\<close>

definition load_kernel :: "'s port_io \<Rightarrow> addr \<Rightarrow> memory \<Rightarrow> 's \<Rightarrow> (load_result \<times> memory \<times> 's) option" where
  "load_kernel io elf_buf m s = do {
     let s = outb io ATA_PRIMARY_CONTROL_PORT ATA_CONTROL_NIEN s;
     let s = outb io ATA_SECONDARY_CONTROL_PORT ATA_CONTROL_NIEN s;
     (m, s) \<leftarrow> disk_read io elf_buf (int SIZEOF_ELF64_HDR) 0 BOOT_SECTOR_COUNT m s;
     let elf = elf64_hdr_of (mem_read elf_buf SIZEOF_ELF64_HDR m);
     if \<not> elf64_is_valid elf then Some (Load_failed, m, s)
     else do {
       let n_load = sint (eh_phdr_tab_offset elf + of_int (uint (eh_phdr_size elf) * uint (eh_phdr_count elf)));
       if n_load > ELF_BUF_SIZE then Some (Load_failed, m, s)
       else do {
         (m, s) \<leftarrow> disk_read io elf_buf n_load 0 BOOT_SECTOR_COUNT m s;
         let elf = elf64_hdr_of (mem_read elf_buf SIZEOF_ELF64_HDR m);
         (m, s) \<leftarrow> load_segments io (unat (eh_phdr_count elf)) (elf_buf + uint (eh_phdr_tab_offset elf)) m s;
         Some (Entered (uint (eh_entry (elf64_hdr_of (mem_read elf_buf SIZEOF_ELF64_HDR m)))), m, s)
       }
     }
   }"

end
