(* ===== verification/BootProps.thy ===== *)
theory BootProps
  imports Boot
begin

text \<open>
  What the boot loader promises: with a disk that follows the ATA protocol, the segments of the kernel are in memory,
  and the loader jumps to its entry point.
\<close>

section \<open>A disk that follows the protocol\<close>

text \<open>
  The documented behaviour of an ATA disk with 28-bit addresses, as it is observed at its ports: \<open>busy\<close> is the number of
  status reads before it is ready, \<open>regs\<close> its registers, \<open>fifo\<close> the words of the sector that it has to transfer.
\<close>

definition lba28 :: "(u16 \<Rightarrow> u8) \<Rightarrow> nat" where
  "lba28 regs = unat (regs 3) + 256 * unat (regs 4) + 65536 * unat (regs 5) + 16777216 * unat (regs 6 AND 0xf)"

definition ata_disk ::
  "'s port_io \<Rightarrow> (nat \<Rightarrow> u32 list) \<Rightarrow> ('s \<Rightarrow> nat) \<Rightarrow> ('s \<Rightarrow> u16 \<Rightarrow> u8) \<Rightarrow> ('s \<Rightarrow> u32 list) \<Rightarrow> bool" where
  "ata_disk io sector busy regs fifo \<longleftrightarrow>
     (\<forall>n. length (sector n) = 128) \<and>
     (\<forall>s v s'. inb io (ATA_IO_PORT_BASE + ATA_OFFSET_STATUS) s = (v, s') \<longrightarrow>
        regs s' = regs s \<and> fifo s' = fifo s \<and> busy s' = busy s - 1 \<and> bit v 7 = (0 < busy s) \<and>
        (busy s = 0 \<longrightarrow> \<not> bit v 0 \<and> \<not> bit v 5 \<and> bit v 3 = (fifo s \<noteq> []))) \<and>
     (\<forall>s v. \<forall>k \<in> {2, 3, 4, 5, 6}. let s' = outb io (ATA_IO_PORT_BASE + k) v s in
        regs s' = (regs s)(k := v) \<and> fifo s' = fifo s \<and> busy s' = busy s) \<and>
     (\<forall>s. regs s 2 = 1 \<and> regs s 6 AND 0xe0 = 0xe0 \<longrightarrow>
        fifo (outb io (ATA_IO_PORT_BASE + ATA_OFFSET_COMMAND) ATA_COMMAND_READ_PIO s) = sector (lba28 (regs s))) \<and>
     (\<forall>s w ws. fifo s = w # ws \<longrightarrow> (\<exists>s'. inl io ATA_IO_PORT_BASE s = (w, s') \<and> fifo s' = ws)) \<and>
     (\<forall>s v. \<forall>port \<in> {ATA_PRIMARY_CONTROL_PORT, ATA_SECONDARY_CONTROL_PORT}. fifo (outb io port v s) = fifo s)"

lemma ata_diskD:
  assumes "ata_disk io sector busy regs fifo"
  shows "length (sector n) = 128"
    and "inb io (ATA_IO_PORT_BASE + ATA_OFFSET_STATUS) s = (v, s') \<Longrightarrow>
      regs s' = regs s \<and> fifo s' = fifo s \<and> busy s' = busy s - 1 \<and> bit v 7 = (0 < busy s) \<and>
      (busy s = 0 \<longrightarrow> bit v 3 = (fifo s \<noteq> []))"
    and "k \<in> {2, 3, 4, 5, 6} \<Longrightarrow> regs (outb io (ATA_IO_PORT_BASE + k) x s) = (regs s)(k := x)"
    and "regs s 2 = 1 \<Longrightarrow> regs s 6 AND 0xe0 = 0xe0 \<Longrightarrow>
      fifo (outb io (ATA_IO_PORT_BASE + ATA_OFFSET_COMMAND) ATA_COMMAND_READ_PIO s) = sector (lba28 (regs s))"
    and "fifo s = w # ws \<Longrightarrow> \<exists>s'. inl io ATA_IO_PORT_BASE s = (w, s') \<and> fifo s' = ws"
  using assms unfolding ata_disk_def Let_def by blast+

text \<open>The bytes of the disk.\<close>

definition disk_byte :: "(nat \<Rightarrow> u32 list) \<Rightarrow> nat \<Rightarrow> byte" where
  "disk_byte sector i = word_bytes (sector (i div 512)) ! (i mod 512)"

lemma word_bytes_length [simp]: "length (word_bytes ws) = 4 * length ws"
  by (induction ws) (simp_all add: word_bytes_def)

section \<open>Reading a sector\<close>

lemma and_BIT: "(v AND BIT n = 0) = (\<not> bit (v :: 8 word) n)" if "n < 8"
proof
  assume "v AND BIT n = 0"
  then have "\<not> bit (v AND BIT n) n" by simp
  then show "\<not> bit v n" using that by (simp add: bit_and_iff)
next
  assume "\<not> bit v n"
  then show "v AND BIT n = 0" by (intro bit_word_eqI) (auto simp: bit_and_iff)
qed

lemma wait_ready_ok:
  assumes "ata_disk io sector busy regs fifo"
  shows "\<exists>r s'. disk_wait_ready io s = Some (r, s') \<and> regs s' = regs s \<and> fifo s' = fifo s"
proof (induction "busy s" arbitrary: s rule: less_induct)
  case less
  obtain v s1 where r: "inb io (ATA_IO_PORT_BASE + ATA_OFFSET_STATUS) s = (v, s1)" by fastforce
  have p: "regs s1 = regs s" "fifo s1 = fifo s" "busy s1 = busy s - 1" "bit v 7 = (0 < busy s)"
    using ata_diskD(2) [OF assms r] by auto
  show ?case
  proof (cases "busy s = 0")
    case True
    then show ?thesis using p r by (subst disk_wait_ready.simps) (simp add: ATA_STATUS_BUSY_def and_BIT)
  next
    case False
    then have "busy s1 < busy s" using p by simp
    from less [OF this] obtain r' s' where "disk_wait_ready io s1 = Some (r', s')" "regs s' = regs s1" "fifo s' = fifo s1" by blast
    then show ?thesis using p r False by (subst disk_wait_ready.simps) (simp add: ATA_STATUS_BUSY_def and_BIT)
  qed
qed

lemma wait_drq_ok:
  assumes "ata_disk io sector busy regs fifo" "fifo s \<noteq> []"
  shows "\<exists>s'. disk_wait_drq io s = Some (0, s') \<and> fifo s' = fifo s"
  using assms(2)
proof (induction "busy s" arbitrary: s rule: less_induct)
  case less
  obtain v s1 where r: "inb io (ATA_IO_PORT_BASE + ATA_OFFSET_STATUS) s = (v, s1)" by fastforce
  have p: "fifo s1 = fifo s" "busy s1 = busy s - 1" "bit v 7 = (0 < busy s)" "busy s = 0 \<longrightarrow> bit v 3 = (fifo s \<noteq> [])"
    using ata_diskD(2) [OF assms(1) r] by auto
  show ?case
  proof (cases "busy s = 0")
    case True
    then show ?thesis using p r less.prems
      by (subst disk_wait_drq.simps) (simp add: ATA_STATUS_BUSY_def ATA_STATUS_DRQ_def and_BIT)
  next
    case False
    then have "busy s1 < busy s" using p by simp
    from less.hyps [OF this] obtain s' where "disk_wait_drq io s1 = Some (0, s')" "fifo s' = fifo s1" using p less.prems by auto
    then show ?thesis using p r False by (subst disk_wait_drq.simps) (simp add: ATA_STATUS_BUSY_def and_BIT)
  qed
qed

lemma insl_fifo:
  assumes "ata_disk io sector busy regs fifo" "fifo s = ws"
  shows "\<exists>s'. insl io ATA_IO_PORT_BASE (length ws) s = (ws, s') \<and> fifo s' = []"
  using assms(2)
proof (induction ws arbitrary: s)
  case (Cons w ws)
  obtain s1 where s1: "inl io ATA_IO_PORT_BASE s = (w, s1)" "fifo s1 = ws" using ata_diskD(5) [OF assms(1) Cons.prems] by blast
  then show ?case using Cons.IH [OF s1(2)] by auto
qed simp

lemma low_nibble:
  fixes w :: u32
  shows "(ucast (w AND 0xf OR 0xe0) :: u8) AND 0xf = ucast w AND 0xf" "(ucast (w AND 0xf OR 0xe0) :: u8) AND 0xe0 = 0xe0"
proof -
  have n: "n < LENGTH(8) \<Longrightarrow> n = 0 \<or> n = 1 \<or> n = 2 \<or> n = 3 \<or> n = 4 \<or> n = 5 \<or> n = 6 \<or> n = 7" for n :: nat by auto
  show "(ucast (w AND 0xf OR 0xe0) :: u8) AND 0xf = ucast w AND 0xf"
    by (rule bit_word_eqI, drule n, elim disjE, simp_all add: bit_simps)
  show "(ucast (w AND 0xf OR 0xe0) :: u8) AND 0xe0 = 0xe0"
    by (rule bit_word_eqI, drule n, elim disjE, simp_all add: bit_simps)
qed

lemma unat_byte: "unat (ucast (drop_bit n (w :: u32)) :: u8) = unat w div 2 ^ n mod 256"
  by (simp only: unsigned_ucast_eq unsigned_drop_bit_eq)
    (simp add: take_bit_nat_eq_self unsigned_less [of w, simplified] take_bit_eq_mod drop_bit_eq_div)

lemma base_256:
  assumes "n < (2 :: nat) ^ 28"
  shows "n mod 256 + 256 * (n div 256 mod 256) + 65536 * (n div 65536 mod 256) + 16777216 * (n div 16777216 mod 16) = n"
proof -
  have "n mod 256 + 256 * (n div 256) = n" by simp
  moreover have "n div 256 mod 256 + 256 * (n div 256 div 256) = n div 256" by simp
  moreover have "n div 256 div 256 = n div 65536" by (simp add: div_mult2_eq [symmetric])
  moreover have "n div 65536 mod 256 + 256 * (n div 65536 div 256) = n div 65536" by simp
  moreover have "n div 65536 div 256 = n div 16777216" by (simp add: div_mult2_eq [symmetric])
  moreover have "n div 16777216 mod 16 = n div 16777216" using assms by (simp add: div_less_iff_less_mult)
  ultimately show ?thesis by linarith
qed

lemma lba28_word:
  assumes "unat lba < 2 ^ 28" "r 3 = ucast lba" "r 4 = ucast (drop_bit 8 lba)" "r 5 = ucast (drop_bit 16 lba)"
    and "r 6 = ucast ((drop_bit 24 lba AND 0x0f) OR 0xe0 :: u32)"
  shows "lba28 r = unat lba" "r 6 AND 0xe0 = 0xe0"
proof -
  let ?n = "unat lba"
  have "r 6 AND 0xf = take_bit 4 (ucast (drop_bit 24 lba))"
    unfolding assms(5) low_nibble by (simp add: take_bit_eq_mask mask_numeral)
  then have "unat (r 6 AND 0xf) = take_bit 4 (unat (ucast (drop_bit 24 lba) :: u8))" by (simp only: unsigned_take_bit_eq)
  then have "unat (r 6 AND 0xf) = ?n div 16777216 mod 16" unfolding unat_byte by (simp add: take_bit_eq_mod mod_mod_cancel)
  moreover have "unat (r 3) = ?n mod 256" "unat (r 4) = ?n div 256 mod 256" "unat (r 5) = ?n div 65536 mod 256"
    using unat_byte [of 0 lba] unat_byte [of 8 lba] unat_byte [of 16 lba] unfolding assms(2-4) drop_bit_0 id_apply by simp_all
  ultimately show "lba28 r = unat lba" using base_256 [OF assms(1)] unfolding lba28_def by simp
  show "r 6 AND 0xe0 = 0xe0" unfolding assms(5) by (rule low_nibble)
qed

lemma read_sector_ok:
  assumes "ata_disk io sector busy regs fifo" "unat lba < 2 ^ 28"
  shows "\<exists>s'. disk_read_sector io dst lba m s = Some (mem_write dst (word_bytes (sector (unat lba))) m, s')"
proof -
  obtain r s1 where s1: "disk_wait_ready io s = Some (r, s1)"
    using wait_ready_ok [OF assms(1)] by blast
  define s2 where "s2 = outb io (ATA_IO_PORT_BASE + 6) (ucast ((drop_bit 24 lba AND 0x0f) OR 0xe0)) s1"
  define s3 where "s3 = outb io (ATA_IO_PORT_BASE + 2) 1 s2"
  define s4 where "s4 = outb io (ATA_IO_PORT_BASE + 3) (ucast lba) s3"
  define s5 where "s5 = outb io (ATA_IO_PORT_BASE + 4) (ucast (drop_bit 8 lba)) s4"
  define s6 where "s6 = outb io (ATA_IO_PORT_BASE + 5) (ucast (drop_bit 16 lba)) s5"
  define s7 where "s7 = outb io (ATA_IO_PORT_BASE + ATA_OFFSET_COMMAND) ATA_COMMAND_READ_PIO s6"
  have reg: "regs (outb io (ATA_IO_PORT_BASE + k) v x) = (regs x)(k := v)" if "k \<in> {2, 3, 4, 5, 6}" for k v x
    using ata_diskD(3) [OF assms(1) that] .
  have regs: "regs s6 2 = 1" "regs s6 3 = ucast lba" "regs s6 4 = ucast (drop_bit 8 lba)" "regs s6 5 = ucast (drop_bit 16 lba)"
    "regs s6 6 = ucast ((drop_bit 24 lba AND 0x0f) OR 0xe0)"
    by (simp_all add: s6_def s5_def s4_def s3_def s2_def reg)
  note l = lba28_word [OF assms(2) regs(2-5)]
  have f7: "fifo s7 = sector (unat lba)" using ata_diskD(4) [OF assms(1) regs(1) l(2)] l(1) by (simp add: s7_def)
  moreover have len: "length (sector (unat lba)) = 128" using ata_diskD(1) [OF assms(1)] .
  ultimately have "fifo s7 \<noteq> []" by auto
  then obtain s8 where s8: "disk_wait_drq io s7 = Some (0, s8)" "fifo s8 = sector (unat lba)"
    using wait_drq_ok [OF assms(1)] f7 by metis
  obtain s9 where s9: "insl io ATA_IO_PORT_BASE 128 s8 = (sector (unat lba), s9)"
    using insl_fifo [OF assms(1) s8(2)] len by auto
  show ?thesis
    using s1 s8(1) s9
    by (simp add: disk_read_sector_def Let_def ATA_OFFSET_LBA_EXTRA_def ATA_OFFSET_SECTOR_COUNT_def ATA_OFFSET_LBA_LOW_def
        ATA_OFFSET_LBA_MID_def ATA_OFFSET_LBA_HIGH_def SECTOR_SIZE_def
        s2_def [symmetric] s3_def [symmetric] s4_def [symmetric] s5_def [symmetric] s6_def [symmetric] s7_def [symmetric])
qed

section \<open>Reading from the disk\<close>

lemma mem_write_at: "mem_write p bs m a = (if p \<le> a \<and> a < p + int (length bs) then bs ! nat (a - p) else m a)"
  by (simp add: mem_write_def)

lemma disk_read_loop_ok:
  assumes "ata_disk io sector busy regs fifo" "l + k < 2 ^ 28" "dst_end - dst \<le> 512 * int k" "512 * int k < dst_end - dst + 512"
  shows "\<exists>m' s'. disk_read_loop io dst dst_end (of_nat l) m s = Some (m', s') \<and>
    (\<forall>a. m' a = (if dst \<le> a \<and> a < dst + 512 * int k then disk_byte sector (512 * l + nat (a - dst)) else m a))"
  using assms(2-4)
proof (induction k arbitrary: dst l m s)
  case 0
  then show ?case by (subst disk_read_loop.simps) auto
next
  case (Suc k)
  have lt: "dst < dst_end" using Suc.prems(3) by simp
  have lu: "unat (of_nat l :: u32) = l" using Suc.prems(1) by (simp add: unsigned_of_nat take_bit_nat_eq_self)
  obtain s1 where s1: "disk_read_sector io dst (of_nat l) m s = Some (mem_write dst (word_bytes (sector l)) m, s1)"
    using read_sector_ok [OF assms(1), of "of_nat l" dst m s] Suc.prems(1) lu by auto
  let ?m = "mem_write dst (word_bytes (sector l)) m"
  obtain m' s' where IH: "disk_read_loop io (dst + 512) dst_end (of_nat (Suc l)) ?m s1 = Some (m', s')"
    "\<forall>a. m' a = (if dst + 512 \<le> a \<and> a < dst + 512 + 512 * int k then disk_byte sector (512 * Suc l + nat (a - (dst + 512))) else ?m a)"
    using Suc.IH [of "Suc l" "dst + 512" ?m s1] Suc.prems by auto
  have "disk_read_loop io dst dst_end (of_nat l) m s = Some (m', s')"
    using lt s1 IH(1) by (subst disk_read_loop.simps) (simp add: SECTOR_SIZE_def add.commute)
  moreover have "m' a = (if dst \<le> a \<and> a < dst + 512 * int (Suc k) then disk_byte sector (512 * l + nat (a - dst)) else m a)" for a
  proof -
    consider "dst + 512 \<le> a" | "dst \<le> a" "a < dst + 512" | "a < dst" by linarith
    then show ?thesis
    proof cases
      case 1
      then have "512 * Suc l + nat (a - (dst + 512)) = 512 * l + nat (a - dst)" by simp
      then show ?thesis using 1 IH(2) [rule_format, of a] ata_diskD(1) [OF assms(1), of l]
        by (simp add: mem_write_at del: mult_Suc_right)
    next
      case 2
      then have "(512 * l + nat (a - dst)) div 512 = l" "(512 * l + nat (a - dst)) mod 512 = nat (a - dst)" by auto
      then show ?thesis using 2 IH(2) ata_diskD(1) [OF assms(1), of l] by (simp add: mem_write_at disk_byte_def)
    next
      case 3
      then show ?thesis using IH(2) by (simp add: mem_write_at)
    qed
  qed
  ultimately show ?case by blast
qed

text \<open>The kernel image is on the disk behind the boot loader.\<close>

definition image_byte :: "(nat \<Rightarrow> u32 list) \<Rightarrow> int \<Rightarrow> byte" where
  "image_byte sector i = disk_byte sector (nat (512 * BOOT_SECTOR_COUNT + i))"

text \<open>
  Only whole sectors are read, so that memory before and behind the part that is asked for is overwritten, too: with what
  the image has around it.
\<close>

definition read_beg :: "addr \<Rightarrow> int \<Rightarrow> addr" where
  "read_beg dst off = dst - off mod 512"

definition read_end :: "addr \<Rightarrow> int \<Rightarrow> int \<Rightarrow> addr" where
  "read_end dst count off = read_beg dst off + 512 * ((count + off mod 512 + 511) div 512)"

lemma sector_count: "512 * x + y = off \<Longrightarrow> 512 * z \<le> count + y + 511 \<Longrightarrow> 512 * (x + 16 + z) \<le> off + count + (8703 :: int)"
  by simp

lemma truncated_division: "0 \<le> x \<Longrightarrow> x sdiv 512 = x div 512 \<and> x smod 512 = (x mod 512 :: int)"
  by (cases "x = 0") (simp_all add: signed_divide_int_def signed_modulo_int_def minus_div_mult_eq_mod)

lemma disk_read_ok:
  assumes "ata_disk io sector busy regs fifo" "0 \<le> count" "0 \<le> off" "off + count < 2 ^ 36"
  shows "\<exists>m' s'. disk_read io dst count off BOOT_SECTOR_COUNT m s = Some (m', s') \<and>
    (\<forall>a. m' a = (if read_beg dst off \<le> a \<and> a < read_end dst count off then image_byte sector (off + (a - dst)) else m a))"
proof -
  define k where "k = nat ((count + off mod 512 + 511) div 512)"
  define l where "l = nat (off div 512 + 16)"
  have "0 \<le> off mod 512" "off mod 512 < 512" by simp_all
  then have kk: "int k = (count + off mod 512 + 511) div 512" using assms(2) by (simp add: k_def)
  have ll: "int l = off div 512 + 16" using assms(3) by (simp add: l_def)
  have "512 * (off div 512) + off mod 512 = off" by simp
  moreover have "512 * ((count + off mod 512 + 511) div 512) \<le> count + off mod 512 + 511" by simp
  ultimately have "512 * (int l + int k) \<le> off + count + 8703" unfolding kk ll by (rule sector_count)
  then have bound: "l + k < 2 ^ 28" using assms(4) by simp
  have c: "(dst + count) - read_beg dst off \<le> 512 * int k" "512 * int k < (dst + count) - read_beg dst off + 512"
    unfolding kk read_beg_def by linarith+
  obtain m' s' where r: "disk_read_loop io (read_beg dst off) (dst + count) (of_nat l) m s = Some (m', s')"
    "\<forall>a. m' a = (if read_beg dst off \<le> a \<and> a < read_beg dst off + 512 * int k
       then disk_byte sector (512 * l + nat (a - read_beg dst off)) else m a)"
    using disk_read_loop_ok [OF assms(1) bound c] by blast
  have "word_of_int (off div 512 + 16) = (of_nat l :: u32)" using ll by (metis of_int_of_nat_eq)
  then have "disk_read io dst count off BOOT_SECTOR_COUNT m s = Some (m', s')"
    using r(1) truncated_division [OF assms(3)] by (simp add: disk_read_def Let_def SECTOR_SIZE_def BOOT_SECTOR_COUNT_def read_beg_def)
  moreover have "512 * l + nat (a - read_beg dst off) = nat (512 * BOOT_SECTOR_COUNT + (off + (a - dst)))" if "read_beg dst off \<le> a" for a
  proof -
    have "int (512 * l + nat (a - read_beg dst off)) = 512 * (off div 512 + 16) + (a - read_beg dst off)"
      using that ll by simp
    also have "\<dots> = 512 * BOOT_SECTOR_COUNT + (off + (a - dst))" by (simp add: read_beg_def BOOT_SECTOR_COUNT_def)
    finally show ?thesis by linarith
  qed
  ultimately show ?thesis using r(2) kk by (intro exI [of _ m'] exI [of _ s']) (simp add: read_end_def image_byte_def)
qed

section \<open>Segments\<close>

definition loads :: "elf64_phdr list \<Rightarrow> elf64_phdr list" where
  "loads phs = [p \<leftarrow> phs. ep_type p = PT_LOAD]"

definition seg_fits :: "elf64_phdr \<Rightarrow> bool" where
  "seg_fits p \<longleftrightarrow> uint (ep_offset p) + uint (ep_file_size p) < 2 ^ 36 \<and> ep_file_size p \<le> ep_mem_size p \<and>
     uint (ep_mem_size p) < 2 ^ 32"

text \<open>The memory that loading a segment may write to.\<close>

definition seg_beg :: "elf64_phdr \<Rightarrow> addr" where
  "seg_beg p = read_beg (uint (ep_paddr p)) (uint (ep_offset p))"

definition seg_end :: "elf64_phdr \<Rightarrow> addr" where
  "seg_end p = max (read_end (uint (ep_paddr p)) (uint (ep_file_size p)) (uint (ep_offset p)))
     (uint (ep_paddr p) + uint (ep_mem_size p))"

definition touches :: "elf64_phdr \<Rightarrow> addr \<Rightarrow> bool" where
  "touches p a \<longleftrightarrow> seg_beg p \<le> a \<and> a < seg_end p"

text \<open>A segment is in memory: its bytes of the file, then zeros.\<close>

definition loaded :: "(nat \<Rightarrow> u32 list) \<Rightarrow> elf64_phdr \<Rightarrow> memory \<Rightarrow> bool" where
  "loaded sector p m \<longleftrightarrow> (\<forall>j. 0 \<le> j \<longrightarrow> j < uint (ep_mem_size p) \<longrightarrow>
     m (uint (ep_paddr p) + j) = (if j < uint (ep_file_size p) then image_byte sector (uint (ep_offset p) + j) else 0))"

text \<open>No segment is touched by those that are loaded later, nor are the headers.\<close>

definition apart :: "elf64_phdr \<Rightarrow> addr \<Rightarrow> int \<Rightarrow> bool" where
  "apart q a n \<longleftrightarrow> seg_end q \<le> a \<or> a + n \<le> seg_beg q"

fun separated :: "elf64_phdr list \<Rightarrow> bool" where
  "separated [] = True"
| "separated (p # ps) \<longleftrightarrow> (\<forall>q \<in> set ps. apart q (uint (ep_paddr p)) (uint (ep_mem_size p))) \<and> separated ps"

lemma apart_touches: "apart q a n \<Longrightarrow> a \<le> x \<Longrightarrow> x < a + n \<Longrightarrow> \<not> touches q x"
  by (auto simp: apart_def touches_def)

lemma read_end_ge: "dst + count \<le> read_end dst count off"
  unfolding read_end_def read_beg_def by linarith

definition load_segment :: "'s port_io \<Rightarrow> elf64_phdr \<Rightarrow> memory \<Rightarrow> 's \<Rightarrow> (memory \<times> 's) option" where
  "load_segment io phdr m s = do {
     (m, s) \<leftarrow> disk_read io (uint (ep_paddr phdr)) (sint (ep_file_size phdr)) (sint (ep_offset phdr)) BOOT_SECTOR_COUNT m s;
     if ep_mem_size phdr > ep_file_size phdr then
       Some (mem_write (uint (ep_paddr phdr) + uint (ep_file_size phdr))
         (replicate (unat (ucast (ep_mem_size phdr - ep_file_size phdr) :: u32)) 0) m, s)
     else Some (m, s)
   }"

lemma sint_small:
  assumes "uint (w :: u64) < 2 ^ 36"
  shows "sint w = uint w"
proof -
  have "- (2 ^ 63) \<le> uint w" by (rule order_trans [OF _ uint_ge_0]) simp
  moreover have "uint w < 2 ^ 63" using assms by simp
  ultimately have "signed_take_bit 63 (uint w) = uint w" by (rule signed_take_bit_int_eq_self)
  then show ?thesis by (simp add: sint_uint)
qed

lemma uint_add_int: "uint (x + of_int k :: u64) = (uint x + k) mod 2 ^ 64"
proof -
  have "x + of_int k = word_of_int (uint x + k)" by simp
  then show ?thesis by (simp only: uint_word_of_int_eq take_bit_eq_mod) simp
qed

lemma minus_below: "uint (n :: u64) < b \<Longrightarrow> uint n - uint (f :: u64) < b"
  using uint_ge_0 [of f] by linarith

lemma zeros_count:
  assumes "f \<le> (n :: u64)" "uint n < 2 ^ 32"
  shows "int (unat (ucast (n - f) :: u32)) = uint n - uint f"
proof -
  have "uint f \<le> uint n" using assms(1) by (simp add: word_le_def)
  moreover have "uint n - uint f < 2 ^ 64"
  proof -
    have "uint n - uint f \<le> uint n" by simp
    also have "\<dots> < 2 ^ 64" using assms(2) by simp
    finally show ?thesis .
  qed
  ultimately have "uint (n - f) = uint n - uint f"
    by (simp only: uint_word_ariths) (rule mod_pos_pos_trivial; simp)
  moreover have "int (unat (ucast (n - f) :: u32)) = uint (n - f) mod 2 ^ 32"
    
    by (simp only: unsigned_ucast_eq take_bit_eq_mod zmod_int) simp
  ultimately show ?thesis using assms(2) \<open>uint f \<le> uint n\<close> by (simp add: minus_below mod_pos_pos_trivial)
qed

lemma load_segment_ok:
  assumes "ata_disk io sector busy regs fifo" "seg_fits p"
  shows "\<exists>m' s'. load_segment io p m s = Some (m', s') \<and> loaded sector p m' \<and> (\<forall>a. \<not> touches p a \<longrightarrow> m' a = m a)"
proof -
  let ?p = "uint (ep_paddr p)" and ?f = "uint (ep_file_size p)" and ?o = "uint (ep_offset p)" and ?n = "uint (ep_mem_size p)"
  have fits: "?o + ?f < 2 ^ 36" "ep_file_size p \<le> ep_mem_size p" "?n < 2 ^ 32" using assms(2) by (auto simp: seg_fits_def)
  have nn: "0 \<le> ?f" "0 \<le> ?o" by simp_all
  have "?f < 2 ^ 36" "?o < 2 ^ 36" using fits(1) nn by linarith+
  then have si: "sint (ep_file_size p) = ?f" "sint (ep_offset p) = ?o" by (simp_all add: sint_small)
  obtain m1 s1 where r: "disk_read io ?p ?f ?o BOOT_SECTOR_COUNT m s = Some (m1, s1)"
    "\<forall>a. m1 a = (if seg_beg p \<le> a \<and> a < read_end ?p ?f ?o then image_byte sector (?o + (a - ?p)) else m a)"
    using disk_read_ok [OF assms(1) nn fits(1)] unfolding seg_beg_def by blast
  define m2 where "m2 = (if ep_mem_size p > ep_file_size p then
    mem_write (?p + ?f) (replicate (unat (ucast (ep_mem_size p - ep_file_size p) :: u32)) 0) m1 else m1)"
  have m2: "m2 a = (if ?p + ?f \<le> a \<and> a < ?p + ?n then 0 else m1 a)" for a
  proof (cases "ep_mem_size p > ep_file_size p")
    case True
    define c where "c = unat (ucast (ep_mem_size p - ep_file_size p) :: u32)"
    have "int c = ?n - ?f" unfolding c_def by (rule zeros_count [OF fits(2,3)])
    moreover have "m2 = mem_write (?p + ?f) (replicate c 0) m1" using True by (simp add: m2_def c_def)
    ultimately show ?thesis by (auto simp: mem_write_at nat_less_iff)
  next
    case False
    then have "?n = ?f" using fits(2) by simp
    then show ?thesis using False by (auto simp: m2_def)
  qed
  have b: "seg_beg p \<le> ?p" by (simp add: seg_beg_def read_beg_def)
  have e: "?p + ?f \<le> read_end ?p ?f ?o" "read_end ?p ?f ?o \<le> seg_end p" "?p + ?n \<le> seg_end p"
    using read_end_ge by (simp_all add: seg_end_def)
  have "load_segment io p m s = Some (m2, s1)" using r(1) by (simp add: load_segment_def si m2_def)
  moreover have "loaded sector p m2" unfolding loaded_def using r(2) b e(1) by (simp add: m2)
  moreover have "\<forall>a. \<not> touches p a \<longrightarrow> m2 a = m a" unfolding touches_def
  proof (intro allI impI)
    fix a assume "\<not> (seg_beg p \<le> a \<and> a < seg_end p)"
    then have "\<not> (?p + ?f \<le> a \<and> a < ?p + ?n)" "\<not> (seg_beg p \<le> a \<and> a < read_end ?p ?f ?o)" using b e nn by linarith+
    then show "m2 a = m a" by (simp only: m2 r(2) [rule_format] if_False simp_thms)
  qed
  ultimately show ?thesis by blast
qed

lemma mem_read_cong: "\<forall>a. p \<le> a \<and> a < p + int n \<longrightarrow> m a = m' a \<Longrightarrow> mem_read p n m = mem_read p n m'"
  by (auto simp: mem_read_def)

lemma load_segments_Suc:
  "load_segments io (Suc n) it m s =
     (let phdr = elf64_phdr_of (mem_read it SIZEOF_ELF64_PHDR m) in
      if ep_type phdr \<noteq> PT_LOAD then load_segments io n (it + 56) m s
      else do { (m, s) \<leftarrow> load_segment io phdr m s; load_segments io n (it + 56) m s })"
  by (simp add: load_segment_def Let_def SIZEOF_ELF64_PHDR_def)

lemma load_segments_ok:
  assumes "ata_disk io sector busy regs fifo"
    and "\<forall>p \<in> set (loads phs). seg_fits p \<and> apart p buf 512" "buf \<le> it" "it + 56 * int (length phs) \<le> buf + 512"
    and "\<forall>i < length phs. elf64_phdr_of (mem_read (it + 56 * int i) SIZEOF_ELF64_PHDR m) = phs ! i" "separated (loads phs)"
  shows "\<exists>m' s'. load_segments io (length phs) it m s = Some (m', s') \<and> (\<forall>p \<in> set (loads phs). loaded sector p m') \<and>
    (\<forall>a. (\<forall>p \<in> set (loads phs). \<not> touches p a) \<longrightarrow> m' a = m a)"
  using assms(2-)
proof (induction phs arbitrary: it m s)
  case Nil
  then show ?case by (simp add: loads_def)
next
  case (Cons p phs)
  have p: "elf64_phdr_of (mem_read it SIZEOF_ELF64_PHDR m) = p" using Cons.prems(4) [rule_format, of 0] by simp
  have rest: "\<forall>i < length phs. elf64_phdr_of (mem_read (it + 56 + 56 * int i) SIZEOF_ELF64_PHDR m) = phs ! i"
  proof (intro allI impI)
    fix i assume "i < length phs"
    then show "elf64_phdr_of (mem_read (it + 56 + 56 * int i) SIZEOF_ELF64_PHDR m) = phs ! i"
      using Cons.prems(4) [rule_format, of "Suc i"] by (simp add: algebra_simps)
  qed
  show ?case
  proof (cases "ep_type p = PT_LOAD")
    case False
    then have l: "loads (p # phs) = loads phs" by (simp add: loads_def)
    then show ?thesis using Cons.IH [OF _ _ _ rest, of s] Cons.prems False
      by (simp add: load_segments_Suc p Let_def del: load_segments.simps)
  next
    case True
    then have l: "loads (p # phs) = p # loads phs" by (simp add: loads_def)
    obtain m1 s1 where m1: "load_segment io p m s = Some (m1, s1)" "loaded sector p m1" "\<forall>a. \<not> touches p a \<longrightarrow> m1 a = m a"
      using load_segment_ok [OF assms(1), of p m s] Cons.prems(1) l by auto
    have ap: "apart p buf 512" using Cons.prems(1) l by simp
    have "\<forall>i < length phs. elf64_phdr_of (mem_read (it + 56 + 56 * int i) SIZEOF_ELF64_PHDR m1) = phs ! i"
    proof (intro allI impI)
      fix i assume i: "i < length phs"
      have "mem_read (it + 56 + 56 * int i) SIZEOF_ELF64_PHDR m1 = mem_read (it + 56 + 56 * int i) SIZEOF_ELF64_PHDR m"
      proof (rule mem_read_cong, intro allI impI)
        fix a assume "it + 56 + 56 * int i \<le> a \<and> a < it + 56 + 56 * int i + int SIZEOF_ELF64_PHDR"
        then have "buf \<le> a" "a < buf + 512" using Cons.prems(2,3) i by (simp_all add: SIZEOF_ELF64_PHDR_def)
        then show "m1 a = m a" using m1(3) apart_touches [OF ap] by blast
      qed
      then show "elf64_phdr_of (mem_read (it + 56 + 56 * int i) SIZEOF_ELF64_PHDR m1) = phs ! i" using rest i by simp
    qed
    from Cons.IH [OF _ _ _ this, of s1] Cons.prems(1,2,3,5) l obtain m2 s2 where
      IH: "load_segments io (length phs) (it + 56) m1 s1 = Some (m2, s2)" "\<forall>q \<in> set (loads phs). loaded sector q m2"
      "\<forall>a. (\<forall>q \<in> set (loads phs). \<not> touches q a) \<longrightarrow> m2 a = m1 a" by auto
    have sep: "\<forall>q \<in> set (loads phs). apart q (uint (ep_paddr p)) (uint (ep_mem_size p))" using Cons.prems(5) l by simp
    have "loaded sector p m2" unfolding loaded_def
    proof (intro allI impI)
      fix j assume j: "0 \<le> j" "j < uint (ep_mem_size p)"
      have "m2 (uint (ep_paddr p) + j) = m1 (uint (ep_paddr p) + j)"
        using IH(3) sep apart_touches j by (metis add_le_cancel_left add.right_neutral add_strict_left_mono)
      then show "m2 (uint (ep_paddr p) + j) =
          (if j < uint (ep_file_size p) then image_byte sector (uint (ep_offset p) + j) else 0)"
        using m1(2) j by (simp add: loaded_def)
    qed
    moreover have "load_segments io (length (p # phs)) it m s = Some (m2, s2)"
      using True m1(1) IH(1) by (simp add: load_segments_Suc p Let_def del: load_segments.simps)
    ultimately show ?thesis using IH(2,3) m1(3) unfolding l by (intro exI [of _ m2] exI [of _ s2]) auto
  qed
qed

section \<open>The kernel is loaded\<close>

lemma image_head:
  assumes "\<forall>a. buf \<le> a \<and> a < buf + 512 \<longrightarrow> m a = image_byte sector (a - buf)" "0 \<le> off" "off + int n \<le> 512"
  shows "mem_read (buf + off) n m = map (\<lambda>i. image_byte sector (off + int i)) [0 ..< n]"
  unfolding mem_read_def
proof (rule map_cong [OF refl])
  fix i assume "i \<in> set [0 ..< n]"
  then have "buf \<le> buf + off + int i" "buf + off + int i < buf + 512" using assms(2,3) by simp_all
  then have "m (buf + off + int i) = image_byte sector (buf + off + int i - buf)" using assms(1) by blast
  then show "m (buf + off + int i) = image_byte sector (off + int i)" by simp
qed

text \<open>
  C33: With a disk that follows the protocol and holds a kernel image whose program headers lie in its first sector, the
  loader ends by entering the kernel at its entry point, with every loadable segment in memory: the bytes of
  the file at its physical address, and zeros behind them up to its size. The segments have to be in an order in which reading whole
  sectors for one does not touch those before it, or the headers.
\<close>

theorem load_kernel_loads:
  assumes "ata_disk io sector busy regs fifo"
    and "hdr = elf64_hdr_of (map (\<lambda>i. image_byte sector (int i)) [0 ..< 64])" "elf64_is_valid hdr"
    and "tab = uint (eh_phdr_tab_offset hdr)" "n = unat (eh_phdr_count hdr)" "tab + 56 * int n \<le> 512"
    and "phs = map (\<lambda>k. elf64_phdr_of (map (\<lambda>i. image_byte sector (tab + 56 * int k + int i)) [0 ..< 56])) [0 ..< n]"
    and "\<forall>p \<in> set (loads phs). seg_fits p \<and> apart p elf_buf 512" "separated (loads phs)"
  shows "\<exists>m' s'. load_kernel io elf_buf m s = Some (Entered (uint (eh_entry hdr)), m', s') \<and>
    (\<forall>p \<in> set (loads phs). loaded sector p m')"
proof -
  let ?s = "outb io ATA_SECONDARY_CONTROL_PORT ATA_CONTROL_NIEN (outb io ATA_PRIMARY_CONTROL_PORT ATA_CONTROL_NIEN s)"
  obtain m1 s1 where r1: "disk_read io elf_buf (int SIZEOF_ELF64_HDR) 0 BOOT_SECTOR_COUNT m ?s = Some (m1, s1)"
    "\<forall>a. m1 a = (if elf_buf \<le> a \<and> a < elf_buf + 512 then image_byte sector (a - elf_buf) else m a)"
    using disk_read_ok [OF assms(1), of "int SIZEOF_ELF64_HDR" 0 elf_buf m ?s]
    by (auto simp: read_beg_def read_end_def SIZEOF_ELF64_HDR_def)
  have h1: "elf64_hdr_of (mem_read elf_buf SIZEOF_ELF64_HDR m1) = hdr"
    using image_head [of elf_buf m1 sector 0 64] r1(2) by (simp add: assms(2) SIZEOF_ELF64_HDR_def)
  have t0: "0 \<le> tab" by (simp add: assms(4))
  have sz: "eh_phdr_size hdr = 56" using assms(3) by (simp add: elf64_is_valid_def SIZEOF_ELF64_PHDR_def)
  define n_load where "n_load = sint (eh_phdr_tab_offset hdr + of_int (uint (eh_phdr_size hdr) * uint (eh_phdr_count hdr)))"
  have nl: "n_load = tab + 56 * int n"
  proof -
    have u: "uint (eh_phdr_count hdr) = int n" by (simp add: assms(5))
    have "uint (eh_phdr_tab_offset hdr + of_int (56 * int n)) = tab + 56 * int n"
      unfolding uint_add_int assms(4) [symmetric] using assms(6) t0 by (intro mod_pos_pos_trivial) simp_all
    then show ?thesis using assms(6) by (simp add: n_load_def sz u sint_small)
  qed
  obtain m2 s2 where r2: "disk_read io elf_buf n_load 0 BOOT_SECTOR_COUNT m1 s1 = Some (m2, s2)"
    "\<forall>a. m2 a = (if elf_buf \<le> a \<and> a < read_end elf_buf n_load 0 then image_byte sector (a - elf_buf) else m1 a)"
    using disk_read_ok [OF assms(1), of n_load 0 elf_buf m1 s1] nl assms(6) t0 by (auto simp: read_beg_def)
  have head: "\<forall>a. elf_buf \<le> a \<and> a < elf_buf + 512 \<longrightarrow> m2 a = image_byte sector (a - elf_buf)" using r1(2) r2(2) by simp
  have h2: "elf64_hdr_of (mem_read elf_buf SIZEOF_ELF64_HDR m2) = hdr"
    using image_head [OF head, of 0 64] by (simp add: assms(2) SIZEOF_ELF64_HDR_def)
  have len: "length phs = n" by (simp add: assms(7))
  have ph: "\<forall>k < length phs. elf64_phdr_of (mem_read (elf_buf + tab + 56 * int k) SIZEOF_ELF64_PHDR m2) = phs ! k"
  proof (intro allI impI)
    fix k assume k: "k < length phs"
    then have "tab + 56 * int k + int 56 \<le> 512" using assms(6) len by simp
    then show "elf64_phdr_of (mem_read (elf_buf + tab + 56 * int k) SIZEOF_ELF64_PHDR m2) = phs ! k"
      using image_head [OF head, of "tab + 56 * int k" 56] t0 k len
      by (simp add: assms(7) SIZEOF_ELF64_PHDR_def add.assoc del: upt_rec_numeral)
  qed
  obtain m3 s3 where r3: "load_segments io n (elf_buf + tab) m2 s2 = Some (m3, s3)" "\<forall>p \<in> set (loads phs). loaded sector p m3"
    "\<forall>a. (\<forall>p \<in> set (loads phs). \<not> touches p a) \<longrightarrow> m3 a = m2 a"
    using load_segments_ok [OF assms(1,8) _ _ ph assms(9), of s2] assms(6) t0 len by auto
  have "mem_read elf_buf SIZEOF_ELF64_HDR m3 = mem_read elf_buf SIZEOF_ELF64_HDR m2"
    using r3(3) assms(8) apart_touches by (intro mem_read_cong) (force simp: SIZEOF_ELF64_HDR_def)
  then have h3: "elf64_hdr_of (mem_read elf_buf SIZEOF_ELF64_HDR m3) = hdr" using h2 by simp
  have "load_kernel io elf_buf m s = Some (Entered (uint (eh_entry hdr)), m3, s3)"
    using assms(3,6) r1(1) r2(1) r3(1) nl
    unfolding load_kernel_def Let_def
    by (simp add: h1 h2 h3 n_load_def [symmetric] ELF_BUF_SIZE_def assms(4,5) [symmetric] del: of_int_mult)
  then show ?thesis using r3(2) by blast
qed

text \<open>A disk that is always ready, with an image of one segment of two bytes, which needs three bytes of memory.\<close>

definition sample_words :: "u32 list" where
  "sample_words = [0x464c457f, 0x10102, 0, 0, 0x3e0002, 1, 0x130000, 0, 0x40, 0, 0, 0, 0, 0x380040, 1, 0, 1, 7, 0x200, 0, 0x80130000, 0, 0x130000, 0, 2, 0, 3, 0, 0x1000, 0]"

definition sample_sector :: "nat \<Rightarrow> u32 list" where
  "sample_sector n = (if n = 16 then sample_words @ replicate 98 0 else if n = 17 then 0xbbaa # replicate 127 0 else replicate 128 0)"

definition sample_disk :: "((u16 \<Rightarrow> u8) \<times> u32 list) port_io" where
  "sample_disk = \<lparr>inb = \<lambda>port (r, f). (if f = [] then 0 else ATA_STATUS_DRQ, (r, f)),
     inl = \<lambda>port (r, f). case f of [] \<Rightarrow> (0, (r, f)) | w # ws \<Rightarrow> (w, (r, ws)),
     outb = \<lambda>port v (r, f). if port \<in> {0x1f2, 0x1f3, 0x1f4, 0x1f5, 0x1f6} then (r(port - 0x1f0 := v), f)
       else if port = 0x1f7 then (r, sample_sector (lba28 r)) else (r, f),
     outw = \<lambda>_ _ s. s, outl = \<lambda>_ _ s. s\<rparr>"

lemma sample_sector_length: "length (sample_sector n) = 128"
  by (simp add: sample_sector_def sample_words_def)

lemma sample_disk_ok: "ata_disk sample_disk sample_sector (\<lambda>_. 0) fst snd"
  unfolding ata_disk_def Let_def
  by (intro conjI allI impI; clarsimp simp: sample_disk_def sample_sector_length ATA_IO_PORT_BASE_def ATA_OFFSET_STATUS_def
      ATA_OFFSET_COMMAND_def ATA_PRIMARY_CONTROL_PORT_def ATA_SECONDARY_CONTROL_PORT_def ATA_STATUS_DRQ_def split: if_splits)

lemma word_bytes_append: "word_bytes (xs @ ys) = word_bytes xs @ word_bytes ys"
  by (simp add: word_bytes_def)

lemma sample_image:
  assumes "off + n \<le> 120"
  shows "map (\<lambda>i. image_byte sample_sector (int off + int i)) [0 ..< n] = take n (drop off (word_bytes sample_words))"
proof (rule nth_equalityI)
  have l: "length (word_bytes sample_words) = 120" by (simp add: sample_words_def)
  then show "length (map (\<lambda>i. image_byte sample_sector (int off + int i)) [0 ..< n]) = length (take n (drop off (word_bytes sample_words)))"
    using assms by simp
  fix i assume "i < length (map (\<lambda>i. image_byte sample_sector (int off + int i)) [0 ..< n])"
  then have i: "i < n" by simp
  have "nat (512 * BOOT_SECTOR_COUNT + (int off + int i)) = 8192 + (off + i)" by (simp add: BOOT_SECTOR_COUNT_def nat_add_distrib)
  moreover have "(8192 + (off + i)) div 512 = 16" "(8192 + (off + i)) mod 512 = off + i"
    using i assms mod_mult_self2 [of "off + i" 512 16] by (simp_all add: add.commute)
  ultimately have "image_byte sample_sector (int off + int i) = word_bytes (sample_words @ replicate 98 0) ! (off + i)"
    by (simp add: image_byte_def disk_byte_def sample_sector_def)
  then show "map (\<lambda>i. image_byte sample_sector (int off + int i)) [0 ..< n] ! i = take n (drop off (word_bytes sample_words)) ! i"
    using i assms l by (simp add: word_bytes_append nth_append)
qed

theorem load_kernel_loads_witness:
  "\<forall>m. \<exists>m' s'. load_kernel sample_disk 0x7000 m (\<lambda>_. 0, []) = Some (Entered 0x130000, m', s') \<and>
     m' 0x130000 = 0xaa \<and> m' 0x130001 = 0xbb \<and> m' 0x130002 = 0"
proof
  fix m :: memory
  let ?hdr = "elf64_hdr_of (take 64 (word_bytes sample_words))" and ?p = "elf64_phdr_of (take 56 (drop 64 (word_bytes sample_words)))"
  have h: "elf64_is_valid ?hdr \<and> uint (eh_phdr_tab_offset ?hdr) = 64 \<and> unat (eh_phdr_count ?hdr) = 1 \<and> uint (eh_entry ?hdr) = 0x130000"
    by code_simp
  have p: "ep_type ?p = PT_LOAD \<and> seg_fits ?p \<and> apart ?p 0x7000 512 \<and> uint (ep_paddr ?p) = 0x130000 \<and> uint (ep_offset ?p) = 512 \<and>
      uint (ep_file_size ?p) = 2 \<and> uint (ep_mem_size ?p) = 3" by code_simp
  have m1: "map (\<lambda>i. image_byte sample_sector (int i)) [0 ..< 64] = take 64 (word_bytes sample_words)"
    using sample_image [of 0 64] by (simp del: upt_rec_numeral)
  have m2: "map (\<lambda>i. image_byte sample_sector (64 + 56 * int 0 + int i)) [0 ..< 56] = take 56 (drop 64 (word_bytes sample_words))"
    using sample_image [of 64 56] by (simp del: upt_rec_numeral)
  have phs: "[?p] = map (\<lambda>k. elf64_phdr_of (map (\<lambda>i. image_byte sample_sector (64 + 56 * int k + int i)) [0 ..< 56])) [0 ..< 1]"
    using m2 by (simp del: upt_rec_numeral)
  have l: "loads [?p] = [?p]" using p by (simp add: loads_def)
  have "\<exists>m' s'. load_kernel sample_disk 0x7000 m (\<lambda>_. 0, []) = Some (Entered (uint (eh_entry ?hdr)), m', s') \<and>
      (\<forall>q \<in> set (loads [?p]). loaded sample_sector q m')"
    using h p l m1 phs by (intro load_kernel_loads [OF sample_disk_ok, where tab = 64 and n = 1]) simp_all
  then obtain m' s' where r: "load_kernel sample_disk 0x7000 m (\<lambda>_. 0, []) = Some (Entered 0x130000, m', s')"
    "loaded sample_sector ?p m'" using h l by auto
  have "image_byte sample_sector 512 = 0xaa \<and> image_byte sample_sector 513 = 0xbb" by code_simp
  then have "m' 0x130000 = 0xaa" "m' 0x130001 = 0xbb" "m' 0x130002 = 0"
    using r(2) [unfolded loaded_def, rule_format, of 0] r(2) [unfolded loaded_def, rule_format, of 1]
      r(2) [unfolded loaded_def, rule_format, of 2] p by simp_all
  then show "\<exists>m' s'. load_kernel sample_disk 0x7000 m (\<lambda>_. 0, []) = Some (Entered 0x130000, m', s') \<and>
     m' 0x130000 = 0xaa \<and> m' 0x130001 = 0xbb \<and> m' 0x130002 = 0" using r(1) by blast
qed

end
