(* ===== verification/Start.thy ===== *)
theory Start
  imports PagingProps
begin

text \<open>
  The entry point of the kernel (\<open>_start\<close> in src/init.c): the first page tables, which map the first 32 MB twice.
  No mapping is known yet; the memory is the physical one, and the processor's view is that of \<^const>\<open>mmu\<close>.
\<close>

section \<open>The tables\<close>

definition PTE_REGION_SIZE :: sz where "PTE_REGION_SIZE = 2 ^ PT_BIT_BASE"
definition PDE_REGION_SIZE :: sz where "PDE_REGION_SIZE = 2 ^ PD_BIT_BASE"

definition KERN_BASE_VADDR :: addr where "KERN_BASE_VADDR = 0x80130000"

text \<open>The linker places the static tables; \<open>pt_id\<close> and \<open>pt_vmem\<close> are arrays of 16.\<close>

record start_tables =
  sk_pml4 :: addr
  sk_pdpt :: addr
  sk_pd_id :: addr
  sk_pt_id :: addr
  sk_pd_vmem :: addr
  sk_pt_vmem :: addr

definition PAGE_BYTES :: sz where "PAGE_BYTES = 8 * NUM_PT_ENTRIES"

definition table_pte :: "addr \<Rightarrow> u64" where
  "table_pte a = word_of_int a OR PT_FLAG_P OR PT_FLAG_RW"

text \<open>The inner loop over the entries of a table, and the outer loop over the tables.\<close>

fun fill_pt :: "addr \<Rightarrow> int \<Rightarrow> int list \<Rightarrow> words \<Rightarrow> words option" where
  "fill_pt pt i [] m = Some m"
| "fill_pt pt i (j # js) m = do {
     m \<leftarrow> pte_set m pt j (table_pte (i * PDE_REGION_SIZE + j * PTE_REGION_SIZE));
     fill_pt pt i js m
   }"

fun fill_pd :: "addr \<Rightarrow> addr \<Rightarrow> int list \<Rightarrow> words \<Rightarrow> words option" where
  "fill_pd pd pts [] m = Some m"
| "fill_pd pd pts (i # is) m = do {
     m \<leftarrow> pte_set m pd i (table_pte (pts + i * PAGE_BYTES));
     m \<leftarrow> fill_pt (pts + i * PAGE_BYTES) i [0 .. NUM_PT_ENTRIES - 1] m;
     fill_pd pd pts is m
   }"

text \<open>The result is the memory and the new \<open>cr3\<close>.\<close>

definition start :: "start_tables \<Rightarrow> words \<Rightarrow> (addr \<times> words) option" where
  "start t m = do {
     m \<leftarrow> pte_set m (sk_pml4 t) (PT_IDX 0 PML4_BIT_BASE) (table_pte (sk_pdpt t));
     m \<leftarrow> pte_set m (sk_pdpt t) (PT_IDX 0 PDPT_BIT_BASE) (table_pte (sk_pd_id t));
     m \<leftarrow> fill_pd (sk_pd_id t) (sk_pt_id t) [0 .. 15] m;
     m \<leftarrow> pte_set m (sk_pdpt t) (PT_IDX KERN_BASE_VADDR PDPT_BIT_BASE) (table_pte (sk_pd_vmem t));
     m \<leftarrow> fill_pd (sk_pd_vmem t) (sk_pt_vmem t) [0 .. 15] m;
     Some (sk_pml4 t, m)
   }"

section \<open>The entries for the processor\<close>

definition ram_words :: "words \<Rightarrow> ram" where
  "ram_words m = (\<lambda>a. map_option word_of_int (m a))"

lemma ram_words_entry: "ram_words m (a + 8 * i) = pte_get m a i"
  by (simp add: ram_words_def pte_get_def)

text \<open>Present, writable, for the kernel only, and cached.\<close>

lemma table_pte_entry:
  assumes "0 \<le> a" "a < 2 ^ 52" "a mod 4096 = 0"
  shows "frame_of (table_pte a) = a" "bit (table_pte a) 0" "bit (table_pte a) 1" "\<not> bit (table_pte a) 2" "\<not> bit (table_pte a) 7"
    "page_translation (table_pte a) v w u = \<lparr>tr_paddr = a + v mod 4096, tr_writable = w, tr_user = u, tr_caching = Write_Back\<rparr>"
proof -
  have "take_bit 11 a = 0"
  proof -
    have "take_bit 12 a = 0" using assms(3) by (simp add: take_bit_eq_mod)
    then have "take_bit 11 (take_bit 12 a) = 0" by simp
    then show ?thesis by simp
  qed
  then have "word_of_int a AND NOT (mask 11) = (word_of_int a :: u64)"
    using assms(1,2) by (auto simp: bit_eq_iff bit_simps)
  moreover have "ucast (2 :: u16) = PT_FLAG_RW" by (simp add: PT_FLAG_RW_def)
  ultimately have e: "table_pte a = pte_from_paddr a 2 ADDR_MAPPING_MEMORY_WRITE_BACK"
    unfolding table_pte_def pte_from_paddr_def low_mask by (simp add: or.assoc or.commute)
  have b: "bit (2 :: u16) 1" "\<not> bit (2 :: u16) 2" "\<not> bit (2 :: u16) 7" by code_simp+
  show "frame_of (table_pte a) = a" "bit (table_pte a) 0" "bit (table_pte a) 1" "\<not> bit (table_pte a) 2" "\<not> bit (table_pte a) 7"
    "page_translation (table_pte a) v w u = \<lparr>tr_paddr = a + v mod 4096, tr_writable = w, tr_user = u, tr_caching = Write_Back\<rparr>"
    using page_of_pte [OF rw_us_2 assms] b unfolding e by (simp_all add: bit_pte)
qed

text \<open>All entries of a table are in memory.\<close>

definition in_memory :: "words \<Rightarrow> addr \<Rightarrow> bool" where
  "in_memory m a \<longleftrightarrow> a mod 4096 = 0 \<and> (\<forall>i \<in> {0 ..< 512}. m (a + 8 * i) \<noteq> None)"

lemma pte_set_memory:
  assumes "in_memory m a" "i \<in> {0 ..< 512}"
  obtains m' where "pte_set m a i e = Some m'" "\<And>b. in_memory m' b = in_memory m b"
    "\<And>b j. in_memory m b \<Longrightarrow> j \<in> {0 ..< 512} \<Longrightarrow> pte_get m' b j = (if b = a \<and> j = i then Some e else pte_get m b j)"
proof
  have some: "m (a + 8 * i) \<noteq> None" using assms by (simp add: in_memory_def)
  let ?m = "m(a + 8 * i \<mapsto> sint e)"
  show "pte_set m a i e = Some ?m" using some by (auto simp: pte_set_def write_word_def)
  show "in_memory ?m b = in_memory m b" for b using some by (auto simp: in_memory_def)
  show "pte_get ?m b j = (if b = a \<and> j = i then Some e else pte_get m b j)" if "in_memory m b" "j \<in> {0 ..< 512}" for b j
    using page_addr_eq [of b a j i] that assms by (auto simp: pte_get_def in_memory_def)
qed

lemma fill_pt_memory:
  assumes "in_memory m a" "set js \<subseteq> {0 ..< 512}"
  shows "\<exists>m'. fill_pt a i js m = Some m' \<and> (\<forall>b. in_memory m' b = in_memory m b) \<and>
    (\<forall>b j. in_memory m b \<longrightarrow> j \<in> {0 ..< 512} \<longrightarrow> pte_get m' b j =
       (if b = a \<and> j \<in> set js then Some (table_pte (i * PDE_REGION_SIZE + j * PTE_REGION_SIZE)) else pte_get m b j))"
  using assms
proof (induction js arbitrary: m)
  case (Cons k js)
  obtain m1 where 1: "pte_set m a k (table_pte (i * PDE_REGION_SIZE + k * PTE_REGION_SIZE)) = Some m1"
    "\<And>b. in_memory m1 b = in_memory m b"
    "\<And>b j. in_memory m b \<Longrightarrow> j \<in> {0 ..< 512} \<Longrightarrow> pte_get m1 b j =
       (if b = a \<and> j = k then Some (table_pte (i * PDE_REGION_SIZE + k * PTE_REGION_SIZE)) else pte_get m b j)"
    using pte_set_memory [OF Cons.prems(1), of k] Cons.prems(2) by auto
  obtain m2 where 2: "fill_pt a i js m1 = Some m2" "\<forall>b. in_memory m2 b = in_memory m1 b"
    "\<forall>b j. in_memory m1 b \<longrightarrow> j \<in> {0 ..< 512} \<longrightarrow> pte_get m2 b j =
       (if b = a \<and> j \<in> set js then Some (table_pte (i * PDE_REGION_SIZE + j * PTE_REGION_SIZE)) else pte_get m1 b j)"
    using Cons.IH [of m1] 1(2) Cons.prems by auto
  show ?case using 1 2 by auto
qed simp

text \<open>A page directory with its tables, all apart from each other.\<close>

definition pts_of :: "addr \<Rightarrow> addr set" where
  "pts_of pts = (\<lambda>i. pts + i * PAGE_BYTES) ` {0 ..< 16}"

lemma fill_pd_memory:
  assumes "in_memory m pd" "\<forall>a \<in> pts_of pts. in_memory m a" "pd \<notin> pts_of pts" "set is \<subseteq> {0 ..< 16}" "distinct is"
  shows "\<exists>m'. fill_pd pd pts is m = Some m' \<and> (\<forall>b. in_memory m' b = in_memory m b) \<and>
    (\<forall>i j. i \<in> set is \<longrightarrow> j \<in> {0 ..< 512} \<longrightarrow> pte_get m' (pts + i * PAGE_BYTES) j = Some (table_pte (i * PDE_REGION_SIZE + j * PTE_REGION_SIZE))) \<and>
    (\<forall>j. j \<in> {0 ..< 512} \<longrightarrow> pte_get m' pd j = (if j \<in> set is then Some (table_pte (pts + j * PAGE_BYTES)) else pte_get m pd j)) \<and>
    (\<forall>b j. in_memory m b \<longrightarrow> j \<in> {0 ..< 512} \<longrightarrow> b \<noteq> pd \<longrightarrow> b \<notin> (\<lambda>i. pts + i * PAGE_BYTES) ` set is \<longrightarrow> pte_get m' b j = pte_get m b j)"
  using assms
proof (induction "is" arbitrary: m)
  case (Cons i js)
  have i: "i \<in> {0 ..< 512}" "pts + i * PAGE_BYTES \<in> pts_of pts" using Cons.prems(4) by (auto simp: pts_of_def)
  obtain m1 where 1: "pte_set m pd i (table_pte (pts + i * PAGE_BYTES)) = Some m1" "\<And>b. in_memory m1 b = in_memory m b"
    "\<And>b j. in_memory m b \<Longrightarrow> j \<in> {0 ..< 512} \<Longrightarrow> pte_get m1 b j =
       (if b = pd \<and> j = i then Some (table_pte (pts + i * PAGE_BYTES)) else pte_get m b j)"
    using pte_set_memory [OF Cons.prems(1) i(1)] by metis
  have a: "in_memory m1 (pts + i * PAGE_BYTES)" using Cons.prems(2) i(2) 1(2) by blast
  have all: "set [0 .. NUM_PT_ENTRIES - 1] = {0 ..< 512}" by (auto simp: NUM_PT_ENTRIES_def)
  obtain m2 where 2: "fill_pt (pts + i * PAGE_BYTES) i [0 .. NUM_PT_ENTRIES - 1] m1 = Some m2" "\<forall>b. in_memory m2 b = in_memory m1 b"
    "\<forall>b j. in_memory m1 b \<longrightarrow> j \<in> {0 ..< 512} \<longrightarrow> pte_get m2 b j =
       (if b = pts + i * PAGE_BYTES then Some (table_pte (i * PDE_REGION_SIZE + j * PTE_REGION_SIZE)) else pte_get m1 b j)"
    using fill_pt_memory [OF a, of "[0 .. NUM_PT_ENTRIES - 1]" i] unfolding all by auto
  have mem: "in_memory m2 b = in_memory m b" for b using 1(2) 2(2) by simp
  have "i \<notin> set js" "set js \<subseteq> {0 ..< 16}" "distinct js" using Cons.prems(4,5) by auto
  obtain m3 where 3: "fill_pd pd pts js m2 = Some m3" "\<forall>b. in_memory m3 b = in_memory m2 b"
    "\<forall>i j. i \<in> set js \<longrightarrow> j \<in> {0 ..< 512} \<longrightarrow> pte_get m3 (pts + i * PAGE_BYTES) j = Some (table_pte (i * PDE_REGION_SIZE + j * PTE_REGION_SIZE))"
    "\<forall>j. j \<in> {0 ..< 512} \<longrightarrow> pte_get m3 pd j = (if j \<in> set js then Some (table_pte (pts + j * PAGE_BYTES)) else pte_get m2 pd j)"
    "\<forall>b j. in_memory m2 b \<longrightarrow> j \<in> {0 ..< 512} \<longrightarrow> b \<noteq> pd \<longrightarrow> b \<notin> (\<lambda>i. pts + i * PAGE_BYTES) ` set js \<longrightarrow> pte_get m3 b j = pte_get m2 b j"
    using Cons.IH [of m2] mem Cons.prems(1-3) \<open>set js \<subseteq> _\<close> \<open>distinct js\<close> by auto
  have pd: "pd \<noteq> pts + i * PAGE_BYTES" using Cons.prems(3) i(2) by auto
  have other: "pts + i * PAGE_BYTES \<notin> (\<lambda>i. pts + i * PAGE_BYTES) ` set js"
    using \<open>i \<notin> set js\<close> by (auto simp: PAGE_BYTES_def NUM_PT_ENTRIES_def)
  have "fill_pd pd pts (i # js) m = Some m3" using 1(1) 2(1) 3(1) by simp
  moreover have "pte_get m3 (pts + k * PAGE_BYTES) j = Some (table_pte (k * PDE_REGION_SIZE + j * PTE_REGION_SIZE))"
    if "k \<in> set (i # js)" "j \<in> {0 ..< 512}" for k j
  proof (cases "k \<in> set js")
    case False
    then show ?thesis using that 3(5) mem Cons.prems(2) i(2) pd other 2(2,3) a by auto
  qed (use that 3(3) in blast)
  moreover have "pte_get m3 pd j = (if j \<in> set (i # js) then Some (table_pte (pts + j * PAGE_BYTES)) else pte_get m pd j)"
    if "j \<in> {0 ..< 512}" for j
    using that 3(4) 2(3) 1 pd Cons.prems(1) by auto
  moreover have "pte_get m3 b j = pte_get m b j"
    if "in_memory m b" "j \<in> {0 ..< 512}" "b \<noteq> pd" "b \<notin> (\<lambda>i. pts + i * PAGE_BYTES) ` set (i # js)" for b j
    using that 3(5) 2(3) 1 mem by auto
  ultimately show ?case using 3(2) mem by blast
qed simp

section \<open>Two views of the first 32 MB\<close>

lemma index_split:
  assumes "0 \<le> v" "v < 2 ^ 48"
  shows "v = 2 ^ 39 * i4 v + 2 ^ 30 * i3 v + 2 ^ 21 * i2 v + 2 ^ 12 * i1 v + v mod 4096"
proof -
  have "i1 v = v div 4096 mod 512" "i2 v = v div 2097152 mod 512" "i3 v = v div 1073741824 mod 512" "i4 v = v div 549755813888 mod 512"
    by (simp_all add: PT_IDX_eq take_bit_eq_mod drop_bit_eq_div PML4_BIT_BASE_def PDPT_BIT_BASE_def PD_BIT_BASE_def PT_BIT_BASE_def)
  moreover have "v = 4096 * (v div 4096) + v mod 4096" by simp
  moreover have "v div 4096 = 512 * (v div 2097152) + v div 4096 mod 512" using zdiv_zmult2_eq [of 512 v 4096] by simp
  moreover have "v div 2097152 = 512 * (v div 1073741824) + v div 2097152 mod 512" using zdiv_zmult2_eq [of 512 v 2097152] by simp
  moreover have "v div 1073741824 = 512 * (v div 549755813888) + v div 1073741824 mod 512" using zdiv_zmult2_eq [of 512 v 1073741824] by simp
  moreover have "v div 549755813888 mod 512 = v div 549755813888" using assms by (intro mod_pos_pos_trivial) auto
  ultimately have "v = 549755813888 * i4 v + 1073741824 * i3 v + 2097152 * i2 v + 4096 * i1 v + v mod 4096" by linarith
  then show ?thesis by simp
qed

text \<open>The upper tables, and all of them.\<close>

definition upper_tables :: "start_tables \<Rightarrow> addr list" where
  "upper_tables t = [sk_pml4 t, sk_pdpt t, sk_pd_id t, sk_pd_vmem t]"

text \<open>The tables are pages in memory, apart from each other; the upper ones are zero at first.\<close>

definition tables_placed :: "start_tables \<Rightarrow> words \<Rightarrow> bool" where
  "tables_placed t m \<longleftrightarrow> distinct (upper_tables t) \<and> pts_of (sk_pt_id t) \<inter> pts_of (sk_pt_vmem t) = {} \<and>
     set (upper_tables t) \<inter> (pts_of (sk_pt_id t) \<union> pts_of (sk_pt_vmem t)) = {} \<and>
     (\<forall>a \<in> set (upper_tables t) \<union> pts_of (sk_pt_id t) \<union> pts_of (sk_pt_vmem t). frame_ok a \<and> in_memory m a) \<and>
     (\<forall>a \<in> set (upper_tables t). \<forall>i \<in> {0 ..< 512}. pte_get m a i = Some 0)"

text \<open>The entries of all tables afterwards.\<close>

lemma start_memory:
  assumes "tables_placed t m"
  shows "\<exists>m'. start t m = Some (sk_pml4 t, m') \<and>
    (\<forall>j \<in> {0 ..< 512}. pte_get m' (sk_pml4 t) j = Some (if j = 0 then table_pte (sk_pdpt t) else 0)) \<and>
    (\<forall>j \<in> {0 ..< 512}. pte_get m' (sk_pdpt t) j =
       Some (if j = 0 then table_pte (sk_pd_id t) else if j = 2 then table_pte (sk_pd_vmem t) else 0)) \<and>
    (\<forall>(pd, pts) \<in> {(sk_pd_id t, sk_pt_id t), (sk_pd_vmem t, sk_pt_vmem t)}.
       (\<forall>j \<in> {0 ..< 512}. pte_get m' pd j = Some (if j < 16 then table_pte (pts + j * PAGE_BYTES) else 0)) \<and>
       (\<forall>i \<in> {0 ..< 16}. \<forall>j \<in> {0 ..< 512}. pte_get m' (pts + i * PAGE_BYTES) j = Some (table_pte (i * PDE_REGION_SIZE + j * PTE_REGION_SIZE))))"
proof -
  let ?id = "sk_pd_id t" and ?vm = "sk_pd_vmem t"
  have mem: "in_memory m (sk_pml4 t)" "in_memory m (sk_pdpt t)" "in_memory m ?id" "in_memory m ?vm"
    "\<forall>a \<in> pts_of (sk_pt_id t). in_memory m a" "\<forall>a \<in> pts_of (sk_pt_vmem t). in_memory m a"
    using assms by (simp_all add: tables_placed_def upper_tables_def)
  have ne: "sk_pml4 t \<noteq> sk_pdpt t" "sk_pml4 t \<noteq> ?id" "sk_pml4 t \<noteq> ?vm" "sk_pdpt t \<noteq> ?id" "sk_pdpt t \<noteq> ?vm" "?id \<noteq> ?vm"
    using assms by (simp_all add: tables_placed_def upper_tables_def)
  have out: "a \<notin> pts_of (sk_pt_id t)" "a \<notin> pts_of (sk_pt_vmem t)" if "a \<in> {sk_pml4 t, sk_pdpt t, ?id, ?vm}" for a
    using assms that unfolding tables_placed_def upper_tables_def by auto
  have out': "a \<noteq> x" if "a \<in> {sk_pml4 t, sk_pdpt t, ?id, ?vm}" "x \<in> pts_of (sk_pt_id t) \<union> pts_of (sk_pt_vmem t)" for a x
    using out [OF that(1)] that(2) by auto
  have zero: "pte_get m a j = Some 0" if "a \<in> {sk_pml4 t, sk_pdpt t, ?id, ?vm}" "j \<in> {0 ..< 512}" for a j
    using assms that unfolding tables_placed_def upper_tables_def by auto
  have pt: "pts + i * PAGE_BYTES \<in> pts_of pts" if "i \<in> {0 ..< 16}" for pts i using that by (auto simp: pts_of_def)
  have all: "set [0 .. 15] = {0 ..< (16 :: int)}" by auto
  have idx: "PT_IDX 0 PML4_BIT_BASE = 0" "PT_IDX 0 PDPT_BIT_BASE = 0" "PT_IDX KERN_BASE_VADDR PDPT_BIT_BASE = 2"
    by (simp_all add: PT_IDX_eq take_bit_eq_mod drop_bit_eq_div PDPT_BIT_BASE_def KERN_BASE_VADDR_def)
  have r: "0 \<in> {0 ..< (512 :: int)}" "2 \<in> {0 ..< (512 :: int)}" by simp_all
  obtain m1 where 1: "pte_set m (sk_pml4 t) 0 (table_pte (sk_pdpt t)) = Some m1" "\<And>b. in_memory m1 b = in_memory m b"
    "\<And>b j. in_memory m b \<Longrightarrow> j \<in> {0 ..< 512} \<Longrightarrow> pte_get m1 b j = (if b = sk_pml4 t \<and> j = 0 then Some (table_pte (sk_pdpt t)) else pte_get m b j)"
    using pte_set_memory [OF mem(1) r(1)] by metis
  obtain m2 where 2: "pte_set m1 (sk_pdpt t) 0 (table_pte ?id) = Some m2" "\<And>b. in_memory m2 b = in_memory m b"
    "\<And>b j. in_memory m b \<Longrightarrow> j \<in> {0 ..< 512} \<Longrightarrow> pte_get m2 b j = (if b = sk_pdpt t \<and> j = 0 then Some (table_pte ?id) else pte_get m1 b j)"
    using pte_set_memory [of m1 "sk_pdpt t" 0] 1(2) mem(2) r(1) by metis
  obtain m3 where 3: "fill_pd ?id (sk_pt_id t) [0 .. 15] m2 = Some m3" "\<And>b. in_memory m3 b = in_memory m b"
    "\<And>i j. i \<in> {0 ..< 16} \<Longrightarrow> j \<in> {0 ..< 512} \<Longrightarrow>
       pte_get m3 (sk_pt_id t + i * PAGE_BYTES) j = Some (table_pte (i * PDE_REGION_SIZE + j * PTE_REGION_SIZE))"
    "\<And>j. j \<in> {0 ..< 512} \<Longrightarrow> pte_get m3 ?id j = (if j \<in> {0 ..< 16} then Some (table_pte (sk_pt_id t + j * PAGE_BYTES)) else pte_get m2 ?id j)"
    "\<And>b j. in_memory m b \<Longrightarrow> j \<in> {0 ..< 512} \<Longrightarrow> b \<noteq> ?id \<Longrightarrow> b \<notin> pts_of (sk_pt_id t) \<Longrightarrow> pte_get m3 b j = pte_get m2 b j"
    using fill_pd_memory [of m2 ?id "sk_pt_id t" "[0 .. 15]"] mem out(1) [of ?id] 2(2) unfolding all pts_of_def by (auto simp: pts_of_def)
  obtain m4 where 4: "pte_set m3 (sk_pdpt t) 2 (table_pte ?vm) = Some m4" "\<And>b. in_memory m4 b = in_memory m b"
    "\<And>b j. in_memory m b \<Longrightarrow> j \<in> {0 ..< 512} \<Longrightarrow> pte_get m4 b j = (if b = sk_pdpt t \<and> j = 2 then Some (table_pte ?vm) else pte_get m3 b j)"
    using pte_set_memory [of m3 "sk_pdpt t" 2] 3(2) mem(2) r(2) by metis
  obtain m5 where 5: "fill_pd ?vm (sk_pt_vmem t) [0 .. 15] m4 = Some m5"
    "\<And>i j. i \<in> {0 ..< 16} \<Longrightarrow> j \<in> {0 ..< 512} \<Longrightarrow>
       pte_get m5 (sk_pt_vmem t + i * PAGE_BYTES) j = Some (table_pte (i * PDE_REGION_SIZE + j * PTE_REGION_SIZE))"
    "\<And>j. j \<in> {0 ..< 512} \<Longrightarrow> pte_get m5 ?vm j = (if j \<in> {0 ..< 16} then Some (table_pte (sk_pt_vmem t + j * PAGE_BYTES)) else pte_get m4 ?vm j)"
    "\<And>b j. in_memory m b \<Longrightarrow> j \<in> {0 ..< 512} \<Longrightarrow> b \<noteq> ?vm \<Longrightarrow> b \<notin> pts_of (sk_pt_vmem t) \<Longrightarrow> pte_get m5 b j = pte_get m4 b j"
    using fill_pd_memory [of m4 ?vm "sk_pt_vmem t" "[0 .. 15]"] mem out(2) [of ?vm] 4(2) unfolding all pts_of_def by (auto simp: pts_of_def)
  have apart: "pts_of (sk_pt_id t) \<inter> pts_of (sk_pt_vmem t) = {}" using assms by (simp add: tables_placed_def)
  have s: "start t m = Some (sk_pml4 t, m5)" using 1(1) 2(1) 3(1) 4(1) 5(1) by (simp add: start_def idx)
  have p4: "pte_get m5 (sk_pml4 t) j = Some (if j = 0 then table_pte (sk_pdpt t) else 0)" if "j \<in> {0 ..< 512}" for j
    using that ne out [of "sk_pml4 t"] zero [of "sk_pml4 t" j] mem(1) by (simp add: 5(4) 4(3) 3(5) 2(3) 1(3))
  have p3: "pte_get m5 (sk_pdpt t) j = Some (if j = 0 then table_pte ?id else if j = 2 then table_pte ?vm else 0)" if "j \<in> {0 ..< 512}" for j
    using that ne out [of "sk_pdpt t"] zero [of "sk_pdpt t" j] mem(2) by (simp add: 5(4) 4(3) 3(5) 2(3) 1(3))
  have p2: "pte_get m5 ?id j = Some (if j < 16 then table_pte (sk_pt_id t + j * PAGE_BYTES) else 0)" if "j \<in> {0 ..< 512}" for j
    using that ne out [of ?id] zero [of ?id j] mem(3) by (simp add: 5(4) 4(3) 3(4) 2(3) 1(3))
  have p2': "pte_get m5 ?vm j = Some (if j < 16 then table_pte (sk_pt_vmem t + j * PAGE_BYTES) else 0)" if "j \<in> {0 ..< 512}" for j
    using that ne out [of ?vm] zero [of ?vm j] mem(4) by (simp add: 5(3) 4(3) 3(5) 2(3) 1(3))
  have p1: "pte_get m5 (sk_pt_id t + i * PAGE_BYTES) j = Some (table_pte (i * PDE_REGION_SIZE + j * PTE_REGION_SIZE))"
    if "i \<in> {0 ..< 16}" "j \<in> {0 ..< 512}" for i j
  proof -
    let ?a = "sk_pt_id t + i * PAGE_BYTES"
    have i: "?a \<in> pts_of (sk_pt_id t)" by (rule pt [OF that(1)])
    have a: "in_memory m ?a" "?a \<notin> pts_of (sk_pt_vmem t)" using i mem(5) apart by blast+
    have "?a \<noteq> ?vm" "?a \<noteq> sk_pdpt t" using out' [of ?vm ?a] out' [of "sk_pdpt t" ?a] i by fastforce+
    then have "pte_get m5 ?a j = pte_get m3 ?a j" using 5(4) [OF a(1) that(2) _ a(2)] 4(3) [OF a(1) that(2)] by simp
    then show ?thesis using 3(3) [OF that] by simp
  qed
  show ?thesis using s p4 p3 p2 p2' p1 5(2) by (intro exI [of _ m5]) auto
qed

text \<open>A page of the first 32 MB.\<close>

definition low_page :: "addr \<Rightarrow> translation" where
  "low_page p = \<lparr>tr_paddr = p, tr_writable = True, tr_user = False, tr_caching = Write_Back\<rparr>"

text \<open>Walking through a page directory with the first 16 tables.\<close>

lemma directory_walk:
  assumes "\<forall>j \<in> {0 ..< 512}. pte_get m pd j = Some (if j < 16 then table_pte (pts + j * PAGE_BYTES) else 0)"
    and "\<forall>i \<in> {0 ..< 16}. \<forall>j \<in> {0 ..< 512}. pte_get m (pts + i * PAGE_BYTES) j = Some (table_pte (i * PDE_REGION_SIZE + j * PTE_REGION_SIZE))"
    and "\<forall>a \<in> pts_of pts. frame_ok a"
  shows "mmu_walk (ram_words m) pd v [21, 12] True False =
    Some (if i2 v < 16 then Some (low_page (i2 v * PDE_REGION_SIZE + i1 v * PTE_REGION_SIZE + v mod 4096)) else None)"
proof -
  have i: "v div 2 ^ 21 mod 512 = i2 v" "v div 2 ^ 12 mod 512 = i1 v"
    unfolding PT_IDX_eq PD_BIT_BASE_def PT_BIT_BASE_def by (simp_all add: take_bit_eq_mod drop_bit_eq_div)
  have d: "ram_words m (pd + 8 * i2 v) = Some (if i2 v < 16 then table_pte (pts + i2 v * PAGE_BYTES) else 0)"
    unfolding ram_words_entry using assms(1) by simp
  show ?thesis
  proof (cases "i2 v < 16")
    case True
    let ?p = "i2 v * PDE_REGION_SIZE + i1 v * PTE_REGION_SIZE"
    have "pts + i2 v * PAGE_BYTES \<in> pts_of pts" using True by (auto simp: pts_of_def)
    then have t: "0 \<le> pts + i2 v * PAGE_BYTES" "pts + i2 v * PAGE_BYTES < 2 ^ 52" "(pts + i2 v * PAGE_BYTES) mod 4096 = 0"
      using assms(3) by (auto simp: frame_ok_def)
    have l: "ram_words m (pts + i2 v * PAGE_BYTES + 8 * i1 v) = Some (table_pte ?p)"
      unfolding ram_words_entry using assms(2) True by simp
    have "?p = 4096 * (512 * i2 v + i1 v)" by (simp add: PDE_REGION_SIZE_def PTE_REGION_SIZE_def PD_BIT_BASE_def PT_BIT_BASE_def)
    moreover have "0 \<le> i2 v" "0 \<le> i1 v" "i1 v < 512" by simp_all
    moreover have "0 \<le> 4096 * (512 * x + y)" "4096 * (512 * x + y) < 2 ^ 52" if "0 \<le> x" "x < 16" "0 \<le> y" "y < 512" for x y :: int
      using that by simp_all
    then have "0 \<le> 4096 * (512 * i2 v + i1 v)" "4096 * (512 * i2 v + i1 v) < 2 ^ 52" using True PT_IDX_bounds by blast+
    ultimately have p: "0 \<le> ?p" "?p < 2 ^ 52" "?p mod 4096 = 0" by (simp_all only: mod_mult_self1_is_0)
    show ?thesis using True d l table_pte_entry [OF t] table_pte_entry [OF p] by (simp only: mmu_walk.simps i) (simp add: low_page_def)
  next
    case False
    then show ?thesis using d by (simp only: mmu_walk.simps i) simp
  qed
qed

lemma page_base:
  assumes "0 \<le> v" "v < 2 ^ 48" "i4 v = 0" "i3 v = 0 \<or> i3 v = 2" "i2 v < 16"
  shows "i2 v * PDE_REGION_SIZE + i1 v * PTE_REGION_SIZE = (v - v mod 4096) mod 0x2000000"
proof -
  have r: "0 \<le> i2 v" "0 \<le> i1 v" "i1 v < 512" by simp_all
  have "v - v mod 4096 = (2 ^ 21 * i2 v + 2 ^ 12 * i1 v) + (32 * i3 v) * 0x2000000"
    using index_split [OF assms(1,2)] assms(3) by simp
  then have "(v - v mod 4096) mod 0x2000000 = (2 ^ 21 * i2 v + 2 ^ 12 * i1 v) mod 0x2000000" by (simp only: mod_mult_self1)
  also have "\<dots> = 2 ^ 21 * i2 v + 2 ^ 12 * i1 v"
  proof (rule mod_pos_pos_trivial)
    show "0 \<le> 2 ^ 21 * i2 v + 2 ^ 12 * i1 v" using r(1,2) by simp
    have "2097152 * x + 4096 * y < 33554432" if "x < 16" "y < 512" for x y :: int using that by linarith
    from this [OF assms(5) r(3)] show "2 ^ 21 * i2 v + 2 ^ 12 * i1 v < 0x2000000" by simp
  qed
  finally show ?thesis by (simp add: PDE_REGION_SIZE_def PTE_REGION_SIZE_def PD_BIT_BASE_def PT_BIT_BASE_def)
qed

lemma page_offset_mod: "(v - v mod 4096) mod 0x2000000 + v mod 4096 = v mod (0x2000000 :: int)"
proof -
  have "v mod 0x2000000 = 4096 * (v div 4096 mod 0x2000) + v mod 4096" using zmod_zmult2_eq [where a = v and b = 4096 and c = "0x2000"] by simp
  moreover have "(v - v mod 4096) mod 0x2000000 = 4096 * (v div 4096 mod 0x2000)"
    using mult_mod_right [of "4096 :: int" "v div 4096" "0x2000"] by (simp add: minus_mod_eq_mult_div)
  ultimately show ?thesis by simp
qed

lemma index_range_arith:
  fixes a b c d e :: int
  assumes "v = 549755813888 * a + 1073741824 * b + 2097152 * c + 4096 * d + e"
    "0 \<le> a" "0 \<le> b" "b < 512" "0 \<le> c" "c < 512" "0 \<le> d" "d < 512" "0 \<le> e" "e < 4096"
  shows "v < 0x2000000 \<longleftrightarrow> a = 0 \<and> b = 0 \<and> c < 16"
    "0x80000000 \<le> v \<and> v < 0x82000000 \<longleftrightarrow> a = 0 \<and> b = 2 \<and> c < 16"
proof -
  show "v < 0x2000000 \<longleftrightarrow> a = 0 \<and> b = 0 \<and> c < 16"
    using assms by (intro iffI conjI; (elim conjE)?; linarith)
  show "0x80000000 \<le> v \<and> v < 0x82000000 \<longleftrightarrow> a = 0 \<and> b = 2 \<and> c < 16"
  proof
    assume v: "0x80000000 \<le> v \<and> v < 0x82000000"
    have a: "a = 0" using assms v by linarith
    moreover have "b \<ge> 2" "b \<le> 2" using assms v a by linarith+
    ultimately show "a = 0 \<and> b = 2 \<and> c < 16" using assms v by linarith
  next
    assume "a = 0 \<and> b = 2 \<and> c < 16"
    then show "0x80000000 \<le> v \<and> v < 0x82000000" using assms by simp
  qed
qed

lemma index_range:
  assumes "0 \<le> v" "v < 2 ^ 48"
  shows "v < 0x2000000 \<longleftrightarrow> i4 v = 0 \<and> i3 v = 0 \<and> i2 v < 16"
    "0x80000000 \<le> v \<and> v < 0x82000000 \<longleftrightarrow> i4 v = 0 \<and> i3 v = 2 \<and> i2 v < 16"
proof -
  have v: "v = 549755813888 * i4 v + 1073741824 * i3 v + 2097152 * i2 v + 4096 * i1 v + v mod 4096"
    using index_split [OF assms] by simp
  have r: "0 \<le> i4 v" "0 \<le> i3 v" "i3 v < 512" "0 \<le> i2 v" "i2 v < 512" "0 \<le> i1 v" "i1 v < 512" "0 \<le> v mod 4096" "v mod 4096 < 4096" by simp_all
  show "v < 0x2000000 \<longleftrightarrow> i4 v = 0 \<and> i3 v = 0 \<and> i2 v < 16"
    "0x80000000 \<le> v \<and> v < 0x82000000 \<longleftrightarrow> i4 v = 0 \<and> i3 v = 2 \<and> i2 v < 16"
    using index_range_arith [OF v r] by blast+
qed

text \<open>
  C15: The entry code builds page tables with which the processor translates the first 32 MB of addresses, where the code is
  running, and the 32 MB from 0x80000000 on to the first 32 MB of memory, writable, closed for user mode and cached, and nothing else. The
  comment in front of the code says that the second range starts at \<open>KERN_BASE_VADDR\<close>, which is 0x80130000; the code maps from the
  gigabyte in which that address lies, so that the kernel's code is at the physical addresses it was loaded to.
\<close>

theorem start_maps:
  assumes "tables_placed t m"
  shows "\<exists>m'. start t m = Some (sk_pml4 t, m') \<and>
    (\<forall>v. 0 \<le> v \<longrightarrow> v < 2 ^ 48 \<longrightarrow> mmu (ram_words m') (sk_pml4 t) v =
       Some (if v < 0x2000000 \<or> 0x80000000 \<le> v \<and> v < 0x82000000
         then Some \<lparr>tr_paddr = v mod 0x2000000, tr_writable = True, tr_user = False, tr_caching = Write_Back\<rparr> else None))"
proof -
  obtain m' where s: "start t m = Some (sk_pml4 t, m')"
    and p4: "\<forall>j \<in> {0 ..< 512}. pte_get m' (sk_pml4 t) j = Some (if j = 0 then table_pte (sk_pdpt t) else 0)"
    and p3: "\<forall>j \<in> {0 ..< 512}. pte_get m' (sk_pdpt t) j =
       Some (if j = 0 then table_pte (sk_pd_id t) else if j = 2 then table_pte (sk_pd_vmem t) else 0)"
    and p2: "\<forall>(pd, pts) \<in> {(sk_pd_id t, sk_pt_id t), (sk_pd_vmem t, sk_pt_vmem t)}.
       (\<forall>j \<in> {0 ..< 512}. pte_get m' pd j = Some (if j < 16 then table_pte (pts + j * PAGE_BYTES) else 0)) \<and>
       (\<forall>i \<in> {0 ..< 16}. \<forall>j \<in> {0 ..< 512}. pte_get m' (pts + i * PAGE_BYTES) j = Some (table_pte (i * PDE_REGION_SIZE + j * PTE_REGION_SIZE)))"
    using start_memory [OF assms] by blast
  have f: "\<forall>a \<in> pts_of (sk_pt_id t). frame_ok a" "\<forall>a \<in> pts_of (sk_pt_vmem t). frame_ok a"
    "frame_ok (sk_pdpt t)" "frame_ok (sk_pd_id t)" "frame_ok (sk_pd_vmem t)"
    using assms by (simp_all add: tables_placed_def upper_tables_def)
  have e: "0 \<le> a \<and> a < 2 ^ 52 \<and> a mod 4096 = 0" if "frame_ok a" for a using that by (simp add: frame_ok_def)
  have "mmu (ram_words m') (sk_pml4 t) v =
      Some (if v < 0x2000000 \<or> 0x80000000 \<le> v \<and> v < 0x82000000 then Some (low_page (v mod 0x2000000)) else None)"
    if v: "0 \<le> v" "v < 2 ^ 48" for v
  proof -
    let ?p = "i2 v * PDE_REGION_SIZE + i1 v * PTE_REGION_SIZE + v mod 4096"
    have d: "mmu_walk (ram_words m') (sk_pd_id t) v [21, 12] True False = Some (if i2 v < 16 then Some (low_page ?p) else None)"
      "mmu_walk (ram_words m') (sk_pd_vmem t) v [21, 12] True False = Some (if i2 v < 16 then Some (low_page ?p) else None)"
      by (rule directory_walk [OF _ _ f(1)] directory_walk [OF _ _ f(2)]; use p2 in simp)+
    have i: "v div 2 ^ 39 mod 512 = i4 v" "v div 2 ^ 30 mod 512 = i3 v"
      unfolding PT_IDX_eq PML4_BIT_BASE_def PDPT_BIT_BASE_def by (simp_all add: take_bit_eq_mod drop_bit_eq_div)
    have r: "ram_words m' (sk_pml4 t + 8 * i4 v) = Some (if i4 v = 0 then table_pte (sk_pdpt t) else 0)"
      "ram_words m' (sk_pdpt t + 8 * i3 v) = Some (if i3 v = 0 then table_pte (sk_pd_id t) else if i3 v = 2 then table_pte (sk_pd_vmem t) else 0)"
      unfolding ram_words_entry using p4 p3 by simp_all
    have x: "mmu_walk (ram_words m') (sk_pdpt t) v [30, 21, 12] True False =
        Some (if (i3 v = 0 \<or> i3 v = 2) \<and> i2 v < 16 then Some (low_page ?p) else None)"
      unfolding mmu_walk.simps(2) [of _ _ _ 30] i r(2)
      using table_pte_entry [of "sk_pd_id t"] table_pte_entry [of "sk_pd_vmem t"] e [OF f(4)] e [OF f(5)] d
      by (simp del: mmu_walk.simps)
    have "mmu (ram_words m') (sk_pml4 t) v =
        Some (if i4 v = 0 \<and> (i3 v = 0 \<or> i3 v = 2) \<and> i2 v < 16 then Some (low_page ?p) else None)"
      unfolding mmu_def mmu_walk.simps(2) [of _ _ _ 39] i r(1)
      using table_pte_entry [of "sk_pdpt t"] e [OF f(3)] x by (simp del: mmu_walk.simps)
    also have "\<dots> = Some (if v < 0x2000000 \<or> 0x80000000 \<le> v \<and> v < 0x82000000 then Some (low_page (v mod 0x2000000)) else None)"
      using page_base [OF v] index_range [OF v] page_offset_mod [of v] by auto
    finally show ?thesis .
  qed
  then show ?thesis using s unfolding low_page_def by blast
qed

text \<open>The tables one after the other from 0x101000, in memory that is zero.\<close>

definition sample_start :: start_tables where
  "sample_start = \<lparr>sk_pml4 = 0x101000, sk_pdpt = 0x102000, sk_pd_id = 0x103000, sk_pt_id = 0x104000, sk_pd_vmem = 0x114000,
     sk_pt_vmem = 0x115000\<rparr>"

theorem start_maps_witness:
  "\<exists>m'. start sample_start (\<lambda>_. Some 0) = Some (0x101000, m') \<and>
    mmu (ram_words m') 0x101000 0x80130004 =
      Some (Some \<lparr>tr_paddr = 0x130004, tr_writable = True, tr_user = False, tr_caching = Write_Back\<rparr>) \<and>
    mmu (ram_words m') 0x101000 0x82130000 = Some None"
proof -
  have al: "(x + i * PAGE_BYTES) mod 4096 = x mod 4096" for x i by (simp add: PAGE_BYTES_def NUM_PT_ENTRIES_def)
  have "tables_placed sample_start (\<lambda>_. Some 0)"
    by (auto simp: tables_placed_def upper_tables_def sample_start_def frame_ok_def in_memory_def pts_of_def al pte_get_def)
      (auto simp: PAGE_BYTES_def NUM_PT_ENTRIES_def)
  then obtain m' where "start sample_start (\<lambda>_. Some 0) = Some (sk_pml4 sample_start, m')"
    and m: "\<forall>v. 0 \<le> v \<longrightarrow> v < 2 ^ 48 \<longrightarrow> mmu (ram_words m') (sk_pml4 sample_start) v =
       Some (if v < 0x2000000 \<or> 0x80000000 \<le> v \<and> v < 0x82000000
         then Some \<lparr>tr_paddr = v mod 0x2000000, tr_writable = True, tr_user = False, tr_caching = Write_Back\<rparr> else None)"
    using start_maps by blast
  then show ?thesis using m [rule_format, of "0x80130004"] m [rule_format, of "0x82130000"] by (simp add: sample_start_def)
qed

end
