(* ===== verification/PagingInit.thy ===== *)
theory PagingInit
  imports Start Buddy
begin

text \<open>
  The initialisation of the memory (\<open>init_memory\<close> in src/init.c): \<open>paging_init\<close> builds the page tables of the kernel from
  a pool at the beginning of its dynamic memory, and the allocator of the kernel gets what is behind the pool.
\<close>

section \<open>The code\<close>

definition KERN_BASE_PADDR :: addr where "KERN_BASE_PADDR = 0x130000"
definition KERN_DYN_PADDR :: addr where "KERN_DYN_PADDR = 0x1000000"
definition KERN_DYN_VADDR :: addr where "KERN_DYN_VADDR = 0x81000000"
definition KERN_DYN_LEN :: sz where "KERN_DYN_LEN = 0x3fe00000"

text \<open>\<open>raw_code\<close> and \<open>raw_dyn\<close> are the structures on the stack before their fields are set.\<close>

definition init_memory :: "addr_mapping \<Rightarrow> addr_mapping \<Rightarrow> addr \<Rightarrow> paging \<Rightarrow> kvalloc \<Rightarrow> (paging \<times> kvalloc) option" where
  "init_memory raw_code raw_dyn backing s kv = do {
     kassert (KERN_DYN_PADDR > KERN_BASE_PADDR \<and> KERN_DYN_PADDR - KERN_BASE_PADDR = KERN_DYN_VADDR - KERN_BASE_VADDR);
     let code_len = KERN_DYN_PADDR - KERN_BASE_PADDR;
     let code_addrs = raw_code\<lparr>am_vbase := KERN_BASE_VADDR, am_pbase := KERN_BASE_PADDR, am_len := code_len\<rparr>;
     let dyn_addrs = raw_dyn\<lparr>am_vbase := KERN_DYN_VADDR, am_pbase := KERN_DYN_PADDR, am_len := KERN_DYN_LEN\<rparr>;
     ((dat, len), s) \<leftarrow> paging_init code_addrs dyn_addrs s;
     (res, kv) \<leftarrow> kvalloc_init backing dat len kv;
     kassert (\<not> is_error res);
     Some (s, kv)
   }"

section \<open>Regions as intervals\<close>

lemma page_of_div: "0 \<le> v \<Longrightarrow> v < 2 ^ 48 \<Longrightarrow> page_of v = v div 4096"
proof -
  assume "0 \<le> v" "v < 2 ^ 48"
  then have "0 \<le> v div 4096" "v div 4096 < 2 ^ 36" by simp_all
  then show ?thesis by (simp add: page_of_def take_bit_eq_mod drop_bit_eq_div)
qed

lemma region_view:
  assumes "region_mapped a (page_offsets (am_len a)) s s'" "am_vbase a mod 4096 = 0" "am_len a mod 4096 = 0"
    and "0 \<le> am_vbase a" "am_vbase a + am_len a \<le> 2 ^ 48" "0 \<le> v" "v < 2 ^ 48"
  shows "pt_walk s' v = (if am_vbase a \<le> v \<and> v < am_vbase a + am_len a
    then Some (Some (pte_from_paddr (am_pbase a + (v - v mod 4096 - am_vbase a)) (am_perms a) (am_mem_type a))) else pt_walk s v)"
proof -
  obtain b n where b: "am_vbase a = 4096 * b" and n: "am_len a = 4096 * n" using assms(2,3) by (meson mod_0_imp_dvd dvdE)
  have offs: "page_offsets (am_len a) = map (\<lambda>i. int i * 4096) [0 ..< nat n]"
    by (simp add: page_offsets_def PAGE_SIZE_def n)
  have page: "page_of (am_vbase a + int i * 4096) = b + int i" if "i < nat n" for i
  proof -
    have "am_vbase a + int i * 4096 = (b + int i) * 4096" by (simp add: b)
    moreover have "0 \<le> am_vbase a + int i * 4096" "am_vbase a + int i * 4096 < 2 ^ 48"
      using that assms(4,5) n by linarith+
    ultimately show ?thesis by (simp add: page_of_div)
  qed
  have v: "v = 4096 * (v div 4096) + v mod 4096" "0 \<le> v mod 4096" "v mod 4096 < 4096" by simp_all
  show ?thesis
  proof (cases "am_vbase a \<le> v \<and> v < am_vbase a + am_len a")
    case True
    define i where "i = nat (v div 4096 - b)"
    have i: "i < nat n" "int i = v div 4096 - b" using True v b n unfolding i_def by linarith+
    have "page_of v = page_of (am_vbase a + int i * 4096)"
      using page [OF i(1)] page_of_div [OF assms(6,7)] i(2) by simp
    moreover have "int i * 4096 \<in> set (page_offsets (am_len a))" unfolding offs set_map by (rule imageI) (use i(1) in simp)
    ultimately have "pt_walk s' v = Some (Some (pte_from_paddr (am_pbase a + int i * 4096) (am_perms a) (am_mem_type a)))"
      using assms(1) unfolding region_mapped_def by blast
    moreover have "int i * 4096 = v - v mod 4096 - am_vbase a" using v(1) i(2) b by linarith
    ultimately show ?thesis using True by simp
  next
    case False
    have "page_of v \<noteq> page_of (am_vbase a + off)" if o: "off \<in> set (page_offsets (am_len a))" for off
    proof -
      obtain i where i: "off = int i * 4096" "i < nat n" using o by (auto simp: offs)
      have "v div 4096 \<noteq> b + int i" using False v b n i(2) by linarith
      then show ?thesis using page [OF i(2)] page_of_div [OF assms(6,7)] i(1) by simp
    qed
    then show ?thesis using assms(1) False unfolding region_mapped_def by auto
  qed
qed

text \<open>The loops of \<open>paging_init\<close> do what mapping a region does, as long as that succeeds.\<close>

lemma init_map_loop_eq:
  "map_region_loop a offs s = Some (ok, s') \<Longrightarrow> am_perms a = ucast PT_FLAG_RW \<Longrightarrow>
     am_mem_type a = ADDR_MAPPING_MEMORY_DEFAULT \<Longrightarrow> init_map_loop a offs s = Some s'"
proof (induction offs arbitrary: s)
  case (Cons off offs)
  obtain r s1 where 1: "pt_map (am_vbase a + off) (am_pbase a + off) (am_perms a) (am_mem_type a) s = Some (r, s1)"
    using Cons.prems(1) by (auto simp: bind_eq_Some_conv)
  show ?case
  proof (cases r)
    case (Inl e)
    then show ?thesis using Cons.prems(1) 1 by (auto simp: bind_eq_Some_conv)
  next
    case (Inr u)
    then show ?thesis using Cons 1 by simp
  qed
qed simp

lemma init_map_loop_root: "init_map_loop a offs s = Some s' \<Longrightarrow> pg_pml4 s' = pg_pml4 s"
  by (induction offs arbitrary: s) (auto simp: bind_eq_Some_conv dest: pt_map_root)

section \<open>The two regions of the kernel\<close>

definition kern_code :: addr_mapping where
  "kern_code = \<lparr>am_type = ADDR_MAPPING_TYPE_CANONICAL, am_mem_type = ADDR_MAPPING_MEMORY_DEFAULT, am_perms = ucast PT_FLAG_RW,
     am_vbase = KERN_BASE_VADDR, am_pbase = KERN_BASE_PADDR, am_len = KERN_DYN_PADDR - KERN_BASE_PADDR\<rparr>"

definition kern_dyn :: addr_mapping where
  "kern_dyn = \<lparr>am_type = ADDR_MAPPING_TYPE_CANONICAL, am_mem_type = ADDR_MAPPING_MEMORY_DEFAULT, am_perms = ucast PT_FLAG_RW,
     am_vbase = KERN_DYN_VADDR, am_pbase = KERN_DYN_PADDR, am_len = KERN_DYN_LEN\<rparr>"

definition kern_mappings :: "addr_mapping \<Rightarrow> mappings" where
  "kern_mappings m = (True, kern_code) # (True, kern_dyn) # replicate 30 (False, m)"

lemmas kern_defs = kern_code_def kern_dyn_def KERN_BASE_VADDR_def KERN_BASE_PADDR_def KERN_DYN_PADDR_def KERN_DYN_VADDR_def
  KERN_DYN_LEN_def

lemma kern_added:
  "add_addr_mapping kern_code (replicate NUM_ADDR_MAPPINGS (False, m)) = (ok, (True, kern_code) # replicate 31 (False, m))"
  "add_addr_mapping kern_dyn ((True, kern_code) # replicate 31 (False, m)) = (ok, kern_mappings m)"
proof -
  have r: "replicate NUM_ADDR_MAPPINGS (False, m) = (False, m) # replicate 31 (False, m)"
    "replicate 31 (False, m) = (False, m) # replicate 30 (False, m)" by (simp_all add: NUM_ADDR_MAPPINGS_def numeral_eq_Suc)
  show "add_addr_mapping kern_code (replicate NUM_ADDR_MAPPINGS (False, m)) = (ok, (True, kern_code) # replicate 31 (False, m))"
    unfolding r(1) by (simp add: add_addr_mapping_def count_unused)
  show "add_addr_mapping kern_dyn ((True, kern_code) # replicate 31 (False, m)) = (ok, kern_mappings m)"
    unfolding r(2) by (simp add: add_addr_mapping_def count_unused v_overlap_def p_overlap_def intervals_overlap_def kern_defs kern_mappings_def)
qed

lemma kern_used: "used (kern_mappings m) = [kern_code, kern_dyn]"
  by (simp add: kern_mappings_def used_unused)

lemma kern_translate:
  assumes "0x80130000 \<le> v" "v < 0xC0E00000"
  shows "virt_to_phys v (kern_mappings m) = Some (Inr (v - 0x80000000))"
    "phys_to_virt (v - 0x80000000) (kern_mappings m) = Some (Inr v)"
  using assms by (simp_all add: virt_to_phys_def virt_loop_eq phys_to_virt_def phys_loop_eq phys_canonical_def phys_alias_def
      kern_used at_virt_def at_phys_def IN_RANGE_def kern_defs kassert_def last_or_def)

section \<open>The pool of page tables\<close>

text \<open>523 tables are needed for the two regions; the pool has twice as many pages.\<close>

definition POOL_BYTES :: sz where "POOL_BYTES = 1046 * 4096"

definition pool_pages :: "addr list" where
  "pool_pages = rev (map (\<lambda>j. KERN_DYN_VADDR + int j * 4096) [0 ..< 1046])"

lemma pool_pages_split: "pool_pages = 0x81415000 # rev (map (\<lambda>j. KERN_DYN_VADDR + int j * 4096) [0 ..< 1045])"
proof -
  have "[0 ..< 1046] = [0 ..< 1045] @ [1045 :: nat]" using upt_Suc_append [of 0 1045] by simp
  then show ?thesis by (simp add: pool_pages_def KERN_DYN_VADDR_def)
qed

lemma pool_link_memory:
  "pool_link m dat b js h = Some (h', m') \<Longrightarrow> m' x = None \<longleftrightarrow> m x = None"
proof (induction js arbitrary: m h)
  case (Cons j js)
  then show ?case by (fastforce simp: bind_eq_Some_conv write_word_def split: option.splits if_splits)
qed simp

lemma pool_new_memory: "pool_new m dat len b = Some (pl, m') \<Longrightarrow> m' x = None \<longleftrightarrow> m x = None"
  using pool_link_memory by (fastforce simp: pool_new_def bind_eq_Some_conv Let_def)

text \<open>The tables that the two regions can need.\<close>

definition kern_tables :: "sz list list" where
  "kern_tables = [] # [0] # [0, 2] # [0, 3] # map (\<lambda>b. [0, 2, b]) [0 .. 511] @ map (\<lambda>b. [0, 3, b]) [0 .. 511]"

lemma kern_tables_card: "card (set kern_tables) \<le> 1028"
proof -
  have "length kern_tables = 1028" by (simp add: kern_tables_def)
  then show ?thesis using card_length [of kern_tables] by simp
qed

lemma kern_tables_to:
  assumes "0x80000000 \<le> v" "v < 0x100000000"
  shows "tables_to v \<subseteq> set kern_tables"
proof -
  have "v < 2 ^ 48" "0 \<le> v" using assms by simp_all
  then have v: "v = 549755813888 * i4 v + 1073741824 * i3 v + 2097152 * i2 v + 4096 * i1 v + v mod 4096"
    using index_split by simp
  have r: "0 \<le> i4 v" "0 \<le> i3 v" "i3 v < 512" "0 \<le> i2 v" "i2 v < 512" "0 \<le> i1 v" "i1 v < 512" "0 \<le> v mod 4096" "v mod 4096 < 4096"
    by simp_all
  have "i4 v = 0" using v r assms by linarith
  moreover have "i3 v \<ge> 2" "i3 v \<le> 3" using v r assms \<open>i4 v = 0\<close> by linarith+
  then have "i3 v = 2 \<or> i3 v = 3" by linarith
  moreover have "[0, 2, i2 v] \<in> set kern_tables" "[0, 3, i2 v] \<in> set kern_tables"
    unfolding kern_tables_def using r(4,5) by (auto intro!: imageI simp del: PT_IDX_bounds)
  ultimately show ?thesis by (auto simp: kern_tables_def)
qed

definition pool_in_memory :: "words \<Rightarrow> bool" where
  "pool_in_memory m \<longleftrightarrow> (\<forall>b \<in> set pool_pages. \<forall>i \<in> {0 ..< 512}. m (b + 8 * i) \<noteq> None)"

lemma pool_page_range:
  assumes "b \<in> set pool_pages"
  shows "0x81000000 \<le> b" "b \<le> 0x81415000" "b mod 4096 = 0"
proof -
  obtain j where j: "b = 0x81000000 + int j * 4096" "j < 1046" using assms by (auto simp: pool_pages_def KERN_DYN_VADDR_def)
  then show "0x81000000 \<le> b" "b \<le> 0x81415000" by simp_all
  have "b = (0x81000 + int j) * 4096" using j(1) by simp
  then show "b mod 4096 = 0" by simp
qed

lemma kern_page_ok:
  assumes "pool_in_memory m" "\<And>x. m' x = None \<longleftrightarrow> m x = None" "b \<in> set pool_pages"
  shows "page_ok (kern_mappings mp) m' b"
proof -
  note r = pool_page_range [OF assms(3)]
  have "b - 0x80000000 = b + (- 0x80000) * 4096" by simp
  then have "(b - 0x80000000) mod 4096 = b mod 4096" by (simp only: mod_mult_self1)
  then have "frame_ok (b - 0x80000000)" using r by (simp add: frame_ok_def)
  then show ?thesis using kern_translate [of b mp] r assms unfolding page_ok_def pool_in_memory_def by force
qed

lemma kern_tables_ok:
  assumes "pool_in_memory (pg_words s)" "no_null_page (pg_words s)"
  obtains pl m1 pl2 where "pool_new (pg_words s) KERN_DYN_VADDR POOL_BYTES PAGE_SIZE = Some (pl, m1)"
    "pool_alloc m1 pl = Some (0x81415000, zero_range m1 0x81415000 4096, pl2)"
    "\<And>(s' :: paging) mp. pg_words s' = zero_range m1 0x81415000 4096 \<Longrightarrow> pg_pool s' = pl2 \<Longrightarrow> pg_pml4 s' = 0x81415000 \<Longrightarrow>
       pg_mappings s' = kern_mappings mp \<Longrightarrow> tables_ok s' (set pool_pages) [[] \<mapsto> 0x81415000] (tl pool_pages)"
proof -
  have blocks: "pool_blocks KERN_DYN_VADDR POOL_BYTES 4096 = pool_pages"
  proof -
    have "pool_block_size 4096 = 4096" by (simp add: pool_block_size_def ALIGN_UP_def)
    then show ?thesis unfolding pool_blocks_def pool_pages_def POOL_BYTES_def by (simp del: upt_rec_numeral)
  qed
  have "pg_words s b \<noteq> None" if "b \<in> set pool_pages" for b
    using assms(1) [unfolded pool_in_memory_def, rule_format, OF that, of 0] by simp
  then obtain pl m1 where pl: "pool_new (pg_words s) KERN_DYN_VADDR POOL_BYTES 4096 = Some (pl, m1)"
    "pl_size pl = pool_block_size 4096" "free_blocks m1 pl pool_pages"
    using pool_new_blocks [of KERN_DYN_VADDR POOL_BYTES 4096 "pg_words s"] blocks
    by (auto simp: KERN_DYN_VADDR_def POOL_BYTES_def SZ_MAX_def)
  have sz: "pl_size pl = 4096" using pl(2) by (simp add: pool_block_size_def ALIGN_UP_def)
  have split: "pool_pages = 0x81415000 # tl pool_pages" by (simp add: pool_pages_split del: upt_rec_numeral)
  obtain pl2 where pl2: "pool_alloc m1 pl = Some (0x81415000, zero_range m1 0x81415000 4096, pl2)"
    "free_blocks (zero_range m1 0x81415000 4096) pl2 (tl pool_pages)" "pl_size pl2 = 4096"
    using pool_alloc_cons [of m1 pl "0x81415000" "tl pool_pages"] pl(3) split sz by auto
  have mem: "zero_range m1 0x81415000 4096 x = None \<longleftrightarrow> pg_words s x = None" for x
    using pool_new_memory [OF pl(1), of x] by (simp add: zero_range_def)
  have "x < 0x81415000" if "x \<in> set (tl pool_pages)" for x
    using that unfolding pool_pages_split by (auto simp: KERN_DYN_VADDR_def)
  then have distinct: "0x81415000 \<notin> set (tl pool_pages)" by blast
  have root: "0x81415000 \<in> set pool_pages" by (subst split) simp
  show thesis
  proof (rule that)
    show "pool_new (pg_words s) KERN_DYN_VADDR POOL_BYTES PAGE_SIZE = Some (pl, m1)" using pl(1) by (simp add: PAGE_SIZE_def)
    show "pool_alloc m1 pl = Some (0x81415000, zero_range m1 0x81415000 4096, pl2)" by (rule pl2(1))
    fix s' :: paging and mp
    assume s': "pg_words s' = zero_range m1 0x81415000 4096" "pg_pool s' = pl2" "pg_pml4 s' = 0x81415000"
      "pg_mappings s' = kern_mappings mp"
    show "tables_ok s' (set pool_pages) [[] \<mapsto> 0x81415000] (tl pool_pages)"
    proof (rule tables_okI)
      show "free_blocks (pg_words s') (pg_pool s') (tl pool_pages)" "pl_size (pg_pool s') = 4096" using pl2 s' by simp_all
      show "set (tl pool_pages) \<subseteq> set pool_pages" by (subst (2) split) auto
      show "page_ok (pg_mappings s') (pg_words s') b" if "b \<in> set pool_pages" for b
        unfolding s' by (rule kern_page_ok [OF assms(1) mem that])
      show "no_null_page (pg_words s')" using assms(2) mem unfolding s' no_null_page_def by blast
      show "child_ok (pg_mappings s') ([[] \<mapsto> 0x81415000] (p @ [i])) (entry (pg_words s') a i)"
        if "[[] \<mapsto> 0x81415000] p = Some a" "i \<in> {0 ..< 512}" for p a i
      proof -
        have p: "p = []" "a = 0x81415000" using that(1) by (auto split: if_splits)
        have "pg_words s (0x81415000 + 8 * i) \<noteq> None" using assms(1) root that(2) by (simp add: pool_in_memory_def)
        then have "m1 (0x81415000 + 8 * i) \<noteq> None" by (simp add: pool_new_memory [OF pl(1)])
        then have "entry (pg_words s') a i = 0" using that(2) unfolding s' p by (auto simp: entry_def pte_get_def zero_range_def)
        then show ?thesis using p by (simp add: child_ok_def)
      qed
    qed (use distinct root s' in \<open>auto split: if_splits\<close>)
  qed
qed

section \<open>The page tables of the kernel\<close>

definition kern_entry :: "addr \<Rightarrow> u64 option" where
  "kern_entry v = (if 0x80130000 \<le> v \<and> v < 0xC0E00000
     then Some (pte_from_paddr (v - v mod 4096 - 0x80000000) (ucast PT_FLAG_RW) ADDR_MAPPING_MEMORY_DEFAULT) else None)"

lemma kern_flags: "rw_us (ucast PT_FLAG_RW)" "bit (ucast PT_FLAG_RW :: u16) 1" "\<not> bit (ucast PT_FLAG_RW :: u16) 2"
proof -
  have "ucast PT_FLAG_RW = (2 :: u16)" by (simp add: PT_FLAG_RW_def)
  moreover have "bit (2 :: u16) 1" "\<not> bit (2 :: u16) 2" by code_simp+
  ultimately show "rw_us (ucast PT_FLAG_RW)" "bit (ucast PT_FLAG_RW :: u16) 1" "\<not> bit (ucast PT_FLAG_RW :: u16) 2" using rw_us_2 by simp_all
qed

lemma kern_entry_decoded:
  "map_option (decode v) (kern_entry v) = (if 0x80130000 \<le> v \<and> v < 0xC0E00000
     then Some \<lparr>tr_paddr = v - 0x80000000, tr_writable = True, tr_user = False, tr_caching = Write_Back\<rparr> else None)"
proof (cases "0x80130000 \<le> v \<and> v < 0xC0E00000")
  case True
  let ?p = "v - v mod 4096 - 0x80000000"
  have "?p = 4096 * (v div 4096 - 0x80000)" by (simp add: minus_mod_eq_mult_div)
  moreover have "0x80130 \<le> v div 4096" "v div 4096 < 0xC0E00" using True by linarith+
  ultimately have "0 \<le> ?p" "?p < 2 ^ 52" "?p mod 4096 = 0" by simp_all
  from decode_pte [OF kern_flags(1) this] show ?thesis using True kern_flags(2,3) by (simp add: kern_entry_def)
qed (auto simp: kern_entry_def)

lemma perms_kern: "perms_ok (ucast PT_FLAG_RW)"
  by (simp add: perms_ok_def PT_FLAG_RW_def)

lemma kern_offset_tables:
  assumes "off \<in> set (page_offsets len)" "0x80000000 \<le> v" "v + len \<le> 0x100000000" "len mod 4096 = 0"
  shows "tables_to (v + off) \<subseteq> set kern_tables"
proof -
  obtain i where i: "off = int i * 4096" "i < nat ((len + 4096 - 1) div 4096)"
    using assms(1) by (auto simp: page_offsets_def PAGE_SIZE_def)
  obtain n where n: "len = 4096 * n" using assms(4) by (meson mod_0_imp_dvd dvdE)
  then have "int i < n" using i(2) by simp
  then have "0 \<le> off" "off < len" using i(1) n by linarith+
  then show ?thesis using kern_tables_to [of "v + off"] assms(2,3) by linarith
qed

lemma kern_enough:
  assumes "dom T \<subseteq> set kern_tables" "card (dom T) + length fs = 1046" "0x80000000 \<le> v" "v + len \<le> 0x100000000" "len mod 4096 = 0"
  shows "enough T fs v (page_offsets len)"
  using assms(1,2) kern_offset_tables [OF _ assms(3-5)] kern_tables_card unfolding enough_def
  by (intro disjI2 exI [of _ "set kern_tables"]) simp

lemma kern_offsets: "am_len kern_code mod 4096 = 0" "am_len kern_dyn mod 4096 = 0"
  by (simp_all add: kern_defs)

lemma paging_init_kernel:
  assumes "pg_mappings s = replicate NUM_ADDR_MAPPINGS (False, mp)" "cpu_has_pat s" "pool_in_memory (pg_words s)" "no_null_page (pg_words s)"
    and "am_vbase code = KERN_BASE_VADDR" "am_pbase code = KERN_BASE_PADDR" "am_len code = KERN_DYN_PADDR - KERN_BASE_PADDR"
    and "am_vbase dyn = KERN_DYN_VADDR" "am_pbase dyn = KERN_DYN_PADDR" "am_len dyn = KERN_DYN_LEN"
  shows "\<exists>s' T fs. paging_init code dyn s = Some ((0x81416000, 0x3F9EA000), s') \<and> tables_ok s' (set pool_pages) T fs \<and>
    mmu_ok s' T \<and> pg_mappings s' = kern_mappings mp \<and> pg_pml4 s' = 0x81415000 \<and> pg_cr3 s' = 0x1415000 \<and>
    (\<forall>v. 0 \<le> v \<longrightarrow> v < 2 ^ 48 \<longrightarrow> pt_walk s' v = Some (kern_entry v))"
proof -
  obtain pl m1 pl2 where pool: "pool_new (pg_words s) KERN_DYN_VADDR POOL_BYTES PAGE_SIZE = Some (pl, m1)"
    "pool_alloc m1 pl = Some (0x81415000, zero_range m1 0x81415000 4096, pl2)"
    "\<And>(s' :: paging) mp. pg_words s' = zero_range m1 0x81415000 4096 \<Longrightarrow> pg_pool s' = pl2 \<Longrightarrow> pg_pml4 s' = 0x81415000 \<Longrightarrow>
       pg_mappings s' = kern_mappings mp \<Longrightarrow> tables_ok s' (set pool_pages) [[] \<mapsto> 0x81415000] (tl pool_pages)"
    using kern_tables_ok [OF assms(3,4)] by blast
  define s1 where "s1 = s\<lparr>pg_words := zero_range m1 0x81415000 4096, pg_pool := pl2, pg_pml4 := 0x81415000, pg_mappings := kern_mappings mp\<rparr>"
  have t1: "tables_ok s1 (set pool_pages) [[] \<mapsto> 0x81415000] (tl pool_pages)" by (rule pool(3)) (simp_all add: s1_def)
  have n1: "length (tl pool_pages) = 1045" unfolding pool_pages_split by simp
  have e1: "enough [[] \<mapsto> 0x81415000] (tl pool_pages) (am_vbase kern_code) (page_offsets (am_len kern_code))"
    by (rule kern_enough) (simp_all add: n1 kern_defs kern_tables_def del: length_tl upto_rec_numeral)
  have d: "pages_distinct (am_vbase kern_code) (page_offsets (am_len kern_code))" "pages_distinct (am_vbase kern_dyn) (page_offsets (am_len kern_dyn))"
    by (rule pages_distinct_offsets; simp add: kern_defs)+
  have p: "perms_ok (am_perms kern_code)" "perms_ok (am_perms kern_dyn)" using perms_kern by (simp_all add: kern_code_def kern_dyn_def)
  obtain s2 T2 f2 where 2: "map_region_loop kern_code (page_offsets (am_len kern_code)) s1 = Some (ok, s2)" "tables_ok s2 (set pool_pages) T2 f2"
    "grown [[] \<mapsto> 0x81415000] (tl pool_pages) T2 f2 (\<Union>off \<in> set (page_offsets (am_len kern_code)). tables_to (am_vbase kern_code + off))"
    "pg_mappings s2 = pg_mappings s1" "region_mapped kern_code (page_offsets (am_len kern_code)) s1 s2"
    "rw_us (am_perms kern_code) \<longrightarrow> mmu_ok s1 [[] \<mapsto> 0x81415000] \<longrightarrow> mmu_ok s2 T2"
    using map_region_loop_ok [OF t1 p(1) e1 d(1)] by blast
  have U: "tables_to (am_vbase kern_code + off) \<subseteq> set kern_tables" if "off \<in> set (page_offsets (am_len kern_code))" for off
    by (rule kern_offset_tables [OF that]) (simp_all add: kern_defs)
  define W where "W = (\<Union>off \<in> set (page_offsets (am_len kern_code)). tables_to (am_vbase kern_code + off))"
  have W: "W \<subseteq> set kern_tables" unfolding W_def by (rule UN_least) (rule U)
  have "dom T2 \<subseteq> dom [[] \<mapsto> 0x81415000 :: addr] \<union> W" using 2(3) unfolding grown_def W_def [symmetric] by (rule conjunct1)
  moreover have "dom [[] \<mapsto> 0x81415000 :: addr] \<subseteq> set kern_tables" by (simp add: kern_tables_def)
  ultimately have "dom T2 \<subseteq> set kern_tables" using W by blast
  moreover have "card (dom T2) + length f2 = 1046" using 2(3) n1 by (simp add: grown_def del: length_tl)
  ultimately have e2: "enough T2 f2 (am_vbase kern_dyn) (page_offsets (am_len kern_dyn))"
    by (rule kern_enough) (simp_all add: kern_defs)
  obtain s3 T3 f3 where 3: "map_region_loop kern_dyn (page_offsets (am_len kern_dyn)) s2 = Some (ok, s3)" "tables_ok s3 (set pool_pages) T3 f3"
    "pg_mappings s3 = pg_mappings s2" "region_mapped kern_dyn (page_offsets (am_len kern_dyn)) s2 s3"
    "rw_us (am_perms kern_dyn) \<longrightarrow> mmu_ok s2 T2 \<longrightarrow> mmu_ok s3 T3"
    using map_region_loop_ok [OF 2(2) p(2) e2 d(2)] by blast
  have init: "init_map_loop kern_code (page_offsets (am_len kern_code)) s1 = Some s2"
    "init_map_loop kern_dyn (page_offsets (am_len kern_dyn)) s2 = Some s3"
    by (rule init_map_loop_eq [OF 2(1)] init_map_loop_eq [OF 3(1)]; simp add: kern_code_def kern_dyn_def)+
  have root: "pg_pml4 s3 = 0x81415000" using init_map_loop_root [OF init(1)] init_map_loop_root [OF init(2)] by (simp add: s1_def)
  have "paging_init code dyn s = Some ((0x81416000, 0x3F9EA000), s3\<lparr>pg_cr3 := 0x1415000\<rparr>)"
  proof -
    have c: "code\<lparr>am_type := ADDR_MAPPING_TYPE_CANONICAL, am_mem_type := ADDR_MAPPING_MEMORY_DEFAULT, am_perms := ucast PT_FLAG_RW\<rparr> = kern_code"
      "dyn\<lparr>am_type := ADDR_MAPPING_TYPE_CANONICAL, am_mem_type := ADDR_MAPPING_MEMORY_DEFAULT, am_perms := ucast PT_FLAG_RW\<rparr> = kern_dyn"
      by (rule addr_mapping.equality; simp add: kern_code_def kern_dyn_def assms(5-10))+
    have len: "am_len code = 0xED0000" "0xED0000 + 0x3fe00000 = (0x40CD0000 :: int)" "am_len dyn = 0x3fe00000" "am_vbase dyn = KERN_DYN_VADDR"
      using assms(5-10) by (simp_all add: kern_defs)
    have al: "ALIGN_UP 0x40CD0000 PAGE_SIZE div PAGE_SIZE = 265424" "ALIGN_UP 265424 NUM_PT_ENTRIES div NUM_PT_ENTRIES = 519"
      "ALIGN_UP 519 NUM_PT_ENTRIES div NUM_PT_ENTRIES = 2" "ALIGN_UP 2 NUM_PT_ENTRIES div NUM_PT_ENTRIES = 1"
      "ALIGN_UP 1 NUM_PT_ENTRIES div NUM_PT_ENTRIES = 1"
      by (simp_all add: ALIGN_UP_def PAGE_SIZE_def NUM_PT_ENTRIES_def)
    have bytes: "2 * PAGE_SIZE * (519 + 2 + 1 + 1) = POOL_BYTES" by (simp add: POOL_BYTES_def PAGE_SIZE_def)
    have pk: "kassert (0x3fe00000 div 200 > POOL_BYTES) = Some ()" "kassert (POOL_BYTES < 16 * 0x100000) = Some ()"
      "kassert (cpu_has_pat s) = Some ()" by (simp_all add: POOL_BYTES_def assms(2))
    have m: "virt_to_phys 0x81415000 (pg_mappings s3) = Some (Inr 0x1415000)"
      using kern_translate(1) [of "0x81415000" mp] 2(4) 3(3) by (simp add: s1_def)
    show ?thesis
      unfolding paging_init_def Let_def c len al bytes pk
      by (simp add: pool assms(1) kern_added init [unfolded s1_def] m root) (simp add: kern_defs POOL_BYTES_def)
  qed
  moreover have "tables_ok (s3\<lparr>pg_cr3 := 0x1415000\<rparr>) (set pool_pages) T3 f3" using 3(2) by (simp add: tables_ok_def)
  moreover have "mmu_ok (s3\<lparr>pg_cr3 := 0x1415000\<rparr>) T3"
  proof -
    have "mmu_ok s1 [[] \<mapsto> 0x81415000]" by (auto simp: mmu_ok_def leaf_def split: if_splits)
    then have "mmu_ok s3 T3" using 2(6) 3(5) kern_flags by (simp add: kern_code_def kern_dyn_def)
    then show ?thesis by (simp add: mmu_ok_def)
  qed
  moreover have "pt_walk (s3\<lparr>pg_cr3 := 0x1415000\<rparr>) v = Some (kern_entry v)" if v: "0 \<le> v" "v < 2 ^ 48" for v
  proof -
    have "pt_walk (s3\<lparr>pg_cr3 := 0x1415000\<rparr>) v = pt_walk s3 v"
      by (cases s3) (simp only: pt_walk_def paging.select_convs paging.update_convs)
    moreover have "pt_walk s1 v = Some None" unfolding pt_walk_leaf [OF t1] by (simp add: leaf_def)
    ultimately show ?thesis
      using region_view [OF 3(4) _ kern_offsets(2) _ _ v] region_view [OF 2(5) _ kern_offsets(1) _ _ v]
      by (simp add: kern_entry_def kern_defs)
  qed
  ultimately show ?thesis using 2(4) 3(3) root by (intro exI conjI) (assumption | simp add: s1_def)+
qed

section \<open>The allocator behind the pool\<close>

text \<open>One block of 512 MB, the largest power of two that fits.\<close>

lemma kern_buddy:
  assumes "0 \<le> backing"
  shows "\<exists>b arn. buddy_init 0x81416000 0x3F9EA000 (arena_new backing VIRT_ALLOC_BACKING_MEM_SIZE) = Some (b, arn) \<and>
    bd_base b = 0x81416000 \<and> bd_max_ord b = 17 \<and> bd_ord b = [0x81416000 \<mapsto> 17] \<and>
    (\<forall>k < N_FREE_LISTS. ring (bd_links b) (Head k) (if k = 17 then [Blk 0x81416000] else []))"
proof -
  let ?h0 = "raw_links 0x81416000 (2 ^ 17)"
  obtain h where h: "init_lists ?h0 [0 ..< N_FREE_LISTS] = Some h" "\<forall>i \<in> set [0 ..< N_FREE_LISTS]. ring h (Head i) []" "dom h = dom ?h0"
    using init_lists_rings [of "[0 ..< N_FREE_LISTS]" ?h0] by (auto simp: raw_links_def)
  have "h (Blk 0x81416000) \<noteq> None"
  proof -
    have "Blk 0x81416000 \<in> dom ?h0" by (simp add: raw_links_def PAGE_SIZE_def dom_def)
    then show ?thesis using h(3) by blast
  qed
  moreover have r17: "ring h (Head 17) ([] @ [])" using h(2) by (simp add: N_FREE_LISTS_def del: upt_rec_numeral)
  ultimately obtain h' where h': "dlist_insert h (Head 17) (Blk 0x81416000) = Some h'" "ring h' (Head 17) [Blk 0x81416000]"
    "\<forall>y. y \<notin> {Head 17, Blk 0x81416000} \<longrightarrow> h' y = h y"
    using dlist_insert_ring [OF r17, of "Blk 0x81416000" "Head 17"] by auto
  have rings: "ring h' (Head k) (if k = 17 then [Blk 0x81416000] else [])" if "k < N_FREE_LISTS" for k
  proof (cases "k = 17")
    case False
    have "ring h (Head k) []" using h(2) that by simp
    then show ?thesis using False ring_frame [of h "Head k" "[]" h'] h'(3) by simp
  qed (use h'(2) in simp)
  have arith: "(- 0x81416000) AND (PAGE_SIZE - 1) = 0" by (simp add: PAGE_SIZE_def)
  have mx: "max_power_of_two_leq 0x3F9EA000 = Some 0x20000000" by code_simp
  have ord: "order_of (2 ^ 17) = Some 17" using order_of_pow2 [of 17] by simp
  obtain p a1 where a1: "arena_alloc (arena_new backing VIRT_ALLOC_BACKING_MEM_SIZE) SIZEOF_BUDDY = Some (p, a1)"
    "ar_end a1 = backing + 0x5000" "ar_beg a1 \<le> backing + 1287"
  proof -
    have "(- backing) mod 8 < 8" "0 \<le> (- backing) mod 8" by simp_all
    then show thesis using that arena_alloc_aligned_Some [of "arena_new backing VIRT_ALLOC_BACKING_MEM_SIZE" SIZEOF_BUDDY 3]
      by (simp add: arena_alloc_def arena_new_def VIRT_ALLOC_BACKING_MEM_SIZE_def SIZEOF_BUDDY_def)
  qed
  obtain bm a2 where a2: "byte_array_from_arena 16384 a1 = Some (bm, a2)"
  proof -
    have "(- ar_beg a1) mod 8 < 8" by simp
    then have "ar_beg a1 + (- ar_beg a1) mod 8 + 16384 \<le> ar_end a1" using a1(2,3) by linarith
    then obtain q a2 where "arena_alloc a1 16384 = Some (q, a2)"
      using arena_alloc_aligned_Some [of a1 16384 3] by (simp add: arena_alloc_def)
    then show thesis using that by (simp add: byte_array_from_arena_def kassert_def)
  qed
  have "buddy_init 0x81416000 0x3F9EA000 (arena_new backing VIRT_ALLOC_BACKING_MEM_SIZE) =
      Some (\<lparr>bd_links = h', bd_ord = [0x81416000 \<mapsto> 17], bd_bitmap = bm, bd_max_ord = 17, bd_base = 0x81416000\<rparr>, a2)"
    using h(1) h'(1) ord a2
    by (simp add: buddy_init_def Let_def arith mx a1(1) PAGE_SIZE_def BYTE_WIDTH_def N_FREE_LISTS_def del: upt_rec_numeral)
  then show ?thesis using rings by auto
qed

section \<open>The memory of the kernel\<close>

text \<open>
  C16: From the memory as it is at the start, \<open>init_memory\<close> succeeds: its pool does not run out of page tables, no assertion
  fails. Afterwards the kernel's lookup finds the entries of its code and its dynamic memory and no others; the processor, with the new
  \<open>cr3\<close>, translates these addresses to their physical addresses, writable, closed for user mode and cached, and no other address; the
  translations agree with that, and the allocator has one free block of \<open>2 ^ 17\<close> pages, which begins behind the page tables.
\<close>

theorem init_memory_maps:
  assumes "pg_mappings s = replicate NUM_ADDR_MAPPINGS (False, mp)" "cpu_has_pat s" "pool_in_memory (pg_words s)"
    and "no_null_page (pg_words s)" "\<not> kv_initialized kv" "0 \<le> backing"
  shows "\<exists>s' kv' b T fs. init_memory raw_code raw_dyn backing s kv = Some (s', kv') \<and> tables_ok s' (set pool_pages) T fs \<and>
    pg_cr3 s' = pg_pml4 s' - 0x80000000 \<and>
    (\<forall>v. 0 \<le> v \<longrightarrow> v < 2 ^ 48 \<longrightarrow> pt_walk s' v = Some (if 0x80130000 \<le> v \<and> v < 0xC0E00000
       then Some (pte_from_paddr (v - v mod 4096 - 0x80000000) (ucast PT_FLAG_RW) ADDR_MAPPING_MEMORY_DEFAULT) else None)) \<and>
    (\<forall>ram v. backs ram s' (set pool_pages) \<longrightarrow> 0 \<le> v \<longrightarrow> v < 2 ^ 48 \<longrightarrow> mmu ram (pg_cr3 s') v =
       Some (if 0x80130000 \<le> v \<and> v < 0xC0E00000
         then Some \<lparr>tr_paddr = v - 0x80000000, tr_writable = True, tr_user = False, tr_caching = Write_Back\<rparr> else None)) \<and>
    (\<forall>v. 0x80130000 \<le> v \<longrightarrow> v < 0xC0E00000 \<longrightarrow> virt_to_phys v (pg_mappings s') = Some (Inr (v - 0x80000000)) \<and>
       phys_to_virt (v - 0x80000000) (pg_mappings s') = Some (Inr v)) \<and>
    kv_initialized kv' \<and> kv_virt_alloc kv' = Some b \<and> bd_base b = 0x81416000 \<and> bd_max_ord b = 17 \<and>
    (\<forall>k < N_FREE_LISTS. ring (bd_links b) (Head k) (if k = 17 then [Blk 0x81416000] else []))"
proof -
  let ?code = "raw_code\<lparr>am_vbase := KERN_BASE_VADDR, am_pbase := KERN_BASE_PADDR, am_len := KERN_DYN_PADDR - KERN_BASE_PADDR\<rparr>"
  let ?dyn = "raw_dyn\<lparr>am_vbase := KERN_DYN_VADDR, am_pbase := KERN_DYN_PADDR, am_len := KERN_DYN_LEN\<rparr>"
  obtain s' T fs where s': "paging_init ?code ?dyn s = Some ((0x81416000, 0x3F9EA000), s')" "tables_ok s' (set pool_pages) T fs"
    "pg_mappings s' = kern_mappings mp" "pg_pml4 s' = 0x81415000" "pg_cr3 s' = 0x1415000"
    "\<forall>v. 0 \<le> v \<longrightarrow> v < 2 ^ 48 \<longrightarrow> pt_walk s' v = Some (kern_entry v)" "mmu_ok s' T"
    using paging_init_kernel [OF assms(1-4), of ?code ?dyn] by auto
  obtain b arn where b: "buddy_init 0x81416000 0x3F9EA000 (arena_new backing VIRT_ALLOC_BACKING_MEM_SIZE) = Some (b, arn)"
    "bd_base b = 0x81416000" "bd_max_ord b = 17"
    "\<forall>k < N_FREE_LISTS. ring (bd_links b) (Head k) (if k = 17 then [Blk 0x81416000] else [])"
    using kern_buddy [OF assms(6)] by auto
  have "kassert (KERN_DYN_PADDR > KERN_BASE_PADDR \<and> KERN_DYN_PADDR - KERN_BASE_PADDR = KERN_DYN_VADDR - KERN_BASE_VADDR) = Some ()"
    by (simp add: kern_defs)
  then have "init_memory raw_code raw_dyn backing s kv = Some (s', kv\<lparr>kv_virt_alloc := Some b, kv_initialized := True\<rparr>)"
    using s'(1) b(1) assms(5) by (simp add: init_memory_def Let_def kvalloc_init_def)
  moreover have "mmu ram (pg_cr3 s') v = Some (if 0x80130000 \<le> v \<and> v < 0xC0E00000
      then Some \<lparr>tr_paddr = v - 0x80000000, tr_writable = True, tr_user = False, tr_caching = Write_Back\<rparr> else None)"
    if "backs ram s' (set pool_pages)" "0 \<le> v" "v < 2 ^ 48" for ram v
  proof -
    have "virt_to_phys (pg_pml4 s') (pg_mappings s') = Some (Inr (pg_cr3 s'))"
      using kern_translate(1) [of "0x81415000" mp] s'(3-5) by simp
    from mmu_view [OF s'(2,7) that(1) this, of v] show ?thesis using s'(6) that(2,3) kern_entry_decoded [of v] by simp
  qed
  ultimately show ?thesis using s'(2-6) b(2-4) kern_translate [of _ mp] unfolding kern_entry_def
    by (intro exI [of _ s'] exI [of _ "kv\<lparr>kv_virt_alloc := Some b, kv_initialized := True\<rparr>"] exI [of _ b] exI [of _ T] exI [of _ fs]) simp
qed

text \<open>The memory behind 16 MB is zero, and nothing is mapped.\<close>

definition fresh_paging :: paging where
  "fresh_paging = \<lparr>pg_mappings = replicate NUM_ADDR_MAPPINGS (False, kern_code),
     pg_words = (\<lambda>x. if 0x81000000 \<le> x then Some 0 else None), pg_pool = \<lparr>pl_head = 0, pl_size = 0\<rparr>, pg_pml4 = 0,
     pg_cpuid_edx = 2 ^ 16, pg_cr3 = 0x101000\<rparr>"

theorem init_memory_maps_witness:
  "\<exists>s' kv'. init_memory kern_dyn kern_code 0x80200000 fresh_paging \<lparr>kv_virt_alloc = None, kv_initialized = False\<rparr> = Some (s', kv') \<and>
    pt_walk s' 0x80130004 = Some (Some (pte_from_paddr 0x130000 (ucast PT_FLAG_RW) ADDR_MAPPING_MEMORY_DEFAULT)) \<and>
    pt_walk s' 0 = Some None"
proof -
  let ?kv = "\<lparr>kv_virt_alloc = None, kv_initialized = False\<rparr>"
  have "pg_mappings fresh_paging = replicate NUM_ADDR_MAPPINGS (False, kern_code)" by (simp add: fresh_paging_def)
  moreover have "cpu_has_pat fresh_paging" by (simp add: cpu_has_pat_def fresh_paging_def)
  moreover have "pool_in_memory (pg_words fresh_paging)"
    unfolding pool_in_memory_def fresh_paging_def using pool_page_range(1) by fastforce
  moreover have "no_null_page (pg_words fresh_paging)" by (simp add: no_null_page_def fresh_paging_def)
  ultimately obtain s' kv' where i: "init_memory kern_dyn kern_code 0x80200000 fresh_paging ?kv = Some (s', kv')"
    and w: "\<forall>v. 0 \<le> v \<longrightarrow> v < 2 ^ 48 \<longrightarrow> pt_walk s' v = Some (if 0x80130000 \<le> v \<and> v < 0xC0E00000
       then Some (pte_from_paddr (v - v mod 4096 - 0x80000000) (ucast PT_FLAG_RW) ADDR_MAPPING_MEMORY_DEFAULT) else None)"
    using init_memory_maps [of fresh_paging kern_code ?kv "0x80200000" kern_dyn kern_code] by auto
  have "pt_walk s' 0x80130004 = Some (Some (pte_from_paddr 0x130000 (ucast PT_FLAG_RW) ADDR_MAPPING_MEMORY_DEFAULT))"
    using w [rule_format, of "0x80130004"] by simp
  moreover have "pt_walk s' 0 = Some None" using w [rule_format, of 0] by simp
  ultimately show ?thesis using i by blast
qed

end
