(* ===== verification/NetInit.thy ===== *)
theory NetInit
  imports NetInput Rtcfg
begin

text \<open>
  The initialisation of the network and the task that sends the first ping (\<open>init_net\<close> and \<open>task_net_ping\<close> in
  src/init.c).
\<close>

section \<open>Routes and the input queue\<close>

text \<open>
  The fields of the configuration are options; reading one that is missing stops the machine, here by binding it. The
  arguments of the final debug message are kept: formatting takes memory of the arena, and the prefix length has
  assertions of its own.
\<close>

definition default_route :: "ipv4_addr \<Rightarrow> ipv4_addr \<Rightarrow> ipv4_route_entry" where
  "default_route gateway host = \<lparr>re_dest = ipv4_addr_new 0 0 0 0, re_mask = ipv4_addr_new 0 0 0 0, re_gateway = gateway,
     re_interface = host\<rparr>"

definition local_route :: "ipv4_addr \<Rightarrow> ipv4_addr \<Rightarrow> ipv4_addr \<Rightarrow> ipv4_route_entry" where
  "local_route dest msk host = \<lparr>re_dest = dest, re_mask = msk, re_gateway = host, re_interface = host\<rparr>"

definition init_net :: "runtime_config \<Rightarrow> arena \<Rightarrow> ('d, 'z) tcp_net_scheme \<Rightarrow> ('d, 'z) tcp_net_scheme option" where
  "init_net cfg arn s = do {
     host \<leftarrow> host_ip cfg;
     gateway \<leftarrow> default_gateway_ip cfg;
     local \<leftarrow> local_ip cfg;
     msk \<leftarrow> local_ip_mask cfg;
     let (_, s) = ipv4_route_add (default_route gateway host) s;
     let (_, s) = ipv4_route_add (local_route local msk host) s;
     let s = netdev_set_default_ip_addr host s;
     (r, s) \<leftarrow> netdev_init_input_queue s;
     kassert (\<not> is_error r);
     (_, arn) \<leftarrow> ipv4_addr_format host arn;
     (_, arn) \<leftarrow> ipv4_addr_format gateway arn;
     (_, arn) \<leftarrow> ipv4_addr_format local arn;
     _ \<leftarrow> ipv4_mask_prefix_length msk;
     Some s
   }"

section \<open>The first ping\<close>

text \<open>
  \<open>env\<close> is what the other tasks do during the two seconds of a sleep. The number counts the attempts that are left.
\<close>

fun ping_loop :: "(('d, 'z) tcp_net_scheme \<Rightarrow> ('d, 'z) tcp_net_scheme option) \<Rightarrow> nat \<Rightarrow> unit res \<Rightarrow> send_buf \<Rightarrow>
    ('d, 'z) tcp_net_scheme \<Rightarrow> (unit res \<times> ('d, 'z) tcp_net_scheme) option" where
  "ping_loop env 0 res sb s = Some (res, s)"
| "ping_loop env (Suc n) res sb s = do {
     (res, s) \<leftarrow> icmpv4_send_echo (ipv4_addr_new 8 8 8 8) 0xcafe 0xcafe sb s;
     if \<not> is_error res \<or> res \<noteq> Inl EAGAIN then Some (res, s)
     else do {
       s \<leftarrow> env s;
       ping_loop env n res sb s
     }
   }"

definition task_net_ping :: "(('d, 'z) tcp_net_scheme \<Rightarrow> ('d, 'z) tcp_net_scheme option) \<Rightarrow> ('d, 'z) tcp_net_scheme \<Rightarrow>
    ('d, 'z) tcp_net_scheme option" where
  "task_net_ping env s = do {
     (tmp, kv) \<leftarrow> kvalloc_alloc 0x2000 64 (tcp_kv s);
     _ \<leftarrow> tmp;
     (mem, kv) \<leftarrow> kvalloc_alloc 0x4000 64 kv;
     (dat, len) \<leftarrow> mem;
     (res, s) \<leftarrow> ping_loop env 5 ok (send_buf_new (arena_new dat len)) (s\<lparr>tcp_kv := kv\<rparr>);
     kassert (\<not> is_error res);
     Some s
   }"

text \<open>
  When nobody answers the request for the hardware address of the next hop, so that every attempt gives \<open>EAGAIN\<close>, the
  task stops the kernel. \<open>P\<close> says what stays true while the other tasks run.
\<close>

lemma ping_loop_again:
  assumes "\<And>s. P s \<Longrightarrow> \<exists>s'. icmpv4_send_echo (ipv4_addr_new 8 8 8 8) 0xcafe 0xcafe sb s = Some (Inl EAGAIN, s') \<and> (\<forall>s''. env s' = Some s'' \<longrightarrow> P s'')"
    and "P s" "ping_loop env (Suc n) res sb s = Some (r, s')"
  shows "r = Inl EAGAIN"
  using assms(2,3)
proof (induction n arbitrary: s res)
  case 0
  obtain s1 where "icmpv4_send_echo (ipv4_addr_new 8 8 8 8) 0xcafe 0xcafe sb s = Some (Inl EAGAIN, s1)"
    using assms(1) [OF 0(1)] by blast
  then show ?case using 0 by (auto simp: bind_eq_Some_conv)
next
  case (Suc n)
  obtain s1 where 1: "icmpv4_send_echo (ipv4_addr_new 8 8 8 8) 0xcafe 0xcafe sb s = Some (Inl EAGAIN, s1)"
    "\<forall>s''. env s1 = Some s'' \<longrightarrow> P s''" using assms(1) [OF Suc.prems(1)] by blast
  obtain s2 where "env s1 = Some s2" "ping_loop env (Suc n) (Inl EAGAIN) sb s2 = Some (r, s')"
    using Suc.prems(2) 1(1) by (auto simp: bind_eq_Some_conv simp del: ping_loop.simps(2) simp add: ping_loop.simps(2) [of _ "Suc n"])
  then show ?case using Suc.IH 1(2) by blast
qed

lemma ping_unanswered_halts:
  assumes "\<And>sb s. P s \<Longrightarrow> \<exists>s'. icmpv4_send_echo (ipv4_addr_new 8 8 8 8) 0xcafe 0xcafe sb s = Some (Inl EAGAIN, s') \<and> (\<forall>s''. env s' = Some s'' \<longrightarrow> P s'')"
    and "\<And>kv. P (s\<lparr>tcp_kv := kv\<rparr>)"
  shows "task_net_ping env s = None"
proof (rule ccontr)
  assume "task_net_ping env s \<noteq> None"
  then obtain s' where "task_net_ping env s = Some s'" by blast
  then obtain kv sb r where r: "ping_loop env (Suc 4) ok sb (s\<lparr>tcp_kv := kv\<rparr>) = Some (r, s')" "\<not> is_error r"
    unfolding task_net_ping_def numeral_eq_Suc by (auto simp: bind_eq_Some_conv kassert_def split: if_splits simp del: ping_loop.simps)
  have "r = Inl EAGAIN" using ping_loop_again [OF assms(1) assms(2) r(1)] by blast
  then show False using r(2) by simp
qed

section \<open>Routing after the initialisation\<close>

lemma init_queue_routes: "netdev_init_input_queue s = Some (r, s') \<Longrightarrow> route_table s' = route_table s"
  by (auto simp: netdev_init_input_queue_def bind_eq_Some_conv Let_def split: if_splits)

lemma two_routes:
  fixes s :: "('d, 'z) tcp_net_scheme" and d l :: ipv4_route_entry
  assumes "route_table s = replicate GLOBAL_ROUTE_TABLE_SIZE None"
  shows "ipv4_route_add d s = (ok, s\<lparr>route_table := Some d # replicate 31 None\<rparr>)"
    "ipv4_route_add l (s\<lparr>route_table := Some d # replicate 31 None\<rparr>) = (ok, s\<lparr>route_table := Some d # Some l # replicate 30 None\<rparr>)"
proof -
  have r: "route_table s = None # replicate 31 None" "replicate 31 None = None # replicate 30 (None :: ipv4_route_entry option)"
    using assms by (simp_all add: GLOBAL_ROUTE_TABLE_SIZE_def numeral_eq_Suc)
  show "ipv4_route_add d s = (ok, s\<lparr>route_table := Some d # replicate 31 None\<rparr>)"
    by (simp add: ipv4_route_add_def r(1))
  show "ipv4_route_add l (s\<lparr>route_table := Some d # replicate 31 None\<rparr>) = (ok, s\<lparr>route_table := Some d # Some l # replicate 30 None\<rparr>)"
    unfolding r(2) by (simp add: ipv4_route_add_def)
qed

lemma route_best_unused: "route_best a (replicate n None) k best = best"
  by (induction n) simp_all

lemma two_routes_lookup:
  assumes "route_table s = Some (default_route gw host) # Some (local_route net msk host) # replicate 30 None"
  shows "ipv4_route_get_entry dest s = Some (if ipv4_addr_mask dest msk = net then local_route net msk host else default_route gw host)"
proof -
  have z: "ipv4_addr_mask dest (Ipv4 0 0 0 0) = Ipv4 0 0 0 0" by (cases dest) simp
  have "count_set_bits (Ipv4 0 0 0 0) = 0" by (simp add: count_set_bits_def count_bits_loop.simps)
  then show ?thesis using count_set_bits_nonneg [of msk]
    by (simp add: ipv4_route_get_entry_def assms default_route_def local_route_def ipv4_addr_new_def z Let_def route_best_unused)
qed

text \<open>
  After the initialisation the addresses of the local network are reached directly, and all others through the gateway.
  The initialisation goes as far as the allocation of the input queue.
\<close>

theorem init_net_routes:
  assumes "host_ip cfg = Some host" "default_gateway_ip cfg = Some gw" "local_ip cfg = Some net" "local_ip_mask cfg = Some msk"
    and "route_table s = replicate GLOBAL_ROUTE_TABLE_SIZE None" "ipv4_mask_prefix_length msk \<noteq> None"
    and "arena_alloc arn 32 = Some (a1, arn1)" "arena_alloc arn1 32 = Some (a2, arn2)" "arena_alloc arn2 32 = Some (a3, arn3)"
  defines "s2 \<equiv> s\<lparr>route_table := Some (default_route gw host) # Some (local_route net msk host) # replicate 30 None,
    net_default_ip_addr := host\<rparr>"
  shows "init_net cfg arn s = (case netdev_init_input_queue s2 of Some (Inr _, s') \<Rightarrow> Some s' | _ \<Rightarrow> None)"
    "init_net cfg arn s = Some s' \<Longrightarrow> ipv4_route_get_entry dest s' =
       Some (if ipv4_addr_mask dest msk = net then local_route net msk host else default_route gw host)"
proof -
  obtain t1 t2 t3 where t: "ipv4_addr_format host arn = Some (t1, arn1)" "ipv4_addr_format gw arn1 = Some (t2, arn2)"
    "ipv4_addr_format net arn2 = Some (t3, arn3)"
    using ipv4_addr_format_parse [OF assms(7)] ipv4_addr_format_parse [OF assms(8)] ipv4_addr_format_parse [OF assms(9)] by metis
  obtain n where n: "ipv4_mask_prefix_length msk = Some n" using assms(6) by auto
  show 1: "init_net cfg arn s = (case netdev_init_input_queue s2 of Some (Inr _, s') \<Rightarrow> Some s' | _ \<Rightarrow> None)"
  proof (cases "netdev_init_input_queue s2")
    case None
    then show ?thesis using assms(1-4)
      by (simp add: init_net_def two_routes [OF assms(5)] netdev_set_default_ip_addr_def s2_def)
  next
    case (Some q)
    obtain r s3 where "q = (r, s3)" by (cases q)
    then show ?thesis using Some assms(1-4) t n
      by (cases r) (simp_all add: init_net_def two_routes [OF assms(5)] netdev_set_default_ip_addr_def s2_def kassert_def)
  qed
  assume "init_net cfg arn s = Some s'"
  then obtain u where "netdev_init_input_queue s2 = Some (Inr u, s')" unfolding 1 by (auto split: option.splits sum.splits)
  from init_queue_routes [OF this] have "route_table s' = Some (default_route gw host) # Some (local_route net msk host) # replicate 30 None"
    by (simp add: s2_def)
  then show "ipv4_route_get_entry dest s' = Some (if ipv4_addr_mask dest msk = net then local_route net msk host else default_route gw host)"
    by (rule two_routes_lookup)
qed

end
