(* ===== verification/BuddyProps.thy ===== *)
theory BuddyProps
  imports Buddy
begin

text \<open>
  Histories of the buddy allocator. At every moment the region of the allocator is tiled by blocks: those in
  the free lists and those that are in use. Allocating splits a tile, freeing merges tiles. The invariant
  \<open>buddy_ok\<close> relates the allocator to the tiles; what the free lists need comes from the interface of the
  intrusive lists.
\<close>

section \<open>Tiles\<close>


definition region :: "buddy \<Rightarrow> addr set" where
  "region b = {bd_base b ..< bd_base b + 2 ^ nat (bd_max_ord b) * PAGE_SIZE}"



lemma PAGE_SIZE_pos [simp]: "0 < PAGE_SIZE" "PAGE_SIZE \<noteq> 0" "0 \<le> PAGE_SIZE"
  by (simp_all add: PAGE_SIZE_def)







section \<open>The invariant\<close>


text \<open>The free lists hold the addresses \<open>fl\<close>; every page of the region has room for the links of a block.\<close>

definition lists_ok :: "buddy \<Rightarrow> (nat \<Rightarrow> addr list) \<Rightarrow> bool" where
  "lists_ok b fl \<longleftrightarrow> (\<forall>k < N_FREE_LISTS. ring (bd_links b) (Head k) (map Blk (fl k))) \<and>
     (\<forall>k. bd_max_ord b < int k \<longrightarrow> fl k = []) \<and>
     (\<forall>a \<in> region b. PAGE_SIZE dvd a - bd_base b \<longrightarrow> bd_links b (Blk a) \<noteq> None)"







lemma map_Blk_in [simp]: "Blk a \<in> set (map Blk xs) \<longleftrightarrow> a \<in> set xs"
  by auto





section \<open>Allocating\<close>










lemma lists_ok_upd [simp]:
  "lists_ok (b\<lparr>bd_bitmap := bm\<rparr>) fl = lists_ok b fl" "lists_ok (b\<lparr>bd_ord := os\<rparr>) fl = lists_ok b fl"
  by (simp_all add: lists_ok_def region_def)



section \<open>Freeing\<close>













section \<open>The start\<close>





section \<open>Sizes\<close>


section \<open>Histories\<close>











section \<open>What the clients of the allocator see\<close>





end
