(* ===== verification/Spec2Isabelle.thy ===== *)
theory Spec2Isabelle
  imports Dlist Time TcpProps RamProps SchedProps WebProps WebLive PagingProps NetInput Rtcfg Console Cpu PciProps E1000Rx
    E1000Tx Archive BootProps
    Start PagingInit NetInit BuddyProps
begin

text \<open>
  Tatix is a small kernel for x86-64 with a RAM file system and a network stack. This library
  models its core in HOL, theory by theory in the order in which the code is layered, and proves
  what makes the parts correct.

  \<^bold>\<open>How code becomes HOL.\<close> A C function is a function of the same name. A run that can stop the
  machine (a failed \<open>assert\<close>, \<open>crash\<close>) or that leaves C (an access outside of an object) has a
  type \<^typ>\<open>'a option\<close> and gives \<^term>\<open>None\<close> there; so "returns \<^term>\<open>Some\<close>" is a theorem
  about the absence of these. Error returns are values, \<^term>\<open>Inl\<close> of \<^typ>\<open>'a res\<close>. State that
  C changes through a pointer or a global variable is passed in and returned. The types u8 to u64 are
  words, so their arithmetic wraps; the 64-bit sizes \<open>sz\<close> are integers, and where the code
  itself tests for overflow the bound is \<open>SZ_MAX\<close>. Debug output is left out.

  \<^bold>\<open>The theories.\<close>

  \<^item> Prelude: the types of include/tx/base.h, \<open>assert\<close> and \<open>crash\<close>, the error codes, array access.
  \<^item> Bytes: include/tx/byte.h and string.h. Views and strings are byte lists; a buffer has its
    memory, its length and its capacity.
  \<^item> Fmt: include/tx/fmt.h, numbers and the printf-like interpreter.
  \<^item> Arena: include/tx/arena.h and pool.h, over addresses and a memory of words; the contract of a
    block allocator is the locale \<open>block_allocator\<close>, interpreted on the pool.
  \<^item> Dlist: include/tx/list.h on a heap of links, with rings as their abstraction; the contract that
    the lists' users need is the locale \<open>intrusive_list\<close>, interpreted on the list functions.
  \<^item> Buddy, BuddyProps: src/buddy.c and src/kvalloc.c: bitmap, free lists, splitting, coalescing, in Buddy; BuddyProps
    shows that the free blocks and those in use tile the region in every history.
  \<^item> Mmu: the translation of the processor, from its manual and not from the code: a walk through four levels of entries in
    physical memory, with the rights of all levels and the memory type. No definition of it comes from the code.
  \<^item> Paging, PagingTree, PagingMap, PagingTable, PagingProps: src/paging.c. Paging has the table of
    address mappings, the translations, and the page tables as words of the memory of their pool; \<open>pt_walk\<close> is the
    lookup with the functions of the kernel. PagingTree ties these words to a tree of tables; PagingMap proves mapping and
    unmapping of a page against \<open>pt_walk\<close> and relates it to the translation of Mmu; PagingTable is about the table of
    mappings over all its histories; PagingProps about what the processor translates, regions, and the failing cases.
  \<^item> NetAddr: netorder.h, ip_addr.h, mac_addr.h and src/net/ip_addr.c: byte order, parser,
    formatter.
  \<^item> SendBuf, Fifo, Netdev: send_buf.c and netdev.c: packets under construction, the ring
    of received packets, the device table, link layer. Netdev has the steps of the interrupt and of the receiving task on the
    ring, in any order. Fifo has the reading of a ring and the contract \<open>bounded_fifo\<close> of a queue whose operations are atomic.
  \<^item> Checksum, Arp, Ip, Icmp: the internet checksum, the ARP table (shown to be a map) and handler,
    routing and sending, echo.
  \<^item> CircBuf, TcpConn, Tcp, TcpInv, TcpMachine, TcpProps: src/net/tcp.c. CircBuf is the byte ring of
    a connection, an instance of \<open>bounded_fifo\<close>. TcpConn has the connection record, the table of 64
    connections, lookup, and sending; Tcp the handlers per state and the user interface; TcpInv the
    invariant and its preservation by handlers; TcpMachine the dispatcher and the system calls as
    one transition function on all connections; TcpProps the properties.
  \<^item> RamPath, RamFs, RamTree, RamCreate, RamData, RamProps: src/ramfs.c and include/tx/alloc.h.
    RamPath is the path parser and printer; RamFs the allocator as a value with two functions, the
    heap of nodes, lookup, creation, reading and writing; RamTree the specification as a tree of
    names; RamCreate and RamData the refinement; RamProps the properties.
  \<^item> Sched, SchedProps: src/sched.c (and the switch of src/sched.s): tasks, the list of sleeping
    tasks, creating, sleeping, finishing. A suspended task carries the point where it goes on.
  \<^item> Web, WebProps, WebConn, WebServe, WebLive: src/web.c. Web has requests, responses and serving files, with
    its properties in WebProps; WebConn waiting, receiving, sending and closing; WebServe what happens
    to connections; WebLive that responses go out. What other tasks do while the server sleeps is a function \<open>env\<close>; its laws are the
    locale \<open>web_world\<close>, interpreted on the arrival of any segments through \<open>tcp_handle_packet\<close>.
  \<^item> Time: src/time.c, the calibration of the time stamp counter.
  \<^item> NetInput: the allocation of the input queue (netdev.c), \<open>ipv4_handle_packet\<close> (ip.c) and the task that
    handles received packets (init.c), and a ping followed from the wire to the wire.
  \<^item> Rtcfg: src/rtcfg.c, the parser of the configuration file, equal to a description of its lines.
  \<^item> Ports: include/tx/pic.h, on the records \<open>port_io\<close> and \<open>mmio\<close> that stand for the instructions of
    include/tx/asm.h.
  \<^item> Console: src/com.c and src/print.c, the serial port and formatted output.
  \<^item> Isr, Cpu: src/isr.c, gdt.c and idt.c. Isr has the handler table, the dispatcher, and the stubs as
    pushes and pops on a stack; Cpu the descriptors, as words, and what the processor reads from them.
  \<^item> Pci, PciProps: src/pci.c. Pci has the configuration space behind its two ports, the base address registers,
    the scan and the drivers; PciProps a device as the registers it decodes.
  \<^item> E1000, E1000Rx, E1000Tx: src/net/e1000.c. E1000 is the driver, the rings being lists in the record of the
    device; E1000Rx has the steps of the controller on the receive ring beside those of the driver, and the way
    of a frame from the ring to the input queue; E1000Tx the transmit ring.
  \<^item> Endian, Archive: src/archive.c and the script that builds the archive of the root file system
    (scripts/archive.py), over little-endian fields. Extracting what the script built stores its files.
  \<^item> Boot, BootProps: bootloader/load_kernel.c, the disk over port operations, the ELF headers, and
    the segments that are in memory when the kernel starts.
  \<^item> Start: \<open>_start\<close> in src/init.c, the first page tables, and what the processor (Mmu) translates with them.
  \<^item> PagingInit, NetInit: \<open>init_memory\<close>, \<open>init_net\<close> and \<open>task_net_ping\<close> in src/init.c. PagingInit has the page tables of the
    kernel and the block that its allocator begins with, for the addresses in config.mk; NetInit the two routes.

  \<^bold>\<open>Composition.\<close> A datagram goes from \<open>tcp_conn_send\<close> or \<open>icmpv4_send_echo\<close> through
  \<open>ipv4_send_packet\<close> (route, next hop, ARP lookup or request) to \<open>netdev_send\<close>, whose last step is
  the device driver, a field of the device record, which \<open>e1000_probe\<close> fills with \<open>e1000_netdev_send_frame\<close>. A frame
  that the controller has put into its ring raises an interrupt: \<open>cpu_interrupt\<close> runs the stub, the dispatcher and
  \<open>e1000_handle_interrupt\<close>, which hands it to \<open>netdev_intr_receive\<close>; it waits in the input queue until
  \<open>net_receive_round\<close> takes it to \<open>arp_handle_packet\<close> or \<open>ipv4_handle_packet\<close>, and from there to
  \<open>icmpv4_handle_message\<close> or \<open>tcp_handle_packet\<close>. \<open>pci_probe\<close> finds the devices and calls \<open>e1000_probe\<close>, which maps the
  registers with \<open>paging_map_region\<close> and registers the device and its interrupt. The web server takes connections from
  TCP, gives the path of a request to \<open>ram_fs_open\<close> and sends the file with \<open>tcp_conn_send\<close>; the file
  system takes its nodes from a pool and its data from an allocator; page tables come from a pool.
  The theories call each other's functions in the same places.

  \<^bold>\<open>What the lemmas show.\<close> For every data structure: what each operation does to an abstract value
  (a list for rings, queues and buffers, a finite map for the ARP table, the set of free blocks
  for pools, a tree of names for the file system, the translation of the processor for page tables, the tiles of its region for the buddy allocator),
  so that its clients need nothing of its layout. For every parser and formatter: round
  trips and the absence of reads out of bounds. For the network: what a call puts on the wire and
  that the receiving side accepts it. For TCP and the scheduler: an invariant of all reachable states
  over arbitrary interleavings, and the transitions. For the web server: the answer to every request, and
  that it goes out and the connection is closed while the peer goes on reading. Where the code halts on an input from the network, hands
  out memory twice or runs for ever, a theorem says so.

  \<^bold>\<open>Loops and bounds.\<close> Loops over data are structural recursion, or a \<open>function\<close> with a measure.
  Loops whose end depends on the environment (the PIT wait, the loop of \<open>tcp_conn_send\<close>, the loops of
  the web server, the walk over a list of connections) are \<open>partial_function (option)\<close>: a run that never ends is \<^term>\<open>None\<close>,
  and the termination theorems show \<^term>\<open>Some\<close> under the named hypotheses. No fuel is used. Table
  sizes (64 connections, 64 devices, the ring of received packets) are the constants of the code.

  \<^bold>\<open>Hypotheses about code outside.\<close> Port and register accesses, the time stamp counter, the PIT, \<open>cpuid\<close>, the
  random number instruction, the allocator behind a file system and the commit string of the build
  are parameters: functions, streams of readings or values. What hardware does is a named hypothesis:
  \<open>config_mechanism\<close> (the two configuration ports of PCI), \<open>port_transmits\<close> (the serial port), \<open>rx_registers\<close> and
  \<open>tx_registers\<close> (the tail registers of the controller), \<open>ata_disk\<close> (a disk that answers a command with the words
  of a sector), \<open>backs\<close> (the physical memory holds the words of the kernel's page tables), \<open>peer_reads\<close> (a peer that goes on
  acknowledging). A free of the buddy allocator is considered when it merges whole free blocks (\<open>merges_free\<close>): the code does not test it.

  \<^bold>\<open>Not modelled.\<close> The 16-bit assembly of the boot loader, \<open>kernel_init\<close> in init.c, which calls the
  initialisations one after the other, and the boot-time self-test of the file system; they are
  listed with the reason in the manifest. Of the processor, what a TLB remembers is left
  out: \<open>mmu\<close> reads the memory at every access. Addresses are integers, so pointers near the end of the address space do not wrap around.
\<close>

end
